(* ===== verification/Js_Prelude.thy ===== *)
theory Js_Prelude
  imports Complex_Main "HOL-Library.AList" "HOL-Library.Multiset"
begin

text \<open>
  The vocabulary every component shares: the values of the mongo shell's JavaScript, its
  exceptions, pure fallible computations (\<open>result\<close>), stateful ones (\<open>eff\<close>) and the generic
  list lemmas the component proofs rest on.

  Numbers are exact: a finite number is a rational, beside \<open>NaN\<close> and the two infinities (the
  sign of zero and the rounding of doubles are not represented).  An object is the list of its
  own enumerable properties in insertion order.  A function value is known by a name and by the
  number of parameters it declares.  \<open>JLong\<close> and \<open>JInt\<close> are the shell's \<open>NumberLong\<close> and
  \<open>NumberInt\<close>; \<open>JExt\<close> is any other shell object (an ObjectId, a Timestamp, a session id), known
  by its class and its printed form.
\<close>

named_theorems js_simps \<open>evaluation of values, results and effects\<close>
named_theorems keeps_rules \<open>an invariant survives an effect\<close>
named_theorems safe_rules \<open>an invariant survives an effect that ends\<close>

section \<open>Values\<close>

datatype jsnum = NaN | NegInf | PosInf | Fin rat

datatype jsval =
    Undef
  | Null
  | JBool bool
  | JNum jsnum
  | JStr string
  | JArr "jsval list"
  | JObj "(string \<times> jsval) list"
  | JFun string nat
  | JLong int
  | JInt int
  | JExt string string

abbreviation jnum :: "int \<Rightarrow> jsval" where
  "jnum i \<equiv> JNum (Fin (of_int i))"

fun typeof :: "jsval \<Rightarrow> string" where
  "typeof Undef = ''undefined''"
| "typeof (JBool _) = ''boolean''"
| "typeof (JNum _) = ''number''"
| "typeof (JStr _) = ''string''"
| "typeof (JFun _ _) = ''function''"
| "typeof _ = ''object''"

fun truthy :: "jsval \<Rightarrow> bool" where
  "truthy Undef = False"
| "truthy Null = False"
| "truthy (JBool b) = b"
| "truthy (JNum NaN) = False"
| "truthy (JNum (Fin q)) = (q \<noteq> 0)"
| "truthy (JStr s) = (s \<noteq> [])"
| "truthy _ = True"

definition js_or :: "jsval \<Rightarrow> jsval \<Rightarrow> jsval" where
  "js_or a b = (if truthy a then a else b)"

fun is_array :: "jsval \<Rightarrow> bool" where
  "is_array (JArr _) = True"
| "is_array _ = False"

fun is_integer :: "jsval \<Rightarrow> bool" where
  "is_integer (JNum (Fin q)) = (of_int \<lfloor>q\<rfloor> = q)"
| "is_integer _ = False"

fun is_primitive :: "jsval \<Rightarrow> bool" where
  "is_primitive (JArr _) = False"
| "is_primitive (JObj _) = False"
| "is_primitive (JLong _) = False"
| "is_primitive (JInt _) = False"
| "is_primitive (JExt _ _) = False"
| "is_primitive _ = True"

text \<open>
  Strict equality \<open>===\<close>, for the operands the sources compare with it: at least one of them is a
  primitive value, so no two distinct objects are ever compared.
\<close>

definition strict_eq :: "jsval \<Rightarrow> jsval \<Rightarrow> bool" where
  "strict_eq a b \<longleftrightarrow> is_primitive a \<and> a \<noteq> JNum NaN \<and> a = b"

section \<open>Numbers\<close>

fun num_add :: "jsnum \<Rightarrow> jsnum \<Rightarrow> jsnum" where
  "num_add (Fin a) (Fin b) = Fin (a + b)"
| "num_add NaN _ = NaN"
| "num_add _ NaN = NaN"
| "num_add PosInf NegInf = NaN"
| "num_add NegInf PosInf = NaN"
| "num_add PosInf _ = PosInf"
| "num_add NegInf _ = NegInf"
| "num_add _ PosInf = PosInf"
| "num_add _ NegInf = NegInf"

text \<open>A finite factor scaling a number: zero times an infinity is \<open>NaN\<close>.\<close>

fun num_scale :: "rat \<Rightarrow> jsnum \<Rightarrow> jsnum" where
  "num_scale a (Fin b) = Fin (a * b)"
| "num_scale a NaN = NaN"
| "num_scale a PosInf = (if a = 0 then NaN else if a > 0 then PosInf else NegInf)"
| "num_scale a NegInf = (if a = 0 then NaN else if a > 0 then NegInf else PosInf)"

text \<open>Every comparison with \<open>NaN\<close> is false.\<close>

fun num_less :: "jsnum \<Rightarrow> jsnum \<Rightarrow> bool" where
  "num_less (Fin a) (Fin b) = (a < b)"
| "num_less NaN _ = False"
| "num_less _ NaN = False"
| "num_less NegInf NegInf = False"
| "num_less NegInf _ = True"
| "num_less PosInf _ = False"
| "num_less (Fin _) PosInf = True"
| "num_less (Fin _) NegInf = False"

fun to_number :: "jsval \<Rightarrow> jsnum" where
  "to_number (JNum x) = x"
| "to_number Null = Fin 0"
| "to_number (JBool b) = Fin (if b then 1 else 0)"
| "to_number (JLong i) = Fin (of_int i)"
| "to_number (JInt i) = Fin (of_int i)"
| "to_number _ = NaN"

section \<open>Decimal numerals\<close>

definition digit_char :: "nat \<Rightarrow> char" where
  "digit_char d = char_of (48 + d)"

fun show_nat :: "nat \<Rightarrow> string" where
  "show_nat n = (if n < 10 then [digit_char n] else show_nat (n div 10) @ [digit_char (n mod 10)])"

declare show_nat.simps [simp del]

lemma digit_char_inj: "d < 10 \<Longrightarrow> e < 10 \<Longrightarrow> digit_char d = digit_char e \<Longrightarrow> d = e"
  by (simp add: digit_char_def char_of_eq_iff take_bit_eq_mod)

lemma show_nat_ne [simp]: "show_nat n \<noteq> []" "[] \<noteq> show_nat n"
  by (subst show_nat.simps, simp)+

lemma show_nat_inj: "show_nat m = show_nat n \<Longrightarrow> m = n"
proof (induction m arbitrary: n rule: show_nat.induct)
  case (1 m)
  show ?case
  proof (cases "m < 10")
    case True
    then have m: "show_nat m = [digit_char m]" by (simp add: show_nat.simps [of m])
    show ?thesis
    proof (cases "n < 10")
      case True
      then show ?thesis
        using 1(2) m \<open>m < 10\<close> by (simp add: show_nat.simps [of n] digit_char_inj)
    next
      case False
      then show ?thesis using 1(2) m by (simp add: show_nat.simps [of n])
    qed
  next
    case mbig: False
    then have m: "show_nat m = show_nat (m div 10) @ [digit_char (m mod 10)]"
      by (simp add: show_nat.simps [of m])
    show ?thesis
    proof (cases "n < 10")
      case True
      then show ?thesis using 1(2) m by (simp add: show_nat.simps [of n])
    next
      case False
      then have "show_nat n = show_nat (n div 10) @ [digit_char (n mod 10)]"
        by (simp add: show_nat.simps [of n])
      then have "show_nat (m div 10) = show_nat (n div 10)"
        and "digit_char (m mod 10) = digit_char (n mod 10)"
        using 1(2) m by simp_all
      then have "m div 10 = n div 10" and "m mod 10 = n mod 10"
        using 1(1) [OF mbig] by (auto intro: digit_char_inj)
      then show ?thesis by (metis div_mult_mod_eq)
    qed
  qed
qed

lemma show_nat_eq_iff [simp]: "show_nat m = show_nat n \<longleftrightarrow> m = n"
  by (auto dest: show_nat_inj)

section \<open>Objects\<close>

text \<open>
  The own enumerable properties: those of an object, the indices of an array or of a string.
\<close>

fun props :: "jsval \<Rightarrow> (string \<times> jsval) list" where
  "props (JObj kvs) = kvs"
| "props (JArr xs) = zip (map show_nat [0..<length xs]) xs"
| "props (JStr cs) = zip (map show_nat [0..<length cs]) (map (\<lambda>c. JStr [c]) cs)"
| "props _ = []"

definition obj_keys :: "jsval \<Rightarrow> string list" where
  "obj_keys v = map fst (props v)"

definition has_own :: "jsval \<Rightarrow> string \<Rightarrow> bool" where
  "has_own v k \<longleftrightarrow> k \<in> set (obj_keys v)"

definition fld :: "jsval \<Rightarrow> string \<Rightarrow> jsval" where
  "fld v k = (case map_of (props v) k of None \<Rightarrow> Undef | Some x \<Rightarrow> x)"

definition set_prop :: "string \<Rightarrow> jsval \<Rightarrow> jsval \<Rightarrow> jsval" where
  "set_prop k x v = JObj (AList.update k x (props v))"

definition del_prop :: "string \<Rightarrow> jsval \<Rightarrow> jsval" where
  "del_prop k v = JObj (AList.delete k (props v))"

text \<open>\<open>Object.assign(dst, src)\<close>: the properties of \<open>src\<close> written over \<open>dst\<close>, in order.\<close>

definition obj_assign :: "jsval \<Rightarrow> jsval \<Rightarrow> jsval" where
  "obj_assign dst src = fold (\<lambda>(k, x). set_prop k x) (props src) dst"

fun arr_elems :: "jsval \<Rightarrow> jsval list" where
  "arr_elems (JArr xs) = xs"
| "arr_elems _ = []"

lemma props_set_prop [simp]: "props (set_prop k x v) = AList.update k x (props v)"
  by (simp add: set_prop_def)

lemma props_del_prop [simp]: "props (del_prop k v) = AList.delete k (props v)"
  by (simp add: del_prop_def)

lemma fld_set_prop [simp]:
  "fld (set_prop k x v) k' = (if k' = k then x else fld v k')"
  by (simp add: fld_def update_conv')

lemma fld_del_prop [simp]:
  "fld (del_prop k v) k' = (if k' = k then Undef else fld v k')"
  by (auto simp: fld_def delete_conv' split: option.split)

lemma has_own_map_of: "has_own v k \<longleftrightarrow> map_of (props v) k \<noteq> None"
  by (simp add: has_own_def obj_keys_def map_of_eq_None_iff)

lemma has_own_set_prop [simp]: "has_own (set_prop k x v) k' \<longleftrightarrow> k' = k \<or> has_own v k'"
  by (simp add: has_own_map_of update_conv')

lemma has_own_del_prop [simp]: "has_own (del_prop k v) k' \<longleftrightarrow> k' \<noteq> k \<and> has_own v k'"
  by (simp add: has_own_map_of delete_conv')

lemma fld_not_own: "\<not> has_own v k \<Longrightarrow> fld v k = Undef"
  by (simp add: has_own_map_of fld_def)

lemma set_prop_same: "v = JObj kvs \<Longrightarrow> has_own v k \<Longrightarrow> set_prop k (fld v k) v = v"
proof -
  have "map_of kvs k = Some x \<Longrightarrow> AList.update k x kvs = kvs" for x
    by (induction kvs) auto
  then show "v = JObj kvs \<Longrightarrow> has_own v k \<Longrightarrow> set_prop k (fld v k) v = v"
    by (auto simp: set_prop_def fld_def has_own_map_of split: option.split)
qed

lemma fld_JObj_props [simp]: "fld (JObj (props v)) k = fld v k"
  by (simp add: fld_def)

lemma has_own_JObj_props [simp]: "has_own (JObj (props v)) k = has_own v k"
  by (simp add: has_own_def obj_keys_def)

lemma obj_keys_JObj_props [simp]: "obj_keys (JObj (props v)) = obj_keys v"
  by (simp add: obj_keys_def)

lemma obj_keys_set_prop: "set (obj_keys (set_prop k x v)) = insert k (set (obj_keys v))"
  by (simp add: obj_keys_def AList.dom_update)

lemma typeof_cases:
  "typeof v = ''number'' \<longleftrightarrow> (\<exists>x. v = JNum x)"
  "typeof v = ''string'' \<longleftrightarrow> (\<exists>x. v = JStr x)"
  "typeof v = ''boolean'' \<longleftrightarrow> (\<exists>x. v = JBool x)"
  "typeof v = ''function'' \<longleftrightarrow> (\<exists>f n. v = JFun f n)"
  "typeof v = ''undefined'' \<longleftrightarrow> v = Undef"
  by (cases v; simp)+

lemma typeof_set_prop [simp]: "typeof (set_prop k x v) = ''object''"
  by (simp add: set_prop_def)

lemma truthy_set_prop [simp]: "truthy (set_prop k x v)"
  by (simp add: set_prop_def)

lemma js_or_truthy: "truthy b \<Longrightarrow> truthy (js_or a b)"
  by (simp add: js_or_def)

lemma js_or_idem [simp]: "js_or (js_or a b) b = js_or a b"
  by (simp add: js_or_def)

lemma fld_assign:
  "distinct (map fst (props s)) \<Longrightarrow> fld (obj_assign d s) k = (if has_own s k then fld s k else fld d k)"
proof -
  have "distinct (map fst kvs) \<Longrightarrow> fld (fold (\<lambda>(k, x). set_prop k x) kvs d) k =
      (case map_of kvs k of None \<Rightarrow> fld d k | Some x \<Rightarrow> x)" for kvs d
    by (induction kvs arbitrary: d) (auto simp: map_of_eq_None_iff [symmetric] split: option.split)
  then show "distinct (map fst (props s)) \<Longrightarrow> fld (obj_assign d s) k = (if has_own s k then fld s k else fld d k)"
    by (auto simp: obj_assign_def has_own_map_of fld_def [of s] split: option.split)
qed

lemma has_own_assign: "has_own (obj_assign d s) k \<longleftrightarrow> has_own d k \<or> has_own s k"
proof -
  have "has_own (fold (\<lambda>(k, x). set_prop k x) kvs d) k \<longleftrightarrow> has_own d k \<or> k \<in> fst ` set kvs" for kvs d
    by (induction kvs arbitrary: d) auto
  then show ?thesis by (simp add: obj_assign_def has_own_def [of s] obj_keys_def)
qed

text \<open>Assigning properties an object already has changes nothing.\<close>

lemma assign_absorb:
  assumes "\<And>k. has_own s k \<Longrightarrow> has_own (JObj kvs) k \<and> fld (JObj kvs) k = fld s k" and "distinct (map fst (props s))"
  shows "obj_assign (JObj kvs) s = JObj kvs"
proof -
  have same: "\<forall>(k, x) \<in> set ps. set_prop k x (JObj kvs) = JObj kvs \<Longrightarrow>
      fold (\<lambda>(k, x). set_prop k x) ps (JObj kvs) = JObj kvs" for ps
    by (induction ps) auto
  have "set_prop k x (JObj kvs) = JObj kvs" if "(k, x) \<in> set (props s)" for k x
    using that assms(1) [of k] assms(2) set_prop_same [OF refl, of kvs k]
    by (force simp: fld_def [of s] has_own_def obj_keys_def)
  then show ?thesis using same [of "props s"] by (auto simp: obj_assign_def)
qed

section \<open>Exceptions and pure results\<close>

datatype exn =
    AssertFail string     \<comment> \<open>a failed \<open>assert\<close>, with its message\<close>
  | Err string            \<comment> \<open>\<open>throw new Error(message)\<close>\<close>
  | TypeErr string        \<comment> \<open>a property of \<open>undefined\<close> or \<open>null\<close>, a call of a non-function\<close>
  | RefErr string         \<comment> \<open>an undeclared variable\<close>
  | ErrObj jsval          \<comment> \<open>an exception object raised by the shell or by a command\<close>

type_synonym 'a result = "exn + 'a"

definition require :: "bool \<Rightarrow> string \<Rightarrow> 'a result \<Rightarrow> 'a result" where
  "require c msg k = (if c then k else Inl (AssertFail msg))"

definition rbind :: "'a result \<Rightarrow> ('a \<Rightarrow> 'b result) \<Rightarrow> 'b result" where
  "rbind m f = (case m of Inl e \<Rightarrow> Inl e | Inr x \<Rightarrow> f x)"

lemma require_Inr [simp]: "require c msg k = Inr x \<longleftrightarrow> c \<and> k = Inr x"
  by (simp add: require_def)

lemma require_True [simp]: "require True msg k = k"
  by (simp add: require_def)

lemma require_False [simp]: "require False msg k = Inl (AssertFail msg)"
  by (simp add: require_def)

lemma rbind_simps [simp]:
  "rbind (Inl e) f = Inl e"
  "rbind (Inr x) f = f x"
  by (simp_all add: rbind_def)

lemma rbind_cong [fundef_cong]: "m = n \<Longrightarrow> (\<And>x. n = Inr x \<Longrightarrow> f x = g x) \<Longrightarrow> rbind m f = rbind n g"
  by (cases n) auto

lemma rbind_Inr: "rbind m f = Inr y \<longleftrightarrow> (\<exists>x. m = Inr x \<and> f x = Inr y)"
  by (cases m) auto

text \<open>\<open>xs.forEach(f)\<close> for a body that only checks: the first failure ends it.\<close>

fun require_each :: "('a \<Rightarrow> unit result) \<Rightarrow> 'a list \<Rightarrow> unit result" where
  "require_each f [] = Inr ()"
| "require_each f (x # xs) = rbind (f x) (\<lambda>_. require_each f xs)"

lemma require_each_Inr [simp]: "require_each f xs = Inr u \<longleftrightarrow> (\<forall>x \<in> set xs. f x = Inr ())"
  by (induction xs) (auto simp: rbind_Inr)

text \<open>\<open>Object.keys(v)\<close> and the property read \<open>v[k]\<close>, which throw on \<open>undefined\<close> and \<open>null\<close>.\<close>

definition object_keys :: "jsval \<Rightarrow> string list result" where
  "object_keys v =
     (if v = Undef \<or> v = Null then Inl (TypeErr ''can't convert to object'') else Inr (obj_keys v))"

definition get_prop :: "jsval \<Rightarrow> string \<Rightarrow> jsval result" where
  "get_prop v k =
     (if v = Undef \<or> v = Null then Inl (TypeErr ''has no properties'') else Inr (fld v k))"

lemma object_keys_Inr [simp]: "object_keys v = Inr ks \<longleftrightarrow> v \<noteq> Undef \<and> v \<noteq> Null \<and> ks = obj_keys v"
  by (auto simp: object_keys_def)

lemma get_prop_Inr [simp]: "get_prop v k = Inr x \<longleftrightarrow> v \<noteq> Undef \<and> v \<noteq> Null \<and> x = fld v k"
  by (auto simp: get_prop_def)

section \<open>Effects\<close>

text \<open>
  A stateful computation returns a value, throws, or runs out of the fuel that bounds the loops
  and the re-entrant calls of the sources; only an exception can be caught.
\<close>

datatype 'a outcome = Val 'a | Throw exn | Diverge

type_synonym ('s, 'a) eff = "'s \<Rightarrow> 'a outcome \<times> 's"

definition ret :: "'a \<Rightarrow> ('s, 'a) eff" where
  "ret x = (\<lambda>s. (Val x, s))"

definition raise :: "exn \<Rightarrow> ('s, 'a) eff" where
  "raise e = (\<lambda>s. (Throw e, s))"

definition diverge :: "('s, 'a) eff" where
  "diverge = (\<lambda>s. (Diverge, s))"

definition bindE :: "('s, 'a) eff \<Rightarrow> ('a \<Rightarrow> ('s, 'b) eff) \<Rightarrow> ('s, 'b) eff" where
  "bindE m f = (\<lambda>s. case m s of
      (Val x, s') \<Rightarrow> f x s' | (Throw e, s') \<Rightarrow> (Throw e, s') | (Diverge, s') \<Rightarrow> (Diverge, s'))"

definition seqE :: "('s, unit) eff \<Rightarrow> ('s, 'b) eff \<Rightarrow> ('s, 'b) eff" where
  "seqE m k = bindE m (\<lambda>_. k)"

definition getE :: "('s \<Rightarrow> 'a) \<Rightarrow> ('s, 'a) eff" where
  "getE f = (\<lambda>s. (Val (f s), s))"

definition modE :: "('s \<Rightarrow> 's) \<Rightarrow> ('s, unit) eff" where
  "modE f = (\<lambda>s. (Val (), f s))"

definition assertE :: "bool \<Rightarrow> string \<Rightarrow> ('s, unit) eff" where
  "assertE c msg = (if c then ret () else raise (AssertFail msg))"

definition liftE :: "'a result \<Rightarrow> ('s, 'a) eff" where
  "liftE r = (case r of Inl e \<Rightarrow> raise e | Inr x \<Rightarrow> ret x)"

definition tryCatch :: "('s, 'a) eff \<Rightarrow> (exn \<Rightarrow> ('s, 'a) eff) \<Rightarrow> ('s, 'a) eff" where
  "tryCatch m h = (\<lambda>s. case m s of
      (Val x, s') \<Rightarrow> (Val x, s') | (Throw e, s') \<Rightarrow> h e s' | (Diverge, s') \<Rightarrow> (Diverge, s'))"

definition tryFinally :: "('s, 'a) eff \<Rightarrow> ('s, unit) eff \<Rightarrow> ('s, 'a) eff" where
  "tryFinally m f = (\<lambda>s. case m s of
      (Diverge, s') \<Rightarrow> (Diverge, s')
    | (r, s') \<Rightarrow> (case f s' of
          (Val _, s'') \<Rightarrow> (r, s'') | (Throw e, s'') \<Rightarrow> (Throw e, s'') | (Diverge, s'') \<Rightarrow> (Diverge, s'')))"

fun forEachE :: "('a \<Rightarrow> ('s, unit) eff) \<Rightarrow> 'a list \<Rightarrow> ('s, unit) eff" where
  "forEachE f [] = ret ()"
| "forEachE f (x # xs) = seqE (f x) (forEachE f xs)"

fun mapE :: "('a \<Rightarrow> ('s, 'b) eff) \<Rightarrow> 'a list \<Rightarrow> ('s, 'b list) eff" where
  "mapE f [] = ret []"
| "mapE f (x # xs) = bindE (f x) (\<lambda>y. bindE (mapE f xs) (\<lambda>ys. ret (y # ys)))"

lemma eff_simps [js_simps]:
  "ret x s = (Val x, s)"
  "raise e s = (Throw e, s)"
  "diverge s = (Diverge, s)"
  "getE g s = (Val (g s), s)"
  "modE h s = (Val (), h s)"
  by (simp_all add: ret_def raise_def diverge_def getE_def modE_def)

lemma bindE_simps [js_simps]:
  "m s = (Val x, s') \<Longrightarrow> bindE m f s = f x s'"
  "m s = (Throw e, s') \<Longrightarrow> bindE m f s = (Throw e, s')"
  "m s = (Diverge, s') \<Longrightarrow> bindE m f s = (Diverge, s')"
  by (simp_all add: bindE_def)

lemma seqE_simps [js_simps]:
  "u s = (Val (), s') \<Longrightarrow> seqE u k s = k s'"
  "u s = (Throw e, s') \<Longrightarrow> seqE u k s = (Throw e, s')"
  "u s = (Diverge, s') \<Longrightarrow> seqE u k s = (Diverge, s')"
  by (simp_all add: seqE_def bindE_def)

lemma assertE_simps [js_simps]:
  "assertE True msg s = (Val (), s)"
  "assertE False msg s = (Throw (AssertFail msg), s)"
  "c \<Longrightarrow> assertE c msg s = (Val (), s)"
  "\<not> c \<Longrightarrow> assertE c msg s = (Throw (AssertFail msg), s)"
  by (simp_all add: assertE_def ret_def raise_def)

lemma liftE_simps [js_simps]:
  "liftE (Inl e) s = (Throw e, s)"
  "liftE (Inr x) s = (Val x, s)"
  by (simp_all add: liftE_def ret_def raise_def)

lemma tryCatch_simps [js_simps]:
  "m s = (Val x, s') \<Longrightarrow> tryCatch m h s = (Val x, s')"
  "m s = (Throw e, s') \<Longrightarrow> tryCatch m h s = h e s'"
  "m s = (Diverge, s') \<Longrightarrow> tryCatch m h s = (Diverge, s')"
  by (simp_all add: tryCatch_def)

lemma bindE_cases:
  obtains (Val) x s' where "m s = (Val x, s')" and "bindE m f s = f x s'"
    | (Throw) e s' where "m s = (Throw e, s')" and "bindE m f s = (Throw e, s')"
    | (Diverge) s' where "m s = (Diverge, s')" and "bindE m f s = (Diverge, s')"
  by (cases "m s"; cases "fst (m s)") (auto simp: js_simps)

lemma bindE_Val: "bindE m f s = (Val y, t) \<longleftrightarrow> (\<exists>x s'. m s = (Val x, s') \<and> f x s' = (Val y, t))"
  by (cases "m s"; cases "fst (m s)") (auto simp: bindE_def)

lemma bindE_Throw:
  "bindE m f s = (Throw e, t) \<longleftrightarrow>
     m s = (Throw e, t) \<or> (\<exists>x s'. m s = (Val x, s') \<and> f x s' = (Throw e, t))"
  by (cases "m s"; cases "fst (m s)") (auto simp: bindE_def)

lemma seqE_Val: "seqE m k s = (Val y, t) \<longleftrightarrow> (\<exists>s'. m s = (Val (), s') \<and> k s' = (Val y, t))"
  by (auto simp: seqE_def bindE_Val)

lemma seqE_Throw:
  "seqE m k s = (Throw e, t) \<longleftrightarrow>
     m s = (Throw e, t) \<or> (\<exists>s'. m s = (Val (), s') \<and> k s' = (Throw e, t))"
  by (auto simp: seqE_def bindE_Throw)

lemma tryCatch_Val:
  "tryCatch m h s = (Val y, t) \<longleftrightarrow>
     m s = (Val y, t) \<or> (\<exists>e s'. m s = (Throw e, s') \<and> h e s' = (Val y, t))"
  by (cases "m s"; cases "fst (m s)") (auto simp: tryCatch_def)

lemmas run_Val = bindE_Val seqE_Val tryCatch_Val

lemma ret_Val: "ret x s = (Val y, s') \<longleftrightarrow> y = x \<and> s' = s"
  by (auto simp: ret_def)

lemma assertE_Val: "assertE c msg s = (Val u, s') \<longleftrightarrow> c \<and> s' = s"
  by (auto simp: assertE_def ret_def raise_def)

lemma liftE_Val: "liftE r s = (Val y, s') \<longleftrightarrow> r = Inr y \<and> s' = s"
  by (cases r) (auto simp: liftE_def ret_def raise_def)

text \<open>\<open>settles m m'\<close>: what \<open>m\<close> computes without running out of fuel, \<open>m'\<close> computes too.\<close>

definition settles :: "('s, 'a) eff \<Rightarrow> ('s, 'a) eff \<Rightarrow> bool" where
  "settles m m' \<longleftrightarrow> (\<forall>s. fst (m s) \<noteq> Diverge \<longrightarrow> m' s = m s)"

lemma settles_refl [simp, intro]: "settles m m"
  by (simp add: settles_def)

lemma settles_diverge [simp, intro]: "settles diverge m"
  by (simp add: settles_def diverge_def)

lemma settles_bindE:
  assumes "settles m m'" and "\<And>x. settles (f x) (f' x)"
  shows "settles (bindE m f) (bindE m' f')"
  unfolding settles_def
proof (intro allI impI)
  fix s assume nd: "fst (bindE m f s) \<noteq> Diverge"
  show "bindE m' f' s = bindE m f s"
    by (rule bindE_cases [of m s f])
      (use nd assms in \<open>auto simp: settles_def bindE_def\<close>)
qed

lemma settles_seqE: "settles m m' \<Longrightarrow> settles k k' \<Longrightarrow> settles (seqE m k) (seqE m' k')"
  by (simp add: seqE_def settles_bindE)

lemma settles_tryCatch:
  assumes "settles m m'" and "\<And>e. settles (h e) (h' e)"
  shows "settles (tryCatch m h) (tryCatch m' h')"
  unfolding settles_def
proof (intro allI impI)
  fix s assume nd: "fst (tryCatch m h s) \<noteq> Diverge"
  then have "fst (m s) \<noteq> Diverge" by (cases "m s"; cases "fst (m s)") (auto simp: tryCatch_def)
  then have "m' s = m s" using assms(1) by (simp add: settles_def)
  then show "tryCatch m' h' s = tryCatch m h s"
    using nd assms(2) by (cases "m s"; cases "fst (m s)") (auto simp: tryCatch_def settles_def)
qed

lemma settles_if: "(c \<Longrightarrow> settles m m') \<Longrightarrow> (\<not> c \<Longrightarrow> settles k k') \<Longrightarrow>
    settles (if c then m else k) (if c then m' else k')"
  by simp

subsection \<open>Invariants of effects\<close>

text \<open>\<open>keeps I m\<close>: whatever the outcome, a run of \<open>m\<close> from a state in \<open>I\<close> ends in \<open>I\<close>.\<close>

definition keeps :: "('s \<Rightarrow> bool) \<Rightarrow> ('s, 'a) eff \<Rightarrow> bool" where
  "keeps I m \<longleftrightarrow> (\<forall>s. I s \<longrightarrow> I (snd (m s)))"

lemma keepsI: "(\<And>s. I s \<Longrightarrow> I (snd (m s))) \<Longrightarrow> keeps I m"
  by (simp add: keeps_def)

lemma keepsD: "keeps I m \<Longrightarrow> I s \<Longrightarrow> I (snd (m s))"
  by (simp add: keeps_def)

lemma keeps_ret [keeps_rules]: "keeps I (ret x)"
  by (simp add: keeps_def ret_def)

lemma keeps_raise [keeps_rules]: "keeps I (raise e)"
  by (simp add: keeps_def raise_def)

lemma keeps_diverge [keeps_rules]: "keeps I diverge"
  by (simp add: keeps_def diverge_def)

lemma keeps_getE [keeps_rules]: "keeps I (getE g)"
  by (simp add: keeps_def getE_def)

lemma keeps_assertE [keeps_rules]: "keeps I (assertE c msg)"
  by (simp add: assertE_def keeps_ret keeps_raise)

lemma keeps_liftE [keeps_rules]: "keeps I (liftE r)"
  by (cases r) (simp_all add: liftE_def keeps_ret keeps_raise)

lemma keeps_modE [keeps_rules]: "(\<And>s. I s \<Longrightarrow> I (h s)) \<Longrightarrow> keeps I (modE h)"
  by (simp add: keeps_def modE_def)

lemma keeps_bindE [keeps_rules]:
  assumes "keeps I m" and "\<And>x. keeps I (f x)"
  shows "keeps I (bindE m f)"
proof (rule keepsI)
  fix s assume "I s"
  then have mid: "I (snd (m s))" by (rule keepsD [OF assms(1)])
  show "I (snd (bindE m f s))"
    by (rule bindE_cases [of m s f]) (use mid keepsD [OF assms(2)] in auto)
qed

lemma keeps_seqE [keeps_rules]: "keeps I m \<Longrightarrow> keeps I k \<Longrightarrow> keeps I (seqE m k)"
  by (simp add: seqE_def keeps_bindE)

lemma keeps_tryCatch [keeps_rules]:
  assumes "keeps I m" and "\<And>e. keeps I (h e)"
  shows "keeps I (tryCatch m h)"
proof (rule keepsI)
  fix s assume "I s"
  then have "I (snd (m s))" by (rule keepsD [OF assms(1)])
  then show "I (snd (tryCatch m h s))"
    by (cases "m s"; cases "fst (m s)") (auto simp: js_simps dest: keepsD [OF assms(2)])
qed

lemma keeps_tryFinally [keeps_rules]:
  assumes "keeps I m" and "keeps I f"
  shows "keeps I (tryFinally m f)"
proof (rule keepsI)
  fix s assume "I s"
  then have "I (snd (m s))" by (rule keepsD [OF assms(1)])
  then show "I (snd (tryFinally m f s))"
    using keepsD [OF assms(2), of "snd (m s)"]
    by (auto simp: tryFinally_def split: prod.split outcome.split)
qed

lemma keeps_if [keeps_rules]: "(c \<Longrightarrow> keeps I m) \<Longrightarrow> (\<not> c \<Longrightarrow> keeps I k) \<Longrightarrow> keeps I (if c then m else k)"
  by simp

lemma keeps_forEachE [keeps_rules]: "(\<And>x. x \<in> set xs \<Longrightarrow> keeps I (f x)) \<Longrightarrow> keeps I (forEachE f xs)"
  by (induction xs) (auto intro: keeps_rules)

lemma keeps_mapE [keeps_rules]: "(\<And>x. x \<in> set xs \<Longrightarrow> keeps I (f x)) \<Longrightarrow> keeps I (mapE f xs)"
  by (induction xs) (auto intro!: keeps_rules)

subsection \<open>Invariants of effects that end\<close>

text \<open>
  \<open>safe I m\<close>: a run of \<open>m\<close> from a state in \<open>I\<close> that returns or throws ends in \<open>I\<close>.  It is the weaker
  notion an effect with a \<open>finally\<close> block satisfies, whose clean-up is not reached when the fuel ends.
\<close>

definition safe :: "('s \<Rightarrow> bool) \<Rightarrow> ('s, 'a) eff \<Rightarrow> bool" where
  "safe I m \<longleftrightarrow> (\<forall>s. I s \<longrightarrow> fst (m s) \<noteq> Diverge \<longrightarrow> I (snd (m s)))"

lemma safeI: "(\<And>s. I s \<Longrightarrow> fst (m s) \<noteq> Diverge \<Longrightarrow> I (snd (m s))) \<Longrightarrow> safe I m"
  by (simp add: safe_def)

lemma safeD: "safe I m \<Longrightarrow> I s \<Longrightarrow> fst (m s) \<noteq> Diverge \<Longrightarrow> I (snd (m s))"
  by (simp add: safe_def)

lemma keeps_safe: "keeps I m \<Longrightarrow> safe I m"
  by (simp add: keeps_def safe_def)

lemma safe_diverge [safe_rules]: "safe I diverge"
  by (simp add: safe_def diverge_def)

lemmas safe_basic [safe_rules] =
  keeps_ret [THEN keeps_safe] keeps_raise [THEN keeps_safe] keeps_getE [THEN keeps_safe]
  keeps_assertE [THEN keeps_safe] keeps_liftE [THEN keeps_safe]

lemma safe_modE [safe_rules]: "(\<And>s. I s \<Longrightarrow> I (h s)) \<Longrightarrow> safe I (modE h)"
  by (simp add: keeps_safe keeps_modE)

lemma safe_bindE [safe_rules]:
  assumes "safe I m" and "\<And>x. safe I (f x)"
  shows "safe I (bindE m f)"
proof (rule safeI)
  fix s assume I: "I s" and nd: "fst (bindE m f s) \<noteq> Diverge"
  show "I (snd (bindE m f s))"
  proof (rule bindE_cases [of m s f])
    fix x s' assume m: "m s = (Val x, s')" and run: "bindE m f s = f x s'"
    then have "I s'" using safeD [OF assms(1) I] by simp
    then show ?thesis using run nd safeD [OF assms(2)] by simp
  qed (use nd safeD [OF assms(1) I] in auto)
qed

text \<open>The same, with what is known of the state when a value is read from it.\<close>

lemma safe_bind_getE:
  assumes "\<And>s. I s \<Longrightarrow> safe (\<lambda>t. I t) (f (g s))"
  shows "safe I (bindE (getE g) f)"
  using assms by (auto simp: safe_def bindE_def getE_def)

lemma safe_seqE [safe_rules]: "safe I m \<Longrightarrow> safe I k \<Longrightarrow> safe I (seqE m k)"
  by (simp add: seqE_def safe_bindE)

lemma safe_tryCatch [safe_rules]:
  assumes "safe I m" and "\<And>e. safe I (h e)"
  shows "safe I (tryCatch m h)"
proof (rule safeI)
  fix s assume I: "I s" and nd: "fst (tryCatch m h s) \<noteq> Diverge"
  show "I (snd (tryCatch m h s))"
  proof (cases "m s")
    case (Pair r s')
    then show ?thesis
      using nd safeD [OF assms(1) I] safeD [OF assms(2)] by (cases r) (auto simp: tryCatch_def)
  qed
qed

lemma safe_if [safe_rules]: "(c \<Longrightarrow> safe I m) \<Longrightarrow> (\<not> c \<Longrightarrow> safe I k) \<Longrightarrow> safe I (if c then m else k)"
  by simp

lemma safe_case_option [safe_rules]:
  "(x = None \<Longrightarrow> safe I m) \<Longrightarrow> (\<And>y. x = Some y \<Longrightarrow> safe I (f y)) \<Longrightarrow>
   safe I (case x of None \<Rightarrow> m | Some y \<Rightarrow> f y)"
  by (cases x) auto

lemma safe_case_sum [safe_rules]:
  "(\<And>y. x = Inl y \<Longrightarrow> safe I (f y)) \<Longrightarrow> (\<And>y. x = Inr y \<Longrightarrow> safe I (g y)) \<Longrightarrow>
   safe I (case x of Inl y \<Rightarrow> f y | Inr y \<Rightarrow> g y)"
  by (cases x) auto

lemma safe_case_prod [safe_rules]:
  "(\<And>a b. x = (a, b) \<Longrightarrow> safe I (f a b)) \<Longrightarrow> safe I (case x of (a, b) \<Rightarrow> f a b)"
  by (cases x) auto

subsection \<open>Triples\<close>

text \<open>
  \<open>hoare I m Q E\<close>: from a state in \<open>I\<close>, a run of \<open>m\<close> that returns ends in \<open>Q\<close> of its value and a run that
  throws ends in \<open>E\<close>.
\<close>

definition hoare :: "('s \<Rightarrow> bool) \<Rightarrow> ('s, 'a) eff \<Rightarrow> ('a \<Rightarrow> 's \<Rightarrow> bool) \<Rightarrow> ('s \<Rightarrow> bool) \<Rightarrow> bool" where
  "hoare I m Q E \<longleftrightarrow> (\<forall>s. I s \<longrightarrow>
     (case m s of (Val x, s') \<Rightarrow> Q x s' | (Throw e, s') \<Rightarrow> E s' | (Diverge, s') \<Rightarrow> True))"

lemma hoare_ret: "(\<And>s. I s \<Longrightarrow> Q x s) \<Longrightarrow> hoare I (ret x) Q E"
  by (simp add: hoare_def ret_def)

lemma hoare_raise: "(\<And>s. I s \<Longrightarrow> E s) \<Longrightarrow> hoare I (raise e) Q E"
  by (simp add: hoare_def raise_def)

lemma hoare_getE: "(\<And>s. I s \<Longrightarrow> Q (g s) s) \<Longrightarrow> hoare I (getE g) Q E"
  by (simp add: hoare_def getE_def)

lemma hoare_modE: "(\<And>s. I s \<Longrightarrow> Q () (h s)) \<Longrightarrow> hoare I (modE h) Q E"
  by (simp add: hoare_def modE_def)

lemma hoare_assertE:
  "(\<And>s. I s \<Longrightarrow> c \<Longrightarrow> Q () s) \<Longrightarrow> (\<And>s. I s \<Longrightarrow> \<not> c \<Longrightarrow> E s) \<Longrightarrow> hoare I (assertE c msg) Q E"
  by (simp add: assertE_def hoare_ret hoare_raise)

lemma hoare_liftE:
  "(\<And>s x. I s \<Longrightarrow> r = Inr x \<Longrightarrow> Q x s) \<Longrightarrow> (\<And>s. I s \<Longrightarrow> E s) \<Longrightarrow> hoare I (liftE r) Q E"
  by (cases r) (simp_all add: liftE_def hoare_ret hoare_raise)

lemma hoare_bindE:
  assumes "hoare I m R E" and "\<And>x. hoare (R x) (f x) Q E"
  shows "hoare I (bindE m f) Q E"
  unfolding hoare_def
proof (intro allI impI)
  fix s assume "I s"
  then have R: "case m s of (Val x, s') \<Rightarrow> R x s' | (Throw e, s') \<Rightarrow> E s' | (Diverge, s') \<Rightarrow> True"
    using assms(1) by (simp add: hoare_def)
  show "case bindE m f s of (Val x, s') \<Rightarrow> Q x s' | (Throw e, s') \<Rightarrow> E s' | (Diverge, s') \<Rightarrow> True"
    by (rule bindE_cases [of m s f]) (use R assms(2) in \<open>auto simp: hoare_def\<close>)
qed

lemma hoare_seqE: "hoare I m (\<lambda>_. R) E \<Longrightarrow> hoare R k Q E \<Longrightarrow> hoare I (seqE m k) Q E"
  unfolding seqE_def by (rule hoare_bindE)

lemma hoare_if:
  "(c \<Longrightarrow> hoare I m Q E) \<Longrightarrow> (\<not> c \<Longrightarrow> hoare I k Q E) \<Longrightarrow> hoare I (if c then m else k) Q E"
  by simp

lemma hoare_weaken:
  assumes "hoare I m Q E" and "\<And>s. I' s \<Longrightarrow> I s"
    and "\<And>x s. Q x s \<Longrightarrow> Q' x s" and "\<And>s. E s \<Longrightarrow> E' s"
  shows "hoare I' m Q' E'"
  unfolding hoare_def
proof (intro allI impI)
  fix s assume "I' s"
  then have "case m s of (Val x, s') \<Rightarrow> Q x s' | (Throw e, s') \<Rightarrow> E s' | (Diverge, s') \<Rightarrow> True"
    using assms(1,2) by (simp add: hoare_def)
  then show "case m s of (Val x, s') \<Rightarrow> Q' x s' | (Throw e, s') \<Rightarrow> E' s' | (Diverge, s') \<Rightarrow> True"
    using assms(3,4) by (auto split: prod.splits outcome.splits)
qed

lemma hoareD_Val: "hoare R m Q E \<Longrightarrow> R s \<Longrightarrow> m s = (Val x, s') \<Longrightarrow> Q x s'"
  by (fastforce simp: hoare_def)

lemma hoareD_end: "hoare R m (\<lambda>_. Q) Q \<Longrightarrow> R s \<Longrightarrow> m s = (r, s') \<Longrightarrow> r \<noteq> Diverge \<Longrightarrow> Q s'"
  by (cases r) (fastforce simp: hoare_def)+

lemma safe_hoare: "safe I m \<longleftrightarrow> hoare I m (\<lambda>_. I) I"
proof -
  have "(I s \<longrightarrow> fst (m s) \<noteq> Diverge \<longrightarrow> I (snd (m s))) \<longleftrightarrow>
      (I s \<longrightarrow> (case m s of (Val x, s') \<Rightarrow> I s' | (Throw e, s') \<Rightarrow> I s' | (Diverge, s') \<Rightarrow> True))" for s
    by (cases "m s"; cases "fst (m s)") auto
  then show ?thesis unfolding safe_def hoare_def by simp
qed

subsection \<open>The sizes of parts of a value\<close>

lemma size_elem: "v \<in> set xs \<Longrightarrow> size v < size (JArr xs)"
  by (induction xs) auto

lemma size_prop_value: "(k, v) \<in> set kvs \<Longrightarrow> size v < size (JObj kvs)"
  by (induction kvs) auto

lemma size_props: "(k, x) \<in> set (props v) \<Longrightarrow> size x < size v \<or> size x = size v \<and> typeof v = ''string''"
  by (cases v) (auto dest!: set_zip_rightD dest: size_elem size_prop_value)

lemma has_own_props: "has_own v k \<Longrightarrow> (k, fld v k) \<in> set (props v)"
  by (cases "map_of (props v) k") (auto simp: has_own_map_of fld_def dest: map_of_SomeD)

end
