(* ===== verification/Assert_Level.thy ===== *)
theory Assert_Level
  imports Js_Prelude
begin

text \<open>
  Assertion levels of the concurrency suite, \<open>fsm_libs/assert.js\<close>: an assertion made at a level
  is executed only when that level does not exceed the global one, and while it executes the
  shell's \<open>doassert\<close> is replaced by one that throws without logging.  The shell's own \<open>assert\<close>
  is the parameter \<open>assertFn\<close>.
\<close>

section \<open>Levels\<close>

record assert_level =
  level :: int

definition ALWAYS :: assert_level where "ALWAYS = \<lparr>level = 0\<rparr>"
definition OWN_COLL :: assert_level where "OWN_COLL = \<lparr>level = 1\<rparr>"
definition OWN_DB :: assert_level where "OWN_DB = \<lparr>level = 2\<rparr>"

definition compareTo :: "assert_level \<Rightarrow> assert_level \<Rightarrow> int" where
  "compareTo this other = level this - level other"

text \<open>\<open>obj instanceof AssertLevel\<close>: a level object, or any other value.\<close>

fun isAssertLevel :: "assert_level + jsval \<Rightarrow> bool" where
  "isAssertLevel (Inl _) = True"
| "isAssertLevel (Inr _) = False"

section \<open>Guarded assertions\<close>

datatype doassert_fn = ShellDoAssert | QuietlyDoAssert

record assert_globals =
  globalAssertLevel :: assert_level
  doassert :: doassert_fn

text \<open>An argument of an assertion: a value, or a function of no arguments.\<close>

type_synonym 'm assert_arg = "jsval + ('m assert_globals_scheme, jsval) eff"

text \<open>
  The replacement of \<open>doassert\<close>: a message given as a function is evaluated first, and an error
  object takes its code along (\<open>_getErrorWithCode\<close>, a shell function, is \<open>errWithCode\<close>).
\<close>

definition quietlyDoAssert ::
  "(jsval \<Rightarrow> string \<Rightarrow> exn) \<Rightarrow> string + ('s, string) eff \<Rightarrow> jsval \<Rightarrow> ('s, 'a) eff" where
  "quietlyDoAssert errWithCode msg obj =
     bindE (case msg of Inl m \<Rightarrow> ret m | Inr f \<Rightarrow> f)
       (\<lambda>m. raise (if truthy obj then errWithCode obj m else Err m))"

definition wrapAssertFn ::
  "('m assert_globals_scheme, unit) eff \<Rightarrow> ('m assert_globals_scheme, unit) eff" where
  "wrapAssertFn fn =
     bindE (getE doassert) (\<lambda>doassertSaved.
       tryFinally
         (seqE (modE (doassert_update (\<lambda>_. QuietlyDoAssert))) fn)
         (modE (doassert_update (\<lambda>_. doassertSaved))))"

text \<open>The function \<open>assertWithLevel(level)\<close> returns, called on its arguments.\<close>

definition assertWithLevel_call ::
  "('m assert_arg list \<Rightarrow> ('m assert_globals_scheme, unit) eff) \<Rightarrow> assert_level \<Rightarrow>
   'm assert_arg list \<Rightarrow> ('m assert_globals_scheme, unit) eff" where
  "assertWithLevel_call assertFn lvl args =
     bindE (getE globalAssertLevel) (\<lambda>g.
       if compareTo lvl g > 0 then ret ()
       else bindE
         (case args of
            [Inr f] \<Rightarrow> bindE f (\<lambda>v. ret [Inl (if v = Undef then JBool True else v)])
          | _ \<Rightarrow> ret args)
         (\<lambda>args'. wrapAssertFn (assertFn args')))"

text \<open>A named assertion (\<open>assertWithLevel.eq\<close> and the others) has no implicit function argument.\<close>

definition assertWithLevel_named ::
  "('m assert_arg list \<Rightarrow> ('m assert_globals_scheme, unit) eff) \<Rightarrow> assert_level \<Rightarrow>
   'm assert_arg list \<Rightarrow> ('m assert_globals_scheme, unit) eff" where
  "assertWithLevel_named assertFn lvl args =
     bindE (getE globalAssertLevel) (\<lambda>g.
       if compareTo lvl g > 0 then ret () else wrapAssertFn (assertFn args))"

definition assertWithLevel ::
  "('m assert_arg list \<Rightarrow> ('m assert_globals_scheme, unit) eff) \<Rightarrow> assert_level + jsval \<Rightarrow>
   ('m assert_arg list \<Rightarrow> ('m assert_globals_scheme, unit) eff) result" where
  "assertWithLevel assertFn lvl =
     require (isAssertLevel lvl) ''expected AssertLevel as first argument''
       (case lvl of Inl l \<Rightarrow> Inr (assertWithLevel_call assertFn l) | Inr _ \<Rightarrow> Inl (TypeErr ''level''))"

section \<open>Lemmas\<close>

lemmas level_defs = ALWAYS_def OWN_COLL_def OWN_DB_def compareTo_def

lemma wrapAssertFn_restores:
  assumes "fst (wrapAssertFn fn s) \<noteq> Diverge"
  shows "doassert (snd (wrapAssertFn fn s)) = doassert s"
  using assms
  by (auto simp: wrapAssertFn_def bindE_def seqE_def getE_def modE_def tryFinally_def
      split: prod.splits outcome.splits)

lemma wrapAssertFn_quiet:
  "wrapAssertFn fn s = wrapAssertFn (\<lambda>t. fn (t\<lparr>doassert := QuietlyDoAssert\<rparr>)) s"
  by (simp add: wrapAssertFn_def bindE_def seqE_def getE_def modE_def tryFinally_def)

lemma assert_skipped:
  "level (globalAssertLevel s) < level lvl \<Longrightarrow> assertWithLevel_call assertFn lvl args s = (Val (), s)"
  by (simp add: assertWithLevel_call_def bindE_def getE_def ret_def compareTo_def)

lemma assert_executed:
  "level lvl \<le> level (globalAssertLevel s) \<Longrightarrow> args = map Inl vs \<Longrightarrow>
   assertWithLevel_call assertFn lvl args s = wrapAssertFn (assertFn args) s"
  by (auto simp: assertWithLevel_call_def bindE_def getE_def ret_def compareTo_def
      split: list.split sum.split)

end
