(* ===== verification/Parse_Config.thy ===== *)
theory Parse_Config
  imports Js_Prelude
begin

text \<open>
  Validation and normalisation of a workload's \<open>$config\<close> (\<open>fsm_libs/parse_config.js\<close>) and the
  inheritance of workloads (\<open>fsm_libs/extend_workload.js\<close>).  A configuration is a shell object;
  the defensive deep copy at the head of \<open>parseConfig\<close> is the identity on values.
\<close>

section \<open>The interface of a validator\<close>

text \<open>
  A validator returns a normalised object or throws.  Its contract: what it returns is valid,
  and what is valid it returns unchanged, so validating twice is validating once.
\<close>

locale validator =
  fixes validate :: "'v \<Rightarrow> 'v result"
    and valid :: "'v \<Rightarrow> bool"
  assumes validate_sound: "validate c = Inr c' \<Longrightarrow> valid c'"
    and validate_valid: "valid c \<Longrightarrow> validate c = Inr c"
begin

lemma validate_idem: "validate c = Inr c' \<Longrightarrow> validate c' = Inr c'"
  by (blast intro: validate_valid validate_sound)

lemma validate_fixpoint_iff: "validate c = Inr c \<longleftrightarrow> valid c"
  by (blast intro: validate_valid validate_sound)

lemma validate_twice: "rbind (validate c) validate = validate c"
  by (cases "validate c") (auto simp: rbind_def intro: validate_idem)

end

section \<open>parseConfig\<close>

definition configAllowedKeys :: "string list" where
  "configAllowedKeys =
     [''data'', ''iterations'', ''passConnectionCache'', ''setup'', ''startState'', ''states'',
      ''teardown'', ''threadCount'', ''transitions'']"

fun fn_length :: "jsval \<Rightarrow> nat" where
  "fn_length (JFun _ n) = n"
| "fn_length _ = 0"

definition positive_number :: "jsval \<Rightarrow> bool" where
  "positive_number v \<longleftrightarrow> num_less (Fin 0) (to_number v)"

definition checkKeys :: "string list \<Rightarrow> jsval \<Rightarrow> unit result" where
  "checkKeys allowed options =
     require_each
       (\<lambda>key. require (key \<in> set allowed) (''invalid config parameter: '' @ key) (Inr ()))
       (obj_keys options)"

definition checkState :: "jsval \<Rightarrow> jsval \<Rightarrow> string \<Rightarrow> unit result" where
  "checkState passConnectionCache states k =
     require (typeof (fld states k) = ''function'') (''config.states.'' @ k @ '' is not a function'')
       (if truthy passConnectionCache
        then require (fn_length (fld states k) = 3)
               ''if passConnectionCache is true, state functions should accept 3 parameters'' (Inr ())
        else require (fn_length (fld states k) = 2)
               ''if passConnectionCache is false, state functions should accept 2 parameters''
               (Inr ()))"

definition checkTransition :: "jsval \<Rightarrow> jsval \<Rightarrow> string \<Rightarrow> string \<Rightarrow> unit result" where
  "checkTransition states targets fromState toState =
     require (has_own states toState)
       (''config.transitions.'' @ fromState @ '' contains a state not in config.states: '' @ toState)
       (require (typeof (fld targets toState) = ''number'')
          (''transitions.'' @ fromState @ ''.'' @ toState @ '' should be a number'')
          (require (fld targets toState \<noteq> JNum NaN)
             (''transitions.'' @ fromState @ ''.'' @ toState @ '' cannot be NaN'') (Inr ())))"

definition checkTransitionsFrom :: "jsval \<Rightarrow> jsval \<Rightarrow> string \<Rightarrow> unit result" where
  "checkTransitionsFrom states transitions fromState =
     require (has_own states fromState)
       (''config.transitions contains a state not in config.states: '' @ fromState)
       (let targets = fld transitions fromState
        in rbind (object_keys targets) (\<lambda>toStates.
             require (length toStates > 0) ''no transitions''
               (require_each (checkTransition states targets fromState) toStates)))"

definition noop :: jsval where "noop = JFun ''noop'' 0"

definition checkData :: "jsval \<Rightarrow> unit result" where
  "checkData data =
     require (typeof data = ''object'') ''data''
       (require (\<not> has_own data ''tid'') ''data object cannot redefine tid''
         (require (\<not> has_own data ''iterations'') ''data object cannot redefine iterations''
           (require (\<not> has_own data ''threadCount'') ''data object cannot redefine threadCount''
             (Inr ()))))"

definition parseConfig :: "jsval \<Rightarrow> jsval result" where
  "parseConfig config0 =
    (let config = JObj (props config0) in
     rbind (checkKeys configAllowedKeys config) (\<lambda>_.
     require (is_integer (fld config ''threadCount'')) ''expected number of threads to be an integer'' (
     require (positive_number (fld config ''threadCount'')) ''expected number of threads to be positive'' (
     require (is_integer (fld config ''iterations'')) ''expected number of iterations to be an integer'' (
     require (positive_number (fld config ''iterations'')) ''expected number of iterations to be positive'' (
     let config = set_prop ''startState'' (js_or (fld config ''startState'') (JStr ''init'')) config in
     require (typeof (fld config ''startState'') = ''string'') ''startState'' (
     let states = fld config ''states'' in
     require (typeof states = ''object'') ''states'' (
     rbind (object_keys states) (\<lambda>stateNames.
     require (length stateNames > 0) ''states'' (
     rbind (require_each (checkState (fld config ''passConnectionCache'') states) stateNames) (\<lambda>_.
     let transitions = fld config ''transitions'' in
     require (typeof transitions = ''object'') ''transitions'' (
     rbind (object_keys transitions) (\<lambda>fromStates.
     require (length fromStates > 0) ''transitions'' (
     rbind (require_each (checkTransitionsFrom states transitions) fromStates) (\<lambda>_.
     let config = set_prop ''setup'' (js_or (fld config ''setup'') noop) config in
     require (typeof (fld config ''setup'') = ''function'') ''setup'' (
     let config = set_prop ''teardown'' (js_or (fld config ''teardown'') noop) config in
     require (typeof (fld config ''teardown'') = ''function'') ''teardown'' (
     let config = set_prop ''data'' (js_or (fld config ''data'') (JObj [])) config in
     rbind (checkData (fld config ''data'')) (\<lambda>_.
     let config = set_prop ''passConnectionCache''
                    (js_or (fld config ''passConnectionCache'') (JBool False)) config in
     require (typeof (fld config ''passConnectionCache'') = ''boolean'') ''passConnectionCache'' (
     Inr config)))))))))))))))))))"

section \<open>extendWorkload\<close>

text \<open>The callback takes the child's configuration and the parsed configuration of the parent.\<close>

definition extendWorkload ::
  "jsval list \<Rightarrow> jsval \<Rightarrow> (jsval \<Rightarrow> jsval \<Rightarrow> jsval result) \<Rightarrow> jsval result" where
  "extendWorkload arguments callbackVal callback =
     require (length arguments = 2) ''extendWorkload must be called with 2 arguments: $config and callback'' (
     require (typeof callbackVal = ''function'') ''2nd argument to extendWorkload must be a callback'' (
     require (fn_length callbackVal = 2) ''2nd argument to extendWorkload must take 2 arguments'' (
     rbind (parseConfig (hd arguments)) (\<lambda>parsedSuperConfig.
     let childConfig = JObj (props parsedSuperConfig)
     in callback childConfig parsedSuperConfig))))"


text \<open>What the callbacks do to a configuration: they change a nested object, or give a new table of weights.\<close>

definition inField :: "string \<Rightarrow> (jsval \<Rightarrow> jsval) \<Rightarrow> jsval \<Rightarrow> jsval" where
  "inField k f v = set_prop k (f (fld v k)) v"

abbreviation weightTable :: "(string \<times> rat) list \<Rightarrow> jsval" where
  "weightTable ws \<equiv> JObj (map (\<lambda>(state, w). (state, JNum (Fin w))) ws)"

section \<open>What parseConfig guarantees\<close>

text \<open>
  A normalised configuration: only known keys, positive integral counts, every optional parameter
  present with its type, every state a function of the right number of parameters, and
  transitions that name only declared states, with a number for each.
\<close>

definition wf_states :: "jsval \<Rightarrow> jsval \<Rightarrow> bool" where
  "wf_states passConnectionCache states \<longleftrightarrow>
     typeof states = ''object'' \<and> states \<noteq> Null \<and> obj_keys states \<noteq> [] \<and>
     (\<forall>k \<in> set (obj_keys states).
        typeof (fld states k) = ''function'' \<and>
        fn_length (fld states k) = (if truthy passConnectionCache then 3 else 2))"

definition wf_targets :: "jsval \<Rightarrow> jsval \<Rightarrow> bool" where
  "wf_targets states targets \<longleftrightarrow>
     targets \<noteq> Undef \<and> targets \<noteq> Null \<and> obj_keys targets \<noteq> [] \<and>
     (\<forall>toState \<in> set (obj_keys targets).
        has_own states toState \<and> typeof (fld targets toState) = ''number'' \<and>
        fld targets toState \<noteq> JNum NaN)"

definition wf_transitions :: "jsval \<Rightarrow> jsval \<Rightarrow> bool" where
  "wf_transitions states transitions \<longleftrightarrow>
     typeof transitions = ''object'' \<and> transitions \<noteq> Null \<and> obj_keys transitions \<noteq> [] \<and>
     (\<forall>fromState \<in> set (obj_keys transitions).
        has_own states fromState \<and> wf_targets states (fld transitions fromState))"

definition wf_data :: "jsval \<Rightarrow> bool" where
  "wf_data data \<longleftrightarrow> typeof data = ''object'' \<and> data \<noteq> Null \<and>
     \<not> has_own data ''tid'' \<and> \<not> has_own data ''iterations'' \<and> \<not> has_own data ''threadCount''"

definition wf_config :: "jsval \<Rightarrow> bool" where
  "wf_config c \<longleftrightarrow>
     (case c of JObj _ \<Rightarrow> True | _ \<Rightarrow> False) \<and>
     set (obj_keys c) \<subseteq> set configAllowedKeys \<and>
     is_integer (fld c ''threadCount'') \<and> positive_number (fld c ''threadCount'') \<and>
     is_integer (fld c ''iterations'') \<and> positive_number (fld c ''iterations'') \<and>
     typeof (fld c ''startState'') = ''string'' \<and> truthy (fld c ''startState'') \<and>
     wf_states (fld c ''passConnectionCache'') (fld c ''states'') \<and>
     wf_transitions (fld c ''states'') (fld c ''transitions'') \<and>
     typeof (fld c ''setup'') = ''function'' \<and> typeof (fld c ''teardown'') = ''function'' \<and>
     wf_data (fld c ''data'') \<and> typeof (fld c ''passConnectionCache'') = ''boolean''"

lemma checkKeys_Inr: "checkKeys allowed c = Inr u \<longleftrightarrow> set (obj_keys c) \<subseteq> set allowed"
  by (auto simp: checkKeys_def)

lemma checkState_Inr:
  "checkState pcc states k = Inr u \<longleftrightarrow>
     typeof (fld states k) = ''function'' \<and> fn_length (fld states k) = (if truthy pcc then 3 else 2)"
  by (auto simp: checkState_def)

lemma checkTransition_Inr:
  "checkTransition states targets f t = Inr u \<longleftrightarrow>
     has_own states t \<and> typeof (fld targets t) = ''number'' \<and> fld targets t \<noteq> JNum NaN"
  by (auto simp: checkTransition_def)

lemma checkTransitionsFrom_Inr:
  "checkTransitionsFrom states transitions f = Inr u \<longleftrightarrow>
     has_own states f \<and> wf_targets states (fld transitions f)"
  by (auto simp: checkTransitionsFrom_def wf_targets_def Let_def rbind_Inr checkTransition_Inr)

lemma checkData_Inr:
  "checkData d = Inr u \<longleftrightarrow> typeof d = ''object'' \<and>
     \<not> has_own d ''tid'' \<and> \<not> has_own d ''iterations'' \<and> \<not> has_own d ''threadCount''"
  by (auto simp: checkData_def)

lemmas check_Inr = checkKeys_Inr checkState_Inr checkTransitionsFrom_Inr checkData_Inr

lemma js_or_default:
  "typeof (js_or v d) = t \<Longrightarrow> truthy d \<or> v = d \<Longrightarrow> truthy (js_or v d) \<or> js_or v d = d"
  by (simp add: js_or_def)

lemma js_or_not_Null: "d \<noteq> Null \<Longrightarrow> js_or v d \<noteq> Null"
  by (auto simp: js_or_def)

lemma truthy_js_or_False [simp]: "truthy (js_or v (JBool False)) = truthy v"
  by (simp add: js_or_def)

text \<open>The normalised copy \<open>parseConfig\<close> returns.\<close>

definition normaliseConfig :: "jsval \<Rightarrow> jsval" where
  "normaliseConfig c =
     set_prop ''passConnectionCache'' (js_or (fld c ''passConnectionCache'') (JBool False))
    (set_prop ''data'' (js_or (fld c ''data'') (JObj []))
    (set_prop ''teardown'' (js_or (fld c ''teardown'') noop)
    (set_prop ''setup'' (js_or (fld c ''setup'') noop)
    (set_prop ''startState'' (js_or (fld c ''startState'') (JStr ''init'')) (JObj (props c))))))"

lemma parseConfig_Inr:
  "parseConfig c = Inr c' \<longleftrightarrow>
     set (obj_keys c) \<subseteq> set configAllowedKeys \<and>
     is_integer (fld c ''threadCount'') \<and> positive_number (fld c ''threadCount'') \<and>
     is_integer (fld c ''iterations'') \<and> positive_number (fld c ''iterations'') \<and>
     typeof (js_or (fld c ''startState'') (JStr ''init'')) = ''string'' \<and>
     wf_states (fld c ''passConnectionCache'') (fld c ''states'') \<and>
     wf_transitions (fld c ''states'') (fld c ''transitions'') \<and>
     typeof (js_or (fld c ''setup'') noop) = ''function'' \<and>
     typeof (js_or (fld c ''teardown'') noop) = ''function'' \<and>
     wf_data (js_or (fld c ''data'') (JObj [])) \<and>
     typeof (js_or (fld c ''passConnectionCache'') (JBool False)) = ''boolean'' \<and>
     c' = normaliseConfig c"
proof -
  have obj: "typeof v = ''object'' \<Longrightarrow> v \<noteq> Undef" for v by auto
  show ?thesis
    unfolding parseConfig_def Let_def
    by (simp add: rbind_Inr check_Inr wf_states_def wf_transitions_def wf_data_def
        js_or_not_Null normaliseConfig_def cong: conj_cong)
      (use obj in blast)
qed


lemma fld_normaliseConfig:
  "fld (normaliseConfig c) k =
     (if k = ''passConnectionCache'' then js_or (fld c k) (JBool False)
      else if k = ''data'' then js_or (fld c k) (JObj [])
      else if k = ''teardown'' \<or> k = ''setup'' then js_or (fld c k) noop
      else if k = ''startState'' then js_or (fld c k) (JStr ''init'') else fld c k)"
  by (simp add: normaliseConfig_def)

lemma obj_keys_normaliseConfig:
  "set (obj_keys (normaliseConfig c)) =
     set (obj_keys c) \<union> {''passConnectionCache'', ''data'', ''teardown'', ''setup'', ''startState''}"
  by (auto simp: normaliseConfig_def obj_keys_set_prop)

lemma wf_states_truthy: "wf_states (js_or v (JBool False)) states = wf_states v states"
  by (simp add: wf_states_def)

lemma wf_config_normaliseConfig:
  assumes "parseConfig c = Inr c'"
  shows "wf_config c'"
proof -
  have c': "c' = normaliseConfig c" using assms by (simp add: parseConfig_Inr)
  have keys: "set (obj_keys c') \<subseteq> set configAllowedKeys"
    using assms by (simp add: parseConfig_Inr obj_keys_normaliseConfig) (simp add: configAllowedKeys_def)
  obtain kvs where kvs: "normaliseConfig c = JObj kvs"
    by (simp add: normaliseConfig_def set_prop_def)
  have "case c' of JObj _ \<Rightarrow> True | _ \<Rightarrow> False" by (simp add: c' kvs)
  then show ?thesis
    using assms keys
    by (simp add: parseConfig_Inr wf_config_def fld_normaliseConfig wf_states_truthy js_or_truthy)
qed

lemma normaliseConfig_fixpoint:
  assumes "wf_config c"
  shows "normaliseConfig c = c"
proof -
  obtain kvs where kvs: "c = JObj kvs" using assms by (auto simp: wf_config_def split: jsval.splits)
  have own: "typeof (fld c k) \<noteq> ''undefined'' \<Longrightarrow> has_own c k" for k
    using fld_not_own [of c k] by fastforce
  have same: "has_own c k \<Longrightarrow> set_prop k (fld c k) c = c" for k
    by (rule set_prop_same [OF kvs])
  have fn: "typeof v = ''function'' \<Longrightarrow> js_or v d = v"
    and obj: "typeof v = ''object'' \<Longrightarrow> v \<noteq> Null \<Longrightarrow> js_or v d = v"
    and bool: "typeof v = ''boolean'' \<Longrightarrow> js_or v (JBool False) = v" for v d
    by (cases v; simp add: js_or_def)+
  have "JObj (props c) = c" by (simp add: kvs)
  then show ?thesis
    using assms by (simp add: normaliseConfig_def wf_config_def wf_data_def fn obj bool own same js_or_def
        [of "fld c ''startState''"])
qed

lemma parseConfig_fixpoint:
  assumes "wf_config c"
  shows "parseConfig c = Inr c"
proof -
  have n: "normaliseConfig c = c" using assms by (rule normaliseConfig_fixpoint)
  have d: "js_or (fld c k) d = fld c k" if "k \<in> {''setup'', ''teardown''}" and "d = noop" for k d
    using fld_normaliseConfig [of c k] that by (auto simp: n)
  have "js_or (fld c ''startState'') (JStr ''init'') = fld c ''startState''"
    "js_or (fld c ''data'') (JObj []) = fld c ''data''"
    "js_or (fld c ''passConnectionCache'') (JBool False) = fld c ''passConnectionCache''"
    using fld_normaliseConfig [of c "''startState''"] fld_normaliseConfig [of c "''data''"]
      fld_normaliseConfig [of c "''passConnectionCache''"] by (auto simp: n)
  then show ?thesis
    using assms by (simp add: parseConfig_Inr n d wf_config_def)
qed

interpretation config: validator parseConfig wf_config
  by unfold_locales (simp_all add: wf_config_normaliseConfig parseConfig_fixpoint)

section \<open>Properties\<close>

text \<open>A small workload: one state that loops on itself.\<close>

definition exampleConfig :: jsval where
  "exampleConfig = JObj
     [(''threadCount'', jnum 5), (''iterations'', jnum 10),
      (''states'', JObj [(''init'', JFun ''init'' 2), (''work'', JFun ''work'' 2)]),
      (''transitions'', JObj [(''init'', JObj [(''work'', jnum 1)]), (''work'', JObj [(''work'', jnum 1)])])]"

lemma exampleConfig_parses: "parseConfig exampleConfig = Inr (normaliseConfig exampleConfig)"
  by (simp add: parseConfig_Inr)
    (simp add: exampleConfig_def configAllowedKeys_def obj_keys_def fld_def wf_states_def
      wf_transitions_def wf_targets_def wf_data_def has_own_def positive_number_def js_or_def noop_def)

text \<open>
  A configuration that \<open>parseConfig\<close> accepts comes back normalised: it holds only known keys, its
  counts are positive integers, every optional parameter is present with its type, and every
  state named in its transitions, as a source or as a target, is one of its states, with a number
  for each transition.
\<close>

theorem parseConfig_normalises:
  assumes "parseConfig c = Inr c'"
  shows "wf_config c' \<and> c' = normaliseConfig c"
  using assms by (auto simp: parseConfig_Inr intro: config.validate_sound)

theorem parseConfig_normalises_witness:
  "parseConfig exampleConfig = Inr (normaliseConfig exampleConfig) \<and>
   wf_config (normaliseConfig exampleConfig)"
  using parseConfig_normalises [OF exampleConfig_parses] exampleConfig_parses by simp

text \<open>
  C30. Normalisation is idempotent, and the accepted fixpoints are exactly the well-formed
  configurations: a worker thread or a child workload that parses a parsed configuration again
  sees the same configuration.
\<close>

theorem parseConfig_idempotent:
  "rbind (parseConfig c) parseConfig = parseConfig c \<and> (parseConfig c = Inr c \<longleftrightarrow> wf_config c)"
  by (simp add: config.validate_twice config.validate_fixpoint_iff)

end
