(* ===== verification/Cluster_Options.thy ===== *)
theory Cluster_Options
  imports Parse_Config
begin

text \<open>
  The options of a cluster and their validation (the head of \<open>Cluster\<close> in \<open>fsm_libs/cluster.js\<close>), and
  the predicates that read validated options.  \<open>validateClusterOptions\<close> fills in the defaults in
  place; the model returns the filled-in object.
\<close>

section \<open>Model\<close>

text \<open>
  The dotted paths of the leaves of an object.  \<open>null\<close> is an object for \<open>typeof\<close>, and its keys cannot
  be read.
\<close>

definition keyPaths :: "string \<Rightarrow> string list \<Rightarrow> string list" where
  "keyPaths key subKeys = (if subKeys = [] then [key] else map (\<lambda>subKey. key @ ''.'' @ subKey) subKeys)"

fun getObjectKeys :: "jsval \<Rightarrow> string list result"
  and getFieldKeys :: "(string \<times> jsval) list \<Rightarrow> string list result"
  and getElemKeys :: "nat \<Rightarrow> jsval list \<Rightarrow> string list result" where
  "getObjectKeys (JObj kvs) = getFieldKeys kvs"
| "getObjectKeys (JArr xs) = getElemKeys 0 xs"
| "getObjectKeys Null = Inl (TypeErr ''can't convert null to object'')"
| "getObjectKeys _ = Inr []"
| "getFieldKeys [] = Inr []"
| "getFieldKeys ((key, v) # kvs) =
     (if CHR ''.'' \<in> set key then Inl (Err (''illegal key specified '' @ key))
      else rbind (getObjectKeys v) (\<lambda>subKeys.
           rbind (getFieldKeys kvs) (\<lambda>values. Inr (keyPaths key subKeys @ values))))"
| "getElemKeys i [] = Inr []"
| "getElemKeys i (v # xs) =
     rbind (getObjectKeys v) (\<lambda>subKeys.
     rbind (getElemKeys (Suc i) xs) (\<lambda>values. Inr (keyPaths (show_nat i) subKeys @ values)))"

definition clusterAllowedKeys :: "string list" where
  "clusterAllowedKeys =
     [''replication.enabled'', ''replication.numNodes'', ''sameCollection'', ''sameDB'', ''setupFunctions'',
      ''sharded.enabled'', ''sharded.enableAutoSplit'', ''sharded.enableBalancer'', ''sharded.numMongos'',
      ''sharded.numShards'', ''sharded.stepdownOptions'', ''sharded.stepdownOptions.configStepdown'',
      ''sharded.stepdownOptions.shardStepdown'', ''teardownFunctions'']"

text \<open>\<open>v.k = v.k || d\<close>\<close>

definition defaulted :: "string \<Rightarrow> jsval \<Rightarrow> jsval \<Rightarrow> jsval" where
  "defaulted k d v = set_prop k (js_or (fld v k) d) v"

text \<open>An option that only makes sense when its feature is enabled, then its default and its type.\<close>

definition gatedOption :: "string \<Rightarrow> jsval \<Rightarrow> string \<Rightarrow> string \<Rightarrow> jsval \<Rightarrow> (jsval \<Rightarrow> jsval result) \<Rightarrow> jsval result" where
  "gatedOption k d ty msg v cont =
     require (typeof (fld v k) \<noteq> ''undefined'' \<longrightarrow> truthy (fld v ''enabled'')) msg (
     let v = defaulted k d v in
     require (typeof (fld v k) = ty) (k @ '' is not a '' @ ty) (cont v))"

definition validateReplication :: "jsval \<Rightarrow> jsval result" where
  "validateReplication options =
     (let r = js_or (fld options ''replication'') (JObj []) in
      require (typeof r = ''object'') ''replication'' (
      let r = defaulted ''enabled'' (JBool False) r in
      require (typeof (fld r ''enabled'') = ''boolean'') ''replication.enabled'' (
      gatedOption ''numNodes'' (jnum 3) ''number''
        ''Must have replication.enabled be true if 'replication.numNodes' is specified'' r (\<lambda>r.
      Inr (set_prop ''replication'' r options)))))"

definition validateSharing :: "jsval \<Rightarrow> jsval result" where
  "validateSharing options =
     (let options = defaulted ''sameCollection'' (JBool False) options in
      require (typeof (fld options ''sameCollection'') = ''boolean'') ''sameCollection'' (
      let options = defaulted ''sameDB'' (JBool False) options in
      require (typeof (fld options ''sameDB'') = ''boolean'') ''sameDB'' (Inr options)))"

definition validateSharded :: "jsval \<Rightarrow> jsval result" where
  "validateSharded options =
     (let r = js_or (fld options ''sharded'') (JObj []) in
      require (typeof r = ''object'') ''sharded'' (
      let r = defaulted ''enabled'' (JBool False) r in
      require (typeof (fld r ''enabled'') = ''boolean'') ''sharded.enabled'' (
      gatedOption ''enableAutoSplit'' (JBool False) ''boolean''
        ''Must have sharded.enabled be true if 'sharded.enableAutoSplit' is specified'' r (\<lambda>r.
      gatedOption ''enableBalancer'' (JBool False) ''boolean''
        ''Must have sharded.enabled be true if 'sharded.enableBalancer' is specified'' r (\<lambda>r.
      gatedOption ''numMongos'' (jnum 2) ''number''
        ''Must have sharded.enabled be true if 'sharded.numMongos' is specified'' r (\<lambda>r.
      gatedOption ''numShards'' (jnum 2) ''number''
        ''Must have sharded.enabled be true if 'sharded.numShards' is specified'' r (\<lambda>r.
      Inr (set_prop ''sharded'' r options))))))))"

definition functionList :: "string \<Rightarrow> jsval \<Rightarrow> (jsval \<Rightarrow> jsval result) \<Rightarrow> jsval result" where
  "functionList k v cont =
     (let v = defaulted k (JArr []) v in
      require (is_array (fld v k)) (''Expected '' @ k @ '' to be an array'') (
      require (list_all (\<lambda>f. typeof f = ''function'') (arr_elems (fld v k)))
        (''Expected '' @ k @ '' to be an array of functions'') (cont v)))"

text \<open>\<open>setupFunctions\<close> and \<open>teardownFunctions\<close>, the same text twice.\<close>

definition validateFunctions :: "string \<Rightarrow> jsval \<Rightarrow> jsval result" where
  "validateFunctions which options =
     (let r = js_or (fld options which) (JObj []) in
      require (typeof r = ''object'') which (
      functionList ''mongod'' r (\<lambda>r.
      require (typeof (fld r ''mongos'') \<noteq> ''undefined'' \<longrightarrow> truthy (fld (fld options ''sharded'') ''enabled''))
        (''Must have sharded.enabled be true if '' @ which @ ''.mongos is specified'') (
      functionList ''mongos'' r (\<lambda>r.
      functionList ''config'' r (\<lambda>r.
      Inr (set_prop which r options)))))))"

definition validateClusterOptions :: "jsval \<Rightarrow> jsval result" where
  "validateClusterOptions options =
     rbind (getObjectKeys options) (\<lambda>keys.
     rbind (require_each (\<lambda>option. require (option \<in> set clusterAllowedKeys)
                            (''invalid option: '' @ option) (Inr ())) keys) (\<lambda>_.
     rbind (validateReplication options) (\<lambda>options.
     rbind (validateSharing options) (\<lambda>options.
     rbind (validateSharded options) (\<lambda>options.
     rbind (validateFunctions ''setupFunctions'' options) (\<lambda>options.
     validateFunctions ''teardownFunctions'' options))))))"

definition isStandalone :: "jsval \<Rightarrow> bool" where
  "isStandalone clusterOptions \<longleftrightarrow>
     \<not> truthy (fld (fld clusterOptions ''sharded'') ''enabled'') \<and>
     \<not> truthy (fld (fld clusterOptions ''replication'') ''enabled'')"

definition isReplication :: "jsval \<Rightarrow> bool" where
  "isReplication clusterOptions \<longleftrightarrow> truthy (fld (fld clusterOptions ''replication'') ''enabled'')"

definition isSharded :: "jsval \<Rightarrow> bool" where
  "isSharded clusterOptions \<longleftrightarrow> truthy (fld (fld clusterOptions ''sharded'') ''enabled'')"

section \<open>Lemmas\<close>

lemma rbind_Inr_D: "rbind m f = Inr y \<Longrightarrow> \<exists>x. m = Inr x \<and> f x = Inr y"
  by (simp add: rbind_Inr)

text \<open>Every field of an accepted object contributes at least one path, which starts with its name.\<close>

lemma getFieldKeys_mem:
  "getFieldKeys kvs = Inr ks \<Longrightarrow> (k, v) \<in> set kvs \<Longrightarrow>
   \<exists>sub. getObjectKeys v = Inr sub \<and> set (keyPaths k sub) \<subseteq> set ks"
proof (induction kvs arbitrary: ks)
  case (Cons kv kvs)
  obtain key u where kv: "kv = (key, u)" by fastforce
  obtain sub vs where "getObjectKeys u = Inr sub" "getFieldKeys kvs = Inr vs" "ks = keyPaths key sub @ vs"
    using Cons.prems(1) by (auto simp: kv rbind_Inr split: if_splits)
  then show ?case using Cons.IH [of vs] Cons.prems(2) by (auto simp: kv)
qed simp

lemma fld_mem: "fld (JObj kvs) k = v \<Longrightarrow> v \<noteq> Undef \<Longrightarrow> (k, v) \<in> set kvs"
  by (auto simp: fld_def dest: map_of_SomeD split: option.splits)

text \<open>
  A list of function settings that passes the check of the keys has no fields: each would give a
  path such as \<open>setupFunctions.mongod\<close>, which is not allowed.
\<close>

lemma allowed_no_subkeys:
  assumes "getObjectKeys (JObj kvs) = Inr ks" and "set ks \<subseteq> set clusterAllowedKeys"
    and "which \<in> {''setupFunctions'', ''teardownFunctions''}"
  shows "getObjectKeys (fld (JObj kvs) which) = Inr []"
proof (cases "fld (JObj kvs) which = Undef")
  case True
  then show ?thesis by simp
next
  case False
  then have "(which, fld (JObj kvs) which) \<in> set kvs" using fld_mem by blast
  then obtain sub where sub: "getObjectKeys (fld (JObj kvs) which) = Inr sub"
    and paths: "set (keyPaths which sub) \<subseteq> set clusterAllowedKeys"
    using getFieldKeys_mem [of kvs ks] assms(1,2) by fastforce
  have "sub = []"
  proof (cases sub)
    case (Cons x xs)
    then have "which @ ''.'' @ x \<in> set clusterAllowedKeys" using paths by (simp add: keyPaths_def)
    then show ?thesis using assms(3) by (auto simp: clusterAllowedKeys_def)
  qed simp
  then show ?thesis using sub by simp
qed

lemma keyPaths_ne [simp]: "keyPaths k sub \<noteq> []"
  by (simp add: keyPaths_def)

lemma getObjectKeys_Nil:
  assumes "getObjectKeys v = Inr []"
  shows "props v = [] \<or> typeof v \<noteq> ''object''"
proof (cases v)
  case (JArr xs)
  then show ?thesis using assms by (cases xs) (auto simp: rbind_Inr)
next
  case (JObj kvs)
  then show ?thesis using assms by (cases kvs) (auto simp: rbind_Inr split: if_splits)
qed simp_all

lemmas validate_defs = validateReplication_def validateSharing_def validateSharded_def
  validateFunctions_def gatedOption_def functionList_def defaulted_def Let_def

lemma validateFunctions_empty:
  assumes "validateFunctions which options = Inr options'"
    and "getObjectKeys (fld options which) = Inr []"
  shows "options' = set_prop which (JObj [(''mongod'', JArr []), (''mongos'', JArr []), (''config'', JArr [])]) options"
proof -
  let ?r = "js_or (fld options which) (JObj [])"
  have "typeof ?r = ''object''" using assms(1) by (simp add: validateFunctions_def Let_def)
  then have "props ?r = []" using getObjectKeys_Nil [OF assms(2)] by (auto simp: js_or_def)
  then have "defaulted ''mongod'' (JArr []) ?r = JObj [(''mongod'', JArr [])]"
    by (simp add: defaulted_def set_prop_def fld_def js_or_def)
  then show ?thesis
    using assms(1)
    by (simp add: validateFunctions_def functionList_def Let_def)
       (simp add: defaulted_def set_prop_def fld_def js_or_def)
qed

text \<open>What the sections before the functions leave: their own fields, typed, and the rest untouched.\<close>

definition typed_replication :: "jsval \<Rightarrow> bool" where
  "typed_replication o' \<longleftrightarrow>
     typeof (fld (fld o' ''replication'') ''enabled'') = ''boolean'' \<and>
     typeof (fld (fld o' ''replication'') ''numNodes'') = ''number'' \<and>
     (\<not> isReplication o' \<longrightarrow> fld (fld o' ''replication'') ''numNodes'' = jnum 3)"

definition typed_sharing :: "jsval \<Rightarrow> bool" where
  "typed_sharing o' \<longleftrightarrow>
     typeof (fld o' ''sameCollection'') = ''boolean'' \<and> typeof (fld o' ''sameDB'') = ''boolean''"

definition typed_sharded :: "jsval \<Rightarrow> bool" where
  "typed_sharded o' \<longleftrightarrow>
     (let r = fld o' ''sharded'' in
      typeof (fld r ''enabled'') = ''boolean'' \<and> typeof (fld r ''enableAutoSplit'') = ''boolean'' \<and>
      typeof (fld r ''enableBalancer'') = ''boolean'' \<and> typeof (fld r ''numMongos'') = ''number'' \<and>
      typeof (fld r ''numShards'') = ''number'' \<and>
      (\<not> isSharded o' \<longrightarrow> fld r ''enableAutoSplit'' = JBool False \<and> fld r ''enableBalancer'' = JBool False \<and>
         fld r ''numMongos'' = jnum 2 \<and> fld r ''numShards'' = jnum 2))"

lemma validateReplication_Inr:
  assumes "validateReplication opts = Inr o'"
  shows "typed_replication o' \<and> (\<forall>k. k \<noteq> ''replication'' \<longrightarrow> fld o' k = fld opts k)"
  using assms
  by (auto simp: validateReplication_def gatedOption_def defaulted_def Let_def
      typed_replication_def isReplication_def js_or_def typeof_cases(5) split: if_splits)

lemma validateSharing_Inr:
  assumes "validateSharing opts = Inr o'"
  shows "typed_sharing o' \<and> (\<forall>k. k \<notin> {''sameCollection'', ''sameDB''} \<longrightarrow> fld o' k = fld opts k)"
  using assms by (auto simp: validateSharing_def defaulted_def Let_def typed_sharing_def)

lemma gatedOption_Inr:
  "gatedOption k d ty msg v cont = Inr x \<longleftrightarrow>
     (fld v k \<noteq> Undef \<longrightarrow> truthy (fld v ''enabled'')) \<and> typeof (js_or (fld v k) d) = ty \<and>
     cont (defaulted k d v) = Inr x"
  by (auto simp: gatedOption_def defaulted_def Let_def typeof_cases(5))

lemma fld_defaulted: "fld (defaulted k d v) k' = (if k' = k then js_or (fld v k) d else fld v k')"
  by (simp add: defaulted_def)

lemma validateSharded_Inr:
  assumes "validateSharded opts = Inr o'"
  shows "typed_sharded o' \<and> (\<forall>k. k \<noteq> ''sharded'' \<longrightarrow> fld o' k = fld opts k)"
proof -
  define r0 where "r0 = js_or (fld opts ''sharded'') (JObj [])"
  define on where "on = js_or (fld r0 ''enabled'') (JBool False)"
  define r where "r = defaulted ''numShards'' (jnum 2) (defaulted ''numMongos'' (jnum 2)
     (defaulted ''enableBalancer'' (JBool False) (defaulted ''enableAutoSplit'' (JBool False)
     (defaulted ''enabled'' (JBool False) r0))))"
  have o': "o' = set_prop ''sharded'' r opts"
    and bools: "typeof on = ''boolean''"
      "\<forall>k \<in> {''enableAutoSplit'', ''enableBalancer''}. (fld r0 k \<noteq> Undef \<longrightarrow> truthy on) \<and>
         typeof (js_or (fld r0 k) (JBool False)) = ''boolean''"
    and nums: "\<forall>k \<in> {''numMongos'', ''numShards''}. (fld r0 k \<noteq> Undef \<longrightarrow> truthy on) \<and>
         typeof (js_or (fld r0 k) (jnum 2)) = ''number''"
    using assms
    by (simp_all add: validateSharded_def gatedOption_Inr fld_defaulted Let_def r_def flip: r0_def on_def)
  have fields: "fld r ''enabled'' = on" "fld r ''enableAutoSplit'' = js_or (fld r0 ''enableAutoSplit'') (JBool False)"
    "fld r ''enableBalancer'' = js_or (fld r0 ''enableBalancer'') (JBool False)"
    "fld r ''numMongos'' = js_or (fld r0 ''numMongos'') (jnum 2)"
    "fld r ''numShards'' = js_or (fld r0 ''numShards'') (jnum 2)"
    by (simp_all add: r_def fld_defaulted on_def)
  have off: "js_or Undef d = d" for d by (simp add: js_or_def)
  have "typed_sharded o'"
    unfolding o' typed_sharded_def isSharded_def Let_def
    using bools nums by (cases "truthy on") (auto simp: fields off)
  then show ?thesis by (simp add: o')
qed

lemma validateClusterOptions_facts:
  assumes "validateClusterOptions (JObj kvs) = Inr o'"
  shows "typed_replication o' \<and> typed_sharing o' \<and> typed_sharded o' \<and>
    (\<forall>which \<in> {''setupFunctions'', ''teardownFunctions''}.
       getObjectKeys (fld (JObj kvs) which) = Inr [] \<and>
       fld o' which = JObj [(''mongod'', JArr []), (''mongos'', JArr []), (''config'', JArr [])])"
proof -
  obtain ks o1 o2 o3 o4 where ks: "getObjectKeys (JObj kvs) = Inr ks" "set ks \<subseteq> set clusterAllowedKeys"
    and steps: "validateReplication (JObj kvs) = Inr o1" "validateSharing o1 = Inr o2"
      "validateSharded o2 = Inr o3" "validateFunctions ''setupFunctions'' o3 = Inr o4"
      "validateFunctions ''teardownFunctions'' o4 = Inr o'"
    using assms unfolding validateClusterOptions_def
    by (auto simp only: rbind_Inr require_each_Inr require_Inr simp_thms subset_eq)
  note facts = validateReplication_Inr [OF steps(1)] validateSharing_Inr [OF steps(2)]
    validateSharded_Inr [OF steps(3)]
  note none = allowed_no_subkeys [OF ks]
  have o4: "o4 = set_prop ''setupFunctions'' (JObj [(''mongod'', JArr []), (''mongos'', JArr []), (''config'', JArr [])]) o3"
    by (rule validateFunctions_empty [OF steps(4)]) (use facts none in simp)
  have o': "o' = set_prop ''teardownFunctions'' (JObj [(''mongod'', JArr []), (''mongos'', JArr []), (''config'', JArr [])]) o4"
    by (rule validateFunctions_empty [OF steps(5)]) (use facts none in \<open>simp add: o4\<close>)
  show ?thesis
    using facts none
    by (auto simp: o' o4 typed_replication_def typed_sharing_def typed_sharded_def isReplication_def isSharded_def Let_def)
qed

lemmas validated_no_functions = validateClusterOptions_facts [THEN conjunct2, THEN conjunct2, THEN conjunct2]

section \<open>Properties\<close>

text \<open>
  Options that pass the validation come back with every field filled in and of its type, with the
  defaults wherever the feature is off; and every list of setup or teardown functions is empty:
  although the code validates such lists, no option object that has one passes the check of the
  keys, because the path of a list inside \<open>setupFunctions\<close> is not an allowed key.
\<close>

theorem cluster_options_normalised:
  assumes "validateClusterOptions (JObj kvs) = Inr o'"
  shows "typed_replication o' \<and> typed_sharing o' \<and> typed_sharded o' \<and>
    (\<forall>which \<in> {''setupFunctions'', ''teardownFunctions''}.
       getObjectKeys (fld (JObj kvs) which) = Inr [] \<and>
       fld o' which = JObj [(''mongod'', JArr []), (''mongos'', JArr []), (''config'', JArr [])])"
  using assms by (rule validateClusterOptions_facts)

definition exampleClusterOptions :: "(string \<times> jsval) list" where
  "exampleClusterOptions =
     [(''sameDB'', JBool True), (''sharded'', JObj [(''enabled'', JBool True), (''numShards'', jnum 3)]),
      (''setupFunctions'', JObj [])]"

theorem cluster_options_normalised_witness:
  "\<exists>o'. validateClusterOptions (JObj exampleClusterOptions) = Inr o' \<and> typed_sharded o' \<and> isSharded o' \<and>
     fld (fld o' ''sharded'') ''numShards'' = jnum 3"
proof -
  define o' where "o' = projr (validateClusterOptions (JObj exampleClusterOptions))"
  have "validateClusterOptions (JObj exampleClusterOptions) = Inr o'" unfolding o'_def by code_simp
  moreover have "isSharded o'" "fld (fld o' ''sharded'') ''numShards'' = jnum 3"
    unfolding o'_def by code_simp+
  ultimately show ?thesis using cluster_options_normalised by blast
qed

text \<open>
  The validated options are never accepted again: \<open>validateClusterOptions\<close> fills in
  \<open>setupFunctions.mongod\<close>, a key it rejects, so one options object cannot serve two clusters.
\<close>

theorem cluster_options_single_use:
  assumes "validateClusterOptions (JObj kvs) = Inr o'"
  shows "\<exists>e. validateClusterOptions o' = Inl e"
proof (cases "validateClusterOptions o'")
  case (Inr o2)
  obtain kvs' where kvs': "o' = JObj kvs'"
    using assms by (auto simp: validateClusterOptions_def rbind_Inr validateFunctions_def functionList_def
        Let_def set_prop_def)
  obtain ks where "getObjectKeys o' = Inr ks" "set ks \<subseteq> set clusterAllowedKeys"
    using Inr by (auto simp: validateClusterOptions_def rbind_Inr)
  then have "getObjectKeys (fld o' ''setupFunctions'') = Inr []"
    using allowed_no_subkeys [of kvs' ks "''setupFunctions''"] by (simp add: kvs')
  moreover obtain o3 o4 where "validateFunctions ''setupFunctions'' o3 = Inr o4"
    "validateFunctions ''teardownFunctions'' o4 = Inr o'"
    using assms by (auto simp: validateClusterOptions_def rbind_Inr)
  then have "has_own (fld o' ''setupFunctions'') ''config'' \<and> typeof (fld o' ''setupFunctions'') = ''object''"
    by (auto simp: validateFunctions_def functionList_def Let_def defaulted_def)
  ultimately show ?thesis
    using getObjectKeys_Nil by (fastforce simp: has_own_def obj_keys_def)
qed blast

theorem cluster_options_single_use_witness:
  "\<exists>o' e. validateClusterOptions (JObj exampleClusterOptions) = Inr o' \<and> validateClusterOptions o' = Inl e"
proof -
  define o' where "o' = projr (validateClusterOptions (JObj exampleClusterOptions))"
  have "validateClusterOptions (JObj exampleClusterOptions) = Inr o'" unfolding o'_def by code_simp
  from cluster_options_single_use [OF this] this show ?thesis by blast
qed

end
