(* ===== verification/Runner_Options.thy ===== *)
theory Runner_Options
  imports Cluster_Options
begin

text \<open>
  Validation of the arguments of a run (\<open>validateExecutionMode\<close>, \<open>validateExecutionOptions\<close> and
  \<open>validateCleanupOptions\<close> of \<open>fsm_libs/runner.js\<close>).  Each fills in the defaults of an options object,
  in the model a copy of it, and meets the contract of a validator.
\<close>

section \<open>Model\<close>

definition num_greater :: "jsval \<Rightarrow> int \<Rightarrow> bool" where
  "num_greater v n \<longleftrightarrow> num_less (Fin (of_int n)) (to_number v)"

definition num_at_least :: "jsval \<Rightarrow> int \<Rightarrow> bool" where
  "num_at_least v n \<longleftrightarrow> to_number v \<noteq> NaN \<and> \<not> num_less (to_number v) (Fin (of_int n))"

text \<open>\<open>if (typeof options.k !== 'undefined') assert(check(options.k))\<close>\<close>

definition optionally :: "string \<Rightarrow> (jsval \<Rightarrow> bool) \<Rightarrow> string \<Rightarrow> jsval \<Rightarrow> 'a result \<Rightarrow> 'a result" where
  "optionally k check msg options cont = require (fld options k \<noteq> Undef \<longrightarrow> check (fld options k)) msg cont"

definition modeAllowedKeys :: "string list" where
  "modeAllowedKeys = [''composed'', ''parallel'', ''serial'']"

definition validateExecutionMode :: "jsval \<Rightarrow> jsval result" where
  "validateExecutionMode mode0 =
     rbind (object_keys mode0) (\<lambda>_.
     rbind (checkKeys modeAllowedKeys mode0) (\<lambda>_.
     let mode = defaulted ''composed'' (JBool False) (JObj (props mode0)) in
     require (typeof (fld mode ''composed'') = ''boolean'') ''composed'' (
     let mode = defaulted ''parallel'' (JBool False) mode in
     require (typeof (fld mode ''parallel'') = ''boolean'') ''parallel'' (
     let mode = defaulted ''serial'' (JBool False) mode in
     require (typeof (fld mode ''serial'') = ''boolean'') ''serial'' (
     let numEnabledModes = length (filter (\<lambda>key. truthy (fld mode key)) (obj_keys mode)) in
     require (numEnabledModes = 1) ''One and only one execution mode can be enabled'' (Inr mode))))))"

definition executionAllowedKeys :: "jsval \<Rightarrow> string list" where
  "executionAllowedKeys mode =
     [''dbNamePrefix'', ''iterationMultiplier'', ''sessionOptions'', ''stepdownFiles'', ''threadMultiplier''] @
     (if truthy (fld mode ''parallel'') \<or> truthy (fld mode ''composed'') then [''numSubsets'', ''subsetSize''] else []) @
     (if truthy (fld mode ''composed'') then [''composeProb'', ''iterations''] else [])"

definition validStepdownFiles :: "jsval \<Rightarrow> bool" where
  "validStepdownFiles files \<longleftrightarrow> files \<noteq> Null \<and>
     typeof (fld files ''permitted'') = ''string'' \<and> typeof (fld files ''idleRequest'') = ''string'' \<and>
     typeof (fld files ''idleAck'') = ''string''"

text \<open>A multiplier: it defaults to 1, is an integer and at least 1.\<close>

definition multiplier :: "string \<Rightarrow> jsval \<Rightarrow> (jsval \<Rightarrow> jsval result) \<Rightarrow> jsval result" where
  "multiplier k options cont =
     (let options = defaulted k (jnum 1) options in
      require (is_integer (fld options k)) (''expected '' @ k @ '' to be an integer'') (
      require (num_at_least (fld options k) 1) (''expected '' @ k @ '' to be greater than or equal to 1'')
        (cont options)))"

definition validateExecutionOptions :: "jsval \<Rightarrow> jsval \<Rightarrow> jsval result" where
  "validateExecutionOptions mode options0 =
     rbind (object_keys options0) (\<lambda>_.
     rbind (checkKeys (executionAllowedKeys mode) options0) (\<lambda>_.
     let options = JObj (props options0) in
     optionally ''subsetSize'' is_integer ''expected subset size to be an integer'' options (
     optionally ''subsetSize'' (\<lambda>v. num_greater v 1) ''subsetSize'' options (
     optionally ''numSubsets'' is_integer ''expected number of subsets to be an integer'' options (
     optionally ''numSubsets'' (\<lambda>v. num_greater v 0) ''numSubsets'' options (
     optionally ''iterations'' is_integer ''expected number of iterations to be an integer'' options (
     optionally ''iterations'' (\<lambda>v. num_greater v 0) ''iterations'' options (
     optionally ''composeProb'' (\<lambda>v. typeof v = ''number'' \<and> num_greater v 0 \<and> \<not> num_greater v 1) ''composeProb'' options (
     optionally ''dbNamePrefix'' (\<lambda>v. typeof v = ''string'') ''expected dbNamePrefix to be a string'' options (
     multiplier ''iterationMultiplier'' options (\<lambda>options.
     optionally ''stepdownFiles'' validStepdownFiles ''expected stepdownFiles to hold strings'' options (
     multiplier ''threadMultiplier'' options Inr))))))))))))"

definition validateCleanupOptions :: "jsval \<Rightarrow> jsval result" where
  "validateCleanupOptions options0 =
     rbind (object_keys options0) (\<lambda>_.
     rbind (checkKeys [''dropDatabaseBlacklist'', ''keepExistingDatabases'', ''validateCollections''] options0) (\<lambda>_.
     let options = JObj (props options0) in
     optionally ''dropDatabaseBlacklist'' is_array ''expected dropDatabaseBlacklist to be an array'' options (
     optionally ''keepExistingDatabases'' (\<lambda>v. typeof v = ''boolean'') ''expected keepExistingDatabases to be a boolean'' options (
     let options = set_prop ''validateCollections''
           (if has_own options ''validateCollections'' then fld options ''validateCollections'' else JBool True) options in
     require (typeof (fld options ''validateCollections'') = ''boolean'')
       ''expected validateCollections to be a boolean'' (Inr options)))))"

section \<open>Valid options\<close>

fun is_obj :: "jsval \<Rightarrow> bool" where
  "is_obj (JObj _) = True"
| "is_obj _ = False"

definition valid_mode :: "jsval \<Rightarrow> bool" where
  "valid_mode m \<longleftrightarrow> is_obj m \<and> set (obj_keys m) \<subseteq> set modeAllowedKeys \<and>
     (\<forall>k \<in> set modeAllowedKeys. typeof (fld m k) = ''boolean'') \<and>
     length (filter (\<lambda>key. truthy (fld m key)) (obj_keys m)) = 1"

definition valid_multiplier :: "jsval \<Rightarrow> bool" where
  "valid_multiplier v \<longleftrightarrow> is_integer v \<and> num_at_least v 1"

definition valid_execution :: "jsval \<Rightarrow> jsval \<Rightarrow> bool" where
  "valid_execution mode v \<longleftrightarrow> is_obj v \<and> set (obj_keys v) \<subseteq> set (executionAllowedKeys mode) \<and>
     (fld v ''subsetSize'' \<noteq> Undef \<longrightarrow> is_integer (fld v ''subsetSize'') \<and> num_greater (fld v ''subsetSize'') 1) \<and>
     (fld v ''numSubsets'' \<noteq> Undef \<longrightarrow> is_integer (fld v ''numSubsets'') \<and> num_greater (fld v ''numSubsets'') 0) \<and>
     (fld v ''iterations'' \<noteq> Undef \<longrightarrow> is_integer (fld v ''iterations'') \<and> num_greater (fld v ''iterations'') 0) \<and>
     (fld v ''composeProb'' \<noteq> Undef \<longrightarrow> typeof (fld v ''composeProb'') = ''number'' \<and>
        num_greater (fld v ''composeProb'') 0 \<and> \<not> num_greater (fld v ''composeProb'') 1) \<and>
     (fld v ''dbNamePrefix'' \<noteq> Undef \<longrightarrow> typeof (fld v ''dbNamePrefix'') = ''string'') \<and>
     (fld v ''stepdownFiles'' \<noteq> Undef \<longrightarrow> validStepdownFiles (fld v ''stepdownFiles'')) \<and>
     valid_multiplier (fld v ''iterationMultiplier'') \<and> valid_multiplier (fld v ''threadMultiplier'')"

definition valid_cleanup :: "jsval \<Rightarrow> bool" where
  "valid_cleanup v \<longleftrightarrow> is_obj v \<and>
     set (obj_keys v) \<subseteq> {''dropDatabaseBlacklist'', ''keepExistingDatabases'', ''validateCollections''} \<and>
     (fld v ''dropDatabaseBlacklist'' \<noteq> Undef \<longrightarrow> is_array (fld v ''dropDatabaseBlacklist'')) \<and>
     (fld v ''keepExistingDatabases'' \<noteq> Undef \<longrightarrow> typeof (fld v ''keepExistingDatabases'') = ''boolean'') \<and>
     typeof (fld v ''validateCollections'') = ''boolean''"

section \<open>Lemmas\<close>

lemma optionally_Inr [simp]:
  "optionally k check msg v cont = Inr x \<longleftrightarrow> (fld v k \<noteq> Undef \<longrightarrow> check (fld v k)) \<and> cont = Inr x"
  by (simp add: optionally_def)

lemma multiplier_Inr [simp]:
  "multiplier k v cont = Inr x \<longleftrightarrow>
     valid_multiplier (js_or (fld v k) (jnum 1)) \<and> cont (defaulted k (jnum 1) v) = Inr x"
  by (simp add: multiplier_def Let_def defaulted_def valid_multiplier_def)

lemma is_obj_defaulted [simp]: "is_obj (defaulted k d v)" "is_obj (set_prop k d v)"
  by (simp_all add: defaulted_def set_prop_def)

lemma obj_keys_defaulted: "set (obj_keys (defaulted k d v)) = insert k (set (obj_keys v))"
  by (simp add: defaulted_def obj_keys_set_prop)

lemma is_obj_props: "is_obj v \<Longrightarrow> JObj (props v) = v"
  by (cases v) auto

lemma is_obj_not_nullish: "is_obj v \<Longrightarrow> v \<noteq> Undef \<and> v \<noteq> Null"
  by (cases v) auto

lemma set_prop_own: "is_obj v \<Longrightarrow> fld v k \<noteq> Undef \<Longrightarrow> set_prop k (fld v k) v = v"
proof -
  assume "is_obj v" and k: "fld v k \<noteq> Undef"
  then obtain kvs where "v = JObj kvs" by (cases v) auto
  then show ?thesis by (rule set_prop_same) (use fld_not_own k in blast)
qed

lemma defaulted_same: "is_obj v \<Longrightarrow> fld v k \<noteq> Undef \<Longrightarrow> js_or (fld v k) d = fld v k \<Longrightarrow> defaulted k d v = v"
  by (simp add: defaulted_def set_prop_own)

lemma boolean_default: "typeof v = ''boolean'' \<Longrightarrow> js_or v (JBool False) = v \<and> v \<noteq> Undef"
  by (cases v) (simp_all add: js_or_def)

lemma multiplier_default: "valid_multiplier v \<Longrightarrow> js_or v (jnum 1) = v \<and> v \<noteq> Undef"
  by (cases v rule: is_integer.cases) (auto simp: valid_multiplier_def num_at_least_def js_or_def)

lemma validateExecutionMode_Inr:
  "validateExecutionMode m = Inr m' \<longleftrightarrow>
     m \<noteq> Undef \<and> m \<noteq> Null \<and> set (obj_keys m) \<subseteq> set modeAllowedKeys \<and>
     m' = defaulted ''serial'' (JBool False) (defaulted ''parallel'' (JBool False)
            (defaulted ''composed'' (JBool False) (JObj (props m)))) \<and>
     (\<forall>k \<in> set modeAllowedKeys. typeof (fld m' k) = ''boolean'') \<and>
     length (filter (\<lambda>key. truthy (fld m' key)) (obj_keys m')) = 1"
proof -
  let ?m = "defaulted ''serial'' (JBool False) (defaulted ''parallel'' (JBool False)
            (defaulted ''composed'' (JBool False) (JObj (props m))))"
  have fields: "fld (defaulted ''composed'' (JBool False) (JObj (props m))) ''composed'' = fld ?m ''composed''"
    "fld (defaulted ''parallel'' (JBool False) (defaulted ''composed'' (JBool False) (JObj (props m)))) ''parallel''
       = fld ?m ''parallel''"
    by (simp_all add: fld_defaulted)
  show ?thesis
    unfolding validateExecutionMode_def Let_def fields
    by (auto simp: rbind_Inr checkKeys_Inr modeAllowedKeys_def)
qed

lemma valid_mode_sound: "validateExecutionMode m = Inr m' \<Longrightarrow> valid_mode m'"
  unfolding validateExecutionMode_Inr valid_mode_def
  by (auto simp: obj_keys_defaulted modeAllowedKeys_def simp del: Fun.fun_upd_apply)

lemma valid_mode_complete:
  assumes "valid_mode m"
  shows "validateExecutionMode m = Inr m"
proof -
  have obj: "is_obj m" and b: "k \<in> set modeAllowedKeys \<Longrightarrow> typeof (fld m k) = ''boolean''" for k
    using assms by (simp_all add: valid_mode_def)
  have same: "defaulted k (JBool False) m = m" if "k \<in> set modeAllowedKeys" for k
    using boolean_default [OF b [OF that]] by (intro defaulted_same obj) simp_all
  have "defaulted ''serial'' (JBool False) (defaulted ''parallel'' (JBool False)
            (defaulted ''composed'' (JBool False) (JObj (props m)))) = m"
    using same by (simp add: is_obj_props [OF obj] modeAllowedKeys_def)
  then show ?thesis
    unfolding validateExecutionMode_Inr
    using assms is_obj_not_nullish [OF obj] by (auto simp: valid_mode_def)
qed

interpretation execution_mode: validator validateExecutionMode valid_mode
  by unfold_locales (auto intro: valid_mode_sound valid_mode_complete)

lemma valid_execution_sound:
  assumes "validateExecutionOptions mode v = Inr v'"
  shows "valid_execution mode v'"
proof -
  have "v' = defaulted ''threadMultiplier'' (jnum 1) (defaulted ''iterationMultiplier'' (jnum 1) (JObj (props v)))"
    and keys: "set (obj_keys v) \<subseteq> set (executionAllowedKeys mode)"
    using assms by (simp_all add: validateExecutionOptions_def rbind_Inr checkKeys_Inr Let_def)
  then have flds: "fld v' k = (if k = ''threadMultiplier'' \<or> k = ''iterationMultiplier''
      then js_or (fld v k) (jnum 1) else fld v k)" for k
    by (simp add: fld_defaulted)
  have "is_obj v'" "set (obj_keys v') \<subseteq> set (executionAllowedKeys mode)"
    using keys \<open>v' = _\<close> by (auto simp: obj_keys_defaulted executionAllowedKeys_def)
  then show ?thesis
    using assms unfolding valid_execution_def flds
    by (simp add: validateExecutionOptions_def rbind_Inr Let_def fld_defaulted)
qed

lemma valid_execution_complete:
  assumes "valid_execution mode v"
  shows "validateExecutionOptions mode v = Inr v"
proof -
  have obj: "is_obj v" and m: "valid_multiplier (fld v ''iterationMultiplier'')"
    "valid_multiplier (fld v ''threadMultiplier'')"
    using assms by (simp_all add: valid_execution_def)
  have "defaulted k (jnum 1) v = v" if "valid_multiplier (fld v k)" for k
    using multiplier_default [OF that] by (intro defaulted_same obj) simp_all
  then have same: "defaulted ''iterationMultiplier'' (jnum 1) v = v" "defaulted ''threadMultiplier'' (jnum 1) v = v"
    using m by blast+
  show ?thesis
    using assms is_obj_not_nullish [OF obj] same multiplier_default [OF m(1)] multiplier_default [OF m(2)]
    by (simp add: validateExecutionOptions_def rbind_Inr checkKeys_Inr Let_def is_obj_props [OF obj]
        valid_execution_def)
qed

interpretation execution_options: validator "validateExecutionOptions mode" "valid_execution mode" for mode
  by unfold_locales (auto intro: valid_execution_sound valid_execution_complete)

lemma valid_cleanup_sound: "validateCleanupOptions v = Inr v' \<Longrightarrow> valid_cleanup v'"
  by (auto simp: validateCleanupOptions_def valid_cleanup_def rbind_Inr checkKeys_Inr Let_def obj_keys_set_prop)

lemma valid_cleanup_complete:
  assumes "valid_cleanup v"
  shows "validateCleanupOptions v = Inr v"
proof -
  have obj: "is_obj v" and b: "typeof (fld v ''validateCollections'') = ''boolean''"
    using assms by (simp_all add: valid_cleanup_def)
  have "fld v ''validateCollections'' \<noteq> Undef" using b by auto
  then have "has_own v ''validateCollections''" and "set_prop ''validateCollections'' (fld v ''validateCollections'') v = v"
    using fld_not_own set_prop_own [OF obj] by blast+
  then show ?thesis
    using assms is_obj_not_nullish [OF obj]
    by (simp add: validateCleanupOptions_def rbind_Inr checkKeys_Inr Let_def is_obj_props [OF obj] valid_cleanup_def)
qed

interpretation cleanup_options: validator validateCleanupOptions valid_cleanup
  by unfold_locales (auto intro: valid_cleanup_sound valid_cleanup_complete)

section \<open>Properties\<close>








text \<open>Each of them accepts its own output unchanged.\<close>

lemma runner_options_idempotent:
  "rbind (validateExecutionMode m) validateExecutionMode = validateExecutionMode m"
  "rbind (validateExecutionOptions mode e) (validateExecutionOptions mode) = validateExecutionOptions mode e"
  "rbind (validateCleanupOptions c) validateCleanupOptions = validateCleanupOptions c"
  by (simp_all add: execution_mode.validate_twice execution_options.validate_twice cleanup_options.validate_twice)

end
