(* ===== verification/Schedule.thy ===== *)
theory Schedule
  imports Js_Prelude
begin

text \<open>
  The schedule of the workloads, \<open>scheduleWorkloads\<close> of \<open>fsm_libs/runner.js\<close>: each workload by itself
  in serial mode, otherwise a number of random subsets.  The shell's \<open>Array.shuffle\<close> is the
  parameter \<open>shuffle\<close>, which also carries the state of the random generator.
\<close>

section \<open>Model\<close>

type_synonym ('g, 'a) shuffler = "'g \<Rightarrow> 'a list \<Rightarrow> 'a list \<times> 'g"

definition slice :: "nat \<Rightarrow> nat \<Rightarrow> 'a list \<Rightarrow> 'a list" where
  "slice start end xs = take (end - start) (drop start xs)"

text \<open>
  The rest of the loop: \<open>n\<close> subsets are still to be added to the schedule.  When too few elements
  remain for a whole subset, the part already used is shuffled again and the unused elements are
  put in front of it.
\<close>

fun scheduleLoop :: "('g, 'a) shuffler \<Rightarrow> nat \<Rightarrow> nat \<Rightarrow> 'a list \<Rightarrow> nat \<Rightarrow> 'g \<Rightarrow> 'a list list" where
  "scheduleLoop shuffle subsetSize 0 workloads start g = []"
| "scheduleLoop shuffle subsetSize (Suc n) workloads start g =
     slice start (start + subsetSize) workloads #
     (let start' = start + subsetSize in
      if start' + subsetSize > length workloads
      then (case shuffle g (slice 0 start' workloads) of
              (temp, g') \<Rightarrow> scheduleLoop shuffle subsetSize n (drop start' workloads @ temp) 0 g')
      else scheduleLoop shuffle subsetSize n workloads start' g)"

definition scheduleWorkloads ::
  "('g, 'a) shuffler \<Rightarrow> bool \<Rightarrow> nat option \<Rightarrow> nat option \<Rightarrow> 'a list \<Rightarrow> 'g \<Rightarrow> 'a list list" where
  "scheduleWorkloads shuffle serial subsetSizeOpt numSubsetsOpt workloads g =
     (if serial then map (\<lambda>workload. [workload]) (fst (shuffle g workloads))
      else
        let subsetSize = (case subsetSizeOpt of None \<Rightarrow> 10 | Some k \<Rightarrow> if k = 0 then 10 else k);
            dflt = nat \<lceil>(5 / 2 :: rat) * of_nat (length workloads) / of_nat subsetSize\<rceil>;
            numSubsets = (case numSubsetsOpt of None \<Rightarrow> dflt | Some n \<Rightarrow> if n = 0 then dflt else n)
        in case shuffle g workloads of
             (ws, g') \<Rightarrow> scheduleLoop shuffle subsetSize numSubsets ws 0 g')"

section \<open>Lemmas\<close>

text \<open>What the runner relies on of a shuffle: it permutes.\<close>

definition permuting :: "('g, 'a) shuffler \<Rightarrow> bool" where
  "permuting shuffle \<longleftrightarrow> (\<forall>g xs. mset (fst (shuffle g xs)) = mset xs)"

lemma permutingD: "permuting shuffle \<Longrightarrow> shuffle g xs = (ys, g') \<Longrightarrow> mset ys = mset xs"
  by (metis permuting_def fst_conv)

lemma mset_requeue:
  assumes "permuting shuffle" and "shuffle g (slice 0 k ws) = (temp, g')"
  shows "mset (drop k ws @ temp) = mset ws"
proof -
  have "mset temp = mset (take k ws)" using permutingD [OF assms] by (simp add: slice_def)
  then have "mset (drop k ws @ temp) = mset (take k ws @ drop k ws)"
    by (simp only: mset_append add.commute)
  then show ?thesis by (simp only: append_take_drop_id)
qed

lemma length_scheduleLoop: "length (scheduleLoop shuffle ss n ws start g) = n"
  by (induction n arbitrary: ws start g) (auto simp: Let_def split: prod.split)

text \<open>A step of the loop keeps a permutation of the workloads and room for one subset.\<close>

definition room :: "nat \<Rightarrow> 'a list \<Rightarrow> nat \<Rightarrow> bool" where
  "room ss ws start \<longleftrightarrow> start + ss \<le> length ws \<or> start = 0"

lemma scheduleLoop_subset:
  assumes "permuting shuffle" and "distinct ws" and "room ss ws start"
    and "x \<in> set (scheduleLoop shuffle ss n ws start g)"
  shows "distinct x \<and> set x \<subseteq> set ws \<and> length x = min ss (length ws)"
  using assms
proof (induction n arbitrary: ws start g)
  case 0
  then show ?case by simp
next
  case (Suc n)
  let ?k = "start + ss"
  have here: "distinct (slice start ?k ws) \<and> set (slice start ?k ws) \<subseteq> set ws \<and>
      length (slice start ?k ws) = min ss (length ws)"
    using Suc.prems(2,3) by (auto simp: slice_def room_def dest: in_set_takeD in_set_dropD)
  show ?case
  proof (cases "?k + ss > length ws")
    case False
    then have "room ss ws ?k" by (simp add: room_def)
    note IH = Suc.IH [OF Suc.prems(1,2) this, of g]
    have "x = slice start ?k ws \<or> x \<in> set (scheduleLoop shuffle ss n ws ?k g)"
      using Suc.prems(4) False by simp
    then show ?thesis using IH here by blast
  next
    case True
    obtain temp g' where sh: "shuffle g (slice 0 ?k ws) = (temp, g')" by fastforce
    have m: "mset (drop ?k ws @ temp) = mset ws" by (rule mset_requeue [OF Suc.prems(1) sh])
    then have "distinct (drop ?k ws @ temp)" using Suc.prems(2) mset_eq_imp_distinct_iff by blast
    moreover have "set (drop ?k ws @ temp) = set ws" "length (drop ?k ws @ temp) = length ws"
      using m by (metis mset_eq_setD, metis mset_eq_length)
    ultimately show ?thesis
      using Suc.IH [OF Suc.prems(1), of "drop ?k ws @ temp" 0 g'] Suc.prems(4) here True sh
      by (auto simp: room_def)
  qed
qed

lemma scheduleLoop_front:
  "set (take ss ws) \<subseteq> set (concat (take (Suc 0) (scheduleLoop shuffle ss (Suc n) ws 0 g)))"
  by (simp add: slice_def)

text \<open>What has not been used yet is used up within the next passes over it.\<close>

lemma scheduleLoop_covers:
  assumes "0 < ss"
  shows "room ss ws start \<Longrightarrow> (length ws - start) div ss < n \<Longrightarrow>
    set (drop start ws) \<subseteq> set (concat (take (Suc ((length ws - start) div ss)) (scheduleLoop shuffle ss n ws start g)))"
proof (induction n arbitrary: start ws g)
  case 0
  then show ?case by simp
next
  case (Suc n)
  let ?k = "start + ss" and ?q = "(length ws - start) div ss"
  have split: "drop start ws = slice start ?k ws @ drop ?k ws"
    by (simp add: slice_def flip: drop_drop) (metis add.commute append_take_drop_id drop_drop)
  show ?case
  proof (cases "?k + ss > length ws")
    case False
    then have "?q = Suc ((length ws - ?k) div ss)" using assms by (simp add: le_div_geq flip: diff_diff_left)
    moreover have "room ss ws ?k" using False by (simp add: room_def)
    ultimately show ?thesis
      using Suc.IH [of ws ?k g] Suc.prems False split by auto
  next
    case True
    obtain temp g' where sh: "shuffle g (slice 0 ?k ws) = (temp, g')" by fastforce
    show ?thesis
    proof (cases "?k \<le> length ws")
      case False
      then show ?thesis using split True sh by auto
    next
      case fits: True
      then have q: "?q = 1" using True assms by (simp add: div_nat_eqI)
      then obtain m where m: "n = Suc m" using Suc.prems(2) by (cases n) auto
      have "set (drop ?k ws) \<subseteq> set (take ss (drop ?k ws @ temp))"
        using True fits by (simp add: set_take_subset)
      then have "set (drop ?k ws) \<subseteq> set (concat (take 1 (scheduleLoop shuffle ss n (drop ?k ws @ temp) 0 g')))"
        using scheduleLoop_front [of ss "drop ?k ws @ temp" shuffle m g'] m by fastforce
      moreover have "scheduleLoop shuffle ss (Suc n) ws start g =
          slice start ?k ws # scheduleLoop shuffle ss n (drop ?k ws @ temp) 0 g'"
        using True sh by simp
      ultimately show ?thesis using split q by (auto simp del: scheduleLoop.simps)
    qed
  qed
qed

section \<open>Properties\<close>

definition rotate_shuffle :: "(nat, 'a) shuffler" where
  "rotate_shuffle g xs = (rotate g xs, g)"

lemma permuting_rotate: "permuting rotate_shuffle"
proof -
  have "mset (rotate g xs) = mset xs" for g and xs :: "'a list"
  proof (induction g)
    case (Suc g)
    have "mset (rotate1 ys) = mset ys" for ys :: "'a list" by (cases ys) auto
    with Suc show ?case by simp
  qed simp
  then show ?thesis by (simp add: permuting_def rotate_shuffle_def)
qed

text \<open>
  Every subset of a parallel or composed schedule holds distinct workloads, all of them given, and
  is full (of the requested size, or holding every workload when there are fewer); the schedule has
  exactly the requested number of subsets.
\<close>

theorem schedule_subsets_wellformed:
  assumes "permuting shuffle" and "distinct workloads" and "0 < ss" and "0 < n"
  shows "length (scheduleWorkloads shuffle False (Some ss) (Some n) workloads g) = n \<and>
    (\<forall>x \<in> set (scheduleWorkloads shuffle False (Some ss) (Some n) workloads g).
       distinct x \<and> set x \<subseteq> set workloads \<and> length x = min ss (length workloads))"
proof -
  obtain ws g' where sh: "shuffle g workloads = (ws, g')" by fastforce
  have m: "mset ws = mset workloads" by (rule permutingD [OF assms(1) sh])
  have d: "distinct ws" using m assms(2) mset_eq_imp_distinct_iff by blast
  have "set ws = set workloads" "length ws = length workloads"
    using m by (metis mset_eq_setD, metis mset_eq_length)
  then show ?thesis
    using scheduleLoop_subset [OF assms(1) d, of ss 0 _ n g'] assms(3,4) sh
    by (simp add: scheduleWorkloads_def length_scheduleLoop room_def)
qed

theorem schedule_subsets_wellformed_witness:
  "length (scheduleWorkloads rotate_shuffle False (Some 2) (Some 4) [1, 2, 3 :: nat] 1) = 4"
  using schedule_subsets_wellformed [OF permuting_rotate, of "[1, 2, 3 :: nat]" 2 4 1] by simp

text \<open>
  No workload is starved: once the schedule is longer than the number of whole subsets the workloads
  make up, its first subsets, one more than that number, together run every workload.
\<close>

theorem schedule_covers_all:
  assumes "permuting shuffle" and "0 < ss" and "length workloads div ss < n"
  shows "set workloads \<subseteq>
    set (concat (take (Suc (length workloads div ss))
      (scheduleWorkloads shuffle False (Some ss) (Some n) workloads g)))"
proof -
  obtain ws g' where sh: "shuffle g workloads = (ws, g')" by fastforce
  have m: "mset ws = mset workloads" by (rule permutingD [OF assms(1) sh])
  then have "set ws = set workloads" "length ws = length workloads"
    by (metis mset_eq_setD, metis mset_eq_length)
  moreover have "room ss ws 0" by (simp add: room_def)
  ultimately show ?thesis
    using scheduleLoop_covers [OF assms(2), of ws 0 n shuffle g'] assms(2,3) sh
    by (simp add: scheduleWorkloads_def)
qed

theorem schedule_covers_all_witness:
  "{1, 2, 3} \<subseteq> set (concat (take (Suc 1) (scheduleWorkloads rotate_shuffle False (Some 2) (Some 4) [1, 2, 3 :: nat] 1)))"
  using schedule_covers_all [OF permuting_rotate, of 2 "[1, 2, 3 :: nat]" 4 1] by simp

text \<open>
  The comment's claim that each workload gets scheduled once before any is scheduled again does not
  hold across passes: there is a shuffle that permutes and a schedule whose first three subsets
  run one workload three times and another only once.
\<close>

theorem schedule_not_fair:
  "\<exists>(shuffle :: (nat, nat) shuffler) g. permuting shuffle \<and>
     (let runs = concat (take 3 (scheduleWorkloads shuffle False (Some 2) (Some 4) [1, 2, 3] g))
      in count_list runs 1 = 3 \<and> count_list runs 3 = 1)"
proof -
  define shuffle :: "(nat, nat) shuffler" where
    "shuffle = (\<lambda>g xs. (if g = 2 then rev xs else xs, Suc g))"
  have p: "permuting shuffle" by (simp add: permuting_def shuffle_def)
  have "scheduleWorkloads shuffle False (Some 2) (Some 4) [1, 2, 3] 0 = [[1, 2], [3, 1], [2, 1], [3, 2]]"
    by (simp add: scheduleWorkloads_def shuffle_def slice_def eval_nat_numeral)
  with p show ?thesis by (intro exI [of _ shuffle] exI [of _ 0]) (simp add: eval_nat_numeral)
qed

text \<open>
  In serial mode the schedule runs every workload by itself, exactly as often as it was given.
\<close>

theorem schedule_serial:
  assumes "permuting shuffle"
  shows "mset (scheduleWorkloads shuffle True ss n workloads g) = image_mset (\<lambda>w. [w]) (mset workloads)"
  using assms by (simp add: scheduleWorkloads_def permuting_def)

theorem schedule_serial_witness:
  "mset (scheduleWorkloads rotate_shuffle True None None [''a'', ''b''] 1) = {#[''a''], [''b'']#}"
  using schedule_serial [OF permuting_rotate, of None None "[''a'', ''b'']" 1] by simp

end
