(* ===== verification/Shell.thy ===== *)
theory Shell
  imports Js_Prelude
begin

text \<open>
  What the sources call of the mongo shell and is not part of this repository: the table of error
  codes and its predicates, the command assertions, the comparison of BSON values.  They are the
  fields of one record, passed to every definition that uses them; what a theorem relies on of
  them is a named hypothesis below.
\<close>

record shell =
  errorCode :: "string \<Rightarrow> jsval"                  \<comment> \<open>\<open>ErrorCodes[name]\<close>, \<open>undefined\<close> when there is none\<close>
  errorCodeNames :: "string list"                  \<comment> \<open>\<open>Object.keys(ErrorCodes)\<close>\<close>
  isNetworkErrorCode :: "jsval \<Rightarrow> bool"
  isNotMasterErrorCode :: "jsval \<Rightarrow> bool"
  isWriteConcernErrorCode :: "jsval \<Rightarrow> bool"
  isShutdownErrorCode :: "jsval \<Rightarrow> bool"
  isInterruptionCode :: "jsval \<Rightarrow> bool"
  isNetworkError :: "exn \<Rightarrow> bool"
  isRetryableError :: "exn \<Rightarrow> bool"
  commandWorked :: "jsval \<Rightarrow> exn option"           \<comment> \<open>the exception \<open>assert.commandWorked\<close> throws\<close>
  commandWorkedOrFailedWithCode :: "jsval \<Rightarrow> jsval list \<Rightarrow> exn option"
  bsonWoCompare :: "jsval \<Rightarrow> jsval \<Rightarrow> int"
  canRetryWrites :: "jsval \<Rightarrow> bool"                \<comment> \<open>\<open>_ServerSession.canRetryWrites\<close>\<close>

text \<open>An exception seen as an object: the fields a handler may read.\<close>

fun exn_obj :: "exn \<Rightarrow> jsval" where
  "exn_obj (ErrObj v) = v"
| "exn_obj (AssertFail m) = JObj [(''message'', JStr m)]"
| "exn_obj (Err m) = JObj [(''message'', JStr m)]"
| "exn_obj (TypeErr m) = JObj [(''message'', JStr m)]"
| "exn_obj (RefErr m) = JObj [(''message'', JStr m)]"

definition checkE :: "exn option \<Rightarrow> ('s, unit) eff" where
  "checkE r = (case r of None \<Rightarrow> ret () | Some e \<Rightarrow> raise e)"

lemma checkE_simps [js_simps]:
  "checkE None s = (Val (), s)"
  "checkE (Some e) s = (Throw e, s)"
  by (simp_all add: checkE_def ret_def raise_def)

lemma checkE_Val: "checkE r s = (Val u, s') \<longleftrightarrow> r = None \<and> s' = s"
  by (auto simp: checkE_def ret_def raise_def split: option.split)

lemma keeps_checkE [keeps_rules]: "keeps I (checkE r)"
  by (cases r) (simp_all add: checkE_def keeps_ret keeps_raise)

text \<open>\<open>assert.soon\<close>: the condition is tried again until it holds or the attempts its clock allows are used up.\<close>

fun awaitTrue :: "('s, bool) eff \<Rightarrow> string \<Rightarrow> nat \<Rightarrow> ('s, unit) eff" where
  "awaitTrue cond msg n =
     bindE cond (\<lambda>ok.
     if ok then ret () else case n of 0 \<Rightarrow> raise (AssertFail msg) | Suc k \<Rightarrow> awaitTrue cond msg k)"

declare awaitTrue.simps [simp del]

lemma awaitTrue_keeps [keeps_rules]: "keeps I cond \<Longrightarrow> keeps I (awaitTrue cond msg n)"
proof (induction n)
  case 0
  then show ?case by (subst awaitTrue.simps) (auto intro!: keeps_rules)
next
  case (Suc n)
  then show ?case by (subst awaitTrue.simps) (auto intro!: keeps_rules)
qed

text \<open>What holds when a computation returns.\<close>

abbreviation returning :: "('s \<Rightarrow> bool) \<Rightarrow> ('s, 'a) eff \<Rightarrow> ('a \<Rightarrow> 's \<Rightarrow> bool) \<Rightarrow> bool" where
  "returning P m Q \<equiv> hoare P m Q (\<lambda>_. True)"

lemma returning_keeps: "keeps P m \<Longrightarrow> returning P m (\<lambda>_. P)"
  by (force simp: keeps_def hoare_def split: prod.split outcome.split)

lemma returning_read: "(\<And>s. P s \<Longrightarrow> g s = x) \<Longrightarrow> returning P (f x) Q \<Longrightarrow> returning P (bindE (getE g) f) Q"
  by (auto simp: hoare_def js_simps)

lemma returning_assert: "(c \<Longrightarrow> returning P m Q) \<Longrightarrow> returning P (seqE (assertE c msg) m) Q"
  by (cases c) (auto simp: hoare_def js_simps)

text \<open>How much a computation raises a quantity of the state at most, however it ends.\<close>

definition raisesBy :: "('s \<Rightarrow> nat) \<Rightarrow> nat \<Rightarrow> ('s, 'a) eff \<Rightarrow> bool" where
  "raisesBy n k m \<longleftrightarrow> (\<forall>s. n (snd (m s)) \<le> n s + k)"

lemma raisesBy_bind: "raisesBy n j m \<Longrightarrow> (\<And>x. raisesBy n k (f x)) \<Longrightarrow> raisesBy n (j + k) (bindE m f)"
  unfolding raisesBy_def bindE_def by (auto split: prod.split outcome.split)
    (metis add.assoc add_le_mono1 le_trans snd_conv, metis le_add1 le_trans snd_conv add.assoc, metis le_add1 le_trans snd_conv add.assoc)

lemma raisesBy_mono: "raisesBy n j m \<Longrightarrow> j \<le> k \<Longrightarrow> raisesBy n k m"
  unfolding raisesBy_def by (meson add_left_mono le_trans)

lemma raisesBy_pure: "raisesBy n k (ret x)" "raisesBy n k (raise e)" "raisesBy n k diverge"
  by (simp_all add: raisesBy_def ret_def raise_def diverge_def)

lemma raisesBy_tryCatch: "raisesBy n k m \<Longrightarrow> (\<And>e. raisesBy n 0 (h e)) \<Longrightarrow> raisesBy n k (tryCatch m h)"
  unfolding raisesBy_def tryCatch_def by (auto split: prod.split outcome.split) (metis snd_conv, metis add_0_right le_trans snd_conv, metis snd_conv)

text \<open>The label test \<open>arr.includes(name)\<close> on an array of strings.\<close>

definition includes_str :: "jsval \<Rightarrow> string \<Rightarrow> bool" where
  "includes_str v s \<longleftrightarrow> JStr s \<in> set (arr_elems v)"

text \<open>
  \<open>assert.commandWorked\<close> throws exactly on the responses that carry a failure: not \<open>ok\<close>, or with
  write errors, or with a write concern error.
\<close>

definition response_failed :: "jsval \<Rightarrow> bool" where
  "response_failed res \<longleftrightarrow>
     \<not> truthy (fld res ''ok'') \<or> has_own res ''writeErrors'' \<or> has_own res ''writeConcernError''"

definition commandWorked_spec :: "shell \<Rightarrow> bool" where
  "commandWorked_spec sh \<longleftrightarrow> (\<forall>res. (commandWorked sh res = None) = (\<not> response_failed res))"

text \<open>A shell for concrete runs: numeric codes, and the command assertions as documented.\<close>

definition exampleShell :: shell where
  "exampleShell = \<lparr>
     errorCode = (\<lambda>n. if n = ''Interrupted'' then jnum 11601
                      else if n = ''CursorKilled'' then jnum 237
                      else if n = ''CursorNotFound'' then jnum 43
                      else if n = ''NoSuchTransaction'' then jnum 251
                      else if n = ''OperationNotSupportedInTransaction'' then jnum 263
                      else if n = ''NamespaceExists'' then jnum 48
                      else if n = ''NamespaceNotFound'' then jnum 26
                      else if n = ''IndexNotFound'' then jnum 27
                      else if n = ''OperationFailed'' then jnum 96
                      else if n = ''HostUnreachable'' then jnum 6
                      else if n = ''NotMaster'' then jnum 10107
                      else if n = ''DatabaseDropPending'' then jnum 215
                      else if n = ''BackgroundOperationInProgressForDatabase'' then jnum 12586
                      else Undef),
     errorCodeNames = [''HostUnreachable'', ''NotMaster'', ''Interrupted'', ''NamespaceExists''],
     isNetworkErrorCode = (\<lambda>c. c = jnum 6),
     isNotMasterErrorCode = (\<lambda>c. c = jnum 10107),
     isWriteConcernErrorCode = (\<lambda>c. c = jnum 64),
     isShutdownErrorCode = (\<lambda>c. c = jnum 91),
     isInterruptionCode = (\<lambda>c. c = jnum 11601),
     isNetworkError = (\<lambda>e. fld (exn_obj e) ''message'' = JStr ''network error''),
     isRetryableError = (\<lambda>e. fld (exn_obj e) ''code'' = jnum 6),
     commandWorked = (\<lambda>res. if response_failed res then Some (ErrObj res) else None),
     commandWorkedOrFailedWithCode = (\<lambda>res codes.
        if response_failed res \<and> fld res ''code'' \<notin> set codes then Some (ErrObj res) else None),
     bsonWoCompare = (\<lambda>a b. if a = b then 0 else 1),
     canRetryWrites = (\<lambda>cmd. has_own cmd ''txnNumber'')\<rparr>"

lemma exampleShell_commandWorked: "commandWorked_spec exampleShell"
  by (simp add: commandWorked_spec_def exampleShell_def)

end
