(* ===== verification/Topology.thy ===== *)
theory Topology
  imports Shell
begin

text \<open>
  Discovery of the processes of a cluster (\<open>libs/discover_topology.js\<close>) and the view of a sharded
  cluster the concurrency suite builds from it (\<open>fsm_libs/shard_fixture.js\<close>).  What the shell
  provides of a connection (its host, its commands, opening one, splitting a connection string,
  attaching to a replica set) is the record \<open>conn_ops\<close> over the world \<open>'w\<close>.
\<close>

section \<open>Model\<close>

subsection \<open>Discovery\<close>

datatype topology =
    Standalone string                                     \<comment> \<open>\<open>mongod\<close>\<close>
  | Router "string list"                                  \<comment> \<open>\<open>nodes\<close>\<close>
  | ReplicaSet jsval "string list"                        \<comment> \<open>\<open>primary\<close> and \<open>nodes\<close>\<close>
  | ShardedCluster topology "(string \<times> topology) list" topology
      \<comment> \<open>\<open>configsvr\<close>, \<open>shards\<close> and \<open>mongos\<close>\<close>

text \<open>A \<open>ReplSetTest\<close> attached to a running set, as far as the suite reads it.\<close>

record repl_set_test =
  rstName :: string
  rstUrl :: string
  rstNodes :: "string list"
  rstPrimary :: string
  rstSecondaries :: "string list"

record ('c, 'w) conn_ops =
  connHost :: "'c \<Rightarrow> string"
  connAdminCommand :: "'c \<Rightarrow> jsval \<Rightarrow> ('w, jsval) eff"
  newMongo :: "string \<Rightarrow> ('w, 'c) eff"
  uriServers :: "string \<Rightarrow> string list"
  newReplSetTest :: "string \<Rightarrow> ('w, repl_set_test) eff"

text \<open>The strings of an array: host lists and shard names are arrays of strings in every reply.\<close>

fun to_str :: "jsval \<Rightarrow> string" where
  "to_str (JStr s) = s"
| "to_str _ = []"

definition spread :: "jsval \<Rightarrow> ('w, string list) eff" where
  "spread v = (if is_array v then ret (map to_str (arr_elems v)) else raise (TypeErr ''not iterable''))"

definition getDataMemberConnectionStrings :: "('c, 'w) conn_ops \<Rightarrow> 'c \<Rightarrow> ('w, topology) eff" where
  "getDataMemberConnectionStrings ops conn =
     bindE (connAdminCommand ops conn (JObj [(''isMaster'', jnum 1)])) (\<lambda>res.
       if \<not> has_own res ''setName'' then ret (Standalone (connHost ops conn))
       else bindE (spread (fld res ''hosts'')) (\<lambda>hosts.
            bindE (spread (js_or (fld res ''passives'') (JArr []))) (\<lambda>passives.
            ret (ReplicaSet (fld res ''primary'') (hosts @ passives)))))"

definition getConfigServerConnectionString :: "('c, 'w) conn_ops \<Rightarrow> 'c \<Rightarrow> ('w, string) eff" where
  "getConfigServerConnectionString ops conn =
     bindE (connAdminCommand ops conn (JObj [(''getShardMap'', jnum 1)])) (\<lambda>shardMap.
       if \<not> has_own shardMap ''map''
       then raise (Err ''Expected getShardMap command to return an object with a map field'')
       else if \<not> has_own (fld shardMap ''map'') ''config''
       then raise (Err ''Expected getShardMap command to return an object with a map.config field'')
       else ret (to_str (fld (fld shardMap ''map'') ''config'')))"

text \<open>The loop over \<open>listShards\<close>: a shard listed twice keeps its first place and its last description.\<close>

fun describeShards ::
  "('c, 'w) conn_ops \<Rightarrow> (string \<Rightarrow> ('w, 'c) eff) \<Rightarrow> (string \<times> topology) list \<Rightarrow> jsval list \<Rightarrow>
   ('w, (string \<times> topology) list) eff" where
  "describeShards ops connectFn shardHosts [] = ret shardHosts"
| "describeShards ops connectFn shardHosts (shardInfo # rest) =
     bindE (connectFn (to_str (fld shardInfo ''host''))) (\<lambda>shardConn.
     bindE (getDataMemberConnectionStrings ops shardConn) (\<lambda>t.
     describeShards ops connectFn (AList.update (to_str (fld shardInfo ''_id'')) t shardHosts) rest))"

definition findConnectedNodesViaMongos ::
  "('c, 'w) conn_ops \<Rightarrow> shell \<Rightarrow> 'c \<Rightarrow> (string \<Rightarrow> ('w, 'c) eff) option \<Rightarrow> ('w, topology) eff" where
  "findConnectedNodesViaMongos ops sh conn connectOpt =
     (let connectFn = (case connectOpt of None \<Rightarrow> newMongo ops | Some f \<Rightarrow> f) in
      bindE (getConfigServerConnectionString ops conn) (\<lambda>configStr.
      bindE (connectFn configStr) (\<lambda>configsvrConn.
      bindE (getDataMemberConnectionStrings ops configsvrConn) (\<lambda>configsvrHosts.
      bindE (connAdminCommand ops conn (JObj [(''listShards'', jnum 1)])) (\<lambda>res.
      seqE (checkE (commandWorked sh res))
     (seqE (if is_array (fld res ''shards'') then ret () else raise (TypeErr ''not iterable''))
     (bindE (describeShards ops connectFn [] (arr_elems (fld res ''shards''))) (\<lambda>shardHosts.
      ret (ShardedCluster configsvrHosts shardHosts
             (Router (uriServers ops (''mongodb://'' @ connHost ops conn))))))))))))"

definition findConnectedNodes ::
  "('c, 'w) conn_ops \<Rightarrow> shell \<Rightarrow> 'c \<Rightarrow> (string \<Rightarrow> ('w, 'c) eff) option \<Rightarrow> ('w, topology) eff" where
  "findConnectedNodes ops sh conn connectOpt =
     bindE (connAdminCommand ops conn (JObj [(''isMaster'', jnum 1)])) (\<lambda>res.
       if fld res ''msg'' \<noteq> JStr ''isdbgrid'' then getDataMemberConnectionStrings ops conn
       else findConnectedNodesViaMongos ops sh conn connectOpt)"

fun topology_nodes :: "topology \<Rightarrow> string list" where
  "topology_nodes (Router nodes) = nodes"
| "topology_nodes (ReplicaSet _ nodes) = nodes"
| "topology_nodes _ = []"

fun addNonConfigNodesToList :: "topology \<Rightarrow> string list \<Rightarrow> string list result"
  and addShardNodes :: "(string \<times> topology) list \<Rightarrow> string list \<Rightarrow> string list result" where
  "addNonConfigNodesToList (Standalone mongod) hostList = Inr (hostList @ [mongod])"
| "addNonConfigNodesToList (ReplicaSet primary nodes) hostList = Inr (hostList @ nodes)"
| "addNonConfigNodesToList (ShardedCluster configsvr shards mongos) hostList =
     rbind (addShardNodes shards hostList) (\<lambda>hosts. Inr (hosts @ topology_nodes mongos))"
| "addNonConfigNodesToList (Router nodes) hostList = Inl (Err ''Unrecognized topology format'')"
| "addShardNodes [] hostList = Inr hostList"
| "addShardNodes ((shardName, t) # rest) hostList =
     rbind (addNonConfigNodesToList t hostList) (addShardNodes rest)"

definition findNonConfigNodes :: "('c, 'w) conn_ops \<Rightarrow> shell \<Rightarrow> 'c \<Rightarrow> ('w, string list) eff" where
  "findNonConfigNodes ops sh conn =
     bindE (findConnectedNodes ops sh conn None) (\<lambda>t. liftE (addNonConfigNodesToList t []))"

subsection \<open>The sharded cluster as the suite sees it\<close>

record shard_conn =
  shardConnName :: string      \<comment> \<open>\<open>shard.name\<close>: the URL of the set, or the host\<close>
  shardName :: string

record sharding_test =
  mongoses :: "string list"
  configRst :: repl_set_test
  shardConnections :: "shard_conn list"
  shardRsts :: "repl_set_test list"

text \<open>\<open>_configServers\<close>\<close>

definition configNodes :: "sharding_test \<Rightarrow> string list" where
  "configNodes st = rstNodes (configRst st)"

text \<open>\<open>nodes[0]\<close>, from which a \<open>ReplSetTest\<close> is attached: there is none to attach to without a node.\<close>

definition firstNode :: "string list \<Rightarrow> ('w, string) eff" where
  "firstNode nodes = (case nodes of [] \<Rightarrow> raise (TypeErr ''nodes[0] is undefined'') | n # _ \<Rightarrow> ret n)"

fun attachShards ::
  "('c, 'w) conn_ops \<Rightarrow> (string \<times> topology) list \<Rightarrow> ('w, shard_conn list \<times> repl_set_test list) eff" where
  "attachShards ops [] = ret ([], [])"
| "attachShards ops ((name, t) # rest) =
     bindE (case t of
              ReplicaSet primary nodes \<Rightarrow>
                bindE (firstNode nodes) (\<lambda>n.
                bindE (newReplSetTest ops n) (\<lambda>rst.
                bindE (newMongo ops (rstUrl rst)) (\<lambda>_.
                ret (\<lparr>shardConnName = rstUrl rst, shardName = name\<rparr>, [rst]))))
            | Standalone mongod \<Rightarrow>
                bindE (newMongo ops mongod) (\<lambda>c.
                ret (\<lparr>shardConnName = connHost ops c, shardName = name\<rparr>, []))
            | _ \<Rightarrow> raise (TypeErr ''undefined connection string'')) (\<lambda>(c, rsts).
     bindE (attachShards ops rest) (\<lambda>(cs, rs). ret (c # cs, rsts @ rs)))"

definition newFSMShardingTest ::
  "('c, 'w) conn_ops \<Rightarrow> shell \<Rightarrow> string \<Rightarrow> ('w, sharding_test) eff" where
  "newFSMShardingTest ops sh connStr =
     bindE (newMongo ops connStr) (\<lambda>conn.
     bindE (findConnectedNodes ops sh conn None) (\<lambda>t.
       case t of
         ShardedCluster configsvr shards mongos \<Rightarrow>
           bindE (mapE (newMongo ops) (topology_nodes mongos)) (\<lambda>ms.
           bindE (firstNode (topology_nodes configsvr)) (\<lambda>n.
           bindE (newReplSetTest ops n) (\<lambda>cfg.
           bindE (attachShards ops shards) (\<lambda>(cs, rsts).
           ret \<lparr>mongoses = map (connHost ops) ms, configRst = cfg,
                shardConnections = cs, shardRsts = rsts\<rparr>))))
       | _ \<Rightarrow> raise (AssertFail ''Topology must be a sharded cluster'')))"

text \<open>Reading an array out of range gives \<open>undefined\<close>.\<close>

definition elem_at :: "'a list \<Rightarrow> nat \<Rightarrow> 'a option" where
  "elem_at xs n = (if n < length xs then Some (xs ! n) else None)"

definition st_s :: "sharding_test \<Rightarrow> nat \<Rightarrow> string option" where
  "st_s st n = elem_at (mongoses st) n"

definition st_d :: "sharding_test \<Rightarrow> nat \<Rightarrow> shard_conn option" where
  "st_d st n = (if elem_at (shardRsts st) n = None then elem_at (shardConnections st) n else None)"

definition st_rs :: "sharding_test \<Rightarrow> nat \<Rightarrow> repl_set_test option" where
  "st_rs st n = elem_at (shardRsts st) n"

definition st_c :: "sharding_test \<Rightarrow> nat \<Rightarrow> string option" where
  "st_c st n = elem_at (configNodes st) n"

definition st_shard :: "sharding_test \<Rightarrow> nat \<Rightarrow> shard_conn option" where
  "st_shard st n = elem_at (shardConnections st) n"

text \<open>\<open>st.shardColl\<close>: enable sharding on the database, then shard the collection, through mongos 0.\<close>

definition shardColl ::
  "shell \<Rightarrow> (string \<Rightarrow> jsval \<Rightarrow> ('w, jsval) eff) \<Rightarrow> sharding_test \<Rightarrow> string \<Rightarrow> string \<Rightarrow> jsval \<Rightarrow> ('w, unit) eff" where
  "shardColl sh adminCommand st dbName collName shardKey =
     (case st_s st 0 of
        None \<Rightarrow> raise (TypeErr ''this.s(...) is undefined'')
      | Some m \<Rightarrow>
          bindE (adminCommand m (JObj [(''enableSharding'', JStr dbName)])) (\<lambda>res.
          seqE (checkE (commandWorked sh res))
         (bindE (adminCommand m
              (JObj [(''shardCollection'', JStr (dbName @ ''.'' @ collName)), (''key'', shardKey)])) (\<lambda>res'.
          checkE (commandWorked sh res')))))"

text \<open>The loops \<open>i = 0; while (get(i)) push(get(i++))\<close> of the sources, bounded by fuel.\<close>

fun collectWhile :: "nat \<Rightarrow> (nat \<Rightarrow> 'a option) \<Rightarrow> nat \<Rightarrow> 'a list" where
  "collectWhile 0 get i = []"
| "collectWhile (Suc fuel) get i =
     (case get i of None \<Rightarrow> [] | Some x \<Rightarrow> x # collectWhile fuel get (Suc i))"

section \<open>Lemmas\<close>

text \<open>What one process, or one shard, contributes; what discovery can return.\<close>

fun dataNodes :: "topology \<Rightarrow> string list" where
  "dataNodes (Standalone mongod) = [mongod]"
| "dataNodes t = topology_nodes t"

fun member_topology :: "topology \<Rightarrow> bool" where
  "member_topology (Standalone _) = True"
| "member_topology (ReplicaSet _ _) = True"
| "member_topology _ = False"

fun discovered :: "topology \<Rightarrow> bool" where
  "discovered (ShardedCluster configsvr shards mongos) \<longleftrightarrow>
     member_topology configsvr \<and> (\<forall>(n, t) \<in> set shards. member_topology t) \<and> distinct (map fst shards) \<and>
     (\<exists>ns. mongos = Router ns)"
| "discovered t \<longleftrightarrow> member_topology t"

lemma getDataMember_Val:
  "getDataMemberConnectionStrings ops conn s = (Val t, s') \<Longrightarrow> member_topology t"
  by (auto simp: getDataMemberConnectionStrings_def bindE_Val ret_def split: if_splits)

lemma describeShards_Val:
  "describeShards ops f acc xs s = (Val t, s') \<Longrightarrow>
   \<forall>(n, q) \<in> set acc. member_topology q \<Longrightarrow> distinct (map fst acc) \<Longrightarrow>
   (\<forall>(n, q) \<in> set t. member_topology q) \<and> distinct (map fst t)"
proof (induction xs arbitrary: acc s)
  case Nil
  then show ?case by (simp add: ret_def)
next
  case (Cons x xs)
  obtain c q s1 s2 where q: "getDataMemberConnectionStrings ops c s1 = (Val q, s2)"
    and rest: "describeShards ops f (AList.update (to_str (fld x ''_id'')) q acc) xs s2 = (Val t, s')"
    using Cons.prems(1) by (auto simp: bindE_Val)
  have "set (AList.update k q acc) \<subseteq> insert (k, q) (set acc)" for k
    by (induction acc) auto
  then have "\<forall>(n, p) \<in> set (AList.update (to_str (fld x ''_id'')) q acc). member_topology p"
    using getDataMember_Val [OF q] Cons.prems(2) by fastforce
  then show ?case by (rule Cons.IH [OF rest]) (simp add: Cons.prems(3) distinct_update)
qed

lemma findConnectedNodes_Val: "findConnectedNodes ops sh conn f s = (Val t, s') \<Longrightarrow> discovered t"
proof -
  have *: "member_topology t \<Longrightarrow> discovered t" by (cases t) auto
  assume "findConnectedNodes ops sh conn f s = (Val t, s')"
  then show ?thesis
    by (fastforce simp: findConnectedNodes_def findConnectedNodesViaMongos_def bindE_Val seqE_Val
        ret_def Let_def dest: getDataMember_Val describeShards_Val intro: * split: if_splits)
qed

lemma addMember: "member_topology t \<Longrightarrow> addNonConfigNodesToList t hs = Inr (hs @ dataNodes t)"
  by (cases t) auto

lemma addShardNodes_members:
  "\<forall>(n, t) \<in> set shards. member_topology t \<Longrightarrow>
   addShardNodes shards hs = Inr (hs @ concat (map (dataNodes \<circ> snd) shards))"
  by (induction shards arbitrary: hs) (auto simp: addMember)

lemma elem_at_eq_None: "elem_at xs n = None \<longleftrightarrow> length xs \<le> n"
  by (simp add: elem_at_def)

text \<open>The loops read the array off: the fuel needs only to exceed its length.\<close>

lemma collectWhile_at:
  "length xs < fuel + i \<Longrightarrow> i \<le> length xs \<Longrightarrow> collectWhile fuel (elem_at xs) i = drop i xs"
proof (induction fuel arbitrary: i)
  case 0
  then show ?case by simp
next
  case (Suc fuel)
  then show ?case by (cases "i < length xs") (auto simp: elem_at_def Cons_nth_drop_Suc)
qed

lemma collectWhile_all: "collectWhile (Suc (length xs)) (elem_at xs) 0 = xs"
  using collectWhile_at [of xs "Suc (length xs)" 0] by simp

section \<open>Properties\<close>

text \<open>A cluster for concrete runs: two shards (a stand-alone server and a replica set) behind one mongos.\<close>

definition exampleOps :: "(string, unit) conn_ops" where
  "exampleOps = \<lparr>connHost = id,
     connAdminCommand = (\<lambda>c cmd. ret (
       if has_own cmd ''getShardMap'' then JObj [(''map'', JObj [(''config'', JStr ''cfg'')])]
       else if has_own cmd ''listShards'' then JObj [(''ok'', jnum 1), (''shards'', JArr
         [JObj [(''_id'', JStr ''s0''), (''host'', JStr ''d0'')],
          JObj [(''_id'', JStr ''s1''), (''host'', JStr ''r1'')]])]
       else if c = ''m'' then JObj [(''msg'', JStr ''isdbgrid'')]
       else if c = ''d0'' then JObj [(''ok'', jnum 1)]
       else JObj [(''setName'', JStr ''rs''), (''primary'', JStr c), (''hosts'', JArr [JStr c])])),
     newMongo = (\<lambda>h. ret h),
     uriServers = (\<lambda>u. [''m'']),
     newReplSetTest = (\<lambda>n. ret \<lparr>rstName = ''rs'', rstUrl = ''rs/'' @ n, rstNodes = [n], rstPrimary = n,
                                rstSecondaries = []\<rparr>)\<rparr>"

text \<open>
  Whatever the servers answer, \<open>findNonConfigNodes\<close> never rejects what \<open>findConnectedNodes\<close> found:
  on a sharded cluster it returns the data members of every shard, in the order of the shards, and
  then the routers, with nothing taken from the config servers; otherwise the members themselves.
\<close>

theorem findNonConfigNodes_exact:
  assumes "findConnectedNodes ops sh conn None s = (Val t, s')"
  shows "findNonConfigNodes ops sh conn s =
    (Val (case t of
            ShardedCluster configsvr shards mongos \<Rightarrow>
              concat (map (dataNodes \<circ> snd) shards) @ topology_nodes mongos
          | _ \<Rightarrow> dataNodes t), s')"
proof -
  have "discovered t" by (rule findConnectedNodes_Val [OF assms])
  then show ?thesis
    using assms
    by (cases t) (auto simp: findNonConfigNodes_def js_simps addShardNodes_members)
qed

theorem findNonConfigNodes_exact_witness:
  "findNonConfigNodes exampleOps exampleShell ''m'' () = (Val [''d0'', ''r1'', ''m''], ())"
proof -
  have "findConnectedNodes exampleOps exampleShell ''m'' None () =
    (Val (ShardedCluster (ReplicaSet (JStr ''cfg'') [''cfg''])
       [(''s0'', Standalone ''d0''), (''s1'', ReplicaSet (JStr ''r1'') [''r1''])] (Router [''m''])), ())"
    by code_simp
  from findNonConfigNodes_exact [OF this] show ?thesis by simp
qed

text \<open>
  On a cluster that mixes a stand-alone shard with a replica set shard, \<open>d(0)\<close> is \<open>undefined\<close> although
  shard 0 is a stand-alone server, and \<open>d(1)\<close> returns the connection of the replica set, because the
  index into the replica sets is not an index into the shards: the loop of \<open>Cluster.setup\<close> that
  saves the stand-alone servers misses the server.
\<close>

theorem mixed_shards_missed:
  "\<exists>st s'. newFSMShardingTest exampleOps exampleShell ''m'' () = (Val st, s') \<and>
     st_shard st 0 = Some \<lparr>shardConnName = ''d0'', shardName = ''s0''\<rparr> \<and>
     st_d st 0 = None \<and> st_d st 1 = Some \<lparr>shardConnName = ''rs/r1'', shardName = ''s1''\<rparr> \<and>
     (\<forall>fuel. collectWhile fuel (st_d st) 0 = [])"
proof -
  have "newFSMShardingTest exampleOps exampleShell ''m'' () =
    (Val \<lparr>mongoses = [''m''], configRst = \<lparr>rstName = ''rs'', rstUrl = ''rs/cfg'', rstNodes = [''cfg''],
         rstPrimary = ''cfg'', rstSecondaries = []\<rparr>,
       shardConnections = [\<lparr>shardConnName = ''d0'', shardName = ''s0''\<rparr>,
                           \<lparr>shardConnName = ''rs/r1'', shardName = ''s1''\<rparr>],
       shardRsts = [\<lparr>rstName = ''rs'', rstUrl = ''rs/r1'', rstNodes = [''r1''], rstPrimary = ''r1'',
                     rstSecondaries = []\<rparr>]\<rparr>, ())"
    by code_simp
  moreover have "get 0 = None \<Longrightarrow> collectWhile fuel get 0 = []" for fuel and get :: "nat \<Rightarrow> shard_conn option"
    by (cases fuel) auto
  ultimately show ?thesis by (auto simp: st_shard_def st_d_def elem_at_def)
qed

end
