(* ===== verification/Txn_Retry.thy ===== *)
theory Txn_Retry
  imports Shell
begin

text \<open>
  Running a function inside a transaction and retrying it,
  \<open>fsm_workload_helpers/auto_retry_transaction.js\<close>, with the two helpers for prepared
  transactions it calls (\<open>core/txns/libs/prepare_helpers.js\<close>).  The session's own operations are
  the record \<open>session_ops\<close>; the two loops take fuel.
\<close>

record 's session_ops =
  startTransaction_forTesting :: "('s, unit) eff"
  commitTransaction_forTesting :: "('s, jsval) eff"
  abortTransaction_forTesting :: "('s, jsval) eff"
  sessionAdminCommand :: "jsval \<Rightarrow> ('s, jsval) eff"
  random :: "('s, rat) eff"

section \<open>Prepared transactions\<close>

definition prepareTransaction :: "shell \<Rightarrow> 's session_ops \<Rightarrow> ('s, jsval) eff" where
  "prepareTransaction sh session =
     bindE (sessionAdminCommand session
       (JObj [(''prepareTransaction'', jnum 1), (''writeConcern'', JObj [(''w'', JStr ''majority'')])])) (\<lambda>res.
     seqE (checkE (commandWorked sh res))
    (seqE (assertE (truthy (fld res ''prepareTimestamp''))
             ''prepareTransaction did not return a 'prepareTimestamp': '')
    (let prepareTimestamp = fld res ''prepareTimestamp'' in
     seqE (assertE (case prepareTimestamp of JExt c _ \<Rightarrow> c = ''Timestamp'' | _ \<Rightarrow> False)
             ''prepareTimestamp was not a Timestamp: '')
    (seqE (assertE (prepareTimestamp \<noteq> JExt ''Timestamp'' ''Timestamp(0, 0)'')
             ''prepareTimestamp cannot be null: '')
     (ret prepareTimestamp)))))"

definition prepared_commitTransaction :: "shell \<Rightarrow> 's session_ops \<Rightarrow> jsval \<Rightarrow> ('s, jsval) eff" where
  "prepared_commitTransaction sh session commitTimestamp =
     bindE (sessionAdminCommand session
       (JObj [(''commitTransaction'', jnum 1), (''commitTimestamp'', commitTimestamp)])) (\<lambda>res.
     seqE
       (if truthy (fld res ''ok'')
        then bindE (commitTransaction_forTesting session) (\<lambda>r. checkE (commandWorked sh r))
        else bindE (abortTransaction_forTesting session)
               (\<lambda>r. checkE (commandWorkedOrFailedWithCode sh r [errorCode sh ''NoSuchTransaction''])))
     (ret res))"

section \<open>Retries\<close>

definition isKilledSessionCode :: "shell \<Rightarrow> jsval \<Rightarrow> bool" where
  "isKilledSessionCode sh code \<longleftrightarrow>
     strict_eq code (errorCode sh ''Interrupted'') \<or> strict_eq code (errorCode sh ''CursorKilled'') \<or>
     strict_eq code (errorCode sh ''CursorNotFound'')"

definition hasTransientLabel :: "exn \<Rightarrow> bool" where
  "hasTransientLabel e \<longleftrightarrow>
     has_own (exn_obj e) ''errorLabels'' \<and>
     includes_str (fld (exn_obj e) ''errorLabels'') ''TransientTransactionError''"

definition shouldRetryEntireTxnOnError :: "shell \<Rightarrow> exn \<Rightarrow> bool \<Rightarrow> bool \<Rightarrow> bool" where
  "shouldRetryEntireTxnOnError sh e hasCommitTxnError retryOnKilledSession =
    (if hasTransientLabel e then True
     else if hasCommitTxnError then False
     else if isNetworkError sh e then True
     else if retryOnKilledSession \<and>
             (isKilledSessionCode sh (fld (exn_obj e) ''code'') \<or>
              is_array (fld (exn_obj e) ''writeErrors'') \<and>
              list_all (\<lambda>writeError. isKilledSessionCode sh (fld writeError ''code''))
                (arr_elems (fld (exn_obj e) ''writeErrors'')))
     then True
     else False)"

fun commitTransactionWithKilledSessionRetries ::
  "nat \<Rightarrow> shell \<Rightarrow> 's session_ops \<Rightarrow> bool \<Rightarrow> ('s, unit) eff" where
  "commitTransactionWithKilledSessionRetries 0 sh session retryOnKilledSession = diverge"
| "commitTransactionWithKilledSessionRetries (Suc fuel) sh session retryOnKilledSession =
     bindE (commitTransaction_forTesting session) (\<lambda>commitRes.
       if \<not> truthy (fld commitRes ''ok'') \<and> retryOnKilledSession \<and>
          isKilledSessionCode sh (fld commitRes ''code'')
       then commitTransactionWithKilledSessionRetries fuel sh session retryOnKilledSession
       else checkE (commandWorked sh commitRes))"

text \<open>The commit of one attempt: prepared first with probability \<open>prepareProbability\<close>.\<close>

definition commitAttempt :: "nat \<Rightarrow> shell \<Rightarrow> 's session_ops \<Rightarrow> bool \<Rightarrow> rat \<Rightarrow> ('s, unit) eff" where
  "commitAttempt fuel sh session retryOnKilledSession prepareProbability =
     bindE (random session) (\<lambda>rand.
       if rand < prepareProbability
       then bindE (prepareTransaction sh session) (\<lambda>prepareTimestamp.
              bindE (prepared_commitTransaction sh session prepareTimestamp) (\<lambda>_. ret ()))
       else commitTransactionWithKilledSessionRetries fuel sh session retryOnKilledSession)"

text \<open>The handler of one attempt: it returns whether the error is transient, or throws.\<close>

definition handleTxnError ::
  "shell \<Rightarrow> 's session_ops \<Rightarrow> bool \<Rightarrow> bool \<Rightarrow> exn \<Rightarrow> ('s, bool) eff" where
  "handleTxnError sh session retryOnKilledSession hasCommitTxnError e =
     seqE
       (if \<not> hasCommitTxnError
        then bindE (abortTransaction_forTesting session) (\<lambda>res.
               checkE (commandWorkedOrFailedWithCode sh res
                 [errorCode sh ''NoSuchTransaction'', errorCode sh ''Interrupted'']))
        else ret ())
     (if shouldRetryEntireTxnOnError sh e hasCommitTxnError retryOnKilledSession
      then ret True else raise e)"

text \<open>One turn of the loop: its value is \<open>hasTransientError\<close>.\<close>

definition txnAttempt ::
  "nat \<Rightarrow> shell \<Rightarrow> 's session_ops \<Rightarrow> ('s, unit) eff \<Rightarrow> bool \<Rightarrow> rat \<Rightarrow> ('s, bool) eff" where
  "txnAttempt fuel sh session func retryOnKilledSession prepareProbability =
     seqE (startTransaction_forTesting session)
    (bindE (tryCatch (seqE func (ret None)) (\<lambda>e. ret (Some e))) (\<lambda>funcError.
       case funcError of
         Some e \<Rightarrow> handleTxnError sh session retryOnKilledSession False e
       | None \<Rightarrow>
           bindE (tryCatch
                    (seqE (commitAttempt fuel sh session retryOnKilledSession prepareProbability)
                       (ret None))
                    (\<lambda>e. ret (Some e))) (\<lambda>commitError.
             case commitError of
               Some e \<Rightarrow> handleTxnError sh session retryOnKilledSession True e
             | None \<Rightarrow> ret False)))"

fun txnLoop ::
  "nat \<Rightarrow> shell \<Rightarrow> 's session_ops \<Rightarrow> ('s, unit) eff \<Rightarrow> bool \<Rightarrow> rat \<Rightarrow> ('s, unit) eff" where
  "txnLoop 0 sh session func retryOnKilledSession prepareProbability = diverge"
| "txnLoop (Suc fuel) sh session func retryOnKilledSession prepareProbability =
     bindE (txnAttempt fuel sh session func retryOnKilledSession prepareProbability)
       (\<lambda>hasTransientError.
          if hasTransientError
          then txnLoop fuel sh session func retryOnKilledSession prepareProbability
          else ret ())"

definition withTxnAndAutoRetry ::
  "nat \<Rightarrow> shell \<Rightarrow> 's session_ops \<Rightarrow> ('s, unit) eff \<Rightarrow> bool \<Rightarrow> rat \<Rightarrow> ('s, unit) eff" where
  "withTxnAndAutoRetry fuel sh session func retryOnKilledSession prepareProbability =
     seqE (assertE (\<not> retryOnKilledSession \<or> prepareProbability = 0)
             ''retrying on killed session error codes isn't supported with prepareProbability'')
       (txnLoop fuel sh session func retryOnKilledSession prepareProbability)"


section \<open>Lemmas\<close>




lemma txnAttempt_False:
  assumes "txnAttempt fuel sh session func k p s = (Val False, t)"
  obtains s1 s2 where "startTransaction_forTesting session s = (Val (), s1)"
    and "func s1 = (Val (), s2)" and "commitAttempt fuel sh session k p s2 = (Val (), t)"
  using assms
  by (auto simp: txnAttempt_def handleTxnError_def run_Val js_simps ret_def raise_def
      split: option.splits if_splits)

text \<open>An invariant of the session's operations and of the function is one of the whole run.\<close>

definition session_keeps :: "('s \<Rightarrow> bool) \<Rightarrow> 's session_ops \<Rightarrow> bool" where
  "session_keeps I session \<longleftrightarrow>
     keeps I (startTransaction_forTesting session) \<and> keeps I (commitTransaction_forTesting session) \<and>
     keeps I (abortTransaction_forTesting session) \<and> keeps I (random session) \<and>
     (\<forall>cmd. keeps I (sessionAdminCommand session cmd))"

lemma commitAttempt_keeps [keeps_rules]:
  assumes "session_keeps I session"
  shows "keeps I (commitAttempt fuel sh session k p)"
proof -
  have "keeps I (commitTransactionWithKilledSessionRetries fuel sh session k)"
    by (induction fuel) (use assms in \<open>auto simp: session_keeps_def intro!: keeps_rules\<close>)
  then show ?thesis
    using assms
    by (auto simp: commitAttempt_def prepareTransaction_def prepared_commitTransaction_def
        session_keeps_def Let_def intro!: keeps_rules)
qed

lemma txnAttempt_keeps [keeps_rules]:
  assumes "session_keeps I session" and "keeps I func"
  shows "keeps I (txnAttempt fuel sh session func k p)"
  unfolding txnAttempt_def handleTxnError_def using assms
  by (auto simp: session_keeps_def split: option.split intro!: keeps_rules)

lemma withTxn_keeps [keeps_rules]:
  assumes "session_keeps I session" and "keeps I func"
  shows "keeps I (withTxnAndAutoRetry fuel sh session func k p)"
proof -
  have "keeps I (txnLoop fuel sh session func k p)"
    by (induction fuel) (use assms in \<open>auto intro!: keeps_rules\<close>)
  then show ?thesis by (auto simp: withTxnAndAutoRetry_def intro!: keeps_rules)
qed

lemma txnLoop_Val:
  assumes "txnLoop fuel sh session func k p s = (Val (), t)"
    and "session_keeps I session" and "keeps I func" and "I s"
  shows "\<exists>f s0. I s0 \<and> txnAttempt f sh session func k p s0 = (Val False, t)"
  using assms(1,4)
proof (induction fuel arbitrary: s)
  case 0
  then show ?case by (simp add: diverge_def)
next
  case (Suc fuel)
  then obtain b s' where att: "txnAttempt fuel sh session func k p s = (Val b, s')"
    and rest: "(if b then txnLoop fuel sh session func k p else ret ()) s' = (Val (), t)"
    by (auto simp: bindE_Val)
  have "I s'" using keepsD [OF txnAttempt_keeps [OF assms(2,3)] Suc.prems(2)] att by (metis snd_conv)
  with Suc.IH [of s'] Suc.prems(2) att rest show ?case by (cases b) (auto simp: ret_def)
qed

lemma withTxn_Val:
  assumes "withTxnAndAutoRetry fuel sh session func k p s = (Val (), t)"
    and "session_keeps I session" and "keeps I func" and "I s"
  obtains f s0 s1 s2 where "I s0" and "startTransaction_forTesting session s0 = (Val (), s1)"
    and "func s1 = (Val (), s2)" and "commitAttempt f sh session k p s2 = (Val (), t)"
proof -
  from assms(1) have "txnLoop fuel sh session func k p s = (Val (), t)"
    by (simp add: withTxnAndAutoRetry_def run_Val assertE_def ret_def raise_def split: if_splits)
  from txnLoop_Val [OF this assms(2-4)] that show ?thesis by (blast elim: txnAttempt_False)
qed

lemma commitRetries_Val:
  "commitTransactionWithKilledSessionRetries fuel sh session k s = (Val (), t) \<Longrightarrow>
   \<exists>s0 res. commitTransaction_forTesting session s0 = (Val res, t) \<and> commandWorked sh res = None"
proof (induction fuel arbitrary: s)
  case 0
  then show ?case by (simp add: diverge_def)
next
  case (Suc fuel)
  then show ?case
    by (auto simp: bindE_Val checkE_def ret_def raise_def split: if_splits option.splits)
qed

section \<open>Properties\<close>

text \<open>A scripted session for concrete runs: its state is the list of responses still to be given.\<close>

definition scriptedSession :: "(jsval list) session_ops" where
  "scriptedSession = \<lparr>
     startTransaction_forTesting = ret (),
     commitTransaction_forTesting = (\<lambda>s. case s of [] \<Rightarrow> (Diverge, []) | r # rs \<Rightarrow> (Val r, rs)),
     abortTransaction_forTesting = ret (JObj [(''ok'', jnum 1)]),
     sessionAdminCommand = (\<lambda>_ s. case s of [] \<Rightarrow> (Diverge, []) | r # rs \<Rightarrow> (Val r, rs)),
     random = ret 0\<rparr>"

abbreviation okResponse :: jsval where
  "okResponse \<equiv> JObj [(''ok'', jnum 1)]"

text \<open>
  When \<open>withTxnAndAutoRetry\<close> returns (and the transaction is not prepared by hand), the function
  ran to its end inside a started transaction, and the transaction was then committed: the state
  it returns in is the state after a \<open>commitTransaction\<close> whose response carries no failure.
\<close>

theorem withTxn_returns_committed:
  assumes "withTxnAndAutoRetry fuel sh session func retryOnKilledSession 0 s = (Val (), t)"
    and "\<And>s r s'. random session s = (Val r, s') \<Longrightarrow> 0 \<le> r"
    and "commandWorked_spec sh"
  shows "\<exists>s0 s1 s2 s3 res.
    startTransaction_forTesting session s0 = (Val (), s1) \<and> func s1 = (Val (), s2) \<and>
    commitTransaction_forTesting session s3 = (Val res, t) \<and> \<not> response_failed res"
proof -
  have "session_keeps (\<lambda>_. True) session" and "keeps (\<lambda>_. True) func"
    by (simp_all add: session_keeps_def keeps_def)
  with assms(1) obtain f s0 s1 s2 where st: "startTransaction_forTesting session s0 = (Val (), s1)"
      "func s1 = (Val (), s2)"
    and "commitAttempt f sh session retryOnKilledSession 0 s2 = (Val (), t)"
    by (blast elim: withTxn_Val)
  then obtain s2' where "commitTransactionWithKilledSessionRetries f sh session retryOnKilledSession s2' = (Val (), t)"
    using assms(2) by (fastforce simp: commitAttempt_def bindE_Val split: if_splits)
  then show ?thesis
    using commitRetries_Val [of f sh session retryOnKilledSession s2' t] st assms(3)
    unfolding commandWorked_spec_def by blast
qed

theorem withTxn_returns_committed_witness:
  "withTxnAndAutoRetry 3 exampleShell scriptedSession (ret ()) False 0 [okResponse] = (Val (), []) \<and>
   (\<exists>s3 res. commitTransaction_forTesting scriptedSession s3 = (Val res, []) \<and> \<not> response_failed res)"
proof -
  have run: "withTxnAndAutoRetry 3 exampleShell scriptedSession (ret ()) False 0 [okResponse] = (Val (), [])"
    by code_simp
  show ?thesis
    using withTxn_returns_committed [OF run _ exampleShell_commandWorked] run
    by (auto simp: scriptedSession_def ret_def)
qed

text \<open>
  C16. An error of the commit that is not labelled transient is never answered by running the function
  again, since it is unknown whether the commit took effect: the error is thrown at once, from the
  state the commit left.
\<close>

theorem withTxn_no_rerun_after_commit_error:
  assumes "startTransaction_forTesting session s = (Val (), s1)"
    and "func s1 = (Val (), s2)"
    and "commitAttempt fuel sh session retryOnKilledSession prepareProbability s2 = (Throw e, s3)"
    and "\<not> hasTransientLabel e"
    and "\<not> retryOnKilledSession \<or> prepareProbability = 0"
  shows "withTxnAndAutoRetry (Suc fuel) sh session func retryOnKilledSession prepareProbability s
         = (Throw e, s3)"
  using assms
  by (simp add: withTxnAndAutoRetry_def txnAttempt_def handleTxnError_def
      shouldRetryEntireTxnOnError_def bindE_def seqE_def tryCatch_def assertE_def ret_def raise_def)

theorem withTxn_no_rerun_after_commit_error_witness:
  "withTxnAndAutoRetry 3 exampleShell scriptedSession (ret ()) False 0 [JObj [(''ok'', jnum 0)], okResponse]
   = (Throw (ErrObj (JObj [(''ok'', jnum 0)])), [okResponse])"
proof -
  let ?s = "[JObj [(''ok'', jnum 0)], okResponse]"
  have "startTransaction_forTesting scriptedSession ?s = (Val (), ?s)"
    and "ret () ?s = (Val (), ?s)"
    and "commitAttempt 2 exampleShell scriptedSession False 0 ?s
         = (Throw (ErrObj (JObj [(''ok'', jnum 0)])), [okResponse])"
    and "\<not> hasTransientLabel (ErrObj (JObj [(''ok'', jnum 0)]))"
    by code_simp+
  from withTxn_no_rerun_after_commit_error [where func = "ret ()", OF this] show ?thesis by (simp add: numeral_3_eq_3)
qed

text \<open>
  When the transaction is prepared before it is committed, a failed commit is not reported: the
  response of the commit is dropped, and the function returns as if the transaction had committed,
  although the session has just aborted it.
\<close>

theorem prepared_commit_failure_swallowed:
  assumes "startTransaction_forTesting session s = (Val (), s1)"
    and "func s1 = (Val (), s2)"
    and "random session s2 = (Val r, s3)" and "r < prepareProbability"
    and "prepareTransaction sh session s3 = (Val ts, s4)"
    and "sessionAdminCommand session
           (JObj [(''commitTransaction'', jnum 1), (''commitTimestamp'', ts)]) s4 = (Val res, s5)"
    and "\<not> truthy (fld res ''ok'')"
    and "abortTransaction_forTesting session s5 = (Val abortRes, s6)"
    and "commandWorkedOrFailedWithCode sh abortRes [errorCode sh ''NoSuchTransaction''] = None"
  shows "withTxnAndAutoRetry (Suc fuel) sh session func False prepareProbability s = (Val (), s6)"
  using assms
  by (simp add: withTxnAndAutoRetry_def txnAttempt_def commitAttempt_def
      prepared_commitTransaction_def bindE_def seqE_def tryCatch_def assertE_def checkE_def ret_def)

theorem prepared_commit_failure_swallowed_witness:
  "withTxnAndAutoRetry 1 exampleShell scriptedSession (ret ()) False 1
     [JObj [(''ok'', jnum 1), (''prepareTimestamp'', JExt ''Timestamp'' ''Timestamp(5, 1)'')],
      JObj [(''ok'', jnum 0)]] = (Val (), [])"
proof -
  let ?ts = "JExt ''Timestamp'' ''Timestamp(5, 1)''"
  let ?s = "[JObj [(''ok'', jnum 1), (''prepareTimestamp'', ?ts)], JObj [(''ok'', jnum 0)]]"
  have "startTransaction_forTesting scriptedSession ?s = (Val (), ?s)"
    and "ret () ?s = (Val (), ?s)"
    and "random scriptedSession ?s = (Val 0, ?s)"
    and "(0 :: rat) < 1"
    and "prepareTransaction exampleShell scriptedSession ?s = (Val ?ts, [JObj [(''ok'', jnum 0)]])"
    and "sessionAdminCommand scriptedSession
           (JObj [(''commitTransaction'', jnum 1), (''commitTimestamp'', ?ts)]) [JObj [(''ok'', jnum 0)]]
         = (Val (JObj [(''ok'', jnum 0)]), [])"
    and "\<not> truthy (fld (JObj [(''ok'', jnum 0)]) ''ok'')"
    and "abortTransaction_forTesting scriptedSession [] = (Val okResponse, [])"
    and "commandWorkedOrFailedWithCode exampleShell okResponse
           [errorCode exampleShell ''NoSuchTransaction''] = None"
    by code_simp+
  from prepared_commit_failure_swallowed [where func = "ret ()", OF this, of 0] show ?thesis by simp
qed

section \<open>Termination\<close>
















end
