(* ===== verification/Override_Helpers.thy ===== *)
theory Override_Helpers
  imports Shell
begin

text \<open>
  What the command overrides of the shell share: \<open>override_methods/override_helpers.js\<close> (which
  aggregations and map-reduces a command is, and the code a parallel shell is started with),
  \<open>override_methods/read_and_write_concern_helpers.js\<close> (the commands that take a read or a write
  concern), \<open>retryable_writes_util.js\<close> (which codes and commands can be retried),
  \<open>error_code_utils.js\<close> and \<open>transactions_util.js\<close> (which commands can run in a transaction, the deep
  copy of a command, the transient transaction label).
\<close>

section \<open>Strings\<close>

fun starts_with :: "string \<Rightarrow> string \<Rightarrow> bool" where
  "starts_with [] s = True"
| "starts_with (p # ps) [] = False"
| "starts_with (p # ps) (c # cs) = (p = c \<and> starts_with ps cs)"

text \<open>\<open>s.indexOf(sub)\<close>: the first position, none for \<open>-1\<close>.\<close>

fun index_of :: "string \<Rightarrow> string \<Rightarrow> nat option" where
  "index_of sub s =
     (if starts_with sub s then Some 0
      else case s of [] \<Rightarrow> None | _ # cs \<Rightarrow> map_option Suc (index_of sub cs))"

declare index_of.simps [simp del]

text \<open>\<open>v.indexOf(sub) >= 0\<close> on a string or an array of strings; other values have no such method.\<close>

fun contains_str :: "jsval \<Rightarrow> string \<Rightarrow> bool result" where
  "contains_str (JStr s) sub = Inr (index_of sub s \<noteq> None)"
| "contains_str (JArr xs) sub = Inr (JStr sub \<in> set xs)"
| "contains_str v sub = Inl (TypeErr ''indexOf is not a function'')"

lemma starts_with_prefix: "starts_with p s \<longleftrightarrow> (\<exists>t. s = p @ t)"
  by (induction p s rule: starts_with.induct) auto

lemma index_of_None: "index_of sub s = None \<longleftrightarrow> (\<nexists>a b. s = a @ sub @ b)"
proof (induction s)
  case Nil
  show ?case by (subst index_of.simps) (auto simp: starts_with_prefix)
next
  case (Cons c cs)
  have "(\<exists>a b. c # cs = a @ sub @ b) \<longleftrightarrow> starts_with sub (c # cs) \<or> (\<exists>a b. cs = a @ sub @ b)"
    by (auto simp: starts_with_prefix Cons_eq_append_conv)
  then show ?case by (subst index_of.simps) (simp add: Cons.IH)
qed

section \<open>Command shapes\<close>

definition is_object :: "jsval \<Rightarrow> bool" where
  "is_object v \<longleftrightarrow> typeof v = ''object'' \<and> v \<noteq> Null"

text \<open>\<open>Object.keys(v)[0]\<close>; an object with no property gives the name \<open>undefined\<close>.\<close>

definition first_key :: "jsval \<Rightarrow> string" where
  "first_key v = (case obj_keys v of [] \<Rightarrow> ''undefined'' | k # _ \<Rightarrow> k)"

definition makeIsAggregationWithFirstStage :: "string \<Rightarrow> string \<Rightarrow> jsval \<Rightarrow> bool" where
  "makeIsAggregationWithFirstStage stageName commandName commandObj =
     (if commandName \<noteq> ''aggregate'' \<or> \<not> is_object commandObj then False
      else case fld commandObj ''pipeline'' of
          JArr (firstStage # _) \<Rightarrow>
            if \<not> is_object firstStage then False else first_key firstStage = stageName
        | _ \<Rightarrow> False)"

definition isAggregationWithOutOrMergeStage :: "string \<Rightarrow> jsval \<Rightarrow> bool" where
  "isAggregationWithOutOrMergeStage commandName commandObj =
     (if commandName \<noteq> ''aggregate'' \<or> \<not> is_object commandObj then False
      else case fld commandObj ''pipeline'' of
          JArr (x # xs) \<Rightarrow>
            (let lastStage = last (x # xs) in
             if \<not> is_object lastStage then False
             else first_key lastStage = ''$out'' \<or> first_key lastStage = ''$merge'')
        | _ \<Rightarrow> False)"

definition isMapReduceWithInlineOutput :: "string \<Rightarrow> jsval \<Rightarrow> bool result" where
  "isMapReduceWithInlineOutput commandName commandObj =
     (if commandName \<noteq> ''mapReduce'' \<and> commandName \<noteq> ''mapreduce'' \<or> \<not> is_object commandObj then Inr False
      else let out = fld commandObj ''out'' in
        if typeof out \<noteq> ''object'' then Inr False
        else if out = Null then Inl (TypeErr ''out is null'')
        else Inr (has_own out ''inline''))"

definition isAggregationWithListLocalSessionsStage :: "string \<Rightarrow> jsval \<Rightarrow> bool" where
  "isAggregationWithListLocalSessionsStage = makeIsAggregationWithFirstStage ''$listLocalSessions''"

definition isAggregationWithChangeStreamStage :: "string \<Rightarrow> jsval \<Rightarrow> bool" where
  "isAggregationWithChangeStreamStage = makeIsAggregationWithFirstStage ''$changeStream''"

text \<open>The code given to a parallel shell; \<open>source\<close> is the text of the function or the string itself.\<close>

definition prependOverrideInParallelShell :: "string \<Rightarrow> bool \<Rightarrow> string \<Rightarrow> string" where
  "prependOverrideInParallelShell overrideFile isFunction source =
     (if isFunction
      then ''load(\"'' @ overrideFile @ ''\"); ('' @ source @ '')();''
      else ''load(\"'' @ overrideFile @ ''\"); '' @ source @ '';'')"

section \<open>Commands with read and write concerns\<close>

definition kCommandsSupportingReadConcern :: "string list" where
  "kCommandsSupportingReadConcern = [''aggregate'', ''count'', ''distinct'', ''find'', ''geoSearch'']"

definition kCommandsOnlySupportingReadConcernSnapshot :: "string list" where
  "kCommandsOnlySupportingReadConcernSnapshot = [''delete'', ''findAndModify'', ''findandmodify'', ''insert'', ''update'']"

definition kCommandsSupportingWriteConcern :: "string list" where
  "kCommandsSupportingWriteConcern = [''_configsvrAddShard'', ''_configsvrAddShardToZone'', ''_configsvrCommitChunkMerge'',
     ''_configsvrCommitChunkMigration'', ''_configsvrCommitChunkSplit'',
     ''_configsvrCreateDatabase'', ''_configsvrEnableSharding'', ''_configsvrMoveChunk'',
     ''_configsvrMovePrimary'', ''_configsvrRemoveShard'',
     ''_configsvrRemoveShardFromZone'', ''_configsvrShardCollection'',
     ''_configsvrUpdateZoneKeyRange'', ''_mergeAuthzCollections'', ''_recvChunkStart'',
     ''abortTransaction'', ''appendOplogNote'', ''applyOps'', ''aggregate'', ''captrunc'',
     ''cleanupOrphaned'', ''clone'', ''cloneCollectionAsCapped'', ''collMod'',
     ''commitTransaction'', ''convertToCapped'', ''create'', ''createIndexes'',
     ''createRole'', ''createUser'', ''delete'', ''deleteIndexes'', ''drop'',
     ''dropAllRolesFromDatabase'', ''dropAllUsersFromDatabase'', ''dropDatabase'',
     ''dropIndexes'', ''dropRole'', ''dropUser'', ''emptycapped'', ''findAndModify'',
     ''findandmodify'', ''godinsert'', ''grantPrivilegesToRole'', ''grantRolesToRole'',
     ''grantRolesToUser'', ''insert'', ''mapReduce'', ''mapreduce'',
     ''mapreduce.shardedfinish'', ''moveChunk'', ''renameCollection'',
     ''revokePrivilegesFromRole'', ''revokeRolesFromRole'', ''revokeRolesFromUser'',
     ''setFeatureCompatibilityVersion'', ''update'', ''updateRole'', ''updateUser'']"

definition kCommandsSupportingWriteConcernInTransaction :: "string list" where
  "kCommandsSupportingWriteConcernInTransaction = [''abortTransaction'', ''commitTransaction'']"

section \<open>Retryable codes and commands\<close>

definition isRetryableCode :: "shell \<Rightarrow> jsval \<Rightarrow> bool" where
  "isRetryableCode sh code \<longleftrightarrow>
     isNetworkErrorCode sh code \<or> isNotMasterErrorCode sh code \<or> isWriteConcernErrorCode sh code \<or>
     isShutdownErrorCode sh code \<or> isInterruptionCode sh code"

definition kRetryableCodeNames :: "shell \<Rightarrow> string list" where
  "kRetryableCodeNames sh = filter (\<lambda>codeName. isRetryableCode sh (errorCode sh codeName)) (errorCodeNames sh)"

definition errmsgContainsRetryableCodeName :: "shell \<Rightarrow> jsval \<Rightarrow> bool result" where
  "errmsgContainsRetryableCodeName sh errmsg =
     (case errmsg of
        Undef \<Rightarrow> Inr False
      | JStr s \<Rightarrow> Inr (list_ex (\<lambda>codeName. case index_of codeName s of None \<Rightarrow> False | Some i \<Rightarrow> i > 0)
                        (kRetryableCodeNames sh))
      | _ \<Rightarrow> if kRetryableCodeNames sh = [] then Inr False
             else Inl (TypeErr ''errmsg.indexOf is not a function''))"

definition kRetryableWriteCommands :: "string list" where
  "kRetryableWriteCommands = [''delete'', ''findandmodify'', ''findAndModify'', ''insert'', ''update'']"

definition isRetryableWriteCmdName :: "string \<Rightarrow> bool" where
  "isRetryableWriteCmdName cmdName \<longleftrightarrow> cmdName \<in> set kRetryableWriteCommands"

definition storageEngineSupportsRetryableWrites :: "string \<Rightarrow> bool" where
  "storageEngineSupportsRetryableWrites storageEngineName \<longleftrightarrow> storageEngineName \<notin> set [''ephemeralForTest'']"

definition includesErrorCode :: "jsval \<Rightarrow> jsval \<Rightarrow> bool" where
  "includesErrorCode serverReply code =
     (if strict_eq (fld serverReply ''code'') code then True
      else if truthy (fld serverReply ''writeErrors'')
      then list_ex (\<lambda>e. strict_eq (fld e ''code'') code) (arr_elems (fld serverReply ''writeErrors''))
      else False)"

section \<open>Commands in transactions\<close>

definition kCmdsSupportingTransactions :: "string list" where
  "kCmdsSupportingTransactions =
     [''aggregate'', ''delete'', ''find'', ''findAndModify'', ''findandmodify'', ''getMore'', ''insert'', ''update'']"

definition kCmdsThatWrite :: "string list" where
  "kCmdsThatWrite = [''insert'', ''update'', ''findAndModify'', ''findandmodify'', ''delete'']"

definition commandIsNonTxnAggregation :: "string \<Rightarrow> jsval \<Rightarrow> bool" where
  "commandIsNonTxnAggregation cmdName cmdObj \<longleftrightarrow>
     isAggregationWithOutOrMergeStage cmdName cmdObj \<or> isAggregationWithChangeStreamStage cmdName cmdObj"

definition commandSupportsTxn :: "string \<Rightarrow> string \<Rightarrow> jsval \<Rightarrow> bool result" where
  "commandSupportsTxn dbName cmdName cmdObj =
     (if cmdName = ''commitTransaction'' \<or> cmdName = ''abortTransaction'' then Inr True
      else if cmdName \<notin> set kCmdsSupportingTransactions \<or> commandIsNonTxnAggregation cmdName cmdObj
      then Inr False
      else if dbName = ''local'' \<or> dbName = ''config'' \<or> dbName = ''admin'' then Inr False
      else rbind
        (if cmdName \<in> set kCmdsThatWrite
         then case fld cmdObj cmdName of
             JStr s \<Rightarrow> Inr (starts_with ''system.'' s)
           | _ \<Rightarrow> Inl (TypeErr ''startsWith is not a function'')
         else Inr False)
        (\<lambda>system. if system then Inr False
                  else if fld cmdObj ''lsid'' = Undef then Inr False else Inr True))"

definition commandTypeCanSupportTxn :: "string \<Rightarrow> bool" where
  "commandTypeCanSupportTxn cmdName =
     (if cmdName = ''commitTransaction'' \<or> cmdName = ''abortTransaction'' then True
      else if cmdName \<in> set kCmdsSupportingTransactions then True else False)"

text \<open>
  The copy of a property's value: literals of objects and arrays are copied property by property,
  other values are taken over or rebuilt from their printed form.
\<close>

fun copyValue :: "jsval \<Rightarrow> jsval" where
  "copyValue (JObj kvs) = fold (\<lambda>(k, v) dst. set_prop k (copyValue v) dst) kvs (JObj [])"
| "copyValue (JArr xs) = JArr (map copyValue xs)"
| "copyValue v = v"

definition deepCopyObject :: "jsval \<Rightarrow> jsval \<Rightarrow> jsval" where
  "deepCopyObject dst src = fold (\<lambda>(k, v) dst. set_prop k (copyValue v) dst) (props src) dst"

definition isTransientTransactionError :: "jsval \<Rightarrow> bool" where
  "isTransientTransactionError res \<longleftrightarrow>
     has_own res ''errorLabels'' \<and> includes_str (fld res ''errorLabels'') ''TransientTransactionError''"

section \<open>Lemmas: copies\<close>

text \<open>The objects JavaScript can build: every object, at any depth, has each key once.\<close>

fun wf_val :: "jsval \<Rightarrow> bool" where
  "wf_val (JObj kvs) \<longleftrightarrow> distinct (map fst kvs) \<and> list_all (\<lambda>(k, v). wf_val v) kvs"
| "wf_val (JArr xs) \<longleftrightarrow> list_all wf_val xs"
| "wf_val _ \<longleftrightarrow> True"

lemma fold_set_prop:
  assumes "distinct (map fst kvs)" and "fst ` set kvs \<inter> fst ` set ds = {}"
  shows "fold (\<lambda>(k, v) dst. set_prop k (f v) dst) kvs (JObj ds) = JObj (ds @ map (\<lambda>(k, v). (k, f v)) kvs)"
  using assms
proof (induction kvs arbitrary: ds)
  case (Cons kv kvs)
  obtain k v where kv: "kv = (k, v)" by (cases kv)
  have "AList.update k (f v) ds = ds @ [(k, f v)]"
    using Cons.prems kv by (induction ds) auto
  then have "set_prop k (f v) (JObj ds) = JObj (ds @ [(k, f v)])" by (simp add: set_prop_def)
  moreover have "fst ` set kvs \<inter> fst ` set (ds @ [(k, f v)]) = {}"
    using Cons.prems kv by auto
  ultimately show ?case using Cons.IH [of "ds @ [(k, f v)]"] Cons.prems(1) kv by simp
qed simp

lemma copyValue_id: "wf_val v \<Longrightarrow> copyValue v = v"
proof (induction v rule: copyValue.induct)
  case (1 kvs)
  then have "map (\<lambda>(k, v). (k, copyValue v)) kvs = kvs"
    by (auto simp: list_all_iff intro!: map_idI)
  then show ?case using 1(2) fold_set_prop [of kvs "[]" copyValue] by simp
next
  case (2 xs)
  then show ?case by (auto simp: list_all_iff intro!: map_idI)
qed auto

lemma deepCopyObject_id:
  assumes "wf_val (JObj kvs)"
  shows "deepCopyObject (JObj []) (JObj kvs) = JObj kvs"
  using copyValue_id [OF assms] by (simp add: deepCopyObject_def)

text \<open>
  A retryable code name at the very beginning of an error message is not recognised: the position
  zero of \<open>indexOf\<close> fails the test for a positive one.
\<close>

theorem leading_code_name_missed:
  "\<forall>name \<in> set (kRetryableCodeNames sh). starts_with name s \<or> index_of name s = None \<Longrightarrow>
   errmsgContainsRetryableCodeName sh (JStr s) = Inr False"
  by (auto simp: errmsgContainsRetryableCodeName_def list_ex_iff index_of.simps [of _ s]
      split: option.splits)

theorem leading_code_name_missed_example:
  "errmsgContainsRetryableCodeName exampleShell (JStr ''NotMaster: node is recovering'') = Inr False \<and>
   errmsgContainsRetryableCodeName exampleShell (JStr ''caused by NotMaster'') = Inr True"
  by code_simp

end
