(* ===== verification/Fsm.thy ===== *)
theory Fsm
  imports Parse_Config Txn_Retry Override_Helpers
begin

text \<open>
  The runner of one workload's finite state machine, \<open>fsm_libs/fsm.js\<close>: the weighted random choice
  of the next state, and the loop that runs a state function, inside a transaction or not, and
  moves on.

  The machine's data (\<open>args.data\<close>, the \<open>this\<close> of the state functions), the contents of the objects of custom
  types the data refer to, and everything outside (the server, the session, the random generator) are the state; a
  state function may change all three and may throw.  Connecting to a host and drawing a random number are parameters.
\<close>

section \<open>The weighted choice\<close>

fun accumulate :: "jsnum \<Rightarrow> jsnum list \<Rightarrow> jsnum list" where
  "accumulate a [] = []"
| "accumulate a (b # bs) = num_add a b # accumulate (num_add a b) bs"

text \<open>The result of the \<open>reduce\<close>: the last accumulated weight, 0 when there is none.\<close>

definition weightSum :: "jsnum list \<Rightarrow> jsnum" where
  "weightSum weights = last (Fin 0 # accumulate (Fin 0) weights)"

fun pickState :: "jsnum \<Rightarrow> (string \<times> jsnum) list \<Rightarrow> string result" where
  "pickState randVal [] = Inl (AssertFail ''not reached'')"
| "pickState randVal ((state, acc) # rest) =
     (if num_less randVal acc then Inr state else pickState randVal rest)"

definition getWeightedRandomChoice :: "jsval \<Rightarrow> rat \<Rightarrow> string result" where
  "getWeightedRandomChoice doc randVal =
     require (randVal \<ge> 0) ''randVal'' (
     require (randVal < 1) ''randVal'' (
     rbind (object_keys doc) (\<lambda>states.
     require (length states > 0) ''transition must have at least one state to transition to'' (
     let weights = map (\<lambda>k. to_number (fld doc k)) states;
         accumulated = accumulate (Fin 0) weights;
         randVal = num_scale randVal (weightSum weights)
     in pickState randVal (zip states accumulated)))))"

section \<open>The machine\<close>

record 'c conn_cache =
  mongosConns :: "'c list"
  configConns :: "'c list"
  shardConns :: "(string \<times> 'c list) list"

text \<open>The serialised cluster: \<open>None\<close> is the empty string a cluster without shards serialises to.\<close>

record cluster_hosts =
  mongosHosts :: "string list"
  configHosts :: "string list"
  shardHosts :: "(string \<times> string list) list"

text \<open>
  The data are a tree of literals.  An object of a custom type, such as a connection or a collection, occurs in it as a
  reference \<open>JExt\<close>; what such objects contain is in \<open>objects\<close>, since a copy of the data refers to the same ones.
\<close>

type_synonym objects = "(string \<times> jsval) list"

record 'w fsm_state =
  argsData :: jsval
  txnData :: jsval         \<comment> \<open>the copy a transaction works on\<close>
  objects :: objects
  outside :: 'w

type_synonym ('c, 'w) state_fn = "'c conn_cache option \<Rightarrow> (jsval \<times> objects \<times> 'w, unit) eff"

record ('c, 'w) fsm_args =
  startState :: string
  states :: "(string \<times> ('c, 'w) state_fn) list"
  transitions :: jsval
  iterations :: nat
  passConnectionCache :: bool
  clusterHosts :: "cluster_hosts option"
  runInsideTransaction :: bool     \<comment> \<open>\<open>TestData.runInsideTransaction\<close>\<close>

definition onOutside :: "('w, 'a) eff \<Rightarrow> ('w fsm_state, 'a) eff" where
  "onOutside m = (\<lambda>s. case m (outside s) of (r, w) \<Rightarrow> (r, s\<lparr>outside := w\<rparr>))"

text \<open>\<open>fn.call(args.data, ...)\<close> and \<open>fn.call(data, ...)\<close>.\<close>

definition callOnArgs :: "(jsval \<times> objects \<times> 'w, unit) eff \<Rightarrow> ('w fsm_state, unit) eff" where
  "callOnArgs f = (\<lambda>s. case f (argsData s, objects s, outside s) of
     (r, d, c, w) \<Rightarrow> (r, s\<lparr>argsData := d, objects := c, outside := w\<rparr>))"

definition callOnCopy :: "(jsval \<times> objects \<times> 'w, unit) eff \<Rightarrow> ('w fsm_state, unit) eff" where
  "callOnCopy f = (\<lambda>s. case f (txnData s, objects s, outside s) of
     (r, d, c, w) \<Rightarrow> (r, s\<lparr>txnData := d, objects := c, outside := w\<rparr>))"

definition onOutsideSession :: "'w session_ops \<Rightarrow> 'w fsm_state session_ops" where
  "onOutsideSession session = \<lparr>
     startTransaction_forTesting = onOutside (startTransaction_forTesting session),
     commitTransaction_forTesting = onOutside (commitTransaction_forTesting session),
     abortTransaction_forTesting = onOutside (abortTransaction_forTesting session),
     sessionAdminCommand = (\<lambda>cmd. onOutside (sessionAdminCommand session cmd)),
     random = onOutside (random session)\<rparr>"

definition isNotSupported :: "exn \<Rightarrow> bool" where
  "isNotSupported e = truthy (fld (exn_obj e) ''isNotSupported'')"

text \<open>
  One state function in a transaction: it works on a deep copy of the data, made for each attempt,
  which replaces the data only after the commit; an operation that no transaction supports is run again outside.
\<close>

definition runInTxn ::
  "nat \<Rightarrow> shell \<Rightarrow> 'w session_ops \<Rightarrow> (jsval \<times> objects \<times> 'w, unit) eff \<Rightarrow> ('w fsm_state, unit) eff" where
  "runInTxn fuel sh session f =
     tryCatch
       (seqE
         (withTxnAndAutoRetry fuel sh (onOutsideSession session)
           (seqE (modE (\<lambda>s. s\<lparr>txnData := deepCopyObject (JObj []) (argsData s)\<rparr>)) (callOnCopy f)) False 0)
         (modE (\<lambda>s. s\<lparr>argsData := txnData s\<rparr>)))
       (\<lambda>e. if \<not> isNotSupported e then raise e else callOnArgs f)"

fun fsmLoop ::
  "nat \<Rightarrow> shell \<Rightarrow> 'w session_ops \<Rightarrow> ('c, 'w) fsm_args \<Rightarrow> 'c conn_cache option \<Rightarrow>
   nat \<Rightarrow> string \<Rightarrow> ('w fsm_state, unit) eff" where
  "fsmLoop fuel sh session args connCache 0 currentState = ret ()"
| "fsmLoop fuel sh session args connCache (Suc i) currentState =
     (case map_of (states args) currentState of
        None \<Rightarrow> raise (AssertFail (''states.'' @ currentState @ '' is not a function''))
      | Some fn \<Rightarrow>
          seqE (if runInsideTransaction args then runInTxn fuel sh session (fn connCache)
                else callOnArgs (fn connCache))
         (bindE (onOutside (random session)) (\<lambda>r.
          bindE (liftE (getWeightedRandomChoice (fld (transitions args) currentState) r)) (\<lambda>nextState.
          fsmLoop fuel sh session args connCache i nextState))))"

definition makeConnCache ::
  "(string \<Rightarrow> ('w, 'c) eff) \<Rightarrow> cluster_hosts option \<Rightarrow> ('w, 'c conn_cache) eff" where
  "makeConnCache connect hosts =
     (case hosts of
        None \<Rightarrow> raise (TypeErr ''args.cluster.mongos is undefined'')
      | Some h \<Rightarrow>
          bindE (mapE connect (mongosHosts h)) (\<lambda>ms.
          bindE (mapE connect (configHosts h)) (\<lambda>cs.
          bindE (mapE (\<lambda>(name, hs). bindE (mapE connect hs) (\<lambda>conns. ret (name, conns))) (shardHosts h)) (\<lambda>ss.
          ret \<lparr>mongosConns = ms, configConns = cs, shardConns = ss\<rparr>))))"

definition runFSM ::
  "nat \<Rightarrow> shell \<Rightarrow> 'w session_ops \<Rightarrow> (string \<Rightarrow> ('w, 'c) eff) \<Rightarrow> ('c, 'w) fsm_args \<Rightarrow>
   ('w fsm_state, unit) eff" where
  "runFSM fuel sh session connect args =
     bindE (if passConnectionCache args
            then bindE (onOutside (makeConnCache connect (clusterHosts args))) (\<lambda>c. ret (Some c))
            else ret None) (\<lambda>connCache.
     fsmLoop fuel sh session args connCache (iterations args) (startState args))"

section \<open>Lemmas: the weighted choice\<close>

lemma accumulate_Fin:
  "accumulate (Fin a) (map Fin ws) = map (\<lambda>i. Fin (a + sum_list (take (Suc i) ws))) [0..<length ws]"
proof (induction ws arbitrary: a)
  case Nil
  then show ?case by simp
next
  case (Cons w ws)
  have "[0..<length (w # ws)] = 0 # map Suc [0..<length ws]"
    by (simp add: upt_conv_Cons map_Suc_upt del: upt_Suc)
  then show ?case by (simp add: Cons.IH o_def add.assoc del: upt_Suc)
qed

lemma weightSum_Fin: "weightSum (map Fin ws) = Fin (sum_list ws)"
proof (cases "ws = []")
  case True
  then show ?thesis by (simp add: weightSum_def)
next
  case False
  then have "last (accumulate (Fin 0) (map Fin ws)) = Fin (sum_list ws)"
    by (simp add: accumulate_Fin last_map)
  moreover have "accumulate (Fin 0) (map Fin ws) \<noteq> []" using False by (cases ws) simp_all
  ultimately show ?thesis by (simp add: weightSum_def)
qed

lemma pickState_Fin:
  assumes "length ks = length ws" and "a \<le> x" and "x < a + sum_list ws"
  shows "\<exists>i < length ws. pickState (Fin x) (zip ks (accumulate (Fin a) (map Fin ws))) = Inr (ks ! i) \<and>
           a + sum_list (take i ws) \<le> x \<and> x < a + sum_list (take (Suc i) ws)"
  using assms
proof (induction ws arbitrary: a ks)
  case Nil
  then show ?case by simp
next
  case (Cons w ws)
  then obtain k ks' where ks: "ks = k # ks'" and len: "length ks' = length ws"
    by (cases ks) auto
  show ?case
  proof (cases "x < a + w")
    case True
    then show ?thesis using Cons.prems by (intro exI [of _ 0]) (simp add: ks)
  next
    case False
    then obtain i where "i < length ws"
      and "pickState (Fin x) (zip ks' (accumulate (Fin (a + w)) (map Fin ws))) = Inr (ks' ! i)"
      and "a + w + sum_list (take i ws) \<le> x" and "x < a + w + sum_list (take (Suc i) ws)"
      using Cons.IH [OF len, of "a + w"] Cons.prems by auto
    then show ?thesis using False by (intro exI [of _ "Suc i"]) (simp add: ks add.assoc)
  qed
qed

lemma choice_Fin:
  assumes "doc \<noteq> Undef" and "doc \<noteq> Null"
    and ws: "map (\<lambda>k. to_number (fld doc k)) (obj_keys doc) = map Fin ws"
    and pos: "0 < sum_list ws" and r: "0 \<le> r" "r < 1"
  shows "\<exists>i < length ws. getWeightedRandomChoice doc r = Inr (obj_keys doc ! i) \<and>
           sum_list (take i ws) \<le> r * sum_list ws \<and> r * sum_list ws < sum_list (take (Suc i) ws) \<and>
           0 < ws ! i"
proof -
  have len: "length (obj_keys doc) = length ws" using arg_cong [OF ws, of length] by simp
  have x: "0 \<le> r * sum_list ws" "r * sum_list ws < sum_list ws"
    using pos r by (simp_all add: zero_le_mult_iff)
  have ne: "obj_keys doc \<noteq> []" using pos len by auto
  obtain i where i: "i < length ws"
    and pick: "pickState (Fin (r * sum_list ws))
                 (zip (obj_keys doc) (accumulate (Fin 0) (map Fin ws))) = Inr (obj_keys doc ! i)"
    and lo: "sum_list (take i ws) \<le> r * sum_list ws"
    and hi: "r * sum_list ws < sum_list (take (Suc i) ws)"
    using pickState_Fin [OF len, of 0 "r * sum_list ws"] x by auto
  have "getWeightedRandomChoice doc r = Inr (obj_keys doc ! i)"
    using assms(1,2) r ne len pick
    by (simp add: getWeightedRandomChoice_def object_keys_def Let_def ws weightSum_Fin)
  moreover have "0 < ws ! i" using i lo hi by (simp add: take_Suc_conv_app_nth)
  ultimately show ?thesis using i lo hi by blast
qed


section \<open>Lemmas: the machine\<close>

lemma onOutside_simps [js_simps]:
  "m (outside s) = (r, w) \<Longrightarrow> onOutside m s = (r, s\<lparr>outside := w\<rparr>)"
  by (simp add: onOutside_def)

lemma callOnArgs_simps [js_simps]:
  "f (argsData s, objects s, outside s) = (r, d, c, w) \<Longrightarrow> callOnArgs f s = (r, s\<lparr>argsData := d, objects := c, outside := w\<rparr>)"
  by (simp add: callOnArgs_def)







text \<open>
  The transitions out of a state are sound when the weights are finite, sum to more than nothing,
  and every target is again a state with sound transitions.
\<close>

definition finite_weights :: "jsval \<Rightarrow> rat list \<Rightarrow> bool" where
  "finite_weights doc ws \<longleftrightarrow> doc \<noteq> Undef \<and> doc \<noteq> Null \<and>
     map (\<lambda>k. to_number (fld doc k)) (obj_keys doc) = map Fin ws \<and> 0 < sum_list ws"

definition positive_weight :: "jsval \<Rightarrow> string \<Rightarrow> bool" where
  "positive_weight doc k \<longleftrightarrow> k \<in> set (obj_keys doc) \<and> num_less (Fin 0) (to_number (fld doc k))"

lemma choice_positive:
  assumes "finite_weights doc ws" and "0 \<le> r" and "r < 1"
  obtains k where "getWeightedRandomChoice doc r = Inr k" and "positive_weight doc k"
proof -
  from assms(1) have doc: "doc \<noteq> Undef" "doc \<noteq> Null"
    and ws: "map (\<lambda>k. to_number (fld doc k)) (obj_keys doc) = map Fin ws" and "0 < sum_list ws"
    by (simp_all add: finite_weights_def)
  then obtain i where i: "i < length ws" "getWeightedRandomChoice doc r = Inr (obj_keys doc ! i)" "0 < ws ! i"
    using choice_Fin [OF doc ws _ assms(2,3)] by blast
  have len: "length (obj_keys doc) = length ws" using arg_cong [OF ws, of length] by simp
  have "to_number (fld doc (obj_keys doc ! i)) = Fin (ws ! i)"
    using arg_cong [OF ws, of "\<lambda>xs. xs ! i"] i(1) len by simp
  then have "positive_weight doc (obj_keys doc ! i)" using i len by (simp add: positive_weight_def)
  with i(2) that show ?thesis by blast
qed

text \<open>A walk: it starts at the given state and follows transitions of positive weight.\<close>

fun walk :: "jsval \<Rightarrow> string \<Rightarrow> string list \<Rightarrow> bool" where
  "walk tr cur [] = True"
| "walk tr cur (x # xs) \<longleftrightarrow>
     x = cur \<and> (case xs of [] \<Rightarrow> True | y # _ \<Rightarrow> positive_weight (fld tr cur) y \<and> walk tr y xs)"

text \<open>
  What a machine needs to run: its state functions return (each leaving its name in a log), the
  random numbers are drawn from the unit interval, and the transitions out of every state are
  sound and stay among the states.
\<close>

definition live_machine ::
  "('c, 'w) fsm_args \<Rightarrow> 'w session_ops \<Rightarrow> ('w \<Rightarrow> string list) \<Rightarrow> bool" where
  "live_machine args session lg \<longleftrightarrow>
     (\<forall>n fn. map_of (states args) n = Some fn \<longrightarrow>
        (\<forall>cc d c w. \<exists>d' c' w'. fn cc (d, c, w) = (Val (), d', c', w') \<and> lg w' = lg w @ [n])) \<and>
     (\<forall>w. \<exists>r w'. random session w = (Val r, w') \<and> 0 \<le> r \<and> r < 1 \<and> lg w' = lg w) \<and>
     (\<forall>n fn. map_of (states args) n = Some fn \<longrightarrow>
        (\<exists>ws. finite_weights (fld (transitions args) n) ws) \<and>
        (\<forall>k. positive_weight (fld (transitions args) n) k \<longrightarrow> map_of (states args) k \<noteq> None)) \<and>
     map_of (states args) (startState args) \<noteq> None \<and>
     \<not> runInsideTransaction args"

lemma live_machine_step:
  assumes live: "live_machine args session lg" and fn: "map_of (states args) cur = Some fn"
  obtains d c w r w' nxt where "fn cc (argsData s, objects s, outside s) = (Val (), d, c, w)"
    and "random session w = (Val r, w')" and "lg w' = lg (outside s) @ [cur]"
    and "getWeightedRandomChoice (fld (transitions args) cur) r = Inr nxt"
    and "positive_weight (fld (transitions args) cur) nxt" and "map_of (states args) nxt \<noteq> None"
proof -
  obtain d c w where run: "fn cc (argsData s, objects s, outside s) = (Val (), d, c, w)"
    and log1: "lg w = lg (outside s) @ [cur]"
    using live fn unfolding live_machine_def by blast
  obtain r w' where rand: "random session w = (Val r, w')" and r: "0 \<le> r" "r < 1"
    and log2: "lg w' = lg w"
    using live unfolding live_machine_def by blast
  obtain ws where ws: "finite_weights (fld (transitions args) cur) ws"
    using live fn unfolding live_machine_def by blast
  obtain nxt where "getWeightedRandomChoice (fld (transitions args) cur) r = Inr nxt"
    and pos: "positive_weight (fld (transitions args) cur) nxt"
    by (rule choice_positive [OF ws r])
  moreover have "map_of (states args) nxt \<noteq> None"
    using live fn pos unfolding live_machine_def by blast
  ultimately show ?thesis using that run rand log1 log2 by simp
qed

lemma fsmLoop_walk:
  assumes live: "live_machine args session lg"
  shows "map_of (states args) cur \<noteq> None \<Longrightarrow>
   \<exists>path s'. fsmLoop fuel sh session args cc i cur s = (Val (), s') \<and>
     lg (outside s') = lg (outside s) @ path \<and> length path = i \<and> walk (transitions args) cur path"
proof (induction i arbitrary: cur s)
  case 0
  then show ?case by (simp add: ret_def)
next
  case (Suc i)
  then obtain fn where fn: "map_of (states args) cur = Some fn" by blast
  obtain d c w r w' nxt where step: "fn cc (argsData s, objects s, outside s) = (Val (), d, c, w)"
      "random session w = (Val r, w')" "lg w' = lg (outside s) @ [cur]"
      "getWeightedRandomChoice (fld (transitions args) cur) r = Inr nxt"
    and pos: "positive_weight (fld (transitions args) cur) nxt" and nxt: "map_of (states args) nxt \<noteq> None"
    by (rule live_machine_step [OF live fn])
  let ?s = "s\<lparr>argsData := d, objects := c, outside := w'\<rparr>"
  obtain path s' where rest: "fsmLoop fuel sh session args cc i nxt ?s = (Val (), s')"
    and path: "lg (outside s') = lg (outside ?s) @ path" "length path = i"
      "walk (transitions args) nxt path"
    using Suc.IH [OF nxt, of ?s] by blast
  have "fsmLoop fuel sh session args cc (Suc i) cur s = (Val (), s')"
    using fn step rest live by (simp add: js_simps live_machine_def)
  moreover have "walk (transitions args) cur (cur # path)"
    using path(3) pos by (cases path) auto
  ultimately show ?case
    using path step(3) by (intro exI [of _ "cur # path"] exI [of _ s']) simp
qed

section \<open>Properties\<close>

text \<open>A machine for concrete runs: two states that log their names, and a fixed random number.\<close>

definition logState :: "string \<Rightarrow> (string, string list) state_fn" where
  "logState n = (\<lambda>_ (d, c, w). (Val (), set_prop ''last'' (JStr n) d, c, w @ [n]))"

definition exampleMachine :: "(string, string list) fsm_args" where
  "exampleMachine = \<lparr>
     startState = ''init'',
     states = [(''init'', logState ''init''), (''work'', logState ''work'')],
     transitions = JObj [(''init'', JObj [(''work'', jnum 1)]),
                         (''work'', JObj [(''init'', jnum 1), (''work'', jnum 3)])],
     iterations = 3, passConnectionCache = True,
     clusterHosts = Some \<lparr>mongosHosts = [''m''], configHosts = [''c''], shardHosts = [(''s'', [''p'', ''q''])]\<rparr>,
     runInsideTransaction = False\<rparr>"

definition logSession :: "rat \<Rightarrow> (string list) session_ops" where
  "logSession r = \<lparr>
     startTransaction_forTesting = ret (),
     commitTransaction_forTesting = ret okResponse,
     abortTransaction_forTesting = ret okResponse,
     sessionAdminCommand = (\<lambda>_. ret okResponse),
     random = ret r\<rparr>"

lemma exampleMachine_live: "live_machine exampleMachine (logSession (1 / 2)) (\<lambda>w. w)"
proof -
  have w1: "finite_weights (JObj [(''work'', jnum 1)]) [1]"
    and w2: "finite_weights (JObj [(''init'', jnum 1), (''work'', jnum 3)]) [1, 3]"
    by (simp_all add: finite_weights_def obj_keys_def fld_def)
  have "\<exists>ws. finite_weights (fld (transitions exampleMachine) n) ws"
    and "\<forall>k. positive_weight (fld (transitions exampleMachine) n) k \<longrightarrow> map_of (states exampleMachine) k \<noteq> None"
    if "map_of (states exampleMachine) n = Some fn" for n fn
    using that w1 w2
    by (auto simp: exampleMachine_def fld_def positive_weight_def obj_keys_def split: if_splits)
  moreover have "\<exists>r w'. random (logSession (1 / 2)) w = (Val r, w') \<and> 0 \<le> r \<and> r < 1 \<and> w' = w" for w
    by (intro exI [of _ "1 / 2"] exI [of _ w]) (simp add: logSession_def ret_def)
  moreover have "map_of (states exampleMachine) n = Some fn \<Longrightarrow>
      \<exists>d' c' w'. fn cc (d, c, w) = (Val (), d', c', w') \<and> w' = w @ [n]" for n fn cc d c w
    by (auto simp: exampleMachine_def logState_def split: if_splits)
  moreover have "map_of (states exampleMachine) (startState exampleMachine) \<noteq> None"
    "\<not> runInsideTransaction exampleMachine"
    by (simp_all add: exampleMachine_def)
  ultimately show ?thesis unfolding live_machine_def by blast
qed

text \<open>
  C29. The weighted choice is exact.  For finite weights of positive sum and a random number \<open>r\<close> of the
  unit interval it returns a state of the document, the one whose interval of accumulated weights
  holds \<open>r\<close> times the sum; that state has positive weight, and \<open>not reached\<close> is not reached.
\<close>

theorem weighted_choice_exact:
  assumes "finite_weights doc ws" and "0 \<le> r" and "r < 1"
  shows "\<exists>i < length ws. getWeightedRandomChoice doc r = Inr (obj_keys doc ! i) \<and>
           sum_list (take i ws) \<le> r * sum_list ws \<and> r * sum_list ws < sum_list (take (Suc i) ws) \<and>
           0 < ws ! i"
  using choice_Fin assms by (simp add: finite_weights_def)

theorem weighted_choice_exact_witness:
  "\<exists>i < 3. getWeightedRandomChoice
      (JObj [(''a'', JNum (Fin (1 / 4))), (''b'', JNum (Fin (1 / 2))), (''c'', JNum (Fin (1 / 4)))]) (1 / 3)
    = Inr ([''a'', ''b'', ''c''] ! i) \<and> sum_list (take i [1 / 4, 1 / 2, 1 / 4 :: rat]) \<le> 1 / 3"
proof -
  let ?doc = "JObj [(''a'', JNum (Fin (1 / 4))), (''b'', JNum (Fin (1 / 2))), (''c'', JNum (Fin (1 / 4)))]"
  have "finite_weights ?doc [1 / 4, 1 / 2, 1 / 4]"
    by (simp add: finite_weights_def obj_keys_def fld_def)
  from weighted_choice_exact [OF this, of "1 / 3"]
  obtain i where "i < 3" "getWeightedRandomChoice ?doc (1 / 3) = Inr ([''a'', ''b'', ''c''] ! i)"
    "sum_list (take i [1 / 4, 1 / 2, 1 / 4 :: rat]) \<le> 1 / 3"
    by (auto simp: obj_keys_def numeral_3_eq_3)
  then show ?thesis by blast
qed

text \<open>
  When every transition out of a state weighs nothing, which \<open>parseConfig\<close> does not forbid, the
  choice fails with \<open>not reached\<close> whatever the random number.
\<close>

theorem zero_weights_not_reached:
  assumes "doc \<noteq> Undef" and "doc \<noteq> Null" and "obj_keys doc \<noteq> []"
    and "\<forall>k \<in> set (obj_keys doc). fld doc k = jnum 0" and "0 \<le> r" and "r < 1"
  shows "getWeightedRandomChoice doc r = Inl (AssertFail ''not reached'')"
proof -
  have ws: "map (\<lambda>k. to_number (fld doc k)) (obj_keys doc) = map Fin (replicate (length (obj_keys doc)) 0)"
    using assms(4) by (simp add: map_replicate_const list_eq_iff_nth_eq)
  have "pickState (Fin 0) (zip ks (accumulate (Fin 0) (map Fin (replicate n 0)))) = Inl (AssertFail ''not reached'')"
    for ks n
  proof (induction n arbitrary: ks)
    case (Suc n)
    then show ?case by (cases ks) simp_all
  qed simp
  then show ?thesis
    using assms(1-3,5,6)
    by (simp add: getWeightedRandomChoice_def object_keys_def Let_def ws weightSum_Fin sum_list_replicate
        del: map_replicate)
qed

theorem zero_weights_not_reached_witness:
  "getWeightedRandomChoice (JObj [(''a'', jnum 0), (''b'', jnum 0)]) (1 / 2) = Inl (AssertFail ''not reached'')"
  by (rule zero_weights_not_reached) (simp_all add: obj_keys_def fld_def)

text \<open>Connecting to the hosts of the cluster, where the machine passes a connection cache to its states.\<close>

definition connectable :: "(string \<Rightarrow> ('w, 'c) eff) \<Rightarrow> ('c, 'w) fsm_args \<Rightarrow> ('w \<Rightarrow> string list) \<Rightarrow> bool" where
  "connectable connect args lg \<longleftrightarrow> (passConnectionCache args \<longrightarrow>
     clusterHosts args \<noteq> None \<and> (\<forall>host w. \<exists>c w'. connect host w = (Val c, w') \<and> lg w' = lg w))"

lemma mapE_returns:
  assumes "\<And>x w. \<exists>y w'. f x w = (Val y, w') \<and> lg w' = lg w"
  shows "\<exists>ys w'. mapE f xs w = (Val ys, w') \<and> lg w' = lg w"
proof (induction xs arbitrary: w)
  case (Cons x xs)
  obtain y w1 where y: "f x w = (Val y, w1)" "lg w1 = lg w" using assms by blast
  obtain ys w2 where "mapE f xs w1 = (Val ys, w2)" "lg w2 = lg w1" using Cons.IH by blast
  with y show ?case by (simp add: js_simps)
qed (simp add: ret_def)

lemma makeConnCache_returns:
  assumes "\<And>host w. \<exists>c w'. connect host w = (Val c, w') \<and> lg w' = lg w"
  shows "\<exists>cc w'. makeConnCache connect (Some h) w = (Val cc, w') \<and> lg w' = lg w"
proof -
  let ?shard = "\<lambda>(name, hs). bindE (mapE connect hs) (\<lambda>conns. ret (name, conns))"
  note conns = mapE_returns [where f = connect and lg = lg, OF assms]
  have shard: "\<exists>y w'. ?shard x w = (Val y, w') \<and> lg w' = lg w" for x w
    using conns [of "snd x" w] by (cases x) (auto simp: js_simps)
  obtain ms w1 where "mapE connect (mongosHosts h) w = (Val ms, w1)" "lg w1 = lg w" using conns by blast
  moreover obtain cs w2 where "mapE connect (configHosts h) w1 = (Val cs, w2)" "lg w2 = lg w1" using conns by blast
  moreover obtain ss w3 where "mapE ?shard (shardHosts h) w2 = (Val ss, w3)" "lg w3 = lg w2"
    using mapE_returns [where f = ?shard and lg = lg, OF shard] by blast
  ultimately show ?thesis by (simp add: makeConnCache_def js_simps)
qed

text \<open>
  C1. Outside transactions (\<open>TestData.runInsideTransaction\<close> is not set; a transaction may call a state function several
  times), a machine whose state functions return, whose transitions are sound and which can connect to the hosts of the
  cluster, if it passes a connection cache, runs to its end: exactly
  \<open>iterations\<close> state functions are called, the first is the start state's, and each next one was
  reached over a transition of positive weight.
\<close>

theorem runFSM_walks:
  assumes "live_machine args session lg" and "connectable connect args lg"
  shows "\<exists>path s'. runFSM fuel sh session connect args s = (Val (), s') \<and>
     lg (outside s') = lg (outside s) @ path \<and> length path = iterations args \<and>
     walk (transitions args) (startState args) path"
proof -
  have start: "map_of (states args) (startState args) \<noteq> None"
    using assms(1) by (simp add: live_machine_def)
  obtain cc w where cc: "(if passConnectionCache args
      then bindE (onOutside (makeConnCache connect (clusterHosts args))) (\<lambda>c. ret (Some c)) else ret None) s
      = (Val cc, s\<lparr>outside := w\<rparr>)" and "lg w = lg (outside s)"
  proof (cases "passConnectionCache args")
    case True
    then obtain h where h: "clusterHosts args = Some h" and "\<And>host w. \<exists>c w'. connect host w = (Val c, w') \<and> lg w' = lg w"
      using assms(2) by (auto simp: connectable_def)
    from makeConnCache_returns [where connect = connect and lg = lg and h = h and w = "outside s", OF this(2)] show ?thesis using that True h by (auto simp: js_simps)
  next
    case False
    then show ?thesis using that [of None "outside s"] by (simp add: js_simps)
  qed
  with fsmLoop_walk [OF assms(1) start, of fuel sh cc "iterations args" "s\<lparr>outside := w\<rparr>"] show ?thesis
    by (auto simp: runFSM_def js_simps)
qed

theorem runFSM_walks_witness:
  "\<exists>path s'. runFSM 1 exampleShell (logSession (1 / 2)) ret exampleMachine
       \<lparr>argsData = JObj [], txnData = Undef, objects = [], outside = []\<rparr> = (Val (), s') \<and>
     outside s' = path \<and> length path = 3 \<and> walk (transitions exampleMachine) ''init'' path"
proof -
  have "connectable ret exampleMachine (\<lambda>w. w)" by (simp add: connectable_def exampleMachine_def ret_def)
  from runFSM_walks [OF exampleMachine_live this, of 1 exampleShell
      "\<lparr>argsData = JObj [], txnData = Undef, objects = [], outside = []\<rparr>"]
  show ?thesis by (simp add: exampleMachine_def)
qed



text \<open>
  An object of a custom type does keep a speculative change: a function that marks the object \<open>h\<close> and whose first attempt aborts
  with a transient error leaves two marks, although its data tell of one run.
\<close>

definition markState :: "(nat list, unit) eff \<Rightarrow> (jsval \<times> objects \<times> nat list, unit) eff" where
  "markState m = (\<lambda>(d, c, w). case m w of
     (r, w') \<Rightarrow> (r, set_prop ''runs'' (JNum (num_add (to_number (fld d ''runs'')) (Fin 1))) d, (''h'', Null) # c, w'))"

definition failOnce :: "(nat list, unit) eff" where
  "failOnce w = (if w = [] then Throw (ErrObj (JObj [(''errorLabels'', JArr [JStr ''TransientTransactionError''])])) else Val (), 0 # w)"

definition quietSession :: "(nat list) session_ops" where
  "quietSession = \<lparr>startTransaction_forTesting = ret (), commitTransaction_forTesting = ret okResponse,
     abortTransaction_forTesting = ret okResponse, sessionAdminCommand = (\<lambda>_. ret okResponse), random = ret 0\<rparr>"

theorem custom_object_leaks:
  "runInTxn 3 exampleShell quietSession (markState failOnce)
     \<lparr>argsData = JObj [(''runs'', jnum 0), (''handle'', JExt ''DB'' ''h'')], txnData = Undef, objects = [], outside = []\<rparr> =
   (Val (), \<lparr>argsData = JObj [(''runs'', jnum 1), (''handle'', JExt ''DB'' ''h'')],
      txnData = JObj [(''runs'', jnum 1), (''handle'', JExt ''DB'' ''h'')], objects = [(''h'', Null), (''h'', Null)], outside = [0, 0]\<rparr>)"
  by code_simp

end
