(* ===== verification/Cluster.thy ===== *)
theory Cluster
  imports Cluster_Options Topology Fsm
begin

text \<open>
  The cluster object of the concurrency suite, \<open>fsm_libs/cluster.js\<close>: its connections, its lifecycle
  (setup, execution on every node, teardown), the hosts it hands out to worker threads, its
  serialised form and its consistency checks.  A connection is known by its host.  The state is
  the record \<open>cluster\<close> with the world \<open>'w\<close> outside; what the shell does on a host is \<open>cluster_env\<close>.
\<close>

section \<open>State\<close>

datatype teardown_fn = TeardownDefault | TeardownSharded | TeardownReplSet

record 'w cluster =
  clOptions :: jsval
  clConn :: "string option"
  secondaryConns :: "string list"
  clSt :: "sharding_test option"
  clInitialized :: bool
  connsMongos :: "string list"
  connsMongod :: "string list"
  nextConn :: nat
  replSets :: "repl_set_test list"
  clRst :: "repl_set_test option"
  clTeardown :: teardown_fn
  clWorld :: 'w

text \<open>A function run on a node: the value the options hold, and what it does on a host.\<close>

record 'w node_fn =
  fnVal :: jsval
  fnRun :: "string \<Rightarrow> bool \<Rightarrow> ('w, unit) eff"

record ('c, 'w) cluster_env =
  envOps :: "('c, 'w) conn_ops"
  envShell :: shell
  dbHost :: string                                           \<comment> \<open>\<open>db.getMongo().host\<close>\<close>
  adminCommandOn :: "string \<Rightarrow> jsval \<Rightarrow> ('w, jsval) eff"
  runCommandOn :: "string \<Rightarrow> string \<Rightarrow> jsval \<Rightarrow> ('w, jsval) eff"
  callFnOn :: "jsval \<Rightarrow> string \<Rightarrow> bool \<Rightarrow> ('w, unit) eff"
  assertSoon :: "('w, bool) eff \<Rightarrow> ('w, unit) eff"
  validateCollectionsOn :: "string \<Rightarrow> string \<Rightarrow> ('w, jsval) eff"
  checkReplicatedDataHashes :: "repl_set_test \<Rightarrow> string \<Rightarrow> string list \<Rightarrow> ('w, unit) eff"
  rstAwaitReplication :: "repl_set_test \<Rightarrow> ('w, unit) eff"
  rstGetPrimary :: "repl_set_test \<Rightarrow> ('w, unit) eff"
  findOnConfig :: "string \<Rightarrow> string \<Rightarrow> ('w, jsval) eff"

definition onClWorld :: "('w, 'a) eff \<Rightarrow> ('w cluster, 'a) eff" where
  "onClWorld m = (\<lambda>s. case m (clWorld s) of (r, w) \<Rightarrow> (r, s\<lparr>clWorld := w\<rparr>))"

text \<open>\<open>new Cluster(options)\<close>\<close>

definition newCluster :: "jsval \<Rightarrow> 'w \<Rightarrow> ('w cluster) result" where
  "newCluster options w =
     rbind (validateClusterOptions options) (\<lambda>options.
       Inr \<lparr>clOptions = options, clConn = None, secondaryConns = [], clSt = None, clInitialized = False,
            connsMongos = [], connsMongod = [], nextConn = 0, replSets = [], clRst = None,
            clTeardown = TeardownDefault, clWorld = w\<rparr>)"

section \<open>Execution on the nodes\<close>

definition checkNodeFn :: "string \<Rightarrow> 'w node_fn \<Rightarrow> ('w cluster, unit) eff" where
  "checkNodeFn msg fn =
     seqE (bindE (getE clInitialized) (\<lambda>i. assertE i ''cluster must be initialized first''))
       (if \<not> truthy (fnVal fn) \<or> typeof (fnVal fn) \<noteq> ''function'' \<or> fn_length (fnVal fn) \<noteq> 1
        then raise (Err msg) else ret ())"

definition executeOnMongodNodes :: "'w node_fn \<Rightarrow> ('w cluster, unit) eff" where
  "executeOnMongodNodes fn =
     seqE (checkNodeFn ''mongod function must be a function that takes a db as an argument'' fn)
       (bindE (getE connsMongod) (forEachE (\<lambda>mongodConn. onClWorld (fnRun fn mongodConn False))))"

definition executeOnMongosNodes :: "'w node_fn \<Rightarrow> ('w cluster, unit) eff" where
  "executeOnMongosNodes fn =
     seqE (checkNodeFn ''mongos function must be a function that takes a db as an argument'' fn)
       (bindE (getE connsMongos) (forEachE (\<lambda>mongosConn. onClWorld (fnRun fn mongosConn True))))"

definition executeOnConfigNodes :: "'w node_fn \<Rightarrow> ('w cluster, unit) eff" where
  "executeOnConfigNodes fn =
     seqE (checkNodeFn ''config function must be a function that takes a db as an argument'' fn)
       (bindE (getE clSt) (\<lambda>st. case st of
          None \<Rightarrow> raise (TypeErr ''st is undefined'')
        | Some st \<Rightarrow> forEachE (\<lambda>conn. onClWorld (fnRun fn conn False)) (configNodes st)))"

definition optionFns :: "('c, 'w) cluster_env \<Rightarrow> jsval \<Rightarrow> string \<Rightarrow> string \<Rightarrow> 'w node_fn list" where
  "optionFns env options which kind =
     map (\<lambda>f. \<lparr>fnVal = f, fnRun = callFnOn env f\<rparr>) (arr_elems (fld (fld options which) kind))"

definition synchronizeMongosClusterTimes :: "('c, 'w) cluster_env \<Rightarrow> ('w cluster, unit) eff" where
  "synchronizeMongosClusterTimes env =
     (let contactConfigServerFn = \<lparr>fnVal = JFun ''contactConfigServerFn'' 1,
            fnRun = (\<lambda>mongosConn _.
              bindE (adminCommandOn env mongosConn (JObj [(''find'', JStr ''foo'')])) (\<lambda>res.
              checkE (commandWorked (envShell env) res)))\<rparr>
      in seqE (executeOnMongosNodes contactConfigServerFn) (executeOnMongosNodes contactConfigServerFn))"

section \<open>Lifecycle\<close>

definition addReplicaSetConns :: "repl_set_test \<Rightarrow> 'w cluster \<Rightarrow> 'w cluster" where
  "addReplicaSetConns rsTest s = s\<lparr>connsMongod := connsMongod s @ rstPrimary rsTest # rstSecondaries rsTest\<rparr>"

text \<open>The three loops over \<open>st.s(i)\<close>, \<open>st.d(i)\<close> and \<open>st.rs(i)\<close>; each ends after the length of its array.\<close>

definition saveShardedConns :: "sharding_test \<Rightarrow> 'w cluster \<Rightarrow> 'w cluster" where
  "saveShardedConns st s =
     (let s = s\<lparr>connsMongos := connsMongos s @ collectWhile (Suc (length (mongoses st))) (st_s st) 0\<rparr>;
          s = s\<lparr>connsMongod := connsMongod s @
                 map shardConnName (collectWhile (Suc (length (shardConnections st))) (st_d st) 0)\<rparr>
      in fold (\<lambda>rs s. let s = addReplicaSetConns rs s in s\<lparr>replSets := replSets s @ [rs]\<rparr>)
           (collectWhile (Suc (length (shardRsts st))) (st_rs st) 0) s)"

definition cluster_setup :: "('c, 'w) cluster_env \<Rightarrow> ('w cluster, unit) eff" where
  "cluster_setup env =
     bindE (getE clInitialized) (\<lambda>initialized.
     bindE (getE clOptions) (\<lambda>options.
     if initialized then raise (Err ''cluster has already been initialized'') else
     seqE
       (if isSharded options then
          bindE (onClWorld (newFSMShardingTest (envOps env) (envShell env) (''mongodb://'' @ dbHost env))) (\<lambda>st.
          seqE (modE (\<lambda>s. s\<lparr>clSt := Some st, clConn := st_s st 0, clTeardown := TeardownSharded\<rparr>))
            (modE (saveShardedConns st)))
        else if isReplication options then
          bindE (onClWorld (newReplSetTest (envOps env) (dbHost env))) (\<lambda>rst.
          seqE (modE (\<lambda>s. s\<lparr>clRst := Some rst, clConn := Some (rstPrimary rst),
                             secondaryConns := rstSecondaries rst, replSets := [rst],
                             clTeardown := TeardownReplSet\<rparr>))
            (modE (addReplicaSetConns rst)))
        else
          seqE (modE (\<lambda>s. s\<lparr>clConn := Some (dbHost env)\<rparr>))
         (bindE (onClWorld (adminCommandOn env (dbHost env)
              (JObj [(''setParameter'', jnum 1), (''logLevel'', jnum 0)]))) (\<lambda>_.
          modE (\<lambda>s. s\<lparr>connsMongod := [dbHost env]\<rparr>))))
    (seqE (modE (\<lambda>s. s\<lparr>clInitialized := True\<rparr>))
    (seqE (forEachE executeOnMongodNodes (optionFns env options ''setupFunctions'' ''mongod''))
    (seqE (forEachE executeOnConfigNodes (optionFns env options ''setupFunctions'' ''config''))
      (if truthy (fld options ''sharded'')
       then forEachE executeOnMongosNodes (optionFns env options ''setupFunctions'' ''mongos'')
       else ret ()))))))"

definition cluster_teardown :: "('c, 'w) cluster_env \<Rightarrow> ('w cluster, unit) eff" where
  "cluster_teardown env =
     bindE (getE clTeardown) (\<lambda>which.
     bindE (getE clOptions) (\<lambda>options.
     let fns = optionFns env options ''teardownFunctions'' in
     case which of
       TeardownDefault \<Rightarrow>
         seqE (bindE (getE clInitialized) (\<lambda>i. assertE i ''cluster must be initialized first''))
           (forEachE executeOnMongodNodes (fns ''mongod''))
     | TeardownReplSet \<Rightarrow> forEachE executeOnMongodNodes (fns ''mongod'')
     | TeardownSharded \<Rightarrow>
         seqE (forEachE executeOnMongodNodes (fns ''mongod''))
        (seqE (forEachE executeOnMongosNodes (fns ''mongos''))
           (forEachE executeOnConfigNodes (fns ''config'')))))"

text \<open>Set by the sharded branch of \<open>setup\<close>; otherwise the property does not exist.\<close>

definition reestablishConnectionsAfterFailover :: "('c, 'w) cluster_env \<Rightarrow> ('w cluster, unit) eff" where
  "reestablishConnectionsAfterFailover env =
     bindE (getE clSt) (\<lambda>st. case st of
       None \<Rightarrow> raise (TypeErr ''reestablishConnectionsAfterFailover is not a function'')
     | Some st \<Rightarrow>
         seqE (onClWorld (rstGetPrimary env (configRst st)))
           (forEachE (\<lambda>rst. onClWorld (rstGetPrimary env rst)) (shardRsts st)))"

section \<open>Hosts\<close>

definition initializedE :: "('w cluster, unit) eff" where
  "initializedE = bindE (getE clInitialized) (\<lambda>i. assertE i ''cluster must be initialized first'')"

text \<open>\<open>xs[nextConn++ % xs.length].host\<close>: on an empty array the index is \<open>NaN\<close>.\<close>

definition roundRobin :: "string list \<Rightarrow> ('w cluster, string) eff" where
  "roundRobin xs =
     bindE (getE nextConn) (\<lambda>n.
     seqE (modE (\<lambda>s. s\<lparr>nextConn := Suc n\<rparr>))
       (if xs = [] then raise (TypeErr ''undefined has no properties'') else ret (xs ! (n mod length xs))))"

definition getDB :: "string \<Rightarrow> ('w cluster, string \<times> string) eff" where
  "getDB dbName =
     seqE initializedE (bindE (getE clConn) (\<lambda>conn. case conn of
       None \<Rightarrow> raise (TypeErr ''conn is undefined'') | Some h \<Rightarrow> ret (h, dbName)))"

definition getHost :: "('w cluster, string) eff" where
  "getHost =
     seqE initializedE
    (bindE (getE clOptions) (\<lambda>options.
       if isSharded options then bindE (getE connsMongos) roundRobin
       else bindE (getE clConn) (\<lambda>conn. case conn of
              None \<Rightarrow> raise (TypeErr ''conn is undefined'') | Some h \<Rightarrow> ret h)))"

definition getSecondaryHost :: "('w cluster, string option) eff" where
  "getSecondaryHost =
     seqE initializedE
    (bindE (getE clOptions) (\<lambda>options.
       if isReplication options \<and> \<not> isSharded options
       then bindE (bindE (getE secondaryConns) roundRobin) (\<lambda>h. ret (Some h))
       else ret None))"

definition getReplSetName :: "('w cluster, string option) eff" where
  "getReplSetName =
     bindE (getE clOptions) (\<lambda>options.
       if isReplication options \<and> \<not> isSharded options
       then bindE (getE clRst) (\<lambda>rst. case rst of
              None \<Rightarrow> raise (TypeErr ''rst is undefined'') | Some r \<Rightarrow> ret (Some (rstName r)))
       else ret None)"

definition getReplSetNumNodes :: "('w cluster, jsval) eff" where
  "getReplSetNumNodes =
     bindE (getE clOptions) (\<lambda>options.
     seqE (assertE (isReplication options \<and> \<not> isSharded options) ''cluster must be a replica set'')
       (ret (fld (fld options ''replication'') ''numNodes'')))"

section \<open>Serialised form\<close>

fun splitOn :: "char \<Rightarrow> string \<Rightarrow> string list" where
  "splitOn c [] = [[]]"
| "splitOn c (x # xs) =
     (if x = c then [] # splitOn c xs
      else case splitOn c xs of [] \<Rightarrow> [[x]] | y # ys \<Rightarrow> (x # y) # ys)"

fun joinWith :: "char \<Rightarrow> string list \<Rightarrow> string" where
  "joinWith c [] = []"
| "joinWith c [x] = x"
| "joinWith c (x # xs) = x @ c # joinWith c xs"

definition serializeShard :: "shard_conn \<Rightarrow> string \<times> string list" where
  "serializeShard shard =
     (if CHR ''/'' \<in> set (shardConnName shard)
      then let parts = splitOn (CHR ''/'') (shardConnName shard)
           in (parts ! 0, splitOn (CHR '','') (parts ! 1))
      else (shardName shard, [shardConnName shard]))"

definition getSerializedCluster :: "('w cluster, cluster_hosts option) eff" where
  "getSerializedCluster =
     seqE initializedE
    (bindE (getE clOptions) (\<lambda>options.
       if \<not> isSharded options then ret None
       else bindE (getE clSt) (\<lambda>st. case st of
         None \<Rightarrow> raise (TypeErr ''st is undefined'')
       | Some st \<Rightarrow> ret (Some \<lparr>
           mongosHosts = collectWhile (Suc (length (mongoses st))) (st_s st) 0,
           configHosts = collectWhile (Suc (length (configNodes st))) (st_c st) 0,
           shardHosts = fold (\<lambda>shard m. case serializeShard shard of (name, hosts) \<Rightarrow> AList.update name hosts m)
             (collectWhile (Suc (length (shardConnections st))) (st_shard st) 0) []\<rparr>))))"

section \<open>Sharding and checks\<close>

definition isBalancerEnabled :: "jsval \<Rightarrow> bool" where
  "isBalancerEnabled options \<longleftrightarrow> isSharded options \<and> truthy (fld (fld options ''sharded'') ''enableBalancer'')"

definition isAutoSplitEnabled :: "jsval \<Rightarrow> bool" where
  "isAutoSplitEnabled options \<longleftrightarrow> isSharded options \<and> truthy (fld (fld options ''sharded'') ''enableAutoSplit'')"

definition shouldPerformContinuousStepdowns :: "jsval \<Rightarrow> bool" where
  "shouldPerformContinuousStepdowns options \<longleftrightarrow>
     isSharded options \<and> typeof (fld (fld options ''sharded'') ''stepdownOptions'') \<noteq> ''undefined''"

definition isSteppingDownConfigServers :: "jsval \<Rightarrow> bool" where
  "isSteppingDownConfigServers options \<longleftrightarrow>
     shouldPerformContinuousStepdowns options \<and>
     truthy (fld (fld (fld options ''sharded'') ''stepdownOptions'') ''configStepdown'')"

definition isSteppingDownShards :: "jsval \<Rightarrow> bool" where
  "isSteppingDownShards options \<longleftrightarrow>
     shouldPerformContinuousStepdowns options \<and>
     truthy (fld (fld (fld options ''sharded'') ''stepdownOptions'') ''shardStepdown'')"

definition shardCollection :: "('c, 'w) cluster_env \<Rightarrow> string \<Rightarrow> string \<Rightarrow> jsval \<Rightarrow> ('w cluster, unit) eff" where
  "shardCollection env dbName collName shardKey =
     seqE initializedE
    (bindE (getE clOptions) (\<lambda>options.
     seqE (assertE (isSharded options) ''cluster is not sharded'')
    (bindE (getE clSt) (\<lambda>st. case st of
       None \<Rightarrow> raise (TypeErr ''st is undefined'')
     | Some st \<Rightarrow>
         let shardIt = shardColl (envShell env) (adminCommandOn env) st dbName collName shardKey in
         seqE (if shouldPerformContinuousStepdowns options
               then onClWorld (assertSoon env
                      (tryCatch (seqE shardIt (ret True))
                        (\<lambda>e. if fld (exn_obj e) ''code'' = jnum 18630 \<or> fld (exn_obj e) ''code'' = jnum 18631
                             then ret False else raise e)))
               else ret ())
           (onClWorld shardIt)))))"

definition validateNode :: "('c, 'w) cluster_env \<Rightarrow> bool \<Rightarrow> string \<Rightarrow> bool \<Rightarrow> ('w, unit) eff" where
  "validateNode env isSteppingDownConfig host isMongos =
     bindE (adminCommandOn env host (JObj [(''listDatabases'', jnum 1)])) (\<lambda>res.
     seqE (checkE (commandWorked (envShell env) res))
       (forEachE (\<lambda>dbInfo.
          if isSteppingDownConfig \<and> isMongos \<and>
             (fld dbInfo ''name'' = JStr ''admin'' \<or> fld dbInfo ''name'' = JStr ''config'')
          then ret ()
          else bindE (validateCollectionsOn env host (to_str (fld dbInfo ''name''))) (\<lambda>r.
               checkE (commandWorked (envShell env) r))) (arr_elems (fld res ''databases''))))"

definition validateAllCollections :: "('c, 'w) cluster_env \<Rightarrow> ('w cluster, unit) eff" where
  "validateAllCollections env =
     seqE initializedE
    (bindE (getE clOptions) (\<lambda>options.
     let fn = \<lparr>fnVal = JFun ''_validateCollections'' 1,
               fnRun = validateNode env (isSteppingDownConfigServers options)\<rparr>
     in seqE (executeOnMongodNodes fn) (executeOnMongosNodes fn)))"

definition checkReplSet ::
  "('c, 'w) cluster_env \<Rightarrow> jsval \<Rightarrow> string list \<Rightarrow> string \<Rightarrow> repl_set_test \<Rightarrow> ('w, unit) eff" where
  "checkReplSet env options dbBlacklist phase rst =
     (if \<not> isBalancerEnabled options
      then checkReplicatedDataHashes env rst phase dbBlacklist
      else bindE (adminCommandOn env (rstPrimary rst) (JObj [(''replSetGetStatus'', jnum 1)])) (\<lambda>status.
           seqE (checkE (commandWorked (envShell env) status))
             (case List.find (\<lambda>m. truthy (fld m ''self'')) (arr_elems (fld status ''members'')) of
                None \<Rightarrow> raise (AssertFail (phase @ '', failed to find self in replication status''))
              | Some primaryInfo \<Rightarrow>
                  bindE (runCommandOn env (rstPrimary rst) ''test''
                    (JObj [(''getLastError'', jnum 1),
                           (''w'', fld (fld options ''replication'') ''numNodes''),
                           (''wtimeout'', jnum 300000),
                           (''wOpTime'', fld primaryInfo ''optime'')])) (\<lambda>res.
                  checkE (commandWorked (envShell env) res)))))"

definition checkReplicationConsistency ::
  "('c, 'w) cluster_env \<Rightarrow> string list \<Rightarrow> string \<Rightarrow> ('w cluster, unit) eff" where
  "checkReplicationConsistency env dbBlacklist phase =
     seqE initializedE
    (bindE (getE clOptions) (\<lambda>options.
       if \<not> isReplication options then ret ()
       else bindE (getE replSets)
              (forEachE (\<lambda>rst. onClWorld (checkReplSet env options dbBlacklist phase rst)))))"

definition recordConfigServerDataOf :: "('c, 'w) cluster_env \<Rightarrow> string \<Rightarrow> ('w cluster, jsval) eff" where
  "recordConfigServerDataOf env configServer =
     seqE initializedE
    (bindE (getE clOptions) (\<lambda>options.
     seqE (assertE (isSharded options) ''cluster is not sharded'')
    (bindE (onClWorld (findOnConfig env configServer ''lockpings'')) (\<lambda>lockpings.
     bindE (onClWorld (findOnConfig env configServer ''locks'')) (\<lambda>locks.
     ret (JObj [(''lockpings'', lockpings), (''locks'', locks)]))))))"

definition recordAllConfigServerData :: "('c, 'w) cluster_env \<Rightarrow> ('w cluster, jsval) eff" where
  "recordAllConfigServerData env =
     seqE initializedE
    (bindE (getE clOptions) (\<lambda>options.
     seqE (assertE (isSharded options) ''cluster is not sharded'')
    (bindE (getE clSt) (\<lambda>st. case st of
       None \<Rightarrow> raise (TypeErr ''st is undefined'')
     | Some st \<Rightarrow>
         bindE (mapE (\<lambda>config. bindE (recordConfigServerDataOf env config) (\<lambda>d. ret (config, d)))
                  (configNodes st)) (\<lambda>kvs.
         ret (fold (\<lambda>(k, d). set_prop k d) kvs (JObj [])))))))"

definition isRunningWiredTigerLSM :: "('c, 'w) cluster_env \<Rightarrow> ('w cluster, bool) eff" where
  "isRunningWiredTigerLSM env =
     bindE (getDB ''admin'') (\<lambda>(host, _).
     bindE (getE clOptions) (\<lambda>options.
     bindE (if isSharded options
            then bindE (getE clSt) (\<lambda>st. case st of
                   None \<Rightarrow> raise (TypeErr ''st is undefined'')
                 | Some st \<Rightarrow> (case st_shard st 0 of
                     None \<Rightarrow> raise (TypeErr ''st.shard(...) is undefined'')
                   | Some shard \<Rightarrow> ret (shardConnName shard)))
            else ret host) (\<lambda>adminHost.
     bindE (onClWorld (runCommandOn env adminHost ''admin'' (JObj [(''getCmdLineOpts'', jnum 1)]))) (\<lambda>res.
     seqE (checkE (commandWorked (envShell env) res))
       (let parsed = fld res ''parsed'';
            storage = (if truthy parsed then fld parsed ''storage'' else Undef);
            wiredTigerOptions =
              (if truthy parsed \<and> truthy storage then js_or (fld storage ''wiredTiger'') (JObj []) else JObj []);
            collectionConfig = js_or (fld wiredTigerOptions ''collectionConfig'') (JObj []);
            configString = js_or (fld collectionConfig ''configString'') (JStr '''')
        in ret (configString = JStr ''type=lsm''))))))"

definition awaitReplication :: "('c, 'w) cluster_env \<Rightarrow> ('w cluster, unit) eff" where
  "awaitReplication env =
     bindE (getE clOptions) (\<lambda>options.
     seqE (assertE (isReplication options) ''cluster does not contain replica sets'')
       (bindE (getE replSets) (forEachE (\<lambda>rst. onClWorld (rstAwaitReplication env rst)))))"

section \<open>Lemmas\<close>

lemma onClWorld_simps [js_simps]:
  "m (clWorld s) = (r, w) \<Longrightarrow> onClWorld m s = (r, s\<lparr>clWorld := w\<rparr>)"
  by (simp add: onClWorld_def)

lemma initializedE_simps [js_simps]: "clInitialized s \<Longrightarrow> initializedE s = (Val (), s)"
  by (simp add: initializedE_def js_simps)

lemma roundRobin_simps [js_simps]:
  "xs \<noteq> [] \<Longrightarrow> roundRobin xs s = (Val (xs ! (nextConn s mod length xs)), s\<lparr>nextConn := Suc (nextConn s)\<rparr>)"
  by (simp add: roundRobin_def js_simps)

subsection \<open>Handing out hosts\<close>

lemma getHost_sharded:
  assumes "clInitialized s" and "isSharded (clOptions s)" and "connsMongos s \<noteq> []"
  shows "getHost s = (Val (connsMongos s ! (nextConn s mod length (connsMongos s))),
                      s\<lparr>nextConn := Suc (nextConn s)\<rparr>)"
  using assms by (simp add: getHost_def js_simps)

lemma getHosts_sharded:
  assumes "clInitialized s" and "isSharded (clOptions s)" and "connsMongos s \<noteq> []"
  shows "mapE (\<lambda>_. getHost) xs s =
     (Val (map (\<lambda>i. connsMongos s ! (i mod length (connsMongos s))) [nextConn s..<nextConn s + length xs]),
      s\<lparr>nextConn := nextConn s + length xs\<rparr>)"
  using assms
proof (induction xs arbitrary: s)
  case Nil
  then show ?case by (simp add: js_simps)
next
  case (Cons x xs)
  have "mapE (\<lambda>_. getHost) xs (s\<lparr>nextConn := Suc (nextConn s)\<rparr>) =
     (Val (map (\<lambda>i. connsMongos s ! (i mod length (connsMongos s)))
             [Suc (nextConn s)..<Suc (nextConn s) + length xs]),
      s\<lparr>nextConn := Suc (nextConn s) + length xs\<rparr>)"
    using Cons.IH [of "s\<lparr>nextConn := Suc (nextConn s)\<rparr>"] Cons.prems by simp
  moreover have "[nextConn s..<nextConn s + length (x # xs)] =
      nextConn s # [Suc (nextConn s)..<Suc (nextConn s) + length xs]"
    by (simp add: upt_conv_Cons del: upt_Suc)
  ultimately show ?case
    by (simp add: bindE_def ret_def getHost_sharded [OF Cons.prems] del: upt_Suc)
qed

lemma mset_cycle:
  assumes "xs \<noteq> []"
  shows "mset (map (\<lambda>i. xs ! (i mod length xs)) [c..<c + length xs]) = mset xs"
proof (induction c)
  case 0
  have "map (\<lambda>i. xs ! (i mod length xs)) [0..<length xs] = xs"
    by (rule nth_equalityI) simp_all
  then show ?case by simp
next
  case (Suc c)
  let ?f = "\<lambda>i. xs ! (i mod length xs)"
  have "mset (map ?f [c..<c + length xs]) = add_mset (?f c) (mset (map ?f [Suc c..<c + length xs]))"
    using assms by (simp add: upt_conv_Cons)
  moreover have "mset (map ?f [Suc c..<Suc c + length xs]) =
      add_mset (?f (c + length xs)) (mset (map ?f [Suc c..<c + length xs]))"
    using assms by (simp add: Suc_leI)
  ultimately show ?case using Suc by simp
qed

lemma mset_cycles:
  assumes "xs \<noteq> []"
  shows "mset (map (\<lambda>i. xs ! (i mod length xs)) [c..<c + k * length xs]) = repeat_mset k (mset xs)"
proof (induction k)
  case (Suc k)
  let ?f = "\<lambda>i. xs ! (i mod length xs)"
  have "[c..<c + Suc k * length xs] =
      [c..<c + k * length xs] @ [c + k * length xs..<c + k * length xs + length xs]"
    using upt_add_eq_append [of c "c + k * length xs" "length xs"] by (simp add: add_ac)
  then show ?case using Suc mset_cycle [OF assms, of "c + k * length xs"] by (simp add: add.commute)
qed simp

subsection \<open>Saving the connections\<close>

lemma collect_st:
  "collectWhile (Suc (length (mongoses st))) (st_s st) 0 = mongoses st"
  "collectWhile (Suc (length (configNodes st))) (st_c st) 0 = configNodes st"
  "collectWhile (Suc (length (shardRsts st))) (st_rs st) 0 = shardRsts st"
  "collectWhile (Suc (length (shardConnections st))) (st_shard st) 0 = shardConnections st"
  unfolding st_s_def [abs_def] st_c_def [abs_def] st_rs_def [abs_def] st_shard_def [abs_def]
  by (rule collectWhile_all)+

lemma collect_d_replica_sets:
  assumes "length (shardRsts st) = length (shardConnections st)"
  shows "collectWhile n (st_d st) 0 = []"
proof -
  have "st_d st 0 = None" using assms by (simp add: st_d_def elem_at_def)
  then show ?thesis by (cases n) auto
qed

definition rstMembers :: "repl_set_test \<Rightarrow> string list" where
  "rstMembers rst = rstPrimary rst # rstSecondaries rst"

lemma save_replSets:
  "fold (\<lambda>rs s. let s = addReplicaSetConns rs s in s\<lparr>replSets := replSets s @ [rs]\<rparr>) rsts s =
     s\<lparr>connsMongod := connsMongod s @ concat (map rstMembers rsts), replSets := replSets s @ rsts\<rparr>"
  by (induction rsts arbitrary: s) (simp_all add: addReplicaSetConns_def rstMembers_def Let_def)

lemma saveShardedConns_replica_sets:
  assumes "length (shardRsts st) = length (shardConnections st)"
  shows "saveShardedConns st s =
    s\<lparr>connsMongos := connsMongos s @ mongoses st,
      connsMongod := connsMongod s @ concat (map rstMembers (shardRsts st)),
      replSets := replSets s @ shardRsts st\<rparr>"
  unfolding saveShardedConns_def Let_def collect_st collect_d_replica_sets [OF assms]
  unfolding save_replSets [unfolded Let_def] by simp

subsection \<open>Serialisation\<close>

lemma splitOn_none: "c \<notin> set x \<Longrightarrow> splitOn c x = [x]"
  by (induction x) auto

lemma splitOn_append: "c \<notin> set x \<Longrightarrow> splitOn c (x @ c # y) = x # splitOn c y"
  by (induction x) auto

lemma splitOn_join: "xs \<noteq> [] \<Longrightarrow> \<forall>x \<in> set xs. c \<notin> set x \<Longrightarrow> splitOn c (joinWith c xs) = xs"
  by (induction c xs rule: joinWith.induct) (auto simp: splitOn_none splitOn_append)

lemma set_join: "set (joinWith c xs) \<subseteq> insert c (\<Union>(set ` set xs))"
  by (induction c xs rule: joinWith.induct) auto

text \<open>The connection of a shard that is a replica set: its URL is the set's name and its nodes.\<close>

definition shardOf :: "string \<times> string list \<Rightarrow> shard_conn" where
  "shardOf = (\<lambda>(setName, nodes).
     \<lparr>shardConnName = setName @ CHR ''/'' # joinWith (CHR '','') nodes, shardName = setName\<rparr>)"

definition plain_hosts :: "string \<times> string list \<Rightarrow> bool" where
  "plain_hosts = (\<lambda>(setName, nodes).
     CHR ''/'' \<notin> set setName \<and> nodes \<noteq> [] \<and>
     (\<forall>n \<in> set nodes. CHR ''/'' \<notin> set n \<and> CHR '','' \<notin> set n))"

lemma serializeShard_shardOf: "plain_hosts r \<Longrightarrow> serializeShard (shardOf r) = r"
proof -
  assume plain: "plain_hosts r"
  obtain setName nodes where r: "r = (setName, nodes)" by fastforce
  have "CHR ''/'' \<notin> set (joinWith (CHR '','') nodes)"
    using plain set_join [of "CHR '',''" nodes] by (auto simp: plain_hosts_def r)
  then have "splitOn (CHR ''/'') (shardConnName (shardOf r)) = [setName, joinWith (CHR '','') nodes]"
    using plain by (simp add: shardOf_def r plain_hosts_def splitOn_append splitOn_none)
  then show ?thesis
    using plain by (simp add: serializeShard_def Let_def r shardOf_def plain_hosts_def splitOn_join)
qed

lemma fold_update_fresh:
  "distinct (map fst rs) \<Longrightarrow> set (map fst rs) \<inter> set (map fst m) = {} \<Longrightarrow>
   fold (\<lambda>(k, v) m. AList.update k v m) rs m = m @ rs"
proof (induction rs arbitrary: m)
  case (Cons r rs)
  have "k \<notin> set (map fst m) \<Longrightarrow> AList.update k v m = m @ [(k, v)]" for k v
    by (induction m) auto
  then show ?case using Cons by (cases r) auto
qed simp

lemma fold_serializeShard:
  assumes "list_all plain_hosts rs" and "distinct (map fst rs)"
  shows "fold (\<lambda>shard m. case serializeShard shard of (name, hosts) \<Rightarrow> AList.update name hosts m)
           (map shardOf rs) [] = rs"
proof -
  have "fold (\<lambda>shard m. case serializeShard shard of (name, hosts) \<Rightarrow> AList.update name hosts m)
           (map shardOf rs) m = fold (\<lambda>(k, v) m. AList.update k v m) rs m" for m
    using assms(1) by (induction rs arbitrary: m) (auto simp: serializeShard_shardOf)
  then show ?thesis using fold_update_fresh [OF assms(2), of "[]"] by simp
qed

section \<open>Properties\<close>

definition exampleEnv :: "(string, unit) cluster_env" where
  "exampleEnv = \<lparr>envOps = exampleOps\<lparr>uriServers := (\<lambda>u. [''m'', ''n''])\<rparr>,
     envShell = exampleShell, dbHost = ''m'',
     adminCommandOn = (\<lambda>h c. ret (JObj [(''ok'', jnum 1)])),
     runCommandOn = (\<lambda>h d c. ret (JObj [(''ok'', jnum 1)])),
     callFnOn = (\<lambda>f h m. ret ()), assertSoon = (\<lambda>m. bindE m (\<lambda>b. assertE b ''soon'')),
     validateCollectionsOn = (\<lambda>h d. ret (JObj [(''ok'', jnum 1)])),
     checkReplicatedDataHashes = (\<lambda>r p b. ret ()), rstAwaitReplication = (\<lambda>r. ret ()),
     rstGetPrimary = (\<lambda>r. ret ()), findOnConfig = (\<lambda>h c. ret (JArr []))\<rparr>"

definition exampleShardedOptions :: jsval where
  "exampleShardedOptions = JObj [(''sharded'', JObj [(''enabled'', JBool True)])]"

definition exampleShardedEnv :: "(string, unit) cluster_env" where
  "exampleShardedEnv = exampleEnv\<lparr>envOps := exampleOps\<lparr>connAdminCommand := (\<lambda>c cmd.
     if has_own cmd ''listShards'' then ret (JObj [(''ok'', jnum 1), (''shards'', JArr
       [JObj [(''_id'', JStr ''s1''), (''host'', JStr ''r1'')]])])
     else if c = ''mongodb://m'' \<and> has_own cmd ''isMaster'' then ret (JObj [(''msg'', JStr ''isdbgrid'')])
     else connAdminCommand exampleOps c cmd)\<rparr>\<rparr>"

definition exampleRst :: "string \<Rightarrow> repl_set_test" where
  "exampleRst name = \<lparr>rstName = name, rstUrl = name @ ''/a'', rstNodes = [''a'', ''b''], rstPrimary = ''a'',
     rstSecondaries = [''b'']\<rparr>"

definition exampleSt :: sharding_test where
  "exampleSt = \<lparr>mongoses = [''m'', ''n''], configRst = exampleRst ''cfg'',
     shardConnections = map shardOf [(''rs0'', [''a'', ''b'']), (''rs1'', [''c''])],
     shardRsts = [exampleRst ''rs0'', exampleRst ''rs1'']\<rparr>"

text \<open>A cluster as the constructor leaves it, and one after its setup.\<close>

definition freshCluster :: "jsval \<Rightarrow> unit cluster" where
  "freshCluster options = projr (newCluster options ())"

definition exampleCluster :: "unit cluster" where
  "exampleCluster = (freshCluster exampleShardedOptions)
     \<lparr>clInitialized := True, clSt := Some exampleSt, connsMongos := [''m'', ''n''], nextConn := 1\<rparr>"

text \<open>
  The worker threads of a sharded cluster are spread evenly over the routers: whatever host comes
  next, over any number of full rounds of calls every router is handed out equally often.
\<close>

theorem getHost_fair:
  assumes "clInitialized s" and "isSharded (clOptions s)" and "connsMongos s \<noteq> []"
    and "length calls = k * length (connsMongos s)"
  shows "\<exists>hosts s'. mapE (\<lambda>_. getHost) calls s = (Val hosts, s') \<and>
    mset hosts = repeat_mset k (mset (connsMongos s))"
  using getHosts_sharded [OF assms(1-3), of calls] mset_cycles [OF assms(3), of "nextConn s" k] assms(4)
  by auto

theorem getHost_fair_witness:
  "\<exists>hosts s'. mapE (\<lambda>_. getHost) [(), (), (), ()] exampleCluster = (Val hosts, s') \<and>
     mset hosts = repeat_mset 2 {#''m'', ''n''#}"
proof -
  have "clInitialized exampleCluster" "isSharded (clOptions exampleCluster)" by code_simp+
  moreover have c: "connsMongos exampleCluster = [''m'', ''n'']" by (simp add: exampleCluster_def)
  ultimately show ?thesis using getHost_fair [of exampleCluster "[(), (), (), ()]" 2] by (simp add: c)
qed

text \<open>
  Setting up a sharded cluster whose shards are all replica sets saves every router and every
  member of every shard, in order, and marks the cluster initialised; a second setup is refused
  and changes nothing.
\<close>

theorem sharded_setup_saves_all:
  assumes "newCluster (JObj kvs) w = Inr s" and "isSharded (clOptions s)"
    and "newFSMShardingTest (envOps env) (envShell env) (''mongodb://'' @ dbHost env) w = (Val st, w')"
    and "length (shardRsts st) = length (shardConnections st)"
  shows "\<exists>s'. cluster_setup env s = (Val (), s') \<and> clInitialized s' \<and>
    connsMongos s' = mongoses st \<and> connsMongod s' = concat (map rstMembers (shardRsts st)) \<and>
    replSets s' = shardRsts st \<and>
    cluster_setup env s' = (Throw (Err ''cluster has already been initialized''), s')"
proof -
  obtain o' where o': "validateClusterOptions (JObj kvs) = Inr o'"
    and s: "s = \<lparr>clOptions = o', clConn = None, secondaryConns = [], clSt = None, clInitialized = False,
       connsMongos = [], connsMongod = [], nextConn = 0, replSets = [], clRst = None,
       clTeardown = TeardownDefault, clWorld = w\<rparr>"
    using assms(1) by (auto simp: newCluster_def rbind_Inr)
  have fns: "optionFns env o' ''setupFunctions'' k = []" if "k \<in> {''mongod'', ''mongos'', ''config''}" for k
    using validated_no_functions [OF o'] that by (auto simp: optionFns_def fld_def)
  define s1 where "s1 = saveShardedConns st
     (s\<lparr>clWorld := w', clSt := Some st, clConn := st_s st 0, clTeardown := TeardownSharded\<rparr>)"
  have "cluster_setup env s = (Val (), s1\<lparr>clInitialized := True\<rparr>)"
    using assms(2,3) fns
    by (auto simp: cluster_setup_def bindE_def seqE_def getE_def modE_def ret_def onClWorld_def s s1_def)
  then show ?thesis
    by (auto simp: s1_def saveShardedConns_replica_sets [OF assms(4)] s cluster_setup_def bindE_def
        getE_def raise_def)
qed

theorem sharded_setup_saves_all_witness:
  "\<exists>s'. cluster_setup exampleShardedEnv (freshCluster exampleShardedOptions) = (Val (), s') \<and>
     clInitialized s' \<and> connsMongod s' = [''r1'']"
proof -
  define st where "st = (case fst (newFSMShardingTest (envOps exampleShardedEnv) (envShell exampleShardedEnv)
      (''mongodb://'' @ dbHost exampleShardedEnv) ()) of Val st \<Rightarrow> st | _ \<Rightarrow> exampleSt)"
  have new: "newCluster (JObj [(''sharded'', JObj [(''enabled'', JBool True)])]) () =
      Inr (freshCluster exampleShardedOptions)"
    unfolding freshCluster_def exampleShardedOptions_def by code_simp
  have sharded: "isSharded (clOptions (freshCluster exampleShardedOptions))" by code_simp
  have run: "newFSMShardingTest (envOps exampleShardedEnv) (envShell exampleShardedEnv)
      (''mongodb://'' @ dbHost exampleShardedEnv) () = (Val st, ())"
    unfolding st_def by code_simp
  have len: "length (shardRsts st) = length (shardConnections st)" unfolding st_def by code_simp
  have members: "concat (map rstMembers (shardRsts st)) = [''r1'']" unfolding st_def by code_simp
  from sharded_setup_saves_all [OF new sharded run len] members show ?thesis by auto
qed

text \<open>
  The serialised form of a sharded cluster, the one worker threads rebuild their connection cache
  from, lists every router, every config server and, under the name of each replica set shard,
  exactly the nodes of its connection string.
\<close>

theorem serialized_cluster_complete:
  assumes "clInitialized s" and "isSharded (clOptions s)" and "clSt s = Some st"
    and "shardConnections st = map shardOf rs" and "list_all plain_hosts rs" and "distinct (map fst rs)"
  shows "getSerializedCluster s = (Val (Some \<lparr>mongosHosts = mongoses st, configHosts = configNodes st,
    shardHosts = rs\<rparr>), s)"
proof -
  have "fold (\<lambda>shard m. case serializeShard shard of (name, hosts) \<Rightarrow> AList.update name hosts m)
      (shardConnections st) [] = rs"
    unfolding assms(4) by (rule fold_serializeShard [OF assms(5,6)])
  then show ?thesis
    unfolding getSerializedCluster_def collect_st
    using assms(1-3) by (simp add: bindE_def seqE_def getE_def ret_def js_simps)
qed

theorem serialized_cluster_complete_witness:
  "getSerializedCluster exampleCluster = (Val (Some \<lparr>mongosHosts = [''m'', ''n''], configHosts = [''a'', ''b''],
     shardHosts = [(''rs0'', [''a'', ''b'']), (''rs1'', [''c''])]\<rparr>), exampleCluster)"
proof -
  have a: "clInitialized exampleCluster" "isSharded (clOptions exampleCluster)" by code_simp+
  have b: "clSt exampleCluster = Some exampleSt" by (simp add: exampleCluster_def)
  have c: "shardConnections exampleSt = map shardOf [(''rs0'', [''a'', ''b'']), (''rs1'', [''c''])]"
    by (simp add: exampleSt_def)
  show ?thesis
    using serialized_cluster_complete [OF a b c]
    by (simp add: plain_hosts_def) (simp add: exampleSt_def configNodes_def exampleRst_def)
qed

end
