(* ===== verification/Composer.thy ===== *)
theory Composer
  imports Assert_Level Fsm
begin

text \<open>
  The runner of an interleaving of workloads, \<open>fsm_libs/composer.js\<close>: it runs states of one workload
  and moves either to a next state of that workload or to a state of another one.  Everything the
  state functions touch (the data of each workload, the server) is the world \<open>'w\<close>, and drawing a
  random number is the parameter \<open>rand\<close>.
\<close>

section \<open>Model\<close>

record 'w compose_config =
  configDb :: string
  configCollName :: string
  configStartState :: string
  configStates :: "(string \<times> ('w, unit) eff) list"
  configTransitions :: jsval

definition getRandomElem :: "'a list \<Rightarrow> rat \<Rightarrow> 'a result" where
  "getRandomElem items randVal =
     require (length items > 0) ''items'' (Inr (items ! nat \<lfloor>randVal * of_nat (length items)\<rfloor>))"

text \<open>\<open>args.states[state].call(...)\<close>: calling a state that is not there is a type error.\<close>

definition callState :: "'w compose_config \<Rightarrow> string \<Rightarrow> ('w, unit) eff" where
  "callState args state =
     (case map_of (configStates args) state of
        None \<Rightarrow> raise (TypeErr (state @ '' is undefined''))
      | Some fn \<Rightarrow> fn)"

text \<open>The states of the other workloads, their start states left out.\<close>

definition otherStates ::
  "string list \<Rightarrow> (string \<Rightarrow> 'w compose_config) \<Rightarrow> string \<Rightarrow> (string \<times> string) list" where
  "otherStates workloads configs currentWorkload =
     concat (map (\<lambda>workload.
       if workload = currentWorkload then []
       else map (\<lambda>state. (workload, state))
              (filter (\<lambda>state. state \<noteq> configStartState (configs workload))
                (map fst (configStates (configs workload))))) workloads)"

text \<open>\<open>a >= b\<close>: false when either side is \<open>NaN\<close>, as an object converted to a number is.\<close>

definition num_ge :: "jsnum \<Rightarrow> jsnum \<Rightarrow> bool" where
  "num_ge a b \<longleftrightarrow> a \<noteq> NaN \<and> b \<noteq> NaN \<and> \<not> num_less a b"

text \<open>One turn of the loop: run the current state, then choose the next workload and state.\<close>

definition composeStep ::
  "('w, rat) eff \<Rightarrow> string list \<Rightarrow> (string \<Rightarrow> 'w compose_config) \<Rightarrow> jsval \<Rightarrow> string \<Rightarrow> string \<Rightarrow>
   ('w, string \<times> string) eff" where
  "composeStep rand workloads configs mixProb currentWorkload currentState =
     (let args = configs currentWorkload in
      seqE (callState args currentState)
     (bindE rand (\<lambda>r.
        if num_ge (Fin r) (to_number mixProb)
        then bindE rand (\<lambda>r'.
               bindE (liftE (getWeightedRandomChoice (fld (configTransitions args) currentState) r'))
                 (\<lambda>nextState. ret (currentWorkload, nextState)))
        else bindE rand (\<lambda>r'. liftE (getRandomElem (otherStates workloads configs currentWorkload) r')))))"

fun composeLoop ::
  "('w, rat) eff \<Rightarrow> string list \<Rightarrow> (string \<Rightarrow> 'w compose_config) \<Rightarrow> jsval \<Rightarrow> nat \<Rightarrow> string \<Rightarrow> string \<Rightarrow>
   ('w, unit) eff" where
  "composeLoop rand workloads configs mixProb 0 currentWorkload currentState = ret ()"
| "composeLoop rand workloads configs mixProb (Suc i) currentWorkload currentState =
     bindE (composeStep rand workloads configs mixProb currentWorkload currentState)
       (\<lambda>(w, q). composeLoop rand workloads configs mixProb i w q)"

text \<open>The start states of the other workloads, after the check that all share one collection.\<close>

fun startOthers ::
  "(string \<Rightarrow> 'w compose_config) \<Rightarrow> string \<Rightarrow> (string \<times> string) option \<Rightarrow> string list \<Rightarrow> ('w, unit) eff" where
  "startOthers configs currentWorkload prev [] = ret ()"
| "startOthers configs currentWorkload prev (workload # rest) =
     (let args = configs workload in
      seqE (case prev of
              None \<Rightarrow> ret ()
            | Some (myDB, collName) \<Rightarrow>
                seqE (assertE (myDB = configDb args) ''expected all workloads to use same database'')
                  (assertE (collName = configCollName args) ''expected all workloads to use same collection''))
     (seqE (if workload \<noteq> currentWorkload then callState args (configStartState args) else ret ())
        (startOthers configs currentWorkload (Some (configDb args, configCollName args)) rest)))"

definition composedIterations :: nat where
  "composedIterations = 100"

definition runCombinedFSM ::
  "('w, rat) eff \<Rightarrow> assert_level \<Rightarrow> string list \<Rightarrow> (string \<Rightarrow> 'w compose_config) \<Rightarrow> jsval \<Rightarrow> ('w, unit) eff" where
  "runCombinedFSM rand globalLevel workloads configs mixProb =
     seqE (assertE (globalLevel = ALWAYS) ''global assertion level is not set as ALWAYS'')
    (bindE rand (\<lambda>r.
     bindE (liftE (getRandomElem workloads r)) (\<lambda>currentWorkload.
     seqE (startOthers configs currentWorkload None workloads)
       (composeLoop rand workloads configs mixProb composedIterations currentWorkload
          (configStartState (configs currentWorkload))))))"

section \<open>Lemmas\<close>

lemma getRandomElem_mem:
  assumes "getRandomElem items r = Inr x" and "0 \<le> r" and "r < 1"
  shows "x \<in> set items"
proof -
  have ne: "0 < length items" and x: "x = items ! nat \<lfloor>r * of_nat (length items)\<rfloor>"
    using assms(1) by (auto simp: getRandomElem_def)
  have "r * of_nat (length items) < of_nat (length items)" and "0 \<le> r * of_nat (length items)"
    using assms(2,3) ne by simp_all
  then have "nat \<lfloor>r * of_nat (length items)\<rfloor> < length items"
    by (simp add: nat_less_iff floor_less_iff)
  then show ?thesis by (simp add: x)
qed

lemma otherStates_iff:
  "(w, q) \<in> set (otherStates workloads configs cur) \<longleftrightarrow>
     w \<in> set workloads \<and> w \<noteq> cur \<and> q \<in> fst ` set (configStates (configs w)) \<and>
     q \<noteq> configStartState (configs w)"
  by (auto simp: otherStates_def)

lemma otherStates_single: "set workloads \<subseteq> {cur} \<Longrightarrow> otherStates workloads configs cur = []"
  by (auto simp: otherStates_def)

section \<open>Properties\<close>

text \<open>Two workloads for concrete runs: each state leaves its name in the world.\<close>

definition exampleCompose :: "string \<Rightarrow> (string list) compose_config" where
  "exampleCompose w = \<lparr>configDb = ''db'', configCollName = ''coll'', configStartState = ''init'',
     configStates = [(''init'', modE (\<lambda>l. l @ [w @ ''.init''])), (''go'', modE (\<lambda>l. l @ [w @ ''.go'']))],
     configTransitions = JObj [(''init'', JObj [(''go'', jnum 1)]), (''go'', JObj [(''go'', jnum 1)])]\<rparr>"

text \<open>
  A mixing probability that is not a number (the worker threads pass the whole options object in
  its place) makes the composer leave the current workload at every turn: the next state always
  belongs to another workload and never is that workload's start state, so no transition of any
  workload is ever followed.
\<close>

theorem mixProb_object_always_leaves:
  assumes "to_number mixProb = NaN"
    and "\<And>s r s'. rand s = (Val r, s') \<Longrightarrow> 0 \<le> r \<and> r < 1"
    and "composeStep rand workloads configs mixProb cur q s = (Val (w', q'), s')"
  shows "w' \<noteq> cur \<and> w' \<in> set workloads \<and> q' \<noteq> configStartState (configs w') \<and>
         q' \<in> fst ` set (configStates (configs w'))"
proof -
  from assms(1,3) obtain r t where "0 \<le> r \<and> r < 1"
    and "liftE (getRandomElem (otherStates workloads configs cur) r) t = (Val (w', q'), s')"
    by (auto simp: composeStep_def Let_def run_Val num_ge_def dest: assms(2))
  then have "(w', q') \<in> set (otherStates workloads configs cur)"
    by (auto simp: liftE_def ret_def raise_def split: sum.splits dest: getRandomElem_mem)
  then show ?thesis by (auto simp: otherStates_iff)
qed

theorem mixProb_object_always_leaves_witness:
  "composeStep (ret (1 / 2)) [''a'', ''b''] exampleCompose (JObj []) ''a'' ''init'' []
     = (Val (''b'', ''go''), [''a.init'']) \<and> ''b'' \<noteq> ''a''"
proof -
  have run: "composeStep (ret (1 / 2)) [''a'', ''b''] exampleCompose (JObj []) ''a'' ''init'' []
     = (Val (''b'', ''go''), [''a.init''])"
    by code_simp
  have "to_number (JObj []) = NaN" by simp
  from mixProb_object_always_leaves [OF this _ run] run show ?thesis by (simp add: ret_def)
qed

text \<open>
  With a single workload such a run cannot go past its first state: the list of other states is
  empty, and the composer's own assertion stops it.
\<close>

theorem composed_single_workload_fails:
  assumes "to_number mixProb = NaN" and "callState (configs w) q s = (Val (), s1)"
    and "rand s1 = (Val r, s2)" and "rand s2 = (Val r', s3)"
  shows "composeLoop rand [w] configs mixProb (Suc i) w q s = (Throw (AssertFail ''items''), s3)"
  using assms
  by (simp add: composeStep_def Let_def num_ge_def getRandomElem_def otherStates_single bindE_def seqE_def
      liftE_def raise_def)

theorem composed_single_workload_fails_witness:
  "composeLoop (ret 0) [''a''] exampleCompose (JObj []) 100 ''a'' ''init'' []
   = (Throw (AssertFail ''items''), [''a.init''])"
proof -
  have "callState (exampleCompose ''a'') ''init'' [] = (Val (), [''a.init''])" by code_simp
  moreover have "to_number (JObj []) = NaN" by simp
  ultimately have "composeLoop (ret 0) [''a''] exampleCompose (JObj []) (Suc 99) ''a'' ''init'' []
    = (Throw (AssertFail ''items''), [''a.init''])"
    by (intro composed_single_workload_fails) (simp_all add: ret_def)
  then show ?thesis by (simp add: eval_nat_numeral)
qed

text \<open>
  With a numeric mixing probability the composer stays in the current workload exactly when the
  number drawn is at least that probability, and then it follows a transition of positive weight
  out of the state just run.
\<close>

theorem compose_stays_by_transition:
  assumes "callState (configs cur) q s = (Val (), s1)" and "rand s1 = (Val r, s2)"
    and "rand s2 = (Val r', s3)" and "0 \<le> r'" and "r' < 1" and "p \<le> r"
    and "finite_weights (fld (configTransitions (configs cur)) q) ws"
  shows "\<exists>q'. composeStep rand workloads configs (JNum (Fin p)) cur q s = (Val (cur, q'), s3) \<and>
           positive_weight (fld (configTransitions (configs cur)) q) q'"
proof -
  obtain q' where "getWeightedRandomChoice (fld (configTransitions (configs cur)) q) r' = Inr q'"
    and "positive_weight (fld (configTransitions (configs cur)) q) q'"
    by (rule choice_positive [OF assms(7,4,5)])
  then show ?thesis
    using assms(1-3,6)
    by (intro exI [of _ q']) (simp add: composeStep_def Let_def num_ge_def bindE_def seqE_def liftE_def ret_def)
qed

theorem compose_stays_by_transition_witness:
  "\<exists>q'. composeStep (ret (1 / 2)) [''a'', ''b''] exampleCompose (JNum (Fin (1 / 10))) ''a'' ''init'' []
     = (Val (''a'', q'), [''a.init'']) \<and>
   positive_weight (fld (configTransitions (exampleCompose ''a'')) ''init'') q'"
proof (rule compose_stays_by_transition [where r = "1 / 2" and r' = "1 / 2" and ?s2.0 = "[''a.init'']"])
  show "callState (exampleCompose ''a'') ''init'' [] = (Val (), [''a.init''])" by code_simp
  show "finite_weights (fld (configTransitions (exampleCompose ''a'')) ''init'') [1]"
    by (simp add: finite_weights_def exampleCompose_def fld_def obj_keys_def)
qed (simp_all add: ret_def)

end
