(* ===== verification/Thread_Mgr.thy ===== *)
theory Thread_Mgr
  imports Cluster Composer
begin

text \<open>
  The thread manager of the concurrency suite, \<open>fsm_libs/thread_mgr.js\<close>: scaling the thread counts of
  the workloads, spawning the threads, and the start-up protocol between the manager and the
  workers over two count-down latches.  A latch is an integer that is only counted down; the
  protocol never takes it below zero, so what the shell does there does not matter.
\<close>

section \<open>State\<close>

record workload_ctx =
  threadCount :: int           \<comment> \<open>\<open>context[workload].config.threadCount\<close>\<close>
  iterationCount :: int        \<comment> \<open>\<open>config.iterations\<close>\<close>
  ctxData :: jsval             \<comment> \<open>\<open>config.data\<close>\<close>
  ctxDbName :: string
  ctxCollName :: string

text \<open>A spawned thread: the arguments its worker receives.\<close>

record thread_spec =
  tid :: nat
  tWorkloads :: "string list"
  tData :: "(string \<times> jsval) list"     \<comment> \<open>copied when the thread is constructed\<close>
  tHost :: string
  tSecondaryHost :: "string option"
  tReplSetName :: "string option"
  tDbName :: string
  tCollName :: string
  tCluster :: "cluster_hosts option"
  tSeed :: int
  tAssertLevel :: assert_level
  tSessionOptions :: jsval

record 'w thread_mgr =
  tmLatch :: int
  tmErrorLatch :: int
  numThreads :: int
  tmInitialized :: bool
  threads :: "thread_spec list"
  tmWorkloads :: "string list"
  tmContext :: "string \<Rightarrow> workload_ctx"
  tmCluster :: "'w cluster"

definition onCluster :: "('w cluster, 'a) eff \<Rightarrow> ('w thread_mgr, 'a) eff" where
  "onCluster m = (\<lambda>s. case m (tmCluster s) of (r, c) \<Rightarrow> (r, s\<lparr>tmCluster := c\<rparr>))"

section \<open>init\<close>

definition computeNumThreads :: "string list \<Rightarrow> (string \<Rightarrow> workload_ctx) \<Rightarrow> int" where
  "computeNumThreads workloads context = sum_list (map (\<lambda>workload. threadCount (context workload)) workloads)"

definition scaleThreadCount :: "rat \<Rightarrow> int \<Rightarrow> int" where
  "scaleThreadCount factor n = max 1 \<lfloor>factor * of_int n\<rfloor>"

fun scaleAll :: "rat \<Rightarrow> string list \<Rightarrow> (string \<Rightarrow> workload_ctx) \<Rightarrow> (string \<Rightarrow> workload_ctx)" where
  "scaleAll factor [] context = context"
| "scaleAll factor (workload # rest) context =
     scaleAll factor rest
       (context(workload := (context workload)\<lparr>threadCount := scaleThreadCount factor (threadCount (context workload))\<rparr>))"

fun integral_num :: "jsnum \<Rightarrow> bool" where
  "integral_num (Fin q) = (of_int \<lfloor>q\<rfloor> = q)"
| "integral_num _ = True"

definition scaleContext :: "string list \<Rightarrow> (string \<Rightarrow> workload_ctx) \<Rightarrow> jsnum \<Rightarrow> (string \<Rightarrow> workload_ctx)" where
  "scaleContext workloads context maxAllowedThreads =
     (let requested = computeNumThreads workloads context in
      case maxAllowedThreads of
        Fin m \<Rightarrow> if of_int requested > m then scaleAll (m / of_int requested) workloads context else context
      | _ \<Rightarrow> context)"

definition tm_init ::
  "string list \<Rightarrow> (string \<Rightarrow> workload_ctx) \<Rightarrow> jsval \<Rightarrow> ('w thread_mgr, unit) eff" where
  "tm_init workloads context maxAllowedThreads =
     (case maxAllowedThreads of
        JNum m \<Rightarrow>
          seqE (assertE (num_less (Fin 0) m) ''the maximum allowed threads must be positive'')
         (seqE (assertE (integral_num m) ''the maximum allowed threads must be an integer'')
         (let context' = scaleContext workloads context m;
              n = computeNumThreads workloads context'
          in seqE (modE (\<lambda>s. s\<lparr>tmContext := context', numThreads := n\<rparr>))
            (seqE (assertE (\<not> num_less m (Fin (of_int n))) ''numThreads is greater than maxAllowedThreads'')
               (modE (\<lambda>s. s\<lparr>tmLatch := n, tmErrorLatch := n, tmWorkloads := workloads, tmInitialized := True\<rparr>)))))
      | _ \<Rightarrow> raise (AssertFail ''the maximum allowed threads must be a number''))"

section \<open>spawnAll\<close>

definition checkInitialized :: "('w thread_mgr, unit) eff" where
  "checkInitialized = bindE (getE tmInitialized) (\<lambda>i.
     if \<not> i then raise (Err ''thread manager has not been initialized yet'') else ret ())"

definition spawnThread ::
  "('w, int) eff \<Rightarrow> assert_level \<Rightarrow> jsval \<Rightarrow> string list \<Rightarrow> workload_ctx \<Rightarrow> (string \<times> jsval) list \<Rightarrow> nat \<Rightarrow>
   ('w thread_mgr, unit) eff" where
  "spawnThread randInt lvl sessionOptions workloads config workloadData i =
     bindE (onCluster getHost) (\<lambda>host.
     bindE (onCluster getSecondaryHost) (\<lambda>secondaryHost.
     bindE (onCluster getReplSetName) (\<lambda>replSetName.
     bindE (onCluster getSerializedCluster) (\<lambda>cl.
     bindE (onCluster (onClWorld randInt)) (\<lambda>seed.
     modE (\<lambda>s. s\<lparr>threads := threads s @
       [\<lparr>tid = i, tWorkloads = workloads, tData = workloadData, tHost = host, tSecondaryHost = secondaryHost,
         tReplSetName = replSetName, tDbName = ctxDbName config, tCollName = ctxCollName config,
         tCluster = cl, tSeed = seed, tAssertLevel = lvl, tSessionOptions = sessionOptions\<rparr>]\<rparr>))))))"

text \<open>The threads of one workload: \<open>n\<close> of them, numbered from \<open>i\<close>.\<close>

fun spawnThreads ::
  "('w, int) eff \<Rightarrow> assert_level \<Rightarrow> jsval \<Rightarrow> string list \<Rightarrow> workload_ctx \<Rightarrow> (string \<times> jsval) list \<Rightarrow> nat \<Rightarrow> nat \<Rightarrow>
   ('w thread_mgr, unit) eff" where
  "spawnThreads randInt lvl sessionOptions workloads config workloadData 0 i = ret ()"
| "spawnThreads randInt lvl sessionOptions workloads config workloadData (Suc n) i =
     seqE (spawnThread randInt lvl sessionOptions workloads config workloadData i)
       (spawnThreads randInt lvl sessionOptions workloads config workloadData n (Suc i))"

fun spawnWorkloads ::
  "('w, int) eff \<Rightarrow> assert_level \<Rightarrow> jsval \<Rightarrow> bool \<Rightarrow> string list \<Rightarrow> (string \<Rightarrow> workload_ctx) \<Rightarrow>
   (string \<times> jsval) list \<Rightarrow> nat \<Rightarrow> string list \<Rightarrow> ('w thread_mgr, unit) eff" where
  "spawnWorkloads randInt lvl sessionOptions composed allWorkloads context workloadData i [] = ret ()"
| "spawnWorkloads randInt lvl sessionOptions composed allWorkloads context workloadData i (workload # rest) =
     (let config = context workload;
          workloadData' = AList.update workload (ctxData config) workloadData;
          workloads = (if composed then allWorkloads else [workload]);
          n = nat (threadCount config)
      in seqE (spawnThreads randInt lvl sessionOptions workloads config workloadData' n i)
           (spawnWorkloads randInt lvl sessionOptions composed allWorkloads context workloadData' (i + n) rest))"

definition spawnAll ::
  "('w, int) eff \<Rightarrow> assert_level \<Rightarrow> bool \<Rightarrow> jsval \<Rightarrow> ('w thread_mgr, unit) eff" where
  "spawnAll randInt lvl composed options =
     seqE checkInitialized
    (bindE (getE tmWorkloads) (\<lambda>workloads.
     bindE (getE tmContext) (\<lambda>context.
     spawnWorkloads randInt lvl (fld options ''sessionOptions'') composed workloads context [] 0 workloads)))"

section \<open>checkFailed, checkForErrors, joinAll\<close>

definition handleFailedThread :: "bool \<Rightarrow> nat \<Rightarrow> nat list \<times> int \<Rightarrow> nat list \<times> int" where
  "handleFailedThread hasFailed index = (\<lambda>(failedThreadIndexes, latch).
     if hasFailed \<and> index \<notin> set failedThreadIndexes then (failedThreadIndexes @ [index], latch - 1)
     else (failedThreadIndexes, latch))"

text \<open>The verdict after the loop; with no thread at all the quotient is \<open>NaN\<close>, which exceeds nothing.\<close>

definition checkFailedVerdict :: "nat \<Rightarrow> nat \<Rightarrow> rat \<Rightarrow> unit result" where
  "checkFailedVerdict failedThreads n allowedFailurePercent =
     (if n \<noteq> 0 \<and> of_nat failedThreads / of_nat n > allowedFailurePercent
      then Inl (Err ''Too many worker threads failed to spawn - aborting'') else Inr ())"

definition checkForErrors :: "('w thread_mgr, bool) eff" where
  "checkForErrors =
     seqE checkInitialized (getE (\<lambda>s. tmErrorLatch s < numThreads s))"

text \<open>Joining a thread, with what it returned (\<open>undefined\<close> for a thread that failed), is the parameter \<open>join\<close>.\<close>

definition joinAll :: "(thread_spec \<Rightarrow> ('w, jsval) eff) \<Rightarrow> ('w thread_mgr, jsval list) eff" where
  "joinAll join =
     seqE checkInitialized
    (bindE (getE threads) (\<lambda>ts.
     bindE (mapE (\<lambda>t. onCluster (onClWorld (join t))) ts) (\<lambda>results.
     seqE (modE (\<lambda>s. s\<lparr>tmInitialized := False, threads := []\<rparr>))
       (ret (filter (\<lambda>data. truthy data \<and> \<not> truthy (fld data ''ok'')) results)))))"

section \<open>The start-up protocol\<close>

text \<open>
  A worker counts the latch down once it is ready and waits until it is zero; a worker that throws
  before that has failed, and the manager, which polls the threads round after round, counts the
  latch down on its behalf.  After the wait a worker returns a status, and counts the error latch
  down when the status is an error.
\<close>

datatype phase = Spawned | Waiting | Running | Returned bool | Failed

datatype manager_pc = Head | Polling nat | Checked

record protocol =
  phases :: "phase list"
  latch :: int
  errorLatch :: int
  failedThreadIndexes :: "nat list"
  pc :: manager_pc

definition protocol_init :: "nat \<Rightarrow> protocol" where
  "protocol_init n = \<lparr>phases = replicate n Spawned, latch = int n, errorLatch = int n,
     failedThreadIndexes = [], pc = Head\<rparr>"

definition setPhase :: "nat \<Rightarrow> phase \<Rightarrow> protocol \<Rightarrow> protocol" where
  "setPhase i p s = s\<lparr>phases := (phases s)[i := p]\<rparr>"

definition inPhase :: "protocol \<Rightarrow> nat \<Rightarrow> phase \<Rightarrow> bool" where
  "inPhase s i p \<longleftrightarrow> i < length (phases s) \<and> phases s ! i = p"

definition pollThread :: "nat \<Rightarrow> protocol \<Rightarrow> protocol" where
  "pollThread i s =
     (case handleFailedThread (phases s ! i = Failed) i (failedThreadIndexes s, latch s) of
        (idx, l) \<Rightarrow> s\<lparr>failedThreadIndexes := idx, latch := l, pc := Polling (Suc i)\<rparr>)"

inductive step :: "protocol \<Rightarrow> protocol \<Rightarrow> bool" where
  worker_throws: "inPhase s i Spawned \<Longrightarrow> step s (setPhase i Failed s)"
| worker_ready: "inPhase s i Spawned \<Longrightarrow> step s ((setPhase i Waiting s)\<lparr>latch := latch s - 1\<rparr>)"
| worker_released: "inPhase s i Waiting \<Longrightarrow> latch s \<le> 0 \<Longrightarrow> step s (setPhase i Running s)"
| worker_ok: "inPhase s i Running \<Longrightarrow> step s (setPhase i (Returned True) s)"
| worker_error: "inPhase s i Running \<Longrightarrow>
    step s ((setPhase i (Returned False) s)\<lparr>errorLatch := errorLatch s - 1\<rparr>)"
| manager_again: "pc s = Head \<Longrightarrow> latch s > 0 \<Longrightarrow> step s (s\<lparr>pc := Polling 0\<rparr>)"
| manager_poll: "pc s = Polling i \<Longrightarrow> i < length (phases s) \<Longrightarrow> step s (pollThread i s)"
| manager_sleep: "pc s = Polling i \<Longrightarrow> length (phases s) \<le> i \<Longrightarrow> step s (s\<lparr>pc := Head\<rparr>)"
| manager_done: "pc s = Head \<Longrightarrow> latch s \<le> 0 \<Longrightarrow> step s (s\<lparr>pc := Checked\<rparr>)"

abbreviation steps :: "protocol \<Rightarrow> protocol \<Rightarrow> bool" where
  "steps \<equiv> step\<^sup>*\<^sup>*"

definition reachable :: "nat \<Rightarrow> protocol \<Rightarrow> bool" where
  "reachable n s \<longleftrightarrow> steps (protocol_init n) s"

section \<open>Lemmas: the protocol\<close>

definition phaseSet :: "(phase \<Rightarrow> bool) \<Rightarrow> protocol \<Rightarrow> nat set" where
  "phaseSet P s = {i. i < length (phases s) \<and> P (phases s ! i)}"

fun countedDown :: "phase \<Rightarrow> bool" where
  "countedDown Spawned = False"
| "countedDown Failed = False"
| "countedDown _ = True"

fun pastLatch :: "phase \<Rightarrow> bool" where
  "pastLatch Running = True"
| "pastLatch (Returned _) = True"
| "pastLatch _ = False"

lemma finite_phaseSet [simp]: "finite (phaseSet P s)"
  by (simp add: phaseSet_def)

lemma length_setPhase [simp]: "length (phases (setPhase i p s)) = length (phases s)"
  by (simp add: setPhase_def)

lemma setPhase_sel [simp]:
  "latch (setPhase i p s) = latch s" "errorLatch (setPhase i p s) = errorLatch s"
  "failedThreadIndexes (setPhase i p s) = failedThreadIndexes s" "pc (setPhase i p s) = pc s"
  by (simp_all add: setPhase_def)

lemma phaseSet_sel [simp]:
  "phaseSet P (s\<lparr>latch := l\<rparr>) = phaseSet P s" "phaseSet P (s\<lparr>errorLatch := e\<rparr>) = phaseSet P s"
  "phaseSet P (s\<lparr>pc := q\<rparr>) = phaseSet P s" "phaseSet P (s\<lparr>failedThreadIndexes := f\<rparr>) = phaseSet P s"
  by (simp_all add: phaseSet_def)

lemma phaseSet_setPhase:
  "i < length (phases s) \<Longrightarrow>
   phaseSet P (setPhase i p s) = (if P p then insert i (phaseSet P s) else phaseSet P s - {i})"
  by (auto simp: phaseSet_def setPhase_def nth_list_update)

lemma inPhase_phaseSet: "inPhase s i p \<Longrightarrow> i < length (phases s) \<and> (i \<in> phaseSet P s \<longleftrightarrow> P p)"
  by (auto simp: inPhase_def phaseSet_def)

lemma pollThread_sel [simp]:
  "phases (pollThread i s) = phases s" "errorLatch (pollThread i s) = errorLatch s"
  "pc (pollThread i s) = Polling (Suc i)"
  by (auto simp: pollThread_def split: prod.split)

lemma pollThread_cases:
  "failedThreadIndexes (pollThread i s) =
     (if phases s ! i = Failed \<and> i \<notin> set (failedThreadIndexes s) then failedThreadIndexes s @ [i]
      else failedThreadIndexes s)"
  "latch (pollThread i s) =
     (if phases s ! i = Failed \<and> i \<notin> set (failedThreadIndexes s) then latch s - 1 else latch s)"
  by (auto simp: pollThread_def handleFailedThread_def)

lemma phaseSet_pollThread [simp]: "phaseSet P (pollThread i s) = phaseSet P s"
  by (simp add: phaseSet_def)

text \<open>
  The invariant: both latches are what is left to count down, the manager's list holds distinct
  failed threads, and nobody passes a latch that is not open.
\<close>

definition proto_inv :: "nat \<Rightarrow> protocol \<Rightarrow> bool" where
  "proto_inv n s \<longleftrightarrow> length (phases s) = n \<and>
     distinct (failedThreadIndexes s) \<and> set (failedThreadIndexes s) \<subseteq> phaseSet (\<lambda>p. p = Failed) s \<and>
     latch s = int n - int (card (phaseSet countedDown s)) - int (length (failedThreadIndexes s)) \<and>
     errorLatch s = int n - int (card (phaseSet (\<lambda>p. p = Returned False) s)) \<and>
     (phaseSet pastLatch s \<noteq> {} \<longrightarrow> latch s \<le> 0) \<and> (pc s = Checked \<longrightarrow> latch s \<le> 0)"

lemma proto_inv_init: "proto_inv n (protocol_init n)"
  by (auto simp: proto_inv_def protocol_init_def phaseSet_def)

lemma card_insert_new: "i \<notin> A \<Longrightarrow> finite A \<Longrightarrow> int (card (insert i A)) = int (card A) + 1"
  by simp

lemma proto_inv_step: "step s s' \<Longrightarrow> proto_inv n s \<Longrightarrow> proto_inv n s'"
proof (induction rule: step.induct)
  case (worker_throws s i)
  then show ?case
    using inPhase_phaseSet [OF worker_throws(1)]
    by (auto simp: proto_inv_def phaseSet_setPhase insert_absorb)
next
  case (worker_ready s i)
  then show ?case
    using inPhase_phaseSet [OF worker_ready(1)]
    by (auto simp: proto_inv_def phaseSet_setPhase)
next
  case (worker_released s i)
  then show ?case
    using inPhase_phaseSet [OF worker_released(1)]
    by (auto simp: proto_inv_def phaseSet_setPhase insert_absorb)
next
  case (worker_ok s i)
  then show ?case
    using inPhase_phaseSet [OF worker_ok(1)]
    by (auto simp: proto_inv_def phaseSet_setPhase insert_absorb)
next
  case (worker_error s i)
  then show ?case
    using inPhase_phaseSet [OF worker_error(1)]
    by (auto simp: proto_inv_def phaseSet_setPhase insert_absorb)
next
  case (manager_poll s i)
  then show ?case
    by (auto simp: proto_inv_def pollThread_cases) (auto simp: phaseSet_def)
qed (auto simp: proto_inv_def)

lemma reachable_inv: "reachable n s \<Longrightarrow> proto_inv n s"
  unfolding reachable_def
  by (induction rule: rtranclp_induct) (auto intro: proto_inv_init proto_inv_step)

text \<open>The latch is never below zero, and once it is open every thread is accounted for.\<close>

lemma proto_inv_accounted:
  assumes "proto_inv n s"
  shows "0 \<le> latch s" and
    "latch s \<le> 0 \<Longrightarrow> phaseSet (\<lambda>p. p = Spawned) s = {} \<and> set (failedThreadIndexes s) = phaseSet (\<lambda>p. p = Failed) s"
proof -
  let ?C = "phaseSet countedDown s" and ?F = "set (failedThreadIndexes s)"
  have F: "?F \<subseteq> phaseSet (\<lambda>p. p = Failed) s" and len: "length (phases s) = n"
    and d: "distinct (failedThreadIndexes s)"
    and l: "latch s = int n - int (card ?C) - int (length (failedThreadIndexes s))"
    using assms by (simp_all add: proto_inv_def)
  have disj: "?C \<inter> ?F = {}" using F by (auto simp: phaseSet_def)
  have sub: "?C \<union> ?F \<subseteq> {..<n}" using F len by (auto simp: phaseSet_def)
  have card: "card (?C \<union> ?F) = card ?C + length (failedThreadIndexes s)"
    using disj d by (simp add: card_Un_disjoint distinct_card)
  have "card (?C \<union> ?F) \<le> n" using card_mono [OF _ sub] by simp
  then show "0 \<le> latch s" using card l by simp
  assume "latch s \<le> 0"
  then have "card (?C \<union> ?F) = card {..<n}" using card l \<open>card (?C \<union> ?F) \<le> n\<close> by simp
  then have all: "?C \<union> ?F = {..<n}" using sub by (simp add: card_subset_eq)
  have split: "i \<in> ?C \<or> i \<in> ?F" if "i < n" for i
    using that all by blast
  have "i \<in> ?F" if "i \<in> phaseSet (\<lambda>p. p = Failed) s" for i
    using that split [of i] len by (simp add: phaseSet_def)
  moreover have "i \<notin> phaseSet (\<lambda>p. p = Spawned) s" for i
  proof
    assume i: "i \<in> phaseSet (\<lambda>p. p = Spawned) s"
    then have "i \<notin> ?C" "i \<notin> ?F" using F by (auto simp: phaseSet_def)
    then show False using split [of i] i len by (simp add: phaseSet_def)
  qed
  ultimately show "phaseSet (\<lambda>p. p = Spawned) s = {} \<and> ?F = phaseSet (\<lambda>p. p = Failed) s"
    using F by blast
qed

subsection \<open>No deadlock\<close>

text \<open>
  From every reachable state the protocol can finish.  Each state that is not final has a step to
  a state of smaller rank: a worker that can move does; when all workers wait or are done the
  manager moves on, and a full round of polls accounts for every failed thread.
\<close>

fun phaseWeight :: "phase \<Rightarrow> nat" where
  "phaseWeight Spawned = 3"
| "phaseWeight Waiting = 2"
| "phaseWeight Running = 1"
| "phaseWeight _ = 0"

definition workLeft :: "protocol \<Rightarrow> nat" where
  "workLeft s = sum_list (map phaseWeight (phases s))"

definition unhandled :: "protocol \<Rightarrow> nat set" where
  "unhandled s = phaseSet (\<lambda>p. p = Failed) s - set (failedThreadIndexes s)"

definition managerRank :: "protocol \<Rightarrow> nat" where
  "managerRank s =
     (let n = length (phases s) in
      case pc s of
        Checked \<Rightarrow> 0
      | Head \<Rightarrow> if unhandled s = {} then 1 else n + 4
      | Polling i \<Rightarrow> (n - i) + (if unhandled s \<inter> {..<i} = {} then 2 else n + 5))"

definition final :: "protocol \<Rightarrow> bool" where
  "final s \<longleftrightarrow> pc s = Checked \<and> (\<forall>p \<in> set (phases s). phaseWeight p = 0)"

lemma workLeft_setPhase:
  assumes "inPhase s i p" and "phaseWeight q < phaseWeight p"
  shows "workLeft (setPhase i q s) < workLeft s"
proof -
  have i: "i < length (phases s)" and p: "phases s ! i = p" using assms(1) by (simp_all add: inPhase_def)
  have "phaseWeight p \<le> sum_list (map phaseWeight (phases s))"
    using member_le_sum_list [of "phaseWeight p" "map phaseWeight (phases s)"] i p by force
  moreover have "workLeft (setPhase i q s) = workLeft s + phaseWeight q - phaseWeight p"
    using i p by (simp add: workLeft_def setPhase_def map_update sum_list_update)
  ultimately show ?thesis using assms(2) by (simp add: workLeft_def)
qed

lemma workLeft_sel [simp]:
  "workLeft (s\<lparr>latch := l\<rparr>) = workLeft s" "workLeft (s\<lparr>pc := q\<rparr>) = workLeft s"
  "workLeft (pollThread i s) = workLeft s"
  by (simp_all add: workLeft_def)

lemma unhandled_pollThread:
  "i < length (phases s) \<Longrightarrow> unhandled (pollThread i s) = unhandled s - {i}"
  by (auto simp: unhandled_def pollThread_cases phaseSet_def)

lemma unhandled_sel [simp]: "unhandled (s\<lparr>pc := q\<rparr>) = unhandled s"
  by (simp add: unhandled_def)

lemma managerRank_poll:
  assumes "pc s = Polling i" and "i < length (phases s)"
  shows "managerRank (pollThread i s) < managerRank s"
proof -
  have "(unhandled s - {i}) \<inter> {..<Suc i} = {} \<longleftrightarrow> unhandled s \<inter> {..<i} = {}"
    by (auto simp: less_Suc_eq)
  then show ?thesis
    using assms by (simp add: managerRank_def Let_def unhandled_pollThread)
qed

lemma managerRank_sleep:
  assumes "pc s = Polling i" and "length (phases s) \<le> i"
  shows "managerRank (s\<lparr>pc := Head\<rparr>) < managerRank s"
proof -
  have "unhandled s \<subseteq> {..<i}" using assms(2) by (auto simp: unhandled_def phaseSet_def)
  then have "unhandled s \<inter> {..<i} = unhandled s" by blast
  then show ?thesis using assms by (simp add: managerRank_def Let_def)
qed

text \<open>The latch still closed with no worker starting up: some failed thread is not accounted for.\<close>

lemma closed_unhandled:
  assumes inv: "proto_inv n s" and "latch s > 0" and "phaseSet (\<lambda>p. p = Spawned) s = {}"
  shows "unhandled s \<noteq> {}"
proof
  assume "unhandled s = {}"
  then have F: "set (failedThreadIndexes s) = phaseSet (\<lambda>p. p = Failed) s"
    using inv by (auto simp: unhandled_def proto_inv_def)
  have len: "length (phases s) = n" using inv by (simp add: proto_inv_def)
  have "i \<in> phaseSet countedDown s \<union> phaseSet (\<lambda>p. p = Failed) s" if "i < n" for i
    using that assms(3) len by (cases "phases s ! i") (auto simp: phaseSet_def)
  then have "{..<n} \<subseteq> phaseSet countedDown s \<union> set (failedThreadIndexes s)" by (auto simp: F)
  then have "n \<le> card (phaseSet countedDown s \<union> set (failedThreadIndexes s))"
    using card_mono [of "phaseSet countedDown s \<union> set (failedThreadIndexes s)" "{..<n}"] by simp
  also have "\<dots> \<le> card (phaseSet countedDown s) + length (failedThreadIndexes s)"
    using card_Un_le card_length le_trans add_left_mono by metis
  finally show False using inv assms(2) by (simp add: proto_inv_def)
qed

lemma progress:
  assumes inv: "proto_inv n s" and "\<not> final s"
  shows "\<exists>s'. step s s' \<and> ((workLeft s', workLeft s) \<in> less_than \<or>
           workLeft s' = workLeft s \<and> managerRank s' < managerRank s)"
proof (cases "phaseSet (\<lambda>p. p = Spawned) s = {}")
  case False
  then obtain i where i: "inPhase s i Spawned" by (auto simp: phaseSet_def inPhase_def)
  show ?thesis
    using step.worker_throws [OF i] workLeft_setPhase [OF i, of Failed] by force
next
  case started: True
  show ?thesis
  proof (cases "pc s")
    case (Polling i)
    show ?thesis
    proof (cases "i < length (phases s)")
      case True
      then show ?thesis
        using step.manager_poll [OF Polling] managerRank_poll [OF Polling] workLeft_sel(3) by blast
    next
      case False
      then have le: "length (phases s) \<le> i" by simp
      show ?thesis
        using step.manager_sleep [OF Polling le] managerRank_sleep [OF Polling le] workLeft_sel(2) by blast
    qed
  next
    case Head
    show ?thesis
    proof (cases "latch s > 0")
      case True
      have "managerRank (s\<lparr>pc := Polling 0\<rparr>) < managerRank s"
        using closed_unhandled [OF inv True started] Head by (simp add: managerRank_def Let_def)
      then show ?thesis using step.manager_again [OF Head True] workLeft_sel(2) by blast
    next
      case False
      then have "latch s \<le> 0" by simp
      moreover have "managerRank (s\<lparr>pc := Checked\<rparr>) < managerRank s"
        using Head by (simp add: managerRank_def Let_def)
      ultimately show ?thesis using step.manager_done [OF Head] workLeft_sel(2) by blast
    qed
  next
    case Checked
    then have open': "latch s \<le> 0" using inv by (simp add: proto_inv_def)
    obtain i where i: "i < length (phases s)" "phaseWeight (phases s ! i) \<noteq> 0"
      using assms(2) Checked by (auto simp: final_def in_set_conv_nth)
    have "phases s ! i \<noteq> Spawned" using started i(1) by (auto simp: phaseSet_def)
    then consider "inPhase s i Waiting" | "inPhase s i Running"
      using i by (cases "phases s ! i") (auto simp: inPhase_def)
    then show ?thesis
    proof cases
      case 1
      then show ?thesis
        using step.worker_released [OF 1 open'] workLeft_setPhase [OF 1, of Running] by force
    next
      case 2
      then show ?thesis
        using step.worker_ok [OF 2] workLeft_setPhase [OF 2, of "Returned True"] by force
    qed
  qed
qed

lemma can_finish: "proto_inv n s \<Longrightarrow> \<exists>t. steps s t \<and> final t"
proof (induction "(workLeft s, managerRank s)" arbitrary: s
    rule: wf_induct_rule [OF wf_lex_prod [OF wf_less_than wf_less_than]])
  case (1 s)
  show ?case
  proof (cases "final s")
    case False
    then obtain s' where s': "step s s'" and
      "((workLeft s', managerRank s'), (workLeft s, managerRank s)) \<in> less_than <*lex*> less_than"
      using progress [OF 1(2)] by auto
    then obtain t where "steps s' t" "final t" using 1(1) proto_inv_step [OF s' 1(2)] by blast
    then show ?thesis using s' by (meson converse_rtranclp_into_rtranclp)
  qed blast
qed

section \<open>Lemmas: init and spawnAll\<close>

lemma scaleAll_count:
  "distinct ws \<Longrightarrow> threadCount (scaleAll f ws ctx w) =
     (if w \<in> set ws then scaleThreadCount f (threadCount (ctx w)) else threadCount (ctx w))"
  by (induction ws arbitrary: ctx) auto

lemma scaleThreadCount_bounds:
  assumes "0 \<le> f" and "f \<le> 1" and "1 \<le> n"
  shows "1 \<le> scaleThreadCount f n \<and> scaleThreadCount f n \<le> n"
proof -
  have "f * of_int n \<le> of_int n" using assms by (simp add: mult_left_le_one_le)
  then have "\<lfloor>f * of_int n\<rfloor> \<le> n" using floor_mono by fastforce
  then show ?thesis using assms(3) by (simp add: scaleThreadCount_def)
qed

lemma of_int_sum_list: "of_int (sum_list xs) = (\<Sum>x\<leftarrow>xs. of_int x)"
  by (induction xs) simp_all

lemma computeNumThreads_pos: "\<forall>w \<in> set ws. 1 \<le> threadCount (ctx w) \<Longrightarrow> int (length ws) \<le> computeNumThreads ws ctx"
  by (induction ws) (auto simp: computeNumThreads_def)

lemma scaleContext_bounds:
  assumes "distinct ws" and "\<forall>w \<in> set ws. 1 \<le> threadCount (ctx w)" and "0 < m" and "w \<in> set ws"
  shows "1 \<le> threadCount (scaleContext ws ctx (Fin (of_int m)) w) \<and>
         threadCount (scaleContext ws ctx (Fin (of_int m)) w) \<le> threadCount (ctx w)"
proof (cases "computeNumThreads ws ctx > m")
  case True
  have "1 \<le> threadCount (ctx w)" using assms by blast
  moreover have "0 \<le> (of_int m / of_int (computeNumThreads ws ctx) :: rat)"
    "(of_int m / of_int (computeNumThreads ws ctx) :: rat) \<le> 1"
    using True assms(3) by (simp_all add: divide_le_eq)
  ultimately show ?thesis
    using True assms(1,4) scaleThreadCount_bounds
    by (simp add: scaleContext_def Let_def scaleAll_count)
next
  case False
  then show ?thesis using assms by (simp add: scaleContext_def Let_def)
qed

text \<open>When every workload's share of the threads is at least one, the scaled counts fit.\<close>

lemma scaled_sum_fits:
  assumes "distinct ws" and "0 < m" and "m < computeNumThreads ws ctx"
    and "\<forall>w \<in> set ws. computeNumThreads ws ctx \<le> m * threadCount (ctx w)"
  shows "computeNumThreads ws (scaleContext ws ctx (Fin (of_int m))) \<le> m"
proof -
  define req where "req = computeNumThreads ws ctx"
  define f :: rat where "f = of_int m / of_int req"
  have req: "0 < req" using assms(2,3) by (simp add: req_def)
  have share: "of_int (threadCount (scaleContext ws ctx (Fin (of_int m)) w)) \<le> f * of_int (threadCount (ctx w))"
    if w: "w \<in> set ws" for w
  proof -
    have "req \<le> m * threadCount (ctx w)" using assms(4) w by (simp add: req_def)
    then have "(of_int req :: rat) \<le> of_int m * of_int (threadCount (ctx w))"
      by (metis of_int_le_iff of_int_mult)
    then have "1 \<le> f * of_int (threadCount (ctx w))" using req by (simp add: f_def le_divide_eq)
    then have "scaleThreadCount f (threadCount (ctx w)) = \<lfloor>f * of_int (threadCount (ctx w))\<rfloor>"
      by (simp add: scaleThreadCount_def le_floor_iff max_def)
    then show ?thesis
      using assms(1,3) w by (simp add: scaleContext_def Let_def scaleAll_count flip: req_def f_def)
  qed
  have "(\<Sum>w\<leftarrow>ws. of_int (threadCount (scaleContext ws ctx (Fin (of_int m)) w))) \<le>
        (\<Sum>w\<leftarrow>ws. f * of_int (threadCount (ctx w)))"
    using share by (intro sum_list_mono) blast
  also have "\<dots> = f * of_int req"
    by (simp add: sum_list_const_mult req_def computeNumThreads_def o_def of_int_sum_list)
  also have "\<dots> = of_int m" using req by (simp add: f_def)
  finally have "(of_int (computeNumThreads ws (scaleContext ws ctx (Fin (of_int m)))) :: rat) \<le> of_int m"
    by (simp add: computeNumThreads_def of_int_sum_list o_def)
  then show ?thesis by (simp only: of_int_le_iff)
qed

lemma tm_init_run:
  assumes "0 < m"
  shows "tm_init ws ctx (jnum m) s =
    (let c = scaleContext ws ctx (Fin (of_int m)); n = computeNumThreads ws c in
     if n \<le> m
     then (Val (), s\<lparr>tmContext := c, numThreads := n, tmLatch := n, tmErrorLatch := n, tmWorkloads := ws,
             tmInitialized := True\<rparr>)
     else (Throw (AssertFail ''numThreads is greater than maxAllowedThreads''),
           s\<lparr>tmContext := c, numThreads := n\<rparr>))"
  using assms
  by (simp add: tm_init_def seqE_def bindE_def modE_def assertE_def ret_def raise_def Let_def not_less)

lemma onCluster_threads: "onCluster m s = (r, s') \<Longrightarrow> threads s' = threads s"
  by (auto simp: onCluster_def split: prod.splits)

lemma spawnThread_Val:
  assumes "spawnThread ri lvl so ws config dat i s = (Val (), s')"
  shows "\<exists>t. threads s' = threads s @ [t] \<and> tid t = i \<and> tWorkloads t = ws \<and> tData t = dat \<and>
           tAssertLevel t = lvl"
  using assms by (auto simp: spawnThread_def bindE_Val modE_def dest!: onCluster_threads)

lemma spawnThreads_Val:
  "spawnThreads ri lvl so ws config dat n i s = (Val (), s') \<Longrightarrow>
   \<exists>ts. threads s' = threads s @ ts \<and> map tid ts = [i..<i + n] \<and> map tWorkloads ts = replicate n ws \<and>
        map tData ts = replicate n dat"
proof (induction n arbitrary: i s)
  case 0
  then show ?case by (simp add: ret_def)
next
  case (Suc n)
  then obtain s1 where first: "spawnThread ri lvl so ws config dat i s = (Val (), s1)"
    and rest: "spawnThreads ri lvl so ws config dat n (Suc i) s1 = (Val (), s')"
    by (auto simp: seqE_Val)
  from spawnThread_Val [OF first] Suc.IH [OF rest] show ?case
    by (auto simp: upt_conv_Cons simp del: upt_Suc)
qed

lemma spawnWorkloads_Val:
  "spawnWorkloads ri lvl so cmps allWs ctx dat i ws s = (Val (), s') \<Longrightarrow>
   \<exists>ts. threads s' = threads s @ ts \<and>
     map tid ts = [i..<i + sum_list (map (\<lambda>w. nat (threadCount (ctx w))) ws)] \<and>
     map tWorkloads ts = concat (map (\<lambda>w. replicate (nat (threadCount (ctx w))) (if cmps then allWs else [w])) ws)"
proof (induction ws arbitrary: dat i s)
  case Nil
  then show ?case by (simp add: ret_def)
next
  case (Cons w ws)
  let ?n = "nat (threadCount (ctx w))" and ?dat = "AList.update w (ctxData (ctx w)) dat"
  obtain s1 where first: "spawnThreads ri lvl so (if cmps then allWs else [w]) (ctx w) ?dat ?n i s = (Val (), s1)"
    and rest: "spawnWorkloads ri lvl so cmps allWs ctx ?dat (i + ?n) ws s1 = (Val (), s')"
    using Cons.prems by (auto simp: seqE_Val Let_def)
  from spawnThreads_Val [OF first] obtain ts1 where ts1: "threads s1 = threads s @ ts1"
    "map tid ts1 = [i..<i + ?n]" "map tWorkloads ts1 = replicate ?n (if cmps then allWs else [w])"
    by blast
  from Cons.IH [OF rest] obtain ts2 where ts2: "threads s' = threads s1 @ ts2"
    "map tid ts2 = [i + ?n..<i + ?n + sum_list (map (\<lambda>w. nat (threadCount (ctx w))) ws)]"
    "map tWorkloads ts2 = concat (map (\<lambda>w. replicate (nat (threadCount (ctx w))) (if cmps then allWs else [w])) ws)"
    by blast
  have "map tid (ts1 @ ts2) = [i..<i + sum_list (map (\<lambda>w. nat (threadCount (ctx w))) (w # ws))]"
    using ts1(2) ts2(2) upt_add_eq_append [of i "i + ?n" "sum_list (map (\<lambda>w. nat (threadCount (ctx w))) ws)"]
    by (simp add: add.assoc)
  then show ?case using ts1 ts2 by (intro exI [of _ "ts1 @ ts2"]) simp
qed

lemma nat_sum_threads:
  "\<forall>w \<in> set ws. 0 \<le> threadCount (ctx w) \<Longrightarrow>
   sum_list (map (\<lambda>w. nat (threadCount (ctx w))) ws) = nat (computeNumThreads ws ctx)"
proof (induction ws)
  case (Cons w ws)
  have "0 \<le> computeNumThreads ws ctx"
    using Cons.prems by (auto simp: computeNumThreads_def intro!: sum_list_nonneg)
  with Cons show ?case by (simp add: computeNumThreads_def nat_add_distrib)
qed (simp add: computeNumThreads_def)

lemma spawnAll_Val:
  assumes "spawnAll ri lvl cmps opts s = (Val (), s')"
  shows "spawnWorkloads ri lvl (fld opts ''sessionOptions'') cmps (tmWorkloads s) (tmContext s) [] 0 (tmWorkloads s) s
           = (Val (), s')"
  using assms by (auto simp: spawnAll_def seqE_Val bindE_Val getE_def checkInitialized_def ret_def raise_def
      split: if_splits)

section \<open>Properties\<close>

text \<open>
  C3. Whatever the interleaving of workers and manager, no worker runs its workload before every thread
  has started or failed: once a worker is past the latch, or the manager has left its loop, the
  latch is exactly zero, no thread is still starting up, and the manager's list of failed threads
  is exactly the set of threads that failed.  And the error latch has been counted down exactly
  when some worker returned an error.
\<close>

theorem startup_barrier:
  assumes "reachable n s"
  shows "(pc s = Checked \<or> (\<exists>p \<in> set (phases s). pastLatch p) \<longrightarrow>
            latch s = 0 \<and> Spawned \<notin> set (phases s) \<and>
            set (failedThreadIndexes s) = {i. inPhase s i Failed}) \<and>
         (errorLatch s < int n \<longleftrightarrow> Returned False \<in> set (phases s))"
proof -
  have inv: "proto_inv n s" by (rule reachable_inv [OF assms])
  have mem: "(\<exists>p \<in> set (phases s). P p) \<longleftrightarrow> phaseSet P s \<noteq> {}" for P
    by (fastforce simp: phaseSet_def in_set_conv_nth)
  have "latch s = 0 \<and> Spawned \<notin> set (phases s) \<and> set (failedThreadIndexes s) = {i. inPhase s i Failed}"
    if "pc s = Checked \<or> (\<exists>p \<in> set (phases s). pastLatch p)"
  proof -
    have le: "latch s \<le> 0" using that inv mem [of pastLatch] by (auto simp: proto_inv_def)
    from proto_inv_accounted [OF inv] le mem [of "\<lambda>p. p = Spawned"] show ?thesis
      by (auto simp: phaseSet_def inPhase_def)
  qed
  moreover have "errorLatch s < int n \<longleftrightarrow> Returned False \<in> set (phases s)"
    using inv mem [of "\<lambda>p. p = Returned False"] by (auto simp: proto_inv_def card_gt_0_iff)
  ultimately show ?thesis by blast
qed

theorem startup_barrier_witness:
  "\<exists>s. reachable 1 s \<and> phases s = [Failed] \<and> pc s = Checked \<and> latch s = 0 \<and>
     set (failedThreadIndexes s) = {i. inPhase s i Failed}"
proof -
  define s1 where "s1 = setPhase 0 Failed (protocol_init 1)"
  define s2 where "s2 = s1\<lparr>pc := Polling 0\<rparr>"
  define s3 where "s3 = pollThread 0 s2"
  define s4 where "s4 = s3\<lparr>pc := Head\<rparr>"
  define s5 where "s5 = s4\<lparr>pc := Checked\<rparr>"
  note defs = s5_def s4_def s3_def s2_def s1_def protocol_init_def pollThread_def handleFailedThread_def
    setPhase_def inPhase_def
  have "step (protocol_init 1) s1" unfolding s1_def by (rule step.worker_throws) (simp add: defs)
  moreover have "step s1 s2" unfolding s2_def by (rule step.manager_again) (simp_all add: defs)
  moreover have "step s2 s3" unfolding s3_def by (rule step.manager_poll) (simp_all add: defs)
  moreover have "step s3 s4" unfolding s4_def by (rule step.manager_sleep [of _ 1]) (simp_all add: defs)
  moreover have "step s4 s5" unfolding s5_def by (rule step.manager_done) (simp_all add: defs)
  ultimately have r: "reachable 1 s5"
    unfolding reachable_def by (meson converse_rtranclp_into_rtranclp rtranclp.rtrancl_refl)
  moreover have "phases s5 = [Failed]" "pc s5 = Checked" by (simp_all add: defs)
  ultimately show ?thesis using startup_barrier [OF r] by blast
qed

text \<open>
  C13. The start-up never deadlocks: from every state the threads and the manager can get into, they can
  still reach one in which the manager has left its loop and every worker has returned or failed.
\<close>

theorem startup_never_stuck:
  assumes "reachable n s"
  shows "\<exists>t. steps s t \<and> pc t = Checked \<and> (\<forall>p \<in> set (phases t). p = Failed \<or> (\<exists>ok. p = Returned ok))"
proof -
  obtain t where t: "steps s t" "final t" using can_finish [OF reachable_inv [OF assms]] by blast
  have "phaseWeight p = 0 \<Longrightarrow> p = Failed \<or> (\<exists>ok. p = Returned ok)" for p by (cases p) auto
  then show ?thesis using t unfolding final_def by blast
qed

theorem startup_never_stuck_witness:
  "\<exists>t. steps (setPhase 0 Failed (protocol_init 2)) t \<and> pc t = Checked"
proof -
  have "step (protocol_init 2) (setPhase 0 Failed (protocol_init 2))"
    by (rule step.worker_throws) (simp add: inPhase_def protocol_init_def)
  then have "reachable 2 (setPhase 0 Failed (protocol_init 2))" by (auto simp: reachable_def)
  from startup_never_stuck [OF this] show ?thesis by blast
qed

text \<open>
  Initialisation with a positive maximum: when it succeeds the thread counts sum to at most the
  maximum, every workload keeps at least one thread and none gets more than it asked for, and both
  latches are set to the sum; and it does succeed whenever the requested threads fit, or every
  workload's share of the maximum is at least one thread.
\<close>

theorem tm_init_scales:
  assumes "distinct ws" and "\<forall>w \<in> set ws. 1 \<le> threadCount (ctx w)" and "0 < m"
  shows "(tm_init ws ctx (jnum m) s = (Val (), s') \<longrightarrow>
            numThreads s' = computeNumThreads ws (tmContext s') \<and> numThreads s' \<le> m \<and>
            tmLatch s' = numThreads s' \<and> tmErrorLatch s' = numThreads s' \<and> tmInitialized s' \<and>
            (\<forall>w \<in> set ws. 1 \<le> threadCount (tmContext s' w) \<and> threadCount (tmContext s' w) \<le> threadCount (ctx w))) \<and>
         (computeNumThreads ws ctx \<le> m \<or> (\<forall>w \<in> set ws. computeNumThreads ws ctx \<le> m * threadCount (ctx w)) \<longrightarrow>
            fst (tm_init ws ctx (jnum m) s) = Val ())"
proof -
  let ?c = "scaleContext ws ctx (Fin (of_int m))"
  note run = tm_init_run [OF assms(3), of ws ctx s]
  have "computeNumThreads ws ?c \<le> m"
    if "computeNumThreads ws ctx \<le> m \<or> (\<forall>w \<in> set ws. computeNumThreads ws ctx \<le> m * threadCount (ctx w))"
  proof (cases "computeNumThreads ws ctx \<le> m")
    case True
    then show ?thesis by (simp add: scaleContext_def Let_def)
  next
    case False
    then show ?thesis using scaled_sum_fits [OF assms(1,3), of ctx] that by simp
  qed
  then show ?thesis using scaleContext_bounds [OF assms] by (auto simp: run Let_def)
qed

definition exampleMgr :: "unit thread_mgr" where
  "exampleMgr = \<lparr>tmLatch = 0, tmErrorLatch = 0, numThreads = 0, tmInitialized = True, threads = [],
     tmWorkloads = [''a'', ''b''], tmContext = (\<lambda>w. \<lparr>threadCount = (if w = ''a'' then 2 else 1),
       iterationCount = 5, ctxData = JObj [], ctxDbName = ''db'', ctxCollName = ''coll''\<rparr>),
     tmCluster = exampleCluster\<rparr>"

theorem tm_init_scales_witness:
  "fst (tm_init [''a'', ''b''] (\<lambda>w. (tmContext exampleMgr w)\<lparr>threadCount := 30\<rparr>) (jnum 40) exampleMgr) = Val ()"
  using tm_init_scales [of "[''a'', ''b'']" "\<lambda>w. (tmContext exampleMgr w)\<lparr>threadCount := 30\<rparr>" 40 exampleMgr]
  by (simp add: computeNumThreads_def)

text \<open>
  The scaling does not always bring the counts under the maximum, as its comment says it does: each
  share is rounded up to one thread, so with two workloads of one thread and one of a thousand a
  maximum of a hundred is exceeded and initialisation fails.
\<close>

theorem tm_init_scaling_exceeds:
  "fst (tm_init [''a'', ''b'', ''c'']
     (\<lambda>w. (tmContext exampleMgr w)\<lparr>threadCount := if w = ''c'' then 1000 else 1\<rparr>) (jnum 100) exampleMgr) =
   Throw (AssertFail ''numThreads is greater than maxAllowedThreads'')"
proof -
  have "\<not> computeNumThreads [''a'', ''b'', ''c''] (scaleContext [''a'', ''b'', ''c'']
      (\<lambda>w. (tmContext exampleMgr w)\<lparr>threadCount := if w = ''c'' then 1000 else 1\<rparr>) (Fin (of_int 100))) \<le> 100"
    by code_simp
  then show ?thesis unfolding tm_init_run [OF zero_less_numeral] Let_def by simp
qed

text \<open>
  A spawn that returns has started exactly the threads the counts ask for, numbered from zero
  without gaps: each workload by itself gets as many threads as its count, in order.
\<close>

theorem spawnAll_threads:
  assumes "spawnAll ri lvl False opts s = (Val (), s')" and "threads s = []"
    and "\<forall>w \<in> set (tmWorkloads s). 0 \<le> threadCount (tmContext s w)"
  shows "map tid (threads s') = [0..<nat (computeNumThreads (tmWorkloads s) (tmContext s))] \<and>
    map tWorkloads (threads s') =
      concat (map (\<lambda>w. replicate (nat (threadCount (tmContext s w))) [w]) (tmWorkloads s))"
  using spawnWorkloads_Val [OF spawnAll_Val [OF assms(1)]] assms(2) nat_sum_threads [OF assms(3)] by auto

theorem spawnAll_threads_witness:
  "map tid (threads (snd (spawnAll (ret 7) ALWAYS False (JObj []) exampleMgr))) = [0, 1, 2]"
proof -
  have "fst (spawnAll (ret 7) ALWAYS False (JObj []) exampleMgr) = Val ()" by code_simp
  then have "spawnAll (ret 7) ALWAYS False (JObj []) exampleMgr =
      (Val (), snd (spawnAll (ret 7) ALWAYS False (JObj []) exampleMgr))" by (metis prod.collapse)
  from spawnAll_threads [OF this] show ?thesis by (simp add: exampleMgr_def computeNumThreads_def upt_rec)
qed

text \<open>
  In composed mode every thread loads all the workloads, but the data it is given only has the
  workloads up to the one it was spawned for: the threads of the first workload receive no data for
  the second one, neither what its setup stored nor its iteration and thread counts.
\<close>

theorem composed_threads_lack_data:
  assumes "spawnAll ri lvl True opts s = (Val (), s')" and "threads s = []"
    and "tmWorkloads s = w1 # w2 # rest" and "w1 \<noteq> w2" and "1 \<le> threadCount (tmContext s w1)"
  shows "\<exists>t \<in> set (threads s'). w2 \<in> set (tWorkloads t) \<and> map_of (tData t) w2 = None"
proof -
  let ?so = "fld opts ''sessionOptions''" and ?ctx = "tmContext s"
  let ?dat = "AList.update w1 (ctxData (?ctx w1)) []" and ?n = "nat (threadCount (?ctx w1))"
  obtain s1 where first: "spawnThreads ri lvl ?so (tmWorkloads s) (?ctx w1) ?dat ?n 0 s = (Val (), s1)"
    and others: "spawnWorkloads ri lvl ?so True (tmWorkloads s) ?ctx ?dat ?n (w2 # rest) s1 = (Val (), s')"
    using spawnAll_Val [OF assms(1)] assms(3) by (auto simp: seqE_Val Let_def simp del: spawnWorkloads.simps(2))
      (auto simp: seqE_Val Let_def)
  obtain ts where ts: "threads s1 = ts" "map tWorkloads ts = replicate ?n (tmWorkloads s)"
    "map tData ts = replicate ?n ?dat"
    using spawnThreads_Val [OF first] assms(2) by auto
  obtain m where m: "?n = Suc m" using assms(5) by (cases ?n) auto
  obtain t ts' where t: "ts = t # ts'" "tWorkloads t = tmWorkloads s" "tData t = ?dat"
    using ts(2,3) m by (cases ts) auto
  moreover have "set ts \<subseteq> set (threads s')" using spawnWorkloads_Val [OF others] ts(1) by auto
  ultimately show ?thesis using assms(3,4) by (intro bexI [of _ t]) auto
qed

theorem composed_threads_lack_data_witness:
  "\<exists>t \<in> set (threads (snd (spawnAll (ret 7) ALWAYS True (JObj []) exampleMgr))).
     ''b'' \<in> set (tWorkloads t) \<and> map_of (tData t) ''b'' = None"
proof -
  have "fst (spawnAll (ret 7) ALWAYS True (JObj []) exampleMgr) = Val ()" by code_simp
  then have "spawnAll (ret 7) ALWAYS True (JObj []) exampleMgr =
      (Val (), snd (spawnAll (ret 7) ALWAYS True (JObj []) exampleMgr))" by (metis prod.collapse)
  from composed_threads_lack_data [OF this] show ?thesis by (simp add: exampleMgr_def)
qed

end
