(* ===== verification/Worker.thy ===== *)
theory Worker
  imports Thread_Mgr
begin

text \<open>
  A worker thread, \<open>fsm_libs/worker_thread.js\<close>, and the two bodies the thread manager gives it
  (\<open>workerThread.fsm\<close> and \<open>workerThread.composed\<close> of \<open>fsm_libs/thread_mgr.js\<close>): connect, open a session,
  load the overrides, load and merge the configurations of the workloads, count the latch down,
  wait, run, and turn the outcome into a status object.  Connections, sessions and databases are
  the shell's, given by the record \<open>worker_ops\<close>; the order of the \<open>load\<close> calls is kept in the state.
\<close>

section \<open>State and parameters\<close>

record 'w worker =
  wLatch :: int
  wErrorLatch :: int
  wLoaded :: "string list"
  wTestData :: jsval
  wLevel :: assert_level
  wPrefix :: string
  wWorld :: 'w

record ('c, 's, 'd, 'w) worker_ops =
  opMongo :: "string \<Rightarrow> ('w, 'c) eff"
  opSecondaryReader :: "string \<Rightarrow> string option \<Rightarrow> ('w, 'c) eff"
  opStartSession :: "'c \<Rightarrow> jsval \<Rightarrow> ('w, 's) eff"
  opGetReadPreference :: "'s \<Rightarrow> ('w, jsval) eff"
  opSetReadPreference :: "'s \<Rightarrow> jsval \<Rightarrow> ('w, unit) eff"
  opIsCausalConsistency :: "'s \<Rightarrow> ('w, bool) eff"
  opAdvanceClusterTime :: "'s \<Rightarrow> jsval \<Rightarrow> ('w, unit) eff"
  opAdvanceOperationTime :: "'s \<Rightarrow> jsval \<Rightarrow> ('w, unit) eff"
  opGetDatabase :: "'s \<Rightarrow> string \<Rightarrow> ('w, 'd) eff"
  opGetDB :: "'c \<Rightarrow> string \<Rightarrow> ('w, 'd) eff"
  opRunCommand :: "'d \<Rightarrow> jsval \<Rightarrow> ('w, jsval) eff"
  opAdminCommand :: "'d \<Rightarrow> jsval \<Rightarrow> ('w, jsval) eff"
  opEval :: "string \<Rightarrow> ('w, jsval) eff"
  opLoadWorkload :: "string \<Rightarrow> ('w, jsval) eff"         \<comment> \<open>the \<open>$config\<close> a workload file defines\<close>
  opExtend :: "jsval \<Rightarrow> jsval \<Rightarrow> jsval"                   \<comment> \<open>\<open>Object.extend(dst, src, true)\<close>\<close>
  opAwait :: "('w, unit) eff"
  opSetRandomSeed :: "int \<Rightarrow> ('w, unit) eff"
  opToString :: "exn \<Rightarrow> string"
  opStack :: "exn \<Rightarrow> jsval"

text \<open>The entry of one workload in \<open>configs\<close>.\<close>

record 'd run_config =
  rcData :: jsval
  rcDb :: 'd
  rcCollName :: string
  rcCluster :: "cluster_hosts option"
  rcIterations :: jsval
  rcPassConnectionCache :: jsval
  rcStartState :: jsval
  rcStates :: jsval
  rcTransitions :: jsval

definition onWWorld :: "('w, 'a) eff \<Rightarrow> ('w worker, 'a) eff" where
  "onWWorld m = (\<lambda>s. case m (wWorld s) of (r, w) \<Rightarrow> (r, s\<lparr>wWorld := w\<rparr>))"

definition loadFile :: "string \<Rightarrow> ('w worker, unit) eff" where
  "loadFile f = modE (\<lambda>s. s\<lparr>wLoaded := wLoaded s @ [''jstests/libs/override_methods/'' @ f]\<rparr>)"

section \<open>Connecting\<close>

definition connectionString :: "thread_spec \<Rightarrow> string" where
  "connectionString args =
     ''mongodb://'' @ tHost args @ ''/?appName=tid:'' @ show_nat (tid args) @
     (case tReplSetName args of None \<Rightarrow> [] | Some n \<Rightarrow> ''&replicaSet='' @ n)"

text \<open>A time handed over as the text of an object: its value, and the options without it.\<close>

definition takeTime ::
  "('c, 's, 'd, 'w) worker_ops \<Rightarrow> string \<Rightarrow> jsval \<Rightarrow> ('w worker, jsval \<times> jsval) eff" where
  "takeTime ops k sessionOptions =
     (case fld sessionOptions k of
        JStr t \<Rightarrow> bindE (onWWorld (opEval ops (''('' @ t @ '')''))) (\<lambda>v. ret (v, del_prop k sessionOptions))
      | _ \<Rightarrow> ret (Undef, sessionOptions))"

definition openSession ::
  "('c, 's, 'd, 'w) worker_ops \<Rightarrow> thread_spec \<Rightarrow> 'c \<Rightarrow> ('w worker, 'd) eff" where
  "openSession ops args mongo =
     bindE (takeTime ops ''initialClusterTime'' (tSessionOptions args)) (\<lambda>(initialClusterTime, so).
     bindE (takeTime ops ''initialOperationTime'' so) (\<lambda>(initialOperationTime, so).
     bindE (onWWorld (opStartSession ops mongo so)) (\<lambda>session.
     bindE (onWWorld (opGetReadPreference ops session)) (\<lambda>readPreference.
     seqE (if truthy readPreference \<and> fld readPreference ''mode'' = JStr ''secondary''
           then seqE (onWWorld (opSetReadPreference ops session Undef))
               (seqE (loadFile ''set_read_preference_secondary.js'')
               (bindE (onWWorld (opIsCausalConsistency ops session)) (\<lambda>causal.
                if causal then loadFile ''causally_consistent_index_builds.js'' else ret ())))
           else ret ())
    (seqE (if initialClusterTime \<noteq> Undef then onWWorld (opAdvanceClusterTime ops session initialClusterTime)
           else ret ())
    (seqE (if initialOperationTime \<noteq> Undef then onWWorld (opAdvanceOperationTime ops session initialOperationTime)
           else ret ())
    (onWWorld (opGetDatabase ops session (tDbName args)))))))))"

definition openDatabase ::
  "('c, 's, 'd, 'w) worker_ops \<Rightarrow> thread_spec \<Rightarrow> ('w worker, 'd) eff" where
  "openDatabase ops args =
     bindE (getE wTestData) (\<lambda>td.
     bindE (onWWorld (if truthy (fld td ''pinningSecondary'')
                      then opSecondaryReader ops (connectionString args) (tSecondaryHost args)
                      else opMongo ops (connectionString args))) (\<lambda>mongo.
     seqE (loadFile ''implicitly_retry_on_background_op_in_progress.js'')
       (if tSessionOptions args \<noteq> Undef then openSession ops args mongo
        else onWWorld (opGetDB ops mongo (tDbName args)))))"

text \<open>The prefix of everything the thread prints; the connection is named unless the cluster is sharded.\<close>

definition describeConnection ::
  "('c, 's, 'd, 'w) worker_ops \<Rightarrow> shell \<Rightarrow> jsval \<Rightarrow> thread_spec \<Rightarrow> 'd \<Rightarrow> ('w worker, unit) eff" where
  "describeConnection ops sh clusterOptions args myDB =
     bindE
       (if \<not> isSharded clusterOptions
        then bindE (onWWorld (opRunCommand ops myDB (JObj [(''whatsmyuri'', jnum 1)]))) (\<lambda>res.
             seqE (checkE (commandWorked sh res))
            (bindE (onWWorld (opAdminCommand ops myDB
                 (JObj [(''currentOp'', jnum 1), (''client'', fld res ''you'')]))) (\<lambda>res'.
             seqE (checkE (commandWorked sh res'))
               (case arr_elems (fld res' ''inprog'') of
                  [] \<Rightarrow> raise (TypeErr ''res.inprog[0] is undefined'')
                | op # _ \<Rightarrow> ret ('', conn:'' @ to_str (fld op ''desc''))))))
        else ret []) (\<lambda>connectionDesc.
     modE (\<lambda>s. s\<lparr>wPrefix := ''[tid:'' @ show_nat (tid args) @ connectionDesc @ '']''\<rparr>))"

section \<open>Overrides\<close>

definition stepdownTestData :: "jsval \<Rightarrow> jsval" where
  "stepdownTestData td =
     obj_assign td (JObj [(''alwaysInjectTransactionNumber'', JBool True),
       (''defaultReadConcernLevel'', JStr ''majority''), (''logRetryAttempts'', JBool True),
       (''overrideRetryAttempts'', jnum 3)])"

definition loadOverrides :: "jsval \<Rightarrow> ('w worker, unit) eff" where
  "loadOverrides clusterOptions =
     seqE
       (if isReplication clusterOptions
        then seqE
          (if has_own clusterOptions ''sharded'' \<and> has_own (fld clusterOptions ''sharded'') ''stepdownOptions'' \<and>
              truthy (fld (fld (fld clusterOptions ''sharded'') ''stepdownOptions'') ''shardStepdown'')
           then seqE (modE (\<lambda>s. s\<lparr>wTestData := stepdownTestData (wTestData s)\<rparr>))
               (bindE (getE wTestData) (\<lambda>td.
                seqE (assertE (\<not> has_own td ''networkErrorAndTxnOverrideConfig'') ''TestData'')
               (seqE (modE (\<lambda>s. s\<lparr>wTestData := set_prop ''networkErrorAndTxnOverrideConfig''
                                   (JObj [(''retryOnNetworkErrors'', JBool True)]) (wTestData s)\<rparr>))
                  (loadFile ''network_error_and_txn_override.js''))))
           else ret ())
          (loadFile ''implicitly_retry_on_database_drop_pending.js'')
        else ret ())
    (bindE (getE wTestData) (\<lambda>td.
       if truthy (fld td ''defaultReadConcernLevel'') \<or> truthy (fld td ''defaultWriteConcern'')
       then loadFile ''set_read_and_write_concerns.js'' else ret ()))"

section \<open>Workload configurations\<close>

text \<open>
  The data of a workload: what its setup left, overwritten by the freshly loaded \<open>$config.data\<close>, with
  \<open>iterations\<close> and \<open>threadCount\<close> made own properties and \<open>tid\<close> added.
\<close>

definition mergeData :: "('c, 's, 'd, 'w) worker_ops \<Rightarrow> thread_spec \<Rightarrow> string \<Rightarrow> jsval \<Rightarrow> jsval" where
  "mergeData ops args workload config =
     (let data = opExtend ops (JObj []) (case map_of (tData args) workload of None \<Rightarrow> Undef | Some d \<Rightarrow> d);
          data = opExtend ops data (fld config ''data'');
          data = set_prop ''iterations'' (fld data ''iterations'') data;
          data = set_prop ''threadCount'' (fld data ''threadCount'') data
      in set_prop ''tid'' (jnum (int (tid args))) data)"

definition loadConfig ::
  "('c, 's, 'd, 'w) worker_ops \<Rightarrow> thread_spec \<Rightarrow> 'd \<Rightarrow> string \<Rightarrow> ('w worker, string \<times> 'd run_config) eff" where
  "loadConfig ops args myDB workload =
     bindE (onWWorld (opLoadWorkload ops workload)) (\<lambda>raw.
     bindE (liftE (parseConfig raw)) (\<lambda>config.
     let data = mergeData ops args workload config in
     ret (workload, \<lparr>rcData = data, rcDb = myDB, rcCollName = tCollName args, rcCluster = tCluster args,
       rcIterations = fld data ''iterations'', rcPassConnectionCache = fld config ''passConnectionCache'',
       rcStartState = fld config ''startState'', rcStates = fld config ''states'',
       rcTransitions = fld config ''transitions''\<rparr>)))"

section \<open>main\<close>

definition errorStatus :: "('c, 's, 'd, 'w) worker_ops \<Rightarrow> thread_spec \<Rightarrow> exn \<Rightarrow> jsval" where
  "errorStatus ops args e =
     JObj [(''ok'', jnum 0), (''err'', JStr (opToString ops e)), (''stack'', opStack ops e),
           (''tid'', jnum (int (tid args))), (''workloads'', JArr (map JStr (tWorkloads args)))]"

text \<open>Everything before the latch is counted down.\<close>

definition prepareWorker ::
  "('c, 's, 'd, 'w) worker_ops \<Rightarrow> shell \<Rightarrow> jsval \<Rightarrow> thread_spec \<Rightarrow> ('w worker, (string \<times> 'd run_config) list) eff" where
  "prepareWorker ops sh clusterOptions args =
     seqE (modE (\<lambda>s. s\<lparr>wLevel := tAssertLevel args,
                        wTestData := (if wTestData s \<noteq> Undef then wTestData s else JObj [])\<rparr>))
    (bindE (openDatabase ops args) (\<lambda>myDB.
     seqE (describeConnection ops sh clusterOptions args myDB)
    (seqE (loadOverrides clusterOptions)
    (mapE (loadConfig ops args myDB) (tWorkloads args)))))"

text \<open>Everything after it: an exception is turned into a status.\<close>

definition runWorker ::
  "('c, 's, 'd, 'w) worker_ops \<Rightarrow> thread_spec \<Rightarrow> ((string \<times> 'd run_config) list \<Rightarrow> ('w, unit) eff) \<Rightarrow>
   (string \<times> 'd run_config) list \<Rightarrow> ('w worker, jsval) eff" where
  "runWorker ops args run configs =
     tryCatch
       (seqE (onWWorld (opAwait ops))
       (seqE (onWWorld (opSetRandomSeed ops (tSeed args)))
       (seqE (onWWorld (run configs)) (ret (JObj [(''ok'', jnum 1)])))))
       (\<lambda>e. seqE (modE (\<lambda>s. s\<lparr>wErrorLatch := wErrorLatch s - 1\<rparr>)) (ret (errorStatus ops args e)))"

definition worker_main ::
  "('c, 's, 'd, 'w) worker_ops \<Rightarrow> shell \<Rightarrow> jsval \<Rightarrow> thread_spec \<Rightarrow>
   ((string \<times> 'd run_config) list \<Rightarrow> ('w, unit) eff) \<Rightarrow> ('w worker, jsval) eff" where
  "worker_main ops sh clusterOptions args run =
     bindE (prepareWorker ops sh clusterOptions args) (\<lambda>configs.
     seqE (modE (\<lambda>s. s\<lparr>wLatch := wLatch s - 1\<rparr>))
       (runWorker ops args run configs))"

definition workerThread_fsm ::
  "('c, 's, 'd, 'w) worker_ops \<Rightarrow> shell \<Rightarrow> jsval \<Rightarrow> thread_spec \<Rightarrow> ('d run_config \<Rightarrow> ('w, unit) eff) \<Rightarrow>
   ('w worker, jsval) eff" where
  "workerThread_fsm ops sh clusterOptions args fsmRun =
     worker_main ops sh clusterOptions args (\<lambda>configs.
       case configs of
         [(workload, config)] \<Rightarrow> fsmRun config
       | _ \<Rightarrow> raise (AssertFail ''expected one workload''))"

definition workerThread_composed ::
  "('c, 's, 'd, 'w) worker_ops \<Rightarrow> shell \<Rightarrow> jsval \<Rightarrow> thread_spec \<Rightarrow>
   (string list \<Rightarrow> (string \<times> 'd run_config) list \<Rightarrow> jsval \<Rightarrow> ('w, unit) eff) \<Rightarrow> jsval \<Rightarrow> ('w worker, jsval) eff" where
  "workerThread_composed ops sh clusterOptions args composerRun options =
     worker_main ops sh clusterOptions args (\<lambda>configs. composerRun (tWorkloads args) configs options)"

section \<open>Lemmas\<close>

text \<open>The latches, which only two lines of \<open>main\<close> touch.\<close>

definition latches :: "int \<Rightarrow> int \<Rightarrow> 'w worker \<Rightarrow> bool" where
  "latches l e s \<longleftrightarrow> wLatch s = l \<and> wErrorLatch s = e"

lemma keeps_onWWorld [keeps_rules]: "keeps (latches l e) (onWWorld m)"
  by (simp add: keeps_def latches_def onWWorld_def split: prod.split)

lemma keeps_loadFile [keeps_rules]: "keeps (latches l e) (loadFile f)"
  by (simp add: keeps_def latches_def loadFile_def modE_def)

lemma keeps_takeTime: "keeps (latches l e) (takeTime ops k so)"
  by (auto simp: takeTime_def intro!: keeps_rules split: jsval.split)

lemma keeps_openDatabase: "keeps (latches l e) (openDatabase ops args)"
proof -
  have "keeps (latches l e) (openSession ops args m)" for m
    unfolding openSession_def
    by (intro keeps_bindE keeps_takeTime) (auto intro!: keeps_rules keeps_takeTime split: prod.split)
  then show ?thesis unfolding openDatabase_def by (auto intro!: keeps_rules)
qed

lemma keeps_describeConnection: "keeps (latches l e) (describeConnection ops sh co args d)"
  unfolding describeConnection_def by (auto intro!: keeps_rules simp: latches_def split: list.split)

lemma keeps_loadOverrides: "keeps (latches l e) (loadOverrides co)"
  unfolding loadOverrides_def by (intro keeps_rules) (simp_all add: latches_def)

lemma keeps_prepareWorker: "keeps (latches l e) (prepareWorker ops sh co args)"
  unfolding prepareWorker_def loadConfig_def Let_def
  by (intro keeps_rules keeps_openDatabase keeps_describeConnection keeps_loadOverrides)
    (simp_all add: latches_def)

lemma runWorker_status:
  "case runWorker ops args run configs s of
     (Val v, s') \<Rightarrow> wLatch s' = wLatch s \<and>
       (v = JObj [(''ok'', jnum 1)] \<and> wErrorLatch s' = wErrorLatch s \<or>
        (\<exists>e. v = errorStatus ops args e) \<and> wErrorLatch s' = wErrorLatch s - 1)
   | (Throw e, s') \<Rightarrow> False
   | (Diverge, s') \<Rightarrow> True"
  by (auto simp: runWorker_def tryCatch_def seqE_def bindE_def modE_def ret_def onWWorld_def
      split: prod.splits outcome.splits)

section \<open>Properties\<close>

text \<open>
  C15. A worker counts the start latch down exactly when it gets ready: if it returns a status it has
  counted the latch down once, and the error latch once exactly when the status is an error with
  its thread id; if it throws it has counted neither, so the manager may do so on its behalf.
\<close>

theorem worker_latch_discipline:
  "case worker_main ops sh co args run s of
     (Val v, s') \<Rightarrow> wLatch s' = wLatch s - 1 \<and>
       (v = JObj [(''ok'', jnum 1)] \<and> wErrorLatch s' = wErrorLatch s \<or>
        (\<exists>e. v = errorStatus ops args e) \<and> wErrorLatch s' = wErrorLatch s - 1)
   | (Throw e, s') \<Rightarrow> wLatch s' = wLatch s \<and> wErrorLatch s' = wErrorLatch s
   | (Diverge, s') \<Rightarrow> True"
proof -
  have kept: "latches (wLatch s) (wErrorLatch s) (snd (prepareWorker ops sh co args s))"
    by (rule keepsD [OF keeps_prepareWorker]) (simp add: latches_def)
  show ?thesis
  proof (cases "prepareWorker ops sh co args s"; cases "fst (prepareWorker ops sh co args s)")
    fix r s1 configs
    assume p: "prepareWorker ops sh co args s = (r, s1)" "fst (prepareWorker ops sh co args s) = Val configs"
    have "worker_main ops sh co args run s = runWorker ops args run configs (s1\<lparr>wLatch := wLatch s1 - 1\<rparr>)"
      using p by (simp add: worker_main_def bindE_def seqE_def modE_def)
    then show ?thesis
      using runWorker_status [where ops = ops and args = args and run = run and configs = configs
        and s = "s1\<lparr>wLatch := wLatch s1 - 1\<rparr>"] kept p
      by (auto simp: latches_def split: prod.splits outcome.splits)
  qed (use kept in \<open>auto simp: worker_main_def bindE_def latches_def\<close>)
qed

end
