(* ===== verification/Runner.thy ===== *)
theory Runner
  imports Runner_Options Schedule Worker
begin

text \<open>
  The runner of the concurrency suite, \<open>fsm_libs/runner.js\<close> with \<open>fsm_utils/name_utils.js\<close>: names for
  databases and collections, preparation and clean-up of the data of a group of workloads, the
  report of failures, the run of a group and of a whole schedule.  The functions of the workloads
  and what the shell does outside are the record \<open>runner_env\<close>.  The fields \<open>cleanup\<close>, \<open>rErrors\<close> and
  \<open>configServerData\<close> are the lists the code mutates; \<open>rCleaned\<close> is a history of the calls of
  \<open>cleanupWorkload\<close>, which the code does not keep.
\<close>

section \<open>State\<close>

record workload_failure =
  wfErr :: string
  wfStack :: string
  wfTid :: jsval
  wfHeader :: string

record 'w runner_state =
  rMgr :: "'w thread_mgr"
  rErrors :: "workload_failure list"
  configServerData :: "jsval list"
  cleanup :: "string list"
  rCleaned :: "string list"
  rLevel :: assert_level
  dbCounter :: nat
  collCounter :: nat

record ('c, 'w) runner_env =
  clEnv :: "('c, 'w) cluster_env"
  setupFn :: "string \<Rightarrow> jsval \<Rightarrow> string \<Rightarrow> string \<Rightarrow> ('w cluster, jsval) eff"
  teardownFn :: "string \<Rightarrow> jsval \<Rightarrow> string \<Rightarrow> string \<Rightarrow> ('w cluster, jsval) eff"
  dropCollection :: "string \<Rightarrow> string \<Rightarrow> ('w, unit) eff"
  dropDatabase :: "string \<Rightarrow> ('w, jsval) eff"
  seedInt :: "('w, int) eff"
  countFailed :: "('w, nat) eff"          \<comment> \<open>how many threads failed when the loop of \<open>checkFailed\<close> ends\<close>
  joinThread :: "thread_spec \<Rightarrow> ('w, jsval) eff"
  sessionTimes :: "('w, string \<times> string) eff"
  loadWorkload :: "string \<Rightarrow> ('w, jsval) eff"
  exnString :: "exn \<Rightarrow> string"
  exnStack :: "exn \<Rightarrow> string"
  stringify :: "jsval list \<Rightarrow> string"
  errStackLength :: "string \<Rightarrow> nat"
  shuffle :: "('w, string) shuffler"

definition onMgr :: "('w thread_mgr, 'a) eff \<Rightarrow> ('w runner_state, 'a) eff" where
  "onMgr m = (\<lambda>s. case m (rMgr s) of (r, t) \<Rightarrow> (r, s\<lparr>rMgr := t\<rparr>))"

abbreviation onCl :: "('w cluster, 'a) eff \<Rightarrow> ('w runner_state, 'a) eff" where
  "onCl m \<equiv> onMgr (onCluster m)"

abbreviation onW :: "('w, 'a) eff \<Rightarrow> ('w runner_state, 'a) eff" where
  "onW m \<equiv> onMgr (onCluster (onClWorld m))"

abbreviation rOptions :: "'w runner_state \<Rightarrow> jsval" where
  "rOptions s \<equiv> clOptions (tmCluster (rMgr s))"

definition updateCtx :: "string \<Rightarrow> (workload_ctx \<Rightarrow> workload_ctx) \<Rightarrow> ('w runner_state, unit) eff" where
  "updateCtx workload f =
     onMgr (modE (\<lambda>t. t\<lparr>tmContext := (tmContext t)(workload := f (tmContext t workload))\<rparr>))"

definition getCtx :: "string \<Rightarrow> ('w runner_state, workload_ctx) eff" where
  "getCtx workload = onMgr (getE (\<lambda>t. tmContext t workload))"

section \<open>Names\<close>

definition uniqueDBName :: "string \<Rightarrow> ('w runner_state, string) eff" where
  "uniqueDBName dbNamePrefix =
     bindE (getE dbCounter) (\<lambda>i.
     seqE (modE (\<lambda>s. s\<lparr>dbCounter := Suc i\<rparr>)) (ret (dbNamePrefix @ ''fsmdb'' @ show_nat i)))"

definition uniqueCollName :: "('w runner_state, string) eff" where
  "uniqueCollName =
     bindE (getE collCounter) (\<lambda>i.
     seqE (modE (\<lambda>s. s\<lparr>collCounter := Suc i\<rparr>)) (ret (''fsmcoll'' @ show_nat i)))"

section \<open>Data of a group\<close>

text \<open>
  The namespace of one workload, given that of the one before it (\<open>None\<close> for the first); the result
  is the namespace the next one may share.
\<close>

definition chooseNamespace ::
  "bool \<Rightarrow> bool \<Rightarrow> string \<Rightarrow> (string \<times> string) option \<Rightarrow> ('w runner_state, string \<times> string) eff" where
  "chooseNamespace sameCollection sameDB dbNamePrefix prev =
     (case prev of
        Some (dbName, collName) \<Rightarrow>
          if sameCollection then ret (dbName, collName)
          else bindE (if sameDB then ret dbName else uniqueDBName dbNamePrefix) (\<lambda>d.
               bindE uniqueCollName (\<lambda>c. ret (d, c)))
      | None \<Rightarrow> bindE (uniqueDBName dbNamePrefix) (\<lambda>d. bindE uniqueCollName (\<lambda>c. ret (d, c))))"

definition createNamespace ::
  "('c, 'w) runner_env \<Rightarrow> bool \<Rightarrow> workload_ctx \<Rightarrow> string \<Rightarrow> string \<Rightarrow> ('w runner_state, unit) eff" where
  "createNamespace env sharded ctx dbName collName =
     bindE (onCl (getDB dbName)) (\<lambda>_.
     seqE (onW (dropCollection env dbName collName))
       (if sharded
        then onCl (shardCollection (clEnv env) dbName collName
               (js_or (fld (ctxData ctx) ''shardKey'') (JObj [(''_id'', JStr ''hashed'')])))
        else ret ()))"

definition prepareWorkload ::
  "('c, 'w) runner_env \<Rightarrow> bool \<Rightarrow> bool \<Rightarrow> string \<Rightarrow> (string \<times> string) option \<Rightarrow> string \<Rightarrow>
   ('w runner_state, string \<times> string) eff" where
  "prepareWorkload env sameCollection sameDB dbNamePrefix prev workload =
     bindE (getE (\<lambda>s. isSharded (rOptions s))) (\<lambda>sharded.
     bindE (getCtx workload) (\<lambda>ctx.
     if sameCollection \<and> sharded \<and> truthy (fld (ctxData ctx) ''shardKey'')
     then raise (Err ''cannot specify a shardKey with sameCollection option'')
     else
       bindE (chooseNamespace sameCollection sameDB dbNamePrefix prev) (\<lambda>(dbName, collName).
       seqE (if prev = None \<or> \<not> sameCollection then createNamespace env sharded ctx dbName collName
             else ret ())
      (seqE (updateCtx workload (\<lambda>c. c\<lparr>ctxDbName := dbName, ctxCollName := collName\<rparr>))
         (ret (dbName, collName))))))"

fun prepareEach ::
  "('c, 'w) runner_env \<Rightarrow> bool \<Rightarrow> bool \<Rightarrow> string \<Rightarrow> (string \<times> string) option \<Rightarrow> string list \<Rightarrow>
   ('w runner_state, unit) eff" where
  "prepareEach env sameCollection sameDB dbNamePrefix prev [] = ret ()"
| "prepareEach env sameCollection sameDB dbNamePrefix prev (workload # rest) =
     bindE (prepareWorkload env sameCollection sameDB dbNamePrefix prev workload) (\<lambda>ns.
     prepareEach env sameCollection sameDB dbNamePrefix (Some ns) rest)"

definition prepareCollections ::
  "('c, 'w) runner_env \<Rightarrow> string list \<Rightarrow> jsval \<Rightarrow> jsval \<Rightarrow> ('w runner_state, unit) eff" where
  "prepareCollections env workloads clusterOptions executionOptions =
     prepareEach env (truthy (fld clusterOptions ''sameCollection'')) (truthy (fld clusterOptions ''sameDB''))
       (to_str (fld executionOptions ''dbNamePrefix'')) None workloads"

definition dropAllDatabases :: "('c, 'w) runner_env \<Rightarrow> string list \<Rightarrow> ('w runner_state, unit) eff" where
  "dropAllDatabases env blacklist =
     bindE (onCl (getDB ''test'')) (\<lambda>(host, _).
     bindE (onW (adminCommandOn (clEnv env) host (JStr ''listDatabases''))) (\<lambda>res.
     seqE (checkE (commandWorked (envShell (clEnv env)) res))
       (forEachE (\<lambda>dbInfo. let name = to_str (fld dbInfo ''name'') in
          if name \<notin> set blacklist
          then bindE (onW (dropDatabase env name)) (\<lambda>res.
               seqE (checkE (commandWorked (envShell (clEnv env)) res))
                 (assertE (fld res ''dropped'' = JStr name) ''dropped''))
          else ret ()) (arr_elems (fld res ''databases'')))))"

definition cleanupWorkloadData ::
  "('c, 'w) runner_env \<Rightarrow> string list \<Rightarrow> jsval \<Rightarrow> ('w runner_state, unit) eff" where
  "cleanupWorkloadData env workloads clusterOptions =
     seqE (if \<not> truthy (fld clusterOptions ''sameCollection'')
           then forEachE (\<lambda>w. bindE (getCtx w) (\<lambda>c. onW (dropCollection env (ctxDbName c) (ctxCollName c)))) workloads
           else ret ())
       (if \<not> truthy (fld clusterOptions ''sameDB'')
        then forEachE (\<lambda>w. bindE (getCtx w) (\<lambda>c. bindE (onW (dropDatabase env (ctxDbName c))) (\<lambda>_. ret ()))) workloads
        else ret ())"

section \<open>The report of failures\<close>

definition format_failure :: "workload_failure \<Rightarrow> string" where
  "format_failure f = wfHeader f @ ''\<newline>'' @ wfErr f @ ''\<newline>\<newline>'' @ wfStack f"

record trace_count =
  tcValue :: string
  tcTids :: "jsval list"       \<comment> \<open>a set, in the order of insertion\<close>

definition addTid :: "jsval \<Rightarrow> jsval list \<Rightarrow> jsval list" where
  "addTid t ts = (if t \<in> set ts then ts else ts @ [t])"

fun countTrace :: "string \<Rightarrow> jsval \<Rightarrow> trace_count list \<Rightarrow> trace_count list" where
  "countTrace item t [] = [\<lparr>tcValue = item, tcTids = [t]\<rparr>]"
| "countTrace item t (c # cs) =
     (if tcValue c = item then c\<lparr>tcTids := addTid t (tcTids c)\<rparr> # cs else c # countTrace item t cs)"

definition freqCount :: "string list \<Rightarrow> jsval list \<Rightarrow> trace_count list" where
  "freqCount stackTraces tids = fold (\<lambda>(item, t). countTrace item t) (zip stackTraces tids) []"

definition tcFreq :: "trace_count \<Rightarrow> nat" where
  "tcFreq c = length (tcTids c)"

fun joinStr :: "string \<Rightarrow> string list \<Rightarrow> string" where
  "joinStr sep [] = []"
| "joinStr sep [x] = x"
| "joinStr sep (x # xs) = x @ sep @ joinStr sep xs"

definition indent :: "string \<Rightarrow> nat \<Rightarrow> string" where
  "indent str n = (let prefix = replicate n (CHR '' '')
     in prefix @ joinStr (CHR ''\<newline>'' # prefix) (splitOn (CHR ''\<newline>'') str))"

definition pluralize :: "string \<Rightarrow> nat \<Rightarrow> string" where
  "pluralize str num = show_nat num @ '' '' @ str @ (if num > 1 then ''s'' else [])"

definition prepareMsg :: "(jsval list \<Rightarrow> string) \<Rightarrow> workload_failure list \<Rightarrow> string" where
  "prepareMsg toJson workerErrs =
     (let stackTraces = map format_failure workerErrs;
          stackTids = map wfTid workerErrs;
          uniqueTraces = freqCount stackTraces stackTids
      in case uniqueTraces of
           [t] \<Rightarrow> pluralize ''thread'' (length stackTraces) @ '' with tids '' @ toJson stackTids @
                  '' threw\<newline>\<newline>'' @ indent (tcValue t) 8
         | _ \<Rightarrow> pluralize ''exception'' (length stackTraces) @ '' were thrown, '' @
                show_nat (length uniqueTraces) @ '' of which were unique:\<newline>\<newline>'' @
                joinStr ''\<newline>\<newline>'' (map (\<lambda>t. indent
                  (pluralize ''thread'' (tcFreq t) @ '' with tids '' @ toJson (tcTids t) @ '' threw\<newline>'' @ tcValue t) 8)
                  uniqueTraces))"

definition throwError :: "('c, 'w) runner_env \<Rightarrow> workload_failure list \<Rightarrow> ('s, unit) eff" where
  "throwError env workerErrs =
     (if workerErrs \<noteq> []
      then let message = prepareMsg (stringify env) workerErrs @ ''\<newline>'' in
           if length message + errStackLength env message \<ge> 10 * 1024
           then raise (Err ''stack traces would have been snipped, see logs'')
           else raise (Err message)
      else ret ())"

section \<open>Workloads\<close>

definition setupWorkload :: "('c, 'w) runner_env \<Rightarrow> string \<Rightarrow> ('w runner_state, unit) eff" where
  "setupWorkload env workload =
     bindE (getCtx workload) (\<lambda>c.
     bindE (onCl (setupFn env workload (ctxData c) (ctxDbName c) (ctxCollName c))) (\<lambda>d.
     updateCtx workload (\<lambda>c. c\<lparr>ctxData := d\<rparr>)))"

definition teardownWorkload :: "('c, 'w) runner_env \<Rightarrow> string \<Rightarrow> ('w runner_state, unit) eff" where
  "teardownWorkload env workload =
     bindE (getCtx workload) (\<lambda>c.
     bindE (onCl (teardownFn env workload (ctxData c) (ctxDbName c) (ctxCollName c))) (\<lambda>d.
     updateCtx workload (\<lambda>c. c\<lparr>ctxData := d\<rparr>)))"

definition setIterations :: "workload_ctx \<Rightarrow> workload_ctx" where
  "setIterations c = c\<lparr>ctxData := set_prop ''iterations'' (jnum (iterationCount c)) (ctxData c)\<rparr>"

definition setThreadCount :: "workload_ctx \<Rightarrow> workload_ctx" where
  "setThreadCount c = c\<lparr>ctxData := set_prop ''threadCount'' (jnum (threadCount c)) (ctxData c)\<rparr>"

fun int_of :: "jsval \<Rightarrow> int" where
  "int_of (JNum (Fin q)) = \<lfloor>q\<rfloor>"
| "int_of _ = 0"

text \<open>A parsed configuration as the context of its workload; both counts are integers after \<open>parseConfig\<close>.\<close>

definition contextOf :: "jsval \<Rightarrow> jsval \<Rightarrow> bool \<Rightarrow> workload_ctx" where
  "contextOf config executionOptions applyMultipliers =
     (let im = (if applyMultipliers then int_of (fld executionOptions ''iterationMultiplier'') else 1);
          tm = (if applyMultipliers then int_of (fld executionOptions ''threadMultiplier'') else 1)
      in \<lparr>threadCount = int_of (fld config ''threadCount'') * tm,
          iterationCount = int_of (fld config ''iterations'') * im,
          ctxData = fld config ''data'', ctxDbName = [], ctxCollName = []\<rparr>)"

definition loadWorkloadContext ::
  "('c, 'w) runner_env \<Rightarrow> string list \<Rightarrow> jsval \<Rightarrow> bool \<Rightarrow> ('w runner_state, unit) eff" where
  "loadWorkloadContext env workloads executionOptions applyMultipliers =
     forEachE (\<lambda>workload.
       bindE (onW (loadWorkload env workload)) (\<lambda>config.
       seqE (assertE (typeof config \<noteq> ''undefined'') (''$config was not defined by '' @ workload))
      (bindE (liftE (parseConfig config)) (\<lambda>parsed.
       updateCtx workload (\<lambda>_. contextOf parsed executionOptions applyMultipliers))))) workloads"

definition pushError :: "('c, 'w) runner_env \<Rightarrow> string \<Rightarrow> exn \<Rightarrow> ('w runner_state, unit) eff" where
  "pushError env header e =
     modE (\<lambda>s. s\<lparr>rErrors := rErrors s @ [\<lparr>wfErr = exnString env e, wfStack = exnStack env e,
                                             wfTid = JStr ''main'', wfHeader = header\<rparr>]\<rparr>)"

text \<open>One guarded step of a clean-up: whether it succeeded.\<close>

definition guarded :: "('c, 'w) runner_env \<Rightarrow> string \<Rightarrow> ('w runner_state, unit) eff \<Rightarrow> ('w runner_state, bool) eff" where
  "guarded env header m = tryCatch (seqE m (ret True)) (\<lambda>e. seqE (pushError env header e) (ret False))"

definition cleanupWorkload ::
  "('c, 'w) runner_env \<Rightarrow> string \<Rightarrow> string list \<Rightarrow> jsval \<Rightarrow> string \<Rightarrow> ('w runner_state, bool) eff" where
  "cleanupWorkload env header dbHashBlacklist cleanupOptions workload =
     (let phase = ''before workload '' @ workload @ '' teardown'' in
      seqE (modE (\<lambda>s. s\<lparr>rCleaned := rCleaned s @ [workload]\<rparr>))
     (bindE (guarded env (header @ '' checking consistency on secondaries'')
               (onCl (checkReplicationConsistency (clEnv env) dbHashBlacklist phase))) (\<lambda>ok.
      if \<not> ok then ret False else
      bindE (guarded env (header @ '' validating collections'')
               (if truthy (fld cleanupOptions ''validateCollections'')
                then onCl (validateAllCollections (clEnv env)) else ret ())) (\<lambda>ok.
      if \<not> ok then ret False else
      guarded env (header @ '' Teardown'') (teardownWorkload env workload)))))"

definition configDataLength :: nat where
  "configDataLength = 3"

definition recordConfigServerData ::
  "('c, 'w) runner_env \<Rightarrow> string list \<Rightarrow> ('w runner_state, unit) eff" where
  "recordConfigServerData env workloads =
     bindE (getE (\<lambda>s. isSharded (rOptions s))) (\<lambda>sharded.
       if \<not> sharded then ret ()
       else bindE (tryCatch (bindE (onCl (recordAllConfigServerData (clEnv env))) (\<lambda>d. ret (Some d)))
                     (\<lambda>e. seqE (pushError env ''Config Server Data Collection'' e) (ret None))) (\<lambda>newData.
            case newData of
              None \<Rightarrow> ret ()
            | Some d \<Rightarrow>
                modE (\<lambda>s. let ds = configServerData s @ [set_prop ''previousWorkloads'' (JArr (map JStr workloads)) d]
                          in s\<lparr>configServerData := drop (length ds - configDataLength) ds\<rparr>)))"

section \<open>A group of workloads\<close>

definition tm_checkFailed :: "('c, 'w) runner_env \<Rightarrow> rat \<Rightarrow> ('w thread_mgr, unit) eff" where
  "tm_checkFailed env allowedFailurePercent =
     seqE checkInitialized
    (bindE (onCluster (onClWorld (countFailed env))) (\<lambda>failed.
     bindE (getE threads) (\<lambda>ts. liftE (checkFailedVerdict failed (length ts) allowedFailurePercent))))"

definition foreground :: "jsval \<Rightarrow> workload_failure" where
  "foreground e = \<lparr>wfErr = to_str (fld e ''err''), wfStack = to_str (fld e ''stack''), wfTid = fld e ''tid'',
     wfHeader = ''Foreground '' @ joinStr '' '' (map to_str (arr_elems (fld e ''workloads'')))\<rparr>"

definition setupEach :: "('c, 'w) runner_env \<Rightarrow> string list \<Rightarrow> ('w runner_state, unit) eff" where
  "setupEach env workloads =
     forEachE (\<lambda>workload.
       seqE (updateCtx workload (\<lambda>c. setThreadCount (setIterations c)))
      (seqE (setupWorkload env workload)
         (modE (\<lambda>s. s\<lparr>cleanup := cleanup s @ [workload]\<rparr>)))) workloads"

text \<open>The session options of the threads: with the times of the main thread's session, as text.\<close>

definition threadOptions :: "('c, 'w) runner_env \<Rightarrow> jsval \<Rightarrow> ('w runner_state, jsval) eff" where
  "threadOptions env executionOptions =
     (let so = fld executionOptions ''sessionOptions'' in
      if typeof so = ''object'' \<and> so \<noteq> Null
      then bindE (onCl (getDB ''test'')) (\<lambda>_.
           bindE (onW (sessionTimes env)) (\<lambda>(clusterTime, operationTime).
           ret (set_prop ''sessionOptions''
             (set_prop ''initialOperationTime'' (JStr operationTime)
               (set_prop ''initialClusterTime'' (JStr clusterTime) so)) executionOptions)))
      else ret executionOptions)"

definition joinThreads :: "('c, 'w) runner_env \<Rightarrow> ('w runner_state, unit) eff" where
  "joinThreads env =
     bindE (onMgr (joinAll (joinThread env))) (\<lambda>errs.
     modE (\<lambda>s. s\<lparr>rErrors := rErrors s @ map foreground errs\<rparr>))"

definition runThreads :: "('c, 'w) runner_env \<Rightarrow> bool \<Rightarrow> jsval \<Rightarrow> ('w runner_state, unit) eff" where
  "runThreads env composed options =
     bindE (getE rLevel) (\<lambda>lvl.
     tryFinally
       (seqE (onMgr (spawnAll (seedInt env) lvl composed options)) (onMgr (tm_checkFailed env (1 / 5))))
       (joinThreads env))"

definition cleanupAll ::
  "('c, 'w) runner_env \<Rightarrow> string list \<Rightarrow> jsval \<Rightarrow> ('w runner_state, bool list) eff" where
  "cleanupAll env dbHashBlacklist cleanupOptions =
     bindE (getE cleanup) (mapE (cleanupWorkload env ''Foreground'' dbHashBlacklist cleanupOptions))"

definition initManager :: "string list \<Rightarrow> jsval \<Rightarrow> ('w runner_state, unit) eff" where
  "initManager workloads maxAllowedThreads =
     bindE (onMgr (getE tmContext)) (\<lambda>context. onMgr (tm_init workloads context maxAllowedThreads))"

definition groupBody ::
  "('c, 'w) runner_env \<Rightarrow> string list \<Rightarrow> bool \<Rightarrow> jsval \<Rightarrow> jsval \<Rightarrow> ('w runner_state, unit) eff" where
  "groupBody env workloads composed executionOptions maxAllowedThreads =
     seqE (initManager workloads maxAllowedThreads)
    (seqE (setupEach env workloads)
    (bindE (threadOptions env executionOptions) (runThreads env composed)))"

text \<open>The outer \<open>finally\<close>: clean up, record, and go on with the failure, if there was one.\<close>

definition groupTeardown ::
  "('c, 'w) runner_env \<Rightarrow> string list \<Rightarrow> string list \<Rightarrow> jsval \<Rightarrow> exn option \<Rightarrow> ('w runner_state, bool) eff" where
  "groupTeardown env workloads dbHashBlacklist cleanupOptions failure =
     bindE (cleanupAll env dbHashBlacklist cleanupOptions) (\<lambda>cleanupResults.
     seqE (recordConfigServerData env workloads)
       (case failure of Some e \<Rightarrow> raise e | None \<Rightarrow> ret (\<not> list_all id cleanupResults)))"

definition groupEnd ::
  "('c, 'w) runner_env \<Rightarrow> string list \<Rightarrow> jsval \<Rightarrow> string list \<Rightarrow> bool \<Rightarrow> ('w runner_state, unit) eff" where
  "groupEnd env workloads clusterOptions dbHashBlacklist teardownFailed =
     bindE (getE rErrors) (\<lambda>errors.
     seqE (if errors = [] \<and> \<not> teardownFailed then cleanupWorkloadData env workloads clusterOptions else ret ())
    (seqE (throwError env errors)
       (onCl (checkReplicationConsistency (clEnv env) dbHashBlacklist
          ''after workload-group teardown and data clean-up''))))"

definition runWorkloadGroup ::
  "('c, 'w) runner_env \<Rightarrow> string list \<Rightarrow> jsval \<Rightarrow> bool \<Rightarrow> jsval \<Rightarrow> jsval \<Rightarrow> string list \<Rightarrow> jsval \<Rightarrow>
   ('w runner_state, unit) eff" where
  "runWorkloadGroup env workloads clusterOptions composed executionOptions maxAllowedThreads dbHashBlacklist
      cleanupOptions =
     seqE (modE (\<lambda>s. s\<lparr>cleanup := []\<rparr>))
    (seqE (prepareCollections env workloads clusterOptions executionOptions)
    (bindE (tryCatch (seqE (groupBody env workloads composed executionOptions maxAllowedThreads) (ret None))
              (\<lambda>e. ret (Some e))) (\<lambda>failure.
     bindE (groupTeardown env workloads dbHashBlacklist cleanupOptions failure) (\<lambda>teardownFailed.
     groupEnd env workloads clusterOptions dbHashBlacklist teardownFailed))))"

section \<open>A run\<close>

definition assertLevelFor :: "jsval \<Rightarrow> assert_level" where
  "assertLevelFor clusterOptions =
     (if truthy (fld clusterOptions ''sameCollection'') then ALWAYS
      else if truthy (fld clusterOptions ''sameDB'') then OWN_COLL else OWN_DB)"

definition modeClusterOptions :: "bool \<Rightarrow> jsval \<Rightarrow> jsval" where
  "modeClusterOptions composed clusterOptions =
     (if composed then set_prop ''sameCollection'' (JBool True) (set_prop ''sameDB'' (JBool True) clusterOptions)
      else clusterOptions)"

text \<open>Sharded clusters get a fail point that is switched on by the setup and off by the teardown.\<close>

definition useDropDistLockFailPoint :: "jsval \<Rightarrow> jsval" where
  "useDropDistLockFailPoint clusterOptions =
     (let add = (\<lambda>which fn o'. set_prop which
            (set_prop ''config'' (JArr (arr_elems (fld (fld o' which) ''config'') @ [fn])) (fld o' which)) o')
      in add ''teardownFunctions'' (JFun ''resetDropDistLockTimeout'' 1)
           (add ''setupFunctions'' (JFun ''increaseDropDistLockTimeout'' 1) clusterOptions))"

definition optNat :: "jsval \<Rightarrow> nat option" where
  "optNat v = (case v of JNum (Fin q) \<Rightarrow> Some (nat \<lfloor>q\<rfloor>) | _ \<Rightarrow> None)"

definition runSchedule ::
  "('c, 'w) runner_env \<Rightarrow> (string \<Rightarrow> workload_ctx) \<Rightarrow> jsval \<Rightarrow> bool \<Rightarrow> jsval \<Rightarrow> jsval \<Rightarrow> string list \<Rightarrow> jsval \<Rightarrow>
   string list list \<Rightarrow> ('w runner_state, unit) eff" where
  "runSchedule env context clusterOptions composed executionOptions maxAllowedThreads dbHashBlacklist
      cleanupOptions schedule =
     forEachE (\<lambda>workloads.
       seqE (onMgr (modE (\<lambda>t. t\<lparr>tmContext := context\<rparr>)))
         (runWorkloadGroup env workloads clusterOptions composed executionOptions maxAllowedThreads
            dbHashBlacklist cleanupOptions)) schedule"

definition runWorkloads ::
  "('c, 'w) runner_env \<Rightarrow> string list \<Rightarrow> jsval \<Rightarrow> jsval \<Rightarrow> jsval \<Rightarrow> jsval \<Rightarrow> ('w runner_state, unit) eff" where
  "runWorkloads env workloads clusterOptions0 executionMode0 executionOptions0 cleanupOptions0 =
     seqE (assertE (length workloads > 0) ''need at least one workload to run'')
    (bindE (liftE (validateExecutionMode executionMode0)) (\<lambda>mode.
     bindE (liftE (validateExecutionOptions mode executionOptions0)) (\<lambda>executionOptions.
     bindE (liftE (validateCleanupOptions cleanupOptions0)) (\<lambda>cleanupOptions.
     let composed = truthy (fld mode ''composed'');
         clusterOptions = modeClusterOptions composed clusterOptions0
     in
     seqE (modE (\<lambda>s. s\<lparr>rLevel := assertLevelFor clusterOptions\<rparr>))
    (seqE (loadWorkloadContext env workloads executionOptions True)
    (bindE (onMgr (getE tmContext)) (\<lambda>context.
     bindE (getE (\<lambda>s. clWorld (tmCluster (rMgr s)))) (\<lambda>w.
     bindE (liftE (newCluster clusterOptions w)) (\<lambda>cl.
     seqE (onMgr (modE (\<lambda>t. t\<lparr>tmCluster :=
             (if isSharded (clOptions cl) then cl\<lparr>clOptions := useDropDistLockFailPoint (clOptions cl)\<rparr> else cl)\<rparr>)))
    (seqE (onCl (cluster_setup (clEnv env)))
    (let extra = map to_str (arr_elems (fld cleanupOptions ''dropDatabaseBlacklist''));
         dbBlacklist = [''admin'', ''config'', ''local'', ''$external''] @ extra;
         dbHashBlacklist = [''local''] @ extra;
         maxAllowedThreads = jnum (100 * int_of (fld executionOptions ''threadMultiplier''))
     in
     seqE (if \<not> truthy (fld cleanupOptions ''keepExistingDatabases'') then dropAllDatabases env dbBlacklist else ret ())
       (seqE (modE (\<lambda>s. s\<lparr>rErrors := [], configServerData := []\<rparr>))
       (tryFinally
         (bindE (getE (\<lambda>s. clWorld (tmCluster (rMgr s)))) (\<lambda>g.
          let schedule = scheduleWorkloads (shuffle env) (truthy (fld mode ''serial''))
                (optNat (fld executionOptions ''subsetSize'')) (optNat (fld executionOptions ''numSubsets'')) workloads g
          in seqE (runSchedule env context (clOptions cl) composed executionOptions maxAllowedThreads
                     dbHashBlacklist cleanupOptions schedule)
               (bindE (getE rErrors) (throwError env))))
         (onCl (cluster_teardown (clEnv env))))))))))))))))"

section \<open>Lemmas: clean-up\<close>

text \<open>The lists \<open>cleanup\<close> and \<open>rCleaned\<close>, which only two places touch.\<close>

definition hist :: "string list \<Rightarrow> string list \<Rightarrow> 'w runner_state \<Rightarrow> bool" where
  "hist c d s \<longleftrightarrow> cleanup s = c \<and> rCleaned s = d"

lemma keeps_onMgr [keeps_rules]: "keeps (hist c d) (onMgr m)"
  by (simp add: keeps_def hist_def onMgr_def split: prod.split)

lemma keeps_updateCtx [keeps_rules]: "keeps (hist c d) (updateCtx w f)"
  by (simp add: updateCtx_def keeps_onMgr)

lemma keeps_getCtx [keeps_rules]: "keeps (hist c d) (getCtx w)"
  by (simp add: getCtx_def keeps_onMgr)

lemma keeps_pushError [keeps_rules]: "keeps (hist c d) (pushError env h e)"
  by (simp add: pushError_def keeps_def modE_def hist_def)

lemma keeps_guarded [keeps_rules]: "keeps (hist c d) m \<Longrightarrow> keeps (hist c d) (guarded env h m)"
  unfolding guarded_def by (intro keeps_rules)

lemma keeps_workload_fns [keeps_rules]:
  "keeps (hist c d) (setupWorkload env w)" "keeps (hist c d) (teardownWorkload env w)"
  unfolding setupWorkload_def teardownWorkload_def by (intro keeps_rules)+

lemma keeps_names [keeps_rules]:
  "keeps (hist c d) (uniqueDBName p)" "keeps (hist c d) uniqueCollName"
  unfolding uniqueDBName_def uniqueCollName_def by (intro keeps_rules; simp add: hist_def)+

lemma keeps_prepareWorkload [keeps_rules]: "keeps (hist c d) (prepareWorkload env sc sd p prev w)"
  unfolding prepareWorkload_def chooseNamespace_def createNamespace_def by (intro keeps_rules) (auto intro!: keeps_rules split: option.split)

lemma keeps_prepareCollections [keeps_rules]: "keeps (hist c d) (prepareCollections env ws co eo)"
proof -
  have "keeps (hist c d) (prepareEach env sc sd p prev ws)" for sc sd p prev
    by (induction ws arbitrary: prev) (auto intro!: keeps_rules)
  then show ?thesis by (simp add: prepareCollections_def)
qed

lemma keeps_recordConfig [keeps_rules]: "keeps (hist c d) (recordConfigServerData env ws)"
  unfolding recordConfigServerData_def
  by (intro keeps_rules) (auto intro!: keeps_rules simp: hist_def Let_def split: option.split)

lemma keeps_runThreads [keeps_rules]:
  "keeps (hist c d) (bindE (threadOptions env eo) (runThreads env composed))"
  unfolding threadOptions_def runThreads_def joinThreads_def Let_def
  by (intro keeps_rules) (auto intro!: keeps_rules simp: hist_def)

lemma keeps_cleanupWorkloadData [keeps_rules]: "keeps (hist c d) (cleanupWorkloadData env ws co)"
  unfolding cleanupWorkloadData_def by (intro keeps_rules)

lemma keeps_throwError [keeps_rules]: "keeps I (throwError env errs)"
  unfolding throwError_def Let_def by (intro keeps_rules)

lemma keeps_initManager [keeps_rules]: "keeps (hist c d) (initManager ws m)"
  unfolding initManager_def by (intro keeps_rules)

text \<open>
  The workloads whose setup returns when a group is run: what clean-up has to be compared with.  The
  functions follow the run up to the end of the set-up phase and do not look at what is registered for
  clean-up.
\<close>

fun setupsReturned :: "('c, 'w) runner_env \<Rightarrow> string list \<Rightarrow> 'w runner_state \<Rightarrow> string list" where
  "setupsReturned env [] s = []"
| "setupsReturned env (w # ws) s =
     (case seqE (updateCtx w (\<lambda>c. setThreadCount (setIterations c))) (setupWorkload env w) s of
        (Val _, s1) \<Rightarrow> w # setupsReturned env ws (s1\<lparr>cleanup := cleanup s1 @ [w]\<rparr>)
      | _ \<Rightarrow> [])"

definition bodySetups :: "('c, 'w) runner_env \<Rightarrow> string list \<Rightarrow> jsval \<Rightarrow> 'w runner_state \<Rightarrow> string list" where
  "bodySetups env ws maxAllowedThreads s =
     (case initManager ws maxAllowedThreads s of (Val _, s1) \<Rightarrow> setupsReturned env ws s1 | _ \<Rightarrow> [])"

definition groupSetups ::
  "('c, 'w) runner_env \<Rightarrow> string list \<Rightarrow> jsval \<Rightarrow> jsval \<Rightarrow> jsval \<Rightarrow> 'w runner_state \<Rightarrow> string list" where
  "groupSetups env ws clusterOptions executionOptions maxAllowedThreads s =
     (case prepareCollections env ws clusterOptions executionOptions (s\<lparr>cleanup := []\<rparr>) of
        (Val _, s1) \<Rightarrow> bodySetups env ws maxAllowedThreads s1 | _ \<Rightarrow> [])"

text \<open>The set-up loop leaves exactly these workloads in \<open>cleanup\<close>.\<close>

lemma seqE_assoc: "seqE (seqE m k) l = seqE m (seqE k l)"
  by (auto simp: seqE_def bindE_def fun_eq_iff split: prod.split outcome.split)

lemma setupEach_registers:
  "setupEach env ws s = (r, s') \<Longrightarrow>
   hist (cleanup s @ setupsReturned env ws s) (rCleaned s) s' \<and> (r = Val () \<longrightarrow> setupsReturned env ws s = ws)"
proof (induction ws arbitrary: s)
  case Nil
  then show ?case by (simp add: setupEach_def ret_def hist_def)
next
  case (Cons w ws)
  let ?m = "seqE (updateCtx w (\<lambda>c. setThreadCount (setIterations c))) (setupWorkload env w)"
  have split: "setupEach env (w # ws) s =
      seqE ?m (seqE (modE (\<lambda>s. s\<lparr>cleanup := cleanup s @ [w]\<rparr>)) (setupEach env ws)) s"
    by (simp only: setupEach_def forEachE.simps seqE_assoc)
  obtain r1 s1 where m1: "?m s = (r1, s1)" by fastforce
  have "keeps (hist (cleanup s) (rCleaned s)) ?m" by (intro keeps_rules)
  then have kept: "hist (cleanup s) (rCleaned s) s1"
    using keepsD [of "hist (cleanup s) (rCleaned s)" ?m s] m1 by (simp add: hist_def)
  show ?case
  proof (cases r1)
    case (Val u)
    let ?s2 = "s1\<lparr>cleanup := cleanup s1 @ [w]\<rparr>"
    have "setupEach env ws ?s2 = (r, s')"
      using Cons.prems split m1 Val by (simp add: seqE_simps(1) [of ?m s s1] seqE_simps(1) [OF eff_simps(5)])
    from Cons.IH [OF this] show ?thesis using kept m1 Val by (simp add: hist_def)
  qed (use Cons.prems split m1 kept in \<open>auto simp: seqE_def [of ?m] bindE_def [of ?m]\<close>)
qed

lemma groupBody_registers:
  assumes "groupBody env ws cmps eo mx s = (r, s')"
  shows "hist (cleanup s @ bodySetups env ws mx s) (rCleaned s) s' \<and> (r = Val () \<longrightarrow> bodySetups env ws mx s = ws)"
proof -
  let ?init = "initManager ws mx" and ?rest = "bindE (threadOptions env eo) (runThreads env cmps)"
  obtain r1 s1 where 1: "?init s = (r1, s1)" by fastforce
  have h1: "hist (cleanup s) (rCleaned s) s1"
    using keepsD [OF keeps_initManager, of "cleanup s" "rCleaned s" s ws mx] 1 by (simp add: hist_def)
  show ?thesis
  proof (cases r1)
    case (Val u)
    obtain r2 s2 where 2: "setupEach env ws s1 = (r2, s2)" by fastforce
    from setupEach_registers [OF this] h1 Val 1
    have k: "hist (cleanup s @ bodySetups env ws mx s) (rCleaned s) s2" "r2 = Val () \<longrightarrow> bodySetups env ws mx s = ws"
      by (auto simp: hist_def bodySetups_def)
    have "hist (cleanup s @ bodySetups env ws mx s) (rCleaned s) (snd (?rest s2))"
      by (rule keepsD [OF keeps_runThreads k(1)])
    then show ?thesis
      using assms 1 2 Val k by (cases r2) (auto simp: groupBody_def seqE_def bindE_def)
  qed (use assms 1 h1 in \<open>auto simp: groupBody_def bodySetups_def seqE_def bindE_def\<close>)
qed

text \<open>A clean-up never throws, and is remembered.\<close>

definition nothrow :: "('s, 'a) eff \<Rightarrow> bool" where
  "nothrow m \<longleftrightarrow> (\<forall>s e. fst (m s) \<noteq> Throw e)"

lemma nothrow_ret: "nothrow (ret x)"
  by (simp add: nothrow_def ret_def)

lemma nothrow_bindE: "nothrow m \<Longrightarrow> (\<And>x. nothrow (f x)) \<Longrightarrow> nothrow (bindE m f)"
  unfolding nothrow_def
proof (intro allI)
  fix s e assume "\<forall>s e. fst (m s) \<noteq> Throw e" and "\<And>x. \<forall>s e. fst (f x s) \<noteq> Throw e"
  then show "fst (bindE m f s) \<noteq> Throw e" by (cases rule: bindE_cases [of m s f]) (auto, metis fst_conv)
qed

lemma nothrow_guarded: "nothrow (guarded env h m)"
  by (auto simp: nothrow_def guarded_def tryCatch_def seqE_def bindE_def pushError_def modE_def ret_def
      split: prod.splits outcome.splits)

lemma cleanupWorkload_hist:
  assumes "cleanupWorkload env h bl co w s = (r, s')"
  shows "hist (cleanup s) (rCleaned s @ [w]) s' \<and> r \<noteq> Throw e"
proof -
  let ?rest = "bindE (guarded env (h @ '' checking consistency on secondaries'')
       (onCl (checkReplicationConsistency (clEnv env) bl (''before workload '' @ w @ '' teardown'')))) (\<lambda>ok.
     if \<not> ok then ret False else
     bindE (guarded env (h @ '' validating collections'')
       (if truthy (fld co ''validateCollections'') then onCl (validateAllCollections (clEnv env)) else ret ())) (\<lambda>ok.
     if \<not> ok then ret False else guarded env (h @ '' Teardown'') (teardownWorkload env w)))"
  let ?s = "s\<lparr>rCleaned := rCleaned s @ [w]\<rparr>"
  have run: "cleanupWorkload env h bl co w s = ?rest ?s"
    by (simp add: cleanupWorkload_def Let_def seqE_def bindE_def modE_def)
  have "keeps (hist (cleanup s) (rCleaned s @ [w])) ?rest" by (intro keeps_rules)
  then have "hist (cleanup s) (rCleaned s @ [w]) s'"
    using keepsD [of _ ?rest ?s] assms run by (force simp: hist_def)
  moreover have "nothrow ?rest"
    by (auto intro!: nothrow_bindE nothrow_guarded nothrow_ret)
  then have "fst (?rest ?s) \<noteq> Throw e" unfolding nothrow_def by blast
  ultimately show ?thesis using assms run by auto
qed

lemma cleanupAll_hist:
  assumes "cleanupAll env bl co s = (r, s')" and "r \<noteq> Diverge"
  shows "hist (cleanup s) (rCleaned s @ cleanup s) s' \<and> (\<exists>rs. r = Val rs)"
proof -
  have "mapE (cleanupWorkload env h bl co) ws s = (r, s') \<Longrightarrow> r \<noteq> Diverge \<Longrightarrow>
      hist (cleanup s) (rCleaned s @ ws) s' \<and> (\<exists>rs. r = Val rs)" for h ws r s s'
  proof (induction ws arbitrary: s r s')
    case Nil
    then show ?case by (auto simp: ret_def hist_def)
  next
    case (Cons w ws)
    obtain r1 s1 where 1: "cleanupWorkload env h bl co w s = (r1, s1)" by fastforce
    note h1 = cleanupWorkload_hist [OF 1]
    obtain b where b: "r1 = Val b" using Cons.prems 1 h1 by (cases r1) (auto simp: bindE_def)
    obtain r2 s2 where 2: "mapE (cleanupWorkload env h bl co) ws s1 = (r2, s2)" by fastforce
    have "r2 \<noteq> Diverge" using Cons.prems 1 2 b by (auto simp: bindE_def)
    from Cons.IH [OF 2 this] h1 show ?case
      using Cons.prems 1 2 b by (auto simp: bindE_def ret_def hist_def)
  qed
  then show ?thesis using assms by (simp add: cleanupAll_def bindE_def getE_def)
qed

lemma groupTeardown_hist:
  assumes "groupTeardown env ws bl cu f s = (r, s')" and "r \<noteq> Diverge"
  shows "hist (cleanup s) (rCleaned s @ cleanup s) s' \<and> (\<forall>b. r = Val b \<longrightarrow> f = None)"
proof -
  obtain r1 s1 where 1: "cleanupAll env bl cu s = (r1, s1)" by fastforce
  have "r1 \<noteq> Diverge" using assms 1 by (auto simp: groupTeardown_def bindE_def)
  from cleanupAll_hist [OF 1 this] obtain rs where rs: "r1 = Val rs"
    and h1: "hist (cleanup s) (rCleaned s @ cleanup s) s1" by blast
  obtain r2 s2 where 2: "recordConfigServerData env ws s1 = (r2, s2)" by fastforce
  have h2: "hist (cleanup s) (rCleaned s @ cleanup s) s2"
    using keepsD [OF keeps_recordConfig h1, of env ws] 2 by simp
  have "groupTeardown env ws bl cu f s =
     (case r2 of Val _ \<Rightarrow> (case f of Some e \<Rightarrow> raise e | None \<Rightarrow> ret (\<not> list_all id rs)) s2
      | Throw e \<Rightarrow> (Throw e, s2) | Diverge \<Rightarrow> (Diverge, s2))"
    using 1 2 rs by (simp add: groupTeardown_def seqE_def bindE_def)
  then show ?thesis
    using assms h2 by (cases r2; cases f) (auto simp: raise_def ret_def)
qed

lemma keeps_groupEnd [keeps_rules]: "keeps (hist c d) (groupEnd env ws co bl tf)"
  unfolding groupEnd_def by (intro keeps_rules)

lemma keeps_errors_onMgr: "keeps (\<lambda>t. rErrors t = es) (onMgr m)"
  by (simp add: keeps_def onMgr_def split: prod.split)

lemma keeps_errors_data: "keeps (\<lambda>t. rErrors t = es) (cleanupWorkloadData env ws co)"
  unfolding cleanupWorkloadData_def getCtx_def by (intro keeps_rules keeps_errors_onMgr)

lemma groupEnd_errors:
  assumes "groupEnd env ws co bl tf s = (Val (), t)"
  shows "rErrors t = []"
proof -
  have none: "rErrors s = []"
    using assms by (auto simp: groupEnd_def bindE_Val seqE_Val getE_def throwError_def raise_def Let_def
        split: if_splits)
  have "keeps (\<lambda>u. rErrors u = []) (groupEnd env ws co bl tf)"
    unfolding groupEnd_def by (intro keeps_rules keeps_errors_data keeps_errors_onMgr)
  then show ?thesis using keepsD [of "\<lambda>u. rErrors u = []" _ s] none assms by fastforce
qed

section \<open>Lemmas: names\<close>

abbreviation ctxOf :: "'w runner_state \<Rightarrow> string \<Rightarrow> workload_ctx" where
  "ctxOf s \<equiv> tmContext (rMgr s)"

definition dbn :: "string \<Rightarrow> nat \<Rightarrow> string" where "dbn p i = p @ ''fsmdb'' @ show_nat i"
definition colln :: "nat \<Rightarrow> string" where "colln i = ''fsmcoll'' @ show_nat i"

lemma dbn_inj: "dbn p i = dbn p j \<longleftrightarrow> i = j" and colln_inj: "colln i = colln j \<longleftrightarrow> i = j"
  by (simp_all add: dbn_def colln_def)

definition names :: "(string \<Rightarrow> workload_ctx) \<Rightarrow> nat \<Rightarrow> nat \<Rightarrow> 'w runner_state \<Rightarrow> bool" where
  "names x d c s \<longleftrightarrow> ctxOf s = x \<and> dbCounter s = d \<and> collCounter s = c"

lemma keeps_names_onCl: "keeps (names x d c) (onCl m)"
  by (simp add: keeps_def names_def onMgr_def onCluster_def split: prod.split)

lemma keeps_names_create: "keeps (names x d c) (createNamespace env sh k db coll)"
  unfolding createNamespace_def by (intro keeps_rules keeps_names_onCl)

lemma unique_names_run:
  "uniqueDBName p s = (Val (dbn p (dbCounter s)), s\<lparr>dbCounter := Suc (dbCounter s)\<rparr>)"
  "uniqueCollName s = (Val (colln (collCounter s)), s\<lparr>collCounter := Suc (collCounter s)\<rparr>)"
  by (simp_all add: uniqueDBName_def uniqueCollName_def dbn_def colln_def seqE_def bindE_def getE_def modE_def ret_def)

text \<open>The namespace the next workload gets, and the counters after it.\<close>

definition nextNs ::
  "bool \<Rightarrow> bool \<Rightarrow> string \<Rightarrow> (string \<times> string) option \<Rightarrow> nat \<Rightarrow> nat \<Rightarrow> (string \<times> string) \<times> nat \<times> nat" where
  "nextNs sc sd p prev d c =
     (case prev of
        None \<Rightarrow> ((dbn p d, colln c), Suc d, Suc c)
      | Some (db, coll) \<Rightarrow>
          if sc then ((db, coll), d, c)
          else if sd then ((db, colln c), d, Suc c) else ((dbn p d, colln c), Suc d, Suc c))"

lemma prepareWorkload_Val:
  assumes "prepareWorkload env sc sd p prev w s = (Val ns, s')"
  shows "(ns, dbCounter s', collCounter s') = nextNs sc sd p prev (dbCounter s) (collCounter s) \<and>
    ctxOf s' = (ctxOf s)(w := (ctxOf s w)\<lparr>ctxDbName := fst ns, ctxCollName := snd ns\<rparr>)"
proof -
  obtain db coll where ns: "ns = (db, coll)" by fastforce
  let ?sharded = "isSharded (rOptions s)"
  let ?make = "if prev = None \<or> \<not> sc then createNamespace env ?sharded (ctxOf s w) db coll else ret ()"
  obtain s1 s2 where pick1: "chooseNamespace sc sd p prev s = (Val ns, s1)" and make: "?make s1 = (Val (), s2)"
    and upd: "updateCtx w (\<lambda>c. c\<lparr>ctxDbName := db, ctxCollName := coll\<rparr>) s2 = (Val (), s')"
  proof -
    have "bindE (chooseNamespace sc sd p prev) (\<lambda>(db, coll).
        seqE (if prev = None \<or> \<not> sc then createNamespace env ?sharded (ctxOf s w) db coll else ret ())
       (seqE (updateCtx w (\<lambda>c. c\<lparr>ctxDbName := db, ctxCollName := coll\<rparr>)) (ret (db, coll)))) s = (Val ns, s')"
      using assms unfolding prepareWorkload_def
      by (simp add: bindE_simps(1) [OF eff_simps(4)] getCtx_def onMgr_def getE_def raise_def bindE_simps(1)
          split: if_splits)
    then obtain q s1 where q: "chooseNamespace sc sd p prev s = (Val q, s1)"
      and rest: "(case q of (db, coll) \<Rightarrow>
        seqE (if prev = None \<or> \<not> sc then createNamespace env ?sharded (ctxOf s w) db coll else ret ())
       (seqE (updateCtx w (\<lambda>c. c\<lparr>ctxDbName := db, ctxCollName := coll\<rparr>)) (ret (db, coll)))) s1 = (Val ns, s')"
      unfolding bindE_Val by blast
    moreover have "q = ns" using rest by (cases q) (auto simp: seqE_Val ret_def)
    ultimately show thesis using that by (auto simp: ns seqE_Val ret_def)
  qed
  have "names (ctxOf s1) (dbCounter s1) (collCounter s1) (snd (?make s1))"
    by (rule keepsD) (intro keeps_rules keeps_names_create, simp add: names_def)
  then have kept: "names (ctxOf s1) (dbCounter s1) (collCounter s1) s2" by (simp only: make snd_conv)
  have "(ns, dbCounter s1, collCounter s1) = nextNs sc sd p prev (dbCounter s) (collCounter s) \<and> ctxOf s1 = ctxOf s"
    using pick1 by (auto simp: chooseNamespace_def nextNs_def bindE_def unique_names_run ret_def split: option.splits if_splits)
  then show ?thesis using upd kept by (auto simp: updateCtx_def onMgr_def modE_def names_def ns)
qed

fun nsSeq ::
  "bool \<Rightarrow> bool \<Rightarrow> string \<Rightarrow> (string \<times> string) option \<Rightarrow> nat \<Rightarrow> nat \<Rightarrow> nat \<Rightarrow> (string \<times> string) list" where
  "nsSeq sc sd p prev d c 0 = []"
| "nsSeq sc sd p prev d c (Suc n) =
     (case nextNs sc sd p prev d c of (ns, d', c') \<Rightarrow> ns # nsSeq sc sd p (Some ns) d' c' n)"

lemma prepareEach_Val:
  "prepareEach env sc sd p prev ws s = (Val (), s') \<Longrightarrow> distinct ws \<Longrightarrow>
   map (\<lambda>w. (ctxDbName (ctxOf s' w), ctxCollName (ctxOf s' w))) ws =
     nsSeq sc sd p prev (dbCounter s) (collCounter s) (length ws) \<and>
   (\<forall>w. w \<notin> set ws \<longrightarrow> ctxOf s' w = ctxOf s w)"
proof (induction ws arbitrary: prev s)
  case Nil
  then show ?case by (simp add: ret_def)
next
  case (Cons w ws)
  obtain ns s1 where 1: "prepareWorkload env sc sd p prev w s = (Val ns, s1)"
    and 2: "prepareEach env sc sd p (Some ns) ws s1 = (Val (), s')"
    using Cons.prems(1) by (auto simp: bindE_Val)
  note head = prepareWorkload_Val [OF 1] and tail = Cons.IH [OF 2]
  have "ctxOf s' w = ctxOf s1 w" using tail Cons.prems(2) by simp
  then show ?case using head tail Cons.prems(2) by (auto split: prod.split)
qed

lemma nsSeq_shared: "nsSeq True sd p (Some ns) d c n = replicate n ns"
  by (induction n) (auto simp: nextNs_def split: prod.split)

lemma nsSeq_colls: "map snd (nsSeq False sd p prev d c n) = map colln [c..<c + n]"
proof (induction n arbitrary: prev d c)
  case (Suc n)
  obtain ns d' where "nextNs False sd p prev d c = (ns, d', Suc c) \<and> snd ns = colln c"
    by (cases prev; cases sd) (auto simp: nextNs_def split: prod.splits)
  then show ?case by (simp add: Suc upt_conv_Cons del: upt_Suc)
qed simp

lemma nsSeq_dbs: "map fst (nsSeq False False p prev d c n) = map (dbn p) [d..<d + n]"
proof (induction n arbitrary: prev d c)
  case (Suc n)
  obtain ns c' where "nextNs False False p prev d c = (ns, Suc d, c') \<and> fst ns = dbn p d"
    by (cases prev) (auto simp: nextNs_def split: prod.splits)
  then show ?case by (simp add: Suc upt_conv_Cons del: upt_Suc)
qed simp

lemma nsSeq_same_db: "map fst (nsSeq False True p (Some (db, coll)) d c n) = replicate n db"
  by (induction n arbitrary: coll c) (auto simp: nextNs_def)

lemma distinct_map_inj: "distinct (map f xs) \<Longrightarrow> inj_on f (set xs)"
  by (simp add: distinct_map)

lemma prepared_namespaces:
  assumes "prepareCollections env ws co eo s = (Val (), s')" and "distinct ws"
  shows "(truthy (fld co ''sameCollection'') \<longrightarrow>
            (\<forall>v \<in> set ws. \<forall>w \<in> set ws. ctxDbName (ctxOf s' v) = ctxDbName (ctxOf s' w) \<and>
                                       ctxCollName (ctxOf s' v) = ctxCollName (ctxOf s' w))) \<and>
         (\<not> truthy (fld co ''sameCollection'') \<longrightarrow> inj_on (\<lambda>w. ctxCollName (ctxOf s' w)) (set ws)) \<and>
         (\<not> truthy (fld co ''sameCollection'') \<and> \<not> truthy (fld co ''sameDB'') \<longrightarrow>
            inj_on (\<lambda>w. ctxDbName (ctxOf s' w)) (set ws))"
proof (cases ws)
  case Nil
  then show ?thesis by simp
next
  case (Cons w0 rest)
  let ?sc = "truthy (fld co ''sameCollection'')" and ?sd = "truthy (fld co ''sameDB'')"
    and ?p = "to_str (fld eo ''dbNamePrefix'')"
    and ?ns = "\<lambda>w. (ctxDbName (ctxOf s' w), ctxCollName (ctxOf s' w))"
  have run: "map ?ns ws = nsSeq ?sc ?sd ?p None (dbCounter s) (collCounter s) (length ws)"
    using prepareEach_Val [OF assms(1) [unfolded prepareCollections_def] assms(2)] by blast
  have all: "\<forall>v \<in> set ws. \<forall>w \<in> set ws. ?ns v = ?ns w" if ?sc
  proof -
    have "set (map ?ns ws) \<subseteq> {(dbn ?p (dbCounter s), colln (collCounter s))}"
      unfolding run using that by (auto simp: Cons nextNs_def nsSeq_shared)
    then have "?ns v = (dbn ?p (dbCounter s), colln (collCounter s))" if "v \<in> set ws" for v
      using that by (simp add: image_subset_iff)
    then show ?thesis by simp
  qed
  have "inj_on (\<lambda>w. ctxCollName (ctxOf s' w)) (set ws)" if "\<not> ?sc"
    using arg_cong [OF run, of "map snd"] that
    by (intro distinct_map_inj) (simp add: nsSeq_colls distinct_map inj_on_def colln_inj o_def)
  moreover have "inj_on (\<lambda>w. ctxDbName (ctxOf s' w)) (set ws)" if "\<not> ?sc" "\<not> ?sd"
    using arg_cong [OF run, of "map fst"] that
    by (intro distinct_map_inj) (simp add: nsSeq_dbs distinct_map inj_on_def dbn_inj o_def)
  ultimately show ?thesis using all by blast
qed

section \<open>Lemmas: the report\<close>

text \<open>What the table of traces says of the failures seen so far.\<close>

definition counted :: "(string \<times> jsval) list \<Rightarrow> trace_count list \<Rightarrow> bool" where
  "counted seen cs \<longleftrightarrow> distinct (map tcValue cs) \<and> set (map tcValue cs) = fst ` set seen \<and>
     (\<forall>c \<in> set cs. distinct (tcTids c) \<and> set (tcTids c) = {t. (tcValue c, t) \<in> set seen})"

lemma countTrace_values:
  "map tcValue (countTrace item t cs) =
     (if item \<in> set (map tcValue cs) then map tcValue cs else map tcValue cs @ [item])"
  by (induction cs) auto

lemma countTrace_mem:
  "distinct (map tcValue cs) \<Longrightarrow> c \<in> set (countTrace item t cs) \<Longrightarrow>
   c \<in> set cs \<and> tcValue c \<noteq> item \<or>
   (\<exists>c0 \<in> set cs. tcValue c0 = item \<and> c = c0\<lparr>tcTids := addTid t (tcTids c0)\<rparr>) \<or>
   item \<notin> set (map tcValue cs) \<and> c = \<lparr>tcValue = item, tcTids = [t]\<rparr>"
proof (induction cs)
  case (Cons d cs)
  then show ?case by (cases "tcValue d = item") (auto simp: image_iff)
qed simp

lemma counted_step:
  assumes "counted seen cs"
  shows "counted (seen @ [(item, t)]) (countTrace item t cs)"
proof -
  have d: "distinct (map tcValue cs)" and v: "set (map tcValue cs) = fst ` set seen"
    and e: "\<And>c. c \<in> set cs \<Longrightarrow> distinct (tcTids c) \<and> set (tcTids c) = {t. (tcValue c, t) \<in> set seen}"
    using assms by (auto simp: counted_def)
  have "distinct (map tcValue (countTrace item t cs))" using d by (simp add: countTrace_values)
  moreover have "set (map tcValue (countTrace item t cs)) = fst ` set (seen @ [(item, t)])"
    using v by (auto simp: countTrace_values)
  moreover have "distinct (tcTids c) \<and> set (tcTids c) = {u. (tcValue c, u) \<in> set (seen @ [(item, t)])}"
    if c: "c \<in> set (countTrace item t cs)" for c
    using countTrace_mem [OF d c]
  proof (elim disjE bexE conjE)
    assume "c \<in> set cs" "tcValue c \<noteq> item"
    then show ?thesis using e [of c] by auto
  next
    fix c0 assume "c0 \<in> set cs" "tcValue c0 = item" "c = c0\<lparr>tcTids := addTid t (tcTids c0)\<rparr>"
    then show ?thesis using e [of c0] by (auto simp: addTid_def)
  next
    assume new: "item \<notin> set (map tcValue cs)" "c = \<lparr>tcValue = item, tcTids = [t]\<rparr>"
    then have "(item, u) \<notin> set seen" for u using v by force
    then show ?thesis using new by auto
  qed
  ultimately show ?thesis by (auto simp: counted_def)
qed

lemma counted_fold: "counted seen cs \<Longrightarrow> counted (seen @ xs) (fold (\<lambda>(item, t). countTrace item t) xs cs)"
proof (induction xs arbitrary: seen cs)
  case (Cons x xs)
  obtain item t where x: "x = (item, t)" by fastforce
  show ?case using Cons.IH [OF counted_step [OF Cons.prems, of item t]] by (simp add: x)
qed simp

section \<open>Properties\<close>

text \<open>A stand-alone server, and workloads whose setup fails when they are named \<open>bad\<close>.\<close>

definition exampleRunner :: "(string, unit) runner_env" where
  "exampleRunner = \<lparr>clEnv = exampleEnv,
     setupFn = (\<lambda>w d db c. if w = ''bad'' then raise (Err ''setup'') else ret d),
     teardownFn = (\<lambda>w d db c. ret d), dropCollection = (\<lambda>d c. ret ()),
     dropDatabase = (\<lambda>d. ret (JObj [(''ok'', jnum 1), (''dropped'', JStr d)])), seedInt = ret 1, countFailed = ret 0,
     joinThread = (\<lambda>t. ret (JObj [(''ok'', jnum 1)])), sessionTimes = ret ([], []),
     loadWorkload = (\<lambda>w. ret exampleConfig), exnString = (\<lambda>e. ''error''), exnStack = (\<lambda>e. ''stack''),
     stringify = (\<lambda>ts. ''[]''), errStackLength = (\<lambda>m. 0), shuffle = (\<lambda>g xs. (xs, g))\<rparr>"

definition exampleRunnerState :: "unit runner_state" where
  "exampleRunnerState = \<lparr>rMgr = exampleMgr\<lparr>tmCluster := \<lparr>clOptions = JObj [], clConn = Some ''m'', secondaryConns = [],
       clSt = None, clInitialized = True, connsMongos = [], connsMongod = [''m''], nextConn = 0, replSets = [],
       clRst = None, clTeardown = TeardownDefault, clWorld = ()\<rparr>\<rparr>,
     rErrors = [], configServerData = [], cleanup = [], rCleaned = [], rLevel = OWN_DB, dbCounter = 0,
     collCounter = 0\<rparr>"

definition exampleGroup :: "string list \<Rightarrow> unit outcome \<times> unit runner_state" where
  "exampleGroup ws = runWorkloadGroup exampleRunner ws (JObj []) False (JObj []) (jnum 100) [] (JObj []) exampleRunnerState"

text \<open>The group from the end of its preparation on: whatever happens, what was set up is cleaned up.\<close>

lemma group_rest:
  assumes h1: "hist [] c s1" and "r \<noteq> Diverge"
    and rest: "bindE (tryCatch (seqE (groupBody env ws cmps eo mx) (ret None)) (\<lambda>e. ret (Some e)))
      (\<lambda>f. bindE (groupTeardown env ws bl cu f) (groupEnd env ws co bl)) s1 = (r, s')"
  shows "hist (bodySetups env ws mx s1) (c @ bodySetups env ws mx s1) s' \<and>
    (r = Val () \<longrightarrow> bodySetups env ws mx s1 = ws \<and> rErrors s' = [])"
proof -
  let ?B = "bodySetups env ws mx s1"
  obtain r2 s2 where 2: "groupBody env ws cmps eo mx s1 = (r2, s2)" by fastforce
  from groupBody_registers [OF 2] h1 have k: "hist ?B c s2" "r2 = Val () \<longrightarrow> ?B = ws" by (auto simp: hist_def)
  define f where "f = (case r2 of Throw e \<Rightarrow> Some e | _ \<Rightarrow> None)"
  have "r2 \<noteq> Diverge" using rest assms(2) 2 by (auto simp: bindE_def tryCatch_def seqE_def)
  then have "tryCatch (seqE (groupBody env ws cmps eo mx) (ret None)) (\<lambda>e. ret (Some e)) s1 = (Val f, s2)"
    using 2 by (cases r2) (auto simp: tryCatch_def seqE_def bindE_def ret_def f_def)
  then have rest2: "bindE (groupTeardown env ws bl cu f) (groupEnd env ws co bl) s2 = (r, s')"
    using rest by (simp add: bindE_simps(1))
  obtain r3 s3 where 3: "groupTeardown env ws bl cu f s2 = (r3, s3)" by fastforce
  have "r3 \<noteq> Diverge" using rest2 assms(2) 3 by (auto simp: bindE_def)
  note h3 = groupTeardown_hist [OF 3 this]
  have here: "hist ?B (c @ ?B) s3" using h3 k(1) by (simp add: hist_def)
  have fin: "r3 = Val b \<Longrightarrow> groupEnd env ws co bl b s3 = (r, s') \<and> r2 = Val ()" for b
    using rest2 3 h3 \<open>r2 \<noteq> Diverge\<close> by (cases r2) (auto simp: bindE_simps(1) f_def)
  have "hist ?B (c @ ?B) s'"
  proof (cases r3)
    case (Val b)
    then show ?thesis using fin keepsD [OF keeps_groupEnd here, of env ws co bl b] by simp
  qed (use rest2 3 here in \<open>simp_all add: bindE_def\<close>)
  moreover have "r = Val () \<Longrightarrow> ?B = ws \<and> rErrors s' = []"
    using fin groupEnd_errors k(2) rest2 3 by (cases r3) (auto simp: bindE_def)
  ultimately show ?thesis by blast
qed

text \<open>
  C4. However a group of workloads ends, by an exception in the preparation, in a setup, while spawning
  or joining threads, or normally, exactly the workloads whose setup returned are cleaned up, each
  once and in the order they were set up; and a group that returns has set up and cleaned up all of
  its workloads and recorded no failure.
\<close>

theorem group_cleanup_exact:
  assumes "runWorkloadGroup env ws co cmps eo mx bl cu s = (r, s')" and "r \<noteq> Diverge"
  shows "rCleaned s' = rCleaned s @ groupSetups env ws co eo mx s \<and>
    (r = Val () \<longrightarrow> groupSetups env ws co eo mx s = ws \<and> rErrors s' = [])"
proof -
  let ?s0 = "s\<lparr>cleanup := []\<rparr>"
  obtain r1 s1 where 1: "prepareCollections env ws co eo ?s0 = (r1, s1)" by fastforce
  have h1: "hist [] (rCleaned s) s1"
    using keepsD [OF keeps_prepareCollections, of "[]" "rCleaned s" ?s0 env ws co eo] 1 by (simp add: hist_def)
  have run: "runWorkloadGroup env ws co cmps eo mx bl cu s =
      (case r1 of
         Val _ \<Rightarrow> bindE (tryCatch (seqE (groupBody env ws cmps eo mx) (ret None)) (\<lambda>e. ret (Some e)))
            (\<lambda>f. bindE (groupTeardown env ws bl cu f) (groupEnd env ws co bl)) s1
       | Throw e \<Rightarrow> (Throw e, s1) | Diverge \<Rightarrow> (Diverge, s1))"
    using 1 by (simp add: runWorkloadGroup_def seqE_def bindE_simps(1) [OF eff_simps(5)] bindE_def [of "prepareCollections env ws co eo"]
        split: outcome.split)
  show ?thesis
  proof (cases r1)
    case (Val u)
    then have "bindE (tryCatch (seqE (groupBody env ws cmps eo mx) (ret None)) (\<lambda>e. ret (Some e)))
        (\<lambda>f. bindE (groupTeardown env ws bl cu f) (groupEnd env ws co bl)) s1 = (r, s')"
      using run assms(1) by simp
    from group_rest [OF h1 assms(2) this] show ?thesis using 1 Val by (simp add: groupSetups_def hist_def)
  qed (use assms run h1 1 in \<open>auto simp: groupSetups_def hist_def\<close>)
qed

theorem group_cleanup_exact_witness:
  "rCleaned (snd (exampleGroup [''bad'', ''b''])) = [] \<and> fst (exampleGroup [''bad'', ''b'']) = Throw (Err ''setup'')"
proof -
  have t: "fst (exampleGroup [''bad'', ''b'']) = Throw (Err ''setup'')" by code_simp
  have "runWorkloadGroup exampleRunner [''bad'', ''b''] (JObj []) False (JObj []) (jnum 100) [] (JObj [])
      exampleRunnerState = (Throw (Err ''setup''), snd (exampleGroup [''bad'', ''b'']))"
    using t unfolding exampleGroup_def by (metis prod.collapse)
  moreover have "groupSetups exampleRunner [''bad'', ''b''] (JObj []) (JObj []) (jnum 100) exampleRunnerState = []"
    by code_simp
  ultimately show ?thesis using group_cleanup_exact t by (fastforce simp: exampleRunnerState_def)
qed

text \<open>
  C14. The assertion level a run chooses is sound for the namespaces it prepares: assertions that need a
  collection of their own are only switched on when no two workloads of a group share a collection,
  and those that need a database of their own only when no two share a database; a composed run,
  which shares both, makes only the assertions that always hold.
\<close>

theorem owned_assertions_sound:
  assumes "prepareCollections env ws co eo s = (Val (), s')" and "distinct ws"
  shows "(compareTo OWN_COLL (assertLevelFor co) \<le> 0 \<longrightarrow> inj_on (\<lambda>w. ctxCollName (ctxOf s' w)) (set ws)) \<and>
         (compareTo OWN_DB (assertLevelFor co) \<le> 0 \<longrightarrow> inj_on (\<lambda>w. ctxDbName (ctxOf s' w)) (set ws)) \<and>
         assertLevelFor (modeClusterOptions True co) = ALWAYS"
  using prepared_namespaces [OF assms]
  by (auto simp: assertLevelFor_def modeClusterOptions_def level_defs split: if_splits)

theorem owned_assertions_sound_witness:
  "inj_on (\<lambda>w. ctxDbName (ctxOf (snd (prepareCollections exampleRunner [''a'', ''b''] (JObj []) (JObj []) exampleRunnerState)) w))
     {''a'', ''b''}"
proof -
  have "fst (prepareCollections exampleRunner [''a'', ''b''] (JObj []) (JObj []) exampleRunnerState) = Val ()" by code_simp
  then have "prepareCollections exampleRunner [''a'', ''b''] (JObj []) (JObj []) exampleRunnerState =
      (Val (), snd (prepareCollections exampleRunner [''a'', ''b''] (JObj []) (JObj []) exampleRunnerState))"
    by (metis prod.collapse)
  from owned_assertions_sound [OF this] show ?thesis by (simp add: assertLevelFor_def level_defs fld_def)
qed

text \<open>
  The table of failures of a group lists every distinct trace once, with exactly the threads that
  threw it, and its frequency is the number of those threads.
\<close>

theorem freqCount_exact:
  assumes "length traces = length tids" and "c \<in> set (freqCount traces tids)"
  shows "distinct (map tcValue (freqCount traces tids)) \<and>
    set (map tcValue (freqCount traces tids)) = set traces \<and>
    set (tcTids c) = {t. (tcValue c, t) \<in> set (zip traces tids)} \<and>
    tcFreq c = card {t. (tcValue c, t) \<in> set (zip traces tids)}"
proof -
  have "counted ([] @ zip traces tids) (freqCount traces tids)"
    unfolding freqCount_def by (rule counted_fold) (simp add: counted_def)
  moreover have "fst ` set (zip traces tids) = set traces"
    using assms(1) by (metis list.set_map map_fst_zip)
  ultimately have c: "distinct (map tcValue (freqCount traces tids))"
    "set (map tcValue (freqCount traces tids)) = set traces"
    "distinct (tcTids c)" "set (tcTids c) = {t. (tcValue c, t) \<in> set (zip traces tids)}"
    using assms(2) by (simp_all add: counted_def)
  then show ?thesis by (metis tcFreq_def distinct_card)
qed

theorem freqCount_exact_witness:
  "tcFreq \<lparr>tcValue = ''t'', tcTids = [jnum 1, jnum 2]\<rparr> =
     card {t. (''t'', t) \<in> set (zip [''t'', ''u'', ''t''] [jnum 1, jnum 1, jnum 2])}"
proof -
  have "\<lparr>tcValue = ''t'', tcTids = [jnum 1, jnum 2]\<rparr> \<in> set (freqCount [''t'', ''u'', ''t''] [jnum 1, jnum 1, jnum 2])"
    by code_simp
  from freqCount_exact [OF _ this] show ?thesis by simp
qed

text \<open>
  The frequency is not the number of occurrences, as the comment on \<open>freqCount\<close> says: a trace
  recorded twice by the main thread, as two failing teardowns do, is reported with frequency one.
\<close>

theorem freqCount_not_occurrences:
  "freqCount [''t'', ''t''] [JStr ''main'', JStr ''main''] = [\<lparr>tcValue = ''t'', tcTids = [JStr ''main'']\<rparr>] \<and>
   map tcFreq (freqCount [''t'', ''t''] [JStr ''main'', JStr ''main'']) = [1] \<and> count_list [''t'', ''t''] ''t'' = 2"
  by (simp add: freqCount_def addTid_def tcFreq_def)

end
