(* ===== verification/Resmoke.thy ===== *)
theory Resmoke
  imports Runner
begin

text \<open>
  The entry point of the concurrency suites, \<open>fsm_libs/resmoke_runner.js\<close>: the options of the run are
  derived from the discovered topology and from \<open>TestData\<close>, and one group of workloads is run with
  the hand-shake, over three files, that starts and stops the thread stepping down primaries.
  \<open>writeFile\<close> and the wait for the acknowledgement file are parameters.
\<close>

section \<open>Model\<close>

subsection \<open>Options\<close>

definition orFalse :: "jsval \<Rightarrow> jsval" where
  "orFalse v = js_or v (JBool False)"

definition ownOr :: "jsval \<Rightarrow> string \<Rightarrow> jsval \<Rightarrow> jsval" where
  "ownOr td k d = (if has_own td k then fld td k else d)"

text \<open>The literal the script starts from, then the changes a topology makes to it.\<close>

definition resmokeTopologyOptions :: "jsval \<Rightarrow> topology \<Rightarrow> jsval result" where
  "resmokeTopologyOptions td t =
     (case t of
        ReplicaSet primary nodes \<Rightarrow>
          Inr (JObj [(''replication'', JObj [(''enabled'', JBool True), (''numNodes'', jnum (int (length nodes)))]),
                     (''sharded'', JObj [(''enabled'', JBool False)])])
      | ShardedCluster configsvr shards mongos \<Rightarrow>
          Inr (JObj [(''replication'', JObj [(''enabled'', orFalse (fld td ''usingReplicaSetShards''))]),
                     (''sharded'', JObj
                       [(''enabled'', JBool True),
                        (''enableAutoSplit'', ownOr td ''runningWithAutoSplit'' (JBool True)),
                        (''enableBalancer'', ownOr td ''runningWithBalancer'' (JBool True)),
                        (''numMongos'', jnum (int (length (topology_nodes mongos)))),
                        (''numShards'', jnum (int (length shards))),
                        (''stepdownOptions'', JObj
                          [(''configStepdown'', orFalse (fld td ''runningWithConfigStepdowns'')),
                           (''shardStepdown'', orFalse (fld td ''runningWithShardStepdowns''))])])])
      | Standalone mongod \<Rightarrow>
          Inr (JObj [(''replication'', JObj [(''enabled'', JBool False)]), (''sharded'', JObj [(''enabled'', JBool False)])])
      | Router nodes \<Rightarrow> Inl (Err ''Unrecognized topology format''))"

text \<open>\<open>None\<close> is \<open>TestData.discoverTopology === false\<close>: the options of a stand-alone server.\<close>

definition resmokeClusterOptions :: "jsval \<Rightarrow> topology option \<Rightarrow> jsval result" where
  "resmokeClusterOptions td t =
     rbind (case t of
              None \<Rightarrow> Inr (JObj [(''replication'', JObj [(''enabled'', JBool False)]),
                                 (''sharded'', JObj [(''enabled'', JBool False)])])
            | Some t \<Rightarrow> resmokeTopologyOptions td t) (\<lambda>options.
     Inr (set_prop ''sameCollection'' (fld td ''sameCollection'') (set_prop ''sameDB'' (fld td ''sameDB'') options)))"

definition resmokeSessionOptions :: "jsval \<Rightarrow> jsval" where
  "resmokeSessionOptions td =
     (let causal = fld td ''runningWithCausalConsistency'';
          so = JObj [];
          so = (if causal \<noteq> Undef
                then let so = set_prop ''causalConsistency'' causal so
                     in if truthy causal then set_prop ''readPreference'' (JObj [(''mode'', JStr ''secondary'')]) so else so
                else so)
      in if truthy (fld td ''runningWithConfigStepdowns'') \<or> truthy (fld td ''runningWithShardStepdowns'')
         then set_prop ''retryWrites'' (JBool True) so else so)"

definition resmokeExecutionOptions :: "jsval \<Rightarrow> jsval" where
  "resmokeExecutionOptions td =
     (let so = resmokeSessionOptions td;
          prefix = to_str (js_or (fld td ''resmokeDbPathPrefix'') (JStr ''.''));
          eo = JObj [(''dbNamePrefix'', js_or (fld td ''dbNamePrefix'') (JStr []))];
          eo = (if truthy (fld td ''useStepdownPermittedFile'')
                then set_prop ''stepdownFiles'' (JObj
                       [(''permitted'', JStr (prefix @ ''/permitted'')), (''idleRequest'', JStr (prefix @ ''/idle_request'')),
                        (''idleAck'', JStr (prefix @ ''/idle_ack''))]) eo
                else eo)
      in if length (obj_keys so) > 0 \<or> truthy (fld td ''runningWithSessions'')
         then set_prop ''sessionOptions'' so eo else eo)"

subsection \<open>The run\<close>

record ('c, 'w) resmoke_env =
  runEnv :: "('c, 'w) runner_env"
  writeFile :: "string \<Rightarrow> ('w, unit) eff"
  awaitFile :: "string \<Rightarrow> ('w, unit) eff"       \<comment> \<open>\<open>assert.soonNoExcept\<close> on \<open>cat(file)\<close>\<close>

definition resmokeCleanupWorkload :: "('c, 'w) runner_env \<Rightarrow> string \<Rightarrow> string \<Rightarrow> ('w runner_state, bool) eff" where
  "resmokeCleanupWorkload env header workload =
     seqE (modE (\<lambda>s. s\<lparr>rCleaned := rCleaned s @ [workload]\<rparr>))
       (guarded env (header @ '' Teardown'') (teardownWorkload env workload))"

definition usesSnapshotReadConcern :: "jsval \<Rightarrow> bool" where
  "usesSnapshotReadConcern td \<longleftrightarrow>
     \<not> has_own td ''defaultTransactionReadConcernLevel'' \<or>
     fld td ''defaultTransactionReadConcernLevel'' = JStr ''snapshot''"

definition afterSetup :: "('c, 'w) resmoke_env \<Rightarrow> jsval \<Rightarrow> jsval \<Rightarrow> ('w runner_state, unit) eff" where
  "afterSetup env td executionOptions =
     (let files = fld executionOptions ''stepdownFiles''; re = runEnv env in
      bindE (getE rOptions) (\<lambda>options.
      seqE (if isReplication options \<and> files \<noteq> Undef then onCl (awaitReplication (clEnv re)) else ret ())
     (seqE (if isSharded options \<and> truthy (fld td ''runInsideTransaction'') \<and> usesSnapshotReadConcern td
            then onCl (synchronizeMongosClusterTimes (clEnv re)) else ret ())
        (if files \<noteq> Undef then onW (writeFile env (to_str (fld files ''permitted''))) else ret ()))))"

definition stopStepdowns :: "('c, 'w) resmoke_env \<Rightarrow> jsval \<Rightarrow> ('w runner_state, unit) eff" where
  "stopStepdowns env executionOptions =
     (let files = fld executionOptions ''stepdownFiles'' in
      if files \<noteq> Undef
      then seqE (onW (writeFile env (to_str (fld files ''idleRequest''))))
             (onW (awaitFile env (to_str (fld files ''idleAck''))))
      else ret ())"

definition resmokeBody ::
  "('c, 'w) resmoke_env \<Rightarrow> jsval \<Rightarrow> string list \<Rightarrow> jsval \<Rightarrow> ('w runner_state, unit) eff" where
  "resmokeBody env td workloads executionOptions =
     (let re = runEnv env in
      seqE (initManager workloads (jnum (100 * int_of (fld executionOptions ''threadMultiplier''))))
     (seqE (setupEach re workloads)
     (seqE (afterSetup env td executionOptions)
     (bindE (threadOptions re executionOptions) (\<lambda>options.
      tryFinally (runThreads re False options) (stopStepdowns env executionOptions))))))"

definition resmokeTeardown :: "('c, 'w) resmoke_env \<Rightarrow> exn option \<Rightarrow> ('w runner_state, unit) eff" where
  "resmokeTeardown env failure =
     (let re = runEnv env in
      bindE (getE rOptions) (\<lambda>options.
      seqE (if shouldPerformContinuousStepdowns options
            then onCl (reestablishConnectionsAfterFailover (clEnv re)) else ret ())
     (bindE (getE cleanup) (\<lambda>ws.
      bindE (mapE (resmokeCleanupWorkload re ''Foreground'') ws) (\<lambda>_.
      case failure of Some e \<Rightarrow> raise e | None \<Rightarrow> ret ())))))"

definition resmokeGroup ::
  "('c, 'w) resmoke_env \<Rightarrow> jsval \<Rightarrow> string list \<Rightarrow> jsval \<Rightarrow> ('w runner_state, unit) eff" where
  "resmokeGroup env td workloads executionOptions =
     seqE (modE (\<lambda>s. s\<lparr>cleanup := [], rErrors := []\<rparr>))
    (seqE (onCl (cluster_setup (clEnv (runEnv env))))
    (bindE (getE rOptions) (\<lambda>options.
     seqE (prepareCollections (runEnv env) workloads options executionOptions)
    (bindE (tryCatch (seqE (resmokeBody env td workloads executionOptions) (ret None)) (\<lambda>e. ret (Some e))) (\<lambda>failure.
     seqE (resmokeTeardown env failure)
    (bindE (getE rErrors) (\<lambda>errors.
     seqE (throwError (runEnv env) errors)
       (onCl (cluster_teardown (clEnv (runEnv env)))))))))))"

definition resmokeRunWorkloads ::
  "('c, 'w) resmoke_env \<Rightarrow> jsval \<Rightarrow> string list \<Rightarrow> jsval \<Rightarrow> jsval \<Rightarrow> ('w runner_state, unit) eff" where
  "resmokeRunWorkloads env td workloads clusterOptions executionOptions0 =
     seqE (assertE (length workloads > 0) ''need at least one workload to run'')
    (bindE (liftE (validateExecutionOptions (JObj [(''serial'', JBool True)]) executionOptions0)) (\<lambda>executionOptions.
     seqE (modE (\<lambda>s. s\<lparr>rLevel := assertLevelFor clusterOptions\<rparr>))
    (seqE (loadWorkloadContext (runEnv env) workloads executionOptions True)
    (bindE (getE (\<lambda>s. clWorld (tmCluster (rMgr s)))) (\<lambda>w.
     bindE (liftE (newCluster clusterOptions w)) (\<lambda>cl.
     seqE (onMgr (modE (\<lambda>t. t\<lparr>tmCluster := cl\<rparr>)))
       (resmokeGroup env td workloads executionOptions)))))))"

section \<open>Lemmas\<close>

lemma keeps_afterSetup [keeps_rules]: "keeps (hist c d) (afterSetup env td eo)"
  unfolding afterSetup_def Let_def by (intro keeps_rules)

lemma keeps_stopStepdowns [keeps_rules]: "keeps (hist c d) (stopStepdowns env eo)"
  unfolding stopStepdowns_def Let_def by (intro keeps_rules)

lemma keeps_resmokeThreads [keeps_rules]:
  "keeps (hist c d) (bindE (threadOptions env eo) (\<lambda>o'. tryFinally (runThreads env cmps o') m))"
  if "keeps (hist c d) m"
  unfolding threadOptions_def runThreads_def joinThreads_def Let_def
  by (intro keeps_rules that) (auto intro!: keeps_rules simp: hist_def that)

text \<open>A flag of \<open>TestData\<close>: a boolean, or not there.\<close>

definition flagOk :: "jsval \<Rightarrow> bool" where
  "flagOk v \<longleftrightarrow> v = Undef \<or> typeof v = ''boolean''"

definition flags :: "string list" where
  "flags = [''usingReplicaSetShards'', ''runningWithAutoSplit'', ''runningWithBalancer'',
     ''runningWithConfigStepdowns'', ''runningWithShardStepdowns'', ''sameDB'', ''sameCollection'']"

lemma flagOk_keys: "flagOk v \<Longrightarrow> getObjectKeys v = Inr []"
  by (cases v) (auto simp: flagOk_def)

lemma flagOk_typeof: "flagOk v \<Longrightarrow> typeof (js_or v (JBool False)) = ''boolean''"
  by (cases v) (auto simp: flagOk_def js_or_def)

lemma orFalse_facts:
  assumes "flagOk v"
  shows "getObjectKeys (orFalse v) = Inr []" "flagOk (orFalse v)" "js_or (orFalse v) (JBool False) = orFalse v"
    "typeof (orFalse v) = ''boolean''" "orFalse v \<noteq> Undef"
  using assms by (cases v; auto simp: flagOk_def orFalse_def js_or_def)+

lemma flagOk_ownOr: "flagOk (fld td k) \<Longrightarrow> flagOk (ownOr td k (JBool True))"
  by (simp add: ownOr_def flagOk_def)

lemma num_default: "typeof (js_or (JNum x) (JNum y)) = ''number''"
  by (simp add: js_or_def)

lemma functions_default:
  assumes "fld options which = Undef"
  shows "\<exists>v. validateFunctions which options = Inr (set_prop which v options)"
  using assms
  by (simp add: validateFunctions_def functionList_def defaulted_def js_or_def Let_def fld_def) blast

text \<open>The two shapes of options the script builds pass the validation.\<close>

lemma options_shape:
  assumes "validateReplication options = Inr o1" and "validateSharing o1 = Inr o2"
    and "validateSharded o2 = Inr o3" and "getObjectKeys options = Inr ks" and "set ks \<subseteq> set clusterAllowedKeys"
    and "fld options ''setupFunctions'' = Undef" and "fld options ''teardownFunctions'' = Undef"
  shows "\<exists>o'. validateClusterOptions options = Inr o' \<and> isReplication o' = isReplication o3 \<and> isSharded o' = isSharded o3"
proof -
  have none: "fld o3 ''setupFunctions'' = Undef" "fld o3 ''teardownFunctions'' = Undef"
    using validateReplication_Inr [OF assms(1)] validateSharing_Inr [OF assms(2)] validateSharded_Inr [OF assms(3)]
      assms(6,7) by simp_all
  obtain v where v: "validateFunctions ''setupFunctions'' o3 = Inr (set_prop ''setupFunctions'' v o3)"
    using functions_default [OF none(1)] by blast
  obtain u where u: "validateFunctions ''teardownFunctions'' (set_prop ''setupFunctions'' v o3) =
      Inr (set_prop ''teardownFunctions'' u (set_prop ''setupFunctions'' v o3))"
    using functions_default [of "set_prop ''setupFunctions'' v o3" "''teardownFunctions''"] none(2) by auto
  have req: "require_each (\<lambda>option. require (option \<in> set clusterAllowedKeys) (''invalid option: '' @ option) (Inr ())) ks = Inr ()"
    using assms(5) by auto
  then have "validateClusterOptions options = Inr (set_prop ''teardownFunctions'' u (set_prop ''setupFunctions'' v o3))"
    unfolding validateClusterOptions_def by (simp only: assms(1-4) rbind_simps req v u)
  then show ?thesis by (simp add: isReplication_def isSharded_def)
qed

lemma fld_cons: "fld (JObj []) k = Undef" "fld (JObj ((k', v) # kvs)) k = (if k = k' then v else fld (JObj kvs) k)"
  by (simp_all add: fld_def)

lemma of_nat_int: "\<exists>i. (of_nat n :: rat) = of_int i"
  by (rule exI [of _ "int n"]) simp

lemma is_obj_js_or: "is_obj r \<Longrightarrow> js_or r d = r \<and> typeof r = ''object''"
  by (cases r) (simp_all add: js_or_def)

lemma replication_ok:
  assumes "fld options ''replication'' = r" and "is_obj r" and "flagOk (fld r ''enabled'')"
    and "fld r ''numNodes'' = Undef \<or> truthy (fld r ''enabled'') \<and> (\<exists>i. fld r ''numNodes'' = jnum i)"
  shows "\<exists>o'. validateReplication options = Inr o' \<and> isReplication o' = truthy (fld r ''enabled'')"
  using assms is_obj_js_or [OF assms(2)] flagOk_typeof [OF assms(3)]
  by (auto simp: validateReplication_def gatedOption_Inr fld_defaulted Let_def isReplication_def num_default js_or_def
      [of Undef])

lemma sharing_ok:
  assumes "flagOk (fld options ''sameDB'')" and "flagOk (fld options ''sameCollection'')"
  shows "\<exists>o'. validateSharing options = Inr o'"
  using assms by (simp add: validateSharing_def Let_def fld_defaulted flagOk_typeof)

lemma sharded_ok:
  assumes "fld options ''sharded'' = r" and "is_obj r" and "flagOk (fld r ''enabled'')"
    and "\<forall>k \<in> {''enableAutoSplit'', ''enableBalancer''}. flagOk (fld r k) \<and> (fld r k \<noteq> Undef \<longrightarrow> truthy (fld r ''enabled''))"
    and "\<forall>k \<in> {''numMongos'', ''numShards''}. fld r k = Undef \<or> truthy (fld r ''enabled'') \<and> (\<exists>i. fld r k = jnum i)"
  shows "\<exists>o'. validateSharded options = Inr o' \<and> isSharded o' = truthy (fld r ''enabled'')"
  using assms is_obj_js_or [OF assms(2)] flagOk_typeof
  by (auto simp: validateSharded_def gatedOption_Inr fld_defaulted Let_def isSharded_def num_default js_or_def [of Undef])

text \<open>The parts of the derived options, and why each of them is valid.\<close>

definition testDataOk :: "jsval \<Rightarrow> bool" where
  "testDataOk td \<longleftrightarrow> (\<forall>k \<in> set flags. flagOk (fld td k))"

definition replicationPart :: "jsval \<Rightarrow> topology \<Rightarrow> jsval" where
  "replicationPart td t =
     (case t of ReplicaSet _ nodes \<Rightarrow> JObj [(''enabled'', JBool True), (''numNodes'', jnum (int (length nodes)))]
      | ShardedCluster _ _ _ \<Rightarrow> JObj [(''enabled'', orFalse (fld td ''usingReplicaSetShards''))]
      | _ \<Rightarrow> JObj [(''enabled'', JBool False)])"

definition shardedPart :: "jsval \<Rightarrow> topology \<Rightarrow> jsval" where
  "shardedPart td t =
     (case t of ShardedCluster configsvr shards mongos \<Rightarrow>
         JObj [(''enabled'', JBool True), (''enableAutoSplit'', ownOr td ''runningWithAutoSplit'' (JBool True)),
               (''enableBalancer'', ownOr td ''runningWithBalancer'' (JBool True)),
               (''numMongos'', jnum (int (length (topology_nodes mongos)))), (''numShards'', jnum (int (length shards))),
               (''stepdownOptions'', JObj
                  [(''configStepdown'', orFalse (fld td ''runningWithConfigStepdowns'')),
                   (''shardStepdown'', orFalse (fld td ''runningWithShardStepdowns''))])]
      | _ \<Rightarrow> JObj [(''enabled'', JBool False)])"

abbreviation replicated :: "jsval \<Rightarrow> topology \<Rightarrow> bool" where
  "replicated td t \<equiv> (case t of ReplicaSet _ _ \<Rightarrow> True
     | ShardedCluster _ _ _ \<Rightarrow> truthy (fld td ''usingReplicaSetShards'') | _ \<Rightarrow> False)"

abbreviation isShardedTopology :: "topology \<Rightarrow> bool" where
  "isShardedTopology t \<equiv> (case t of ShardedCluster _ _ _ \<Rightarrow> True | _ \<Rightarrow> False)"

lemma testDataOk_flags:
  assumes "testDataOk td"
  shows "flagOk (fld td ''usingReplicaSetShards'')" "flagOk (ownOr td ''runningWithAutoSplit'' (JBool True))"
    "flagOk (ownOr td ''runningWithBalancer'' (JBool True))" "flagOk (fld td ''runningWithConfigStepdowns'')"
    "flagOk (fld td ''runningWithShardStepdowns'')" "flagOk (fld td ''sameDB'')" "flagOk (fld td ''sameCollection'')"
  using assms by (simp_all add: testDataOk_def flags_def flagOk_ownOr)

lemma options_parts:
  assumes "discovered t" and "testDataOk td"
  shows "\<exists>options ks. resmokeClusterOptions td (Some t) = Inr options \<and>
    fld options ''replication'' = replicationPart td t \<and> fld options ''sharded'' = shardedPart td t \<and>
    fld options ''sameDB'' = fld td ''sameDB'' \<and> fld options ''sameCollection'' = fld td ''sameCollection'' \<and>
    fld options ''setupFunctions'' = Undef \<and> fld options ''teardownFunctions'' = Undef \<and>
    getObjectKeys options = Inr ks \<and> set ks \<subseteq> set clusterAllowedKeys"
  using assms(1)
  by (cases t)
    (simp_all add: resmokeClusterOptions_def resmokeTopologyOptions_def replicationPart_def shardedPart_def
      set_prop_def keyPaths_def fld_cons flagOk_keys testDataOk_flags [OF assms(2)] orFalse_facts(1) clusterAllowedKeys_def)

lemma replicationPart_ok:
  assumes "testDataOk td"
  shows "is_obj (replicationPart td t)" "flagOk (fld (replicationPart td t) ''enabled'')"
    "fld (replicationPart td t) ''numNodes'' = Undef \<or>
     truthy (fld (replicationPart td t) ''enabled'') \<and> (\<exists>i. fld (replicationPart td t) ''numNodes'' = jnum i)"
    "truthy (fld (replicationPart td t) ''enabled'') = replicated td t"
proof -
  have bool: "flagOk (JBool b)" for b by (simp add: flagOk_def)
  have on: "truthy (orFalse v) = truthy v" for v by (simp add: orFalse_def)
  show "is_obj (replicationPart td t)" by (cases t) (simp_all add: replicationPart_def)
  show "flagOk (fld (replicationPart td t) ''enabled'')"
    by (cases t) (simp_all add: replicationPart_def fld_cons bool orFalse_facts(2) [OF testDataOk_flags(1) [OF assms]])
  show "fld (replicationPart td t) ''numNodes'' = Undef \<or>
     truthy (fld (replicationPart td t) ''enabled'') \<and> (\<exists>i. fld (replicationPart td t) ''numNodes'' = jnum i)"
    by (cases t) (simp_all add: replicationPart_def fld_cons of_nat_int)
  show "truthy (fld (replicationPart td t) ''enabled'') = replicated td t"
    by (cases t) (simp_all add: replicationPart_def fld_cons on)
qed

lemma shardedPart_ok:
  assumes "testDataOk td"
  shows "is_obj (shardedPart td t)" "flagOk (fld (shardedPart td t) ''enabled'')"
    "\<forall>k \<in> {''enableAutoSplit'', ''enableBalancer''}. flagOk (fld (shardedPart td t) k) \<and>
       (fld (shardedPart td t) k \<noteq> Undef \<longrightarrow> truthy (fld (shardedPart td t) ''enabled''))"
    "\<forall>k \<in> {''numMongos'', ''numShards''}. fld (shardedPart td t) k = Undef \<or>
       truthy (fld (shardedPart td t) ''enabled'') \<and> (\<exists>i. fld (shardedPart td t) k = jnum i)"
    "truthy (fld (shardedPart td t) ''enabled'') = isShardedTopology t"
  using testDataOk_flags(2,3) [OF assms]
  by (cases t; simp add: shardedPart_def fld_cons flagOk_def [of "JBool _"] flagOk_def [of Undef] of_nat_int)+

section \<open>Properties\<close>

text \<open>
  Whatever topology is discovered, and for any \<open>TestData\<close> whose flags are booleans or missing, the
  options the script derives pass the validation of \<open>Cluster\<close>, and the validated options describe
  that topology: sharded for a sharded cluster and only then, with replication for a replica set
  and, behind routers, when \<open>TestData\<close> says that the shards are replica sets.
\<close>

theorem resmoke_options_valid:
  assumes "discovered t" and "testDataOk td"
  shows "\<exists>options o'. resmokeClusterOptions td (Some t) = Inr options \<and> validateClusterOptions options = Inr o' \<and>
    isSharded o' = isShardedTopology t \<and> isReplication o' = replicated td t"
proof -
  obtain options ks where options: "resmokeClusterOptions td (Some t) = Inr options"
    and parts: "fld options ''replication'' = replicationPart td t" "fld options ''sharded'' = shardedPart td t"
      "fld options ''sameDB'' = fld td ''sameDB''" "fld options ''sameCollection'' = fld td ''sameCollection''"
    and none: "fld options ''setupFunctions'' = Undef" "fld options ''teardownFunctions'' = Undef"
    and keys: "getObjectKeys options = Inr ks" "set ks \<subseteq> set clusterAllowedKeys"
    using options_parts [OF assms] by blast
  obtain o1 where o1: "validateReplication options = Inr o1" "isReplication o1 = replicated td t"
    using replication_ok [OF parts(1) replicationPart_ok(1-3) [OF assms(2)]] replicationPart_ok(4) [OF assms(2)] by metis
  note keep1 = validateReplication_Inr [OF o1(1)]
  obtain o2 where o2: "validateSharing o1 = Inr o2"
    using sharing_ok [of o1] keep1 testDataOk_flags(6,7) [OF assms(2)] by (auto simp: parts)
  note keep2 = validateSharing_Inr [OF o2]
  have "fld o2 ''sharded'' = shardedPart td t" using keep1 keep2 by (simp add: parts)
  then obtain o3 where o3: "validateSharded o2 = Inr o3" "isSharded o3 = isShardedTopology t"
    using sharded_ok [OF _ shardedPart_ok(1-4) [OF assms(2)]] shardedPart_ok(5) [OF assms(2)] by metis
  have "isReplication o3 = isReplication o1"
    using keep2 validateSharded_Inr [OF o3(1)] by (simp add: isReplication_def)
  then show ?thesis
    using options_shape [OF o1(1) o2 o3(1) keys none] options o1(2) o3(2) by auto
qed

definition exampleTestData :: jsval where
  "exampleTestData = JObj [(''usingReplicaSetShards'', JBool True), (''sameDB'', JBool True)]"

theorem resmoke_options_valid_witness:
  "\<exists>options o'. resmokeClusterOptions exampleTestData
       (Some (ShardedCluster (Standalone ''c'') [(''s'', Standalone ''d'')] (Router [''m'']))) = Inr options \<and>
     validateClusterOptions options = Inr o' \<and> isSharded o' \<and> isReplication o'"
proof -
  have "testDataOk exampleTestData" by code_simp
  then show ?thesis
    using resmoke_options_valid [of "ShardedCluster (Standalone ''c'') [(''s'', Standalone ''d'')] (Router [''m''])"
        exampleTestData]
    by (simp add: exampleTestData_def fld_def)
qed

end
