(* ===== verification/Cycle_Detection.thy ===== *)
theory Cycle_Detection
  imports Js_Prelude
begin

text \<open>
  The directed graph of \<open>libs/cycle_detection.js\<close> and its search for a cycle.  Nodes are compared by
  equality, as the shell's maps and sets do; the state of the search is the map from nodes to
  their mark.  Each recursive call of the search visits a node not visited before, so the number of
  nodes is enough fuel for the recursion.
\<close>

section \<open>Model\<close>

record 'n graph =
  nodes :: "'n list"
  adjList :: "('n \<times> 'n list) list"

definition emptyGraph :: "'n graph" where
  "emptyGraph = \<lparr>nodes = [], adjList = []\<rparr>"

definition addTo :: "'n \<Rightarrow> 'n list \<Rightarrow> 'n list" where
  "addTo x xs = (if x \<in> set xs then xs else xs @ [x])"

definition neighbors :: "'n graph \<Rightarrow> 'n \<Rightarrow> 'n list" where
  "neighbors g n = (case map_of (adjList g) n of None \<Rightarrow> [] | Some ns \<Rightarrow> ns)"

definition addEdge :: "'n \<Rightarrow> 'n \<Rightarrow> 'n graph \<Rightarrow> 'n graph" where
  "addEdge fromNode toNode g =
     g\<lparr>nodes := addTo toNode (addTo fromNode (nodes g)),
       adjList := AList.update fromNode (addTo toNode (neighbors g fromNode)) (adjList g)\<rparr>"

datatype visit = NotYetVisited | VisitingInProgress | AlreadyVisited

type_synonym 'n marks = "'n \<Rightarrow> visit"

text \<open>The loop over the neighbours of a node; \<open>search\<close> is the recursive call.\<close>

fun visitNeighbors ::
  "('n \<Rightarrow> ('n marks, 'n list) eff) \<Rightarrow> 'n \<Rightarrow> 'n list \<Rightarrow> ('n marks, 'n list) eff" where
  "visitNeighbors search node [] = seqE (modE (\<lambda>state. state(node := AlreadyVisited))) (ret [])"
| "visitNeighbors search node (otherNode # rest) =
     bindE (getE (\<lambda>state. state otherNode)) (\<lambda>otherNodeState.
       if otherNodeState = AlreadyVisited then visitNeighbors search node rest
       else if otherNodeState = VisitingInProgress then ret [node, otherNode]
       else bindE (search otherNode) (\<lambda>result.
         if length result > 1
         then ret (if hd result \<noteq> last result then node # result else result)
         else visitNeighbors search node rest))"

fun doDepthFirstSearch :: "nat \<Rightarrow> 'n graph \<Rightarrow> 'n \<Rightarrow> ('n marks, 'n list) eff" where
  "doDepthFirstSearch 0 g node = diverge"
| "doDepthFirstSearch (Suc fuel) g node =
     bindE (getE (\<lambda>state. state node)) (\<lambda>nodeState.
       if nodeState \<noteq> NotYetVisited then raise (Err ''Found node unexpectedly in another state'')
       else seqE (modE (\<lambda>state. state(node := VisitingInProgress)))
              (visitNeighbors (doDepthFirstSearch fuel g) node (neighbors g node)))"

fun searchFrom :: "'n graph \<Rightarrow> 'n list \<Rightarrow> ('n marks, 'n list) eff" where
  "searchFrom g [] = ret []"
| "searchFrom g (node # rest) =
     bindE (getE (\<lambda>state. state node)) (\<lambda>nodeState.
       if nodeState = AlreadyVisited then searchFrom g rest
       else bindE (doDepthFirstSearch (length (nodes g)) g node) (\<lambda>result.
         if length result > 0 then ret result else searchFrom g rest))"

definition findCycle :: "'n graph \<Rightarrow> 'n list outcome" where
  "findCycle g = fst (searchFrom g (nodes g) (\<lambda>_. NotYetVisited))"

section \<open>The abstract graph\<close>

definition edges :: "'n graph \<Rightarrow> ('n \<times> 'n) set" where
  "edges g = {(a, b). b \<in> set (neighbors g a)}"

definition wf_graph :: "'n graph \<Rightarrow> bool" where
  "wf_graph g \<longleftrightarrow> distinct (nodes g) \<and> (\<forall>(a, b) \<in> edges g. a \<in> set (nodes g) \<and> b \<in> set (nodes g))"

definition graphOf :: "('n \<times> 'n) list \<Rightarrow> 'n graph" where
  "graphOf es = fold (\<lambda>(a, b). addEdge a b) es emptyGraph"

fun is_walk :: "('n \<times> 'n) set \<Rightarrow> 'n list \<Rightarrow> bool" where
  "is_walk E (a # b # xs) \<longleftrightarrow> (a, b) \<in> E \<and> is_walk E (b # xs)"
| "is_walk E _ \<longleftrightarrow> True"

lemma set_addTo [simp]: "set (addTo x xs) = insert x (set xs)"
  by (auto simp: addTo_def)

lemma distinct_addTo [simp]: "distinct (addTo x xs) = distinct xs"
  by (auto simp: addTo_def)

lemma edges_addEdge: "edges (addEdge a b g) = insert (a, b) (edges g)"
  by (auto simp: edges_def addEdge_def neighbors_def update_conv' split: option.splits if_splits)

lemma wf_addEdge: "wf_graph g \<Longrightarrow> wf_graph (addEdge a b g)"
  unfolding wf_graph_def edges_addEdge by (auto simp: addEdge_def)

lemma graphOf_refines: "wf_graph (graphOf es) \<and> edges (graphOf es) = set es"
proof -
  have "wf_graph g \<Longrightarrow> wf_graph (fold (\<lambda>(a, b). addEdge a b) es g) \<and>
      edges (fold (\<lambda>(a, b). addEdge a b) es g) = edges g \<union> set es" for g
    by (induction es arbitrary: g) (auto simp: wf_addEdge edges_addEdge)
  moreover have "wf_graph (emptyGraph :: 'a graph)" "edges (emptyGraph :: 'a graph) = {}"
    by (auto simp: wf_graph_def edges_def emptyGraph_def neighbors_def)
  ultimately show ?thesis by (simp add: graphOf_def)
qed

section \<open>Lemmas: the search\<close>

text \<open>
  The nodes in progress are the path from the root to the current node, and the visited nodes are
  closed under edges and lie on no cycle.
\<close>

definition search_inv :: "'n graph \<Rightarrow> 'n list \<Rightarrow> 'n marks \<Rightarrow> bool" where
  "search_inv g p st \<longleftrightarrow>
     set p = {n. st n = VisitingInProgress} \<and>
     (\<forall>a b. st a = AlreadyVisited \<and> (a, b) \<in> edges g \<longrightarrow> st b = AlreadyVisited) \<and>
     (\<forall>a. st a = AlreadyVisited \<longrightarrow> (a, a) \<notin> (edges g)\<^sup>+)"

definition unvisited :: "'n graph \<Rightarrow> 'n marks \<Rightarrow> 'n set" where
  "unvisited g st = {n \<in> set (nodes g). st n = NotYetVisited}"

definition progresses :: "'n graph \<Rightarrow> 'n marks \<Rightarrow> 'n marks \<Rightarrow> bool" where
  "progresses g st st' \<longleftrightarrow> unvisited g st' \<subseteq> unvisited g st \<and>
     (\<forall>n. st n = AlreadyVisited \<longrightarrow> st' n = AlreadyVisited)"

text \<open>What a search from \<open>node\<close> below the path \<open>p\<close> may answer.\<close>

definition answers :: "'n graph \<Rightarrow> 'n list \<Rightarrow> 'n \<Rightarrow> 'n marks \<Rightarrow> 'n list outcome \<times> 'n marks \<Rightarrow> bool" where
  "answers g p node st res \<longleftrightarrow>
     (\<exists>r st'. res = (Val r, st') \<and>
        (if r = [] then search_inv g p st' \<and> st' node = AlreadyVisited \<and> progresses g st st'
         else length r > 1 \<and> is_walk (edges g) r \<and> (hd r = last r \<or> hd r = node \<and> last r \<in> set p)))"

lemma finite_unvisited [simp]: "finite (unvisited g st)"
  by (simp add: unvisited_def)

lemma visited_closed:
  assumes "search_inv g p st" and "(a, b) \<in> (edges g)\<^sup>*" and "st a = AlreadyVisited"
  shows "st b = AlreadyVisited"
  using assms(2,3)
proof (induction rule: rtrancl_induct)
  case (step y z)
  then show ?case using assms(1) unfolding search_inv_def by blast
qed

text \<open>A node all of whose neighbours are visited can be marked visited.\<close>

lemma mark_visited:
  assumes inv: "search_inv g (p @ [node]) st" and "node \<notin> set p"
    and all: "\<forall>b \<in> set (neighbors g node). st b = AlreadyVisited"
  shows "search_inv g p (st(node := AlreadyVisited))"
proof -
  have prog: "st node = VisitingInProgress" using inv by (auto simp: search_inv_def)
  have "(node, node) \<notin> (edges g)\<^sup>+"
  proof
    assume "(node, node) \<in> (edges g)\<^sup>+"
    then obtain c where "(node, c) \<in> edges g" "(c, node) \<in> (edges g)\<^sup>*" by (meson tranclD)
    moreover have "st c = AlreadyVisited" using all calculation(1) by (simp add: edges_def)
    ultimately have "st node = AlreadyVisited" using visited_closed [OF inv] by blast
    then show False using prog by simp
  qed
  moreover have "set p = {n. (st(node := AlreadyVisited)) n = VisitingInProgress}"
    using inv assms(2) by (auto simp: search_inv_def)
  ultimately show ?thesis
    using inv all unfolding search_inv_def by (auto simp: edges_def)
qed

lemma progresses_trans: "progresses g st st' \<Longrightarrow> progresses g st' st'' \<Longrightarrow> progresses g st st''"
  unfolding progresses_def by blast

lemma answers_mono: "progresses g st st' \<Longrightarrow> answers g p node st' res \<Longrightarrow> answers g p node st res"
  unfolding answers_def using progresses_trans by (metis (full_types))

lemma visitNeighbors_answers:
  assumes search: "\<And>o' st. search_inv g (p @ [node]) st \<Longrightarrow> o' \<in> set (nodes g) \<Longrightarrow> st o' = NotYetVisited \<Longrightarrow>
      card (unvisited g st) \<le> fuel \<Longrightarrow> answers g (p @ [node]) o' st (search o' st)"
    and wf: "wf_graph g" and fresh: "node \<notin> set p"
  shows "search_inv g (p @ [node]) st \<Longrightarrow> set (neighbors g node) = set seen \<union> set ns \<Longrightarrow>
    \<forall>b \<in> set seen. st b = AlreadyVisited \<Longrightarrow> card (unvisited g st) \<le> fuel \<Longrightarrow>
    answers g p node st (visitNeighbors search node ns st)"
proof (induction ns arbitrary: seen st)
  case Nil
  have inv: "search_inv g p (st(node := AlreadyVisited))"
    using mark_visited [OF Nil.prems(1) fresh] Nil.prems(2,3) by simp
  have "progresses g st (st(node := AlreadyVisited))" by (auto simp: progresses_def unvisited_def)
  then show ?case using inv by (simp add: answers_def seqE_def bindE_def modE_def ret_def)
next
  case (Cons b ns)
  have edge: "(node, b) \<in> edges g" using Cons.prems(2) by (simp add: edges_def)
  show ?case
  proof (cases "st b")
    case AlreadyVisited
    then have "answers g p node st (visitNeighbors search node ns st)"
      using Cons.IH [of st "b # seen"] Cons.prems by simp
    then show ?thesis using AlreadyVisited by (simp add: bindE_def getE_def)
  next
    case VisitingInProgress
    then have "b \<in> set (p @ [node])" using Cons.prems(1) by (simp add: search_inv_def)
    then show ?thesis
      using VisitingInProgress edge by (auto simp: bindE_def getE_def ret_def answers_def)
  next
    case NotYetVisited
    have "b \<in> set (nodes g)" using wf edge by (auto simp: wf_graph_def)
    from search [OF Cons.prems(1) this NotYetVisited Cons.prems(4)]
    obtain r st' where r: "search b st = (Val r, st')" and
      ans: "if r = [] then search_inv g (p @ [node]) st' \<and> st' b = AlreadyVisited \<and> progresses g st st'
        else length r > 1 \<and> is_walk (edges g) r \<and> (hd r = last r \<or> hd r = b \<and> last r \<in> set (p @ [node]))"
      by (auto simp: answers_def)
    show ?thesis
    proof (cases "r = []")
      case True
      then have "card (unvisited g st') \<le> fuel"
        using ans Cons.prems(4) card_mono [OF finite_unvisited, of "unvisited g st'" g st]
        by (auto simp: progresses_def)
      then have "answers g p node st' (visitNeighbors search node ns st')"
        using Cons.IH [of st' "b # seen"] Cons.prems ans True by (auto simp: progresses_def)
      moreover have "visitNeighbors search node (b # ns) st = visitNeighbors search node ns st'"
        using True r NotYetVisited by (simp add: bindE_def getE_def)
      moreover have "progresses g st st'" using ans True by simp
      ultimately show ?thesis by (metis answers_mono)
    next
      case False
      then obtain c r' where cr: "r = c # r'" "r' \<noteq> []" using ans by (cases r) auto
      have run: "visitNeighbors search node (b # ns) st =
          (Val (if hd r \<noteq> last r then node # r else r), st')"
        using False ans r NotYetVisited by (simp add: bindE_def getE_def ret_def)
      show ?thesis
      proof (cases "hd r = last r")
        case True
        then show ?thesis using run False ans by (simp add: answers_def)
      next
        case unclosed: False
        then have "hd r = b" "last r \<in> set (p @ [node])" "is_walk (edges g) r" using ans False by auto
        then show ?thesis using run unclosed edge cr by (auto simp: answers_def)
      qed
    qed
  qed
qed

lemma doDepthFirstSearch_answers:
  "wf_graph g \<Longrightarrow> search_inv g p st \<Longrightarrow> node \<in> set (nodes g) \<Longrightarrow> st node = NotYetVisited \<Longrightarrow>
   card (unvisited g st) \<le> fuel \<Longrightarrow> answers g p node st (doDepthFirstSearch fuel g node st)"
proof (induction fuel arbitrary: p node st)
  case 0
  then have "unvisited g st = {}" by simp
  then show ?case using 0 by (auto simp: unvisited_def)
next
  case (Suc fuel)
  let ?st = "st(node := VisitingInProgress)"
  have inv: "search_inv g (p @ [node]) ?st"
    using Suc.prems(2,4) unfolding search_inv_def by (auto split: if_splits)
  have fresh: "node \<notin> set p" using Suc.prems(2,4) by (auto simp: search_inv_def)
  have "unvisited g ?st = unvisited g st - {node}" by (auto simp: unvisited_def)
  moreover have "node \<in> unvisited g st" using Suc.prems(3,4) by (simp add: unvisited_def)
  ultimately have card: "card (unvisited g ?st) \<le> fuel" using Suc.prems(5) by simp
  have "answers g p node ?st (visitNeighbors (doDepthFirstSearch fuel g) node (neighbors g node) ?st)"
    by (rule visitNeighbors_answers [where seen = "[]" and fuel = fuel])
      (use Suc.IH Suc.prems(1) inv fresh card in auto)
  moreover have "progresses g st ?st"
    using Suc.prems(4) by (auto simp: progresses_def unvisited_def split: if_splits)
  ultimately have "answers g p node st (visitNeighbors (doDepthFirstSearch fuel g) node (neighbors g node) ?st)"
    by (metis answers_mono)
  moreover have "doDepthFirstSearch (Suc fuel) g node st =
      visitNeighbors (doDepthFirstSearch fuel g) node (neighbors g node) ?st"
    using Suc.prems(4) by (simp add: bindE_def seqE_def getE_def modE_def)
  ultimately show ?case by (simp only:)
qed

text \<open>The walk over all nodes; the nodes before the current one are visited.\<close>

lemma closed_walk_cycle:
  "is_walk E xs \<Longrightarrow> length xs > 1 \<Longrightarrow> (hd xs, last xs) \<in> E\<^sup>+"
proof (induction xs rule: induct_list012)
  case (3 a b xs)
  show ?case
  proof (cases xs)
    case Nil
    then show ?thesis using 3 by simp
  next
    case (Cons c ys)
    then have "(b, last (b # xs)) \<in> E\<^sup>+" using 3 by simp
    then show ?thesis using 3 Cons by (auto intro: trancl_into_trancl2)
  qed
qed auto

definition decides :: "'n graph \<Rightarrow> 'n list outcome \<Rightarrow> bool" where
  "decides g res \<longleftrightarrow> (\<exists>c. res = Val c \<and>
     (if c = [] then acyclic (edges g)
      else length c > 1 \<and> hd c = last c \<and> is_walk (edges g) c))"

lemma searchFrom_decides:
  assumes wf: "wf_graph g"
  shows "search_inv g [] st \<Longrightarrow> set (nodes g) = set earlier \<union> set ns \<Longrightarrow>
    \<forall>n \<in> set earlier. st n = AlreadyVisited \<Longrightarrow> decides g (fst (searchFrom g ns st))"
proof (induction ns arbitrary: earlier st)
  case Nil
  have "(a, a) \<notin> (edges g)\<^sup>+" for a
  proof
    assume cyc: "(a, a) \<in> (edges g)\<^sup>+"
    then obtain b where "(a, b) \<in> edges g" by (meson tranclD)
    then have "st a = AlreadyVisited" using wf Nil.prems(2,3) by (auto simp: wf_graph_def)
    then show False using cyc Nil.prems(1) by (auto simp: search_inv_def)
  qed
  then show ?case by (simp add: decides_def acyclic_def ret_def)
next
  case (Cons n ns)
  show ?case
  proof (cases "st n = AlreadyVisited")
    case True
    then have "decides g (fst (searchFrom g ns st))"
      using Cons.IH [of st "n # earlier"] Cons.prems by simp
    then show ?thesis using True by (simp add: bindE_def getE_def)
  next
    case False
    then have fresh: "st n = NotYetVisited"
      using Cons.prems(1) by (cases "st n") (auto simp: search_inv_def)
    have "card (unvisited g st) \<le> length (nodes g)"
      by (rule le_trans [OF card_mono card_length]) (auto simp: unvisited_def)
    then have "answers g [] n st (doDepthFirstSearch (length (nodes g)) g n st)"
      using doDepthFirstSearch_answers [OF wf Cons.prems(1)] fresh Cons.prems(2) by simp
    then obtain r st' where r: "doDepthFirstSearch (length (nodes g)) g n st = (Val r, st')" and
      ans: "if r = [] then search_inv g [] st' \<and> st' n = AlreadyVisited \<and> progresses g st st'
        else length r > 1 \<and> is_walk (edges g) r \<and> (hd r = last r \<or> hd r = n \<and> last r \<in> set [])"
      unfolding answers_def by blast
    show ?thesis
    proof (cases "r = []")
      case True
      then have "decides g (fst (searchFrom g ns st'))"
        using Cons.IH [of st' "n # earlier"] Cons.prems ans by (simp add: progresses_def)
      then show ?thesis using True r False by (simp add: bindE_def getE_def)
    next
      case nonempty: False
      then have "searchFrom g (n # ns) st = (Val r, st')"
        using r False by (simp add: bindE_def getE_def ret_def)
      then show ?thesis using ans nonempty by (simp add: decides_def)
    qed
  qed
qed

lemma findCycle_decides: "wf_graph g \<Longrightarrow> decides g (findCycle g)"
  unfolding findCycle_def
  by (rule searchFrom_decides [where earlier = "[]"]) (auto simp: search_inv_def)

section \<open>Theorems\<close>

text \<open>
  C10. Cycle detection is a decision procedure: for a graph built by any sequence of \<open>addEdge\<close> calls
  \<open>findCycle\<close> returns, without throwing and without running out of recursion depth, the empty array
  exactly when the edge relation is acyclic, and otherwise an array of at least two nodes that is a walk
  along edges and begins and ends at the same node.
\<close>

theorem findCycle_exact:
  "(findCycle (graphOf es) = Val [] \<longleftrightarrow> acyclic (set es)) \<and>
   (\<not> acyclic (set es) \<longleftrightarrow>
      (\<exists>c. findCycle (graphOf es) = Val c \<and> 2 \<le> length c \<and> hd c = last c \<and> is_walk (set es) c))"
proof -
  have "decides (graphOf es) (findCycle (graphOf es))"
    by (rule findCycle_decides) (use graphOf_refines in blast)
  moreover have "edges (graphOf es) = set es" using graphOf_refines by blast
  ultimately obtain c where c: "findCycle (graphOf es) = Val c" and
    dec: "if c = [] then acyclic (set es) else length c > 1 \<and> hd c = last c \<and> is_walk (set es) c"
    unfolding decides_def by metis
  have cyc: "\<not> acyclic (set es)" if "length d > 1" "hd d = last d" "is_walk (set es) d" for d
    using closed_walk_cycle [OF that(3,1)] that(2) by (auto simp: acyclic_def)
  show ?thesis
  proof (cases "c = []")
    case True
    then show ?thesis using c dec by simp
  next
    case False
    then show ?thesis using c dec cyc by auto
  qed
qed

end
