(* ===== verification/Agg_Utils.thy ===== *)
theory Agg_Utils
  imports Js_Prelude
begin

text \<open>
  The comparisons of \<open>aggregation/extras/utils.js\<close>: \<open>anyEq\<close>, \<open>documentEq\<close> and \<open>arrayEq\<close>, which call
  each other, \<open>resultsEq\<close> and \<open>orderedArrayEq\<close>.  The optional \<open>valueComparator\<close> is the caller's
  function and an argument here; the \<open>verbose\<close> messages are not represented.  A document is taken to
  have no field named \<open>hasOwnProperty\<close>, so the calls of that method find the inherited one.

  The specification is an abstraction of a value that forgets what the comparison forgets: the order
  of array elements, the order of fields and the value of \<open>_id\<close>.
\<close>

section \<open>Model\<close>

fun instanceof_Object :: "jsval \<Rightarrow> bool" where
  "instanceof_Object Undef = False"
| "instanceof_Object Null = False"
| "instanceof_Object (JBool _) = False"
| "instanceof_Object (JNum _) = False"
| "instanceof_Object (JStr _) = False"
| "instanceof_Object _ = True"

text \<open>
  The two nested loops of \<open>arrayEq\<close>: for each left element the first index on the right that is not
  used yet and whose element matches.
\<close>

fun matchAll :: "('a \<Rightarrow> 'b \<Rightarrow> bool) \<Rightarrow> 'a list \<Rightarrow> nat set \<Rightarrow> 'b list \<Rightarrow> bool" where
  "matchAll eq [] matched ar \<longleftrightarrow> True"
| "matchAll eq (leftElem # al) matched ar \<longleftrightarrow>
     (case List.find (\<lambda>i. i \<notin> matched \<and> eq leftElem (ar ! i)) [0..<length ar] of
        None \<Rightarrow> False
      | Some i \<Rightarrow> matchAll eq al (insert i matched) ar)"

lemma find_cong_upt:
  "(\<And>i. i < n \<Longrightarrow> p i = q i) \<Longrightarrow> List.find p [0..<n] = List.find q [0..<n]"
  by (rule find_cong) auto

lemma matchAll_cong [fundef_cong]:
  assumes "al = al'" "matched = matched'" "ar = ar'"
    and "\<And>l r. l \<in> set al' \<Longrightarrow> r \<in> set ar' \<Longrightarrow> eq l r = eq' l r"
  shows "matchAll eq al matched ar = matchAll eq' al' matched' ar'"
  using assms
proof (induction al arbitrary: al' matched matched')
  case (Cons l al)
  have "List.find (\<lambda>i. i \<notin> matched' \<and> eq l (ar' ! i)) [0..<length ar'] =
      List.find (\<lambda>i. i \<notin> matched' \<and> eq' l (ar' ! i)) [0..<length ar']"
    using Cons.prems by (intro find_cong_upt) auto
  then show ?case using Cons by (auto split: option.splits)
qed auto

type_synonym comparator = "(jsval \<Rightarrow> jsval \<Rightarrow> bool) option"

lemma size_fld: "instanceof_Object v \<Longrightarrow> has_own v k \<Longrightarrow> size (fld v k) < size v"
  using size_props [OF has_own_props, of v k] by (cases v) auto

function anyEq :: "comparator \<Rightarrow> jsval \<Rightarrow> jsval \<Rightarrow> bool"
  and documentEq :: "comparator \<Rightarrow> jsval \<Rightarrow> jsval \<Rightarrow> bool"
  and arrayEq :: "comparator \<Rightarrow> jsval \<Rightarrow> jsval \<Rightarrow> bool"
where
  "anyEq valueComparator al ar =
     (if is_array al then is_array ar \<and> arrayEq valueComparator al ar
      else if instanceof_Object al
      then instanceof_Object ar \<and> \<not> is_array ar \<and> documentEq valueComparator al ar
      else case valueComparator of Some f \<Rightarrow> f al ar | None \<Rightarrow> strict_eq al ar)"
| "documentEq valueComparator dl dr =
     (if \<not> instanceof_Object dl then False
      else if \<not> instanceof_Object dr then False
      else list_all (\<lambda>propertyName. has_own dr propertyName \<and>
               (propertyName = ''_id'' \<or>
                anyEq valueComparator (fld dl propertyName) (fld dr propertyName))) (obj_keys dl) \<and>
           list_all (\<lambda>propertyName. has_own dl propertyName) (obj_keys dr))"
| "arrayEq valueComparator al ar =
     (if \<not> is_array al then False
      else if \<not> is_array ar then False
      else if length (arr_elems al) \<noteq> length (arr_elems ar) then False
      else matchAll (\<lambda>l r. anyEq valueComparator l r) (arr_elems al) {} (arr_elems ar))"
  by pat_completeness auto

termination
proof (relation "measure (\<lambda>x. case x of
      Inl (_, al, _) \<Rightarrow> 2 * size al + 1
    | Inr (Inl (_, al, _)) \<Rightarrow> 2 * size al
    | Inr (Inr (_, al, _)) \<Rightarrow> 2 * size al)")
qed (auto dest: size_elem elim!: is_array.elims simp: has_own_def [symmetric] list.pred_set
  dest!: size_fld)

declare anyEq.simps [simp del] documentEq.simps [simp del] arrayEq.simps [simp del]

definition customDocumentEq :: "jsval \<Rightarrow> jsval \<Rightarrow> comparator \<Rightarrow> bool" where
  "customDocumentEq left right valueComparator = documentEq valueComparator left right"

definition arrayShallowCopy :: "jsval \<Rightarrow> jsval result" where
  "arrayShallowCopy a = require (is_array a) ''arrayShallowCopy: argument is not an array'' (Inr a)"

text \<open>The loops of \<open>resultsEq\<close>, which cut each match out of the copy of the right array.\<close>

fun cutAll :: "('a \<Rightarrow> 'b \<Rightarrow> bool) \<Rightarrow> 'a list \<Rightarrow> 'b list \<Rightarrow> 'b list option" where
  "cutAll eq [] rr = Some rr"
| "cutAll eq (l # rl) rr =
     (case List.find (\<lambda>j. eq l (rr ! j)) [0..<length rr] of
        None \<Rightarrow> None
      | Some j \<Rightarrow> cutAll eq rl (take j rr @ drop (Suc j) rr))"

definition resultsEq :: "jsval \<Rightarrow> jsval \<Rightarrow> bool result" where
  "resultsEq rl0 rr0 =
     rbind (arrayShallowCopy rl0) (\<lambda>rl.
     rbind (arrayShallowCopy rr0) (\<lambda>rr.
       if length (arr_elems rl) \<noteq> length (arr_elems rr) then Inr False
       else case cutAll (anyEq None) (arr_elems rl) (arr_elems rr) of
           None \<Rightarrow> Inr False
         | Some rest \<Rightarrow> require (rest = []) ''!rr.length'' (Inr True)))"

definition orderedArrayEq :: "jsval list \<Rightarrow> jsval list \<Rightarrow> bool" where
  "orderedArrayEq al ar =
     (if length al \<noteq> length ar then False
      else list_all (\<lambda>i. anyEq None (al ! i) (ar ! i)) [0..<length al])"

definition assertArrayEq :: "jsval \<Rightarrow> jsval \<Rightarrow> unit result" where
  "assertArrayEq actual expected = require (arrayEq None actual expected) ''actual, expected'' (Inr ())"

section \<open>Specification: the abstraction of a value\<close>

datatype aval = Scalar jsval | Bag "aval multiset" | Doc "string \<Rightarrow> aval option"

fun abs_val :: "jsval \<Rightarrow> aval" where
  "abs_val (JArr xs) = Bag (mset (map abs_val xs))"
| "abs_val (JObj kvs) =
     Doc (map_of (map (\<lambda>(k, v). (k, if k = ''_id'' then Scalar Undef else abs_val v)) kvs))"
| "abs_val v = Scalar v"

text \<open>The data values of a document: no functions or shell objects, and no \<open>NaN\<close>, which equals nothing.\<close>

fun plain :: "jsval \<Rightarrow> bool" where
  "plain (JArr xs) = list_all plain xs"
| "plain (JObj kvs) = list_all (\<lambda>(k, v). plain v) kvs"
| "plain (JFun _ _) = False"
| "plain (JLong _) = False"
| "plain (JInt _) = False"
| "plain (JExt _ _) = False"
| "plain v \<longleftrightarrow> v \<noteq> JNum NaN"

section \<open>Lemmas: greedy matching\<close>

text \<open>
  Elements compared by a key: the greedy matching succeeds exactly when the two lists have the same
  multiset of keys.
\<close>

locale keyed_equality =
  fixes eq :: "'a \<Rightarrow> 'a \<Rightarrow> bool" and key :: "'a \<Rightarrow> 'k" and L R :: "'a set"
  assumes eq_key: "l \<in> L \<Longrightarrow> r \<in> R \<Longrightarrow> eq l r \<longleftrightarrow> key l = key r"
begin

lemma cutAll_mset:
  assumes "set ls \<subseteq> L" and "set rs \<subseteq> R" and "length ls = length rs"
  shows "cutAll eq ls rs = (if mset (map key ls) = mset (map key rs) then Some [] else None)"
  using assms
proof (induction ls arbitrary: rs)
  case (Cons l ls)
  show ?case
  proof (cases "List.find (\<lambda>j. eq l (rs ! j)) [0..<length rs]")
    case None
    then have "\<forall>r \<in> set rs. key l \<noteq> key r"
      using Cons.prems eq_key by (fastforce simp: find_None_iff in_set_conv_nth)
    then have "key l \<notin># mset (map key rs)" by auto
    then have "mset (map key (l # ls)) \<noteq> mset (map key rs)"
      by (metis list.set_intros(1) list.simps(9) set_mset_mset)
    then show ?thesis using None by simp
  next
    case (Some j)
    then have j: "j < length rs" "key l = key (rs ! j)"
      using Cons.prems by (auto simp: find_Some_iff eq_key subset_iff)
    let ?rs = "take j rs @ drop (Suc j) rs"
    have rs: "mset rs = add_mset (rs ! j) (mset ?rs)"
      using j(1) by (metis id_take_nth_drop mset.simps(2) mset_append union_mset_add_mset_right)
    then have "mset (map key (l # ls)) = mset (map key rs) \<longleftrightarrow> mset (map key ls) = mset (map key ?rs)"
      using j(2) by simp
    moreover have "cutAll eq ls ?rs = (if mset (map key ls) = mset (map key ?rs) then Some [] else None)"
      using Cons.prems j(1) by (intro Cons.IH) (auto dest: in_set_takeD in_set_dropD)
    ultimately show ?thesis using Some by simp
  qed
qed simp

end

text \<open>Marking an index as used and cutting its element out come to the same, whatever the comparison.\<close>

lemma find_upt_Some:
  "List.find p [0..<n] = Some j \<longleftrightarrow> j < n \<and> p j \<and> (\<forall>i < j. \<not> p i)"
  by (fastforce simp: find_Some_iff)

lemma find_upt_None: "List.find p [0..<n] = None \<longleftrightarrow> (\<forall>i < n. \<not> p i)"
  by (simp add: find_None_iff atLeast0LessThan)

lemma find_filter: "List.find (\<lambda>x. q x \<and> p x) xs = List.find p (filter q xs)"
  by (induction xs) auto

lemma filter_neq_nth:
  "distinct xs \<Longrightarrow> j < length xs \<Longrightarrow> filter (\<lambda>x. x \<noteq> xs ! j) xs = take j xs @ drop (Suc j) xs"
proof (induction xs arbitrary: j)
  case (Cons x xs)
  then have "filter (\<lambda>y. y \<noteq> x) xs = xs" by (auto simp: filter_id_conv)
  then show ?case using Cons by (cases j) (auto dest: nth_mem)
qed simp

lemma matchAll_cutAll_general:
  "matchAll eq ls used ys \<longleftrightarrow>
     cutAll eq ls (map ((!) ys) (filter (\<lambda>i. i \<notin> used) [0..<length ys])) \<noteq> None"
proof (induction ls arbitrary: used)
  case (Cons l ls)
  let ?idx = "filter (\<lambda>i. i \<notin> used) [0..<length ys]"
  let ?rr = "map ((!) ys) ?idx"
  have find: "List.find (\<lambda>i. i \<notin> used \<and> eq l (ys ! i)) [0..<length ys] = List.find (\<lambda>i. eq l (ys ! i)) ?idx"
    by (rule find_filter)
  show ?case
  proof (cases "List.find (\<lambda>j. eq l (?rr ! j)) [0..<length ?rr]")
    case None
    then have "\<forall>i < length ?idx. \<not> eq l (ys ! (?idx ! i))" unfolding find_upt_None by simp
    then have "\<forall>i \<in> set ?idx. \<not> eq l (ys ! i)" by (metis in_set_conv_nth)
    then have "List.find (\<lambda>i. eq l (ys ! i)) ?idx = None" unfolding find_None_iff by blast
    then show ?thesis using None find by simp
  next
    case (Some j)
    then have rr: "j < length ?rr" "eq l (?rr ! j)" "\<forall>i < j. \<not> eq l (?rr ! i)"
      unfolding find_upt_Some by blast+
    have nth: "?rr ! i = ys ! (?idx ! i)" if "i \<le> j" for i
      using that rr(1) by (intro nth_map) simp
    have j: "j < length ?idx" "eq l (ys ! (?idx ! j))" "\<forall>i < j. \<not> eq l (ys ! (?idx ! i))"
      using rr nth by simp_all
    then have "List.find (\<lambda>i. eq l (ys ! i)) ?idx = Some (?idx ! j)"
      by (auto simp: find_Some_iff)
    moreover have "filter (\<lambda>i. i \<notin> insert (?idx ! j) used) [0..<length ys] =
        filter (\<lambda>i. i \<noteq> ?idx ! j) ?idx"
      by (simp add: filter_filter conj_commute)
    then have "filter (\<lambda>i. i \<notin> insert (?idx ! j) used) [0..<length ys] =
        take j ?idx @ drop (Suc j) ?idx"
      using filter_neq_nth [of ?idx j] j(1) by simp
    ultimately show ?thesis
      using Some find Cons.IH [of "insert (?idx ! j) used"] by (simp add: take_map drop_map)
  qed
qed simp

lemma matchAll_cutAll: "matchAll eq ls {} ys \<longleftrightarrow> cutAll eq ls ys \<noteq> None"
  using matchAll_cutAll_general [of eq ls "{}" ys] by (simp add: map_nth)

lemma cutAll_length: "cutAll eq ls rs = Some rest \<Longrightarrow> length rest + length ls = length rs"
proof (induction ls arbitrary: rs)
  case (Cons l ls)
  then obtain j where "List.find (\<lambda>j. eq l (rs ! j)) [0..<length rs] = Some j"
    by (auto split: option.splits)
  moreover from this have "j < length rs" by (simp add: find_upt_Some)
  ultimately show ?case using Cons by (auto dest!: Cons.IH)
qed simp

section \<open>Lemmas: the comparison of values\<close>

lemma arrayEq_JArr:
  "arrayEq cmp (JArr xs) (JArr ys) \<longleftrightarrow> length xs = length ys \<and> matchAll (anyEq cmp) xs {} ys"
  by (simp add: arrayEq.simps)

lemma plain_fld: "plain (JObj kvs) \<Longrightarrow> has_own (JObj kvs) k \<Longrightarrow> plain (fld (JObj kvs) k)"
  by (cases "map_of kvs k")
    (auto simp: has_own_map_of fld_def list_all_iff dest: map_of_SomeD)

lemma abs_doc: "abs_val (JObj kvs) = Doc (\<lambda>k. if has_own (JObj kvs) k
    then Some (if k = ''_id'' then Scalar Undef else abs_val (fld (JObj kvs) k)) else None)"
  by (induction kvs) (auto simp: fun_eq_iff has_own_map_of fld_def split: option.splits)

lemma documentEq_JObj:
  assumes "\<And>k. has_own (JObj xs) k \<Longrightarrow> has_own (JObj ys) k \<Longrightarrow>
      anyEq None (fld (JObj xs) k) (fld (JObj ys) k) \<longleftrightarrow>
      abs_val (fld (JObj xs) k) = abs_val (fld (JObj ys) k)"
  shows "documentEq None (JObj xs) (JObj ys) \<longleftrightarrow> abs_val (JObj xs) = abs_val (JObj ys)"
proof -
  have "documentEq None (JObj xs) (JObj ys) \<longleftrightarrow>
      (\<forall>k. has_own (JObj xs) k \<longleftrightarrow> has_own (JObj ys) k) \<and>
      (\<forall>k. has_own (JObj xs) k \<longrightarrow> k = ''_id'' \<or> anyEq None (fld (JObj xs) k) (fld (JObj ys) k))"
    by (auto simp: documentEq.simps list_all_iff has_own_def [symmetric])
  also have "\<dots> \<longleftrightarrow> abs_val (JObj xs) = abs_val (JObj ys)"
    unfolding abs_doc using assms by (auto simp: fun_eq_iff split: if_splits)
  finally show ?thesis .
qed

lemma anyEq_abs: "plain a \<Longrightarrow> plain b \<Longrightarrow> anyEq None a b \<longleftrightarrow> abs_val a = abs_val b"
proof (induction "size a" arbitrary: a b rule: less_induct)
  case less
  show ?case
  proof (cases a)
    case (JArr xs)
    show ?thesis
    proof (cases b)
      case b: (JArr ys)
      have eq: "anyEq None x y \<longleftrightarrow> abs_val x = abs_val y" if "x \<in> set xs" "y \<in> set ys" for x y
        using that less.prems JArr b size_elem [OF that(1)] by (intro less.hyps) (auto simp: list_all_iff)
      show ?thesis
      proof (cases "length xs = length ys")
        case True
        have "cutAll (anyEq None) xs ys =
            (if mset (map abs_val xs) = mset (map abs_val ys) then Some [] else None)"
          by (rule keyed_equality.cutAll_mset [where L = "set xs" and R = "set ys"], unfold_locales)
            (use eq True in auto)
        then show ?thesis using JArr b True
          by (simp add: anyEq.simps [of None "JArr xs"] arrayEq_JArr matchAll_cutAll)
      next
        case False
        then have "mset (map abs_val xs) \<noteq> mset (map abs_val ys)" by (metis length_map size_mset)
        then show ?thesis using JArr b False
          by (simp add: anyEq.simps [of None "JArr xs"] arrayEq_JArr)
      qed
    qed (use JArr less.prems in \<open>auto simp: anyEq.simps\<close>)
  next
    case (JObj xs)
    show ?thesis
    proof (cases b)
      case b: (JObj ys)
      have "documentEq None (JObj xs) (JObj ys) \<longleftrightarrow> abs_val (JObj xs) = abs_val (JObj ys)"
        by (rule documentEq_JObj, rule less.hyps)
          (use less.prems JObj b plain_fld size_fld [of "JObj xs"] in \<open>simp_all del: plain.simps\<close>)
      then show ?thesis using JObj b by (simp add: anyEq.simps)
    qed (use JObj less.prems in \<open>auto simp: anyEq.simps\<close>)
  qed (use less.prems in \<open>cases b; auto simp: anyEq.simps strict_eq_def\<close>)+
qed

interpretation data_values: keyed_equality "anyEq None" abs_val "{v. plain v}" "{v. plain v}"
  by unfold_locales (simp add: anyEq_abs)

text \<open>For data values both array comparisons decide equality of the bags of abstract elements.\<close>

lemma resultsEq_arrays:
  "resultsEq (JArr xs) (JArr ys) = Inr (arrayEq None (JArr xs) (JArr ys))"
  using cutAll_length [of "anyEq None" xs ys]
  by (auto simp: resultsEq_def arrayShallowCopy_def arrayEq_JArr matchAll_cutAll split: option.split)

lemma resultsEq_multiset:
  assumes "plain (JArr xs)" and "plain (JArr ys)" and "length xs = length ys"
  shows "resultsEq (JArr xs) (JArr ys) = Inr (mset (map abs_val xs) = mset (map abs_val ys))"
  using data_values.cutAll_mset [of xs ys] assms
  by (simp add: resultsEq_arrays arrayEq_JArr matchAll_cutAll list_all_iff subset_iff)

section \<open>Theorems\<close>

text \<open>
  What the code of \<open>anyEq\<close> computes without a comparator: for data values (no \<open>NaN\<close>, functions or shell objects) it holds exactly
  when the two values agree up to the order of array elements at every depth (with multiplicity), the order of fields, and the value of
  \<open>_id\<close>.  The comment above the function differs from this in two points: it names \<open>==\<close> where the code has \<open>!==\<close>, and exempts
  \<open>_id\<close> altogether.
\<close>

theorem anyEq_exact:
  assumes "plain a" and "plain b"
  shows "anyEq None a b \<longleftrightarrow> abs_val a = abs_val b"
  by (rule anyEq_abs [OF assms])

theorem anyEq_exact_witness:
  "anyEq None (JArr [JArr [jnum 1, jnum 2], JObj [(''_id'', jnum 1), (''a'', Null)]])
     (JArr [JObj [(''a'', Null), (''_id'', jnum 7)], JArr [jnum 2, jnum 1]])"
  by (subst anyEq_exact)
    (auto simp: add_mset_commute fun_upd_twist [of "''a''" "''_id''"])

text \<open>
  The two implementations of unordered comparison agree: \<open>resultsEq\<close>, which cuts matched elements out of a
  copy, returns for arrays what \<open>arrayEq\<close>, which remembers matched indexes, returns, and its closing
  assertion that nothing is left never fails; an argument that is not an array fails its assertion.
\<close>

theorem resultsEq_arrayEq:
  "resultsEq rl rr =
     (if is_array rl \<and> is_array rr then Inr (arrayEq None rl rr)
      else Inl (AssertFail ''arrayShallowCopy: argument is not an array''))"
proof (cases "is_array rl \<and> is_array rr")
  case True
  then obtain xs ys where "rl = JArr xs" "rr = JArr ys" by (auto elim!: is_array.elims)
  then show ?thesis by (simp add: resultsEq_arrays)
qed (auto simp: resultsEq_def arrayShallowCopy_def require_def)

lemma list_all2_keys: "list_all2 (\<lambda>x y. f x = f y) xs zs \<longleftrightarrow> map f xs = map f zs"
  by (induction xs arbitrary: zs) (auto simp: list_all2_Cons1 Cons_eq_map_conv)

lemma rearrangement_mset:
  "(\<exists>zs. mset zs = mset ys \<and> map f xs = map f zs) \<longleftrightarrow> mset (map f xs) = mset (map f ys)"
proof
  assume "mset (map f xs) = mset (map f ys)"
  moreover have "list_all2 (\<lambda>x y. x = f y) (map f ys) ys" by (simp add: list_all2_conv_all_nth)
  ultimately obtain zs where "list_all2 (\<lambda>x y. x = f y) (map f xs) zs" "mset zs = mset ys"
    using list_all2_reorder_left_invariance by blast
  then show "\<exists>zs. mset zs = mset ys \<and> map f xs = map f zs" by (auto simp: list_all2_map1 list_all2_keys)
qed (metis mset_map)

text \<open>
  C11. The comparison of two sets of results does not depend on their order or on how their elements are paired: for arrays of data values (no \<open>NaN\<close>, functions or
  shell objects in them), \<open>resultsEq\<close>, which cuts every match out of a copy of the right array, never fails its closing assertion and
  returns what \<open>arrayEq\<close> returns, which remembers the indexes it has matched; and both are true if and only if the elements of the
  right array can be rearranged so that \<open>anyEq\<close> holds between the two arrays element by element.  In particular the greedy choice of the
  first match never rejects arrays that another pairing would match.
\<close>

theorem resultsEq_exact:
  assumes "list_all plain xs" and "list_all plain ys"
  shows "resultsEq (JArr xs) (JArr ys) = Inr (arrayEq None (JArr xs) (JArr ys)) \<and>
    (arrayEq None (JArr xs) (JArr ys) \<longleftrightarrow> (\<exists>zs. mset zs = mset ys \<and> list_all2 (anyEq None) xs zs))"
proof -
  have "list_all2 (anyEq None) xs zs \<longleftrightarrow> map abs_val xs = map abs_val zs" if "mset zs = mset ys" for zs
  proof -
    have "set zs = set ys" using that by (rule mset_eq_setD)
    with assms have "list_all2 (anyEq None) xs zs \<longleftrightarrow> list_all2 (\<lambda>x y. abs_val x = abs_val y) xs zs"
      by (intro iffI; elim list.rel_mono_strong) (auto simp: anyEq_abs list_all_iff)
    then show ?thesis by (simp add: list_all2_keys)
  qed
  then have "(\<exists>zs. mset zs = mset ys \<and> list_all2 (anyEq None) xs zs) \<longleftrightarrow> mset (map abs_val xs) = mset (map abs_val ys)"
    using rearrangement_mset [of ys abs_val xs] by blast
  moreover have "arrayEq None (JArr xs) (JArr ys) \<longleftrightarrow> mset (map abs_val xs) = mset (map abs_val ys)"
  proof (cases "length xs = length ys")
    case True
    then show ?thesis using resultsEq_multiset [of xs ys] assms by (simp add: resultsEq_arrays)
  next
    case False
    then have "mset (map abs_val xs) \<noteq> mset (map abs_val ys)" by (metis length_map mset_eq_length)
    with False show ?thesis by (simp add: arrayEq_JArr)
  qed
  ultimately show ?thesis by (simp add: resultsEq_arrays)
qed

theorem resultsEq_exact_witness:
  "resultsEq (JArr [jnum 1, jnum 1, JArr [jnum 1, jnum 2]]) (JArr [JArr [jnum 2, jnum 1], jnum 1, jnum 2]) = Inr False \<and>
   \<not> (\<exists>zs. mset zs = mset [JArr [jnum 2, jnum 1], jnum 1, jnum 2] \<and> list_all2 (anyEq None) [jnum 1, jnum 1, JArr [jnum 1, jnum 2]] zs)"
proof -
  have "list_all plain [jnum 1, jnum 1, JArr [jnum 1, jnum 2]]" "list_all plain [JArr [jnum 2, jnum 1], jnum 1, jnum 2]" by simp_all
  from resultsEq_exact [OF this] show ?thesis by (simp add: resultsEq_arrays arrayEq_JArr anyEq.simps strict_eq_def)
qed

text \<open>
  The comment on \<open>anyEq\<close> exempts \<open>_id\<close> from the properties two objects must share; the code exempts only
  its value.
\<close>

theorem id_presence_matters:
  "\<not> anyEq None (JObj [(''_id'', v)]) (JObj []) \<and> \<not> anyEq None (JObj []) (JObj [(''_id'', v)]) \<and>
   anyEq None (JObj [(''_id'', v)]) (JObj [(''_id'', w)])"
  by (simp add: anyEq.simps documentEq.simps obj_keys_def has_own_def)

end
