(* ===== verification/Analyze_Plan.thy ===== *)
theory Analyze_Plan
  imports Js_Prelude
begin

text \<open>
  The readers of explain output of \<open>libs/analyze_plan.js\<close>: the stages of a query plan or of an aggregation
  with a name, the tests built on them, the rejected plans, the execution stages of the shards, the chunks skipped
  and the checks of a count.  Explain output is a server reply, a tree of plain values.  Reading a property of
  \<open>undefined\<close> or \<open>null\<close>, the operator \<open>in\<close> on a value that is not an object, and
  \<open>for ... of\<close> over a value that is not iterable throw; a failed \<open>assert\<close> is an \<open>AssertFail\<close>.
  The specification of the searches is the relation \<open>plan_child\<close> between a node of a plan and its parts.
\<close>

section \<open>Values\<close>

text \<open>A value \<open>in\<close> can be applied to.\<close>

fun is_node :: "jsval \<Rightarrow> bool" where
  "is_node Undef = False"
| "is_node Null = False"
| "is_node (JBool _) = False"
| "is_node (JNum _) = False"
| "is_node (JStr _) = False"
| "is_node _ = True"

abbreviation nothing :: "jsval \<Rightarrow> bool" where
  "nothing v \<equiv> v = Undef \<or> v = Null"

text \<open>\<open>v.hasOwnProperty(k)\<close>.\<close>

definition hasOwn :: "jsval \<Rightarrow> string \<Rightarrow> bool result" where
  "hasOwn v k = (if nothing v then Inl (TypeErr ''has no properties'') else Inr (has_own v k))"

lemma hasOwn_Inr [simp]: "hasOwn v k = Inr b \<longleftrightarrow> \<not> nothing v \<and> b = has_own v k"
  by (auto simp: hasOwn_def)

text \<open>
  The elements of an array or a string; no other value of a reply has a length, and \<open>for ... of\<close> throws
  on it.
\<close>

fun elements :: "jsval \<Rightarrow> jsval list" where
  "elements (JArr xs) = xs"
| "elements (JStr cs) = map (\<lambda>c. JStr [c]) cs"
| "elements _ = []"

definition iterate :: "jsval \<Rightarrow> jsval list result" where
  "iterate v = (if is_array v \<or> typeof v = ''string'' then Inr (elements v) else Inl (TypeErr ''is not iterable''))"

text \<open>\<open>v.length\<close>, and the test \<open>v.length !== 0\<close>: an object may have a property of that name.\<close>

fun lengthOf :: "jsval \<Rightarrow> jsval" where
  "lengthOf (JArr xs) = jnum (int (length xs))"
| "lengthOf (JStr cs) = jnum (int (length cs))"
| "lengthOf (JFun _ n) = jnum (int n)"
| "lengthOf v = fld v ''length''"

definition lengthNotZero :: "jsval \<Rightarrow> bool result" where
  "lengthNotZero v =
     (if nothing v then Inl (TypeErr ''has no properties'') else Inr (lengthOf v \<noteq> jnum 0))"

text \<open>Array methods with a callback that may throw.\<close>

fun mapR :: "('a \<Rightarrow> 'b result) \<Rightarrow> 'a list \<Rightarrow> 'b list result" where
  "mapR f [] = Inr []"
| "mapR f (x # xs) = rbind (f x) (\<lambda>y. rbind (mapR f xs) (\<lambda>ys. Inr (y # ys)))"

fun concatR :: "('a \<Rightarrow> 'b list result) \<Rightarrow> 'a list \<Rightarrow> 'b list result" where
  "concatR f [] = Inr []"
| "concatR f (x # xs) = rbind (f x) (\<lambda>a. rbind (concatR f xs) (\<lambda>b. Inr (a @ b)))"

fun someR :: "('a \<Rightarrow> bool result) \<Rightarrow> 'a list \<Rightarrow> bool result" where
  "someR f [] = Inr False"
| "someR f (x # xs) = rbind (f x) (\<lambda>b. if b then Inr True else someR f xs)"

lemma concatR_cong [fundef_cong]:
  "xs = ys \<Longrightarrow> (\<And>x. x \<in> set ys \<Longrightarrow> f x = g x) \<Longrightarrow> concatR f xs = concatR g ys"
  by (induction xs arbitrary: ys) (auto simp: rbind_def split: sum.split)

lemma someR_cong [fundef_cong]:
  "xs = ys \<Longrightarrow> (\<And>x. x \<in> set ys \<Longrightarrow> f x = g x) \<Longrightarrow> someR f xs = someR g ys"
  by (induction xs arbitrary: ys) (auto simp: rbind_def split: sum.split)

lemma mapR_Inr: "mapR f xs = Inr ys \<longleftrightarrow> list_all2 (\<lambda>x y. f x = Inr y) xs ys"
  by (induction xs arbitrary: ys) (auto simp: rbind_Inr list_all2_Cons1)

lemma concatR_Inr: "concatR f xs = Inr ys \<Longrightarrow> (\<forall>x \<in> set xs. \<exists>zs. f x = Inr zs) \<and> set ys = (\<Union>x \<in> set xs. {y. \<exists>zs. f x = Inr zs \<and> y \<in> set zs})"
  by (induction xs arbitrary: ys) (fastforce simp: rbind_Inr)+

lemma concatR_defined: "(\<exists>ys. concatR f xs = Inr ys) \<longleftrightarrow> (\<forall>x \<in> set xs. \<exists>zs. f x = Inr zs)"
  by (induction xs) (auto simp: rbind_Inr)

lemma someR_Inr:
  "someR f xs = Inr b \<Longrightarrow> (b \<longleftrightarrow> (\<exists>x \<in> set xs. f x = Inr True))"
  by (induction xs arbitrary: b) (auto simp: rbind_Inr split: if_splits)

section \<open>Searching a query plan\<close>

text \<open>The arguments of the recursive calls, in the order of the code; an entry may throw when it is read.\<close>

definition shardPlan :: "jsval \<Rightarrow> jsval result" where
  "shardPlan shard =
     rbind (hasOwn shard ''winningPlan'') (\<lambda>b.
     get_prop shard (if b then ''winningPlan'' else ''executionStages''))"

definition shardPlans :: "jsval \<Rightarrow> jsval result list" where
  "shardPlans shards =
     (if is_array shards then map shardPlan (elements shards)
      else case object_keys shards of Inl e \<Rightarrow> [Inl e] | Inr ks \<Rightarrow> map (\<lambda>k. Inr (fld shards k)) ks)"

definition indexed :: "jsval \<Rightarrow> jsval result list" where
  "indexed v = (if nothing v then [Inl (TypeErr ''has no properties'')] else map Inr (elements v))"

definition planChildren :: "jsval \<Rightarrow> jsval result list" where
  "planChildren plan =
     (if has_own plan ''inputStage'' then [Inr (fld plan ''inputStage'')] else []) @
     (if has_own plan ''inputStages'' then indexed (fld plan ''inputStages'') else []) @
     (if has_own plan ''queryPlanner'' then [get_prop (fld plan ''queryPlanner'') ''winningPlan''] else []) @
     (if has_own plan ''shards'' then shardPlans (fld plan ''shards'') else [])"

text \<open>A part of a value is smaller than the whole.\<close>

lemma show_nat_first: "\<exists>d < 10. hd (show_nat n) = digit_char d"
  by (induction n rule: show_nat.induct) (auto simp: show_nat.simps [of n for n])

lemma show_nat_not_letter: "show_nat n \<noteq> CHR ''s'' # w"
proof
  assume "show_nat n = CHR ''s'' # w"
  with show_nat_first [of n] obtain d where "d < 10" and "CHR ''s'' = digit_char d" by auto
  then have "of_char (CHR ''s'') = (48 + d) mod 256" by (simp add: digit_char_def)
  with \<open>d < 10\<close> show False by simp
qed

lemma size_fld_le: "size (fld v k) \<le> size v"
proof (cases "has_own v k")
  case True
  then show ?thesis using size_props [OF has_own_props] by fastforce
next
  case False
  then show ?thesis by (simp add: fld_not_own)
qed

lemma size_fld_node: "is_node v \<Longrightarrow> has_own v k \<Longrightarrow> size (fld v k) < size v"
  using size_props [OF has_own_props, of v k] by (cases v) auto

lemma size_elements: "x \<in> set (elements v) \<Longrightarrow> size x \<le> size v"
  using size_elem [of x "elements v"] by (cases v) auto

lemma shardPlan_size: "shardPlan x = Inr y \<Longrightarrow> size y \<le> size x"
  using size_fld_le [of x] by (auto simp: shardPlan_def rbind_Inr)

lemma shardPlans_size: "Inr y \<in> set (shardPlans v) \<Longrightarrow> size y \<le> size v"
proof (cases "is_array v")
  case True
  assume "Inr y \<in> set (shardPlans v)"
  with True obtain x where "x \<in> set (elements v)" and "shardPlan x = Inr y"
    by (auto simp: shardPlans_def dest: sym)
  then show ?thesis using le_trans [OF shardPlan_size size_elements] by blast
next
  case False
  assume "Inr y \<in> set (shardPlans v)"
  with False show ?thesis
    using size_fld_le [of v] by (auto simp: shardPlans_def split: sum.splits)
qed

lemma planChildren_smaller:
  assumes "is_node plan" and "Inr c \<in> set (planChildren plan)"
  shows "size c < size plan"
proof -
  have part: "has_own plan k \<Longrightarrow> size x \<le> size (fld plan k) \<Longrightarrow> size x < size plan" for k x
    using size_fld_node [OF assms(1), of k] by simp
  have "Inr y \<in> set (indexed v) \<Longrightarrow> size y \<le> size v" for y v
    using size_elements [of y v] by (auto simp: indexed_def split: if_splits)
  then show ?thesis
    using assms(2) part [of _ c] shardPlans_size size_fld_le [of "fld plan ''queryPlanner''"]
    by (auto simp: planChildren_def split: if_splits dest!: sym [of "Inr c"])
qed

function getPlanStages :: "string \<Rightarrow> jsval \<Rightarrow> jsval list result" where
  "getPlanStages stage plan =
     (if \<not> is_node plan then Inl (TypeErr ''root is not an object'')
      else rbind (concatR (\<lambda>child. rbind child (\<lambda>c. getPlanStages stage c)) (planChildren plan)) (\<lambda>results.
           Inr ((if fld plan ''stage'' = JStr stage then [plan] else []) @ results)))"
  by pat_completeness auto

termination
  by (relation "measure (\<lambda>(_, plan). size plan)") (auto dest: planChildren_smaller)

declare getPlanStages.simps [simp del]

definition getPlanStage :: "jsval \<Rightarrow> string \<Rightarrow> jsval result" where
  "getPlanStage plan stage =
     rbind (getPlanStages stage plan) (\<lambda>planStageList.
     if planStageList = [] then Inr Null
     else require (length planStageList = 1) ''getPlanStage expects to find 0 or 1 matching stages''
       (Inr (hd planStageList)))"

text \<open>\<open>FixtureHelpers.isMongos(db)\<close> asks the server; its answer is a parameter.\<close>

definition planHasStage :: "bool \<Rightarrow> jsval \<Rightarrow> string \<Rightarrow> bool result" where
  "planHasStage isMongos plan stage =
     rbind (getPlanStages stage plan) (\<lambda>matchingStages.
     if isMongos then Inr (length matchingStages \<ge> 1)
     else require (length matchingStages < 2) ''Expected to find 0 or 1 matching stages''
       (Inr (length matchingStages = 1)))"

definition isIndexOnly :: "bool \<Rightarrow> jsval \<Rightarrow> bool result" where
  "isIndexOnly isMongos plan =
     rbind (planHasStage isMongos plan ''FETCH'') (\<lambda>fetch.
     if fetch then Inr False
     else rbind (planHasStage isMongos plan ''COLLSCAN'') (\<lambda>scan. Inr (\<not> scan)))"

definition isIxscan :: "bool \<Rightarrow> jsval \<Rightarrow> bool result" where
  "isIxscan isMongos plan = planHasStage isMongos plan ''IXSCAN''"

definition isIdhack :: "bool \<Rightarrow> jsval \<Rightarrow> bool result" where
  "isIdhack isMongos plan = planHasStage isMongos plan ''IDHACK''"

definition isCollscan :: "bool \<Rightarrow> jsval \<Rightarrow> bool result" where
  "isCollscan isMongos plan = planHasStage isMongos plan ''COLLSCAN''"

section \<open>Rejected plans and execution stages\<close>

text \<open>A chain of property reads \<open>v.k1.k2\<close>.\<close>

fun path :: "jsval \<Rightarrow> string list \<Rightarrow> jsval result" where
  "path v [] = Inr v"
| "path v (k # ks) = rbind (get_prop v k) (\<lambda>x. path x ks)"

definition shardRejectedPlans :: "jsval \<Rightarrow> jsval list result" where
  "shardRejectedPlans shard =
     rbind (rbind (get_prop shard ''rejectedPlans'') iterate) (\<lambda>plans.
     Inr (map (obj_assign (JObj [(''shardName'', fld shard ''shardName'')])) plans))"

definition getRejectedPlans :: "jsval \<Rightarrow> jsval result" where
  "getRejectedPlans explain =
     rbind (path explain [''queryPlanner'', ''winningPlan'']) (\<lambda>winning.
     rbind (hasOwn winning ''shards'') (\<lambda>sharded.
     if sharded
     then rbind (iterate (fld winning ''shards'')) (\<lambda>shards.
          rbind (concatR shardRejectedPlans shards) (\<lambda>plans. Inr (JArr plans)))
     else path explain [''queryPlanner'', ''rejectedPlans'']))"

definition shardExecutionStages :: "jsval \<Rightarrow> jsval result" where
  "shardExecutionStages shard =
     rbind (get_prop shard ''shardName'') (\<lambda>name.
     Inr (obj_assign (JObj [(''shardName'', name), (''executionSuccess'', fld shard ''executionSuccess'')])
           (fld shard ''executionStages'')))"

definition getExecutionStages :: "jsval \<Rightarrow> jsval list result" where
  "getExecutionStages explain =
     rbind (path explain [''executionStats'', ''executionStages'']) (\<lambda>stages.
     rbind (hasOwn stages ''shards'') (\<lambda>sharded.
     if sharded then rbind (iterate (fld stages ''shards'')) (mapR shardExecutionStages)
     else Inr [stages]))"

section \<open>Searching the explain output of an aggregation\<close>

text \<open>
  \<open>Object.getOwnPropertyNames\<close> lists the property \<open>length\<close> of an array and of a string too; a
  function has \<open>length\<close>, \<open>name\<close> and \<open>prototype\<close>.
\<close>

fun ownPropertyNames :: "jsval \<Rightarrow> string list result" where
  "ownPropertyNames (JArr xs) = Inr (obj_keys (JArr xs) @ [''length''])"
| "ownPropertyNames (JStr cs) = Inr (obj_keys (JStr cs) @ [''length''])"
| "ownPropertyNames (JFun _ _) = Inr [''length'', ''name'', ''prototype'']"
| "ownPropertyNames v = object_keys v"

text \<open>\<open>assert.eq(true, v)\<close> compares with \<open>==\<close>: the number one passes.\<close>

definition requireTrue :: "jsval \<Rightarrow> 'a result \<Rightarrow> 'a result" where
  "requireTrue v k = require (to_number v = Fin 1) ''optimizedPipeline is not true'' k"

definition documentSource :: "string \<Rightarrow> jsval \<Rightarrow> jsval list result" where
  "documentSource stage source =
     rbind (ownPropertyNames source) (\<lambda>properties.
     require (length properties = 1) ''1 is not equal to the number of properties''
       (Inr (if hd properties = stage then [source] else [])))"

definition getDocumentSources :: "string \<Rightarrow> jsval \<Rightarrow> jsval list result" where
  "getDocumentSources stage docSourceArray = concatR (documentSource stage) (elements docSourceArray)"

definition getStagesFromQueryLayerOutput :: "string \<Rightarrow> jsval \<Rightarrow> jsval list result" where
  "getStagesFromQueryLayerOutput stage queryLayerOutput =
     rbind (hasOwn queryLayerOutput ''queryPlanner'') (\<lambda>planner.
     require planner ''no queryPlanner''
       (rbind (hasOwn (fld queryLayerOutput ''queryPlanner'') ''winningPlan'') (\<lambda>winning.
        require winning ''no winningPlan''
          (if has_own queryLayerOutput ''executionStats''
           then rbind (hasOwn (fld queryLayerOutput ''executionStats'') ''executionStages'') (\<lambda>stages.
                require stages ''no executionStages''
                  (getPlanStages stage (fld (fld queryLayerOutput ''executionStats'') ''executionStages'')))
           else getPlanStages stage (fld (fld queryLayerOutput ''queryPlanner'') ''winningPlan'')))))"

text \<open>
  The stages of a pipeline: the document sources with the name, then those of the query layer below
  the first one.  The test \<open>stages.constructor === Array\<close> holds of the arrays of a reply.
\<close>

definition pipelineStages :: "string \<Rightarrow> jsval \<Rightarrow> jsval list result" where
  "pipelineStages stage stages =
     (if nothing stages then Inl (TypeErr ''has no properties'')
      else require (is_array stages) ''stages is not an array''
        (rbind (getDocumentSources stage stages) (\<lambda>sources.
         let first = (case elements stages of [] \<Rightarrow> Undef | x # _ \<Rightarrow> x) in
         rbind (hasOwn first ''$cursor'') (\<lambda>cursor.
         rbind (if cursor then getStagesFromQueryLayerOutput stage (fld first ''$cursor'')
                else if has_own first ''$geoNearCursor''
                then getStagesFromQueryLayerOutput stage (fld first ''$geoNearCursor'')
                else Inr []) (\<lambda>query.
         Inr (sources @ query))))))"

definition aggShardStages :: "string \<Rightarrow> jsval \<Rightarrow> jsval list result" where
  "aggShardStages stage shard =
     rbind (hasOwn shard ''queryPlanner'') (\<lambda>planner.
     if planner
     then rbind (get_prop (fld shard ''queryPlanner'') ''optimizedPipeline'') (\<lambda>v.
          requireTrue v (getStagesFromQueryLayerOutput stage shard))
     else if has_own shard ''stages'' then pipelineStages stage (fld shard ''stages'') else Inr [])"

definition getAggPlanStages :: "jsval \<Rightarrow> string \<Rightarrow> jsval list result" where
  "getAggPlanStages explain stage =
     rbind (hasOwn explain ''stages'') (\<lambda>b.
     rbind (if b then pipelineStages stage (fld explain ''stages'') else Inr []) (\<lambda>pipeline.
     rbind (if has_own explain ''shards''
            then concatR (\<lambda>elem. aggShardStages stage (fld (fld explain ''shards'') elem))
                   (obj_keys (fld explain ''shards''))
            else Inr []) (\<lambda>shards.
     rbind (if has_own explain ''queryPlanner''
            then rbind (get_prop (fld explain ''queryPlanner'') ''optimizedPipeline'') (\<lambda>v.
                 requireTrue v (getStagesFromQueryLayerOutput stage explain))
            else Inr []) (\<lambda>query.
     Inr (pipeline @ shards @ query)))))"

definition getAggPlanStage :: "jsval \<Rightarrow> string \<Rightarrow> jsval result" where
  "getAggPlanStage explain stage =
     rbind (getAggPlanStages explain stage) (\<lambda>planStageList.
     if planStageList = [] then Inr Null
     else require (length planStageList = 1) ''getAggPlanStage expects to find 0 or 1 matching stages''
       (Inr (hd planStageList)))"

definition aggPlanHasStage :: "jsval \<Rightarrow> string \<Rightarrow> bool result" where
  "aggPlanHasStage explain stage = rbind (getAggPlanStage explain stage) (\<lambda>found. Inr (found \<noteq> Null))"

definition sectionHasRejectedPlans :: "jsval \<Rightarrow> bool result" where
  "sectionHasRejectedPlans explainSection =
     rbind (hasOwn explainSection ''rejectedPlans'') (\<lambda>b.
     require b ''no rejectedPlans'' (lengthNotZero (fld explainSection ''rejectedPlans'')))"

definition cursorStageHasRejectedPlans :: "jsval \<Rightarrow> bool result" where
  "cursorStageHasRejectedPlans cursorStage =
     rbind (hasOwn cursorStage ''$cursor'') (\<lambda>b.
     require b ''no $cursor''
       (rbind (hasOwn (fld cursorStage ''$cursor'') ''queryPlanner'') (\<lambda>planner.
        require planner ''no queryPlanner''
          (sectionHasRejectedPlans (fld (fld cursorStage ''$cursor'') ''queryPlanner'')))))"

definition queryHasRejectedPlans :: "jsval \<Rightarrow> bool result" where
  "queryHasRejectedPlans explain =
     require (has_own explain ''queryPlanner'') ''no queryPlanner''
       (rbind (hasOwn (fld explain ''queryPlanner'') ''winningPlan'') (\<lambda>b.
        require b ''no winningPlan''
          (let winning = fld (fld explain ''queryPlanner'') ''winningPlan'' in
           rbind (hasOwn winning ''shards'') (\<lambda>sharded.
           if \<not> sharded then sectionHasRejectedPlans (fld explain ''queryPlanner'')
           else if is_array (fld winning ''shards'')
           then someR sectionHasRejectedPlans (elements (fld winning ''shards''))
           else Inl (TypeErr ''find is not a function'')))))"

lemma size_shard: "has_own v ''shards'' \<Longrightarrow> size (fld (fld v ''shards'') k) < size v"
proof -
  have "\<not> has_own (JStr cs) ''shards''" for cs
    by (auto simp: has_own_def obj_keys_def map_fst_zip show_nat_not_letter dest!: sym [of "''shards''"])
  moreover assume "has_own v ''shards''"
  ultimately have "size (fld v ''shards'') < size v"
    using size_fld_node [of v "''shards''"] by (cases v) (auto simp: has_own_def obj_keys_def)
  then show ?thesis using size_fld_le [of "fld v ''shards''" k] by simp
qed

function hasRejectedPlans :: "jsval \<Rightarrow> bool result" where
  "hasRejectedPlans explain =
     (if nothing explain then Inl (TypeErr ''has no properties'')
      else if has_own explain ''shards''
      then someR (\<lambda>shard. hasRejectedPlans (fld (fld explain ''shards'') shard)) (obj_keys (fld explain ''shards''))
      else if has_own explain ''stages''
      then rbind (getAggPlanStages explain ''$cursor'') (someR cursorStageHasRejectedPlans)
      else queryHasRejectedPlans explain)"
  by pat_completeness auto

termination
  by (relation "measure size") (auto dest: size_shard)

declare hasRejectedPlans.simps [simp del]

section \<open>The kind of a plan, chunk skips and counts\<close>

text \<open>
  The reductions of \<open>isAggregationPlan\<close> and \<open>isQueryPlan\<close>: the conditional binds weaker than the
  sum, so each step is \<open>(res + has) ? 1 : 0\<close>.
\<close>

fun countShards :: "string \<Rightarrow> jsval list \<Rightarrow> int \<Rightarrow> int result" where
  "countShards k [] res = Inr res"
| "countShards k (shard # shards) res =
     rbind (hasOwn shard k) (\<lambda>b. countShards k shards (if res + of_bool b \<noteq> 0 then 1 else 0))"

definition planKind :: "string \<Rightarrow> jsval \<Rightarrow> bool result" where
  "planKind k explain =
     rbind (hasOwn explain ''shards'') (\<lambda>sharded.
     if sharded
     then rbind (object_keys (fld explain ''shards'')) (\<lambda>shards.
          rbind (countShards k (map (fld (fld explain ''shards'')) shards) 0) (\<lambda>n. Inr (n > 0)))
     else Inr (has_own explain k))"

definition isAggregationPlan :: "jsval \<Rightarrow> bool result" where
  "isAggregationPlan explain = planKind ''stages'' explain"

definition isQueryPlan :: "jsval \<Rightarrow> bool result" where
  "isQueryPlan explain = planKind ''queryPlanner'' explain"

text \<open>The sum \<open>+\<close> of the numbers of a reply; a missing one is \<open>NaN\<close>.\<close>

definition plus :: "jsval \<Rightarrow> jsval \<Rightarrow> jsval" where
  "plus a b = JNum (num_add (to_number a) (to_number b))"

fun addTimes :: "nat \<Rightarrow> jsval result \<Rightarrow> jsval \<Rightarrow> jsval result" where
  "addTimes 0 r acc = Inr acc"
| "addTimes (Suc n) r acc = rbind r (\<lambda>x. addTimes n r (plus acc x))"

text \<open>The loop over \<open>inputStages\<close> asks the first of them every time.\<close>

function getChunkSkips :: "jsval \<Rightarrow> jsval result" where
  "getChunkSkips plan =
     (if \<not> is_node plan then Inl (TypeErr ''root is not an object'')
      else if fld plan ''stage'' = JStr ''SHARDING_FILTER'' then Inr (fld plan ''chunkSkips'')
      else if has_own plan ''inputStage'' then getChunkSkips (fld plan ''inputStage'')
      else if has_own plan ''inputStages''
      then (if nothing (fld plan ''inputStages'') then Inl (TypeErr ''has no properties'')
            else case elements (fld plan ''inputStages'') of
                   [] \<Rightarrow> Inr (jnum 0)
                 | first # rest \<Rightarrow> addTimes (length (first # rest)) (getChunkSkips first) (jnum 0))
      else Inr (jnum 0))"
  by pat_completeness auto

termination
proof (relation "measure size")
  fix plan first rest
  assume "elements (fld plan ''inputStages'') = first # rest" and "\<not> \<not> is_node plan"
    and "has_own plan ''inputStages''"
  then show "(first, plan) \<in> measure size"
    using size_elements [of first "fld plan ''inputStages''"] size_fld_node [of plan "''inputStages''"] by auto
qed (auto simp: size_fld_node)

declare getChunkSkips.simps [simp del]

definition isCountStage :: "jsval \<Rightarrow> bool" where
  "isCountStage stage \<longleftrightarrow> fld stage ''stage'' = JStr ''COUNT'' \<or> fld stage ''stage'' = JStr ''RECORD_STORE_FAST_COUNT''"

text \<open>\<open>assert.eq\<close> of a value and a number: \<open>null\<close> equals none.\<close>

definition equalsCount :: "jsval \<Rightarrow> rat \<Rightarrow> bool" where
  "equalsCount v n \<longleftrightarrow> v \<noteq> Null \<and> to_number v = Fin n"

definition requireCount :: "jsval \<Rightarrow> jsval result" where
  "requireCount countStage =
     (if nothing countStage then Inl (TypeErr ''has no properties'')
      else require (isCountStage countStage) ''root stage on shard is not COUNT or RECORD_STORE_FAST_COUNT''
        (Inr (fld countStage ''nCounted'')))"

fun totalCounted :: "jsval list \<Rightarrow> jsval \<Rightarrow> jsval result" where
  "totalCounted [] acc = Inr acc"
| "totalCounted (shard # shards) acc =
     rbind (rbind (get_prop shard ''executionStages'') requireCount) (\<lambda>n. totalCounted shards (plus acc n))"

definition assertExplainCount :: "jsval \<Rightarrow> rat \<Rightarrow> unit result" where
  "assertExplainCount explainResults expectedCount =
     rbind (path explainResults [''executionStats'', ''executionStages'']) (\<lambda>execStages.
     if nothing execStages then Inl (TypeErr ''has no properties'')
     else if fld execStages ''stage'' \<in> {JStr ''SINGLE_SHARD'', JStr ''SHARD_MERGE''}
     then rbind (rbind (iterate (fld execStages ''shards'')) (\<lambda>shards. totalCounted shards (jnum 0))) (\<lambda>counted.
          require (equalsCount counted expectedCount) ''wrong count result'' (Inr ()))
     else rbind (requireCount execStages) (\<lambda>n.
          require (equalsCount n expectedCount) ''wrong count result'' (Inr ())))"

text \<open>
  The explains of the query and of the count come from the server: they are the parameters
  \<open>findExplain\<close> and \<open>countExplain\<close>.
\<close>

definition assertCoveredQueryAndCount :: "bool \<Rightarrow> jsval \<Rightarrow> jsval \<Rightarrow> rat \<Rightarrow> unit result" where
  "assertCoveredQueryAndCount isMongos findExplain countExplain expected =
     rbind (rbind (path findExplain [''queryPlanner'', ''winningPlan'']) (isIndexOnly isMongos)) (\<lambda>covered.
     require covered ''Winning plan was not covered''
       (rbind (rbind (path countExplain [''queryPlanner'', ''winningPlan'']) (isIndexOnly isMongos)) (\<lambda>covered.
        require covered ''Winning plan for count was not covered''
          (assertExplainCount countExplain expected))))"

section \<open>The nodes of a plan\<close>

inductive plan_child :: "jsval \<Rightarrow> jsval \<Rightarrow> bool" where
  input: "has_own n ''inputStage'' \<Longrightarrow> plan_child n (fld n ''inputStage'')"
| inputs: "has_own n ''inputStages'' \<Longrightarrow> c \<in> set (elements (fld n ''inputStages'')) \<Longrightarrow> plan_child n c"
| winning: "has_own n ''queryPlanner'' \<Longrightarrow> plan_child n (fld (fld n ''queryPlanner'') ''winningPlan'')"
| shard_winning:
    "has_own n ''shards'' \<Longrightarrow> fld n ''shards'' = JArr shards \<Longrightarrow> s \<in> set shards \<Longrightarrow> has_own s ''winningPlan'' \<Longrightarrow>
     plan_child n (fld s ''winningPlan'')"
| shard_executed:
    "has_own n ''shards'' \<Longrightarrow> fld n ''shards'' = JArr shards \<Longrightarrow> s \<in> set shards \<Longrightarrow> \<not> has_own s ''winningPlan'' \<Longrightarrow>
     plan_child n (fld s ''executionStages'')"
| shard_member:
    "has_own n ''shards'' \<Longrightarrow> \<not> is_array (fld n ''shards'') \<Longrightarrow> has_own (fld n ''shards'') shard \<Longrightarrow>
     plan_child n (fld (fld n ''shards'') shard)"

inductive_simps plan_child_iff: "plan_child n c"

definition readable :: "jsval \<Rightarrow> bool" where
  "readable n \<longleftrightarrow>
     is_node n \<and> (has_own n ''inputStages'' \<longrightarrow> \<not> nothing (fld n ''inputStages'')) \<and>
     (has_own n ''shards'' \<longrightarrow> \<not> nothing (fld n ''shards''))"

abbreviation plan_nodes :: "jsval \<Rightarrow> jsval set" where
  "plan_nodes plan \<equiv> {n. plan_child\<^sup>*\<^sup>* plan n}"

lemma fld_nothing [simp]: "fld Undef k = Undef" "fld Null k = Undef"
  by (simp_all add: fld_def)

lemma has_own_nothing [simp]: "\<not> has_own Undef k" "\<not> has_own Null k"
  by (simp_all add: has_own_def obj_keys_def)

lemma plan_nodes_unfold: "plan_nodes plan = insert plan (\<Union>c \<in> {c. plan_child plan c}. plan_nodes c)"
  by (auto elim: converse_rtranclpE intro: converse_rtranclp_into_rtranclp)

lemma Inr_shardPlan:
  "Inr c = shardPlan s \<longleftrightarrow>
   \<not> nothing s \<and> c = fld s (if has_own s ''winningPlan'' then ''winningPlan'' else ''executionStages'')"
  by (auto simp: shardPlan_def hasOwn_def get_prop_def)

lemma Inl_shardPlan: "Inl e = shardPlan s \<Longrightarrow> nothing s"
  by (auto simp: shardPlan_def hasOwn_def get_prop_def split: if_splits)

lemma Inr_indexed: "Inr c \<in> set (indexed v) \<longleftrightarrow> \<not> nothing v \<and> c \<in> set (elements v)"
  by (auto simp: indexed_def)

lemma Inl_indexed: "Inl e \<in> set (indexed v) \<Longrightarrow> nothing v"
  by (auto simp: indexed_def split: if_splits)

lemma shardPlans_array: "shardPlans (JArr ss) = map shardPlan ss"
  by (simp add: shardPlans_def)

lemma shardPlans_object:
  "\<not> is_array v \<Longrightarrow> \<not> nothing v \<Longrightarrow> shardPlans v = map (\<lambda>k. Inr (fld v k)) (obj_keys v)"
  by (simp add: shardPlans_def object_keys_def)

lemma shardPlans_nothing: "nothing v \<Longrightarrow> Inr c \<notin> set (shardPlans v)"
  by (auto simp: shardPlans_def object_keys_def)

text \<open>The entries of a readable node that can be read are its children; one that throws stands for an undefined child.\<close>

lemma shards_sound: "has_own n ''shards'' \<Longrightarrow> Inr c \<in> set (shardPlans (fld n ''shards'')) \<Longrightarrow> plan_child n c"
proof (cases "is_array (fld n ''shards'')")
  case True
  assume own: "has_own n ''shards''" and c: "Inr c \<in> set (shardPlans (fld n ''shards''))"
  from True obtain ss where ss: "fld n ''shards'' = JArr ss" by (cases "fld n ''shards''") auto
  with c obtain s where "s \<in> set ss" and "c = fld s (if has_own s ''winningPlan'' then ''winningPlan'' else ''executionStages'')"
    by (auto simp: shardPlans_array Inr_shardPlan)
  then show ?thesis using shard_winning [OF own ss] shard_executed [OF own ss] by auto
next
  case False
  assume own: "has_own n ''shards''" and c: "Inr c \<in> set (shardPlans (fld n ''shards''))"
  then have "\<not> nothing (fld n ''shards'')" using shardPlans_nothing by blast
  with c shard_member [OF own False] show ?thesis
    by (auto simp: shardPlans_object [OF False] has_own_def)
qed

lemma planChildren_sound: "Inr c \<in> set (planChildren n) \<Longrightarrow> plan_child n c"
  using shards_sound [of n c] input [of n] inputs [of n c] winning [of n]
  by (auto simp: planChildren_def Inr_indexed get_prop_def split: if_splits)

definition reads :: "jsval \<Rightarrow> bool" where
  "reads n \<longleftrightarrow> (\<forall>e. Inl e \<notin> set (planChildren n))"

lemma reads_parts:
  assumes "reads n"
  shows "has_own n ''inputStages'' \<Longrightarrow> \<not> nothing (fld n ''inputStages'')"
    and "has_own n ''queryPlanner'' \<Longrightarrow> \<not> nothing (fld n ''queryPlanner'')"
    and "has_own n ''shards'' \<Longrightarrow> \<not> nothing (fld n ''shards'')"
    and "has_own n ''shards'' \<Longrightarrow> fld n ''shards'' = JArr ss \<Longrightarrow> s \<in> set ss \<Longrightarrow> \<not> nothing s"
proof -
  show "has_own n ''inputStages'' \<Longrightarrow> \<not> nothing (fld n ''inputStages'')"
    using assms by (auto simp: reads_def planChildren_def indexed_def)
  show "has_own n ''queryPlanner'' \<Longrightarrow> \<not> nothing (fld n ''queryPlanner'')"
    using assms by (auto simp: reads_def planChildren_def get_prop_def)
  show "has_own n ''shards'' \<Longrightarrow> \<not> nothing (fld n ''shards'')"
    using assms by (auto simp: reads_def planChildren_def shardPlans_def object_keys_def)
  assume "has_own n ''shards''" and "fld n ''shards'' = JArr ss" and s: "s \<in> set ss"
  then have "Inl e \<notin> shardPlan ` set ss" for e
    using assms by (simp add: reads_def planChildren_def shardPlans_array)
  with s have "Inl (TypeErr ''has no properties'') \<noteq> shardPlan s" by blast
  then show "\<not> nothing s" by (auto simp: shardPlan_def hasOwn_def)
qed

lemma planChildren_complete:
  assumes "reads n" and "plan_child n c"
  shows "Inr c \<in> set (planChildren n)"
  using assms(2)
proof cases
  case winning
  with reads_parts(2) [OF assms(1)] show ?thesis by (auto simp: planChildren_def get_prop_def)
next
  case (shard_winning ss s)
  with reads_parts(4) [OF assms(1)] have "Inr c = shardPlan s" by (simp add: Inr_shardPlan)
  with shard_winning show ?thesis by (auto simp: planChildren_def shardPlans_array)
next
  case (shard_executed ss s)
  with reads_parts(4) [OF assms(1)] have "Inr c = shardPlan s" by (simp add: Inr_shardPlan)
  with shard_executed show ?thesis by (auto simp: planChildren_def shardPlans_array)
next
  case (shard_member k)
  with reads_parts(3) [OF assms(1)] show ?thesis
    by (auto simp: planChildren_def shardPlans_object has_own_def)
qed (use reads_parts(1) [OF assms(1)] in \<open>auto simp: planChildren_def Inr_indexed\<close>)

lemma planChildren_throws:
  assumes "\<not> reads n" and "readable n"
  shows "plan_child n Undef"
proof -
  obtain e where "Inl e \<in> set (planChildren n)" using assms(1) by (auto simp: reads_def)
  then consider "has_own n ''queryPlanner''" "nothing (fld n ''queryPlanner'')"
    | "has_own n ''shards''" "Inl e \<in> set (shardPlans (fld n ''shards''))"
    using assms(2) Inl_indexed by (fastforce simp: planChildren_def readable_def get_prop_def split: if_splits)
  then show ?thesis
  proof cases
    case 1
    then show ?thesis using winning [of n] by auto
  next
    case 2
    with assms(2) have "is_array (fld n ''shards'')"
      by (rule_tac ccontr) (auto simp: readable_def shardPlans_object)
    then obtain ss where ss: "fld n ''shards'' = JArr ss" by (cases "fld n ''shards''") auto
    with 2 obtain s where "s \<in> set ss" and "nothing s" by (auto simp: shardPlans_array dest: Inl_shardPlan)
    then show ?thesis using shard_executed [OF 2(1) ss, of s] by auto
  qed
qed

lemma plan_child_reads: "reads n \<Longrightarrow> plan_child n c \<longleftrightarrow> Inr c \<in> set (planChildren n)"
  using planChildren_sound planChildren_complete by blast

lemma reads_readable: "is_node n \<Longrightarrow> reads n \<Longrightarrow> readable n"
  using reads_parts(1,3) unfolding readable_def by blast

lemma getPlanStages_cases:
  "getPlanStages stage plan = Inr rs \<longleftrightarrow>
   is_node plan \<and>
   (\<exists>results. concatR (\<lambda>child. rbind child (getPlanStages stage)) (planChildren plan) = Inr results \<and>
     rs = (if fld plan ''stage'' = JStr stage then [plan] else []) @ results)"
  by (auto simp: getPlanStages.simps [of stage plan] rbind_Inr)

lemma getPlanStages_Inr:
  "getPlanStages stage plan = Inr rs \<Longrightarrow>
   (\<forall>n \<in> plan_nodes plan. readable n) \<and> set rs = {n \<in> plan_nodes plan. fld n ''stage'' = JStr stage}"
proof (induction stage plan arbitrary: rs rule: getPlanStages.induct)
  case (1 stage plan)
  let ?f = "\<lambda>child. rbind child (getPlanStages stage)"
  from "1.prems" obtain results where node: "is_node plan"
    and results: "concatR ?f (planChildren plan) = Inr results"
    and rs: "rs = (if fld plan ''stage'' = JStr stage then [plan] else []) @ results"
    by (auto simp: getPlanStages_cases)
  have each: "\<exists>c zs. child = Inr c \<and> getPlanStages stage c = Inr zs" if "child \<in> set (planChildren plan)" for child
    using concatR_Inr [OF results] that by (auto simp: rbind_Inr)
  then have reads: "reads plan" by (fastforce simp: reads_def)
  have IH: "\<exists>zs. getPlanStages stage c = Inr zs \<and> (\<forall>n \<in> plan_nodes c. readable n) \<and>
      set zs = {n \<in> plan_nodes c. fld n ''stage'' = JStr stage}" if "plan_child plan c" for c
  proof -
    have mem: "Inr c \<in> set (planChildren plan)" using that by (simp add: plan_child_reads [OF reads])
    then obtain zs where zs: "getPlanStages stage c = Inr zs" using each [of "Inr c"] by auto
    with "1.IH" [OF _ mem refl zs] node show ?thesis by blast
  qed
  have "set results = (\<Union>c \<in> {c. plan_child plan c}. {n \<in> plan_nodes c. fld n ''stage'' = JStr stage})"
    using concatR_Inr [OF results] IH each by (fastforce simp: plan_child_reads [OF reads] rbind_Inr)
  then show ?case
    using IH reads_readable [OF node reads] rs by (subst (1 2) plan_nodes_unfold) auto
qed

lemma getPlanStages_defined: "\<forall>n \<in> plan_nodes plan. readable n \<Longrightarrow> \<exists>rs. getPlanStages stage plan = Inr rs"
proof (induction stage plan rule: getPlanStages.induct)
  case (1 stage plan)
  have readable: "readable plan" and undef: "\<not> plan_child plan Undef"
    using "1.prems" by (auto simp: readable_def)
  then have reads: "reads plan" using planChildren_throws by blast
  have node: "is_node plan" using readable by (simp add: readable_def)
  have "\<exists>zs. rbind child (getPlanStages stage) = Inr zs" if "child \<in> set (planChildren plan)" for child
  proof (cases child)
    case (Inl e)
    with reads that show ?thesis by (auto simp: reads_def)
  next
    case (Inr c)
    have "plan_child plan c" using that Inr by (simp add: planChildren_sound)
    then have "\<forall>n \<in> plan_nodes c. readable n"
      using "1.prems" by (auto intro: converse_rtranclp_into_rtranclp)
    then show ?thesis using "1.IH" [of child c] node that Inr by auto
  qed
  then show ?case using concatR_defined node by (fastforce simp: getPlanStages_cases)
qed

text \<open>
  C12. The search of a plan is exact: it returns when every node of the plan below the root can be read, and then
  the result holds precisely the nodes whose stage is the one asked for; otherwise it throws.  The nodes are those
  reached from the root by \<open>inputStage\<close>, \<open>inputStages\<close>, \<open>queryPlanner.winningPlan\<close> and the
  two forms of \<open>shards\<close>.\<close>

theorem getPlanStages_exact:
  "case getPlanStages stage plan of
     Inr rs \<Rightarrow> plan_nodes plan \<subseteq> Collect readable \<and> set rs = {n \<in> plan_nodes plan. fld n ''stage'' = JStr stage}
   | Inl e \<Rightarrow> \<not> plan_nodes plan \<subseteq> Collect readable"
proof (cases "getPlanStages stage plan")
  case (Inl e)
  then have "\<not> (\<forall>n \<in> plan_nodes plan. readable n)"
    using getPlanStages_defined [of plan stage] by (metis sum.distinct(1))
  with Inl show ?thesis by (simp add: subset_iff)
next
  case (Inr rs)
  with getPlanStages_Inr [OF Inr] show ?thesis by (simp add: subset_iff)
qed

lemma planHasStage_Inr:
  assumes "planHasStage isMongos plan stage = Inr b"
  shows "b \<longleftrightarrow> (\<exists>n \<in> plan_nodes plan. fld n ''stage'' = JStr stage)"
proof -
  from assms obtain rs where "getPlanStages stage plan = Inr rs" and "b \<longleftrightarrow> rs \<noteq> []"
    by (cases isMongos) (auto simp: planHasStage_def rbind_Inr Suc_le_eq less_2_cases_iff length_Suc_conv)
  then show ?thesis using getPlanStages_Inr [of stage plan rs] by (auto simp flip: set_empty)
qed

lemma planHasStage_mongos_defined: "\<forall>n \<in> plan_nodes plan. readable n \<Longrightarrow> \<exists>b. planHasStage True plan stage = Inr b"
  using getPlanStages_defined [of plan stage] by (auto simp: planHasStage_def)

text \<open>
  The test for a covered query is exact: when it returns, it returns whether no node of the plan is a fetch or a
  collection scan.  Through a mongos it throws only on a plan that cannot be read; a mongod plan with two such stages
  fails its assertion.\<close>

theorem isIndexOnly_exact:
  "case isIndexOnly isMongos plan of
     Inr b \<Rightarrow> b \<longleftrightarrow> plan_nodes plan \<inter> {n. fld n ''stage'' \<in> {JStr ''FETCH'', JStr ''COLLSCAN''}} = {}
   | Inl e \<Rightarrow> \<not> (isMongos \<and> plan_nodes plan \<subseteq> Collect readable)"
proof (cases "isIndexOnly isMongos plan")
  case (Inl e)
  have "\<exists>b. isIndexOnly True plan = Inr b" if readable: "\<forall>n \<in> plan_nodes plan. readable n"
  proof -
    obtain f c where "planHasStage True plan ''FETCH'' = Inr f" and "planHasStage True plan ''COLLSCAN'' = Inr c"
      using planHasStage_mongos_defined [OF readable] by blast
    then show ?thesis by (auto simp: isIndexOnly_def)
  qed
  with Inl have "\<not> (isMongos \<and> (\<forall>n \<in> plan_nodes plan. readable n))" by force
  with Inl show ?thesis by auto
next
  case (Inr b)
  then have "b \<longleftrightarrow> plan_nodes plan \<inter> {n. fld n ''stage'' \<in> {JStr ''FETCH'', JStr ''COLLSCAN''}} = {}"
    by (auto simp: isIndexOnly_def rbind_Inr split: if_splits dest!: planHasStage_Inr)
  with Inr show ?thesis by simp
qed

lemma countShards_Inr:
  "countShards k shards res = Inr n \<Longrightarrow> res \<in> {0, 1} \<Longrightarrow>
   n \<in> {0, 1} \<and> (n = 1 \<longleftrightarrow> res = 1 \<or> (\<exists>s \<in> set shards. has_own s k))"
proof (induction shards arbitrary: res)
  case (Cons s shards)
  from Cons.prems show ?case
    using Cons.IH [of "if res + of_bool (has_own s k) \<noteq> 0 then 1 else 0"]
    by (auto simp: rbind_Inr split: if_splits)
qed simp

lemma countShards_throws: "countShards k shards res = Inl e \<Longrightarrow> \<exists>s \<in> set shards. nothing s"
  by (induction shards arbitrary: res) (auto simp: rbind_def hasOwn_def split: sum.splits if_splits)

lemma planKind_exact:
  "case planKind k explain of
     Inr b \<Rightarrow> b \<longleftrightarrow> (if has_own explain ''shards''
                     then \<exists>s \<in> set (obj_keys (fld explain ''shards'')). has_own (fld (fld explain ''shards'') s) k
                     else has_own explain k)
   | Inl e \<Rightarrow> nothing explain \<or> nothing (fld explain ''shards'') \<or>
       (\<exists>s \<in> set (obj_keys (fld explain ''shards'')). nothing (fld (fld explain ''shards'') s))"
proof (cases "planKind k explain")
  case (Inl e)
  then show ?thesis
    by (auto simp: planKind_def rbind_def hasOwn_def object_keys_def split: sum.splits if_splits
        dest!: countShards_throws sym [of Undef] sym [of Null])
next
  case (Inr b)
  then have "b \<longleftrightarrow> (if has_own explain ''shards''
      then \<exists>s \<in> set (obj_keys (fld explain ''shards'')). has_own (fld (fld explain ''shards'') s) k
      else has_own explain k)"
    by (auto simp: planKind_def rbind_Inr split: if_splits dest!: countShards_Inr)
  with Inr show ?thesis by simp
qed

text \<open>
  The searches of an aggregation return only what was asked for: a pipeline stage with the name as its
  only property, or a node of a query plan with that stage.\<close>

definition named_stage :: "string \<Rightarrow> jsval \<Rightarrow> bool" where
  "named_stage stage r \<longleftrightarrow> fld r ''stage'' = JStr stage \<or> ownPropertyNames r = Inr [stage]"

definition all_named :: "string \<Rightarrow> jsval list result \<Rightarrow> bool" where
  "all_named stage m \<longleftrightarrow> (\<forall>rs. m = Inr rs \<longrightarrow> list_all (named_stage stage) rs)"

lemma all_named_basic:
  "all_named stage (Inl e)" "all_named stage (Inr [])"
  "all_named stage m \<Longrightarrow> all_named stage (require c msg m)"
  "all_named stage m \<Longrightarrow> all_named stage m' \<Longrightarrow> all_named stage (if c then m else m')"
  "(\<And>x. all_named stage (f x)) \<Longrightarrow> all_named stage (rbind n f)"
  by (auto simp: all_named_def rbind_Inr)

lemma all_named_append:
  "all_named stage m \<Longrightarrow> (\<And>xs. list_all (named_stage stage) xs \<Longrightarrow> all_named stage (f xs)) \<Longrightarrow> all_named stage (rbind m f)"
  by (auto simp: all_named_def rbind_Inr)

lemma all_named_concatR: "(\<And>x. all_named stage (f x)) \<Longrightarrow> all_named stage (concatR f xs)"
  by (induction xs) (fastforce simp: all_named_def rbind_Inr)+

lemma all_named_plan: "all_named stage (getPlanStages stage plan)"
  using getPlanStages_Inr [of stage plan] by (auto simp: all_named_def named_stage_def list_all_iff)

lemma all_named_query: "all_named stage (getStagesFromQueryLayerOutput stage out)"
  unfolding getStagesFromQueryLayerOutput_def by (intro all_named_basic all_named_plan)

lemma all_named_sources: "all_named stage (getDocumentSources stage sources)"
  unfolding getDocumentSources_def documentSource_def
  by (intro all_named_concatR) (auto simp: all_named_def named_stage_def rbind_Inr length_Suc_conv)

lemma all_named_pipeline: "all_named stage (pipelineStages stage stages)"
proof -
  have "all_named stage (Inr (a @ b))"
    if "list_all (named_stage stage) a" and "list_all (named_stage stage) b" for a b
    using that by (simp add: all_named_def)
  then show ?thesis
    unfolding pipelineStages_def Let_def
    by (intro all_named_basic(1,3,4) all_named_append [OF all_named_sources] all_named_basic(5)
        all_named_append [OF all_named_basic(4) [OF all_named_query all_named_basic(4) [OF all_named_query all_named_basic(2)]]])
qed

lemma all_named_shard: "all_named stage (aggShardStages stage shard)"
  unfolding aggShardStages_def requireTrue_def
  by (intro all_named_basic all_named_query all_named_pipeline)

text \<open>
  The search of the explain output of an aggregation is sound: every result is a pipeline stage
  with the name asked for as its only property, or a node of a query plan with that stage, for the three forms of
  the output: a pipeline, shards, and a pipeline optimised away.\<close>

theorem getAggPlanStages_sound:
  assumes "getAggPlanStages explain stage = Inr rs" and "r \<in> set rs"
  shows "named_stage stage r"
proof -
  obtain b p s q where p: "(if b then pipelineStages stage (fld explain ''stages'') else Inr []) = Inr p"
    and s: "(if has_own explain ''shards''
       then concatR (\<lambda>elem. aggShardStages stage (fld (fld explain ''shards'') elem)) (obj_keys (fld explain ''shards''))
       else Inr []) = Inr s"
    and q: "(if has_own explain ''queryPlanner''
       then rbind (get_prop (fld explain ''queryPlanner'') ''optimizedPipeline'') (\<lambda>v.
            requireTrue v (getStagesFromQueryLayerOutput stage explain))
       else Inr []) = Inr q"
    and rs: "rs = p @ s @ q"
    using assms(1) unfolding getAggPlanStages_def rbind_Inr [of "hasOwn explain ''stages''"]
      rbind_Inr [of "if _ then pipelineStages _ _ else _"] rbind_Inr [of "if _ then concatR _ _ else _"]
      rbind_Inr [of "if _ then rbind _ _ else _"] by auto
  have "list_all (named_stage stage) p"
    using all_named_basic(4) [OF all_named_pipeline all_named_basic(2)] p unfolding all_named_def by blast
  moreover have "list_all (named_stage stage) s"
    using all_named_basic(4) [OF all_named_concatR [OF all_named_shard] all_named_basic(2)] s
    unfolding all_named_def by blast
  moreover have "list_all (named_stage stage) q"
    using q all_named_query [of stage explain]
    by (auto simp: all_named_def requireTrue_def rbind_Inr split: if_splits)
  ultimately show ?thesis using assms(2) rs by (auto simp: list_all_iff)
qed

section \<open>Rejected plans\<close>

lemma lengthNotZero_iterate: "iterate v = Inr xs \<Longrightarrow> lengthNotZero v = Inr (xs \<noteq> [])"
  by (cases v) (auto simp: iterate_def lengthNotZero_def)

lemma sectionHasRejectedPlans_Inr:
  "sectionHasRejectedPlans v = Inr b \<longleftrightarrow> has_own v ''rejectedPlans'' \<and> lengthNotZero (fld v ''rejectedPlans'') = Inr b"
  by (auto simp: sectionHasRejectedPlans_def rbind_Inr)

lemma shardRejectedPlans_Inr:
  assumes "shardRejectedPlans shard = Inr ps" and "sectionHasRejectedPlans shard = Inr b"
  shows "b \<longleftrightarrow> ps \<noteq> []"
  using assms lengthNotZero_iterate [of "fld shard ''rejectedPlans''"]
  by (auto simp: shardRejectedPlans_def sectionHasRejectedPlans_Inr rbind_Inr)

lemma someR_concatR:
  assumes "someR f xs = Inr b" and "concatR g xs = Inr ys"
    and "\<And>x c zs. f x = Inr c \<Longrightarrow> g x = Inr zs \<Longrightarrow> c \<longleftrightarrow> zs \<noteq> []"
  shows "b \<longleftrightarrow> ys \<noteq> []"
  using assms(1,2)
proof (induction xs arbitrary: ys)
  case (Cons x xs)
  then show ?case using assms(3) [of x] by (fastforce simp: rbind_Inr split: if_splits)
qed simp

text \<open>
  The two readers of rejected plans agree: on the explain output of a query, sharded or not,
  \<open>hasRejectedPlans\<close> answers whether \<open>getRejectedPlans\<close> returns a plan.\<close>

theorem rejected_plans_agree:
  assumes "\<not> has_own explain ''shards''" and "\<not> has_own explain ''stages''"
    and "hasRejectedPlans explain = Inr b" and "getRejectedPlans explain = Inr (JArr plans)"
  shows "b \<longleftrightarrow> plans \<noteq> []"
proof -
  let ?winning = "fld (fld explain ''queryPlanner'') ''winningPlan''"
  have query: "queryHasRejectedPlans explain = Inr b"
    using assms(1-3) by (auto simp: hasRejectedPlans.simps [of explain] split: if_splits)
  show ?thesis
  proof (cases "has_own ?winning ''shards''")
    case True
    with assms(4) obtain shards where "iterate (fld ?winning ''shards'') = Inr shards"
      and plans: "concatR shardRejectedPlans shards = Inr plans"
      by (auto simp: getRejectedPlans_def rbind_Inr)
    moreover from True query have "is_array (fld ?winning ''shards'')"
      and "someR sectionHasRejectedPlans (elements (fld ?winning ''shards'')) = Inr b"
      by (auto simp: queryHasRejectedPlans_def rbind_Inr Let_def split: if_splits)
    ultimately have "someR sectionHasRejectedPlans shards = Inr b" by (simp add: iterate_def)
    then show ?thesis using plans by (rule someR_concatR) (rule shardRejectedPlans_Inr)
  next
    case False
    with query assms(4) show ?thesis
      by (auto simp: queryHasRejectedPlans_def getRejectedPlans_def sectionHasRejectedPlans_Inr rbind_Inr
          Let_def lengthNotZero_def split: if_splits dest!: sym [of "JArr plans"])
  qed
qed

text \<open>The output of a sharded query, with one shard that rejected a plan.\<close>

definition shardedExplain :: jsval where
  "shardedExplain =
     JObj [(''queryPlanner'', JObj [(''winningPlan'', JObj [(''stage'', JStr ''SHARD_MERGE''),
       (''shards'', JArr [
          JObj [(''shardName'', JStr ''s0''), (''winningPlan'', JObj [(''stage'', JStr ''IXSCAN'')]), (''rejectedPlans'', JArr [])],
          JObj [(''shardName'', JStr ''s1''), (''winningPlan'', JObj [(''stage'', JStr ''COLLSCAN'')]),
            (''rejectedPlans'', JArr [JObj [(''stage'', JStr ''FETCH'')]])]])])])]"

lemma shardedExplain_rejects:
  "\<not> has_own shardedExplain ''shards''" "\<not> has_own shardedExplain ''stages''"
  "hasRejectedPlans shardedExplain = Inr True"
  "getRejectedPlans shardedExplain = Inr (JArr [JObj [(''shardName'', JStr ''s1''), (''stage'', JStr ''FETCH'')]])"
  by code_simp+

theorem rejected_plans_agree_witness:
  "(True \<longleftrightarrow> [JObj [(''shardName'', JStr ''s1''), (''stage'', JStr ''FETCH'')]] \<noteq> [])"
  using rejected_plans_agree [OF shardedExplain_rejects] .

definition optimizedExplain :: jsval where
  "optimizedExplain =
     JObj [(''shards'', JObj [
       (''s0'', JObj [(''queryPlanner'', JObj [(''optimizedPipeline'', JBool True),
          (''winningPlan'', JObj [(''stage'', JStr ''FETCH''), (''inputStage'', JObj [(''stage'', JStr ''IXSCAN'')])])])]),
       (''s1'', JObj [(''stages'', JArr [JObj [(''$cursor'', JObj [(''queryPlanner'',
          JObj [(''winningPlan'', JObj [(''stage'', JStr ''IXSCAN'')])])])], JObj [(''$sort'', JObj [])]])])])]"

lemma optimizedExplain_stages:
  "getAggPlanStages optimizedExplain ''IXSCAN'' = Inr [JObj [(''stage'', JStr ''IXSCAN'')], JObj [(''stage'', JStr ''IXSCAN'')]]"
  by code_simp

theorem getAggPlanStages_sound_witness: "named_stage ''IXSCAN'' (JObj [(''stage'', JStr ''IXSCAN'')])"
  by (rule getAggPlanStages_sound [OF optimizedExplain_stages]) simp

section \<open>Counts and chunk skips\<close>

lemma totalCounted_Inr:
  assumes "list_all2 (\<lambda>s q. fld (fld s ''executionStages'') ''nCounted'' = JNum (Fin q)) shards qs"
  shows "totalCounted shards (JNum (Fin a)) = Inr v \<longleftrightarrow>
    list_all (\<lambda>s. isCountStage (fld s ''executionStages'')) shards \<and> v = JNum (Fin (a + sum_list qs))"
  using assms
proof (induction arbitrary: a rule: list_all2_induct)
  case (Cons s shards q qs)
  then have "\<not> nothing s" and "\<not> nothing (fld s ''executionStages'')" by auto
  with Cons show ?case by (auto simp: rbind_Inr requireCount_def plus_def add.assoc)
qed auto

text \<open>
  The check of a count through a mongos is exact: it passes when the root stage of every shard is
  a count and the counts of the shards add up to the one expected.\<close>

theorem assertExplainCount_sharded:
  assumes "fld (fld explain ''executionStats'') ''executionStages'' = merge"
    and "fld merge ''stage'' \<in> {JStr ''SINGLE_SHARD'', JStr ''SHARD_MERGE''}"
    and "fld merge ''shards'' = JArr shards"
    and "list_all2 (\<lambda>s q. fld (fld s ''executionStages'') ''nCounted'' = JNum (Fin q)) shards qs"
  shows "assertExplainCount explain expected = Inr () \<longleftrightarrow>
    list_all (\<lambda>s. isCountStage (fld s ''executionStages'')) shards \<and> sum_list qs = expected"
proof -
  have "\<not> nothing merge" and "\<not> nothing explain" and "\<not> nothing (fld explain ''executionStats'')"
    using assms(1,2) by auto
  with assms(1-3) totalCounted_Inr [OF assms(4), of 0] show ?thesis
    by (auto simp: assertExplainCount_def rbind_Inr iterate_def equalsCount_def)
qed

definition countShard :: "rat \<Rightarrow> jsval" where
  "countShard n = JObj [(''executionStages'', JObj [(''stage'', JStr ''COUNT''), (''nCounted'', JNum (Fin n))])]"

definition countExplain :: jsval where
  "countExplain = JObj [(''executionStats'', JObj [(''executionStages'',
     JObj [(''stage'', JStr ''SHARD_MERGE''), (''shards'', JArr [countShard 3, countShard 4])])])]"

theorem assertExplainCount_sharded_witness: "assertExplainCount countExplain 7 = Inr ()"
proof -
  have "fld (fld countExplain ''executionStats'') ''executionStages'' =
      JObj [(''stage'', JStr ''SHARD_MERGE''), (''shards'', JArr [countShard 3, countShard 4])]"
    by (simp add: countExplain_def fld_def)
  from assertExplainCount_sharded [OF this, of "[countShard 3, countShard 4]" "[3, 4]" 7]
  show ?thesis by (simp add: fld_def countShard_def isCountStage_def)
qed

lemma addTimes_numbers: "addTimes n (Inr (JNum (Fin q))) (JNum (Fin a)) = Inr (JNum (Fin (a + of_nat n * q)))"
  by (induction n arbitrary: a) (auto simp: plus_def algebra_simps)

text \<open>
  The chunk skips of a node with several inputs are those of its first input, counted once for every
  input: the skips of the other inputs are never read.\<close>

theorem getChunkSkips_first_input:
  assumes "fld plan ''stage'' \<noteq> JStr ''SHARDING_FILTER''" and "\<not> has_own plan ''inputStage''"
    and "has_own plan ''inputStages''" and "fld plan ''inputStages'' = JArr (first # rest)"
    and "getChunkSkips first = Inr (JNum (Fin q))"
  shows "getChunkSkips plan = Inr (JNum (Fin (of_nat (Suc (length rest)) * q)))"
proof -
  have "is_node plan" using assms(3,4) by (cases plan) (auto simp: fld_def has_own_def obj_keys_def split: option.splits dest!: map_of_SomeD set_zip_rightD)
  with assms addTimes_numbers [of "Suc (length rest)" q 0] show ?thesis
    by (simp add: getChunkSkips.simps [of plan])
qed

definition shardingFilter :: "rat \<Rightarrow> jsval" where
  "shardingFilter n = JObj [(''stage'', JStr ''SHARDING_FILTER''), (''chunkSkips'', JNum (Fin n))]"

text \<open>One chunk skipped below one input and five below the other: two are reported.\<close>

theorem getChunkSkips_first_input_witness:
  "getChunkSkips (JObj [(''stage'', JStr ''OR''), (''inputStages'', JArr [shardingFilter 1, shardingFilter 5])]) = Inr (JNum (Fin 2))"
proof -
  have "getChunkSkips (shardingFilter 1) = Inr (JNum (Fin 1))"
    by (simp add: getChunkSkips.simps shardingFilter_def fld_def)
  from getChunkSkips_first_input [OF _ _ _ _ this,
      of "JObj [(''stage'', JStr ''OR''), (''inputStages'', JArr [shardingFilter 1, shardingFilter 5])]" "[shardingFilter 5]"]
  show ?thesis by (simp add: fld_def has_own_def obj_keys_def)
qed

end
