(* ===== verification/Rewriting_Overrides.thy ===== *)
theory Rewriting_Overrides
  imports Override_Helpers
begin

text \<open>
  The overrides of \<open>Mongo.prototype.runCommand\<close> that rewrite a command, or refuse it, and pass it on once:
  \<open>set_read_and_write_concerns.js\<close>, \<open>txn_passthrough_cmd_massage.js\<close>,
  \<open>implicitly_wrap_pipelines_in_facets.js\<close> and \<open>fail_unclean_shutdown_incompatible_commands.js\<close>.
  A command is a value, so that a change of a copy and a change of the caller's object are the same;
  the original function \<open>func\<close> with the arguments built from a command is the parameter \<open>send\<close>.
  The test settings \<open>TestData\<close> are the parameter \<open>td\<close>.
\<close>

section \<open>Model\<close>

text \<open>\<open>OverrideHelpers.overrideRunCommand\<close>: the name of a command is its first key.\<close>

definition installed :: "(string \<Rightarrow> jsval \<Rightarrow> ('s, jsval) eff) \<Rightarrow> jsval \<Rightarrow> ('s, jsval) eff" where
  "installed overrideFunc commandObj =
     bindE (liftE (object_keys commandObj)) (\<lambda>_. overrideFunc (first_key commandObj) commandObj)"

text \<open>A command in the wrapped form has the actual command inside its \<open>query\<close> or \<open>$query\<close> property.\<close>

definition inWrappedForm :: "string \<Rightarrow> bool" where
  "inWrappedForm commandName \<longleftrightarrow> commandName = ''query'' \<or> commandName = ''$query''"

definition unwrapped :: "string \<Rightarrow> jsval \<Rightarrow> (string \<times> jsval) result" where
  "unwrapped commandName commandObj =
     (if inWrappedForm commandName
      then rbind (object_keys (fld commandObj commandName)) (\<lambda>_.
           Inr (first_key (fld commandObj commandName), fld commandObj commandName))
      else Inr (commandName, commandObj))"

abbreviation copied :: "jsval \<Rightarrow> jsval" where
  "copied v \<equiv> obj_assign (JObj []) v"

subsection \<open>Read and write concerns\<close>

definition kDefaultReadConcern :: "jsval \<Rightarrow> jsval" where
  "kDefaultReadConcern td = JObj [(''level'', fld td ''defaultReadConcernLevel'')]"

definition kDefaultWriteConcern :: "jsval \<Rightarrow> jsval" where
  "kDefaultWriteConcern td =
     (if has_own td ''defaultWriteConcern'' then fld td ''defaultWriteConcern''
      else JObj [(''w'', JStr ''majority''), (''wtimeout'', jnum (5 * 60 * 1000 + 321))])"

definition concernsToForce :: "jsval \<Rightarrow> string \<Rightarrow> jsval \<Rightarrow> jsval \<Rightarrow> (bool \<times> bool) result" where
  "concernsToForce td commandName commandObj inner =
     (let r0 = commandName \<in> set kCommandsSupportingReadConcern;
          w0 = commandName \<in> set kCommandsSupportingWriteConcern;
          (r1, w1) = (if has_own commandObj ''autocommit''
            then (False, w0 \<and> commandName \<in> set kCommandsSupportingWriteConcernInTransaction) else (r0, w0));
          snapshot = (commandName \<in> set kCommandsOnlySupportingReadConcernSnapshot \<and>
            fld td ''defaultReadConcernLevel'' = JStr ''snapshot'') in
      if commandName = ''aggregate''
      then let r2 = (r1 \<and> \<not> isAggregationWithListLocalSessionsStage commandName inner);
               (r3, w3) = (if isAggregationWithOutOrMergeStage commandName inner
                 then (r2 \<and> fld td ''defaultReadConcernLevel'' \<noteq> JStr ''linearizable'', w1) else (r2, False)) in
           Inr (r3 \<and> \<not> truthy (fld inner ''explain'') \<or> snapshot, w3)
      else rbind (isMapReduceWithInlineOutput commandName inner) (\<lambda>inline. Inr (r1 \<or> snapshot, w1 \<and> \<not> inline)))"

text \<open>One concern, \<open>readConcern\<close> with the key \<open>level\<close> or \<open>writeConcern\<close> with the key \<open>w\<close>: the same code twice.\<close>

definition forceConcern :: "shell \<Rightarrow> string \<Rightarrow> string \<Rightarrow> jsval \<Rightarrow> jsval \<Rightarrow> jsval result" where
  "forceConcern sh property key dflt inner =
     (let given = fld inner property in
      if has_own inner property \<and>
         (\<not> is_object given \<or>
          has_own given key \<and> bsonWoCompare sh (JObj [(''_'', fld given key)]) (JObj [(''_'', fld dflt key)]) \<noteq> 0)
      then Inl (Err (''Cowardly refusing to override '' @ property))
      else Inr (set_prop property (obj_assign (copied given) dflt) (copied inner)))"

text \<open>The changed inner command in a copy of the command.\<close>

definition rewrapped :: "bool \<Rightarrow> jsval \<Rightarrow> jsval \<Rightarrow> jsval" where
  "rewrapped wrapped commandObj inner =
     (if wrapped then set_prop (first_key (copied commandObj)) inner (copied commandObj) else inner)"

definition forcedConcern :: "shell \<Rightarrow> bool \<Rightarrow> string \<Rightarrow> string \<Rightarrow> jsval \<Rightarrow> jsval \<times> jsval \<Rightarrow> (jsval \<times> jsval) result" where
  "forcedConcern sh wrapped property key dflt = (\<lambda>(commandObj, inner).
     rbind (forceConcern sh property key dflt inner) (\<lambda>inner'.
     Inr (rewrapped wrapped commandObj inner', inner')))"

definition rewriteConcerns :: "shell \<Rightarrow> jsval \<Rightarrow> string \<Rightarrow> jsval \<Rightarrow> jsval result" where
  "rewriteConcerns sh td commandName commandObj =
     (if \<not> is_object commandObj then Inr commandObj
      else rbind (unwrapped commandName commandObj) (\<lambda>(name, inner).
           rbind (concernsToForce td name commandObj inner) (\<lambda>(shouldForceReadConcern, shouldForceWriteConcern).
           let wrapped = inWrappedForm commandName in
           rbind (if shouldForceReadConcern \<and> fld td ''defaultReadConcernLevel'' \<noteq> Null
                  then forcedConcern sh wrapped ''readConcern'' ''level'' (kDefaultReadConcern td) (commandObj, inner)
                  else Inr (commandObj, inner)) (\<lambda>cmds.
           rbind (if shouldForceWriteConcern
                  then forcedConcern sh wrapped ''writeConcern'' ''w'' (kDefaultWriteConcern td) cmds
                  else Inr cmds) (\<lambda>(cmd, _). Inr cmd)))))"

definition runCommandWithReadAndWriteConcerns ::
    "shell \<Rightarrow> jsval \<Rightarrow> (jsval \<Rightarrow> ('s, jsval) eff) \<Rightarrow> string \<Rightarrow> jsval \<Rightarrow> ('s, jsval) eff" where
  "runCommandWithReadAndWriteConcerns sh td send commandName commandObj =
     bindE (liftE (rewriteConcerns sh td commandName commandObj)) send"

subsection \<open>Commands for the transaction suites\<close>

definition requireMajority :: "string \<Rightarrow> jsval \<Rightarrow> jsval result" where
  "requireMajority what massagedCmd =
     (if has_own massagedCmd ''writeConcern''
      then rbind (get_prop (fld massagedCmd ''writeConcern'') ''w'') (\<lambda>w.
           if w \<noteq> JStr ''majority'' then Inl (Err (''Running '' @ what @ '' with non majority write concern'')) else Inr massagedCmd)
      else Inr (set_prop ''writeConcern'' (JObj [(''w'', JStr ''majority'')]) massagedCmd))"

definition outputsToCollection :: "jsval \<Rightarrow> bool result" where
  "outputsToCollection v =
     (if typeof v = ''string'' then Inr True
      else if typeof v \<noteq> ''object'' then Inr False
      else if v = Null then Inl (TypeErr ''out is null'')
      else Inr (\<not> has_own v ''inline''))"

definition massagedCmd :: "string \<Rightarrow> jsval \<Rightarrow> jsval result" where
  "massagedCmd commandName inner =
     (if commandName = ''mapReduce'' \<or> commandName = ''mapreduce''
      then rbind (outputsToCollection (fld inner ''out'')) (\<lambda>collection.
           if collection then requireMajority ''mapReduce'' inner else Inr inner)
      else if commandName = ''drop'' then requireMajority ''drop'' inner
      else Inr inner)"

text \<open>The inner command is what is sent on.\<close>

definition massage :: "string \<Rightarrow> jsval \<Rightarrow> jsval result" where
  "massage commandName commandObj =
     (if \<not> is_object commandObj then Inr commandObj
      else rbind (unwrapped commandName commandObj) (\<lambda>(name, inner).
        if has_own commandObj ''autocommit'' then Inr commandObj else massagedCmd name inner))"

definition runCommandInMultiStmtTxnPassthrough ::
    "(jsval \<Rightarrow> ('s, jsval) eff) \<Rightarrow> string \<Rightarrow> jsval \<Rightarrow> ('s, jsval) eff" where
  "runCommandInMultiStmtTxnPassthrough send commandName commandObj =
     bindE (liftE (massage commandName commandObj)) send"

subsection \<open>Pipelines in facets\<close>

definition stagesDisallowedInsideFacet :: "string list" where
  "stagesDisallowedInsideFacet =
     [''$changeStream'', ''$collStats'', ''$facet'', ''$geoNear'', ''$indexStats'', ''$merge'', ''$out'']"

definition allowedInFacet :: "jsval \<Rightarrow> bool" where
  "allowedInFacet stageSpec =
     (if \<not> is_object stageSpec then False
      else if has_own stageSpec ''$match'' \<and> is_object (fld stageSpec ''$match'') \<and>
         (has_own (fld stageSpec ''$match'') ''$text'' \<or> obj_keys (fld stageSpec ''$match'') = [])
      then False
      else \<not> list_ex (has_own stageSpec) stagesDisallowedInsideFacet)"

definition facetPipeline :: "jsval \<Rightarrow> jsval" where
  "facetPipeline originalPipeline =
     JArr [JObj [(''$facet'', JObj [(''originalPipeline'', originalPipeline)])],
           JObj [(''$unwind'', JStr ''$originalPipeline'')],
           JObj [(''$replaceRoot'', JObj [(''newRoot'', JStr ''$originalPipeline'')])]]"

definition wrapInFacet :: "jsval \<Rightarrow> jsval" where
  "wrapInFacet cmdObj =
     (if \<not> is_object cmdObj \<or> \<not> has_own cmdObj ''aggregate'' \<or> \<not> has_own cmdObj ''pipeline''
      then cmdObj
      else case fld cmdObj ''pipeline'' of
          JArr originalPipeline \<Rightarrow>
            if originalPipeline = [] \<or> \<not> list_all allowedInFacet originalPipeline then cmdObj
            else set_prop ''pipeline'' (facetPipeline (JArr originalPipeline)) cmdObj
        | _ \<Rightarrow> cmdObj)"

subsection \<open>Commands that are unsafe after an unclean shutdown\<close>

definition checkUncleanShutdown :: "string \<Rightarrow> jsval \<Rightarrow> jsval result" where
  "checkUncleanShutdown commandName commandObj =
     (if \<not> is_object commandObj then Inr commandObj
      else rbind (unwrapped commandName commandObj) (\<lambda>(name, inner).
        rbind (if name = ''count''
               then (if \<not> has_own inner ''query'' then Inr True
                     else rbind (object_keys (fld inner ''query'')) (\<lambda>ks. Inr (ks = [])))
               else Inr False) (\<lambda>fastCount.
        if fastCount then Inl (Err ''Cowardly fail if fastcount is run'')
        else if name = ''dataSize'' \<and> \<not> has_own inner ''min'' \<and> \<not> has_own inner ''max''
        then Inl (Err ''Cowardly fail if unbounded dataSize is run'')
        else if name = ''collStats'' \<or> name = ''dbStats'' then Inl (Err (''Cowardly fail if '' @ name @ '' is run''))
        else Inr commandObj)))"

definition runCommandFailUncleanShutdownIncompatibleCommands ::
    "(jsval \<Rightarrow> ('s, jsval) eff) \<Rightarrow> string \<Rightarrow> jsval \<Rightarrow> ('s, jsval) eff" where
  "runCommandFailUncleanShutdownIncompatibleCommands send commandName commandObj =
     bindE (liftE (checkUncleanShutdown commandName commandObj)) send"

section \<open>Loading an override again\<close>

text \<open>
  An override that rewrites a command and sends it once.  When a rewritten command is left as it is by the
  rewriting, an override that was loaded several times (a file and the parallel shell it starts both load it)
  acts as if it had been loaded once.
\<close>

lemma bind_lift [simp]:
  "bindE (liftE (Inr x)) f = f x"
  "bindE (liftE (Inl e)) f = raise e"
  by (auto simp: fun_eq_iff js_simps)

lemma bind_raise [simp]: "bindE (raise e) f = raise e"
  by (auto simp: fun_eq_iff js_simps)

lemma installed_eq:
  "installed f cmd = (if cmd = Undef \<or> cmd = Null then raise (TypeErr ''can't convert to object'') else f (first_key cmd) cmd)"
  by (simp add: installed_def object_keys_def)

locale rewriting_override =
  fixes rewrite :: "string \<Rightarrow> jsval \<Rightarrow> jsval result"
    and admissible :: "jsval \<Rightarrow> bool"
  assumes rewrite_object: "admissible cmd \<Longrightarrow> rewrite (first_key cmd) cmd = Inr cmd' \<Longrightarrow> cmd' \<noteq> Undef \<and> cmd' \<noteq> Null"
    and rewrite_admissible: "admissible cmd \<Longrightarrow> rewrite (first_key cmd) cmd = Inr cmd' \<Longrightarrow> admissible cmd'"
    and rewrite_stable: "admissible cmd \<Longrightarrow> rewrite (first_key cmd) cmd = Inr cmd' \<Longrightarrow> rewrite (first_key cmd') cmd' = Inr cmd'"
begin

lemma reload_once:
  assumes "admissible cmd"
  shows "installed (\<lambda>name c. bindE (liftE (rewrite name c)) (installed (\<lambda>name c. bindE (liftE (rewrite name c)) send))) cmd =
         installed (\<lambda>name c. bindE (liftE (rewrite name c)) send) cmd"
proof (cases "rewrite (first_key cmd) cmd")
  case (Inl e)
  then show ?thesis by (simp add: installed_eq)
next
  case (Inr cmd')
  with rewrite_object [OF assms Inr] rewrite_stable [OF assms Inr] show ?thesis
    by (simp add: installed_eq)
qed

lemma reload_many:
  assumes "admissible cmd"
  shows "((\<lambda>s. installed (\<lambda>name c. bindE (liftE (rewrite name c)) s)) ^^ Suc n) send cmd =
         installed (\<lambda>name c. bindE (liftE (rewrite name c)) send) cmd"
proof (induction n arbitrary: send)
  case (Suc n)
  let ?load = "\<lambda>s. installed (\<lambda>name c. bindE (liftE (rewrite name c)) s)"
  have "(?load ^^ Suc (Suc n)) send cmd = (?load ^^ Suc n) (?load send) cmd"
    by (simp only: funpow_Suc_right comp_apply)
  also have "\<dots> = ?load (?load send) cmd" by (rule Suc.IH)
  also have "\<dots> = ?load send cmd" by (rule reload_once [OF assms])
  finally show ?case .
qed simp

end

section \<open>Objects\<close>

definition wf_obj :: "jsval \<Rightarrow> bool" where
  "wf_obj v \<longleftrightarrow> wf_val v \<and> (\<exists>kvs. v = JObj kvs)"

lemma wf_obj_val: "wf_obj v \<Longrightarrow> wf_val v"
  by (simp add: wf_obj_def)

lemma wf_props: "wf_val v \<Longrightarrow> distinct (map fst (props v)) \<and> (\<forall>x \<in> snd ` set (props v). wf_val x)"
  by (cases v) (auto simp: map_fst_zip distinct_map inj_on_def list_all_iff dest!: set_zip_rightD)

lemma wf_fld: "wf_val v \<Longrightarrow> wf_val (fld v k)"
  using wf_props [of v] by (auto simp: fld_def split: option.split dest!: map_of_SomeD)

lemma wf_obj_set_prop:
  assumes "wf_val v" and "wf_val x"
  shows "wf_obj (set_prop k x v)"
proof -
  have "(k', y) \<in> set (AList.update k x kvs) \<Longrightarrow> y = x \<or> (k', y) \<in> set kvs" for k' y kvs
    by (induction kvs) (auto split: if_splits)
  then show ?thesis
    using assms wf_props [OF assms(1)] by (fastforce simp: wf_obj_def set_prop_def list_all_iff distinct_update)
qed

lemma wf_obj_assign: "wf_val v \<Longrightarrow> wf_obj d \<Longrightarrow> wf_obj (obj_assign d v)"
proof -
  have "\<forall>(k, x) \<in> set kvs. wf_val x \<Longrightarrow> wf_obj d \<Longrightarrow> wf_obj (fold (\<lambda>(k, x). set_prop k x) kvs d)" for kvs d
  proof (induction kvs arbitrary: d)
    case (Cons kx kvs)
    then have "wf_obj (set_prop (fst kx) (snd kx) d)" by (auto intro: wf_obj_set_prop simp: wf_obj_def [of d])
    with Cons show ?case by (auto simp: case_prod_beta)
  qed simp
  then show "wf_val v \<Longrightarrow> wf_obj d \<Longrightarrow> wf_obj (obj_assign d v)"
    using wf_props [of v] by (fastforce simp: obj_assign_def)
qed

lemma copied_eq: "wf_val v \<Longrightarrow> copied v = JObj (props v)"
  using fold_set_prop [of "props v" "[]" "\<lambda>x. x"] wf_props [of v] by (simp add: obj_assign_def)

lemma copied_id: "wf_obj v \<Longrightarrow> copied v = v"
  by (auto simp: wf_obj_def copied_eq)

lemma first_key_set_prop: "obj_keys v \<noteq> [] \<Longrightarrow> first_key (set_prop k x v) = first_key v"
  by (cases "props v") (auto simp: first_key_def obj_keys_def)

section \<open>Stability of the concerns\<close>

text \<open>A command that has a concern this override is content with.\<close>

definition concerned :: "shell \<Rightarrow> string \<Rightarrow> string \<Rightarrow> jsval \<Rightarrow> jsval \<Rightarrow> bool" where
  "concerned sh property key dflt v \<longleftrightarrow>
     wf_obj v \<and> has_own v property \<and> wf_obj (fld v property) \<and>
     (\<forall>k. has_own dflt k \<longrightarrow> has_own (fld v property) k \<and> fld (fld v property) k = fld dflt k) \<and>
     (has_own (fld v property) key \<longrightarrow>
        bsonWoCompare sh (JObj [(''_'', fld (fld v property) key)]) (JObj [(''_'', fld dflt key)]) = 0)"

definition bson_reflexive :: "shell \<Rightarrow> bool" where
  "bson_reflexive sh \<longleftrightarrow> (\<forall>x. bsonWoCompare sh x x = 0)"

lemma forceConcern_Inr:
  "forceConcern sh property key dflt v = Inr v' \<longleftrightarrow>
   (has_own v property \<longrightarrow> is_object (fld v property) \<and>
      (has_own (fld v property) key \<longrightarrow>
        bsonWoCompare sh (JObj [(''_'', fld (fld v property) key)]) (JObj [(''_'', fld dflt key)]) = 0)) \<and>
   v' = set_prop property (obj_assign (copied (fld v property)) dflt) (copied v)"
  by (auto simp: forceConcern_def Let_def)

lemma wf_obj_is_object: "wf_obj v \<Longrightarrow> is_object v"
  by (auto simp: wf_obj_def is_object_def)

lemma wf_obj_nil [simp]: "wf_obj (JObj [])"
  by (simp add: wf_obj_def)

lemma concerned_stable: "concerned sh p key dflt v \<Longrightarrow> wf_val dflt \<Longrightarrow> forceConcern sh p key dflt v = Inr v"
proof -
  assume c: "concerned sh p key dflt v" and wf: "wf_val dflt"
  then have v: "wf_obj v" and own: "has_own v p" and g: "wf_obj (fld v p)" by (auto simp: concerned_def)
  then obtain kvs gs where "v = JObj kvs" and "fld v p = JObj gs" by (auto simp: wf_obj_def)
  moreover from this c wf have "obj_assign (fld v p) dflt = fld v p"
    using wf_props [OF wf] by (auto simp: concerned_def intro: assign_absorb)
  ultimately show ?thesis
    using c own g v set_prop_same [of v kvs p]
    by (simp add: forceConcern_Inr copied_id wf_obj_is_object concerned_def)
qed

lemma forced_concerned:
  assumes "forceConcern sh p key dflt v = Inr v'" and "wf_val v" and "wf_val dflt" and "bson_reflexive sh"
  shows "concerned sh p key dflt v'"
proof -
  let ?given = "fld v p" and ?g = "obj_assign (copied (fld v p)) dflt"
  have v': "v' = set_prop p ?g (copied v)" using assms(1) by (simp add: forceConcern_Inr)
  have given: "wf_val ?given" by (rule wf_fld [OF assms(2)])
  have g: "wf_obj ?g" using wf_obj_assign [OF assms(3) wf_obj_assign [OF given wf_obj_nil]] .
  have fields: "fld ?g k = (if has_own dflt k then fld dflt k else fld ?given k)"
    "has_own ?g k \<longleftrightarrow> has_own ?given k \<or> has_own dflt k" for k
    using wf_props [OF assms(3)] by (auto simp: fld_assign has_own_assign copied_eq [OF given])
  have "wf_obj v'" unfolding v'
    by (rule wf_obj_set_prop [OF wf_obj_val [OF wf_obj_assign [OF assms(2) wf_obj_nil]] wf_obj_val [OF g]])
  moreover have "has_own ?given k \<Longrightarrow> has_own v p" for k 
    by (rule ccontr) (simp add: fld_not_own has_own_def [of Undef] obj_keys_def)
  ultimately show ?thesis
    using assms(1,4) g fields unfolding concerned_def bson_reflexive_def forceConcern_Inr by (auto simp: v')
qed

lemma concerned_other:
  assumes "concerned sh p key dflt v" and "forceConcern sh q key' dflt' v = Inr v'" and "q \<noteq> p" and "wf_val dflt'"
  shows "concerned sh p key dflt v'"
proof -
  have v: "wf_obj v" using assms(1) by (simp add: concerned_def)
  have v': "v' = set_prop q (obj_assign (copied (fld v q)) dflt') v"
    using assms(2) by (simp add: forceConcern_Inr copied_id [OF v])
  have "wf_obj v'" unfolding v'
    by (rule wf_obj_set_prop [OF wf_obj_val [OF v] wf_obj_val
        [OF wf_obj_assign [OF assms(4) wf_obj_assign [OF wf_fld [OF wf_obj_val [OF v]] wf_obj_nil]]]])
  with assms(1,3) v' show ?thesis by (auto simp: concerned_def)
qed

text \<open>What the choice of the concerns looks at.\<close>

definition same_shape :: "jsval \<Rightarrow> jsval \<Rightarrow> bool" where
  "same_shape v v' \<longleftrightarrow>
     first_key v' = first_key v \<and> is_object v' = is_object v \<and> (v' \<in> {Undef, Null}) = (v \<in> {Undef, Null}) \<and>
     (\<forall>k. k \<notin> {''readConcern'', ''writeConcern''} \<longrightarrow> fld v' k = fld v k \<and> has_own v' k = has_own v k)"

lemma same_shape_refl [simp]: "same_shape v v"
  by (simp add: same_shape_def)

lemma same_shape_trans: "same_shape u v \<Longrightarrow> same_shape v w \<Longrightarrow> same_shape u w"
  by (simp add: same_shape_def)

lemma concernsToForce_cong:
  assumes "same_shape inner inner'" and "has_own cmd' ''autocommit'' = has_own cmd ''autocommit''"
  shows "concernsToForce td name cmd' inner' = concernsToForce td name cmd inner"
  using assms
  by (simp add: concernsToForce_def same_shape_def isAggregationWithListLocalSessionsStage_def
      makeIsAggregationWithFirstStage_def isAggregationWithOutOrMergeStage_def isMapReduceWithInlineOutput_def
      Let_def case_prod_beta cong: if_cong)

text \<open>Only a command with a name is given a concern: the actual command is then an object with properties.\<close>

lemma forced_name:
  assumes "concernsToForce td name cmd inner = Inr (r, w)" and "r \<or> w"
  shows "name \<in> set (kCommandsSupportingReadConcern @ kCommandsOnlySupportingReadConcernSnapshot @ kCommandsSupportingWriteConcern)"
  using assms by (auto simp: concernsToForce_def Let_def case_prod_beta rbind_Inr split: if_splits)

lemma command_names:
  assumes "name \<in> set (kCommandsSupportingReadConcern @ kCommandsOnlySupportingReadConcernSnapshot @ kCommandsSupportingWriteConcern)"
  shows "name \<noteq> ''undefined'' \<and> name \<noteq> ''0'' \<and> name \<noteq> ''query'' \<and> name \<noteq> ''$query''"
  using assms
  by (auto simp: kCommandsSupportingReadConcern_def kCommandsOnlySupportingReadConcernSnapshot_def
      kCommandsSupportingWriteConcern_def)

lemma first_key_object:
  assumes "first_key v \<noteq> ''undefined''" and "first_key v \<noteq> ''0''"
  shows "(\<exists>kvs. v = JObj kvs) \<and> obj_keys v \<noteq> []"
proof -
  have zero: "show_nat 0 = ''0''" by code_simp
  show ?thesis
    using assms by (cases v; cases "obj_keys v") (auto simp: first_key_def obj_keys_def zero upt_eq_Cons_conv neq_Nil_conv)
qed

text \<open>The actual command is in its place.\<close>

definition linked :: "bool \<Rightarrow> jsval \<Rightarrow> jsval \<Rightarrow> bool" where
  "linked wrapped cmd inner \<longleftrightarrow>
     (if wrapped then inWrappedForm (first_key cmd) \<and> has_own cmd (first_key cmd) \<and> fld cmd (first_key cmd) = inner
      else cmd = inner)"

lemma forced_shape:
  assumes "forceConcern sh p key dflt v = Inr v'" and "wf_val v" and "obj_keys v \<noteq> []" and "is_object v"
    and "p \<in> {''readConcern'', ''writeConcern''}"
  shows "same_shape v v'"
proof -
  have v': "v' = set_prop p (obj_assign (copied (fld v p)) dflt) (JObj (props v))"
    using assms(1) by (simp add: forceConcern_Inr copied_eq [OF assms(2)])
  then have "first_key v' = first_key v"
    using assms(3) first_key_set_prop [of "JObj (props v)"] by (simp add: first_key_def)
  moreover have "is_object v' \<and> v' \<notin> {Undef, Null}" by (simp add: v' is_object_def set_prop_def)
  moreover have "v \<notin> {Undef, Null}" using assms(4) by (auto simp: is_object_def)
  ultimately show ?thesis using v' assms(4,5) by (auto simp: same_shape_def)
qed

lemma rewrapped_props:
  assumes "linked wrapped cmd inner" and "wf_val cmd" and "wf_obj inner'" and "same_shape inner inner'"
  defines "cmd' \<equiv> rewrapped wrapped cmd inner'"
  shows "linked wrapped cmd' inner' \<and> wf_obj cmd' \<and> first_key cmd' = first_key cmd \<and>
    has_own cmd' ''autocommit'' = has_own cmd ''autocommit''"
proof (cases wrapped)
  case True
  have copy: "copied cmd = JObj (props cmd)" by (rule copied_eq [OF assms(2)])
  have key: "first_key (JObj (props cmd)) = first_key cmd" by (simp add: first_key_def)
  have cmd': "cmd' = set_prop (first_key cmd) inner' (JObj (props cmd))"
    using True by (simp add: cmd'_def rewrapped_def copy key)
  have "obj_keys (JObj (props cmd)) \<noteq> []" using assms(1) True by (auto simp: linked_def has_own_def)
  then have first: "first_key cmd' = first_key cmd" by (simp add: cmd' key first_key_set_prop)
  have "wf_obj cmd'" unfolding cmd' copy [symmetric]
    by (rule wf_obj_set_prop [OF wf_obj_val [OF wf_obj_assign [OF assms(2) wf_obj_nil]] wf_obj_val [OF assms(3)]])
  with first assms(1) True show ?thesis by (auto simp: linked_def cmd' inWrappedForm_def)
next
  case False
  with assms(1,3,4) show ?thesis by (simp add: linked_def cmd'_def rewrapped_def same_shape_def)
qed

lemma rewrapped_same: "linked wrapped cmd inner \<Longrightarrow> wf_obj cmd \<Longrightarrow> rewrapped wrapped cmd inner = cmd"
  using set_prop_same [of cmd _ "first_key cmd"] by (auto simp: linked_def rewrapped_def copied_id wf_obj_def)

text \<open>One concern, if it is to be forced: what holds of the result, and that forcing it again changes nothing.\<close>

lemma concern_step:
  assumes "(if b then forcedConcern sh wrapped p key dflt (cmd, inner) else Inr (cmd, inner)) = Inr (cmd', inner')"
    and "linked wrapped cmd inner" and "wf_val cmd" and "wf_val dflt" and "bson_reflexive sh"
    and "b \<Longrightarrow> obj_keys inner \<noteq> [] \<and> is_object inner" and "p \<in> {''readConcern'', ''writeConcern''}"
  shows "same_shape inner inner' \<and> linked wrapped cmd' inner' \<and> wf_val cmd' \<and> first_key cmd' = first_key cmd \<and>
    has_own cmd' ''autocommit'' = has_own cmd ''autocommit'' \<and> (is_object cmd \<longrightarrow> is_object cmd') \<and>
    (b \<longrightarrow> concerned sh p key dflt inner' \<and> wf_obj cmd')"
proof (cases b)
  case True
  have wf: "wf_val inner" using assms(2,3) wf_fld by (auto simp: linked_def split: if_splits)
  from True assms(1) have force: "forceConcern sh p key dflt inner = Inr inner'" and cmd': "cmd' = rewrapped wrapped cmd inner'"
    by (auto simp: forcedConcern_def rbind_Inr)
  have concerned: "concerned sh p key dflt inner'" by (rule forced_concerned [OF force wf assms(4,5)])
  have shape: "same_shape inner inner'" using forced_shape [OF force wf] assms(6) [OF True] assms(7) by blast
  have "wf_obj inner'" using concerned by (simp add: concerned_def)
  from rewrapped_props [OF assms(2,3) this shape] concerned shape show ?thesis
    unfolding cmd' using wf_obj_val wf_obj_is_object by blast
next
  case False
  with assms(1-3) show ?thesis by simp
qed

lemma concern_again:
  "b \<longrightarrow> concerned sh p key dflt inner \<and> wf_obj cmd \<Longrightarrow> linked wrapped cmd inner \<Longrightarrow> wf_val dflt \<Longrightarrow>
   (if b then forcedConcern sh wrapped p key dflt (cmd, inner) else Inr (cmd, inner)) = Inr (cmd, inner)"
  by (auto simp: forcedConcern_def concerned_stable rewrapped_same)

lemma concern_kept:
  assumes "(if b then forcedConcern sh wrapped q key' dflt' (cmd, inner) else Inr (cmd, inner)) = Inr (cmd', inner')"
    and "concerned sh p key dflt inner" and "wf_obj cmd" and "b \<longrightarrow> wf_obj cmd'" and "q \<noteq> p" and "wf_val dflt'"
  shows "concerned sh p key dflt inner' \<and> wf_obj cmd'"
  using assms concerned_other [OF assms(2)] by (auto simp: forcedConcern_def rbind_Inr split: if_splits)

lemma unwrapped_linked:
  assumes "unwrapped (first_key cmd) cmd = Inr (name, inner)"
  shows "linked (inWrappedForm (first_key cmd)) cmd inner \<and> name = first_key inner"
  using assms fld_not_own [of cmd "first_key cmd"]
  by (auto simp: unwrapped_def linked_def rbind_Inr split: if_splits)

lemma linked_unwrapped:
  "linked (inWrappedForm (first_key cmd)) cmd inner \<Longrightarrow> inner \<notin> {Undef, Null} \<Longrightarrow> unwrapped (first_key cmd) cmd = Inr (first_key inner, inner)"
  by (auto simp: unwrapped_def linked_def object_keys_def split: if_splits)

text \<open>A run of the rewriting: the two steps, what they keep, and the concerns of the result.\<close>

lemma rewriteConcerns_run:
  assumes "rewriteConcerns sh td (first_key cmd) cmd = Inr cmd'" and "is_object cmd"
    and "wf_val cmd" and "wf_val td" and "bson_reflexive sh"
  obtains inner inner' r w where "linked (inWrappedForm (first_key cmd)) cmd inner"
    and "unwrapped (first_key cmd) cmd = Inr (first_key inner, inner)"
    and "concernsToForce td (first_key inner) cmd inner = Inr (r, w)"
    and "same_shape inner inner'" and "linked (inWrappedForm (first_key cmd)) cmd' inner'" and "wf_val cmd'"
    and "first_key cmd' = first_key cmd" and "has_own cmd' ''autocommit'' = has_own cmd ''autocommit''" and "is_object cmd'"
    and "r \<and> fld td ''defaultReadConcernLevel'' \<noteq> Null \<longrightarrow>
           concerned sh ''readConcern'' ''level'' (kDefaultReadConcern td) inner' \<and> wf_obj cmd'"
    and "w \<longrightarrow> concerned sh ''writeConcern'' ''w'' (kDefaultWriteConcern td) inner' \<and> wf_obj cmd'"
proof -
  let ?wrapped = "inWrappedForm (first_key cmd)" and ?R = "kDefaultReadConcern td" and ?W = "kDefaultWriteConcern td"
  from assms(1,2) obtain name inner r w cmd1 inner1 inner' where
    un: "unwrapped (first_key cmd) cmd = Inr (name, inner)" and
    force: "concernsToForce td name cmd inner = Inr (r, w)" and
    first: "(if r \<and> fld td ''defaultReadConcernLevel'' \<noteq> Null
        then forcedConcern sh ?wrapped ''readConcern'' ''level'' ?R (cmd, inner) else Inr (cmd, inner)) = Inr (cmd1, inner1)" and
    second: "(if w then forcedConcern sh ?wrapped ''writeConcern'' ''w'' ?W (cmd1, inner1) else Inr (cmd1, inner1)) = Inr (cmd', inner')"
    by (auto simp: rewriteConcerns_def rbind_Inr Let_def simp del: if_split)
  have link: "linked ?wrapped cmd inner" and name: "name = first_key inner" using unwrapped_linked [OF un] by auto
  have wfd: "wf_val ?R" "wf_val ?W" using assms(4) wf_fld by (auto simp: kDefaultReadConcern_def kDefaultWriteConcern_def)
  have obj: "obj_keys inner \<noteq> [] \<and> is_object inner" if "r \<or> w"
    using command_names [OF forced_name [OF force that]] first_key_object [of inner]
    by (auto simp: name is_object_def)
  have one: "same_shape inner inner1 \<and> linked ?wrapped cmd1 inner1 \<and> wf_val cmd1 \<and> first_key cmd1 = first_key cmd \<and>
    has_own cmd1 ''autocommit'' = has_own cmd ''autocommit'' \<and> (is_object cmd \<longrightarrow> is_object cmd1) \<and>
    (r \<and> fld td ''defaultReadConcernLevel'' \<noteq> Null \<longrightarrow> concerned sh ''readConcern'' ''level'' ?R inner1 \<and> wf_obj cmd1)"
    using obj by (intro concern_step [OF first link assms(3) wfd(1) assms(5)]) auto
  have obj1: "obj_keys inner1 \<noteq> [] \<and> is_object inner1" if w
  proof -
    have "first_key inner1 = first_key inner" and "is_object inner1 = is_object inner"
      using one by (auto simp: same_shape_def)
    with obj [OF disjI2, OF that] show ?thesis
      using command_names [OF forced_name [OF force disjI2, OF that]] first_key_object [of inner1] by (auto simp: name)
  qed
  have two: "same_shape inner1 inner' \<and> linked ?wrapped cmd' inner' \<and> wf_val cmd' \<and> first_key cmd' = first_key cmd1 \<and>
    has_own cmd' ''autocommit'' = has_own cmd1 ''autocommit'' \<and> (is_object cmd1 \<longrightarrow> is_object cmd') \<and>
    (w \<longrightarrow> concerned sh ''writeConcern'' ''w'' ?W inner' \<and> wf_obj cmd')"
    using obj1 one by (intro concern_step [OF second _ _ wfd(2) assms(5)]) auto
  have kept: "r \<and> fld td ''defaultReadConcernLevel'' \<noteq> Null \<longrightarrow> concerned sh ''readConcern'' ''level'' ?R inner' \<and> wf_obj cmd'"
    using one two concern_kept [OF second _ _ _ _ wfd(2)] by auto
  have shape: "same_shape inner inner'" using one two same_shape_trans by blast
  show ?thesis
    by (rule that [OF link _ _ shape, of r w]) (use un force name one two kept assms(2) in simp_all)
qed

lemma rewriteConcerns_stable:
  assumes "rewriteConcerns sh td (first_key cmd) cmd = Inr cmd'" and "wf_val cmd" and "wf_val td" and "bson_reflexive sh"
  shows "wf_val cmd' \<and> rewriteConcerns sh td (first_key cmd') cmd' = Inr cmd' \<and> is_object cmd' = is_object cmd"
proof (cases "is_object cmd")
  case False
  with assms show ?thesis by (auto simp: rewriteConcerns_def)
next
  case True
  let ?wrapped = "inWrappedForm (first_key cmd)"
  obtain inner inner' r w where run: "linked ?wrapped cmd inner" "unwrapped (first_key cmd) cmd = Inr (first_key inner, inner)"
    "concernsToForce td (first_key inner) cmd inner = Inr (r, w)" "same_shape inner inner'" "linked ?wrapped cmd' inner'"
    "wf_val cmd'" "first_key cmd' = first_key cmd" "has_own cmd' ''autocommit'' = has_own cmd ''autocommit''"
    "is_object cmd'"
    "r \<and> fld td ''defaultReadConcernLevel'' \<noteq> Null \<longrightarrow>
       concerned sh ''readConcern'' ''level'' (kDefaultReadConcern td) inner' \<and> wf_obj cmd'"
    "w \<longrightarrow> concerned sh ''writeConcern'' ''w'' (kDefaultWriteConcern td) inner' \<and> wf_obj cmd'"
    by (rule rewriteConcerns_run [OF assms(1) True assms(2-4)])
  have wfd: "wf_val (kDefaultReadConcern td)" "wf_val (kDefaultWriteConcern td)"
    using assms(3) wf_fld by (auto simp: kDefaultReadConcern_def kDefaultWriteConcern_def)
  have "inner \<notin> {Undef, Null}"
  proof (cases ?wrapped)
    case True
    with run(2) show ?thesis by (auto simp: unwrapped_def rbind_Inr)
  next
    case False
    with run(1) \<open>is_object cmd\<close> show ?thesis by (auto simp: linked_def is_object_def)
  qed
  with run(4) have "inner' \<notin> {Undef, Null}" unfolding same_shape_def by blast
  then have un: "unwrapped (first_key cmd') cmd' = Inr (first_key inner', inner')"
    using linked_unwrapped [of cmd' inner'] run(5,7) by simp
  have force: "concernsToForce td (first_key inner') cmd' inner' = Inr (r, w)"
    using concernsToForce_cong [OF run(4,8), of td] run(3,4) by (simp add: same_shape_def)
  show ?thesis
    using True run(6,7,9) un force concern_again [OF run(10,5) wfd(1)] concern_again [OF run(11,5) wfd(2)]
    by (simp add: rewriteConcerns_def Let_def)
qed

interpretation concerns: rewriting_override "rewriteConcerns sh td"
  "\<lambda>cmd. is_object cmd \<and> wf_val cmd \<and> wf_val td \<and> bson_reflexive sh" for sh td
proof (unfold_locales, goal_cases)
  case (1 cmd cmd')
  then have "is_object cmd'" using rewriteConcerns_stable [of sh td cmd cmd'] by blast
  then show ?case by (auto simp: is_object_def)
next
  case (2 cmd cmd')
  then show ?case using rewriteConcerns_stable [of sh td cmd cmd'] by blast
next
  case (3 cmd cmd')
  then show ?case using rewriteConcerns_stable [of sh td cmd cmd'] by blast
qed

section \<open>Stability of the other overrides\<close>

text \<open>The command inside a wrapper, or the command itself.\<close>

definition actual :: "jsval \<Rightarrow> jsval" where
  "actual cmd = (if inWrappedForm (first_key cmd) then fld cmd (first_key cmd) else cmd)"

lemma is_object_set_prop: "is_object (set_prop k x v)"
  by (simp add: is_object_def set_prop_def)

lemma requireMajority_Inr:
  assumes "requireMajority what v = Inr v'" and "obj_keys v \<noteq> []" and "is_object v"
  shows "first_key v' = first_key v \<and> is_object v' \<and> requireMajority what v' = Inr v' \<and> fld v' ''out'' = fld v ''out''"
proof (cases "has_own v ''writeConcern''")
  case True
  with assms show ?thesis by (auto simp: requireMajority_def rbind_Inr split: if_splits)
next
  case False
  with assms(1) have "v' = set_prop ''writeConcern'' (JObj [(''w'', JStr ''majority'')]) v"
    by (simp add: requireMajority_def)
  then show ?thesis
    using first_key_set_prop [OF assms(2)] is_object_set_prop by (simp add: requireMajority_def get_prop_def fld_def [of "JObj _"])
qed

lemma actual_unwrapped:
  "unwrapped (first_key cmd) cmd = Inr (name, inner) \<Longrightarrow> name = first_key (actual cmd) \<and> inner = actual cmd"
  by (auto simp: unwrapped_def actual_def rbind_Inr split: if_splits)

lemma massagedCmd_Inr:
  assumes "massagedCmd (first_key v) v = Inr v'"
  shows "v' = v \<or> is_object v' \<and> first_key v' = first_key v \<and> massagedCmd (first_key v') v' = Inr v'"
proof (cases "v' = v")
  case False
  then obtain what where major: "requireMajority what v = Inr v'"
    and name: "first_key v = ''drop'' \<and> what = ''drop'' \<or>
      first_key v \<in> {''mapReduce'', ''mapreduce''} \<and> what = ''mapReduce'' \<and> outputsToCollection (fld v ''out'') = Inr True"
    using assms by (auto simp: massagedCmd_def rbind_Inr split: if_splits)
  then have "obj_keys v \<noteq> [] \<and> is_object v" using first_key_object [of v] by (auto simp: is_object_def)
  with requireMajority_Inr [OF major] name show ?thesis by (auto simp: massagedCmd_def)
qed simp

lemma massage_stable:
  assumes "massage (first_key cmd) cmd = Inr cmd'" and "\<not> inWrappedForm (first_key (actual cmd))" and "cmd \<notin> {Undef, Null}"
  shows "cmd' \<notin> {Undef, Null} \<and> \<not> inWrappedForm (first_key (actual cmd')) \<and> massage (first_key cmd') cmd' = Inr cmd'"
proof (cases "\<not> is_object cmd \<or> has_own cmd ''autocommit''")
  case True
  with assms(1) have "cmd' = cmd" by (auto simp: massage_def rbind_Inr split: if_splits)
  with assms show ?thesis by simp
next
  case False
  let ?inner = "actual cmd"
  obtain name inner where un: "unwrapped (first_key cmd) cmd = Inr (name, inner)"
    using assms(1) False by (auto simp: massage_def rbind_Inr)
  then have inner: "massagedCmd (first_key ?inner) ?inner = Inr cmd'"
    using actual_unwrapped [OF un] assms(1) False by (auto simp: massage_def)
  have some: "?inner \<notin> {Undef, Null}"
    using un assms(3) by (auto simp: unwrapped_def actual_def rbind_Inr split: if_splits)
  have cmd': "cmd' = ?inner \<or> is_object cmd' \<and> first_key cmd' = first_key ?inner \<and> massagedCmd (first_key cmd') cmd' = Inr cmd'"
    by (rule massagedCmd_Inr [OF inner])
  then have "\<not> inWrappedForm (first_key cmd')" and again: "massagedCmd (first_key cmd') cmd' = Inr cmd'"
    using assms(2) inner by auto
  then have "actual cmd' = cmd'" and "unwrapped (first_key cmd') cmd' = Inr (first_key cmd', cmd')"
    by (auto simp: actual_def unwrapped_def)
  moreover from some cmd' have "cmd' \<notin> {Undef, Null}" by (auto simp: is_object_def)
  ultimately show ?thesis using again \<open>\<not> inWrappedForm (first_key cmd')\<close> by (simp add: massage_def)
qed

lemma wrapInFacet_stable: "wrapInFacet (wrapInFacet cmd) = wrapInFacet cmd"
proof (cases "wrapInFacet cmd = cmd")
  case False
  then obtain ps where "wrapInFacet cmd = set_prop ''pipeline'' (facetPipeline (JArr ps)) cmd"
    by (auto simp: wrapInFacet_def split: if_splits jsval.splits)
  moreover have "\<not> allowedInFacet (JObj [(''$facet'', v)])" for v
    by (simp add: allowedInFacet_def is_object_def has_own_def obj_keys_def stagesDisallowedInsideFacet_def)
  ultimately show ?thesis by (simp add: wrapInFacet_def facetPipeline_def)
qed simp

lemma checkUncleanShutdown_same: "checkUncleanShutdown name cmd = Inr cmd' \<Longrightarrow> cmd' = cmd"
  by (auto simp: checkUncleanShutdown_def rbind_Inr split: if_splits)

interpretation massaged: rewriting_override massage
  "\<lambda>cmd. cmd \<notin> {Undef, Null} \<and> \<not> inWrappedForm (first_key (actual cmd))"
proof (unfold_locales, goal_cases)
  case (1 cmd cmd')
  then show ?case using massage_stable [of cmd cmd'] by blast
next
  case (2 cmd cmd')
  then show ?case using massage_stable [of cmd cmd'] by blast
next
  case (3 cmd cmd')
  then show ?case using massage_stable [of cmd cmd'] by blast
qed

lemma wrapInFacet_cases:
  "wrapInFacet cmd = cmd \<or> (\<exists>ps. wrapInFacet cmd = set_prop ''pipeline'' (facetPipeline (JArr ps)) cmd \<and>
     fld cmd ''pipeline'' = JArr ps \<and> ps \<noteq> [] \<and> list_all allowedInFacet ps)"
  by (cases "fld cmd ''pipeline''") (auto simp: wrapInFacet_def)

lemma wrapInFacet_some: "cmd \<notin> {Undef, Null} \<Longrightarrow> wrapInFacet cmd \<notin> {Undef, Null}"
  using wrapInFacet_cases [of cmd] by (auto simp: set_prop_def)

interpretation facets: rewriting_override "\<lambda>_ cmd. Inr (wrapInFacet cmd)" "\<lambda>cmd. cmd \<notin> {Undef, Null}"
proof (unfold_locales, goal_cases)
  case (1 cmd cmd')
  then show ?case using wrapInFacet_some [of cmd] by auto
next
  case (2 cmd cmd')
  then show ?case using wrapInFacet_some [of cmd] by auto
next
  case (3 cmd cmd')
  then have "cmd' = wrapInFacet cmd" by simp
  then show ?case by (simp add: wrapInFacet_stable)
qed

interpretation unclean: rewriting_override checkUncleanShutdown "\<lambda>cmd. cmd \<notin> {Undef, Null}"
  by unfold_locales (auto dest: checkUncleanShutdown_same)

section \<open>Properties\<close>

text \<open>
  C18. Loading \<open>set_read_and_write_concerns.js\<close> several times is the same as loading it once: a command whose
  concerns were forced passes the check for a conflicting concern and is left unchanged by the outer overrides, in the
  plain and in the wrapped form.\<close>

theorem concerns_reload:
  assumes "is_object cmd" and "wf_val cmd" and "wf_val td" and "bson_reflexive sh"
  shows "((\<lambda>send. installed (runCommandWithReadAndWriteConcerns sh td send)) ^^ Suc n) send cmd =
         installed (runCommandWithReadAndWriteConcerns sh td send) cmd"
proof -
  have run: "runCommandWithReadAndWriteConcerns sh td send = (\<lambda>name c. bindE (liftE (rewriteConcerns sh td name c)) send)"
    for send :: "jsval \<Rightarrow> ('a, jsval) eff"
    by (simp add: fun_eq_iff runCommandWithReadAndWriteConcerns_def)
  show ?thesis unfolding run using assms by (intro concerns.reload_many) auto
qed

text \<open>A server that records the commands it is sent.\<close>

definition recorder :: "jsval \<Rightarrow> (jsval list, jsval) eff" where
  "recorder cmd = (\<lambda>sent. (Val (JObj [(''ok'', jnum 1)]), sent @ [cmd]))"

theorem concerns_reload_witness:
  "((\<lambda>send. installed (runCommandWithReadAndWriteConcerns exampleShell (JObj [(''defaultReadConcernLevel'', JStr ''majority'')]) send)) ^^ Suc 1)
     recorder (JObj [(''query'', JObj [(''find'', JStr ''c'')])]) [] =
   (Val (JObj [(''ok'', jnum 1)]),
    [JObj [(''query'', JObj [(''find'', JStr ''c''), (''readConcern'', JObj [(''level'', JStr ''majority'')])])]])"
proof -
  have refl: "bson_reflexive exampleShell" by (simp add: bson_reflexive_def exampleShell_def)
  show ?thesis by (subst concerns_reload [OF _ _ _ refl]) (simp add: is_object_def, simp, simp, code_simp)
qed

lemma linked_actual: "linked (inWrappedForm (first_key cmd)) cmd inner \<Longrightarrow> inner = actual cmd"
  by (auto simp: linked_def actual_def split: if_splits)

lemma default_concerns:
  "has_own (kDefaultReadConcern td) ''level''" "fld (kDefaultReadConcern td) ''level'' = fld td ''defaultReadConcernLevel''"
  by (simp_all add: kDefaultReadConcern_def has_own_def obj_keys_def fld_def)

text \<open>
  What \<open>set_read_and_write_concerns.js\<close> does to a command it accepts: a forced read concern has the configured
  level, a forced write concern has every property of the configured one, and all other properties of the actual
  command and its name are the caller's, in the plain and in the wrapped form.\<close>

theorem concerns_forced:
  assumes "rewriteConcerns sh td (first_key cmd) cmd = Inr cmd'" and "is_object cmd" and "wf_val cmd" and "wf_val td"
    and "bson_reflexive sh" and "concernsToForce td (first_key (actual cmd)) cmd (actual cmd) = Inr (r, w)"
  shows "(r \<and> fld td ''defaultReadConcernLevel'' \<noteq> Null \<longrightarrow>
      fld (fld (actual cmd') ''readConcern'') ''level'' = fld td ''defaultReadConcernLevel'') \<and>
    (w \<longrightarrow> (\<forall>k. has_own (kDefaultWriteConcern td) k \<longrightarrow>
      fld (fld (actual cmd') ''writeConcern'') k = fld (kDefaultWriteConcern td) k)) \<and>
    same_shape (actual cmd) (actual cmd')"
proof -
  obtain inner inner' r' w' where run: "linked (inWrappedForm (first_key cmd)) cmd inner"
    "concernsToForce td (first_key inner) cmd inner = Inr (r', w')" "same_shape inner inner'"
    "linked (inWrappedForm (first_key cmd)) cmd' inner'" "first_key cmd' = first_key cmd"
    "r' \<and> fld td ''defaultReadConcernLevel'' \<noteq> Null \<longrightarrow>
       concerned sh ''readConcern'' ''level'' (kDefaultReadConcern td) inner' \<and> wf_obj cmd'"
    "w' \<longrightarrow> concerned sh ''writeConcern'' ''w'' (kDefaultWriteConcern td) inner' \<and> wf_obj cmd'"
    by (rule rewriteConcerns_run [OF assms(1-5)])
  have inner: "inner = actual cmd" "inner' = actual cmd'"
    using linked_actual [of cmd inner] linked_actual [of cmd' inner'] run(1,4,5) by auto
  then have "r' = r" "w' = w" using run(2) assms(6) by auto
  with run(3,6,7) inner show ?thesis by (auto simp: concerned_def default_concerns)
qed

definition majorityData :: jsval where
  "majorityData = JObj [(''defaultReadConcernLevel'', JStr ''majority'')]"

definition outCommand :: jsval where
  "outCommand = JObj [(''aggregate'', JStr ''c''), (''pipeline'', JArr [JObj [(''$out'', JStr ''d'')]])]"

theorem concerns_forced_witness:
  "\<exists>cmd'. rewriteConcerns exampleShell majorityData ''aggregate'' outCommand = Inr cmd' \<and>
     fld (fld (actual cmd') ''readConcern'') ''level'' = JStr ''majority'' \<and>
     fld (fld (actual cmd') ''writeConcern'') ''w'' = JStr ''majority''"
proof -
  have refl: "bson_reflexive exampleShell" by (simp add: bson_reflexive_def exampleShell_def)
  have key: "first_key outCommand = ''aggregate''" and act: "actual outCommand = outCommand" by code_simp+
  have run: "rewriteConcerns exampleShell majorityData ''aggregate'' outCommand =
      Inr (JObj (props outCommand @ [(''readConcern'', JObj [(''level'', JStr ''majority'')]),
        (''writeConcern'', JObj [(''w'', JStr ''majority''), (''wtimeout'', jnum 300321)])]))"
    and force: "concernsToForce majorityData ''aggregate'' outCommand outCommand = Inr (True, True)"
    by code_simp+
  have wf: "is_object outCommand" "wf_val outCommand" "wf_val majorityData" by code_simp+
  have td: "fld majorityData ''defaultReadConcernLevel'' = JStr ''majority''"
    "has_own (kDefaultWriteConcern majorityData) ''w''" "fld (kDefaultWriteConcern majorityData) ''w'' = JStr ''majority''"
    by code_simp+
  from concerns_forced [of exampleShell majorityData outCommand, unfolded key act, OF run wf refl force] run td
  show ?thesis by auto
qed

text \<open>
  Wrapping pipelines in a facet: a command is sent unchanged or with the pipeline that holds
  the original one in a facet, in which case no stage of it is one a facet refuses; and wrapping a command again
  changes nothing.\<close>

theorem facet_wrapping:
  "(wrapInFacet cmd = cmd \<or>
    (\<exists>ps. fld cmd ''pipeline'' = JArr ps \<and> list_all allowedInFacet ps \<and>
          wrapInFacet cmd = set_prop ''pipeline'' (facetPipeline (JArr ps)) cmd)) \<and>
   wrapInFacet (wrapInFacet cmd) = wrapInFacet cmd"
  using wrapInFacet_cases [of cmd] wrapInFacet_stable by blast

text \<open>
  A command of another kind in the wrapped form reaches the server of a transaction suite without its wrapper, and
  what the wrapper says besides the command, such as a read preference, is lost.\<close>

theorem massage_drops_wrapper:
  assumes "is_object cmd" and "inWrappedForm (first_key cmd)" and "\<not> has_own cmd ''autocommit''"
    and "is_object (actual cmd)" and "first_key (actual cmd) \<notin> {''mapReduce'', ''mapreduce'', ''drop''}"
  shows "massage (first_key cmd) cmd = Inr (actual cmd)"
  using assms by (auto simp: massage_def unwrapped_def actual_def massagedCmd_def object_keys_def is_object_def)

theorem massage_drops_wrapper_witness:
  "massage ''query'' (JObj [(''query'', JObj [(''find'', JStr ''c'')]), (''$readPreference'', JObj [(''mode'', JStr ''secondary'')])]) =
   Inr (JObj [(''find'', JStr ''c'')])"
  by code_simp

end
