(* ===== verification/Read_Preference.thy ===== *)
theory Read_Preference
  imports Rewriting_Overrides
begin

text \<open>
  The override \<open>set_read_preference_secondary.js\<close>: reads are sent with the read preference \<open>secondary\<close>, and on a
  replica set connection the commands on a cursor are sent to the server that opened it.  The state is the
  cursor tracker; a server answers with a response and the connection it came from (\<open>_mongo\<close>).
\<close>

section \<open>Model\<close>

record ('s, 'c) rpEnv =
  rpTestData :: jsval
  isReplicaSetConnection :: "'c \<Rightarrow> bool"
  isMongosConnection :: "'c \<Rightarrow> bool"
  bsonBinaryEqual :: "jsval \<Rightarrow> jsval \<Rightarrow> bool"
  sendTo :: "'c \<Rightarrow> string \<Rightarrow> jsval \<Rightarrow> ('s, jsval \<times> 'c option) eff"

record ('s, 'c) rpState =
  connectionsByCursorId :: "int \<Rightarrow> 'c option"
  rpServer :: 's

type_synonym ('s, 'c, 'a) rpEff = "(('s, 'c) rpState, 'a) eff"

definition kReadPreferenceSecondary :: jsval where
  "kReadPreferenceSecondary = JObj [(''mode'', JStr ''secondary'')]"

definition kCommandsSupportingReadPreference :: "string list" where
  "kCommandsSupportingReadPreference =
     [''aggregate'', ''collStats'', ''count'', ''dbStats'', ''distinct'', ''find'', ''geoSearch'']"

definition kDatabasesOnConfigServers :: "string list" where
  "kDatabasesOnConfigServers = [''config'', ''admin'']"

definition kCursorGeneratingCommands :: "string list" where
  "kCursorGeneratingCommands = [''aggregate'', ''find'']"

fun getConnectionUsedForCursor :: "(int \<Rightarrow> 'c option) \<Rightarrow> jsval \<Rightarrow> 'c option" where
  "getConnectionUsedForCursor tracker (JLong i) = tracker i"
| "getConnectionUsedForCursor tracker _ = None"

definition setConnectionUsedForCursor :: "('s, 'c) rpEnv \<Rightarrow> jsval \<Rightarrow> 'c option \<Rightarrow> ('s, 'c, unit) rpEff" where
  "setConnectionUsedForCursor env cursorId cursorConn =
     (case cursorId of
        JLong i \<Rightarrow>
          if bsonBinaryEqual env (JObj [(''_'', cursorId)]) (JObj [(''_'', JLong 0)]) then ret ()
          else modE (\<lambda>s. s\<lparr>connectionsByCursorId := (connectionsByCursorId s)(i := cursorConn)\<rparr>)
      | _ \<Rightarrow> ret ())"

text \<open>The original \<open>runCommand\<close> of a connection.\<close>

definition rpSend :: "('s, 'c) rpEnv \<Rightarrow> 'c \<Rightarrow> string \<Rightarrow> jsval \<Rightarrow> ('s, 'c, jsval \<times> 'c option) rpEff" where
  "rpSend env conn dbName commandObj = (\<lambda>s.
     case sendTo env conn dbName commandObj (rpServer s) of (r, sv) \<Rightarrow> (r, s\<lparr>rpServer := sv\<rparr>))"

definition rpAnswer :: "('s, 'c) rpEnv \<Rightarrow> 'c \<Rightarrow> string \<Rightarrow> jsval \<Rightarrow> ('s, 'c, jsval) rpEff" where
  "rpAnswer env conn dbName commandObj = bindE (rpSend env conn dbName commandObj) (\<lambda>(res, _). ret res)"

text \<open>The loop over the cursors of a \<open>killCursors\<close> command; a second cursor that is tracked ends it without a route.\<close>

fun killCursorsConn :: "(int \<Rightarrow> 'c option) \<Rightarrow> jsval list \<Rightarrow> 'c option \<Rightarrow> 'c option" where
  "killCursorsConn tracker [] cursorConn = cursorConn"
| "killCursorsConn tracker (cursorId # cursorIds) cursorConn =
     (let otherCursorConn = getConnectionUsedForCursor tracker cursorId in
      if cursorConn = None then killCursorsConn tracker cursorIds otherCursorConn
      else if otherCursorConn \<noteq> None then None
      else killCursorsConn tracker cursorIds cursorConn)"

definition cursorRoute :: "('s, 'c) rpEnv \<Rightarrow> 'c \<Rightarrow> string \<Rightarrow> jsval \<Rightarrow> (int \<Rightarrow> 'c option) \<Rightarrow> 'c option" where
  "cursorRoute env conn name inner tracker =
     (if \<not> isReplicaSetConnection env conn then None
      else if name = ''getMore'' then getConnectionUsedForCursor tracker (fld inner name)
      else if name = ''killCursors''
      then (case fld inner ''cursors'' of JArr cursorIds \<Rightarrow> killCursorsConn tracker cursorIds None | _ \<Rightarrow> None)
      else None)"

definition shouldForceReadPreference :: "('s, 'c) rpEnv \<Rightarrow> 'c \<Rightarrow> string \<Rightarrow> string \<Rightarrow> jsval \<Rightarrow> bool result" where
  "shouldForceReadPreference env conn dbName name inner =
     rbind (if isAggregationWithOutOrMergeStage name inner then Inr False
            else rbind (if name = ''mapReduce'' \<or> name = ''mapreduce''
                        then isMapReduceWithInlineOutput name inner else Inr True) (\<lambda>readOnly.
              if \<not> readOnly then Inr False
              else if isMongosConnection env conn \<and> dbName \<in> set kDatabasesOnConfigServers then Inr False
              else Inr (name \<in> set kCommandsSupportingReadPreference))) (\<lambda>force.
     Inr (force \<and> \<not> truthy (fld (rpTestData env) ''doNotOverrideReadPreference'')))"

definition forceReadPreference :: "('s, 'c) rpEnv \<Rightarrow> bool \<Rightarrow> jsval \<Rightarrow> jsval result" where
  "forceReadPreference env wrapped commandObj =
     (let cmd = (if wrapped then copied commandObj else JObj [(''query'', commandObj)]) in
      if has_own cmd ''$readPreference'' \<and>
         \<not> bsonBinaryEqual env (JObj [(''_'', fld cmd ''$readPreference'')]) (JObj [(''_'', kReadPreferenceSecondary)])
      then Inl (Err ''Cowardly refusing to override read preference of command'')
      else Inr (set_prop ''$readPreference'' kReadPreferenceSecondary cmd))"

definition trackCursor :: "('s, 'c) rpEnv \<Rightarrow> 'c \<Rightarrow> string \<Rightarrow> jsval \<Rightarrow> 'c option \<Rightarrow> ('s, 'c, unit) rpEff" where
  "trackCursor env conn name res mongo =
     (if isReplicaSetConnection env conn \<and> name \<in> set kCursorGeneratingCommands
      then bindE (liftE (get_prop res ''ok'')) (\<lambda>ok.
           if ok = jnum 1 \<and> has_own res ''cursor''
           then bindE (liftE (get_prop (fld res ''cursor'') ''id'')) (\<lambda>i. setConnectionUsedForCursor env i mongo)
           else ret ())
      else ret ())"

definition runCommandWithReadPreferenceSecondary ::
    "('s, 'c) rpEnv \<Rightarrow> 'c \<Rightarrow> string \<Rightarrow> string \<Rightarrow> jsval \<Rightarrow> ('s, 'c, jsval) rpEff" where
  "runCommandWithReadPreferenceSecondary env conn dbName commandName commandObj =
     (if \<not> is_object commandObj then rpAnswer env conn dbName commandObj
      else bindE (liftE (unwrapped commandName commandObj)) (\<lambda>(name, inner).
        if fld commandObj name = JStr ''system.profile'' \<or> name = ''profile''
        then raise (Err ''Cowardly refusing to run test that interacts with the system profiler'')
        else bindE (getE (\<lambda>s. cursorRoute env conn name inner (connectionsByCursorId s))) (\<lambda>route.
        case route of
          Some cursorConn \<Rightarrow> rpAnswer env cursorConn dbName commandObj
        | None \<Rightarrow>
            bindE (liftE (rbind (shouldForceReadPreference env conn dbName name inner) (\<lambda>force.
              if force then forceReadPreference env (inWrappedForm commandName) commandObj else Inr commandObj))) (\<lambda>cmd.
            bindE (rpSend env conn dbName cmd) (\<lambda>(serverResponse, mongo).
            seqE (trackCursor env conn name serverResponse mongo) (ret serverResponse))))))"

definition readPreferenceRun :: "('s, 'c) rpEnv \<Rightarrow> 'c \<Rightarrow> string \<Rightarrow> jsval \<Rightarrow> ('s, 'c, jsval) rpEff" where
  "readPreferenceRun env conn dbName commandObj =
     installed (\<lambda>name cmd. runCommandWithReadPreferenceSecondary env conn dbName name cmd) commandObj"

section \<open>Routing of \<open>killCursors\<close>\<close>

lemma killCursorsConn_Some:
  "killCursorsConn tracker ids (Some c) =
   (if filter (\<lambda>r. r \<noteq> None) (map (getConnectionUsedForCursor tracker) ids) = [] then Some c else None)"
  by (induction ids) (auto simp: Let_def)

text \<open>
  A \<open>killCursors\<close> command on a replica set connection is routed exactly when one of its cursors is tracked and no
  other is; then it goes to the server of that cursor.\<close>

theorem killCursors_route:
  "killCursorsConn tracker ids None =
   (case filter (\<lambda>r. r \<noteq> None) (map (getConnectionUsedForCursor tracker) ids) of [r] \<Rightarrow> r | _ \<Rightarrow> None)"
proof (induction ids)
  case (Cons i ids)
  then show ?case
    by (cases "getConnectionUsedForCursor tracker i") (auto simp: killCursorsConn_Some Let_def split: list.split)
qed simp

text \<open>The comment asks for cursors from different servers; two cursors of the same server are not routed either.\<close>

theorem killCursors_same_server:
  assumes "tracker i = Some c" and "tracker j = Some c"
  shows "killCursorsConn tracker [JLong i, JLong j] None = None"
  using assms by simp

section \<open>Cursors stay with their server\<close>

text \<open>
  Cursor ids are fresh: the response to a command that opens a cursor carries an id that was not issued
  before, and an issued id stays issued.
\<close>

definition fresh_cursors :: "('s, 'c) rpEnv \<Rightarrow> ('s \<Rightarrow> int set) \<Rightarrow> bool" where
  "fresh_cursors env issued \<longleftrightarrow>
     (\<forall>c db cmd sv r sv'. sendTo env c db cmd sv = (r, sv') \<longrightarrow> issued sv \<subseteq> issued sv' \<and>
        (\<forall>res m i. r = Val (res, m) \<and> first_key (actual cmd) \<in> set kCursorGeneratingCommands \<and>
           fld (fld res ''cursor'') ''id'' = JLong i \<and> i \<noteq> 0 \<longrightarrow> i \<notin> issued sv \<and> i \<in> issued sv'))"

definition binary_equality :: "('s, 'c) rpEnv \<Rightarrow> bool" where
  "binary_equality env \<longleftrightarrow> (\<forall>x y. bsonBinaryEqual env x y \<longleftrightarrow> x = y)"

text \<open>The tracker is accurate: what it holds was issued, and cursor \<open>i\<close> belongs to the connection \<open>m\<close>.\<close>

definition tracks :: "('s \<Rightarrow> int set) \<Rightarrow> int \<Rightarrow> 'c \<Rightarrow> ('s, 'c) rpState \<Rightarrow> bool" where
  "tracks issued i m s \<longleftrightarrow> i \<in> issued (rpServer s) \<and> connectionsByCursorId s i = Some m"

lemma actual_forced:
  assumes "forceReadPreference env (inWrappedForm (first_key cmd)) cmd = Inr cmd'" and "wf_val cmd"
    and "inWrappedForm (first_key cmd) \<Longrightarrow> has_own cmd (first_key cmd)"
  shows "actual cmd' = actual cmd" and "inWrappedForm (first_key cmd')"
proof -
  have "actual cmd' = actual cmd \<and> inWrappedForm (first_key cmd')"
  proof (cases "inWrappedForm (first_key cmd)")
    case True
    then have cmd': "cmd' = set_prop ''$readPreference'' kReadPreferenceSecondary (JObj (props cmd))"
      using assms(1,2) by (auto simp: forceReadPreference_def copied_eq Let_def split: if_splits)
    have "obj_keys (JObj (props cmd)) \<noteq> []" using assms(3) [OF True] by (auto simp: has_own_def)
    moreover have "first_key (JObj (props cmd)) = first_key cmd" by (simp add: first_key_def)
    ultimately have key: "first_key cmd' = first_key cmd" unfolding cmd' by (simp add: first_key_set_prop)
    with True show ?thesis by (auto simp: actual_def cmd' inWrappedForm_def)
  next
    case False
    then have "cmd' = JObj [(''query'', cmd), (''$readPreference'', kReadPreferenceSecondary)]"
      using assms(1) by (auto simp: forceReadPreference_def set_prop_def Let_def split: if_splits)
    with False show ?thesis by (simp add: actual_def first_key_def obj_keys_def inWrappedForm_def fld_def)
  qed
  then show "actual cmd' = actual cmd" and "inWrappedForm (first_key cmd')" by auto
qed

lemma fresh_mono:
  "fresh_cursors env issued \<Longrightarrow> sendTo env c db cmd sv = (r, sv') \<Longrightarrow> i \<in> issued sv \<Longrightarrow> i \<in> issued sv'"
  unfolding fresh_cursors_def by blast

lemma rpSend_tracks: "fresh_cursors env issued \<Longrightarrow> keeps (tracks issued i m) (rpSend env conn dbName cmd)"
  by (rule keepsI) (auto simp: rpSend_def tracks_def split: prod.split dest: fresh_mono)

lemma rpAnswer_tracks: "fresh_cursors env issued \<Longrightarrow> keeps (tracks issued i m) (rpAnswer env conn dbName cmd)"
  unfolding rpAnswer_def by (auto intro!: keeps_rules rpSend_tracks split: prod.split)

lemma trackCursor_tracks:
  assumes "tracks issued i m s" and "fresh_cursors env issued" and "binary_equality env"
    and "sendTo env conn' dbName cmd (rpServer s) = (Val (res, mongo), sv)"
  shows "tracks issued i m (snd (trackCursor env conn (first_key (actual cmd)) res mongo (s\<lparr>rpServer := sv\<rparr>)))"
proof -
  have mono: "i \<in> issued sv" using assms(1) fresh_mono [OF assms(2,4)] by (simp add: tracks_def)
  have other: "j \<noteq> i" if "first_key (actual cmd) \<in> set kCursorGeneratingCommands"
    and "fld (fld res ''cursor'') ''id'' = JLong j" and "j \<noteq> 0" for j
    using assms(1,2,4) that unfolding tracks_def fresh_cursors_def by blast
  show ?thesis
    using assms(1,3) mono other
    by (auto simp: trackCursor_def setConnectionUsedForCursor_def tracks_def binary_equality_def bindE_def liftE_def
        get_prop_def ret_def raise_def modE_def split: jsval.split)
qed

lemma readPreferenceRun_tracks:
  assumes "fresh_cursors env issued" and "binary_equality env" and "wf_val cmd"
  shows "keeps (tracks issued i m) (readPreferenceRun env conn dbName cmd)"
proof -
  have send: "keeps (tracks issued i m) (bindE (rpSend env conn dbName cmd') (\<lambda>(res, mongo).
      seqE (trackCursor env conn name res mongo) (ret res)))" if "name = first_key (actual cmd')" for name cmd'
  proof (rule keepsI)
    fix s
    assume tracks: "tracks issued i m s"
    obtain r sv where r: "sendTo env conn dbName cmd' (rpServer s) = (r, sv)" by (cases "sendTo env conn dbName cmd' (rpServer s)")
    have "tracks issued i m (s\<lparr>rpServer := sv\<rparr>)" using keepsD [OF rpSend_tracks [OF assms(1)] tracks, of conn dbName cmd'] r
      by (simp add: rpSend_def)
    moreover have "tracks issued i m (snd (trackCursor env conn name res mongo (s\<lparr>rpServer := sv\<rparr>)))" if "r = Val (res, mongo)" for res mongo
      using trackCursor_tracks [OF tracks assms(1,2)] r that \<open>name = _\<close> by simp
    ultimately show "tracks issued i m (snd (bindE (rpSend env conn dbName cmd') (\<lambda>(res, mongo).
        seqE (trackCursor env conn name res mongo) (ret res)) s))"
      using r by (cases r) (auto simp: bindE_def rpSend_def seqE_def ret_def split: prod.split outcome.split)
  qed
  show ?thesis
  proof (cases "is_object cmd")
    case False
    then show ?thesis
      by (auto simp: readPreferenceRun_def installed_eq runCommandWithReadPreferenceSecondary_def
          intro!: keeps_rules rpAnswer_tracks [OF assms(1)])
  next
    case True
    then have run: "readPreferenceRun env conn dbName cmd = runCommandWithReadPreferenceSecondary env conn dbName (first_key cmd) cmd"
      by (auto simp: readPreferenceRun_def installed_eq is_object_def)
    show ?thesis
    proof (cases "unwrapped (first_key cmd) cmd")
      case (Inl e)
      with True show ?thesis by (simp add: run runCommandWithReadPreferenceSecondary_def keeps_raise)
    next
      case (Inr ni)
      then obtain name inner where un: "unwrapped (first_key cmd) cmd = Inr (name, inner)" by (cases ni) auto
      have name: "name = first_key (actual cmd)" using actual_unwrapped [OF un] by simp
      have own: "inWrappedForm (first_key cmd) \<Longrightarrow> has_own cmd (first_key cmd)"
        using unwrapped_linked [OF un] by (simp add: linked_def)
      have sent: "name = first_key (actual cmd')"
        if "rbind (shouldForceReadPreference env conn dbName name inner) (\<lambda>force.
          if force then forceReadPreference env (inWrappedForm (first_key cmd)) cmd else Inr cmd) = Inr cmd'" for cmd'
        using that name by (auto simp: rbind_Inr actual_forced(1) [OF _ assms(3) own] split: if_splits)
      have rest: "keeps (tracks issued i m) (bindE (liftE r) (\<lambda>cmd'. bindE (rpSend env conn dbName cmd') (\<lambda>(res, mongo).
          seqE (trackCursor env conn name res mongo) (ret res))))" if "\<And>cmd'. r = Inr cmd' \<Longrightarrow> name = first_key (actual cmd')" for r
        using that send by (cases r) (auto intro: keeps_raise)
      show ?thesis
        using True rest [OF sent] rpAnswer_tracks [OF assms(1)]
        by (auto simp: run runCommandWithReadPreferenceSecondary_def un intro!: keeps_rules split: option.split)
    qed
  qed
qed

lemma getMore_tracked:
  assumes "tracks issued i m t" and "isReplicaSetConnection env conn"
    and "first_key cmd = ''getMore''" and "is_object cmd" and "fld cmd ''getMore'' = JLong i"
  shows "readPreferenceRun env conn dbName cmd t = rpAnswer env m dbName cmd t"
  using assms
  by (auto simp: readPreferenceRun_def installed_eq runCommandWithReadPreferenceSecondary_def unwrapped_def inWrappedForm_def
      is_object_def tracks_def cursorRoute_def js_simps)

text \<open>
  Cursors stay with their server: once the tracker knows that a cursor was opened on a connection, a
  \<open>getMore\<close> on a replica set connection is sent to that connection unchanged, after any sequence of commands on any
  connections, whatever their outcomes, as long as the servers issue fresh cursor ids.\<close>

theorem getMore_routed:
  assumes "tracks issued i m s" and "fresh_cursors env issued" and "binary_equality env"
    and "list_all (\<lambda>(conn, db, cmd). wf_val cmd) cmds" and "isReplicaSetConnection env conn"
    and "first_key getMore = ''getMore''" and "is_object getMore" and "fld getMore ''getMore'' = JLong i"
  shows "let t = fold (\<lambda>(conn, db, cmd) s. snd (readPreferenceRun env conn db cmd s)) cmds s
         in readPreferenceRun env conn dbName getMore t = rpAnswer env m dbName getMore t"
proof -
  have "tracks issued i m (fold (\<lambda>(conn, db, cmd) s. snd (readPreferenceRun env conn db cmd s)) cmds s)"
    using assms(1,4) keepsD [OF readPreferenceRun_tracks [OF assms(2,3)]]
    by (induction cmds arbitrary: s) auto
  from getMore_tracked [OF this assms(5-8)] show ?thesis unfolding Let_def .
qed

text \<open>A server that opens cursor 7 on its first command and reports the connection \<open>node\<close>.\<close>

definition cursorServer :: "(nat, string) rpEnv" where
  "cursorServer = \<lparr>rpTestData = JObj [], isReplicaSetConnection = (\<lambda>_. True), isMongosConnection = (\<lambda>_. False),
     bsonBinaryEqual = (=),
     sendTo = (\<lambda>conn db cmd n. (Val (JObj [(''cursor'', JObj [(''id'', JLong (int (n + 7)))]), (''ok'', jnum 1)], Some ''node''), Suc n))\<rparr>"

definition openCursor :: jsval where
  "openCursor = JObj [(''find'', JStr ''c'')]"

definition fetchMore :: jsval where
  "fetchMore = JObj [(''getMore'', JLong 7)]"

definition opened :: "(nat, string) rpState" where
  "opened = snd (readPreferenceRun cursorServer ''set'' ''test'' openCursor \<lparr>connectionsByCursorId = (\<lambda>_. None), rpServer = 0\<rparr>)"

theorem getMore_routed_witness:
  "readPreferenceRun cursorServer ''set'' ''test'' fetchMore
     (snd (readPreferenceRun cursorServer ''set'' ''test'' openCursor opened)) =
   rpAnswer cursorServer ''node'' ''test'' fetchMore
     (snd (readPreferenceRun cursorServer ''set'' ''test'' openCursor opened))"
proof -
  let ?issued = "\<lambda>n. {j. 7 \<le> j \<and> j < int (n + 7)}"
  have "connectionsByCursorId opened 7 = Some ''node''" and "rpServer opened = 1" by code_simp+
  then have tracks: "tracks ?issued 7 ''node'' opened" by (simp add: tracks_def)
  have fresh: "fresh_cursors cursorServer ?issued" and eq: "binary_equality cursorServer"
    by (auto simp: fresh_cursors_def cursorServer_def binary_equality_def fld_def)
  have more: "first_key fetchMore = ''getMore''" "is_object fetchMore" "fld fetchMore ''getMore'' = JLong 7" by code_simp+
  have cmds: "list_all (\<lambda>(conn, db, cmd). wf_val cmd) [(''set'', ''test'', openCursor)]" by code_simp
  have rs: "isReplicaSetConnection cursorServer ''set''" by (simp add: cursorServer_def)
  from getMore_routed [OF tracks fresh eq cmds rs more] show ?thesis by (simp add: Let_def)
qed

section \<open>The preference\<close>

text \<open>
  The preference is forced without changing the actual command: what is sent when a preference is forced is the
  caller's command in the wrapped form with the preference \<open>secondary\<close>, and a command that already asks
  for another preference is refused.\<close>

theorem forceReadPreference_exact:
  assumes "wf_val cmd" and "inWrappedForm (first_key cmd) \<longrightarrow> has_own cmd (first_key cmd)" and "binary_equality env"
  shows "case forceReadPreference env (inWrappedForm (first_key cmd)) cmd of
      Inr cmd' \<Rightarrow> actual cmd' = actual cmd \<and> inWrappedForm (first_key cmd') \<and>
        fld cmd' ''$readPreference'' = kReadPreferenceSecondary
    | Inl e \<Rightarrow> inWrappedForm (first_key cmd) \<and> has_own cmd ''$readPreference'' \<and>
        fld cmd ''$readPreference'' \<noteq> kReadPreferenceSecondary"
proof (cases "forceReadPreference env (inWrappedForm (first_key cmd)) cmd")
  case (Inl e)
  with assms(1,3) show ?thesis
    by (auto simp: forceReadPreference_def Let_def copied_eq binary_equality_def has_own_def obj_keys_def split: if_splits)
next
  case (Inr cmd')
  have "actual cmd' = actual cmd" and "inWrappedForm (first_key cmd')"
    using actual_forced [OF Inr assms(1)] assms(2) by blast+
  moreover have "fld cmd' ''$readPreference'' = kReadPreferenceSecondary"
    using Inr by (auto simp: forceReadPreference_def Let_def split: if_splits)
  ultimately show ?thesis using Inr by simp
qed

theorem forceReadPreference_exact_witness:
  "forceReadPreference cursorServer False openCursor =
     Inr (JObj [(''query'', openCursor), (''$readPreference'', kReadPreferenceSecondary)]) \<and>
   actual (JObj [(''query'', openCursor), (''$readPreference'', kReadPreferenceSecondary)]) = openCursor"
proof -
  have key: "first_key openCursor = ''find''" and wf: "wf_val openCursor" and plain: "\<not> inWrappedForm ''find''"
    and act: "actual openCursor = openCursor" by code_simp+
  have eq: "binary_equality cursorServer" by (simp add: binary_equality_def cursorServer_def)
  have run: "forceReadPreference cursorServer False openCursor =
      Inr (JObj [(''query'', openCursor), (''$readPreference'', kReadPreferenceSecondary)])"
    by (simp add: forceReadPreference_def set_prop_def has_own_def obj_keys_def)
  from forceReadPreference_exact [OF wf _ eq] show ?thesis by (simp add: key plain run act)
qed

text \<open>
  The check for the profiler's collection reads the name of the actual command in the outer command, so that in the
  wrapped form a query of that collection is not refused.\<close>

theorem wrapped_profile_not_refused:
  "fst (readPreferenceRun cursorServer ''set'' ''test'' (JObj [(''find'', JStr ''system.profile'')])
      \<lparr>connectionsByCursorId = (\<lambda>_. None), rpServer = 0\<rparr>) =
     Throw (Err ''Cowardly refusing to run test that interacts with the system profiler'') \<and>
   rpServer (snd (readPreferenceRun cursorServer ''set'' ''test'' (JObj [(''query'', JObj [(''find'', JStr ''system.profile'')])])
      \<lparr>connectionsByCursorId = (\<lambda>_. None), rpServer = 0\<rparr>)) = 1"
  by code_simp

end
