(* ===== verification/Retrying_Overrides.thy ===== *)
theory Retrying_Overrides
  imports Rewriting_Overrides "HOL-Library.Multiset"
begin

text \<open>
  The overrides that send a command again, or look at its response:
  \<open>implicitly_retry_on_background_op_in_progress.js\<close>, \<open>implicitly_retry_on_database_drop_pending.js\<close>,
  \<open>retry_writes_at_least_once.js\<close>, \<open>causally_consistent_index_builds.js\<close> and
  \<open>check_for_operation_not_supported_in_transaction.js\<close>.  The original function is the parameter \<open>send\<close>.
  \<open>assert.soon\<close> tries again until its clock runs out: the number of further attempts the clock
  allows is the argument \<open>attempts\<close>.
\<close>

section \<open>Background operations in progress\<close>

definition commandWhitelist :: "string list" where
  "commandWhitelist =
     [''cloneCollectionAsCapped'', ''collMod'', ''compact'', ''convertToCapped'', ''createIndexes'', ''drop'',
      ''dropDatabase'', ''dropIndexes'', ''renameCollection'']"

definition acceptableCommandErrors :: "shell \<Rightarrow> string \<Rightarrow> jsval list" where
  "acceptableCommandErrors sh commandName =
     (if commandName = ''drop'' then [errorCode sh ''NamespaceNotFound'']
      else if commandName = ''dropIndexes'' then [errorCode sh ''IndexNotFound'']
      else if commandName = ''renameCollection'' then [errorCode sh ''NamespaceNotFound'']
      else [])"

definition hasBackgroundOpInProgress :: "shell \<Rightarrow> jsval \<Rightarrow> bool" where
  "hasBackgroundOpInProgress sh res \<longleftrightarrow>
     strict_eq (fld res ''code'') (errorCode sh ''BackgroundOperationInProgressForDatabase'')"

text \<open>The responses of the shards: none when the command is not to be retried, otherwise the shards still busy.\<close>

fun scanShards :: "shell \<Rightarrow> string \<Rightarrow> nat \<Rightarrow> (string \<times> jsval) list \<Rightarrow> string list \<Rightarrow> string list option result" where
  "scanShards sh commandName attempt [] busy = Inr (Some busy)"
| "scanShards sh commandName attempt ((shard, shardRes) # raw) busy =
     rbind (get_prop shardRes ''ok'') (\<lambda>ok.
     if truthy ok then scanShards sh commandName attempt raw busy
     else if hasBackgroundOpInProgress sh shardRes then scanShards sh commandName attempt raw (busy @ [shard])
     else if \<not> list_ex (strict_eq (fld shardRes ''code'')) (acceptableCommandErrors sh commandName) then Inr None
     else if attempt = 1 then Inr None
     else scanShards sh commandName attempt raw busy)"

text \<open>One attempt: whether to try again, and the response, which may be turned into a success.\<close>

definition backgroundAttempt :: "shell \<Rightarrow> bool \<Rightarrow> string \<Rightarrow> nat \<Rightarrow> jsval \<Rightarrow> (bool \<times> jsval) result" where
  "backgroundAttempt sh isMongos commandName attempt res =
     rbind (get_prop res ''ok'') (\<lambda>ok.
     if ok = jnum 1 then Inr (False, res)
     else if commandName \<notin> set commandWhitelist then Inr (False, res)
     else if hasBackgroundOpInProgress sh res then Inr (True, res)
     else if \<not> isMongos \<or> \<not> truthy (fld res ''raw'') then Inr (False, res)
     else rbind (scanShards sh commandName attempt (props (fld res ''raw'')) []) (\<lambda>r.
       case r of
         None \<Rightarrow> Inr (False, res)
       | Some busy \<Rightarrow> if busy = [] then Inr (False, set_prop ''ok'' (jnum 1) res) else Inr (True, res)))"

fun backgroundLoop :: "shell \<Rightarrow> bool \<Rightarrow> (jsval \<Rightarrow> ('s, jsval) eff) \<Rightarrow> string \<Rightarrow> jsval \<Rightarrow> nat \<Rightarrow> nat \<Rightarrow> ('s, jsval) eff" where
  "backgroundLoop sh isMongos send commandName commandObj attempt attempts =
     bindE (send commandObj) (\<lambda>res0.
     bindE (liftE (backgroundAttempt sh isMongos commandName attempt res0)) (\<lambda>(again, res).
     if \<not> again then ret res
     else case attempts of
         0 \<Rightarrow> raise (AssertFail ''Timed out while retrying command'')
       | Suc n \<Rightarrow> backgroundLoop sh isMongos send commandName commandObj (Suc attempt) n))"

declare backgroundLoop.simps [simp del]

definition runCommandRetryingBackgroundOps ::
    "shell \<Rightarrow> bool \<Rightarrow> (jsval \<Rightarrow> ('s, jsval) eff) \<Rightarrow> nat \<Rightarrow> string \<Rightarrow> jsval \<Rightarrow> ('s, jsval) eff" where
  "runCommandRetryingBackgroundOps sh isMongos send attempts commandName commandObj =
     (if \<not> is_object commandObj then send commandObj
      else backgroundLoop sh isMongos send commandName commandObj 1 attempts)"

section \<open>Databases whose drop is pending\<close>

record 's dropEnv =
  dpShell :: shell
  dpTestData :: jsval
  dpSend :: "jsval \<Rightarrow> ('s, jsval) eff"
  dpAdmin :: "jsval \<Rightarrow> ('s, jsval) eff"      \<comment> \<open>\<open>conn.adminCommand\<close>\<close>

definition selfMember :: "jsval \<Rightarrow> jsval result" where
  "selfMember replSetStatus =
     (case fld replSetStatus ''members'' of
        JArr members \<Rightarrow>
          if \<exists>m \<in> set (takeWhile (\<lambda>m. \<not> truthy (fld m ''self'')) members). m = Undef \<or> m = Null
          then Inl (TypeErr ''has no properties'')
          else require (list_ex (\<lambda>m. truthy (fld m ''self'')) members) ''failed to find self in replication status''
            (Inr (hd (dropWhile (\<lambda>m. \<not> truthy (fld m ''self'')) members)))
      | _ \<Rightarrow> Inl (TypeErr ''find is not a function''))"

definition awaitLatestOperationMajorityConfirmed :: "'s dropEnv \<Rightarrow> ('s, unit) eff" where
  "awaitLatestOperationMajorityConfirmed env =
     bindE (dpAdmin env (JObj [(''replSetGetStatus'', jnum 1)])) (\<lambda>replSetStatus.
     seqE (checkE (commandWorked (dpShell env) replSetStatus))
    (bindE (liftE (selfMember replSetStatus)) (\<lambda>primaryInfo.
     bindE (dpAdmin env (JObj [(''getLastError'', jnum 1), (''w'', JStr ''majority''), (''wtimeout'', jnum (10 * 60 * 1000)),
       (''wOpTime'', fld primaryInfo ''optime'')])) (\<lambda>res.
     checkE (commandWorked (dpShell env) res)))))"

definition plusN :: "jsval \<Rightarrow> jsval \<Rightarrow> jsval" where
  "plusN a b = JNum (num_add (to_number a) (to_number b))"

text \<open>The statistics of the previous attempt added to a response.\<close>

definition mergeInsert :: "jsval \<Rightarrow> jsval option \<Rightarrow> jsval" where
  "mergeInsert res prev =
     (case prev of None \<Rightarrow> res | Some p \<Rightarrow> set_prop ''n'' (plusN (fld res ''n'') (fld p ''n'')) res)"

text \<open>
  For an update the indexes of upserted documents are translated back through \<open>originalOps\<close>, a variable
  that is nowhere declared: reading it throws.
\<close>

definition mergeUpdate :: "jsval \<Rightarrow> jsval option \<Rightarrow> jsval result" where
  "mergeUpdate res0 prev =
     (let res = set_prop ''upserted'' (js_or (fld res0 ''upserted'') (JArr [])) res0 in
      case prev of
        None \<Rightarrow> Inr res
      | Some p \<Rightarrow>
          let res1 = set_prop ''nModified'' (plusN (fld res ''nModified'') (fld p ''nModified''))
                       (set_prop ''n'' (plusN (fld res ''n'') (fld p ''n'')) res) in
          (case fld res1 ''upserted'' of
             JArr [] \<Rightarrow> Inr (set_prop ''upserted'' (JArr (arr_elems (fld p ''upserted''))) res1)
           | JArr _ \<Rightarrow> Inl (RefErr ''originalOps is not defined'')
           | _ \<Rightarrow> Inl (TypeErr ''upserted is not iterable'')))"

text \<open>The operations that failed, in the order of the errors; an error index must be one of an operation sent.\<close>

fun failedOps :: "jsval list \<Rightarrow> jsval list \<Rightarrow> jsval list result" where
  "failedOps executed [] = Inr []"
| "failedOps executed (writeError # errors) =
     (case fld writeError ''index'' of
        JNum (Fin q) \<Rightarrow>
          require (q < of_nat (length executed)) ''A write error was returned for an operation outside the list''
            (rbind (failedOps executed errors) (\<lambda>ops.
             Inr ((if q \<ge> 0 \<and> of_int \<lfloor>q\<rfloor> = q then executed ! nat \<lfloor>q\<rfloor> else Undef) # ops)))
      | _ \<Rightarrow> Inl (AssertFail ''A write error was returned for an operation outside the list''))"

definition opsField :: "string \<Rightarrow> string" where
  "opsField commandName = (if commandName = ''insert'' then ''documents'' else ''updates'')"

text \<open>
  One attempt of a write: whether it is to be tried again, its merged response, and the command of the
  next attempt.  Write errors are objects whose index is a number, and the operations sent are an array.
\<close>

definition writeAttempt :: "shell \<Rightarrow> string \<Rightarrow> jsval \<Rightarrow> jsval option \<Rightarrow> jsval \<Rightarrow> (bool \<times> jsval \<times> jsval) result" where
  "writeAttempt sh commandName commandObj prev res0 =
     rbind (if commandName = ''insert'' then Inr (mergeInsert res0 prev) else mergeUpdate res0 prev) (\<lambda>res.
     let opsExecuted = fld commandObj (opsField commandName); errors = arr_elems (fld res ''writeErrors'') in
     if fld res ''ok'' \<noteq> jnum 1 \<or> \<not> has_own res ''writeErrors''
     then Inr (False, res, set_prop (opsField commandName) (JArr []) commandObj)
     else if \<not> is_array (fld res ''writeErrors'') then Inl (TypeErr ''writeErrors is not iterable'')
     else if list_ex (\<lambda>e. \<not> strict_eq (fld e ''code'') (errorCode sh ''DatabaseDropPending'')) errors
     then Inr (False, res, set_prop (opsField commandName) (JArr []) commandObj)
     else if errors \<noteq> [] \<and> (opsExecuted = Undef \<or> opsExecuted = Null) then Inl (TypeErr ''has no properties'')
     else rbind (failedOps (arr_elems opsExecuted) errors) (\<lambda>opsToRetry.
          Inr (True, res, set_prop (opsField commandName) (JArr opsToRetry) commandObj)))"

definition dropAttempt :: "'s dropEnv \<Rightarrow> string \<Rightarrow> jsval \<Rightarrow> jsval option \<Rightarrow> jsval \<Rightarrow> (bool \<times> jsval \<times> jsval) result" where
  "dropAttempt env commandName commandObj prev res =
     rbind (get_prop res ''ok'') (\<lambda>_. if commandName = ''insert'' \<or> commandName = ''update''
      then writeAttempt (dpShell env) commandName commandObj prev res
      else Inr (\<not> (fld res ''ok'' = jnum 1 \<or> \<not> strict_eq (fld res ''code'') (errorCode (dpShell env) ''DatabaseDropPending'')),
                res, commandObj))"

fun dropLoop :: "'s dropEnv \<Rightarrow> string \<Rightarrow> string \<Rightarrow> jsval \<Rightarrow> jsval option \<Rightarrow> nat \<Rightarrow> ('s, jsval) eff" where
  "dropLoop env dbName commandName commandObj prev attempts =
     bindE (dpSend env commandObj) (\<lambda>res0.
     bindE (liftE (dropAttempt env commandName commandObj prev res0)) (\<lambda>(again, res, nextCmd).
     if \<not> again then ret res
     else seqE (awaitLatestOperationMajorityConfirmed env)
       (if truthy (fld (dpTestData env) ''skipDropDatabaseOnDatabaseDropPending'') \<and> commandName = ''dropDatabase''
        then ret (JObj [(''ok'', jnum 1), (''dropped'', JStr dbName)])
        else case attempts of
            0 \<Rightarrow> raise (AssertFail ''timed out while retrying on DatabaseDropPending'')
          | Suc n \<Rightarrow> dropLoop env dbName commandName nextCmd (Some res) n)))"

declare dropLoop.simps [simp del]

definition runCommandRetryingDropPending :: "'s dropEnv \<Rightarrow> nat \<Rightarrow> string \<Rightarrow> jsval \<Rightarrow> ('s, jsval) eff" where
  "runCommandRetryingDropPending env attempts dbName commandObj =
     (if \<not> is_object commandObj then dpSend env commandObj
      else dropLoop env dbName (first_key (copied commandObj)) (copied commandObj) None attempts)"

section \<open>Writes sent at least twice\<close>

text \<open>\<open>rand\<close> draws the next random number; the loop is bounded by fuel.\<close>

fun extraRetries :: "nat \<Rightarrow> ('s, jsval) eff \<Rightarrow> ('s, rat) eff \<Rightarrow> ('s, jsval) eff" where
  "extraRetries 0 send rand = diverge"
| "extraRetries (Suc fuel) send rand =
     bindE send (\<lambda>res. bindE rand (\<lambda>x. if x \<le> 1 / 5 then extraRetries fuel send rand else ret res))"

definition runWithRetries :: "shell \<Rightarrow> nat \<Rightarrow> (jsval \<Rightarrow> ('s, jsval) eff) \<Rightarrow> ('s, rat) eff \<Rightarrow> jsval \<Rightarrow> ('s, jsval) eff" where
  "runWithRetries sh fuel send rand commandObj =
     bindE (liftE (rbind (object_keys commandObj) (\<lambda>_. unwrapped (first_key commandObj) commandObj))) (\<lambda>(cmdName, cmdObj).
     bindE (send commandObj) (\<lambda>res.
     if isRetryableWriteCmdName cmdName \<and> canRetryWrites sh cmdObj then extraRetries fuel (send commandObj) rand
     else ret res))"

section \<open>Index builds and causal consistency\<close>

definition runCommandWithCollMod :: "(jsval \<Rightarrow> ('s, jsval) eff) \<Rightarrow> string \<Rightarrow> jsval \<Rightarrow> ('s, jsval) eff" where
  "runCommandWithCollMod send commandName commandObj =
     (if \<not> is_object commandObj then send commandObj
      else bindE (send commandObj) (\<lambda>res.
        if commandName \<noteq> ''createIndexes'' then ret res
        else bindE (liftE (get_prop res ''ok'')) (\<lambda>ok.
        if \<not> truthy ok then ret res
        else bindE (send (JObj [(''collMod'', fld commandObj commandName)])) (\<lambda>collModRes.
             seqE (liftE (rbind (get_prop collModRes ''ok'') (\<lambda>_. Inr ())))
            (let res1 = (if has_own collModRes ''operationTime''
                         then set_prop ''operationTime'' (fld collModRes ''operationTime'') res else res) in
             ret (if has_own collModRes ''$clusterTime''
                  then set_prop ''$clusterTime'' (fld collModRes ''$clusterTime'') res1 else res1))))))"

section \<open>Errors in transactions that must not be ignored\<close>

text \<open>The value of \<open>labels && labels.includes(...) && !...\<close>: labels that are falsy are the value themselves.\<close>

definition transientValue :: "shell \<Rightarrow> jsval \<Rightarrow> jsval" where
  "transientValue sh res =
     (let labels = fld res ''errorLabels'' in
      if \<not> truthy labels then labels
      else JBool (includes_str labels ''TransientTransactionError'' \<and>
                  \<not> includesErrorCode res (errorCode sh ''NoSuchTransaction'')))"

definition notSupportedResponse :: "shell \<Rightarrow> jsval \<Rightarrow> bool" where
  "notSupportedResponse sh res \<longleftrightarrow>
     includesErrorCode res (errorCode sh ''OperationNotSupportedInTransaction'') \<or>
     includesErrorCode res (errorCode sh ''InvalidOptions'')"

definition checkedResponse :: "shell \<Rightarrow> jsval \<Rightarrow> jsval result" where
  "checkedResponse sh res =
     rbind (get_prop res ''errorLabels'') (\<lambda>_.
     if truthy (transientValue sh res) \<or> notSupportedResponse sh res
     then case commandWorked sh res of
         None \<Rightarrow> Inr res
       | Some ex \<Rightarrow> Inl (ErrObj (set_prop ''isNotSupported'' (JBool (notSupportedResponse sh res))
           (set_prop ''isTransient'' (transientValue sh res) (exn_obj ex))))
     else Inr res)"

definition runCommandCheckForOperationNotSupportedInTransaction ::
    "shell \<Rightarrow> (jsval \<Rightarrow> ('s, jsval) eff) \<Rightarrow> string \<Rightarrow> jsval \<Rightarrow> ('s, jsval) eff" where
  "runCommandCheckForOperationNotSupportedInTransaction sh send commandName commandObj =
     bindE (send commandObj) (\<lambda>res. liftE (checkedResponse sh res))"

section \<open>Properties: background operations\<close>

lemma scanShards_grows: "scanShards sh name attempt raw busy = Inr (Some busy') \<Longrightarrow> length busy \<le> length busy'"
proof (induction raw arbitrary: busy)
  case (Cons x raw)
  then show ?case by (cases x) (fastforce simp: rbind_Inr split: if_splits)
qed simp

lemma scanShards_none_busy:
  "scanShards sh name attempt raw busy = Inr (Some []) \<Longrightarrow> (shard, r) \<in> set raw \<Longrightarrow>
   truthy (fld r ''ok'') \<or> attempt \<noteq> 1 \<and> list_ex (strict_eq (fld r ''code'')) (acceptableCommandErrors sh name)"
proof (induction raw arbitrary: busy)
  case (Cons x raw)
  obtain k v where x: "x = (k, v)" by (cases x)
  have "scanShards sh name attempt raw (busy @ [k]) \<noteq> Inr (Some [])" using scanShards_grows by fastforce
  with Cons show ?case by (auto simp: x rbind_Inr split: if_splits)
qed simp

text \<open>What a response that ends the retries looks like: the server's, or one whose success is faked.\<close>

definition acceptedResponse :: "shell \<Rightarrow> bool \<Rightarrow> string \<Rightarrow> nat \<Rightarrow> jsval \<Rightarrow> jsval \<Rightarrow> bool" where
  "acceptedResponse sh isMongos name attempt sent res \<longleftrightarrow>
     res = sent \<or>
     res = set_prop ''ok'' (jnum 1) sent \<and> isMongos \<and> name \<in> set commandWhitelist \<and>
     (\<forall>(shard, r) \<in> set (props (fld sent ''raw'')).
        truthy (fld r ''ok'') \<or>
        attempt > 1 \<and> list_ex (strict_eq (fld r ''code'')) (acceptableCommandErrors sh name))"

lemma backgroundAttempt_done:
  assumes "backgroundAttempt sh isMongos name attempt sent = Inr (False, res)" and "attempt \<ge> 1"
  shows "acceptedResponse sh isMongos name attempt sent res"
proof -
  have "res = sent \<or> scanShards sh name attempt (props (fld sent ''raw'')) [] = Inr (Some []) \<and>
      res = set_prop ''ok'' (jnum 1) sent \<and> isMongos \<and> name \<in> set commandWhitelist"
    using assms(1) by (auto simp: backgroundAttempt_def rbind_Inr split: if_splits option.splits)
  then show ?thesis using scanShards_none_busy [of sh name attempt _ "[]"] assms(2)
    by (fastforce simp: acceptedResponse_def)
qed

lemma backgroundLoop_step:
  assumes "backgroundLoop sh isMongos send name cmd attempt n s = (Val res, t)"
  obtains (done_now) sent where "send cmd s = (Val sent, t)" "backgroundAttempt sh isMongos name attempt sent = Inr (False, res)"
    | (again) sent s1 m where "send cmd s = (Val sent, s1)" "n = Suc m"
        "backgroundLoop sh isMongos send name cmd (Suc attempt) m s1 = (Val res, t)"
proof -
  from assms obtain sent s1 where sent: "send cmd s = (Val sent, s1)"
    and rest: "bindE (liftE (backgroundAttempt sh isMongos name attempt sent)) (\<lambda>(again, res).
      if \<not> again then ret res
      else case n of 0 \<Rightarrow> raise (AssertFail ''Timed out while retrying command'')
         | Suc n \<Rightarrow> backgroundLoop sh isMongos send name cmd (Suc attempt) n) s1 = (Val res, t)"
    by (subst (asm) backgroundLoop.simps) (auto simp: bindE_Val [of "send cmd"])
  show ?thesis
  proof (cases "backgroundAttempt sh isMongos name attempt sent")
    case (Inl e)
    with rest show ?thesis by (simp add: raise_def)
  next
    case (Inr p)
    then obtain b r where "backgroundAttempt sh isMongos name attempt sent = Inr (b, r)" by (cases p) auto
    with rest sent show ?thesis
      by (cases b; cases n) (auto simp: raise_def ret_def intro: that)
  qed
qed

lemma backgroundLoop_Val:
  assumes "backgroundLoop sh isMongos send name cmd attempt n s = (Val res, t)" and "attempt \<ge> 1"
  shows "\<exists>k s' sent. attempt \<le> k \<and> k \<le> attempt + n \<and> send cmd s' = (Val sent, t) \<and> acceptedResponse sh isMongos name k sent res"
  using assms
proof (induction n arbitrary: attempt s)
  case 0
  from 0(1) show ?case
    by (cases rule: backgroundLoop_step) (use backgroundAttempt_done 0(2) in fastforce)+
next
  case (Suc n)
  from Suc.prems(1) show ?case
  proof (cases rule: backgroundLoop_step)
    case (done_now sent)
    with backgroundAttempt_done Suc.prems(2) show ?thesis by (metis le_add1 order_refl)
  next
    case (again sent s1 m)
    then obtain k s' sent' where "Suc attempt \<le> k" "k \<le> Suc attempt + n" "send cmd s' = (Val sent', t)"
      "acceptedResponse sh isMongos name k sent' res" using Suc.IH [of "Suc attempt" s1] by auto
    then show ?thesis by (intro exI [of _ k] exI [of _ s'] exI [of _ sent']) auto
  qed
qed

text \<open>
  C19. The retries on background operations are sound: the response returned is the last one the server sent, and
  its success is faked only through a mongos, for a command of the list, when every shard either succeeded or,
  in a repeated attempt, failed with an error that is acceptable for that command; it comes from the first attempt or
  one of the further attempts the clock allows.\<close>

theorem background_retries_sound:
  assumes "is_object cmd" and "runCommandRetryingBackgroundOps sh isMongos send attempts name cmd s = (Val res, t)"
  shows "\<exists>k s' sent. 1 \<le> k \<and> k \<le> Suc attempts \<and> send cmd s' = (Val sent, t) \<and> acceptedResponse sh isMongos name k sent res"
  using assms backgroundLoop_Val [of sh isMongos send name cmd 1 attempts s res t]
  by (simp add: runCommandRetryingBackgroundOps_def)

text \<open>A mongos of two shards; the first attempt finds one shard busy, the second finds the collection gone on the other.\<close>

definition dropServer :: "jsval \<Rightarrow> (nat, jsval) eff" where
  "dropServer cmd = (\<lambda>n. (Val (JObj [(''ok'', jnum 0), (''raw'', JObj [
     (''s0'', if n = 0 then JObj [(''ok'', jnum 1)] else JObj [(''ok'', jnum 0), (''code'', jnum 26)]),
     (''s1'', if n = 0 then JObj [(''ok'', jnum 0), (''code'', jnum 12586)] else JObj [(''ok'', jnum 1)])])]), Suc n))"

definition dropCommand :: jsval where
  "dropCommand = JObj [(''drop'', JStr ''c'')]"

definition droppedResponse :: jsval where
  "droppedResponse = JObj [(''ok'', jnum 1), (''raw'', JObj [
     (''s0'', JObj [(''ok'', jnum 0), (''code'', jnum 26)]), (''s1'', JObj [(''ok'', jnum 1)])])]"

theorem background_retries_sound_witness:
  "\<exists>k s' sent. 1 \<le> k \<and> k \<le> Suc 5 \<and> dropServer dropCommand s' = (Val sent, 2) \<and>
     acceptedResponse exampleShell True ''drop'' k sent droppedResponse"
proof -
  have cmd: "is_object dropCommand" by code_simp
  have run: "runCommandRetryingBackgroundOps exampleShell True dropServer 5 ''drop'' dropCommand 0 = (Val droppedResponse, 2)"
    by code_simp
  show ?thesis by (rule background_retries_sound [OF cmd run])
qed

text \<open>A command that is not in the list is sent once, whatever the server answers.\<close>

lemma background_other_commands:
  assumes "is_object cmd" and "name \<notin> set commandWhitelist" and "send cmd s = (Val res, t)" and "res \<notin> {Undef, Null}"
  shows "runCommandRetryingBackgroundOps sh isMongos send attempts name cmd s = (Val res, t)"
proof -
  have "backgroundAttempt sh isMongos name 1 res = Inr (False, res)"
    using assms(2,4) by (auto simp: backgroundAttempt_def get_prop_def)
  with assms(1,3) show ?thesis
    by (simp add: runCommandRetryingBackgroundOps_def backgroundLoop.simps [of sh isMongos send name cmd "Suc 0"] js_simps)
qed

section \<open>Properties: pending drops\<close>

definition errorsOf :: "jsval \<Rightarrow> jsval list" where
  "errorsOf res = arr_elems (fld res ''writeErrors'')"

text \<open>
  What the server documents of an insert that is not ordered: a command that succeeds stores every document but those its
  write errors name by their index, each once, and counts the stored ones.  The commands that wait for the majority store nothing.
\<close>

abbreviation othersThan :: "nat list \<Rightarrow> 'a list \<Rightarrow> 'a list" where
  "othersThan js docs \<equiv> map ((!) docs) (filter (\<lambda>i. i \<notin> set js) [0..<length docs])"

definition unorderedInserts :: "'s dropEnv \<Rightarrow> ('s \<Rightarrow> jsval multiset) \<Rightarrow> bool" where
  "unorderedInserts env stored \<longleftrightarrow>
     (\<forall>cmd docs s res t. dpSend env cmd s = (Val res, t) \<longrightarrow> fld cmd ''ordered'' = JBool False \<longrightarrow> fld cmd ''documents'' = JArr docs \<longrightarrow>
        fld res ''ok'' = jnum 1 \<longrightarrow>
        (\<exists>js. distinct js \<and> set js \<subseteq> {..<length docs} \<and> map (\<lambda>e. fld e ''index'') (errorsOf res) = map (\<lambda>i. jnum (int i)) js \<and>
           stored t = stored s + mset (othersThan js docs) \<and>
           fld res ''n'' = JNum (Fin (of_nat (length (othersThan js docs)))))) \<and>
     (\<forall>cmd s. stored (snd (dpAdmin env cmd s)) = stored s)"

lemma failedOps_named:
  "map (\<lambda>e. fld e ''index'') errors = map (\<lambda>i. jnum (int i)) js \<Longrightarrow> set js \<subseteq> {..<length docs} \<Longrightarrow>
   failedOps docs errors = Inr (map ((!) docs) js)"
proof (induction errors arbitrary: js)
  case (Cons e errors)
  then obtain i js' where js: "js = i # js'" "fld e ''index'' = jnum (int i)" "map (\<lambda>e. fld e ''index'') errors = map (\<lambda>i. jnum (int i)) js'"
    by (cases js) auto
  with Cons show ?case by (simp add: require_def)
qed simp

lemma named_and_others:
  assumes "distinct js" and "set js \<subseteq> {..<length docs}"
  shows "mset (othersThan js docs) + mset (map ((!) docs) js) = mset docs"
proof -
  let ?in = "filter (\<lambda>i. i \<in> set js) [0..<length docs]"
  have "set ?in = set js" using assms(2) by auto
  then have "mset js = mset ?in" using assms(1) by (metis distinct_filter distinct_upt set_eq_iff_mset_eq_distinct)
  then have "mset (map ((!) docs) js) = image_mset ((!) docs) (mset ?in)" by simp
  moreover have "mset docs = image_mset ((!) docs) (mset [0..<length docs])" by (metis map_nth mset_map)
  moreover have "mset [0..<length docs] = mset (filter (\<lambda>i. i \<notin> set js) [0..<length docs]) + mset ?in"
    using multiset_partition [of "mset [0..<length docs]" "\<lambda>i. i \<in> set js"] by (simp add: add.commute)
  ultimately show ?thesis by simp
qed

lemma mergeInsert_errors [simp]:
  "fld (mergeInsert res prev) ''writeErrors'' = fld res ''writeErrors''" "fld (mergeInsert res prev) ''ok'' = fld res ''ok''"
  by (simp_all add: mergeInsert_def split: option.split)

text \<open>The documents inserted so far: none before the first response.\<close>

definition inserted :: "jsval option \<Rightarrow> rat \<Rightarrow> bool" where
  "inserted prev q \<longleftrightarrow> (case prev of None \<Rightarrow> q = 0 | Some p \<Rightarrow> fld p ''n'' = JNum (Fin q))"

lemma insert_attempt:
  assumes "dropAttempt env ''insert'' cmd prev res0 = Inr (again, res, cmd')" and "fld cmd ''documents'' = JArr docs"
  shows "errorsOf res = errorsOf res0" and "fld res ''ok'' = fld res0 ''ok''" and "again \<Longrightarrow> fld res0 ''ok'' = jnum 1"
    and "inserted prev q \<Longrightarrow> fld res0 ''n'' = JNum (Fin m) \<Longrightarrow> fld res ''n'' = JNum (Fin (q + m))"
    and "again \<Longrightarrow> failedOps docs (errorsOf res0) = Inr ops \<Longrightarrow> cmd' = set_prop ''documents'' (JArr ops) cmd"
proof -
  have res: "res = mergeInsert res0 prev"
    using assms(1) by (auto simp: dropAttempt_def writeAttempt_def rbind_Inr Let_def split: if_splits)
  then show "errorsOf res = errorsOf res0" "fld res ''ok'' = fld res0 ''ok''" by (simp_all add: errorsOf_def)
  show "fld res ''n'' = JNum (Fin (q + m))" if "inserted prev q" "fld res0 ''n'' = JNum (Fin m)"
    using that by (auto simp: res mergeInsert_def inserted_def plusN_def split: option.splits)
  show "fld res0 ''ok'' = jnum 1" if again
    using assms(1) that by (auto simp: dropAttempt_def writeAttempt_def rbind_Inr Let_def split: if_splits)
  show "cmd' = set_prop ''documents'' (JArr ops) cmd" if again "failedOps docs (errorsOf res0) = Inr ops"
    using assms that by (auto simp: dropAttempt_def writeAttempt_def rbind_Inr Let_def opsField_def errorsOf_def split: if_splits)
qed

lemma dropLoop_step:
  assumes "dropLoop env dbName name cmd prev n s = (Val res, t)" and "name \<noteq> ''dropDatabase''"
  obtains (done_now) sent cmd' where "dpSend env cmd s = (Val sent, t)" "dropAttempt env name cmd prev sent = Inr (False, res, cmd')"
    | (again) sent s1 res1 cmd' s2 m where "dpSend env cmd s = (Val sent, s1)" "dropAttempt env name cmd prev sent = Inr (True, res1, cmd')"
        "awaitLatestOperationMajorityConfirmed env s1 = (Val (), s2)" "n = Suc m" "dropLoop env dbName name cmd' (Some res1) m s2 = (Val res, t)"
proof -
  let ?rest = "\<lambda>(again, res, nextCmd).
     if \<not> again then ret res
     else seqE (awaitLatestOperationMajorityConfirmed env)
       (if truthy (fld (dpTestData env) ''skipDropDatabaseOnDatabaseDropPending'') \<and> name = ''dropDatabase''
        then ret (JObj [(''ok'', jnum 1), (''dropped'', JStr dbName)])
        else case n of 0 \<Rightarrow> raise (AssertFail ''timed out while retrying on DatabaseDropPending'')
           | Suc n \<Rightarrow> dropLoop env dbName name nextCmd (Some res) n)"
  from assms(1) obtain sent s1 where sent: "dpSend env cmd s = (Val sent, s1)"
    and rest: "bindE (liftE (dropAttempt env name cmd prev sent)) ?rest s1 = (Val res, t)"
    by (subst (asm) dropLoop.simps) (auto simp: bindE_Val [of "dpSend env cmd"])
  show ?thesis
  proof (cases "dropAttempt env name cmd prev sent")
    case (Inl e)
    with rest show ?thesis by (simp add: raise_def)
  next
    case (Inr p)
    then obtain b r c where att: "dropAttempt env name cmd prev sent = Inr (b, r, c)" by (cases p) auto
    show ?thesis
    proof (cases b)
      case False
      with rest att sent show ?thesis by (auto simp: ret_def intro: done_now)
    next
      case True
      with rest att assms(2) obtain s2 m where "awaitLatestOperationMajorityConfirmed env s1 = (Val (), s2)" "n = Suc m" "dropLoop env dbName name c (Some r) m s2 = (Val res, t)"
        by (cases n) (auto simp: seqE_Val raise_def)
      with sent att True show ?thesis by (auto intro: again)
    qed
  qed
qed

lemma await_stores_nothing:
  assumes "unorderedInserts env stored" and "awaitLatestOperationMajorityConfirmed env s = (Val (), t)"
  shows "stored t = stored s"
proof -
  have "keeps (\<lambda>x. stored x = stored s) (dpAdmin env cmd)" for cmd using assms(1) by (simp add: keeps_def unorderedInserts_def)
  then have "keeps (\<lambda>x. stored x = stored s) (awaitLatestOperationMajorityConfirmed env)"
    unfolding awaitLatestOperationMajorityConfirmed_def by (intro keeps_rules)
  then show ?thesis using assms(2) unfolding keeps_def by (metis snd_conv)
qed

text \<open>One attempt: the documents it stored, the number it counts and the documents its errors name.\<close>

lemma unordered_attempt:
  assumes "dpSend env cmd s = (Val sent, t)" and "unorderedInserts env stored" and "fld cmd ''ordered'' = JBool False"
    and "fld cmd ''documents'' = JArr docs" and "fld sent ''ok'' = jnum 1"
  obtains failed where "failedOps docs (errorsOf sent) = Inr failed" and "stored t + mset failed = stored s + mset docs"
    and "length failed = length (errorsOf sent)" and "fld sent ''n'' = JNum (Fin (of_nat (length docs) - of_nat (length failed)))"
proof -
  obtain js where js: "distinct js" "set js \<subseteq> {..<length docs}" "map (\<lambda>e. fld e ''index'') (errorsOf sent) = map (\<lambda>i. jnum (int i)) js"
      "stored t = stored s + mset (othersThan js docs)" "fld sent ''n'' = JNum (Fin (of_nat (length (othersThan js docs))))"
    using assms unfolding unorderedInserts_def by blast
  let ?failed = "map ((!) docs) js"
  note all = named_and_others [OF js(1,2)]
  have "length (othersThan js docs) + length ?failed = length docs" using arg_cong [OF all, of size] by (simp only: size_union size_mset)
  then have "fld sent ''n'' = JNum (Fin (of_nat (length docs) - of_nat (length ?failed)))" unfolding js(5) by (metis add_diff_cancel_right' of_nat_add)
  moreover have "length ?failed = length (errorsOf sent)" using arg_cong [OF js(3), of length] by simp
  moreover have "stored t + mset ?failed = stored s + mset docs" unfolding js(4) using all by (simp add: add.assoc)
  ultimately show ?thesis using that failedOps_named [OF js(3,2)] by blast
qed

lemma insert_loop:
  assumes "dropLoop env dbName ''insert'' cmd prev n s = (Val res, t)" and "unorderedInserts env stored" and "fld res ''ok'' = jnum 1"
    and "inserted prev q" and "fld cmd ''ordered'' = JBool False" and "fld cmd ''documents'' = JArr docs"
  shows "\<exists>failed. length failed = length (errorsOf res) \<and> stored t + mset failed = stored s + mset docs \<and>
    fld res ''n'' = JNum (Fin (q + of_nat (length docs) - of_nat (length failed)))"
  using assms(1,4-6)
proof (induction n arbitrary: cmd prev s q docs rule: nat_less_induct)
  case (1 n)
  have name: "''insert'' \<noteq> ''dropDatabase''" by simp
  from 1(2) name show ?case
  proof (cases rule: dropLoop_step)
    case (done_now sent cmd')
    note att = insert_attempt [OF done_now(2) 1(5)]
    have ok: "fld sent ''ok'' = jnum 1" using att(2) assms(3) by simp
    from unordered_attempt [OF done_now(1) assms(2) 1(4,5) ok] obtain failed where f: "length failed = length (errorsOf sent)"
      "stored t + mset failed = stored s + mset docs" "fld sent ''n'' = JNum (Fin (of_nat (length docs) - of_nat (length failed)))" by metis
    have "fld res ''n'' = JNum (Fin (q + of_nat (length docs) - of_nat (length failed)))" using att(4) [OF 1(3) f(3)] by (simp add: add_diff_eq)
    with f att(1) show ?thesis by metis
  next
    case (again sent s1 res1 cmd' s2 m)
    note att = insert_attempt [OF again(2) 1(5)]
    from unordered_attempt [OF again(1) assms(2) 1(4,5) att(3) [OF TrueI]] obtain failed where f: "failedOps docs (errorsOf sent) = Inr failed"
      "stored s1 + mset failed = stored s + mset docs" "fld sent ''n'' = JNum (Fin (of_nat (length docs) - of_nat (length failed)))" by metis
    have cmd': "fld cmd' ''ordered'' = JBool False" "fld cmd' ''documents'' = JArr failed" using att(5) [OF TrueI f(1)] 1(4) by simp_all
    have so_far: "inserted (Some res1) (q + of_nat (length docs) - of_nat (length failed))"
      using att(4) [OF 1(3) f(3)] by (simp add: inserted_def add_diff_eq)
    have "m < n" using again(4) by simp
    from 1(1) [rule_format, OF this again(5) so_far cmd'] obtain rest where
      r: "length rest = length (errorsOf res)" "stored t + mset rest = stored s2 + mset failed"
        "fld res ''n'' = JNum (Fin (q + of_nat (length docs) - of_nat (length failed) + of_nat (length failed) - of_nat (length rest)))" by blast
    have "stored t + mset rest = stored s + mset docs" using r(2) f(2) await_stores_nothing [OF assms(2) again(3)] by simp
    with r(1,3) show ?thesis by auto
  qed
qed

text \<open>
  C20. Retrying an insert on pending drops stores every document once.  For an insert with \<open>ordered: false\<close>, on a server that
  stores of such an insert exactly the documents its write errors do not name (it goes on after an error), and a final response that
  succeeded as a command: all the attempts together store the documents of the caller's command, each once, except as many as
  the final response has write errors, and the final response counts the stored ones.\<close>

theorem drop_pending_insert_exact:
  assumes "runCommandRetryingDropPending env attempts dbName cmd s = (Val res, t)" and "unorderedInserts env stored"
    and "wf_obj cmd" and "first_key cmd = ''insert''" and "fld cmd ''ordered'' = JBool False" and "fld cmd ''documents'' = JArr docs"
    and "fld res ''ok'' = jnum 1"
  shows "\<exists>failed. length failed = length (errorsOf res) \<and> stored t + mset failed = stored s + mset docs \<and>
    fld res ''n'' = JNum (Fin (of_nat (length docs) - of_nat (length failed)))"
proof -
  have "is_object cmd" by (rule wf_obj_is_object [OF assms(3)])
  with assms(1,3,4) have "dropLoop env dbName ''insert'' cmd None attempts s = (Val res, t)"
    by (simp add: runCommandRetryingDropPending_def copied_id)
  from insert_loop [OF this assms(2,7) _ assms(5,6), of 0] show ?thesis by (simp add: inserted_def)
qed

text \<open>
  A server on which the first insert of more than one document meets a pending drop at its first document.  An unordered insert goes
  on with the other documents, an ordered one ends there.\<close>

definition pendingSend :: "jsval \<Rightarrow> (jsval list, jsval) eff" where
  "pendingSend cmd stored =
     (let docs = arr_elems (fld cmd ''documents'') in
      if length docs < 2 then (Val (JObj [(''ok'', jnum 1), (''n'', JNum (Fin (of_nat (length docs))))]), stored @ docs)
      else let kept = (if fld cmd ''ordered'' = JBool False then tl docs else []) in
        (Val (JObj [(''ok'', jnum 1), (''n'', JNum (Fin (of_nat (length kept)))),
           (''writeErrors'', JArr [JObj [(''index'', jnum 0), (''code'', jnum 215)]])]), stored @ kept))"

definition pendingServer :: "(jsval list) dropEnv" where
  "pendingServer = \<lparr>dpShell = exampleShell, dpTestData = JObj [], dpSend = pendingSend,
     dpAdmin = (\<lambda>cmd n. (Val (JObj [(''ok'', jnum 1), (''members'', JArr [JObj [(''self'', JBool True), (''optime'', jnum 9)]])]), n))\<rparr>"

definition insertCommand :: "bool \<Rightarrow> jsval" where
  "insertCommand ordered = JObj [(''insert'', JStr ''c''), (''documents'', JArr [jnum 1, jnum 2, jnum 3]), (''ordered'', JBool ordered)]"

lemma pendingServer_unordered: "unorderedInserts pendingServer mset"
proof -
  have "\<exists>js. distinct js \<and> set js \<subseteq> {..<length docs} \<and> map (\<lambda>e. fld e ''index'') (errorsOf res) = map (\<lambda>i. jnum (int i)) js \<and>
      mset t = mset s + mset (othersThan js docs) \<and> fld res ''n'' = JNum (Fin (of_nat (length (othersThan js docs))))"
    if send: "pendingSend cmd s = (Val res, t)" and cmd: "fld cmd ''ordered'' = JBool False" "fld cmd ''documents'' = JArr docs" for cmd docs s res t
  proof (cases "length docs < 2")
    case True
    have "othersThan [] docs = docs" by (simp add: map_nth)
    with True send cmd show ?thesis by (intro exI [of _ "[]"]) (auto simp: pendingSend_def errorsOf_def fld_def)
  next
    case False
    then obtain d ds where docs: "docs = d # ds" "1 \<le> length ds" by (cases docs) (auto simp: Suc_le_eq)
    have "filter (\<lambda>i. i \<noteq> 0) [0..<length docs] = map Suc [0..<length ds]" by (simp add: docs upt_conv_Cons filter_map comp_def map_Suc_upt Suc_le_eq)
    then have "othersThan [0] docs = ds" by (simp add: docs comp_def map_nth)
    with False send cmd docs show ?thesis by (intro exI [of _ "[0]"]) (auto simp: pendingSend_def errorsOf_def fld_def Let_def)
  qed
  then show ?thesis by (simp add: unorderedInserts_def pendingServer_def)
qed

theorem drop_pending_insert_exact_witness:
  "runCommandRetryingDropPending pendingServer 3 ''db'' (insertCommand False) [] = (Val (JObj [(''ok'', jnum 1), (''n'', jnum 3)]), [jnum 2, jnum 3, jnum 1]) \<and>
   (\<exists>failed. length failed = 0 \<and> mset [jnum 2, jnum 3, jnum 1] + mset failed = {#} + mset [jnum 1, jnum 2, jnum 3])"
proof -
  let ?res = "JObj [(''ok'', jnum 1), (''n'', jnum 3)]"
  have run: "runCommandRetryingDropPending pendingServer 3 ''db'' (insertCommand False) [] = (Val ?res, [jnum 2, jnum 3, jnum 1])"
    by code_simp
  have cmd: "wf_obj (insertCommand False)" "first_key (insertCommand False) = ''insert''" "fld (insertCommand False) ''ordered'' = JBool False"
    "fld (insertCommand False) ''documents'' = JArr [jnum 1, jnum 2, jnum 3]" "fld ?res ''ok'' = jnum 1" "length (errorsOf ?res) = 0"
    by (auto simp: insertCommand_def wf_obj_def first_key_def obj_keys_def fld_def errorsOf_def)
  from drop_pending_insert_exact [OF run pendingServer_unordered cmd(1-5)] run cmd(6) show ?thesis by auto
qed

text \<open>
  An ordered insert, the default, ends at its first error.  Only the document with the error is sent again, so the documents after it
  are never stored, and the final response reports no error.\<close>

theorem drop_pending_ordered_loses:
  "runCommandRetryingDropPending pendingServer 3 ''db'' (insertCommand True) [] = (Val (JObj [(''ok'', jnum 1), (''n'', jnum 1)]), [jnum 1])"
  by code_simp

text \<open>
  An update that upserts a document when it is retried fails on the undeclared variable.\<close>

theorem drop_pending_upsert_fails:
  assumes "fld res ''upserted'' = JArr (u # us)"
  shows "mergeUpdate res (Some prev) = Inl (RefErr ''originalOps is not defined'')"
  using assms by (simp add: mergeUpdate_def js_or_def Let_def)

section \<open>Properties: writes sent at least twice, and responses\<close>

lemma extraRetries_last:
  "extraRetries fuel send rand s = (Val res, t) \<Longrightarrow>
   \<exists>s1 s2 x. send s1 = (Val res, s2) \<and> rand s2 = (Val x, t) \<and> 1 / 5 < x"
  by (induction fuel arbitrary: s) (auto simp: js_simps bindE_Val ret_def not_le split: if_splits)

text \<open>A retryable write is sent once and then at least once more, and the last response is the result.\<close>

lemma runWithRetries_last:
  assumes "runWithRetries sh fuel send rand cmd s = (Val res, t)" and "unwrapped (first_key cmd) cmd = Inr (name, inner)"
    and "isRetryableWriteCmdName name" and "canRetryWrites sh inner"
  shows "\<exists>r0 s0 s1 s2 x. send cmd s = (Val r0, s0) \<and> send cmd s1 = (Val res, s2) \<and> rand s2 = (Val x, t) \<and> 1 / 5 < x"
proof (cases "cmd = Undef \<or> cmd = Null")
  case True
  with assms(1) show ?thesis by (auto simp: runWithRetries_def object_keys_def raise_def)
next
  case False
  with assms obtain r0 s0 where "send cmd s = (Val r0, s0)" and more: "extraRetries fuel (send cmd) rand s0 = (Val res, t)"
    by (auto simp: runWithRetries_def object_keys_def bindE_Val)
  with extraRetries_last [OF more] show ?thesis by metis
qed

text \<open>Two rounds of fuel are enough when the first draw is above the probability of another retry: it is then sent twice.\<close>

lemma runWithRetries_twice:
  assumes "unwrapped (first_key cmd) cmd = Inr (name, inner)" and "isRetryableWriteCmdName name" and "canRetryWrites sh inner"
    and "cmd \<notin> {Undef, Null}" and "send cmd s = (Val r0, s0)" and "send cmd s0 = (Val res, s1)"
    and "rand s1 = (Val x, t)" and "1 / 5 < x"
  shows "runWithRetries sh (Suc fuel) send rand cmd s = (Val res, t)"
  using assms by (simp add: runWithRetries_def object_keys_def js_simps)

text \<open>
  Errors that a workload must not ignore surface as exceptions: under the documented behaviour of
  \<open>assert.commandWorked\<close> the checked response throws exactly when it failed with a transient transaction
  error, other than a missing transaction, or with a code for an operation that transactions do not support, and the exception
  says which.\<close>

theorem checkedResponse_throws:
  assumes "commandWorked_spec sh" and "res \<notin> {Undef, Null}"
  shows "case checkedResponse sh res of
      Inr r \<Rightarrow> r = res \<and> \<not> (response_failed res \<and> (truthy (transientValue sh res) \<or> notSupportedResponse sh res))
    | Inl e \<Rightarrow> response_failed res \<and> fld (exn_obj e) ''isTransient'' = transientValue sh res \<and>
        fld (exn_obj e) ''isNotSupported'' = JBool (notSupportedResponse sh res) \<and>
        (truthy (transientValue sh res) \<or> notSupportedResponse sh res)"
proof -
  have "commandWorked sh res = None \<longleftrightarrow> \<not> response_failed res" using assms(1) by (simp add: commandWorked_spec_def)
  with assms(2) show ?thesis by (cases "commandWorked sh res") (auto simp: checkedResponse_def get_prop_def)
qed

definition unsupportedResponse :: jsval where
  "unsupportedResponse = JObj [(''ok'', jnum 0), (''code'', jnum 263)]"

theorem checkedResponse_throws_witness:
  "\<exists>e. checkedResponse exampleShell unsupportedResponse = Inl e \<and> fld (exn_obj e) ''isNotSupported'' = JBool True"
proof -
  have "unsupportedResponse \<notin> {Undef, Null}" and "response_failed unsupportedResponse"
    and "notSupportedResponse exampleShell unsupportedResponse" by code_simp+
  with checkedResponse_throws [OF exampleShell_commandWorked, of unsupportedResponse] show ?thesis
    by (auto split: sum.splits)
qed

text \<open>
  A successful index build returns with the times of the collection command that follows it, when that reports them, and is
  otherwise the server's response.\<close>

lemma collMod_times:
  assumes "is_object cmd" and "send cmd s = (Val res, s1)" and "truthy (fld res ''ok'')" and "res \<notin> {Undef, Null}"
    and "send (JObj [(''collMod'', fld cmd ''createIndexes'')]) s1 = (Val modRes, t)" and "modRes \<notin> {Undef, Null}"
  shows "\<exists>res'. runCommandWithCollMod send ''createIndexes'' cmd s = (Val res', t) \<and>
    (\<forall>k. fld res' k = (if k \<in> {''operationTime'', ''$clusterTime''} \<and> has_own modRes k then fld modRes k else fld res k))"
  using assms by (auto simp: runCommandWithCollMod_def get_prop_def js_simps Let_def)

end
