(* ===== verification/Staged_Fixture.thy ===== *)
theory Staged_Fixture
  imports Js_Prelude
begin

text \<open>
  What the fixtures with stages have in common: a variable with the current stage, a table of the stages that may follow each,
  and one function that moves to a new stage or throws.  The fixtures interpret the locale on their own state; from it
  they have how a transition runs and that, whatever they do and however it ends, the stages they go through form a
  path of the table.
\<close>

locale staged_fixture =
  fixes stageOf :: "'s \<Rightarrow> 'st" and setStage :: "'st \<Rightarrow> 's \<Rightarrow> 's" and allowed :: "'st \<Rightarrow> 'st list"
    and transition :: "'st \<Rightarrow> ('s, unit) eff"
  assumes stage_set: "stageOf (setStage st s) = st"
    and transition_run: "transition st s = (if st \<in> set (allowed (stageOf s)) then (Val (), setStage st s)
      else (Throw (Err ''Can't transition to State''), s))"
begin

definition onPath :: "'st \<Rightarrow> 's \<Rightarrow> bool" where
  "onPath st s \<longleftrightarrow> (\<lambda>a b. b \<in> set (allowed a))\<^sup>*\<^sup>* st (stageOf s)"

lemma transition_Val: "transition st s = (Val u, s') \<longleftrightarrow> st \<in> set (allowed (stageOf s)) \<and> s' = setStage st s"
  by (auto simp: transition_run)

lemma onPath_refl: "onPath (stageOf s) s"
  by (simp add: onPath_def)

lemma transition_onPath: "keeps (onPath st) (transition st')"
  by (rule keepsI) (auto simp: onPath_def transition_run stage_set intro: rtranclp.rtrancl_into_rtrancl)

lemma same_stage_onPath: "(\<And>s. stageOf (snd (m s)) = stageOf s) \<Longrightarrow> keeps (onPath st) m"
  by (rule keepsI) (simp add: onPath_def)

lemma refused: "st \<notin> set (allowed (stageOf s)) \<Longrightarrow> transition st s = (Throw (Err ''Can't transition to State''), s)"
  by (simp add: transition_run)

end

end
