(* ===== verification/Rollback_Test.thy ===== *)
theory Rollback_Test
  imports Shell Staged_Fixture
begin

text \<open>
  The rollback fixture of \<open>replsets/libs/rollback_test.js\<close>: a replica set of three nodes behind network bridges is led
  through the stages of a rollback.  The variables of a \<open>RollbackTest\<close> are the record \<open>rbt\<close>; the replica set, its bridges
  and its nodes are the environment \<open>rbEnv\<close>, whose operations act on a world of their own and may throw.
  A node is named by its host.  A wait is one operation of the environment; the wait for the rollback id is
  the loop of the code, with the number of further attempts its clock allows as an argument.
\<close>

section \<open>State and environment\<close>

type_synonym node = string

datatype stage =
    kStopped
  | kRollbackOps
  | kSyncSourceOpsBeforeRollback
  | kSyncSourceOpsDuringRollback
  | kSteadyStateOps

fun AcceptableTransitions :: "stage \<Rightarrow> stage list" where
  "AcceptableTransitions kStopped = []"
| "AcceptableTransitions kRollbackOps = [kSyncSourceOpsBeforeRollback]"
| "AcceptableTransitions kSyncSourceOpsBeforeRollback = [kSyncSourceOpsDuringRollback]"
| "AcceptableTransitions kSyncSourceOpsDuringRollback = [kSteadyStateOps]"
| "AcceptableTransitions kSteadyStateOps = [kStopped, kRollbackOps]"

record 'w rbEnv =
  rbShell :: shell
  rollbackShutdowns :: bool
  allowUncleanShutdowns :: bool
  bridgeDisconnect :: "node \<Rightarrow> node list \<Rightarrow> ('w, unit) eff"
  bridgeReconnect :: "node \<Rightarrow> node list \<Rightarrow> ('w, unit) eff"
  adminCommand :: "node \<Rightarrow> jsval \<Rightarrow> ('w, jsval) eff"
  insertDoc :: "node \<Rightarrow> string \<Rightarrow> jsval \<Rightarrow> ('w, jsval) eff"
  stopServerReplication :: "node \<Rightarrow> ('w, unit) eff"
  restartServerReplication :: "node \<Rightarrow> ('w, unit) eff"
  waitForState :: "node \<Rightarrow> string \<Rightarrow> ('w, unit) eff"
  awaitSecondaryNodes :: "('w, unit) eff"
  awaitReplication :: "node list option \<Rightarrow> ('w, unit) eff"
  awaitStepUp :: "node \<Rightarrow> ('w, unit) eff"             \<comment> \<open>\<open>replSetStepUp\<close> until it succeeds\<close>
  rstGetPrimary :: "('w, node) eff"
  rstGetSecondary :: "('w, node) eff"
  rstNodes :: "node list"
  waitForDrops :: "node \<Rightarrow> ('w, unit) eff"
  checkCollectionCounts :: "('w, unit) eff"
  checkOplogs :: "('w, unit) eff"
  checkReplicatedDataHashes :: "('w, unit) eff"
  validateNodes :: "('w, unit) eff"
  stopSet :: "('w, unit) eff"
  stopNode :: "nat \<Rightarrow> int \<Rightarrow> jsval \<Rightarrow> ('w, unit) eff"
  startNode :: "nat \<Rightarrow> jsval \<Rightarrow> ('w, unit) eff"
  freezeNode :: "nat \<Rightarrow> ('w, unit) eff"
  kForeverSecs :: jsval
  exitSigkill :: jsval

record 'w rbt =
  curState :: stage
  curPrimary :: node
  curSecondary :: node
  tiebreakerNode :: node
  lastRBID :: jsnum
  rbWorld :: 'w

type_synonym ('w, 'a) rbEff = "('w rbt, 'a) eff"

text \<open>An operation of the replica set.\<close>

definition rst :: "('w, 'a) eff \<Rightarrow> ('w, 'a) rbEff" where
  "rst m = (\<lambda>s. case m (rbWorld s) of (r, w) \<Rightarrow> (r, s\<lparr>rbWorld := w\<rparr>))"

definition commandWorkedOn :: "'w rbEnv \<Rightarrow> ('w, jsval) eff \<Rightarrow> ('w, jsval) rbEff" where
  "commandWorkedOn env m = bindE (rst m) (\<lambda>res. seqE (checkE (commandWorked (rbShell env) res)) (ret res))"

definition getRBID :: "'w rbEnv \<Rightarrow> node \<Rightarrow> ('w, jsnum) rbEff" where
  "getRBID env n =
     bindE (commandWorkedOn env (adminCommand env n (JStr ''replSetGetRBID''))) (\<lambda>res. ret (to_number (fld res ''rbid'')))"

section \<open>Setting up\<close>

text \<open>
  The adoption of a replica set: whether it is one with bridges, its nodes, its primary, its secondaries
  and its configuration are given.
\<close>

definition member :: "jsval \<Rightarrow> nat \<Rightarrow> jsval result" where
  "member config i = (let ms = arr_elems (fld config ''members'') in
     if i < length ms then Inr (ms ! i) else Inl (TypeErr ''a member is undefined''))"

definition priorityZero :: "jsval \<Rightarrow> bool" where
  "priorityZero m \<longleftrightarrow> strict_eq (fld m ''priority'') (jnum 0)"

definition checkSetup :: "node \<Rightarrow> node list \<Rightarrow> jsval \<Rightarrow> (node \<times> node) result" where
  "checkSetup primary secondaries config =
     require (fld (fld config ''settings'') ''chainingAllowed'' = JBool False) ''Must set up ReplSetTest with chaining disabled.''
    (rbind (member config 0) (\<lambda>m0.
     require (\<not> priorityZero m0) ''[0] are equal''
    (require (fld m0 ''host'' = JStr primary) ''not the primary''
    (rbind (member config 1) (\<lambda>m1.
     rbind (member config 2) (\<lambda>m2.
     require (fld m1 ''priority'' \<noteq> fld m2 ''priority'') ''are equal''
    (case secondaries of
       s0 # s1 # _ \<Rightarrow> Inr (if \<not> priorityZero m1 then s0 else s1, if priorityZero m2 then s1 else s0)
     | _ \<Rightarrow> Inl (TypeErr ''a secondary is undefined''))))))))"

definition validateAndUseSetup :: "'w rbEnv \<Rightarrow> bool \<Rightarrow> node list \<Rightarrow> jsval \<Rightarrow> ('w, unit) rbEff" where
  "validateAndUseSetup env usesBridge secondaries config =
     seqE (assertE usesBridge ''Must set up ReplSetTest with mongobridge enabled.'')
    (seqE (assertE (length (rstNodes env) = 3) ''Replica set must contain exactly three nodes.'')
    (bindE (rst (rstGetPrimary env)) (\<lambda>primary.
     bindE (liftE (checkSetup primary secondaries config)) (\<lambda>(secondary, tiebreaker).
     seqE (modE (\<lambda>s. s\<lparr>curPrimary := primary, curSecondary := secondary, tiebreakerNode := tiebreaker\<rparr>))
    (seqE (rst (waitForState env secondary ''SECONDARY''))
    (seqE (rst (waitForState env tiebreaker ''SECONDARY''))
    (bindE (getRBID env secondary) (\<lambda>rbid.
     seqE (modE (\<lambda>s. s\<lparr>lastRBID := rbid\<rparr>))
    (bindE (commandWorkedOn env (insertDoc env primary ''EnsureAnyNodeCanSyncFromAnyOther''
       (JObj [(''writeConcern'', JObj [(''w'', jnum 3)])]))) (\<lambda>_. ret ()))))))))))"

definition newRollbackTest :: "'w rbEnv \<Rightarrow> bool \<Rightarrow> node list \<Rightarrow> jsval \<Rightarrow> ('w, unit) rbEff" where
  "newRollbackTest env usesBridge secondaries config =
     seqE (modE (\<lambda>s. s\<lparr>curState := kSteadyStateOps\<rparr>))
    (seqE (validateAndUseSetup env usesBridge secondaries config)
    (bindE (getE tiebreakerNode) (\<lambda>n. rst (stopServerReplication env n))))"

section \<open>Transitions\<close>

definition checkDataConsistency :: "'w rbEnv \<Rightarrow> bool \<Rightarrow> ('w, unit) rbEff" where
  "checkDataConsistency env skipCheckCollectionCounts =
     bindE (getE curState) (\<lambda>st.
     seqE (assertE (st = kSteadyStateOps) ''Not in kSteadyStateOps state, cannot check data consistency'')
    (seqE (rst (forEachE (waitForDrops env) (rstNodes env)))
    (seqE (if (\<not> allowUncleanShutdowns env \<or> \<not> rollbackShutdowns env) \<and> \<not> skipCheckCollectionCounts
           then rst (checkCollectionCounts env) else ret ())
    (seqE (rst (checkOplogs env))
    (seqE (rst (checkReplicatedDataHashes env))
    (rst (validateNodes env)))))))"

definition transitionIfAllowed :: "stage \<Rightarrow> ('w, unit) rbEff" where
  "transitionIfAllowed newState =
     bindE (getE curState) (\<lambda>st.
     if newState \<in> set (AcceptableTransitions st) then modE (\<lambda>s. s\<lparr>curState := newState\<rparr>)
     else raise (Err ''Can't transition to State''))"

text \<open>The wait for the rollback id: a failed request keeps the id seen last.\<close>

definition num_lte :: "jsnum \<Rightarrow> jsnum \<Rightarrow> bool" where
  "num_lte a b \<longleftrightarrow> num_less a b \<or> a = b \<and> a \<noteq> NaN"

fun awaitRBID :: "'w rbEnv \<Rightarrow> node \<Rightarrow> jsnum \<Rightarrow> jsnum \<Rightarrow> nat \<Rightarrow> ('w, unit) rbEff" where
  "awaitRBID env n expected rbid0 attempts =
     bindE (tryCatch (getRBID env n) (\<lambda>_. ret rbid0)) (\<lambda>rbid.
     seqE (assertE (num_lte rbid expected) ''RBID is too large'')
     (if rbid = expected \<and> rbid \<noteq> NaN then ret ()
      else case attempts of
          0 \<Rightarrow> raise (AssertFail ''Timed out waiting for RBID to increment'')
        | Suc k \<Rightarrow> awaitRBID env n expected rbid k))"

declare awaitRBID.simps [simp del]

definition transitionToSteadyStateOperations :: "'w rbEnv \<Rightarrow> nat \<Rightarrow> bool \<Rightarrow> ('w, node) rbEff" where
  "transitionToSteadyStateOperations env attempts skipDataConsistencyChecks =
     bindE (getE (\<lambda>s. (curPrimary s, curSecondary s, tiebreakerNode s, lastRBID s))) (\<lambda>(primary, secondary, tiebreaker, last).
     seqE (if \<not> rollbackShutdowns env then awaitRBID env secondary (num_add last (Fin 1)) (Fin (- 1)) attempts else ret ())
    (seqE (rst (bridgeReconnect env tiebreaker [primary, secondary]))
    (seqE (rst (restartServerReplication env tiebreaker))
    (seqE (rst (awaitSecondaryNodes env))
    (seqE (rst (awaitReplication env None))
    (bindE (commandWorkedOn env (adminCommand env secondary (JObj [(''replSetFreeze'', jnum 0)]))) (\<lambda>_.
     seqE (transitionIfAllowed kSteadyStateOps)
    (seqE (if skipDataConsistencyChecks then ret () else checkDataConsistency env False)
    (seqE (rst (stopServerReplication env tiebreaker))
    (getE curPrimary))))))))))"

definition transitionToRollbackOperations :: "'w rbEnv \<Rightarrow> ('w, node) rbEff" where
  "transitionToRollbackOperations env =
     bindE (getE (\<lambda>s. (curPrimary s, curSecondary s, tiebreakerNode s))) (\<lambda>(primary, secondary, tiebreaker).
     seqE (rst (awaitSecondaryNodes env))
    (seqE (rst (awaitReplication env (Some [secondary])))
    (seqE (transitionIfAllowed kRollbackOps)
    (seqE (rst (bridgeDisconnect env secondary [tiebreaker]))
    (seqE (rst (bridgeDisconnect env primary [secondary]))
    (getE curPrimary))))))"

definition transitionToSyncSourceOperationsBeforeRollback :: "'w rbEnv \<Rightarrow> ('w, node) rbEff" where
  "transitionToSyncSourceOperationsBeforeRollback env =
     bindE (getE (\<lambda>s. (curPrimary s, curSecondary s, tiebreakerNode s))) (\<lambda>(primary, secondary, tiebreaker).
     seqE (transitionIfAllowed kSyncSourceOpsBeforeRollback)
    (bindE (commandWorkedOn env (insertDoc env primary ''EnsureThereIsAtLeastOneOperationToRollback'' (JObj []))) (\<lambda>_.
     seqE (rst (bridgeDisconnect env primary [tiebreaker]))
    (seqE (tryCatch (bindE (rst (adminCommand env primary
               (JObj [(''replSetStepDown'', jnum 1), (''force'', JBool True)]))) (\<lambda>_. ret ())) (\<lambda>_. ret ()))
    (seqE (rst (waitForState env primary ''SECONDARY''))
    (seqE (rst (bridgeReconnect env secondary [tiebreaker]))
    (seqE (rst (awaitStepUp env secondary))
    (bindE (rst (rstGetPrimary env)) (\<lambda>newPrimary.
     seqE (assertE (newPrimary = secondary) ''Did not elect a new node as primary'')
    (seqE (modE (\<lambda>s. s\<lparr>curSecondary := primary, curPrimary := newPrimary\<rparr>))
    (bindE (getRBID env primary) (\<lambda>rbid.
     seqE (modE (\<lambda>s. s\<lparr>lastRBID := rbid\<rparr>))
    (getE curPrimary)))))))))))))"

definition transitionToSyncSourceOperationsDuringRollback :: "'w rbEnv \<Rightarrow> ('w, node) rbEff" where
  "transitionToSyncSourceOperationsDuringRollback env =
     bindE (getE (\<lambda>s. (curPrimary s, curSecondary s))) (\<lambda>(primary, secondary).
     seqE (transitionIfAllowed kSyncSourceOpsDuringRollback)
    (seqE (rst (waitForState env secondary ''SECONDARY''))
    (bindE (commandWorkedOn env (adminCommand env secondary (JObj [(''replSetFreeze'', kForeverSecs env)]))) (\<lambda>_.
     seqE (rst (bridgeReconnect env secondary [primary]))
    (getE curPrimary)))))"

definition rbStop :: "'w rbEnv \<Rightarrow> bool \<Rightarrow> ('w, unit) rbEff" where
  "rbStop env skipCheckCollectionCounts =
     bindE (getE tiebreakerNode) (\<lambda>tiebreaker.
     seqE (rst (restartServerReplication env tiebreaker))
    (seqE (rst (awaitReplication env None))
    (seqE (checkDataConsistency env skipCheckCollectionCounts)
    (seqE (transitionIfAllowed kStopped)
    (rst (stopSet env))))))"

definition SIGKILL :: int where "SIGKILL = 9"
definition SIGTERM :: int where "SIGTERM = 15"
definition kElectableNodes :: int where "kElectableNodes = 2"

text \<open>The options of the shutdown.\<close>

definition stopOptions :: "'w rbEnv \<Rightarrow> int \<Rightarrow> jsval \<Rightarrow> jsval" where
  "stopOptions env signal allowedExitCode =
     (if allowedExitCode \<noteq> Undef then JObj [(''skipValidation'', JBool True), (''allowedExitCode'', allowedExitCode)]
      else if signal = SIGKILL then JObj [(''skipValidation'', JBool True), (''allowedExitCode'', exitSigkill env)]
      else JObj [(''skipValidation'', JBool True)])"

text \<open>The roles after a restart.\<close>

definition refreshRoles :: "'w rbEnv \<Rightarrow> ('w, unit) rbEff" where
  "refreshRoles env =
     bindE (getE (\<lambda>s. (curState s, curPrimary s))) (\<lambda>(st, oldPrimary).
     bindE (rst (rstGetPrimary env)) (\<lambda>primary.
     seqE (modE (\<lambda>s. s\<lparr>curPrimary := primary\<rparr>))
    (seqE (assertE (st = kSteadyStateOps \<or> primary = oldPrimary) ''the primary changed'')
    (bindE (rst (rstGetSecondary env)) (\<lambda>secondary.
     seqE (modE (\<lambda>s. s\<lparr>curSecondary := secondary\<rparr>))
     (assertE (primary \<noteq> secondary) ''the primary and the secondary are equal''))))))"

definition restartNode :: "'w rbEnv \<Rightarrow> int \<Rightarrow> int \<Rightarrow> jsval \<Rightarrow> jsval \<Rightarrow> ('w, unit) rbEff" where
  "restartNode env nodeId signal0 startOptions allowedExitCode =
     seqE (assertE (signal0 = SIGKILL \<or> signal0 = SIGTERM) ''Received unknown signal'')
    (seqE (assertE (nodeId \<ge> 0) ''Invalid argument to RollbackTest.restartNode()'')
    (seqE (if nat nodeId \<ge> length (rstNodes env) then raise (TypeErr ''has no properties'') else ret ())
    (if \<not> rollbackShutdowns env \<or> nodeId \<ge> kElectableNodes then ret ()
     else let signal = (if \<not> allowUncleanShutdowns env \<and> signal0 \<noteq> SIGTERM then SIGTERM else signal0) in
      seqE (rst (stopNode env (nat nodeId) signal (stopOptions env signal allowedExitCode)))
     (seqE (rst (startNode env (nat nodeId) startOptions))
     (bindE (getE (\<lambda>s. curState s = kSyncSourceOpsDuringRollback \<and> rstNodes env ! nat nodeId = curSecondary s)) (\<lambda>rollbackNode.
      seqE (if rollbackNode then rst (freezeNode env (nat nodeId)) else ret ())
      (refreshRoles env)))))))"

section \<open>The roles\<close>

text \<open>
  The checks of the setup compare the two priorities with each other and not with zero: the two roles fall to different
  nodes exactly if one of the two members has priority zero, and two electable
  secondaries of different priorities pass the checks with the same node in both roles.
\<close>

lemma setup_roles_distinct:
  assumes "checkSetup p [s0, s1] config = Inr (q, t)" and "s0 \<noteq> s1"
    and "member config 1 = Inr m1" and "member config 2 = Inr m2"
  shows "q \<noteq> t \<longleftrightarrow> priorityZero m1 \<noteq> priorityZero m2"
  using assms by (auto simp: checkSetup_def rbind_def require_def split: if_splits sum.splits)

definition twoElectable :: jsval where
  "twoElectable = JObj [(''settings'', JObj [(''chainingAllowed'', JBool False)]),
     (''members'', JArr [JObj [(''host'', JStr ''a''), (''priority'', jnum 3)],
        JObj [(''host'', JStr ''b''), (''priority'', jnum 2)], JObj [(''host'', JStr ''c''), (''priority'', jnum 1)]])]"

lemma setup_shares_a_role: "checkSetup ''a'' [''b'', ''c''] twoElectable = Inr (''b'', ''b'')"
  by code_simp

section \<open>The abstract machine\<close>

text \<open>
  What a test relies on: the stage, which nodes are primary and secondary, and which links are cut.  A step of the
  abstract machine is a call of a method that returns; \<open>t\<close> is the tiebreaker.
\<close>

type_synonym view = "stage \<times> node \<times> node \<times> (node \<times> node) set"

definition bothWays :: "node \<Rightarrow> node list \<Rightarrow> (node \<times> node) set" where
  "bothWays a bs = {a} \<times> set bs \<union> set bs \<times> {a}"

inductive rb_step :: "node \<Rightarrow> view \<Rightarrow> view \<Rightarrow> bool" for t where
  to_rollback: "rb_step t (kSteadyStateOps, p, s, C) (kRollbackOps, p, s, C \<union> bothWays s [t] \<union> bothWays p [s])"
| to_before: "rb_step t (kRollbackOps, p, s, C) (kSyncSourceOpsBeforeRollback, s, p, (C \<union> bothWays p [t]) - bothWays s [t])"
| to_during: "rb_step t (kSyncSourceOpsBeforeRollback, p, s, C) (kSyncSourceOpsDuringRollback, p, s, C - bothWays s [p])"
| to_steady: "rb_step t (kSyncSourceOpsDuringRollback, p, s, C) (kSteadyStateOps, p, s, C - bothWays t [p, s])"
| to_stopped: "rb_step t (kSteadyStateOps, p, s, C) (kStopped, p, s, C)"

inductive_cases rb_stepE: "rb_step t (st, p, s, C) v"

text \<open>
  A restart of a node reads the roles from the replica set.  They differ, and outside the steady state the primary stays; nothing
  says that the secondary is not the tiebreaker.
\<close>

inductive rb_restart :: "view \<Rightarrow> view \<Rightarrow> bool" where
  restarted: "p' \<noteq> s' \<Longrightarrow> st = kSteadyStateOps \<or> p' = p \<Longrightarrow> rb_restart (st, p, s, C) (st, p', s', C)"

text \<open>The links that are cut in each stage.\<close>

fun cutLinks :: "stage \<Rightarrow> node \<Rightarrow> node \<Rightarrow> node \<Rightarrow> (node \<times> node) set" where
  "cutLinks kRollbackOps p s t = bothWays s [p, t]"
| "cutLinks kSyncSourceOpsBeforeRollback p s t = bothWays s [p, t]"
| "cutLinks kSyncSourceOpsDuringRollback p s t = bothWays s [t]"
| "cutLinks _ p s t = {}"

definition view_ok :: "node \<Rightarrow> node set \<Rightarrow> view \<Rightarrow> bool" where
  "view_ok t nodes v \<longleftrightarrow> (case v of (st, p, s, C) \<Rightarrow>
     distinct [p, s, t] \<and> nodes = {p, s, t} \<and> C = cutLinks st p s t)"

lemma view_ok_step:
  assumes "rb_step t v v'" and "view_ok t nodes v"
  shows "view_ok t nodes v'"
  using assms by (cases rule: rb_step.cases) (auto simp: view_ok_def bothWays_def)

lemma view_ok_reachable: "(rb_step t)\<^sup>*\<^sup>* v v' \<Longrightarrow> view_ok t nodes v \<Longrightarrow> view_ok t nodes v'"
  by (induction rule: rtranclp_induct) (auto dest: view_ok_step)

section \<open>Refinement\<close>

text \<open>
  The documented behaviour of the environment: disconnecting and reconnecting a bridge cuts and restores links in both
  directions, and no other operation touches a link (\<open>quiet\<close>).
\<close>

definition quiet :: "('w \<Rightarrow> 'l) \<Rightarrow> ('w, 'a) eff \<Rightarrow> bool" where
  "quiet severed m \<longleftrightarrow> (\<forall>w. severed (snd (m w)) = severed w)"

definition bridges :: "'w rbEnv \<Rightarrow> ('w \<Rightarrow> (node \<times> node) set) \<Rightarrow> bool" where
  "bridges env severed \<longleftrightarrow>
     (\<forall>a bs w w'. bridgeDisconnect env a bs w = (Val (), w') \<longrightarrow> severed w' = severed w \<union> bothWays a bs) \<and>
     (\<forall>a bs w w'. bridgeReconnect env a bs w = (Val (), w') \<longrightarrow> severed w' = severed w - bothWays a bs)"

definition others_quiet :: "'w rbEnv \<Rightarrow> ('w \<Rightarrow> (node \<times> node) set) \<Rightarrow> bool" where
  "others_quiet env severed \<longleftrightarrow>
     (\<forall>n c. quiet severed (adminCommand env n c)) \<and> (\<forall>n db d. quiet severed (insertDoc env n db d)) \<and>
     (\<forall>n. quiet severed (stopServerReplication env n)) \<and> (\<forall>n. quiet severed (restartServerReplication env n)) \<and>
     (\<forall>n st. quiet severed (waitForState env n st)) \<and> quiet severed (awaitSecondaryNodes env) \<and>
     (\<forall>ns. quiet severed (awaitReplication env ns)) \<and> (\<forall>n. quiet severed (awaitStepUp env n)) \<and>
     quiet severed (rstGetPrimary env) \<and> quiet severed (rstGetSecondary env) \<and> (\<forall>n. quiet severed (waitForDrops env n)) \<and>
     quiet severed (checkCollectionCounts env) \<and> quiet severed (checkOplogs env) \<and> quiet severed (checkReplicatedDataHashes env) \<and>
     quiet severed (validateNodes env) \<and> quiet severed (stopSet env) \<and>
     (\<forall>i sig opts. quiet severed (stopNode env i sig opts)) \<and> (\<forall>i opts. quiet severed (startNode env i opts)) \<and>
     (\<forall>i. quiet severed (freezeNode env i))"

definition view :: "('w \<Rightarrow> (node \<times> node) set) \<Rightarrow> 'w rbt \<Rightarrow> view" where
  "view severed s = (curState s, curPrimary s, curSecondary s, severed (rbWorld s))"

definition seen :: "('w \<Rightarrow> (node \<times> node) set) \<Rightarrow> node \<Rightarrow> view \<Rightarrow> 'w rbt \<Rightarrow> bool" where
  "seen severed t v s \<longleftrightarrow> tiebreakerNode s = t \<and> view severed s = v"

named_theorems rb_keeps \<open>the view survives an operation\<close>

lemma rst_keeps [rb_keeps]: "quiet severed m \<Longrightarrow> keeps (seen severed t v) (rst m)"
  by (rule keepsI) (simp add: quiet_def rst_def seen_def view_def case_prod_beta)

lemma forEachE_quiet: "(\<And>x. quiet severed (f x)) \<Longrightarrow> quiet severed (forEachE f xs)"
proof -
  assume "\<And>x. quiet severed (f x)"
  then have "keeps (\<lambda>w. severed w = l) (forEachE f xs)" for l by (intro keeps_forEachE) (simp add: quiet_def keeps_def)
  then show ?thesis unfolding quiet_def keeps_def by blast
qed

lemma commandWorkedOn_keeps [rb_keeps]: "quiet severed m \<Longrightarrow> keeps (seen severed t v) (commandWorkedOn env m)"
  unfolding commandWorkedOn_def by (intro keeps_rules rb_keeps) auto

lemma getRBID_keeps [rb_keeps]: "others_quiet env severed \<Longrightarrow> keeps (seen severed t v) (getRBID env n)"
  unfolding getRBID_def others_quiet_def by (intro keeps_rules rb_keeps) auto

lemma awaitRBID_keeps [rb_keeps]: "others_quiet env severed \<Longrightarrow> keeps (seen severed t v) (awaitRBID env n expected rbid k)"
proof (induction k arbitrary: rbid)
  case 0
  then show ?case by (subst awaitRBID.simps) (auto intro!: keeps_rules getRBID_keeps)
next
  case (Suc k)
  then show ?case by (subst awaitRBID.simps) (auto intro!: keeps_rules getRBID_keeps)
qed

lemma checkDataConsistency_keeps [rb_keeps]: "others_quiet env severed \<Longrightarrow> keeps (seen severed t v) (checkDataConsistency env b)"
  unfolding checkDataConsistency_def others_quiet_def
  by (auto intro!: keeps_rules rst_keeps forEachE_quiet)

text \<open>Runs that return.\<close>

lemma keeps_run: "m s = (Val x, s') \<Longrightarrow> keeps (seen severed t v) m \<Longrightarrow> seen severed t v s \<Longrightarrow> seen severed t v s'"
  using keepsD [of "seen severed t v" m s] by simp

interpretation rollback: staged_fixture curState "\<lambda>st s. s\<lparr>curState := st\<rparr>" AcceptableTransitions transitionIfAllowed
  by unfold_locales (simp_all add: transitionIfAllowed_def js_simps)

lemma disconnect_Val:
  "bridges env severed \<Longrightarrow> rst (bridgeDisconnect env a bs) s = (Val u, s') \<Longrightarrow> seen severed t (st, p, q, C) s \<Longrightarrow>
   seen severed t (st, p, q, C \<union> bothWays a bs) s'"
  by (auto simp: bridges_def rst_def seen_def view_def split: prod.splits)

lemma reconnect_Val:
  "bridges env severed \<Longrightarrow> rst (bridgeReconnect env a bs) s = (Val u, s') \<Longrightarrow> seen severed t (st, p, q, C) s \<Longrightarrow>
   seen severed t (st, p, q, C - bothWays a bs) s'"
  by (auto simp: bridges_def rst_def seen_def view_def split: prod.splits)

lemma transition_seen:
  "transitionIfAllowed st' s = (Val u, s') \<Longrightarrow> seen severed t (st, p, q, C) s \<Longrightarrow>
   st' \<in> set (AcceptableTransitions st) \<and> seen severed t (st', p, q, C) s'"
  by (auto simp: rollback.transition_Val seen_def view_def)

lemma quiet_ops:
  assumes "others_quiet env severed"
  shows "quiet severed (adminCommand env n c)" "quiet severed (insertDoc env n db d)"
    "quiet severed (stopServerReplication env n)" "quiet severed (restartServerReplication env n)"
    "quiet severed (waitForState env n st)" "quiet severed (awaitSecondaryNodes env)"
    "quiet severed (awaitReplication env ns)" "quiet severed (awaitStepUp env n)"
    "quiet severed (rstGetPrimary env)" "quiet severed (rstGetSecondary env)" "quiet severed (stopSet env)"
    "quiet severed (stopNode env i sig opts)" "quiet severed (startNode env i opts)" "quiet severed (freezeNode env i)"
  using assms by (simp_all add: others_quiet_def)

lemma rst_run:
  "rst m s = (Val x, s') \<Longrightarrow> quiet severed m \<Longrightarrow> seen severed t v s \<Longrightarrow> seen severed t v s'"
  by (erule keeps_run [OF _ rst_keeps])

lemma to_rollback_refines:
  assumes "transitionToRollbackOperations env s = (Val x, s')" and "seen severed t (st, p, q, C) s"
    and "bridges env severed" and "others_quiet env severed"
  shows "\<exists>v. seen severed t v s' \<and> rb_step t (st, p, q, C) v"
proof -
  note quiet = quiet_ops [OF assms(4)]
  have nodes: "curPrimary s = p" "curSecondary s = q" "tiebreakerNode s = t" using assms(2) by (auto simp: seen_def view_def)
  from assms(1) obtain s1 s2 s3 s4 where
    1: "rst (awaitSecondaryNodes env) s = (Val (), s1)" and 2: "rst (awaitReplication env (Some [q])) s1 = (Val (), s2)" and
    3: "transitionIfAllowed kRollbackOps s2 = (Val (), s3)" and 4: "rst (bridgeDisconnect env q [t]) s3 = (Val (), s4)" and
    5: "rst (bridgeDisconnect env p [q]) s4 = (Val (), s')"
    by (auto simp: transitionToRollbackOperations_def run_Val js_simps nodes)
  have "seen severed t (st, p, q, C) s2" by (rule rst_run [OF 2 quiet(7) rst_run [OF 1 quiet(6) assms(2)]])
  from transition_seen [OF 3 this] have st: "st = kSteadyStateOps" and seen: "seen severed t (kRollbackOps, p, q, C) s3"
    by (cases st; auto)+
  from disconnect_Val [OF assms(3) 5 disconnect_Val [OF assms(3) 4 seen]] show ?thesis
    unfolding st using to_rollback by blast
qed

lemma to_during_refines:
  assumes "transitionToSyncSourceOperationsDuringRollback env s = (Val x, s')" and "seen severed t (st, p, q, C) s"
    and "bridges env severed" and "others_quiet env severed"
  shows "\<exists>v. seen severed t v s' \<and> rb_step t (st, p, q, C) v"
proof -
  note quiet = quiet_ops [OF assms(4)]
  have nodes: "curPrimary s = p" "curSecondary s = q" using assms(2) by (auto simp: seen_def view_def)
  from assms(1) obtain s1 s2 s3 res where
    1: "transitionIfAllowed kSyncSourceOpsDuringRollback s = (Val (), s1)" and
    2: "rst (waitForState env q ''SECONDARY'') s1 = (Val (), s2)" and
    3: "commandWorkedOn env (adminCommand env q (JObj [(''replSetFreeze'', kForeverSecs env)])) s2 = (Val res, s3)" and
    4: "rst (bridgeReconnect env q [p]) s3 = (Val (), s')"
    by (auto simp: transitionToSyncSourceOperationsDuringRollback_def run_Val js_simps nodes)
  from transition_seen [OF 1 assms(2)] have st: "st = kSyncSourceOpsBeforeRollback"
    and seen: "seen severed t (kSyncSourceOpsDuringRollback, p, q, C) s1" by (cases st; auto)+
  have "seen severed t (kSyncSourceOpsDuringRollback, p, q, C) s3"
    by (rule keeps_run [OF 3 commandWorkedOn_keeps [OF quiet(1)] rst_run [OF 2 quiet(5) seen]])
  from reconnect_Val [OF assms(3) 4 this] show ?thesis unfolding st using to_during by blast
qed

lemma stop_refines:
  assumes "rbStop env b s = (Val x, s')" and "seen severed t (st, p, q, C) s" and "others_quiet env severed"
  shows "\<exists>v. seen severed t v s' \<and> rb_step t (st, p, q, C) v"
proof -
  note quiet = quiet_ops [OF assms(3)]
  from assms(1) obtain s1 s2 s3 s4 where
    1: "rst (restartServerReplication env (tiebreakerNode s)) s = (Val (), s1)" and
    2: "rst (awaitReplication env None) s1 = (Val (), s2)" and 3: "checkDataConsistency env b s2 = (Val (), s3)" and
    4: "transitionIfAllowed kStopped s3 = (Val (), s4)" and 5: "rst (stopSet env) s4 = (Val (), s')"
    by (auto simp: rbStop_def run_Val js_simps)
  have "seen severed t (st, p, q, C) s3"
    by (rule keeps_run [OF 3 checkDataConsistency_keeps [OF assms(3)] rst_run [OF 2 quiet(7) rst_run [OF 1 quiet(4) assms(2)]]])
  from transition_seen [OF 4 this] have st: "st = kSteadyStateOps" and seen: "seen severed t (kStopped, p, q, C) s4"
    by (cases st; auto)+
  from rst_run [OF 5 quiet(11) seen] show ?thesis unfolding st using to_stopped by blast
qed

lemma to_before_refines:
  assumes "transitionToSyncSourceOperationsBeforeRollback env s = (Val x, s')" and "seen severed t (st, p, q, C) s"
    and "bridges env severed" and "others_quiet env severed"
  shows "\<exists>v. seen severed t v s' \<and> rb_step t (st, p, q, C) v"
proof -
  note quiet = quiet_ops [OF assms(4)]
  let ?st = kSyncSourceOpsBeforeRollback
  let ?stepDown = "tryCatch (bindE (rst (adminCommand env p
      (JObj [(''replSetStepDown'', jnum 1), (''force'', JBool True)]))) (\<lambda>_. ret ())) (\<lambda>_. ret ())"
  have nodes: "curPrimary s = p" "curSecondary s = q" "tiebreakerNode s = t" using assms(2) by (auto simp: seen_def view_def)
  from assms(1) obtain s1 s2 s3 s4 s5 s6 s7 s8 s9 res rbid where
    1: "transitionIfAllowed ?st s = (Val (), s1)" and
    2: "commandWorkedOn env (insertDoc env p ''EnsureThereIsAtLeastOneOperationToRollback'' (JObj [])) s1 = (Val res, s2)" and
    3: "rst (bridgeDisconnect env p [t]) s2 = (Val (), s3)" and 4: "?stepDown s3 = (Val (), s4)" and
    5: "rst (waitForState env p ''SECONDARY'') s4 = (Val (), s5)" and
    6: "rst (bridgeReconnect env q [t]) s5 = (Val (), s6)" and 7: "rst (awaitStepUp env q) s6 = (Val (), s7)" and
    8: "rst (rstGetPrimary env) s7 = (Val q, s8)" and
    9: "getRBID env p (s8\<lparr>curSecondary := p, curPrimary := q\<rparr>) = (Val rbid, s9)" and s': "s' = s9\<lparr>lastRBID := rbid\<rparr>"
    by (auto simp: transitionToSyncSourceOperationsBeforeRollback_def bindE_Val seqE_Val nodes getE_def modE_def assertE_Val)
  from transition_seen [OF 1 assms(2)] have st: "st = kRollbackOps" and seen1: "seen severed t (?st, p, q, C) s1" by (cases st; auto)+
  have step: "keeps (seen severed t v) ?stepDown" for v by (intro keeps_rules rst_keeps quiet)
  have "seen severed t (?st, p, q, C \<union> bothWays p [t]) s3"
    by (rule disconnect_Val [OF assms(3) 3 keeps_run [OF 2 commandWorkedOn_keeps [OF quiet(2)] seen1]])
  from rst_run [OF 5 quiet(5) keeps_run [OF 4 step this]]
  have "seen severed t (?st, p, q, C \<union> bothWays p [t] - bothWays q [t]) s6" by (rule reconnect_Val [OF assms(3) 6])
  from rst_run [OF 8 quiet(9) rst_run [OF 7 quiet(8) this]]
  have "seen severed t (?st, q, p, C \<union> bothWays p [t] - bothWays q [t]) (s8\<lparr>curSecondary := p, curPrimary := q\<rparr>)"
    by (simp add: seen_def view_def)
  from keeps_run [OF 9 getRBID_keeps [OF assms(4)] this]
  have "seen severed t (?st, q, p, C \<union> bothWays p [t] - bothWays q [t]) s'" by (simp add: s' seen_def view_def)
  then show ?thesis unfolding st using to_before by blast
qed

lemma to_steady_refines:
  assumes "transitionToSteadyStateOperations env k b s = (Val x, s')" and "seen severed t (st, p, q, C) s"
    and "bridges env severed" and "others_quiet env severed"
  shows "\<exists>v. seen severed t v s' \<and> rb_step t (st, p, q, C) v"
proof -
  note quiet = quiet_ops [OF assms(4)]
  let ?await = "if \<not> rollbackShutdowns env then awaitRBID env q (num_add (lastRBID s) (Fin 1)) (Fin (- 1)) k else ret ()"
  let ?check = "if b then ret () else checkDataConsistency env False"
  have nodes: "curPrimary s = p" "curSecondary s = q" "tiebreakerNode s = t" using assms(2) by (auto simp: seen_def view_def)
  from assms(1) obtain s1 s2 s3 s4 s5 s6 s7 s8 res where
    1: "?await s = (Val (), s1)" and 2: "rst (bridgeReconnect env t [p, q]) s1 = (Val (), s2)" and
    3: "rst (restartServerReplication env t) s2 = (Val (), s3)" and 4: "rst (awaitSecondaryNodes env) s3 = (Val (), s4)" and
    5: "rst (awaitReplication env None) s4 = (Val (), s5)" and
    6: "commandWorkedOn env (adminCommand env q (JObj [(''replSetFreeze'', jnum 0)])) s5 = (Val res, s6)" and
    7: "transitionIfAllowed kSteadyStateOps s6 = (Val (), s7)" and 8: "?check s7 = (Val (), s8)" and
    9: "rst (stopServerReplication env t) s8 = (Val (), s')"
    by (auto simp: transitionToSteadyStateOperations_def bindE_Val seqE_Val nodes getE_def simp del: if_split)
  have await: "keeps (seen severed t v) ?await" and check: "keeps (seen severed t v) ?check" for v
    by (auto intro!: keeps_rules awaitRBID_keeps checkDataConsistency_keeps assms(4))
  have "seen severed t (st, p, q, C - bothWays t [p, q]) s2"
    by (rule reconnect_Val [OF assms(3) 2 keeps_run [OF 1 await assms(2)]])
  from keeps_run [OF 6 commandWorkedOn_keeps [OF quiet(1)]
      rst_run [OF 5 quiet(7) rst_run [OF 4 quiet(6) rst_run [OF 3 quiet(4) this]]]]
  have "seen severed t (st, p, q, C - bothWays t [p, q]) s6" .
  from transition_seen [OF 7 this] have st: "st = kSyncSourceOpsDuringRollback"
    and "seen severed t (kSteadyStateOps, p, q, C - bothWays t [p, q]) s7" by (cases st; auto)+
  from rst_run [OF 9 quiet(3) keeps_run [OF 8 check this(2)]] show ?thesis unfolding st using to_steady by blast
qed

lemma refreshRoles_refines:
  assumes "refreshRoles env s = (Val x, s')" and "seen severed t (st, p, q, C) s"
    and "others_quiet env severed"
  shows "\<exists>v. seen severed t v s' \<and> rb_restart (st, p, q, C) v"
proof -
  note quiet = quiet_ops [OF assms(3)]
  have nodes: "curState s = st" "curPrimary s = p" using assms(2) by (auto simp: seen_def view_def)
  from assms(1) obtain s1 s2 p' q' where
    1: "rst (rstGetPrimary env) s = (Val p', s1)" and 2: "rst (rstGetSecondary env) (s1\<lparr>curPrimary := p'\<rparr>) = (Val q', s2)" and
    ok: "st = kSteadyStateOps \<or> p' = p" "p' \<noteq> q'" and s': "s' = s2\<lparr>curSecondary := q'\<rparr>"
    by (auto simp: refreshRoles_def bindE_Val seqE_Val nodes getE_def modE_def assertE_def ret_def raise_def split: if_splits)
  have "seen severed t (st, p', q, C) (s1\<lparr>curPrimary := p'\<rparr>)"
    using rst_run [OF 1 quiet(9) assms(2)] by (simp add: seen_def view_def)
  from rst_run [OF 2 quiet(10) this] have "seen severed t (st, p', q', C) s'" by (simp add: s' seen_def view_def)
  then show ?thesis using restarted [OF ok(2,1)] by blast
qed

lemma restart_refines:
  assumes "restartNode env i sig opts code s = (Val x, s')" and "seen severed t (st, p, q, C) s"
    and "others_quiet env severed"
  shows "\<exists>v. seen severed t v s' \<and> (v = (st, p, q, C) \<or> rollbackShutdowns env \<and> rb_restart (st, p, q, C) v)"
proof (cases "\<not> rollbackShutdowns env \<or> i \<ge> kElectableNodes")
  case True
  with assms(1,2) show ?thesis
    unfolding restartNode_def seqE_Val by (auto simp: assertE_def ret_def raise_def split: if_splits)
next
  case False
  note quiet = quiet_ops [OF assms(3)]
  let ?freeze = "\<lambda>c. if c then rst (freezeNode env (nat i)) else ret ()"
  from False assms(1) obtain sig' o' s1 s2 s3 c where
    1: "rst (stopNode env (nat i) sig' o') s = (Val (), s1)" and 2: "rst (startNode env (nat i) opts) s1 = (Val (), s2)" and
    3: "?freeze c s2 = (Val (), s3)" and 4: "refreshRoles env s3 = (Val x, s')"
    by (cases "nat i \<ge> length (rstNodes env)")
      (auto simp: restartNode_def seqE_Val bindE_Val Let_def getE_def assertE_Val raise_def ret_Val simp del: if_split)
  have "keeps (seen severed t v) (?freeze c)" for v by (intro keeps_rules rst_keeps quiet)
  from keeps_run [OF 3 this rst_run [OF 2 quiet(13) rst_run [OF 1 quiet(12) assms(2)]]]
  have "seen severed t (st, p, q, C) s3" .
  from refreshRoles_refines [OF 4 this assms(3)] show ?thesis using False by blast
qed

section \<open>Sequences of calls\<close>

datatype call =
    ToRollback
  | ToBefore
  | ToDuring
  | ToSteady nat bool
  | Stop bool
  | Restart int int jsval jsval

fun runCall :: "'w rbEnv \<Rightarrow> call \<Rightarrow> ('w, unit) rbEff" where
  "runCall env ToRollback = bindE (transitionToRollbackOperations env) (\<lambda>_. ret ())"
| "runCall env ToBefore = bindE (transitionToSyncSourceOperationsBeforeRollback env) (\<lambda>_. ret ())"
| "runCall env ToDuring = bindE (transitionToSyncSourceOperationsDuringRollback env) (\<lambda>_. ret ())"
| "runCall env (ToSteady k b) = bindE (transitionToSteadyStateOperations env k b) (\<lambda>_. ret ())"
| "runCall env (Stop b) = rbStop env b"
| "runCall env (Restart i sig opts code) = restartNode env i sig opts code"

text \<open>A restart takes effect only if the test data allow shutdowns.\<close>

definition mayRestart :: "'w rbEnv \<Rightarrow> call list \<Rightarrow> bool" where
  "mayRestart env calls \<longleftrightarrow> rollbackShutdowns env \<and> list_ex (\<lambda>c. case c of Restart _ _ _ _ \<Rightarrow> True | _ \<Rightarrow> False) calls"

abbreviation rb_move :: "bool \<Rightarrow> node \<Rightarrow> view \<Rightarrow> view \<Rightarrow> bool" where
  "rb_move restarts t v v' \<equiv> rb_step t v v' \<or> restarts \<and> rb_restart v v'"

lemma runCall_refines:
  assumes "runCall env c s = (Val u, s')" and "seen severed t v s" and "bridges env severed" and "others_quiet env severed"
  shows "\<exists>v'. seen severed t v' s' \<and> (rb_move (mayRestart env [c]) t)\<^sup>*\<^sup>* v v'"
proof -
  obtain st p q C where v: "v = (st, p, q, C)" by (cases v)
  have "\<exists>v'. seen severed t v' s' \<and> (v' = v \<or> rb_move (mayRestart env [c]) t v v')"
  proof (cases c)
    case (Restart i sig opts code)
    with assms(1) restart_refines [OF _ assms(2) [unfolded v] assms(4)] show ?thesis unfolding v by (fastforce simp: mayRestart_def)
  qed (use assms(1) to_rollback_refines [OF _ assms(2) [unfolded v] assms(3,4)] to_before_refines [OF _ assms(2) [unfolded v] assms(3,4)]
      to_during_refines [OF _ assms(2) [unfolded v] assms(3,4)] to_steady_refines [OF _ assms(2) [unfolded v] assms(3,4)]
      stop_refines [OF _ assms(2) [unfolded v] assms(4)] v in \<open>fastforce simp: bindE_Val ret_def\<close>)+
  then show ?thesis by (metis (no_types, lifting) r_into_rtranclp rtranclp.rtrancl_refl)
qed

lemma rb_move_mono: "(rb_move a t)\<^sup>*\<^sup>* v v' \<Longrightarrow> (a \<Longrightarrow> b) \<Longrightarrow> (rb_move b t)\<^sup>*\<^sup>* v v'"
  by (erule rtranclp_mono [THEN predicate2D, rotated]) blast

lemma runCalls_refine:
  assumes "forEachE (runCall env) calls s = (Val (), s')" and "seen severed t v s" and "bridges env severed" and "others_quiet env severed"
  shows "\<exists>v'. seen severed t v' s' \<and> (rb_move (mayRestart env calls) t)\<^sup>*\<^sup>* v v'"
  using assms(1,2)
proof (induction calls arbitrary: s v)
  case Nil
  then have "s' = s" by (simp add: ret_def)
  with Nil.prems(2) show ?case by (metis (no_types, lifting) rtranclp.rtrancl_refl)
next
  case (Cons c calls)
  from Cons.prems(1) obtain s1 where "runCall env c s = (Val (), s1)" and rest: "forEachE (runCall env) calls s1 = (Val (), s')"
    by (auto simp: seqE_Val)
  from runCall_refines [OF this(1) Cons.prems(2) assms(3,4)]
  obtain v1 where v1: "seen severed t v1 s1" "(rb_move (mayRestart env [c]) t)\<^sup>*\<^sup>* v v1" by blast
  from Cons.IH [OF rest v1(1)] obtain v' where v': "seen severed t v' s'" "(rb_move (mayRestart env calls) t)\<^sup>*\<^sup>* v1 v'" by blast
  have "(rb_move (mayRestart env (c # calls)) t)\<^sup>*\<^sup>* v v1" by (rule rb_move_mono [OF v1(2)]) (auto simp: mayRestart_def)
  moreover have "(rb_move (mayRestart env (c # calls)) t)\<^sup>*\<^sup>* v1 v'" by (rule rb_move_mono [OF v'(2)]) (auto simp: mayRestart_def)
  ultimately show ?case using v'(1) by (metis (no_types, lifting) rtranclp_trans)
qed

text \<open>
  C17. The rollback fixture refines its abstract machine: a sequence of method calls that all return moves the
  stage, the roles and the cut links as the abstract machine may.  As long as no node is restarted (which happens only if the test
  data allow shutdowns, and then takes the roles from the replica set), the three nodes keep distinct
  roles and in every stage exactly the links of that stage are cut: none in the steady state, those of the secondary in the two stages before the
  rollback, and only the one between the secondary and the tiebreaker while it rolls back.  Relied on is that the bridges cut and restore links
  and nothing else does, and that the fixture starts with distinct roles and the links of its stage.\<close>

theorem rollback_stages:
  assumes "forEachE (runCall env) calls s = (Val (), s')" and "seen severed t v s" and "view_ok t (set (rstNodes env)) v"
    and "bridges env severed" and "others_quiet env severed"
  shows "(rb_move (mayRestart env calls) t)\<^sup>*\<^sup>* (view severed s) (view severed s') \<and>
    (\<not> mayRestart env calls \<longrightarrow>
      distinct [curPrimary s', curSecondary s', tiebreakerNode s'] \<and>
      severed (rbWorld s') = cutLinks (curState s') (curPrimary s') (curSecondary s') (tiebreakerNode s'))"
proof -
  from runCalls_refine [OF assms(1,2,4,5)]
  obtain v' where v': "seen severed t v' s'" and moves: "(rb_move (mayRestart env calls) t)\<^sup>*\<^sup>* v v'" by blast
  have "view_ok t (set (rstNodes env)) v'" if "\<not> mayRestart env calls"
    using moves that view_ok_reachable [OF _ assms(3)] by simp
  with v' moves assms(2) show ?thesis by (auto simp: seen_def view_def view_ok_def)
qed

text \<open>
  A replica set whose world is the set of cut links and the rollback id: every node answers, the second node is
  elected, and a reconnection adds one to the rollback id.
\<close>

type_synonym demoWorld = "(node \<times> node) set \<times> jsnum"

definition demoEnv :: "demoWorld rbEnv" where
  "demoEnv = \<lparr>rbShell = exampleShell, rollbackShutdowns = False, allowUncleanShutdowns = False,
     bridgeDisconnect = (\<lambda>a bs. modE (\<lambda>(C, i). (C \<union> bothWays a bs, i))),
     bridgeReconnect = (\<lambda>a bs. modE (\<lambda>(C, i). (C - bothWays a bs, num_add i (Fin 1)))),
     adminCommand = (\<lambda>_ _. bindE (getE snd) (\<lambda>i. ret (JObj [(''ok'', jnum 1), (''rbid'', JNum i)]))),
     insertDoc = (\<lambda>_ _ _. ret (JObj [(''ok'', jnum 1)])),
     stopServerReplication = (\<lambda>_. ret ()), restartServerReplication = (\<lambda>_. ret ()), waitForState = (\<lambda>_ _. ret ()),
     awaitSecondaryNodes = ret (), awaitReplication = (\<lambda>_. ret ()), awaitStepUp = (\<lambda>_. ret ()),
     rstGetPrimary = ret ''b'', rstGetSecondary = ret ''a'', rstNodes = [''a'', ''b'', ''c''], waitForDrops = (\<lambda>_. ret ()),
     checkCollectionCounts = ret (), checkOplogs = ret (), checkReplicatedDataHashes = ret (), validateNodes = ret (), stopSet = ret (),
     stopNode = (\<lambda>_ _ _. ret ()), startNode = (\<lambda>_ _. ret ()), freezeNode = (\<lambda>_. ret ()), kForeverSecs = jnum 86400,
     exitSigkill = jnum 9\<rparr>"

definition demoStart :: "demoWorld rbt" where
  "demoStart = \<lparr>curState = kSteadyStateOps, curPrimary = ''a'', curSecondary = ''b'', tiebreakerNode = ''c'',
     lastRBID = Fin 0, rbWorld = ({}, Fin 0)\<rparr>"

definition demoCalls :: "call list" where
  "demoCalls = [ToRollback, ToBefore, ToDuring, ToSteady 0 False, ToRollback]"

lemma demo_spec:
  "bridges demoEnv fst" "others_quiet demoEnv fst"
  "seen fst ''c'' (kSteadyStateOps, ''a'', ''b'', {}) demoStart"
  "view_ok ''c'' (set (rstNodes demoEnv)) (kSteadyStateOps, ''a'', ''b'', {})"
  by (auto simp: bridges_def others_quiet_def quiet_def seen_def view_def view_ok_def demoEnv_def demoStart_def
      js_simps split: prod.splits)

theorem rollback_stages_witness:
  "fst (forEachE (runCall demoEnv) demoCalls demoStart) = Val () \<and> \<not> mayRestart demoEnv demoCalls \<and>
   (rb_step ''c'')\<^sup>*\<^sup>* (view fst demoStart) (view fst (snd (forEachE (runCall demoEnv) demoCalls demoStart)))"
proof -
  let ?run = "forEachE (runCall demoEnv) demoCalls demoStart"
  have "fst ?run = Val ()" "\<not> mayRestart demoEnv demoCalls" by code_simp+
  moreover from this have "?run = (Val (), snd ?run)" by (metis prod.collapse)
  from rollback_stages [OF this demo_spec(3,4,1,2)] calculation(2)
  have "(rb_step ''c'')\<^sup>*\<^sup>* (view fst demoStart) (view fst (snd ?run))" by simp
  ultimately show ?thesis by blast
qed

text \<open>
  The set-up accepts a set whose second node has priority zero and is the tiebreaker.  If the replica set names that node as its
  secondary after a restart, the restart returns with the tiebreaker as the secondary of the test.
\<close>

definition shutdownEnv :: "demoWorld rbEnv" where
  "shutdownEnv = demoEnv\<lparr>rollbackShutdowns := True, rstGetPrimary := ret ''a'', rstGetSecondary := ret ''b''\<rparr>"

definition tiebreakerSecond :: "demoWorld rbt" where
  "tiebreakerSecond = demoStart\<lparr>curPrimary := ''a'', curSecondary := ''c'', tiebreakerNode := ''b''\<rparr>"

theorem restart_takes_tiebreaker:
  "case restartNode shutdownEnv 0 15 Undef Undef tiebreakerSecond of
     (r, s') \<Rightarrow> r = Val () \<and> curSecondary s' = tiebreakerNode s'"
  by code_simp

end
