(* ===== verification/Txn_Override.thy ===== *)
theory Txn_Override
  imports Override_Helpers
begin

text \<open>
  The override that wraps consecutive operations of a test in transactions and retries commands and
  transactions on network errors, \<open>override_methods/network_error_and_txn_override.js\<close>, and the
  installation of an override (\<open>overrideRunCommand\<close> of \<open>override_helpers.js\<close>).

  The variables of the file are the record \<open>ovr\<close>; what a command meets outside the file is the record
  \<open>oenv\<close>: the original \<open>runCommand\<close> of the connection, what \<open>DB.runCommand\<close> of the shell adds to a
  command before it calls the overridden one, the session, the clock and the test's settings.
  A command is passed by value and its changes are returned, since the shell's session layer copies a
  command before it reaches the override.  A command run by the override enters it again from the top,
  and the retry loop may go round for as long as the server answers with retryable errors: both use fuel.
  The transaction number and statement id are integers; the set of cursors is the list of their ids.
\<close>

section \<open>State and environment\<close>

record 's oenv =
  ovShell :: shell
  testData :: jsval
  jsTestOptions :: jsval
  clientFunction :: "string \<Rightarrow> jsval \<Rightarrow> ('s, jsval) eff"
  sessionFields :: "string \<Rightarrow> jsval \<Rightarrow> jsval"      \<comment> \<open>what \<open>DB.runCommand\<close> makes of a command\<close>
  getSessionId :: "string \<Rightarrow> jsval"
  getOperationTime :: "string \<Rightarrow> 's \<Rightarrow> jsval"
  dateNow :: "'s \<Rightarrow> int"
  newNumberInt :: "jsnum \<Rightarrow> int"                   \<comment> \<open>the shell's \<open>new NumberInt(x)\<close>\<close>

record 's ovr =
  inCommandNetworkErrorRetry :: bool
  currentCommandID :: "nat list"
  newestCommandID :: nat
  nestingLevel :: int
  stmtId :: int
  txnNumber :: int
  ops :: "(string \<times> jsval) list"
  nonTxnAggCursorSet :: "jsval list"
  server :: 's

type_synonym ('s, 'a) oeff = "('s ovr, 'a) eff"

text \<open>\<open>conn.getDB(dbName).runCommand(cmd)\<close>, which enters the override again.\<close>

type_synonym 's rerun = "string \<Rightarrow> jsval \<Rightarrow> ('s, jsval) oeff"

definition initialOvr :: "'s \<Rightarrow> 's ovr" where
  "initialOvr sv = \<lparr>inCommandNetworkErrorRetry = False, currentCommandID = [], newestCommandID = 0,
     nestingLevel = 0, stmtId = 0, txnNumber = -1, ops = [], nonTxnAggCursorSet = [], server = sv\<rparr>"

definition configuredForNetworkRetry :: "'s oenv \<Rightarrow> bool" where
  "configuredForNetworkRetry env \<longleftrightarrow>
     truthy (fld (fld (testData env) ''networkErrorAndTxnOverrideConfig'') ''retryOnNetworkErrors'') \<and>
     \<not> truthy (fld (jsTestOptions env) ''skipRetryOnNetworkError'')"

definition configuredForTxnOverride :: "'s oenv \<Rightarrow> bool" where
  "configuredForTxnOverride env \<longleftrightarrow>
     truthy (fld (fld (testData env) ''networkErrorAndTxnOverrideConfig'') ''wrapCRUDinTransactions'')"

section \<open>Classification of commands and responses\<close>

definition kNonRetryableCommands :: "string list" where
  "kNonRetryableCommands = [''_configsvrAddShard'', ''_configsvrAddShardToZone'', ''_configsvrCommitChunkMerge'',
     ''_configsvrCommitChunkMigration'', ''_configsvrCommitChunkSplit'',
     ''_configsvrCreateDatabase'', ''_configsvrEnableSharding'', ''_configsvrMoveChunk'',
     ''_configsvrMovePrimary'', ''_configsvrRemoveShard'',
     ''_configsvrRemoveShardFromZone'', ''_configsvrShardCollection'',
     ''_configsvrUpdateZoneKeyRange'', ''_mergeAuthzCollections'', ''_recvChunkStart'',
     ''appendOplogNote'', ''applyOps'', ''captrunc'', ''clone'',
     ''cloneCollectionAsCapped'', ''collMod'', ''convertToCapped'', ''create'',
     ''createIndexes'', ''createRole'', ''createUser'', ''deleteIndexes'', ''drop'',
     ''dropAllRolesFromDatabase'', ''dropAllUsersFromDatabase'', ''dropDatabase'',
     ''dropIndexes'', ''dropRole'', ''dropUser'', ''emptycapped'', ''godinsert'',
     ''grantPrivilegesToRole'', ''grantRolesToRole'', ''grantRolesToUser'',
     ''mapreduce.shardedfinish'', ''moveChunk'', ''renameCollection'',
     ''revokePrivilegesFromRole'', ''revokeRolesFromRole'', ''revokeRolesFromUser'',
     ''updateRole'', ''updateUser'']"

definition kAcceptableNonRetryableCommands :: "string list" where
  "kAcceptableNonRetryableCommands = [''create'', ''createIndexes'', ''deleteIndexes'', ''drop'', ''dropDatabase'',
     ''dropIndexes'']"

definition kCmdsThatInsert :: "string list" where
  "kCmdsThatInsert = [''insert'', ''update'', ''findAndModify'', ''findandmodify'']"

definition kNonFailoverTolerantCommands :: "string list" where
  "kNonFailoverTolerantCommands = [''currentOp'', ''getLog'', ''killOp'', ''logRotate'', ''planCacheClear'',
     ''planCacheClearFilters'', ''planCacheListFilters'', ''planCacheListPlans'',
     ''planCacheListQueryShapes'', ''planCacheSetFilter'', ''profile'', ''setParameter'',
     ''stageDebug'', ''startSession'']"

definition isAcceptableRetryFailedResponse :: "shell \<Rightarrow> string \<Rightarrow> jsval \<Rightarrow> bool result" where
  "isAcceptableRetryFailedResponse sh cmdName res =
     require (\<not> truthy (fld res ''ok'')) ''!res.ok''
     (let code = fld res ''code'' in Inr
       (cmdName = ''create'' \<and> strict_eq code (errorCode sh ''NamespaceExists'') \<or>
        cmdName = ''createIndexes'' \<and> strict_eq code (errorCode sh ''IndexAlreadyExists'') \<or>
        cmdName = ''drop'' \<and> strict_eq code (errorCode sh ''NamespaceNotFound'') \<or>
        (cmdName = ''dropIndexes'' \<or> cmdName = ''deleteIndexes'') \<and>
          strict_eq code (errorCode sh ''IndexNotFound'')))"

definition isCommitOrAbort :: "string \<Rightarrow> bool" where
  "isCommitOrAbort cmdName \<longleftrightarrow> cmdName = ''commitTransaction'' \<or> cmdName = ''abortTransaction''"

definition isCmdInTransaction :: "jsval \<Rightarrow> bool" where
  "isCmdInTransaction cmdObj \<longleftrightarrow> has_own cmdObj ''autocommit''"

definition canRetryNetworkErrorForCommand :: "'s oenv \<Rightarrow> string \<Rightarrow> jsval \<Rightarrow> bool" where
  "canRetryNetworkErrorForCommand env cmdName cmdObj =
     (if \<not> configuredForNetworkRetry env then False
      else if isCmdInTransaction cmdObj then isCommitOrAbort cmdName
      else True)"

definition isRetryableExecutorCodeAndMessage :: "shell \<Rightarrow> jsval \<Rightarrow> jsval \<Rightarrow> bool result" where
  "isRetryableExecutorCodeAndMessage sh code msg =
     (if strict_eq code (errorCode sh ''OperationFailed'') \<and> typeof msg \<noteq> ''undefined''
      then contains_str msg ''InterruptedDueToReplStateChange'' else Inr False)"

definition isRetryableShardCollectionResponse :: "shell \<Rightarrow> jsval \<Rightarrow> bool result" where
  "isRetryableShardCollectionResponse sh res =
     rbind (errmsgContainsRetryableCodeName sh (fld res ''errmsg'')) (\<lambda>contained.
       Inr (contained \<or> strict_eq (fld res ''code'') (errorCode sh ''CallbackCanceled'')))"

definition hasError :: "jsval \<Rightarrow> bool" where
  "hasError res \<longleftrightarrow> \<not> strict_eq (fld res ''ok'') (jnum 1) \<or> truthy (fld res ''writeErrors'')"

definition hasWriteConcernError :: "jsval \<Rightarrow> bool" where
  "hasWriteConcernError res \<longleftrightarrow> has_own res ''writeConcernError''"

definition maxOpsInTransaction :: nat where "maxOpsInTransaction = 10"

definition kMaxNumRetries :: int where "kMaxNumRetries = 3"

section \<open>Nesting and logging\<close>

definition isNested :: "('s, bool) oeff" where
  "isNested = bindE (getE nestingLevel) (\<lambda>n. seqE (assertE (n > 0) ''nestingLevel > 0'') (ret (n \<noteq> 1)))"

definition clearOpsList :: "('s, unit) oeff" where
  "clearOpsList = modE (\<lambda>s. s\<lparr>ops := []\<rparr>)"

text \<open>What a log call checks: the messages themselves are not represented.\<close>

definition logMsgFull :: "('s, unit) oeff" where
  "logMsgFull = bindE (getE (\<lambda>s. nestingLevel s = int (length (currentCommandID s))))
     (\<lambda>ok. assertE ok ''nestingLevel === currentCommandID.length'')"

definition logErrorFull :: "'s ovr \<Rightarrow> unit result" where
  "logErrorFull s = require (nestingLevel s = int (length (currentCommandID s)))
     ''nestingLevel === currentCommandID.length'' (Inr ())"

section \<open>Validation\<close>

definition refuse :: "string \<Rightarrow> unit result" where
  "refuse why = Inl (Err (''Refusing to run a test that issues '' @ why))"

definition validateCmd :: "'s oenv \<Rightarrow> string \<Rightarrow> jsval \<Rightarrow> unit result" where
  "validateCmd env cmdName cmdObj =
     (if isRetryableWriteCmdName cmdName \<and> \<not> canRetryWrites (ovShell env) cmdObj
      then refuse ''non-retryable write operations''
      else if cmdName = ''getMore'' then refuse ''a getMore command''
      else if cmdName \<in> set kNonRetryableCommands \<and> cmdName \<notin> set kAcceptableNonRetryableCommands
      then refuse ''commands that are not blindly retryable''
      else if cmdName \<in> set kNonFailoverTolerantCommands
      then refuse ''commands that may return different values after a failover''
      else if cmdName = ''aggregate'' then
        (let stages = arr_elems (fld cmdObj ''pipeline'') in
         if stages \<noteq> [] \<and> is_object (hd stages) \<and> has_own (hd stages) ''$listLocalSessions''
         then refuse ''an aggregation command with $listLocalSessions''
         else if stages \<noteq> [] \<and> is_object (last stages) \<and> has_own (last stages) ''$out''
         then refuse ''an aggregation command with $out''
         else if has_own cmdObj ''explain'' then refuse ''an aggregation command with explain''
         else Inr ())
      else if cmdName = ''mapReduce'' \<or> cmdName = ''mapreduce'' then refuse ''a mapReduce command''
      else Inr ())"

definition validateCmdNetworkErrorCompatibility :: "'s oenv \<Rightarrow> string \<Rightarrow> jsval \<Rightarrow> ('s, unit) oeff" where
  "validateCmdNetworkErrorCompatibility env cmdName cmdObj =
     bindE (getE inCommandNetworkErrorRetry) (\<lambda>retrying.
     seqE (assertE (\<not> retrying) ''!inCommandNetworkErrorRetry'')
    (bindE isNested (\<lambda>nested.
     seqE (assertE (\<not> nested) ''!isNested()'')
     (liftE (validateCmd env cmdName cmdObj)))))"

section \<open>Read and write concerns\<close>

definition kDefaultTransactionReadConcernLevel :: "'s oenv \<Rightarrow> jsval" where
  "kDefaultTransactionReadConcernLevel env =
     (if has_own (testData env) ''defaultTransactionReadConcernLevel''
      then fld (testData env) ''defaultTransactionReadConcernLevel''
      else if fld (testData env) ''enableMajorityReadConcern'' \<noteq> JBool False then JStr ''snapshot''
      else JStr ''local'')"

definition kDefaultTransactionWriteConcernW :: "'s oenv \<Rightarrow> jsval" where
  "kDefaultTransactionWriteConcernW env =
     (if has_own (testData env) ''defaultTransactionWriteConcernW''
      then fld (testData env) ''defaultTransactionWriteConcernW'' else JStr ''majority'')"

definition kDefaultReadConcernLevel :: "'s oenv \<Rightarrow> jsval" where
  "kDefaultReadConcernLevel env =
     (if has_own (testData env) ''defaultReadConcernLevel''
      then fld (testData env) ''defaultReadConcernLevel''
      else if fld (testData env) ''enableMajorityReadConcern'' \<noteq> JBool False then JStr ''majority''
      else JStr ''local'')"

definition kDefaultWriteConcernW :: "'s oenv \<Rightarrow> jsval" where
  "kDefaultWriteConcernW env =
     (if has_own (testData env) ''defaultWriteConcernW''
      then fld (testData env) ''defaultWriteConcernW'' else JStr ''majority'')"

definition kDefaultWtimeout :: jsval where "kDefaultWtimeout = jnum (5 * 60 * 1000 + 567)"

text \<open>Whether a read concern and a write concern are forced, from the command alone.\<close>

definition forcedConcerns :: "string \<Rightarrow> jsval \<Rightarrow> (bool \<times> bool) result" where
  "forcedConcerns cmdName cmdObj =
     (let r = cmdName \<in> set kCommandsSupportingReadConcern;
          w = cmdName \<in> set kCommandsSupportingWriteConcern in
      if isCmdInTransaction cmdObj
      then Inr (fld cmdObj ''startTransaction'' = JBool True,
                w \<and> cmdName \<in> set kCommandsSupportingWriteConcernInTransaction)
      else if cmdName = ''aggregate'' then
        (let r1 = (r \<and> \<not> isAggregationWithListLocalSessionsStage cmdName cmdObj \<and>
                   \<not> isAggregationWithChangeStreamStage cmdName cmdObj);
             (r2, w2) = (if isAggregationWithOutOrMergeStage cmdName cmdObj then (False, w) else (r1, False)) in
         Inr (r2 \<and> \<not> truthy (fld cmdObj ''explain''), w2))
      else rbind (isMapReduceWithInlineOutput cmdName cmdObj) (\<lambda>inline. Inr (r, w \<and> \<not> inline)))"

definition appendReadConcern :: "'s oenv \<Rightarrow> jsval \<Rightarrow> jsval \<Rightarrow> jsval result" where
  "appendReadConcern env operationTime cmdObj =
     (let readConcernLevel =
            (if fld cmdObj ''startTransaction'' = JBool True
             then kDefaultTransactionReadConcernLevel env else kDefaultReadConcernLevel env);
          given = fld cmdObj ''readConcern'' in
      if has_own cmdObj ''readConcern'' \<and> (given = Undef \<or> given = Null)
      then Inl (TypeErr ''readConcern has no properties'')
      else if has_own cmdObj ''readConcern'' \<and> has_own given ''level'' \<and>
              \<not> strict_eq (fld given ''level'') readConcernLevel
      then Inl (Err ''refusing to override existing readConcern'')
      else let readConcern = JObj [(''level'', readConcernLevel)] in
        Inr (set_prop ''readConcern''
          (if has_own (testData env) ''sessionOptions'' \<and>
              fld (fld (testData env) ''sessionOptions'') ''causalConsistency'' = JBool True \<and>
              operationTime \<noteq> Undef
           then set_prop ''afterClusterTime'' operationTime readConcern else readConcern) cmdObj))"

definition appendWriteConcern :: "'s oenv \<Rightarrow> string \<Rightarrow> jsval \<Rightarrow> jsval result" where
  "appendWriteConcern env cmdName cmdObj =
     (let writeConcern = fld cmdObj ''writeConcern'' in
      if has_own cmdObj ''writeConcern'' \<and>
         (\<not> is_object writeConcern \<or>
          has_own writeConcern ''w'' \<and>
          bsonWoCompare (ovShell env) (JObj [(''_'', fld writeConcern ''w'')])
            (JObj [(''_'', kDefaultWriteConcernW env)]) \<noteq> 0)
      then Inl (Err ''Cowardly refusing to override write concern of command'')
      else Inr (set_prop ''writeConcern''
        (JObj [(''w'', if cmdName \<in> set kCommandsSupportingWriteConcernInTransaction
                       then kDefaultTransactionWriteConcernW env else kDefaultWriteConcernW env),
               (''wtimeout'', kDefaultWtimeout)]) cmdObj))"

definition appendReadAndWriteConcern :: "'s oenv \<Rightarrow> jsval \<Rightarrow> string \<Rightarrow> jsval \<Rightarrow> jsval result" where
  "appendReadAndWriteConcern env operationTime cmdName cmdObj =
     rbind (forcedConcerns cmdName cmdObj) (\<lambda>(shouldForceReadConcern, forceW).
     let majorityDrop = ((cmdName = ''drop'' \<or> cmdName = ''convertToCapped'') \<and>
           configuredForTxnOverride env \<and> \<not> configuredForNetworkRetry env);
         shouldForceWriteConcern = (forceW \<and> \<not> majorityDrop);
         cmdObj1 = (if majorityDrop
           then set_prop ''writeConcern'' (js_or (fld cmdObj ''writeConcern'')
                  (JObj [(''w'', JStr ''majority''), (''wtimeout'', kDefaultWtimeout)])) cmdObj
           else cmdObj) in
     rbind (if shouldForceReadConcern then appendReadConcern env operationTime cmdObj1 else Inr cmdObj1)
       (\<lambda>cmdObj2. if shouldForceWriteConcern then appendWriteConcern env cmdName cmdObj2 else Inr cmdObj2))"

section \<open>Transactions\<close>

definition txnCommand :: "string \<Rightarrow> jsval \<Rightarrow> int \<Rightarrow> jsval" where
  "txnCommand name lsid n =
     JObj [(name, jnum 1), (''autocommit'', JBool False), (''lsid'', lsid), (''txnNumber'', JLong n)]"

definition commitTransaction :: "'s oenv \<Rightarrow> 's rerun \<Rightarrow> jsval \<Rightarrow> int \<Rightarrow> ('s, unit) oeff" where
  "commitTransaction env rerun lsid n =
     seqE (assertE (configuredForTxnOverride env) ''configuredForTxnOverride()'')
    (seqE (assertE (n \<ge> 0) ''txnNumber >= 0'')
    (seqE logMsgFull
    (bindE (rerun ''admin'' (txnCommand ''commitTransaction'' lsid n)) (\<lambda>res.
     seqE (checkE (commandWorked (ovShell env) res))
     clearOpsList))))"

definition abortTransaction :: "'s oenv \<Rightarrow> 's rerun \<Rightarrow> jsval \<Rightarrow> int \<Rightarrow> ('s, unit) oeff" where
  "abortTransaction env rerun lsid n =
     seqE (assertE (configuredForTxnOverride env) ''configuredForTxnOverride()'')
    (seqE (assertE (n \<ge> 0) ''txnNumber >= 0'')
    (seqE logMsgFull
    (bindE (rerun ''admin'' (txnCommand ''abortTransaction'' lsid n)) (\<lambda>res.
       if isTransientTransactionError res then ret () else checkE (commandWorked (ovShell env) res)))))"

text \<open>The new transaction number; the caller marks its command with \<open>startTransaction\<close>.\<close>

definition startNewTransaction :: "('s, int) oeff" where
  "startNewTransaction =
     seqE (modE (\<lambda>s. s\<lparr>txnNumber := txnNumber s + 1, stmtId := 1\<rparr>)) (getE txnNumber)"

fun js_length :: "jsval \<Rightarrow> jsval result" where
  "js_length Undef = Inl (TypeErr ''undefined has no properties'')"
| "js_length Null = Inl (TypeErr ''null has no properties'')"
| "js_length (JArr xs) = Inr (jnum (int (length xs)))"
| "js_length (JStr cs) = Inr (jnum (int (length cs)))"
| "js_length (JFun _ n) = Inr (jnum (int n))"
| "js_length v = Inr (fld v ''length'')"

definition calculateStmtIdInc :: "string \<Rightarrow> jsval \<Rightarrow> jsval" where
  "calculateStmtIdInc cmdName cmdObj =
     (case (if cmdName = ''insert'' then js_length (fld cmdObj ''documents'')
            else if cmdName = ''update'' then js_length (fld cmdObj ''updates'')
            else if cmdName = ''delete'' then js_length (fld cmdObj ''deletes'')
            else Inr (jnum 1)) of
        Inl _ \<Rightarrow> jnum 1 | Inr n \<Rightarrow> n)"

definition opCopy :: "jsval \<Rightarrow> jsval" where
  "opCopy cmdObj = del_prop ''$clusterTime'' (del_prop ''txnNumber'' (deepCopyObject (JObj []) cmdObj))"

definition continueTransaction :: "'s oenv \<Rightarrow> string \<Rightarrow> string \<Rightarrow> jsval \<Rightarrow> ('s, jsval) oeff" where
  "continueTransaction env dbName cmdName cmdObj0 =
     bindE (getE (\<lambda>s. (txnNumber s, stmtId s))) (\<lambda>(n, i).
     let cmdObj = set_prop ''autocommit'' (JBool False)
                    (set_prop ''stmtId'' (JInt i) (set_prop ''txnNumber'' (JLong n) cmdObj0)) in
     seqE (modE (\<lambda>s. s\<lparr>stmtId := newNumberInt env
             (num_add (Fin (of_int i)) (to_number (calculateStmtIdInc cmdName cmdObj)))\<rparr>))
    (seqE (assertE (\<not> has_own cmdObj ''readConcern'') ''!cmdObj.hasOwnProperty('readConcern')'')
    (seqE (assertE (\<not> has_own cmdObj ''writeConcern'') ''!cmdObj.hasOwnProperty('writeConcern')'')
    (bindE isNested (\<lambda>nested.
     bindE (getE inCommandNetworkErrorRetry) (\<lambda>retrying.
     seqE (if \<not> nested \<and> \<not> retrying
           then modE (\<lambda>s. s\<lparr>ops := ops s @ [(dbName, opCopy cmdObj)]\<rparr>) else ret ())
     (ret cmdObj)))))))"

definition isCommandNonTxnGetMore :: "string \<Rightarrow> jsval \<Rightarrow> ('s, bool) oeff" where
  "isCommandNonTxnGetMore cmdName cmdObj =
     getE (\<lambda>s. cmdName = ''getMore'' \<and> fld cmdObj ''getMore'' \<in> set (nonTxnAggCursorSet s))"

definition markStart :: "jsval \<Rightarrow> jsval" where
  "markStart cmdObj = set_prop ''startTransaction'' (JBool True) cmdObj"

text \<open>The branch for a command that runs in a transaction: start one, or commit a full one first.\<close>

definition enterTransaction ::
  "'s oenv \<Rightarrow> 's rerun \<Rightarrow> string \<Rightarrow> jsval \<Rightarrow> jsval \<Rightarrow> ('s, jsval) oeff" where
  "enterTransaction env rerun cmdName cmdObj lsid =
     bindE isNested (\<lambda>nested.
     bindE (getE (\<lambda>s. length (ops s))) (\<lambda>n.
       if nested then ret cmdObj
       else if n = 0 then
         seqE (assertE (cmdName \<noteq> ''getMore'') ''cmdName !== getMore'')
         (bindE startNewTransaction (\<lambda>_. ret (markStart cmdObj)))
       else if cmdName = ''getMore'' then ret cmdObj
       else if n \<ge> maxOpsInTransaction then
         seqE logMsgFull
        (bindE (getE txnNumber) (\<lambda>t.
         seqE (commitTransaction env rerun lsid t)
         (bindE startNewTransaction (\<lambda>_. ret (markStart cmdObj)))))
       else ret cmdObj))"

definition setupTransactionCommand ::
  "'s oenv \<Rightarrow> 's rerun \<Rightarrow> string \<Rightarrow> string \<Rightarrow> jsval \<Rightarrow> jsval \<Rightarrow> ('s, jsval) oeff" where
  "setupTransactionCommand env rerun dbName cmdName cmdObj0 lsid =
    (let cmdObj = del_prop ''writeConcern'' (del_prop ''readConcern'' cmdObj0) in
     bindE (liftE (commandSupportsTxn dbName cmdName cmdObj)) (\<lambda>supports.
     bindE (isCommandNonTxnGetMore cmdName cmdObj) (\<lambda>nonTxnGetMore.
     bindE
       (if supports \<and> getSessionId env dbName \<noteq> Null \<and> \<not> nonTxnGetMore
        then bindE (enterTransaction env rerun cmdName cmdObj lsid)
               (\<lambda>c. continueTransaction env dbName cmdName c)
        else bindE (getE (\<lambda>s. length (ops s))) (\<lambda>n.
             bindE (if n > 0 then isNested else ret True) (\<lambda>nested.
               if \<not> nested
               then seqE logMsgFull
                   (bindE (getE txnNumber) (\<lambda>t.
                    seqE (commitTransaction env rerun lsid t) (ret cmdObj)))
               else ret cmdObj)))
       (\<lambda>c. bindE (getE (\<lambda>s. getOperationTime env dbName (server s))) (\<lambda>operationTime.
            liftE (appendReadAndWriteConcern env operationTime cmdName c))))))"

text \<open>The loop of \<open>retryEntireTransaction\<close> over the recorded operations.\<close>

fun retryOps :: "'s oenv \<Rightarrow> 's rerun \<Rightarrow> int \<Rightarrow> jsval \<Rightarrow> (string \<times> jsval) list \<Rightarrow> ('s, jsval) oeff" where
  "retryOps env rerun retriedTxnNumber res [] = ret res"
| "retryOps env rerun retriedTxnNumber res ((dbName, cmdObj) # rest) =
     seqE logMsgFull
    (bindE (rerun dbName cmdObj) (\<lambda>res.
       if hasError res \<or> hasWriteConcernError res then ret res
       else seqE (checkE (commandWorked (ovShell env) res))
           (bindE (getE txnNumber) (\<lambda>t.
              if t \<noteq> retriedTxnNumber then ret res
              else retryOps env rerun retriedTxnNumber res rest))))"

definition retryEntireTransaction :: "'s oenv \<Rightarrow> 's rerun \<Rightarrow> ('s, jsval) oeff" where
  "retryEntireTransaction env rerun =
     bindE (getE ops) (\<lambda>os.
     seqE (assertE (length os > 0) ''ops.length > 0'')
    (bindE startNewTransaction (\<lambda>retriedTxnNumber.
     seqE logMsgFull
     (retryOps env rerun retriedTxnNumber Undef os))))"

definition createCollectionExplicitly ::
  "'s oenv \<Rightarrow> 's rerun \<Rightarrow> string \<Rightarrow> jsval \<Rightarrow> jsval \<Rightarrow> ('s, unit) oeff" where
  "createCollectionExplicitly env rerun dbName collName lsid =
     seqE logMsgFull
    (bindE (rerun dbName (JObj [(''create'', collName), (''lsid'', lsid),
              (''writeConcern'', JObj [(''w'', JStr ''majority'')])])) (\<lambda>res.
     checkE (commandWorked (ovShell env) res)))"

text \<open>The retry of a whole transaction after a transient error, with the commit it does not contain.\<close>

definition retryTransient :: "'s oenv \<Rightarrow> 's rerun \<Rightarrow> string \<Rightarrow> jsval \<Rightarrow> ('s, jsval) oeff" where
  "retryTransient env rerun cmdName lsid =
     bindE (getE logErrorFull) (\<lambda>logError.
     seqE (liftE logError)
    (bindE (retryEntireTransaction env rerun) (\<lambda>res.
     seqE (if \<not> hasError res \<and> cmdName = ''commitTransaction''
           then bindE (getE txnNumber) (\<lambda>t. commitTransaction env rerun lsid t) else ret ())
     (ret res))))"

definition retryWithTxnOverride ::
  "'s oenv \<Rightarrow> 's rerun \<Rightarrow> jsval \<Rightarrow> string \<Rightarrow> string \<Rightarrow> jsval \<Rightarrow> jsval \<Rightarrow> ('s, jsval) oeff" where
  "retryWithTxnOverride env rerun res dbName cmdName cmdObj lsid =
    (let transient =
       (if isTransientTransactionError res \<and> cmdName \<noteq> ''abortTransaction''
        then retryTransient env rerun cmdName lsid else ret res) in
     seqE (assertE (configuredForTxnOverride env) ''configuredForTxnOverride()'')
     (if hasError res \<and> \<not> isCommitOrAbort cmdName \<and> isCmdInTransaction cmdObj
      then bindE (getE (\<lambda>s. (length (ops s), txnNumber s))) (\<lambda>(n, t).
           seqE (assertE (n > 0) ''ops.length > 0'')
          (seqE (abortTransaction env rerun lsid t)
           (if cmdName \<in> set kCmdsThatInsert \<and>
               includesErrorCode res (errorCode (ovShell env) ''OperationNotSupportedInTransaction'')
            then seqE (createCollectionExplicitly env rerun dbName (fld cmdObj cmdName) lsid)
                   (retryEntireTransaction env rerun)
            else if configuredForNetworkRetry env \<and> isRetryableCode (ovShell env) (fld res ''code'')
            then bindE (getE logErrorFull) (\<lambda>logError.
                   seqE (liftE logError) (retryEntireTransaction env rerun))
            else transient)))
      else transient))"

definition retryWithTxnOverrideException ::
  "'s oenv \<Rightarrow> 's rerun \<Rightarrow> exn \<Rightarrow> string \<Rightarrow> jsval \<Rightarrow> jsval \<Rightarrow> ('s, jsval) oeff" where
  "retryWithTxnOverrideException env rerun e cmdName cmdObj lsid =
     seqE (assertE (configuredForTxnOverride env) ''configuredForTxnOverride()'')
     (if isTransientTransactionError (exn_obj e) \<and> cmdName \<noteq> ''abortTransaction''
      then retryTransient env rerun cmdName lsid
      else if configuredForNetworkRetry env \<and> isNetworkError (ovShell env) e \<and>
              \<not> canRetryNetworkErrorForCommand env cmdName cmdObj
      then bindE (getE logErrorFull) (\<lambda>logError.
             seqE (liftE logError) (retryEntireTransaction env rerun))
      else ret Null)"

section \<open>Retries on network errors\<close>

text \<open>\<open>kContinue\<close>, or the response to return.\<close>

datatype decision = KContinue | Respond jsval

fun anyResult :: "('a \<Rightarrow> bool result) \<Rightarrow> 'a list \<Rightarrow> bool result" where
  "anyResult f [] = Inr False"
| "anyResult f (x # xs) = rbind (f x) (\<lambda>b. if b then Inr True else anyResult f xs)"

lemma anyResult_cong [fundef_cong]:
  "xs = ys \<Longrightarrow> (\<And>x. x \<in> set ys \<Longrightarrow> f x = g x) \<Longrightarrow> anyResult f xs = anyResult g ys"
  by (induction xs arbitrary: ys) (auto simp: rbind_def split: sum.split)

definition rawResponseHasRetryableError :: "(jsval \<Rightarrow> decision result) \<Rightarrow> jsval \<Rightarrow> bool result" where
  "rawResponseHasRetryableError decide rawRes =
     anyResult (\<lambda>shardRes. rbind (decide shardRes) (\<lambda>d. Inr (d = KContinue))) (map snd (props rawRes))"

lemma rawResponseHasRetryableError_cong [fundef_cong]:
  "raw = raw' \<Longrightarrow> (\<And>k v. (k, v) \<in> set (props raw') \<Longrightarrow> f v = g v) \<Longrightarrow>
   rawResponseHasRetryableError f raw = rawResponseHasRetryableError g raw'"
  unfolding rawResponseHasRetryableError_def by (rule anyResult_cong) auto

definition explainInterrupted :: "shell \<Rightarrow> jsval \<Rightarrow> bool result" where
  "explainInterrupted sh res =
     rbind
       (if has_own res ''executionStats'' then
          (let stats = fld res ''executionStats'' in
           if stats = Undef \<or> stats = Null then Inl (TypeErr ''executionStats has no properties'')
           else if truthy (fld stats ''executionSuccess'') then Inr False
           else if isRetryableCode sh (fld stats ''errorCode'') then Inr True
           else isRetryableExecutorCodeAndMessage sh (fld stats ''errorCode'') (fld stats ''errorMessage''))
        else Inr False)
       (\<lambda>interrupted. if interrupted then Inr True
          else if \<not> truthy (fld res ''ok'')
          then contains_str (fld res ''errmsg'') ''child command cannot run on this node''
          else Inr False)"

text \<open>The end of the function, for a response without an error of its own.\<close>

definition retryWriteConcernError :: "shell \<Rightarrow> unit result \<Rightarrow> jsval \<Rightarrow> decision result" where
  "retryWriteConcernError sh logError res =
     (if hasWriteConcernError res \<and> \<not> hasError res
      then rbind (get_prop (fld res ''writeConcernError'') ''code'') (\<lambda>code.
             if isRetryableCode sh code then rbind logError (\<lambda>_. Inr KContinue) else Inr (Respond res))
      else Inr (Respond res))"

definition orElse :: "bool result \<Rightarrow> 'a result \<Rightarrow> 'a result \<Rightarrow> 'a result" where
  "orElse c yes no = rbind c (\<lambda>b. if b then yes else no)"

lemma orElse_cong [fundef_cong]:
  "c = c' \<Longrightarrow> (c' = Inr True \<Longrightarrow> yes = yes') \<Longrightarrow> (c' = Inr False \<Longrightarrow> no = no') \<Longrightarrow>
   orElse c yes no = orElse c' yes' no'"
  by (cases c') (auto simp: orElse_def)

lemma size_raw: "has_own res k \<Longrightarrow> (k', v) \<in> set (props (fld res k)) \<Longrightarrow> typeof res \<noteq> ''string'' \<Longrightarrow> size v < size res"
  using size_props [OF has_own_props, of res k] size_props [of k' v "fld res k"] by auto

lemma has_own_string: "typeof res = ''string'' \<Longrightarrow> \<not> has_own res ''raw''"
proof -
  have digit: "digit_char d \<noteq> CHR ''w''" if "d < 10" for d
    using that by (simp add: digit_char_def char_of_eq_iff take_bit_eq_mod)
  have "last (show_nat n) = digit_char (n mod 10)" for n
    by (subst show_nat.simps) simp
  then have "''raw'' \<noteq> show_nat n" for n
    using digit [of "n mod 10"] by (metis last.simps list.distinct(1) mod_less_divisor zero_less_numeral)
  moreover have "\<exists>n. ''raw'' = show_nat n" if "has_own (JStr cs) ''raw''" for cs
    using that by (auto simp: has_own_def obj_keys_def dest!: set_zip_leftD)
  ultimately show "typeof res = ''string'' \<Longrightarrow> \<not> has_own res ''raw''"
    unfolding typeof_cases by blast
qed

function shouldRetryWithNetworkErrorOverride ::
  "'s oenv \<Rightarrow> unit result \<Rightarrow> string \<Rightarrow> bool \<Rightarrow> jsval \<Rightarrow> decision result" where
  "shouldRetryWithNetworkErrorOverride env logError cmdName shouldOverrideAcceptableError res =
    (let sh = ovShell env; again = rbind logError (\<lambda>_. Inr KContinue) in
     require (configuredForNetworkRetry env) ''configuredForNetworkRetry()''
     (if isRetryableWriteCmdName cmdName
      then orElse (if cmdName = ''findandmodify'' \<or> cmdName = ''findAndModify''
                   then isRetryableExecutorCodeAndMessage sh (fld res ''code'') (fld res ''errmsg'') else Inr False)
             again (Inr (Respond res))
      else if cmdName = ''commitTransaction'' \<and> hasWriteConcernError res then again
      else orElse (if cmdName = ''explain'' then explainInterrupted sh res else Inr False) again
     (if truthy (fld res ''ok'') then retryWriteConcernError sh logError res
      else if isRetryableCode sh (fld res ''code'') then again
      else orElse (isRetryableExecutorCodeAndMessage sh (fld res ''code'') (fld res ''errmsg'')) again
     (orElse (if (cmdName = ''listCollections'' \<or> cmdName = ''listIndexes'') \<and>
                 strict_eq (fld res ''code'') (errorCode sh ''OperationFailed'') \<and> has_own res ''errmsg''
              then contains_str (fld res ''errmsg'') ''failed to read command response from shard''
              else Inr False) again
     (orElse (if has_own res ''raw'' \<and> \<not> has_own res ''code''
              then rawResponseHasRetryableError
                     (\<lambda>shardRes. shouldRetryWithNetworkErrorOverride env logError cmdName False shardRes)
                     (fld res ''raw'')
              else Inr False) again
     (orElse (if cmdName = ''shardCollection'' then isRetryableShardCollectionResponse sh res else Inr False) again
     (orElse (if cmdName = ''drop'' then errmsgContainsRetryableCodeName sh (fld res ''errmsg'') else Inr False) again
     (orElse (if \<not> shouldOverrideAcceptableError then Inr False
              else isAcceptableRetryFailedResponse sh cmdName res)
        (rbind logError (\<lambda>_. retryWriteConcernError sh logError (set_prop ''ok'' (jnum 1) res)))
        (Inr (Respond res))))))))))"
  by pat_completeness auto

termination
  by (relation "measure (\<lambda>(_, _, _, _, res). size res)") (auto intro: size_raw dest: has_own_string)

declare shouldRetryWithNetworkErrorOverride.simps [simp del]

text \<open>\<open>/^Could not find host matching read preference.*mode: "primary"/\<close>\<close>

definition kReplicaSetMonitorError :: "string \<Rightarrow> bool" where
  "kReplicaSetMonitorError m \<longleftrightarrow>
     (let start = ''Could not find host matching read preference'' in
      starts_with start m \<and>
      index_of ''mode: \"primary\"'' (takeWhile (\<lambda>c. c \<noteq> CHR 0x0A) (drop (length start) m)) \<noteq> None)"

text \<open>Whether to subtract from the retries; an error that is not retried is thrown again.\<close>

definition shouldRetryWithNetworkExceptionOverride ::
  "'s oenv \<Rightarrow> unit result \<Rightarrow> exn \<Rightarrow> string \<Rightarrow> jsval \<Rightarrow> int \<Rightarrow> int \<Rightarrow> bool result" where
  "shouldRetryWithNetworkExceptionOverride env logError e cmdName cmdObj elapsed numNetworkErrorRetries =
    (let sh = ovShell env in
     require (configuredForNetworkRetry env) ''configuredForNetworkRetry()''
     (if numNetworkErrorRetries = 0 then rbind logError (\<lambda>_. Inl e)
      else case fld (exn_obj e) ''message'' of
        JStr message \<Rightarrow>
          if kReplicaSetMonitorError message \<and> elapsed < 5 * 60 * 1000
          then rbind logError (\<lambda>_. Inr False)
          else if index_of ''writeConcernError'' message \<noteq> None \<and> isRetryableError sh e
          then rbind logError (\<lambda>_. Inr False)
          else if \<not> isNetworkError sh e then rbind logError (\<lambda>_. Inl e)
          else if isRetryableWriteCmdName cmdName \<and> canRetryWrites sh cmdObj
          then rbind logError (\<lambda>_. Inl e)
          else rbind logError (\<lambda>_. Inr True)
      | _ \<Rightarrow> Inl (TypeErr ''e.message.match is not a function'')))"

section \<open>The override\<close>

text \<open>The call of the original \<open>runCommand\<close>.\<close>

definition sendE :: "'s oenv \<Rightarrow> string \<Rightarrow> jsval \<Rightarrow> ('s, jsval) oeff" where
  "sendE env dbName cmdObj = (\<lambda>s.
     case clientFunction env dbName cmdObj (server s) of (r, sv) \<Rightarrow> (r, s\<lparr>server := sv\<rparr>))"

text \<open>The \<open>try\<close> block: the response to return, or none to go round again.\<close>

definition tryCommand ::
  "'s oenv \<Rightarrow> 's rerun \<Rightarrow> string \<Rightarrow> string \<Rightarrow> jsval \<Rightarrow> jsval \<Rightarrow> bool \<Rightarrow> ('s, jsval option) oeff" where
  "tryCommand env rerun dbName cmdName cmdObj lsid canRetryNetworkError =
     bindE (sendE env dbName cmdObj) (\<lambda>res.
     seqE (if configuredForTxnOverride env
           then seqE logMsgFull
             (if \<not> hasError res \<and> commandIsNonTxnAggregation cmdName cmdObj
              then bindE (liftE (get_prop (fld res ''cursor'') ''id'')) (\<lambda>cursorId.
                     modE (\<lambda>s. s\<lparr>nonTxnAggCursorSet := cursorId # nonTxnAggCursorSet s\<rparr>))
              else ret ())
           else ret ())
    (bindE (if configuredForTxnOverride env
            then retryWithTxnOverride env rerun res dbName cmdName cmdObj lsid else ret res) (\<lambda>res.
       if canRetryNetworkError
       then bindE (getE logErrorFull) (\<lambda>logError.
            bindE (liftE (shouldRetryWithNetworkErrorOverride env logError cmdName True res)) (\<lambda>d.
              case d of KContinue \<Rightarrow> ret None | Respond r \<Rightarrow> ret (Some r)))
       else ret (Some res))))"

text \<open>The \<open>catch\<close> block: the response to return, or the retries left to go round again with.\<close>

definition catchCommand ::
  "'s oenv \<Rightarrow> 's rerun \<Rightarrow> string \<Rightarrow> jsval \<Rightarrow> jsval \<Rightarrow> bool \<Rightarrow> int \<Rightarrow> int \<Rightarrow> exn \<Rightarrow> ('s, jsval + int) oeff" where
  "catchCommand env rerun cmdName cmdObj lsid canRetryNetworkError startTime numNetworkErrorRetries e =
     bindE (if configuredForTxnOverride env
            then retryWithTxnOverrideException env rerun e cmdName cmdObj lsid else ret Null)
      (\<lambda>txnRetryOnException.
       if truthy txnRetryOnException then ret (Inl txnRetryOnException)
       else if canRetryNetworkError then
         bindE (getE (\<lambda>s. (logErrorFull s, dateNow env (server s) - startTime))) (\<lambda>(logError, elapsed).
         bindE (liftE (shouldRetryWithNetworkExceptionOverride env logError e cmdName cmdObj elapsed
                  numNetworkErrorRetries)) (\<lambda>decrementRetryCount.
         seqE (if decrementRetryCount then logMsgFull else ret ())
        (seqE (liftE logError)
        (seqE (modE (\<lambda>s. s\<lparr>inCommandNetworkErrorRetry := True\<rparr>))
         (ret (Inr (if decrementRetryCount then numNetworkErrorRetries - 1 else numNetworkErrorRetries)))))))
       else raise e)"

fun retryLoop ::
  "nat \<Rightarrow> 's oenv \<Rightarrow> 's rerun \<Rightarrow> string \<Rightarrow> string \<Rightarrow> jsval \<Rightarrow> jsval \<Rightarrow> bool \<Rightarrow> int \<Rightarrow> int \<Rightarrow> ('s, jsval) oeff" where
  "retryLoop 0 env rerun dbName cmdName cmdObj lsid canRetryNetworkError startTime retries = diverge"
| "retryLoop (Suc fuel) env rerun dbName cmdName cmdObj lsid canRetryNetworkError startTime retries =
     bindE (tryCatch
         (bindE (tryCommand env rerun dbName cmdName cmdObj lsid canRetryNetworkError) (\<lambda>r.
            case r of Some res \<Rightarrow> ret (Inl res) | None \<Rightarrow> ret (Inr retries)))
         (catchCommand env rerun cmdName cmdObj lsid canRetryNetworkError startTime retries)) (\<lambda>x.
       case x of
         Inl res \<Rightarrow> ret res
       | Inr retries' \<Rightarrow>
           if retries' \<ge> 0
           then retryLoop fuel env rerun dbName cmdName cmdObj lsid canRetryNetworkError startTime retries'
           else raise (Err ''MONGO UNREACHABLE''))"

definition runCommandOverrideBody ::
  "nat \<Rightarrow> 's oenv \<Rightarrow> 's rerun \<Rightarrow> string \<Rightarrow> string \<Rightarrow> jsval \<Rightarrow> jsval \<Rightarrow> ('s, jsval) oeff" where
  "runCommandOverrideBody fuel env rerun dbName cmdName cmdObj0 lsid =
     bindE (getE (\<lambda>s. dateNow env (server s))) (\<lambda>startTime.
     bindE (if configuredForNetworkRetry env then isNested else ret True) (\<lambda>nested.
     seqE (if \<not> nested \<and> \<not> isCmdInTransaction cmdObj0
           then validateCmdNetworkErrorCompatibility env cmdName cmdObj0 else ret ())
    (bindE (if configuredForTxnOverride env
            then setupTransactionCommand env rerun dbName cmdName cmdObj0 lsid else ret cmdObj0) (\<lambda>cmdObj.
     let canRetryNetworkError = canRetryNetworkErrorForCommand env cmdName cmdObj in
     retryLoop fuel env rerun dbName cmdName cmdObj lsid canRetryNetworkError startTime
       (if canRetryNetworkError then kMaxNumRetries else 0)))))"

definition enterOverride :: "('s, unit) oeff" where
  "enterOverride = modE (\<lambda>s. s\<lparr>currentCommandID := currentCommandID s @ [newestCommandID s],
     newestCommandID := newestCommandID s + 1, nestingLevel := nestingLevel s + 1\<rparr>)"

definition leaveOverride :: "('s, unit) oeff" where
  "leaveOverride = modE (\<lambda>s. s\<lparr>nestingLevel := nestingLevel s - 1,
     currentCommandID := butlast (currentCommandID s), inCommandNetworkErrorRetry := False\<rparr>)"

text \<open>The command inside a wrapped one.\<close>

definition unwrapCommand :: "string \<Rightarrow> jsval \<Rightarrow> (string \<times> jsval) result" where
  "unwrapCommand cmdName cmdObj =
     (if cmdName = ''query'' \<or> cmdName = ''$query''
      then let inner = fld cmdObj cmdName in
           rbind (object_keys inner) (\<lambda>_. Inr (first_key inner, inner))
      else Inr (cmdName, cmdObj))"

text \<open>A command that fails at the top level ends the transaction: its operations are not retried.\<close>

definition clearFailedOps :: "'s oenv \<Rightarrow> 's rerun \<Rightarrow> jsval \<Rightarrow> jsval \<Rightarrow> ('s, unit) oeff" where
  "clearFailedOps env rerun lsid res =
     bindE (if configuredForTxnOverride env then isNested else ret True) (\<lambda>nested.
     bindE (getE (\<lambda>s. (length (ops s), txnNumber s))) (\<lambda>(n, t).
       if \<not> nested \<and> hasError res \<and> n > 0
       then seqE logMsgFull (seqE clearOpsList (abortTransaction env rerun lsid t))
       else ret ()))"

text \<open>The \<open>try\<close> block of \<open>runCommandOverride\<close>.\<close>

definition guardedRun ::
  "nat \<Rightarrow> 's oenv \<Rightarrow> 's rerun \<Rightarrow> string \<Rightarrow> string \<Rightarrow> jsval \<Rightarrow> ('s, jsval) oeff" where
  "guardedRun fuel env rerun dbName cmdName cmdObj =
    (let lsid = fld cmdObj ''lsid'' in
     bindE (runCommandOverrideBody fuel env rerun dbName cmdName cmdObj lsid) (\<lambda>res.
     seqE (clearFailedOps env rerun lsid res) (ret res)))"

fun runCommandOverride :: "nat \<Rightarrow> 's oenv \<Rightarrow> string \<Rightarrow> string \<Rightarrow> jsval \<Rightarrow> ('s, jsval) oeff" where
  "runCommandOverride 0 env dbName cmdName0 cmdObj0 = diverge"
| "runCommandOverride (Suc fuel) env dbName cmdName0 cmdObj0 =
    (let rerun = (\<lambda>db c. let c' = sessionFields env db c in
                    runCommandOverride fuel env db (first_key c') c') in
     seqE enterOverride
    (bindE (liftE (unwrapCommand cmdName0 cmdObj0)) (\<lambda>(cmdName, cmdObj).
     tryFinally (guardedRun fuel env rerun dbName cmdName cmdObj) leaveOverride)))"

text \<open>\<open>Mongo.prototype.runCommand\<close> once \<open>overrideRunCommand\<close> has replaced it.\<close>

definition overrideRunCommand :: "nat \<Rightarrow> 's oenv \<Rightarrow> string \<Rightarrow> jsval \<Rightarrow> ('s, jsval) oeff" where
  "overrideRunCommand fuel env dbName commandObj =
     runCommandOverride fuel env dbName (first_key commandObj) commandObj"

end
