(* ===== verification/Txn_Override_Thms.thy ===== *)
theory Txn_Override_Thms
  imports Txn_Override
begin

text \<open>
  What the override of \<open>network_error_and_txn_override.js\<close> guarantees.  Its functions call each other
  through the command they run, so their lemmas are proved once, in a locale, for any way of running a
  nested command that keeps the invariant at hand; the recursion is closed by induction on the fuel.
\<close>

section \<open>Lemmas: invariants of the override's operations\<close>

lemma safe_checkE [safe_rules]: "safe J (checkE r)"
  by (rule keeps_safe, rule keeps_checkE)

lemma safe_isNested [safe_rules]: "safe J isNested"
  unfolding isNested_def by (intro safe_rules)

lemma safe_logMsgFull [safe_rules]: "safe J logMsgFull"
  unfolding logMsgFull_def by (intro safe_rules)

lemma safe_isCommandNonTxnGetMore [safe_rules]: "safe J (isCommandNonTxnGetMore cmdName cmdObj)"
  unfolding isCommandNonTxnGetMore_def by (intro safe_rules)

lemma safe_validate [safe_rules]: "safe J (validateCmdNetworkErrorCompatibility env cmdName cmdObj)"
  unfolding validateCmdNetworkErrorCompatibility_def by (intro safe_rules)

lemma safe_case_decision [safe_rules]:
  "(d = KContinue \<Longrightarrow> safe J m) \<Longrightarrow> (\<And>r. d = Respond r \<Longrightarrow> safe J (f r)) \<Longrightarrow>
   safe J (case d of KContinue \<Rightarrow> m | Respond r \<Rightarrow> f r)"
  by (cases d) auto

locale override_invariant =
  fixes env :: "'s oenv" and rerun :: "'s rerun" and J :: "'s ovr \<Rightarrow> bool"
  assumes rerun_safe: "safe J (rerun db c)"
    and clear: "J s \<Longrightarrow> J (s\<lparr>ops := []\<rparr>)"
    and start: "J s \<Longrightarrow> J (s\<lparr>txnNumber := txnNumber s + 1, stmtId := 1\<rparr>)"
    and set_stmtId: "J s \<Longrightarrow> J (s\<lparr>stmtId := i\<rparr>)"
    and set_retry: "J s \<Longrightarrow> J (s\<lparr>inCommandNetworkErrorRetry := b\<rparr>)"
    and set_cursors: "J s \<Longrightarrow> J (s\<lparr>nonTxnAggCursorSet := cs\<rparr>)"
    and set_server: "J s \<Longrightarrow> J (s\<lparr>server := sv\<rparr>)"
begin

lemma safe_clear: "safe J clearOpsList"
  unfolding clearOpsList_def by (intro safe_rules clear)

lemma safe_start: "safe J startNewTransaction"
  unfolding startNewTransaction_def by (intro safe_rules start)

lemmas base_rules = safe_rules rerun_safe safe_clear safe_start

lemma safe_commit: "safe J (commitTransaction env rerun lsid n)"
  unfolding commitTransaction_def by (intro base_rules)

lemma safe_abort: "safe J (abortTransaction env rerun lsid n)"
  unfolding abortTransaction_def by (intro base_rules)

lemma safe_retryOps: "safe J (retryOps env rerun t res os)"
proof (induction os arbitrary: res)
  case (Cons x os)
  then show ?case by (cases x) (auto intro!: base_rules)
qed (auto intro: base_rules)

lemma safe_retryEntire: "safe J (retryEntireTransaction env rerun)"
  unfolding retryEntireTransaction_def by (intro base_rules safe_retryOps)

lemma safe_create: "safe J (createCollectionExplicitly env rerun dbName collName lsid)"
  unfolding createCollectionExplicitly_def by (intro base_rules)

lemma safe_transient: "safe J (retryTransient env rerun cmdName lsid)"
  unfolding retryTransient_def by (intro base_rules safe_retryEntire safe_commit)

lemmas txn_rules = base_rules safe_commit safe_abort safe_retryEntire safe_create safe_transient

lemma safe_retryWithTxnOverride:
  "safe J (retryWithTxnOverride env rerun res dbName cmdName cmdObj lsid)"
  unfolding retryWithTxnOverride_def Let_def by (intro txn_rules)

lemma safe_retryWithTxnOverrideException:
  "safe J (retryWithTxnOverrideException env rerun e cmdName cmdObj lsid)"
  unfolding retryWithTxnOverrideException_def by (intro txn_rules)

lemma safe_send: "safe J (sendE env dbName cmdObj)"
  unfolding sendE_def safe_def by (auto simp: set_server split: prod.split)

lemma safe_tryCommand: "safe J (tryCommand env rerun dbName cmdName cmdObj lsid canRetry)"
  unfolding tryCommand_def by (intro txn_rules safe_send safe_retryWithTxnOverride set_cursors)

lemma safe_catchCommand:
  "safe J (catchCommand env rerun cmdName cmdObj lsid canRetry startTime retries e)"
  unfolding catchCommand_def by (intro txn_rules safe_retryWithTxnOverrideException set_retry)

lemma safe_retryLoop:
  "safe J (retryLoop fuel env rerun dbName cmdName cmdObj lsid canRetry startTime retries)"
proof (induction fuel arbitrary: retries)
  case (Suc fuel)
  show ?case unfolding retryLoop.simps
    by (intro txn_rules safe_tryCommand safe_catchCommand Suc.IH)
qed (auto intro: txn_rules)

lemma safe_body:
  assumes "safe J (setupTransactionCommand env rerun dbName cmdName cmdObj lsid)"
  shows "safe J (runCommandOverrideBody fuel env rerun dbName cmdName cmdObj lsid)"
  unfolding runCommandOverrideBody_def Let_def by (intro txn_rules assms safe_retryLoop)

lemma safe_guardedRun:
  assumes "safe J (setupTransactionCommand env rerun dbName cmdName cmdObj (fld cmdObj ''lsid''))"
  shows "safe J (guardedRun fuel env rerun dbName cmdName cmdObj)"
  unfolding guardedRun_def clearFailedOps_def Let_def by (intro txn_rules safe_body assms)

end

text \<open>A command run by the override itself: it never opens a transaction and records no operation.\<close>

locale nested_invariant = override_invariant +
  assumes nested: "J s \<Longrightarrow> nestingLevel s > 1"
begin

lemma safe_nested_bind: "safe J (f True) \<Longrightarrow> safe J (bindE isNested f)"
proof (rule safeI)
  fix s assume "safe J (f True)" and "J s" and "fst (bindE isNested f s) \<noteq> Diverge"
  moreover have "bindE isNested f s = f True s"
    using nested [OF \<open>J s\<close>] by (simp add: isNested_def bindE_def seqE_def getE_def assertE_def ret_def)
  ultimately show "J (snd (bindE isNested f s))" by (simp add: safeD)
qed

lemma safe_continue: "safe J (continueTransaction env dbName cmdName cmdObj)"
  unfolding continueTransaction_def Let_def
  by (rule safe_bindE, rule safe_rules, rule safe_case_prod, rule safe_seqE, rule safe_modE,
      erule set_stmtId, rule safe_seqE, rule safe_rules, rule safe_seqE, rule safe_rules,
      rule safe_nested_bind) (simp, intro safe_rules)

lemma safe_enter: "safe J (enterTransaction env rerun cmdName cmdObj lsid)"
  unfolding enterTransaction_def by (rule safe_nested_bind) (simp, intro safe_rules)

lemma safe_setup: "safe J (setupTransactionCommand env rerun dbName cmdName cmdObj lsid)"
  unfolding setupTransactionCommand_def Let_def by (intro txn_rules safe_enter safe_continue)

lemma safe_nested_run: "safe J (guardedRun fuel env rerun dbName cmdName cmdObj)"
  by (rule safe_guardedRun, rule safe_setup)

end

section \<open>Lemmas: the recursion\<close>

text \<open>
  What \<open>DB.runCommand\<close> of the shell hands to the override is a command, or a wrapped one that has a
  command inside.
\<close>

definition session_wf :: "'s oenv \<Rightarrow> bool" where
  "session_wf env \<longleftrightarrow> (\<forall>db c. \<exists>r. unwrapCommand (first_key (sessionFields env db c)) (sessionFields env db c) = Inr r)"

definition rerunOf :: "nat \<Rightarrow> 's oenv \<Rightarrow> 's rerun" where
  "rerunOf fuel env db c = (let c' = sessionFields env db c in runCommandOverride fuel env db (first_key c') c')"

text \<open>The invariant of nested runs; \<open>P\<close> is any property of the recorded operations that holds of none.\<close>

definition nest_inv ::
  "'s oenv \<Rightarrow> int \<Rightarrow> nat list \<Rightarrow> ((string \<times> jsval) list \<Rightarrow> bool) \<Rightarrow> int \<Rightarrow> nat \<Rightarrow> 's ovr \<Rightarrow> bool" where
  "nest_inv env n ids P T N s \<longleftrightarrow>
     session_wf env \<and> 1 \<le> n \<and> P [] \<and> nestingLevel s = n \<and> currentCommandID s = ids \<and> P (ops s) \<and>
     T \<le> txnNumber s \<and> N \<le> newestCommandID s"

definition entered :: "'s ovr \<Rightarrow> 's ovr" where
  "entered s = s\<lparr>currentCommandID := currentCommandID s @ [newestCommandID s],
     newestCommandID := newestCommandID s + 1, nestingLevel := nestingLevel s + 1\<rparr>"

definition left :: "'s ovr \<Rightarrow> 's ovr" where
  "left s = s\<lparr>nestingLevel := nestingLevel s - 1, currentCommandID := butlast (currentCommandID s),
     inCommandNetworkErrorRetry := False\<rparr>"

lemma rerunOf_run:
  "rerunOf fuel env db c =
     runCommandOverride fuel env db (first_key (sessionFields env db c)) (sessionFields env db c)"
  by (simp add: rerunOf_def Let_def)

lemma runCommandOverride_unfold:
  "runCommandOverride (Suc fuel) env dbName cmdName0 cmdObj0 =
     seqE enterOverride
    (bindE (liftE (unwrapCommand cmdName0 cmdObj0)) (\<lambda>(cmdName, cmdObj).
     tryFinally (guardedRun fuel env (rerunOf fuel env) dbName cmdName cmdObj) leaveOverride))"
  by (simp add: Let_def rerunOf_run [abs_def])

declare runCommandOverride.simps(2) [simp del]

lemma runCommandOverride_Suc:
  assumes "unwrapCommand cmdName0 cmdObj0 = Inr (cmdName, cmdObj)"
    and "guardedRun fuel env (rerunOf fuel env) dbName cmdName cmdObj (entered s) = (r, t)"
  shows "runCommandOverride (Suc fuel) env dbName cmdName0 cmdObj0 s = (r, if r = Diverge then t else left t)"
proof -
  have "runCommandOverride (Suc fuel) env dbName cmdName0 cmdObj0 s =
      tryFinally (guardedRun fuel env (rerunOf fuel env) dbName cmdName cmdObj) leaveOverride (entered s)"
    unfolding runCommandOverride_unfold assms(1)
    by (simp add: seqE_def bindE_def enterOverride_def modE_def liftE_def ret_def entered_def)
  also have "\<dots> = (r, if r = Diverge then t else left t)"
    by (cases r) (simp_all add: tryFinally_def assms(2) leaveOverride_def modE_def left_def)
  finally show ?thesis .
qed

lemma nest_inv_override:
  assumes "\<And>db c. safe (nest_inv env n ids P T N) (rerun db c)"
  shows "override_invariant rerun (nest_inv env n ids P T N)"
  by (unfold_locales; (rule assms)?; simp add: nest_inv_def)

lemma rerun_safe: "safe (nest_inv env n ids P T N) (rerunOf fuel env db c)"
proof (induction fuel arbitrary: n ids db c)
  case 0
  show ?case by (simp add: rerunOf_run safe_diverge)
next
  case (Suc fuel)
  show ?case
  proof (rule safeI)
    fix s assume inv: "nest_inv env n ids P T N s"
      and nd: "fst (rerunOf (Suc fuel) env db c s) \<noteq> Diverge"
    let ?c = "sessionFields env db c"
    let ?J = "nest_inv env (n + 1) (ids @ [newestCommandID s]) P T N"
    obtain name c' where un: "unwrapCommand (first_key ?c) ?c = Inr (name, c')"
      using inv unfolding nest_inv_def session_wf_def by fastforce
    obtain r t where run: "guardedRun fuel env (rerunOf fuel env) db name c' (entered s) = (r, t)"
      by fastforce
    have res: "rerunOf (Suc fuel) env db c s = (r, if r = Diverge then t else left t)"
      using runCommandOverride_Suc [OF un run] by (simp add: rerunOf_run)
    have "nested_invariant (rerunOf fuel env) ?J"
      by (intro nested_invariant.intro nest_inv_override nested_invariant_axioms.intro Suc.IH)
        (use inv in \<open>simp add: nest_inv_def\<close>)
    from nested_invariant.safe_nested_run [OF this]
    have "safe ?J (guardedRun fuel env (rerunOf fuel env) db name c')" .
    moreover have "?J (entered s)" using inv by (simp add: nest_inv_def entered_def)
    moreover have "r \<noteq> Diverge" using nd res by auto
    ultimately have "?J t" using safeD [of ?J] run by (metis fst_conv snd_conv)
    then show "nest_inv env n ids P T N (snd (rerunOf (Suc fuel) env db c s))"
      using res inv \<open>r \<noteq> Diverge\<close> by (simp add: nest_inv_def left_def)
  qed
qed

interpretation nested_run: override_invariant env "rerunOf fuel env" "nest_inv env n ids P T N"
  for env :: "'s oenv" and fuel n ids P T N
  by (rule nest_inv_override, rule rerun_safe)

interpretation deep_run: nested_invariant env "rerunOf fuel env" "nest_inv env (int k + 2) ids P T N"
  for env :: "'s oenv" and fuel k ids P T N
  by unfold_locales (simp add: nest_inv_def)

text \<open>An invariant that says nothing about the recorded operations holds at the top level too.\<close>

locale free_invariant = override_invariant +
  assumes record_op: "J s \<Longrightarrow> J (s\<lparr>ops := os\<rparr>)"
begin

lemma safe_continue_any: "safe J (continueTransaction env dbName cmdName cmdObj)"
  unfolding continueTransaction_def Let_def by (intro txn_rules set_stmtId record_op)

lemma safe_enter_any: "safe J (enterTransaction env rerun cmdName cmdObj lsid)"
  unfolding enterTransaction_def by (intro txn_rules)

lemma safe_setup_any: "safe J (setupTransactionCommand env rerun dbName cmdName c lsid)"
  unfolding setupTransactionCommand_def Let_def
  by (intro txn_rules safe_enter_any safe_continue_any)

lemma safe_body_any: "safe J (runCommandOverrideBody fuel env rerun dbName cmdName cmdObj lsid)"
  by (rule safe_body, rule safe_setup_any)

lemma safe_run_any: "safe J (guardedRun fuel env rerun dbName cmdName cmdObj)"
  by (rule safe_guardedRun, rule safe_setup_any)

end

interpretation any_run: free_invariant env "rerunOf fuel env" "nest_inv env n ids (\<lambda>_. True) T N"
  for env :: "'s oenv" and fuel n ids T N
  by unfold_locales (simp add: nest_inv_def)

lemma override_run:
  assumes "overrideRunCommand fuel env dbName cmdObj s = (r, s')" and "r \<noteq> Diverge"
    and "unwrapCommand (first_key cmdObj) cmdObj = Inr inner"
  obtains n t where "fuel = Suc n"
    and "guardedRun n env (rerunOf n env) dbName (fst inner) (snd inner) (entered s) = (r, t)"
    and "s' = left t"
proof -
  obtain n where fuel: "fuel = Suc n"
    using assms(1,2) by (cases fuel) (auto simp: overrideRunCommand_def diverge_def)
  obtain r' t where run: "guardedRun n env (rerunOf n env) dbName (fst inner) (snd inner) (entered s) = (r', t)"
    by fastforce
  have "unwrapCommand (first_key cmdObj) cmdObj = Inr (fst inner, snd inner)" using assms(3) by simp
  from runCommandOverride_Suc [OF this run] assms(1)
  have "(r, s') = (r', if r' = Diverge then t else left t)"
    by (simp only: overrideRunCommand_def fuel)
  then show thesis using that [OF fuel] run assms(2) by auto
qed

section \<open>Lemmas: the top level\<close>

text \<open>At the top level the invariant fixes the nesting level to one.\<close>

abbreviation top_inv ::
  "'s oenv \<Rightarrow> nat list \<Rightarrow> ((string \<times> jsval) list \<Rightarrow> bool) \<Rightarrow> int \<Rightarrow> nat \<Rightarrow> 's ovr \<Rightarrow> bool" where
  "top_inv env ids P T N \<equiv> nest_inv env 1 ids P T N"

lemma hoare_isNested_top:
  "hoare (\<lambda>s. top_inv env ids P T N s \<and> R s) isNested
     (\<lambda>b s. \<not> b \<and> top_inv env ids P T N s \<and> R s) E"
  unfolding hoare_def
  by (simp add: isNested_def bindE_def seqE_def getE_def assertE_def ret_def nest_inv_def)

lemma abort_keeps_empty:
  "hoare (top_inv env ids (\<lambda>os. os = []) T N) (abortTransaction env (rerunOf fuel env) lsid t)
     (\<lambda>_ s. ops s = []) (\<lambda>_. True)"
  by (rule hoare_weaken [OF nested_run.safe_abort [unfolded safe_hoare,
        of env 1 ids "\<lambda>os. os = []" T N]]) (auto simp: nest_inv_def)

lemma clearFailedOps_clears:
  assumes "configuredForTxnOverride env"
  shows "hoare (top_inv env ids (\<lambda>_. True) T N) (clearFailedOps env (rerunOf fuel env) lsid res)
    (\<lambda>_ s. hasError res \<longrightarrow> ops s = []) (\<lambda>_. True)"
  (is "hoare ?J _ _ _")
proof -
  have abort: "hoare ?J (seqE logMsgFull (seqE clearOpsList (abortTransaction env (rerunOf fuel env) lsid t)))
      (\<lambda>_ s. ops s = []) (\<lambda>_. True)" for t
  proof (rule hoare_seqE)
    show "hoare ?J logMsgFull (\<lambda>_. ?J) (\<lambda>_. True)"
      by (rule hoare_weaken [OF safe_logMsgFull [unfolded safe_hoare, of ?J]]) auto
    show "hoare ?J (seqE clearOpsList (abortTransaction env (rerunOf fuel env) lsid t)) (\<lambda>_ s. ops s = []) (\<lambda>_. True)"
      unfolding clearOpsList_def
      by (rule hoare_seqE [OF hoare_modE abort_keeps_empty [of env ids T N]]) (simp add: nest_inv_def)
  qed
  show ?thesis unfolding clearFailedOps_def
  proof (rule hoare_bindE)
    show "hoare ?J (if configuredForTxnOverride env then isNested else ret True) (\<lambda>b s. \<not> b \<and> ?J s \<and> True) (\<lambda>_. True)"
      using hoare_isNested_top [of env ids "\<lambda>_. True" T N "\<lambda>_. True"] assms by simp
    show "hoare (\<lambda>s. \<not> nested \<and> ?J s \<and> True) (bindE (getE (\<lambda>s. (length (ops s), txnNumber s))) (\<lambda>(n, t).
        if \<not> nested \<and> hasError res \<and> n > 0
        then seqE logMsgFull (seqE clearOpsList (abortTransaction env (rerunOf fuel env) lsid t)) else ret ()))
        (\<lambda>_ s. hasError res \<longrightarrow> ops s = []) (\<lambda>_. True)" for nested
      unfolding hoare_def
      by (auto simp: bindE_def getE_def ret_def dest!: hoareD_Val [OF abort] split: prod.splits outcome.splits)
  qed
qed

lemma guardedRun_clears:
  assumes "configuredForTxnOverride env"
  shows "hoare (top_inv env ids (\<lambda>_. True) T N) (guardedRun fuel env (rerunOf fuel env) dbName cmdName cmdObj)
    (\<lambda>res s. hasError res \<longrightarrow> ops s = []) (\<lambda>_. True)"
  unfolding guardedRun_def Let_def
  by (rule hoare_bindE [OF hoare_weaken [OF any_run.safe_body_any [unfolded safe_hoare]]],
      assumption, assumption, rule TrueI, rule hoare_seqE, rule clearFailedOps_clears [OF assms], rule hoare_ret)

section \<open>Lemmas: the retry loop\<close>

text \<open>A turn of the loop that may not retry always ends it.\<close>

lemma turn_ends:
  "hoare (\<lambda>_. True)
     (tryCatch (bindE (tryCommand env rerun dbName cmdName cmdObj lsid False) (\<lambda>r.
          case r of Some res \<Rightarrow> ret (Inl res) | None \<Rightarrow> ret (Inr retries)))
        (catchCommand env rerun cmdName cmdObj lsid False startTime retries))
     (\<lambda>x _. \<exists>res. x = Inl res) (\<lambda>_. True)"
proof -
  have some: "tryCommand env rerun dbName cmdName cmdObj lsid False s = (Val r, t) \<Longrightarrow> r \<noteq> None" for s r t
    by (auto simp: tryCommand_def run_Val ret_def)
  have inl: "catchCommand env rerun cmdName cmdObj lsid False startTime retries e s = (Val x, t) \<Longrightarrow>
      \<exists>res. x = Inl res" for e s x t
    by (auto simp: catchCommand_def run_Val ret_def raise_def split: if_splits)
  show ?thesis
    unfolding hoare_def
    by (auto simp: tryCatch_Val bindE_Val ret_def split: prod.splits outcome.splits option.splits
        dest: some inl)
qed

lemma retryLoop_once:
  "retryLoop (Suc fuel) env rerun dbName cmdName cmdObj lsid False startTime retries =
   retryLoop (Suc fuel') env rerun dbName cmdName cmdObj lsid False startTime retries"
proof
  fix s
  let ?m = "tryCatch (bindE (tryCommand env rerun dbName cmdName cmdObj lsid False) (\<lambda>r.
          case r of Some res \<Rightarrow> ret (Inl res) | None \<Rightarrow> ret (Inr retries)))
        (catchCommand env rerun cmdName cmdObj lsid False startTime retries)"
  show "retryLoop (Suc fuel) env rerun dbName cmdName cmdObj lsid False startTime retries s =
      retryLoop (Suc fuel') env rerun dbName cmdName cmdObj lsid False startTime retries s"
  proof (cases "?m s")
    case (Pair r t)
    then have "r = Val x \<Longrightarrow> \<exists>res. x = Inl res" for x using hoareD_Val [OF turn_ends TrueI] by simp
    then show ?thesis using Pair by (cases r) (auto simp: bindE_def)
  qed
qed

text \<open>A server that is down: every command it is sent throws the same error.\<close>

definition serverDown :: "'s oenv \<Rightarrow> string \<Rightarrow> jsval \<Rightarrow> exn \<Rightarrow> bool" where
  "serverDown env dbName cmdObj e \<longleftrightarrow> (\<forall>sv. fst (clientFunction env dbName cmdObj sv) = Throw e)"

definition ordinaryNetworkError :: "shell \<Rightarrow> exn \<Rightarrow> bool" where
  "ordinaryNetworkError sh e \<longleftrightarrow> isNetworkError sh e \<and>
     (case fld (exn_obj e) ''message'' of
        JStr m \<Rightarrow> \<not> kReplicaSetMonitorError m \<and> index_of ''writeConcernError'' m = None | _ \<Rightarrow> False)"

abbreviation after_send :: "'s oenv \<Rightarrow> string \<Rightarrow> jsval \<Rightarrow> 's \<Rightarrow> 's" where
  "after_send env dbName cmdObj sv \<equiv> snd (clientFunction env dbName cmdObj sv)"

lemma tryCommand_down:
  "serverDown env dbName cmdObj e \<Longrightarrow>
   tryCommand env rerun dbName cmdName cmdObj lsid canRetry s =
     (Throw e, s\<lparr>server := after_send env dbName cmdObj (server s)\<rparr>)"
  by (cases "clientFunction env dbName cmdObj (server s)")
    (auto simp: tryCommand_def bindE_def sendE_def serverDown_def dest: spec [of _ "server s"])

lemma exception_decision:
  assumes "configuredForNetworkRetry env" and "ordinaryNetworkError (ovShell env) e"
    and "\<not> isRetryableWriteCmdName cmdName"
  shows "shouldRetryWithNetworkExceptionOverride env (Inr ()) e cmdName cmdObj elapsed retries =
    (if retries = 0 then Inl e else Inr True)"
  using assms by (auto simp: shouldRetryWithNetworkExceptionOverride_def ordinaryNetworkError_def Let_def
      split: jsval.splits)

lemma retryLoop_down:
  assumes "configuredForNetworkRetry env" and "\<not> configuredForTxnOverride env"
    and "ordinaryNetworkError (ovShell env) e" and "\<not> isRetryableWriteCmdName cmdName"
    and down: "serverDown env dbName cmdObj e"
  shows "nestingLevel s = int (length (currentCommandID s)) \<Longrightarrow> n < fuel \<Longrightarrow>
    \<exists>b. retryLoop fuel env rerun dbName cmdName cmdObj lsid True startTime (int n) s =
      (Throw e, s\<lparr>server := (after_send env dbName cmdObj ^^ Suc n) (server s), inCommandNetworkErrorRetry := b\<rparr>)"
proof (induction n arbitrary: s fuel)
  case 0
  then obtain f where "fuel = Suc f" by (cases fuel) auto
  moreover have "retryLoop (Suc f) env rerun dbName cmdName cmdObj lsid True startTime 0 s =
      (Throw e, s\<lparr>server := after_send env dbName cmdObj (server s)\<rparr>)"
    using 0 assms(1,2) exception_decision [OF assms(1,3,4)]
    by (simp add: bindE_def tryCatch_def tryCommand_down [OF down] catchCommand_def ret_def getE_def
        logErrorFull_def liftE_def raise_def)
  ultimately show ?case by (intro exI [of _ "inCommandNetworkErrorRetry s"]) simp
next
  case (Suc n)
  then obtain f where fuel: "fuel = Suc f" "n < f" by (cases fuel) auto
  let ?s = "s\<lparr>server := after_send env dbName cmdObj (server s), inCommandNetworkErrorRetry := True\<rparr>"
  have "retryLoop (Suc f) env rerun dbName cmdName cmdObj lsid True startTime (int (Suc n)) s =
      retryLoop f env rerun dbName cmdName cmdObj lsid True startTime (int n) ?s"
    using Suc.prems assms(1,2) exception_decision [OF assms(1,3,4)]
    by (simp add: bindE_def seqE_def tryCatch_def tryCommand_down [OF down] catchCommand_def ret_def getE_def modE_def
        logErrorFull_def logMsgFull_def liftE_def assertE_def)
  moreover obtain b where "retryLoop f env rerun dbName cmdName cmdObj lsid True startTime (int n) ?s =
      (Throw e, ?s\<lparr>server := (after_send env dbName cmdObj ^^ Suc n) (server ?s), inCommandNetworkErrorRetry := b\<rparr>)"
    using Suc.IH [of ?s f] Suc.prems(1) fuel(2) by auto
  moreover have "(after_send env dbName cmdObj ^^ Suc n) (server ?s) =
      (after_send env dbName cmdObj ^^ Suc (Suc n)) (server s)"
    using funpow_swap1 [of "after_send env dbName cmdObj" n "server s"] by simp
  ultimately show ?case using fuel(1) by (intro exI [of _ b]) simp
qed

section \<open>Concrete environments\<close>

text \<open>A server that answers each command by its name and logs the commands it was sent.\<close>

definition exampleEnv :: "jsval \<Rightarrow> (string \<Rightarrow> jsval outcome) \<Rightarrow> jsval list oenv" where
  "exampleEnv config answer = \<lparr>ovShell = exampleShell,
     testData = JObj [(''networkErrorAndTxnOverrideConfig'', config)],
     jsTestOptions = JObj [],
     clientFunction = (\<lambda>db cmd sent. (answer (first_key cmd), sent @ [cmd])),
     sessionFields = (\<lambda>db cmd. case unwrapCommand (first_key cmd) cmd of Inl _ \<Rightarrow> JObj [] | Inr _ \<Rightarrow> cmd),
     getSessionId = (\<lambda>db. JExt ''lsid'' ''1''),
     getOperationTime = (\<lambda>db sent. Undef),
     dateNow = (\<lambda>sent. int (length sent)),
     newNumberInt = (\<lambda>x. case x of Fin q \<Rightarrow> \<lfloor>q\<rfloor> | _ \<Rightarrow> 0)\<rparr>"

definition txnConfig :: jsval where
  "txnConfig = JObj [(''wrapCRUDinTransactions'', JBool True)]"

definition networkConfig :: jsval where
  "networkConfig = JObj [(''retryOnNetworkErrors'', JBool True)]"

definition findCmd :: jsval where
  "findCmd = JObj [(''find'', JStr ''c''), (''lsid'', JExt ''lsid'' ''1'')]"

definition pingCmd :: jsval where
  "pingCmd = JObj [(''ping'', jnum 1), (''lsid'', JExt ''lsid'' ''1'')]"

definition okRes :: jsval where "okRes = JObj [(''ok'', jnum 1)]"

definition failedRes :: jsval where "failedRes = JObj [(''ok'', jnum 0), (''code'', jnum 2)]"

definition failOn :: "string \<Rightarrow> string \<Rightarrow> jsval outcome" where
  "failOn bad name = Val (if name = bad then failedRes else okRes)"

lemma exampleEnv_session_wf: "session_wf (exampleEnv config answer)"
  unfolding session_wf_def
proof (intro allI)
  fix db c
  show "\<exists>r. unwrapCommand (first_key (sessionFields (exampleEnv config answer) db c))
      (sessionFields (exampleEnv config answer) db c) = Inr r"
    by (cases "unwrapCommand (first_key c) c")
      (simp_all add: exampleEnv_def unwrapCommand_def [of _ "JObj []"] first_key_def obj_keys_def)
qed

section \<open>Theorems\<close>

text \<open>
  C5. The bookkeeping of the recursion is exact: whatever the server answers or throws, and however many
  commands the override runs on its own, a command that returns or throws leaves the nesting level and the
  stack of command ids as it found them, leaves no retry in progress, has used a new command id, and
  has not moved the transaction number back.  The command must not be a wrapped one with nothing inside.
\<close>

theorem override_restores_state:
  assumes "overrideRunCommand fuel env dbName cmdObj s = (r, s')" and "r \<noteq> Diverge"
    and "session_wf env" and "unwrapCommand (first_key cmdObj) cmdObj = Inr inner" and "0 \<le> nestingLevel s"
  shows "nestingLevel s' = nestingLevel s \<and> currentCommandID s' = currentCommandID s \<and>
    \<not> inCommandNetworkErrorRetry s' \<and> newestCommandID s < newestCommandID s' \<and> txnNumber s \<le> txnNumber s'"
proof -
  obtain n t where run: "guardedRun n env (rerunOf n env) dbName (fst inner) (snd inner) (entered s) = (r, t)"
    and s': "s' = left t"
    by (rule override_run [OF assms(1,2,4)])
  let ?J = "nest_inv env (nestingLevel s + 1) (currentCommandID s @ [newestCommandID s]) (\<lambda>_. True)
    (txnNumber s) (newestCommandID s + 1)"
  have "?J (entered s)" using assms(3,5) by (simp add: nest_inv_def entered_def)
  then have "?J t" using safeD [OF any_run.safe_run_any] run assms(2) by (metis fst_conv snd_conv)
  then show ?thesis unfolding s' by (simp add: nest_inv_def left_def)
qed


theorem override_restores_state_witness:
  "nestingLevel (snd (overrideRunCommand 2 (exampleEnv txnConfig (failOn ''none'')) ''test'' findCmd (initialOvr []))) = 0"
proof -
  have "fst (overrideRunCommand 2 (exampleEnv txnConfig (failOn ''none'')) ''test'' findCmd (initialOvr [])) = Val okRes"
    by code_simp
  moreover have "unwrapCommand (first_key findCmd) findCmd = Inr (''find'', findCmd)" by code_simp
  ultimately show ?thesis
    using override_restores_state [OF prod.collapse [symmetric] _ exampleEnv_session_wf,
        of 2 txnConfig "failOn ''none''" "''test''" findCmd "initialOvr []" "(''find'', findCmd)"]
    by (simp add: initialOvr_def)
qed

text \<open>
  C9. A failure reported to the test ends the transaction: with transactions enabled, a top-level command
  that returns a response with an error leaves no recorded operation behind, so the failed operation is
  never replayed by a later retry.
\<close>

theorem override_error_clears_ops:
  assumes "overrideRunCommand fuel env dbName cmdObj s = (Val res, s')" and "hasError res"
    and "configuredForTxnOverride env" and "session_wf env"
    and "unwrapCommand (first_key cmdObj) cmdObj = Inr inner" and "nestingLevel s = 0"
  shows "ops s' = []"
proof -
  obtain n t where run: "guardedRun n env (rerunOf n env) dbName (fst inner) (snd inner) (entered s) = (Val res, t)"
    and s': "s' = left t"
    by (rule override_run [OF assms(1) _ assms(5)]) auto
  have "top_inv env (currentCommandID s @ [newestCommandID s]) (\<lambda>_. True) (txnNumber s) 0 (entered s)"
    using assms(4,6) by (simp add: nest_inv_def entered_def)
  then have "ops t = []"
    using hoareD_Val [OF guardedRun_clears [OF assms(3)] _ run] assms(2) by blast
  then show ?thesis by (simp add: s' left_def)
qed

theorem override_error_clears_ops_witness:
  "ops (snd (overrideRunCommand 2 (exampleEnv txnConfig (failOn ''ping'')) ''test'' pingCmd (initialOvr []))) = []"
proof -
  let ?run = "overrideRunCommand 2 (exampleEnv txnConfig (failOn ''ping'')) ''test'' pingCmd (initialOvr [])"
  have "fst ?run = Val failedRes" by code_simp
  then have "?run = (Val failedRes, snd ?run)" by (metis prod.collapse)
  moreover have "hasError failedRes" by code_simp
  moreover have "configuredForTxnOverride (exampleEnv txnConfig (failOn ''ping''))" by code_simp
  moreover have "unwrapCommand (first_key pingCmd) pingCmd = Inr (''ping'', pingCmd)" by code_simp
  ultimately show ?thesis
    by (rule override_error_clears_ops [OF _ _ _ exampleEnv_session_wf]) (simp add: initialOvr_def)
qed

text \<open>
  A wrapped command with nothing inside throws before the \<open>try\<close> block is entered: the nesting level stays
  raised, and from then on every command of the test counts as nested.
\<close>

theorem malformed_query_leaks_nesting:
  assumes "0 < fuel" and "first_key cmdObj = ''query'' \<or> first_key cmdObj = ''$query''"
    and "fld cmdObj (first_key cmdObj) = Null"
  shows "\<exists>e s'. overrideRunCommand fuel env dbName cmdObj s = (Throw e, s') \<and>
    nestingLevel s' = nestingLevel s + 1"
proof -
  obtain n where n: "fuel = Suc n" using assms(1) by (cases fuel) auto
  have "unwrapCommand (first_key cmdObj) cmdObj = Inl (TypeErr ''can't convert to object'')"
    using assms(2,3) by (simp add: unwrapCommand_def object_keys_def)
  then show ?thesis
    unfolding overrideRunCommand_def n runCommandOverride_unfold
    by (simp add: seqE_def bindE_def enterOverride_def modE_def liftE_def raise_def)
qed

text \<open>
  C7. A statement of a transaction is never sent again on its own: for a command inside a transaction, other
  than commit and abort, the retry loop of the override takes exactly one turn whatever the server answers
  or throws, for any number of retries it is given and any bound on its turns.
\<close>

theorem txn_statement_single_attempt:
  assumes "isCmdInTransaction cmdObj" and "\<not> isCommitOrAbort cmdName"
  shows "retryLoop (Suc fuel) env rerun dbName cmdName cmdObj lsid
      (canRetryNetworkErrorForCommand env cmdName cmdObj) startTime retries =
    retryLoop 1 env rerun dbName cmdName cmdObj lsid False startTime retries"
proof -
  have "canRetryNetworkErrorForCommand env cmdName cmdObj = False"
    using assms by (simp add: canRetryNetworkErrorForCommand_def)
  then show ?thesis using retryLoop_once [of fuel _ _ _ _ _ _ _ _ 0] by simp
qed

theorem txn_statement_single_attempt_witness:
  "retryLoop 8 (exampleEnv networkConfig (failOn ''find'')) (\<lambda>db c. ret Null) ''test'' ''find''
      (set_prop ''autocommit'' (JBool False) findCmd) Null
      (canRetryNetworkErrorForCommand (exampleEnv networkConfig (failOn ''find'')) ''find''
        (set_prop ''autocommit'' (JBool False) findCmd)) 0 3 =
    retryLoop 1 (exampleEnv networkConfig (failOn ''find'')) (\<lambda>db c. ret Null) ''test'' ''find''
      (set_prop ''autocommit'' (JBool False) findCmd) Null False 0 3"
proof -
  have "isCmdInTransaction (set_prop ''autocommit'' (JBool False) findCmd)" by code_simp
  moreover have "\<not> isCommitOrAbort ''find''" by code_simp
  ultimately show ?thesis using txn_statement_single_attempt [where fuel = 7] by simp
qed

text \<open>
  The concerns of a transaction's statements: for a command the override has put into a transaction,
  the read concern is forced exactly on the statement that starts it, a write concern exactly on commit and
  abort, no other field changes, and the refusals to override a given concern cannot occur.
\<close>

theorem txn_statement_concerns:
  assumes "isCmdInTransaction cmdObj" and "\<not> has_own cmdObj ''readConcern''" and "\<not> has_own cmdObj ''writeConcern''"
    and "cmdName \<in> set kCmdsSupportingTransactions \<or> isCommitOrAbort cmdName"
  shows "\<exists>c. appendReadAndWriteConcern env operationTime cmdName cmdObj = Inr c \<and>
    (has_own c ''readConcern'' \<longleftrightarrow> fld cmdObj ''startTransaction'' = JBool True) \<and>
    (has_own c ''writeConcern'' \<longleftrightarrow> isCommitOrAbort cmdName) \<and>
    (\<forall>k. k \<noteq> ''readConcern'' \<longrightarrow> k \<noteq> ''writeConcern'' \<longrightarrow> fld c k = fld cmdObj k)"
proof -
  have w: "cmdName \<in> set kCommandsSupportingWriteConcern \<and>
      cmdName \<in> set kCommandsSupportingWriteConcernInTransaction \<longleftrightarrow> isCommitOrAbort cmdName"
    by (auto simp: kCommandsSupportingWriteConcern_def kCommandsSupportingWriteConcernInTransaction_def
        isCommitOrAbort_def)
  have nodrop: "\<not> (cmdName = ''drop'' \<or> cmdName = ''convertToCapped'')"
    using assms(4) by (auto simp: kCmdsSupportingTransactions_def isCommitOrAbort_def)
  have forced: "forcedConcerns cmdName cmdObj =
      Inr (fld cmdObj ''startTransaction'' = JBool True, isCommitOrAbort cmdName)"
    using assms(1) w by (simp add: forcedConcerns_def)
  show ?thesis
    unfolding appendReadAndWriteConcern_def forced using assms(2,3) nodrop
    by (auto simp: appendReadConcern_def appendWriteConcern_def Let_def)
qed

theorem txn_statement_concerns_witness:
  "\<exists>c. appendReadAndWriteConcern (exampleEnv txnConfig (failOn ''none'')) Undef ''find''
      (set_prop ''autocommit'' (JBool False) (markStart findCmd)) = Inr c \<and>
    has_own c ''readConcern'' \<and> \<not> has_own c ''writeConcern''"
proof -
  let ?c = "set_prop ''autocommit'' (JBool False) (markStart findCmd)"
  have "isCmdInTransaction ?c" "\<not> has_own ?c ''readConcern''" "\<not> has_own ?c ''writeConcern''"
    "''find'' \<in> set kCmdsSupportingTransactions \<or> isCommitOrAbort ''find''"
    "fld ?c ''startTransaction'' = JBool True" "\<not> isCommitOrAbort ''find''" by code_simp+
  then show ?thesis using txn_statement_concerns [of ?c "''find''" "exampleEnv txnConfig (failOn ''none'')" Undef] by blast
qed

text \<open>
  C8. Ordinary network errors are retried a bounded number of times.  With only the network retries enabled, a call
  that is not nested in another one sends a command that the override accepts, that belongs to no transaction and that is not one of the
  retryable write commands; it meets the same network error at every attempt, one whose message speaks neither of the replica set monitor
  nor of a write concern error.  Then the command is sent exactly \<open>kMaxNumRetries + 1\<close> times and the error is thrown to the test, with the
  bookkeeping restored.
\<close>

theorem network_retries_bounded:
  assumes "configuredForNetworkRetry env" and "\<not> configuredForTxnOverride env"
    and "unwrapCommand (first_key cmdObj) cmdObj = Inr (name, cmd)" and "validateCmd env name cmd = Inr ()"
    and "\<not> isCmdInTransaction cmd" and "\<not> isRetryableWriteCmdName name"
    and "serverDown env dbName cmd e" and "ordinaryNetworkError (ovShell env) e"
    and "nestingLevel s = 0" and "currentCommandID s = []" and "\<not> inCommandNetworkErrorRetry s" and "5 \<le> fuel"
  shows "\<exists>s'. overrideRunCommand fuel env dbName cmdObj s = (Throw e, s') \<and>
    server s' = (after_send env dbName cmd ^^ nat (kMaxNumRetries + 1)) (server s) \<and>
    nestingLevel s' = 0 \<and> currentCommandID s' = []"
proof -
  obtain n where fuel: "fuel = Suc n" "3 < n" using assms(12) by (cases fuel) auto
  have "nestingLevel (entered s) = int (length (currentCommandID (entered s)))"
    using assms(9,10) by (simp add: entered_def)
  note same = this
  have level: "nestingLevel (entered s) = 1" "\<not> inCommandNetworkErrorRetry (entered s)"
    using assms(9,11) by (simp_all add: entered_def)
  from retryLoop_down [OF assms(1,2,8,6,7) same fuel(2), of "rerunOf n env" "fld cmd ''lsid''"
      "dateNow env (server (entered s))"]
  obtain b where loop: "retryLoop n env (rerunOf n env) dbName name cmd (fld cmd ''lsid'') True
        (dateNow env (server (entered s))) (int 3) (entered s) =
      (Throw e, (entered s)\<lparr>server := (after_send env dbName cmd ^^ Suc 3) (server (entered s)),
        inCommandNetworkErrorRetry := b\<rparr>)" by blast
  have "guardedRun n env (rerunOf n env) dbName name cmd (entered s) =
      (Throw e, (entered s)\<lparr>server := (after_send env dbName cmd ^^ Suc 3) (server (entered s)),
        inCommandNetworkErrorRetry := b\<rparr>)"
    using loop assms(1,2,4,5) level
    by (simp add: guardedRun_def runCommandOverrideBody_def bindE_def seqE_def getE_def isNested_def assertE_def
        ret_def validateCmdNetworkErrorCompatibility_def liftE_def canRetryNetworkErrorForCommand_def
        kMaxNumRetries_def Let_def)
  from runCommandOverride_Suc [OF assms(3) this]
  show ?thesis using assms(9,10)
    by (simp add: overrideRunCommand_def fuel(1) left_def entered_def kMaxNumRetries_def)
qed

theorem network_retries_bounded_witness:
  "\<exists>s'. overrideRunCommand 5 (exampleEnv networkConfig (\<lambda>_. Throw (Err ''network error''))) ''test'' findCmd
      (initialOvr []) = (Throw (Err ''network error''), s') \<and> length (server s') = 4"
proof -
  let ?e = "Err ''network error''"
  let ?env = "exampleEnv networkConfig (\<lambda>_. Throw ?e)"
  have facts: "configuredForNetworkRetry ?env" "\<not> configuredForTxnOverride ?env"
    "unwrapCommand (first_key findCmd) findCmd = Inr (''find'', findCmd)" "validateCmd ?env ''find'' findCmd = Inr ()"
    "\<not> isCmdInTransaction findCmd" "\<not> isRetryableWriteCmdName ''find''"
    "ordinaryNetworkError (ovShell ?env) ?e" by code_simp+
  have "serverDown ?env ''test'' findCmd ?e" by (simp add: serverDown_def exampleEnv_def)
  from network_retries_bounded [OF facts(1-6) this facts(7), of "initialOvr []" 5]
  show ?thesis by (auto simp: initialOvr_def kMaxNumRetries_def exampleEnv_def numeral_eq_Suc)
qed

end
