(* ===== verification/Txn_Override_Ops.thy ===== *)
theory Txn_Override_Ops
  imports Txn_Override_Thms
begin

text \<open>
  The record of the operations of the current transaction, which \<open>network_error_and_txn_override.js\<close> replays
  when a transaction has to be retried: its shape is an invariant of every command of the test.
\<close>

section \<open>The invariant\<close>

definition isGetMore :: "string \<times> jsval \<Rightarrow> bool" where
  "isGetMore op \<longleftrightarrow> first_key (snd op) = ''getMore''"

text \<open>
  The first operation starts the transaction, each one carries the transaction's marks but not its number,
  and at most \<open>maxOpsInTransaction\<close> of them are not \<open>getMore\<close>.
\<close>

definition ops_ok :: "(string \<times> jsval) list \<Rightarrow> bool" where
  "ops_ok os \<longleftrightarrow>
     length (filter (\<lambda>op. \<not> isGetMore op) os) \<le> maxOpsInTransaction \<and>
     (\<forall>op \<in> set os. fld (snd op) ''autocommit'' = JBool False \<and> \<not> has_own (snd op) ''txnNumber'') \<and>
     (os \<noteq> [] \<longrightarrow> fld (snd (hd os)) ''startTransaction'' = JBool True)"

section \<open>Lemmas: the command as it is prepared\<close>

lemma delete_eq_filter: "AList.delete k xs = filter (\<lambda>p. fst p \<noteq> k) xs"
  by (induction xs) auto

text \<open>A command object with its name as first key.\<close>

definition is_cmd :: "string \<Rightarrow> jsval \<Rightarrow> bool" where
  "is_cmd cmdName c \<longleftrightarrow> (\<exists>kvs. c = JObj kvs \<and> kvs \<noteq> [] \<and> wf_val c) \<and> first_key c = cmdName"

lemma is_cmd_set_prop:
  assumes "is_cmd cmdName c" and "wf_val x"
  shows "is_cmd cmdName (set_prop k x c)"
proof -
  obtain k0 v0 kvs where c: "c = JObj ((k0, v0) # kvs)" "wf_val c"
    using assms(1) by (auto simp: is_cmd_def neq_Nil_conv)
  have "set (AList.update k x ys) \<subseteq> insert (k, x) (set ys)" for ys
    by (induction ys) auto
  then have "wf_val (set_prop k x c)"
    using c assms(2) distinct_update [of "(k0, v0) # kvs" k x]
    by (fastforce simp: set_prop_def list_all_iff)
  moreover have "first_key (set_prop k x c) = first_key c"
    using c by (simp add: set_prop_def first_key_def obj_keys_def)
  ultimately show ?thesis using assms(1) c by (auto simp: is_cmd_def set_prop_def)
qed

lemma is_cmd_del_prop:
  assumes "is_cmd cmdName c" and "k \<noteq> cmdName"
  shows "is_cmd cmdName (del_prop k c)"
proof -
  obtain k0 v0 kvs where c: "c = JObj ((k0, v0) # kvs)" "wf_val c" and k0: "k0 = cmdName"
    using assms(1) by (auto simp: is_cmd_def neq_Nil_conv first_key_def obj_keys_def)
  have del: "del_prop k c = JObj ((k0, v0) # AList.delete k kvs)"
    using c assms(2) k0 by (simp add: del_prop_def)
  moreover have "wf_val (del_prop k c)"
    using c distinct_delete [of kvs k] unfolding del
    by (auto simp: list_all_iff delete_eq_filter)
  ultimately show ?thesis using k0 by (simp add: is_cmd_def first_key_def obj_keys_def)
qed

lemma opCopy_cmd:
  assumes "is_cmd cmdName c" and "cmdName \<noteq> ''txnNumber''" and "cmdName \<noteq> ''$clusterTime''"
  shows "opCopy c = del_prop ''$clusterTime'' (del_prop ''txnNumber'' c) \<and> first_key (opCopy c) = cmdName"
proof -
  obtain kvs where "c = JObj kvs" "wf_val c" using assms(1) by (auto simp: is_cmd_def)
  then have "opCopy c = del_prop ''$clusterTime'' (del_prop ''txnNumber'' c)"
    using deepCopyObject_id by (simp add: opCopy_def)
  moreover have "is_cmd cmdName (del_prop ''$clusterTime'' (del_prop ''txnNumber'' c))"
    using assms by (intro is_cmd_del_prop) auto
  ultimately show ?thesis by (simp add: is_cmd_def)
qed

text \<open>Recording one more operation.\<close>

lemma ops_ok_push:
  assumes "ops_ok os" and "is_cmd cmdName c" and "cmdName \<noteq> ''txnNumber''" and "cmdName \<noteq> ''$clusterTime''"
    and "fld c ''autocommit'' = JBool False"
    and "os = [] \<and> fld c ''startTransaction'' = JBool True \<or>
      os \<noteq> [] \<and> (cmdName = ''getMore'' \<or> length os < maxOpsInTransaction)"
  shows "ops_ok (os @ [(db, opCopy c)])"
proof -
  have copy: "opCopy c = del_prop ''$clusterTime'' (del_prop ''txnNumber'' c)" "first_key (opCopy c) = cmdName"
    using opCopy_cmd [OF assms(2-4)] by auto
  have "length (filter (\<lambda>op. first_key (snd op) \<noteq> ''getMore'') os) < maxOpsInTransaction"
    if "length os < maxOpsInTransaction"
    using that length_filter_le [of "\<lambda>op. first_key (snd op) \<noteq> ''getMore''" os] by linarith
  then show ?thesis
    using assms(1,5,6) copy
    by (auto simp: ops_ok_def isGetMore_def maxOpsInTransaction_def)
qed

section \<open>Lemmas: the set-up of a top-level command\<close>

abbreviation ops_inv :: "'s oenv \<Rightarrow> nat list \<Rightarrow> int \<Rightarrow> nat \<Rightarrow> 's ovr \<Rightarrow> bool" where
  "ops_inv env ids T N \<equiv> top_inv env ids ops_ok T N"

lemma ops_ok_Nil [simp]: "ops_ok []"
  by (simp add: ops_ok_def)

lemma safe_ops_inv_enter: "safe (ops_inv env ids T N) (enterTransaction env (rerunOf fuel env) cmdName cmdObj lsid)"
  unfolding enterTransaction_def by (intro nested_run.txn_rules)

lemma commit_Val: "commitTransaction env rerun lsid n s = (Val u, t) \<Longrightarrow> ops t = []"
  by (auto simp: commitTransaction_def run_Val clearOpsList_def modE_def)

lemma isNested_top: "nestingLevel s = 1 \<Longrightarrow> isNested s = (Val False, s)"
  by (simp add: isNested_def bindE_def seqE_def getE_def assertE_def ret_def)

text \<open>A top-level command either starts a transaction or joins one with room for it.\<close>

definition joined :: "string \<Rightarrow> jsval \<Rightarrow> jsval \<Rightarrow> (string \<times> jsval) list \<Rightarrow> bool" where
  "joined cmdName cmdObj c os \<longleftrightarrow>
     os = [] \<and> c = markStart cmdObj \<or>
     os \<noteq> [] \<and> c = cmdObj \<and> (cmdName = ''getMore'' \<or> length os < maxOpsInTransaction)"

lemma enter_joined:
  assumes "nestingLevel s = 1" and "enterTransaction env rerun cmdName cmdObj lsid s = (Val c, t)"
  shows "joined cmdName cmdObj c (ops t)"
proof -
  have start: "startNewTransaction s' = (Val x, t') \<Longrightarrow> ops t' = ops s'" for s' t' and x :: int
    by (auto simp: startNewTransaction_def run_Val modE_def getE_def)
  show ?thesis
    using assms(2) unfolding enterTransaction_def joined_def
    by (auto simp: run_Val isNested_top [OF assms(1)] getE_def ret_def assertE_def raise_def split: if_splits
        dest!: start commit_Val)
qed

definition marked :: "int \<Rightarrow> int \<Rightarrow> jsval \<Rightarrow> jsval" where
  "marked n i c = set_prop ''autocommit'' (JBool False) (set_prop ''stmtId'' (JInt i) (set_prop ''txnNumber'' (JLong n) c))"

lemma continue_run:
  assumes "nestingLevel s = 1" and "continueTransaction env dbName cmdName c s = (r, t)"
  shows "\<exists>i. t = s\<lparr>stmtId := i\<rparr> \<or>
    t = s\<lparr>stmtId := i, ops := ops s @ [(dbName, opCopy (marked (txnNumber s) (stmtId s) c))]\<rparr>"
proof -
  have nested: "isNested (s\<lparr>stmtId := i\<rparr>) = (Val False, s\<lparr>stmtId := i\<rparr>)" for i
    using assms(1) by (simp add: isNested_top)
  show ?thesis
    using assms(2) nested
    by (auto simp: continueTransaction_def Let_def bindE_def seqE_def getE_def modE_def assertE_def ret_def raise_def
        marked_def split: if_splits)
qed

lemma hoare_conj:
  assumes "hoare R m (\<lambda>_. R) E" and "\<And>s x t. R s \<Longrightarrow> m s = (Val x, t) \<Longrightarrow> Q x t"
  shows "hoare R m (\<lambda>x s. R s \<and> Q x s) E"
  using assms unfolding hoare_def by (fastforce split: prod.splits outcome.splits)

lemma liftE_bind: "bindE (liftE (Inl e)) f = raise e" "bindE (liftE (Inr x)) f = f x"
  by (simp_all add: fun_eq_iff bindE_def liftE_def raise_def ret_def)

lemma supports_cases:
  "commandSupportsTxn dbName cmdName c = Inr True \<Longrightarrow>
   cmdName \<in> set kCmdsSupportingTransactions \<or> isCommitOrAbort cmdName"
  by (auto simp: commandSupportsTxn_def isCommitOrAbort_def split: if_splits)

lemma supports_name:
  assumes "commandSupportsTxn dbName cmdName c = Inr True"
  shows "cmdName \<notin> {''txnNumber'', ''$clusterTime'', ''readConcern'', ''writeConcern''}"
  using supports_cases [OF assms] by (auto simp: kCmdsSupportingTransactions_def isCommitOrAbort_def)

lemma continue_ok:
  assumes "is_cmd cmdName cmdObj" and "cmdName \<notin> {''txnNumber'', ''$clusterTime'', ''readConcern'', ''writeConcern''}"
  shows "hoare (\<lambda>s. ops_inv env ids T N s \<and> joined cmdName cmdObj c (ops s))
    (continueTransaction env dbName cmdName c) (\<lambda>_. ops_inv env ids T N) (ops_inv env ids T N)"
proof -
  have "ops_inv env ids T N t"
    if inv: "ops_inv env ids T N s" and join: "joined cmdName cmdObj c (ops s)"
      and run: "continueTransaction env dbName cmdName c s = (r, t)" for s r t
  proof -
    let ?c = "marked (txnNumber s) (stmtId s) c"
    have "is_cmd cmdName ?c"
      using join assms(1) by (auto simp: joined_def marked_def markStart_def intro!: is_cmd_set_prop)
    then have "ops_ok (ops s @ [(dbName, opCopy ?c)])"
      using inv join assms(2)
      by (intro ops_ok_push [of _ cmdName]) (auto simp: nest_inv_def joined_def marked_def markStart_def)
    then show ?thesis
      using continue_run [OF _ run] inv by (auto simp: nest_inv_def)
  qed
  then show ?thesis by (auto simp: hoare_def split: prod.splits outcome.splits)
qed

lemma transaction_ok:
  assumes "is_cmd cmdName cmdObj" and "cmdName \<notin> {''txnNumber'', ''$clusterTime'', ''readConcern'', ''writeConcern''}"
  shows "safe (ops_inv env ids T N)
    (bindE (enterTransaction env (rerunOf fuel env) cmdName cmdObj lsid)
       (\<lambda>c. continueTransaction env dbName cmdName c))"
  unfolding safe_hoare
proof (rule hoare_bindE [OF _ continue_ok [OF assms]])
  show "hoare (ops_inv env ids T N) (enterTransaction env (rerunOf fuel env) cmdName cmdObj lsid)
      (\<lambda>c s. ops_inv env ids T N s \<and> joined cmdName cmdObj c (ops s)) (ops_inv env ids T N)"
    by (rule hoare_conj [OF safe_ops_inv_enter [unfolded safe_hoare]])
      (auto simp: nest_inv_def dest: enter_joined)
qed

lemma setup_ok:
  assumes "is_cmd cmdName cmdObj"
  shows "safe (ops_inv env ids T N)
    (setupTransactionCommand env (rerunOf fuel env) dbName cmdName cmdObj lsid)"
proof -
  let ?c = "del_prop ''writeConcern'' (del_prop ''readConcern'' cmdObj)"
  show ?thesis
  proof (cases "commandSupportsTxn dbName cmdName ?c = Inr True")
    case True
    then have "is_cmd cmdName ?c" using assms supports_name [OF True] by (auto intro!: is_cmd_del_prop)
    note tr = transaction_ok [OF this supports_name [OF True]]
    show ?thesis unfolding setupTransactionCommand_def Let_def True
      by (intro tr nested_run.txn_rules)
  next
    case False
    then consider e where "commandSupportsTxn dbName cmdName ?c = Inl e"
      | "commandSupportsTxn dbName cmdName ?c = Inr False"
      by (cases "commandSupportsTxn dbName cmdName ?c") auto
    then show ?thesis
      by cases (auto simp: setupTransactionCommand_def Let_def liftE_bind intro!: nested_run.txn_rules)
  qed
qed

section \<open>Theorem\<close>

text \<open>
  C6. The record of a transaction stays replayable and bounded: every top-level command, whatever the server
  answers, keeps the invariant that the recorded operations begin with the one that starts the transaction,
  that each is marked as part of a transaction and carries no stale transaction number, and that at most ten
  of them are not \<open>getMore\<close>; the initial state satisfies it.
\<close>

theorem override_ops_invariant:
  assumes "overrideRunCommand fuel env dbName cmdObj s = (r, s')" and "r \<noteq> Diverge"
    and "session_wf env" and "unwrapCommand (first_key cmdObj) cmdObj = Inr (name, JObj kvs)"
    and "kvs \<noteq> []" and "wf_val (JObj kvs)" and "nestingLevel s = 0" and "ops_ok (ops s)"
  shows "ops_ok (ops s') \<and> ops_ok (ops (initialOvr sv))"
proof -
  obtain n t where run: "guardedRun n env (rerunOf n env) dbName name (JObj kvs) (entered s) = (r, t)"
    and s': "s' = left t"
    by (rule override_run [OF assms(1,2,4)]) auto
  have cmd: "is_cmd name (JObj kvs)"
    using assms(4-6) by (auto simp: is_cmd_def unwrapCommand_def Let_def rbind_Inr split: if_splits)
  let ?J = "ops_inv env (currentCommandID s @ [newestCommandID s]) (txnNumber s) 0"
  have "?J (entered s)" using assms(3,7,8) by (simp add: nest_inv_def entered_def)
  moreover have "safe ?J (guardedRun n env (rerunOf n env) dbName name (JObj kvs))"
    by (rule nested_run.safe_guardedRun, rule setup_ok [OF cmd])
  ultimately have "?J t" using safeD [of ?J] run assms(2) by (metis fst_conv snd_conv)
  then show ?thesis by (simp add: s' nest_inv_def left_def initialOvr_def)
qed

theorem override_ops_invariant_witness:
  "ops_ok (ops (snd (overrideRunCommand 2 (exampleEnv txnConfig (failOn ''none'')) ''test'' findCmd (initialOvr [])))) \<and>
   length (ops (snd (overrideRunCommand 2 (exampleEnv txnConfig (failOn ''none'')) ''test'' findCmd (initialOvr [])))) = 1"
proof -
  let ?run = "overrideRunCommand 2 (exampleEnv txnConfig (failOn ''none'')) ''test'' findCmd (initialOvr [])"
  let ?kvs = "[(''find'', JStr ''c''), (''lsid'', JExt ''lsid'' ''1'')]"
  have run: "fst ?run = Val okRes \<and> length (ops (snd ?run)) = 1" by code_simp
  moreover have "unwrapCommand (first_key findCmd) findCmd = Inr (''find'', JObj ?kvs)" by code_simp
  moreover have "wf_val (JObj ?kvs)" by code_simp
  ultimately show ?thesis
    using override_ops_invariant [OF prod.collapse [symmetric] _ exampleEnv_session_wf, of 2 txnConfig
        "failOn ''none''" "''test''" findCmd "initialOvr []" "''find''" ?kvs]
    by (simp add: initialOvr_def)
qed

end
