(* ===== verification/Stepdown.thy ===== *)
theory Stepdown
  imports Shell
begin

text \<open>
  The continuous step-down of \<open>override_methods/continuous_stepdown.js\<close>: a thread that keeps stepping down the
  primary of a replica set until a latch is counted down, the object that starts and stops it, and the
  overrides of \<open>ReplSetTest\<close> and \<open>ShardingTest\<close> that use it.  The thread is a program counter that takes one turn at a time, so that
  its turns interleave with the test in every possible way; a call on a server answers or throws and acts on
  a world of its own.
\<close>

section \<open>The thread\<close>

type_synonym ('w, 'a) call = "'w \<Rightarrow> 'a result \<times> 'w"

definition callE :: "('w, 'a) call \<Rightarrow> ('w, 'a) eff" where
  "callE f = (\<lambda>w. case f w of (Inl e, w') \<Rightarrow> (Throw e, w') | (Inr x, w') \<Rightarrow> (Val x, w'))"

record 'w sdEnv =
  sdShell :: shell
  sdConnect :: "string \<Rightarrow> ('w, unit) call"                 \<comment> \<open>\<open>new ReplSetTest(seedNode)\<close>\<close>
  sdGetPrimary :: "('w, string) call"
  sdAdminCommand :: "string \<Rightarrow> jsval \<Rightarrow> ('w, jsval) call"
  sdSleep :: "jsval \<Rightarrow> 'w \<Rightarrow> 'w"
  sdToString :: "exn \<Rightarrow> string"
  sdStack :: "exn \<Rightarrow> jsval"
  sdGetConfig :: "('w, jsval) call"                        \<comment> \<open>\<open>getReplSetConfigFromNode\<close>\<close>
  sdReconfig :: "jsval \<Rightarrow> ('w, unit) call"
  sdSeed :: string                                         \<comment> \<open>\<open>nodes[0].host\<close>\<close>
  sdStopSet :: "('w, unit) call"

text \<open>Where the thread is; the node is the value of \<open>primary\<close>.\<close>

datatype pc =
    Connecting
  | Discovering
  | Testing string            \<comment> \<open>the condition of the loop\<close>
  | SteppingDown string
  | ChoosingPrimary string    \<comment> \<open>the first test of the latch in the body\<close>
  | Finding
  | ChoosingSleep string      \<comment> \<open>the second one\<close>
  | Sleeping string
  | Finished jsval

definition sdFailed :: "'w sdEnv \<Rightarrow> exn \<Rightarrow> jsval" where
  "sdFailed env e = JObj [(''ok'', jnum 0), (''error'', JStr (sdToString env e)), (''stack'', sdStack env e)]"

text \<open>The handler around the thread: an exception ends it with its description.\<close>

definition caught :: "'w sdEnv \<Rightarrow> ('a \<Rightarrow> pc) \<Rightarrow> 'a result \<times> 'w \<Rightarrow> pc \<times> 'w" where
  "caught env f = (\<lambda>(r, w). (case r of Inl e \<Rightarrow> Finished (sdFailed env e) | Inr x \<Rightarrow> f x, w))"

definition stepDownCmd :: "jsval \<Rightarrow> jsval" where
  "stepDownCmd options = JObj [(''replSetStepDown'', fld options ''stepdownDurationSecs''), (''force'', JBool True)]"

definition stepDownAnswer :: "'w sdEnv \<Rightarrow> string \<Rightarrow> jsval \<Rightarrow> pc" where
  "stepDownAnswer env primary res =
     (case commandWorkedOrFailedWithCode (sdShell env) res
        [errorCode (sdShell env) ''NotMaster'', errorCode (sdShell env) ''ConflictingOperationInProgress''] of
        None \<Rightarrow> ChoosingPrimary primary
      | Some e \<Rightarrow> Finished (sdFailed env e))"

fun continuousPrimaryStepdownFn :: "'w sdEnv \<Rightarrow> string \<Rightarrow> jsval \<Rightarrow> nat \<Rightarrow> pc \<Rightarrow> 'w \<Rightarrow> pc \<times> 'w" where
  "continuousPrimaryStepdownFn env seed options latch Connecting w = caught env (\<lambda>_. Discovering) (sdConnect env seed w)"
| "continuousPrimaryStepdownFn env seed options latch Discovering w = caught env Testing (sdGetPrimary env w)"
| "continuousPrimaryStepdownFn env seed options latch (Testing p) w =
     (if latch > 0 then SteppingDown p else Finished (JObj [(''ok'', jnum 1)]), w)"
| "continuousPrimaryStepdownFn env seed options latch (SteppingDown p) w =
     caught env (stepDownAnswer env p) (sdAdminCommand env p (stepDownCmd options) w)"
| "continuousPrimaryStepdownFn env seed options latch (ChoosingPrimary p) w =
     (if latch > 0 then Finding else ChoosingSleep p, w)"
| "continuousPrimaryStepdownFn env seed options latch Finding w = caught env ChoosingSleep (sdGetPrimary env w)"
| "continuousPrimaryStepdownFn env seed options latch (ChoosingSleep p) w =
     (if latch > 0 then Sleeping p else Testing p, w)"
| "continuousPrimaryStepdownFn env seed options latch (Sleeping p) w =
     (Testing p, sdSleep env (fld options ''stepdownIntervalMS'') w)"
| "continuousPrimaryStepdownFn env seed options latch (Finished r) w = (Finished r, w)"

section \<open>The object that owns the thread\<close>

record sdThread =
  tSeed :: string
  tOptions :: jsval
  tLatch :: nat         \<comment> \<open>the count of the latch the thread was given\<close>
  tPc :: pc

text \<open>
  \<open>counter\<close> tells whether \<open>_counter\<close> holds the latch; \<open>joining\<close> that the test is inside \<open>stop\<close>, waiting for the
  thread.  Two fields only record history: the step-downs sent, and how many they were when \<open>stop\<close> was called last.
\<close>

record 'w sdObj =
  counter :: bool
  thread :: "sdThread option"
  joining :: bool
  sentDowns :: nat
  sentAtStop :: nat
  sdWorld :: 'w

definition newStepdownThread :: "'w \<Rightarrow> 'w sdObj" where
  "newStepdownThread w = \<lparr>counter = False, thread = None, joining = False, sentDowns = 0, sentAtStop = 0, sdWorld = w\<rparr>"

definition hasStarted :: "'w sdObj \<Rightarrow> bool" where
  "hasStarted s \<longleftrightarrow> thread s \<noteq> None"

definition sdStart :: "string \<Rightarrow> jsval \<Rightarrow> ('w sdObj, unit) eff" where
  "sdStart seedNode options =
     bindE (getE thread) (\<lambda>t.
     if t \<noteq> None then raise (Err ''Continuous stepdown thread is already active'')
     else modE (\<lambda>s. s\<lparr>counter := True,
            thread := Some \<lparr>tSeed = seedNode, tOptions = options, tLatch = 1, tPc = Connecting\<rparr>\<rparr>))"

text \<open>\<open>stop\<close> up to the call of \<open>join\<close>, and the rest of it, which is blocked while the thread runs.\<close>

definition stopBegin :: "('w sdObj, unit) eff" where
  "stopBegin =
     bindE (getE thread) (\<lambda>th.
     case th of
       None \<Rightarrow> raise (Err ''Continuous stepdown thread is not active'')
     | Some t \<Rightarrow> modE (\<lambda>s. s\<lparr>thread := Some (t\<lparr>tLatch := tLatch t - 1\<rparr>), counter := False,
            joining := True, sentAtStop := sentDowns s\<rparr>))"

definition stopEnd :: "'w sdEnv \<Rightarrow> ('w sdObj, unit) eff" where
  "stopEnd env =
     bindE (getE thread) (\<lambda>th.
     case th of
       None \<Rightarrow> diverge
     | Some t \<Rightarrow> (case tPc t of
           Finished retVal \<Rightarrow>
             seqE (modE (\<lambda>s. s\<lparr>thread := None, joining := False\<rparr>)) (checkE (commandWorked (sdShell env) retVal))
         | _ \<Rightarrow> diverge))"

definition sendsDown :: "pc \<Rightarrow> nat" where
  "sendsDown p = (case p of SteppingDown _ \<Rightarrow> 1 | _ \<Rightarrow> 0)"

definition threadTurn :: "'w sdEnv \<Rightarrow> 'w sdObj \<Rightarrow> 'w sdObj" where
  "threadTurn env s =
     (case thread s of
        None \<Rightarrow> s
      | Some t \<Rightarrow>
          let (pc', w') = continuousPrimaryStepdownFn env (tSeed t) (tOptions t) (tLatch t) (tPc t) (sdWorld s) in
          s\<lparr>thread := Some (t\<lparr>tPc := pc'\<rparr>), sdWorld := w', sentDowns := sentDowns s + sendsDown (tPc t)\<rparr>)"

text \<open>The whole call of \<open>stop\<close>: while the test waits, the thread takes its turns.\<close>

definition sdStop :: "'w sdEnv \<Rightarrow> nat \<Rightarrow> ('w sdObj, unit) eff" where
  "sdStop env turns = seqE stopBegin (seqE (modE (threadTurn env ^^ turns)) (stopEnd env))"

section \<open>Interleavings\<close>

text \<open>One step of the test or of the thread; the rest of the test and the servers may change the world at any time.\<close>

inductive sd_step :: "'w sdEnv \<Rightarrow> 'w sdObj \<Rightarrow> 'w sdObj \<Rightarrow> bool" for env where
  starts: "\<not> joining s \<Longrightarrow> sdStart seed options s = (Val (), s') \<Longrightarrow> sd_step env s s'"
| stops: "\<not> joining s \<Longrightarrow> stopBegin s = (Val (), s') \<Longrightarrow> sd_step env s s'"
| joins: "joining s \<Longrightarrow> stopEnd env s = (r, s') \<Longrightarrow> r \<noteq> Diverge \<Longrightarrow> sd_step env s s'"
| turns: "sd_step env s (threadTurn env s)"
| world: "sd_step env s (s\<lparr>sdWorld := w\<rparr>)"

definition sd_inv :: "'w sdObj \<Rightarrow> bool" where
  "sd_inv s \<longleftrightarrow>
     (case thread s of
        None \<Rightarrow> \<not> counter s \<and> \<not> joining s
      | Some t \<Rightarrow> (counter s \<longleftrightarrow> \<not> joining s) \<and> tLatch t = (if joining s then 0 else 1) \<and>
          (joining s \<longrightarrow> sentDowns s + sendsDown (tPc t) \<le> sentAtStop s + 1))"

lemma sd_inv_new: "sd_inv (newStepdownThread w)" "\<not> joining (newStepdownThread w)"
  by (simp_all add: sd_inv_def newStepdownThread_def)

lemma sendsDown_le: "sendsDown p \<le> Suc 0"
  by (simp add: sendsDown_def split: pc.split)

lemma closed_sends_no_more:
  "sendsDown (fst (continuousPrimaryStepdownFn env seed options 0 p w)) = 0"
  by (cases p) (auto simp: caught_def sendsDown_def stepDownAnswer_def split: prod.split sum.split option.split)

lemma sd_inv_turn:
  assumes "sd_inv s"
  shows "sd_inv (threadTurn env s)"
proof (cases "thread s")
  case (Some t)
  obtain pc' w' where step: "continuousPrimaryStepdownFn env (tSeed t) (tOptions t) (tLatch t) (tPc t) (sdWorld s) = (pc', w')"
    by (cases "continuousPrimaryStepdownFn env (tSeed t) (tOptions t) (tLatch t) (tPc t) (sdWorld s)")
  have "joining s \<Longrightarrow> sendsDown pc' = 0"
    using closed_sends_no_more [of env "tSeed t" "tOptions t" "tPc t" "sdWorld s"] step assms Some by (simp add: sd_inv_def)
  moreover have "threadTurn env s =
      s\<lparr>thread := Some (t\<lparr>tPc := pc'\<rparr>), sdWorld := w', sentDowns := sentDowns s + sendsDown (tPc t)\<rparr>"
    using Some step by (simp add: threadTurn_def)
  ultimately show ?thesis using assms Some by (auto simp: sd_inv_def)
qed (use assms in \<open>simp add: threadTurn_def\<close>)

lemma sd_inv_step: "sd_step env s s' \<Longrightarrow> sd_inv s \<Longrightarrow> sd_inv s'"
proof (induction rule: sd_step.induct)
  case (turns s)
  then show ?case by (rule sd_inv_turn)
qed (auto simp: sd_inv_def sdStart_def stopBegin_def stopEnd_def js_simps seqE_def sendsDown_le checkE_def ret_def raise_def
    split: option.splits if_splits pc.splits)

lemma sd_inv_reachable: "(sd_step env)\<^sup>*\<^sup>* s s' \<Longrightarrow> sd_inv s \<Longrightarrow> sd_inv s'"
  by (induction rule: rtranclp_induct) (auto intro: sd_inv_step)

text \<open>How many turns the thread needs once the latch is down.\<close>

fun turnsLeft :: "pc \<Rightarrow> nat" where
  "turnsLeft Connecting = 3"
| "turnsLeft Discovering = 2"
| "turnsLeft (Testing _) = 1"
| "turnsLeft (SteppingDown _) = 4"
| "turnsLeft (ChoosingPrimary _) = 3"
| "turnsLeft Finding = 3"
| "turnsLeft (ChoosingSleep _) = 2"
| "turnsLeft (Sleeping _) = 2"
| "turnsLeft (Finished _) = 0"

lemma turnsLeft_le: "turnsLeft p \<le> 4"
  by (cases p) auto

lemma turnsLeft_closed: "turnsLeft (fst (continuousPrimaryStepdownFn env seed options 0 p w)) \<le> turnsLeft p - 1"
  by (cases p) (auto simp: caught_def stepDownAnswer_def split: prod.split sum.split option.split)

lemma closed_finishes:
  "thread s = Some t \<Longrightarrow> tLatch t = 0 \<Longrightarrow> turnsLeft (tPc t) \<le> n \<Longrightarrow>
   \<exists>t'. thread ((threadTurn env ^^ n) s) = Some t' \<and> (\<exists>r. tPc t' = Finished r)"
proof (induction n arbitrary: s t)
  case 0
  then show ?case by (cases "tPc t") auto
next
  case (Suc n)
  let ?step = "continuousPrimaryStepdownFn env (tSeed t) (tOptions t) (tLatch t) (tPc t) (sdWorld s)"
  have th: "thread (threadTurn env s) = Some (t\<lparr>tPc := fst ?step\<rparr>)"
    using Suc.prems(1) by (simp add: threadTurn_def case_prod_beta)
  have "turnsLeft (fst ?step) \<le> n" using turnsLeft_closed [of env _ _ "tPc t"] Suc.prems(2,3) by (metis (no_types, lifting) Suc_le_mono diff_Suc_1 diff_le_mono order_trans)
  with Suc.IH [OF th] Suc.prems(2) show ?case by (simp add: funpow_swap1)
qed

lemma threadTurns_sel:
  "counter ((threadTurn env ^^ n) s) = counter s" "joining ((threadTurn env ^^ n) s) = joining s"
  "sentAtStop ((threadTurn env ^^ n) s) = sentAtStop s"
  by (induction n) (auto simp: threadTurn_def Let_def split: option.split prod.split)

lemma sd_inv_turns: "sd_inv s \<Longrightarrow> sd_inv ((threadTurn env ^^ n) s)"
  by (induction n) (auto intro: sd_inv_turn)

lemma stopEnd_run:
  assumes "thread s = Some t" and "tPc t = Finished r"
  shows "stopEnd env s =
    (case commandWorked (sdShell env) r of None \<Rightarrow> Val () | Some e \<Rightarrow> Throw e, s\<lparr>thread := None, joining := False\<rparr>)"
  using assms by (simp add: stopEnd_def js_simps checkE_def ret_def raise_def split: option.split)

lemma sdStop_run:
  assumes "sd_inv s" and "hasStarted s" and "\<not> joining s" and "4 \<le> n"
  obtains r s' where "sdStop env n s = (r, s')" "r \<noteq> Diverge" "thread s' = None" "\<not> joining s'" "sentDowns s' \<le> sentDowns s + 1"
proof -
  from assms(2) obtain t where t: "thread s = Some t" by (auto simp: hasStarted_def)
  define s1 where "s1 = s\<lparr>thread := Some (t\<lparr>tLatch := tLatch t - 1\<rparr>), counter := False, joining := True, sentAtStop := sentDowns s\<rparr>"
  have 1: "stopBegin s = (Val (), s1)" by (simp add: stopBegin_def t s1_def js_simps)
  have inv1: "sd_inv s1" by (rule sd_inv_step [OF stops [OF assms(3) 1] assms(1)])
  have "thread s1 = Some (t\<lparr>tLatch := tLatch t - 1\<rparr>)" "tLatch (t\<lparr>tLatch := tLatch t - 1\<rparr>) = 0"
    using assms(1,3) t by (auto simp: s1_def sd_inv_def)
  from closed_finishes [OF this, of n env] turnsLeft_le assms(4)
  obtain t' r where t': "thread ((threadTurn env ^^ n) s1) = Some t'" "tPc t' = Finished r" by (meson order_trans)
  from sd_inv_turns [OF inv1, of n env] t' have "sentDowns ((threadTurn env ^^ n) s1) \<le> sentDowns s + 1"
    by (auto simp: sd_inv_def threadTurns_sel s1_def sendsDown_def)
  with t' show ?thesis
    by (intro that [of "fst (stopEnd env ((threadTurn env ^^ n) s1))" "snd (stopEnd env ((threadTurn env ^^ n) s1))"])
      (auto simp: sdStop_def js_simps 1 stopEnd_run [OF t'] split: option.split)
qed

text \<open>
  C21. Stopping the step-down thread is prompt and final, whatever the interleaving: a thread that was started can be stopped
  at any moment; the call returns or throws after at most four more turns of the thread and never hangs,
  the thread is gone afterwards, and it has sent at most one more step-down command.\<close>

theorem stepdown_stop_prompt:
  assumes "(sd_step env)\<^sup>*\<^sup>* (newStepdownThread w) s" and "hasStarted s" and "\<not> joining s" and "4 \<le> n"
  shows "\<exists>r s'. sdStop env n s = (r, s') \<and> r \<noteq> Diverge \<and> \<not> hasStarted s' \<and> sentDowns s' \<le> sentDowns s + 1"
proof -
  have inv: "sd_inv s" by (rule sd_inv_reachable [OF assms(1) sd_inv_new(1)])
  obtain r s' where "sdStop env n s = (r, s')" "r \<noteq> Diverge" "thread s' = None" "sentDowns s' \<le> sentDowns s + 1"
    by (rule sdStop_run [OF inv assms(2-4)])
  then show ?thesis by (simp add: hasStarted_def)
qed

section \<open>Replica sets\<close>

definition defaultOptions :: jsval where
  "defaultOptions = JObj [(''configStepdown'', JBool True), (''electionTimeoutMS'', jnum 5000), (''shardStepdown'', JBool True),
     (''stepdownDurationSecs'', jnum 10), (''stepdownIntervalMS'', jnum 8000), (''catchUpTimeoutMS'', jnum 0)]"

definition mergedOptions :: "jsval \<Rightarrow> jsval" where
  "mergedOptions stepdownOptions = obj_assign defaultOptions stepdownOptions"

text \<open>A server parameter in the form \<open>name=value\<close>, or an object of parameters.\<close>

definition setParamToObj :: "jsval \<Rightarrow> jsval" where
  "setParamToObj setParam =
     (case setParam of
        JStr str \<Rightarrow>
          if CHR ''='' \<in> set str
          then JObj [(takeWhile (\<lambda>c. c \<noteq> CHR ''='') str, JStr (tl (dropWhile (\<lambda>c. c \<noteq> CHR ''='') str)))]
          else obj_assign (JObj []) (js_or setParam (JObj []))
      | _ \<Rightarrow> obj_assign (JObj []) (js_or setParam (JObj [])))"

definition startSetOptions :: "jsval \<Rightarrow> jsval \<Rightarrow> jsval \<Rightarrow> jsval" where
  "startSetOptions origNodeOpts verbositySetting arg =
     (let options = js_or arg (JObj []) in
      set_prop ''setParameter''
        (obj_assign (obj_assign (setParamToObj (fld origNodeOpts ''setParameter'')) (setParamToObj (fld options ''setParameter'')))
           (JObj [(''logComponentVerbosity'', verbositySetting)])) options)"

definition onServers :: "('w, 'a) call \<Rightarrow> ('w sdObj, 'a) eff" where
  "onServers f = (\<lambda>s. case callE f (sdWorld s) of (r, w) \<Rightarrow> (r, s\<lparr>sdWorld := w\<rparr>))"

definition wantedTimeouts :: "jsval \<Rightarrow> jsval \<Rightarrow> bool" where
  "wantedTimeouts options settings \<longleftrightarrow>
     strict_eq (fld settings ''electionTimeoutMillis'') (fld options ''electionTimeoutMS'') \<and>
     strict_eq (fld settings ''catchUpTimeoutMillis'') (fld options ''catchUpTimeoutMS'')"

definition newConfig :: "jsval \<Rightarrow> jsval \<Rightarrow> jsval" where
  "newConfig options rsconfig =
     set_prop ''version'' (JNum (num_add (to_number (fld rsconfig ''version'')) (Fin 1)))
       (set_prop ''settings''
         (set_prop ''catchUpTimeoutMillis'' (fld options ''catchUpTimeoutMS'')
           (set_prop ''electionTimeoutMillis'' (fld options ''electionTimeoutMS'') (fld rsconfig ''settings''))) rsconfig)"

definition ensureTimeouts :: "'w sdEnv \<Rightarrow> jsval \<Rightarrow> ('w sdObj, unit) eff" where
  "ensureTimeouts env options =
     bindE (onServers (sdGetConfig env)) (\<lambda>rsconfig.
     bindE (liftE (rbind (get_prop rsconfig ''settings'') (\<lambda>v. rbind (get_prop v ''electionTimeoutMillis'') (\<lambda>_. Inr v)))) (\<lambda>settings.
     if wantedTimeouts options settings then ret ()
     else seqE (onServers (sdReconfig env (newConfig options rsconfig)))
         (bindE (onServers (sdGetConfig env)) (\<lambda>rsconfig'.
          bindE (liftE (get_prop rsconfig' ''settings'')) (\<lambda>newSettings.
          seqE (liftE (rbind (get_prop newSettings ''electionTimeoutMillis'') (\<lambda>_. Inr ())))
         (seqE (assertE (fld newSettings ''electionTimeoutMillis'' = fld options ''electionTimeoutMS'') ''Failed to set the electionTimeoutMillis'')
          (assertE (fld newSettings ''catchUpTimeoutMillis'' = fld options ''catchUpTimeoutMS'') ''Failed to set the catchUpTimeoutMillis'')))))))"

definition startContinuousFailover :: "'w sdEnv \<Rightarrow> jsval \<Rightarrow> ('w sdObj, unit) eff" where
  "startContinuousFailover env options =
     bindE (getE hasStarted) (\<lambda>started.
     if started then raise (Err ''Continuous failover thread is already active'')
     else seqE (ensureTimeouts env options) (sdStart (sdSeed env) options))"

definition stopContinuousFailover :: "'w sdEnv \<Rightarrow> nat \<Rightarrow> bool \<Rightarrow> ('w sdObj, unit) eff" where
  "stopContinuousFailover env turns waitForPrimary =
     bindE (getE hasStarted) (\<lambda>started.
     if \<not> started then ret ()
     else seqE (sdStop env turns)
         (if waitForPrimary then bindE (onServers (sdGetPrimary env)) (\<lambda>_. ret ()) else ret ()))"

definition stopSetWithStepdown :: "'w sdEnv \<Rightarrow> nat \<Rightarrow> ('w sdObj, unit) eff" where
  "stopSetWithStepdown env turns = seqE (stopContinuousFailover env turns False) (onServers (sdStopSet env))"

section \<open>Sharded clusters\<close>

text \<open>Each replica set has servers of its own; a shard that is a standalone server has no replica set.\<close>

record 'w stState =
  configRS :: "'w sdObj option"
  rs :: "'w sdObj option list"

definition onConfig :: "('w sdObj, unit) eff \<Rightarrow> ('w stState, unit) eff" where
  "onConfig m = (\<lambda>st. case configRS st of
      None \<Rightarrow> (Throw (TypeErr ''configRS is undefined''), st)
    | Some x \<Rightarrow> (case m x of (r, x') \<Rightarrow> (r, st\<lparr>configRS := Some x'\<rparr>)))"

fun eachSet :: "('w sdObj, unit) eff \<Rightarrow> ('w sdObj option list, unit) eff" where
  "eachSet m [] = (Val (), [])"
| "eachSet m (None # xs) = (Throw (TypeErr ''rst is null''), None # xs)"
| "eachSet m (Some x # xs) =
     (case m x of
        (Val u, x') \<Rightarrow> (case eachSet m xs of (r, xs') \<Rightarrow> (r, Some x' # xs'))
      | (r, x') \<Rightarrow> (r, Some x' # xs))"

definition onShards :: "('w sdObj, unit) eff \<Rightarrow> ('w stState, unit) eff" where
  "onShards m = (\<lambda>st. case eachSet m (rs st) of (r, xs) \<Rightarrow> (r, st\<lparr>rs := xs\<rparr>))"

definition forSets :: "jsval \<Rightarrow> ('w sdObj, unit) eff \<Rightarrow> ('w stState, unit) eff" where
  "forSets options m =
     seqE (if truthy (fld options ''configStepdown'') then onConfig m else ret ())
          (if truthy (fld options ''shardStepdown'') then onShards m else ret ())"

definition st_startContinuousFailover :: "'w sdEnv \<Rightarrow> jsval \<Rightarrow> ('w stState, unit) eff" where
  "st_startContinuousFailover env options = forSets options (startContinuousFailover env options)"

definition st_stopContinuousFailover :: "'w sdEnv \<Rightarrow> jsval \<Rightarrow> nat \<Rightarrow> bool \<Rightarrow> ('w stState, unit) eff" where
  "st_stopContinuousFailover env options turns waitForPrimary = forSets options (stopContinuousFailover env turns waitForPrimary)"

text \<open>The checks of the constructor, and the parameters it passes on.\<close>

definition st_validate :: "jsval \<Rightarrow> 'w stState \<Rightarrow> unit result" where
  "st_validate options st =
     (if truthy (fld options ''configStepdown'') \<and> configRS st = None
      then Inl (Err ''Continuous config server primary step down only available with CSRS'')
      else if truthy (fld options ''shardStepdown'') \<and> None \<in> set (rs st)
      then Inl (Err ''Continuous shard primary step down only available with replica set shards'')
      else Inr ())"

definition withVerbosity :: "jsval \<Rightarrow> string \<Rightarrow> jsval \<Rightarrow> jsval" where
  "withVerbosity verbositySetting key other =
     (let opts = js_or (fld other key) (JObj []);
          param = js_or (fld opts ''setParameter'') (JObj []) in
      set_prop key (set_prop ''setParameter'' (set_prop ''logComponentVerbosity'' verbositySetting param) opts) other)"

definition st_params :: "jsval \<Rightarrow> jsval \<Rightarrow> jsval \<Rightarrow> jsval" where
  "st_params options verbositySetting params =
     (let other0 = js_or (fld params ''other'') (JObj []);
          other1 = (if truthy (fld options ''configStepdown'') then withVerbosity verbositySetting ''configOptions'' other0 else other0);
          other2 = (if truthy (fld options ''shardStepdown'') then withVerbosity verbositySetting ''shardOptions'' other1 else other1) in
      set_prop ''other'' other2 params)"

text \<open>
  The wait for a mongos to see the primaries, for one database: the list of its collections is requested until it
  comes, then the statistics of each.  The \<open>return false\<close> for a collection whose shard has no primary ends the function
  given to \<open>forEach\<close>, not the attempt.
\<close>

definition checkCollStats :: "shell \<Rightarrow> (jsval \<Rightarrow> ('w, jsval) call) \<Rightarrow> jsval \<Rightarrow> ('w, unit) eff" where
  "checkCollStats sh runCommand collDoc =
     bindE (callE (runCommand (JObj [(''collStats'', fld collDoc ''name'')]))) (\<lambda>res.
     if isNotMasterErrorCode sh (fld res ''code'') then ret () else checkE (commandWorked sh res))"

definition retargetAttempt :: "shell \<Rightarrow> ('w, jsval list) call \<Rightarrow> (jsval \<Rightarrow> ('w, jsval) call) \<Rightarrow> ('w, bool) eff" where
  "retargetAttempt sh getCollectionInfos runCommand =
     bindE (tryCatch (bindE (callE getCollectionInfos) (\<lambda>cs. ret (Some cs)))
        (\<lambda>e. if isNotMasterErrorCode sh (fld (exn_obj e) ''code'') then ret None else raise e)) (\<lambda>collInfo.
     case collInfo of
       None \<Rightarrow> ret False
     | Some cs \<Rightarrow> seqE (forEachE (checkCollStats sh runCommand) cs) (ret True))"

record 'w mongosEnv =
  mgShell :: shell
  mgHosts :: "string list"
  mgListDatabases :: "string \<Rightarrow> ('w, jsval) call"
  mgCollectionInfos :: "string \<Rightarrow> jsval \<Rightarrow> ('w, jsval list) call"
  mgRunCommand :: "string \<Rightarrow> jsval \<Rightarrow> jsval \<Rightarrow> ('w, jsval) call"

definition retargetMongos :: "'w mongosEnv \<Rightarrow> nat \<Rightarrow> string \<Rightarrow> ('w, unit) eff" where
  "retargetMongos mg attempts host =
     bindE (callE (mgListDatabases mg host)) (\<lambda>res.
     seqE (checkE (commandWorked (mgShell mg) res))
     (forEachE (\<lambda>dbInfo. awaitTrue
         (retargetAttempt (mgShell mg) (mgCollectionInfos mg host (fld dbInfo ''name'')) (mgRunCommand mg host (fld dbInfo ''name'')))
         ''assert.soon failed'' attempts)
       (arr_elems (fld res ''databases''))))"

section \<open>Properties of the overrides\<close>

lemma onServers_thread: "thread (snd (onServers f s)) = thread s" "joining (snd (onServers f s)) = joining s"
  by (auto simp: onServers_def split: prod.split)

lemma onServers_Val: "onServers f s = (Val x, s') \<longleftrightarrow> (\<exists>w. f (sdWorld s) = (Inr x, w) \<and> s' = s\<lparr>sdWorld := w\<rparr>)"
  by (auto simp: onServers_def callE_def split: prod.splits sum.splits)

lemma strict_eq_D: "strict_eq a b \<Longrightarrow> a = b"
  by (simp add: strict_eq_def)

lemma ensureTimeouts_Val:
  assumes "ensureTimeouts env options s = (Val u, s')"
  shows "\<exists>w config. sdGetConfig env w = (Inr config, sdWorld s') \<and>
     fld (fld config ''settings'') ''electionTimeoutMillis'' = fld options ''electionTimeoutMS'' \<and>
     fld (fld config ''settings'') ''catchUpTimeoutMillis'' = fld options ''catchUpTimeoutMS''"
proof -
  let ?check = "\<lambda>rsconfig. seqE (onServers (sdReconfig env (newConfig options rsconfig)))
         (bindE (onServers (sdGetConfig env)) (\<lambda>rsconfig'.
          bindE (liftE (get_prop rsconfig' ''settings'')) (\<lambda>newSettings.
          seqE (liftE (rbind (get_prop newSettings ''electionTimeoutMillis'') (\<lambda>_. Inr ())))
         (seqE (assertE (fld newSettings ''electionTimeoutMillis'' = fld options ''electionTimeoutMS'') ''Failed to set the electionTimeoutMillis'')
          (assertE (fld newSettings ''catchUpTimeoutMillis'' = fld options ''catchUpTimeoutMS'') ''Failed to set the catchUpTimeoutMillis'')))))"
  from assms obtain config s1 where 1: "onServers (sdGetConfig env) s = (Val config, s1)"
    and rest: "(if wantedTimeouts options (fld config ''settings'') then ret () else ?check config) s1 = (Val (), s')"
    by (auto simp: ensureTimeouts_def bindE_Val liftE_Val rbind_Inr simp del: if_split)
  show ?thesis
  proof (cases "wantedTimeouts options (fld config ''settings'')")
    case True
    with rest 1 show ?thesis by (auto simp: onServers_Val ret_Val wantedTimeouts_def dest!: strict_eq_D intro!: exI [of _ config])
  next
    case False
    with rest obtain s2 config' where "onServers (sdGetConfig env) s2 = (Val config', s')"
      "fld (fld config' ''settings'') ''electionTimeoutMillis'' = fld options ''electionTimeoutMS''"
      "fld (fld config' ''settings'') ''catchUpTimeoutMillis'' = fld options ''catchUpTimeoutMS''"
      by (auto simp: seqE_Val bindE_Val liftE_Val assertE_Val)
    then show ?thesis by (auto simp: onServers_Val intro!: exI [of _ config'])
  qed
qed

text \<open>
  A set whose step-downs were started has the timeouts that were asked for: the configuration read last, from
  the state of the servers the thread starts with, has them.
\<close>

theorem started_with_timeouts:
  assumes "startContinuousFailover env options s = (Val (), s')"
  shows "hasStarted s' \<and> (\<exists>w config. sdGetConfig env w = (Inr config, sdWorld s') \<and>
     fld (fld config ''settings'') ''electionTimeoutMillis'' = fld options ''electionTimeoutMS'' \<and>
     fld (fld config ''settings'') ''catchUpTimeoutMillis'' = fld options ''catchUpTimeoutMS'')"
proof -
  from assms obtain s1 where 1: "ensureTimeouts env options s = (Val (), s1)" and 2: "sdStart (sdSeed env) options s1 = (Val (), s')"
    by (auto simp: startContinuousFailover_def bindE_Val seqE_Val getE_def raise_def split: if_splits)
  from 2 have s': "hasStarted s'" "sdWorld s' = sdWorld s1"
    by (auto simp: sdStart_def bindE_Val getE_def modE_def raise_def hasStarted_def split: if_splits)
  with ensureTimeouts_Val [OF 1] show ?thesis by simp
qed

lemma stop_run:
  assumes "sd_inv s" and "\<not> joining s" and "4 \<le> n"
  shows "fst (stopContinuousFailover env n wait s) \<noteq> Diverge \<and> \<not> hasStarted (snd (stopContinuousFailover env n wait s))"
proof (cases "hasStarted s")
  case True
  obtain r s' where 1: "sdStop env n s = (r, s')" "r \<noteq> Diverge" "thread s' = None" by (rule sdStop_run [OF assms(1) True assms(2,3)])
  have 2: "fst (onServers (sdGetPrimary env) s') \<noteq> Diverge" by (auto simp: onServers_def callE_def split: prod.split sum.split)
  show ?thesis
    using 1 2 onServers_thread(1) [of "sdGetPrimary env" s'] True
    by (cases r; cases "onServers (sdGetPrimary env) s'"; cases "fst (onServers (sdGetPrimary env) s')")
      (auto simp: stopContinuousFailover_def js_simps hasStarted_def)
qed (simp add: stopContinuousFailover_def js_simps)

lemma eachSet_stop:
  assumes "\<And>x. Some x \<in> set xs \<Longrightarrow> fst (m x) \<noteq> Diverge \<and> \<not> hasStarted (snd (m x))"
  shows "fst (eachSet m xs) \<noteq> Diverge \<and> (fst (eachSet m xs) = Val () \<longrightarrow> (\<forall>x. Some x \<in> set (snd (eachSet m xs)) \<longrightarrow> \<not> hasStarted x))"
  using assms
proof (induction m xs rule: eachSet.induct)
  case (3 m x xs)
  obtain r x' where m: "m x = (r, x')" by (cases "m x")
  with 3(2) [of x] have x': "r \<noteq> Diverge" "\<not> hasStarted x'" by auto
  from 3(1) [OF m [symmetric]] 3(2) show ?case
    using x' by (cases r) (auto simp: m split: prod.split)
qed auto

text \<open>
  A sharded cluster that stops its step-downs is left without them: when every set was reached from its start, the call
  returns or throws, and when it returns no thread of the config servers or of a shard that the options ask for is
  left running.\<close>

theorem sharding_stop_all:
  assumes "\<forall>x. configRS st = Some x \<or> Some x \<in> set (rs st) \<longrightarrow> sd_inv x \<and> \<not> joining x" and "4 \<le> n"
    and "st_stopContinuousFailover env options n wait st = (r, st')"
  shows "r \<noteq> Diverge \<and> (r = Val () \<longrightarrow>
     (truthy (fld options ''configStepdown'') \<longrightarrow> (\<forall>x. configRS st' = Some x \<longrightarrow> \<not> hasStarted x)) \<and>
     (truthy (fld options ''shardStepdown'') \<longrightarrow> (\<forall>x. Some x \<in> set (rs st') \<longrightarrow> \<not> hasStarted x)))"
proof -
  let ?stop = "stopContinuousFailover env n wait"
  have sets: "configRS st = Some x \<or> Some x \<in> set (rs st) \<Longrightarrow> fst (?stop x) \<noteq> Diverge \<and> \<not> hasStarted (snd (?stop x))" for x
    using stop_run [of x n] assms(1,2) by blast
  from eachSet_stop [of "rs st" ?stop] sets
  have each: "fst (eachSet ?stop (rs st)) \<noteq> Diverge"
    "fst (eachSet ?stop (rs st)) = Val () \<Longrightarrow> Some x \<in> set (snd (eachSet ?stop (rs st))) \<Longrightarrow> \<not> hasStarted x" for x by blast+
  have shards: "fst (onShards ?stop st1) \<noteq> Diverge"
    "fst (onShards ?stop st1) = Val () \<Longrightarrow> Some x \<in> set (rs (snd (onShards ?stop st1))) \<Longrightarrow> \<not> hasStarted x"
    "configRS (snd (onShards ?stop st1)) = configRS st1" if "rs st1 = rs st" for st1 x
    using each that by (simp_all add: onShards_def case_prod_beta)
  have config: "fst (onConfig ?stop st) \<noteq> Diverge" "rs (snd (onConfig ?stop st)) = rs st"
    "configRS (snd (onConfig ?stop st)) = Some x \<Longrightarrow> \<not> hasStarted x" for x
    using sets by (auto simp: onConfig_def case_prod_beta split: option.splits)
  obtain u st1 where 1: "(if truthy (fld options ''configStepdown'') then onConfig ?stop else ret ()) st = (u, st1)"
    by (cases "(if truthy (fld options ''configStepdown'') then onConfig ?stop else ret ()) st")
  then have st1: "u \<noteq> Diverge" "rs st1 = rs st" "truthy (fld options ''configStepdown'') \<Longrightarrow> configRS st1 = Some x \<Longrightarrow> \<not> hasStarted x" for x
    using config by (auto simp: js_simps split: if_splits)
  from 1 assms(3) have "r = u \<and> st' = st1 \<and> u \<noteq> Val () \<or>
      u = Val () \<and> (if truthy (fld options ''shardStepdown'') then onShards ?stop else ret ()) st1 = (r, st')"
    using st1(1) by (cases u) (auto simp: st_stopContinuousFailover_def forSets_def js_simps simp del: if_split)
  with st1 shards [OF st1(2)] show ?thesis by (auto simp: js_simps split: if_splits)
qed

text \<open>
  The parameters a replica set is started with: the verbosity is the one of the step-down suite, and any other parameter is the
  one given to \<open>startSet\<close> or else to the constructor.
\<close>

definition plain_keys :: "jsval \<Rightarrow> bool" where
  "plain_keys v \<longleftrightarrow> distinct (map fst (props v))"

lemma plain_keys_set_prop: "plain_keys v \<Longrightarrow> plain_keys (set_prop k x v)"
  by (simp add: plain_keys_def distinct_update)

lemma plain_keys_assign: "plain_keys d \<Longrightarrow> plain_keys (obj_assign d v)"
proof -
  have "plain_keys d \<Longrightarrow> plain_keys (fold (\<lambda>(k, x). set_prop k x) kvs d)" for kvs
    by (induction kvs arbitrary: d) (auto intro: plain_keys_set_prop)
  then show "plain_keys d \<Longrightarrow> plain_keys (obj_assign d v)" by (simp add: obj_assign_def)
qed

lemma plain_keys_setParamToObj: "plain_keys (setParamToObj v)"
  by (cases v) (auto simp: setParamToObj_def plain_keys_def [of "JObj _"] intro!: plain_keys_assign)

theorem startSet_params:
  "fld (fld (startSetOptions orig verbosity arg) ''setParameter'') k =
     (if k = ''logComponentVerbosity'' then verbosity
      else let given = setParamToObj (fld (js_or arg (JObj [])) ''setParameter'') in
        if has_own given k then fld given k else fld (setParamToObj (fld orig ''setParameter'')) k)"
  using plain_keys_setParamToObj [unfolded plain_keys_def]
  by (simp add: startSetOptions_def Let_def fld_assign has_own_def [of "JObj _"] obj_keys_def fld_def [of "JObj [_]"])

text \<open>A parameter written as text is read back, whatever its value contains.\<close>

lemma setParam_text:
  assumes "CHR ''='' \<notin> set name"
  shows "setParamToObj (JStr (name @ ''='' @ val)) = JObj [(name, JStr val)]"
proof -
  have "takeWhile (\<lambda>c. c \<noteq> CHR ''='') (name @ ''='' @ val) = name" "dropWhile (\<lambda>c. c \<noteq> CHR ''='') (name @ ''='' @ val) = ''='' @ val"
    using assms by (induction name) auto
  then show ?thesis by (simp add: setParamToObj_def)
qed

text \<open>
  The wait for a mongos does not wait for the primaries of the shards: when the collections can be listed, an attempt succeeds
  although every request for statistics is answered by a node that is not primary.
\<close>

theorem retarget_ignores_not_master:
  assumes "getCollectionInfos w = (Inr cs, w)"
    and "\<And>cmd w. \<exists>res. runCommand cmd w = (Inr res, w) \<and> isNotMasterErrorCode sh (fld res ''code'')"
  shows "retargetAttempt sh getCollectionInfos runCommand w = (Val True, w)"
proof -
  have "checkCollStats sh runCommand c w = (Val (), w)" for c
  proof -
    obtain res where "runCommand (JObj [(''collStats'', fld c ''name'')]) w = (Inr res, w)" "isNotMasterErrorCode sh (fld res ''code'')"
      using assms(2) by blast
    then show ?thesis by (simp add: checkCollStats_def callE_def js_simps)
  qed
  then have "forEachE (checkCollStats sh runCommand) cs w = (Val (), w)" by (induction cs) (simp_all add: js_simps)
  then show ?thesis using assms(1) by (simp add: retargetAttempt_def callE_def js_simps)
qed

text \<open>Servers that answer every command, for concrete runs.\<close>

definition quietServers :: "unit sdEnv" where
  "quietServers = \<lparr>sdShell = exampleShell, sdConnect = (\<lambda>_ w. (Inr (), w)), sdGetPrimary = (\<lambda>w. (Inr ''a'', w)),
     sdAdminCommand = (\<lambda>_ _ w. (Inr (JObj [(''ok'', jnum 1)]), w)), sdSleep = (\<lambda>_ w. w), sdToString = (\<lambda>_. ''e''), sdStack = (\<lambda>_. Undef),
     sdGetConfig = (\<lambda>w. (Inr (JObj [(''settings'', JObj [])]), w)), sdReconfig = (\<lambda>_ w. (Inr (), w)), sdSeed = ''a'',
     sdStopSet = (\<lambda>w. (Inr (), w))\<rparr>"

definition runningThread :: "unit sdObj" where
  "runningThread = (threadTurn quietServers ^^ 3) (snd (sdStart ''a'' defaultOptions (newStepdownThread ())))"

lemma runningThread_reached:
  "(sd_step quietServers)\<^sup>*\<^sup>* (newStepdownThread ()) runningThread" "hasStarted runningThread" "\<not> joining runningThread" "sd_inv runningThread"
proof -
  have "sd_step quietServers (newStepdownThread ()) (snd (sdStart ''a'' defaultOptions (newStepdownThread ())))"
    by (rule starts [where seed = "''a''" and options = defaultOptions]) (simp_all add: newStepdownThread_def sdStart_def js_simps)
  moreover have "(sd_step quietServers)\<^sup>*\<^sup>* s ((threadTurn quietServers ^^ n) s)" for s n
    by (induction n) (auto intro: rtranclp.rtrancl_into_rtrancl sd_step.turns)
  ultimately show reach: "(sd_step quietServers)\<^sup>*\<^sup>* (newStepdownThread ()) runningThread"
    unfolding runningThread_def by (meson converse_rtranclp_into_rtranclp)
  show "hasStarted runningThread" "\<not> joining runningThread" by code_simp+
  show "sd_inv runningThread" by (rule sd_inv_reachable [OF reach sd_inv_new(1)])
qed

theorem stepdown_stop_prompt_witness:
  "\<exists>r s'. sdStop quietServers 4 runningThread = (r, s') \<and> r \<noteq> Diverge \<and> \<not> hasStarted s' \<and> sentDowns s' \<le> sentDowns runningThread + 1"
  by (rule stepdown_stop_prompt [OF runningThread_reached(1-3)]) simp

definition runningCluster :: "unit stState" where
  "runningCluster = \<lparr>configRS = Some runningThread, rs = [Some runningThread, Some (newStepdownThread ())]\<rparr>"

theorem sharding_stop_all_witness:
  "fst (st_stopContinuousFailover quietServers defaultOptions 4 True runningCluster) \<noteq> Diverge"
proof -
  have "\<forall>x. configRS runningCluster = Some x \<or> Some x \<in> set (rs runningCluster) \<longrightarrow> sd_inv x \<and> \<not> joining x"
    using runningThread_reached(3,4) by (auto simp: runningCluster_def sd_inv_new)
  from sharding_stop_all [OF this, of 4 quietServers defaultOptions True] show ?thesis by (metis order_refl prod.collapse)
qed

end
