(* ===== verification/Change_Stream_Overrides.thy ===== *)
theory Change_Stream_Overrides
  imports Rewriting_Overrides
begin

text \<open>
  The overrides \<open>implicit_whole_db_changestreams.js\<close> and \<open>implicit_whole_cluster_changestreams.js\<close>, which turn a change stream on a
  collection or a database into a stream on the whole database or cluster with a filter.  The second file loads the first
  and replaces methods of its object \<open>ChangeStreamPassthroughHelpers\<close>: the object is the record \<open>csHelpers\<close>, with one value for
  each file.  The text of a cursor id is a parameter.  A command's \<open>aggregate\<close> field is not an array.
\<close>

section \<open>Helpers\<close>

record csHelpers =
  upconvertsDatabases :: bool          \<comment> \<open>whether a stream on a database is upconvertable\<close>
  nsMatchFilter :: "string \<Rightarrow> jsval \<Rightarrow> jsval"
  execDBName :: "string \<Rightarrow> string"
  changeStreamSpec :: jsval
  passthroughType :: nat

definition kCollection :: nat where "kCollection = 1"
definition kDb :: nat where "kDb = 2"
definition kCluster :: nat where "kCluster = 3"

definition matchNamespace :: "string \<Rightarrow> jsval \<Rightarrow> jsval" where
  "matchNamespace db coll =
     JObj [(''$match'', JObj [(''$or'', JArr
       [JObj [(''ns.db'', JStr db), (''ns.coll'', coll)],
        JObj [(''to.db'', JStr db), (''to.coll'', coll)],
        JObj [(''operationType'', JStr ''invalidate'')]])])]"

definition wholeDb :: csHelpers where
  "wholeDb = \<lparr>upconvertsDatabases = False, nsMatchFilter = matchNamespace, execDBName = (\<lambda>db. db),
     changeStreamSpec = JObj [], passthroughType = kDb\<rparr>"

definition clusterFilter :: "string \<Rightarrow> jsval \<Rightarrow> jsval" where
  "clusterFilter db collName =
     matchNamespace db (if typeof collName = ''string'' then collName else JObj [(''$exists'', JBool True)])"

definition wholeCluster :: csHelpers where
  "wholeCluster = wholeDb\<lparr>upconvertsDatabases := True, nsMatchFilter := clusterFilter, execDBName := (\<lambda>db. ''admin''),
     changeStreamSpec := JObj [(''allChangesForCluster'', JBool True)], passthroughType := kCluster\<rparr>"

record 's csEnv =
  getViewDefinition :: "string \<Rightarrow> string \<Rightarrow> ('s, jsval) eff"
  runCommandImpl :: "string \<Rightarrow> jsval \<Rightarrow> jsval \<Rightarrow> ('s, jsval) eff"      \<comment> \<open>\<open>originalRunCommandImpl\<close>\<close>
  idToString :: "jsval \<Rightarrow> string"

definition plainObject :: "jsval \<Rightarrow> bool" where
  "plainObject v = (case v of JObj _ \<Rightarrow> \<not> has_own v ''constructor'' | _ \<Rightarrow> False)"

text \<open>The client's specification already has everything the override adds.\<close>

definition hasSpec :: "csHelpers \<Rightarrow> jsval \<Rightarrow> bool" where
  "hasSpec h stage \<longleftrightarrow>
     (let csParams = obj_keys (changeStreamSpec h) in
      csParams \<noteq> [] \<and> list_all (\<lambda>p. strict_eq (fld (changeStreamSpec h) p) (fld stage p)) csParams)"

definition isValidChangeStreamRequest :: "csHelpers \<Rightarrow> 's csEnv \<Rightarrow> string \<Rightarrow> jsval \<Rightarrow> ('s, bool) eff" where
  "isValidChangeStreamRequest h env dbName cmdObj =
     (let pipeline = fld cmdObj ''pipeline'' in
      if \<not> (truthy cmdObj \<and> truthy (fld cmdObj ''aggregate'') \<and> is_array pipeline \<and> arr_elems pipeline \<noteq> []) then ret False
      else bindE (liftE (get_prop (hd (arr_elems pipeline)) ''$changeStream'')) (\<lambda>stage.
        if typeof stage \<noteq> ''object'' then ret False
        else if stage = Null then raise (TypeErr ''$changeStream is null'')
        else if \<not> plainObject stage then ret False
        else if dbName = ''admin'' \<or> dbName = ''config'' \<or> dbName = ''local'' then ret False
        else if hasSpec h stage then ret False
        else case fld cmdObj ''aggregate'' of
            JStr coll \<Rightarrow>
              if starts_with ''system.'' coll then ret False
              else bindE (getViewDefinition env dbName coll) (\<lambda>view. ret (\<not> truthy view))
          | v \<Rightarrow> ret (to_number v = Fin 1)))"

definition isUpconvertableChangeStreamRequest :: "csHelpers \<Rightarrow> 's csEnv \<Rightarrow> string \<Rightarrow> jsval \<Rightarrow> ('s, bool) eff" where
  "isUpconvertableChangeStreamRequest h env dbName cmdObj =
     bindE (isValidChangeStreamRequest h env dbName cmdObj) (\<lambda>valid.
     ret (valid \<and> (upconvertsDatabases h \<or> typeof (fld cmdObj ''aggregate'') = ''string'')))"

definition upconvertChangeStreamRequest :: "csHelpers \<Rightarrow> string \<Rightarrow> jsval \<Rightarrow> string \<times> jsval" where
  "upconvertChangeStreamRequest h dbName cmdObj =
     (let stages = arr_elems (fld cmdObj ''pipeline'');
          pipeline = JObj [(''$changeStream'', obj_assign (copied (fld (hd stages) ''$changeStream'')) (changeStreamSpec h))] #
            nsMatchFilter h dbName (fld cmdObj ''aggregate'') # tl stages in
      (execDBName h dbName, set_prop ''aggregate'' (jnum 1) (set_prop ''pipeline'' (JArr pipeline) (copied cmdObj))))"

definition upconvertGetMoreRequest :: "csHelpers \<Rightarrow> string \<Rightarrow> jsval \<Rightarrow> string \<times> jsval" where
  "upconvertGetMoreRequest h dbName cmdObj =
     (execDBName h dbName, set_prop ''collection'' (JStr ''$cmd.aggregate'') (copied cmdObj))"

section \<open>The override\<close>

record 's csState =
  upconvertedCursors :: "string list"
  csWorld :: 's

definition onWorld :: "('s, 'a) eff \<Rightarrow> ('s csState, 'a) eff" where
  "onWorld m = (\<lambda>s. case m (csWorld s) of (r, w) \<Rightarrow> (r, s\<lparr>csWorld := w\<rparr>))"

definition recordCursor :: "'s csEnv \<Rightarrow> bool \<Rightarrow> jsval \<Rightarrow> ('s csState, unit) eff" where
  "recordCursor env upconvertCursor res =
     (if \<not> upconvertCursor then ret ()
      else bindE (liftE (get_prop res ''cursor'')) (\<lambda>cursor.
        if truthy cursor \<and> num_less (Fin 0) (to_number (fld cursor ''id''))
        then modE (\<lambda>s. s\<lparr>upconvertedCursors := idToString env (fld cursor ''id'') # upconvertedCursors s\<rparr>)
        else ret ()))"

definition isTrackedGetMore :: "'s csEnv \<Rightarrow> string list \<Rightarrow> jsval \<Rightarrow> bool" where
  "isTrackedGetMore env ids cmdObj \<longleftrightarrow>
     truthy cmdObj \<and> truthy (fld cmdObj ''getMore'') \<and> idToString env (fld cmdObj ''getMore'') \<in> set ids"

definition passthroughRunCommandImpl ::
    "csHelpers \<Rightarrow> 's csEnv \<Rightarrow> string \<Rightarrow> string \<Rightarrow> jsval \<Rightarrow> jsval \<Rightarrow> ('s csState, jsval) eff" where
  "passthroughRunCommandImpl h env this dbName cmdObj options =
     bindE (onWorld (isUpconvertableChangeStreamRequest h env this cmdObj)) (\<lambda>upconvertCursor.
     bindE (getE upconvertedCursors) (\<lambda>ids.
     let (db1, cmd1) = (if upconvertCursor then upconvertChangeStreamRequest h this cmdObj else (dbName, cmdObj));
         (db2, cmd2) = (if isTrackedGetMore env ids cmd1 then upconvertGetMoreRequest h this cmd1 else (db1, cmd1)) in
     bindE (onWorld (runCommandImpl env db2 cmd2 options)) (\<lambda>res.
     seqE (recordCursor env upconvertCursor res) (ret res))))"

definition csRunCommand :: "csHelpers \<Rightarrow> 's csEnv \<Rightarrow> string \<Rightarrow> jsval \<Rightarrow> jsval \<Rightarrow> bool \<Rightarrow> ('s csState, jsval) eff" where
  "csRunCommand h env this cmdObj options noPassthrough =
     (if noPassthrough then onWorld (runCommandImpl env this cmdObj options)
      else passthroughRunCommandImpl h env this this cmdObj options)"

text \<open>The shell helpers: a stream on a collection asks its database, and one on a database the cluster, for a filtered stream.\<close>

definition collectionWatch :: "csHelpers \<Rightarrow> string \<Rightarrow> string \<Rightarrow> jsval list \<Rightarrow> jsval list" where
  "collectionWatch h db coll pipeline = nsMatchFilter h db (JStr coll) # pipeline"

definition databaseWatch :: "csHelpers \<Rightarrow> string \<Rightarrow> jsval list \<Rightarrow> jsval list" where
  "databaseWatch h db pipeline = nsMatchFilter h db (jnum 1) # pipeline"

section \<open>Properties\<close>

abbreviation passthroughs :: "csHelpers set" where
  "passthroughs \<equiv> {wholeDb, wholeCluster}"

lemma valid_request:
  assumes "isValidChangeStreamRequest h env db cmd w = (Val True, w')"
  shows "truthy (fld cmd ''aggregate'')" "\<exists>stage stages. fld cmd ''pipeline'' = JArr (stage # stages) \<and> is_object (fld stage ''$changeStream'')"
proof -
  from assms have "truthy (fld cmd ''aggregate'') \<and> (\<exists>stage stages. fld cmd ''pipeline'' = JArr (stage # stages) \<and> is_object (fld stage ''$changeStream''))"
    by (cases "fld cmd ''pipeline''"; cases "arr_elems (fld cmd ''pipeline'')")
      (auto simp: isValidChangeStreamRequest_def bindE_Val liftE_Val ret_Val raise_def is_object_def Let_def split: if_splits)
  then show "truthy (fld cmd ''aggregate'')" "\<exists>stage stages. fld cmd ''pipeline'' = JArr (stage # stages) \<and> is_object (fld stage ''$changeStream'')"
    by auto
qed

lemma assign_object: "\<exists>kvs. obj_assign (JObj d) v = JObj kvs"
proof -
  have "\<exists>kvs. fold (\<lambda>(k, x). set_prop k x) ps (JObj d) = JObj kvs" for ps
    by (induction ps arbitrary: d) (auto simp: set_prop_def)
  then show ?thesis by (simp add: obj_assign_def)
qed

text \<open>A request whose \<open>aggregate\<close> is a number never asks for a view.\<close>

lemma database_request:
  assumes "fld cmd ''aggregate'' = jnum 1" and "fld cmd ''pipeline'' = JArr (JObj [(''$changeStream'', JObj kvs)] # stages)"
  shows "\<exists>b. isValidChangeStreamRequest h env db cmd w = (Val b, w) \<and> (db = ''admin'' \<longrightarrow> \<not> b)"
  using assms by (auto simp: isValidChangeStreamRequest_def js_simps Let_def get_prop_def fld_def [of "JObj [(''$changeStream'', JObj kvs)]"])

text \<open>
  An upconverted request stays the client's: what is sent for a valid request is an aggregation on the whole database or
  cluster whose first stage is the client's stream with the added options, whose second is the filter for the client's
  namespace, and whose other stages and other fields are the client's; sent through the override again it is left as it is.\<close>

theorem upconvert_exact:
  assumes "h \<in> passthroughs" and "wf_val cmd"
    and "isUpconvertableChangeStreamRequest h env db cmd w = (Val True, w')"
    and "upconvertChangeStreamRequest h db cmd = (db', cmd')"
  shows "(\<exists>stage stages. fld cmd ''pipeline'' = JArr (stage # stages) \<and>
      fld cmd' ''pipeline'' = JArr (JObj [(''$changeStream'', obj_assign (copied (fld stage ''$changeStream'')) (changeStreamSpec h))] #
        nsMatchFilter h db (fld cmd ''aggregate'') # stages)) \<and>
    fld cmd' ''aggregate'' = jnum 1 \<and> (\<forall>k. k \<noteq> ''aggregate'' \<longrightarrow> k \<noteq> ''pipeline'' \<longrightarrow> fld cmd' k = fld cmd k) \<and>
    isUpconvertableChangeStreamRequest h env db' cmd' w' = (Val False, w')"
proof -
  from assms(3) have valid: "isValidChangeStreamRequest h env db cmd w = (Val True, w')"
    by (auto simp: isUpconvertableChangeStreamRequest_def bindE_Val ret_Val)
  obtain stage stages where p: "fld cmd ''pipeline'' = JArr (stage # stages)" "is_object (fld stage ''$changeStream'')"
    using valid_request(2) [OF valid] by blast
  have cmd': "db' = execDBName h db" "cmd' = set_prop ''aggregate'' (jnum 1) (set_prop ''pipeline''
      (JArr (JObj [(''$changeStream'', obj_assign (copied (fld stage ''$changeStream'')) (changeStreamSpec h))] #
        nsMatchFilter h db (fld cmd ''aggregate'') # stages)) (copied cmd))"
    using assms(4) p by (auto simp: upconvertChangeStreamRequest_def Let_def)
  have again: "isUpconvertableChangeStreamRequest h env db' cmd' w' = (Val False, w')"
  proof -
    obtain kvs where "obj_assign (copied (fld stage ''$changeStream'')) (changeStreamSpec h) = JObj kvs"
      by (metis assign_object)
    then have "fld cmd' ''pipeline'' = JArr (JObj [(''$changeStream'', JObj kvs)] # nsMatchFilter h db (fld cmd ''aggregate'') # stages)"
      by (simp add: cmd')
    from database_request [OF _ this, of h env db' w'] assms(1) cmd' show ?thesis
      by (auto simp: isUpconvertableChangeStreamRequest_def js_simps wholeDb_def wholeCluster_def)
  qed
  show ?thesis using p cmd' again by (auto simp: copied_eq [OF assms(2)])
qed

lemma onWorld_keeps: "keeps (\<lambda>s. A \<subseteq> set (upconvertedCursors s)) (onWorld m)"
  by (rule keepsI) (auto simp: onWorld_def split: prod.split)

lemma recorded:
  "set (upconvertedCursors s) \<subseteq> set (upconvertedCursors (snd (passthroughRunCommandImpl h env this db cmd options s)))"
proof -
  have "keeps (\<lambda>t. set (upconvertedCursors s) \<subseteq> set (upconvertedCursors t)) (passthroughRunCommandImpl h env this db cmd options)"
    unfolding passthroughRunCommandImpl_def recordCursor_def
    by (auto simp: Let_def case_prod_beta intro!: keeps_rules onWorld_keeps)
  from keepsD [OF this, of s] show ?thesis by simp
qed

lemma bind_unrecorded: "bindE m (\<lambda>res. seqE (recordCursor env False res) (ret res)) = m"
proof
  fix s
  show "bindE m (\<lambda>res. seqE (recordCursor env False res) (ret res)) s = m s"
    by (cases "m s"; cases "fst (m s)") (auto simp: recordCursor_def js_simps)
qed

text \<open>A command that is not an aggregation: a tracked \<open>getMore\<close> is redirected, any other command is sent as it is.\<close>

lemma passthrough_other:
  assumes "\<not> truthy (fld cmd ''aggregate'')"
  shows "passthroughRunCommandImpl h env this db cmd options s =
    (if isTrackedGetMore env (upconvertedCursors s) cmd
     then onWorld (runCommandImpl env (execDBName h this) (set_prop ''collection'' (JStr ''$cmd.aggregate'') (copied cmd)) options) s
     else onWorld (runCommandImpl env db cmd options) s)"
proof -
  have "isUpconvertableChangeStreamRequest h env this cmd = ret False"
    using assms by (auto simp: fun_eq_iff isUpconvertableChangeStreamRequest_def isValidChangeStreamRequest_def js_simps Let_def)
  then have up: "onWorld (isUpconvertableChangeStreamRequest h env this cmd) s = (Val False, s)"
    by (simp add: onWorld_def js_simps)
  show ?thesis
    by (simp add: passthroughRunCommandImpl_def bindE_simps(1) [where m = "onWorld (isUpconvertableChangeStreamRequest h env this cmd)", OF up]
        js_simps bind_unrecorded upconvertGetMoreRequest_def)
qed

lemma upconverted_recorded:
  assumes "passthroughRunCommandImpl h env this db cmd options s = (Val res, s1)"
    and "isUpconvertableChangeStreamRequest h env this cmd (csWorld s) = (Val True, w)"
    and "truthy (fld res ''cursor'')" and "num_less (Fin 0) (to_number (fld (fld res ''cursor'') ''id''))"
  shows "idToString env (fld (fld res ''cursor'') ''id'') \<in> set (upconvertedCursors s1)"
proof -
  have "onWorld (isUpconvertableChangeStreamRequest h env this cmd) s = (Val True, s\<lparr>csWorld := w\<rparr>)"
    using assms(2) by (simp add: onWorld_def)
  then obtain s2 where "recordCursor env True res s2 = (Val (), s1)"
    using assms(1) by (auto simp: passthroughRunCommandImpl_def bindE_Val seqE_Val ret_Val getE_def Let_def case_prod_beta)
  then show ?thesis using assms(3,4) by (auto simp: recordCursor_def bindE_Val liftE_Val modE_def)
qed

text \<open>
  C23. Cursors of upconverted streams are followed: after a request was upconverted and answered with a cursor, and after any
  further commands, a \<open>getMore\<close> for this cursor is sent to the database of the upconverted stream, on its
  collectionless namespace and otherwise unchanged.\<close>

theorem upconverted_getMore:
  assumes "passthroughRunCommandImpl h env this db cmd options s = (Val res, s1)"
    and "isUpconvertableChangeStreamRequest h env this cmd (csWorld s) = (Val True, w)"
    and "truthy (fld res ''cursor'')" and "fld (fld res ''cursor'') ''id'' = i" and "num_less (Fin 0) (to_number i)"
    and "t = fold (\<lambda>(this, db, cmd, options) s. snd (passthroughRunCommandImpl h env this db cmd options s)) cmds s1"
    and "truthy nextCmd" and "fld nextCmd ''getMore'' = i" and "truthy i" and "\<not> truthy (fld nextCmd ''aggregate'')"
  shows "passthroughRunCommandImpl h env this' db' nextCmd options' t =
    onWorld (runCommandImpl env (execDBName h this') (set_prop ''collection'' (JStr ''$cmd.aggregate'') (copied nextCmd)) options') t"
proof -
  have "set (upconvertedCursors s1) \<subseteq> set (upconvertedCursors t)"
    unfolding assms(6) using recorded by (induction cmds arbitrary: s1) (auto simp: case_prod_beta, blast)
  with upconverted_recorded [OF assms(1-3)] assms(4,5) have "idToString env i \<in> set (upconvertedCursors t)" by auto
  then show ?thesis using assms(7-10) by (simp add: passthrough_other isTrackedGetMore_def)
qed

text \<open>A server whose every response opens cursor 7, for concrete runs; it records what it was sent.\<close>

definition streamServer :: "(string \<times> jsval) list csEnv" where
  "streamServer = \<lparr>getViewDefinition = (\<lambda>_ _. ret Undef),
     runCommandImpl = (\<lambda>db cmd _. seqE (modE (\<lambda>sent. sent @ [(db, cmd)]))
       (ret (JObj [(''cursor'', JObj [(''id'', JLong 7)]), (''ok'', jnum 1)]))),
     idToString = (\<lambda>v. if v = JLong 7 then ''7'' else ''other'')\<rparr>"

definition watchCmd :: jsval where
  "watchCmd = JObj [(''aggregate'', JStr ''c''), (''pipeline'', JArr [JObj [(''$changeStream'', JObj [])]])]"

definition nextChange :: jsval where
  "nextChange = JObj [(''getMore'', JLong 7), (''collection'', JStr ''c'')]"

definition watched :: "(string \<times> jsval) list csState" where
  "watched = snd (passthroughRunCommandImpl wholeCluster streamServer ''test'' ''test'' watchCmd Undef
     \<lparr>upconvertedCursors = [], csWorld = []\<rparr>)"

theorem upconvert_exact_witness:
  "fld (snd (upconvertChangeStreamRequest wholeCluster ''test'' watchCmd)) ''aggregate'' = jnum 1"
proof -
  have "wholeCluster \<in> passthroughs" "wf_val watchCmd" by (simp, code_simp)
  moreover have "isUpconvertableChangeStreamRequest wholeCluster streamServer ''test'' watchCmd [] = (Val True, [])" by code_simp
  ultimately show ?thesis using upconvert_exact [of wholeCluster watchCmd streamServer "''test''" "[]" "[]"] by (metis prod.collapse)
qed

theorem upconverted_getMore_witness:
  "passthroughRunCommandImpl wholeCluster streamServer ''test'' ''test'' nextChange Undef watched =
   onWorld (runCommandImpl streamServer ''admin'' (set_prop ''collection'' (JStr ''$cmd.aggregate'') (copied nextChange)) Undef) watched"
proof -
  let ?res = "JObj [(''cursor'', JObj [(''id'', JLong 7)]), (''ok'', jnum 1)]"
  let ?s = "\<lparr>upconvertedCursors = [], csWorld = []\<rparr> :: (string \<times> jsval) list csState"
  have 1: "passthroughRunCommandImpl wholeCluster streamServer ''test'' ''test'' watchCmd Undef ?s = (Val ?res, watched)"
    by code_simp
  have 2: "isUpconvertableChangeStreamRequest wholeCluster streamServer ''test'' watchCmd (csWorld ?s) = (Val True, [])" by code_simp
  have 3: "truthy (fld ?res ''cursor'')" "fld (fld ?res ''cursor'') ''id'' = JLong 7" "num_less (Fin 0) (to_number (JLong 7))" by code_simp+
  have 4: "truthy nextChange" "fld nextChange ''getMore'' = JLong 7" "truthy (JLong 7)" "\<not> truthy (fld nextChange ''aggregate'')" by code_simp+
  have 5: "execDBName wholeCluster ''test'' = ''admin''" by (simp add: wholeCluster_def)
  have "watched = fold (\<lambda>(this, db, cmd, options) s. snd (passthroughRunCommandImpl wholeCluster streamServer this db cmd options s)) [] watched"
    by simp
  from upconverted_getMore [OF 1 2 3 this 4, of "''test''" "''test''" Undef] show ?thesis unfolding 5 .
qed

end
