(* ===== verification/Change_Stream_Test.thy ===== *)
theory Change_Stream_Test
  imports Change_Stream_Overrides
begin

text \<open>
  The change stream fixture of \<open>jstests/libs/change_stream_util.js\<close>: the list of the cursors it opened, the batches it
  requests, and the comparison of the changes seen with those expected.  The servers are an environment; a number
  of changes expected is a natural number, and the attempts the clock of \<open>assert.soon\<close> allows are an argument.
\<close>

section \<open>Model\<close>

text \<open>\<open>ns.split(/\.(.+)/)[1]\<close>: what follows the first dot, if anything does.\<close>

definition getCollectionNameFromFullNamespace :: "jsval \<Rightarrow> jsval result" where
  "getCollectionNameFromFullNamespace ns =
     (case ns of
        JStr str \<Rightarrow> Inr (case dropWhile (\<lambda>c. c \<noteq> CHR ''.'') str of _ # c # cs \<Rightarrow> JStr (c # cs) | _ \<Rightarrow> Undef)
      | _ \<Rightarrow> Inl (TypeErr ''ns.split is not a function''))"

record 's cstEnv =
  cstShell :: shell
  cstDb :: string                                                  \<comment> \<open>\<open>_db.getName()\<close>\<close>
  cstRun :: "string \<Rightarrow> jsval \<Rightarrow> bool \<Rightarrow> ('s, jsval) eff"            \<comment> \<open>\<open>runCommandChangeStreamPassthroughAware\<close>\<close>
  docEq :: "jsval \<Rightarrow> jsval \<Rightarrow> bool"                                \<comment> \<open>the comparison of \<open>assert.docEq\<close>\<close>

record 's cstState =
  allCursors :: "(string \<times> jsval \<times> jsval) list"                   \<comment> \<open>database, collection, cursor id\<close>
  cstWorld :: 's

definition onCst :: "('s, 'a) eff \<Rightarrow> ('s cstState, 'a) eff" where
  "onCst m = (\<lambda>s. case m (cstWorld s) of (r, w) \<Rightarrow> (r, s\<lparr>cstWorld := w\<rparr>))"

definition worked :: "'s cstEnv \<Rightarrow> ('s, jsval) eff \<Rightarrow> ('s, jsval) eff" where
  "worked env m = bindE m (\<lambda>res. seqE (checkE (commandWorked (cstShell env) res)) (ret res))"

subsection \<open>Comparing events\<close>

definition withoutUnexpected :: "jsval \<Rightarrow> jsval \<Rightarrow> jsval" where
  "withoutUnexpected expectedEvent actualEvent =
     fold (\<lambda>f v. if has_own expectedEvent f then v else del_prop f v) [''_id'', ''clusterTime'', ''txnNumber'', ''lsid'']
       (copied actualEvent)"

definition assertChangeStreamEventEq :: "'s cstEnv \<Rightarrow> jsval \<Rightarrow> jsval \<Rightarrow> unit result" where
  "assertChangeStreamEventEq env actualEvent expectedEvent =
     (if expectedEvent = Undef \<or> expectedEvent = Null then Inl (TypeErr ''expectedEvent has no properties'')
      else require (docEq env (withoutUnexpected expectedEvent actualEvent) expectedEvent) ''Change did not match expected change.''
        (Inr ()))"

definition isInvalidated :: "jsval \<Rightarrow> bool result" where
  "isInvalidated change = rbind (get_prop change ''operationType'') (\<lambda>v. Inr (v = JStr ''invalidate''))"

definition elem :: "jsval list \<Rightarrow> nat \<Rightarrow> jsval" where
  "elem xs i = (if i < length xs then xs ! i else Undef)"

definition assertChangeIsExpected :: "'s cstEnv \<Rightarrow> jsval list option \<Rightarrow> nat \<Rightarrow> jsval list \<Rightarrow> bool \<Rightarrow> unit result" where
  "assertChangeIsExpected env expectedChanges numChangesSeen observedChanges expectInvalidate =
     (case expectedChanges of
        Some expected \<Rightarrow> assertChangeStreamEventEq env (elem observedChanges numChangesSeen) (elem expected numChangesSeen)
      | None \<Rightarrow>
          if expectInvalidate then Inr ()
          else rbind (isInvalidated (elem observedChanges numChangesSeen)) (\<lambda>inv.
               require (\<not> inv) ''Change was invalidated when it should not have been.'' (Inr ())))"

subsection \<open>Cursors\<close>

definition collectionName :: "jsval \<Rightarrow> jsval result" where
  "collectionName collection =
     (case collection of
        JExt cls name \<Rightarrow> if cls = ''DBCollection'' then Inr (JStr name) else Inl (AssertFail ''assert failed'')
      | JStr name \<Rightarrow> Inr (JStr name)
      | v \<Rightarrow> require (strict_eq v (jnum 1)) ''assert failed'' (Inr v))"

text \<open>Loose equality with zero, for a cursor id.\<close>

definition isZero :: "jsval \<Rightarrow> bool" where
  "isZero v \<longleftrightarrow> v \<noteq> Null \<and> to_number v = Fin 0"

definition watchCommand :: "jsval \<Rightarrow> jsval \<Rightarrow> jsval \<Rightarrow> jsval" where
  "watchCommand pipeline collName aggregateOptions =
     (let opts = js_or aggregateOptions (JObj []);
          opts' = set_prop ''cursor'' (js_or (fld opts ''cursor'') (JObj [(''batchSize'', jnum 1)])) opts in
      obj_assign (JObj [(''aggregate'', collName), (''pipeline'', pipeline)]) opts')"

definition startWatchingChanges :: "'s cstEnv \<Rightarrow> jsval \<Rightarrow> jsval \<Rightarrow> jsval \<Rightarrow> bool \<Rightarrow> ('s cstState, jsval) eff" where
  "startWatchingChanges env pipeline collection aggregateOptions doNotModifyInPassthroughs =
     bindE (liftE (collectionName collection)) (\<lambda>collName.
     bindE (onCst (worked env (cstRun env (cstDb env) (watchCommand pipeline collName aggregateOptions) doNotModifyInPassthroughs))) (\<lambda>res.
     bindE (liftE (get_prop res ''cursor'')) (\<lambda>cursor.
     bindE (liftE (get_prop cursor ''id'')) (\<lambda>i.
     seqE (assertE (\<not> isZero i) ''are equal'')
    (seqE (modE (\<lambda>s. s\<lparr>allCursors := allCursors s @ [(cstDb env, collName, i)]\<rparr>))
    (ret cursor))))))"

definition startWatchingAllChangesForCluster :: "'s cstEnv \<Rightarrow> jsval \<Rightarrow> ('s cstState, jsval) eff" where
  "startWatchingAllChangesForCluster env aggregateOptions =
     startWatchingChanges env (JArr [JObj [(''$changeStream'', JObj [(''allChangesForCluster'', JBool True)])]]) (jnum 1) aggregateOptions False"

definition getNextBatch :: "'s cstEnv \<Rightarrow> jsval \<Rightarrow> ('s, jsval) eff" where
  "getNextBatch env cursor =
     bindE (liftE (rbind (get_prop cursor ''ns'') getCollectionNameFromFullNamespace)) (\<lambda>collName.
     bindE (worked env (cstRun env (cstDb env)
       (JObj [(''getMore'', fld cursor ''id''), (''collection'', collName), (''batchSize'', jnum 1)]) False)) (\<lambda>res.
     liftE (get_prop res ''cursor'')))"

definition getBatchFromCursorDocument :: "jsval \<Rightarrow> jsval" where
  "getBatchFromCursorDocument cursor = (if fld cursor ''nextBatch'' = Undef then fld cursor ''firstBatch'' else fld cursor ''nextBatch'')"

definition getNextDocFromCursor :: "jsval \<Rightarrow> jsval result" where
  "getNextDocFromCursor cursor =
     rbind (get_prop cursor ''nextBatch'') (\<lambda>_.
     case getBatchFromCursorDocument cursor of
       JArr batch \<Rightarrow> if batch = [] then Inr Null else require (length batch = 1) ''Batch length wasn't 0 or 1'' (Inr (hd batch))
     | v \<Rightarrow> if v = Undef \<or> v = Null then Inl (TypeErr ''nextBatch has no properties'') else Inl (AssertFail ''Batch length wasn't 0 or 1''))"

subsection \<open>Changes\<close>

fun awaitChange :: "'s cstEnv \<Rightarrow> nat \<Rightarrow> jsval \<Rightarrow> ('s, jsval \<times> jsval) eff" where
  "awaitChange env attempts cursor =
     bindE (getNextBatch env cursor) (\<lambda>cursor'.
     bindE (liftE (getNextDocFromCursor cursor')) (\<lambda>change.
     if change \<noteq> Null then ret (cursor', change)
     else case attempts of
         0 \<Rightarrow> raise (AssertFail ''timed out waiting for another result from the change stream'')
       | Suc k \<Rightarrow> awaitChange env k cursor'))"

declare awaitChange.simps [simp del]

text \<open>The loop over the expected changes: \<open>left\<close> of them are still to be seen.\<close>

fun changesLoop :: "'s cstEnv \<Rightarrow> jsval list option \<Rightarrow> bool \<Rightarrow> bool \<Rightarrow> nat \<Rightarrow> nat \<Rightarrow> jsval \<Rightarrow> jsval list \<Rightarrow> ('s, jsval \<times> jsval list) eff" where
  "changesLoop env expected expectInvalidate skipFirstBatch attempts 0 cursor changes = ret (cursor, changes)"
| "changesLoop env expected expectInvalidate skipFirstBatch attempts (Suc left) cursor changes =
     bindE (if changes = [] \<and> \<not> skipFirstBatch then liftE (getNextDocFromCursor cursor) else ret Null) (\<lambda>first.
     bindE (if truthy first then ret (cursor, first) else awaitChange env attempts cursor) (\<lambda>(cursor', change).
     seqE (liftE (assertChangeIsExpected env expected (length changes) (changes @ [change]) expectInvalidate))
     (changesLoop env expected expectInvalidate skipFirstBatch attempts left cursor' (changes @ [change]))))"

definition jsLength :: "jsval \<Rightarrow> jsval" where
  "jsLength v = (case v of JArr xs \<Rightarrow> jnum (int (length xs)) | JStr cs \<Rightarrow> jnum (int (length cs)) | _ \<Rightarrow> fld v ''length'')"

text \<open>The expected changes as an array, and their number.\<close>

definition expectedList :: "jsval \<Rightarrow> jsval list" where
  "expectedList v = (case v of JArr xs \<Rightarrow> xs | _ \<Rightarrow> [v])"

definition expectations :: "jsval \<Rightarrow> nat option \<Rightarrow> (jsval list option \<times> nat) result" where
  "expectations expectedChanges expectedNumChanges =
     rbind (if expectedChanges \<noteq> Undef \<and> expectedNumChanges \<noteq> None
            then (if expectedChanges = Null then Inl (TypeErr ''expectedChanges is null'')
                  else require (jsLength expectedChanges = jnum (int (the expectedNumChanges)))
                    ''Expected change's size must match expected number of changes'' (Inr ()))
            else Inr ()) (\<lambda>_.
     let expected = (if expectedChanges = Undef then None else Some (expectedList expectedChanges)) in
     case expectedNumChanges of
       Some n \<Rightarrow> Inr (expected, n)
     | None \<Rightarrow> (case expected of None \<Rightarrow> Inl (AssertFail ''are equal'') | Some xs \<Rightarrow> Inr (expected, length xs)))"

definition assertNextChangesEqual :: "'s cstEnv \<Rightarrow> nat \<Rightarrow> jsval \<Rightarrow> jsval \<Rightarrow> nat option \<Rightarrow> bool \<Rightarrow> bool \<Rightarrow> ('s, jsval list) eff" where
  "assertNextChangesEqual env attempts cursor expectedChanges expectedNumChanges expectInvalidate skipFirstBatch =
     bindE (liftE (expectations expectedChanges expectedNumChanges)) (\<lambda>(expected, n).
     bindE (changesLoop env expected expectInvalidate skipFirstBatch attempts n cursor []) (\<lambda>(cursor', changes).
     if \<not> expectInvalidate then ret changes
     else bindE (liftE (isInvalidated (if changes = [] then Undef else last changes))) (\<lambda>inv.
          seqE (assertE inv ''Last change was not invalidated when it was expected'')
         (bindE (getNextBatch env cursor') (\<lambda>finalCursor.
          bindE (liftE (get_prop finalCursor ''id'')) (\<lambda>i.
          seqE (assertE (isZero i) ''Final cursor was not killed'') (ret changes)))))))"

definition assertNoChange :: "'s cstEnv \<Rightarrow> jsval \<Rightarrow> ('s, unit) eff" where
  "assertNoChange env cursor =
     bindE (getNextBatch env cursor) (\<lambda>cursor'.
     bindE (liftE (get_prop (fld cursor' ''nextBatch'') ''length'')) (\<lambda>_.
     assertE (jsLength (fld cursor' ''nextBatch'') = jnum 0) ''Cursor had changes''))"

definition getOneChange :: "'s cstEnv \<Rightarrow> nat \<Rightarrow> jsval \<Rightarrow> bool \<Rightarrow> ('s, jsval) eff" where
  "getOneChange env attempts cursor expectInvalidate =
     bindE (assertNextChangesEqual env attempts cursor Undef (Some 1) expectInvalidate True) (\<lambda>changes. ret (elem changes 0))"

text \<open>The loop goes on while the server keeps reporting drops: it is bounded by fuel.\<close>

fun consumeDrops :: "'s cstEnv \<Rightarrow> nat \<Rightarrow> nat \<Rightarrow> jsval \<Rightarrow> string \<Rightarrow> bool \<Rightarrow> jsval list \<Rightarrow> jsval \<Rightarrow> ('s, jsval list \<times> jsval) eff" where
  "consumeDrops env attempts 0 cursor dropType expectInvalidate results change = diverge"
| "consumeDrops env attempts (Suc fuel) cursor dropType expectInvalidate results change =
     bindE (liftE (get_prop change ''operationType'')) (\<lambda>op.
     if op = JStr dropType
     then bindE (getOneChange env attempts cursor expectInvalidate) (\<lambda>change'.
          consumeDrops env attempts fuel cursor dropType expectInvalidate (results @ [change]) change')
     else ret (results, change))"

definition consumeDropUpTo :: "'s cstEnv \<Rightarrow> nat \<Rightarrow> nat \<Rightarrow> jsval \<Rightarrow> string \<Rightarrow> jsval \<Rightarrow> bool \<Rightarrow> ('s, jsval list) eff" where
  "consumeDropUpTo env attempts fuel cursor dropType expectedNext expectInvalidate =
     bindE (getOneChange env attempts cursor expectInvalidate) (\<lambda>first.
     bindE (consumeDrops env attempts fuel cursor dropType expectInvalidate [] first) (\<lambda>(results, change).
     seqE (liftE (assertChangeIsExpected env (Some [expectedNext]) 0 [change] expectInvalidate))
     (ret (results @ [change]))))"

definition assertDatabaseDrop :: "'s cstEnv \<Rightarrow> nat \<Rightarrow> nat \<Rightarrow> jsval \<Rightarrow> string \<Rightarrow> ('s, jsval list) eff" where
  "assertDatabaseDrop env attempts fuel cursor dbName =
     consumeDropUpTo env attempts fuel cursor ''drop''
       (JObj [(''operationType'', JStr ''dropDatabase''), (''ns'', JObj [(''db'', JStr dbName)])]) False"

subsection \<open>Cleaning up, and streams by mode\<close>

definition killCommand :: "jsval \<Rightarrow> jsval \<Rightarrow> jsval option" where
  "killCommand coll i =
     (if typeof coll = ''string'' then Some (JObj [(''killCursors'', coll), (''cursors'', JArr [i])])
      else if to_number coll = Fin 1 then Some (JObj [(''killCursors'', JStr ''$cmd.aggregate''), (''cursors'', JArr [i])])
      else None)"

definition cst_cleanUp :: "'s cstEnv \<Rightarrow> ('s cstState, unit) eff" where
  "cst_cleanUp env =
     bindE (getE allCursors) (forEachE (\<lambda>(db, coll, i).
       case killCommand coll i of
         None \<Rightarrow> ret ()
       | Some cmd \<Rightarrow> bindE (onCst (worked env (cstRun env db cmd False))) (\<lambda>_. ret ())))"

definition getChangeStreamStage :: "nat \<Rightarrow> jsval \<Rightarrow> jsval" where
  "getChangeStreamStage watchMode resumeAfter =
     (let doc = (if truthy resumeAfter then JObj [(''resumeAfter'', resumeAfter)] else JObj []) in
      if watchMode = kCluster then set_prop ''allChangesForCluster'' (JBool True) doc else doc)"

definition getChangeStream :: "'s cstEnv \<Rightarrow> nat \<Rightarrow> jsval \<Rightarrow> jsval \<Rightarrow> ('s cstState, jsval) eff" where
  "getChangeStream env watchMode coll resumeAfter =
     startWatchingChanges env (JArr [JObj [(''$changeStream'', getChangeStreamStage watchMode resumeAfter)]])
       (if watchMode = kCollection then coll else jnum 1) (JObj [(''cursor'', JObj [(''batchSize'', jnum 0)])]) False"

definition getDBForChangeStream :: "nat \<Rightarrow> string \<Rightarrow> string" where
  "getDBForChangeStream watchMode dbName = (if watchMode = kCluster then ''admin'' else dbName)"

definition assertChangeStreamThrowsCode :: "'s cstEnv \<Rightarrow> string \<Rightarrow> jsval \<Rightarrow> jsval \<Rightarrow> jsval \<Rightarrow> bool \<Rightarrow> ('s, bool) eff" where
  "assertChangeStreamThrowsCode env db collName pipeline expectedCode doNotModify =
     bindE (tryCatch
       (bindE (worked env (cstRun env db (JObj [(''aggregate'', collName), (''pipeline'', pipeline),
            (''cursor'', JObj [(''batchSize'', jnum 1)])]) doNotModify)) (\<lambda>res.
        bindE (liftE (rbind (get_prop res ''cursor'') (\<lambda>c. rbind (get_prop c ''ns'') getCollectionNameFromFullNamespace))) (\<lambda>name.
        bindE (worked env (cstRun env db (JObj [(''getMore'', fld (fld res ''cursor'') ''id''), (''collection'', name),
            (''batchSize'', jnum 1)]) False)) (\<lambda>_. ret False))))
       (\<lambda>e. seqE (assertE (fld (exn_obj e) ''code'' = expectedCode) ''Caught unexpected error'') (ret True))) (\<lambda>caught.
     if caught then ret True else raise (AssertFail ''expected this to be unreachable''))"

section \<open>Properties\<close>

text \<open>
  The documented behaviour of a change stream: a \<open>getMore\<close> with batch size one that works brings no change, or the next
  one of those still to be delivered.
\<close>

definition delivers :: "'s cstEnv \<Rightarrow> ('s \<Rightarrow> jsval list) \<Rightarrow> bool" where
  "delivers env pending \<longleftrightarrow>
     (\<forall>db cmd w res w'. has_own cmd ''getMore'' \<longrightarrow> cstRun env db cmd False w = (Val res, w') \<longrightarrow>
        commandWorked (cstShell env) res = None \<longrightarrow>
        fld (fld res ''cursor'') ''nextBatch'' = JArr [] \<and> pending w' = pending w \<or>
        (\<exists>d. fld (fld res ''cursor'') ''nextBatch'' = JArr [d] \<and> is_object d \<and> pending w = d # pending w'))"

lemma deliversD:
  "delivers env pending \<Longrightarrow> has_own cmd ''getMore'' \<Longrightarrow> cstRun env db cmd False w = (Val res, w') \<Longrightarrow>
   commandWorked (cstShell env) res = None \<Longrightarrow>
   fld (fld res ''cursor'') ''nextBatch'' = JArr [] \<and> pending w' = pending w \<or>
   (\<exists>d. fld (fld res ''cursor'') ''nextBatch'' = JArr [d] \<and> is_object d \<and> pending w = d # pending w')"
  unfolding delivers_def by blast

lemma getNextBatch_Val:
  assumes "getNextBatch env cursor w = (Val cursor', w')" and "delivers env pending"
  shows "fld cursor' ''nextBatch'' = JArr [] \<and> pending w' = pending w \<or>
    (\<exists>d. fld cursor' ''nextBatch'' = JArr [d] \<and> is_object d \<and> pending w = d # pending w')"
proof -
  from assms(1) obtain collName res where run:
    "cstRun env (cstDb env) (JObj [(''getMore'', fld cursor ''id''), (''collection'', collName), (''batchSize'', jnum 1)]) False w = (Val res, w')"
    "commandWorked (cstShell env) res = None" "cursor' = fld res ''cursor''"
    by (auto simp: getNextBatch_def worked_def bindE_Val seqE_Val liftE_Val checkE_Val ret_Val)
  have "has_own (JObj [(''getMore'', fld cursor ''id''), (''collection'', collName), (''batchSize'', jnum 1)]) ''getMore''"
    by (simp add: has_own_def obj_keys_def)
  from deliversD [OF assms(2) this run(1,2)] show ?thesis by (simp add: run(3))
qed

lemma awaitChange_Val:
  assumes "delivers env pending" and "awaitChange env k cursor w = (Val (cursor', d), w')"
  shows "pending w = d # pending w' \<and> is_object d"
  using assms(2)
proof (induction k arbitrary: cursor w)
  have found: "pending v = d # pending w' \<and> is_object d"
    if "getNextBatch env c v = (Val c', w')" "getNextDocFromCursor c' = Inr d" "d \<noteq> Null" for c c' v
    using getNextBatch_Val [OF that(1) assms(1)] that(2,3)
    by (auto simp: getNextDocFromCursor_def getBatchFromCursorDocument_def rbind_Inr require_def)
  {
    case 0
    then show ?case
      by (subst (asm) awaitChange.simps) (auto simp: bindE_Val liftE_Val ret_Val raise_def split: if_splits dest: found)
  next
    case (Suc k)
    have passed: "pending v' = pending v"
      if "getNextBatch env c v = (Val c', v')" "getNextDocFromCursor c' = Inr Null" for c c' v v'
      using getNextBatch_Val [OF that(1) assms(1)] that(2)
      by (auto simp: getNextDocFromCursor_def getBatchFromCursorDocument_def rbind_Inr require_def is_object_def)
    from Suc.prems obtain c1 w1 d0 where 1: "getNextBatch env cursor w = (Val c1, w1)" "getNextDocFromCursor c1 = Inr d0"
      and rest: "(if d0 \<noteq> Null then ret (c1, d0) else awaitChange env k c1) w1 = (Val (cursor', d), w')"
      unfolding awaitChange.simps [of env "Suc k"] nat.case by (auto simp: bindE_Val liftE_Val simp del: if_split)
    show ?case
    proof (cases "d0 = Null")
      case True
      with Suc.IH [of c1 w1] passed [OF 1(1)] 1(2) rest show ?thesis by simp
    next
      case False
      with found [of cursor w c1] 1 rest show ?thesis by (simp add: ret_Val)
    qed
  }
qed

definition changeOk :: "'s cstEnv \<Rightarrow> jsval list option \<Rightarrow> bool \<Rightarrow> nat \<Rightarrow> jsval \<Rightarrow> bool" where
  "changeOk env expected expectInvalidate i d \<longleftrightarrow>
     (case expected of
        Some xs \<Rightarrow> assertChangeStreamEventEq env d (elem xs i) = Inr ()
      | None \<Rightarrow> expectInvalidate \<or> isInvalidated d = Inr False)"

lemma expected_changeOk:
  "assertChangeIsExpected env expected (length changes) (changes @ [d]) inval = Inr () \<longleftrightarrow> changeOk env expected inval (length changes) d"
  by (auto simp: assertChangeIsExpected_def changeOk_def elem_def rbind_Inr require_def split: option.split)

lemma changesLoop_later:
  assumes "delivers env pending" and "changesLoop env expected inval skip attempts n cursor changes w = (Val (cursor', out), w')"
    and "changes \<noteq> [] \<or> skip"
  shows "\<exists>new. out = changes @ new \<and> length new = n \<and> pending w = new @ pending w' \<and>
    (\<forall>i < n. changeOk env expected inval (length changes + i) (new ! i))"
  using assms(2,3)
proof (induction n arbitrary: cursor changes w)
  case 0
  then show ?case by (simp add: ret_Val)
next
  case (Suc n)
  from Suc.prems obtain c1 d w1 where 1: "awaitChange env attempts cursor w = (Val (c1, d), w1)"
    and ok: "changeOk env expected inval (length changes) d"
    and rest: "changesLoop env expected inval skip attempts n c1 (changes @ [d]) w1 = (Val (cursor', out), w')"
    by (auto simp: bindE_Val seqE_Val liftE_Val ret_Val expected_changeOk)
  from Suc.IH [OF rest] obtain new where new: "out = (changes @ [d]) @ new" "length new = n" "pending w1 = new @ pending w'"
    "\<forall>i < n. changeOk env expected inval (length (changes @ [d]) + i) (new ! i)" by auto
  have "changeOk env expected inval (length changes + i) ((d # new) ! i)" if "i < Suc n" for i
    using that new(4) ok by (cases i) auto
  with new awaitChange_Val [OF assms(1) 1] show ?case by (intro exI [of _ "d # new"]) auto
qed

definition firstDocs :: "jsval \<Rightarrow> jsval list" where
  "firstDocs cursor = arr_elems (getBatchFromCursorDocument cursor)"

lemma getNextDoc_first: "getNextDocFromCursor cursor = Inr d \<Longrightarrow> firstDocs cursor = [] \<and> d = Null \<or> firstDocs cursor = [d]"
  by (cases "getBatchFromCursorDocument cursor")
    (auto simp: getNextDocFromCursor_def firstDocs_def rbind_Inr require_def length_Suc_conv split: if_splits)

lemma changesLoop_Val:
  assumes "delivers env pending" and "changesLoop env expected inval skip attempts n cursor [] w = (Val (cursor', out), w')"
    and "list_all is_object (firstDocs cursor)" and "n > 0"
  shows "length out = n \<and> (if skip then [] else firstDocs cursor) @ pending w = out @ pending w' \<and>
    (\<forall>i < n. changeOk env expected inval i (out ! i))"
proof (cases skip)
  case True
  then show ?thesis using changesLoop_later [OF assms(1,2)] by auto
next
  case False
  obtain m where n: "n = Suc m" using assms(4) by (cases n) auto
  from assms(2) False obtain d0 c1 d w1 where 0: "getNextDocFromCursor cursor = Inr d0"
    and 1: "(if truthy d0 then ret (cursor, d0) else awaitChange env attempts cursor) w = (Val (c1, d), w1)"
    and ok: "changeOk env expected inval 0 d"
    and rest: "changesLoop env expected inval skip attempts m c1 [d] w1 = (Val (cursor', out), w')"
    using expected_changeOk [of env expected "[]"]
    by (auto simp: n bindE_Val seqE_Val liftE_Val simp del: if_split) 
  have first: "firstDocs cursor @ pending w = d # pending w1"
    using getNextDoc_first [OF 0] 1 assms(3) awaitChange_Val [OF assms(1), of attempts cursor w c1 d w1]
    by (auto simp: ret_Val is_object_def split: if_splits) (cases d0; auto)+
  from changesLoop_later [OF assms(1) rest] obtain new where new: "out = [d] @ new" "length new = m" "pending w1 = new @ pending w'"
    "\<forall>i < m. changeOk env expected inval (1 + i) (new ! i)" by auto
  have "changeOk env expected inval i (out ! i)" if "i < n" for i
    using that new(1,4) ok n by (cases i) auto
  with new first False n show ?thesis by auto
qed

lemma expectations_Inr:
  assumes "expectations expectedChanges num = Inr (expected, n)"
  shows "expected = (if expectedChanges = Undef then None else Some (expectedList expectedChanges))"
    and "\<forall>k. num = Some k \<longrightarrow> n = k"
    and "is_array expectedChanges \<Longrightarrow> n = length (expectedList expectedChanges)"
proof -
  show "expected = (if expectedChanges = Undef then None else Some (expectedList expectedChanges))" "\<forall>k. num = Some k \<longrightarrow> n = k"
    using assms by (auto simp: expectations_def rbind_Inr Let_def split: option.splits if_splits)
  show "is_array expectedChanges \<Longrightarrow> n = length (expectedList expectedChanges)"
    using assms by (cases expectedChanges) (auto simp: expectations_def expectedList_def rbind_Inr require_def jsLength_def split: option.splits if_splits)
qed

text \<open>What is left after the loop: nothing, or the check of the invalidation and of the batch after it.\<close>

lemma assertNextChanges_Val:
  assumes "assertNextChangesEqual env attempts cursor expectedChanges num inval skip w = (Val changes, w')"
  obtains expected n cursor' w1 where "expectations expectedChanges num = Inr (expected, n)"
    and "changesLoop env expected inval skip attempts n cursor [] w = (Val (cursor', changes), w1)"
    and "if inval then isInvalidated (if changes = [] then Undef else last changes) = Inr True \<and> (\<exists>c. getNextBatch env cursor' w1 = (Val c, w'))
         else w' = w1"
proof (cases inval)
  case True
  with assms that show ?thesis
    by (auto simp: assertNextChangesEqual_def bindE_Val liftE_Val seqE_Val assertE_Val ret_Val simp del: changesLoop.simps)
next
  case False
  with assms that show ?thesis
    by (auto simp: assertNextChangesEqual_def bindE_Val liftE_Val ret_Val simp del: changesLoop.simps)
qed

lemma changes_matched:
  assumes e: "expectations expectedChanges num = Inr (expected, n)" and "expectedChanges \<noteq> Undef" and "n > 0" and len: "length changes = n"
    and each: "\<forall>i < n. changeOk env expected inval i (changes ! i)"
  shows "list_all2 (\<lambda>d e. docEq env (withoutUnexpected e d) e) changes (expectedList expectedChanges)"
proof -
  have ok: "assertChangeStreamEventEq env (changes ! i) (elem (expectedList expectedChanges) i) = Inr ()" if "i < n" for i
    using each that expectations_Inr(1) [OF e] assms(2) by (auto simp: changeOk_def)
  then have small: "i < length (expectedList expectedChanges)" if "i < n" for i
    using ok [OF that] by (auto simp: assertChangeStreamEventEq_def elem_def split: if_splits)
  have "n \<le> length (expectedList expectedChanges)" using small by (meson not_le order_less_irrefl)
  moreover have "length (expectedList expectedChanges) \<le> n"
    using expectations_Inr(3) [OF e] \<open>n > 0\<close> by (cases expectedChanges) (auto simp: expectedList_def)
  ultimately have same: "length changes = length (expectedList expectedChanges)" using len by simp
  show ?thesis
  proof (rule list_all2I)
    show "length changes = length (expectedList expectedChanges)" by (rule same)
    show "\<forall>a\<in>set (zip changes (expectedList expectedChanges)). case a of (d, e) \<Rightarrow> docEq env (withoutUnexpected e d) e"
      using ok small len same
      by (fastforce simp: in_set_zip assertChangeStreamEventEq_def elem_def require_def split: if_splits)
  qed
qed

text \<open>
  C24. The changes a test sees are exactly the next ones of its stream: when \<open>assertNextChangesEqual\<close> returns changes, they are, in
  order and without gaps, those of the batch it started with (unless that is skipped) and those the server still
  had to deliver, as many as asked for.  When changes were expected, each equals the one expected in its place,
  apart from its resume token, cluster time, transaction number and session where the expectation does not mention them.  When
  none were given and no invalidation is expected, none of the changes is one; when an invalidation is expected, it is the last
  change, and only the batch that is then fetched to see that the cursor was killed may have taken a further change from the stream.\<close>

theorem next_changes_exact:
  assumes "assertNextChangesEqual env attempts cursor expectedChanges num inval skip w = (Val changes, w')"
    and "delivers env pending" and "list_all is_object (firstDocs cursor)" and "changes \<noteq> []"
  shows "(\<exists>late. (if skip then [] else firstDocs cursor) @ pending w = changes @ late @ pending w' \<and> length late \<le> (if inval then 1 else 0)) \<and>
    (\<forall>n. num = Some n \<longrightarrow> length changes = n) \<and>
    (expectedChanges \<noteq> Undef \<longrightarrow>
      list_all2 (\<lambda>d e. docEq env (withoutUnexpected e d) e) changes (expectedList expectedChanges)) \<and>
    (if inval then fld (last changes) ''operationType'' = JStr ''invalidate''
     else expectedChanges = Undef \<longrightarrow> list_all (\<lambda>d. fld d ''operationType'' \<noteq> JStr ''invalidate'') changes)"
proof -
  obtain expected n cursor' w1 where e: "expectations expectedChanges num = Inr (expected, n)"
    and loop: "changesLoop env expected inval skip attempts n cursor [] w = (Val (cursor', changes), w1)"
    and after: "if inval then isInvalidated (if changes = [] then Undef else last changes) = Inr True \<and> (\<exists>c. getNextBatch env cursor' w1 = (Val c, w'))
         else w' = w1" using assertNextChanges_Val [OF assms(1)] .
  have "n > 0" using loop assms(4) by (cases n) (auto simp: ret_Val)
  note run = changesLoop_Val [OF assms(2) loop assms(3) this]
  have "\<exists>late. pending w1 = late @ pending w' \<and> length late \<le> (if inval then 1 else 0)"
    using after getNextBatch_Val [OF _ assms(2), of cursor' w1] by (cases inval) fastforce+
  then have stream: "\<exists>late. (if skip then [] else firstDocs cursor) @ pending w = changes @ late @ pending w' \<and> length late \<le> (if inval then 1 else 0)"
    using run by (metis (no_types, lifting))
  have "list_all (\<lambda>d. fld d ''operationType'' \<noteq> JStr ''invalidate'') changes" if "\<not> inval" "expectedChanges = Undef"
    using run that expectations_Inr(1) [OF e] by (auto simp: list_all_length changeOk_def isInvalidated_def rbind_Inr)
  then have kind: "if inval then fld (last changes) ''operationType'' = JStr ''invalidate''
     else expectedChanges = Undef \<longrightarrow> list_all (\<lambda>d. fld d ''operationType'' \<noteq> JStr ''invalidate'') changes"
    using after assms(4) by (auto simp: isInvalidated_def rbind_Inr split: if_splits)
  show ?thesis
    using stream kind expectations_Inr(2) [OF e] changes_matched [OF e _ \<open>n > 0\<close>, of changes env inval] run by blast
qed

text \<open>
  A single expected change together with its number is refused: the sizes are compared before the change is put
  into an array.
\<close>

theorem single_change_with_number_refused:
  "expectations (JObj [(''operationType'', JStr ''insert'')]) (Some 1) =
     Inl (AssertFail ''Expected change's size must match expected number of changes'')"
  by code_simp

text \<open>With an invalidation expected, a drop can never be consumed: every single change must be the invalidation itself.\<close>

theorem one_change_must_invalidate:
  assumes "getOneChange env attempts cursor True w = (Val change, w')"
  shows "fld change ''operationType'' = JStr ''invalidate''"
proof -
  from assms obtain changes w1 where "assertNextChangesEqual env attempts cursor Undef (Some 1) True True w = (Val changes, w1)"
    and change: "change = elem changes 0" by (auto simp: getOneChange_def bindE_Val ret_Val)
  then obtain expected cursor' w2 where e: "expectations Undef (Some 1) = Inr (expected, 1)"
    and loop: "changesLoop env expected True True attempts 1 cursor [] w = (Val (cursor', changes), w2)"
    and inv: "isInvalidated (if changes = [] then Undef else last changes) = Inr True"
    by (auto simp: assertNextChangesEqual_def bindE_Val liftE_Val seqE_Val assertE_Val ret_Val expectations_def rbind_Inr simp del: changesLoop.simps)
  from loop have "\<exists>d. changes = [d]" by (auto simp: bindE_Val seqE_Val ret_Val liftE_Val One_nat_def)
  with inv change show ?thesis by (auto simp: isInvalidated_def rbind_Inr elem_def)
qed

text \<open>A stream of one change, for a concrete run.\<close>

definition oneInsert :: jsval where
  "oneInsert = JObj [(''_id'', JStr ''token''), (''operationType'', JStr ''insert'')]"

definition streamEnv :: "jsval list cstEnv" where
  "streamEnv = \<lparr>cstShell = exampleShell, cstDb = ''test'',
     cstRun = (\<lambda>_ _ _ docs.
       let n = (if docs \<noteq> [] \<and> is_object (hd docs) then 1 else 0) in
       (Val (JObj [(''ok'', jnum 1), (''cursor'', JObj [(''id'', JLong 7), (''ns'', JStr ''test.c''),
          (''nextBatch'', JArr (take n docs))])]), drop n docs)),
     docEq = (=)\<rparr>"

definition openedCursor :: jsval where
  "openedCursor = JObj [(''id'', JLong 7), (''ns'', JStr ''test.c''), (''firstBatch'', JArr [])]"

theorem next_changes_exact_witness:
  "assertNextChangesEqual streamEnv 0 openedCursor (JObj [(''operationType'', JStr ''insert'')]) None False False [oneInsert] = (Val [oneInsert], []) \<and>
   list_all2 (\<lambda>d e. docEq streamEnv (withoutUnexpected e d) e) [oneInsert] (expectedList (JObj [(''operationType'', JStr ''insert'')]))"
proof -
  have run: "assertNextChangesEqual streamEnv 0 openedCursor (JObj [(''operationType'', JStr ''insert'')]) None False False [oneInsert] = (Val [oneInsert], [])"
    by code_simp
  have "delivers streamEnv (\<lambda>docs. docs)"
    by (auto simp: delivers_def streamEnv_def fld_def Let_def neq_Nil_conv split: if_splits)
  moreover have "list_all is_object (firstDocs openedCursor)" by code_simp
  ultimately show ?thesis using next_changes_exact [OF run] run by simp
qed

end
