(* ===== verification/Sharded_Partitions.thy ===== *)
theory Sharded_Partitions
  imports Shell Assert_Level
begin

text \<open>
  The partitioned chunk workloads of the concurrency suite: the helpers of \<open>fsm_workload_helpers/chunks.js\<close>, the base workload
  \<open>sharded_base_partitioned.js\<close>, which gives every thread a range of shard keys in chunks of its own, and the
  extra split points of \<open>sharded_mergeChunks_partitioned.js\<close>.  Shard keys are integers or one of the two limits;
  a connection is named by its host, and the cluster is an environment acting on a world of its own.
\<close>

section \<open>Shard keys\<close>

datatype key = MinKey | Key int | MaxKey

fun keyVal :: "key \<Rightarrow> jsval" where
  "keyVal MinKey = JExt ''MinKey'' ''''"
| "keyVal (Key i) = jnum i"
| "keyVal MaxKey = JExt ''MaxKey'' ''''"

instantiation key :: linorder
begin

fun less_key :: "key \<Rightarrow> key \<Rightarrow> bool" where
  "less_key MinKey k \<longleftrightarrow> k \<noteq> MinKey"
| "less_key (Key i) MinKey \<longleftrightarrow> False"
| "less_key (Key i) (Key j) \<longleftrightarrow> i < j"
| "less_key (Key i) MaxKey \<longleftrightarrow> True"
| "less_key MaxKey k \<longleftrightarrow> False"

definition less_eq_key :: "key \<Rightarrow> key \<Rightarrow> bool" where
  "less_eq_key a b \<longleftrightarrow> a = b \<or> a < b"

instance
proof
  fix x y z :: key
  show "x < y \<longleftrightarrow> x \<le> y \<and> \<not> y \<le> x" by (cases x; cases y) (auto simp: less_eq_key_def)
  show "x \<le> x" by (simp add: less_eq_key_def)
  show "x \<le> y \<Longrightarrow> y \<le> z \<Longrightarrow> x \<le> z" by (cases x; cases y; cases z) (auto simp: less_eq_key_def)
  show "x \<le> y \<Longrightarrow> y \<le> x \<Longrightarrow> x = y" by (cases x; cases y) (auto simp: less_eq_key_def)
  show "x \<le> y \<or> y \<le> x" by (cases x; cases y) (auto simp: less_eq_key_def)
qed

end

lemma key_le [simp]:
  "Key i \<le> Key j \<longleftrightarrow> i \<le> j" "MinKey \<le> k" "k \<le> MaxKey" "\<not> Key i \<le> MinKey" "\<not> MaxKey \<le> Key i" "\<not> MaxKey \<le> MinKey"
  by (cases k; auto simp: less_eq_key_def)+

section \<open>Chunk commands with retries\<close>

record 's chEnv =
  chShell :: shell
  chLevel :: assert_level                                    \<comment> \<open>the global assertion level\<close>
  chFullName :: string                                       \<comment> \<open>\<open>db[collName].getFullName()\<close>\<close>
  chAdmin :: "jsval \<Rightarrow> ('s, jsval) eff"                      \<comment> \<open>\<open>db.adminCommand\<close>\<close>
  chSleep :: "nat \<Rightarrow> ('s, unit) eff"
  chAdminOn :: "string \<Rightarrow> jsval \<Rightarrow> ('s, jsval) eff"          \<comment> \<open>\<open>conn.adminCommand\<close>\<close>
  chIsMongos :: "string \<Rightarrow> ('s, bool) eff"
  chIsConfigsvr :: "string \<Rightarrow> ('s, bool) eff"
  chExplain :: "string \<Rightarrow> jsval \<Rightarrow> ('s, jsval) eff"          \<comment> \<open>\<open>conn.getCollection(collName).find(query).explain()\<close>\<close>
  chCountDocs :: "string \<Rightarrow> jsval \<Rightarrow> ('s, nat) eff"
  chFindChunks :: "string \<Rightarrow> jsval \<Rightarrow> ('s, jsval list) eff"   \<comment> \<open>\<open>config.chunks.find(query)\<close>, sorted by its lower bound\<close>
  chFindOne :: "string \<Rightarrow> jsval \<Rightarrow> ('s, jsval) eff"          \<comment> \<open>\<open>config.chunks.findOne(query)\<close>\<close>
  chFindShards :: "string \<Rightarrow> ('s, jsval list) eff"          \<comment> \<open>\<open>config.shards.find()\<close>\<close>
  chSampleChunk :: "string \<Rightarrow> jsval \<Rightarrow> ('s, jsval) eff"      \<comment> \<open>a chunk chosen at random from those that match\<close>
  chDatabase :: "('s, jsval) eff"                            \<comment> \<open>the entry of the database in \<open>config.databases\<close>\<close>
  chBulkInsert :: "int list \<Rightarrow> ('s, jsval) eff"
  chRandInt :: "nat \<Rightarrow> ('s, nat) eff"
  chRand :: "('s, rat) eff"

definition assertWhenOwnColl :: "'s chEnv \<Rightarrow> bool \<Rightarrow> string \<Rightarrow> ('s, unit) eff" where
  "assertWhenOwnColl env c msg = (if compareTo OWN_COLL (chLevel env) > 0 then ret () else assertE c msg)"

definition MAX_BACKOFF_SLEEP :: nat where "MAX_BACKOFF_SLEEP = 5000"
definition INITIAL_BACKOFF_SLEEP :: nat where "INITIAL_BACKOFF_SLEEP = 500"
definition MAX_RETRIES :: nat where "MAX_RETRIES = 5"

definition getNextBackoffSleep :: "nat \<Rightarrow> nat" where
  "getNextBackoffSleep curSleep = min (curSleep * 2) MAX_BACKOFF_SLEEP"

text \<open>The loop with \<open>left\<close> attempts to go; the response of the last attempt is the result.\<close>

fun chunkRetryLoop :: "'s chEnv \<Rightarrow> jsval \<Rightarrow> jsval list \<Rightarrow> nat \<Rightarrow> nat \<Rightarrow> jsval \<Rightarrow> ('s, jsval) eff" where
  "chunkRetryLoop env cmd acceptableErrorCodes 0 backoffSleep res = ret res"
| "chunkRetryLoop env cmd acceptableErrorCodes (Suc left) backoffSleep _ =
     bindE (chAdmin env cmd) (\<lambda>res.
     bindE (liftE (get_prop res ''ok'')) (\<lambda>ok.
     if truthy ok then ret res
     else seqE (assertWhenOwnColl env (list_ex (strict_eq (fld res ''code'')) acceptableErrorCodes) ''command failed'')
         (seqE (chSleep env backoffSleep)
         (chunkRetryLoop env cmd acceptableErrorCodes left (getNextBackoffSleep backoffSleep) res))))"

definition ch_runCommandWithRetries :: "'s chEnv \<Rightarrow> jsval \<Rightarrow> jsval list \<Rightarrow> ('s, jsval) eff" where
  "ch_runCommandWithRetries env cmd acceptableErrorCodes = chunkRetryLoop env cmd acceptableErrorCodes MAX_RETRIES INITIAL_BACKOFF_SLEEP Undef"

definition splitChunkAtPoint :: "'s chEnv \<Rightarrow> key \<Rightarrow> ('s, jsval) eff" where
  "splitChunkAtPoint env splitPoint =
     ch_runCommandWithRetries env (JObj [(''split'', JStr (chFullName env)), (''middle'', JObj [(''_id'', keyVal splitPoint)])])
       [errorCode (chShell env) ''LockBusy'']"

definition splitChunkWithBounds :: "'s chEnv \<Rightarrow> jsval \<Rightarrow> ('s, jsval) eff" where
  "splitChunkWithBounds env bounds =
     ch_runCommandWithRetries env (JObj [(''split'', JStr (chFullName env)), (''bounds'', bounds)]) [errorCode (chShell env) ''LockBusy'']"

definition moveChunkCmd :: "'s chEnv \<Rightarrow> jsval \<Rightarrow> jsval \<Rightarrow> jsval \<Rightarrow> jsval" where
  "moveChunkCmd env bounds toShard waitForDelete =
     JObj [(''moveChunk'', JStr (chFullName env)), (''bounds'', bounds), (''to'', toShard), (''_waitForDelete'', waitForDelete)]"

definition moveChunk :: "'s chEnv \<Rightarrow> jsval \<Rightarrow> jsval \<Rightarrow> jsval \<Rightarrow> ('s, jsval) eff" where
  "moveChunk env bounds toShard waitForDelete =
     ch_runCommandWithRetries env (moveChunkCmd env bounds toShard waitForDelete)
       [errorCode (chShell env) ''ConflictingOperationInProgress'', errorCode (chShell env) ''ChunkRangeCleanupPending'']"

definition mergeChunks :: "'s chEnv \<Rightarrow> jsval \<Rightarrow> ('s, jsval) eff" where
  "mergeChunks env bounds =
     ch_runCommandWithRetries env (JObj [(''mergeChunks'', JStr (chFullName env)), (''bounds'', bounds)]) [errorCode (chShell env) ''LockBusy'']"

section \<open>Looking at the cluster\<close>

text \<open>One attempt to find the primary among the connections, and the wait for it.\<close>

fun findPrimary :: "'s chEnv \<Rightarrow> string list \<Rightarrow> ('s, string option) eff" where
  "findPrimary env [] = ret None"
| "findPrimary env (conn # conns) =
     bindE (chIsMongos env conn) (\<lambda>mongos.
     seqE (assertE (\<not> mongos) ''is not to a mongod'')
    (bindE (chAdminOn env conn (JObj [(''isMaster'', jnum 1)])) (\<lambda>res.
     seqE (checkE (commandWorked (chShell env) res))
     (if truthy (fld res ''ismaster'') then ret (Some conn) else findPrimary env conns))))"

fun ch_getPrimary :: "'s chEnv \<Rightarrow> nat \<Rightarrow> string list \<Rightarrow> ('s, string) eff" where
  "ch_getPrimary env attempts connArr =
     bindE (findPrimary env connArr) (\<lambda>p.
     case p of
       Some conn \<Rightarrow> ret conn
     | None \<Rightarrow> (case attempts of 0 \<Rightarrow> raise (AssertFail ''Finding primary timed out'') | Suc n \<Rightarrow> ch_getPrimary env n connArr))"

declare ch_getPrimary.simps [simp del]

definition getRandomMongos :: "'s chEnv \<Rightarrow> string list \<Rightarrow> ('s, string) eff" where
  "getRandomMongos env connArr =
     bindE (chRandInt env (length connArr)) (\<lambda>i.
     if i \<ge> length connArr then raise (TypeErr ''conn is undefined'')
     else bindE (chIsMongos env (connArr ! i)) (\<lambda>mongos.
          seqE (assertE mongos ''is not to a mongos'') (ret (connArr ! i))))"

definition rangeQuery :: "jsval \<Rightarrow> string \<Rightarrow> jsval \<Rightarrow> jsval" where
  "rangeQuery lower upperOp upper =
     JObj [(''$and'', JArr [JObj [(''_id'', JObj [(''$gte'', lower)])], JObj [(''_id'', JObj [(upperOp, upper)])]])]"

text \<open>
  The documents in a range that is closed below and open above, seen as a closed range of integers.  The upper limit is one object
  of the shell, so that \<open>upper === MaxKey\<close> is equality.
\<close>

definition shardsQuery :: "jsval \<Rightarrow> jsval \<Rightarrow> jsval" where
  "shardsQuery lower upper =
     (if upper = keyVal MaxKey then rangeQuery lower ''$lt'' upper
      else rangeQuery lower ''$lte'' (JNum (num_add (to_number upper) (Fin (- 1)))))"

definition planShards :: "jsval \<Rightarrow> jsval result" where
  "planShards res = rbind (get_prop res ''queryPlanner'') (\<lambda>q. rbind (get_prop q ''winningPlan'') (\<lambda>p. get_prop p ''shards''))"

definition getShardsForRange :: "'s chEnv \<Rightarrow> string \<Rightarrow> jsval \<Rightarrow> jsval \<Rightarrow> ('s, jsval list) eff" where
  "getShardsForRange env conn lower upper =
     bindE (chIsMongos env conn) (\<lambda>mongos.
     seqE (assertE mongos ''is not to a mongos'')
    (bindE (chAdminOn env conn (JObj [(''getShardVersion'', JStr (chFullName env)), (''fullMetadata'', JBool True)])) (\<lambda>shardVersion.
     seqE (checkE (commandWorked (chShell env) shardVersion))
    (bindE (chExplain env conn (shardsQuery lower upper)) (\<lambda>res.
     seqE (checkE (commandWorked (chShell env) res))
    (bindE (liftE (planShards res)) (\<lambda>shards.
     case shards of
       JArr xs \<Rightarrow> seqE (assertE (xs \<noteq> []) ''Explain did not have shards key.'') (mapE (\<lambda>shard. liftE (get_prop shard ''shardName'')) xs)
     | v \<Rightarrow> raise (TypeErr ''shards is not an array''))))))))"

definition getNumDocs :: "'s chEnv \<Rightarrow> string \<Rightarrow> jsval \<Rightarrow> jsval \<Rightarrow> ('s, nat) eff" where
  "getNumDocs env conn lower upper = chCountDocs env conn (rangeQuery lower ''$lt'' upper)"

definition validNamespace :: "jsval \<Rightarrow> bool" where
  "validNamespace ns = (case ns of JStr n \<Rightarrow> CHR ''.'' \<in> set n \<and> hd n \<noteq> CHR ''.'' \<and> last n \<noteq> CHR ''.'' | _ \<Rightarrow> False)"

definition chunkQuery :: "jsval \<Rightarrow> jsval \<Rightarrow> jsval \<Rightarrow> jsval" where
  "chunkQuery ns lower upper =
     JObj [(''ns'', ns), (''min._id'', JObj [(''$gte'', lower)]), (''max._id'', JObj [(''$lte'', upper)])]"

definition getChunks :: "'s chEnv \<Rightarrow> string \<Rightarrow> jsval \<Rightarrow> jsval \<Rightarrow> jsval \<Rightarrow> ('s, jsval list) eff" where
  "getChunks env conn ns lower upper =
     bindE (chIsMongos env conn) (\<lambda>mongos.
     bindE (if mongos then ret True else chIsConfigsvr env conn) (\<lambda>ok.
     seqE (assertE ok ''is not to a mongos or a mongod config server'')
    (seqE (assertE (validNamespace ns) ''is not a valid namespace'')
    (chFindChunks env conn (chunkQuery ns lower upper)))))"

definition getNumChunks :: "'s chEnv \<Rightarrow> string \<Rightarrow> jsval \<Rightarrow> jsval \<Rightarrow> ('s, nat) eff" where
  "getNumChunks env conn lower upper =
     bindE (getChunks env conn (JStr (chFullName env)) lower upper) (\<lambda>chunks. ret (length chunks))"

text \<open>The call in \<open>stringifyChunks\<close> leaves the namespace out: the bounds move one place to the left.\<close>

definition stringifyChunks :: "'s chEnv \<Rightarrow> (jsval \<Rightarrow> string) \<Rightarrow> string \<Rightarrow> key \<Rightarrow> key \<Rightarrow> ('s, string list) eff" where
  "stringifyChunks env tojson conn lower upper =
     bindE (chIsMongos env conn) (\<lambda>mongos.
     bindE (if mongos then ret True else chIsConfigsvr env conn) (\<lambda>ok.
     seqE (assertE ok ''is not to a mongos or a mongod config server'')
    (bindE (getChunks env conn (keyVal lower) (keyVal upper) Undef) (\<lambda>chunks. ret (map tojson chunks)))))"

section \<open>The base workload\<close>

record partition =
  pNs :: string
  pLower :: int
  pUpper :: int
  isLowChunk :: bool
  isHighChunk :: bool
  chunkLower :: key
  chunkUpper :: key

definition makePartition :: "int \<Rightarrow> string \<Rightarrow> int \<Rightarrow> int \<Rightarrow> partition result" where
  "makePartition threadCount ns tid partitionSize =
     (let lower = tid * partitionSize; upper = tid * partitionSize + partitionSize;
          low = (tid = 0); high = (tid = threadCount - 1);
          p = \<lparr>pNs = ns, pLower = lower, pUpper = upper, isLowChunk = low, isHighChunk = high,
               chunkLower = (if low then MinKey else Key lower), chunkUpper = (if high then MaxKey else Key upper)\<rparr> in
      if threadCount > 1
      then require (\<not> (low \<and> high)) ''should not be both the high and low chunk when there is more than 1 thread'' (Inr p)
      else require (low \<and> high) ''should be both the high and low chunk when there is only 1 thread'' (Inr p))"

definition partitionQuery :: "string \<Rightarrow> partition \<Rightarrow> jsval" where
  "partitionQuery shardKeyField p =
     (let atLeast = (''min.'' @ shardKeyField, JObj [(''$gte'', keyVal (chunkLower p))]);
          atMost = (''max.'' @ shardKeyField, JObj [(''$lte'', keyVal (chunkUpper p))]) in
      JObj ((''ns'', JStr (pNs p)) #
        (if isLowChunk p \<and> isHighChunk p then []
         else if isLowChunk p then [atMost]
         else if isHighChunk p then [atLeast]
         else [atLeast, atMost])))"

definition getRandomChunkInPartition :: "'s chEnv \<Rightarrow> string \<Rightarrow> partition option \<Rightarrow> string \<Rightarrow> ('s, jsval) eff" where
  "getRandomChunkInPartition env shardKeyField part conn =
     bindE (chIsConfigsvr env conn) (\<lambda>configsvr.
     seqE (assertE configsvr ''Not connected to a mongod configsvr'')
    (case part of
       None \<Rightarrow> raise (AssertFail ''This function must be called from workloads that partition data across threads.'')
     | Some p \<Rightarrow> chSampleChunk env conn (partitionQuery shardKeyField p)))"

definition part_init :: "'s chEnv \<Rightarrow> nat \<Rightarrow> int \<Rightarrow> int \<Rightarrow> int \<Rightarrow> string list \<Rightarrow> ('s, partition) eff" where
  "part_init env attempts threadCount tid partitionSize configs =
     bindE (liftE (makePartition threadCount (chFullName env) tid partitionSize)) (\<lambda>p.
     bindE (ch_getPrimary env attempts configs) (\<lambda>config.
     bindE (getNumChunks env config (keyVal (chunkLower p)) (keyVal (chunkUpper p))) (\<lambda>numChunks.
     bindE (getChunks env config (JStr (chFullName env)) (keyVal MinKey) (keyVal MaxKey)) (\<lambda>chunks.
     seqE (assertWhenOwnColl env (numChunks = 1) ''are not equal'')
     (ret p)))))"

definition setupThread :: "'s chEnv \<Rightarrow> int \<Rightarrow> int \<Rightarrow> (partition \<Rightarrow> ('s, unit) eff) \<Rightarrow> int \<Rightarrow> ('s, unit) eff" where
  "setupThread env threadCount partitionSize setupAdditionalSplitPoints tid =
     bindE (liftE (makePartition threadCount (chFullName env) tid partitionSize)) (\<lambda>p.
     bindE (chBulkInsert env [pLower p..pUpper p - 1]) (\<lambda>res.
     seqE (checkE (commandWorked (chShell env) res))
    (seqE (if isLowChunk p then ret ()
           else bindE (splitChunkAtPoint env (Key (pLower p))) (\<lambda>res.
             if compareTo OWN_COLL (chLevel env) > 0 then ret () else checkE (commandWorked (chShell env) res)))
    (setupAdditionalSplitPoints p))))"

definition part_setup :: "'s chEnv \<Rightarrow> string \<Rightarrow> int \<Rightarrow> int \<Rightarrow> (partition \<Rightarrow> ('s, unit) eff) \<Rightarrow> ('s, unit) eff" where
  "part_setup env mongos threadCount partitionSize setupAdditionalSplitPoints =
     bindE (chDatabase env) (\<lambda>res.
     bindE (liftE (get_prop res ''partitioned'')) (\<lambda>partitioned.
     seqE (assertE (truthy partitioned) ''db must be sharded.'')
    (bindE (chFindChunks env mongos (JObj [(''ns'', JStr (chFullName env))])) (\<lambda>chunks.
     seqE (assertE (length chunks \<ge> 1) ''collection must be sharded.'')
    (forEachE (setupThread env threadCount partitionSize setupAdditionalSplitPoints) [0..threadCount - 1])))))"

text \<open>The extra split points of the merge workload.\<close>

definition innerSplitPoints :: "int \<Rightarrow> nat \<Rightarrow> int \<Rightarrow> int list" where
  "innerSplitPoints partitionSize iterations lower =
     (let innerChunkSize = partitionSize div int iterations in
      map (\<lambda>i. (int i + 1) * innerChunkSize + lower) [0..<iterations])"

definition merge_setupAdditionalSplitPoints :: "'s chEnv \<Rightarrow> int \<Rightarrow> nat \<Rightarrow> partition \<Rightarrow> ('s, unit) eff" where
  "merge_setupAdditionalSplitPoints env partitionSize iterations p =
     forEachE (\<lambda>splitPoint. bindE (splitChunkAtPoint env (Key splitPoint)) (\<lambda>res. checkE (commandWorked (chShell env) res)))
       (innerSplitPoints partitionSize iterations (pLower p))"

definition merge_init :: "'s chEnv \<Rightarrow> nat \<Rightarrow> int \<Rightarrow> int \<Rightarrow> int \<Rightarrow> nat \<Rightarrow> string list \<Rightarrow> ('s, partition) eff" where
  "merge_init env attempts threadCount tid partitionSize iterations configs =
     bindE (liftE (makePartition threadCount (chFullName env) tid partitionSize)) (\<lambda>p.
     bindE (ch_getPrimary env attempts configs) (\<lambda>config.
     bindE (getNumChunks env config (keyVal (chunkLower p)) (keyVal (chunkUpper p))) (\<lambda>numChunks.
     seqE (assertWhenOwnColl env (numChunks \<ge> 1) ''should be at least one chunk in each thread's partition.'')
    (seqE (assertWhenOwnColl env (numChunks > iterations) ''should be more chunks in each thread's partition than iterations'')
     (ret p)))))"

section \<open>Properties\<close>

lemma makePartition_Inr:
  "0 \<le> tid \<Longrightarrow> tid < n \<Longrightarrow> makePartition n ns tid psize = Inr
     \<lparr>pNs = ns, pLower = tid * psize, pUpper = tid * psize + psize, isLowChunk = (tid = 0), isHighChunk = (tid = n - 1),
      chunkLower = (if tid = 0 then MinKey else Key (tid * psize)), chunkUpper = (if tid = n - 1 then MaxKey else Key (tid * psize + psize))\<rparr>"
  by (auto simp: makePartition_def Let_def require_def)

text \<open>Whether a key belongs to the chunk of a thread.\<close>

definition inPartition :: "int \<Rightarrow> int \<Rightarrow> int \<Rightarrow> key \<Rightarrow> bool" where
  "inPartition n psize tid k \<longleftrightarrow>
     (case makePartition n '''' tid psize of Inl _ \<Rightarrow> False | Inr p \<Rightarrow> chunkLower p \<le> k \<and> k < chunkUpper p)"

lemma inPartition_Key:
  "0 \<le> tid \<Longrightarrow> tid < n \<Longrightarrow> inPartition n psize tid (Key i) \<longleftrightarrow>
     (tid = 0 \<or> tid * psize \<le> i) \<and> (tid = n - 1 \<or> i < tid * psize + psize)"
  by (auto simp: inPartition_def makePartition_Inr)

lemma div_bound:
  fixes t i psize :: int
  assumes "0 < psize"
  shows "t * psize \<le> i \<longleftrightarrow> t \<le> i div psize" and "i < t * psize \<longleftrightarrow> i div psize < t"
proof -
  show 1: "t * psize \<le> i \<longleftrightarrow> t \<le> i div psize"
  proof
    assume "t * psize \<le> i"
    from zdiv_mono1 [OF this assms] show "t \<le> i div psize" using assms by simp
  next
    assume "t \<le> i div psize"
    then have "t * psize \<le> i div psize * psize" using assms by (simp add: mult_right_mono)
    also have "\<dots> \<le> i" using pos_mod_sign [OF assms, of i] div_mult_mod_eq [of i psize] by linarith
    finally show "t * psize \<le> i" .
  qed
  then show "i < t * psize \<longleftrightarrow> i div psize < t" by linarith
qed

text \<open>
  The partitions tile the key space: with a positive number of threads and a positive partition size, every key below the upper
  limit is in the partition of exactly one thread.\<close>

theorem partitions_tile:
  assumes "0 < n" and "0 < psize" and "k \<noteq> MaxKey"
  shows "\<exists>!tid. 0 \<le> tid \<and> tid < n \<and> inPartition n psize tid k"
proof (cases k)
  case MinKey
  show ?thesis
  proof (rule ex1I [of _ 0])
    show "0 \<le> (0 :: int) \<and> 0 < n \<and> inPartition n psize 0 k"
      using assms(1) by (auto simp: MinKey inPartition_def makePartition_Inr)
    show "tid = 0" if "0 \<le> tid \<and> tid < n \<and> inPartition n psize tid k" for tid
      using that by (auto simp: MinKey inPartition_def makePartition_Inr split: if_splits)
  qed
next
  case (Key i)
  define t where "t = max 0 (min (i div psize) (n - 1))"
  have t: "0 \<le> t" "t < n" using assms(1) by (auto simp: t_def)
  have "inPartition n psize tid k \<longleftrightarrow> tid = t" if "0 \<le> tid" "tid < n" for tid
  proof -
    have "tid * psize + psize = (tid + 1) * psize" by (simp add: algebra_simps)
    then have "inPartition n psize tid k \<longleftrightarrow> (tid = 0 \<or> tid \<le> i div psize) \<and> (tid = n - 1 \<or> i div psize < tid + 1)"
      using div_bound [OF assms(2)] by (simp only: Key inPartition_Key [OF that])
    also have "\<dots> \<longleftrightarrow> tid = t" unfolding t_def using that by auto
    finally show ?thesis .
  qed
  with t show ?thesis by (intro ex1I [of _ t]) auto
qed (use assms(3) in simp)

text \<open>
  The documented behaviour of the cluster, seen through the set of the chunk bounds of the collection: a split that works adds
  its point, one that fails adds nothing, and no other operation of the set-up changes a bound.
\<close>

definition splits :: "'s chEnv \<Rightarrow> ('s \<Rightarrow> key set) \<Rightarrow> bool" where
  "splits env bounds \<longleftrightarrow>
     (\<forall>p w res w'. chAdmin env (JObj [(''split'', JStr (chFullName env)), (''middle'', JObj [(''_id'', keyVal p)])]) w = (Val res, w') \<longrightarrow>
        bounds w' = (if truthy (fld res ''ok'') then insert p (bounds w) else bounds w)) \<and>
     (\<forall>n w. bounds (snd (chSleep env n w)) = bounds w) \<and>
     (\<forall>ks w. bounds (snd (chBulkInsert env ks w)) = bounds w) \<and> (\<forall>w. bounds (snd (chDatabase env w)) = bounds w) \<and>
     (\<forall>conn q w. bounds (snd (chFindChunks env conn q w)) = bounds w)"

lemma retryLoop_bounds:
  assumes "splits env bounds"
    and "chunkRetryLoop env (JObj [(''split'', JStr (chFullName env)), (''middle'', JObj [(''_id'', keyVal p)])]) codes n t res0 w = (Val res, w')"
    and "\<not> truthy (fld res0 ''ok'')"
  shows "bounds w' = (if truthy (fld res ''ok'') then insert p (bounds w) else bounds w)"
  using assms(2,3)
proof (induction n arbitrary: t res0 w)
  case 0
  then show ?case by (auto simp: ret_Val)
next
  case (Suc n)
  let ?cmd = "JObj [(''split'', JStr (chFullName env)), (''middle'', JObj [(''_id'', keyVal p)])]"
  from Suc.prems obtain res1 w1 where 1: "chAdmin env ?cmd w = (Val res1, w1)"
    and rest: "(if truthy (fld res1 ''ok'') then ret res1
       else seqE (assertWhenOwnColl env (list_ex (strict_eq (fld res1 ''code'')) codes) ''command failed'')
         (seqE (chSleep env t) (chunkRetryLoop env ?cmd codes n (getNextBackoffSleep t) res1))) w1 = (Val res, w')"
    by (auto simp: bindE_Val liftE_Val simp del: if_split)
  have b1: "bounds w1 = (if truthy (fld res1 ''ok'') then insert p (bounds w) else bounds w)" using 1 assms(1) by (simp add: splits_def)
  show ?case
  proof (cases "truthy (fld res1 ''ok'')")
    case True
    with rest b1 show ?thesis by (auto simp: ret_Val)
  next
    case False
    with rest obtain w2 where 2: "chSleep env t w1 = (Val (), w2)"
      and 3: "chunkRetryLoop env ?cmd codes n (getNextBackoffSleep t) res1 w2 = (Val res, w')"
      by (auto simp: seqE_Val assertWhenOwnColl_def assertE_Val ret_Val split: if_splits)
    have "bounds w2 = bounds w1" using 2 assms(1) unfolding splits_def by (metis snd_conv)
    with Suc.IH [OF 3 False] b1 False show ?thesis by simp
  qed
qed

lemma splitChunkAtPoint_bounds:
  assumes "splits env bounds" and "splitChunkAtPoint env p w = (Val res, w')"
  shows "bounds w' = (if truthy (fld res ''ok'') then insert p (bounds w) else bounds w)"
  using retryLoop_bounds [OF assms(1), of p _ MAX_RETRIES INITIAL_BACKOFF_SLEEP Undef w res w'] assms(2)
  by (simp add: splitChunkAtPoint_def ch_runCommandWithRetries_def fld_def)

lemma setupThread_bounds:
  assumes "splits env bounds" and "commandWorked_spec (chShell env)" and "compareTo OWN_COLL (chLevel env) \<le> 0"
    and "0 \<le> tid" and "tid < n" and "setupThread env n psize (\<lambda>_. ret ()) tid w = (Val (), w')"
  shows "bounds w' = (if tid = 0 then bounds w else insert (Key (tid * psize)) (bounds w))"
proof -
  let ?split = "bindE (splitChunkAtPoint env (Key (tid * psize))) (\<lambda>res.
      if compareTo OWN_COLL (chLevel env) > 0 then ret () else checkE (commandWorked (chShell env) res))"
  from assms(4-6) obtain res w1 where 1: "chBulkInsert env [tid * psize..tid * psize + psize - 1] w = (Val res, w1)"
    and 2: "(if tid = 0 then ret () else ?split) w1 = (Val (), w')"
    by (auto simp: setupThread_def makePartition_Inr bindE_Val seqE_Val liftE_Val checkE_Val ret_Val simp del: if_split cong: if_cong)
  have b1: "bounds w1 = bounds w" using 1 assms(1) unfolding splits_def by (metis snd_conv)
  show ?thesis
  proof (cases "tid = 0")
    case True
    with 2 b1 show ?thesis by (simp add: ret_Val)
  next
    case False
    with 2 assms(3) obtain res2 where "splitChunkAtPoint env (Key (tid * psize)) w1 = (Val res2, w')" "commandWorked (chShell env) res2 = None"
      by (auto simp: bindE_Val checkE_Val)
    moreover from this(2) have "truthy (fld res2 ''ok'')" using assms(2) by (auto simp: commandWorked_spec_def response_failed_def)
    ultimately show ?thesis using splitChunkAtPoint_bounds [OF assms(1)] b1 False by simp
  qed
qed

text \<open>
  C28. After the set-up of the base workload each thread's partition is one chunk: when the collection started as a single chunk
  and assertions on its own collection are checked, a set-up that returns leaves, within the range of every thread, exactly the two
  bounds of that range.\<close>

theorem setup_one_chunk_each:
  assumes "part_setup env mongos n psize (\<lambda>_. ret ()) w = (Val (), w')"
    and "splits env bounds" and "commandWorked_spec (chShell env)" and "compareTo OWN_COLL (chLevel env) \<le> 0"
    and "bounds w = {MinKey, MaxKey}" and "0 < psize" and "0 \<le> tid" and "tid < n"
    and "makePartition n ns tid psize = Inr p"
  shows "{b \<in> bounds w'. chunkLower p \<le> b \<and> b \<le> chunkUpper p} = {chunkLower p, chunkUpper p}"
proof -
  have each: "forEachE (setupThread env n psize (\<lambda>_. ret ())) ts v = (Val (), v') \<Longrightarrow> \<forall>t \<in> set ts. 0 \<le> t \<and> t < n \<Longrightarrow>
      bounds v' = bounds v \<union> (\<lambda>t. Key (t * psize)) ` (set ts - {0})" for ts v v'
  proof (induction ts arbitrary: v)
    case (Cons t ts)
    then obtain v1 where t: "setupThread env n psize (\<lambda>_. ret ()) t v = (Val (), v1)"
      and ts: "forEachE (setupThread env n psize (\<lambda>_. ret ())) ts v1 = (Val (), v')" by (auto simp: seqE_Val)
    from Cons.prems have "bounds v1 = (if t = 0 then bounds v else insert (Key (t * psize)) (bounds v))"
      by (intro setupThread_bounds [OF assms(2-4) _ _ t]) auto
    with Cons.IH [OF ts] Cons.prems show ?case by (cases "t = 0") auto
  qed (simp add: ret_Val)
  from assms(1) obtain res chunks w1 w2 where "chDatabase env w = (Val res, w1)"
    "chFindChunks env mongos (JObj [(''ns'', JStr (chFullName env))]) w1 = (Val chunks, w2)"
    and loop: "forEachE (setupThread env n psize (\<lambda>_. ret ())) [0..n - 1] w2 = (Val (), w')"
    by (auto simp: part_setup_def bindE_Val seqE_Val liftE_Val assertE_Val)
  then have "bounds w2 = bounds w" using assms(2) unfolding splits_def by (metis snd_conv)
  moreover have "set [0..n - 1] - {0} = {t. 0 < t \<and> t < n}" by auto
  ultimately have w': "bounds w' = {MinKey, MaxKey} \<union> (\<lambda>t. Key (t * psize)) ` {t. 0 < t \<and> t < n}"
    using each [OF loop] assms(5) by auto
  have p: "chunkLower p = (if tid = 0 then MinKey else Key (tid * psize))"
    "chunkUpper p = (if tid = n - 1 then MaxKey else Key ((tid + 1) * psize))"
    using assms(9) makePartition_Inr [OF assms(7,8)] by (auto simp: algebra_simps)
  have mono: "a * psize \<le> b * psize \<longleftrightarrow> a \<le> b" for a b using assms(6) by (simp add: mult_le_cancel_right)
  show ?thesis unfolding w' p using assms(7,8) mono [of _ 1] by (auto simp: mono split: if_splits)
qed

text \<open>The sleeps between the attempts double up to their maximum.\<close>

lemma backoff_exact: "(getNextBackoffSleep ^^ k) INITIAL_BACKOFF_SLEEP = min (500 * 2 ^ k) 5000"
  by (induction k) (auto simp: getNextBackoffSleep_def MAX_BACKOFF_SLEEP_def INITIAL_BACKOFF_SLEEP_def min_def)

text \<open>
  The extra split points are above the lower bound of the partition and do not pass its upper bound; the last one is the upper bound
  itself, which is a split point of the next thread, exactly if the number of iterations divides the size.
\<close>

lemma inner_points:
  assumes "0 < iterations" and "int iterations \<le> psize"
  shows "\<forall>x \<in> set (innerSplitPoints psize iterations lower). lower < x \<and> x \<le> lower + psize"
    and "lower + psize \<in> set (innerSplitPoints psize iterations lower) \<longleftrightarrow> int iterations dvd psize"
proof -
  define q where "q = psize div int iterations"
  have q: "0 < q" using assms unfolding q_def by (simp add: pos_imp_zdiv_pos_iff)
  have whole: "int iterations * q \<le> psize"
    using assms(1) div_bound(1) [of "int iterations" q psize] by (simp add: q_def mult.commute)
  have point: "(int i + 1) * q \<le> int iterations * q" if "i < iterations" for i
    using that q by (intro mult_right_mono) auto
  have points: "set (innerSplitPoints psize iterations lower) = {(int i + 1) * q + lower | i. i < iterations}"
    by (auto simp: innerSplitPoints_def Let_def q_def)
  show "\<forall>x \<in> set (innerSplitPoints psize iterations lower). lower < x \<and> x \<le> lower + psize"
  proof
    fix x assume "x \<in> set (innerSplitPoints psize iterations lower)"
    then obtain i where "x = (int i + 1) * q + lower" "i < iterations" unfolding points by blast
    moreover have "0 < (int i + 1) * q" using q by simp
    ultimately show "lower < x \<and> x \<le> lower + psize" using point [of i] whole by linarith
  qed
  have "lower + psize \<in> set (innerSplitPoints psize iterations lower) \<longleftrightarrow> int iterations * q = psize"
  proof
    assume "lower + psize \<in> set (innerSplitPoints psize iterations lower)"
    then obtain i where "i < iterations" "(int i + 1) * q = psize" unfolding points by auto
    with point whole show "int iterations * q = psize" by force
  next
    assume "int iterations * q = psize"
    then show "lower + psize \<in> set (innerSplitPoints psize iterations lower)"
      unfolding points using assms(1) by (intro CollectI exI [of _ "iterations - 1"]) auto
  qed
  then show "lower + psize \<in> set (innerSplitPoints psize iterations lower) \<longleftrightarrow> int iterations dvd psize"
    by (auto simp: q_def dvd_mult_div_cancel) (metis dvd_triv_left)
qed

text \<open>The bound of the partition becomes a split point in the third diagram of the comment, which shows one at 1.\<close>

lemma diagram_split_point: "innerSplitPoints 5 1 0 = [5]"
  by code_simp

lemma diagram_split_points: "innerSplitPoints 5 2 0 = [2, 4]"
  by code_simp

text \<open>\<open>stringifyChunks\<close> never returns: the lower bound takes the place of the namespace, which has to be a string.\<close>

theorem stringifyChunks_throws: "stringifyChunks env tojson conn lower upper w \<noteq> (Val strs, w')"
proof -
  have "\<not> validNamespace (keyVal lower)" by (cases lower) (simp_all add: validNamespace_def)
  then show ?thesis by (auto simp: stringifyChunks_def getChunks_def bindE_Val seqE_Val assertE_Val)
qed

text \<open>A cluster whose splits work, for a concrete run: its world is the list of chunk bounds.\<close>

definition valKey :: "jsval \<Rightarrow> key" where
  "valKey v = (case v of JNum (Fin q) \<Rightarrow> Key \<lfloor>q\<rfloor> | JExt c _ \<Rightarrow> (if c = ''MinKey'' then MinKey else MaxKey) | _ \<Rightarrow> MaxKey)"

definition chunkCluster :: "key list chEnv" where
  "chunkCluster = \<lparr>chShell = exampleShell, chLevel = OWN_DB, chFullName = ''test.c'',
     chAdmin = (\<lambda>cmd. seqE (modE (\<lambda>B. valKey (fld (fld cmd ''middle'') ''_id'') # B)) (ret (JObj [(''ok'', jnum 1)]))),
     chSleep = (\<lambda>_. ret ()), chAdminOn = (\<lambda>_ _. ret (JObj [(''ok'', jnum 1)])), chIsMongos = (\<lambda>_. ret True), chIsConfigsvr = (\<lambda>_. ret False),
     chExplain = (\<lambda>_ _. ret Undef), chCountDocs = (\<lambda>_ _. ret 0), chFindChunks = (\<lambda>_ _. ret [JObj []]), chFindOne = (\<lambda>_ _. ret Null), chFindShards = (\<lambda>_. ret []), chSampleChunk = (\<lambda>_ _. ret Undef),
     chDatabase = ret (JObj [(''partitioned'', JBool True)]), chBulkInsert = (\<lambda>_. ret (JObj [(''ok'', jnum 1)])), chRandInt = (\<lambda>_. ret 0), chRand = ret 0\<rparr>"

lemma chunkCluster_spec:
  "splits chunkCluster set" "commandWorked_spec (chShell chunkCluster)" "compareTo OWN_COLL (chLevel chunkCluster) \<le> 0"
proof -
  have "valKey (keyVal p) = p" for p by (cases p) (simp_all add: valKey_def)
  then show "splits chunkCluster set"
    by (auto simp: splits_def chunkCluster_def js_simps fld_def seqE_Val ret_Val modE_def)
qed (simp_all add: chunkCluster_def exampleShell_commandWorked compareTo_def OWN_COLL_def OWN_DB_def)

theorem partitions_tile_witness: "\<exists>!tid. 0 \<le> tid \<and> tid < 5 \<and> inPartition 5 100 tid (Key 250)"
  by (rule partitions_tile) simp_all

theorem setup_one_chunk_each_witness:
  "part_setup chunkCluster ''m'' 2 100 (\<lambda>_. ret ()) [MinKey, MaxKey] = (Val (), [Key 100, MinKey, MaxKey]) \<and>
   {b \<in> set [Key 100, MinKey, MaxKey]. Key 100 \<le> b \<and> b \<le> MaxKey} = {Key 100, MaxKey}"
proof -
  let ?p = "\<lparr>pNs = ''test.c'', pLower = 100, pUpper = 200, isLowChunk = False, isHighChunk = True, chunkLower = Key 100, chunkUpper = MaxKey\<rparr>"
  have run: "part_setup chunkCluster ''m'' 2 100 (\<lambda>_. ret ()) [MinKey, MaxKey] = (Val (), [Key 100, MinKey, MaxKey])"
    by code_simp
  have "makePartition 2 ''test.c'' 1 100 = Inr ?p" by code_simp
  from setup_one_chunk_each [OF run chunkCluster_spec _ _ _ _ this] run show ?thesis by simp
qed

end
