(* ===== verification/Chunk_Workloads.thy ===== *)
theory Chunk_Workloads
  imports Sharded_Partitions Parse_Config
begin

text \<open>
  The states of the partitioned chunk workloads, \<open>sharded_splitChunk_partitioned.js\<close>, \<open>sharded_mergeChunks_partitioned.js\<close> and
  \<open>sharded_moveChunk_partitioned.js\<close>: each one changes a chunk of the thread's own partition and compares what the shards, the
  config servers and every mongos see before and after.  The connections of the cache are named by their hosts.  The laws of a
  cluster are stated over the thread's view of its partition, which no other thread changes: the roles of the servers are fixed while
  a state runs, and only a mongos or a primary is relied on for a current answer.  The states are shown to accept every cluster that
  keeps these laws.
\<close>

section \<open>The states\<close>

record connCache =
  ccMongos :: "string list"
  ccConfig :: "string list"
  ccShards :: "(string \<times> string list) list"

definition boundOf :: "jsval \<Rightarrow> string \<Rightarrow> jsval result" where
  "boundOf chunk side = rbind (get_prop chunk side) (\<lambda>b. get_prop b ''_id'')"

definition idBounds :: "jsval \<Rightarrow> jsval \<Rightarrow> jsval" where
  "idBounds lower upper = JArr [JObj [(''_id'', lower)], JObj [(''_id'', upper)]]"

text \<open>\<open>ChunkHelper.getPrimary(connCache.shards[shard])\<close>: a shard without connections fails the assertion on its argument.\<close>

definition shardPrimary :: "'s chEnv \<Rightarrow> nat \<Rightarrow> connCache \<Rightarrow> jsval \<Rightarrow> ('s, string) eff" where
  "shardPrimary env attempts cc shard =
     (case shard of
        JStr s \<Rightarrow> (case map_of (ccShards cc) s of
          Some conns \<Rightarrow> ch_getPrimary env attempts conns
        | None \<Rightarrow> raise (AssertFail ''Expected an array''))
      | _ \<Rightarrow> raise (AssertFail ''Expected an array''))"

definition chunksInPartition :: "'s chEnv \<Rightarrow> partition \<Rightarrow> string \<Rightarrow> ('s, nat) eff" where
  "chunksInPartition env p conn = getNumChunks env conn (keyVal (chunkLower p)) (keyVal (chunkUpper p))"

text \<open>The loop over the config servers, whose checks are for the primary only.\<close>

definition onMasters :: "'s chEnv \<Rightarrow> (string \<Rightarrow> ('s, unit) eff) \<Rightarrow> string list \<Rightarrow> ('s, unit) eff" where
  "onMasters env check conns =
     forEachE (\<lambda>conn.
       bindE (chAdminOn env conn (JObj [(''isMaster'', jnum 1)])) (\<lambda>res.
       seqE (checkE (commandWorked (chShell env) res))
       (if truthy (fld res ''ismaster'') then check conn else ret ()))) conns"

text \<open>
  The number of chunks between two bounds, as a connection sees it, and the number of chunks in the partition, as another one sees
  it.
\<close>

definition checkChunkCounts :: "'s chEnv \<Rightarrow> partition \<Rightarrow> string \<Rightarrow> string \<Rightarrow> jsval \<Rightarrow> jsval \<Rightarrow> int \<Rightarrow> int \<Rightarrow> ('s, unit) eff" where
  "checkChunkCounts env p conn seer lower upper between inPart =
     bindE (getNumChunks env conn lower upper) (\<lambda>numChunksBetweenOldChunksBounds.
     seqE (assertWhenOwnColl env (int numChunksBetweenOldChunksBounds = between) ''unexpected number of chunks between the chunk bounds'')
    (bindE (chunksInPartition env p seer) (\<lambda>numChunksAfter.
     assertWhenOwnColl env (int numChunksAfter = inPart) ''unexpected number of chunks in the partition'')))"

text \<open>The documents and the shards of a range, as a mongos sees them.\<close>

definition checkRange :: "'s chEnv \<Rightarrow> string \<Rightarrow> jsval \<Rightarrow> jsval \<Rightarrow> nat \<Rightarrow> jsval \<Rightarrow> ('s, unit) eff" where
  "checkRange env mongos lower upper numDocsBefore shard =
     bindE (getNumDocs env mongos lower upper) (\<lambda>numDocsAfter.
     seqE (assertWhenOwnColl env (numDocsAfter = numDocsBefore) ''Mongos does not see same number of documents'')
    (bindE (getShardsForRange env mongos lower upper) (\<lambda>shards.
     seqE (assertWhenOwnColl env (length shards = 1) ''Mongos does not see exactly 1 shard for chunk'')
    (assertWhenOwnColl env (strict_eq (hd shards) shard) ''Mongos sees different shard for chunk than chunk does''))))"

definition shardHasDocs :: "'s chEnv \<Rightarrow> nat \<Rightarrow> connCache \<Rightarrow> jsval \<Rightarrow> jsval \<Rightarrow> jsval \<Rightarrow> nat \<Rightarrow> ('s, unit) eff" where
  "shardHasDocs env attempts cc shard lower upper numDocsBefore =
     bindE (shardPrimary env attempts cc shard) (\<lambda>primary.
     bindE (getNumDocs env primary lower upper) (\<lambda>shardNumDocsAfter.
     assertWhenOwnColl env (shardNumDocsAfter = numDocsBefore) ''Shard does not have same number of documents''))"

text \<open>What the split and the merge workloads verify after their operation, with the expected numbers of chunks.\<close>

definition checkAfterwards ::
  "'s chEnv \<Rightarrow> nat \<Rightarrow> connCache \<Rightarrow> partition \<Rightarrow> string \<Rightarrow> jsval \<Rightarrow> jsval \<Rightarrow> jsval \<Rightarrow> nat \<Rightarrow> int \<Rightarrow> int \<Rightarrow> ('s, unit) eff" where
  "checkAfterwards env attempts cc p config lower upper shard numDocsBefore between inPart =
     seqE (shardHasDocs env attempts cc shard lower upper numDocsBefore)
    (seqE (onMasters env (\<lambda>conn. checkChunkCounts env p conn config lower upper between inPart) (ccConfig cc))
    (forEachE (\<lambda>mongos. seqE (checkRange env mongos lower upper numDocsBefore shard)
       (checkChunkCounts env p mongos mongos lower upper between inPart)) (ccMongos cc)))"

definition split_apply ::
  "'s chEnv \<Rightarrow> nat \<Rightarrow> connCache \<Rightarrow> partition \<Rightarrow> string \<Rightarrow> jsval \<Rightarrow> jsval \<Rightarrow> jsval \<Rightarrow> nat \<Rightarrow> nat \<Rightarrow> ('s, unit) eff" where
  "split_apply env attempts cc p config lower upper shard numDocsBefore numChunksBefore =
     bindE (splitChunkWithBounds env (idBounds lower upper)) (\<lambda>splitChunkRes.
     let ok = truthy (fld splitChunkRes ''ok'') in
     checkAfterwards env attempts cc p config lower upper shard numDocsBefore
       (if ok then 2 else 1) (int numChunksBefore + (if ok then 1 else 0)))"

definition split_splitChunk :: "'s chEnv \<Rightarrow> nat \<Rightarrow> connCache \<Rightarrow> partition \<Rightarrow> ('s, unit) eff" where
  "split_splitChunk env attempts cc p =
     bindE (ch_getPrimary env attempts (ccConfig cc)) (\<lambda>config.
     bindE (getRandomChunkInPartition env ''_id'' (Some p) config) (\<lambda>chunk.
     bindE (getRandomMongos env (ccMongos cc)) (\<lambda>mongos.
     bindE (liftE (boundOf chunk ''min'')) (\<lambda>lower.
     bindE (liftE (boundOf chunk ''max'')) (\<lambda>upper.
     bindE (getNumDocs env mongos lower upper) (\<lambda>numDocsBefore.
     bindE (chunksInPartition env p config) (\<lambda>numChunksBefore.
     split_apply env attempts cc p config lower upper (fld chunk ''shard'') numDocsBefore numChunksBefore)))))))"

definition merge_apply ::
  "'s chEnv \<Rightarrow> nat \<Rightarrow> connCache \<Rightarrow> partition \<Rightarrow> string \<Rightarrow> jsval \<Rightarrow> jsval \<Rightarrow> jsval \<Rightarrow> nat \<Rightarrow> nat \<Rightarrow> ('s, unit) eff" where
  "merge_apply env attempts cc p config lower upper shard numDocsBefore numChunksBefore =
     bindE (mergeChunks env (idBounds lower upper)) (\<lambda>mergeChunksRes.
     bindE (getChunks env config (JStr (chFullName env)) (keyVal (chunkLower p)) (keyVal (chunkUpper p))) (\<lambda>chunks.
     let ok = truthy (fld mergeChunksRes ''ok'') in
     checkAfterwards env attempts cc p config lower upper shard numDocsBefore
       (if ok then 1 else 2) (int numChunksBefore - (if ok then 1 else 0))))"

text \<open>A random chunk and its upper neighbour; the one before it is taken instead of the last chunk.\<close>

definition merge_choose :: "'s chEnv \<Rightarrow> partition \<Rightarrow> string \<Rightarrow> ('s, jsval \<times> jsval) eff" where
  "merge_choose env p config = (let ns = JStr (chFullName env) in
     bindE (getRandomChunkInPartition env ''_id'' (Some p) config) (\<lambda>chunk.
     bindE (liftE (boundOf chunk ''max'')) (\<lambda>chunkMax.
     bindE (if chunkMax = keyVal (chunkUpper p)
            then bindE (liftE (boundOf chunk ''min'')) (\<lambda>chunkMin. chFindOne env config (JObj [(''ns'', ns), (''max._id'', chunkMin)]))
            else ret chunk) (\<lambda>chunk1.
     bindE (liftE (boundOf chunk1 ''max'')) (\<lambda>middle.
     bindE (chFindOne env config (JObj [(''ns'', ns), (''min._id'', middle)])) (\<lambda>chunk2.
     ret (chunk1, chunk2)))))))"

text \<open>The second chunk is moved by a call that passes its lower bound in the place of its two bounds.\<close>

definition merge_chosen :: "'s chEnv \<Rightarrow> nat \<Rightarrow> connCache \<Rightarrow> partition \<Rightarrow> string \<Rightarrow> jsval \<Rightarrow> jsval \<Rightarrow> ('s, unit) eff" where
  "merge_chosen env attempts cc p config chunk1 chunk2 =
     bindE (getRandomMongos env (ccMongos cc)) (\<lambda>mongos.
     bindE (liftE (boundOf chunk1 ''min'')) (\<lambda>lower.
     bindE (liftE (boundOf chunk2 ''max'')) (\<lambda>upper.
     bindE (getNumDocs env mongos lower upper) (\<lambda>numDocsBefore.
     let shard = fld chunk1 ''shard'' in
     seqE (if strict_eq (fld chunk2 ''shard'') shard then ret ()
           else bindE (liftE (boundOf chunk2 ''min'')) (\<lambda>chunk2Min.
                bindE (moveChunk env chunk2Min shard (JBool True)) (\<lambda>_. ret ())))
    (seqE (shardHasDocs env attempts cc shard lower upper numDocsBefore)
    (bindE (chunksInPartition env p config) (\<lambda>numChunksBefore.
     merge_apply env attempts cc p config lower upper shard numDocsBefore numChunksBefore)))))))"

definition merge_mergeChunks :: "'s chEnv \<Rightarrow> nat \<Rightarrow> connCache \<Rightarrow> partition \<Rightarrow> ('s, unit) eff" where
  "merge_mergeChunks env attempts cc p =
     bindE (ch_getPrimary env attempts (ccConfig cc)) (\<lambda>config.
     bindE (chFindChunks env config (chunkQuery (JStr (chFullName env)) (jnum (pLower p)) (jnum (pUpper p)))) (\<lambda>inner.
     if length inner < 2 then ret ()
     else bindE (merge_choose env p config) (\<lambda>(chunk1, chunk2). merge_chosen env attempts cc p config chunk1 chunk2)))"

text \<open>
  The destination of a move: the callback of \<open>filter\<close> returns the name of the shard, so a name that is the empty string would be
  left out.
\<close>

definition destinationShards :: "connCache \<Rightarrow> jsval \<Rightarrow> string list" where
  "destinationShards cc fromShard = filter (\<lambda>shard. \<not> strict_eq (JStr shard) fromShard \<and> shard \<noteq> '''') (map fst (ccShards cc))"

definition checkChunkOwner :: "'s chEnv \<Rightarrow> string \<Rightarrow> jsval \<Rightarrow> jsval \<Rightarrow> ('s, unit) eff" where
  "checkChunkOwner env conn chunk shard =
     bindE (chFindOne env conn (JObj [(''_id'', fld chunk ''_id'')])) (\<lambda>chunkAfter.
     bindE (liftE (get_prop chunkAfter ''shard'')) (\<lambda>owner.
     assertWhenOwnColl env (strict_eq owner shard) ''chunk's shard was not the expected shard''))"

definition move_checks ::
  "'s chEnv \<Rightarrow> nat \<Rightarrow> connCache \<Rightarrow> partition \<Rightarrow> jsval \<Rightarrow> jsval \<Rightarrow> jsval \<Rightarrow> jsval \<Rightarrow> jsval \<Rightarrow> bool \<Rightarrow> nat \<Rightarrow> nat \<Rightarrow> bool \<Rightarrow> ('s, unit) eff" where
  "move_checks env attempts cc p chunk lower upper fromShard toShard waitForDelete numDocsBefore numChunksBefore ok =
     bindE (shardPrimary env attempts cc fromShard) (\<lambda>fromShardPrimary.
     bindE (shardPrimary env attempts cc toShard) (\<lambda>toShardPrimary.
     bindE (getNumDocs env fromShardPrimary lower upper) (\<lambda>fromShardNumDocsAfter.
     bindE (getNumDocs env toShardPrimary lower upper) (\<lambda>toShardNumDocsAfter.
     seqE (if ok
           then seqE (if waitForDelete then assertWhenOwnColl env (fromShardNumDocsAfter = 0) ''moveChunk succeeded but original shard still had documents.'' else ret ())
               (assertWhenOwnColl env (toShardNumDocsAfter = numDocsBefore) ''moveChunk succeeded but new shard did not contain all documents.'')
           else assertWhenOwnColl env (fromShardNumDocsAfter = numDocsBefore) ''moveChunk failed but original shard did not contain all documents.'')
    (let owner = (if ok then toShard else fromShard) in
     seqE (onMasters env (\<lambda>conn. seqE (checkChunkOwner env conn chunk owner)
       (bindE (chunksInPartition env p conn) (\<lambda>numChunksAfter.
        assertWhenOwnColl env (numChunksBefore = numChunksAfter) ''Number of chunks in partition seen by config changed with moveChunk.''))) (ccConfig cc))
    (forEachE (\<lambda>mongos. seqE (checkRange env mongos lower upper numDocsBefore owner) (checkChunkOwner env mongos chunk owner)) (ccMongos cc)))))))"

definition move_apply ::
  "'s chEnv \<Rightarrow> nat \<Rightarrow> connCache \<Rightarrow> partition \<Rightarrow> jsval \<Rightarrow> jsval \<Rightarrow> jsval \<Rightarrow> jsval \<Rightarrow> jsval \<Rightarrow> bool \<Rightarrow> nat \<Rightarrow> nat \<Rightarrow> ('s, unit) eff" where
  "move_apply env attempts cc p chunk lower upper fromShard toShard waitForDelete numDocsBefore numChunksBefore =
     bindE (moveChunk env (idBounds lower upper) toShard (JBool waitForDelete)) (\<lambda>moveChunkRes.
     move_checks env attempts cc p chunk lower upper fromShard toShard waitForDelete numDocsBefore numChunksBefore (truthy (fld moveChunkRes ''ok'')))"

definition move_chosen :: "'s chEnv \<Rightarrow> nat \<Rightarrow> connCache \<Rightarrow> partition \<Rightarrow> string \<Rightarrow> jsval \<Rightarrow> ('s, unit) eff" where
  "move_chosen env attempts cc p config chunk =
     bindE (liftE (get_prop chunk ''shard'')) (\<lambda>fromShard.
     let shards = destinationShards cc fromShard in
     bindE (chRandInt env (length shards)) (\<lambda>i.
     let toShard = (if i < length shards then JStr (shards ! i) else Undef) in
     bindE (getRandomMongos env (ccMongos cc)) (\<lambda>mongos.
     bindE (liftE (boundOf chunk ''min'')) (\<lambda>lower.
     bindE (liftE (boundOf chunk ''max'')) (\<lambda>upper.
     bindE (getNumDocs env mongos lower upper) (\<lambda>numDocsBefore.
     bindE (chunksInPartition env p config) (\<lambda>numChunksBefore.
     bindE (chRand env) (\<lambda>r.
     move_apply env attempts cc p chunk lower upper fromShard toShard (r < 1 / 2) numDocsBefore numChunksBefore))))))))"

definition move_moveChunk :: "'s chEnv \<Rightarrow> nat \<Rightarrow> connCache \<Rightarrow> partition \<Rightarrow> ('s, unit) eff" where
  "move_moveChunk env attempts cc p =
     bindE (ch_getPrimary env attempts (ccConfig cc)) (\<lambda>config.
     bindE (chFindShards env config) (\<lambda>found.
     bindE (chFindShards env config) (\<lambda>shown.
     seqE (assertE (length found > 1) ''There must be more than one shard when performing a moveChunks operation'')
    (bindE (getRandomChunkInPartition env ''_id'' (Some p) config) (\<lambda>chunk.
     move_chosen env attempts cc p config chunk)))))"

section \<open>The configurations\<close>

definition basePartConfig :: jsval where
  "basePartConfig = JObj [
     (''threadCount'', jnum 1), (''iterations'', jnum 1), (''startState'', JStr ''init''),
     (''states'', JObj [(''init'', JFun ''init'' 3), (''dummy'', JFun ''dummy'' 3)]),
     (''transitions'', JObj [(''init'', weightTable [(''dummy'', 1)]), (''dummy'', weightTable [(''dummy'', 1)])]),
     (''data'', JObj [(''partitionSize'', jnum 1), (''shardKey'', JObj [(''_id'', jnum 1)]), (''shardKeyField'', JStr ''_id''),
        (''makePartition'', JFun ''makePartition'' 3), (''getRandomChunkInPartition'', JFun ''getRandomChunkInPartition'' 2),
        (''setupAdditionalSplitPoints'', JFun ''setupAdditionalSplitPoints'' 3)]),
     (''setup'', JFun ''setup'' 3), (''passConnectionCache'', JBool True)]"

text \<open>The three extensions have five threads, a hundred keys for each and one state after the first.\<close>

definition extendPartitioned :: "int \<Rightarrow> string \<Rightarrow> jsval \<Rightarrow> jsval" where
  "extendPartitioned iterations state config =
     set_prop ''transitions'' (JObj [(''init'', weightTable [(state, 1)]), (state, weightTable [(state, 1)])])
    (inField ''states'' (set_prop state (JFun state 3))
    (inField ''data'' (set_prop ''partitionSize'' (jnum 100))
    (set_prop ''threadCount'' (jnum 5) (set_prop ''iterations'' (jnum iterations) config))))"

definition splitPartConfig :: "jsval \<Rightarrow> jsval \<Rightarrow> jsval result" where
  "splitPartConfig config super = Inr (extendPartitioned 5 ''splitChunk'' config)"

definition movePartConfig :: "jsval \<Rightarrow> jsval \<Rightarrow> jsval result" where
  "movePartConfig config super = Inr (extendPartitioned 5 ''moveChunk'' config)"

definition mergePartConfig :: "jsval \<Rightarrow> jsval \<Rightarrow> jsval result" where
  "mergePartConfig config super = Inr (
     inField ''states'' (set_prop ''init'' (JFun ''init'' 3))
    (inField ''data'' (set_prop ''setupAdditionalSplitPoints'' (JFun ''setupAdditionalSplitPoints'' 3))
    (extendPartitioned 8 ''mergeChunks'' config)))"

lemma partitioned_configs_parse:
  "list_all (\<lambda>c. case rbind c parseConfig of Inl _ \<Rightarrow> False | Inr _ \<Rightarrow> True)
     (Inr basePartConfig # map (extendWorkload [basePartConfig, JFun ''callback'' 2] (JFun ''callback'' 2)) [splitPartConfig, movePartConfig, mergePartConfig])"
  by code_simp

section \<open>The view of a partition\<close>

record chunk =
  ckLower :: key
  ckUpper :: key
  ckShard :: string

text \<open>
  What the cluster holds of a partition: its chunks, its documents, and for each shard the documents that may be left behind there
  by a chunk that was moved away.
\<close>

record partView =
  vChunks :: "chunk set"
  vDocs :: "int set"
  vResidue :: "string \<Rightarrow> int set"

definition inRange :: "key \<Rightarrow> key \<Rightarrow> int \<Rightarrow> bool" where
  "inRange lower upper i \<longleftrightarrow> lower \<le> Key i \<and> Key i < upper"

definition meets :: "key \<Rightarrow> key \<Rightarrow> chunk \<Rightarrow> bool" where
  "meets lower upper ch \<longleftrightarrow> ckLower ch < upper \<and> lower < ckUpper ch"

definition chunksIn :: "key \<Rightarrow> key \<Rightarrow> partView \<Rightarrow> chunk set" where
  "chunksIn lower upper c = {ch \<in> vChunks c. lower \<le> ckLower ch \<and> ckUpper ch \<le> upper}"

definition docsIn :: "key \<Rightarrow> key \<Rightarrow> partView \<Rightarrow> int set" where
  "docsIn lower upper c = {i \<in> vDocs c. inRange lower upper i}"

definition shardsIn :: "key \<Rightarrow> key \<Rightarrow> partView \<Rightarrow> string set" where
  "shardsIn lower upper c = ckShard ` {ch \<in> vChunks c. meets lower upper ch}"

definition linked :: "partition \<Rightarrow> chunk set \<Rightarrow> bool" where
  "linked p C \<longleftrightarrow> ckUpper ` C \<subseteq> insert (chunkUpper p) (ckLower ` C) \<and> ckLower ` C \<subseteq> insert (chunkLower p) (ckUpper ` C)"

text \<open>The chunks of a partition do not overlap and follow one another from its lower bound to its upper bound.\<close>

definition wfView :: "connCache \<Rightarrow> partition \<Rightarrow> partView \<Rightarrow> bool" where
  "wfView cc p c \<longleftrightarrow> finite (vChunks c) \<and> vChunks c \<noteq> {} \<and>
     (\<forall>ch \<in> vChunks c. chunkLower p \<le> ckLower ch \<and> ckLower ch < ckUpper ch \<and> ckUpper ch \<le> chunkUpper p) \<and>
     (\<forall>a \<in> vChunks c. \<forall>b \<in> vChunks c. meets (ckLower a) (ckUpper a) b \<longrightarrow> a = b) \<and>
     linked p (vChunks c) \<and>
     ckShard ` vChunks c \<subseteq> fst ` set (ccShards cc)"

definition splitAt :: "chunk \<Rightarrow> key \<Rightarrow> partView \<Rightarrow> partView" where
  "splitAt ch m c = c\<lparr>vChunks := vChunks c - {ch} \<union> {ch\<lparr>ckUpper := m\<rparr>, ch\<lparr>ckLower := m\<rparr>}\<rparr>"

definition mergeAt :: "chunk \<Rightarrow> chunk \<Rightarrow> partView \<Rightarrow> partView" where
  "mergeAt a b c = c\<lparr>vChunks := vChunks c - {a, b} \<union> {a\<lparr>ckUpper := ckUpper b\<rparr>}\<rparr>"

definition moveTo :: "chunk \<Rightarrow> string \<Rightarrow> bool \<Rightarrow> partView \<Rightarrow> partView" where
  "moveTo ch s wait c = c\<lparr>
     vChunks := vChunks c - {ch} \<union> {ch\<lparr>ckShard := s\<rparr>},
     vResidue := (vResidue c)(ckShard ch :=
       (if wait then vResidue c (ckShard ch) - {i. inRange (ckLower ch) (ckUpper ch) i}
        else vResidue c (ckShard ch) \<union> docsIn (ckLower ch) (ckUpper ch) c))\<rparr>"

section \<open>The laws of a cluster\<close>

text \<open>
  A computation that does not fail and leaves the view as it is.  Between its steps other threads may act, on partitions of their
  own.
\<close>

definition sees :: "('s \<Rightarrow> partView) \<Rightarrow> partView \<Rightarrow> ('s, 'a) eff \<Rightarrow> ('a \<Rightarrow> bool) \<Rightarrow> bool" where
  "sees v c m P \<longleftrightarrow> hoare (\<lambda>w. v w = c) m (\<lambda>x w. v w = c \<and> P x) (\<lambda>_. False)"

text \<open>The servers keep their roles while a state runs: the mongos are known, and every replica set has one of the primaries.\<close>

definition steadyCluster :: "'s chEnv \<Rightarrow> connCache \<Rightarrow> string set \<Rightarrow> ('s \<Rightarrow> partView) \<Rightarrow> bool" where
  "steadyCluster env cc primaries v \<longleftrightarrow>
     commandWorked_spec (chShell env) \<and> validNamespace (JStr (chFullName env)) \<and> ccMongos cc \<noteq> [] \<and>
     (\<forall>conns \<in> insert (ccConfig cc) (snd ` set (ccShards cc)).
        set conns \<inter> primaries \<noteq> {} \<and> set conns \<inter> set (ccMongos cc) = {}) \<and>
     (\<forall>c conn. sees v c (chIsMongos env conn) (\<lambda>b. b \<longleftrightarrow> conn \<in> set (ccMongos cc))) \<and>
     (\<forall>c. \<forall>conn \<in> set (ccConfig cc). sees v c (chIsConfigsvr env conn) (\<lambda>b. b)) \<and>
     (\<forall>c conn. conn \<notin> set (ccMongos cc) \<longrightarrow> sees v c (chAdminOn env conn (JObj [(''isMaster'', jnum 1)]))
        (\<lambda>res. \<not> response_failed res \<and> (truthy (fld res ''ismaster'') \<longleftrightarrow> conn \<in> primaries))) \<and>
     (\<forall>c. \<forall>conn \<in> set (ccMongos cc).
        sees v c (chAdminOn env conn (JObj [(''getShardVersion'', JStr (chFullName env)), (''fullMetadata'', JBool True)])) (\<lambda>res. \<not> response_failed res)) \<and>
     (\<forall>c n. n > 0 \<longrightarrow> sees v c (chRandInt env n) (\<lambda>i. i < n)) \<and> (\<forall>c n. sees v c (chSleep env n) (\<lambda>_. True))"

text \<open>A chunk as the config servers describe it.\<close>

definition describes :: "(chunk \<Rightarrow> jsval) \<Rightarrow> bool" where
  "describes doc \<longleftrightarrow> (\<forall>ch. boundOf (doc ch) ''min'' = Inr (keyVal (ckLower ch)) \<and> boundOf (doc ch) ''max'' = Inr (keyVal (ckUpper ch)) \<and>
     fld (doc ch) ''shard'' = JStr (ckShard ch))"

text \<open>
  The answers about documents.  A mongos counts the documents of a range; the primary of a shard that owns all of the range counts
  the same, and the one of a shard that owns none of it counts at most what was left behind.  Nothing is said about what a secondary
  answers, here and below: it may lag behind.
\<close>

definition countLaws :: "'s chEnv \<Rightarrow> connCache \<Rightarrow> string set \<Rightarrow> partition \<Rightarrow> ('s \<Rightarrow> partView) \<Rightarrow> partView \<Rightarrow> bool" where
  "countLaws env cc primaries p v c \<longleftrightarrow> (\<forall>lower upper. chunkLower p \<le> lower \<and> lower < upper \<and> upper \<le> chunkUpper p \<longrightarrow>
     (\<forall>conn \<in> set (ccMongos cc).
        sees v c (chCountDocs env conn (rangeQuery (keyVal lower) ''$lt'' (keyVal upper))) (\<lambda>n. n = card (docsIn lower upper c))) \<and>
     (\<forall>(s, conns) \<in> set (ccShards cc). \<forall>conn \<in> set conns \<inter> primaries.
        sees v c (chCountDocs env conn (rangeQuery (keyVal lower) ''$lt'' (keyVal upper)))
          (\<lambda>n. (shardsIn lower upper c = {s} \<longrightarrow> n = card (docsIn lower upper c)) \<and>
               (s \<notin> shardsIn lower upper c \<longrightarrow> n \<le> card {i \<in> vResidue c s. inRange lower upper i}))))"

text \<open>The answers about chunks, of every mongos and of the primary of the config servers.\<close>

definition chunkLaws :: "'s chEnv \<Rightarrow> connCache \<Rightarrow> string set \<Rightarrow> partition \<Rightarrow> (chunk \<Rightarrow> jsval) \<Rightarrow> ('s \<Rightarrow> partView) \<Rightarrow> partView \<Rightarrow> bool" where
  "chunkLaws env cc primaries p doc v c \<longleftrightarrow>
     (\<forall>lower upper. chunkLower p \<le> lower \<and> lower < upper \<and> upper \<le> chunkUpper p \<longrightarrow>
        (\<forall>conn \<in> set (ccConfig cc) \<inter> primaries \<union> set (ccMongos cc).
           sees v c (chFindChunks env conn (chunkQuery (JStr (chFullName env)) (keyVal lower) (keyVal upper)))
             (\<lambda>xs. length xs = card (chunksIn lower upper c))) \<and>
        (\<forall>conn \<in> set (ccMongos cc). sees v c (chExplain env conn (shardsQuery (keyVal lower) (keyVal upper)))
           (\<lambda>res. \<not> response_failed res \<and> (\<exists>xs ss. planShards res = Inr (JArr xs) \<and>
              map (\<lambda>x. get_prop x ''shardName'') xs = map (\<lambda>s. Inr (JStr s)) ss \<and> distinct ss \<and> set ss = shardsIn lower upper c)))) \<and>
     (\<forall>conn \<in> set (ccConfig cc) \<inter> primaries.
        sees v c (chSampleChunk env conn (partitionQuery ''_id'' p)) (\<lambda>x. x \<in> doc ` vChunks c)) \<and>
     (\<forall>conn \<in> set (ccConfig cc) \<inter> primaries \<union> set (ccMongos cc). \<forall>ch. \<forall>ch' \<in> vChunks c. ckLower ch' = ckLower ch \<longrightarrow>
        sees v c (chFindOne env conn (JObj [(''_id'', fld (doc ch) ''_id'')])) (\<lambda>x. x = doc ch')) \<and>
     (\<forall>conn \<in> set (ccConfig cc) \<inter> primaries. \<forall>ch \<in> vChunks c.
        sees v c (chFindOne env conn (JObj [(''ns'', JStr (chFullName env)), (''max._id'', keyVal (ckUpper ch))])) (\<lambda>x. x = doc ch) \<and>
        sees v c (chFindOne env conn (JObj [(''ns'', JStr (chFullName env)), (''min._id'', keyVal (ckLower ch))])) (\<lambda>x. x = doc ch))"

definition partitionLaws :: "'s chEnv \<Rightarrow> connCache \<Rightarrow> string set \<Rightarrow> partition \<Rightarrow> (chunk \<Rightarrow> jsval) \<Rightarrow> ('s \<Rightarrow> partView) \<Rightarrow> bool" where
  "partitionLaws env cc primaries p doc v \<longleftrightarrow> describes doc \<and> (\<forall>c. wfView cc p c \<longrightarrow> countLaws env cc primaries p v c \<and> chunkLaws env cc primaries p doc v c)"

text \<open>An operation either works and changes the view, or fails with one of the codes and changes nothing.\<close>

definition changes :: "'s chEnv \<Rightarrow> ('s \<Rightarrow> partView) \<Rightarrow> partView \<Rightarrow> jsval \<Rightarrow> string list \<Rightarrow> (partView \<Rightarrow> bool) \<Rightarrow> bool" where
  "changes env v c cmd codes R \<longleftrightarrow>
     hoare (\<lambda>w. v w = c) (chAdmin env cmd)
       (\<lambda>res w. res \<noteq> Undef \<and> res \<noteq> Null \<and>
          (if truthy (fld res ''ok'') then R (v w)
           else v w = c \<and> list_ex (strict_eq (fld res ''code'')) (map (errorCode (chShell env)) codes))) (\<lambda>_. False)"

definition splitLaw :: "'s chEnv \<Rightarrow> connCache \<Rightarrow> partition \<Rightarrow> ('s \<Rightarrow> partView) \<Rightarrow> bool" where
  "splitLaw env cc p v \<longleftrightarrow> (\<forall>c ch. wfView cc p c \<and> ch \<in> vChunks c \<longrightarrow>
     changes env v c (JObj [(''split'', JStr (chFullName env)), (''bounds'', idBounds (keyVal (ckLower ch)) (keyVal (ckUpper ch)))]) [''LockBusy'']
       (\<lambda>c'. \<exists>m. ckLower ch < m \<and> m < ckUpper ch \<and> c' = splitAt ch m c))"

definition mergeLaw :: "'s chEnv \<Rightarrow> connCache \<Rightarrow> partition \<Rightarrow> ('s \<Rightarrow> partView) \<Rightarrow> bool" where
  "mergeLaw env cc p v \<longleftrightarrow> (\<forall>c a b. wfView cc p c \<and> a \<in> vChunks c \<and> b \<in> vChunks c \<and> ckUpper a = ckLower b \<and> ckShard a = ckShard b \<longrightarrow>
     changes env v c (JObj [(''mergeChunks'', JStr (chFullName env)), (''bounds'', idBounds (keyVal (ckLower a)) (keyVal (ckUpper b)))]) [''LockBusy'']
       (\<lambda>c'. c' = mergeAt a b c))"

definition moveLaw :: "'s chEnv \<Rightarrow> connCache \<Rightarrow> string set \<Rightarrow> partition \<Rightarrow> ('s \<Rightarrow> partView) \<Rightarrow> bool" where
  "moveLaw env cc primaries p v \<longleftrightarrow> (\<forall>c ch s wait. wfView cc p c \<and> ch \<in> vChunks c \<and> s \<in> fst ` set (ccShards cc) - {ckShard ch} \<longrightarrow>
     changes env v c (moveChunkCmd env (idBounds (keyVal (ckLower ch)) (keyVal (ckUpper ch))) (JStr s) (JBool wait))
       [''ConflictingOperationInProgress'', ''ChunkRangeCleanupPending'']
       (\<lambda>c'. c' = moveTo ch s wait c)) \<and>
     (\<forall>c. \<forall>conn \<in> set (ccConfig cc) \<inter> primaries. sees v c (chFindShards env conn) (\<lambda>xs. length xs = length (ccShards cc))) \<and>
     (\<forall>c. sees v c (chRand env) (\<lambda>_. True))"

definition severalShards :: "connCache \<Rightarrow> bool" where
  "severalShards cc \<longleftrightarrow> length (ccShards cc) > 1 \<and> distinct (map fst (ccShards cc)) \<and> '''' \<notin> fst ` set (ccShards cc)"

section \<open>Facts about views\<close>

lemma wfViewD:
  assumes "wfView cc p c" and "ch \<in> vChunks c"
  shows "chunkLower p \<le> ckLower ch" "ckLower ch < ckUpper ch" "ckUpper ch \<le> chunkUpper p"
    "\<exists>conns. map_of (ccShards cc) (ckShard ch) = Some conns"
  using assms by (auto simp: wfView_def image_iff subset_iff) (metis fst_conv map_of_eq_None_iff option.exhaust imageI surj_pair)

lemma meets_self: "wfView cc p c \<Longrightarrow> ch \<in> vChunks c \<Longrightarrow> {b \<in> vChunks c. meets (ckLower ch) (ckUpper ch) b} = {ch}"
  unfolding wfView_def meets_def by blast

lemma chunksIn_self: "wfView cc p c \<Longrightarrow> ch \<in> vChunks c \<Longrightarrow> chunksIn (ckLower ch) (ckUpper ch) c = {ch}"
proof -
  assume wf: "wfView cc p c" and ch: "ch \<in> vChunks c"
  have "chunksIn (ckLower ch) (ckUpper ch) c \<subseteq> {b \<in> vChunks c. meets (ckLower ch) (ckUpper ch) b}"
    using wfViewD(2) [OF wf] by (fastforce simp: chunksIn_def meets_def intro: le_less_trans less_le_trans)
  then show ?thesis using meets_self [OF wf ch] ch by (auto simp: chunksIn_def)
qed

lemma chunksIn_partition: "wfView cc p c \<Longrightarrow> chunksIn (chunkLower p) (chunkUpper p) c = vChunks c"
  by (auto simp: wfView_def chunksIn_def)

lemma shardsIn_self: "wfView cc p c \<Longrightarrow> ch \<in> vChunks c \<Longrightarrow> shardsIn (ckLower ch) (ckUpper ch) c = {ckShard ch}"
  by (simp add: shardsIn_def meets_self)

lemma meets_sym: "meets (ckLower a) (ckUpper a) b \<longleftrightarrow> meets (ckLower b) (ckUpper b) a"
  by (auto simp: meets_def)

lemma meets_mono: "meets lower upper b \<Longrightarrow> lower' \<le> lower \<Longrightarrow> upper \<le> upper' \<Longrightarrow> meets lower' upper' b"
  by (auto simp: meets_def intro: le_less_trans less_le_trans)

lemma split_apart:
  assumes "wfView cc p c" and "ch \<in> vChunks c" and "ckLower ch < m" and "m < ckUpper ch" and "b \<in> vChunks c - {ch}"
  shows "\<not> meets (ckLower ch) m b" "\<not> meets m (ckUpper ch) b"
proof -
  have "\<not> meets (ckLower ch) (ckUpper ch) b" using meets_self [OF assms(1,2)] assms(5) by blast
  then show "\<not> meets (ckLower ch) m b" "\<not> meets m (ckUpper ch) b"
    using assms(3,4) by (auto dest: meets_mono intro: less_imp_le)
qed

lemma splitAt_bounds:
  assumes "ch \<in> vChunks c"
  shows "ckLower ` vChunks (splitAt ch m c) = insert m (ckLower ` vChunks c)"
    and "ckUpper ` vChunks (splitAt ch m c) = insert m (ckUpper ` vChunks c)"
proof -
  have "vChunks c = insert ch (vChunks c - {ch})" using assms by blast
  then have "f ` vChunks c = insert (f ch) (f ` (vChunks c - {ch}))" for f :: "chunk \<Rightarrow> key" by (metis image_insert)
  then show "ckLower ` vChunks (splitAt ch m c) = insert m (ckLower ` vChunks c)"
    "ckUpper ` vChunks (splitAt ch m c) = insert m (ckUpper ` vChunks c)" by (auto simp: splitAt_def)
qed

lemma splitAt_wf:
  assumes "wfView cc p c" and "ch \<in> vChunks c" and "ckLower ch < m" and "m < ckUpper ch"
  shows "wfView cc p (splitAt ch m c)"
proof -
  note apart = split_apart [OF assms] and D = wfViewD [OF assms(1)]
  let ?a = "ch\<lparr>ckUpper := m\<rparr>" and ?b = "ch\<lparr>ckLower := m\<rparr>"
  let ?C = "vChunks c - {ch} \<union> {?a, ?b}"
  have shards: "ckShard ` ?C \<subseteq> fst ` set (ccShards cc)" using assms(1,2) by (auto simp: wfView_def)
  have "chunkLower p \<le> m" "m \<le> chunkUpper p" using D(1,3) [OF assms(2)] assms(3,4) by (meson order.trans less_imp_le)+
  then have bounds: "chunkLower p \<le> ckLower x \<and> ckLower x < ckUpper x \<and> ckUpper x \<le> chunkUpper p" if "x \<in> ?C" for x
    using that D(1-3) assms(2-4) by auto
  have old: "x = y" if "x \<in> vChunks c - {ch}" "y \<in> vChunks c - {ch}" "meets (ckLower x) (ckUpper x) y" for x y
    using that assms(1) by (simp add: wfView_def)
  have new: "\<not> meets (ckLower x) (ckUpper x) ?a" "\<not> meets (ckLower x) (ckUpper x) ?b" if "x \<in> vChunks c - {ch}" for x
    using apart [OF that] meets_sym [of x ?a] meets_sym [of x ?b] by auto
  have disjoint: "meets (ckLower x) (ckUpper x) y \<longrightarrow> x = y" if "x \<in> ?C" "y \<in> ?C" for x y
    using that old [of x y] new [of x] apart [of y] by (elim UnE insertE emptyE) (auto simp: meets_def)
  have "linked p (vChunks (splitAt ch m c))"
    using assms(1) by (auto simp: linked_def splitAt_bounds [OF assms(2)] wfView_def)
  moreover have "finite ?C" using assms(1) by (simp add: wfView_def)
  moreover have "vChunks (splitAt ch m c) = ?C" by (simp add: splitAt_def)
  ultimately show ?thesis using shards bounds disjoint unfolding wfView_def by (metis Un_empty insert_not_empty)
qed

text \<open>The halves of a chunk are its only parts, and the partition has one chunk more.\<close>

lemma splitAt_counts:
  assumes "wfView cc p c" and "ch \<in> vChunks c" and "ckLower ch < m" and "m < ckUpper ch"
  shows "card (chunksIn (ckLower ch) (ckUpper ch) (splitAt ch m c)) = 2"
    and "card (vChunks (splitAt ch m c)) = card (vChunks c) + 1"
    and "shardsIn (ckLower ch) (ckUpper ch) (splitAt ch m c) = {ckShard ch}"
    and "docsIn lower upper (splitAt ch m c) = docsIn lower upper c"
proof -
  let ?a = "ch\<lparr>ckUpper := m\<rparr>" and ?b = "ch\<lparr>ckLower := m\<rparr>"
  have "ckUpper ?a \<noteq> ckUpper ?b" "ckUpper ?a \<noteq> ckUpper ch" "ckLower ?b \<noteq> ckLower ch" using assms(3,4) by auto
  then have ne: "?a \<noteq> ?b" "?a \<noteq> ch" "?b \<noteq> ch" by fastforce+
  have others: "\<not> meets (ckLower ch) (ckUpper ch) x" if "x \<in> vChunks c" "x \<noteq> ch" for x
    using meets_self [OF assms(1,2)] that by blast
  have fresh: "?a \<notin> vChunks c" "?b \<notin> vChunks c"
    using others [of ?a] others [of ?b] ne assms(3,4) wfViewD(2) [OF assms(1,2)] by (auto simp: meets_def)
  have "chunksIn (ckLower ch) (ckUpper ch) (splitAt ch m c) = {?a, ?b}"
    using assms(3,4) others wfViewD(2) [OF assms(1)]
    by (fastforce simp: chunksIn_def splitAt_def meets_def intro: le_less_trans less_le_trans less_imp_le)
  with ne show "card (chunksIn (ckLower ch) (ckUpper ch) (splitAt ch m c)) = 2" by simp
  have "finite (vChunks c)" "card (vChunks c) > 0" using assms(1) by (simp_all add: wfView_def card_gt_0_iff)
  with ne fresh assms(2) show "card (vChunks (splitAt ch m c)) = card (vChunks c) + 1"
    by (simp add: splitAt_def card_insert_if)
  show "shardsIn (ckLower ch) (ckUpper ch) (splitAt ch m c) = {ckShard ch}"
    using assms(3,4) others by (auto simp: shardsIn_def splitAt_def meets_def image_def intro: less_trans)
qed (simp add: docsIn_def splitAt_def)

lemma bounds_inj:
  assumes "wfView cc p c"
  shows "inj_on ckLower (vChunks c)" "inj_on ckUpper (vChunks c)"
proof -
  have "meets (ckLower a) (ckUpper a) b" if "a \<in> vChunks c" "b \<in> vChunks c" "ckLower a = ckLower b \<or> ckUpper a = ckUpper b" for a b
    using that wfViewD(2) [OF assms] by (metis meets_def)
  moreover have "meets (ckLower a) (ckUpper a) b \<Longrightarrow> a = b" if "a \<in> vChunks c" "b \<in> vChunks c" for a b
    using that assms unfolding wfView_def by blast
  ultimately show "inj_on ckLower (vChunks c)" "inj_on ckUpper (vChunks c)" unfolding inj_on_def by blast+
qed

lemma pair_less:
  assumes "wfView cc p c" and "a \<in> vChunks c" and "b \<in> vChunks c" and "ckUpper a = ckLower b"
  shows "ckLower a < ckLower b" "ckLower b < ckUpper b" "ckLower a < ckUpper b"
  using wfViewD(2) [OF assms(1,2)] wfViewD(2) [OF assms(1,3)] assms(4) by (auto intro: less_trans)

lemma meets_pair:
  assumes "wfView cc p c" and "a \<in> vChunks c" and "b \<in> vChunks c" and "ckUpper a = ckLower b"
  shows "{x \<in> vChunks c. meets (ckLower a) (ckUpper b) x} = {a, b}"
proof -
  have "meets (ckLower a) (ckUpper a) x \<or> meets (ckLower b) (ckUpper b) x" if "x \<in> vChunks c" "meets (ckLower a) (ckUpper b) x" for x
    using that wfViewD(2) [OF assms(1) that(1)] assms(4) by (cases "ckLower x < ckUpper a") (auto simp: meets_def not_less intro: le_less_trans)
  moreover have "meets (ckLower a) (ckUpper b) x" if "x \<in> {a, b}" for x
    using that pair_less [OF assms] assms(4) by (auto simp: meets_def)
  ultimately show ?thesis using meets_self [OF assms(1)] assms(2,3) by blast
qed

lemma chunksIn_pair:
  assumes "wfView cc p c" and "a \<in> vChunks c" and "b \<in> vChunks c" and "ckUpper a = ckLower b"
  shows "chunksIn (ckLower a) (ckUpper b) c = {a, b}"
proof -
  have "chunksIn (ckLower a) (ckUpper b) c \<subseteq> {x \<in> vChunks c. meets (ckLower a) (ckUpper b) x}"
    using wfViewD(2) [OF assms(1)] by (fastforce simp: chunksIn_def meets_def intro: le_less_trans less_le_trans)
  moreover have "{a, b} \<subseteq> chunksIn (ckLower a) (ckUpper b) c"
    using pair_less [OF assms] assms(2-4) by (auto simp: chunksIn_def intro: less_imp_le)
  ultimately show ?thesis using meets_pair [OF assms] by blast
qed

lemma mergeAt_bounds:
  assumes "wfView cc p c" and "a \<in> vChunks c" and "b \<in> vChunks c" and "ckUpper a = ckLower b"
  shows "ckLower ` vChunks (mergeAt a b c) = ckLower ` vChunks c - {ckLower b}"
    and "ckUpper ` vChunks (mergeAt a b c) = ckUpper ` vChunks c - {ckLower b}"
proof -
  have "ckLower a \<noteq> ckLower b" "ckUpper a \<noteq> ckUpper b" using pair_less [OF assms] assms(4) by auto
  then show "ckLower ` vChunks (mergeAt a b c) = ckLower ` vChunks c - {ckLower b}"
    and "ckUpper ` vChunks (mergeAt a b c) = ckUpper ` vChunks c - {ckLower b}"
    using inj_onD [OF bounds_inj(1) [OF assms(1)]] inj_onD [OF bounds_inj(2) [OF assms(1)]] assms(2-4)
    by (auto simp: mergeAt_def image_iff)
qed

lemma mergeAt_wf:
  assumes "wfView cc p c" and "a \<in> vChunks c" and "b \<in> vChunks c" and "ckUpper a = ckLower b"
  shows "wfView cc p (mergeAt a b c)"
proof -
  let ?m = "a\<lparr>ckUpper := ckUpper b\<rparr>"
  let ?C = "vChunks c - {a, b} \<union> {?m}"
  have shards: "ckShard ` ?C \<subseteq> fst ` set (ccShards cc)" using assms(1,2) by (auto simp: wfView_def)
  have bounds: "chunkLower p \<le> ckLower x \<and> ckLower x < ckUpper x \<and> ckUpper x \<le> chunkUpper p" if "x \<in> ?C" for x
    using that wfViewD(1-3) [OF assms(1)] assms(2,3) pair_less(3) [OF assms] by auto
  have old: "x = y" if "x \<in> vChunks c - {a, b}" "y \<in> vChunks c - {a, b}" "meets (ckLower x) (ckUpper x) y" for x y
    using that assms(1) by (simp add: wfView_def)
  have new: "\<not> meets (ckLower a) (ckUpper b) x" if "x \<in> vChunks c - {a, b}" for x
    using that meets_pair [OF assms] by blast
  have disjoint: "meets (ckLower x) (ckUpper x) y \<longrightarrow> x = y" if "x \<in> ?C" "y \<in> ?C" for x y
    using that old [of x y] new [of x] new [of y] by (elim UnE insertE emptyE) (auto simp: meets_def)
  have "linked p (vChunks (mergeAt a b c))"
    using assms(1) by (auto simp: linked_def mergeAt_bounds [OF assms] wfView_def)
  moreover have "finite ?C" using assms(1) by (simp add: wfView_def)
  moreover have "vChunks (mergeAt a b c) = ?C" by (simp add: mergeAt_def)
  ultimately show ?thesis using shards bounds disjoint unfolding wfView_def by (metis Un_empty insert_not_empty)
qed

text \<open>The merged chunk takes the place of the two, and the partition has one chunk less.\<close>

lemma mergeAt_counts:
  assumes "wfView cc p c" and "a \<in> vChunks c" and "b \<in> vChunks c" and "ckUpper a = ckLower b"
  shows "card (chunksIn (ckLower a) (ckUpper b) c) = 2"
    and "card (chunksIn (ckLower a) (ckUpper b) (mergeAt a b c)) = 1"
    and "int (card (vChunks (mergeAt a b c))) = int (card (vChunks c)) - 1"
    and "shardsIn (ckLower a) (ckUpper b) (mergeAt a b c) = {ckShard a}"
    and "docsIn lower upper (mergeAt a b c) = docsIn lower upper c"
proof -
  let ?m = "a\<lparr>ckUpper := ckUpper b\<rparr>"
  have ne: "a \<noteq> b" using pair_less(1) [OF assms] by auto
  then show "card (chunksIn (ckLower a) (ckUpper b) c) = 2" by (simp add: chunksIn_pair [OF assms])
  have wf: "wfView cc p (mergeAt a b c)" by (rule mergeAt_wf [OF assms])
  have m: "?m \<in> vChunks (mergeAt a b c)" by (simp add: mergeAt_def)
  from chunksIn_self [OF wf m] show "card (chunksIn (ckLower a) (ckUpper b) (mergeAt a b c)) = 1" by simp
  from shardsIn_self [OF wf m] show "shardsIn (ckLower a) (ckUpper b) (mergeAt a b c) = {ckShard a}" by simp
  have fin: "finite (vChunks c)" using assms(1) by (simp add: wfView_def)
  have "?m \<notin> vChunks c - {a, b}"
  proof
    assume old: "?m \<in> vChunks c - {a, b}"
    have "?m = a" using inj_onD [OF bounds_inj(1) [OF assms(1)], of ?m a] old assms(2) by simp
    with old show False by simp
  qed
  with fin have "card (vChunks (mergeAt a b c)) = Suc (card (vChunks c - {a, b}))" by (simp add: mergeAt_def)
  moreover have "card (vChunks c - {a, b}) = card (vChunks c) - 2" using fin ne assms(2,3) by (simp add: card_Diff_subset)
  moreover have "card (vChunks c) \<ge> 2" using card_mono [OF fin, of "{a, b}"] ne assms(2,3) by simp
  ultimately show "int (card (vChunks (mergeAt a b c))) = int (card (vChunks c)) - 1" by simp
qed (simp add: docsIn_def mergeAt_def)

lemma shardsIn_pair:
  assumes "wfView cc p c" and "a \<in> vChunks c" and "b \<in> vChunks c" and "ckUpper a = ckLower b" and "ckShard a = ckShard b"
  shows "shardsIn (ckLower a) (ckUpper b) c = {ckShard a}"
  by (simp add: shardsIn_def meets_pair [OF assms(1-4)] assms(5))

text \<open>A chunk that moves keeps its bounds.\<close>

lemma moveTo_wf:
  assumes "wfView cc p c" and "ch \<in> vChunks c" and "s \<in> fst ` set (ccShards cc)"
  shows "wfView cc p (moveTo ch s wait c)"
proof -
  let ?n = "ch\<lparr>ckShard := s\<rparr>"
  let ?C = "vChunks c - {ch} \<union> {?n}"
  have apart: "\<not> meets (ckLower ch) (ckUpper ch) y" if "y \<in> vChunks c - {ch}" for y using that meets_self [OF assms(1,2)] by blast
  have old: "x = y" if "x \<in> vChunks c - {ch}" "y \<in> vChunks c - {ch}" "meets (ckLower x) (ckUpper x) y" for x y
    using that assms(1) by (simp add: wfView_def)
  have disjoint: "meets (ckLower x) (ckUpper x) y \<longrightarrow> x = y" if "x \<in> ?C" "y \<in> ?C" for x y
    using that old [of x y] apart [of x] apart [of y] by (elim UnE insertE emptyE) (auto simp: meets_def)
  have "vChunks c = insert ch (vChunks c - {ch})" using assms(2) by blast
  then have "f ` vChunks c = insert (f ch) (f ` (vChunks c - {ch}))" for f :: "chunk \<Rightarrow> key" by (metis image_insert)
  then have "ckLower ` ?C = ckLower ` vChunks c" "ckUpper ` ?C = ckUpper ` vChunks c" by auto
  then have "linked p ?C" using assms(1) by (simp add: linked_def wfView_def)
  moreover have "finite ?C" "ckShard ` ?C \<subseteq> fst ` set (ccShards cc)" using assms(1,3) by (auto simp: wfView_def)
  moreover have "chunkLower p \<le> ckLower x \<and> ckLower x < ckUpper x \<and> ckUpper x \<le> chunkUpper p" if "x \<in> ?C" for x
    using that wfViewD(1-3) [OF assms(1)] assms(2) by auto
  moreover have "vChunks (moveTo ch s wait c) = ?C" by (simp add: moveTo_def)
  ultimately show ?thesis using disjoint unfolding wfView_def by (metis Un_empty insert_not_empty)
qed

lemma moveTo_counts:
  assumes "wfView cc p c" and "ch \<in> vChunks c" and "s \<in> fst ` set (ccShards cc)"
  shows "card (vChunks (moveTo ch s wait c)) = card (vChunks c)"
    and "shardsIn (ckLower ch) (ckUpper ch) (moveTo ch s wait c) = {s}"
    and "docsIn lower upper (moveTo ch s wait c) = docsIn lower upper c"
    and "wait \<Longrightarrow> {i \<in> vResidue (moveTo ch s wait c) (ckShard ch). inRange (ckLower ch) (ckUpper ch) i} = {}"
proof -
  let ?n = "ch\<lparr>ckShard := s\<rparr>"
  have n: "?n \<in> vChunks (moveTo ch s wait c)" by (simp add: moveTo_def)
  from shardsIn_self [OF moveTo_wf [OF assms] n] show "shardsIn (ckLower ch) (ckUpper ch) (moveTo ch s wait c) = {s}" by simp
  have "?n \<notin> vChunks c - {ch}"
  proof
    assume old: "?n \<in> vChunks c - {ch}"
    have "?n = ch" using inj_onD [OF bounds_inj(1) [OF assms(1)], of ?n ch] old assms(2) by simp
    with old show False by simp
  qed
  moreover have "finite (vChunks c)" "card (vChunks c) > 0" using assms(1) by (simp_all add: wfView_def card_gt_0_iff)
  ultimately show "card (vChunks (moveTo ch s wait c)) = card (vChunks c)" using assms(2) by (simp add: moveTo_def)
qed (auto simp: docsIn_def moveTo_def)

end
