(* ===== verification/Chunk_Workload_Thms.thy ===== *)
theory Chunk_Workload_Thms
  imports Chunk_Workloads
begin

text \<open>
  The states of the partitioned chunk workloads accept every cluster that keeps the laws of \<open>Chunk_Workloads\<close>: the rules for runs
  that leave the view of a partition as it is, what each helper sees, the attempts of an operation, and the three states.  A small
  cluster with two shards keeps all the laws.
\<close>

section \<open>Runs that see one view\<close>

lemma sees_then:
  assumes "sees v c m P" and "\<And>x. P x \<Longrightarrow> hoare (\<lambda>w. v w = c) (f x) Q (\<lambda>_. False)"
  shows "hoare (\<lambda>w. v w = c) (bindE m f) Q (\<lambda>_. False)"
  using assms(1) unfolding sees_def by (rule hoare_bindE) (use assms(2) in \<open>auto simp: hoare_def\<close>)

lemma sees_then_seqE:
  "sees v c m P \<Longrightarrow> (P () \<Longrightarrow> hoare (\<lambda>w. v w = c) k Q (\<lambda>_. False)) \<Longrightarrow> hoare (\<lambda>w. v w = c) (seqE m k) Q (\<lambda>_. False)"
  unfolding seqE_def by (erule sees_then) simp

lemma sees_bindE: "sees v c m P \<Longrightarrow> (\<And>x. P x \<Longrightarrow> sees v c (f x) Q) \<Longrightarrow> sees v c (bindE m f) Q"
  unfolding sees_def [of v c "bindE m f"] by (erule sees_then) (simp add: sees_def)

lemma sees_seqE: "sees v c m P \<Longrightarrow> (P () \<Longrightarrow> sees v c k Q) \<Longrightarrow> sees v c (seqE m k) Q"
  unfolding seqE_def by (erule sees_bindE) simp

lemma sees_ret: "P x \<Longrightarrow> sees v c (ret x) P"
  by (simp add: sees_def hoare_ret)

lemma sees_assertE: "b \<Longrightarrow> sees v c (assertE b msg) (\<lambda>_. True)"
  by (simp add: sees_def assertE_def hoare_ret)

lemma sees_own: "b \<Longrightarrow> sees v c (assertWhenOwnColl env b msg) (\<lambda>_. True)"
  by (simp add: assertWhenOwnColl_def sees_ret sees_assertE)

lemma sees_liftE: "r = Inr x \<Longrightarrow> P x \<Longrightarrow> sees v c (liftE r) P"
  by (simp add: sees_def liftE_def hoare_ret)

lemma sees_mono: "sees v c m P \<Longrightarrow> (\<And>x. P x \<Longrightarrow> Q x) \<Longrightarrow> sees v c m Q"
  unfolding sees_def by (erule hoare_weaken) auto

lemma sees_post: "sees v c m P \<Longrightarrow> (\<And>x w. P x \<Longrightarrow> v w = c \<Longrightarrow> Q x w) \<Longrightarrow> hoare (\<lambda>w. v w = c) m Q (\<lambda>_. False)"
  unfolding sees_def by (erule hoare_weaken) auto

lemma sees_forEachE: "(\<And>x. x \<in> set xs \<Longrightarrow> sees v c (f x) (\<lambda>_. True)) \<Longrightarrow> sees v c (forEachE f xs) (\<lambda>_. True)"
  by (induction xs) (auto intro: sees_ret sees_seqE)

lemma sees_worked:
  "commandWorked_spec sh \<Longrightarrow> \<not> response_failed res \<Longrightarrow> sees v c (checkE (commandWorked sh res)) (\<lambda>_. True)"
  unfolding commandWorked_spec_def checkE_def by (metis (no_types, lifting) option.simps(4) sees_ret)

lemma steadyD:
  assumes "steadyCluster env cc primaries v"
  shows "commandWorked_spec (chShell env)" "validNamespace (JStr (chFullName env))" "ccMongos cc \<noteq> []"
    and "sees v c (chIsMongos env conn) (\<lambda>b. b \<longleftrightarrow> conn \<in> set (ccMongos cc))"
    and "conn \<in> set (ccConfig cc) \<Longrightarrow> sees v c (chIsConfigsvr env conn) (\<lambda>b. b)"
    and "conn \<notin> set (ccMongos cc) \<Longrightarrow> sees v c (chAdminOn env conn (JObj [(''isMaster'', JNum (Fin 1))]))
        (\<lambda>res. \<not> response_failed res \<and> (truthy (fld res ''ismaster'') \<longleftrightarrow> conn \<in> primaries))"
    and "conn \<in> set (ccMongos cc) \<Longrightarrow>
        sees v c (chAdminOn env conn (JObj [(''getShardVersion'', JStr (chFullName env)), (''fullMetadata'', JBool True)])) (\<lambda>res. \<not> response_failed res)"
    and "n > 0 \<Longrightarrow> sees v c (chRandInt env n) (\<lambda>i. i < n)" "sees v c (chSleep env k) (\<lambda>_. True)"
    and "conns \<in> insert (ccConfig cc) (snd ` set (ccShards cc)) \<Longrightarrow> set conns \<inter> primaries \<noteq> {} \<and> set conns \<inter> set (ccMongos cc) = {}"
  using assms by (auto simp: steadyCluster_def)

lemma sees_findPrimary:
  assumes "steadyCluster env cc primaries v" and "set conns \<inter> set (ccMongos cc) = {}"
  shows "sees v c (findPrimary env conns) (\<lambda>r. r = find (\<lambda>conn. conn \<in> primaries) conns)"
  using assms(2)
proof (induction conns)
  case (Cons conn conns)
  note law = steadyD [OF assms(1)]
  have rest: "sees v c (findPrimary env conns) (\<lambda>r. r = find (\<lambda>conn. conn \<in> primaries) conns)" using Cons by simp
  show ?case using Cons.prems rest
    by (auto intro!: sees_bindE [OF law(4)] sees_seqE [OF sees_assertE] sees_bindE [OF law(6)] sees_seqE [OF sees_worked [OF law(1)]] sees_ret)
qed (simp add: sees_ret)

lemma sees_getPrimary:
  assumes "steadyCluster env cc primaries v" and "conns \<in> insert (ccConfig cc) (snd ` set (ccShards cc))"
  shows "sees v c (ch_getPrimary env attempts conns) (\<lambda>conn. conn \<in> set conns \<inter> primaries)"
proof -
  note conns = steadyD(10) [OF assms]
  obtain conn where conn: "find (\<lambda>conn. conn \<in> primaries) conns = Some conn" using conns by (cases "find (\<lambda>conn. conn \<in> primaries) conns") (auto simp: find_None_iff)
  then have "conn \<in> set conns \<inter> primaries" by (auto simp: find_Some_iff)
  then show ?thesis
    unfolding ch_getPrimary.simps [of env attempts] using conns
    by (intro sees_bindE [OF sees_findPrimary [OF assms(1)]]) (auto simp: conn intro: sees_ret)
qed

lemma sees_shardPrimary:
  assumes "steadyCluster env cc primaries v" and "map_of (ccShards cc) s = Some conns"
  shows "sees v c (shardPrimary env attempts cc (JStr s)) (\<lambda>conn. conn \<in> set conns \<inter> primaries)"
  using sees_getPrimary [OF assms(1), of conns] map_of_SomeD [OF assms(2)] by (force simp: shardPrimary_def assms(2))

lemma sees_getRandomMongos:
  assumes "steadyCluster env cc primaries v"
  shows "sees v c (getRandomMongos env (ccMongos cc)) (\<lambda>conn. conn \<in> set (ccMongos cc))"
  unfolding getRandomMongos_def
  by (rule sees_bindE [OF steadyD(8) [OF assms]])
    (auto simp: steadyD(3) [OF assms] intro!: sees_bindE [OF steadyD(4) [OF assms]] sees_seqE [OF sees_assertE] sees_ret)

text \<open>What the checks see of a range within the partition.\<close>

definition ranges :: "partition \<Rightarrow> key \<Rightarrow> key \<Rightarrow> bool" where
  "ranges p lower upper \<longleftrightarrow> chunkLower p \<le> lower \<and> lower < upper \<and> upper \<le> chunkUpper p"

lemma partitionD:
  assumes "partitionLaws env cc primaries p doc v" and "wfView cc p c" and "ranges p lower upper"
  shows "conn \<in> set (ccMongos cc) \<Longrightarrow> sees v c (getNumDocs env conn (keyVal lower) (keyVal upper)) (\<lambda>n. n = card (docsIn lower upper c))"
    and "map_of (ccShards cc) s = Some conns \<Longrightarrow> conn \<in> set conns \<inter> primaries \<Longrightarrow> sees v c (getNumDocs env conn (keyVal lower) (keyVal upper))
          (\<lambda>n. (shardsIn lower upper c = {s} \<longrightarrow> n = card (docsIn lower upper c)) \<and>
               (s \<notin> shardsIn lower upper c \<longrightarrow> n \<le> card {i \<in> vResidue c s. inRange lower upper i}))"
    and "conn \<in> set (ccConfig cc) \<inter> primaries \<union> set (ccMongos cc) \<Longrightarrow>
          sees v c (chFindChunks env conn (chunkQuery (JStr (chFullName env)) (keyVal lower) (keyVal upper)))
             (\<lambda>xs. length xs = card (chunksIn lower upper c))"
    and "conn \<in> set (ccMongos cc) \<Longrightarrow> sees v c (chExplain env conn (shardsQuery (keyVal lower) (keyVal upper)))
           (\<lambda>res. \<not> response_failed res \<and> (\<exists>xs ss. planShards res = Inr (JArr xs) \<and>
              map (\<lambda>x. get_prop x ''shardName'') xs = map (\<lambda>s. Inr (JStr s)) ss \<and> distinct ss \<and> set ss = shardsIn lower upper c))"
proof -
  have laws: "countLaws env cc primaries p v c" "chunkLaws env cc primaries p doc v c" using assms(1,2) by (auto simp: partitionLaws_def)
  show "sees v c (getNumDocs env conn (keyVal lower) (keyVal upper)) (\<lambda>n. n = card (docsIn lower upper c))" if "conn \<in> set (ccMongos cc)"
    using laws(1) assms(3) that by (auto simp: countLaws_def ranges_def getNumDocs_def)
  show "sees v c (getNumDocs env conn (keyVal lower) (keyVal upper))
      (\<lambda>n. (shardsIn lower upper c = {s} \<longrightarrow> n = card (docsIn lower upper c)) \<and>
           (s \<notin> shardsIn lower upper c \<longrightarrow> n \<le> card {i \<in> vResidue c s. inRange lower upper i}))"
    if "map_of (ccShards cc) s = Some conns" "conn \<in> set conns \<inter> primaries"
    using laws(1) assms(3) that(2) map_of_SomeD [OF that(1)] unfolding countLaws_def ranges_def getNumDocs_def by fast
qed (use assms in \<open>auto simp: partitionLaws_def chunkLaws_def ranges_def\<close>)

lemma sees_getChunks:
  assumes "steadyCluster env cc primaries v" and "partitionLaws env cc primaries p doc v" and "wfView cc p c" and "ranges p lower upper"
    and "conn \<in> set (ccConfig cc) \<inter> primaries \<union> set (ccMongos cc)"
  shows "sees v c (getChunks env conn (JStr (chFullName env)) (keyVal lower) (keyVal upper)) (\<lambda>xs. length xs = card (chunksIn lower upper c))"
proof -
  note law = steadyD [OF assms(1)]
  have "sees v c (if mongos then ret True else chIsConfigsvr env conn) (\<lambda>ok. ok)" if "mongos = (conn \<in> set (ccMongos cc))" for mongos
    using that assms(5) law(5) by (auto intro: sees_ret)
  then show ?thesis unfolding getChunks_def
    by (intro sees_bindE [OF law(4)]) (auto intro!: sees_bindE sees_seqE [OF sees_assertE] law(2) partitionD(3) [OF assms(2-5)])
qed

lemma sees_getNumChunks:
  assumes "steadyCluster env cc primaries v" and "partitionLaws env cc primaries p doc v" and "wfView cc p c" and "ranges p lower upper"
    and "conn \<in> set (ccConfig cc) \<inter> primaries \<union> set (ccMongos cc)"
  shows "sees v c (getNumChunks env conn (keyVal lower) (keyVal upper)) (\<lambda>n. n = card (chunksIn lower upper c))"
  unfolding getNumChunks_def by (rule sees_bindE [OF sees_getChunks [OF assms]]) (simp add: sees_ret)

lemma ranges_chunk: "wfView cc p c \<Longrightarrow> ch \<in> vChunks c \<Longrightarrow> ranges p (ckLower ch) (ckUpper ch)"
  using wfViewD [of cc p c ch] by (simp add: ranges_def)

lemma ranges_partition: "wfView cc p c \<Longrightarrow> ranges p (chunkLower p) (chunkUpper p)"
proof -
  assume wf: "wfView cc p c"
  then obtain ch where "ch \<in> vChunks c" by (auto simp: wfView_def)
  from wfViewD(1-3) [OF wf this] show ?thesis by (auto simp: ranges_def)
qed

lemma sees_chunksInPartition:
  assumes "steadyCluster env cc primaries v" and "partitionLaws env cc primaries p doc v" and "wfView cc p c"
    and "conn \<in> set (ccConfig cc) \<inter> primaries \<union> set (ccMongos cc)"
  shows "sees v c (chunksInPartition env p conn) (\<lambda>n. n = card (vChunks c))"
  unfolding chunksInPartition_def
  using sees_getNumChunks [OF assms(1-3) ranges_partition [OF assms(3)] assms(4)] by (simp add: chunksIn_partition [OF assms(3)])

lemma bind_Inr [simp]: "bindE (liftE (Inr x)) f = f x"
  by (rule ext) (simp add: js_simps)

lemma distinct_singleton: "distinct xs \<Longrightarrow> set xs = {x} \<Longrightarrow> xs = [x]"
  by (cases xs) (auto simp: subset_singleton_iff)

lemma sees_shardNames:
  "map (\<lambda>x. get_prop x ''shardName'') xs = map (\<lambda>s. Inr (JStr s)) ss \<Longrightarrow>
   sees v c (mapE (\<lambda>shard. liftE (get_prop shard ''shardName'')) xs) (\<lambda>ys. ys = map JStr ss)"
proof (induction xs arbitrary: ss)
  case (Cons x xs)
  then obtain s ts where ss: "ss = s # ts" "get_prop x ''shardName'' = Inr (JStr s)"
    "map (\<lambda>x. get_prop x ''shardName'') xs = map (\<lambda>s. Inr (JStr s)) ts" by (cases ss) auto
  show ?case unfolding mapE.simps ss(2)
    by (simp add: ss(1)) (rule sees_bindE [OF Cons.IH [OF ss(3)]], simp add: sees_ret)
qed (simp add: sees_ret)

lemma sees_getShardsForRange:
  assumes "steadyCluster env cc primaries v" and "partitionLaws env cc primaries p doc v" and "wfView cc p c" and "ranges p lower upper"
    and "conn \<in> set (ccMongos cc)" and "shardsIn lower upper c = {s}"
  shows "sees v c (getShardsForRange env conn (keyVal lower) (keyVal upper)) (\<lambda>shards. shards = [JStr s])"
proof -
  note law = steadyD [OF assms(1)]
  have names: "sees v c (seqE (assertE (xs \<noteq> []) msg) (mapE (\<lambda>shard. liftE (get_prop shard ''shardName'')) xs)) (\<lambda>shards. shards = [JStr s])"
    if "map (\<lambda>x. get_prop x ''shardName'') xs = map (\<lambda>s. Inr (JStr s)) ss" "distinct ss" "set ss = shardsIn lower upper c" for xs ss msg
  proof -
    have "ss = [s]" using that(2,3) assms(6) by (simp add: distinct_singleton)
    moreover from this have "xs \<noteq> []" using that(1) by auto
    ultimately show ?thesis using sees_shardNames [OF that(1)] by (auto intro: sees_seqE [OF sees_assertE])
  qed
  show ?thesis unfolding getShardsForRange_def
    by (intro sees_bindE [OF law(4)] sees_seqE [OF sees_assertE] sees_bindE [OF law(7) [OF assms(5)]] sees_seqE [OF sees_worked [OF law(1)]]
        sees_bindE [OF partitionD(4) [OF assms(2-5)]])
      (use assms(5) in \<open>auto intro!: names\<close>)
qed

lemma sees_checkChunkCounts:
  assumes "steadyCluster env cc primaries v" and "partitionLaws env cc primaries p doc v" and "wfView cc p c" and "ranges p lower upper"
    and "conn \<in> set (ccConfig cc) \<inter> primaries \<union> set (ccMongos cc)" and "seer \<in> set (ccConfig cc) \<inter> primaries \<union> set (ccMongos cc)"
    and "int (card (chunksIn lower upper c)) = between" and "int (card (vChunks c)) = inPart"
  shows "sees v c (checkChunkCounts env p conn seer (keyVal lower) (keyVal upper) between inPart) (\<lambda>_. True)"
  unfolding checkChunkCounts_def
  by (rule sees_bindE [OF sees_getNumChunks [OF assms(1-5)] sees_seqE [OF sees_own sees_bindE [OF sees_chunksInPartition [OF assms(1-3,6)] sees_own]]])
    (simp_all add: assms(7,8))

lemma sees_checkRange:
  assumes "steadyCluster env cc primaries v" and "partitionLaws env cc primaries p doc v" and "wfView cc p c" and "ranges p lower upper"
    and "conn \<in> set (ccMongos cc)" and "shardsIn lower upper c = {s}" and "n = card (docsIn lower upper c)"
  shows "sees v c (checkRange env conn (keyVal lower) (keyVal upper) n (JStr s)) (\<lambda>_. True)"
  unfolding checkRange_def
  by (rule sees_bindE [OF partitionD(1) [OF assms(2-5)] sees_seqE [OF sees_own sees_bindE [OF sees_getShardsForRange [OF assms(1-6)] sees_seqE [OF sees_own sees_own]]]])
    (simp_all add: assms(7) strict_eq_def)

lemma sees_shardHasDocs:
  assumes "steadyCluster env cc primaries v" and "partitionLaws env cc primaries p doc v" and "wfView cc p c" and "ranges p lower upper"
    and "map_of (ccShards cc) s = Some conns" and "shardsIn lower upper c = {s}" and "n = card (docsIn lower upper c)"
  shows "sees v c (shardHasDocs env attempts cc (JStr s) (keyVal lower) (keyVal upper) n) (\<lambda>_. True)"
  unfolding shardHasDocs_def
  by (rule sees_bindE [OF sees_shardPrimary [OF assms(1,5)] sees_bindE [OF partitionD(2) [OF assms(2-5)] sees_own]])
    (use assms(6,7) in auto)

lemma sees_onMasters:
  assumes "steadyCluster env cc primaries v" and "\<And>conn. conn \<in> set (ccConfig cc) \<inter> primaries \<Longrightarrow> sees v c (check conn) (\<lambda>_. True)"
  shows "sees v c (onMasters env check (ccConfig cc)) (\<lambda>_. True)"
proof -
  note law = steadyD [OF assms(1)]
  have "conn \<notin> set (ccMongos cc)" if "conn \<in> set (ccConfig cc)" for conn using law(10) [of "ccConfig cc"] that by blast
  then show ?thesis unfolding onMasters_def using assms(2)
    by (intro sees_forEachE) (auto intro!: sees_bindE [OF law(6)] sees_seqE [OF sees_worked [OF law(1)]] sees_ret)
qed

lemma sees_checkAfterwards:
  assumes "steadyCluster env cc primaries v" and "partitionLaws env cc primaries p doc v" and "wfView cc p c" and "ranges p lower upper"
    and "map_of (ccShards cc) s = Some conns" and "shardsIn lower upper c = {s}" and "n = card (docsIn lower upper c)"
    and "config \<in> set (ccConfig cc) \<inter> primaries" and "int (card (chunksIn lower upper c)) = between" and "int (card (vChunks c)) = inPart"
  shows "sees v c (checkAfterwards env attempts cc p config (keyVal lower) (keyVal upper) (JStr s) n between inPart) (\<lambda>_. True)"
  unfolding checkAfterwards_def
  by (intro sees_seqE [OF sees_shardHasDocs [OF assms(1-7)]] sees_seqE [OF sees_onMasters [OF assms(1)]] sees_forEachE
      sees_seqE [OF sees_checkRange [OF assms(1-4) _ assms(6,7)]] sees_checkChunkCounts [OF assms(1-4) _ _ assms(9,10)])
    (use assms(8) in auto)

lemma sees_getRandomChunk:
  assumes "steadyCluster env cc primaries v" and "partitionLaws env cc primaries p doc v" and "wfView cc p c" and "conn \<in> set (ccConfig cc) \<inter> primaries"
  shows "sees v c (getRandomChunkInPartition env ''_id'' (Some p) conn) (\<lambda>x. x \<in> doc ` vChunks c)"
  unfolding getRandomChunkInPartition_def
  by (rule sees_bindE [OF steadyD(5) [OF assms(1) IntD1 [OF assms(4)]] sees_seqE [OF sees_assertE]])
    (use assms(2-4) in \<open>auto simp: partitionLaws_def chunkLaws_def\<close>)

text \<open>The attempts of an operation: the view changes with the attempt that works, if there is one.\<close>

lemma retry_changes:
  assumes "steadyCluster env cc primaries v" and "changes env v c cmd codes R" and "\<not> truthy (fld res0 ''ok'')"
  shows "hoare (\<lambda>w. v w = c) (chunkRetryLoop env cmd (map (errorCode (chShell env)) codes) n t res0)
    (\<lambda>res w. if truthy (fld res ''ok'') then R (v w) else v w = c) (\<lambda>_. False)"
  using assms(3)
proof (induction n arbitrary: t res0)
  case 0
  then show ?case by (auto intro: hoare_ret)
next
  case (Suc n)
  show ?case unfolding chunkRetryLoop.simps
  proof (rule hoare_bindE [OF assms(2) [unfolded changes_def]])
    fix res
    let ?codes = "map (errorCode (chShell env)) codes"
    let ?post = "\<lambda>res w. if truthy (fld res ''ok'') then R (v w) else v w = c"
    show "hoare (\<lambda>w. res \<noteq> Undef \<and> res \<noteq> Null \<and> (if truthy (fld res ''ok'') then R (v w)
          else v w = c \<and> list_ex (strict_eq (fld res ''code'')) ?codes))
        (bindE (liftE (get_prop res ''ok'')) (\<lambda>ok. if truthy ok then ret res
           else seqE (assertWhenOwnColl env (list_ex (strict_eq (fld res ''code'')) ?codes) ''command failed'')
             (seqE (chSleep env t) (chunkRetryLoop env cmd ?codes n (getNextBackoffSleep t) res)))) ?post (\<lambda>_. False)"
    proof (cases "res \<noteq> Undef \<and> res \<noteq> Null \<and> (truthy (fld res ''ok'') \<or> list_ex (strict_eq (fld res ''code'')) ?codes)")
      case True
      then have get: "get_prop res ''ok'' = Inr (fld res ''ok'')" by simp
      show ?thesis
      proof (cases "truthy (fld res ''ok'')")
        case True
        then show ?thesis by (auto simp: get intro!: hoare_ret)
      next
        case False
        have "hoare (\<lambda>w. v w = c) (seqE (assertWhenOwnColl env (list_ex (strict_eq (fld res ''code'')) ?codes) ''command failed'')
             (seqE (chSleep env t) (chunkRetryLoop env cmd ?codes n (getNextBackoffSleep t) res))) ?post (\<lambda>_. False)"
          using True False by (intro sees_then_seqE [OF sees_own] sees_then_seqE [OF steadyD(9) [OF assms(1)]] Suc.IH) auto
        then show ?thesis using False by (auto simp: get elim!: hoare_weaken)
      qed
    qed (auto simp: hoare_def)
  qed
qed

lemma split_changes:
  assumes "steadyCluster env cc primaries v" and "splitLaw env cc p v" and "wfView cc p c" and "ch \<in> vChunks c"
  shows "hoare (\<lambda>w. v w = c) (splitChunkWithBounds env (idBounds (keyVal (ckLower ch)) (keyVal (ckUpper ch))))
    (\<lambda>res w. if truthy (fld res ''ok'') then \<exists>m. ckLower ch < m \<and> m < ckUpper ch \<and> v w = splitAt ch m c else v w = c) (\<lambda>_. False)"
proof -
  have "changes env v c (JObj [(''split'', JStr (chFullName env)), (''bounds'', idBounds (keyVal (ckLower ch)) (keyVal (ckUpper ch)))])
      [''LockBusy''] (\<lambda>c'. \<exists>m. ckLower ch < m \<and> m < ckUpper ch \<and> c' = splitAt ch m c)"
    using assms(2-4) by (simp add: splitLaw_def)
  from retry_changes [OF assms(1) this, of Undef] show ?thesis
    by (simp add: splitChunkWithBounds_def ch_runCommandWithRetries_def fld_def)
qed

lemma describesD:
  assumes "partitionLaws env cc primaries p doc v"
  shows "boundOf (doc ch) ''min'' = Inr (keyVal (ckLower ch))" "boundOf (doc ch) ''max'' = Inr (keyVal (ckUpper ch))"
    "fld (doc ch) ''shard'' = JStr (ckShard ch)"
  using assms by (simp_all add: partitionLaws_def describes_def)

lemma view_bindE:
  assumes "hoare I m (\<lambda>x w. K x (v w)) E" and "\<And>x c'. K x c' \<Longrightarrow> hoare (\<lambda>w. v w = c') (f x) Q E"
  shows "hoare I (bindE m f) Q E"
  by (rule hoare_bindE [OF assms(1)]) (use assms(2) in \<open>fastforce simp: hoare_def\<close>)

lemma split_checks:
  assumes "steadyCluster env cc primaries v" and "partitionLaws env cc primaries p doc v" and "wfView cc p c" and "ch \<in> vChunks c" and "config \<in> set (ccConfig cc) \<inter> primaries"
    and "if ok then \<exists>m. ckLower ch < m \<and> m < ckUpper ch \<and> c' = splitAt ch m c else c' = c"
  shows "sees v c' (checkAfterwards env attempts cc p config (keyVal (ckLower ch)) (keyVal (ckUpper ch)) (JStr (ckShard ch))
      (card (docsIn (ckLower ch) (ckUpper ch) c)) (if ok then 2 else 1) (int (card (vChunks c)) + (if ok then 1 else 0))) (\<lambda>_. True)"
proof -
  obtain conns where "map_of (ccShards cc) (ckShard ch) = Some conns" using wfViewD(4) [OF assms(3,4)] by blast
  note checks = sees_checkAfterwards [OF assms(1,2) _ ranges_chunk [OF assms(3,4)] this _ _ assms(5)]
  show ?thesis
  proof (cases ok)
    case True
    with assms(6) obtain m where "ckLower ch < m" "m < ckUpper ch" and c': "c' = splitAt ch m c" by auto
    note m = assms(3,4) this(1,2)
    show ?thesis unfolding c' using True splitAt_counts [OF m] by (intro checks splitAt_wf [OF m]) auto
  next
    case False
    then show ?thesis using assms(3,4,6) by (intro checks) (auto simp: chunksIn_self shardsIn_self)
  qed
qed

lemma split_operation:
  assumes "steadyCluster env cc primaries v" and "partitionLaws env cc primaries p doc v" and "splitLaw env cc p v" and "wfView cc p c"
    and "ch \<in> vChunks c" and "config \<in> set (ccConfig cc) \<inter> primaries"
  shows "hoare (\<lambda>w. v w = c)
    (split_apply env attempts cc p config (keyVal (ckLower ch)) (keyVal (ckUpper ch)) (JStr (ckShard ch)) (card (docsIn (ckLower ch) (ckUpper ch) c)) (card (vChunks c)))
    (\<lambda>_ w. v w = c \<or> (\<exists>m. ckLower ch < m \<and> m < ckUpper ch \<and> v w = splitAt ch m c)) (\<lambda>_. False)"
  unfolding split_apply_def Let_def
proof (rule view_bindE [where K = "\<lambda>res c'. if truthy (fld res ''ok'') then \<exists>m. ckLower ch < m \<and> m < ckUpper ch \<and> c' = splitAt ch m c else c' = c",
      OF split_changes [OF assms(1,3-5)]])
  fix res c' assume c': "if truthy (fld res ''ok'') then \<exists>m. ckLower ch < m \<and> m < ckUpper ch \<and> c' = splitAt ch m c else c' = c"
  show "hoare (\<lambda>w. v w = c') (checkAfterwards env attempts cc p config (keyVal (ckLower ch)) (keyVal (ckUpper ch)) (JStr (ckShard ch))
      (card (docsIn (ckLower ch) (ckUpper ch) c)) (if truthy (fld res ''ok'') then 2 else 1)
      (int (card (vChunks c)) + (if truthy (fld res ''ok'') then 1 else 0)))
      (\<lambda>_ w. v w = c \<or> (\<exists>m. ckLower ch < m \<and> m < ckUpper ch \<and> v w = splitAt ch m c)) (\<lambda>_. False)"
    by (rule sees_post [OF split_checks [OF assms(1,2,4-6) c']]) (use c' in \<open>auto split: if_splits\<close>)
qed

lemma split_state:
  assumes "steadyCluster env cc primaries v" and "partitionLaws env cc primaries p doc v" and "splitLaw env cc p v" and "wfView cc p c"
  shows "hoare (\<lambda>w. v w = c) (split_splitChunk env attempts cc p)
    (\<lambda>_ w. v w = c \<or> (\<exists>ch \<in> vChunks c. \<exists>m. ckLower ch < m \<and> m < ckUpper ch \<and> v w = splitAt ch m c)) (\<lambda>_. False)"
  unfolding split_splitChunk_def
proof (rule sees_then [OF sees_getPrimary [OF assms(1) insertI1] sees_then [OF sees_getRandomChunk [OF assms(1,2,4)] sees_then [OF sees_getRandomMongos [OF assms(1)]]]])
  fix config chunk mongos assume config: "config \<in> set (ccConfig cc) \<inter> primaries" and "chunk \<in> doc ` vChunks c" and mongos: "mongos \<in> set (ccMongos cc)"
  then obtain ch where ch: "ch \<in> vChunks c" and chunk: "chunk = doc ch" by blast
  show "hoare (\<lambda>w. v w = c) (bindE (liftE (boundOf chunk ''min'')) (\<lambda>lower. bindE (liftE (boundOf chunk ''max'')) (\<lambda>upper.
      bindE (getNumDocs env mongos lower upper) (\<lambda>numDocsBefore. bindE (chunksInPartition env p config) (\<lambda>numChunksBefore.
      split_apply env attempts cc p config lower upper (fld chunk ''shard'') numDocsBefore numChunksBefore)))))
    (\<lambda>_ w. v w = c \<or> (\<exists>ch \<in> vChunks c. \<exists>m. ckLower ch < m \<and> m < ckUpper ch \<and> v w = splitAt ch m c)) (\<lambda>_. False)"
    unfolding chunk describesD [OF assms(2)] bind_Inr
    by (rule sees_then [OF partitionD(1) [OF assms(2,4) ranges_chunk [OF assms(4) ch] mongos] sees_then [OF sees_chunksInPartition [OF assms(1,2,4)]]])
      (use config ch in \<open>auto intro!: hoare_weaken [OF split_operation [OF assms ch config]]\<close>)
qed assumption

text \<open>The chunks the merge works on: the chosen one and its upper neighbour, or the chosen one and its lower neighbour if it is the last.\<close>

lemma keyVal_inj [simp]: "keyVal a = keyVal b \<longleftrightarrow> a = b"
  by (cases a; cases b) auto

lemma merge_pair:
  assumes "wfView cc p c" and "card (vChunks c) \<ge> 2" and "ch \<in> vChunks c"
  shows "\<exists>a \<in> vChunks c. \<exists>b \<in> vChunks c. ckUpper a = ckLower b \<and> (if ckUpper ch = chunkUpper p then ckUpper a = ckLower ch else a = ch)"
proof (cases "ckUpper ch = chunkUpper p")
  case True
  have "ckLower ch \<noteq> chunkLower p"
  proof
    assume "ckLower ch = chunkLower p"
    with True have "vChunks c \<subseteq> chunksIn (ckLower ch) (ckUpper ch) c" using wfViewD(1,3) [OF assms(1)] by (auto simp: chunksIn_def)
    then have "vChunks c \<subseteq> {ch}" using chunksIn_self [OF assms(1,3)] by simp
    from card_mono [OF _ this] have "card (vChunks c) \<le> 1" by simp
    with assms(2) show False by simp
  qed
  then have "ckLower ch \<in> ckUpper ` vChunks c" using assms(1,3) unfolding wfView_def linked_def by blast
  then obtain a where "a \<in> vChunks c" "ckUpper a = ckLower ch" by auto
  with True assms(3) show ?thesis by auto
next
  case False
  then have "ckUpper ch \<in> ckLower ` vChunks c" using assms(1,3) unfolding wfView_def linked_def by blast
  then obtain b where "b \<in> vChunks c" "ckUpper ch = ckLower b" by auto
  with False assms(3) show ?thesis by auto
qed

lemma merge_changes:
  assumes "steadyCluster env cc primaries v" and "mergeLaw env cc p v" and "wfView cc p c"
    and "a \<in> vChunks c" and "b \<in> vChunks c" and "ckUpper a = ckLower b" and "ckShard a = ckShard b"
  shows "hoare (\<lambda>w. v w = c) (mergeChunks env (idBounds (keyVal (ckLower a)) (keyVal (ckUpper b))))
    (\<lambda>res w. if truthy (fld res ''ok'') then v w = mergeAt a b c else v w = c) (\<lambda>_. False)"
proof -
  have "changes env v c (JObj [(''mergeChunks'', JStr (chFullName env)), (''bounds'', idBounds (keyVal (ckLower a)) (keyVal (ckUpper b)))])
      [''LockBusy''] (\<lambda>c'. c' = mergeAt a b c)"
    using assms(2-7) by (simp add: mergeLaw_def)
  from retry_changes [OF assms(1) this, of Undef] show ?thesis
    by (simp add: mergeChunks_def ch_runCommandWithRetries_def fld_def)
qed

lemma merge_operation:
  assumes "steadyCluster env cc primaries v" and "partitionLaws env cc primaries p doc v" and "mergeLaw env cc p v" and "wfView cc p c"
    and "a \<in> vChunks c" and "b \<in> vChunks c" and "ckUpper a = ckLower b" and "ckShard a = ckShard b" and "config \<in> set (ccConfig cc) \<inter> primaries"
  shows "hoare (\<lambda>w. v w = c)
    (merge_apply env attempts cc p config (keyVal (ckLower a)) (keyVal (ckUpper b)) (JStr (ckShard a)) (card (docsIn (ckLower a) (ckUpper b) c)) (card (vChunks c)))
    (\<lambda>_ w. v w = c \<or> v w = mergeAt a b c) (\<lambda>_. False)"
  unfolding merge_apply_def Let_def
proof (rule view_bindE [where K = "\<lambda>res c'. if truthy (fld res ''ok'') then c' = mergeAt a b c else c' = c", OF merge_changes [OF assms(1,3-8)]])
  fix res c' assume c': "if truthy (fld res ''ok'') then c' = mergeAt a b c else c' = c"
  note pair = assms(4-7)
  obtain conns where "map_of (ccShards cc) (ckShard a) = Some conns" using wfViewD(4) [OF assms(4,5)] by blast
  have range: "ranges p (ckLower a) (ckUpper b)"
    using wfViewD(1) [OF assms(4,5)] wfViewD(3) [OF assms(4,6)] pair_less(3) [OF pair] by (simp add: ranges_def)
  have wf': "wfView cc p c'" using c' assms(4) mergeAt_wf [OF pair] by (simp split: if_splits)
  let ?checks = "checkAfterwards env attempts cc p config (keyVal (ckLower a)) (keyVal (ckUpper b)) (JStr (ckShard a))
      (card (docsIn (ckLower a) (ckUpper b) c)) (if truthy (fld res ''ok'') then 1 else 2)
      (int (card (vChunks c)) - (if truthy (fld res ''ok'') then 1 else 0))"
  have checks: "sees v c' ?checks (\<lambda>_. True)"
    by (rule sees_checkAfterwards [OF assms(1,2) wf' range \<open>map_of (ccShards cc) (ckShard a) = Some conns\<close> _ _ assms(9)])
      (use c' mergeAt_counts [OF pair] shardsIn_pair [OF pair assms(8)] in \<open>simp_all split: if_splits\<close>)
  show "hoare (\<lambda>w. v w = c') (bindE (getChunks env config (JStr (chFullName env)) (keyVal (chunkLower p)) (keyVal (chunkUpper p))) (\<lambda>chunks. ?checks))
      (\<lambda>_ w. v w = c \<or> v w = mergeAt a b c) (\<lambda>_. False)"
    by (rule sees_post [OF sees_bindE [OF sees_getChunks [OF assms(1,2) wf' ranges_partition [OF wf']] checks]])
      (use assms(9) c' in \<open>auto split: if_splits\<close>)
qed

text \<open>The descriptions the config servers give of two neighbours.\<close>

lemma sees_findOne:
  assumes "partitionLaws env cc primaries p doc v" and "wfView cc p c" and "conn \<in> set (ccConfig cc) \<inter> primaries" and "ch \<in> vChunks c"
  shows "sees v c (chFindOne env conn (JObj [(''ns'', JStr (chFullName env)), (''max._id'', keyVal (ckUpper ch))])) (\<lambda>x. x = doc ch)"
    and "sees v c (chFindOne env conn (JObj [(''ns'', JStr (chFullName env)), (''min._id'', keyVal (ckLower ch))])) (\<lambda>x. x = doc ch)"
  using assms by (simp_all add: partitionLaws_def chunkLaws_def)

lemma seq_ret [simp]: "seqE (ret ()) k = k"
  by (rule ext) (simp add: js_simps)

lemma merge_rest:
  assumes "steadyCluster env cc primaries v" and "partitionLaws env cc primaries p doc v" and "mergeLaw env cc p v" and "wfView cc p c"
    and ab: "a \<in> vChunks c" "b \<in> vChunks c" "ckUpper a = ckLower b" and same: "ckShard a = ckShard b" and config: "config \<in> set (ccConfig cc) \<inter> primaries"
  shows "hoare (\<lambda>w. v w = c) (merge_chosen env attempts cc p config (doc a) (doc b)) (\<lambda>_ w. v w = c \<or> v w = mergeAt a b c) (\<lambda>_. False)"
proof -
  note pair = assms(4) ab
  obtain conns where conns: "map_of (ccShards cc) (ckShard a) = Some conns" using wfViewD(4) [OF assms(4) ab(1)] by blast
  have range: "ranges p (ckLower a) (ckUpper b)"
    using wfViewD(1) [OF assms(4) ab(1)] wfViewD(3) [OF assms(4) ab(2)] pair_less(3) [OF pair] by (simp add: ranges_def)
  have strict: "strict_eq (JStr (ckShard b)) (JStr (ckShard a))" by (simp add: strict_eq_def same)
  show ?thesis
    unfolding merge_chosen_def Let_def describesD [OF assms(2)] bind_Inr if_P [OF strict] seq_ret
    by (intro sees_then [OF sees_getRandomMongos [OF assms(1)]] sees_then [OF partitionD(1) [OF assms(2,4) range]]
        sees_then_seqE [OF sees_shardHasDocs [OF assms(1,2,4) range conns shardsIn_pair [OF pair same]]]
        sees_then [OF sees_chunksInPartition [OF assms(1,2,4)]])
      (use config ab in \<open>auto intro!: hoare_weaken [OF merge_operation [OF assms(1-4) ab same config]]\<close>)
qed

lemma sees_merge_choose:
  assumes "steadyCluster env cc primaries v" and "partitionLaws env cc primaries p doc v" and "wfView cc p c" and "card (vChunks c) \<ge> 2"
    and config: "config \<in> set (ccConfig cc) \<inter> primaries"
  shows "sees v c (merge_choose env p config)
    (\<lambda>r. \<exists>a \<in> vChunks c. \<exists>b \<in> vChunks c. ckUpper a = ckLower b \<and> r = (doc a, doc b))"
  unfolding merge_choose_def Let_def
proof (rule sees_bindE [OF sees_getRandomChunk [OF assms(1-3) config]])
  fix chunk assume "chunk \<in> doc ` vChunks c"
  then obtain ch where chunk: "chunk = doc ch" and ch: "ch \<in> vChunks c" by blast
  obtain a b where ab: "a \<in> vChunks c" "b \<in> vChunks c" "ckUpper a = ckLower b"
    and pick: "if ckUpper ch = chunkUpper p then ckUpper a = ckLower ch else a = ch"
    using merge_pair [OF assms(3,4) ch] by blast
  note find = sees_findOne [OF assms(2,3) config]
  have first: "sees v c (if keyVal (ckUpper ch) = keyVal (chunkUpper p)
      then chFindOne env config (JObj [(''ns'', JStr (chFullName env)), (''max._id'', keyVal (ckLower ch))]) else ret (doc ch)) (\<lambda>x. x = doc a)"
    using pick find(1) [OF ab(1)] by (auto intro: sees_ret split: if_splits)
  show "sees v c (bindE (liftE (boundOf chunk ''max'')) (\<lambda>chunkMax.
      bindE (if chunkMax = keyVal (chunkUpper p)
        then bindE (liftE (boundOf chunk ''min'')) (\<lambda>chunkMin. chFindOne env config (JObj [(''ns'', JStr (chFullName env)), (''max._id'', chunkMin)]))
        else ret chunk) (\<lambda>chunk1. bindE (liftE (boundOf chunk1 ''max'')) (\<lambda>middle.
      bindE (chFindOne env config (JObj [(''ns'', JStr (chFullName env)), (''min._id'', middle)])) (\<lambda>chunk2. ret (chunk1, chunk2))))))
    (\<lambda>r. \<exists>a \<in> vChunks c. \<exists>b \<in> vChunks c. ckUpper a = ckLower b \<and> r = (doc a, doc b))"
    unfolding chunk describesD [OF assms(2)] bind_Inr
    by (rule sees_bindE [OF first]) (use ab in \<open>auto simp: describesD [OF assms(2)] intro!: sees_bindE [OF find(2) [OF ab(2)]] sees_ret\<close>)
qed

lemma merge_state:
  assumes "steadyCluster env cc primaries v" and "partitionLaws env cc primaries p doc v" and "mergeLaw env cc p v" and "wfView cc p c"
    and "ranges p (Key (pLower p)) (Key (pUpper p))" and "ckShard ` vChunks c \<subseteq> {s}"
  shows "hoare (\<lambda>w. v w = c) (merge_mergeChunks env attempts cc p)
    (\<lambda>_ w. v w = c \<or> (\<exists>a \<in> vChunks c. \<exists>b \<in> vChunks c. ckUpper a = ckLower b \<and> v w = mergeAt a b c)) (\<lambda>_. False)"
  (is "hoare _ _ ?Q _")
  unfolding merge_mergeChunks_def
proof (rule sees_then [OF sees_getPrimary [OF assms(1) insertI1]],
    rule sees_then [OF partitionD(3) [OF assms(2,4,5), unfolded keyVal.simps]], simp, rule hoare_if)
  fix config inner assume config: "config \<in> set (ccConfig cc) \<inter> primaries"
    and inner: "length inner = card (chunksIn (Key (pLower p)) (Key (pUpper p)) c)" and two: "\<not> length inner < 2"
  have "finite (vChunks c)" using assms(4) by (simp add: wfView_def)
  then have "card (chunksIn (Key (pLower p)) (Key (pUpper p)) c) \<le> card (vChunks c)" by (rule card_mono) (auto simp: chunksIn_def)
  with inner two have two: "card (vChunks c) \<ge> 2" by simp
  have same: "ckShard a = ckShard b" if "a \<in> vChunks c" "b \<in> vChunks c" for a b using assms(6) that by auto
  show "hoare (\<lambda>w. v w = c) (bindE (merge_choose env p config) (\<lambda>(chunk1, chunk2). merge_chosen env attempts cc p config chunk1 chunk2)) ?Q (\<lambda>_. False)"
    by (rule sees_then [OF sees_merge_choose [OF assms(1,2,4) two config]])
      (auto intro!: hoare_weaken [OF merge_rest [OF assms(1-4) _ _ _ same config]])
qed (auto intro: hoare_ret)

lemma move_changes:
  assumes "steadyCluster env cc primaries v" and "moveLaw env cc primaries p v" and "wfView cc p c"
    and "ch \<in> vChunks c" and "s \<in> fst ` set (ccShards cc) - {ckShard ch}"
  shows "hoare (\<lambda>w. v w = c) (moveChunk env (idBounds (keyVal (ckLower ch)) (keyVal (ckUpper ch))) (JStr s) (JBool wait))
    (\<lambda>res w. if truthy (fld res ''ok'') then v w = moveTo ch s wait c else v w = c) (\<lambda>_. False)"
proof -
  have "changes env v c (moveChunkCmd env (idBounds (keyVal (ckLower ch)) (keyVal (ckUpper ch))) (JStr s) (JBool wait))
      [''ConflictingOperationInProgress'', ''ChunkRangeCleanupPending''] (\<lambda>c'. c' = moveTo ch s wait c)"
    using assms(2-5) by (simp add: moveLaw_def)
  from retry_changes [OF assms(1) this, of Undef] show ?thesis
    by (simp add: moveChunk_def ch_runCommandWithRetries_def fld_def)
qed

lemma sees_checkChunkOwner:
  assumes "partitionLaws env cc primaries p doc v" and "wfView cc p c" and "conn \<in> set (ccConfig cc) \<inter> primaries \<union> set (ccMongos cc)"
    and "ch' \<in> vChunks c" and "ckLower ch' = ckLower ch"
  shows "sees v c (checkChunkOwner env conn (doc ch) (JStr (ckShard ch'))) (\<lambda>_. True)"
proof -
  have found: "sees v c (chFindOne env conn (JObj [(''_id'', fld (doc ch) ''_id'')])) (\<lambda>x. x = doc ch')"
    using assms by (auto simp: partitionLaws_def chunkLaws_def)
  have "doc ch' \<noteq> Undef \<and> doc ch' \<noteq> Null" using describesD(1) [OF assms(1), of ch'] by (auto simp: boundOf_def get_prop_def)
  then have shard: "get_prop (doc ch') ''shard'' = Inr (JStr (ckShard ch'))" using describesD(3) [OF assms(1), of ch'] by simp
  show ?thesis unfolding checkChunkOwner_def
    by (rule sees_bindE [OF found]) (simp only: shard bind_Inr, rule sees_own, simp add: strict_eq_def)
qed

text \<open>The checks after a move: \<open>ch'\<close> is the chunk as it is now, on the shard that should own it.\<close>

lemma sees_owner_checks:
  assumes "steadyCluster env cc primaries v" and "partitionLaws env cc primaries p doc v" and "wfView cc p c"
    and ch: "ch' \<in> vChunks c" "ckLower ch' = ckLower ch" "ckUpper ch' = ckUpper ch"
    and "n = card (docsIn (ckLower ch) (ckUpper ch) c)" and "k = card (vChunks c)"
  shows "sees v c (onMasters env (\<lambda>conn. seqE (checkChunkOwner env conn (doc ch) (JStr (ckShard ch')))
       (bindE (chunksInPartition env p conn) (\<lambda>numChunksAfter. assertWhenOwnColl env (k = numChunksAfter) msg))) (ccConfig cc)) (\<lambda>_. True)"
    and "sees v c (forEachE (\<lambda>mongos. seqE (checkRange env mongos (keyVal (ckLower ch)) (keyVal (ckUpper ch)) n (JStr (ckShard ch')))
       (checkChunkOwner env mongos (doc ch) (JStr (ckShard ch')))) (ccMongos cc)) (\<lambda>_. True)"
proof -
  note owner = sees_checkChunkOwner [OF assms(2,3) _ ch(1,2)]
  show "sees v c (onMasters env (\<lambda>conn. seqE (checkChunkOwner env conn (doc ch) (JStr (ckShard ch')))
      (bindE (chunksInPartition env p conn) (\<lambda>numChunksAfter. assertWhenOwnColl env (k = numChunksAfter) msg))) (ccConfig cc)) (\<lambda>_. True)"
    by (intro sees_onMasters [OF assms(1)] sees_seqE [OF owner] sees_bindE [OF sees_chunksInPartition [OF assms(1-3)]] sees_own)
      (simp_all add: assms(8))
  have range: "ranges p (ckLower ch) (ckUpper ch)" "shardsIn (ckLower ch) (ckUpper ch) c = {ckShard ch'}"
    using ranges_chunk [OF assms(3) ch(1)] shardsIn_self [OF assms(3) ch(1)] ch(2,3) by simp_all
  show "sees v c (forEachE (\<lambda>mongos. seqE (checkRange env mongos (keyVal (ckLower ch)) (keyVal (ckUpper ch)) n (JStr (ckShard ch')))
      (checkChunkOwner env mongos (doc ch) (JStr (ckShard ch')))) (ccMongos cc)) (\<lambda>_. True)"
    by (intro sees_forEachE sees_seqE [OF sees_checkRange [OF assms(1-3) range(1) _ range(2) assms(7)] owner]) simp_all
qed

text \<open>The documents the two shards of a move hold: the owner has all of them, and the former owner none if the deletion was waited for.\<close>

lemma sees_move_counts:
  assumes "steadyCluster env cc primaries v" and "partitionLaws env cc primaries p doc v" and "wfView cc p c" and range: "ranges p lower upper"
    and fromConns: "map_of (ccShards cc) fromS = Some fs" and toConns: "map_of (ccShards cc) toS = Some ts"
    and n: "n = card (docsIn lower upper c)"
    and ok: "if ok then shardsIn lower upper c = {toS} \<and> fromS \<noteq> toS \<and> (wait \<longrightarrow> {i \<in> vResidue c fromS. inRange lower upper i} = {})
      else shardsIn lower upper c = {fromS}" and k: "sees v c k P"
  shows "sees v c (bindE (shardPrimary env attempts cc (JStr fromS)) (\<lambda>fromShardPrimary.
     bindE (shardPrimary env attempts cc (JStr toS)) (\<lambda>toShardPrimary.
     bindE (getNumDocs env fromShardPrimary (keyVal lower) (keyVal upper)) (\<lambda>fromShardNumDocsAfter.
     bindE (getNumDocs env toShardPrimary (keyVal lower) (keyVal upper)) (\<lambda>toShardNumDocsAfter.
     seqE (if ok
           then seqE (if wait then assertWhenOwnColl env (fromShardNumDocsAfter = 0) msg1 else ret ())
               (assertWhenOwnColl env (toShardNumDocsAfter = n) msg2)
           else assertWhenOwnColl env (fromShardNumDocsAfter = n) msg3) k))))) P"
proof -
  note count = partitionD(2) [OF assms(2,3) range]
  have check: "sees v c (if ok then seqE (if wait then assertWhenOwnColl env (f = 0) msg1 else ret ()) (assertWhenOwnColl env (t = n) msg2)
      else assertWhenOwnColl env (f = n) msg3) (\<lambda>_. True)"
    if "(shardsIn lower upper c = {fromS} \<longrightarrow> f = card (docsIn lower upper c)) \<and>
        (fromS \<notin> shardsIn lower upper c \<longrightarrow> f \<le> card {i \<in> vResidue c fromS. inRange lower upper i})"
      and "(shardsIn lower upper c = {toS} \<longrightarrow> t = card (docsIn lower upper c)) \<and>
        (toS \<notin> shardsIn lower upper c \<longrightarrow> t \<le> card {i \<in> vResidue c toS. inRange lower upper i})" for f t
    using that ok n by (cases ok; cases wait) (auto intro!: sees_seqE [OF sees_own] sees_own sees_ret)
  show ?thesis
    by (intro sees_bindE [OF sees_shardPrimary [OF assms(1) fromConns]] sees_bindE [OF sees_shardPrimary [OF assms(1) toConns]]
        sees_bindE [OF count [OF fromConns]] sees_bindE [OF count [OF toConns]] sees_seqE [OF check] k) assumption+
qed

lemma sees_move_checks:
  assumes "steadyCluster env cc primaries v" and "partitionLaws env cc primaries p doc v" and "wfView cc p c"
    and ch: "ch \<in> vChunks c" and s: "s \<in> fst ` set (ccShards cc) - {ckShard ch}"
    and c': "if ok then c' = moveTo ch s wait c else c' = c"
  shows "sees v c' (move_checks env attempts cc p (doc ch) (keyVal (ckLower ch)) (keyVal (ckUpper ch)) (JStr (ckShard ch)) (JStr s) wait
      (card (docsIn (ckLower ch) (ckUpper ch) c)) (card (vChunks c)) ok) (\<lambda>_. True)"
proof -
  have s': "s \<in> fst ` set (ccShards cc)" using s by blast
  obtain fs where fs: "map_of (ccShards cc) (ckShard ch) = Some fs" using wfViewD(4) [OF assms(3) ch] by blast
  obtain ts where ts: "map_of (ccShards cc) s = Some ts" using s' by (metis map_of_eq_None_iff option.exhaust)
  note moved = moveTo_counts [OF assms(3) ch s']
  have wf': "wfView cc p c'" using c' assms(3) moveTo_wf [OF assms(3) ch s'] by (simp split: if_splits)
  have same: "card (docsIn (ckLower ch) (ckUpper ch) c) = card (docsIn (ckLower ch) (ckUpper ch) c')" "card (vChunks c) = card (vChunks c')"
    using c' moved(1,3) by (simp_all split: if_splits)
  define ch' where "ch' = (if ok then ch\<lparr>ckShard := s\<rparr> else ch)"
  have now: "ch' \<in> vChunks c'" "ckLower ch' = ckLower ch" "ckUpper ch' = ckUpper ch"
    using c' ch by (auto simp: ch'_def moveTo_def split: if_splits)
  have owner: "(if ok then JStr s else JStr (ckShard ch)) = JStr (ckShard ch')" by (simp add: ch'_def)
  have shards: "if ok then shardsIn (ckLower ch) (ckUpper ch) c' = {s} \<and> ckShard ch \<noteq> s \<and>
        (wait \<longrightarrow> {i \<in> vResidue c' (ckShard ch). inRange (ckLower ch) (ckUpper ch) i} = {})
      else shardsIn (ckLower ch) (ckUpper ch) c' = {ckShard ch}"
    using c' s moved(2,4) shardsIn_self [OF assms(3) ch] by (auto split: if_splits)
  show ?thesis
    unfolding move_checks_def Let_def owner
    by (intro sees_move_counts [OF assms(1,2) wf' ranges_chunk [OF assms(3) ch] fs ts same(1) shards]
        sees_seqE [OF sees_owner_checks(1) [OF assms(1,2) wf' now same]] sees_owner_checks(2) [OF assms(1,2) wf' now same])
qed

lemma move_operation:
  assumes "steadyCluster env cc primaries v" and "partitionLaws env cc primaries p doc v" and "moveLaw env cc primaries p v" and "wfView cc p c"
    and ch: "ch \<in> vChunks c" and s: "s \<in> fst ` set (ccShards cc) - {ckShard ch}"
  shows "hoare (\<lambda>w. v w = c)
    (move_apply env attempts cc p (doc ch) (keyVal (ckLower ch)) (keyVal (ckUpper ch)) (JStr (ckShard ch)) (JStr s) wait
      (card (docsIn (ckLower ch) (ckUpper ch) c)) (card (vChunks c)))
    (\<lambda>_ w. v w = c \<or> v w = moveTo ch s wait c) (\<lambda>_. False)"
  unfolding move_apply_def
  by (rule view_bindE [where K = "\<lambda>res c'. if truthy (fld res ''ok'') then c' = moveTo ch s wait c else c' = c", OF move_changes [OF assms(1,3,4) ch s]])
    (rule sees_post [OF sees_move_checks [OF assms(1,2,4) ch s]], auto split: if_splits)

lemma destinations:
  assumes "severalShards cc"
  shows "destinationShards cc (JStr s) \<noteq> []" "set (destinationShards cc (JStr s)) = fst ` set (ccShards cc) - {s}"
proof -
  show dest: "set (destinationShards cc (JStr s)) = fst ` set (ccShards cc) - {s}"
    using assms by (auto simp: destinationShards_def severalShards_def strict_eq_def image_iff)
  have "card (fst ` set (ccShards cc)) > 1" using assms distinct_card [of "map fst (ccShards cc)"] by (simp add: severalShards_def)
  then have "\<not> fst ` set (ccShards cc) \<subseteq> {s}" using card_mono [of "{s}" "fst ` set (ccShards cc)"] by auto
  then show "destinationShards cc (JStr s) \<noteq> []" using dest by (metis Diff_eq_empty_iff empty_set)
qed

lemma moveD:
  assumes "moveLaw env cc primaries p v"
  shows "conn \<in> set (ccConfig cc) \<inter> primaries \<Longrightarrow> sees v c (chFindShards env conn) (\<lambda>xs. length xs = length (ccShards cc))"
    and "sees v c (chRand env) (\<lambda>_. True)"
  using assms by (simp_all add: moveLaw_def)

lemma move_rest:
  assumes "steadyCluster env cc primaries v" and "partitionLaws env cc primaries p doc v" and "moveLaw env cc primaries p v" and "wfView cc p c" and "severalShards cc"
    and ch: "ch \<in> vChunks c" and config: "config \<in> set (ccConfig cc) \<inter> primaries"
  shows "hoare (\<lambda>w. v w = c) (move_chosen env attempts cc p config (doc ch))
    (\<lambda>_ w. v w = c \<or> (\<exists>s wait. s \<in> fst ` set (ccShards cc) - {ckShard ch} \<and> v w = moveTo ch s wait c)) (\<lambda>_. False)"
proof -
  let ?shards = "destinationShards cc (JStr (ckShard ch))"
  note dest = destinations [OF assms(5), of "ckShard ch"]
  have "doc ch \<noteq> Undef \<and> doc ch \<noteq> Null" using describesD(1) [OF assms(2), of ch] by (auto simp: boundOf_def get_prop_def)
  then have shard: "get_prop (doc ch) ''shard'' = Inr (JStr (ckShard ch))" using describesD(3) [OF assms(2), of ch] by simp
  have go: "hoare (\<lambda>w. v w = c) (move_apply env attempts cc p (doc ch) (keyVal (ckLower ch)) (keyVal (ckUpper ch)) (JStr (ckShard ch))
      (if i < length ?shards then JStr (?shards ! i) else Undef) wait n k)
      (\<lambda>_ w. v w = c \<or> (\<exists>s wait. s \<in> fst ` set (ccShards cc) - {ckShard ch} \<and> v w = moveTo ch s wait c)) (\<lambda>_. False)"
    if i: "i < length ?shards" and n: "n = card (docsIn (ckLower ch) (ckUpper ch) c)" and k: "k = card (vChunks c)" for i wait n k
  proof -
    have s: "?shards ! i \<in> fst ` set (ccShards cc) - {ckShard ch}" using nth_mem [OF i] dest(2) by simp
    show ?thesis unfolding if_P [OF i] n k by (rule hoare_weaken [OF move_operation [OF assms(1-4) ch s]]) (use s in \<open>blast+\<close>)
  qed
  have pos: "length ?shards > 0" using dest(1) by simp
  show ?thesis
    unfolding move_chosen_def Let_def shard describesD(1,2) [OF assms(2)] bind_Inr
    by (intro sees_then [OF steadyD(8) [OF assms(1) pos]] sees_then [OF sees_getRandomMongos [OF assms(1)]]
        sees_then [OF partitionD(1) [OF assms(2,4) ranges_chunk [OF assms(4) ch]]] sees_then [OF sees_chunksInPartition [OF assms(1,2,4)]]
        sees_then [OF moveD(2) [OF assms(3)]] go) (use config in auto)
qed

lemma move_state:
  assumes "steadyCluster env cc primaries v" and "partitionLaws env cc primaries p doc v" and "moveLaw env cc primaries p v" and "wfView cc p c" and "severalShards cc"
  shows "hoare (\<lambda>w. v w = c) (move_moveChunk env attempts cc p)
    (\<lambda>_ w. v w = c \<or> (\<exists>ch \<in> vChunks c. \<exists>s wait. s \<in> fst ` set (ccShards cc) - {ckShard ch} \<and> v w = moveTo ch s wait c)) (\<lambda>_. False)"
  unfolding move_moveChunk_def
  by (intro sees_then [OF sees_getPrimary [OF assms(1) insertI1]] sees_then [OF moveD(1) [OF assms(3)]]
      sees_then_seqE [OF sees_assertE] sees_then [OF sees_getRandomChunk [OF assms(1,2,4)]])
    (use assms(5) in \<open>auto simp: severalShards_def intro!: hoare_weaken [OF move_rest [OF assms]]\<close>)

section \<open>Properties\<close>

lemma never_fails: "hoare I m Q (\<lambda>_. False) \<Longrightarrow> I w \<Longrightarrow> m w = (r, w') \<Longrightarrow> r \<noteq> Diverge \<Longrightarrow> \<exists>x. r = Val x \<and> Q x w'"
  by (cases r) (force simp: hoare_def)+

text \<open>
  The split workload accepts every correct cluster whose roles are steady.  If the servers keep their roles while the state runs, the
  mongos and the primaries answer about the thread's partition according to its view, and a chunk is split or a busy lock reported,
  then a run of the state that ends fails no assertion, whatever the assertion level and whatever the secondaries answer; it leaves the
  chunks of the partition well formed, and either changes nothing or splits one chunk in two.\<close>

theorem split_state_passes:
  assumes "steadyCluster env cc primaries v" and "partitionLaws env cc primaries p doc v" and "splitLaw env cc p v" and "wfView cc p (v w)"
    and "split_splitChunk env attempts cc p w = (r, w')" and "r \<noteq> Diverge"
  shows "r = Val () \<and> wfView cc p (v w') \<and>
    (v w' = v w \<or> (\<exists>ch \<in> vChunks (v w). \<exists>m. ckLower ch < m \<and> m < ckUpper ch \<and> v w' = splitAt ch m (v w)))"
  using never_fails [OF split_state [OF assms(1-4)] refl assms(5,6)] assms(4) by (auto intro: splitAt_wf)

text \<open>
  The merge workload accepts every correct cluster with steady roles that keeps a partition on one shard: a run of the state that ends
  fails no assertion and either changes nothing or joins two neighbours of the partition.\<close>

theorem merge_state_passes:
  assumes "steadyCluster env cc primaries v" and "partitionLaws env cc primaries p doc v" and "mergeLaw env cc p v" and "wfView cc p (v w)"
    and "ranges p (Key (pLower p)) (Key (pUpper p))" and "ckShard ` vChunks (v w) \<subseteq> {s}"
    and "merge_mergeChunks env attempts cc p w = (r, w')" and "r \<noteq> Diverge"
  shows "r = Val () \<and> wfView cc p (v w') \<and>
    (v w' = v w \<or> (\<exists>a \<in> vChunks (v w). \<exists>b \<in> vChunks (v w). ckUpper a = ckLower b \<and> v w' = mergeAt a b (v w)))"
  using never_fails [OF merge_state [OF assms(1-6)] refl assms(7,8)] assms(4) by (auto intro: mergeAt_wf)

text \<open>
  C40. The move workload accepts every correct cluster with steady roles and several shards of distinct non-empty names.  Relied on are: the
  chunks of the partition tile it when the state begins; the set of primaries does not
  change while the state runs, every replica set has one and \<open>isMaster\<close> tells it; every mongos and every primary, but no secondary,
  answers reads about the thread's partition according to its view; no other thread changes that view; and \<open>moveChunk\<close> either moves the
  chunk or fails with one of the two tolerated codes and changes nothing.  Then a run of the state that ends fails no assertion, whether
  or not it waits for the deletion of the documents, and either changes nothing or gives one chunk of the partition to another shard.\<close>

theorem move_state_passes:
  assumes "steadyCluster env cc primaries v" and "partitionLaws env cc primaries p doc v" and "moveLaw env cc primaries p v" and "wfView cc p (v w)"
    and "severalShards cc" and "move_moveChunk env attempts cc p w = (r, w')" and "r \<noteq> Diverge"
  shows "r = Val () \<and> wfView cc p (v w') \<and>
    (v w' = v w \<or> (\<exists>ch \<in> vChunks (v w). \<exists>s wait. s \<in> fst ` set (ccShards cc) - {ckShard ch} \<and> v w' = moveTo ch s wait (v w)))"
  using never_fails [OF move_state [OF assms(1-5)] refl assms(6,7)] assms(4) by (auto intro!: moveTo_wf) force

text \<open>Merging the two halves of a split gives the view back.\<close>

lemma merge_undoes_split:
  assumes "wfView cc p c" and "ch \<in> vChunks c" and "ckLower ch < m" and "m < ckUpper ch"
  shows "mergeAt (ch\<lparr>ckUpper := m\<rparr>) (ch\<lparr>ckLower := m\<rparr>) (splitAt ch m c) = c"
proof -
  let ?a = "ch\<lparr>ckUpper := m\<rparr>" and ?b = "ch\<lparr>ckLower := m\<rparr>"
  have "?a \<notin> vChunks c - {ch}" "?b \<notin> vChunks c - {ch}"
    using inj_onD [OF bounds_inj(1) [OF assms(1)], of ?a ch] inj_onD [OF bounds_inj(2) [OF assms(1)], of ?b ch] assms(2) by auto
  then have "vChunks c - {ch} \<union> {?a, ?b} - {?a, ?b} \<union> {ch} = vChunks c" using assms(2) by blast
  then show ?thesis by (simp add: mergeAt_def splitAt_def)
qed

text \<open>
  The move inside the merge state never succeeds on a cluster that rejects bounds that are not an array: the call passes the lower
  bound alone.\<close>

theorem merge_across_shards_fails:
  assumes "\<And>bounds shard w. \<not> is_array bounds \<Longrightarrow> \<exists>res w'. chAdmin env (moveChunkCmd env bounds shard (JBool True)) w = (Val res, w') \<and>
      \<not> truthy (fld res ''ok'') \<and> \<not> list_ex (strict_eq (fld res ''code''))
        [errorCode (chShell env) ''ConflictingOperationInProgress'', errorCode (chShell env) ''ChunkRangeCleanupPending'']"
    and "compareTo OWN_COLL (chLevel env) \<le> 0" and "boundOf chunk2 ''min'' = Inr (keyVal k)"
    and "\<not> strict_eq (fld chunk2 ''shard'') (fld chunk1 ''shard'')"
  shows "merge_chosen env attempts cc p config chunk1 chunk2 w \<noteq> (Val (), w')"
proof -
  have array: "\<not> is_array (keyVal k)" by (cases k) simp_all
  have "moveChunk env (keyVal k) shard (JBool True) w0 \<noteq> (Val x, w1)" for shard w0 x w1
  proof -
    obtain res w2 where "chAdmin env (moveChunkCmd env (keyVal k) shard (JBool True)) w0 = (Val res, w2)" "\<not> truthy (fld res ''ok'')"
      "\<not> list_ex (strict_eq (fld res ''code''))
        [errorCode (chShell env) ''ConflictingOperationInProgress'', errorCode (chShell env) ''ChunkRangeCleanupPending'']"
      using assms(1) [OF array] by blast
    moreover have retries: "MAX_RETRIES = Suc 4" by (simp add: MAX_RETRIES_def)
    ultimately show ?thesis using assms(2) unfolding moveChunk_def ch_runCommandWithRetries_def retries chunkRetryLoop.simps
      by (simp add: bindE_Val seqE_Val liftE_Val assertWhenOwnColl_def assertE_Val)
  qed
  with assms(3,4) show ?thesis by (auto simp: merge_chosen_def bindE_Val seqE_Val liftE_Val Let_def)
qed

section \<open>A cluster for concrete runs\<close>

text \<open>
  Two shards and the config servers, each a replica set with a secondary that has seen nothing yet, and one mongos, with four documents
  and one partition that is the whole collection.  The world is the list of chunks and the list of documents left behind on a shard.
\<close>

type_synonym cworld = "chunk list \<times> (string \<times> int) list"

definition exDocs :: "int list" where "exDocs = [0, 1, 2, 3]"

definition exView :: "cworld \<Rightarrow> partView" where
  "exView w = \<lparr>vChunks = set (fst w), vDocs = set exDocs, vResidue = (\<lambda>s. {i. (s, i) \<in> set (snd w)})\<rparr>"

definition exCache :: connCache where
  "exCache = \<lparr>ccMongos = [''m''], ccConfig = [''d'', ''c''], ccShards = [(''a'', [''x'', ''a'']), (''b'', [''b'', ''y''])]\<rparr>"

definition exPrimaries :: "string set" where "exPrimaries = {''a'', ''b'', ''c''}"

definition exDoc :: "chunk \<Rightarrow> jsval" where
  "exDoc ch = JObj [(''_id'', keyVal (ckLower ch)), (''min'', JObj [(''_id'', keyVal (ckLower ch))]), (''max'', JObj [(''_id'', keyVal (ckUpper ch))]),
     (''shard'', JStr (ckShard ch))]"

definition exPart :: partition where
  "exPart = \<lparr>pNs = ''t.c'', pLower = 0, pUpper = 4, isLowChunk = True, isHighChunk = True, chunkLower = MinKey, chunkUpper = MaxKey\<rparr>"

definition elemAt :: "jsval \<Rightarrow> nat \<Rightarrow> jsval" where
  "elemAt v i = (if i < length (arr_elems v) then arr_elems v ! i else Undef)"

definition lowOf :: "jsval \<Rightarrow> key" where "lowOf q = valKey (fld (fld (elemAt (fld q ''$and'') 0) ''_id'') ''$gte'')"

definition highOf :: "jsval \<Rightarrow> key" where
  "highOf q = (let u = fld (elemAt (fld q ''$and'') 1) ''_id'' in
     if has_own u ''$lt'' then valKey (fld u ''$lt'')
     else case to_number (fld u ''$lte'') of Fin r \<Rightarrow> Key (\<lfloor>r\<rfloor> + 1) | _ \<Rightarrow> MinKey)"

definition exShards :: "key \<Rightarrow> key \<Rightarrow> chunk list \<Rightarrow> string list" where
  "exShards lower upper cs = remdups (map ckShard (filter (meets lower upper) cs))"

definition exCount :: "string \<Rightarrow> jsval \<Rightarrow> cworld \<Rightarrow> nat" where
  "exCount conn q w =
     (if conn \<noteq> ''m'' \<and> conn \<notin> set (exShards (lowOf q) (highOf q) (fst w)) then 0
      else length (filter (inRange (lowOf q) (highOf q)) exDocs))"

definition exFind :: "jsval \<Rightarrow> cworld \<Rightarrow> jsval list" where
  "exFind q w = map exDoc (filter (\<lambda>ch. valKey (fld (fld q ''min._id'') ''$gte'') \<le> ckLower ch \<and> ckUpper ch \<le> valKey (fld (fld q ''max._id'') ''$lte''))
     (remdups (fst w)))"

definition exFindOne :: "jsval \<Rightarrow> cworld \<Rightarrow> jsval" where
  "exFindOne q w =
     (case find (\<lambda>ch. if has_own q ''max._id'' then keyVal (ckUpper ch) = fld q ''max._id''
                     else keyVal (ckLower ch) = (if has_own q ''_id'' then fld q ''_id'' else fld q ''min._id'')) (fst w) of
        Some ch \<Rightarrow> exDoc ch | None \<Rightarrow> Null)"

definition exExplain :: "jsval \<Rightarrow> cworld \<Rightarrow> jsval" where
  "exExplain q w = JObj [(''ok'', jnum 1), (''queryPlanner'', JObj [(''winningPlan'', JObj [(''shards'',
     JArr (map (\<lambda>s. JObj [(''shardName'', JStr s)]) (exShards (lowOf q) (highOf q) (fst w))))])])]"

fun midKey :: "key \<Rightarrow> key \<Rightarrow> key option" where
  "midKey (Key i) (Key j) = (if i + 1 < j then Some (Key (i + 1)) else None)"
| "midKey (Key i) MaxKey = Some (Key (i + 1))"
| "midKey MinKey (Key j) = Some (Key (j - 1))"
| "midKey MinKey MaxKey = Some (Key 2)"
| "midKey _ _ = None"

definition exAdmin :: "jsval \<Rightarrow> cworld \<Rightarrow> jsval outcome \<times> cworld" where
  "exAdmin cmd w = (let bounds = fld cmd ''bounds''; cs = fst w; yes = Val (JObj [(''ok'', jnum 1)]); no = (Val (JObj [(''ok'', jnum 0)]), w);
       low = find (\<lambda>ch. keyVal (ckLower ch) = fld (elemAt bounds 0) ''_id'') cs;
       high = find (\<lambda>ch. keyVal (ckUpper ch) = fld (elemAt bounds 1) ''_id'') cs in
     case (low, high) of
       (Some a, Some b) \<Rightarrow>
         if has_own cmd ''split'' then (case midKey (ckLower a) (ckUpper a) of
             Some m \<Rightarrow> (yes, ([a\<lparr>ckUpper := m\<rparr>, a\<lparr>ckLower := m\<rparr>] @ filter (\<lambda>ch. ch \<noteq> a) cs, snd w))
           | None \<Rightarrow> no)
         else if has_own cmd ''mergeChunks'' then (yes, ([a\<lparr>ckUpper := ckUpper b\<rparr>] @ filter (\<lambda>ch. ch \<notin> {a, b}) cs, snd w))
         else (case fld cmd ''to'' of
             JStr s \<Rightarrow> (yes, ([a\<lparr>ckShard := s\<rparr>] @ filter (\<lambda>ch. ch \<noteq> a) cs,
               (if truthy (fld cmd ''_waitForDelete'') then filter (\<lambda>(t, i). \<not> (t = ckShard a \<and> inRange (ckLower a) (ckUpper a) i)) (snd w)
                else snd w @ map (Pair (ckShard a)) (filter (inRange (ckLower a) (ckUpper a)) exDocs))))
           | _ \<Rightarrow> no)
     | _ \<Rightarrow> no)"

definition exCluster :: "cworld chEnv" where
  "exCluster = \<lparr>chShell = exampleShell, chLevel = OWN_DB, chFullName = ''t.c'', chAdmin = exAdmin,
     chSleep = (\<lambda>_. ret ()), chAdminOn = (\<lambda>conn _. ret (JObj [(''ok'', jnum 1), (''ismaster'', JBool (conn \<in> exPrimaries))])),
     chIsMongos = (\<lambda>conn. ret (conn = ''m'')), chIsConfigsvr = (\<lambda>conn. ret (conn \<in> {''c'', ''d''})),
     chExplain = (\<lambda>_ q. getE (exExplain q)), chCountDocs = (\<lambda>conn q. getE (exCount conn q)), chFindChunks = (\<lambda>conn q. if conn = ''d'' then ret [] else getE (exFind q)),
     chFindOne = (\<lambda>conn q. if conn = ''d'' then ret Null else getE (exFindOne q)), chFindShards = (\<lambda>conn. ret (if conn = ''d'' then [] else [Undef, Undef])),
     chSampleChunk = (\<lambda>conn _. getE (\<lambda>w. if conn = ''d'' then Undef else case fst w of [] \<Rightarrow> Undef | ch # _ \<Rightarrow> exDoc ch)),
     chDatabase = ret (JObj [(''partitioned'', JBool True)]), chBulkInsert = (\<lambda>_. ret (JObj [(''ok'', jnum 1)])),
     chRandInt = (\<lambda>_. ret 0), chRand = ret 0\<rparr>"

definition exStart :: cworld where "exStart = ([\<lparr>ckLower = MinKey, ckUpper = MaxKey, ckShard = ''a''\<rparr>], [])"

lemma sees_getE: "(\<And>w. v w = c \<Longrightarrow> P (g w)) \<Longrightarrow> sees v c (getE g) P"
  by (simp add: sees_def hoare_getE)

lemmas query_simps = lowOf_def highOf_def rangeQuery_def elemAt_def fld_def has_own_def obj_keys_def Let_def

lemma exCluster_steady: "steadyCluster exCluster exCache exPrimaries exView"
  by (auto simp: steadyCluster_def exCluster_def exCache_def exPrimaries_def exampleShell_commandWorked validNamespace_def response_failed_def query_simps
      intro!: sees_ret)

lemma valKey_keyVal [simp]: "valKey (keyVal k) = k"
  by (cases k) (simp_all add: valKey_def)

lemma range_bounds:
  "lowOf (rangeQuery (keyVal lower) ''$lt'' (keyVal upper)) = lower" "highOf (rangeQuery (keyVal lower) ''$lt'' (keyVal upper)) = upper"
  by (simp_all add: query_simps)

lemma shards_bounds:
  assumes "lower < upper"
  shows "lowOf (shardsQuery (keyVal lower) (keyVal upper)) = lower" and "highOf (shardsQuery (keyVal lower) (keyVal upper)) = upper"
proof -
  show "lowOf (shardsQuery (keyVal lower) (keyVal upper)) = lower" by (simp add: shardsQuery_def query_simps)
  show "highOf (shardsQuery (keyVal lower) (keyVal upper)) = upper"
  proof (cases upper)
    case MinKey
    then show ?thesis using assms by (cases lower) simp_all
  next
    case (Key i)
    then show ?thesis by (simp add: shardsQuery_def query_simps)
  next
    case MaxKey
    then show ?thesis by (simp add: shardsQuery_def query_simps valKey_def)
  qed
qed

lemma exShards_spec: "distinct (exShards lower upper (fst w))" "set (exShards lower upper (fst w)) = shardsIn lower upper (exView w)"
  by (auto simp: exShards_def shardsIn_def exView_def)

lemma exDocs_count: "length (filter (inRange lower upper) exDocs) = card (docsIn lower upper (exView w))"
proof -
  have "distinct (filter (inRange lower upper) exDocs)" by (simp add: exDocs_def)
  from distinct_card [OF this] show ?thesis by (simp add: docsIn_def exView_def)
qed

lemma exCount_spec:
  "exCount ''m'' (rangeQuery (keyVal lower) ''$lt'' (keyVal upper)) w = card (docsIn lower upper (exView w))"
  "s \<noteq> ''m'' \<Longrightarrow> exCount s (rangeQuery (keyVal lower) ''$lt'' (keyVal upper)) w =
     (if s \<in> shardsIn lower upper (exView w) then card (docsIn lower upper (exView w)) else 0)"
  by (simp_all add: exCount_def range_bounds exShards_spec(2) exDocs_count [of lower upper w])

lemma exCluster_counts: "countLaws exCluster exCache exPrimaries exPart exView c"
proof -
  have "sees exView c (getE (exCount s (rangeQuery (keyVal lower) ''$lt'' (keyVal upper))))
      (\<lambda>n. (shardsIn lower upper c = {s} \<longrightarrow> n = card (docsIn lower upper c)) \<and>
           (s \<notin> shardsIn lower upper c \<longrightarrow> n \<le> card {i \<in> vResidue c s. inRange lower upper i}))" if "s \<noteq> ''m''" for s lower upper
    by (rule sees_getE) (auto simp: exCount_spec(2) [OF that])
  moreover have "sees exView c (getE (exCount ''m'' (rangeQuery (keyVal lower) ''$lt'' (keyVal upper)))) (\<lambda>n. n = card (docsIn lower upper c))" for lower upper
    by (rule sees_getE) (simp add: exCount_spec(1))
  ultimately show ?thesis by (simp add: countLaws_def exCluster_def exCache_def exPrimaries_def)
qed

lemma exFind_eq:
  "exFind (chunkQuery ns (keyVal lower) (keyVal upper)) w =
     map exDoc (filter (\<lambda>ch. lower \<le> ckLower ch \<and> ckUpper ch \<le> upper) (remdups (fst w)))"
  by (simp add: exFind_def chunkQuery_def fld_def)

lemma exFind_count:
  "length (exFind (chunkQuery ns (keyVal lower) (keyVal upper)) w) = card (chunksIn lower upper (exView w))"
proof -
  let ?found = "filter (\<lambda>ch. lower \<le> ckLower ch \<and> ckUpper ch \<le> upper) (remdups (fst w))"
  have "chunksIn lower upper (exView w) = set ?found" by (auto simp: chunksIn_def exView_def)
  moreover have "card (set ?found) = length ?found" by (rule distinct_card) simp
  ultimately show ?thesis by (simp add: exFind_eq)
qed

lemma find_only:
  assumes "x \<in> set xs" and "P x" and "\<And>y. y \<in> set xs \<Longrightarrow> P y \<Longrightarrow> y = x"
  shows "find P xs = Some x"
proof (cases "find P xs")
  case None
  with assms(1,2) show ?thesis by (simp add: find_None_iff)
next
  case (Some y)
  then have "y \<in> set xs" "P y" by (auto simp: find_Some_iff)
  with assms(3) Some show ?thesis by simp
qed

lemma find_bound:
  assumes "wfView cc p (exView w)" and "ch \<in> vChunks (exView w)"
  shows "find (\<lambda>x. ckLower x = ckLower ch) (fst w) = Some ch" "find (\<lambda>x. ckUpper x = ckUpper ch) (fst w) = Some ch"
proof -
  have mem: "set (fst w) = vChunks (exView w)" by (simp add: exView_def)
  show "find (\<lambda>x. ckLower x = ckLower ch) (fst w) = Some ch" "find (\<lambda>x. ckUpper x = ckUpper ch) (fst w) = Some ch"
    using bounds_inj [OF assms(1)] assms(2) by (auto intro!: find_only simp: mem inj_on_def)
qed

lemma exFindOne_finds:
  assumes "wfView cc p (exView w)" and "ch \<in> vChunks (exView w)"
  shows "exFindOne (JObj [(''_id'', keyVal (ckLower ch))]) w = exDoc ch"
    and "exFindOne (JObj [(''ns'', ns), (''max._id'', keyVal (ckUpper ch))]) w = exDoc ch"
    and "exFindOne (JObj [(''ns'', ns), (''min._id'', keyVal (ckLower ch))]) w = exDoc ch"
  using find_bound [OF assms] by (simp_all add: exFindOne_def query_simps)

lemma exExplain_spec:
  assumes "lower < upper"
  shows "\<not> response_failed (exExplain (shardsQuery (keyVal lower) (keyVal upper)) w)"
    and "planShards (exExplain (shardsQuery (keyVal lower) (keyVal upper)) w) =
      Inr (JArr (map (\<lambda>s. JObj [(''shardName'', JStr s)]) (exShards lower upper (fst w))))"
  by (simp_all add: exExplain_def shards_bounds [OF assms] response_failed_def planShards_def get_prop_def fld_def has_own_def obj_keys_def)

lemma exCluster_explains:
  assumes "lower < upper"
  shows "sees exView c (getE (exExplain (shardsQuery (keyVal lower) (keyVal upper)))) (\<lambda>res. \<not> response_failed res \<and>
      (\<exists>xs ss. planShards res = Inr (JArr xs) \<and> map (\<lambda>x. get_prop x ''shardName'') xs = map (\<lambda>s. Inr (JStr s)) ss \<and>
        distinct ss \<and> set ss = shardsIn lower upper c))"
proof (rule sees_getE)
  fix w assume w: "exView w = c"
  let ?ss = "exShards lower upper (fst w)"
  have "map (\<lambda>x. get_prop x ''shardName'') (map (\<lambda>s. JObj [(''shardName'', JStr s)]) ?ss) = map (\<lambda>s. Inr (JStr s)) ?ss"
    by (simp add: get_prop_def fld_def)
  then show "\<not> response_failed (exExplain (shardsQuery (keyVal lower) (keyVal upper)) w) \<and>
      (\<exists>xs ss. planShards (exExplain (shardsQuery (keyVal lower) (keyVal upper)) w) = Inr (JArr xs) \<and>
        map (\<lambda>x. get_prop x ''shardName'') xs = map (\<lambda>s. Inr (JStr s)) ss \<and> distinct ss \<and> set ss = shardsIn lower upper c)"
    using exExplain_spec [OF assms] exShards_spec [of lower upper w] w by blast
qed

lemma exCluster_chunks:
  assumes "wfView exCache exPart c"
  shows "chunkLaws exCluster exCache exPrimaries exPart exDoc exView c"
proof -
  have sample: "sees exView c (getE (\<lambda>w. case fst w of [] \<Rightarrow> Undef | ch # _ \<Rightarrow> exDoc ch)) (\<lambda>x. x \<in> exDoc ` vChunks c)"
    using assms by (intro sees_getE) (auto simp: wfView_def exView_def split: list.split)
  have found: "sees exView c (getE (exFind (chunkQuery ns (keyVal lower) (keyVal upper)))) (\<lambda>xs. length xs = card (chunksIn lower upper c))" for ns lower upper
    by (rule sees_getE) (simp add: exFind_count)
  have one: "sees exView c (getE (exFindOne (JObj [(''_id'', keyVal (ckLower ch))]))) (\<lambda>x. x = exDoc ch)"
    "sees exView c (getE (exFindOne (JObj [(''ns'', ns), (''max._id'', keyVal (ckUpper ch))]))) (\<lambda>x. x = exDoc ch)"
    "sees exView c (getE (exFindOne (JObj [(''ns'', ns), (''min._id'', keyVal (ckLower ch))]))) (\<lambda>x. x = exDoc ch)" if "ch \<in> vChunks c" for ch ns
    using exFindOne_finds that assms by (auto intro!: sees_getE)
  have ident: "fld (exDoc ch) ''_id'' = keyVal (ckLower ch)" for ch by (simp add: exDoc_def fld_def)
  have "sees exView c (getE (exFindOne (JObj [(''_id'', keyVal (ckLower ch))]))) (\<lambda>x. x = exDoc ch')"
    if "ch' \<in> vChunks c" "ckLower ch' = ckLower ch" for ch ch'
    using one(1) [OF that(1)] that(2) by simp
  with sample found one(2,3) exCluster_explains show ?thesis by (auto simp: chunkLaws_def exCluster_def exPrimaries_def exCache_def ident)
qed

lemma exCluster_partition: "partitionLaws exCluster exCache exPrimaries exPart exDoc exView"
  using exCluster_counts exCluster_chunks
  by (simp add: partitionLaws_def describes_def exDoc_def boundOf_def get_prop_def fld_def)

lemma midKey_between: "midKey a b = Some m \<Longrightarrow> a < m \<and> m < b"
  by (induction a b rule: midKey.induct) (auto split: if_splits)

lemma changesI:
  assumes "\<And>w. v w = c \<Longrightarrow> \<exists>res w'. chAdmin env cmd w = (Val res, w') \<and> res \<noteq> Undef \<and> res \<noteq> Null \<and>
      (if truthy (fld res ''ok'') then R (v w') else v w' = c \<and> list_ex (strict_eq (fld res ''code'')) (map (errorCode (chShell env)) codes))"
  shows "changes env v c cmd codes R"
  unfolding changes_def hoare_def
proof (intro allI impI)
  fix w assume "v w = c"
  from assms [OF this] obtain res w' where "chAdmin env cmd w = (Val res, w')" "res \<noteq> Undef \<and> res \<noteq> Null \<and>
      (if truthy (fld res ''ok'') then R (v w') else v w' = c \<and> list_ex (strict_eq (fld res ''code'')) (map (errorCode (chShell env)) codes))" by blast
  then show "case chAdmin env cmd w of (Val res, w') \<Rightarrow> res \<noteq> Undef \<and> res \<noteq> Null \<and>
      (if truthy (fld res ''ok'') then R (v w') else v w' = c \<and> list_ex (strict_eq (fld res ''code'')) (map (errorCode (chShell env)) codes))
    | (Throw e, w') \<Rightarrow> False | (Diverge, w') \<Rightarrow> True" by simp
qed

lemma exAdmin_finds:
  assumes "wfView cc p (exView w)" and "a \<in> vChunks (exView w)" and "b \<in> vChunks (exView w)"
    and "fld cmd ''bounds'' = idBounds (keyVal (ckLower a)) (keyVal (ckUpper b))"
  shows "find (\<lambda>ch. keyVal (ckLower ch) = fld (elemAt (fld cmd ''bounds'') 0) ''_id'') (fst w) = Some a"
    and "find (\<lambda>ch. keyVal (ckUpper ch) = fld (elemAt (fld cmd ''bounds'') 1) ''_id'') (fst w) = Some b"
  using find_bound(1) [OF assms(1,2)] find_bound(2) [OF assms(1,3)] by (simp_all add: assms(4) idBounds_def elemAt_def fld_def [of "JObj _"])

lemma exCluster_splits: "splitLaw exCluster exCache exPart exView"
  unfolding splitLaw_def
proof (intro allI impI changesI, elim conjE)
  fix c ch w assume w: "exView w = c" and wf: "wfView exCache exPart c" and ch: "ch \<in> vChunks c"
  let ?cmd = "JObj [(''split'', JStr (chFullName exCluster)), (''bounds'', idBounds (keyVal (ckLower ch)) (keyVal (ckUpper ch)))]"
  have "fld ?cmd ''bounds'' = idBounds (keyVal (ckLower ch)) (keyVal (ckUpper ch))" "has_own ?cmd ''split''"
    by (simp_all add: fld_def has_own_def obj_keys_def)
  note finds = exAdmin_finds [OF wf [folded w] ch [folded w] ch [folded w] this(1)] this(2)
  have fails: "fld (JObj [(''ok'', jnum 0)]) ''code'' = Undef" "errorCode exampleShell ''LockBusy'' = Undef" "strict_eq Undef Undef"
    by (simp_all add: fld_def exampleShell_def strict_eq_def)
  show "\<exists>res w'. chAdmin exCluster ?cmd w = (Val res, w') \<and> res \<noteq> Undef \<and> res \<noteq> Null \<and>
      (if truthy (fld res ''ok'') then \<exists>m. ckLower ch < m \<and> m < ckUpper ch \<and> exView w' = splitAt ch m c
       else exView w' = c \<and> list_ex (strict_eq (fld res ''code'')) (map (errorCode (chShell exCluster)) [''LockBusy'']))"
  proof (cases "midKey (ckLower ch) (ckUpper ch)")
    case None
    then have "exAdmin ?cmd w = (Val (JObj [(''ok'', jnum 0)]), w)" unfolding exAdmin_def Let_def finds by (simp add: finds(3))
    then show ?thesis using w fails by (simp add: exCluster_def fld_def [of _ "''ok''"])
  next
    case (Some m)
    let ?w' = "([ch\<lparr>ckUpper := m\<rparr>, ch\<lparr>ckLower := m\<rparr>] @ filter (\<lambda>x. x \<noteq> ch) (fst w), snd w)"
    have "exAdmin ?cmd w = (Val (JObj [(''ok'', jnum 1)]), ?w')" unfolding exAdmin_def Let_def finds using Some by (simp add: finds(3))
    moreover have "exView ?w' = splitAt ch m c" unfolding w [symmetric] by (auto simp: exView_def splitAt_def)
    ultimately show ?thesis using midKey_between [OF Some] by (auto simp: exCluster_def fld_def [of _ "''ok''"])
  qed
qed

lemma exCluster_merges: "mergeLaw exCluster exCache exPart exView"
  unfolding mergeLaw_def
proof (intro allI impI changesI, elim conjE)
  fix c a b w assume w: "exView w = c" and wf: "wfView exCache exPart c" and ab: "a \<in> vChunks c" "b \<in> vChunks c"
  let ?cmd = "JObj [(''mergeChunks'', JStr (chFullName exCluster)), (''bounds'', idBounds (keyVal (ckLower a)) (keyVal (ckUpper b)))]"
  have "fld ?cmd ''bounds'' = idBounds (keyVal (ckLower a)) (keyVal (ckUpper b))" "\<not> has_own ?cmd ''split''" "has_own ?cmd ''mergeChunks''"
    by (simp_all add: fld_def has_own_def obj_keys_def)
  note finds = exAdmin_finds [OF wf [folded w] ab [folded w] this(1)] this(2,3)
  let ?w' = "([a\<lparr>ckUpper := ckUpper b\<rparr>] @ filter (\<lambda>x. x \<notin> {a, b}) (fst w), snd w)"
  have "exAdmin ?cmd w = (Val (JObj [(''ok'', jnum 1)]), ?w')" unfolding exAdmin_def Let_def finds by (simp add: finds(3,4))
  moreover have "exView ?w' = mergeAt a b c" unfolding w [symmetric] by (auto simp: exView_def mergeAt_def)
  ultimately show "\<exists>res w'. chAdmin exCluster ?cmd w = (Val res, w') \<and> res \<noteq> Undef \<and> res \<noteq> Null \<and>
      (if truthy (fld res ''ok'') then exView w' = mergeAt a b c
       else exView w' = c \<and> list_ex (strict_eq (fld res ''code'')) (map (errorCode (chShell exCluster)) [''LockBusy'']))"
    by (auto simp: exCluster_def fld_def [of _ "''ok''"])
qed

lemma exCluster_moves: "moveLaw exCluster exCache exPrimaries exPart exView"
  unfolding moveLaw_def
proof (intro conjI allI ballI impI changesI, elim conjE)
  fix c ch s wait w assume w: "exView w = c" and wf: "wfView exCache exPart c" and ch: "ch \<in> vChunks c"
  let ?cmd = "moveChunkCmd exCluster (idBounds (keyVal (ckLower ch)) (keyVal (ckUpper ch))) (JStr s) (JBool wait)"
  have "fld ?cmd ''bounds'' = idBounds (keyVal (ckLower ch)) (keyVal (ckUpper ch))" "\<not> has_own ?cmd ''split''" "\<not> has_own ?cmd ''mergeChunks''"
    "fld ?cmd ''to'' = JStr s" "fld ?cmd ''_waitForDelete'' = JBool wait"
    by (simp_all add: moveChunkCmd_def fld_def has_own_def obj_keys_def)
  note finds = exAdmin_finds [OF wf [folded w] ch [folded w] ch [folded w] this(1)] this(2-5)
  let ?w' = "([ch\<lparr>ckShard := s\<rparr>] @ filter (\<lambda>x. x \<noteq> ch) (fst w),
      (if wait then filter (\<lambda>(t, i). \<not> (t = ckShard ch \<and> inRange (ckLower ch) (ckUpper ch) i)) (snd w)
       else snd w @ map (Pair (ckShard ch)) (filter (inRange (ckLower ch) (ckUpper ch)) exDocs)))"
  have "exAdmin ?cmd w = (Val (JObj [(''ok'', jnum 1)]), ?w')" unfolding exAdmin_def Let_def finds by (simp add: finds(3-6))
  moreover have "exView ?w' = moveTo ch s wait c"
    unfolding w [symmetric] by (auto simp: exView_def moveTo_def docsIn_def fun_eq_iff)
  ultimately show "\<exists>res w'. chAdmin exCluster ?cmd w = (Val res, w') \<and> res \<noteq> Undef \<and> res \<noteq> Null \<and>
      (if truthy (fld res ''ok'') then exView w' = moveTo ch s wait c
       else exView w' = c \<and> list_ex (strict_eq (fld res ''code''))
         (map (errorCode (chShell exCluster)) [''ConflictingOperationInProgress'', ''ChunkRangeCleanupPending'']))"
    by (auto simp: exCluster_def fld_def [of _ "''ok''"])
qed (auto simp: exCluster_def exCache_def exPrimaries_def intro: sees_ret)

lemma exStart_wf: "wfView exCache exPart (exView exStart)"
  by (auto simp: wfView_def linked_def exView_def exStart_def exCache_def exPart_def)

theorem split_state_passes_witness:
  "split_splitChunk exCluster 0 exCache exPart exStart = (Val (), ([\<lparr>ckLower = MinKey, ckUpper = Key 2, ckShard = ''a''\<rparr>, \<lparr>ckLower = Key 2, ckUpper = MaxKey, ckShard = ''a''\<rparr>], [])) \<and>
   wfView exCache exPart (exView ([\<lparr>ckLower = MinKey, ckUpper = Key 2, ckShard = ''a''\<rparr>, \<lparr>ckLower = Key 2, ckUpper = MaxKey, ckShard = ''a''\<rparr>], []))"
proof -
  have run: "split_splitChunk exCluster 0 exCache exPart exStart =
      (Val (), ([\<lparr>ckLower = MinKey, ckUpper = Key 2, ckShard = ''a''\<rparr>, \<lparr>ckLower = Key 2, ckUpper = MaxKey, ckShard = ''a''\<rparr>], []))"
    by code_simp
  from split_state_passes [OF exCluster_steady exCluster_partition exCluster_splits exStart_wf this] run show ?thesis by simp
qed

theorem merge_state_passes_witness:
  "\<exists>w'. merge_mergeChunks exCluster 0 exCache exPart
      ([\<lparr>ckLower = MinKey, ckUpper = Key 0, ckShard = ''a''\<rparr>, \<lparr>ckLower = Key 0, ckUpper = Key 2, ckShard = ''a''\<rparr>, \<lparr>ckLower = Key 2, ckUpper = Key 4, ckShard = ''a''\<rparr>,
        \<lparr>ckLower = Key 4, ckUpper = MaxKey, ckShard = ''a''\<rparr>], []) = (Val (), w') \<and> wfView exCache exPart (exView w') \<and> length (fst w') = 3"
proof -
  let ?w = "([\<lparr>ckLower = MinKey, ckUpper = Key 0, ckShard = ''a''\<rparr>, \<lparr>ckLower = Key 0, ckUpper = Key 2, ckShard = ''a''\<rparr>, \<lparr>ckLower = Key 2, ckUpper = Key 4, ckShard = ''a''\<rparr>,
        \<lparr>ckLower = Key 4, ckUpper = MaxKey, ckShard = ''a''\<rparr>], []) :: cworld"
  let ?w' = "([\<lparr>ckLower = MinKey, ckUpper = Key 2, ckShard = ''a''\<rparr>, \<lparr>ckLower = Key 2, ckUpper = Key 4, ckShard = ''a''\<rparr>,
        \<lparr>ckLower = Key 4, ckUpper = MaxKey, ckShard = ''a''\<rparr>], []) :: cworld"
  have run: "merge_mergeChunks exCluster 0 exCache exPart ?w = (Val (), ?w')" by code_simp
  have wf: "wfView exCache exPart (exView ?w)"
    by (auto simp: wfView_def linked_def exView_def exCache_def exPart_def meets_def)
  have "ckShard ` vChunks (exView ?w) \<subseteq> {''a''}" "ranges exPart (Key (pLower exPart)) (Key (pUpper exPart))"
    by (auto simp: exView_def ranges_def exPart_def)
  from merge_state_passes [OF exCluster_steady exCluster_partition exCluster_merges wf this(2,1) run] run show ?thesis by force
qed

theorem move_state_passes_witness:
  "move_moveChunk exCluster 0 exCache exPart exStart = (Val (), ([\<lparr>ckLower = MinKey, ckUpper = MaxKey, ckShard = ''b''\<rparr>], [])) \<and>
   wfView exCache exPart (exView ([\<lparr>ckLower = MinKey, ckUpper = MaxKey, ckShard = ''b''\<rparr>], []))"
proof -
  have run: "move_moveChunk exCluster 0 exCache exPart exStart = (Val (), ([\<lparr>ckLower = MinKey, ckUpper = MaxKey, ckShard = ''b''\<rparr>], []))" by code_simp
  have "severalShards exCache" by (simp add: severalShards_def exCache_def)
  from move_state_passes [OF exCluster_steady exCluster_partition exCluster_moves exStart_wf this run] run show ?thesis by simp
qed

end
