(* ===== verification/Initial_Sync.thy ===== *)
theory Initial_Sync
  imports Shell Staged_Fixture
begin

text \<open>
  The initial sync fixture of \<open>replsets/libs/initial_sync_test.js\<close>: it restarts a secondary without data and lets its initial
  sync advance one command at a time by switching two fail points.  Its variables are the record \<open>ist\<close>; the
  replica set is the environment \<open>isEnv\<close>.  A wait is the loop of the code, with the number of attempts its clock allows as an
  argument; the waits for a message in the log of a node are operations of the environment.
\<close>

section \<open>State\<close>

datatype syncStage =
    kBeforeInitialSync
  | kDuringInitialSync
  | kInitialSyncCompleted
  | kSyncStopped

fun SyncTransitions :: "syncStage \<Rightarrow> syncStage list" where
  "SyncTransitions kBeforeInitialSync = [kDuringInitialSync]"
| "SyncTransitions kDuringInitialSync = [kInitialSyncCompleted]"
| "SyncTransitions kInitialSyncCompleted = [kSyncStopped]"
| "SyncTransitions kSyncStopped = []"

record 'w isEnv =
  isShell :: shell
  isPrimary :: string
  logComponentVerbosity :: "jsval option"                   \<comment> \<open>of \<open>TestData\<close>, as text\<close>
  isToJson :: "jsval \<Rightarrow> string"
  kSecondaryState :: jsval
  kStartup2State :: jsval
  isAdmin :: "string \<Rightarrow> jsval \<Rightarrow> ('w, jsval) eff"
  isStopNode :: "string \<Rightarrow> ('w, unit) eff"                   \<comment> \<open>\<open>replSet.stop\<close>, without validation\<close>
  isStartNode :: "string \<Rightarrow> jsval \<Rightarrow> ('w, string) eff"
  logContains :: "string \<Rightarrow> string \<Rightarrow> ('w, unit) eff"       \<comment> \<open>\<open>checkLog.contains\<close>: waits\<close>
  logContainsOnce :: "string \<Rightarrow> string \<Rightarrow> ('w, bool) eff"
  isCheckCounts :: "('w, unit) eff"
  isStopSet :: "('w, unit) eff"

record 'w ist =
  currState :: syncStage
  secondary :: string
  isWorld :: 'w

type_synonym ('w, 'a) isEff = "('w ist, 'a) eff"

definition onSet :: "('w, 'a) eff \<Rightarrow> ('w, 'a) isEff" where
  "onSet m = (\<lambda>s. case m (isWorld s) of (r, w) \<Rightarrow> (r, s\<lparr>isWorld := w\<rparr>))"

section \<open>Operations\<close>

definition syncTransition :: "syncStage \<Rightarrow> ('w, unit) isEff" where
  "syncTransition newState =
     bindE (getE currState) (\<lambda>st.
     if newState \<in> set (SyncTransitions st) then modE (\<lambda>s. s\<lparr>currState := newState\<rparr>)
     else raise (Err ''Can't transition to State''))"

definition adminWorked :: "'w isEnv \<Rightarrow> string \<Rightarrow> jsval \<Rightarrow> ('w, jsval) isEff" where
  "adminWorked env node cmd =
     bindE (onSet (isAdmin env node cmd)) (\<lambda>res. seqE (checkE (commandWorked (isShell env) res)) (ret res))"

definition isNodeInState :: "'w isEnv \<Rightarrow> string \<Rightarrow> jsval \<Rightarrow> ('w, bool) isEff" where
  "isNodeInState env node st =
     bindE (onSet (isAdmin env node (JObj [(''replSetGetStatus'', jnum 1), (''initialSync'', jnum 0)]))) (\<lambda>res.
     seqE (checkE (commandWorkedOrFailedWithCode (isShell env) res [errorCode (isShell env) ''NotYetInitialized'']))
     (ret (strict_eq st (fld res ''myState''))))"

definition hasStartedInitialSync :: "'w isEnv \<Rightarrow> ('w, bool) isEff" where
  "hasStartedInitialSync env = bindE (getE secondary) (\<lambda>n. isNodeInState env n (kStartup2State env))"

definition hasCompletedInitialSync :: "'w isEnv \<Rightarrow> ('w, bool) isEff" where
  "hasCompletedInitialSync env =
     bindE (getE (\<lambda>s. (currState s, secondary s))) (\<lambda>(st, n).
     seqE (assertE (st = kDuringInitialSync) ''Should not check if initial sync completed before node is restarted'')
     (isNodeInState env n (kSecondaryState env)))"

definition is_checkDataConsistency :: "'w isEnv \<Rightarrow> ('w, unit) isEff" where
  "is_checkDataConsistency env =
     bindE (adminWorked env (isPrimary env) (JStr ''serverStatus'')) (\<lambda>status.
     seqE (assertE (typeof (fld status ''transactions'') = ''object'') ''no transactions section'')
    (bindE (liftE (get_prop (fld status ''transactions'') ''currentOpen'')) (\<lambda>n.
     seqE (assertE (n = jnum 0) ''open transactions'')
     (onSet (isCheckCounts env)))))"

definition failpoint1 :: string where "failpoint1 = ''initialSyncFuzzerSynchronizationPoint1''"
definition failpoint2 :: string where "failpoint2 = ''initialSyncFuzzerSynchronizationPoint2''"

definition restartOptions :: "'w isEnv \<Rightarrow> jsval" where
  "restartOptions env =
     JObj [(''startClean'', JBool True), (''setParameter'',
       JObj ((''failpoint.'' @ failpoint1, JStr (isToJson env (JObj [(''mode'', JStr ''alwaysOn'')]))) #
         (case logComponentVerbosity env of None \<Rightarrow> [] | Some v \<Rightarrow> [(''logComponentVerbosity'', v)])))]"

definition restartNodeWithoutData :: "'w isEnv \<Rightarrow> ('w, unit) isEff" where
  "restartNodeWithoutData env =
     bindE (getE secondary) (\<lambda>n.
     seqE (onSet (isStopNode env n))
    (bindE (onSet (isStartNode env n (restartOptions env))) (\<lambda>n'.
     modE (\<lambda>s. s\<lparr>secondary := n'\<rparr>))))"

definition fpCommand :: "string \<Rightarrow> string \<Rightarrow> jsval" where
  "fpCommand name mode = JObj [(''configureFailPoint'', JStr name), (''mode'', JStr mode)]"

definition configureFailPoint :: "'w isEnv \<Rightarrow> string \<Rightarrow> string \<Rightarrow> ('w, unit) isEff" where
  "configureFailPoint env name mode =
     bindE (getE secondary) (\<lambda>n.
     bindE (adminWorked env n (fpCommand name mode)) (\<lambda>_. ret ()))"

definition waitUntilInitialSyncPausedOrCompleted :: "'w isEnv \<Rightarrow> nat \<Rightarrow> ('w, unit) isEff" where
  "waitUntilInitialSyncPausedOrCompleted env attempts =
     awaitTrue
       (bindE (getE secondary) (\<lambda>n.
        bindE (onSet (logContainsOnce env n (failpoint1 @ '' fail point enabled''))) (\<lambda>paused.
        if paused then ret True else hasCompletedInitialSync env)))
       ''initial sync did not pause or complete'' attempts"

definition pauseBeforeSyncSourceCommand :: "'w isEnv \<Rightarrow> ('w, unit) isEff" where
  "pauseBeforeSyncSourceCommand env =
     seqE (configureFailPoint env failpoint2 ''alwaysOn'')
    (seqE (configureFailPoint env failpoint1 ''off'')
    (bindE (getE secondary) (\<lambda>n. onSet (logContains env n (failpoint2 @ '' fail point enabled'')))))"

definition resumeAndPauseBeforeNextSyncSourceCommand :: "'w isEnv \<Rightarrow> nat \<Rightarrow> ('w, unit) isEff" where
  "resumeAndPauseBeforeNextSyncSourceCommand env attempts =
     seqE (configureFailPoint env failpoint1 ''alwaysOn'')
    (seqE (configureFailPoint env failpoint2 ''off'')
    (waitUntilInitialSyncPausedOrCompleted env attempts))"

text \<open>\<open>step\<close> returns whether initial sync has completed: its branch for a sync that has not started, its last part, and the whole.\<close>

definition startSync :: "'w isEnv \<Rightarrow> nat \<Rightarrow> ('w, bool) isEff" where
  "startSync env attempts =
     seqE (restartNodeWithoutData env)
    (seqE (awaitTrue (hasStartedInitialSync env) ''failed to start initial sync'' attempts)
    (seqE (syncTransition kDuringInitialSync)
    (bindE (getE secondary) (\<lambda>n.
     seqE (onSet (logContains env n (failpoint1 @ '' fail point enabled''))) (ret False)))))"

definition finishSync :: "'w isEnv \<Rightarrow> bool \<Rightarrow> ('w, bool) isEff" where
  "finishSync env completed =
     (if completed
      then seqE (syncTransition kInitialSyncCompleted)
          (seqE (configureFailPoint env failpoint1 ''off'') (ret True))
      else ret False)"

definition is_step :: "'w isEnv \<Rightarrow> nat \<Rightarrow> ('w, bool) isEff" where
  "is_step env attempts =
     bindE (getE currState) (\<lambda>st.
     if st = kBeforeInitialSync then startSync env attempts
     else seqE (assertE (st \<noteq> kSyncStopped) ''Cannot call step() if the test fixture was stopped'')
         (seqE (assertE (st \<noteq> kInitialSyncCompleted) ''Cannot call step() if initial sync already completed'')
         (seqE (pauseBeforeSyncSourceCommand env)
         (bindE (getE secondary) (\<lambda>n.
          bindE (adminWorked env n (JObj [(''clearLog'', JStr ''global'')])) (\<lambda>_.
          seqE (resumeAndPauseBeforeNextSyncSourceCommand env attempts)
         (bindE (hasCompletedInitialSync env) (finishSync env))))))))"

definition is_stop :: "'w isEnv \<Rightarrow> ('w, unit) isEff" where
  "is_stop env =
     seqE (syncTransition kSyncStopped)
    (seqE (is_checkDataConsistency env)
     (onSet (isStopSet env)))"

section \<open>Properties\<close>

interpretation sync: staged_fixture currState "\<lambda>st s. s\<lparr>currState := st\<rparr>" SyncTransitions syncTransition
  by unfold_locales (simp_all add: syncTransition_def js_simps)

lemma onSet_stage: "keeps (sync.onPath st) (onSet m)"
  by (rule sync.same_stage_onPath) (simp add: onSet_def case_prod_beta)

lemma modE_stage: "(\<And>s. currState (h s) = currState s) \<Longrightarrow> keeps (sync.onPath st) (modE h)"
  by (rule sync.same_stage_onPath) (simp add: modE_def)

lemmas sync_defs = adminWorked_def isNodeInState_def hasStartedInitialSync_def hasCompletedInitialSync_def is_checkDataConsistency_def
  restartNodeWithoutData_def configureFailPoint_def waitUntilInitialSyncPausedOrCompleted_def pauseBeforeSyncSourceCommand_def
  resumeAndPauseBeforeNextSyncSourceCommand_def

lemma step_onPath: "keeps (sync.onPath st) (is_step env n)" and stop_onPath: "keeps (sync.onPath st) (is_stop env)"
  unfolding is_step_def startSync_def finishSync_def is_stop_def sync_defs
  by (auto intro!: keeps_rules onSet_stage modE_stage sync.transition_onPath)

subsection \<open>Initial sync stays under control\<close>

text \<open>
  The documented behaviour of the replica set, seen through the fail points that are enabled on the secondary: the command that works
  switches its fail point, a node restarted with the option has the first one enabled, and no other request
  touches them.
\<close>

definition switched :: "string \<Rightarrow> string \<Rightarrow> string set \<Rightarrow> string set" where
  "switched name mode F = (if mode = ''off'' then F - {name} else insert name F)"

definition still :: "('w \<Rightarrow> 'f) \<Rightarrow> ('w, 'a) eff \<Rightarrow> bool" where
  "still on m \<longleftrightarrow> (\<forall>w. on (snd (m w)) = on w)"

definition switches :: "'w isEnv \<Rightarrow> ('w \<Rightarrow> string set) \<Rightarrow> bool" where
  "switches env on \<longleftrightarrow>
     (\<forall>n name mode w. on (snd (isAdmin env n (fpCommand name mode) w)) =
        (case fst (isAdmin env n (fpCommand name mode) w) of
           Val res \<Rightarrow> if commandWorked (isShell env) res = None then switched name mode (on w) else on w
         | _ \<Rightarrow> on w)) \<and>
     (\<forall>n cmd. \<not> has_own cmd ''configureFailPoint'' \<longrightarrow> still on (isAdmin env n cmd)) \<and>
     (\<forall>n msg. still on (logContains env n msg)) \<and> (\<forall>n msg. still on (logContainsOnce env n msg)) \<and>
     (\<forall>n w n' w'. isStartNode env n (restartOptions env) w = (Val n', w') \<longrightarrow> failpoint1 \<in> on w')"

definition enabled :: "('w \<Rightarrow> string set) \<Rightarrow> string \<Rightarrow> 'w ist \<Rightarrow> bool" where
  "enabled on name s \<longleftrightarrow> name \<in> on (isWorld s)"

definition controlled :: "('w \<Rightarrow> string set) \<Rightarrow> 'w ist \<Rightarrow> bool" where
  "controlled on s \<longleftrightarrow> (currState s = kDuringInitialSync \<longrightarrow> enabled on failpoint1 s \<or> enabled on failpoint2 s)"

lemma keeps_hoare: "keeps I m \<Longrightarrow> (\<And>s. I s \<Longrightarrow> E s) \<Longrightarrow> hoare I m (\<lambda>_. I) E"
  by (force simp: keeps_def hoare_def split: prod.split outcome.split)

text \<open>Requests that touch no fail point keep any property of the stage and the fail points.\<close>

definition viewOf :: "('w \<Rightarrow> string set) \<Rightarrow> 'w ist \<Rightarrow> syncStage \<times> string set" where
  "viewOf on s = (currState s, on (isWorld s))"

lemma onSet_still: "still on m \<Longrightarrow> keeps (\<lambda>s. P (viewOf on s)) (onSet m)"
  by (rule keepsI) (simp add: still_def onSet_def viewOf_def case_prod_beta)

lemma admin_still:
  assumes "switches env on" and "\<not> has_own cmd ''configureFailPoint''"
  shows "keeps (\<lambda>s. P (viewOf on s)) (onSet (isAdmin env n cmd))"
  using assms unfolding switches_def by (intro onSet_still) blast

lemma waits_still:
  assumes "switches env on"
  shows "keeps (\<lambda>s. P (viewOf on s)) (isNodeInState env n st)" "keeps (\<lambda>s. P (viewOf on s)) (hasStartedInitialSync env)"
    "keeps (\<lambda>s. P (viewOf on s)) (hasCompletedInitialSync env)" "keeps (\<lambda>s. P (viewOf on s)) (onSet (logContains env n msg))"
    "keeps (\<lambda>s. P (viewOf on s)) (waitUntilInitialSyncPausedOrCompleted env k)"
    "keeps (\<lambda>s. P (viewOf on s)) (adminWorked env n (JObj [(''clearLog'', JStr ''global'')]))"
proof -
  have logs: "still on (logContains env n msg)" "still on (logContainsOnce env n msg)" for n msg using assms by (simp_all add: switches_def)
  show *: "keeps (\<lambda>s. P (viewOf on s)) (isNodeInState env n st)" for n st
    unfolding isNodeInState_def by (auto intro!: keeps_rules admin_still [OF assms] simp: has_own_def obj_keys_def)
  show "keeps (\<lambda>s. P (viewOf on s)) (hasStartedInitialSync env)" "keeps (\<lambda>s. P (viewOf on s)) (onSet (logContains env n msg))"
    "keeps (\<lambda>s. P (viewOf on s)) (adminWorked env n (JObj [(''clearLog'', JStr ''global'')]))"
    unfolding hasStartedInitialSync_def adminWorked_def
    by (auto intro!: keeps_rules * onSet_still logs admin_still [OF assms] simp: has_own_def obj_keys_def)
  show **: "keeps (\<lambda>s. P (viewOf on s)) (hasCompletedInitialSync env)"
    unfolding hasCompletedInitialSync_def by (auto intro!: keeps_rules *)
  show "keeps (\<lambda>s. P (viewOf on s)) (waitUntilInitialSyncPausedOrCompleted env k)"
    unfolding waitUntilInitialSyncPausedOrCompleted_def by (auto intro!: keeps_rules ** onSet_still logs)
qed

lemma adminWorked_run:
  assumes "onSet (isAdmin env n cmd) s = (r, s1)"
  shows "adminWorked env n cmd s = (case r of
      Val res \<Rightarrow> (case commandWorked (isShell env) res of None \<Rightarrow> Val res | Some e \<Rightarrow> Throw e)
    | Throw e \<Rightarrow> Throw e | Diverge \<Rightarrow> Diverge, s1)"
  using assms by (cases r) (auto simp: adminWorked_def js_simps checkE_def ret_def raise_def split: option.split)

lemma configureFailPoint_view:
  assumes "switches env on" and "configureFailPoint env name mode s = (r, s')"
  shows "viewOf on s' = viewOf on s \<and> r \<noteq> Val () \<or> viewOf on s' = (currState s, switched name mode (on (isWorld s)))"
proof -
  obtain r1 w1 where run: "isAdmin env (secondary s) (fpCommand name mode) (isWorld s) = (r1, w1)" by fastforce
  from assms(1) have "on (snd (isAdmin env (secondary s) (fpCommand name mode) (isWorld s))) =
      (case fst (isAdmin env (secondary s) (fpCommand name mode) (isWorld s)) of
         Val res \<Rightarrow> if commandWorked (isShell env) res = None then switched name mode (on (isWorld s)) else on (isWorld s)
       | _ \<Rightarrow> on (isWorld s))" unfolding switches_def by blast
  with run have on: "on w1 = (case r1 of Val res \<Rightarrow> if commandWorked (isShell env) res = None then switched name mode (on (isWorld s)) else on (isWorld s)
       | _ \<Rightarrow> on (isWorld s))" by simp
  have "onSet (isAdmin env (secondary s) (fpCommand name mode)) s = (r1, s\<lparr>isWorld := w1\<rparr>)" by (simp add: onSet_def run)
  note worked = adminWorked_run [OF this]
  have "configureFailPoint env name mode s = (case r1 of
      Val res \<Rightarrow> (case commandWorked (isShell env) res of None \<Rightarrow> Val () | Some e \<Rightarrow> Throw e)
    | Throw e \<Rightarrow> Throw e | Diverge \<Rightarrow> Diverge, s\<lparr>isWorld := w1\<rparr>)"
    by (simp add: configureFailPoint_def bindE_def getE_def ret_def worked split: outcome.split option.split)
  then have s': "s' = s\<lparr>isWorld := w1\<rparr>" and r: "r = (case r1 of
      Val res \<Rightarrow> (case commandWorked (isShell env) res of None \<Rightarrow> Val () | Some e \<Rightarrow> Throw e)
    | Throw e \<Rightarrow> Throw e | Diverge \<Rightarrow> Diverge)" using assms(2) by simp_all
  show ?thesis by (cases r1) (simp_all add: viewOf_def s' r on split: option.split)
qed

lemma configureFailPoint_hoare:
  assumes "switches env on" and "\<And>v. P v \<Longrightarrow> Q (fst v, switched name mode (snd v))"
    and "\<And>v. P v \<Longrightarrow> E v" and "\<And>v. Q v \<Longrightarrow> E v"
  shows "hoare (\<lambda>s. P (viewOf on s)) (configureFailPoint env name mode) (\<lambda>_ s. Q (viewOf on s)) (\<lambda>s. E (viewOf on s))"
  unfolding hoare_def
proof (intro allI impI)
  fix s assume P: "P (viewOf on s)"
  obtain r s' where run: "configureFailPoint env name mode s = (r, s')" by fastforce
  from configureFailPoint_view [OF assms(1) run] P assms(2) [OF P] assms(3,4)
  show "case configureFailPoint env name mode s of (Val x, s') \<Rightarrow> Q (viewOf on s') | (Throw e, s') \<Rightarrow> E (viewOf on s') | (Diverge, s') \<Rightarrow> True"
    by (auto simp: run viewOf_def split: outcome.split)
qed

lemma transition_hoare:
  assumes "\<And>v. P v \<Longrightarrow> Q (st, snd v)" and "\<And>v. P v \<Longrightarrow> E v"
  shows "hoare (\<lambda>s. P (viewOf on s)) (syncTransition st) (\<lambda>_ s. Q (viewOf on s)) (\<lambda>s. E (viewOf on s))"
  using assms by (fastforce simp: hoare_def sync.transition_run viewOf_def)

lemma restart_hoare:
  assumes "switches env on"
  shows "hoare (\<lambda>s. currState s = kBeforeInitialSync) (restartNodeWithoutData env)
    (\<lambda>_ s. currState s = kBeforeInitialSync \<and> enabled on failpoint1 s) (\<lambda>s. currState s = kBeforeInitialSync)"
  unfolding restartNodeWithoutData_def
proof (intro hoare_bindE hoare_seqE)
  show "hoare (\<lambda>s. currState s = kBeforeInitialSync) (getE secondary) (\<lambda>_ s. currState s = kBeforeInitialSync) (\<lambda>s. currState s = kBeforeInitialSync)"
    by (simp add: hoare_getE)
  show "hoare (\<lambda>s. currState s = kBeforeInitialSync) (onSet m) (\<lambda>_ s. currState s = kBeforeInitialSync) (\<lambda>s. currState s = kBeforeInitialSync)" for m
    by (auto simp: hoare_def onSet_def split: prod.split outcome.split)
  show "hoare (\<lambda>s. currState s = kBeforeInitialSync) (onSet (isStartNode env n (restartOptions env)))
      (\<lambda>_ s. currState s = kBeforeInitialSync \<and> enabled on failpoint1 s) (\<lambda>s. currState s = kBeforeInitialSync)" for n
    using assms by (auto simp: hoare_def onSet_def switches_def enabled_def split: prod.split outcome.split)
  show "hoare (\<lambda>s. currState s = kBeforeInitialSync \<and> enabled on failpoint1 s) (modE (\<lambda>s. s\<lparr>secondary := n'\<rparr>))
      (\<lambda>_ s. currState s = kBeforeInitialSync \<and> enabled on failpoint1 s) (\<lambda>s. currState s = kBeforeInitialSync)" for n'
    by (rule hoare_modE) (simp add: enabled_def)
qed

lemma onSet_same_stage: "keeps (\<lambda>s. currState s = st) (onSet m)"
  by (rule keepsI) (simp add: onSet_def case_prod_beta)

lemma stop_controlled: "safe (controlled on) (is_stop env)"
proof -
  have "keeps (\<lambda>s. currState s = kSyncStopped) (seqE (is_checkDataConsistency env) (onSet (isStopSet env)))"
    unfolding is_checkDataConsistency_def adminWorked_def by (auto intro!: keeps_rules onSet_same_stage)
  from keeps_hoare [OF this] have rest: "hoare (\<lambda>s. currState s = kSyncStopped) (seqE (is_checkDataConsistency env) (onSet (isStopSet env)))
      (\<lambda>_. controlled on) (controlled on)" by (rule hoare_weaken) (auto simp: controlled_def)
  have "hoare (controlled on) (syncTransition kSyncStopped) (\<lambda>_ s. currState s = kSyncStopped) (controlled on)"
    by (auto simp: hoare_def sync.transition_run)
  from hoare_seqE [OF this rest] show ?thesis unfolding is_stop_def safe_hoare .
qed

text \<open>Assertions on the stage and the enabled fail points: the invariant, and what holds between the requests of a step.\<close>

definition held :: "syncStage \<times> string set \<Rightarrow> bool" where
  "held v \<longleftrightarrow> (fst v = kDuringInitialSync \<longrightarrow> failpoint1 \<in> snd v \<or> failpoint2 \<in> snd v)"

definition firstOn :: "syncStage \<times> string set \<Rightarrow> bool" where "firstOn v \<longleftrightarrow> failpoint1 \<in> snd v"
definition secondOn :: "syncStage \<times> string set \<Rightarrow> bool" where "secondOn v \<longleftrightarrow> failpoint2 \<in> snd v"
definition synced :: "syncStage \<times> string set \<Rightarrow> bool" where "synced v \<longleftrightarrow> fst v = kInitialSyncCompleted"
definition ready :: "syncStage \<times> string set \<Rightarrow> bool" where "ready v \<longleftrightarrow> fst v = kBeforeInitialSync \<and> failpoint1 \<in> snd v"

lemmas sync_views = held_def firstOn_def secondOn_def synced_def ready_def

lemma controlled_held: "controlled on = (\<lambda>s. held (viewOf on s))"
  by (auto simp: fun_eq_iff controlled_def enabled_def viewOf_def held_def)

abbreviation holds :: "('w \<Rightarrow> string set) \<Rightarrow> (syncStage \<times> string set \<Rightarrow> bool) \<Rightarrow> ('w, 'a) isEff \<Rightarrow> (syncStage \<times> string set \<Rightarrow> bool) \<Rightarrow> bool" where
  "holds on P m Q \<equiv> hoare (\<lambda>s. P (viewOf on s)) m (\<lambda>_ s. Q (viewOf on s)) (\<lambda>s. held (viewOf on s))"

lemma views_held: "firstOn v \<Longrightarrow> held v" "secondOn v \<Longrightarrow> held v" "synced v \<Longrightarrow> held v" "ready v \<Longrightarrow> held v"
  by (auto simp: sync_views)

lemma holds_ret: "(\<And>v. P v \<Longrightarrow> Q v) \<Longrightarrow> holds on P (ret x) Q"
  by (rule hoare_ret) simp

lemma holds_get: "(\<And>x. holds on P (f x) Q) \<Longrightarrow> holds on P (bindE (getE g) f) Q"
  by (rule hoare_bindE [OF hoare_getE])

text \<open>The requests of a step, one after the other.\<close>

lemma points_held:
  assumes "switches env on"
  shows "holds on held (configureFailPoint env failpoint2 ''alwaysOn'') secondOn" "holds on secondOn (configureFailPoint env failpoint1 ''off'') secondOn"
    "holds on secondOn (configureFailPoint env failpoint1 ''alwaysOn'') firstOn" "holds on firstOn (configureFailPoint env failpoint2 ''off'') firstOn"
    "holds on synced (configureFailPoint env failpoint1 ''off'') synced"
proof -
  have ne: "failpoint1 \<noteq> failpoint2" by (simp add: failpoint1_def failpoint2_def)
  show "holds on held (configureFailPoint env failpoint2 ''alwaysOn'') secondOn" "holds on secondOn (configureFailPoint env failpoint1 ''off'') secondOn"
    "holds on secondOn (configureFailPoint env failpoint1 ''alwaysOn'') firstOn" "holds on firstOn (configureFailPoint env failpoint2 ''off'') firstOn"
    "holds on synced (configureFailPoint env failpoint1 ''off'') synced"
    by (rule configureFailPoint_hoare [OF assms]; use ne in \<open>auto simp: switched_def sync_views\<close>)+
qed

lemma stages_held: "holds on ready (syncTransition kDuringInitialSync) firstOn" "holds on firstOn (syncTransition kInitialSyncCompleted) synced"
  by (rule transition_hoare; auto simp: sync_views)+

lemma waits_held:
  assumes "switches env on" and "\<And>v. P v \<Longrightarrow> held v"
  shows "holds on P (onSet (logContains env n msg)) P" "holds on P (hasCompletedInitialSync env) P"
    "holds on P (waitUntilInitialSyncPausedOrCompleted env k) P" "holds on P (adminWorked env n (JObj [(''clearLog'', JStr ''global'')])) P"
    "holds on P (awaitTrue (hasStartedInitialSync env) msg k) P"
  using waits_still(2-6) [OF assms(1), of P] by (auto intro!: keeps_hoare awaitTrue_keeps assms(2))

lemma pause_held: "switches env on \<Longrightarrow> holds on held (pauseBeforeSyncSourceCommand env) secondOn"
  unfolding pauseBeforeSyncSourceCommand_def
  by (rule hoare_seqE [OF points_held(1)], assumption, rule hoare_seqE [OF points_held(2)], assumption, rule holds_get)
    (intro waits_held(1) views_held)

lemma resume_held: "switches env on \<Longrightarrow> holds on secondOn (resumeAndPauseBeforeNextSyncSourceCommand env k) firstOn"
  unfolding resumeAndPauseBeforeNextSyncSourceCommand_def
  by (rule hoare_seqE [OF points_held(3)], assumption, rule hoare_seqE [OF points_held(4)], assumption)
    (intro waits_held(3) views_held)

lemma finish_held: "switches env on \<Longrightarrow> holds on firstOn (finishSync env b) held"
  unfolding finishSync_def
  by (rule hoare_if, rule hoare_seqE [OF stages_held(2)], rule hoare_seqE [OF points_held(5)]) (auto intro: holds_ret views_held)

lemma start_held:
  assumes "switches env on"
  shows "hoare (\<lambda>s. currState s = kBeforeInitialSync) (startSync env k) (\<lambda>_ s. held (viewOf on s)) (\<lambda>s. held (viewOf on s))"
proof -
  have start: "hoare (\<lambda>s. currState s = kBeforeInitialSync) (restartNodeWithoutData env) (\<lambda>_ s. ready (viewOf on s)) (\<lambda>s. held (viewOf on s))"
    by (rule hoare_weaken [OF restart_hoare [OF assms]]) (auto simp: viewOf_def enabled_def sync_views)
  show ?thesis
    unfolding startSync_def
    by (rule hoare_seqE [OF start], rule hoare_seqE [OF waits_held(5) [OF assms]], erule views_held, rule hoare_seqE [OF stages_held(1)],
        rule holds_get, rule hoare_seqE [OF waits_held(1) [OF assms]], erule views_held, rule holds_ret, erule views_held)
qed

lemma step_controlled:
  assumes "switches env on"
  shows "safe (controlled on) (is_step env k)"
proof -
  have next_steps: "holds on held (seqE (assertE c1 m1) (seqE (assertE c2 m2) (seqE (pauseBeforeSyncSourceCommand env)
      (bindE (getE secondary) (\<lambda>n. bindE (adminWorked env n (JObj [(''clearLog'', JStr ''global'')])) (\<lambda>_.
       seqE (resumeAndPauseBeforeNextSyncSourceCommand env k) (bindE (hasCompletedInitialSync env) (finishSync env)))))))) held" for c1 c2 m1 m2
    by (rule hoare_seqE [OF hoare_assertE], assumption, assumption, rule hoare_seqE [OF hoare_assertE], assumption, assumption,
        rule hoare_seqE [OF pause_held [OF assms]], rule holds_get, rule hoare_bindE [OF waits_held(4) [OF assms]], erule views_held,
        rule hoare_seqE [OF resume_held [OF assms]], rule hoare_bindE [OF waits_held(2) [OF assms]], erule views_held, rule finish_held [OF assms])
  have "holds on held (is_step env k) held"
    unfolding is_step_def
    by (rule hoare_bindE [OF hoare_getE [where Q = "\<lambda>st s. currState s = st \<and> held (viewOf on s)"]], simp, rule hoare_if)
      (rule hoare_weaken [OF start_held [OF assms]], simp_all, rule hoare_weaken [OF next_steps], simp_all)
  then show ?thesis by (simp add: safe_hoare controlled_held)
qed

text \<open>
  C22. Initial sync is never left to run free: as long as it is under way, one of the two fail points is enabled, after every call of
  \<open>step\<close> and \<open>stop\<close> whatever its outcome; since any request may be the one that throws, this holds at every moment within a
  call too.\<close>

theorem initial_sync_controlled:
  assumes "switches env on"
  shows "safe (controlled on) (is_step env n) \<and> safe (controlled on) (is_stop env)"
  using step_controlled [OF assms] stop_controlled by blast

subsection \<open>The protocol of the steps\<close>

lemma helpers_stage:
  "keeps (\<lambda>s. currState s = st) (restartNodeWithoutData env)" "keeps (\<lambda>s. currState s = st) (hasStartedInitialSync env)"
  "keeps (\<lambda>s. currState s = st) (pauseBeforeSyncSourceCommand env)" "keeps (\<lambda>s. currState s = st) (adminWorked env n cmd)"
  "keeps (\<lambda>s. currState s = st) (resumeAndPauseBeforeNextSyncSourceCommand env k)" "keeps (\<lambda>s. currState s = st) (hasCompletedInitialSync env)"
  "keeps (\<lambda>s. currState s = st) (configureFailPoint env name mode)"
  unfolding sync_defs by (auto intro!: keeps_rules onSet_same_stage)

lemma keeps_post: "keeps I m \<Longrightarrow> hoare I m (\<lambda>_. I) (\<lambda>_. True)"
  by (rule keeps_hoare) simp_all

lemma is_step_stage:
  "hoare (\<lambda>s. currState s = st) (is_step env n)
     (\<lambda>b s. st = kBeforeInitialSync \<and> \<not> b \<and> currState s = kDuringInitialSync \<or>
        st = kDuringInitialSync \<and> currState s = (if b then kInitialSyncCompleted else kDuringInitialSync)) (\<lambda>_. True)"
proof -
  note stage = helpers_stage [THEN keeps_post]
  have trans: "hoare (\<lambda>s. currState s = st1) (syncTransition st2) (\<lambda>_ s. currState s = st2) (\<lambda>_. True)" for st1 st2
    by (auto simp: hoare_def sync.transition_run)
  have log: "hoare (\<lambda>s. currState s = st1) (onSet m) (\<lambda>_ s. currState s = st1) (\<lambda>_. True)" for st1 and m :: "('a, unit) eff"
    by (rule keeps_post [OF onSet_same_stage])
  have before: "hoare (\<lambda>s. currState s = kBeforeInitialSync) (startSync env n) (\<lambda>b s. \<not> b \<and> currState s = kDuringInitialSync) (\<lambda>_. True)"
    unfolding startSync_def
    by (rule hoare_seqE [OF stage(1)], rule hoare_seqE [OF keeps_post [OF awaitTrue_keeps [OF helpers_stage(2)]]],
        rule hoare_seqE [OF trans], rule hoare_bindE [OF hoare_getE], assumption, rule hoare_seqE [OF log], rule hoare_ret, simp)
  have complete: "hoare (\<lambda>s. currState s = kDuringInitialSync) (finishSync env b)
      (\<lambda>b s. currState s = (if b then kInitialSyncCompleted else kDuringInitialSync)) (\<lambda>_. True)" for b
    unfolding finishSync_def by (rule hoare_if, rule hoare_seqE [OF trans], rule hoare_seqE [OF stage(7)]) (rule hoare_ret, simp)+
  have during: "hoare (\<lambda>s. currState s = kDuringInitialSync) (seqE (pauseBeforeSyncSourceCommand env)
      (bindE (getE secondary) (\<lambda>k. bindE (adminWorked env k (JObj [(''clearLog'', JStr ''global'')])) (\<lambda>_.
       seqE (resumeAndPauseBeforeNextSyncSourceCommand env n) (bindE (hasCompletedInitialSync env) (finishSync env))))))
      (\<lambda>b s. currState s = (if b then kInitialSyncCompleted else kDuringInitialSync)) (\<lambda>_. True)"
    by (rule hoare_seqE [OF stage(3)], rule hoare_bindE [OF hoare_getE], assumption, rule hoare_bindE [OF stage(4)],
        rule hoare_seqE [OF stage(5)], rule hoare_bindE [OF stage(6)], rule complete)
  show ?thesis
    using before during unfolding is_step_def by (cases st) (auto simp: hoare_def js_simps split: prod.splits outcome.splits)
qed

lemma is_step_Val:
  assumes "is_step env n s = (Val b, s')"
  shows "currState s = kBeforeInitialSync \<and> \<not> b \<and> currState s' = kDuringInitialSync \<or>
    currState s = kDuringInitialSync \<and> currState s' = (if b then kInitialSyncCompleted else kDuringInitialSync)"
  using is_step_stage [of "currState s" env n, unfolded hoare_def, rule_format, of s] assms by simp

lemma steps_Val:
  assumes "mapE (\<lambda>_. is_step env n) xs s = (Val bs, s')"
  shows "True \<notin> set (butlast bs) \<and>
    currState s' = (if bs = [] then currState s else if last bs then kInitialSyncCompleted else kDuringInitialSync) \<and>
    (bs \<noteq> [] \<longrightarrow> currState s = kBeforeInitialSync \<or> currState s = kDuringInitialSync)"
  using assms
proof (induction xs arbitrary: s bs)
  case (Cons x xs)
  then obtain b s1 bs' where 1: "is_step env n s = (Val b, s1)" and rest: "mapE (\<lambda>_. is_step env n) xs s1 = (Val bs', s')"
    and bs: "bs = b # bs'" by (auto simp: bindE_Val ret_Val)
  from is_step_Val [OF 1] Cons.IH [OF rest] show ?case by (cases b; cases bs') (auto simp: bs)
qed (simp add: ret_Val)

text \<open>
  The steps of an initial sync follow its protocol: of any number of calls of \<open>step\<close> that all return, from a new fixture,
  only the last can answer that the sync completed, and the fixture can only be stopped after that answer.\<close>

theorem sync_steps:
  assumes "mapE (\<lambda>_. is_step env n) [0..<k] s = (Val bs, s')" and "currState s = kBeforeInitialSync"
  shows "True \<notin> set (butlast bs) \<and> (is_stop env s' = (Val u, s'') \<longrightarrow> bs \<noteq> [] \<and> last bs)"
proof -
  have "currState s' = kInitialSyncCompleted" if "is_stop env s' = (Val u, s'')"
    using that by (cases "currState s'") (auto simp: is_stop_def seqE_Val sync.transition_Val)
  with steps_Val [OF assms(1)] assms(2) show ?thesis by (auto split: if_splits)
qed

text \<open>A set whose sync completes in the second step, for a concrete run: its world counts the requests for the status.\<close>

definition syncEnv :: "nat isEnv" where
  "syncEnv = \<lparr>isShell = exampleShell, isPrimary = ''p'', logComponentVerbosity = None, isToJson = (\<lambda>_. ''json''),
     kSecondaryState = jnum 2, kStartup2State = jnum 5,
     isAdmin = (\<lambda>_ cmd k. if has_own cmd ''replSetGetStatus''
        then (Val (JObj [(''ok'', jnum 1), (''myState'', if k = 0 then jnum 5 else jnum 2)]), Suc k)
        else (Val (JObj [(''ok'', jnum 1), (''transactions'', JObj [(''currentOpen'', jnum 0)])]), k)),
     isStopNode = (\<lambda>_. ret ()), isStartNode = (\<lambda>n _. ret n), logContains = (\<lambda>_ _. ret ()), logContainsOnce = (\<lambda>_ _. ret True),
     isCheckCounts = ret (), isStopSet = ret ()\<rparr>"

definition newSync :: "nat ist" where
  "newSync = \<lparr>currState = kBeforeInitialSync, secondary = ''s'', isWorld = 0\<rparr>"

theorem sync_steps_witness:
  "fst (mapE (\<lambda>_. is_step syncEnv 0) [0..<2] newSync) = Val [False, True] \<and> True \<notin> set (butlast [False, True])"
proof -
  let ?run = "mapE (\<lambda>_. is_step syncEnv 0) [0..<2] newSync"
  have "fst ?run = Val [False, True]" by code_simp
  moreover from this have "?run = (Val [False, True], snd ?run)" by (metis prod.collapse)
  from sync_steps [OF this] have "True \<notin> set (butlast [False, True])" by (simp add: newSync_def)
  ultimately show ?thesis by blast
qed

text \<open>A set whose world is the set of the enabled fail points.\<close>

definition fpEnv :: "string set isEnv" where
  "fpEnv = \<lparr>isShell = exampleShell, isPrimary = ''p'', logComponentVerbosity = None, isToJson = (\<lambda>_. ''json''),
     kSecondaryState = jnum 2, kStartup2State = jnum 5,
     isAdmin = (\<lambda>_ cmd F. (Val (JObj [(''ok'', jnum 1)]),
        case (fld cmd ''configureFailPoint'', fld cmd ''mode'') of (JStr name, JStr mode) \<Rightarrow> switched name mode F | _ \<Rightarrow> F)),
     isStopNode = (\<lambda>_. ret ()), isStartNode = (\<lambda>n _ _. (Val n, {failpoint1})), logContains = (\<lambda>_ _. ret ()),
     logContainsOnce = (\<lambda>_ _. ret True), isCheckCounts = ret (), isStopSet = ret ()\<rparr>"

lemma fpEnv_worked: "commandWorked (isShell fpEnv) (JObj [(''ok'', jnum 1)]) = None"
  by code_simp

lemma fpEnv_switches: "switches fpEnv (\<lambda>F. F)"
proof -
  have "isAdmin fpEnv n (fpCommand name mode) F = (Val (JObj [(''ok'', jnum 1)]), switched name mode F)" for n name mode F
    by (simp add: fpEnv_def fpCommand_def fld_def)
  moreover have "isAdmin fpEnv n cmd F = (Val (JObj [(''ok'', jnum 1)]), F)" if "\<not> has_own cmd ''configureFailPoint''" for n cmd F
    using that fld_not_own [of cmd "''configureFailPoint''"] by (simp add: fpEnv_def)
  ultimately show ?thesis
    unfolding switches_def by (simp add: fpEnv_worked [simplified] still_def) (simp add: fpEnv_def ret_def)
qed

theorem initial_sync_controlled_witness:
  "switches fpEnv (\<lambda>F. F) \<and> safe (controlled (\<lambda>F. F)) (is_step fpEnv 0) \<and> safe (controlled (\<lambda>F. F)) (is_stop fpEnv)"
  using fpEnv_switches initial_sync_controlled [OF fpEnv_switches] by blast

end
