(* ===== verification/Rollback_Deluxe.thy ===== *)
theory Rollback_Deluxe
  imports Rollback_Test
begin

text \<open>
  The rollback fixture with five nodes of \<open>replsets/libs/rollback_test_deluxe.js\<close>: a primary, a secondary that rolls back with it, a
  secondary on standby that takes over, and two arbiters.  Its stages and its table of transitions are those of
  Rollback_Test, whose environment it uses too; its variables are the record \<open>rbd\<close>.  The shuffle of two nodes is a coin.
\<close>

section \<open>State and environment\<close>

datatype roleCycleMode = kCyclical | kFixedRollbackSecondary | kRandom

record 'w dxEnv =
  dxSet :: "'w rbEnv"
  rstGetArbiters :: "('w, node list) eff"
  rstGetSecondaries :: "('w, node list) eff"
  dxFlip :: "('w, bool) eff"                  \<comment> \<open>whether \<open>Array.shuffle\<close> swaps the two\<close>

record 'w rbd =
  dxStage :: stage
  curRoleCycleMode :: roleCycleMode
  dxPrimary :: node
  rollbackSecondary :: node
  standbySecondary :: node
  arbiters :: "node list"
  lastRollbackSecondaryRBID :: jsnum
  lastStandbySecondaryRBID :: jsnum
  dxWorld :: 'w

type_synonym ('w, 'a) dxEff = "('w rbd, 'a) eff"

definition onDx :: "('w, 'a) eff \<Rightarrow> ('w, 'a) dxEff" where
  "onDx m = (\<lambda>s. case m (dxWorld s) of (r, w) \<Rightarrow> (r, s\<lparr>dxWorld := w\<rparr>))"

definition dxWorked :: "'w dxEnv \<Rightarrow> ('w, jsval) eff \<Rightarrow> ('w, jsval) dxEff" where
  "dxWorked env m = bindE (onDx m) (\<lambda>res. seqE (checkE (commandWorked (rbShell (dxSet env)) res)) (ret res))"

definition adminCommandWorkedAllowingNetworkError :: "'w dxEnv \<Rightarrow> node \<Rightarrow> jsval \<Rightarrow> ('w, jsval option) dxEff" where
  "adminCommandWorkedAllowingNetworkError env n cmd =
     tryCatch (bindE (dxWorked env (adminCommand (dxSet env) n cmd)) (\<lambda>res. ret (Some res)))
       (\<lambda>e. if isNetworkError (rbShell (dxSet env)) e then ret None else raise e)"

section \<open>Roles\<close>

definition dxRoles :: "'w rbd \<Rightarrow> node \<times> node \<times> node" where
  "dxRoles s = (dxPrimary s, rollbackSecondary s, standbySecondary s)"

definition setRoles :: "node \<times> node \<times> node \<Rightarrow> ('w, unit) dxEff" where
  "setRoles R = (case R of (p, r, b) \<Rightarrow> modE (\<lambda>s. s\<lparr>dxPrimary := p, rollbackSecondary := r, standbySecondary := b\<rparr>))"

definition assignRoles :: "'w dxEnv \<Rightarrow> ('w, unit) dxEff" where
  "assignRoles env =
     bindE (getE (\<lambda>s. (curRoleCycleMode s, dxRoles s))) (\<lambda>(mode, p, r, b).
     case mode of
       kCyclical \<Rightarrow> setRoles (b, p, r)
     | kFixedRollbackSecondary \<Rightarrow> setRoles (b, r, p)
     | kRandom \<Rightarrow> bindE (onDx (dxFlip env)) (\<lambda>swap. setRoles (if swap then (b, p, r) else (b, r, p))))"

fun roleCycleModeOf :: "string \<Rightarrow> roleCycleMode option" where
  "roleCycleModeOf name =
     (if name = ''kCyclical'' then Some kCyclical
      else if name = ''kFixedRollbackSecondary'' then Some kFixedRollbackSecondary
      else if name = ''kRandom'' then Some kRandom else None)"

definition setRoleCycleMode :: "string \<Rightarrow> ('w, unit) dxEff" where
  "setRoleCycleMode newMode =
     (case roleCycleModeOf newMode of
        None \<Rightarrow> raise (Err ''Unknown role cycle mode'')
      | Some m \<Rightarrow> modE (\<lambda>s. s\<lparr>curRoleCycleMode := m\<rparr>))"

section \<open>Setting up\<close>

definition dx_validateAndUseSetup :: "'w dxEnv \<Rightarrow> bool \<Rightarrow> ('w, unit) dxEff" where
  "dx_validateAndUseSetup env usesBridge =
     seqE (assertE usesBridge ''Must set up ReplSetTest with mongobridge enabled.'')
    (seqE (assertE (length (rstNodes (dxSet env)) = 5) ''Replica set must contain exactly five nodes.'')
    (bindE (onDx (rstGetPrimary (dxSet env))) (\<lambda>p.
     seqE (modE (\<lambda>s. s\<lparr>dxPrimary := p\<rparr>))
    (bindE (onDx (rstGetArbiters env)) (\<lambda>arb.
     seqE (modE (\<lambda>s. s\<lparr>arbiters := arb\<rparr>))
    (seqE (onDx (forEachE (\<lambda>n. waitForState (dxSet env) n ''ARBITER'') arb))
    (bindE (onDx (rstGetSecondaries env)) (\<lambda>nodes.
     let secondaries = filter (\<lambda>n. n \<notin> set arb) nodes in
     seqE (onDx (forEachE (\<lambda>n. waitForState (dxSet env) n ''SECONDARY'') secondaries))
     (case secondaries of
        r # b # _ \<Rightarrow> setRoles (p, r, b)
      | _ \<Rightarrow> raise (TypeErr ''a secondary is undefined''))))))))))"

definition newRollbackTestDeluxe :: "'w dxEnv \<Rightarrow> bool \<Rightarrow> ('w, unit) dxEff" where
  "newRollbackTestDeluxe env usesBridge =
     seqE (modE (\<lambda>s. s\<lparr>dxStage := kSteadyStateOps, curRoleCycleMode := kCyclical\<rparr>)) (dx_validateAndUseSetup env usesBridge)"

section \<open>Transitions\<close>

definition dx_checkDataConsistency :: "'w dxEnv \<Rightarrow> ('w, unit) dxEff" where
  "dx_checkDataConsistency env =
     (let rset = dxSet env in
      bindE (getE dxStage) (\<lambda>st.
      seqE (assertE (st = kSteadyStateOps) ''Not in kSteadyStateOps state; cannot check data consistency'')
     (seqE (onDx (forEachE (waitForDrops rset) (rstNodes rset)))
     (seqE (if \<not> allowUncleanShutdowns rset \<or> \<not> rollbackShutdowns rset then onDx (checkCollectionCounts rset) else ret ())
     (seqE (onDx (checkOplogs rset))
     (seqE (onDx (checkReplicatedDataHashes rset))
     (onDx (validateNodes rset))))))))"

definition dx_transitionIfAllowed :: "stage \<Rightarrow> ('w, unit) dxEff" where
  "dx_transitionIfAllowed newState =
     bindE (getE dxStage) (\<lambda>st.
     if newState \<in> set (AcceptableTransitions st) then modE (\<lambda>s. s\<lparr>dxStage := newState\<rparr>)
     else raise (Err ''Can't transition to State''))"

definition rbidReached :: "'w dxEnv \<Rightarrow> node \<Rightarrow> jsnum \<Rightarrow> ('w, bool) dxEff" where
  "rbidReached env n previous =
     bindE (adminCommandWorkedAllowingNetworkError env n (JStr ''replSetGetRBID'')) (\<lambda>res.
     case res of
       None \<Rightarrow> ret False
     | Some r \<Rightarrow>
         let rbid = to_number (fld r ''rbid''); expected = num_add previous (Fin 1) in
         seqE (assertE (num_lte rbid expected) ''RBID is too large'') (ret (rbid = expected \<and> rbid \<noteq> NaN)))"

definition awaitRollback :: "'w dxEnv \<Rightarrow> nat \<Rightarrow> node \<Rightarrow> jsnum \<Rightarrow> ('w, unit) dxEff" where
  "awaitRollback env attempts n previous = awaitTrue (rbidReached env n previous) ''Timed out waiting for RBID to increment'' attempts"

definition dx_transitionToSteadyStateOperations :: "'w dxEnv \<Rightarrow> nat \<Rightarrow> ('w, node) dxEff" where
  "dx_transitionToSteadyStateOperations env attempts =
     bindE (getE (\<lambda>s. (dxRoles s, arbiters s))) (\<lambda>((p, r, b), arb).
     seqE (onDx (bridgeReconnect (dxSet env) r (arb @ [p, b])))
    (seqE (onDx (bridgeReconnect (dxSet env) b (arb @ [p])))
    (seqE (if \<not> rollbackShutdowns (dxSet env)
           then bindE (getE lastRollbackSecondaryRBID) (\<lambda>lastR.
                seqE (awaitRollback env attempts r lastR)
               (bindE (getE lastStandbySecondaryRBID) (\<lambda>lastB. awaitRollback env attempts b lastB)))
           else ret ())
    (seqE (onDx (awaitSecondaryNodes (dxSet env)))
    (seqE (onDx (awaitReplication (dxSet env) None))
    (seqE (dx_transitionIfAllowed kSteadyStateOps)
    (seqE (dx_checkDataConsistency env)
    (getE dxPrimary))))))))"

definition dx_transitionToRollbackOperations :: "'w dxEnv \<Rightarrow> ('w, node) dxEff" where
  "dx_transitionToRollbackOperations env =
     seqE (onDx (awaitSecondaryNodes (dxSet env)))
    (seqE (onDx (awaitReplication (dxSet env) None))
    (seqE (dx_transitionIfAllowed kRollbackOps)
    (bindE (getE (\<lambda>s. (dxRoles s, arbiters s))) (\<lambda>((p, r, b), arb).
     seqE (onDx (bridgeDisconnect (dxSet env) b (arb @ [p, r])))
    (getE dxPrimary)))))"

definition forceStepdownDuringRollbackOps :: "'w dxEnv \<Rightarrow> ('w, node) dxEff" where
  "forceStepdownDuringRollbackOps env =
     bindE (getE (\<lambda>s. (dxStage s, dxRoles s))) (\<lambda>(st, p, r, b).
     seqE (assertE (st = kRollbackOps) ''can only be called while in state kRollbackOps'')
    (bindE (dxWorked env (insertDoc (dxSet env) p ''EnsureThereIsAtLeastOneOperationToRollBack''
       (JObj [(''writeConcern'', JObj [(''w'', jnum 2)])]))) (\<lambda>_.
     bindE (dxWorked env (adminCommand (dxSet env) p (JObj [(''replSetStepDown'', jnum 1), (''force'', JBool True)]))) (\<lambda>_.
     seqE (onDx (waitForState (dxSet env) p ''SECONDARY''))
    (seqE (onDx (awaitStepUp (dxSet env) r))
    (bindE (onDx (rstGetPrimary (dxSet env))) (\<lambda>newPrimary.
     seqE (assertE (newPrimary = r) ''Expected the new primary to be the rollback secondary'')
    (seqE (setRoles (newPrimary, p, b))
    (getE dxPrimary)))))))))"

definition dx_transitionToSyncSourceOperationsBeforeRollback :: "'w dxEnv \<Rightarrow> ('w, node) dxEff" where
  "dx_transitionToSyncSourceOperationsBeforeRollback env =
     seqE (dx_transitionIfAllowed kSyncSourceOpsBeforeRollback)
    (bindE (getE (\<lambda>s. (dxRoles s, arbiters s))) (\<lambda>((p, r, b), arb).
     bindE (dxWorked env (insertDoc (dxSet env) p ''EnsureThereIsAtLeastOneOperationToRollBack''
       (JObj [(''writeConcern'', JObj [(''w'', jnum 2)])]))) (\<lambda>_.
     seqE (onDx (bridgeDisconnect (dxSet env) r arb))
    (seqE (onDx (bridgeDisconnect (dxSet env) p arb))
    (bindE (adminCommandWorkedAllowingNetworkError env p (JObj [(''replSetStepDown'', jnum 1), (''force'', JBool True)])) (\<lambda>_.
     seqE (onDx (waitForState (dxSet env) p ''SECONDARY''))
    (seqE (onDx (bridgeReconnect (dxSet env) b arb))
    (seqE (onDx (awaitStepUp (dxSet env) b))
    (bindE (onDx (rstGetPrimary (dxSet env))) (\<lambda>newPrimary.
     seqE (assertE (newPrimary = b) ''Expected the new primary to be the standby secondary'')
    (seqE (assignRoles env)
    (bindE (getE dxRoles) (\<lambda>(p', r', b').
     bindE (dxWorked env (adminCommand (dxSet env) r' (JStr ''replSetGetRBID''))) (\<lambda>res.
     seqE (modE (\<lambda>s. s\<lparr>lastRollbackSecondaryRBID := to_number (fld res ''rbid'')\<rparr>))
    (bindE (dxWorked env (adminCommand (dxSet env) b' (JStr ''replSetGetRBID''))) (\<lambda>res.
     seqE (modE (\<lambda>s. s\<lparr>lastStandbySecondaryRBID := to_number (fld res ''rbid'')\<rparr>))
    (getE dxPrimary)))))))))))))))))"

definition dx_transitionToSyncSourceOperationsDuringRollback :: "'w dxEnv \<Rightarrow> ('w, node) dxEff" where
  "dx_transitionToSyncSourceOperationsDuringRollback env =
     seqE (dx_transitionIfAllowed kSyncSourceOpsDuringRollback)
    (bindE (getE (\<lambda>s. (dxRoles s, arbiters s))) (\<lambda>((p, r, b), arb).
     seqE (onDx (bridgeReconnect (dxSet env) r (arb @ [p])))
    (seqE (onDx (bridgeReconnect (dxSet env) b (arb @ [p])))
    (getE dxPrimary))))"

definition dxStop :: "'w dxEnv \<Rightarrow> ('w, unit) dxEff" where
  "dxStop env = seqE (dx_checkDataConsistency env) (seqE (dx_transitionIfAllowed kStopped) (onDx (stopSet (dxSet env))))"

text \<open>The roles after a restart.\<close>

definition dxRefreshRoles :: "'w dxEnv \<Rightarrow> ('w, unit) dxEff" where
  "dxRefreshRoles env =
     bindE (onDx (rstGetPrimary (dxSet env))) (\<lambda>newPrimary.
     bindE (getE (\<lambda>s. (dxStage s, dxRoles s))) (\<lambda>(st, p, r, b).
     if newPrimary = r
     then seqE (assertE (st = kSteadyStateOps \<or> st = kRollbackOps) ''Expected to be in state kSteadyStateOps or kRollbackOps'')
         (setRoles (newPrimary, p, b))
     else if newPrimary = b
     then seqE (assertE (st = kSteadyStateOps) ''are not equal'') (assignRoles env)
     else assertE (p = newPrimary) ''are not equal''))"

text \<open>The name of the host is read before the node id is compared with the size of the set.\<close>

definition dxRestartNode :: "'w dxEnv \<Rightarrow> int \<Rightarrow> int \<Rightarrow> ('w, unit) dxEff" where
  "dxRestartNode env nodeId signal0 =
     (let rset = dxSet env in
      seqE (assertE (signal0 = SIGKILL \<or> signal0 = SIGTERM) ''Received unknown signal'')
     (seqE (assertE (nodeId \<ge> 0) ''Node id number cannot be negative'')
     (seqE (if nat nodeId \<ge> length (rstNodes rset) then raise (TypeErr ''has no properties'') else ret ())
     (if \<not> rollbackShutdowns rset \<or> nat nodeId \<ge> length (rstNodes rset) then ret ()
      else let signal = (if \<not> allowUncleanShutdowns rset \<and> signal0 \<noteq> SIGTERM then SIGTERM else signal0);
               opts = (if signal = SIGKILL then JObj [(''allowedExitCode'', exitSigkill rset)] else JObj []) in
       seqE (onDx (stopNode rset (nat nodeId) signal opts))
      (seqE (onDx (startNode rset (nat nodeId) (JObj [])))
      (dxRefreshRoles env))))))"

section \<open>The abstract machine\<close>

text \<open>
  What a test relies on: the stage, the mode, the roles (primary, rollback secondary, standby secondary) and the links that are
  cut.  A step is a call of a method that returns.  Whenever the standby secondary takes over, the other two
  nodes become the secondaries, in an order the mode decides.
\<close>

type_synonym dxView = "stage \<times> roleCycleMode \<times> (node \<times> node \<times> node) \<times> (node \<times> node) set"

inductive takeOver :: "roleCycleMode \<Rightarrow> node \<times> node \<times> node \<Rightarrow> node \<times> node \<times> node \<Rightarrow> bool" where
  rotated: "mode \<noteq> kFixedRollbackSecondary \<Longrightarrow> takeOver mode (p, r, b) (b, p, r)"
| swapped: "mode \<noteq> kCyclical \<Longrightarrow> takeOver mode (p, r, b) (b, r, p)"

inductive dx_step :: "node list \<Rightarrow> dxView \<Rightarrow> dxView \<Rightarrow> bool" for arb where
  to_rollback: "dx_step arb (kSteadyStateOps, m, (p, r, b), C) (kRollbackOps, m, (p, r, b), C \<union> bothWays b (arb @ [p, r]))"
| forced: "dx_step arb (kRollbackOps, m, (p, r, b), C) (kRollbackOps, m, (r, p, b), C)"
| to_before: "takeOver m (p, r, b) R \<Longrightarrow>
    dx_step arb (kRollbackOps, m, (p, r, b), C)
      (kSyncSourceOpsBeforeRollback, m, R, (C \<union> bothWays r arb \<union> bothWays p arb) - bothWays b arb)"
| to_during: "dx_step arb (kSyncSourceOpsBeforeRollback, m, (p, r, b), C)
    (kSyncSourceOpsDuringRollback, m, (p, r, b), C - bothWays r (arb @ [p]) - bothWays b (arb @ [p]))"
| to_steady: "dx_step arb (kSyncSourceOpsDuringRollback, m, (p, r, b), C)
    (kSteadyStateOps, m, (p, r, b), C - bothWays r (arb @ [p, b]) - bothWays b (arb @ [p]))"
| to_stopped: "dx_step arb (kSteadyStateOps, m, R, C) (kStopped, m, R, C)"
| switched: "dx_step arb (st, m, R, C) (st, m', R, C)"
| restart_swap: "st = kSteadyStateOps \<or> st = kRollbackOps \<Longrightarrow> dx_step arb (st, m, (p, r, b), C) (st, m, (r, p, b), C)"
| restart_over: "takeOver m R R' \<Longrightarrow> dx_step arb (kSteadyStateOps, m, R, C) (kSteadyStateOps, m, R', C)"

text \<open>The diagrams of the comments: the links that are cut in each stage.\<close>

fun dxCut :: "stage \<Rightarrow> node \<times> node \<times> node \<Rightarrow> node list \<Rightarrow> (node \<times> node) set" where
  "dxCut kRollbackOps (p, r, b) arb = bothWays b (arb @ [p, r])"
| "dxCut kSyncSourceOpsBeforeRollback (p, r, b) arb = bothWays p [r, b] \<union> bothWays r arb \<union> bothWays b arb"
| "dxCut _ _ arb = {}"

definition dxOk :: "node list \<Rightarrow> node set \<Rightarrow> dxView \<Rightarrow> bool" where
  "dxOk arb nodes v \<longleftrightarrow> (case v of (st, m, (p, r, b), C) \<Rightarrow>
     distinct (p # r # b # arb) \<and> {p, r, b} = nodes \<and> C = dxCut st (p, r, b) arb)"

lemma dxOk_step:
  assumes "dx_step arb v v'" and "dxOk arb nodes v"
  shows "dxOk arb nodes v'"
  using assms
proof (cases rule: dx_step.cases)
  case (to_before m p r b R C)
  then show ?thesis using assms(2) by (auto simp: dxOk_def bothWays_def takeOver.simps)
next
  case (restart_swap st m p r b C)
  then show ?thesis using assms(2) by (auto simp: dxOk_def bothWays_def)
next
  case (restart_over m R R' C)
  then show ?thesis using assms(2) by (cases R; cases R') (auto simp: dxOk_def takeOver.simps)
qed (auto simp: dxOk_def bothWays_def)

lemma dxOk_reachable: "(dx_step arb)\<^sup>*\<^sup>* v v' \<Longrightarrow> dxOk arb nodes v \<Longrightarrow> dxOk arb nodes v'"
  by (induction rule: rtranclp_induct) (auto dest: dxOk_step)

section \<open>Refinement\<close>

definition dxQuiet :: "'w dxEnv \<Rightarrow> ('w \<Rightarrow> (node \<times> node) set) \<Rightarrow> bool" where
  "dxQuiet env severed \<longleftrightarrow> others_quiet (dxSet env) severed \<and> quiet severed (dxFlip env)"

definition dxView :: "('w \<Rightarrow> (node \<times> node) set) \<Rightarrow> 'w rbd \<Rightarrow> dxView" where
  "dxView severed s = (dxStage s, curRoleCycleMode s, dxRoles s, severed (dxWorld s))"

definition dxSeen :: "('w \<Rightarrow> (node \<times> node) set) \<Rightarrow> node list \<Rightarrow> dxView \<Rightarrow> 'w rbd \<Rightarrow> bool" where
  "dxSeen severed arb v s \<longleftrightarrow> arbiters s = arb \<and> dxView severed s = v"

lemma dx_transition:
  assumes "st' \<in> set (AcceptableTransitions st) \<Longrightarrow> returning (dxSeen severed arb (st', m, R, C)) k Q"
  shows "returning (dxSeen severed arb (st, m, R, C)) (seqE (dx_transitionIfAllowed st') k) Q"
  using assms by (cases "st' \<in> set (AcceptableTransitions st)")
    (auto simp: hoare_def dx_transitionIfAllowed_def js_simps dxSeen_def dxView_def dxRoles_def)

lemma dx_quiet: "quiet severed m \<Longrightarrow> keeps (dxSeen severed arb v) (onDx m)"
  by (rule keepsI) (simp add: quiet_def onDx_def dxSeen_def dxView_def dxRoles_def case_prod_beta)

lemma dx_disconnect:
  "bridges (dxSet env) severed \<Longrightarrow>
   returning (dxSeen severed arb (st, m, R, C)) (onDx (bridgeDisconnect (dxSet env) a bs)) (\<lambda>_. dxSeen severed arb (st, m, R, C \<union> bothWays a bs))"
  by (auto simp: bridges_def hoare_def onDx_def dxSeen_def dxView_def dxRoles_def split: prod.splits outcome.splits)

lemma dx_reconnect:
  "bridges (dxSet env) severed \<Longrightarrow>
   returning (dxSeen severed arb (st, m, R, C)) (onDx (bridgeReconnect (dxSet env) a bs)) (\<lambda>_. dxSeen severed arb (st, m, R, C - bothWays a bs))"
  by (auto simp: bridges_def hoare_def onDx_def dxSeen_def dxView_def dxRoles_def split: prod.splits outcome.splits)

lemma dx_setRoles: "returning (dxSeen severed arb (st, m, R, C)) (setRoles R') (\<lambda>_. dxSeen severed arb (st, m, R', C))"
  by (cases R') (auto simp: setRoles_def hoare_def js_simps dxSeen_def dxView_def dxRoles_def)

lemma dx_keeps:
  assumes "dxQuiet env severed"
  shows "keeps (dxSeen severed arb v) (dxWorked env (adminCommand (dxSet env) n cmd))"
    "keeps (dxSeen severed arb v) (dxWorked env (insertDoc (dxSet env) n db opts))"
    "keeps (dxSeen severed arb v) (adminCommandWorkedAllowingNetworkError env n cmd)"
    "keeps (dxSeen severed arb v) (awaitRollback env k n rbid)"
    "keeps (dxSeen severed arb v) (dx_checkDataConsistency env)"
proof -
  have env: "others_quiet (dxSet env) severed" using assms by (simp add: dxQuiet_def)
  note quiet = quiet_ops [OF env]
  show worked: "keeps (dxSeen severed arb v) (dxWorked env (adminCommand (dxSet env) n cmd))" for n cmd
    unfolding dxWorked_def by (auto intro!: keeps_rules dx_quiet quiet)
  show "keeps (dxSeen severed arb v) (dxWorked env (insertDoc (dxSet env) n db opts))"
    unfolding dxWorked_def by (auto intro!: keeps_rules dx_quiet quiet)
  show allowing: "keeps (dxSeen severed arb v) (adminCommandWorkedAllowingNetworkError env n cmd)" for n cmd
    unfolding adminCommandWorkedAllowingNetworkError_def by (auto intro!: keeps_rules worked)
  show "keeps (dxSeen severed arb v) (awaitRollback env k n rbid)"
    unfolding awaitRollback_def rbidReached_def Let_def by (auto intro!: keeps_rules allowing split: option.split)
  show "keeps (dxSeen severed arb v) (dx_checkDataConsistency env)"
    using env unfolding dx_checkDataConsistency_def Let_def others_quiet_def
    by (auto intro!: keeps_rules dx_quiet forEachE_quiet)
qed

definition dxTaken :: "('w \<Rightarrow> (node \<times> node) set) \<Rightarrow> node list \<Rightarrow> dxView \<Rightarrow> 'w rbd \<Rightarrow> bool" where
  "dxTaken severed arb v s \<longleftrightarrow> (case v of (st, m, R, C) \<Rightarrow> \<exists>R'. takeOver m R R' \<and> dxSeen severed arb (st, m, R', C) s)"

lemma dx_assignRoles:
  assumes "dxQuiet env severed"
  shows "returning (dxSeen severed arb (st, m, R, C)) (assignRoles env) (\<lambda>_. dxTaken severed arb (st, m, R, C))"
proof -
  obtain p r b where R: "R = (p, r, b)" by (cases R)
  have flip: "keeps (dxSeen severed arb v) (onDx (dxFlip env))" for v using assms by (intro dx_quiet) (simp add: dxQuiet_def)
  have roles: "returning (dxSeen severed arb (st, m, R, C)) (setRoles R') (\<lambda>_. dxTaken severed arb (st, m, R, C))"
    if "takeOver m R R'" for R'
    using that by (intro hoare_weaken [OF dx_setRoles [of severed arb st m R C R']]) (auto simp: dxTaken_def simp del: split_paired_Ex)
  have read: "dxSeen severed arb (st, m, R, C) s \<Longrightarrow> (curRoleCycleMode s, dxRoles s) = (m, p, r, b)" for s
    by (simp add: dxSeen_def dxView_def R)
  have take: "m \<noteq> kFixedRollbackSecondary \<Longrightarrow> takeOver m R (b, p, r)" "m \<noteq> kCyclical \<Longrightarrow> takeOver m R (b, r, p)"
    by (simp_all add: R takeOver.intros)
  show ?thesis
    unfolding assignRoles_def
  proof (rule returning_read [OF read], assumption, unfold prod.case)
    show "returning (dxSeen severed arb (st, m, R, C)) (case m of kCyclical \<Rightarrow> setRoles (b, p, r) | kFixedRollbackSecondary \<Rightarrow> setRoles (b, r, p)
        | kRandom \<Rightarrow> bindE (onDx (dxFlip env)) (\<lambda>swap. setRoles (if swap then (b, p, r) else (b, r, p)))) (\<lambda>_. dxTaken severed arb (st, m, R, C))"
      using roles [OF take(1)] roles [OF take(2)] by (cases m) (auto intro: hoare_bindE [OF returning_keeps [OF flip]])
  qed
qed

lemma dx_taken:
  assumes "\<And>R'. takeOver m R R' \<Longrightarrow> returning (dxSeen severed arb (st, m, R', C)) k Q"
  shows "returning (dxTaken severed arb (st, m, R, C)) k Q"
  unfolding hoare_def
proof (intro allI impI)
  fix s
  assume "dxTaken severed arb (st, m, R, C) s"
  then obtain R' where R': "takeOver m R R'" "dxSeen severed arb (st, m, R', C) s"
    by (auto simp: dxTaken_def simp del: split_paired_Ex)
  show "case k s of (Val x, s') \<Rightarrow> Q x s' | (_, s') \<Rightarrow> True"
    by (rule assms [OF R'(1), unfolded hoare_def, rule_format, OF R'(2)])
qed

lemma dx_rbid:
  "keeps (dxSeen severed arb v) (modE (\<lambda>s. s\<lparr>lastRollbackSecondaryRBID := x\<rparr>))"
  "keeps (dxSeen severed arb v) (modE (\<lambda>s. s\<lparr>lastStandbySecondaryRBID := x\<rparr>))"
  by (auto intro!: keepsI simp: dxSeen_def dxView_def dxRoles_def modE_def)

definition dxStepped :: "('w \<Rightarrow> (node \<times> node) set) \<Rightarrow> node list \<Rightarrow> dxView \<Rightarrow> 'w rbd \<Rightarrow> bool" where
  "dxStepped severed arb v s \<longleftrightarrow> (\<exists>v'. dxSeen severed arb v' s \<and> (dx_step arb)\<^sup>*\<^sup>* v v')"

lemma dx_stepped: "dx_step arb v v' \<Longrightarrow> dxSeen severed arb v' s \<Longrightarrow> dxStepped severed arb v s"
  unfolding dxStepped_def by blast

lemma dx_read:
  "returning (dxSeen severed arb (st, m, (p, r, b), C)) (f ((p, r, b), arb)) Q \<Longrightarrow>
   returning (dxSeen severed arb (st, m, (p, r, b), C)) (bindE (getE (\<lambda>s. (dxRoles s, arbiters s))) f) Q"
  by (rule returning_read) (auto simp: dxSeen_def dxView_def)

lemma dx_end: "c \<Longrightarrow> returning (dxSeen severed arb v) (getE g) (\<lambda>_ s. c \<and> dxSeen severed arb v s)"
  by (rule hoare_getE) simp

lemma dx_steps:
  "returning P m (\<lambda>_ s. c \<and> dxSeen severed arb v' s) \<Longrightarrow> (c \<Longrightarrow> dx_step arb v v') \<Longrightarrow> returning P m (\<lambda>_. dxStepped severed arb v)"
  by (erule hoare_weaken) (auto intro: dx_stepped)

text \<open>The documented behaviour of the environment, as for the fixture with three nodes; the coin touches no link either.\<close>

definition dxLawful :: "'w dxEnv \<Rightarrow> ('w \<Rightarrow> (node \<times> node) set) \<Rightarrow> bool" where
  "dxLawful env severed \<longleftrightarrow> bridges (dxSet env) severed \<and> dxQuiet env severed"

lemma dxLawfulD: "dxLawful env severed \<Longrightarrow> bridges (dxSet env) severed" "dxLawful env severed \<Longrightarrow> dxQuiet env severed"
  "dxLawful env severed \<Longrightarrow> others_quiet (dxSet env) severed"
  by (simp_all add: dxLawful_def dxQuiet_def)

lemmas dx_op = quiet_ops(3-8,11-14) [OF dxLawfulD(3), THEN dx_quiet, THEN returning_keeps, THEN hoare_seqE]
lemmas dx_primary = quiet_ops(9) [OF dxLawfulD(3), THEN dx_quiet, THEN returning_keeps, THEN hoare_bindE]
lemmas dx_request = dx_keeps [OF dxLawfulD(2), THEN returning_keeps]
lemmas dx_linked = dx_disconnect [OF dxLawfulD(1), THEN hoare_seqE] dx_reconnect [OF dxLawfulD(1), THEN hoare_seqE]

lemma to_rollback_exact:
  assumes lawful: "dxLawful env severed"
  shows "returning (dxSeen severed arb (st, m, (p, r, b), C)) (dx_transitionToRollbackOperations env)
     (\<lambda>_ s. st = kSteadyStateOps \<and> dxSeen severed arb (kRollbackOps, m, (p, r, b), C \<union> bothWays b (arb @ [p, r])) s)"
  unfolding dx_transitionToRollbackOperations_def
  by (rule dx_op(4) [OF lawful], rule dx_op(5) [OF lawful], rule dx_transition, rule dx_read, simp only: prod.case, rule dx_linked(1) [OF lawful], rule dx_end)
    (cases st; simp)

lemma to_during_exact:
  assumes lawful: "dxLawful env severed"
  shows "returning (dxSeen severed arb (st, m, (p, r, b), C)) (dx_transitionToSyncSourceOperationsDuringRollback env)
     (\<lambda>_ s. st = kSyncSourceOpsBeforeRollback \<and>
       dxSeen severed arb (kSyncSourceOpsDuringRollback, m, (p, r, b), C - bothWays r (arb @ [p]) - bothWays b (arb @ [p])) s)"
  unfolding dx_transitionToSyncSourceOperationsDuringRollback_def
  by (rule dx_transition, rule dx_read, simp only: prod.case, rule dx_linked(2) [OF lawful], rule dx_linked(2) [OF lawful], rule dx_end)
    (cases st; simp)

lemma stop_returns:
  assumes lawful: "dxLawful env severed"
  shows "returning (dxSeen severed arb (st, m, R, C)) (dxStop env) (\<lambda>_. dxStepped severed arb (st, m, R, C))"
  unfolding dxStop_def
  by (rule hoare_seqE [OF dx_request(5) [OF lawful]], rule dx_transition,
      rule hoare_weaken [OF returning_keeps [OF dx_quiet [OF quiet_ops(11) [OF dxLawfulD(3) [OF lawful]]]]], assumption, erule dx_stepped [rotated])
    (cases st; auto intro: dx_step.intros)

lemma to_steady_exact:
  assumes lawful: "dxLawful env severed"
  shows "returning (dxSeen severed arb (st, m, (p, r, b), C)) (dx_transitionToSteadyStateOperations env k)
     (\<lambda>_ s. st = kSyncSourceOpsDuringRollback \<and>
       dxSeen severed arb (kSteadyStateOps, m, (p, r, b), C - bothWays r (arb @ [p, b]) - bothWays b (arb @ [p])) s)"
proof -
  have wait: "keeps (dxSeen severed arb v) (if \<not> rollbackShutdowns (dxSet env)
      then bindE (getE lastRollbackSecondaryRBID) (\<lambda>lastR. seqE (awaitRollback env k r lastR)
        (bindE (getE lastStandbySecondaryRBID) (\<lambda>lastB. awaitRollback env k b lastB))) else ret ())" for v
    by (auto intro!: keeps_rules dx_keeps(4) [OF dxLawfulD(2) [OF lawful]])
  show ?thesis
    unfolding dx_transitionToSteadyStateOperations_def
    by (rule dx_read, simp only: prod.case, rule dx_linked(2) [OF lawful], rule dx_linked(2) [OF lawful], rule hoare_seqE [OF returning_keeps [OF wait]],
        rule dx_op(4) [OF lawful], rule dx_op(5) [OF lawful], rule dx_transition, rule hoare_seqE [OF dx_request(5) [OF lawful]], rule dx_end)
      (cases st; simp)
qed

lemma forced_returns:
  assumes lawful: "dxLawful env severed"
  shows "returning (dxSeen severed arb (st, m, (p, r, b), C)) (forceStepdownDuringRollbackOps env)
     (\<lambda>_. dxStepped severed arb (st, m, (p, r, b), C))"
  unfolding forceStepdownDuringRollbackOps_def
  by (rule returning_read [where x = "(st, p, r, b)"], simp add: dxSeen_def dxView_def, simp only: prod.case, rule returning_assert,
      rule hoare_bindE [OF dx_request(2) [OF lawful]], rule hoare_bindE [OF dx_request(1) [OF lawful]], rule dx_op(3) [OF lawful], rule dx_op(6) [OF lawful], rule dx_primary [OF lawful], rule returning_assert,
      rule hoare_seqE [OF dx_setRoles], rule hoare_getE, erule dx_stepped [rotated])
    (auto intro: dx_step.intros)

lemma to_before_exact:
  assumes lawful: "dxLawful env severed"
  shows "returning (dxSeen severed arb (st, m, (p, r, b), C)) (dx_transitionToSyncSourceOperationsBeforeRollback env)
     (\<lambda>_ s. \<exists>R. (st = kRollbackOps \<and> takeOver m (p, r, b) R) \<and>
       dxSeen severed arb (kSyncSourceOpsBeforeRollback, m, R, (C \<union> bothWays r arb \<union> bothWays p arb) - bothWays b arb) s)"
proof -
  let ?C = "(C \<union> bothWays r arb \<union> bothWays p arb) - bothWays b arb" and ?st = kSyncSourceOpsBeforeRollback
  have rbids: "returning (dxSeen severed arb v) (bindE (getE dxRoles) (\<lambda>(p', r', b').
     bindE (dxWorked env (adminCommand (dxSet env) r' (JStr ''replSetGetRBID''))) (\<lambda>res.
     seqE (modE (\<lambda>s. s\<lparr>lastRollbackSecondaryRBID := to_number (fld res ''rbid'')\<rparr>))
    (bindE (dxWorked env (adminCommand (dxSet env) b' (JStr ''replSetGetRBID''))) (\<lambda>res.
     seqE (modE (\<lambda>s. s\<lparr>lastStandbySecondaryRBID := to_number (fld res ''rbid'')\<rparr>)) (getE dxPrimary))))))
     (\<lambda>_. dxSeen severed arb v)" for v
    by (rule returning_keeps) (auto intro!: keeps_rules dx_keeps [OF dxLawfulD(2) [OF lawful]] dx_rbid)
  show ?thesis
    unfolding dx_transitionToSyncSourceOperationsBeforeRollback_def
    by (rule dx_transition, rule dx_read, simp only: prod.case, rule hoare_bindE [OF dx_request(2) [OF lawful]], rule dx_linked(1) [OF lawful], rule dx_linked(1) [OF lawful],
        rule hoare_bindE [OF dx_request(3) [OF lawful]], rule dx_op(3) [OF lawful], rule dx_linked(2) [OF lawful], rule dx_op(6) [OF lawful], rule dx_primary [OF lawful], rule returning_assert,
        rule hoare_seqE [OF dx_assignRoles [OF dxLawfulD(2) [OF lawful]]], rule dx_taken, rule hoare_weaken [OF rbids], assumption, intro exI conjI)
      (cases st; simp; assumption)+
qed

lemma restart_returns:
  assumes lawful: "dxLawful env severed"
  shows "returning (dxSeen severed arb (st, m, (p, r, b), C)) (dxRestartNode env i sig)
     (\<lambda>_. dxStepped severed arb (st, m, (p, r, b), C))"
proof -
  have roles: "returning (dxSeen severed arb (st, m, (p, r, b), C)) (dxRefreshRoles env) (\<lambda>_. dxStepped severed arb (st, m, (p, r, b), C))"
  proof -
    have swap: "returning (dxSeen severed arb (st, m, (p, r, b), C)) (setRoles (x, p, b)) (\<lambda>_. dxStepped severed arb (st, m, (p, r, b), C))"
      if "x = r" and "st = kSteadyStateOps \<or> st = kRollbackOps" for x
      by (rule hoare_weaken [OF dx_setRoles], assumption, erule dx_stepped [rotated]) (use that in \<open>auto intro: dx_step.intros\<close>)
    have over: "returning (dxSeen severed arb (st, m, (p, r, b), C)) (assignRoles env) (\<lambda>_. dxStepped severed arb (st, m, (p, r, b), C))"
      if "st = kSteadyStateOps"
      by (rule hoare_weaken [OF dx_assignRoles [OF dxLawfulD(2) [OF lawful]]], assumption)
        (use that in \<open>auto simp: dxTaken_def intro: dx_stepped [OF restart_over]\<close>)
    have same: "returning (dxSeen severed arb (st, m, (p, r, b), C)) (assertE c msg) (\<lambda>_. dxStepped severed arb (st, m, (p, r, b), C))" for c msg
      by (rule hoare_assertE) (auto simp: dxStepped_def simp del: split_paired_Ex)
    show ?thesis
      unfolding dxRefreshRoles_def
      by (rule dx_primary [OF lawful], rule returning_read [where x = "(st, p, r, b)"], simp add: dxSeen_def dxView_def, simp only: prod.case,
          intro hoare_if returning_assert; (rule same | erule over | erule (1) swap))
  qed
  have same: "returning (dxSeen severed arb (st, m, (p, r, b), C)) (ret ()) (\<lambda>_. dxStepped severed arb (st, m, (p, r, b), C))"
    by (rule hoare_ret) (auto simp: dxStepped_def simp del: split_paired_Ex)
  show ?thesis
    unfolding dxRestartNode_def Let_def
    by (rule returning_assert, rule returning_assert, rule hoare_seqE [where R = "dxSeen severed arb (st, m, (p, r, b), C)"])
      (auto intro!: hoare_ret hoare_raise same dx_op(8) [OF lawful] dx_op(9) [OF lawful] roles)
qed

lemma mode_returns:
  "returning (dxSeen severed arb (st, m, R, C)) (setRoleCycleMode name) (\<lambda>_. dxStepped severed arb (st, m, R, C))"
  unfolding setRoleCycleMode_def
  by (auto intro!: hoare_raise hoare_modE dx_stepped [OF dx_step.switched] split: option.split
      simp: dxSeen_def dxView_def dxRoles_def simp del: roleCycleModeOf.simps)

section \<open>Sequences of calls\<close>

interpretation deluxe: staged_fixture dxStage "\<lambda>st s. s\<lparr>dxStage := st\<rparr>" AcceptableTransitions dx_transitionIfAllowed
  by unfold_locales (simp_all add: dx_transitionIfAllowed_def js_simps)

datatype dxCall =
    DxToRollback
  | DxForceStepdown
  | DxToBefore
  | DxToDuring
  | DxToSteady nat
  | DxStop
  | DxRestart int int
  | DxMode string

fun dxRun :: "'w dxEnv \<Rightarrow> dxCall \<Rightarrow> ('w, unit) dxEff" where
  "dxRun env DxToRollback = bindE (dx_transitionToRollbackOperations env) (\<lambda>_. ret ())"
| "dxRun env DxForceStepdown = bindE (forceStepdownDuringRollbackOps env) (\<lambda>_. ret ())"
| "dxRun env DxToBefore = bindE (dx_transitionToSyncSourceOperationsBeforeRollback env) (\<lambda>_. ret ())"
| "dxRun env DxToDuring = bindE (dx_transitionToSyncSourceOperationsDuringRollback env) (\<lambda>_. ret ())"
| "dxRun env (DxToSteady k) = bindE (dx_transitionToSteadyStateOperations env k) (\<lambda>_. ret ())"
| "dxRun env DxStop = dxStop env"
| "dxRun env (DxRestart i sig) = dxRestartNode env i sig"
| "dxRun env (DxMode name) = setRoleCycleMode name"

lemma returning_void: "returning P m (\<lambda>_. Q) \<Longrightarrow> returning P (bindE m (\<lambda>_. ret ())) (\<lambda>_. Q)"
  by (erule hoare_bindE) (rule hoare_ret)

lemma to_before_steps:
  assumes "dxLawful env severed"
  shows "returning (dxSeen severed arb (st, m, (p, r, b), C)) (dx_transitionToSyncSourceOperationsBeforeRollback env)
     (\<lambda>_. dxStepped severed arb (st, m, (p, r, b), C))"
proof (rule hoare_weaken [OF to_before_exact [OF assms]], assumption)
  fix s
  assume "\<exists>R. (st = kRollbackOps \<and> takeOver m (p, r, b) R) \<and>
     dxSeen severed arb (kSyncSourceOpsBeforeRollback, m, R, (C \<union> bothWays r arb \<union> bothWays p arb) - bothWays b arb) s"
  then obtain R where st: "st = kRollbackOps" "takeOver m (p, r, b) R"
    and "dxSeen severed arb (kSyncSourceOpsBeforeRollback, m, R, (C \<union> bothWays r arb \<union> bothWays p arb) - bothWays b arb) s"
    by (auto simp del: split_paired_Ex)
  then show "dxStepped severed arb (st, m, (p, r, b), C) s" by (auto intro: dx_stepped to_before)
qed simp

lemma dxRun_steps:
  assumes "dxLawful env severed"
  shows "returning (dxSeen severed arb v) (dxRun env c) (\<lambda>_. dxStepped severed arb v)"
proof -
  obtain st m R C where "v = (st, m, R, C)" by (cases v)
  moreover obtain p r b where "R = (p, r, b)" by (cases R)
  ultimately have v: "v = (st, m, (p, r, b), C)" by simp
  note exact = to_rollback_exact [OF assms, THEN dx_steps] to_during_exact [OF assms, THEN dx_steps] to_steady_exact [OF assms, THEN dx_steps]
  show ?thesis
    unfolding v by (cases c) (auto intro!: returning_void exact forced_returns assms to_before_steps stop_returns restart_returns
        mode_returns dx_step.intros)
qed

text \<open>
  The five-node fixture refines its abstract machine: a sequence of method calls that all return, forced step-downs, restarts and
  changes of the mode included, moves stage, roles and cut links as the abstract machine may.  In every stage the three
  data nodes have distinct roles and exactly the links of the diagram of that stage are cut.\<close>

theorem deluxe_stages:
  assumes "dxLawful env severed" and "forEachE (dxRun env) calls s = (Val (), s')" and "dxOk (arbiters s) nodes (dxView severed s)"
  shows "(dx_step (arbiters s))\<^sup>*\<^sup>* (dxView severed s) (dxView severed s') \<and> dxOk (arbiters s) nodes (dxView severed s')"
proof -
  have "arbiters s' = arbiters s \<and> (dx_step (arbiters s))\<^sup>*\<^sup>* (dxView severed s) (dxView severed s')"
    using assms(2)
  proof (induction calls arbitrary: s)
    case (Cons c calls)
    then obtain s1 where 1: "dxRun env c s = (Val (), s1)" and rest: "forEachE (dxRun env) calls s1 = (Val (), s')"
      by (auto simp: seqE_Val)
    have "dxSeen severed (arbiters s) (dxView severed s) s" by (simp add: dxSeen_def)
    with dxRun_steps [OF assms(1), unfolded hoare_def, rule_format, OF this, of c] 1
    have "arbiters s1 = arbiters s" "(dx_step (arbiters s))\<^sup>*\<^sup>* (dxView severed s) (dxView severed s1)"
      by (auto simp: dxStepped_def dxSeen_def simp del: split_paired_Ex)
    with Cons.IH [OF rest] show ?case by (auto intro: rtranclp_trans)
  qed (simp add: ret_Val)
  with dxOk_reachable [OF _ assms(3)] show ?thesis by blast
qed

subsection \<open>Cycles\<close>

definition dxCycle :: "nat \<Rightarrow> dxCall list" where
  "dxCycle k = [DxToRollback, DxToBefore, DxToDuring, DxToSteady k]"

fun nextRoles :: "node \<times> node \<times> node \<Rightarrow> node \<times> node \<times> node" where
  "nextRoles (p, r, b) = (b, p, r)"

definition dxHas :: "roleCycleMode \<Rightarrow> node \<times> node \<times> node \<Rightarrow> 'w rbd \<Rightarrow> bool" where
  "dxHas m R s \<longleftrightarrow> curRoleCycleMode s = m \<and> dxRoles s = R"

lemma dx_has:
  fixes severed :: "'w \<Rightarrow> (node \<times> node) set"
  assumes "\<And>arb st C. returning (dxSeen severed arb (st, m, R, C)) c (\<lambda>_ s. c' arb st \<and> dxSeen severed arb (st', m, R', C' arb C) s)"
  shows "returning (dxHas m R) (bindE c (\<lambda>_. ret ())) (\<lambda>_. dxHas m R')"
  unfolding hoare_def
proof (intro allI impI)
  fix s :: "'w rbd"
  assume "dxHas m R s"
  then have "dxSeen severed (arbiters s) (dxStage s, m, R, severed (dxWorld s)) s" by (simp add: dxSeen_def dxView_def dxHas_def)
  from assms [unfolded hoare_def, rule_format, OF this]
  show "case bindE c (\<lambda>_. ret ()) s of (Val x, s') \<Rightarrow> dxHas m R' s' | (_, s') \<Rightarrow> True"
    by (auto simp: bindE_def ret_def dxSeen_def dxView_def dxHas_def split: prod.splits outcome.splits)
qed

lemma cycle_roles:
  assumes "dxLawful env severed"
  shows "returning (dxHas kCyclical R) (forEachE (dxRun env) (dxCycle k)) (\<lambda>_. dxHas kCyclical (nextRoles R))"
proof -
  obtain p r b where R: "R = (p, r, b)" by (cases R)
  have before: "returning (dxSeen severed arb (st, kCyclical, (p, r, b), C)) (dx_transitionToSyncSourceOperationsBeforeRollback env)
      (\<lambda>_ s. st = kRollbackOps \<and>
        dxSeen severed arb (kSyncSourceOpsBeforeRollback, kCyclical, (b, p, r), (C \<union> bothWays r arb \<union> bothWays p arb) - bothWays b arb) s)"
    for arb st C by (rule hoare_weaken [OF to_before_exact [OF assms]]) (auto simp: takeOver.simps)
  show ?thesis
    unfolding dxCycle_def forEachE.simps dxRun.simps R nextRoles.simps
    by (rule hoare_seqE [OF dx_has [OF to_rollback_exact [OF assms]]], rule hoare_seqE [OF dx_has [OF before]],
        rule hoare_seqE [OF dx_has [OF to_during_exact [OF assms]]], rule hoare_seqE [OF dx_has [OF to_steady_exact [OF assms]]]) (rule hoare_ret)
qed

lemma nextRoles_thrice: "(nextRoles ^^ 3) R = R"
  by (cases R) (simp add: eval_nat_numeral)

lemma cycles_roles:
  assumes "dxLawful env severed"
  shows "returning (dxHas kCyclical R) (forEachE (\<lambda>k. forEachE (dxRun env) (dxCycle k)) ks) (\<lambda>_. dxHas kCyclical ((nextRoles ^^ length ks) R))"
proof (induction ks arbitrary: R)
  case (Cons k ks)
  from hoare_seqE [OF cycle_roles [OF assms] Cons.IH] show ?case by (simp add: funpow_swap1)
qed (simp add: hoare_ret)

text \<open>
  C26. In the cyclic mode the roles nextRoles: each complete rollback cycle, from the steady state through the four stages back to it,
  gives every data node the next role, and after three cycles each node has its original role again.\<close>

theorem deluxe_cycles:
  assumes "dxLawful env severed" and "forEachE (\<lambda>k. forEachE (dxRun env) (dxCycle k)) ks s = (Val (), s')"
    and "curRoleCycleMode s = kCyclical"
  shows "dxRoles s' = (nextRoles ^^ length ks) (dxRoles s) \<and> (length ks = 3 \<longrightarrow> dxRoles s' = dxRoles s)"
proof -
  have "dxHas kCyclical (dxRoles s) s" using assms(3) by (simp add: dxHas_def)
  from cycles_roles [OF assms(1), unfolded hoare_def, rule_format, OF this, of ks] assms(2)
  have "dxRoles s' = (nextRoles ^^ length ks) (dxRoles s)" by (simp add: dxHas_def)
  then show ?thesis using nextRoles_thrice by auto
qed

text \<open>
  A node id outside the set is not skipped, although the code has a branch for it: the name of its host is read first, which
  throws.
\<close>

theorem restart_too_small_throws:
  assumes "nodeId \<ge> int (length (rstNodes (dxSet env)))" and "sig = SIGKILL \<or> sig = SIGTERM"
  shows "fst (dxRestartNode env nodeId sig s) = Throw (TypeErr ''has no properties'')"
  using assms by (auto simp: dxRestartNode_def Let_def js_simps)

section \<open>Concrete runs\<close>

text \<open>A set of five nodes whose world is the links, the rollback id and the order in which the standby nodes are elected.\<close>

type_synonym dxDemo = "(node \<times> node) set \<times> nat \<times> node list"

definition dxDemoSet :: "dxDemo rbEnv" where
  "dxDemoSet = \<lparr>rbShell = exampleShell, rollbackShutdowns = True, allowUncleanShutdowns = False,
     bridgeDisconnect = (\<lambda>a bs. modE (\<lambda>(C, i, q). (C \<union> bothWays a bs, i, q))),
     bridgeReconnect = (\<lambda>a bs. modE (\<lambda>(C, i, q). (C - bothWays a bs, Suc i, q))),
     adminCommand = (\<lambda>_ _. ret (JObj [(''ok'', jnum 1), (''rbid'', jnum 1)])),
     insertDoc = (\<lambda>_ _ _. ret (JObj [(''ok'', jnum 1)])),
     stopServerReplication = (\<lambda>_. ret ()), restartServerReplication = (\<lambda>_. ret ()), waitForState = (\<lambda>_ _. ret ()),
     awaitSecondaryNodes = ret (), awaitReplication = (\<lambda>_. ret ()), awaitStepUp = (\<lambda>_. ret ()),
     rstGetPrimary = bindE (getE (\<lambda>(_, _, q). hd q)) (\<lambda>n. seqE (modE (\<lambda>(C, i, q). (C, i, tl q))) (ret n)), rstGetSecondary = ret ''b'',
     rstNodes = [''a'', ''b'', ''c'', ''d'', ''e''], waitForDrops = (\<lambda>_. ret ()),
     checkCollectionCounts = ret (), checkOplogs = ret (), checkReplicatedDataHashes = ret (), validateNodes = ret (), stopSet = ret (),
     stopNode = (\<lambda>_ _ _. ret ()), startNode = (\<lambda>_ _. ret ()), freezeNode = (\<lambda>_. ret ()), kForeverSecs = jnum 86400,
     exitSigkill = jnum 9\<rparr>"

definition dxDemoEnv :: "dxDemo dxEnv" where
  "dxDemoEnv = \<lparr>dxSet = dxDemoSet, rstGetArbiters = ret [''d'', ''e''], rstGetSecondaries = ret [''b'', ''c''], dxFlip = ret True\<rparr>"

definition dxDemoStart :: "dxDemo rbd" where
  "dxDemoStart = \<lparr>dxStage = kSteadyStateOps, curRoleCycleMode = kCyclical, dxPrimary = ''a'', rollbackSecondary = ''b'',
     standbySecondary = ''c'', arbiters = [''d'', ''e''], lastRollbackSecondaryRBID = Fin 0, lastStandbySecondaryRBID = Fin 0,
     dxWorld = ({}, 0, [''c'', ''b'', ''a''])\<rparr>"

lemma dxDemo_lawful: "dxLawful dxDemoEnv fst"
  by (auto simp: dxLawful_def dxQuiet_def bridges_def others_quiet_def quiet_def dxDemoEnv_def dxDemoSet_def js_simps split: prod.splits)

theorem deluxe_cycles_witness:
  "fst (forEachE (\<lambda>k. forEachE (dxRun dxDemoEnv) (dxCycle k)) [0, 0, 0] dxDemoStart) = Val () \<and>
   dxRoles (snd (forEachE (\<lambda>k. forEachE (dxRun dxDemoEnv) (dxCycle k)) [0, 0, 0] dxDemoStart)) = dxRoles dxDemoStart"
proof -
  let ?run = "forEachE (\<lambda>k. forEachE (dxRun dxDemoEnv) (dxCycle k)) [0, 0, 0] dxDemoStart"
  have "fst ?run = Val ()" by code_simp
  moreover from this have "?run = (Val (), snd ?run)" by (metis prod.collapse)
  have mode: "curRoleCycleMode dxDemoStart = kCyclical" by (simp add: dxDemoStart_def)
  from deluxe_cycles [OF dxDemo_lawful \<open>?run = (Val (), snd ?run)\<close> mode, THEN conjunct2, THEN mp]
  have "dxRoles (snd ?run) = dxRoles dxDemoStart" by simp
  ultimately show ?thesis by blast
qed

theorem deluxe_stages_witness:
  "fst (forEachE (dxRun dxDemoEnv) (dxCycle 0) dxDemoStart) = Val () \<and>
   dxOk [''d'', ''e''] {''a'', ''b'', ''c''} (dxView fst (snd (forEachE (dxRun dxDemoEnv) (dxCycle 0) dxDemoStart)))"
proof -
  let ?run = "forEachE (dxRun dxDemoEnv) (dxCycle 0) dxDemoStart"
  have "fst ?run = Val ()" by code_simp
  moreover from this have "?run = (Val (), snd ?run)" by (metis prod.collapse)
  moreover have "dxOk (arbiters dxDemoStart) {''a'', ''b'', ''c''} (dxView fst dxDemoStart)"
    by (simp add: dxOk_def dxView_def dxRoles_def dxDemoStart_def)
  ultimately show ?thesis using deluxe_stages [OF dxDemo_lawful, of "dxCycle 0" dxDemoStart "snd ?run"]
    by (auto simp: dxDemoStart_def)
qed

end
