(* ===== verification/Command_Sequence.thy ===== *)
theory Command_Sequence
  imports Shell
begin

text \<open>
  \<open>libs/command_sequence_with_retries.js\<close>: a sequence of steps on a connection, each run a second time after a network
  error.  A step is the name of its phase and an action on a world; what an action returns is a value of the shell.
\<close>

section \<open>The sequence\<close>

record 's seqEnv =
  sqShell :: shell
  sqPing :: "('s, jsval) eff"           \<comment> \<open>\<open>conn.adminCommand({ping: 1})\<close>\<close>

type_synonym 's seqStep = "string \<times> ('s, jsval) eff"

definition attemptReconnect :: "'s seqEnv \<Rightarrow> ('s, bool) eff" where
  "attemptReconnect env = tryCatch (bindE (sqPing env) (\<lambda>_. ret True)) (\<lambda>_. ret False)"

definition seqThen :: "'s seqStep list \<Rightarrow> string \<Rightarrow> ('s, jsval) eff \<Rightarrow> 's seqStep list" where
  "seqThen steps phase action = steps @ [(phase, action)]"

definition givingUp :: "string \<Rightarrow> string \<Rightarrow> jsval" where
  "givingUp phase why = JObj [(''ok'', jnum 0), (''msg'', JStr (''giving up after '' @ phase @ why))]"

definition seqDone :: jsval where
  "seqDone = JObj [(''ok'', jnum 1)]"

text \<open>
  How a turn of the loop ends: with a result, with the same step once more, or with the next step.  A step that had its network
  error does not end with \<open>Again\<close>, so the loop has no third turn for it.
\<close>

datatype seqTurn = Return jsval | Again | Onward

text \<open>The text of a reason is a parameter.\<close>

definition tryStep :: "(jsval \<Rightarrow> string) \<Rightarrow> string \<Rightarrow> ('s, jsval) eff \<Rightarrow> ('s, seqTurn) eff" where
  "tryStep toText phase action =
     bindE action (\<lambda>result.
     if result = Undef then ret Onward
     else bindE (liftE (get_prop result ''shouldStop'')) (\<lambda>stop.
       if truthy stop then ret (Return (givingUp phase ('': '' @ toText (fld result ''reason'')))) else ret Onward))"

definition failedStep :: "'s seqEnv \<Rightarrow> string \<Rightarrow> bool \<Rightarrow> exn \<Rightarrow> ('s, seqTurn) eff" where
  "failedStep env phase stepHadNetworkErrorAlready e =
     (if \<not> isNetworkError (sqShell env) e then raise e
      else if stepHadNetworkErrorAlready
      then ret (Return (givingUp phase '' because we encountered multiple network errors''))
      else bindE (attemptReconnect env) (\<lambda>ok.
        ret (if ok then Again else Return (givingUp phase '' because attempting to reconnect failed''))))"

function (sequential) seqLoop :: "'s seqEnv \<Rightarrow> (jsval \<Rightarrow> string) \<Rightarrow> 's seqStep list \<Rightarrow> bool \<Rightarrow> ('s, jsval) eff" where
  "seqLoop env toText [] stepHadNetworkErrorAlready = ret seqDone"
| "seqLoop env toText ((phase, action) # steps) stepHadNetworkErrorAlready =
     bindE (tryCatch (tryStep toText phase action) (failedStep env phase stepHadNetworkErrorAlready)) (\<lambda>turn.
     case turn of
       Return res \<Rightarrow> ret res
     | Again \<Rightarrow> (if stepHadNetworkErrorAlready then diverge else seqLoop env toText ((phase, action) # steps) True)
     | Onward \<Rightarrow> seqLoop env toText steps False)"
  by pat_completeness auto
termination
  by (relation "measure (\<lambda>(_, _, steps, again). 2 * length steps + (if again then 0 else 1))") auto

declare seqLoop.simps [simp del]

definition execute :: "'s seqEnv \<Rightarrow> (jsval \<Rightarrow> string) \<Rightarrow> 's seqStep list \<Rightarrow> ('s, jsval) eff" where
  "execute env toText steps = seqLoop env toText steps False"

section \<open>Properties\<close>

definition goesOn :: "jsval \<Rightarrow> bool" where
  "goesOn result \<longleftrightarrow> result = Undef \<or> result \<noteq> Null \<and> \<not> truthy (fld result ''shouldStop'')"

text \<open>A step throws when its action does, or when it returns null, which has no properties.\<close>

definition stepThrows :: "('s, jsval) eff \<Rightarrow> 's \<Rightarrow> exn \<Rightarrow> 's \<Rightarrow> bool" where
  "stepThrows action s e s1 \<longleftrightarrow> action s = (Throw e, s1) \<or> action s = (Val Null, s1) \<and> e = TypeErr ''has no properties''"

text \<open>
  What a successful execution does to the world: every step in its order, once, or a second time after a network
  error and a ping that was answered.
\<close>

inductive seqRun :: "'s seqEnv \<Rightarrow> 's seqStep list \<Rightarrow> 's \<Rightarrow> 's \<Rightarrow> bool" for env where
  finished: "seqRun env [] s s"
| once: "action s = (Val result, s1) \<Longrightarrow> goesOn result \<Longrightarrow> seqRun env steps s1 s' \<Longrightarrow> seqRun env ((phase, action) # steps) s s'"
| twice: "stepThrows action s e s1 \<Longrightarrow> isNetworkError (sqShell env) e \<Longrightarrow> sqPing env s1 = (Val pong, s2) \<Longrightarrow>
    action s2 = (Val result, s3) \<Longrightarrow> goesOn result \<Longrightarrow> seqRun env steps s3 s' \<Longrightarrow> seqRun env ((phase, action) # steps) s s'"

inductive_cases seqRun_NilE: "seqRun env [] s s'"
inductive_cases seqRun_ConsE: "seqRun env ((phase, action) # steps) s s'"

lemma givingUp_not_done: "givingUp phase why \<noteq> seqDone" "seqDone \<noteq> givingUp phase why"
  by (auto simp: givingUp_def seqDone_def)

lemma tryStep_run:
  "tryStep toText phase action s =
     (case action s of
        (Val result, s1) \<Rightarrow>
          (if result = Null then Throw (TypeErr ''has no properties'')
           else if goesOn result then Val Onward
           else Val (Return (givingUp phase ('': '' @ toText (fld result ''reason'')))), s1)
      | (Throw e, s1) \<Rightarrow> (Throw e, s1)
      | (Diverge, s1) \<Rightarrow> (Diverge, s1))"
  by (auto simp: tryStep_def goesOn_def bindE_def liftE_def get_prop_def ret_def raise_def fld_def split: prod.split outcome.split)

lemma attemptReconnect_run:
  "attemptReconnect env s = (case sqPing env s of (Val _, s1) \<Rightarrow> (Val True, s1) | (Throw _, s1) \<Rightarrow> (Val False, s1) | (Diverge, s1) \<Rightarrow> (Diverge, s1))"
  by (auto simp: attemptReconnect_def tryCatch_def bindE_def ret_def split: prod.split outcome.split)

lemma bind_tryCatch:
  "bindE (tryCatch m h) k s =
     (case m s of (Val x, s1) \<Rightarrow> k x s1 | (Throw e, s1) \<Rightarrow> bindE (h e) k s1 | (Diverge, s1) \<Rightarrow> (Diverge, s1))"
  by (auto simp: bindE_def tryCatch_def split: prod.split outcome.split)

text \<open>The loop, step by step.\<close>

lemma seqLoop_first:
  "seqLoop env toText ((phase, action) # steps) False s = (Val seqDone, s') \<longleftrightarrow>
     (\<exists>result s1. action s = (Val result, s1) \<and> goesOn result \<and> seqLoop env toText steps False s1 = (Val seqDone, s')) \<or>
     (\<exists>e s1 pong s2. stepThrows action s e s1 \<and> isNetworkError (sqShell env) e \<and> sqPing env s1 = (Val pong, s2) \<and>
        seqLoop env toText ((phase, action) # steps) True s2 = (Val seqDone, s'))"
proof -
  let ?onward = "\<lambda>s1. seqLoop env toText steps False s1" and ?again = "\<lambda>s2. seqLoop env toText ((phase, action) # steps) True s2"
  have failed: "bindE (failedStep env phase False e) (\<lambda>turn. case turn of Return res \<Rightarrow> ret res | Again \<Rightarrow> ?again | Onward \<Rightarrow> ?onward) s1 = (Val seqDone, s') \<longleftrightarrow>
      isNetworkError (sqShell env) e \<and> (\<exists>pong s2. sqPing env s1 = (Val pong, s2) \<and> ?again s2 = (Val seqDone, s'))" for e s1
    by (cases "sqPing env s1"; cases "fst (sqPing env s1)")
      (auto simp: bindE_def failedStep_def attemptReconnect_run ret_def raise_def givingUp_not_done)
  have run: "seqLoop env toText ((phase, action) # steps) False s =
      bindE (tryCatch (tryStep toText phase action) (failedStep env phase False))
        (\<lambda>turn. case turn of Return res \<Rightarrow> ret res | Again \<Rightarrow> ?again | Onward \<Rightarrow> ?onward) s" by (simp add: seqLoop.simps(2) [of env toText phase action steps False])
  obtain r s1 where action: "action s = (r, s1)" by fastforce
  show ?thesis
  proof (cases r)
    case (Val result)
    then show ?thesis
      by (cases "result = Null")
        (auto simp: run bind_tryCatch tryStep_run action failed stepThrows_def goesOn_def ret_def givingUp_not_done)
  qed (auto simp: run bind_tryCatch tryStep_run action failed stepThrows_def)
qed

lemma seqLoop_second:
  "seqLoop env toText ((phase, action) # steps) True s = (Val seqDone, s') \<longleftrightarrow>
     (\<exists>result s1. action s = (Val result, s1) \<and> goesOn result \<and> seqLoop env toText steps False s1 = (Val seqDone, s'))"
proof (cases "action s")
  case (Pair r s1)
  then show ?thesis
    by (cases r) (auto simp: seqLoop.simps(2) [of env toText phase action steps True] bindE_def tryCatch_def tryStep_run failedStep_def
      ret_def raise_def givingUp_not_done goesOn_def)
qed

text \<open>
  C27. A sequence of commands succeeds exactly if its steps do: \<open>execute\<close> returns \<open>{ok: 1}\<close> if and only if every step, in
  order, returns without asking to stop, at the first attempt or, after a network error and an answered ping, at the
  second.\<close>

theorem sequence_exact: "execute env toText steps s = (Val seqDone, s') \<longleftrightarrow> seqRun env steps s s'"
  unfolding execute_def
proof (induction steps arbitrary: s)
  case Nil
  show ?case by (auto simp: ret_def seqLoop.simps(1) intro: finished elim: seqRun_NilE)
next
  case (Cons step steps)
  obtain phase action where step: "step = (phase, action)" by fastforce
  show ?case
    unfolding step seqLoop_first seqLoop_second Cons.IH by (blast intro: once twice elim: seqRun_ConsE)
qed

text \<open>
  However the sequence ends, its actions run at most twice each: a quantity that an action raises by at most one and the ping leaves
  alone rises by at most twice the number of steps.
\<close>

lemma raisesBy_tryStep: "raisesBy n k action \<Longrightarrow> raisesBy n k (tryStep toText phase action)"
  by (auto simp: raisesBy_def tryStep_run split: prod.split outcome.split) (metis snd_conv)+

lemma raisesBy_failedStep: "raisesBy n 0 (sqPing env) \<Longrightarrow> raisesBy n 0 (failedStep env phase b e)"
proof -
  assume "raisesBy n 0 (sqPing env)"
  then have "raisesBy n 0 (attemptReconnect env)"
    by (auto simp: raisesBy_def attemptReconnect_run split: prod.split outcome.split) (metis snd_conv)+
  then have "raisesBy n (0 + 0) (bindE (attemptReconnect env) (\<lambda>ok. ret (g ok)))" for g :: "bool \<Rightarrow> seqTurn"
    by (rule raisesBy_bind) (rule raisesBy_pure)
  then show ?thesis by (simp add: failedStep_def raisesBy_pure)
qed

lemma seqLoop_attempts:
  assumes "raisesBy n 0 (sqPing env)" and "\<And>phase action. (phase, action) \<in> set steps \<Longrightarrow> raisesBy n 1 action"
  shows "raisesBy n (if again then 2 * length steps - 1 else 2 * length steps) (seqLoop env toText steps again)"
  using assms
proof (induction env toText steps again rule: seqLoop.induct)
  case (2 env toText phase action steps again)
  let ?k = "if again then 2 * length steps else 2 * length steps + 1"
  have "raisesBy n 1 (tryCatch (tryStep toText phase action) (failedStep env phase again))"
    using 2(3,4) by (intro raisesBy_tryCatch raisesBy_tryStep raisesBy_failedStep) auto
  moreover have "raisesBy n ?k (case turn of Return res \<Rightarrow> ret res
      | Again \<Rightarrow> (if again then diverge else seqLoop env toText ((phase, action) # steps) True)
      | Onward \<Rightarrow> seqLoop env toText steps False)" for turn
  proof (cases turn)
    case Onward
    have "raisesBy n 1 a" if "(ph, a) \<in> set steps" for ph a by (rule 2(4) [of ph]) (simp add: that)
    from 2(2) [OF 2(3) this] have "raisesBy n (2 * length steps) (seqLoop env toText steps False)" by simp
    then show ?thesis using Onward by (auto intro: raisesBy_mono)
  qed (use 2 in \<open>auto intro: raisesBy_pure\<close>)
  ultimately have "raisesBy n (1 + ?k) (seqLoop env toText ((phase, action) # steps) again)"
    unfolding seqLoop.simps(2) [of env toText phase action steps again] by (rule raisesBy_bind)
  then show ?case by (auto split: if_splits)
qed (simp add: raisesBy_pure seqLoop.simps(1))

theorem sequence_attempts:
  assumes "\<And>phase action. (phase, action) \<in> set steps \<Longrightarrow> raisesBy n 1 action" and "raisesBy n 0 (sqPing env)"
  shows "raisesBy n (2 * length steps) (execute env toText steps)"
  using seqLoop_attempts [where again = False and toText = toText, OF assms(2,1)] unfolding execute_def by simp

end
