(* ===== verification/Manual_Intervention.thy ===== *)
theory Manual_Intervention
  imports Shell
begin

text \<open>
  The override \<open>mongos_manual_intervention_actions.js\<close>: a command that fails because an earlier attempt left chunks behind is
  cleaned up after and sent again, ten times at most.  The removal of the chunks goes on while the server removes any, so
  it takes fuel; the text of a value that is not a string is a parameter.
\<close>

section \<open>Cleaning up\<close>

record 's miEnv =
  miShell :: shell
  miText :: "jsval \<Rightarrow> string"
  miRunCommand :: "string \<Rightarrow> jsval \<Rightarrow> jsval \<Rightarrow> ('s, jsval) eff"      \<comment> \<open>\<open>mongoRunCommandOriginal\<close>\<close>
  miRemoveChunk :: "jsval \<Rightarrow> ('s, jsval) eff"                     \<comment> \<open>one chunk of a namespace, with majority\<close>
  miDbCommand :: "string \<Rightarrow> jsval \<Rightarrow> ('s, jsval) eff"

fun removeChunks :: "'s miEnv \<Rightarrow> nat \<Rightarrow> jsval \<Rightarrow> ('s, unit) eff" where
  "removeChunks env 0 ns = diverge"
| "removeChunks env (Suc fuel) ns =
     bindE (miRemoveChunk env ns) (\<lambda>writeRes.
     seqE (checkE (commandWorked (miShell env) writeRes))
     (if num_less (Fin 0) (to_number (fld writeRes ''nRemoved'')) then removeChunks env fuel ns else ret ()))"

definition removePartiallyWrittenChunks :: "'s miEnv \<Rightarrow> nat \<Rightarrow> jsval \<Rightarrow> ('s, unit) eff" where
  "removePartiallyWrittenChunks env fuel ns = removeChunks env fuel ns"

text \<open>\<open>ns.split(".")\<close>, of which the first two parts are used.\<close>

fun dotParts :: "string \<Rightarrow> string list" where
  "dotParts [] = [[]]"
| "dotParts (c # cs) =
     (if c = CHR ''.'' then [] # dotParts cs
      else case dotParts cs of [] \<Rightarrow> [[c]] | part # parts \<Rightarrow> (c # part) # parts)"

definition dropTarget :: "string \<Rightarrow> string \<times> jsval" where
  "dropTarget ns = (case dotParts ns of
      dbName # collName # _ \<Rightarrow> (dbName, JStr collName)
    | dbName # _ \<Rightarrow> (dbName, Undef)
    | [] \<Rightarrow> ([], Undef))"

definition removePartiallyWrittenChunksAndDropCollection :: "'s miEnv \<Rightarrow> nat \<Rightarrow> string \<Rightarrow> ('s, unit) eff" where
  "removePartiallyWrittenChunksAndDropCollection env fuel ns =
     seqE (removeChunks env fuel (JStr ns))
    (let (dbName, collName) = dropTarget ns in
     bindE (miDbCommand env dbName (JObj [(''drop'', collName), (''writeConcern'', JObj [(''w'', JStr ''majority'')])])) (\<lambda>res.
     checkE (commandWorked (miShell env) res)))"

section \<open>The override\<close>

definition commandsToRetry :: "string list" where
  "commandsToRetry = [''mapReduce'', ''mapreduce'', ''shardCollection'', ''shardcollection'']"

definition needsIntervention :: "'s miEnv \<Rightarrow> jsval \<Rightarrow> bool" where
  "needsIntervention env res \<longleftrightarrow>
     \<not> strict_eq (fld res ''ok'') (jnum 1) \<and> strict_eq (fld res ''code'') (errorCode (miShell env) ''ManualInterventionRequired'')"

text \<open>The name of the output collection, or \<open>None\<close> where the option has neither form.\<close>

definition outCollName :: "jsval \<Rightarrow> jsval option result" where
  "outCollName out =
     (if typeof out = ''string'' then Inr (Some out)
      else if typeof out = ''object''
      then rbind (get_prop out ''replace'') (\<lambda>r. Inr (Some (js_or r (js_or (fld out ''merge'') (fld out ''reduce'')))))
      else Inr None)"

definition asText :: "'s miEnv \<Rightarrow> jsval \<Rightarrow> string" where
  "asText env v = (case v of JStr s \<Rightarrow> s | _ \<Rightarrow> miText env v)"

definition outNamespace :: "'s miEnv \<Rightarrow> string \<Rightarrow> jsval \<Rightarrow> jsval \<Rightarrow> string" where
  "outNamespace env dbName out coll = asText env (js_or (fld out ''db'') (JStr dbName)) @ ''.'' @ asText env coll"

text \<open>The clean-up after a failed attempt; the result tells whether to send the command again.\<close>

definition intervene :: "'s miEnv \<Rightarrow> nat \<Rightarrow> string \<Rightarrow> string \<Rightarrow> jsval \<Rightarrow> ('s, bool) eff" where
  "intervene env fuel dbName cmdName cmdObj =
     (if cmdName = ''shardCollection'' \<or> cmdName = ''shardcollection''
      then seqE (removePartiallyWrittenChunks env fuel (fld cmdObj cmdName)) (ret True)
      else if cmdName = ''mapReduce'' \<or> cmdName = ''mapreduce''
      then bindE (liftE (outCollName (fld cmdObj ''out''))) (\<lambda>name.
        case name of
          None \<Rightarrow> ret False
        | Some coll \<Rightarrow>
            seqE (removePartiallyWrittenChunksAndDropCollection env fuel (outNamespace env dbName (fld cmdObj ''out'') coll)) (ret True))
      else ret True)"

definition maxAttempts :: nat where "maxAttempts = 10"

text \<open>\<open>left\<close> is how many further attempts there may be.\<close>

fun interventionLoop :: "'s miEnv \<Rightarrow> nat \<Rightarrow> string \<Rightarrow> string \<Rightarrow> jsval \<Rightarrow> jsval \<Rightarrow> nat \<Rightarrow> ('s, jsval) eff" where
  "interventionLoop env fuel dbName cmdName cmdObj options left =
     bindE (miRunCommand env dbName cmdObj options) (\<lambda>res.
     seqE (liftE (rbind (get_prop res ''ok'') (\<lambda>_. Inr ())))
     (if \<not> needsIntervention env res then ret res
      else case left of
          0 \<Rightarrow> ret res
        | Suc left' \<Rightarrow>
            bindE (intervene env fuel dbName cmdName cmdObj) (\<lambda>again.
            if again then interventionLoop env fuel dbName cmdName cmdObj options left' else ret res)))"

declare interventionLoop.simps [simp del]

definition mi_runCommand :: "'s miEnv \<Rightarrow> nat \<Rightarrow> string \<Rightarrow> jsval \<Rightarrow> jsval \<Rightarrow> ('s, jsval) eff" where
  "mi_runCommand env fuel dbName cmdObj options =
     bindE (liftE (object_keys cmdObj)) (\<lambda>ks.
     case ks of
       [] \<Rightarrow> miRunCommand env dbName cmdObj options
     | cmdName # _ \<Rightarrow>
         if cmdName \<notin> set commandsToRetry then miRunCommand env dbName cmdObj options
         else interventionLoop env fuel dbName cmdName cmdObj options (maxAttempts - 1))"

section \<open>Properties\<close>

text \<open>The documented behaviour of the removal: it removes a chunk of the namespace as long as there is one, and reports it.\<close>

definition removesChunks :: "'s miEnv \<Rightarrow> jsval \<Rightarrow> ('s \<Rightarrow> nat) \<Rightarrow> bool" where
  "removesChunks env ns chunks \<longleftrightarrow>
     (\<forall>s. \<exists>res s'. miRemoveChunk env ns s = (Val res, s') \<and> commandWorked (miShell env) res = None \<and>
        chunks s' = chunks s - 1 \<and> num_less (Fin 0) (to_number (fld res ''nRemoved'')) = (chunks s > 0))"

lemma removeChunks_clears:
  assumes "removesChunks env ns chunks" and "chunks s < fuel"
  shows "\<exists>s'. removeChunks env fuel ns s = (Val (), s') \<and> chunks s' = 0"
  using assms(2)
proof (induction fuel arbitrary: s)
  case (Suc fuel)
  from assms(1) obtain res s1 where 1: "miRemoveChunk env ns s = (Val res, s1)" "commandWorked (miShell env) res = None"
    "chunks s1 = chunks s - 1" "num_less (Fin 0) (to_number (fld res ''nRemoved'')) = (chunks s > 0)"
    unfolding removesChunks_def by blast
  show ?case
  proof (cases "chunks s = 0")
    case True
    with 1 show ?thesis by (simp add: js_simps)
  next
    case False
    with 1 Suc.prems Suc.IH [of s1] show ?thesis by (simp add: js_simps)
  qed
qed simp

text \<open>
  A command to shard a collection that meets chunks of an earlier attempt recovers: when the command works as soon as its namespace
  has no chunks, and may ask for intervention otherwise, the override returns its success, after two attempts at most; the fuel
  of the removal has to exceed the number of chunks.\<close>

theorem intervention_recovers:
  fixes env :: "'s miEnv"
  assumes "cmdObj = JObj ((cmdName, ns) # kvs)" and "cmdName = ''shardCollection'' \<or> cmdName = ''shardcollection''"
    and "removesChunks env ns chunks" and "chunks s < fuel"
    and works: "\<And>s. \<exists>res s'. miRunCommand env dbName cmdObj options s = (Val res, s') \<and> res \<noteq> Undef \<and> res \<noteq> Null \<and>
       (fld res ''ok'' = jnum 1 \<or> chunks s > 0 \<and> needsIntervention env res \<and> chunks s' \<le> chunks s)"
  shows "\<exists>res s'. mi_runCommand env fuel dbName cmdObj options s = (Val res, s') \<and> fld res ''ok'' = jnum 1"
proof -
  have name: "fld cmdObj cmdName = ns" using assms(1) by (simp add: fld_def)
  have good: "\<not> needsIntervention env res" if "fld res ''ok'' = jnum 1" for res
    using that by (simp add: needsIntervention_def strict_eq_def)
  have ok: "liftE (rbind (get_prop res ''ok'') (\<lambda>_. Inr ())) s = (Val (), s)" if "res \<noteq> Undef" "res \<noteq> Null" for res and s :: 's
    using that by (simp add: get_prop_def rbind_def liftE_def ret_def)
  have clean: "\<exists>res s'. interventionLoop env fuel dbName cmdName cmdObj options k s = (Val res, s') \<and> fld res ''ok'' = jnum 1"
    if "chunks s = 0" for k s
    using works [of s] that by (auto simp: interventionLoop.simps [of _ _ _ _ _ _ k] js_simps good ok)
  obtain res s1 where 1: "miRunCommand env dbName cmdObj options s = (Val res, s1)" "res \<noteq> Undef" "res \<noteq> Null"
    "fld res ''ok'' = jnum 1 \<or> needsIntervention env res \<and> chunks s1 \<le> chunks s" using works [of s] by blast
  have run: "mi_runCommand env fuel dbName cmdObj options s = interventionLoop env fuel dbName cmdName cmdObj options 9 s"
    using assms(1,2) by (auto simp: mi_runCommand_def js_simps object_keys_def obj_keys_def commandsToRetry_def maxAttempts_def)
  show ?thesis
  proof (cases "needsIntervention env res")
    case False
    with 1 show ?thesis unfolding run by (simp add: interventionLoop.simps [of _ _ _ _ _ _ 9] js_simps ok)
  next
    case True
    have "chunks s1 < fuel" using 1(4) good True assms(4) by auto
    from removeChunks_clears [OF assms(3) this] obtain s2 where 2: "removeChunks env fuel ns s1 = (Val (), s2)" "chunks s2 = 0" by blast
    have "intervene env fuel dbName cmdName cmdObj s1 = (Val True, s2)"
      using assms(2) 2(1) by (auto simp: intervene_def removePartiallyWrittenChunks_def name js_simps)
    then have "interventionLoop env fuel dbName cmdName cmdObj options (Suc k) s = interventionLoop env fuel dbName cmdName cmdObj options k s2" for k
      using 1 True by (simp add: interventionLoop.simps [of _ _ _ _ _ _ "Suc k"] js_simps ok)
    from this [of 8] clean [OF 2(2)] show ?thesis unfolding run by simp
  qed
qed

text \<open>However the override ends, it sends the command ten times at most.\<close>

lemma raisesBy_checkE: "raisesBy n k (checkE r)" and raisesBy_liftE: "raisesBy n k (liftE x)"
  by (simp_all add: raisesBy_def checkE_def liftE_def ret_def raise_def split: option.split sum.split)

lemma raisesBy_seq: "raisesBy n j m \<Longrightarrow> raisesBy n k m' \<Longrightarrow> raisesBy n (j + k) (seqE m m')"
  unfolding seqE_def by (rule raisesBy_bind)

lemma interventionLoop_sends:
  assumes send: "raisesBy n 1 (miRunCommand env dbName cmdObj options)" and clean: "raisesBy n 0 (intervene env fuel dbName cmdName cmdObj)"
  shows "raisesBy n (Suc left) (interventionLoop env fuel dbName cmdName cmdObj options left)"
proof (induction left)
  case 0
  have "raisesBy n 0 (if \<not> needsIntervention env res then ret res else ret res)" for res by (simp add: raisesBy_pure)
  then have "raisesBy n (1 + (0 + 0)) (interventionLoop env fuel dbName cmdName cmdObj options 0)"
    unfolding interventionLoop.simps [of _ _ _ _ _ _ 0] nat.case
    by (intro raisesBy_bind [OF send] raisesBy_seq raisesBy_liftE)
  then show ?case by simp
next
  case (Suc left)
  have "raisesBy n (0 + Suc left) (bindE (intervene env fuel dbName cmdName cmdObj)
      (\<lambda>again. if again then interventionLoop env fuel dbName cmdName cmdObj options left else ret res))" for res
    by (rule raisesBy_bind [OF clean]) (simp add: Suc.IH raisesBy_pure)
  then have "raisesBy n (Suc left) (if \<not> needsIntervention env res then ret res else bindE (intervene env fuel dbName cmdName cmdObj)
      (\<lambda>again. if again then interventionLoop env fuel dbName cmdName cmdObj options left else ret res))" for res
    by (simp add: raisesBy_pure)
  then have "raisesBy n (1 + (0 + Suc left)) (interventionLoop env fuel dbName cmdName cmdObj options (Suc left))"
    unfolding interventionLoop.simps [of _ _ _ _ _ _ "Suc left"] nat.case
    by (intro raisesBy_bind [OF send] raisesBy_seq raisesBy_liftE)
  then show ?case by simp
qed

lemma raisesBy_removeChunks: "(\<And>ns. raisesBy n 0 (miRemoveChunk env ns)) \<Longrightarrow> raisesBy n 0 (removeChunks env fuel ns)"
proof (induction fuel)
  case (Suc fuel)
  then have "raisesBy n (0 + (0 + 0)) (removeChunks env (Suc fuel) ns)"
    unfolding removeChunks.simps by (intro raisesBy_bind raisesBy_seq raisesBy_checkE) (simp_all add: raisesBy_pure)
  then show ?case by simp
qed (simp add: raisesBy_pure)

lemma raisesBy_intervene:
  assumes "\<And>ns. raisesBy n 0 (miRemoveChunk env ns)" and "\<And>db cmd. raisesBy n 0 (miDbCommand env db cmd)"
  shows "raisesBy n 0 (intervene env fuel dbName cmdName cmdObj)"
proof -
  note remove = raisesBy_removeChunks [OF assms(1)]
  have "raisesBy n (0 + (0 + 0)) (removePartiallyWrittenChunksAndDropCollection env fuel ns)" for ns
    unfolding removePartiallyWrittenChunksAndDropCollection_def Let_def case_prod_beta
    by (intro raisesBy_seq remove raisesBy_bind assms(2) raisesBy_checkE)
  then have "raisesBy n (0 + 0) (seqE (removePartiallyWrittenChunksAndDropCollection env fuel ns) (ret True))" for ns
    by (intro raisesBy_seq) (simp_all add: raisesBy_pure)
  then have "raisesBy n (0 + 0) (bindE (liftE out) (\<lambda>name. case name of None \<Rightarrow> ret False
      | Some coll \<Rightarrow> seqE (removePartiallyWrittenChunksAndDropCollection env fuel (ns coll)) (ret True)))" for out :: "jsval option result" and ns
    by (intro raisesBy_bind raisesBy_liftE) (simp split: option.split add: raisesBy_pure)
  moreover have "raisesBy n (0 + 0) (seqE (removePartiallyWrittenChunks env fuel ns) (ret True))" for ns
    unfolding removePartiallyWrittenChunks_def by (intro raisesBy_seq remove raisesBy_pure)
  ultimately show ?thesis by (simp add: intervene_def raisesBy_pure)
qed

theorem intervention_attempts:
  assumes "raisesBy n 1 (miRunCommand env dbName cmdObj options)"
    and "\<And>ns. raisesBy n 0 (miRemoveChunk env ns)" and "\<And>db cmd. raisesBy n 0 (miDbCommand env db cmd)"
  shows "raisesBy n 10 (mi_runCommand env fuel dbName cmdObj options)"
proof -
  have loop: "raisesBy n 10 (interventionLoop env fuel dbName cmdName cmdObj options (maxAttempts - 1))" for cmdName
    using interventionLoop_sends [OF assms(1) raisesBy_intervene [OF assms(2,3)], of "maxAttempts - 1" fuel cmdName] by (simp add: maxAttempts_def)
  have one: "raisesBy n 10 (miRunCommand env dbName cmdObj options)" by (rule raisesBy_mono [OF assms(1)]) simp
  have "raisesBy n (0 + 10) (mi_runCommand env fuel dbName cmdObj options)"
    unfolding mi_runCommand_def by (intro raisesBy_bind raisesBy_liftE) (auto split: list.split intro: one loop [simplified])
  then show ?thesis by simp
qed

text \<open>
  The output collection of a map-reduce is dropped under the wrong name when its name has a dot: only the part up to the dot is
  used.
\<close>

theorem dotted_output_misnamed:
  assumes "CHR ''.'' \<notin> set db" and "CHR ''.'' \<notin> set part"
  shows "dropTarget (db @ ''.'' @ part @ ''.'' @ rest) = (db, JStr part)"
proof -
  have "CHR ''.'' \<notin> set part \<Longrightarrow> dotParts (part @ CHR ''.'' # rest) = part # dotParts rest" for part rest
    by (induction part) auto
  with assms show ?thesis by (simp add: dropTarget_def)
qed

lemma plain_output_named:
  assumes "CHR ''.'' \<notin> set db" and "CHR ''.'' \<notin> set coll"
  shows "dropTarget (db @ ''.'' @ coll) = (db, JStr coll)"
proof -
  have "CHR ''.'' \<notin> set part \<Longrightarrow> dotParts (part @ CHR ''.'' # rest) = part # dotParts rest" for part rest
    by (induction part) auto
  moreover have "CHR ''.'' \<notin> set part \<Longrightarrow> dotParts part = [part]" for part by (induction part) auto
  ultimately show ?thesis using assms by (simp add: dropTarget_def)
qed

text \<open>A cluster whose world is the number of chunks left behind, for a concrete run.\<close>

definition miCluster :: "nat miEnv" where
  "miCluster = \<lparr>miShell = exampleShell, miText = (\<lambda>_. ''text''),
     miRunCommand = (\<lambda>_ _ _ k. (Val (if k = 0 then JObj [(''ok'', jnum 1)]
        else JObj [(''ok'', jnum 0), (''code'', errorCode exampleShell ''ManualInterventionRequired'')]), k)),
     miRemoveChunk = (\<lambda>_ k. (Val (JObj [(''ok'', jnum 1), (''nRemoved'', if k = 0 then jnum 0 else jnum 1)]), k - 1)),
     miDbCommand = (\<lambda>_ _. ret (JObj [(''ok'', jnum 1)]))\<rparr>"

lemma miCluster_removed:
  "commandWorked exampleShell (JObj [(''ok'', jnum 1), (''nRemoved'', jnum 0)]) = None"
  "commandWorked exampleShell (JObj [(''ok'', jnum 1), (''nRemoved'', jnum 1)]) = None"
  "num_less (Fin 0) (to_number (jnum 0)) = False" "num_less (Fin 0) (to_number (jnum 1)) = True"
  by code_simp+

lemma miCluster_removes: "removesChunks miCluster ns (\<lambda>k. k)"
  using miCluster_removed by (auto simp: removesChunks_def miCluster_def fld_def)

lemma miCluster_asks: "needsIntervention miCluster (JObj [(''ok'', jnum 0), (''code'', errorCode exampleShell ''ManualInterventionRequired'')])"
  by code_simp

theorem intervention_recovers_witness:
  "\<exists>res s'. mi_runCommand miCluster 4 ''admin'' (JObj [(''shardCollection'', JStr ''db.c'')]) Undef 3 = (Val res, s') \<and> fld res ''ok'' = jnum 1"
proof (rule intervention_recovers [where cmdName = "''shardCollection''" and ns = "JStr ''db.c''" and kvs = "[]" and chunks = "\<lambda>k. k"])
  show "\<exists>res s'. miRunCommand miCluster ''admin'' (JObj [(''shardCollection'', JStr ''db.c'')]) Undef s = (Val res, s') \<and> res \<noteq> Undef \<and> res \<noteq> Null \<and>
     (fld res ''ok'' = jnum 1 \<or> s > 0 \<and> needsIntervention miCluster res \<and> s' \<le> s)" for s
    using miCluster_asks by (cases "s = 0") (auto simp: miCluster_def fld_def)
qed (simp_all add: miCluster_removes)

end
