(* ===== verification/Implicit_Sharding.thy ===== *)
theory Implicit_Sharding
  imports Override_Helpers
begin

text \<open>
  The override \<open>implicitly_shard_accessed_collections.js\<close>: a collection is sharded when it is accessed or dropped, and
  the output of a map-reduce is marked as sharded.  The variables of the file and the flag of \<open>TestData\<close> it sets are the record
  \<open>shState\<close>; a collection is named by its database and its name.
\<close>

section \<open>State and environment\<close>

record 'w shEnv =
  shShell :: shell
  shFailedWithCode :: "jsval \<Rightarrow> jsval \<Rightarrow> exn option"              \<comment> \<open>\<open>assert.commandFailedWithCode\<close>\<close>
  shText :: "jsval \<Rightarrow> string"
  shAdmin :: "string \<Rightarrow> jsval \<Rightarrow> ('w, jsval) eff"
  shSampleShard :: "string \<Rightarrow> ('w, jsval) eff"                   \<comment> \<open>a shard of \<open>config.shards\<close>, or undefined\<close>
  shCollStats :: "jsval \<Rightarrow> string \<Rightarrow> jsval \<Rightarrow> ('w, jsval) eff"     \<comment> \<open>\<open>runCommand\<close>, under a value of the flag\<close>
  shDrop :: "string \<Rightarrow> string \<Rightarrow> ('w, jsval) eff"                \<comment> \<open>\<open>originalDBCollectionDrop\<close>\<close>
  shRun :: "string \<Rightarrow> jsval \<Rightarrow> jsval \<Rightarrow> ('w, jsval) eff"          \<comment> \<open>\<open>originalRunCommand\<close>\<close>
  shParallelShell :: "('w, jsval) eff"

record 'w shState =
  shMode :: int
  testMayRunDropInParallel :: bool
  doNotOverrideReadPreference :: jsval
  shWorld :: 'w

type_synonym ('w, 'a) shEff = "('w shState, 'a) eff"

definition onSh :: "('w, 'a) eff \<Rightarrow> ('w, 'a) shEff" where
  "onSh m = (\<lambda>s. case m (shWorld s) of (r, w) \<Rightarrow> (r, s\<lparr>shWorld := w\<rparr>))"

section \<open>Sharding a collection\<close>

definition kUseHashedSharding :: int where "kUseHashedSharding = 0"
definition kHashedMoveToSingleShard :: int where "kHashedMoveToSingleShard = 1"

definition setMode :: "int \<Rightarrow> ('w, unit) shEff" where
  "setMode newMode =
     (if newMode \<noteq> 0 \<and> newMode \<noteq> 1 then raise (Err ''Cannot set mode to unknown mode'') else modE (\<lambda>s. s\<lparr>shMode := newMode\<rparr>))"

definition blacklisted :: "string \<Rightarrow> bool" where
  "blacklisted fullName \<longleftrightarrow>
     index_of ''$cmd'' fullName \<noteq> None \<or> starts_with ''admin.'' fullName \<or> starts_with ''config.'' fullName \<or>
     index_of ''.system.'' fullName \<noteq> None"

definition kZoneName :: string where "kZoneName = ''moveToHereForMigrationPassthrough''"

definition shCheckResult :: "'w shEnv \<Rightarrow> jsval \<Rightarrow> ('w, unit) shEff" where
  "shCheckResult env res =
     bindE (getE testMayRunDropInParallel) (\<lambda>mayDrop.
     if strict_eq (fld res ''ok'') (jnum 0) \<and> mayDrop
     then checkE (shFailedWithCode env res (errorCode (shShell env) ''ConflictingOperationInProgress''))
     else checkE (commandWorked (shShell env) res))"

definition enableShardingCmd :: "string \<Rightarrow> jsval" where
  "enableShardingCmd db = JObj [(''enableSharding'', JStr db)]"

definition shardCollectionCmd :: "string \<Rightarrow> jsval" where
  "shardCollectionCmd fullName =
     JObj [(''shardCollection'', JStr fullName), (''key'', JObj [(''_id'', JStr ''hashed'')]),
       (''collation'', JObj [(''locale'', JStr ''simple'')])]"

definition moveToZone :: "'w shEnv \<Rightarrow> string \<Rightarrow> string \<Rightarrow> ('w, unit) shEff" where
  "moveToZone env db fullName =
     bindE (onSh (shSampleShard env db)) (\<lambda>shard.
     bindE (liftE (get_prop shard ''_id'')) (\<lambda>shardName.
     bindE (onSh (shAdmin env db (JObj [(''addShardToZone'', shardName), (''zone'', JStr kZoneName)]))) (\<lambda>res1.
     seqE (shCheckResult env res1)
    (bindE (onSh (shAdmin env db (JObj [(''updateZoneKeyRange'', JStr fullName), (''min'', JObj [(''_id'', JObj [(''$minKey'', jnum 1)])]),
       (''max'', JObj [(''_id'', JObj [(''$maxKey'', jnum 1)])]), (''zone'', JStr kZoneName)]))) (\<lambda>res2.
     seqE (shCheckResult env res2)
    (bindE (onSh (shAdmin env db (JObj [(''balancerStart'', jnum 1)]))) (\<lambda>res3.
     shCheckResult env res3)))))))"

definition sh_shardCollection :: "'w shEnv \<Rightarrow> string \<Rightarrow> string \<Rightarrow> ('w, unit) shEff" where
  "sh_shardCollection env db coll =
     (let fullName = db @ ''.'' @ coll in
      if blacklisted fullName then ret ()
      else bindE (onSh (shAdmin env db (enableShardingCmd db))) (\<lambda>res0.
       seqE (if strict_eq (fld res0 ''code'') (errorCode (shShell env) ''AlreadyInitialized'') then ret ()
             else checkE (commandWorked (shShell env) res0))
      (bindE (onSh (shAdmin env db (shardCollectionCmd fullName))) (\<lambda>res.
       seqE (shCheckResult env res)
      (bindE (getE shMode) (\<lambda>mode.
       if strict_eq (fld res ''ok'') (jnum 1) \<and> mode = kHashedMoveToSingleShard then moveToZone env db fullName else ret ()))))))"

text \<open>The request for the statistics bypasses the override of the read preference.\<close>

definition accessedStats :: "'w shEnv \<Rightarrow> string \<Rightarrow> string \<Rightarrow> ('w, jsval) shEff" where
  "accessedStats env db coll =
     bindE (getE doNotOverrideReadPreference) (\<lambda>original.
     tryFinally
       (seqE (modE (\<lambda>s. s\<lparr>doNotOverrideReadPreference := JBool True\<rparr>))
        (bindE (getE doNotOverrideReadPreference) (\<lambda>flag. onSh (shCollStats env flag db (JObj [(''collStats'', JStr coll)])))))
       (modE (\<lambda>s. s\<lparr>doNotOverrideReadPreference := original\<rparr>)))"

definition inUse :: "jsval \<Rightarrow> bool" where
  "inUse collStats \<longleftrightarrow> truthy (fld collStats ''sharded'') \<or> num_less (Fin 0) (to_number (fld collStats ''count''))"

definition sh_getCollection :: "'w shEnv \<Rightarrow> string \<Rightarrow> string \<Rightarrow> ('w, string \<times> string) shEff" where
  "sh_getCollection env db coll =
     bindE (accessedStats env db coll) (\<lambda>collStats.
     bindE (liftE (get_prop collStats ''sharded'')) (\<lambda>_.
     if inUse collStats then ret (db, coll) else seqE (sh_shardCollection env db coll) (ret (db, coll))))"

definition sh_drop :: "'w shEnv \<Rightarrow> string \<Rightarrow> string \<Rightarrow> ('w, jsval) shEff" where
  "sh_drop env db coll =
     bindE (onSh (shDrop env db coll)) (\<lambda>dropResult. seqE (sh_shardCollection env db coll) (ret dropResult))"

definition sh_startParallelShell :: "'w shEnv \<Rightarrow> ('w, jsval) shEff" where
  "sh_startParallelShell env = seqE (modE (\<lambda>s. s\<lparr>testMayRunDropInParallel := True\<rparr>)) (onSh (shParallelShell env))"

section \<open>Map-reduce\<close>

text \<open>The output collection is accessed as a property of the database and dropped; both shard it.\<close>

definition dropOutput :: "'w shEnv \<Rightarrow> string \<Rightarrow> jsval \<Rightarrow> ('w, unit) shEff" where
  "dropOutput env dbName out =
     bindE (sh_getCollection env dbName (case out of JStr s \<Rightarrow> s | _ \<Rightarrow> shText env out)) (\<lambda>(db, coll).
     bindE (sh_drop env db coll) (\<lambda>_. ret ()))"

definition outputColl :: "jsval \<Rightarrow> jsval" where
  "outputColl spec =
     (if has_own spec ''replace'' then fld spec ''replace''
      else if has_own spec ''merge'' then fld spec ''merge''
      else if has_own spec ''reduce'' then fld spec ''reduce'' else Null)"

definition isMapReduce :: "jsval \<Rightarrow> bool" where
  "isMapReduce cmdObj \<longleftrightarrow> typeof cmdObj = ''object'' \<and> cmdObj \<noteq> Null \<and> (has_own cmdObj ''mapreduce'' \<or> has_own cmdObj ''mapReduce'') \<and>
     has_own cmdObj ''out''"

definition sh_runCommand :: "'w shEnv \<Rightarrow> string \<Rightarrow> jsval \<Rightarrow> jsval \<Rightarrow> ('w, jsval) shEff" where
  "sh_runCommand env dbName cmdObj options =
     (if \<not> isMapReduce cmdObj then onSh (shRun env dbName cmdObj options)
      else let cmd = del_prop ''jsMode'' cmdObj; spec = fld cmd ''out'' in
        if typeof spec = ''string''
        then seqE (dropOutput env dbName spec)
             (onSh (shRun env dbName (set_prop ''out'' (JObj [(''replace'', spec), (''sharded'', JBool True)]) cmd) options))
        else if typeof spec \<noteq> ''object'' then onSh (shRun env dbName cmd options)
        else if spec = Null then raise (TypeErr ''has no properties'')
        else if has_own spec ''sharded'' then onSh (shRun env dbName (set_prop ''out'' spec cmd) options)
        else if outputColl spec = Null then onSh (shRun env dbName cmd options)
        else seqE (dropOutput env dbName (outputColl spec))
             (onSh (shRun env dbName (set_prop ''out'' (set_prop ''sharded'' (JBool True) spec) cmd) options)))"

section \<open>Properties\<close>

text \<open>
  The statistics are requested with the flag set, and the flag has its old value afterwards, whether the request returns or
  throws.
\<close>

theorem accessedStats_run:
  assumes "shCollStats env (JBool True) db (JObj [(''collStats'', JStr coll)]) (shWorld s) = (r, w)" and "r \<noteq> Diverge"
  shows "accessedStats env db coll s = (r, s\<lparr>shWorld := w\<rparr>)"
  using assms by (cases r) (auto simp: accessedStats_def js_simps tryFinally_def onSh_def)

lemma onSh_state: "(\<And>s w. P (s\<lparr>shWorld := w\<rparr>) = P s) \<Longrightarrow> keeps P (onSh m)"
  by (rule keepsI) (simp add: onSh_def case_prod_beta)

lemma shardCollection_keeps: "(\<And>s w. P (s\<lparr>shWorld := w\<rparr>) = P s) \<Longrightarrow> keeps P (sh_shardCollection env db coll)"
  unfolding sh_shardCollection_def moveToZone_def shCheckResult_def Let_def by (auto intro!: keeps_rules onSh_state)

text \<open>
  The documented behaviour of the cluster, for the collections that are sharded and those that have documents: the statistics
  tell the truth about them, a sharding command that works shards its collection, and the other requests of the override
  leave what is sharded alone.
\<close>

definition shLawful :: "'w shEnv \<Rightarrow> ('w \<Rightarrow> (string \<times> string) set) \<Rightarrow> ('w \<Rightarrow> (string \<times> string) set) \<Rightarrow> bool" where
  "shLawful env sharded nonempty \<longleftrightarrow>
     (\<forall>flag db coll w res w'. shCollStats env flag db (JObj [(''collStats'', JStr coll)]) w = (Val res, w') \<and> inUse res \<longrightarrow>
        (db, coll) \<in> sharded w' \<or> (db, coll) \<in> nonempty w') \<and>
     (\<forall>db coll w res w'. shAdmin env db (shardCollectionCmd (db @ ''.'' @ coll)) w = (Val res, w') \<and> commandWorked (shShell env) res = None \<longrightarrow>
        (db, coll) \<in> sharded w') \<and>
     (\<forall>db cmd w. \<not> has_own cmd ''drop'' \<longrightarrow> sharded w \<subseteq> sharded (snd (shAdmin env db cmd w))) \<and>
     (\<forall>db w. sharded w \<subseteq> sharded (snd (shSampleShard env db w)))"

lemma moveToZone_keeps:
  assumes "shLawful env sharded nonempty"
  shows "keeps (\<lambda>s. c \<in> sharded (shWorld s)) (moveToZone env db fullName)"
proof -
  have admin: "keeps (\<lambda>s. c \<in> sharded (shWorld s)) (onSh (shAdmin env db cmd))" if "\<not> has_own cmd ''drop''" for db cmd
    using assms that unfolding shLawful_def by (intro keepsI) (simp add: onSh_def case_prod_beta, blast)
  have sample: "keeps (\<lambda>s. c \<in> sharded (shWorld s)) (onSh (shSampleShard env db))" for db
    using assms unfolding shLawful_def by (intro keepsI) (simp add: onSh_def case_prod_beta, blast)
  show ?thesis
    unfolding moveToZone_def shCheckResult_def by (auto intro!: keeps_rules admin sample simp: has_own_def obj_keys_def)
qed

lemma shCheckResult_returns:
  "returning (\<lambda>s. \<not> testMayRunDropInParallel s \<and> (commandWorked (shShell env) res = None \<longrightarrow> P s)) (shCheckResult env res) (\<lambda>_. P)"
  by (cases "commandWorked (shShell env) res") (auto simp: hoare_def shCheckResult_def js_simps)

lemma shardCollection_returns:
  assumes "shLawful env sharded nonempty" and "\<not> blacklisted (db @ ''.'' @ coll)"
  shows "returning (\<lambda>s. \<not> testMayRunDropInParallel s) (sh_shardCollection env db coll) (\<lambda>_ s. (db, coll) \<in> sharded (shWorld s))"
proof -
  have enable: "keeps (\<lambda>s. \<not> testMayRunDropInParallel s) (onSh m)" for m :: "('a, jsval) eff" by (rule onSh_state) simp
  have enabled: "keeps (\<lambda>s. \<not> testMayRunDropInParallel s) (if c then ret () else checkE r)" for c r by (intro keeps_rules)
  have shard: "returning (\<lambda>s. \<not> testMayRunDropInParallel s) (onSh (shAdmin env db (shardCollectionCmd (db @ ''.'' @ coll))))
      (\<lambda>res s. \<not> testMayRunDropInParallel s \<and> (commandWorked (shShell env) res = None \<longrightarrow> (db, coll) \<in> sharded (shWorld s)))"
    using assms(1) unfolding hoare_def shLawful_def onSh_def by (simp split: prod.split outcome.split)
  have move: "keeps (\<lambda>s. (db, coll) \<in> sharded (shWorld s)) (bindE (getE shMode) (\<lambda>mode. if c \<and> mode = kHashedMoveToSingleShard
      then moveToZone env db (db @ ''.'' @ coll) else ret ()))" for c
    by (intro keeps_rules moveToZone_keeps [OF assms(1)])
  show ?thesis
    using assms(2) unfolding sh_shardCollection_def Let_def if_not_P [OF assms(2)]
    by (intro hoare_bindE [OF returning_keeps [OF enable]] hoare_seqE [OF returning_keeps [OF enabled]] hoare_bindE [OF shard]
        hoare_seqE [OF shCheckResult_returns] returning_keeps [OF move])
qed

lemma shardCollection_shards:
  assumes "shLawful env sharded nonempty" and "sh_shardCollection env db coll s = (Val u, s')" and "\<not> blacklisted (db @ ''.'' @ coll)"
    and "\<not> testMayRunDropInParallel s"
  shows "(db, coll) \<in> sharded (shWorld s')"
  using shardCollection_returns [OF assms(1,3), unfolded hoare_def, rule_format, OF assms(4)] assms(2) by simp

text \<open>
  An accessed collection is sharded: when a database hands out a collection and no parallel shell may be dropping collections, the
  collection is sharded, or has documents, or belongs to the system; dropping it leaves it sharded too.\<close>

theorem accessed_is_sharded:
  assumes "shLawful env sharded nonempty" and "\<not> blacklisted (db @ ''.'' @ coll)" and "\<not> testMayRunDropInParallel s"
  shows "(sh_getCollection env db coll s = (Val c, s') \<longrightarrow>
      c = (db, coll) \<and> ((db, coll) \<in> sharded (shWorld s') \<or> (db, coll) \<in> nonempty (shWorld s'))) \<and>
    (sh_drop env db coll s = (Val res, s') \<longrightarrow> (db, coll) \<in> sharded (shWorld s'))"
proof (intro conjI impI)
  assume "sh_drop env db coll s = (Val res, s')"
  then obtain s1 where 1: "onSh (shDrop env db coll) s = (Val res, s1)" and 2: "sh_shardCollection env db coll s1 = (Val (), s')"
    by (auto simp: sh_drop_def bindE_Val seqE_Val ret_Val)
  from 1 assms(3) have "\<not> testMayRunDropInParallel s1" by (auto simp: onSh_def split: prod.splits)
  from shardCollection_shards [OF assms(1) 2 assms(2) this] show "(db, coll) \<in> sharded (shWorld s')" .
next
  assume "sh_getCollection env db coll s = (Val c, s')"
  then obtain st s1 where 1: "accessedStats env db coll s = (Val st, s1)"
    and 2: "(if inUse st then ret (db, coll) else seqE (sh_shardCollection env db coll) (ret (db, coll))) s1 = (Val c, s')"
    by (auto simp: sh_getCollection_def bindE_Val liftE_Val simp del: if_split)
  obtain r w where run: "shCollStats env (JBool True) db (JObj [(''collStats'', JStr coll)]) (shWorld s) = (r, w)" by fastforce
  have "r \<noteq> Diverge" using 1 run by (auto simp: accessedStats_def js_simps tryFinally_def onSh_def)
  from accessedStats_run [OF run this] 1 have r: "r = Val st" and s1: "s1 = s\<lparr>shWorld := w\<rparr>" by auto
  show "c = (db, coll)" using 2 by (auto simp: ret_Val seqE_Val split: if_splits)
  show "(db, coll) \<in> sharded (shWorld s') \<or> (db, coll) \<in> nonempty (shWorld s')"
  proof (cases "inUse st")
    case True
    with 2 s1 have "shWorld s' = w" by (simp add: ret_Val)
    with True run r assms(1) show ?thesis unfolding shLawful_def by blast
  next
    case False
    with 2 have "sh_shardCollection env db coll s1 = (Val (), s')" by (auto simp: seqE_Val ret_Val)
    from shardCollection_shards [OF assms(1) this assms(2)] assms(3) s1 show ?thesis by simp
  qed
qed

text \<open>
  The output of a map-reduce that merges into a collection, perhaps of another database, is not kept: the collection of that
  name in the database of the command is dropped before the command is sent.
\<close>

theorem merge_output_dropped:
  assumes "isMapReduce cmdObj" and "fld cmdObj ''out'' = JObj [(''merge'', JStr coll), (''db'', JStr outDb)]"
  shows "sh_runCommand env dbName cmdObj options =
    seqE (dropOutput env dbName (JStr coll))
      (onSh (shRun env dbName (set_prop ''out'' (JObj [(''merge'', JStr coll), (''db'', JStr outDb), (''sharded'', JBool True)])
         (del_prop ''jsMode'' cmdObj)) options))"
  using assms by (simp add: sh_runCommand_def outputColl_def has_own_def obj_keys_def set_prop_def fld_def [of "JObj _"])

text \<open>A cluster that shards what it is asked to, whose world is the set of the sharded collections, for a concrete run.\<close>

definition shCluster :: "(string \<times> string) set shEnv" where
  "shCluster = \<lparr>shShell = exampleShell, shFailedWithCode = (\<lambda>_ _. None), shText = (\<lambda>_. ''text''),
     shAdmin = (\<lambda>db cmd. seqE (modE (\<lambda>S. if has_own cmd ''shardCollection'' then S \<union> {db} \<times> UNIV else S)) (ret (JObj [(''ok'', jnum 1)]))),
     shSampleShard = (\<lambda>_. ret (JObj [(''_id'', JStr ''shard0'')])),
     shCollStats = (\<lambda>_ _ _. ret (JObj [(''ok'', jnum 1), (''count'', jnum 0)])),
     shDrop = (\<lambda>_ _. ret (JBool True)), shRun = (\<lambda>_ _ _. ret (JObj [(''ok'', jnum 1)])), shParallelShell = ret Undef\<rparr>"

lemma shCluster_unused: "\<not> inUse (JObj [(''ok'', jnum 1), (''count'', jnum 0)])"
  by code_simp

lemma shCluster_lawful: "shLawful shCluster (\<lambda>S. S) (\<lambda>_. {})"
  using shCluster_unused by (auto simp: shLawful_def shCluster_def js_simps shardCollectionCmd_def has_own_def obj_keys_def)

definition shFresh :: "(string \<times> string) set shState" where
  "shFresh = \<lparr>shMode = 1, testMayRunDropInParallel = False, doNotOverrideReadPreference = Undef, shWorld = {}\<rparr>"

theorem accessed_is_sharded_witness:
  "fst (sh_getCollection shCluster ''db'' ''c'' shFresh) = Val (''db'', ''c'') \<and>
   (''db'', ''c'') \<in> shWorld (snd (sh_getCollection shCluster ''db'' ''c'' shFresh))"
proof -
  let ?run = "sh_getCollection shCluster ''db'' ''c'' shFresh"
  have "fst ?run = Val (''db'', ''c'')" by code_simp
  moreover from this have "?run = (Val (''db'', ''c''), snd ?run)" by (metis prod.collapse)
  moreover have "\<not> blacklisted (''db'' @ ''.'' @ ''c'')" by code_simp
  moreover have "\<not> testMayRunDropInParallel shFresh" by (simp add: shFresh_def)
  ultimately show ?thesis using accessed_is_sharded [OF shCluster_lawful, of "''db''" "''c''" shFresh] by blast
qed

end
