(* ===== verification/Session_Override.thy ===== *)
theory Session_Override
  imports Rewriting_Overrides
begin

text \<open>
  The override \<open>enable_sessions.js\<close>: every command has to carry a session id, and every connection has one session, kept in a
  map from connections to sessions that its databases share.
\<close>

section \<open>Commands\<close>

text \<open>\<open>runCommandWithLsidCheck\<close> up to the call of the original function: the command to send, or an exception.\<close>

definition checkLsid :: "bool \<Rightarrow> string \<Rightarrow> jsval \<Rightarrow> jsval result" where
  "checkLsid disableEnableSessions cmdName cmdObj =
     (if disableEnableSessions then Inr cmdObj
      else let wrapped = (cmdName = ''query'' \<or> cmdName = ''$query'');
               cmdObj' = (if wrapped then set_prop cmdName (copied (fld cmdObj cmdName)) cmdObj else cmdObj);
               inner = (if wrapped then fld cmdObj' cmdName else cmdObj') in
        if \<not> has_own inner ''lsid'' \<and> cmdName \<noteq> ''getMore'' then Inl (Err ''command object does not have session id'')
        else Inr cmdObj')"

definition runCommandWithLsidCheck :: "bool \<Rightarrow> (jsval \<Rightarrow> ('s, jsval) eff) \<Rightarrow> string \<Rightarrow> jsval \<Rightarrow> ('s, jsval) eff" where
  "runCommandWithLsidCheck disableEnableSessions send cmdName cmdObj =
     bindE (liftE (checkLsid disableEnableSessions cmdName cmdObj)) send"

section \<open>Sessions\<close>

record ('c, 'd) sessEnv =
  startSession :: "'c \<Rightarrow> ('d, nat) eff"                     \<comment> \<open>with \<open>TestData.sessionOptions\<close>; a session is a number\<close>
  getDBOriginal :: "'c \<Rightarrow> string \<Rightarrow> ('d, jsval) eff"

record ('c, 'd) sessState =
  sessionMap :: "'c \<rightharpoonup> nat"
  sessWorld :: 'd

definition onSess :: "('d, 'a) eff \<Rightarrow> (('c, 'd) sessState, 'a) eff" where
  "onSess m = (\<lambda>s. case m (sessWorld s) of (r, w) \<Rightarrow> (r, s\<lparr>sessWorld := w\<rparr>))"

text \<open>The database with the session it is given, if any.\<close>

definition sess_getDB :: "bool \<Rightarrow> ('c, 'd) sessEnv \<Rightarrow> 'c \<Rightarrow> string \<Rightarrow> (('c, 'd) sessState, jsval \<times> nat option) eff" where
  "sess_getDB disableEnableSessions env conn dbName =
     (if disableEnableSessions then bindE (onSess (getDBOriginal env conn dbName)) (\<lambda>db. ret (db, None))
      else bindE (getE sessionMap) (\<lambda>m.
       seqE (if m conn \<noteq> None then ret ()
             else bindE (onSess (startSession env conn)) (\<lambda>session. modE (\<lambda>s. s\<lparr>sessionMap := (sessionMap s)(conn \<mapsto> session)\<rparr>)))
      (bindE (onSess (getDBOriginal env conn dbName)) (\<lambda>db.
       bindE (getE sessionMap) (\<lambda>m. ret (db, m conn))))))"

section \<open>Properties\<close>

lemma checkLsid_stable:
  assumes "cmd \<notin> {Undef, Null}" and "wf_val cmd" and "checkLsid disabled (first_key cmd) cmd = Inr cmd'"
  shows "cmd' \<notin> {Undef, Null} \<and> wf_val cmd' \<and> checkLsid disabled (first_key cmd') cmd' = Inr cmd'"
proof (cases "disabled \<or> \<not> (first_key cmd = ''query'' \<or> first_key cmd = ''$query'')")
  case True
  then have "cmd' = cmd" using assms(3) by (auto simp: checkLsid_def Let_def split: if_splits)
  with assms show ?thesis by simp
next
  case False
  let ?k = "first_key cmd" and ?inner = "JObj (props (fld cmd (first_key cmd)))"
  have wf1: "wf_val ?inner" using wf_props [OF wf_fld [OF assms(2), of ?k]] by (auto simp: list_all_iff)
  note inner = wf1 copied_eq [OF wf_fld [OF assms(2)]] copied_eq [OF wf1, unfolded props.simps]
  have cmd': "cmd' = set_prop ?k ?inner cmd" and own: "has_own ?inner ''lsid''"
    using assms(3) False inner(2) by (auto simp: checkLsid_def Let_def split: if_splits)
  have wf: "wf_obj cmd'" unfolding cmd' by (rule wf_obj_set_prop [OF assms(2) inner(1)])
  have "obj_keys cmd \<noteq> []" using False by (auto simp: first_key_def split: list.splits)
  then have key: "first_key cmd' = ?k" by (simp add: cmd' first_key_set_prop)
  have same: "set_prop ?k ?inner cmd' = cmd'"
  proof -
    have "fld cmd' ?k = ?inner" "has_own cmd' ?k" by (simp_all add: cmd')
    with set_prop_same [of cmd' "props cmd'" ?k] show ?thesis by (simp add: cmd' set_prop_def [of _ _ cmd])
  qed
  have "checkLsid disabled ?k cmd' = Inr cmd'"
    using False own inner(3) same by (auto simp: checkLsid_def Let_def) (simp_all add: cmd')
  with wf key show ?thesis by (auto simp: wf_obj_def)
qed

interpretation lsid: rewriting_override "checkLsid disabled" "\<lambda>cmd. cmd \<notin> {Undef, Null} \<and> wf_val cmd" for disabled
proof (unfold_locales, goal_cases)
  case (1 cmd cmd')
  then show ?case using checkLsid_stable [of cmd disabled cmd'] by blast
next
  case (2 cmd cmd')
  then show ?case using checkLsid_stable [of cmd disabled cmd'] by blast
next
  case (3 cmd cmd')
  then show ?case using checkLsid_stable [of cmd disabled cmd'] by blast
qed

text \<open>
  Every command that is sent carries a session id, itself or the command inside it, or is a \<open>getMore\<close>; nothing else about it
  changes.
\<close>

theorem sent_with_session:
  assumes "checkLsid False name cmd = Inr cmd'"
  shows "name = ''getMore'' \<or> has_own (if name = ''query'' \<or> name = ''$query'' then fld cmd' name else cmd') ''lsid''"
  using assms by (auto simp: checkLsid_def Let_def split: if_splits)

text \<open>Loading the file again changes nothing.\<close>

theorem sessions_reload:
  assumes "cmd \<notin> {Undef, Null}" and "wf_val cmd"
  shows "installed (\<lambda>name c. runCommandWithLsidCheck disabled (installed (\<lambda>name c. runCommandWithLsidCheck disabled send name c)) name c) cmd =
    installed (\<lambda>name c. runCommandWithLsidCheck disabled send name c) cmd"
  unfolding runCommandWithLsidCheck_def by (rule lsid.reload_once) (use assms in simp)

text \<open>
  A connection keeps the session it was given first, whatever is called afterwards, and all its databases have it.
\<close>

lemma onSess_Val: "onSess m s = (Val x, s') \<longleftrightarrow> (\<exists>w. m (sessWorld s) = (Val x, w) \<and> s' = s\<lparr>sessWorld := w\<rparr>)"
  by (auto simp: onSess_def split: prod.splits)

lemma getDB_session:
  assumes "sess_getDB False env conn dbName s = (Val (db, session), s')"
  shows "session = sessionMap s' conn \<and> session \<noteq> None \<and> (\<forall>c n. sessionMap s c = Some n \<longrightarrow> sessionMap s' c = Some n)"
  using assms
  by (auto simp: sess_getDB_def bindE_Val seqE_Val getE_def modE_def ret_Val onSess_Val split: if_splits)

theorem getDB_same_session:
  assumes "sess_getDB False env conn db1 s = (Val (d1, session1), s1)" and "sess_getDB False env other db2 s1 = (Val (d2, session2), s2)"
    and "sess_getDB False env conn db3 s2 = (Val (d3, session3), s3)"
  shows "session3 = session1 \<and> session1 \<noteq> None"
  using getDB_session [OF assms(1)] getDB_session [OF assms(2)] getDB_session [OF assms(3)] by auto

end
