(* ===== verification/Txn_Store.thy ===== *)
theory Txn_Store
  imports Txn_Retry
begin

text \<open>
  What the transaction workloads rely on of a session: the documented atomicity of multi-statement
  transactions, as hypotheses on the operations of \<open>session_ops\<close>, and what
  \<open>withTxnAndAutoRetry\<close> then guarantees: the function takes effect exactly once.  Other sessions may commit at any
  time; the hypotheses speak of the session's own transactions alone.  A variable the function
  captures is a second component of the state.
\<close>

section \<open>Captured variables\<close>

definition onFst :: "('s, 'a) eff \<Rightarrow> ('s \<times> 'l, 'a) eff" where
  "onFst m = (\<lambda>(s, l). case m s of (r, s') \<Rightarrow> (r, (s', l)))"

definition sessionOnFst :: "'s session_ops \<Rightarrow> ('s \<times> 'l) session_ops" where
  "sessionOnFst session = \<lparr>
     startTransaction_forTesting = onFst (startTransaction_forTesting session),
     commitTransaction_forTesting = onFst (commitTransaction_forTesting session),
     abortTransaction_forTesting = onFst (abortTransaction_forTesting session),
     sessionAdminCommand = (\<lambda>cmd. onFst (sessionAdminCommand session cmd)),
     random = onFst (random session)\<rparr>"

text \<open>\<open>let x = init; m; return x\<close> for a variable \<open>x\<close> that \<open>m\<close> assigns.\<close>

definition withLocal :: "'l \<Rightarrow> ('s \<times> 'l, unit) eff \<Rightarrow> ('s, 'l) eff" where
  "withLocal init m = (\<lambda>s. case m (s, init) of
      (Val _, (s', l)) \<Rightarrow> (Val l, s') | (Throw e, (s', l)) \<Rightarrow> (Throw e, s') | (Diverge, (s', l)) \<Rightarrow> (Diverge, s'))"

lemma onFst_run: "onFst m (s, l) = (r, (t, l')) \<longleftrightarrow> m s = (r, t) \<and> l' = l"
  by (auto simp: onFst_def split: prod.split)

lemma onFst_snd [simp]: "fst (snd (onFst m p)) = snd (m (fst p))" "snd (snd (onFst m p)) = snd p"
  by (cases p; simp add: onFst_def split: prod.split)+

lemma withLocal_Val: "withLocal init m s = (Val x, t) \<longleftrightarrow> m (s, init) = (Val (), (t, x))"
  by (auto simp: withLocal_def split: prod.split outcome.split)

lemma withLocal_run:
  assumes "withLocal init m s = (r, t)"
  obtains r' l where "m (s, init) = (r', (t, l))" and "\<And>e. r = Throw e \<longleftrightarrow> r' = Throw e" and "(\<exists>x. r = Val x) \<longleftrightarrow> r' = Val ()"
  using assms by (auto simp: withLocal_def split: prod.splits outcome.splits)

section \<open>The transaction of a session\<close>

text \<open>The updates a transaction in progress has made are the elements of the \<open>updates\<close> arrays that matched a document.\<close>

datatype txn_state = NoTxn | InProgress "jsval list" | Committed

record 's txn_view =
  ownTxns :: "'s \<Rightarrow> jsval list list"     \<comment> \<open>the transactions the session has committed, oldest first\<close>
  txnState :: "'s \<Rightarrow> txn_state"          \<comment> \<open>of the session's latest transaction\<close>

definition startLaw :: "'s session_ops \<Rightarrow> 's txn_view \<Rightarrow> bool" where
  "startLaw session v \<longleftrightarrow> (\<forall>s r t. startTransaction_forTesting session s = (r, t) \<longrightarrow>
     ownTxns v t = ownTxns v s \<and> (r = Val () \<longrightarrow> txnState v t = InProgress []))"

definition abortLaw :: "'s session_ops \<Rightarrow> 's txn_view \<Rightarrow> bool" where
  "abortLaw session v \<longleftrightarrow> (\<forall>s r t. abortTransaction_forTesting session s = (r, t) \<longrightarrow> ownTxns v t = ownTxns v s)"

text \<open>
  A commit takes effect as a whole or not at all, and once; a response without a failure says it has, an
  error labelled transient says it has not; any other error leaves it open.
\<close>

definition commitLaw :: "shell \<Rightarrow> 's session_ops \<Rightarrow> 's txn_view \<Rightarrow> bool" where
  "commitLaw sh session v \<longleftrightarrow> (\<forall>s r t. commitTransaction_forTesting session s = (r, t) \<longrightarrow>
     (case txnState v s of
        InProgress us \<Rightarrow> ownTxns v t = ownTxns v s \<and> txnState v t \<in> {InProgress us, NoTxn} \<or>
                         ownTxns v t = ownTxns v s @ [us] \<and> txnState v t = Committed
      | st \<Rightarrow> ownTxns v t = ownTxns v s \<and> txnState v t = st) \<and>
     (\<forall>res. r = Val res \<longrightarrow> \<not> response_failed res \<longrightarrow> txnState v t = Committed) \<and>
     (\<forall>res e. r = Val res \<longrightarrow> commandWorked sh res = Some e \<longrightarrow> hasTransientLabel e \<longrightarrow> txnState v t \<noteq> Committed) \<and>
     (\<forall>e. r = Throw e \<longrightarrow> hasTransientLabel e \<longrightarrow> txnState v t \<noteq> Committed))"

definition randomLaw :: "'s session_ops \<Rightarrow> 's txn_view \<Rightarrow> bool" where
  "randomLaw session v \<longleftrightarrow> (\<forall>s r t. random session s = (r, t) \<longrightarrow>
     ownTxns v t = ownTxns v s \<and> txnState v t = txnState v s \<and> (\<forall>x. r = Val x \<longrightarrow> 0 \<le> x) \<and> (\<forall>e. r \<noteq> Throw e))"

definition atomicSession :: "shell \<Rightarrow> 's session_ops \<Rightarrow> 's txn_view \<Rightarrow> bool" where
  "atomicSession sh session v \<longleftrightarrow>
     commandWorked_spec sh \<and> startLaw session v \<and> abortLaw session v \<and> commitLaw sh session v \<and> randomLaw session v"

text \<open>An update command with one element, run inside a transaction.\<close>

definition updateCommand :: "jsval \<Rightarrow> jsval" where
  "updateCommand u = JObj [(''updates'', JArr [u])]"

definition updateLaw :: "(jsval \<Rightarrow> ('s, jsval) eff) \<Rightarrow> 's txn_view \<Rightarrow> bool" where
  "updateLaw runUpdate v \<longleftrightarrow> (\<forall>u s r t us. runUpdate (updateCommand u) s = (r, t) \<longrightarrow> txnState v s = InProgress us \<longrightarrow>
     ownTxns v t = ownTxns v s \<and>
     (\<forall>res. r = Val res \<longrightarrow> \<not> response_failed res \<longrightarrow> fld res ''n'' = jnum 1 \<longrightarrow> txnState v t = InProgress (us @ [u])))"

section \<open>Exactly once\<close>

text \<open>Around the commit of the updates \<open>us\<close>: not yet committed over \<open>base\<close>, or committed as a whole.\<close>

definition committing :: "'s txn_view \<Rightarrow> jsval list list \<Rightarrow> jsval list \<Rightarrow> 's \<Rightarrow> bool" where
  "committing v base us s \<longleftrightarrow>
     (case txnState v s of
        Committed \<Rightarrow> ownTxns v s = base @ [us]
      | InProgress us' \<Rightarrow> us' = us \<and> ownTxns v s = base
      | NoTxn \<Rightarrow> ownTxns v s = base)"

lemma commit_step:
  assumes "commitLaw sh session v" and "commitTransaction_forTesting session s = (r, t)" and "committing v base us s"
  shows "committing v base us t"
  using assms unfolding commitLaw_def committing_def by (fastforce split: txn_state.splits)

lemma commitRetries_committing:
  assumes "commitLaw sh session v" and "commandWorked_spec sh"
  shows "committing v base us s \<Longrightarrow> commitTransactionWithKilledSessionRetries fuel sh session k s = (r, t) \<Longrightarrow>
    committing v base us t \<and> (r = Val () \<longrightarrow> txnState v t = Committed) \<and>
    (\<forall>e. r = Throw e \<longrightarrow> hasTransientLabel e \<longrightarrow> txnState v t \<noteq> Committed)"
proof (induction fuel arbitrary: s)
  case 0
  then show ?case by (simp add: diverge_def)
next
  case (Suc fuel)
  obtain r1 s1 where c: "commitTransaction_forTesting session s = (r1, s1)" by (cases "commitTransaction_forTesting session s")
  have inv: "committing v base us s1" by (rule commit_step [OF assms(1) c Suc.prems(1)])
  show ?case
  proof (cases r1)
    case (Val res)
    show ?thesis
    proof (cases "\<not> truthy (fld res ''ok'') \<and> k \<and> isKilledSessionCode sh (fld res ''code'')")
      case True
      then show ?thesis using Suc.IH [OF inv] Suc.prems(2) c Val by (simp add: bindE_def)
    next
      case False
      then have "checkE (commandWorked sh res) s1 = (r, t)" using Suc.prems(2) c Val by (auto simp: bindE_def)
      then show ?thesis
        using inv c Val assms unfolding commitLaw_def commandWorked_spec_def
        by (cases "commandWorked sh res") (auto simp: checkE_def ret_def raise_def)
    qed
  next
    case (Throw e)
    then show ?thesis using inv c Suc.prems(2) assms(1) unfolding commitLaw_def by (auto simp: bindE_def)
  next
    case Diverge
    then show ?thesis using inv c Suc.prems(2) by (auto simp: bindE_def)
  qed
qed

text \<open>What the function has to do inside the transaction: it commits nothing, and when it returns its updates satisfy \<open>Q\<close>.\<close>

definition updatesInTxn :: "'s txn_view \<Rightarrow> ('s, unit) eff \<Rightarrow> ('s \<Rightarrow> jsval list \<Rightarrow> bool) \<Rightarrow> bool" where
  "updatesInTxn v func Q \<longleftrightarrow> (\<forall>s r t. txnState v s = InProgress [] \<longrightarrow> func s = (r, t) \<longrightarrow>
     ownTxns v t = ownTxns v s \<and> (r = Val () \<longrightarrow> (\<exists>us. txnState v t = InProgress us \<and> Q t us)))"

text \<open>At most one transaction of updates in \<open>Q\<close> was added to \<open>base\<close>.\<close>

definition atMostOne :: "jsval list list \<Rightarrow> (jsval list \<Rightarrow> bool) \<Rightarrow> jsval list list \<Rightarrow> bool" where
  "atMostOne base Q now \<longleftrightarrow> now = base \<or> (\<exists>us. Q us \<and> now = base @ [us])"

lemma atMostOne_refl [simp]: "atMostOne base Q base"
  by (simp add: atMostOne_def)

lemma committing_atMostOne: "committing v base us s \<Longrightarrow> Q us \<Longrightarrow> atMostOne base Q (ownTxns v s)"
  by (auto simp: committing_def atMostOne_def split: txn_state.splits)

lemma commitAttempt_committing:
  assumes "atomicSession sh session v" and "committing v base us s" and "commitAttempt fuel sh session k 0 s = (r, t)"
  shows "committing v base us t \<and> (r = Val () \<longrightarrow> txnState v t = Committed) \<and>
    (\<forall>e. r = Throw e \<longrightarrow> hasTransientLabel e \<longrightarrow> txnState v t \<noteq> Committed)"
proof -
  obtain r1 s1 where rand: "random session s = (r1, s1)" by (cases "random session s")
  have law: "ownTxns v s1 = ownTxns v s" "txnState v s1 = txnState v s" "\<And>x. r1 = Val x \<Longrightarrow> 0 \<le> x" "\<And>e. r1 \<noteq> Throw e"
    using assms(1) rand unfolding atomicSession_def randomLaw_def by blast+
  have inv: "committing v base us s1" using assms(2) law(1,2) by (simp add: committing_def split: txn_state.splits)
  show ?thesis
  proof (cases r1)
    case (Val x)
    then have "commitTransactionWithKilledSessionRetries fuel sh session k s1 = (r, t)"
      using assms(3) rand law(3) [OF Val] by (simp add: commitAttempt_def bindE_def)
    from commitRetries_committing [OF _ _ inv this] show ?thesis using assms(1) by (simp add: atomicSession_def)
  next
    case (Throw e)
    then show ?thesis using law(4) by simp
  next
    case Diverge
    then show ?thesis using assms(3) rand inv by (auto simp: commitAttempt_def bindE_def)
  qed
qed

lemma handleTxnError_own:
  assumes "atomicSession sh session v" and "handleTxnError sh session k b e s = (r, t)"
  shows "ownTxns v t = ownTxns v s \<and> (b \<longrightarrow> t = s) \<and> (r = Val False \<longrightarrow> False) \<and> (b \<longrightarrow> r = Val True \<longrightarrow> hasTransientLabel e)"
proof (cases b)
  case True
  then show ?thesis
    using assms(2) by (auto simp: handleTxnError_def shouldRetryEntireTxnOnError_def js_simps split: if_splits)
next
  case False
  obtain r1 s1 where ab: "abortTransaction_forTesting session s = (r1, s1)" by (cases "abortTransaction_forTesting session s")
  have "ownTxns v s1 = ownTxns v s" using assms(1) ab unfolding atomicSession_def abortLaw_def by blast
  moreover have "t = s1 \<and> r \<noteq> Val False"
    using assms(2) False ab
    by (cases r1) (auto simp: handleTxnError_def seqE_def bindE_def checkE_def ret_def raise_def split: if_splits option.splits)
  ultimately show ?thesis using False by simp
qed

text \<open>What is kept of the captured variables while the transaction is committed.\<close>

definition keptByCommit :: "'s session_ops \<Rightarrow> ('s \<Rightarrow> bool) \<Rightarrow> bool" where
  "keptByCommit session P \<longleftrightarrow> keeps P (commitTransaction_forTesting session) \<and> keeps P (random session)"

lemma commitAttempt_kept:
  assumes "keptByCommit session P" and "atomicSession sh session v" and "P s" and "commitAttempt fuel sh session k 0 s = (r, t)"
  shows "P t"
proof -
  have "keeps P (commitTransactionWithKilledSessionRetries fuel sh session k)"
    by (induction fuel) (use assms(1) in \<open>auto simp: keptByCommit_def intro!: keeps_rules\<close>)
  moreover have "random session s = (r1, s1) \<Longrightarrow> P s1 \<and> (\<forall>x. r1 = Val x \<longrightarrow> 0 \<le> x)" for r1 s1
    using assms(1-3) unfolding keptByCommit_def atomicSession_def randomLaw_def by (metis keepsD snd_conv)
  ultimately show ?thesis
    using assms(4) by (cases "random session s"; cases "fst (random session s)")
      (auto simp: commitAttempt_def bindE_def dest: keepsD)
qed

lemma txnAttempt_once:
  assumes "atomicSession sh session v" and "updatesInTxn v func Q" and "\<And>us. keptByCommit session (\<lambda>s. Q s us)"
    and "txnAttempt fuel sh session func k 0 s = (r, t)"
  shows "(r = Val False \<longrightarrow> (\<exists>us. Q t us \<and> ownTxns v t = ownTxns v s @ [us])) \<and> (r = Val True \<longrightarrow> ownTxns v t = ownTxns v s) \<and>
    atMostOne (ownTxns v s) (\<lambda>us. \<exists>s. Q s us) (ownTxns v t)"
proof -
  obtain r1 s1 where st: "startTransaction_forTesting session s = (r1, s1)" by (cases "startTransaction_forTesting session s")
  have own1: "ownTxns v s1 = ownTxns v s" and open1: "r1 = Val () \<Longrightarrow> txnState v s1 = InProgress []"
    using assms(1) st unfolding atomicSession_def startLaw_def by blast+
  obtain r2 s2 where fn: "func s1 = (r2, s2)" by (cases "func s1")
  have own2: "ownTxns v s2 = ownTxns v s" if "r1 = Val ()"
    using assms(2) open1 [OF that] fn own1 unfolding updatesInTxn_def by metis
  consider "r1 \<noteq> Val ()" | "r1 = Val ()" "r2 = Val ()" | e where "r1 = Val ()" "r2 = Throw e" | "r1 = Val ()" "r2 = Diverge"
    by (cases r2) auto
  then show ?thesis
  proof cases
    case 1
    then show ?thesis using assms(4) st own1 by (cases r1) (auto simp: txnAttempt_def seqE_def bindE_def)
  next
    case 2
    obtain us where us: "txnState v s2 = InProgress us" "Q s2 us"
      using assms(2) open1 [OF 2(1)] fn 2(2) unfolding updatesInTxn_def by metis
    then have inv: "committing v (ownTxns v s) us s2" using own2 [OF 2(1)] by (simp add: committing_def)
    obtain r3 s3 where cm: "commitAttempt fuel sh session k 0 s2 = (r3, s3)" by (cases "commitAttempt fuel sh session k 0 s2")
    note after = commitAttempt_committing [OF assms(1) inv cm]
    have Q3: "Q s3 us" by (rule commitAttempt_kept [OF assms(3,1) _ cm]) (fact us(2))
    have run: "(case r3 of Val _ \<Rightarrow> (Val False, s3) | Throw e \<Rightarrow> handleTxnError sh session k True e s3 | Diverge \<Rightarrow> (Diverge, s3)) = (r, t)"
      using assms(4) st fn 2 cm by (cases r3) (auto simp: txnAttempt_def seqE_def bindE_def tryCatch_def ret_def)
    show ?thesis
      using run after committing_atMostOne [of v "ownTxns v s" us s3 "\<lambda>us. \<exists>s. Q s us", OF _ exI [of _ s3]] Q3
      by (cases r3) (auto simp: committing_def split: txn_state.splits dest!: handleTxnError_own [OF assms(1)])
  next
    case 3
    then have "handleTxnError sh session k False e s2 = (r, t)"
      using assms(4) st fn by (simp add: txnAttempt_def seqE_def bindE_def tryCatch_def ret_def)
    from handleTxnError_own [OF assms(1) this] show ?thesis using own2 [OF 3(1)] by auto
  next
    case 4
    then show ?thesis using assms(4) st fn own2 by (auto simp: txnAttempt_def seqE_def bindE_def tryCatch_def)
  qed
qed

lemma txnLoop_once:
  assumes "atomicSession sh session v" and "updatesInTxn v func Q" and "\<And>us. keptByCommit session (\<lambda>s. Q s us)"
  shows "txnLoop fuel sh session func k 0 s = (r, t) \<Longrightarrow>
    (r = Val () \<longrightarrow> (\<exists>us. Q t us \<and> ownTxns v t = ownTxns v s @ [us])) \<and> atMostOne (ownTxns v s) (\<lambda>us. \<exists>s. Q s us) (ownTxns v t)"
proof (induction fuel arbitrary: s)
  case 0
  then show ?case by (simp add: diverge_def)
next
  case (Suc fuel)
  obtain r1 s1 where att: "txnAttempt fuel sh session func k 0 s = (r1, s1)" by (cases "txnAttempt fuel sh session func k 0 s")
  note once = txnAttempt_once [OF assms att]
  consider "r1 = Val True" | "r1 = Val False" | e where "r1 = Throw e" | "r1 = Diverge" by (cases r1) auto
  then show ?case
    by cases (use Suc.prems Suc.IH [of s1] att once in \<open>auto simp: bindE_def ret_def\<close>)
qed

text \<open>
  With a session that commits atomically, a run of \<open>withTxnAndAutoRetry\<close> that returns has added exactly one
  transaction, the one of the function's last run; a run that throws has added at most one.
\<close>

lemma withTxn_once:
  assumes "atomicSession sh session v" and "updatesInTxn v func Q" and "\<And>us. keptByCommit session (\<lambda>s. Q s us)"
    and "withTxnAndAutoRetry fuel sh session func k 0 s = (r, t)"
  shows "(r = Val () \<longrightarrow> (\<exists>us. Q t us \<and> ownTxns v t = ownTxns v s @ [us])) \<and> atMostOne (ownTxns v s) (\<lambda>us. \<exists>s. Q s us) (ownTxns v t)"
  using txnLoop_once [OF assms(1-3)] assms(4) by (simp add: withTxnAndAutoRetry_def js_simps)

lemma withTxn_hoare:
  assumes "atomicSession sh session v" and "updatesInTxn v func Q" and "\<And>us. keptByCommit session (\<lambda>s. Q s us)"
  shows "hoare (\<lambda>s. ownTxns v s = base) (withTxnAndAutoRetry fuel sh session func k 0)
    (\<lambda>_ t. \<exists>us. Q t us \<and> ownTxns v t = base @ [us]) (\<lambda>t. atMostOne base (\<lambda>us. \<exists>s. Q s us) (ownTxns v t))"
  unfolding hoare_def using withTxn_once [OF assms] by (fastforce split: prod.split outcome.split)

lemma keptByCommit_const: "keptByCommit session (\<lambda>_. P)"
  by (simp add: keptByCommit_def keeps_def)

section \<open>Sessions seen with captured variables\<close>

definition viewOnFst :: "'s txn_view \<Rightarrow> ('s \<times> 'l) txn_view" where
  "viewOnFst v = \<lparr>ownTxns = ownTxns v \<circ> fst, txnState = txnState v \<circ> fst\<rparr>"

lemma viewOnFst_simps [simp]: "ownTxns (viewOnFst v) p = ownTxns v (fst p)" "txnState (viewOnFst v) p = txnState v (fst p)"
  by (simp_all add: viewOnFst_def)

lemma atomicSession_onFst: "atomicSession sh session v \<Longrightarrow> atomicSession sh (sessionOnFst session) (viewOnFst v)"
  unfolding atomicSession_def startLaw_def abortLaw_def commitLaw_def randomLaw_def
  by (simp add: sessionOnFst_def onFst_run cong: txn_state.case_cong)

lemma keptByCommit_onFst: "keptByCommit (sessionOnFst session) (\<lambda>p. P (snd p))"
  by (simp add: keptByCommit_def keeps_def sessionOnFst_def)

text \<open>Exactly once for a function with captured variables: \<open>Q\<close> relates them to the committed updates.\<close>

lemma withTxn_local_hoare:
  assumes "atomicSession sh session v" and "updatesInTxn (viewOnFst v) func (\<lambda>p us. Q (snd p) us)"
  shows "hoare (\<lambda>s. ownTxns v s = base) (withLocal init (withTxnAndAutoRetry fuel sh (sessionOnFst session) func k 0))
    (\<lambda>l t. \<exists>us. Q l us \<and> ownTxns v t = base @ [us]) (\<lambda>t. atMostOne base (\<lambda>us. \<exists>l. Q l us) (ownTxns v t))"
  unfolding hoare_def
proof (intro allI impI)
  fix s assume base: "ownTxns v s = base"
  obtain r t l where m: "withTxnAndAutoRetry fuel sh (sessionOnFst session) func k 0 (s, init) = (r, (t, l))" by (metis prod.exhaust)
  have "(r = Val () \<longrightarrow> (\<exists>us. Q l us \<and> ownTxns v t = base @ [us])) \<and> atMostOne base (\<lambda>us. \<exists>l. Q l us) (ownTxns v t)"
    using withTxn_once [OF atomicSession_onFst [OF assms(1)] assms(2) keptByCommit_onFst m] base
    by (auto simp: atMostOne_def)
  then show "case withLocal init (withTxnAndAutoRetry fuel sh (sessionOnFst session) func k 0) s of
      (Val l, t) \<Rightarrow> \<exists>us. Q l us \<and> ownTxns v t = base @ [us]
    | (Throw e, t) \<Rightarrow> atMostOne base (\<lambda>us. \<exists>l. Q l us) (ownTxns v t) | (Diverge, t) \<Rightarrow> True"
    using m by (cases r) (auto simp: withLocal_def)
qed

section \<open>A session for concrete runs\<close>

text \<open>A session alone with its server: the committed transactions and the one in progress; every update matches.\<close>

record sole =
  soleTxns :: "jsval list list"
  soleTxn :: txn_state

definition soleView :: "'m sole_scheme txn_view" where
  "soleView = \<lparr>ownTxns = soleTxns, txnState = soleTxn\<rparr>"

definition soleSession :: "'m sole_scheme session_ops" where
  "soleSession = \<lparr>
     startTransaction_forTesting = modE (\<lambda>s. s\<lparr>soleTxn := InProgress []\<rparr>),
     commitTransaction_forTesting = (\<lambda>s. case soleTxn s of
        InProgress us \<Rightarrow> (Val (JObj [(''ok'', jnum 1)]), s\<lparr>soleTxns := soleTxns s @ [us], soleTxn := Committed\<rparr>)
      | Committed \<Rightarrow> (Val (JObj [(''ok'', jnum 1)]), s)
      | NoTxn \<Rightarrow> (Val (JObj [(''ok'', jnum 0)]), s)),
     abortTransaction_forTesting = (\<lambda>s. (Val (JObj [(''ok'', jnum 1)]), s\<lparr>soleTxn := NoTxn\<rparr>)),
     sessionAdminCommand = (\<lambda>_. ret (JObj [(''ok'', jnum 1)])),
     random = ret 0\<rparr>"

definition soleUpdate :: "jsval \<Rightarrow> ('m sole_scheme, jsval) eff" where
  "soleUpdate cmd = (\<lambda>s. case soleTxn s of
      InProgress us \<Rightarrow> (Val (JObj [(''ok'', jnum 1), (''n'', jnum 1), (''nModified'', jnum 1)]),
                        s\<lparr>soleTxn := InProgress (us @ arr_elems (fld cmd ''updates''))\<rparr>)
    | _ \<Rightarrow> (Val (JObj [(''ok'', jnum 0)]), s))"

lemma sole_atomic: "atomicSession exampleShell soleSession soleView"
  unfolding atomicSession_def startLaw_def abortLaw_def commitLaw_def randomLaw_def
proof (intro conjI exampleShell_commandWorked)
qed (auto simp: soleSession_def soleView_def modE_def ret_def response_failed_def exampleShell_def
      has_own_def obj_keys_def hasTransientLabel_def fld_def split: txn_state.splits if_splits)

lemma sole_update: "updateLaw soleUpdate soleView"
  by (auto simp: updateLaw_def soleUpdate_def soleView_def updateCommand_def fld_def)

end
