(* ===== verification/Bank_Workload.thy ===== *)
theory Bank_Workload
  imports Txn_Store Assert_Level Parse_Config
begin

text \<open>
  The bank-account workloads of the concurrency suite: \<open>multi_statement_transaction_simple.js\<close>, which moves money
  between accounts inside transactions and checks that none is lost, and its three extensions
  (\<open>_repeated_reads\<close>, \<open>_majority_writes\<close> and \<open>_kill_sessions\<close>, the last with \<open>fsm_workload_helpers/kill_session.js\<close>).
  The database a thread talks to is an environment; what the properties need of it is the
  atomicity of \<open>Txn_Store\<close> and that a read inside a transaction shows whole transactions only.
\<close>

section \<open>Environment\<close>

record 's bkEnv =
  bkShell :: shell
  bkLevel :: assert_level                                     \<comment> \<open>the global assertion level\<close>
  bkSession :: "'s session_ops"                               \<comment> \<open>\<open>this.session\<close>\<close>
  bkStartSession :: "jsval \<Rightarrow> ('s, unit) eff"
  bkUpdate :: "jsval \<Rightarrow> ('s, jsval) eff"                      \<comment> \<open>\<open>collection.runCommand('update', ...)\<close> on the session\<close>
  bkFind :: "('s, jsval list) eff"                            \<comment> \<open>\<open>collection.find().toArray()\<close> on the session\<close>
  bkRandInt :: "rat \<Rightarrow> ('s, int) eff"
  bkDbCommand :: "jsval \<Rightarrow> ('s, jsval) eff"
  bkAdminCommand :: "jsval \<Rightarrow> ('s, jsval) eff"
  bkBulkInsert :: "jsval list \<Rightarrow> jsval \<Rightarrow> ('s, jsval) eff"    \<comment> \<open>an unordered bulk operation, executed\<close>
  bkFindAll :: "('s, jsval list) eff"                         \<comment> \<open>\<open>db[collName].find().toArray()\<close>\<close>
  bkIsSharded :: "('s, bool) eff"
  bkSyncTimes :: "('s, unit) eff"                             \<comment> \<open>\<open>cluster.synchronizeMongosClusterTimes()\<close>\<close>
  bkInsertInto :: "string \<Rightarrow> jsval \<Rightarrow> jsval \<Rightarrow> ('s, jsval) eff"
  bkUpdateIn :: "string \<Rightarrow> jsval \<Rightarrow> jsval \<Rightarrow> jsval \<Rightarrow> ('s, jsval) eff"
  bkFindOne :: "string \<Rightarrow> jsval \<Rightarrow> ('s, jsval) eff"
  bkIsMongos :: "('s, bool) eff"
  bkFullName :: "string \<Rightarrow> string"
  bkCollName :: string
  bkSampleSession :: "('s, jsval list) eff"                   \<comment> \<open>one of the other sessions of \<open>config.system.sessions\<close>, or none\<close>
  bkFailedWithCode :: "jsval \<Rightarrow> jsval \<Rightarrow> exn option"           \<comment> \<open>what \<open>assert.commandFailedWithCode\<close> throws\<close>

record bkData =
  numAccounts :: nat
  initialValue :: int
  retryKilled :: bool                                         \<comment> \<open>\<open>retryOnKilledSession\<close>\<close>

definition bkWhenOwnColl :: "'s bkEnv \<Rightarrow> ('s, unit) eff \<Rightarrow> ('s, unit) eff" where
  "bkWhenOwnColl env check = (if compareTo OWN_COLL (bkLevel env) > 0 then ret () else check)"

section \<open>The workload\<close>

definition computeTotalOfAllBalances :: "jsval \<Rightarrow> jsnum result" where
  "computeTotalOfAllBalances documents =
     (case documents of
        JArr docs \<Rightarrow> Inr (foldl (\<lambda>tot account. num_add tot (to_number (fld account ''balance''))) (Fin 0) docs)
      | _ \<Rightarrow> Inl (TypeErr ''documents.reduce is not a function''))"

definition bk_getAllDocuments :: "nat \<Rightarrow> 's bkEnv \<Rightarrow> nat \<Rightarrow> bool \<Rightarrow> ('s, jsval) eff" where
  "bk_getAllDocuments fuel env numDocs retryOnKilledSession =
     withLocal Undef
      (withTxnAndAutoRetry fuel (bkShell env) (sessionOnFst (bkSession env))
        (bindE (onFst (bkFind env)) (\<lambda>docs.
         seqE (modE (\<lambda>(s, _). (s, JArr docs)))
              (onFst (bkWhenOwnColl env (assertE (numDocs = length docs) ''are not equal'')))))
        retryOnKilledSession 0)"

definition bk_init :: "'s bkEnv \<Rightarrow> ('s, unit) eff" where
  "bk_init env = bkStartSession env (JObj [(''causalConsistency'', JBool True)])"

definition checkTotal :: "'s bkEnv \<Rightarrow> bkData \<Rightarrow> jsval \<Rightarrow> ('s, unit) eff" where
  "checkTotal env d documents =
     bindE (liftE (computeTotalOfAllBalances documents)) (\<lambda>tot.
     bkWhenOwnColl env (assertE (Fin (of_nat (numAccounts d) * of_int (initialValue d)) = tot) ''are not equal''))"

definition checkMoneyBalance :: "nat \<Rightarrow> 's bkEnv \<Rightarrow> bkData \<Rightarrow> ('s, unit) eff" where
  "checkMoneyBalance fuel env d =
     bindE (bk_getAllDocuments fuel env (numAccounts d) (retryKilled d)) (checkTotal env d)"

text \<open>Drawing the second account again until it differs from the first.\<close>

fun drawOther :: "nat \<Rightarrow> 's bkEnv \<Rightarrow> bkData \<Rightarrow> int \<Rightarrow> int \<Rightarrow> ('s, int) eff" where
  "drawOther fuel env d transferFrom transferTo =
     (if transferFrom = transferTo
      then case fuel of
             0 \<Rightarrow> diverge
           | Suc n \<Rightarrow> bindE (bkRandInt env (of_nat (numAccounts d))) (drawOther n env d transferFrom)
      else ret transferTo)"

declare drawOther.simps [simp del]

definition incBalance :: "int \<Rightarrow> int \<Rightarrow> jsval" where
  "incBalance account amount =
     JObj [(''q'', JObj [(''_id'', jnum account)]), (''u'', JObj [(''$inc'', JObj [(''balance'', jnum amount)])])]"

text \<open>One of the two updates, with the checks of its response.\<close>

definition bk_updateOne :: "'s bkEnv \<Rightarrow> jsval \<Rightarrow> ('s, unit) eff" where
  "bk_updateOne env u =
     bindE (bkUpdate env (updateCommand u)) (\<lambda>res.
     seqE (checkE (commandWorked (bkShell env) res))
    (seqE (bkWhenOwnColl env (assertE (fld res ''n'' = jnum 1) ''are not equal''))
          (bkWhenOwnColl env (assertE (fld res ''nModified'' = jnum 1) ''are not equal''))))"

definition transferMoney :: "nat \<Rightarrow> 's bkEnv \<Rightarrow> bkData \<Rightarrow> ('s, unit) eff" where
  "transferMoney fuel env d =
     bindE (bkRandInt env (of_nat (numAccounts d))) (\<lambda>transferFrom.
     bindE (bkRandInt env (of_nat (numAccounts d))) (\<lambda>transferTo0.
     bindE (drawOther fuel env d transferFrom transferTo0) (\<lambda>transferTo.
     bindE (bkRandInt env (of_int (initialValue d) / 10)) (\<lambda>amount.
     let transferAmount = amount + 1 in
     withTxnAndAutoRetry fuel (bkShell env) (bkSession env)
       (seqE (bk_updateOne env (incBalance transferFrom (- transferAmount)))
             (bk_updateOne env (incBalance transferTo transferAmount)))
       (retryKilled d) 0))))"

definition accountDocs :: "bkData \<Rightarrow> jsval list" where
  "accountDocs d = map (\<lambda>i. JObj [(''_id'', jnum (int i)), (''balance'', jnum (initialValue d))]) [0..<numAccounts d]"

definition bk_setup :: "'s bkEnv \<Rightarrow> bkData \<Rightarrow> ('s, unit) eff" where
  "bk_setup env d =
     bindE (bkDbCommand env (JObj [(''create'', JStr (bkCollName env))])) (\<lambda>created.
     seqE (bkWhenOwnColl env (checkE (commandWorked (bkShell env) created)))
    (bindE (bkBulkInsert env (accountDocs d) (JObj [(''w'', JStr ''majority'')])) (\<lambda>res.
     seqE (bkWhenOwnColl env (checkE (commandWorked (bkShell env) res)))
    (seqE (bkWhenOwnColl env (assertE (jnum (int (numAccounts d)) = fld res ''nInserted'') ''are not equal''))
    (bindE (bkIsSharded env) (\<lambda>sharded. if sharded then bkSyncTimes env else ret ()))))))"

definition bk_teardown :: "'s bkEnv \<Rightarrow> bkData \<Rightarrow> ('s, unit) eff" where
  "bk_teardown env d = bindE (bkFindAll env) (\<lambda>documents. checkTotal env d (JArr documents))"

section \<open>Repeated reads\<close>

fun readAgain :: "'s bkEnv \<Rightarrow> bkData \<Rightarrow> nat \<Rightarrow> jsval list option \<Rightarrow> ('s, unit) eff" where
  "readAgain env d 0 prevDocuments = ret ()"
| "readAgain env d (Suc left) prevDocuments =
     bindE (bkFind env) (\<lambda>collectionDocs.
     seqE (bkWhenOwnColl env (assertE (numAccounts d = length collectionDocs) ''are not equal''))
    (seqE (case prevDocuments of
             None \<Rightarrow> ret ()
           | Some prev \<Rightarrow> assertE (mset prev = mset collectionDocs) ''Document mismatch'')
    (readAgain env d left (Some collectionDocs))))"

definition repeatedRead :: "nat \<Rightarrow> 's bkEnv \<Rightarrow> bkData \<Rightarrow> nat \<Rightarrow> ('s, unit) eff" where
  "repeatedRead fuel env d numReads =
     withTxnAndAutoRetry fuel (bkShell env) (bkSession env) (readAgain env d numReads None) False 0"

section \<open>Majority writes\<close>

definition majorityOpts :: jsval where
  "majorityOpts = JObj [(''writeConcern'', JObj [(''w'', JStr ''majority'')])]"

definition bkm_init :: "'s bkEnv \<Rightarrow> string \<Rightarrow> int \<Rightarrow> int \<Rightarrow> ('s, unit) eff" where
  "bkm_init env majorityWriteCollName tid counter =
     seqE (bk_init env)
    (bindE (bkInsertInto env majorityWriteCollName (JObj [(''_id'', jnum tid), (''counter'', jnum counter)]) majorityOpts) (\<lambda>res.
     bkWhenOwnColl env (checkE (commandWorked (bkShell env) res))))"

text \<open>A majority write of \<open>counter + 1\<close> and the read that has to see it; the value is the new counter.\<close>

definition majorityWrite :: "'s bkEnv \<Rightarrow> string \<Rightarrow> int \<Rightarrow> string \<Rightarrow> int \<Rightarrow> ('s, int) eff" where
  "majorityWrite env coll docId field counter =
     bindE (bkUpdateIn env coll (JObj [(''_id'', jnum docId)]) (JObj [(''$set'', JObj [(field, jnum (counter + 1))])]) majorityOpts) (\<lambda>res.
     seqE (bkWhenOwnColl env (checkE (commandWorked (bkShell env) res)))
    (bindE (bkFindOne env coll (JObj [(''_id'', jnum docId)])) (\<lambda>doc.
     bindE (liftE (get_prop doc field)) (\<lambda>seen.
     seqE (bkWhenOwnColl env (assertE (jnum (counter + 1) = seen) ''are not equal''))
     (ret (counter + 1))))))"

definition majorityWriteUnrelatedDoc :: "'s bkEnv \<Rightarrow> string \<Rightarrow> int \<Rightarrow> int \<Rightarrow> ('s, int) eff" where
  "majorityWriteUnrelatedDoc env majorityWriteCollName tid counter = majorityWrite env majorityWriteCollName tid ''counter'' counter"

definition majorityWriteTxnDoc :: "'s bkEnv \<Rightarrow> bkData \<Rightarrow> nat \<Rightarrow> int \<Rightarrow> ('s, int) eff" where
  "majorityWriteTxnDoc env d tid counter =
     bindE (bkRandInt env (of_nat (numAccounts d))) (\<lambda>transactionDocId.
     majorityWrite env (bkCollName env) transactionDocId (''thread'' @ show_nat tid) counter)"

definition bkm_setup :: "'s bkEnv \<Rightarrow> bkData \<Rightarrow> string \<Rightarrow> ('s, unit) eff" where
  "bkm_setup env d majorityWriteCollName =
     seqE (bk_setup env d)
    (bindE (bkIsMongos env) (\<lambda>mongos.
     if mongos
     then bindE (bkAdminCommand env (JObj [(''shardCollection'', JStr (bkFullName env majorityWriteCollName)),
                                           (''key'', JObj [(''_id'', JStr ''hashed'')])])) (\<lambda>_. ret ())
     else ret ()))"

section \<open>Killing sessions\<close>

text \<open>One turn of the loop: its value is \<open>ourSessionWasKilled\<close>; the loop is left when it is false.\<close>

definition killSessionTurn :: "'s bkEnv \<Rightarrow> ('s, bool) eff" where
  "killSessionTurn env =
     tryCatch
       (bindE (bkAdminCommand env (JObj [(''refreshLogicalSessionCacheNow'', jnum 1)])) (\<lambda>res.
        bindE (liftE (get_prop res ''ok'')) (\<lambda>ok.
        if \<not> strict_eq ok (jnum 1) \<and> (strict_eq (fld res ''code'') (jnum 18630) \<or> strict_eq (fld res ''code'') (jnum 18631))
        then ret True
        else seqE (checkE (if strict_eq ok (jnum 1) then commandWorked (bkShell env) res
                           else bkFailedWithCode env res (errorCode (bkShell env) ''DuplicateKey'')))
            (bindE (bkSampleSession env) (\<lambda>sessionToKill.
             case sessionToKill of
               [] \<Rightarrow> ret False
             | entry # _ \<Rightarrow>
                 bindE (liftE (rbind (get_prop entry ''_id'') (\<lambda>i. get_prop i ''id''))) (\<lambda>sessionUUID.
                 bindE (bkDbCommand env (JObj [(''killSessions'', JArr [JObj [(''id'', sessionUUID)]])])) (\<lambda>killed.
                 seqE (checkE (commandWorked (bkShell env) killed)) (ret False))))))))
       (\<lambda>e. if fld (exn_obj e) ''code'' \<in> errorCode (bkShell env) ` {''Interrupted'', ''CursorKilled'', ''CursorNotFound''}
            then ret True else raise e)"

fun killSession :: "nat \<Rightarrow> 's bkEnv \<Rightarrow> ('s, unit) eff" where
  "killSession 0 env = diverge"
| "killSession (Suc fuel) env =
     bindE (killSessionTurn env) (\<lambda>ourSessionWasKilled. if ourSessionWasKilled then killSession fuel env else ret ())"

section \<open>What is relied on\<close>

definition randIntLaw :: "'s bkEnv \<Rightarrow> 's txn_view \<Rightarrow> bool" where
  "randIntLaw env v \<longleftrightarrow> (\<forall>n s r t. bkRandInt env n s = (r, t) \<longrightarrow> 0 < n \<longrightarrow>
     ownTxns v t = ownTxns v s \<and> (\<forall>x. r = Val x \<longrightarrow> 0 \<le> x \<and> of_int x < n))"

text \<open>How much an update adds to the balance of account \<open>i\<close>, and the balances that whole transactions leave.\<close>

definition addedTo :: "int \<Rightarrow> jsval \<Rightarrow> rat" where
  "addedTo i u =
     (if fld (fld u ''q'') ''_id'' = jnum i
      then case fld (fld (fld u ''u'') ''$inc'') ''balance'' of JNum (Fin a) \<Rightarrow> a | _ \<Rightarrow> 0 else 0)"

definition balanceAfter :: "bkData \<Rightarrow> jsval list list \<Rightarrow> int \<Rightarrow> rat" where
  "balanceAfter d txns i = of_int (initialValue d) + sum_list (map (addedTo i) (concat txns))"

definition reflects :: "bkData \<Rightarrow> jsval list list \<Rightarrow> jsval list \<Rightarrow> bool" where
  "reflects d txns docs \<longleftrightarrow>
     mset docs = mset (map (\<lambda>i. JObj [(''_id'', jnum (int i)), (''balance'', JNum (Fin (balanceAfter d txns (int i))))]) [0..<numAccounts d])"

text \<open>
  A read inside a transaction that has made no update shows the effect of some of the transactions ever committed,
  each as a whole; \<open>committed\<close> is the set of them, of every session.
\<close>

definition snapshotLaw :: "'s bkEnv \<Rightarrow> bkData \<Rightarrow> 's txn_view \<Rightarrow> jsval list set \<Rightarrow> bool" where
  "snapshotLaw env d v committed \<longleftrightarrow> (\<forall>s r t. bkFind env s = (r, t) \<longrightarrow> txnState v s = InProgress [] \<longrightarrow>
     ownTxns v t = ownTxns v s \<and>
     (\<forall>docs. r = Val docs \<longrightarrow> txnState v t = InProgress [] \<and> (\<exists>txns. set txns \<subseteq> committed \<and> reflects d txns docs)))"

definition isTransfer :: "bkData \<Rightarrow> jsval list \<Rightarrow> bool" where
  "isTransfer d us \<longleftrightarrow> (\<exists>a b amount. us = [incBalance a (- amount), incBalance b amount] \<and> a \<noteq> b \<and>
     0 \<le> a \<and> a < int (numAccounts d) \<and> 0 \<le> b \<and> b < int (numAccounts d) \<and>
     0 < amount \<and> of_int amount < (of_int (initialValue d) / 10 + 1 :: rat))"

section \<open>Money is moved\<close>

lemma bk_updateOne_run:
  assumes "updateLaw (bkUpdate env) v" and "commandWorked_spec (bkShell env)" and "1 \<le> level (bkLevel env)"
    and "txnState v s = InProgress us" and "bk_updateOne env u s = (r, t)"
  shows "ownTxns v t = ownTxns v s \<and> (r = Val () \<longrightarrow> txnState v t = InProgress (us @ [u]))"
proof -
  obtain r1 s1 where up: "bkUpdate env (updateCommand u) s = (r1, s1)" by (cases "bkUpdate env (updateCommand u) s")
  have law: "ownTxns v s1 = ownTxns v s"
    "\<And>res. r1 = Val res \<Longrightarrow> \<not> response_failed res \<Longrightarrow> fld res ''n'' = jnum 1 \<Longrightarrow> txnState v s1 = InProgress (us @ [u])"
    using assms(1,4) up unfolding updateLaw_def by blast+
  show ?thesis
  proof (cases r1)
    case (Val res)
    have "t = s1 \<and> (r = Val () \<longrightarrow> commandWorked (bkShell env) res = None \<and> fld res ''n'' = jnum 1)"
      using assms(3,5) up Val
      by (auto simp: bk_updateOne_def bkWhenOwnColl_def level_defs bindE_def seqE_def checkE_def assertE_def ret_def raise_def
          split: option.splits if_splits)
    then show ?thesis using law Val assms(2) by (auto simp: commandWorked_spec_def)
  qed (use assms(5) up law(1) in \<open>auto simp: bk_updateOne_def bindE_def\<close>)
qed

lemma transfer_in_txn:
  assumes "updateLaw (bkUpdate env) v" and "commandWorked_spec (bkShell env)" and "1 \<le> level (bkLevel env)"
  shows "updatesInTxn v (seqE (bk_updateOne env u) (bk_updateOne env u')) (\<lambda>_ us. us = [u, u'])"
  unfolding updatesInTxn_def
proof (intro allI impI)
  fix s r t
  assume open0: "txnState v s = InProgress []" and run: "seqE (bk_updateOne env u) (bk_updateOne env u') s = (r, t)"
  obtain r1 s1 where one: "bk_updateOne env u s = (r1, s1)" by (cases "bk_updateOne env u s")
  note first = bk_updateOne_run [OF assms open0 one]
  show "ownTxns v t = ownTxns v s \<and> (r = Val () \<longrightarrow> (\<exists>us. txnState v t = InProgress us \<and> us = [u, u']))"
  proof (cases r1)
    case (Val x)
    then have "txnState v s1 = InProgress [u]" "bk_updateOne env u' s1 = (r, t)"
      using first run one by (simp_all add: seqE_def bindE_def)
    from bk_updateOne_run [OF assms this] show ?thesis using first by simp
  qed (use run one first in \<open>auto simp: seqE_def bindE_def\<close>)
qed

text \<open>The draws: from a state with the transactions \<open>base\<close>, a number in range and no transaction more.\<close>

lemma randInt_hoare:
  assumes "randIntLaw env v" and "0 < n"
  shows "hoare (\<lambda>s. ownTxns v s = base) (bkRandInt env n) (\<lambda>x s. ownTxns v s = base \<and> 0 \<le> x \<and> of_int x < n) (\<lambda>s. ownTxns v s = base)"
  using assms unfolding hoare_def randIntLaw_def by (fastforce split: prod.split outcome.split)

lemma drawOther_hoare:
  assumes "randIntLaw env v" and "0 < numAccounts d"
  shows "hoare (\<lambda>s. ownTxns v s = base \<and> 0 \<le> b \<and> b < int (numAccounts d)) (drawOther fuel env d a b)
    (\<lambda>x s. ownTxns v s = base \<and> 0 \<le> x \<and> x < int (numAccounts d) \<and> x \<noteq> a) (\<lambda>s. ownTxns v s = base)"
proof (induction fuel arbitrary: b)
  case 0
  then show ?case by (subst drawOther.simps) (auto simp: hoare_def diverge_def ret_def)
next
  case (Suc fuel)
  have draw: "hoare (\<lambda>s. ownTxns v s = base) (bkRandInt env (of_nat (numAccounts d)))
      (\<lambda>x s. ownTxns v s = base \<and> 0 \<le> x \<and> x < int (numAccounts d)) (\<lambda>s. ownTxns v s = base)"
    by (rule hoare_weaken [OF randInt_hoare [OF assms(1), of "of_nat (numAccounts d)" base]])
      (use assms(2) in \<open>auto simp: of_int_less_iff [symmetric, where ?'a = rat]\<close>)
  have "hoare (\<lambda>s. ownTxns v s = base) (bindE (bkRandInt env (of_nat (numAccounts d))) (drawOther fuel env d a))
      (\<lambda>x s. ownTxns v s = base \<and> 0 \<le> x \<and> x < int (numAccounts d) \<and> x \<noteq> a) (\<lambda>s. ownTxns v s = base)"
    by (rule hoare_bindE [OF draw Suc.IH])
  then show ?case by (subst drawOther.simps) (auto simp: hoare_def ret_def)
qed

lemma transfer_txn:
  assumes "atomicSession (bkShell env) (bkSession env) v" and "updateLaw (bkUpdate env) v" and "1 \<le> level (bkLevel env)"
    and "isTransfer d [u, u']"
  shows "hoare (\<lambda>s. ownTxns v s = base)
    (withTxnAndAutoRetry fuel (bkShell env) (bkSession env) (seqE (bk_updateOne env u) (bk_updateOne env u')) k 0)
    (\<lambda>_ t. \<exists>us. isTransfer d us \<and> ownTxns v t = base @ [us]) (\<lambda>t. atMostOne base (isTransfer d) (ownTxns v t))"
proof (rule hoare_weaken [OF withTxn_hoare [OF assms(1) transfer_in_txn [OF assms(2) _ assms(3), of u u'] keptByCommit_const]])
  show "commandWorked_spec (bkShell env)" using assms(1) by (simp add: atomicSession_def)
qed (use assms(4) in \<open>auto simp: atMostOne_def\<close>)

text \<open>
  C33. Money is moved exactly once, while the assertions on the own collection are active (the level is at least \<open>OWN_COLL\<close>; at
  \<open>ALWAYS\<close> an update that matches no account would go unnoticed).  With a session whose transactions are atomic, updates
  that report one matched document having made their change in the open transaction, random numbers within their bound and at least one account
  with a positive initial value, a run of \<open>transferMoney\<close> that
  returns has committed exactly one transaction more, which takes a positive amount, at most a tenth of the initial
  value rounded up, from one account and adds it to another; a run that throws has committed at most one, and of that form too.
  Lost or doubled transfers do not occur however often the transaction was retried.
\<close>

theorem transfer_exactly_once:
  assumes "atomicSession (bkShell env) (bkSession env) v" and "updateLaw (bkUpdate env) v" and "randIntLaw env v"
    and "1 \<le> level (bkLevel env)" and "0 < numAccounts d" and "0 < initialValue d"
  shows "hoare (\<lambda>s. ownTxns v s = base) (transferMoney fuel env d)
    (\<lambda>_ t. \<exists>us. isTransfer d us \<and> ownTxns v t = base @ [us]) (\<lambda>t. atMostOne base (isTransfer d) (ownTxns v t))"
proof -
  let ?E = "\<lambda>t. atMostOne base (isTransfer d) (ownTxns v t)"
  let ?n = "int (numAccounts d)"
  have draw: "hoare (\<lambda>s. ownTxns v s = base \<and> C) (bkRandInt env n) (\<lambda>x s. ownTxns v s = base \<and> C \<and> 0 \<le> x \<and> of_int x < n) ?E"
    if "0 < n" for n C
    by (cases C) (use hoare_weaken [OF randInt_hoare [OF assms(3) that, of base]] in \<open>auto simp: hoare_def\<close>)
  have other: "hoare (\<lambda>s. ownTxns v s = base \<and> (C \<and> 0 \<le> b \<and> b < ?n)) (drawOther fuel env d a b)
      (\<lambda>x s. ownTxns v s = base \<and> (C \<and> 0 \<le> x \<and> x < ?n \<and> x \<noteq> a)) ?E" for C a b
    by (cases C) (use hoare_weaken [OF drawOther_hoare [OF assms(3,5), of base b fuel a]] in \<open>auto simp: hoare_def\<close>)
  have txn: "hoare (\<lambda>s. ownTxns v s = base \<and> ((0 \<le> a \<and> a < ?n) \<and> 0 \<le> b \<and> b < ?n \<and> b \<noteq> a) \<and> 0 \<le> x \<and> of_int x < of_int (initialValue d) / (10 :: rat))
      (let transferAmount = x + 1 in withTxnAndAutoRetry fuel (bkShell env) (bkSession env)
         (seqE (bk_updateOne env (incBalance a (- transferAmount))) (bk_updateOne env (incBalance b transferAmount))) (retryKilled d) 0)
      (\<lambda>_ t. \<exists>us. isTransfer d us \<and> ownTxns v t = base @ [us]) ?E" for a b x
  proof (cases "(0 \<le> a \<and> a < ?n) \<and> (0 \<le> b \<and> b < ?n \<and> b \<noteq> a) \<and> 0 \<le> x \<and> of_int x < of_int (initialValue d) / (10 :: rat)")
    case True
    then have "isTransfer d [incBalance a (- (x + 1)), incBalance b (x + 1)]" unfolding isTransfer_def by fastforce
    from transfer_txn [OF assms(1,2,4) this] show ?thesis by (simp add: Let_def hoare_def)
  next
    case False
    then show ?thesis by (auto simp: hoare_def)
  qed
  have range: "of_int x < (of_nat (numAccounts d) :: rat) \<longleftrightarrow> x < ?n" for x
    by (metis of_int_less_iff of_int_of_nat_eq)
  have pos: "0 < (of_nat (numAccounts d) :: rat)" "0 < of_int (initialValue d) / (10 :: rat)" using assms(5,6) by simp_all
  have first: "hoare (\<lambda>s. ownTxns v s = base) (bkRandInt env (of_nat (numAccounts d))) (\<lambda>x s. ownTxns v s = base \<and> 0 \<le> x \<and> x < ?n) ?E"
    using draw [OF pos(1), of True] by (simp add: range)
  show ?thesis
    unfolding transferMoney_def
    by (rule hoare_bindE [OF first], rule hoare_bindE [OF draw [OF pos(1)]], simp only: range,
        rule hoare_bindE [OF other], rule hoare_bindE [OF draw [OF pos(2)]], rule txn)
qed

section \<open>Money is conserved\<close>

fun finiteBalance :: "jsval \<Rightarrow> rat" where
  "finiteBalance doc = (case fld doc ''balance'' of JNum (Fin q) \<Rightarrow> q | _ \<Rightarrow> 0)"

lemma foldl_total:
  "\<forall>doc \<in> set docs. \<exists>b. fld doc ''balance'' = JNum (Fin b) \<Longrightarrow>
   foldl (\<lambda>tot account. num_add tot (to_number (fld account ''balance''))) (Fin q) docs = Fin (q + sum_list (map finiteBalance docs))"
  by (induction docs arbitrary: q) (auto simp: add.assoc)

text \<open>The total does not depend on the order in which the documents are read.\<close>

lemma total_reflects:
  assumes "reflects d txns docs"
  shows "computeTotalOfAllBalances (JArr docs) = Inr (Fin (\<Sum>i = 0..<numAccounts d. balanceAfter d txns (int i)))"
proof -
  let ?docs = "map (\<lambda>i. JObj [(''_id'', jnum (int i)), (''balance'', JNum (Fin (balanceAfter d txns (int i))))]) [0..<numAccounts d]"
  have same: "mset docs = mset ?docs" using assms by (simp only: reflects_def)
  then have "set docs = set ?docs" by (rule mset_eq_setD)
  then have "\<forall>doc \<in> set docs. \<exists>b. fld doc ''balance'' = JNum (Fin b)" by (auto simp: fld_def)
  moreover have "sum_list (map finiteBalance docs) = sum_list (map finiteBalance ?docs)"
    by (simp only: sum_mset_sum_list [symmetric] mset_map same)
  moreover have "map finiteBalance ?docs = map (\<lambda>i. balanceAfter d txns (int i)) [0..<numAccounts d]"
    by (simp add: fld_def)
  ultimately show ?thesis
    by (simp only: foldl_total) (simp add: computeTotalOfAllBalances_def foldl_total interv_sum_list_conv_sum_set_nat)
qed

lemma addedTo_incBalance: "addedTo i (incBalance a amount) = (if i = a then of_int amount else 0)"
  by (simp add: addedTo_def incBalance_def fld_def)

lemma transfer_adds_nothing:
  assumes "us = [] \<or> isTransfer d us"
  shows "(\<Sum>i = 0..<numAccounts d. sum_list (map (addedTo (int i)) us)) = 0"
proof (cases "us = []")
  case False
  then obtain a b amount where us: "us = [incBalance a (- amount), incBalance b amount]"
    and a: "0 \<le> a" "a < int (numAccounts d)" and b: "0 \<le> b" "b < int (numAccounts d)"
    using assms unfolding isTransfer_def by blast
  have one: "(\<Sum>i = 0..<numAccounts d. if int i = c then x else 0) = x" if "0 \<le> c" "c < int (numAccounts d)" for c and x :: rat
  proof -
    have "(\<Sum>i = 0..<numAccounts d. if int i = c then x else 0) = (\<Sum>i = 0..<numAccounts d. if i = nat c then x else 0)"
      using that by (intro sum.cong) auto
    then show ?thesis using that by (simp add: sum.delta nat_less_iff)
  qed
  have "(\<Sum>i = 0..<numAccounts d. sum_list (map (addedTo (int i)) us)) =
      (\<Sum>i = 0..<numAccounts d. if int i = a then of_int (- amount) else 0) + (\<Sum>i = 0..<numAccounts d. if int i = b then of_int amount else 0)"
    unfolding sum.distrib [symmetric] by (intro sum.cong) (simp_all add: us addedTo_incBalance)
  then show ?thesis using one [OF a] one [OF b] by simp
qed simp

lemma transfers_conserve:
  assumes "\<forall>us \<in> set txns. us = [] \<or> isTransfer d us"
  shows "(\<Sum>i = 0..<numAccounts d. balanceAfter d txns (int i)) = of_nat (numAccounts d) * of_int (initialValue d)"
proof -
  have "(\<Sum>i = 0..<numAccounts d. sum_list (map (addedTo (int i)) (concat txns))) = 0"
    using assms by (induction txns) (simp_all add: sum.distrib transfer_adds_nothing)
  then show ?thesis by (simp add: balanceAfter_def sum.distrib)
qed

lemma checkTotal_passes:
  assumes "reflects d txns docs" and "\<forall>us \<in> set txns. us = [] \<or> isTransfer d us"
  shows "checkTotal env d (JArr docs) s = (Val (), s)"
  using total_reflects [OF assms(1)] transfers_conserve [OF assms(2)]
  by (simp add: checkTotal_def bkWhenOwnColl_def js_simps)

text \<open>The documents a run of \<open>getAllDocuments\<close> returns are those of one snapshot, and it commits no update.\<close>

lemma reading_in_txn:
  assumes "snapshotLaw env d v committed"
  shows "updatesInTxn (viewOnFst v)
     (bindE (onFst (bkFind env)) (\<lambda>docs. seqE (modE (\<lambda>(s, _). (s, JArr docs))) (onFst (bkWhenOwnColl env (assertE (c docs) msg)))))
     (\<lambda>p us. us = [] \<and> (\<exists>docs txns. snd p = JArr docs \<and> set txns \<subseteq> committed \<and> reflects d txns docs))"
  unfolding updatesInTxn_def
proof (intro allI impI, simp only: viewOnFst_simps)
  fix p r q
  assume open0: "txnState v (fst p) = InProgress []"
    and run: "bindE (onFst (bkFind env)) (\<lambda>docs. seqE (modE (\<lambda>(s, _). (s, JArr docs))) (onFst (bkWhenOwnColl env (assertE (c docs) msg)))) p = (r, q)"
  obtain s l where p: "p = (s, l)" by (cases p)
  obtain r1 s1 where f: "bkFind env s = (r1, s1)" by (cases "bkFind env s")
  have law: "ownTxns v s1 = ownTxns v s" "\<And>docs. r1 = Val docs \<Longrightarrow> txnState v s1 = InProgress [] \<and> (\<exists>txns. set txns \<subseteq> committed \<and> reflects d txns docs)"
    using assms f open0 p unfolding snapshotLaw_def by auto
  have "fst q = s1 \<and> (r = Val () \<longrightarrow> (\<exists>docs. r1 = Val docs \<and> snd q = JArr docs))"
    using run f p by (cases r1)
      (auto simp: bindE_def seqE_def onFst_def modE_def bkWhenOwnColl_def assertE_def ret_def raise_def split: if_splits)
  then show "ownTxns v (fst q) = ownTxns v (fst p) \<and> (r = Val () \<longrightarrow> (\<exists>us. txnState v (fst q) = InProgress us \<and>
      us = [] \<and> (\<exists>docs txns. snd q = JArr docs \<and> set txns \<subseteq> committed \<and> reflects d txns docs)))"
    using law p by auto
qed

lemma getAllDocuments_snapshot:
  assumes "atomicSession (bkShell env) (bkSession env) v" and "snapshotLaw env d v committed"
  shows "hoare (\<lambda>s. ownTxns v s = base) (bk_getAllDocuments fuel env n k)
    (\<lambda>x t. ownTxns v t = base @ [[]] \<and> (\<exists>docs txns. x = JArr docs \<and> set txns \<subseteq> committed \<and> reflects d txns docs))
    (\<lambda>t. ownTxns v t \<in> {base, base @ [[]]})"
  unfolding bk_getAllDocuments_def
  by (rule hoare_weaken [OF withTxn_local_hoare [OF assms(1), where Q = "\<lambda>l us. us = [] \<and>
        (\<exists>docs txns. l = JArr docs \<and> set txns \<subseteq> committed \<and> reflects d txns docs)", OF reading_in_txn [OF assms(2)]]])
    (auto simp: atMostOne_def)

text \<open>
  C34. No money is lost.  With a session whose transactions are atomic and whose reads show whole transactions, and when every
  transaction ever committed to the collection is a transfer (as the ones of \<open>transferMoney\<close> are) or made no
  update, the check of \<open>checkMoneyBalance\<close> never fails: the state returns when its read returns, in the same state, and otherwise
  ends the way the read did.
\<close>

theorem balance_check_passes:
  assumes "atomicSession (bkShell env) (bkSession env) v" and "snapshotLaw env d v committed"
    and "\<forall>us \<in> committed. us = [] \<or> isTransfer d us"
  shows "checkMoneyBalance fuel env d s =
    (case bk_getAllDocuments fuel env (numAccounts d) (retryKilled d) s of
       (Val documents, t) \<Rightarrow> (Val (), t) | (Throw e, t) \<Rightarrow> (Throw e, t) | (Diverge, t) \<Rightarrow> (Diverge, t))"
proof -
  have snapshot: "bk_getAllDocuments fuel env (numAccounts d) (retryKilled d) s = (Val x, t) \<Longrightarrow>
      \<exists>docs txns. x = JArr docs \<and> set txns \<subseteq> committed \<and> reflects d txns docs" for x t
    using hoareD_Val [OF getAllDocuments_snapshot [OF assms(1,2), of "ownTxns v s"]] by blast
  obtain r t where run: "bk_getAllDocuments fuel env (numAccounts d) (retryKilled d) s = (r, t)"
    by (cases "bk_getAllDocuments fuel env (numAccounts d) (retryKilled d) s")
  show ?thesis
  proof (cases r)
    case (Val x)
    obtain docs txns where x: "x = JArr docs" and txns: "set txns \<subseteq> committed" "reflects d txns docs"
      using snapshot [OF run [unfolded Val]] by blast
    have "checkTotal env d x t = (Val (), t)"
      unfolding x by (rule checkTotal_passes [OF txns(2)]) (use txns(1) assms(3) in blast)
    then show ?thesis using run Val by (simp add: checkMoneyBalance_def bindE_def)
  qed (use run in \<open>simp_all add: checkMoneyBalance_def bindE_def\<close>)
qed

text \<open>The documents \<open>setup\<close> inserts are the accounts before any transaction.\<close>

lemma setup_reflects: "reflects d [] (accountDocs d)"
  by (simp add: reflects_def accountDocs_def balanceAfter_def)

section \<open>Configurations\<close>

definition bankConfig :: jsval where
  "bankConfig = JObj [
     (''threadCount'', jnum 10), (''iterations'', jnum 100), (''startState'', JStr ''init''),
     (''states'', JObj [(''init'', JFun ''init'' 2), (''transferMoney'', JFun ''transferMoney'' 2),
                        (''checkMoneyBalance'', JFun ''checkMoneyBalance'' 2)]),
     (''transitions'', JObj [
        (''init'', weightTable [(''transferMoney'', 1)]),
        (''transferMoney'', weightTable [(''transferMoney'', 9 / 10), (''checkMoneyBalance'', 1 / 10)]),
        (''checkMoneyBalance'', weightTable [(''transferMoney'', 1)])]),
     (''data'', JObj [(''numAccounts'', jnum 20), (''initialValue'', jnum 2000), (''retryOnKilledSession'', JBool False)]),
     (''setup'', JFun ''setup'' 3), (''teardown'', JFun ''teardown'' 3)]"

text \<open>What the callbacks of the three extensions do to the configuration of the base workload.\<close>

definition extendRepeatedReads :: "jsval \<Rightarrow> jsval \<Rightarrow> jsval result" where
  "extendRepeatedReads config super = Inr (
     set_prop ''transitions'' (JObj [
        (''init'', weightTable [(''transferMoney'', 1)]),
        (''transferMoney'', weightTable [(''transferMoney'', 7 / 10), (''checkMoneyBalance'', 1 / 10), (''repeatedRead'', 2 / 10)]),
        (''checkMoneyBalance'', weightTable [(''transferMoney'', 1)]),
        (''repeatedRead'', weightTable [(''transferMoney'', 7 / 10), (''repeatedRead'', 3 / 10)])])
     (inField ''states'' (set_prop ''repeatedRead'' (JFun ''repeatedRead'' 2))
     (inField ''data'' (set_prop ''numReads'' (jnum 5)) config)))"

definition extendMajorityWrites :: "jsval \<Rightarrow> jsval \<Rightarrow> jsval result" where
  "extendMajorityWrites config super =
    (let after = weightTable [(''transferMoney'', 1 / 2), (''majorityWriteUnrelatedDoc'', 1 / 4), (''majorityWriteTxnDoc'', 1 / 4)] in Inr (
     set_prop ''transitions'' (JObj [
        (''init'', weightTable [(''transferMoney'', 1)]),
        (''transferMoney'', weightTable [(''transferMoney'', 1 / 2), (''checkMoneyBalance'', 1 / 10), (''majorityWriteUnrelatedDoc'', 1 / 5), (''majorityWriteTxnDoc'', 1 / 5)]),
        (''checkMoneyBalance'', after), (''majorityWriteUnrelatedDoc'', after), (''majorityWriteTxnDoc'', after)])
     (set_prop ''setup'' (JFun ''setup'' 3)
     (inField ''states'' (\<lambda>st. set_prop ''majorityWriteTxnDoc'' (JFun ''majorityWriteTxnDoc'' 2)
        (set_prop ''majorityWriteUnrelatedDoc'' (JFun ''majorityWriteUnrelatedDoc'' 2) (set_prop ''init'' (JFun ''init'' 2) st)))
     (inField ''data'' (\<lambda>dt. set_prop ''counter'' (jnum 0) (set_prop ''majorityWriteCollName'' (JStr ''majority_writes'') dt)) config)))))"

definition extendKillSessions :: "jsval \<Rightarrow> jsval \<Rightarrow> jsval result" where
  "extendKillSessions config super =
    (let often = weightTable [(''transferMoney'', 8 / 10), (''checkMoneyBalance'', 1 / 10), (''killSession'', 1 / 10)] in Inr (
     set_prop ''transitions'' (JObj [
        (''init'', weightTable [(''transferMoney'', 1)]), (''transferMoney'', often),
        (''checkMoneyBalance'', weightTable [(''transferMoney'', 9 / 10), (''killSession'', 1 / 10)]),
        (''killSession'', often)])
     (inField ''states'' (set_prop ''killSession'' (JFun ''killSession'' 2))
     (inField ''data'' (set_prop ''retryOnKilledSession'' (JBool True)) config))))"

definition bankExtensions :: "(jsval \<Rightarrow> jsval \<Rightarrow> jsval result) list" where
  "bankExtensions = [extendRepeatedReads, extendMajorityWrites, extendKillSessions]"

definition extendedBank :: "(jsval \<Rightarrow> jsval \<Rightarrow> jsval result) \<Rightarrow> jsval result" where
  "extendedBank callback = extendWorkload [bankConfig, JFun ''callback'' 2] (JFun ''callback'' 2) callback"

text \<open>The runner accepts the workload and each of its extensions.\<close>

lemma bank_configs_parse:
  "\<exists>c. parseConfig bankConfig = Inr c"
  "list_all (\<lambda>ext. case rbind (extendedBank ext) parseConfig of Inl _ \<Rightarrow> False | Inr _ \<Rightarrow> True) bankExtensions"
proof -
  have "case parseConfig bankConfig of Inl _ \<Rightarrow> False | Inr _ \<Rightarrow> True" by code_simp
  then show "\<exists>c. parseConfig bankConfig = Inr c" by (auto split: sum.splits)
qed code_simp

section \<open>Concrete runs\<close>

text \<open>One thread alone, with the numbers it will draw; its reads show the transactions of a list.\<close>

record bankWorld = sole +
  bwDraws :: "int list"

definition bankEnv :: "bkData \<Rightarrow> jsval list list \<Rightarrow> bankWorld bkEnv" where
  "bankEnv d known = \<lparr>
     bkShell = exampleShell, bkLevel = OWN_DB, bkSession = soleSession, bkStartSession = (\<lambda>_. ret ()), bkUpdate = soleUpdate,
     bkFind = (\<lambda>s. case soleTxn s of
        InProgress [] \<Rightarrow> (Val (map (\<lambda>i. JObj [(''_id'', jnum (int i)), (''balance'', JNum (Fin (balanceAfter d (filter (\<lambda>us. us \<in> set known) (soleTxns s)) (int i))))]) [0..<numAccounts d]), s)
      | _ \<Rightarrow> (Diverge, s)),
     bkRandInt = (\<lambda>n s. case bwDraws s of
        x # xs \<Rightarrow> (if 0 \<le> x \<and> of_int x < n then (Val x, s\<lparr>bwDraws := xs\<rparr>) else (Diverge, s)) | [] \<Rightarrow> (Diverge, s)),
     bkDbCommand = (\<lambda>_. ret okResponse), bkAdminCommand = (\<lambda>_. ret okResponse), bkBulkInsert = (\<lambda>_ _. ret okResponse),
     bkFindAll = ret [], bkIsSharded = ret False, bkSyncTimes = ret (), bkInsertInto = (\<lambda>_ _ _. ret okResponse),
     bkUpdateIn = (\<lambda>_ _ _ _. ret okResponse), bkFindOne = (\<lambda>_ _. ret Null), bkIsMongos = ret False, bkFullName = (\<lambda>c. ''db.'' @ c),
     bkCollName = ''coll'', bkSampleSession = ret [], bkFailedWithCode = (\<lambda>_ _. None)\<rparr>"

definition smallBank :: bkData where
  "smallBank = \<lparr>numAccounts = 3, initialValue = 2000, retryKilled = False\<rparr>"

definition smallTransfer :: "jsval list" where
  "smallTransfer = [incBalance 1 (- 42), incBalance 2 42]"

lemma smallTransfer_ok: "isTransfer smallBank smallTransfer"
  unfolding isTransfer_def smallTransfer_def smallBank_def by (intro exI [of _ 1] exI [of _ 2] exI [of _ 42]) simp

lemma bankEnv_randInt: "randIntLaw (bankEnv d known) soleView"
  by (auto simp: randIntLaw_def bankEnv_def soleView_def split: list.splits if_splits)

theorem transfer_exactly_once_witness:
  "transferMoney 2 (bankEnv smallBank [smallTransfer, []]) smallBank \<lparr>soleTxns = [], soleTxn = NoTxn, bwDraws = [1, 1, 2, 41]\<rparr> =
     (Val (), \<lparr>soleTxns = [[incBalance 1 (- 42), incBalance 2 42]], soleTxn = Committed, bwDraws = []\<rparr>) \<and>
   isTransfer smallBank [incBalance 1 (- 42), incBalance 2 42]"
proof -
  have run: "transferMoney 2 (bankEnv smallBank [smallTransfer, []]) smallBank \<lparr>soleTxns = [], soleTxn = NoTxn, bwDraws = [1, 1, 2, 41]\<rparr> =
     (Val (), \<lparr>soleTxns = [[incBalance 1 (- 42), incBalance 2 42]], soleTxn = Committed, bwDraws = []\<rparr>)" by code_simp
  have "hoare (\<lambda>s. ownTxns soleView s = []) (transferMoney 2 (bankEnv smallBank [smallTransfer, []]) smallBank)
      (\<lambda>_ t. \<exists>us. isTransfer smallBank us \<and> ownTxns soleView t = [] @ [us]) (\<lambda>t. atMostOne [] (isTransfer smallBank) (ownTxns soleView t))"
    by (rule transfer_exactly_once)
      (simp_all add: bankEnv_randInt, simp_all add: bankEnv_def sole_atomic sole_update level_defs smallBank_def)
  from hoareD_Val [OF this _ run] run show ?thesis by (simp add: soleView_def)
qed

lemma bankEnv_snapshot: "snapshotLaw (bankEnv d known) d soleView (set known)"
  by (auto simp: snapshotLaw_def bankEnv_def soleView_def reflects_def simp del: mset_map intro!: exI [of _ "filter (\<lambda>us. us \<in> set known) (soleTxns _)"] split: txn_state.splits list.splits)

theorem balance_check_passes_witness:
  "checkMoneyBalance 2 (bankEnv smallBank [smallTransfer, []]) smallBank \<lparr>soleTxns = [smallTransfer], soleTxn = NoTxn, bwDraws = []\<rparr> =
     (Val (), \<lparr>soleTxns = [smallTransfer, []], soleTxn = Committed, bwDraws = []\<rparr>)"
proof -
  let ?env = "bankEnv smallBank [smallTransfer, []]" and ?s = "\<lparr>soleTxns = [smallTransfer], soleTxn = NoTxn, bwDraws = []\<rparr>"
  have read: "case bk_getAllDocuments 2 ?env (numAccounts smallBank) (retryKilled smallBank) ?s of
      (Val x, t) \<Rightarrow> t = \<lparr>soleTxns = [smallTransfer, []], soleTxn = Committed, bwDraws = []\<rparr> | _ \<Rightarrow> False" by code_simp
  have atomic: "atomicSession (bkShell ?env) (bkSession ?env) soleView" by (simp add: bankEnv_def sole_atomic)
  show ?thesis
    using balance_check_passes [OF atomic bankEnv_snapshot, of 2 ?s] read smallTransfer_ok
    by (auto split: prod.splits outcome.splits)
qed

end
