(* ===== verification/Atomicity_Workload.thy ===== *)
theory Atomicity_Workload
  imports Txn_Store Assert_Level Parse_Config Cycle_Detection Agg_Utils
begin

text \<open>
  The workload \<open>multi_statement_transaction_atomicity_isolation.js\<close>: transactions push a record of themselves onto
  several documents, and three checks look for anomalies in what is read back: the order of the
  commits (by \<open>libs/cycle_detection.js\<close>), the number of documents each transaction changed, and the
  documents a thread knows to have changed (by \<open>arrayEq\<close> of \<open>aggregation/extras/utils.js\<close>).  A state function takes
  the data of its thread and returns it changed; a collection is a pair of a database name and a
  collection name.  The multi-database, repeated-reads and kill-sessions extensions follow.
\<close>

section \<open>Environment\<close>

type_synonym ns = "string \<times> string"

record 's atEnv =
  atShell :: shell
  atLevel :: assert_level                                     \<comment> \<open>the global assertion level\<close>
  atSession :: "'s session_ops"                               \<comment> \<open>\<open>this.session\<close>\<close>
  atStartSession :: "jsval \<Rightarrow> ('s, unit) eff"
  atTxnNumber :: "('s, nat) eff"                              \<comment> \<open>\<open>session.getTxnNumber_forTesting()\<close>\<close>
  atUpdate :: "ns \<Rightarrow> jsval \<Rightarrow> ('s, jsval) eff"                \<comment> \<open>\<open>txnCollection.runCommand('update', ...)\<close>\<close>
  atFindBatch :: "ns \<Rightarrow> nat \<Rightarrow> ('s, jsval list) eff"          \<comment> \<open>\<open>txnCollection.find().batchSize(n).toArray()\<close>\<close>
  atFindAll :: "ns \<Rightarrow> ('s, jsval list) eff"                   \<comment> \<open>\<open>collection.find().toArray()\<close>\<close>
  atItcount :: "ns \<Rightarrow> ('s, nat) eff"                          \<comment> \<open>\<open>sessionCollection.find().itcount()\<close>\<close>
  atRandInt :: "nat \<Rightarrow> ('s, nat) eff"
  atShuffle :: "nat list \<Rightarrow> ('s, nat list) eff"
  atBulkInsert :: "ns \<Rightarrow> jsval list \<Rightarrow> jsval \<Rightarrow> ('s, jsval) eff"
  atIsSharded :: "('s, bool) eff"
  atSyncTimes :: "('s, unit) eff"

record atData =
  atTid :: nat
  atIteration :: nat
  totalIteration :: jsnum                                     \<comment> \<open>\<open>NaN\<close> for a property not set yet\<close>
  atIterations :: nat                                         \<comment> \<open>\<open>data.iterations\<close>, set by the runner\<close>
  atCollections :: "ns list"
  numDocs :: nat
  atRetryKilled :: bool
  prepareProb :: rat
  updatedDocsClientHistory :: "jsval list option list"        \<comment> \<open>an array with holes, by transaction number\<close>

definition atWhenOwnColl :: "'s atEnv \<Rightarrow> bool \<Rightarrow> string \<Rightarrow> ('s, unit) eff" where
  "atWhenOwnColl env c msg = (if compareTo OWN_COLL (atLevel env) > 0 then ret () else assertE c msg)"

text \<open>Assigning to an index of an array, which grows with holes, and reading one (\<open>arr[i] || []\<close>).\<close>

definition setIndex :: "nat \<Rightarrow> 'a \<Rightarrow> 'a option list \<Rightarrow> 'a option list" where
  "setIndex i x xs = (xs @ replicate (Suc i - length xs) None)[i := Some x]"

definition getIndexOr :: "'a list option list \<Rightarrow> nat \<Rightarrow> 'a list" where
  "getIndexOr xs i = (if i < length xs then case xs ! i of None \<Rightarrow> [] | Some ys \<Rightarrow> ys else [])"

section \<open>The three checks\<close>

definition orderOf :: "jsval \<Rightarrow> jsval list" where
  "orderOf doc = arr_elems (fld doc ''order'')"

text \<open>An edge for each two neighbours of an \<open>order\<close> array.\<close>

definition commitEdges :: "jsval list \<Rightarrow> (jsval \<times> jsval) list" where
  "commitEdges documents = concat (map (\<lambda>doc. zip (orderOf doc) (tl (orderOf doc))) documents)"

definition checkTransactionCommitOrder :: "'s atEnv \<Rightarrow> jsval list \<Rightarrow> ('s, unit) eff" where
  "checkTransactionCommitOrder env documents =
     (case findCycle (graphOf (commitEdges documents)) of
        Val result \<Rightarrow> if length result > 0 then atWhenOwnColl env (result = []) ''are not equal'' else ret ()
      | Throw e \<Rightarrow> raise e
      | Diverge \<Rightarrow> diverge)"

definition countUpdate :: "jsval \<Rightarrow> (jsval \<times> nat) list \<Rightarrow> (jsval \<times> nat) list" where
  "countUpdate op updateCounts =
     AList.update op ((case map_of updateCounts op of None \<Rightarrow> 0 | Some actual \<Rightarrow> actual) + 1) updateCounts"

definition checkNumUpdatedByEachTransaction :: "jsval list \<Rightarrow> ('s, unit) eff" where
  "checkNumUpdatedByEachTransaction documents =
     (let updateCounts = fold countUpdate (concat (map orderOf documents)) [] in
      forEachE (\<lambda>(op, actual). assertE (fld op ''numUpdated'' = jnum (int actual)) ''should have updated'') updateCounts)"

text \<open>The documents of thread \<open>tid\<close> by transaction number, from what the database holds.\<close>

definition recordWrite :: "nat \<Rightarrow> jsval \<Rightarrow> nat \<Rightarrow> jsval list option list \<Rightarrow> jsval list option list result" where
  "recordWrite tid doc i history =
     (if fld (orderOf doc ! i) ''tid'' = jnum (int tid)
      then rbind (get_prop (fld doc ''metadata'') (show_nat i)) (\<lambda>meta.
           rbind (get_prop meta ''txnNum'') (\<lambda>txnNum.
             case txnNum of
               JNum (Fin q) \<Rightarrow>
                 let n = nat \<lfloor>q\<rfloor>;
                     entry = JObj [(''_id'', fld doc ''_id''), (''dbName'', fld meta ''dbName''), (''collName'', fld meta ''collName'')] in
                 Inr (setIndex n (getIndexOr history n @ [entry]) history)
             | _ \<Rightarrow> Inl (TypeErr ''txnNum is not an index'')))
      else Inr history)"

fun recordWrites :: "nat \<Rightarrow> (jsval \<times> nat) list \<Rightarrow> jsval list option list \<Rightarrow> jsval list option list result" where
  "recordWrites tid [] history = Inr history"
| "recordWrites tid ((doc, i) # rest) history = rbind (recordWrite tid doc i history) (recordWrites tid rest)"

definition serverHistory :: "nat \<Rightarrow> jsval list \<Rightarrow> jsval list option list result" where
  "serverHistory tid documents =
     recordWrites tid (concat (map (\<lambda>doc. map (Pair doc) [0..<length (orderOf doc)]) documents)) []"

definition checkWritesOfCommittedTxns :: "atData \<Rightarrow> jsval list \<Rightarrow> ('s, unit) eff" where
  "checkWritesOfCommittedTxns d documents =
     bindE (liftE (serverHistory (atTid d) documents)) (\<lambda>updatedDocsServerHistory.
     let highestTxnNum = max (length updatedDocsServerHistory) (length (updatedDocsClientHistory d)) in
     forEachE (\<lambda>txnNum.
        assertE (arrayEq None (JArr (getIndexOr updatedDocsServerHistory txnNum)) (JArr (getIndexOr (updatedDocsClientHistory d) txnNum)))
          ''expected but instead have'') [0..<highestTxnNum])"

section \<open>The states\<close>

fun readInTxn :: "'s atEnv \<Rightarrow> nat \<Rightarrow> ns list \<Rightarrow> ('s \<times> jsval list, unit) eff" where
  "readInTxn env batchSize [] = ret ()"
| "readInTxn env batchSize (c # cs) =
     bindE (onFst (atFindBatch env c batchSize)) (\<lambda>docs.
     seqE (modE (\<lambda>(s, allDocuments). (s, allDocuments @ docs))) (readInTxn env batchSize cs))"

definition at_getAllDocuments :: "nat \<Rightarrow> 's atEnv \<Rightarrow> atData \<Rightarrow> bool \<Rightarrow> ('s, jsval list) eff" where
  "at_getAllDocuments fuel env d useTxn =
     bindE (if useTxn
            then withLocal [] (withTxnAndAutoRetry fuel (atShell env) (sessionOnFst (atSession env))
                   (seqE (modE (\<lambda>(s, _). (s, []))) (readInTxn env (max 2 (numDocs d div 5)) (atCollections d)))
                   (atRetryKilled d) (prepareProb d))
            else bindE (mapE (atFindAll env) (atCollections d)) (\<lambda>docs. ret (concat docs))) (\<lambda>allDocuments.
     seqE (atWhenOwnColl env (length allDocuments = numDocs d * length (atCollections d)) ''are not equal'')
     (ret allDocuments))"

definition getDocIdsToUpdate :: "'s atEnv \<Rightarrow> nat \<Rightarrow> ('s, nat list) eff" where
  "getDocIdsToUpdate env n =
     bindE (atRandInt env ((n + 1) div 2 - 1)) (\<lambda>r.
     bindE (atShuffle env [0..<n]) (\<lambda>docIds. ret (take (2 + r) docIds)))"

definition at_init :: "'s atEnv \<Rightarrow> ns list \<Rightarrow> atData \<Rightarrow> ('s, atData) eff" where
  "at_init env allCollections d =
     seqE (atStartSession env (JObj [(''causalConsistency'', JBool True)]))
     (ret (d\<lparr>atIteration := 0, atCollections := allCollections, totalIteration := Fin 1\<rparr>))"

text \<open>The update of one document: the order entry names the transaction, the metadata says where it was made.\<close>

definition pushUpdate :: "atData \<Rightarrow> nat \<Rightarrow> ns \<Rightarrow> nat \<Rightarrow> nat \<Rightarrow> jsval" where
  "pushUpdate d numUpdated c txnNumber docId =
     JObj [(''q'', JObj [(''_id'', jnum (int docId))]),
           (''u'', JObj [(''$push'', JObj [
              (''order'', JObj [(''tid'', jnum (int (atTid d))), (''iteration'', jnum (int (atIteration d))), (''numUpdated'', jnum (int numUpdated))]),
              (''metadata'', JObj [(''dbName'', JStr (fst c)), (''collName'', JStr (snd c)), (''txnNum'', jnum (int txnNumber))])])])]"

definition at_updateDoc :: "'s atEnv \<Rightarrow> atData \<Rightarrow> nat \<Rightarrow> nat \<Rightarrow> ('s \<times> (nat option \<times> jsval list), unit) eff" where
  "at_updateDoc env d numUpdated docId =
     bindE (onFst (atRandInt env (length (atCollections d)))) (\<lambda>i.
     if i \<ge> length (atCollections d) then raise (TypeErr ''collection is undefined'')
     else let c = atCollections d ! i in
     bindE (onFst (atTxnNumber env)) (\<lambda>txnNumber.
     seqE (modE (\<lambda>(s, (_, info)). (s, (Some txnNumber, info))))
    (bindE (onFst (atUpdate env c (updateCommand (pushUpdate d numUpdated c txnNumber docId)))) (\<lambda>res.
     seqE (checkE (commandWorked (atShell env) res))
    (seqE (onFst (atWhenOwnColl env (fld res ''n'' = jnum 1) ''are not equal''))
    (seqE (onFst (atWhenOwnColl env (fld res ''nModified'' = jnum 1) ''are not equal''))
    (modE (\<lambda>(s, (n, committedTxnInfo)). (s, (n, committedTxnInfo @
       [JObj [(''_id'', jnum (int docId)), (''dbName'', JStr (fst c)), (''collName'', JStr (snd c))]]))))))))))"

definition updateFunc :: "'s atEnv \<Rightarrow> atData \<Rightarrow> nat list \<Rightarrow> ('s \<times> (nat option \<times> jsval list), unit) eff" where
  "updateFunc env d docIds =
     seqE (modE (\<lambda>(s, (n, _)). (s, (n, [])))) (forEachE (at_updateDoc env d (length docIds)) docIds)"

definition at_update :: "nat \<Rightarrow> 's atEnv \<Rightarrow> atData \<Rightarrow> ('s, atData) eff" where
  "at_update fuel env d =
     bindE (getDocIdsToUpdate env (numDocs d)) (\<lambda>docIds.
     bindE (withLocal (None, [])
              (withTxnAndAutoRetry fuel (atShell env) (sessionOnFst (atSession env)) (updateFunc env d docIds) (atRetryKilled d) (prepareProb d)))
       (\<lambda>(txnNumber, committedTxnInfo).
          ret (d\<lparr>updatedDocsClientHistory :=
                   (case txnNumber of None \<Rightarrow> updatedDocsClientHistory d | Some n \<Rightarrow> setIndex n committedTxnInfo (updatedDocsClientHistory d)),
                 atIteration := atIteration d + 1\<rparr>)))"

definition checkConsistency :: "nat \<Rightarrow> 's atEnv \<Rightarrow> atData \<Rightarrow> ('s, unit) eff" where
  "checkConsistency fuel env d =
     bindE (at_getAllDocuments fuel env d True) (\<lambda>documents.
     seqE (checkTransactionCommitOrder env documents)
    (seqE (checkNumUpdatedByEachTransaction documents)
          (checkWritesOfCommittedTxns d documents)))"

definition causalRead :: "'s atEnv \<Rightarrow> atData \<Rightarrow> ('s, unit) eff" where
  "causalRead env d =
     bindE (atRandInt env (length (atCollections d))) (\<lambda>i.
     if i \<ge> length (atCollections d) then raise (TypeErr ''collection is undefined'')
     else tryCatch
       (bindE (atItcount env (atCollections d ! i)) (\<lambda>n. assertE (n = numDocs d) ''are not equal''))
       (\<lambda>e. if atRetryKilled d \<and> isKilledSessionCode (atShell env) (fld (exn_obj e) ''code'') then ret () else raise e))"

text \<open>
  The wrapper around each state of the workload: it counts the calls and checks once more on the last one.  The first call,
  of \<open>init\<close>, increments a property that is not set yet, which gives \<open>NaN\<close>, and then sets it to one.
\<close>

definition checkConsistencyOnLastIteration ::
  "nat \<Rightarrow> 's atEnv \<Rightarrow> (atData \<Rightarrow> ('s, atData) eff) \<Rightarrow> atData \<Rightarrow> ('s, atData) eff" where
  "checkConsistencyOnLastIteration fuel env func d =
    (let d' = d\<lparr>totalIteration := num_add (totalIteration d) (Fin 1)\<rparr>;
         lastIteration = (case totalIteration d' of Fin q \<Rightarrow> q \<ge> of_nat (atIterations d') | PosInf \<Rightarrow> True | _ \<Rightarrow> False) in
     bindE (func d') (\<lambda>d''.
     seqE (if lastIteration then checkConsistency fuel env d'' else ret ()) (ret d'')))"

definition at_setup :: "'s atEnv \<Rightarrow> ns list \<Rightarrow> nat \<Rightarrow> ('s, unit) eff" where
  "at_setup env allCollections n =
     seqE (forEachE (\<lambda>c.
        bindE (atBulkInsert env c (map (\<lambda>i. JObj [(''_id'', jnum (int i)), (''order'', JArr [])]) [0..<n]) (JObj [(''w'', JStr ''majority'')])) (\<lambda>res.
        seqE (if compareTo OWN_COLL (atLevel env) > 0 then ret () else checkE (commandWorked (atShell env) res))
             (atWhenOwnColl env (jnum (int n) = fld res ''nInserted'') ''are not equal''))) allCollections)
    (bindE (atIsSharded env) (\<lambda>sharded. if sharded then atSyncTimes env else ret ()))"

definition at_teardown :: "nat \<Rightarrow> 's atEnv \<Rightarrow> atData \<Rightarrow> ('s, unit) eff" where
  "at_teardown fuel env d =
     bindE (at_getAllDocuments fuel env d False) (\<lambda>documents.
     seqE (checkTransactionCommitOrder env documents) (checkNumUpdatedByEachTransaction documents))"

section \<open>What the checks decide\<close>

lemma commitOrder_run:
  assumes "1 \<le> level (atLevel env)"
  shows "checkTransactionCommitOrder env documents s =
    (if acyclic (set (commitEdges documents)) then (Val (), s) else (Throw (AssertFail ''are not equal''), s))"
proof -
  have "decides (graphOf (commitEdges documents)) (findCycle (graphOf (commitEdges documents)))"
    and "edges (graphOf (commitEdges documents)) = set (commitEdges documents)"
    using graphOf_refines findCycle_decides by blast+
  then obtain c where c: "findCycle (graphOf (commitEdges documents)) = Val c"
    and dec: "if c = [] then acyclic (set (commitEdges documents))
              else length c > 1 \<and> hd c = last c \<and> is_walk (set (commitEdges documents)) c"
    unfolding decides_def by metis
  have "\<not> acyclic (set (commitEdges documents))" if "c \<noteq> []"
    using that dec closed_walk_cycle [of "set (commitEdges documents)" c] by (auto simp: acyclic_def)
  then show ?thesis
    using c dec assms by (auto simp: checkTransactionCommitOrder_def atWhenOwnColl_def level_defs js_simps)
qed

lemma map_of_countUpdate:
  "map_of (countUpdate op m) = (map_of m)(op \<mapsto> (case map_of m op of None \<Rightarrow> 0 | Some n \<Rightarrow> n) + 1)"
  by (simp add: countUpdate_def update_conv')

lemma fold_countUpdate:
  "map_of (fold countUpdate ops m) op =
     (if op \<in> set ops then Some ((case map_of m op of None \<Rightarrow> 0 | Some n \<Rightarrow> n) + count_list ops op) else map_of m op)"
  by (induction ops arbitrary: m) (auto simp: map_of_countUpdate count_list_0_iff split: option.splits)

lemma distinct_countUpdate: "distinct (map fst m) \<Longrightarrow> distinct (map fst (fold countUpdate ops m))"
  by (induction ops arbitrary: m) (simp_all add: countUpdate_def AList.distinct_update)

lemma counts_set: "(op, n) \<in> set (fold countUpdate ops []) \<longleftrightarrow> op \<in> set ops \<and> n = count_list ops op"
proof -
  have "(op, n) \<in> set (fold countUpdate ops []) \<longleftrightarrow> map_of (fold countUpdate ops []) op = Some n"
    using map_of_eq_Some_iff [OF distinct_countUpdate [of "[]" ops]] by simp
  then show ?thesis by (auto simp: fold_countUpdate)
qed

lemma forEachE_asserts:
  "forEachE (\<lambda>x. assertE (P x) msg) xs s = (if \<forall>x \<in> set xs. P x then (Val (), s) else (Throw (AssertFail msg), s))"
  by (induction xs) (auto simp: seqE_def bindE_def assertE_def ret_def raise_def)

lemma numUpdated_run:
  "checkNumUpdatedByEachTransaction documents s =
    (if \<forall>op \<in> set (concat (map orderOf documents)).
          fld op ''numUpdated'' = jnum (int (count_list (concat (map orderOf documents)) op))
     then (Val (), s) else (Throw (AssertFail ''should have updated''), s))"
proof -
  have all: "(\<forall>x \<in> set (fold countUpdate ops []). fld (fst x) ''numUpdated'' = jnum (int (snd x))) \<longleftrightarrow>
      (\<forall>op \<in> set ops. fld op ''numUpdated'' = jnum (int (count_list ops op)))" for ops
    using counts_set [of _ _ ops] by (metis fst_conv snd_conv surj_pair)
  show ?thesis
    unfolding checkNumUpdatedByEachTransaction_def Let_def case_prod_unfold forEachE_asserts all ..
qed

text \<open>
  A serial history: transactions one after the other, each pushing its entry onto the documents of its list.
\<close>

definition serialHistory :: "(jsval \<times> nat list) list \<Rightarrow> jsval list \<Rightarrow> bool" where
  "serialHistory txns documents \<longleftrightarrow>
     distinct (map fst txns) \<and>
     (\<forall>(op, docs) \<in> set txns. distinct docs \<and> set docs \<subseteq> {..<length documents} \<and> fld op ''numUpdated'' = jnum (int (length docs))) \<and>
     (\<forall>i < length documents. orderOf (documents ! i) = map fst (filter (\<lambda>(op, docs). i \<in> set docs) txns))"

definition position :: "'a list \<Rightarrow> 'a \<Rightarrow> nat" where
  "position ys a = length (takeWhile (\<lambda>x. x \<noteq> a) ys)"

lemma sorted_position: "distinct ys \<Longrightarrow> sorted_wrt (\<lambda>a b. position ys a < position ys b) ys"
proof -
  assume d: "distinct ys"
  have "position ys (ys ! i) = i" if "i < length ys" for i
    using that d takeWhile_eq_take_P_nth [of i ys "\<lambda>x. x \<noteq> ys ! i"] by (simp add: position_def nth_eq_iff_index_eq)
  then show ?thesis by (simp add: sorted_wrt_iff_nth_less)
qed

lemma neighbours_sorted: "sorted_wrt R xs \<Longrightarrow> (a, b) \<in> set (zip xs (tl xs)) \<Longrightarrow> R a b"
proof (induction xs)
  case (Cons x xs)
  then show ?case by (cases xs) auto
qed simp

lemma serial_acyclic:
  assumes "serialHistory txns documents"
  shows "acyclic (set (commitEdges documents))"
proof (rule acyclicI_order [where f = "\<lambda>x. - int (position (map fst txns) x)"])
  fix a b assume "(a, b) \<in> set (commitEdges documents)"
  then obtain doc where "doc \<in> set documents" and "(a, b) \<in> set (zip (orderOf doc) (tl (orderOf doc)))"
    unfolding commitEdges_def by auto
  then obtain i where i: "i < length documents" and ab: "(a, b) \<in> set (zip (orderOf (documents ! i)) (tl (orderOf (documents ! i))))"
    by (metis in_set_conv_nth)
  let ?R = "\<lambda>a b. position (map fst txns) a < position (map fst txns) b"
  have "sorted_wrt ?R (map fst txns)" using assms by (intro sorted_position) (simp add: serialHistory_def)
  then have "sorted_wrt ?R (map fst (filter (\<lambda>(op, docs). i \<in> set docs) txns))" by (simp add: sorted_wrt_map sorted_wrt_filter)
  then have "sorted_wrt ?R (orderOf (documents ! i))" using assms i by (simp add: serialHistory_def)
  from neighbours_sorted [OF this ab] show "- int (position (map fst txns) b) < - int (position (map fst txns) a)" by simp
qed

lemma count_list_distinct: "distinct xs \<Longrightarrow> count_list xs x = (if x \<in> set xs then 1 else 0)"
  by (induction xs) (auto simp: count_list_0_iff)

lemma count_list_concat: "count_list (concat xss) x = sum_list (map (\<lambda>xs. count_list xs x) xss)"
  by (induction xss) auto

lemma serial_counts:
  assumes "serialHistory txns documents" and "(op, docs) \<in> set txns"
  shows "count_list (concat (map orderOf documents)) op = length docs"
proof -
  have dist: "distinct (map fst txns)" and docs: "distinct docs" "set docs \<subseteq> {..<length documents}"
    using assms unfolding serialHistory_def by auto
  have one: "count_list (orderOf (documents ! i)) op = (if i \<in> set docs then 1 else 0)" if "i < length documents" for i
  proof -
    let ?xs = "filter (\<lambda>(op, docs). i \<in> set docs) txns"
    have "orderOf (documents ! i) = map fst ?xs" using assms(1) that by (simp add: serialHistory_def)
    moreover have "op \<in> set (map fst ?xs) \<longleftrightarrow> i \<in> set docs"
    proof
      assume "op \<in> set (map fst ?xs)"
      then obtain docs' where "(op, docs') \<in> set txns" "i \<in> set docs'" by auto
      then show "i \<in> set docs" using eq_key_imp_eq_value [OF dist assms(2)] by blast
    next
      assume "i \<in> set docs"
      then have "(op, docs) \<in> set ?xs" using assms(2) by simp
      then show "op \<in> set (map fst ?xs)" unfolding set_map by (rule image_eqI [rotated]) simp
    qed
    ultimately show ?thesis by (simp only: count_list_distinct [OF distinct_map_filter [OF dist]])
  qed
  have "count_list (concat (map orderOf documents)) op = (\<Sum>i = 0..<length documents. count_list (orderOf (documents ! i)) op)"
    by (simp add: count_list_concat sum_list_sum_nth)
  also have "\<dots> = (\<Sum>i = 0..<length documents. if i \<in> set docs then 1 else 0)" using one by (intro sum.cong) auto
  also have "\<dots> = card ({0..<length documents} \<inter> set docs)" by (simp add: sum.If_cases)
  also have "{0..<length documents} \<inter> set docs = set docs" using docs(2) by auto
  finally show ?thesis using docs(1) by (simp add: distinct_card)
qed

text \<open>
  C35. The anomaly checks raise no false alarm: whatever serial history the documents went through (every transaction pushing its
  entry onto as many documents as the entry says), the check of the commit order and the check of the number of updates both pass.
\<close>

theorem serial_history_accepted:
  assumes "serialHistory txns documents" and "1 \<le> level (atLevel env)"
  shows "seqE (checkTransactionCommitOrder env documents) (checkNumUpdatedByEachTransaction documents) s = (Val (), s)"
proof -
  have "fld op ''numUpdated'' = jnum (int (count_list (concat (map orderOf documents)) op))"
    if mem: "op \<in> set (concat (map orderOf documents))" for op
  proof -
    obtain doc where "doc \<in> set documents" "op \<in> set (orderOf doc)" using mem by auto
    then obtain i where "i < length documents" "op \<in> set (orderOf (documents ! i))" by (metis in_set_conv_nth)
    then obtain docs where "(op, docs) \<in> set txns" using assms(1) unfolding serialHistory_def by auto
    with serial_counts [OF assms(1) this] assms(1) show ?thesis unfolding serialHistory_def by auto
  qed
  then show ?thesis
    using serial_acyclic [OF assms(1)]
    by (simp add: seqE_def bindE_def commitOrder_run [OF assms(2)] numUpdated_run del: set_concat)
qed

text \<open>
  The anomaly checks miss nothing they look for: when both pass, the order in which the transactions were committed is
  consistent (no cycle runs through the \<open>order\<close> arrays), and every transaction appears in exactly as many places as it says it updated.
\<close>

theorem checks_detect_anomalies:
  assumes "1 \<le> level (atLevel env)"
    and "seqE (checkTransactionCommitOrder env documents) (checkNumUpdatedByEachTransaction documents) s = (Val (), t)"
  shows "acyclic (set (commitEdges documents)) \<and>
    (\<forall>op \<in> set (concat (map orderOf documents)). fld op ''numUpdated'' = jnum (int (count_list (concat (map orderOf documents)) op)))"
  using assms(2) by (auto simp: seqE_def bindE_def commitOrder_run [OF assms(1)] numUpdated_run simp del: set_concat split: if_splits)

text \<open>The entry for a document in the history of a thread.\<close>

definition docEntry :: "nat \<times> string \<times> string \<Rightarrow> jsval" where
  "docEntry = (\<lambda>(docId, dbName, collName). JObj [(''_id'', jnum (int docId)), (''dbName'', JStr dbName), (''collName'', JStr collName)])"

lemma abs_docEntry: "abs_val (docEntry x) = abs_val (docEntry y) \<longleftrightarrow> snd x = snd y"
proof -
  obtain i db coll j db' coll' where xy: "x = (i, db, coll)" "y = (j, db', coll')" by (cases x, cases y)
  have "db = db' \<and> coll = coll'" if "abs_val (docEntry (i, db, coll)) = abs_val (docEntry (j, db', coll'))"
  proof -
    from that have "map_of [(''_id'', Scalar Undef), (''dbName'', Scalar (JStr db)), (''collName'', Scalar (JStr coll))] =
        map_of [(''_id'', Scalar Undef), (''dbName'', Scalar (JStr db')), (''collName'', Scalar (JStr coll'))]"
      by (simp add: docEntry_def)
    from fun_cong [OF this, of "''dbName''"] fun_cong [OF this, of "''collName''"] show ?thesis by simp
  qed
  then show ?thesis by (auto simp: xy docEntry_def)
qed

lemma arrayEq_docEntries:
  "arrayEq None (JArr (map docEntry xs)) (JArr (map docEntry ys)) \<longleftrightarrow> mset (map snd xs) = mset (map snd ys)"
proof -
  have plain: "plain (JArr (map docEntry zs))" for zs by (auto simp: list_all_iff docEntry_def)
  have key: "mset (map (abs_val \<circ> docEntry) xs) = mset (map (abs_val \<circ> docEntry) ys) \<longleftrightarrow> mset (map snd xs) = mset (map snd ys)"
  proof -
    let ?g = "\<lambda>c. abs_val (docEntry (0, c))"
    have "inj ?g" by (rule injI) (metis abs_docEntry snd_conv)
    moreover have "abs_val (docEntry z) = ?g (snd z)" for z using abs_docEntry [of z "(0, snd z)"] by simp
    then have "mset (map (abs_val \<circ> docEntry) zs) = image_mset ?g (mset (map snd zs))" for zs
      by (induction zs) simp_all
    ultimately show ?thesis by (simp add: inj_eq [OF multiset.inj_map])
  qed
  show ?thesis
    using anyEq_abs [OF plain [of xs] plain [of ys]] key by (simp add: anyEq.simps [of None "JArr _"])
qed

text \<open>
  The check of a thread's own writes does not see which documents were written: since \<open>arrayEq\<close> leaves out the value of
  \<open>_id\<close>, the check passes exactly when, for every transaction number, the database and the thread name the same collections
  equally often, whatever the documents are.  With the one collection of the base workload it compares the number of documents only.
\<close>

theorem writes_check_ignores_docIds:
  assumes "serverHistory (atTid d) documents = Inr history"
    and "\<And>n. getIndexOr history n = map docEntry (onServer n)"
    and "\<And>n. getIndexOr (updatedDocsClientHistory d) n = map docEntry (onClient n)"
  shows "checkWritesOfCommittedTxns d documents s =
    (if \<forall>n < max (length history) (length (updatedDocsClientHistory d)). mset (map snd (onServer n)) = mset (map snd (onClient n))
     then (Val (), s) else (Throw (AssertFail ''expected but instead have''), s))"
  using assms by (simp add: checkWritesOfCommittedTxns_def js_simps Let_def forEachE_asserts arrayEq_docEntries)

definition strayDocument :: jsval where
  "strayDocument = JObj [(''_id'', jnum 7), (''order'', JArr [JObj [(''tid'', jnum 0), (''iteration'', jnum 0), (''numUpdated'', jnum 1)]]),
     (''metadata'', JArr [JObj [(''dbName'', JStr ''d''), (''collName'', JStr ''c''), (''txnNum'', jnum 0)]])]"

definition strayThread :: atData where
  "strayThread = \<lparr>atTid = 0, atIteration = 1, totalIteration = Fin 2, atIterations = 50, atCollections = [(''d'', ''c'')], numDocs = 10,
     atRetryKilled = False, prepareProb = 0, updatedDocsClientHistory = [Some [docEntry (3, ''d'', ''c'')]]\<rparr>"

text \<open>The thread knows to have written document 3, the database says document 7, and the check passes.\<close>

theorem writes_check_ignores_docIds_witness:
  "checkWritesOfCommittedTxns strayThread [strayDocument] () = (Val (), ())"
proof -
  have "serverHistory (atTid strayThread) [strayDocument] = Inr [Some [docEntry (7, ''d'', ''c'')]]" by code_simp
  moreover have "getIndexOr [Some [docEntry (7, ''d'', ''c'')]] n = map docEntry (if n = 0 then [(7, ''d'', ''c'')] else [])" for n
    by (simp add: getIndexOr_def)
  moreover have "getIndexOr (updatedDocsClientHistory strayThread) n = map docEntry (if n = 0 then [(3, ''d'', ''c'')] else [])" for n
    by (simp add: getIndexOr_def strayThread_def)
  ultimately show ?thesis by (subst writes_check_ignores_docIds) auto
qed

section \<open>The update state\<close>

definition quietLaw :: "('s, 'a) eff \<Rightarrow> 's txn_view \<Rightarrow> bool" where
  "quietLaw m v \<longleftrightarrow> (\<forall>s r t. m s = (r, t) \<longrightarrow> ownTxns v t = ownTxns v s \<and> txnState v t = txnState v s)"

text \<open>The document and the collection an update of \<open>at_updateDoc\<close> names.\<close>

definition entryOf :: "jsval \<Rightarrow> jsval" where
  "entryOf u = (let meta = fld (fld (fld u ''u'') ''$push'') ''metadata'' in
     JObj [(''_id'', fld (fld u ''q'') ''_id''), (''dbName'', fld meta ''dbName''), (''collName'', fld meta ''collName'')])"

lemma entryOf_pushUpdate: "entryOf (pushUpdate d k c n docId) = docEntry (docId, c)"
  by (cases c) (simp add: entryOf_def pushUpdate_def docEntry_def fld_def)

text \<open>What the state relies on: reading the transaction number and drawing change nothing, updates are atomic.\<close>

definition updateStateLaw :: "'s atEnv \<Rightarrow> 's txn_view \<Rightarrow> bool" where
  "updateStateLaw env v \<longleftrightarrow>
     atomicSession (atShell env) (atSession env) v \<and> (\<forall>c. updateLaw (atUpdate env c) v) \<and>
     quietLaw (atTxnNumber env) v \<and> (\<forall>n. quietLaw (atRandInt env n) v) \<and> (\<forall>xs. quietLaw (atShuffle env xs) v) \<and>
     (\<forall>xs s ys t. atShuffle env xs s = (Val ys, t) \<longrightarrow> mset ys = mset xs)"

text \<open>The session's transaction number, which changes only when a transaction starts, and the number an update carries.\<close>

definition numberLaw :: "'s atEnv \<Rightarrow> ('s \<Rightarrow> nat) \<Rightarrow> bool" where
  "numberLaw env num \<longleftrightarrow>
     (\<forall>s m t. atTxnNumber env s = (Val m, t) \<longrightarrow> m = num s) \<and> (\<forall>s. num (snd (atTxnNumber env s)) = num s) \<and>
     (\<forall>n s. num (snd (atRandInt env n s)) = num s) \<and> (\<forall>c u s. num (snd (atUpdate env c u s)) = num s)"

definition txnNumOf :: "jsval \<Rightarrow> jsval" where
  "txnNumOf u = fld (fld (fld (fld u ''u'') ''$push'') ''metadata'') ''txnNum''"

lemma txnNumOf_pushUpdate: "txnNumOf (pushUpdate d k c n docId) = jnum (int n)"
  by (simp add: txnNumOf_def pushUpdate_def fld_def)

text \<open>The tail of \<open>at_updateDoc\<close> once the collection and the transaction number are known.\<close>

definition pushOne :: "'s atEnv \<Rightarrow> ns \<Rightarrow> nat \<Rightarrow> jsval \<Rightarrow> ('s \<times> (nat option \<times> jsval list), unit) eff" where
  "pushOne env c docId u =
     bindE (onFst (atUpdate env c (updateCommand u))) (\<lambda>res.
     seqE (checkE (commandWorked (atShell env) res))
    (seqE (onFst (atWhenOwnColl env (fld res ''n'' = jnum 1) ''are not equal''))
    (seqE (onFst (atWhenOwnColl env (fld res ''nModified'' = jnum 1) ''are not equal''))
    (modE (\<lambda>(s, (n, info)). (s, (n, info @ [docEntry (docId, c)])))))))"

lemma at_updateDoc_eq:
  "at_updateDoc env d k docId =
     bindE (onFst (atRandInt env (length (atCollections d)))) (\<lambda>i.
     if i \<ge> length (atCollections d) then raise (TypeErr ''collection is undefined'')
     else bindE (onFst (atTxnNumber env)) (\<lambda>m.
       seqE (modE (\<lambda>(s, (_, info)). (s, (Some m, info))))
         (pushOne env (atCollections d ! i) docId (pushUpdate d k (atCollections d ! i) m docId))))"
  by (simp add: at_updateDoc_def pushOne_def docEntry_def Let_def case_prod_unfold cong: if_cong)

lemma pushOne_run:
  assumes "updateLaw (atUpdate env c) v" and "commandWorked_spec (atShell env)" and "1 \<le> level (atLevel env)"
    and "txnState v (fst p) = InProgress us" and "pushOne env c docId u p = (r, q)"
  shows "ownTxns v (fst q) = ownTxns v (fst p) \<and>
    (r = Val () \<longrightarrow> txnState v (fst q) = InProgress (us @ [u]) \<and> snd q = (fst (snd p), snd (snd p) @ [docEntry (docId, c)]))"
proof -
  obtain s l where p: "p = (s, l)" by (cases p)
  obtain r1 s1 where up: "atUpdate env c (updateCommand u) s = (r1, s1)" by (cases "atUpdate env c (updateCommand u) s")
  have law: "ownTxns v s1 = ownTxns v s"
    "\<And>res. r1 = Val res \<Longrightarrow> \<not> response_failed res \<Longrightarrow> fld res ''n'' = jnum 1 \<Longrightarrow> txnState v s1 = InProgress (us @ [u])"
    using assms(1,4) up p unfolding updateLaw_def by auto
  show ?thesis
  proof (cases r1)
    case (Val res)
    have "fst q = s1 \<and> (r = Val () \<longrightarrow> commandWorked (atShell env) res = None \<and> fld res ''n'' = jnum 1 \<and> snd q = (fst l, snd l @ [docEntry (docId, c)]))"
      using assms(3,5) up Val p
      by (auto simp: pushOne_def atWhenOwnColl_def level_defs onFst_def bindE_def seqE_def checkE_def assertE_def modE_def ret_def raise_def
          split: option.splits if_splits prod.splits)
    then show ?thesis using law Val p assms(2) by (auto simp: commandWorked_spec_def)
  qed (use assms(5) up law(1) p in \<open>auto simp: pushOne_def onFst_def bindE_def\<close>)
qed

lemma pushOne_number:
  assumes "numberLaw env num" and "pushOne env c docId u p = (r, q)"
  shows "num (fst q) = num (fst p)"
proof -
  have fst: "keeps (\<lambda>p. num (fst p) = n) (onFst m)" if "\<And>s. num (snd (m s)) = num s" for n and m :: "('a, 'b) eff"
    using that by (auto simp: keeps_def)
  have level: "num (snd (atWhenOwnColl env b msg s)) = num s" for b msg s
    by (simp add: atWhenOwnColl_def assertE_def ret_def raise_def)
  have "keeps (\<lambda>p. num (fst p) = num (fst p0)) (pushOne env c docId u)" for p0
    unfolding pushOne_def using assms(1) by (intro keeps_rules fst level) (auto simp: numberLaw_def simp del: split_paired_All)
  then show ?thesis using assms(2) unfolding keeps_def by (metis snd_conv)
qed

lemma onFst_quiet:
  assumes "quietLaw m v" and "onFst m p = (r, q)"
  shows "ownTxns v (fst q) = ownTxns v (fst p)" "txnState v (fst q) = txnState v (fst p)" "snd q = snd p"
  using assms by (cases p; auto simp: onFst_def quietLaw_def split: prod.splits; blast)+

lemma updateDoc_run:
  assumes "updateStateLaw env v" and "1 \<le> level (atLevel env)" and num: "numberLaw env num"
    and "txnState v (fst p) = InProgress us" and "at_updateDoc env d k docId p = (r, q)"
  shows "ownTxns v (fst q) = ownTxns v (fst p) \<and>
    (r = Val () \<longrightarrow> (\<exists>c. txnState v (fst q) = InProgress (us @ [pushUpdate d k c (num (fst p)) docId]) \<and>
       snd q = (Some (num (fst p)), snd (snd p) @ [docEntry (docId, c)]) \<and> num (fst q) = num (fst p)))"
proof -
  have laws: "quietLaw (atRandInt env n) v" "quietLaw (atTxnNumber env) v" "updateLaw (atUpdate env c) v" "commandWorked_spec (atShell env)" for n c
    using assms(1) by (auto simp: updateStateLaw_def atomicSession_def simp del: split_paired_All)
  obtain r1 p1 where ri: "onFst (atRandInt env (length (atCollections d))) p = (r1, p1)" by (cases "onFst (atRandInt env (length (atCollections d))) p")
  obtain r2 p2 where tn: "onFst (atTxnNumber env) p1 = (r2, p2)" by (cases "onFst (atTxnNumber env) p1")
  note q1 = onFst_quiet [OF laws(1) ri] and q2 = onFst_quiet [OF laws(2) tn]
  have n1: "num (fst p1) = num (fst p)" using num ri unfolding numberLaw_def by (metis onFst_snd(1) snd_conv)
  have n2: "num (fst p2) = num (fst p)" using num tn n1 unfolding numberLaw_def by (metis onFst_snd(1) snd_conv)
  have read: "m = num (fst p)" if "r2 = Val m" for m
    using num tn that n1 unfolding numberLaw_def by (cases p1) (auto simp: onFst_def split: prod.splits)
  consider i where "r1 = Val i" "i < length (atCollections d)" "r2 = Val (num (fst p))" | "q = p1" "r \<noteq> Val ()" | "q = p2" "r \<noteq> Val ()"
    using assms(5) ri tn read
    by (cases r1; cases r2) (auto simp: at_updateDoc_eq bindE_def raise_def split: if_splits)
  then show ?thesis
  proof cases
    case 1
    let ?c = "atCollections d ! i" and ?m = "num (fst p)"
    let ?p3 = "(fst p2, (Some ?m, snd (snd p2)))"
    have push: "pushOne env ?c docId (pushUpdate d k ?c ?m docId) ?p3 = (r, q)"
      using assms(5) ri tn 1 by (cases p2) (auto simp: at_updateDoc_eq bindE_def seqE_def modE_def split: prod.splits)
    from pushOne_run [OF laws(3,4) assms(2) _ push, of us] pushOne_number [OF num push] show ?thesis
      using q1 q2 n2 assms(4) by (auto simp del: split_paired_Ex)
  qed (use q1 q2 in auto)
qed

text \<open>What a run of updates leaves: the entries, the documents, and the number under which they were made.\<close>

definition recorded :: "nat list \<Rightarrow> jsval list \<Rightarrow> nat \<Rightarrow> bool" where
  "recorded docIds us n \<longleftrightarrow> map (\<lambda>u. fld (fld u ''q'') ''_id'') us = map (\<lambda>i. jnum (int i)) docIds \<and> (\<forall>u \<in> set us. txnNumOf u = jnum (int n))"

lemma updateDocs_run:
  assumes "updateStateLaw env v" and "1 \<le> level (atLevel env)" and num: "numberLaw env num"
  shows "txnState v (fst p) = InProgress us \<Longrightarrow> forEachE (at_updateDoc env d k) docIds p = (r, q) \<Longrightarrow>
    ownTxns v (fst q) = ownTxns v (fst p) \<and>
    (r = Val () \<longrightarrow> (\<exists>us'. txnState v (fst q) = InProgress (us @ us') \<and> snd (snd q) = snd (snd p) @ map entryOf us' \<and>
       recorded docIds us' (num (fst p)) \<and> (docIds \<noteq> [] \<longrightarrow> fst (snd q) = Some (num (fst p)))))"
proof (induction docIds arbitrary: p us)
  case Nil
  then show ?case by (auto simp: ret_def recorded_def)
next
  case (Cons docId docIds)
  obtain r1 p1 where one: "at_updateDoc env d k docId p = (r1, p1)" by (cases "at_updateDoc env d k docId p")
  note first = updateDoc_run [OF assms Cons.prems(1) one]
  show ?case
  proof (cases r1)
    case (Val x)
    let ?m = "num (fst p)"
    obtain c where st: "txnState v (fst p1) = InProgress (us @ [pushUpdate d k c ?m docId])"
      and sn: "snd p1 = (Some ?m, snd (snd p) @ [docEntry (docId, c)])" and same: "num (fst p1) = ?m" using first Val by auto
    have rest: "forEachE (at_updateDoc env d k) docIds p1 = (r, q)" using Cons.prems(2) one Val by (simp add: seqE_def bindE_def)
    have keep: "docIds = [] \<Longrightarrow> q = p1" using rest by (auto simp: ret_def)
    have id: "fld (fld (pushUpdate d k c ?m docId) ''q'') ''_id'' = jnum (int docId)" by (simp add: pushUpdate_def fld_def)
    show ?thesis
    proof (intro conjI impI)
      show "ownTxns v (fst q) = ownTxns v (fst p)" using Cons.IH [OF st rest] first by simp
      assume "r = Val ()"
      then obtain us' where us': "txnState v (fst q) = InProgress ((us @ [pushUpdate d k c ?m docId]) @ us')"
        "snd (snd q) = snd (snd p1) @ map entryOf us'" "recorded docIds us' ?m" "docIds \<noteq> [] \<longrightarrow> fst (snd q) = Some ?m"
        using Cons.IH [OF st rest] same by auto
      show "\<exists>us'. txnState v (fst q) = InProgress (us @ us') \<and> snd (snd q) = snd (snd p) @ map entryOf us' \<and>
          recorded (docId # docIds) us' ?m \<and> (docId # docIds \<noteq> [] \<longrightarrow> fst (snd q) = Some ?m)"
        using us' sn id keep
        by (intro exI [of _ "pushUpdate d k c ?m docId # us'"]) (auto simp: entryOf_pushUpdate txnNumOf_pushUpdate recorded_def)
    qed
  qed (use Cons.prems(2) one first in \<open>auto simp: seqE_def bindE_def\<close>)
qed

abbreviation keptRecord :: "nat list \<Rightarrow> nat option \<times> jsval list \<Rightarrow> jsval list \<Rightarrow> bool" where
  "keptRecord docIds l us \<equiv> snd l = map entryOf us \<and> (\<exists>n. recorded docIds us n \<and> (docIds \<noteq> [] \<longrightarrow> fst l = Some n))"

lemma updateFunc_in_txn:
  assumes "updateStateLaw env v" and "1 \<le> level (atLevel env)" and "numberLaw env num"
  shows "updatesInTxn (viewOnFst v) (updateFunc env d docIds) (\<lambda>p us. keptRecord docIds (snd p) us)"
  unfolding updatesInTxn_def
proof (intro allI impI, simp only: viewOnFst_simps)
  fix p r q
  assume start: "txnState v (fst p) = InProgress []" and run: "updateFunc env d docIds p = (r, q)"
  have "forEachE (at_updateDoc env d (length docIds)) docIds (fst p, (fst (snd p), [])) = (r, q)"
    using run by (cases p) (simp add: updateFunc_def seqE_def bindE_def modE_def case_prod_unfold)
  from updateDocs_run [OF assms _ this, of "[]"] start
  show "ownTxns v (fst q) = ownTxns v (fst p) \<and> (r = Val () \<longrightarrow> (\<exists>us. txnState v (fst q) = InProgress us \<and> keptRecord docIds (snd q) us))"
    by fastforce
qed

text \<open>The transaction of one call of the state: what it commits and what it leaves in the captured variables.\<close>

lemma updateTxn_hoare:
  assumes "updateStateLaw env v" and "1 \<le> level (atLevel env)" and "numberLaw env num"
  shows "hoare (\<lambda>s. ownTxns v s = base)
    (withLocal (None, []) (withTxnAndAutoRetry fuel (atShell env) (sessionOnFst (atSession env)) (updateFunc env d docIds) k 0))
    (\<lambda>l t. \<exists>us. ownTxns v t = base @ [us] \<and> keptRecord docIds l us)
    (\<lambda>t. atMostOne base (\<lambda>us. length us = length docIds) (ownTxns v t))"
proof (rule hoare_weaken [OF withTxn_local_hoare [where Q = "keptRecord docIds", OF _ updateFunc_in_txn [OF assms]]])
  show "atomicSession (atShell env) (atSession env) v" using assms(1) by (simp add: updateStateLaw_def)
next
  fix t
  assume "atMostOne base (\<lambda>us. \<exists>l. keptRecord docIds l us) (ownTxns v t)"
  then show "atMostOne base (\<lambda>us. length us = length docIds) (ownTxns v t)" unfolding atMostOne_def recorded_def by (metis length_map)
qed auto

lemma quiet_hoare:
  "quietLaw m v \<Longrightarrow> (\<And>s x t. m s = (Val x, t) \<Longrightarrow> P x) \<Longrightarrow>
   hoare (\<lambda>s. ownTxns v s = base) m (\<lambda>x s. ownTxns v s = base \<and> P x) (\<lambda>s. ownTxns v s = base)"
  unfolding hoare_def quietLaw_def by (fastforce split: prod.split outcome.split)

text \<open>The documents chosen: some, no document twice, all of them in the collection.\<close>

definition chosen :: "nat \<Rightarrow> nat list \<Rightarrow> bool" where
  "chosen n docIds \<longleftrightarrow> docIds \<noteq> [] \<and> distinct docIds \<and> set docIds \<subseteq> {0..<n}"

lemma docIds_hoare:
  assumes "updateStateLaw env v" and "0 < numDocs d"
  shows "hoare (\<lambda>s. ownTxns v s = base) (getDocIdsToUpdate env (numDocs d)) (\<lambda>docIds s. ownTxns v s = base \<and> chosen (numDocs d) docIds)
    (\<lambda>t. atMostOne base (\<lambda>_. True) (ownTxns v t))"
proof -
  let ?E = "\<lambda>t. atMostOne base (\<lambda>_. True) (ownTxns v t)"
  have laws: "quietLaw (atRandInt env n) v" "quietLaw (atShuffle env xs) v" for n xs using assms(1) by (auto simp: updateStateLaw_def)
  have shuffled: "chosen (numDocs d) (take (2 + r) ys)" if "atShuffle env [0..<numDocs d] s = (Val ys, t)" for r ys s t
  proof -
    have perm: "mset ys = mset [0..<numDocs d]" using assms(1) that unfolding updateStateLaw_def by blast
    then have "distinct ys" "set ys = {0..<numDocs d}" "ys \<noteq> []"
      using mset_eq_imp_distinct_iff [OF perm] mset_eq_setD [OF perm] assms(2) by auto
    then show ?thesis using set_take_subset [of "2 + r" ys] by (auto simp: chosen_def)
  qed
  have rand: "hoare (\<lambda>s. ownTxns v s = base) (atRandInt env n) (\<lambda>_ s. ownTxns v s = base) ?E" for n
    by (rule hoare_weaken [OF quiet_hoare [OF laws(1), where P = "\<lambda>_. True" and base = base]]) auto
  have shuffle: "hoare (\<lambda>s. ownTxns v s = base) (atShuffle env [0..<numDocs d]) (\<lambda>ys s. ownTxns v s = base \<and> (\<forall>r. chosen (numDocs d) (take (2 + r) ys))) ?E"
  proof (rule hoare_weaken [OF quiet_hoare [OF laws(2), where P = "\<lambda>ys. \<forall>r. chosen (numDocs d) (take (2 + r) ys)" and base = base]])
    show "\<forall>r. chosen (numDocs d) (take (2 + r) ys)" if "atShuffle env [0..<numDocs d] s = (Val ys, t)" for ys s t using shuffled [OF that] by blast
  qed auto
  show ?thesis
    unfolding getDocIdsToUpdate_def by (rule hoare_bindE [OF rand], rule hoare_bindE [OF shuffle], rule hoare_ret) blast
qed

text \<open>
  C36. The update state takes effect exactly once and its thread records what it did.  With atomic transactions that are not
  prepared (\<open>prepareProbability\<close> is zero), a transaction number that changes only with a new transaction, and the assertions on the own
  collection active (the level is at least \<open>OWN_COLL\<close>), a run that returns
  has committed exactly one transaction more, one update for each of the distinct documents it chose.  All these updates carry one
  transaction number in their metadata, and at exactly this number the thread's history has
  one entry for each update, naming its document and its collection; its other entries are as before.  A run that throws has
  committed at most one transaction.
\<close>

theorem update_recorded:
  assumes "updateStateLaw env v" and "1 \<le> level (atLevel env)" and "numberLaw env num" and "0 < numDocs d" and "prepareProb d = 0"
  shows "hoare (\<lambda>s. ownTxns v s = base) (at_update fuel env d)
    (\<lambda>d' t. \<exists>us n docIds. ownTxns v t = base @ [us] \<and> distinct docIds \<and> docIds \<noteq> [] \<and> set docIds \<subseteq> {0..<numDocs d} \<and>
       map (\<lambda>u. fld (fld u ''q'') ''_id'') us = map (\<lambda>i. jnum (int i)) docIds \<and> (\<forall>u \<in> set us. txnNumOf u = jnum (int n)) \<and>
       updatedDocsClientHistory d' = setIndex n (map entryOf us) (updatedDocsClientHistory d))
    (\<lambda>t. atMostOne base (\<lambda>_. True) (ownTxns v t))"
proof -
  let ?E = "\<lambda>t. atMostOne base (\<lambda>_. True) (ownTxns v t)"
  show ?thesis
    unfolding at_update_def assms(5)
  proof (rule hoare_bindE [OF docIds_hoare [OF assms(1,4)]])
    fix docIds
    let ?txn = "withLocal (None, []) (withTxnAndAutoRetry fuel (atShell env) (sessionOnFst (atSession env)) (updateFunc env d docIds) (atRetryKilled d) 0)"
    show "hoare (\<lambda>s. ownTxns v s = base \<and> chosen (numDocs d) docIds)
      (bindE ?txn
       (\<lambda>(txnNumber, committedTxnInfo). ret (d\<lparr>updatedDocsClientHistory :=
           (case txnNumber of None \<Rightarrow> updatedDocsClientHistory d | Some n \<Rightarrow> setIndex n committedTxnInfo (updatedDocsClientHistory d)),
           atIteration := atIteration d + 1\<rparr>)))
      (\<lambda>d' t. \<exists>us n docIds. ownTxns v t = base @ [us] \<and> distinct docIds \<and> docIds \<noteq> [] \<and> set docIds \<subseteq> {0..<numDocs d} \<and>
         map (\<lambda>u. fld (fld u ''q'') ''_id'') us = map (\<lambda>i. jnum (int i)) docIds \<and> (\<forall>u \<in> set us. txnNumOf u = jnum (int n)) \<and>
         updatedDocsClientHistory d' = setIndex n (map entryOf us) (updatedDocsClientHistory d)) ?E"
    proof (cases "chosen (numDocs d) docIds")
      case True
      have txn: "hoare (\<lambda>s. ownTxns v s = base \<and> chosen (numDocs d) docIds) ?txn
          (\<lambda>l t. \<exists>us n. ownTxns v t = base @ [us] \<and> l = (Some n, map entryOf us) \<and> recorded docIds us n) ?E"
      proof (rule hoare_weaken [OF updateTxn_hoare [OF assms(1-3)]])
        fix l t assume "\<exists>us. ownTxns v t = base @ [us] \<and> keptRecord docIds l us"
        then show "\<exists>us n. ownTxns v t = base @ [us] \<and> l = (Some n, map entryOf us) \<and> recorded docIds us n"
          using True by (cases l) (auto simp: chosen_def)
      qed (use True in \<open>auto simp: atMostOne_def\<close>)
      show ?thesis
        by (rule hoare_bindE [OF txn]) (use True in \<open>fastforce simp: chosen_def recorded_def hoare_def ret_def split: prod.splits\<close>)
    qed (simp add: hoare_def)
  qed
qed

section \<open>The last iteration\<close>

text \<open>
  A thread's calls after \<open>init\<close>: the states of the base workload are wrapped (\<open>True\<close>), the ones an extension adds are not.
\<close>

fun runCalls :: "nat \<Rightarrow> 's atEnv \<Rightarrow> (bool \<times> (atData \<Rightarrow> ('s, atData) eff)) list \<Rightarrow> atData \<Rightarrow> ('s, atData) eff" where
  "runCalls fuel env [] d = ret d"
| "runCalls fuel env ((wrapped, func) # calls) d =
     bindE (if wrapped then checkConsistencyOnLastIteration fuel env func d else func d) (runCalls fuel env calls)"

definition keepsCounter :: "(atData \<Rightarrow> ('s, atData) eff) \<Rightarrow> bool" where
  "keepsCounter func \<longleftrightarrow> (\<forall>d s d' t. func d s = (Val d', t) \<longrightarrow> totalIteration d' = totalIteration d \<and> atIterations d' = atIterations d)"

lemma update_keepsCounter: "keepsCounter (at_update fuel env)"
  by (auto simp: keepsCounter_def at_update_def bindE_Val ret_Val split: prod.splits)

text \<open>
  Calls of states that are not wrapped are not counted: a thread that enters such a state after \<open>init\<close> never
  reaches the count of its last iteration, and the closing check is not made.
\<close>

lemma unwrapped_calls_skip_check:
  "totalIteration d = Fin (of_nat n) \<Longrightarrow> \<forall>(w, func) \<in> set calls. keepsCounter func \<Longrightarrow>
   n + length (filter fst calls) < atIterations d \<Longrightarrow>
   runCalls fuel env calls d s = runCalls fuel env
     (map (\<lambda>(w, func). (False, if w then (\<lambda>d. func (d\<lparr>totalIteration := num_add (totalIteration d) (Fin 1)\<rparr>)) else func)) calls) d s"
proof (induction calls arbitrary: d s n)
  case (Cons call calls)
  obtain w func where call: "call = (w, func)" by (cases call)
  have keep: "keepsCounter func" using Cons.prems(2) call by simp
  define d1 where "d1 = (if w then d\<lparr>totalIteration := num_add (totalIteration d) (Fin 1)\<rparr> else d)"
  define n1 where "n1 = (if w then Suc n else n)"
  have d1: "totalIteration d1 = Fin (of_nat n1)" "atIterations d1 = atIterations d" using Cons.prems(1) by (auto simp: d1_def n1_def)
  have n1: "n1 + length (filter fst calls) < atIterations d" using Cons.prems(3) call by (auto simp: n1_def)
  have notLast: "\<not> of_nat (atIterations d) \<le> (of_nat n + 1 :: rat)" if w
  proof -
    have "Suc n < atIterations d" using Cons.prems(3) call that by simp
    then have "(of_nat (Suc n) :: rat) < of_nat (atIterations d)" by (simp only: of_nat_less_iff)
    then show ?thesis by simp
  qed
  have step: "(if w then checkConsistencyOnLastIteration fuel env func d else func d) = func d1"
    using notLast Cons.prems(1)
    by (auto simp: checkConsistencyOnLastIteration_def Let_def d1_def fun_eq_iff seqE_def bindE_def ret_def split: prod.split outcome.split)
  have "func d1 s = (Val d2, t) \<Longrightarrow> runCalls fuel env calls d2 t = runCalls fuel env
      (map (\<lambda>(w, func). (False, if w then (\<lambda>d. func (d\<lparr>totalIteration := num_add (totalIteration d) (Fin 1)\<rparr>)) else func)) calls) d2 t" for d2 t
    using Cons.IH [of d2 n1 t] Cons.prems(2) keep d1 n1 unfolding keepsCounter_def call by auto
  then show ?case
    unfolding call runCalls.simps list.map prod.case step
    by (cases "func d1 s"; cases "fst (func d1 s)") (auto simp: bindE_def d1_def split: if_splits)
qed simp

section \<open>Extensions and configurations\<close>

text \<open>The namespaces of the multi-database extension: a square of databases and collections.\<close>

definition multiDbCollections :: "nat \<Rightarrow> ns \<Rightarrow> ns list" where
  "multiDbCollections nsCount = (\<lambda>(dbName, collName).
     concat (map (\<lambda>i. map (\<lambda>j. (dbName @ ''_'' @ show_nat i, collName @ ''_'' @ show_nat j)) [0..<nsCount]) [0..<nsCount]))"

lemma multiDb_count: "length (multiDbCollections n c) = n * n"
  by (cases c) (simp add: multiDbCollections_def length_concat comp_def sum_list_triv)

lemma multiDb_distinct: "distinct (multiDbCollections n c)"
proof -
  obtain db coll where c: "c = (db, coll)" by (cases c)
  have "multiDbCollections n c = map (\<lambda>(i, j). (db @ ''_'' @ show_nat i, coll @ ''_'' @ show_nat j)) (List.product [0..<n] [0..<n])"
    by (simp add: multiDbCollections_def c product_concat_map map_concat comp_def)
  moreover have "inj_on (\<lambda>(i, j). (db @ ''_'' @ show_nat i, coll @ ''_'' @ show_nat j)) A" for A
    by (auto simp: inj_on_def)
  ultimately show ?thesis by (simp add: distinct_map distinct_product)
qed

fun at_readAgain :: "'s atEnv \<Rightarrow> atData \<Rightarrow> ns \<Rightarrow> nat \<Rightarrow> jsval list option \<Rightarrow> ('s, unit) eff" where
  "at_readAgain env d c 0 prevDocuments = ret ()"
| "at_readAgain env d c (Suc left) prevDocuments =
     bindE (atFindBatch env c (max 2 (numDocs d div 5))) (\<lambda>collectionDocs.
     seqE (atWhenOwnColl env (numDocs d = length collectionDocs) ''are not equal'')
    (seqE (case prevDocuments of
             None \<Rightarrow> ret ()
           | Some prev \<Rightarrow> assertE (mset prev = mset collectionDocs) ''Document mismatch'')
    (at_readAgain env d c left (Some collectionDocs))))"

definition at_repeatedRead :: "nat \<Rightarrow> 's atEnv \<Rightarrow> atData \<Rightarrow> ns \<Rightarrow> nat \<Rightarrow> ('s, unit) eff" where
  "at_repeatedRead fuel env d c numReads =
     withTxnAndAutoRetry fuel (atShell env) (atSession env) (at_readAgain env d c numReads None) False 0"

definition atomicityTransitions :: jsval where
  "atomicityTransitions = JObj [
        (''init'', weightTable [(''update'', 9 / 10), (''checkConsistency'', 1 / 10)]),
        (''update'', weightTable [(''update'', 8 / 10), (''checkConsistency'', 1 / 10), (''causalRead'', 1 / 10)]),
        (''checkConsistency'', weightTable [(''update'', 1)]),
        (''causalRead'', weightTable [(''update'', 1)])]"

definition atomicityConfig :: jsval where
  "atomicityConfig = JObj [
     (''threadCount'', jnum 10), (''iterations'', jnum 50),
     (''states'', JObj [(''init'', JFun ''init'' 2), (''update'', JFun ''update'' 2), (''checkConsistency'', JFun ''checkConsistency'' 2),
        (''causalRead'', JFun ''causalRead'' 2)]),
     (''transitions'', atomicityTransitions),
     (''data'', JObj [(''getAllCollections'', JFun ''getAllCollections'' 2), (''getAllDocuments'', JFun ''getAllDocuments'' 2),
        (''getDocIdsToUpdate'', JFun ''getDocIdsToUpdate'' 1), (''numDocs'', jnum 10), (''retryOnKilledSession'', JBool False),
        (''updatedDocsClientHistory'', JArr [])]),
     (''setup'', JFun ''setup'' 3), (''teardown'', JFun ''teardown'' 3)]"

definition extendMultiDb :: "jsval \<Rightarrow> jsval \<Rightarrow> jsval result" where
  "extendMultiDb config super = Inr (inField ''data'' (set_prop ''getAllCollections'' (JFun ''getAllCollections'' 2)) config)"

definition extendAtomicityRepeatedReads :: "jsval \<Rightarrow> jsval \<Rightarrow> jsval result" where
  "extendAtomicityRepeatedReads config super = Inr (
     set_prop ''transitions'' (JObj [
        (''init'', weightTable [(''update'', 7 / 10), (''checkConsistency'', 1 / 10), (''repeatedRead'', 2 / 10)]),
        (''update'', weightTable [(''update'', 7 / 10), (''checkConsistency'', 1 / 10), (''repeatedRead'', 2 / 10)]),
        (''checkConsistency'', weightTable [(''update'', 8 / 10), (''repeatedRead'', 2 / 10)]),
        (''repeatedRead'', weightTable [(''update'', 8 / 10), (''repeatedRead'', 2 / 10)])])
     (inField ''states'' (set_prop ''repeatedRead'' (JFun ''repeatedRead'' 2))
     (inField ''data'' (set_prop ''numReads'' (jnum 5)) config)))"

definition extendAtomicityKillSessions :: "jsval \<Rightarrow> jsval \<Rightarrow> jsval result" where
  "extendAtomicityKillSessions config super = Inr (
     set_prop ''transitions'' (JObj [
        (''init'', weightTable [(''update'', 9 / 10), (''checkConsistency'', 1 / 10)]),
        (''update'', weightTable [(''update'', 8 / 10), (''checkConsistency'', 1 / 10), (''killSession'', 1 / 10)]),
        (''checkConsistency'', weightTable [(''update'', 9 / 10), (''killSession'', 1 / 10)]),
        (''killSession'', weightTable [(''update'', 8 / 10), (''checkConsistency'', 1 / 10), (''causalRead'', 1 / 10)]),
        (''causalRead'', weightTable [(''update'', 9 / 10), (''killSession'', 1 / 10)])])
     (inField ''states'' (set_prop ''killSession'' (JFun ''killSession'' 2))
     (inField ''data'' (set_prop ''retryOnKilledSession'' (JBool True)) config)))"

text \<open>The runner accepts the workload and these extensions of it.\<close>

lemma atomicity_configs_parse:
  "list_all (\<lambda>c. case rbind c parseConfig of Inl _ \<Rightarrow> False | Inr _ \<Rightarrow> True)
     (Inr atomicityConfig # map (extendWorkload [atomicityConfig, JFun ''callback'' 2] (JFun ''callback'' 2))
       [extendMultiDb, extendAtomicityRepeatedReads, extendAtomicityKillSessions])"
  by code_simp

section \<open>Concrete runs\<close>

text \<open>One thread alone, with the numbers it will draw; shuffling reverses.\<close>

record atWorld = sole +
  awDraws :: "nat list"

definition soleAtEnv :: "atWorld atEnv" where
  "soleAtEnv = \<lparr>
     atShell = exampleShell, atLevel = OWN_DB, atSession = soleSession, atStartSession = (\<lambda>_. ret ()),
     atTxnNumber = ret 0, atUpdate = (\<lambda>_. soleUpdate), atFindBatch = (\<lambda>_ _. ret []), atFindAll = (\<lambda>_. ret []), atItcount = (\<lambda>_. ret 0),
     atRandInt = (\<lambda>_ s. case awDraws s of x # xs \<Rightarrow> (Val x, s\<lparr>awDraws := xs\<rparr>) | [] \<Rightarrow> (Diverge, s)),
     atShuffle = (\<lambda>xs. ret (rev xs)), atBulkInsert = (\<lambda>_ _ _. ret okResponse), atIsSharded = ret False, atSyncTimes = ret ()\<rparr>"

lemma sole_updateStateLaw: "updateStateLaw soleAtEnv soleView"
  unfolding updateStateLaw_def
  by (simp add: soleAtEnv_def sole_atomic sole_update) (auto simp: quietLaw_def soleView_def ret_def split: list.splits)

definition orderEntry :: "nat \<Rightarrow> nat \<Rightarrow> jsval" where
  "orderEntry thread k = JObj [(''tid'', jnum (int thread)), (''iteration'', jnum 0), (''numUpdated'', jnum (int k))]"

theorem serial_history_accepted_witness:
  "seqE (checkTransactionCommitOrder soleAtEnv [JObj [(''order'', JArr [orderEntry 0 2])], JObj [(''order'', JArr [orderEntry 0 2, orderEntry 1 1])]])
     (checkNumUpdatedByEachTransaction [JObj [(''order'', JArr [orderEntry 0 2])], JObj [(''order'', JArr [orderEntry 0 2, orderEntry 1 1])]])
     \<lparr>soleTxns = [], soleTxn = NoTxn, awDraws = []\<rparr> = (Val (), \<lparr>soleTxns = [], soleTxn = NoTxn, awDraws = []\<rparr>)"
proof (rule serial_history_accepted)
  show "serialHistory [(orderEntry 0 2, [0, 1]), (orderEntry 1 1, [1])]
      [JObj [(''order'', JArr [orderEntry 0 2])], JObj [(''order'', JArr [orderEntry 0 2, orderEntry 1 1])]]"
    by (auto simp: serialHistory_def orderEntry_def orderOf_def fld_def less_Suc_eq)
qed (simp add: soleAtEnv_def level_defs)

theorem checks_detect_anomalies_witness:
  "acyclic (set (commitEdges [JObj [(''order'', JArr [orderEntry 0 1, orderEntry 1 1])]]))"
proof -
  let ?docs = "[JObj [(''order'', JArr [orderEntry 0 1, orderEntry 1 1])]]"
  have "seqE (checkTransactionCommitOrder soleAtEnv ?docs) (checkNumUpdatedByEachTransaction ?docs) \<lparr>soleTxns = [], soleTxn = NoTxn, awDraws = []\<rparr>
      = (Val (), \<lparr>soleTxns = [], soleTxn = NoTxn, awDraws = []\<rparr>)" by code_simp
  from checks_detect_anomalies [OF _ this] show ?thesis by (simp add: soleAtEnv_def level_defs)
qed

theorem update_recorded_witness:
  "case at_update 2 soleAtEnv strayThread \<lparr>soleTxns = [], soleTxn = NoTxn, awDraws = [0, 0, 0]\<rparr> of
     (Val d', t) \<Rightarrow> length (soleTxns t) = 1 \<and> updatedDocsClientHistory d' = [Some [docEntry (9, ''d'', ''c''), docEntry (8, ''d'', ''c'')]]
   | _ \<Rightarrow> False"
proof -
  let ?s = "\<lparr>soleTxns = [], soleTxn = NoTxn, awDraws = [0, 0, 0]\<rparr>"
  have run: "case at_update 2 soleAtEnv strayThread ?s of
     (Val d', t) \<Rightarrow> updatedDocsClientHistory d' = [Some [docEntry (9, ''d'', ''c''), docEntry (8, ''d'', ''c'')]] | _ \<Rightarrow> False" by code_simp
  have num: "numberLaw soleAtEnv (\<lambda>_. 0)" by (simp add: numberLaw_def soleAtEnv_def ret_def)
  have once: "hoare (\<lambda>s. ownTxns soleView s = []) (at_update 2 soleAtEnv strayThread)
    (\<lambda>d' t. \<exists>us n docIds. ownTxns soleView t = [] @ [us] \<and> distinct docIds \<and> docIds \<noteq> [] \<and> set docIds \<subseteq> {0..<numDocs strayThread} \<and>
       map (\<lambda>u. fld (fld u ''q'') ''_id'') us = map (\<lambda>i. jnum (int i)) docIds \<and> (\<forall>u \<in> set us. txnNumOf u = jnum (int n)) \<and>
       updatedDocsClientHistory d' = setIndex n (map entryOf us) (updatedDocsClientHistory strayThread))
    (\<lambda>t. atMostOne [] (\<lambda>_. True) (ownTxns soleView t))"
    by (rule update_recorded [OF sole_updateStateLaw _ num]) (simp_all add: soleAtEnv_def level_defs strayThread_def)
  obtain d' t where eq: "at_update 2 soleAtEnv strayThread ?s = (Val d', t)" using run by (auto split: prod.splits outcome.splits)
  have "\<exists>us. ownTxns soleView t = [] @ [us]" using hoareD_Val [OF once _ eq] by (auto simp: soleView_def)
  then show ?thesis using run eq by (auto simp: soleView_def)
qed

end
