(* ===== verification/Txn_Status.thy ===== *)
theory Txn_Status
  imports Shell Atomicity_Workload
begin

text \<open>
  The checks of the transaction metrics, \<open>fsm_workload_helpers/check_transaction_server_status_invariants.js\<close>, and the states of the
  two workloads that use them (\<open>multi_statement_transaction_atomicity_isolation_metrics_test.js\<close> and
  \<open>..._server_status_mongos.js\<close>).  A sample is the \<open>transactions\<close> section of a \<open>serverStatus\<close> response; the source of the samples
  is an argument.  \<open>Number(x)\<close> is \<open>to_number\<close>.
\<close>

section \<open>Invariants of a sample\<close>

abbreviation stat :: "jsval \<Rightarrow> string \<Rightarrow> jsnum" where
  "stat v k \<equiv> to_number (fld v k)"

fun num_neg :: "jsnum \<Rightarrow> jsnum" where
  "num_neg NaN = NaN"
| "num_neg NegInf = PosInf"
| "num_neg PosInf = NegInf"
| "num_neg (Fin q) = Fin (- q)"

definition num_sub :: "jsnum \<Rightarrow> jsnum \<Rightarrow> jsnum" where
  "num_sub a b = num_add a (num_neg b)"

text \<open>\<open>===\<close> and \<open>>=\<close> on numbers.\<close>

definition num_eq :: "jsnum \<Rightarrow> jsnum \<Rightarrow> bool" where
  "num_eq a b \<longleftrightarrow> a \<noteq> NaN \<and> a = b"

definition nonNegative :: "jsnum \<Rightarrow> bool" where
  "nonNegative a \<longleftrightarrow> a \<noteq> NaN \<and> \<not> num_less a (Fin 0)"

definition filterFalse :: "'a list \<Rightarrow> ('a \<Rightarrow> bool) \<Rightarrow> 'a list" where
  "filterFalse arr predFn = filter (\<lambda>x. \<not> predFn x) arr"

definition activePlusInactiveEqualsOpen :: "jsval \<Rightarrow> bool" where
  "activePlusInactiveEqualsOpen st =
     num_eq (num_add (stat st ''currentActive'') (stat st ''currentInactive'')) (stat st ''currentOpen'')"

definition committedPlusAbortedPlusOpenEqualsStarted :: "jsval \<Rightarrow> bool" where
  "committedPlusAbortedPlusOpenEqualsStarted st =
     num_eq (num_add (num_add (stat st ''totalCommitted'') (stat st ''totalAborted'')) (stat st ''currentOpen'')) (stat st ''totalStarted'')"

definition allCountsNonNegative :: "jsval \<Rightarrow> bool" where
  "allCountsNonNegative st =
     list_all (\<lambda>k. nonNegative (stat st k))
       [''currentActive'', ''currentInactive'', ''totalCommitted'', ''totalAborted'', ''currentOpen'', ''totalStarted'']"

definition preparedEqualsTotalPrepared :: "jsval \<Rightarrow> bool" where
  "preparedEqualsTotalPrepared st =
     num_eq (num_add (num_add (stat st ''totalPreparedThenAborted'') (stat st ''totalPreparedThenCommitted'')) (stat st ''currentPrepared''))
       (stat st ''totalPrepared'')"

definition unpreparedEqualsTotalUnprepared :: "jsval \<Rightarrow> bool" where
  "unpreparedEqualsTotalUnprepared st =
    (let unpreparedAborted = num_sub (stat st ''totalAborted'') (stat st ''totalPreparedThenAborted'');
         unpreparedCommitted = num_sub (stat st ''totalCommitted'') (stat st ''totalPreparedThenCommitted'');
         unpreparedOpen = num_sub (stat st ''currentOpen'') (stat st ''currentPrepared'');
         totalUnprepared = num_sub (stat st ''totalStarted'') (stat st ''totalPrepared'') in
     num_eq (num_add (num_add unpreparedAborted unpreparedCommitted) unpreparedOpen) totalUnprepared)"

text \<open>A sum over the properties of a section; a section that is missing throws.\<close>

definition sumSection :: "jsval \<Rightarrow> (jsval \<Rightarrow> jsnum result) \<Rightarrow> jsnum result" where
  "sumSection section f =
     rbind (object_keys section) (\<lambda>ks. fold (\<lambda>k acc. rbind acc (\<lambda>n. rbind (f (fld section k)) (\<lambda>x. Inr (num_add n x)))) ks (Inr (Fin 0)))"

definition totalCommittedEqualsSumOfSuccessfulCommitTypes :: "jsval \<Rightarrow> bool result" where
  "totalCommittedEqualsSumOfSuccessfulCommitTypes st =
     rbind (sumSection (fld st ''commitTypes'') (\<lambda>v. rbind (get_prop v ''successful'') (\<lambda>x. Inr (to_number x)))) (\<lambda>n.
     Inr (num_eq (stat st ''totalCommitted'') n))"

definition totalAbortedEqualsSumOfAbortCauses :: "jsval \<Rightarrow> bool result" where
  "totalAbortedEqualsSumOfAbortCauses st =
     rbind (sumSection (fld st ''abortCause'') (\<lambda>v. Inr (to_number v))) (\<lambda>n.
     Inr (num_eq (stat st ''totalAborted'') n))"

section \<open>The checks\<close>

text \<open>
  The failure rate of a predicate over the samples against a bound; without samples the rate is \<open>NaN\<close>, which is below nothing.
\<close>

fun judgeAll :: "(jsval \<Rightarrow> bool result) \<Rightarrow> jsval list \<Rightarrow> bool list result" where
  "judgeAll predFn [] = Inr []"
| "judgeAll predFn (x # xs) = rbind (predFn x) (\<lambda>b. rbind (judgeAll predFn xs) (\<lambda>bs. Inr (b # bs)))"

definition checkInvariant :: "jsval list \<Rightarrow> (jsval \<Rightarrow> bool result) \<Rightarrow> rat \<Rightarrow> unit result" where
  "checkInvariant samples predFn maxErrPct =
     rbind (judgeAll predFn samples) (\<lambda>bs.
     let failedSamples = filterFalse bs (\<lambda>b. b) in
     require (samples \<noteq> [] \<and> of_nat (length failedSamples) / of_nat (length samples) \<le> maxErrPct) ''invariant violated'' (Inr ()))"

definition maxErrPct :: rat where "maxErrPct = 5 / 100"

definition checkSamples :: "jsval list \<Rightarrow> bool \<Rightarrow> unit result" where
  "checkSamples samples isMongos =
     rbind (checkInvariant samples (Inr \<circ> activePlusInactiveEqualsOpen) maxErrPct) (\<lambda>_.
     rbind (checkInvariant samples (Inr \<circ> committedPlusAbortedPlusOpenEqualsStarted) maxErrPct) (\<lambda>_.
     rbind (if \<not> isMongos
            then rbind (checkInvariant samples (Inr \<circ> preparedEqualsTotalPrepared) maxErrPct) (\<lambda>_.
                 checkInvariant samples (Inr \<circ> unpreparedEqualsTotalUnprepared) maxErrPct)
            else rbind (checkInvariant samples totalCommittedEqualsSumOfSuccessfulCommitTypes maxErrPct) (\<lambda>_.
                 checkInvariant samples totalAbortedEqualsSumOfAbortCauses maxErrPct)) (\<lambda>_.
     checkInvariant samples (Inr \<circ> allCountsNonNegative) 0)))"

fun takeSamples :: "('s, jsval) eff \<Rightarrow> ('s, unit) eff \<Rightarrow> nat \<Rightarrow> ('s, jsval list) eff" where
  "takeSamples serverStatus sleep50 0 = ret []"
| "takeSamples serverStatus sleep50 (Suc n) =
     bindE serverStatus (\<lambda>res.
     bindE (liftE (get_prop res ''transactions'')) (\<lambda>txnStats.
     seqE sleep50
    (bindE (takeSamples serverStatus sleep50 n) (\<lambda>rest. ret (txnStats # rest)))))"

definition checkServerStatusInvariants :: "('s, jsval) eff \<Rightarrow> ('s, unit) eff \<Rightarrow> nat \<Rightarrow> bool \<Rightarrow> ('s, unit) eff" where
  "checkServerStatusInvariants serverStatus sleep50 nSamples isMongos =
     bindE (takeSamples serverStatus sleep50 nSamples) (\<lambda>samples. liftE (checkSamples samples isMongos))"

section \<open>The workloads that check metrics\<close>

definition opTimesAgree :: "jsval \<Rightarrow> unit result" where
  "opTimesAgree op =
     (let txnStats = fld op ''transaction'' in
      rbind (get_prop txnStats ''timeActiveMicros'') (\<lambda>timeActive.
      require (num_add (to_number timeActive) (stat txnStats ''timeInactiveMicros'') = stat txnStats ''timeOpenMicros'') ''are not equal'' (Inr ())))"

definition checkInvariants :: "('s, jsval) eff \<Rightarrow> ('s, unit) eff \<Rightarrow> ('s, jsval) eff \<Rightarrow> ('s, unit) eff" where
  "checkInvariants serverStatus sleep50 currentOp =
     seqE (checkServerStatusInvariants serverStatus sleep50 100 False)
    (bindE currentOp (\<lambda>res.
     bindE (liftE (get_prop res ''inprog'')) (\<lambda>inprog.
     if is_array inprog then liftE (require_each opTimesAgree (arr_elems inprog)) else raise (TypeErr ''inprog.forEach''))))"

definition verifyServerStatus :: "('s, jsval) eff \<Rightarrow> ('s, unit) eff \<Rightarrow> ('s, unit) eff" where
  "verifyServerStatus serverStatus sleep50 = checkServerStatusInvariants serverStatus sleep50 100 True"

text \<open>The two teardowns: one sample, then the teardown of the base workload.\<close>

definition metrics_teardown :: "('s, jsval) eff \<Rightarrow> ('s, unit) eff \<Rightarrow> bool \<Rightarrow> ('s, unit) eff \<Rightarrow> ('s, unit) eff" where
  "metrics_teardown serverStatus sleep50 isMongos superTeardown =
     seqE (checkServerStatusInvariants serverStatus sleep50 1 isMongos) superTeardown"

section \<open>Properties\<close>

lemma judgeAll_pure: "judgeAll (Inr \<circ> p) xs = Inr (map p xs)"
  by (induction xs) simp_all

lemma checkInvariant_pure:
  "checkInvariant samples (Inr \<circ> p) pct = Inr () \<longleftrightarrow>
     samples \<noteq> [] \<and> of_nat (length (filterFalse samples p)) \<le> pct * of_nat (length samples)"
proof (cases "samples = []")
  case False
  have "length (filterFalse (map p samples) (\<lambda>b. b)) = length (filterFalse samples p)"
    by (simp add: filterFalse_def filter_map comp_def)
  then show ?thesis using False by (simp add: checkInvariant_def judgeAll_pure Let_def pos_divide_le_eq)
qed (simp add: checkInvariant_def judgeAll_pure Let_def require_def)

text \<open>
  With finite counters the fourth invariant of a mongod says nothing new: it is the difference of the second and the third.
\<close>

lemma unprepared_redundant:
  assumes "\<And>k. k \<in> {''totalCommitted'', ''totalAborted'', ''currentOpen'', ''totalStarted'', ''totalPreparedThenAborted'',
        ''totalPreparedThenCommitted'', ''currentPrepared'', ''totalPrepared''} \<Longrightarrow> \<exists>q. stat st k = Fin q"
    and "committedPlusAbortedPlusOpenEqualsStarted st" and "preparedEqualsTotalPrepared st"
  shows "unpreparedEqualsTotalUnprepared st"
proof -
  obtain c a p s pa pc cp tp where "stat st ''totalCommitted'' = Fin c" "stat st ''totalAborted'' = Fin a" "stat st ''currentOpen'' = Fin p"
    "stat st ''totalStarted'' = Fin s" "stat st ''totalPreparedThenAborted'' = Fin pa" "stat st ''totalPreparedThenCommitted'' = Fin pc"
    "stat st ''currentPrepared'' = Fin cp" "stat st ''totalPrepared'' = Fin tp"
    using assms(1) by (metis insertI1 insertI2)
  then show ?thesis
    using assms(2,3)
    by (simp add: committedPlusAbortedPlusOpenEqualsStarted_def preparedEqualsTotalPrepared_def unpreparedEqualsTotalUnprepared_def
        num_eq_def num_sub_def)
qed

lemma rbind_unit: "rbind m (\<lambda>_ :: unit. k) = Inr y \<longleftrightarrow> m = Inr () \<and> k = Inr y"
  by (auto simp: rbind_Inr)

text \<open>
  What the check of a mongod accepts: at least one sample, each of the four sums wrong in at most one sample out of twenty, and no
  negative counter in any sample.  With the single sample of a teardown every invariant therefore has to hold.
\<close>

lemma mongod_check_exact:
  "checkSamples samples False = Inr () \<longleftrightarrow>
     samples \<noteq> [] \<and> list_all allCountsNonNegative samples \<and>
     list_all (\<lambda>p. 20 * length (filterFalse samples p) \<le> length samples)
       [activePlusInactiveEqualsOpen, committedPlusAbortedPlusOpenEqualsStarted, preparedEqualsTotalPrepared, unpreparedEqualsTotalUnprepared]"
proof -
  have tolerance: "of_nat (length (filterFalse samples p)) \<le> maxErrPct * of_nat (length samples) \<longleftrightarrow>
      20 * length (filterFalse samples p) \<le> length samples" for p :: "jsval \<Rightarrow> bool"
  proof -
    have "(of_nat (20 * length (filterFalse samples p)) :: rat) \<le> of_nat (length samples) \<longleftrightarrow> 20 * length (filterFalse samples p) \<le> length samples"
      by (simp only: of_nat_le_iff)
    then show ?thesis by (simp add: maxErrPct_def mult.commute [of _ 20])
  qed
  have none: "length (filterFalse samples p) = 0 \<longleftrightarrow> list_all p samples" for p
    by (auto simp: filterFalse_def list_all_iff filter_empty_conv)
  show ?thesis by (auto simp: checkSamples_def rbind_unit checkInvariant_pure tolerance none simp del: length_0_conv)
qed

lemma mongod_single_sample:
  "checkSamples [st] False = Inr () \<longleftrightarrow>
     allCountsNonNegative st \<and> activePlusInactiveEqualsOpen st \<and> committedPlusAbortedPlusOpenEqualsStarted st \<and>
     preparedEqualsTotalPrepared st \<and> unpreparedEqualsTotalUnprepared st"
  by (auto simp: mongod_check_exact filterFalse_def)

section \<open>Configurations\<close>

definition extendMetrics :: "jsval \<Rightarrow> jsval \<Rightarrow> jsval result" where
  "extendMetrics config super = Inr (
     set_prop ''transitions'' (JObj [
        (''init'', weightTable [(''update'', 9 / 10), (''checkInvariants'', 1 / 10)]),
        (''update'', weightTable [(''update'', 8 / 10), (''checkInvariants'', 1 / 10), (''causalRead'', 1 / 10)]),
        (''checkInvariants'', weightTable [(''update'', 9 / 10), (''causalRead'', 1 / 10)]),
        (''causalRead'', weightTable [(''update'', 1)])])
     (inField ''states'' (set_prop ''checkInvariants'' (JFun ''checkInvariants'' 2))
     (set_prop ''teardown'' (JFun ''teardown'' 3) (set_prop ''setup'' (JFun ''setup'' 3) config))))"

definition extendServerStatusMongos :: "jsval \<Rightarrow> jsval \<Rightarrow> jsval result" where
  "extendServerStatusMongos config super = Inr (
     set_prop ''transitions'' (JObj [
        (''init'', weightTable [(''update'', 8 / 10), (''checkConsistency'', 1 / 10), (''verifyServerStatus'', 1 / 10)]),
        (''update'', weightTable [(''update'', 7 / 10), (''checkConsistency'', 1 / 10), (''causalRead'', 1 / 10), (''verifyServerStatus'', 1 / 10)]),
        (''checkConsistency'', weightTable [(''update'', 9 / 10), (''verifyServerStatus'', 1 / 10)]),
        (''causalRead'', weightTable [(''update'', 9 / 10), (''verifyServerStatus'', 1 / 10)]),
        (''verifyServerStatus'', weightTable [(''update'', 8 / 10), (''checkConsistency'', 1 / 10), (''causalRead'', 1 / 10)])])
     (inField ''states'' (set_prop ''verifyServerStatus'' (JFun ''verifyServerStatus'' 2))
     (set_prop ''teardown'' (JFun ''teardown'' 3) config)))"

lemma metrics_configs_parse:
  "list_all (\<lambda>ext. case rbind (extendWorkload [atomicityConfig, JFun ''callback'' 2] (JFun ''callback'' 2) ext) parseConfig of
     Inl _ \<Rightarrow> False | Inr _ \<Rightarrow> True) [extendMetrics, extendServerStatusMongos]"
  by code_simp

end
