(* ===== verification/Server_Types.thy ===== *)
theory Server_Types
  imports Shell Assert_Level
begin

text \<open>
  Questions about the server a workload talks to, \<open>fsm_workload_helpers/server_types.js\<close>, and the part of the environment the
  single-document workloads share: the three commands these questions are answered by, the global
  assertion level and the write mode of the connection.
\<close>

record 's stEnv =
  stShell :: shell
  stLevel :: assert_level                         \<comment> \<open>the global assertion level\<close>
  stIsMaster :: "('s, jsval) eff"                 \<comment> \<open>\<open>adminCommand('ismaster')\<close> on the session's client\<close>
  stAdminCommand :: "jsval \<Rightarrow> ('s, jsval) eff"
  stServerStatus :: "('s, jsval) eff"
  stWriteMode :: string                           \<comment> \<open>\<open>db.getMongo().writeMode()\<close>\<close>

definition stWhenOwnColl :: "('s, 'x) stEnv_scheme \<Rightarrow> ('s, unit) eff \<Rightarrow> ('s, unit) eff" where
  "stWhenOwnColl env check = (if compareTo OWN_COLL (stLevel env) > 0 then ret () else check)"

definition isMongos :: "('s, 'x) stEnv_scheme \<Rightarrow> ('s, bool) eff" where
  "isMongos env =
     bindE (stIsMaster env) (\<lambda>res.
     seqE (checkE (commandWorked (stShell env) res)) (ret (fld res ''msg'' = JStr ''isdbgrid'')))"

definition isMongod :: "('s, 'x) stEnv_scheme \<Rightarrow> ('s, bool) eff" where
  "isMongod env = bindE (isMongos env) (\<lambda>b. ret (\<not> b))"

text \<open>The value of the chain of conjunctions is tested for truth by its callers.\<close>

definition isMongodConfigsvr :: "('s, 'x) stEnv_scheme \<Rightarrow> ('s, bool) eff" where
  "isMongodConfigsvr env =
     bindE (isMongod env) (\<lambda>mongod.
     if \<not> mongod then ret False
     else bindE (stAdminCommand env (JStr ''getCmdLineOpts'')) (\<lambda>res.
          seqE (checkE (commandWorked (stShell env) res))
          (ret (truthy (fld res ''parsed'') \<and> truthy (fld (fld res ''parsed'') ''sharding'') \<and>
                fld (fld (fld res ''parsed'') ''sharding'') ''clusterRole'' = JStr ''configsvr''))))"

text \<open>The section of the storage engine in the server's status; \<open>getStorageEngineName\<close> and \<open>supportsCommittedReads\<close> read it alike.\<close>

definition storageEngine :: "('s, 'x) stEnv_scheme \<Rightarrow> ('s, jsval) eff" where
  "storageEngine env =
     bindE (stServerStatus env) (\<lambda>status.
     seqE (checkE (commandWorked (stShell env) status))
    (bindE (isMongod env) (\<lambda>mongod.
     seqE (assertE mongod ''no storage engine is reported when connected to mongos'')
    (seqE (assertE (typeof (fld status ''storageEngine'') \<noteq> ''undefined'') ''missing storage engine info in server status'')
     (ret (fld status ''storageEngine''))))))"

definition getStorageEngineName :: "('s, 'x) stEnv_scheme \<Rightarrow> ('s, jsval) eff" where
  "getStorageEngineName env = bindE (storageEngine env) (\<lambda>e. liftE (get_prop e ''name''))"

definition isWiredTiger :: "('s, 'x) stEnv_scheme \<Rightarrow> ('s, bool) eff" where
  "isWiredTiger env = bindE (getStorageEngineName env) (\<lambda>engine. ret (engine = JStr ''wiredTiger''))"

definition isEphemeralForTest :: "('s, 'x) stEnv_scheme \<Rightarrow> ('s, bool) eff" where
  "isEphemeralForTest env = bindE (getStorageEngineName env) (\<lambda>engine. ret (engine = JStr ''ephemeralForTest''))"

definition isEphemeral :: "('s, 'x) stEnv_scheme \<Rightarrow> ('s, bool) eff" where
  "isEphemeral env =
     bindE (getStorageEngineName env) (\<lambda>engine. ret (engine = JStr ''inMemory'' \<or> engine = JStr ''ephemeralForTest''))"

definition supportsDocumentLevelConcurrency :: "('s, 'x) stEnv_scheme \<Rightarrow> ('s, bool) eff" where
  "supportsDocumentLevelConcurrency env =
     bindE (getStorageEngineName env) (\<lambda>engine. ret (engine \<in> JStr ` {''wiredTiger'', ''rocksdb'', ''inMemory''}))"

definition supportsCommittedReads :: "('s, 'x) stEnv_scheme \<Rightarrow> ('s, jsval) eff" where
  "supportsCommittedReads env = bindE (storageEngine env) (\<lambda>e. liftE (get_prop e ''supportsCommittedReads''))"

text \<open>\<open>isMongod(db) && supportsDocumentLevelConcurrency(db)\<close>, the condition the workloads ask.\<close>

definition retriesConflicts :: "('s, 'x) stEnv_scheme \<Rightarrow> ('s, bool) eff" where
  "retriesConflicts env = bindE (isMongod env) (\<lambda>mongod. if mongod then supportsDocumentLevelConcurrency env else ret False)"

section \<open>Lemmas\<close>

text \<open>What the three commands leave unchanged, the questions do.\<close>

definition asksQuietly :: "('s \<Rightarrow> bool) \<Rightarrow> ('s, 'x) stEnv_scheme \<Rightarrow> bool" where
  "asksQuietly I env \<longleftrightarrow> keeps I (stIsMaster env) \<and> keeps I (stServerStatus env) \<and> (\<forall>cmd. keeps I (stAdminCommand env cmd))"

lemma retriesConflicts_keeps [keeps_rules]: "asksQuietly I env \<Longrightarrow> keeps I (retriesConflicts env)"
  by (auto simp: asksQuietly_def retriesConflicts_def isMongod_def isMongos_def supportsDocumentLevelConcurrency_def
      getStorageEngineName_def storageEngine_def intro!: keeps_rules)

lemma stWhenOwnColl_keeps [keeps_rules]: "keeps I check \<Longrightarrow> keeps I (stWhenOwnColl env check)"
  by (simp add: stWhenOwnColl_def keeps_ret)

text \<open>A mongos never reports a storage engine: asking it for one fails, so the storage engine is asked for on a mongod only.\<close>

lemma engine_only_on_mongod:
  assumes "getStorageEngineName env s = (Val name, t)"
  shows "\<exists>s1 s2. isMongod env s1 = (Val True, s2)"
  using assms unfolding getStorageEngineName_def storageEngine_def bindE_Val seqE_Val assertE_Val by (metis (full_types))

text \<open>A server that answers as a mongod with a given storage engine, for concrete runs.\<close>

definition mongodEnv :: "string \<Rightarrow> 's stEnv" where
  "mongodEnv engine = \<lparr>
     stShell = exampleShell, stLevel = OWN_DB, stIsMaster = ret (JObj [(''ok'', jnum 1)]), stAdminCommand = (\<lambda>_. ret (JObj [(''ok'', jnum 1)])),
     stServerStatus = ret (JObj [(''ok'', jnum 1), (''storageEngine'', JObj [(''name'', JStr engine)])]), stWriteMode = ''commands''\<rparr>"

end
