(* ===== verification/Counter_Workloads.thy ===== *)
theory Counter_Workloads
  imports Server_Types Parse_Config
begin

text \<open>
  The workloads in which every thread counts its own increments of a field of a shared document: \<open>findAndModify_inc.js\<close>,
  \<open>update_inc.js\<close> and \<open>update_ordered_bulk_inc.js\<close>, their variants with a pipeline update, and the modifier
  \<open>fsm_workload_modifiers/make_capped.js\<close> that \<open>update_inc_capped.js\<close> applies.  A thread's count is the value of its state
  functions; the threads' calls interleave.
\<close>

section \<open>The workloads\<close>

record 's cwEnv = "'s stEnv" +
  cwRunCommand :: "jsval \<Rightarrow> ('s, jsval) eff"
  cwUpdate :: "jsval \<Rightarrow> jsval \<Rightarrow> ('s, jsval) eff"               \<comment> \<open>\<open>db[collName].update(query, update)\<close>, a write result\<close>
  cwBulkUpdate :: "(jsval \<times> jsval) list \<Rightarrow> ('s, nat) eff"         \<comment> \<open>an ordered bulk, executed: the number of its write errors\<close>
  cwFindAll :: "('s, jsval list) eff"
  cwInsert :: "jsval \<Rightarrow> ('s, jsval) eff"
  cwCollName :: string

text \<open>\<open>'t' + this.tid\<close>\<close>

definition fieldName :: "nat \<Rightarrow> string" where
  "fieldName tid = ''t'' @ show_nat tid"

definition incArgument :: "string \<Rightarrow> jsval" where
  "incArgument field = JObj [(''$inc'', JObj [(field, jnum 1)])]"

text \<open>The pipelines of \<open>findAndModify_inc_pipeline.js\<close> and \<open>update_inc_pipeline.js\<close>.\<close>

definition addFieldsArgument :: "string \<Rightarrow> jsval" where
  "addFieldsArgument field = JArr [JObj [(''$addFields'', JObj [(field, JObj [(''$add'', JArr [JStr (''$'' @ field), jnum 1])])])]]"

definition setArgument :: "string \<Rightarrow> jsval" where
  "setArgument field = JArr [JObj [(''$set'', JObj [(field, JObj [(''$add'', JArr [JStr (''$'' @ field), jnum 1])])])]]"

definition fam_update :: "'s cwEnv \<Rightarrow> (string \<Rightarrow> jsval) \<Rightarrow> string \<Rightarrow> nat \<Rightarrow> ('s, nat) eff" where
  "fam_update env getUpdateArgument field n =
     bindE (cwRunCommand env (JObj [(''findAndModify'', JStr (cwCollName env)), (''query'', JObj [(''_id'', JStr ''findAndModify_inc'')]),
                                    (''update'', getUpdateArgument field)])) (\<lambda>res.
     seqE (checkE (commandWorked (stShell env) res))
    (bindE (retriesConflicts env) (\<lambda>retries.
     seqE (if retries then stWhenOwnColl env (assertE (fld res ''value'' \<noteq> Null) ''query spec should have matched a document'') else ret ())
     (ret (if fld res ''value'' \<noteq> Null then n + 1 else n)))))"

definition inc_update :: "'s cwEnv \<Rightarrow> (string \<Rightarrow> jsval) \<Rightarrow> string \<Rightarrow> string \<Rightarrow> nat \<Rightarrow> ('s, nat) eff" where
  "inc_update env getUpdateArgument docId field n =
     bindE (cwUpdate env (JObj [(''_id'', JStr docId)]) (getUpdateArgument field)) (\<lambda>res.
     seqE (assertE (fld res ''nUpserted'' = jnum 0) ''are not equal'')
    (bindE (retriesConflicts env) (\<lambda>retries.
     seqE (if retries
           then seqE (stWhenOwnColl env (assertE (fld res ''nMatched'' = jnum 1) ''are not equal''))
                     (if stWriteMode env = ''commands'' then stWhenOwnColl env (assertE (fld res ''nModified'' = jnum 1) ''are not equal'') else ret ())
           else seqE (stWhenOwnColl env (assertE (fld res ''nMatched'' \<in> {jnum 0, jnum 1}) ''does not contain''))
                     (if stWriteMode env = ''commands''
                      then seqE (stWhenOwnColl env (assertE (fld res ''nModified'' \<in> {jnum 0, jnum 1}) ''does not contain''))
                                (assertE (fld res ''nModified'' = fld res ''nMatched'') ''are not equal'')
                      else ret ()))
     (ret (if \<not> num_less (to_number (fld res ''nMatched'')) (Fin 1) \<and> to_number (fld res ''nMatched'') \<noteq> NaN then n + 1 else n)))))"

text \<open>The state \<open>find\<close> of both: the only document has the thread's count in its field.\<close>

definition inc_find :: "'s cwEnv \<Rightarrow> string \<Rightarrow> nat \<Rightarrow> ('s, unit) eff" where
  "inc_find env field n =
     bindE (cwFindAll env) (\<lambda>docs.
     seqE (stWhenOwnColl env (assertE (length docs = 1) ''are not equal''))
     (stWhenOwnColl env
       (case docs of
          [] \<Rightarrow> raise (TypeErr ''doc is undefined'')
        | doc # _ \<Rightarrow>
            if has_own doc field then stWhenOwnColl env (assertE (jnum (int n) = fld doc field) ''are not equal'')
            else stWhenOwnColl env (assertE (n = 0) ''are not equal''))))"

definition initialDoc :: "string \<Rightarrow> nat \<Rightarrow> jsval" where
  "initialDoc docId threadCount = JObj ((''_id'', JStr docId) # map (\<lambda>i. (fieldName i, jnum 0)) [0..<threadCount])"

definition inc_setup :: "'s cwEnv \<Rightarrow> string \<Rightarrow> nat \<Rightarrow> ('s, unit) eff" where
  "inc_setup env docId threadCount = bindE (cwInsert env (initialDoc docId threadCount)) (\<lambda>_. ret ())"

text \<open>The bulk variant increments the field in every document.\<close>

definition bulk_update :: "'s cwEnv \<Rightarrow> nat \<Rightarrow> string \<Rightarrow> nat \<Rightarrow> ('s, nat) eff" where
  "bulk_update env docCount field n =
     bindE (cwBulkUpdate env (map (\<lambda>i. (JObj [(''_id'', jnum (int i))], incArgument field)) [0..<docCount])) (\<lambda>writeErrors.
     seqE (assertE (writeErrors = 0) ''are not equal'') (ret (n + 1)))"

definition num_le :: "jsnum \<Rightarrow> jsnum \<Rightarrow> bool" where
  "num_le a b \<longleftrightarrow> a \<noteq> NaN \<and> b \<noteq> NaN \<and> \<not> num_less b a"

definition bulk_find :: "'s cwEnv \<Rightarrow> nat \<Rightarrow> string \<Rightarrow> nat \<Rightarrow> ('s, unit) eff" where
  "bulk_find env docCount field n =
     bindE (cwFindAll env) (\<lambda>docs.
     seqE (stWhenOwnColl env (assertE (docCount = length docs) ''are not equal''))
    (bindE (retriesConflicts env) (\<lambda>retries.
     seqE (if retries then forEachE (\<lambda>doc. stWhenOwnColl env (assertE (jnum (int n) = fld doc field) ''are not equal'')) docs else ret ())
     (forEachE (\<lambda>doc.
        seqE (if has_own doc field then stWhenOwnColl env (assertE (num_le (to_number (fld doc field)) (Fin (of_nat n))) ''is not less than or eq'') else ret ())
             (stWhenOwnColl env (assertE (num_less (to_number (fld doc ''_id'')) (Fin (of_nat docCount))) ''is not less than''))) docs))))"

definition bulk_setup :: "'s cwEnv \<Rightarrow> nat \<Rightarrow> ('s, unit) eff" where
  "bulk_setup env docCount = forEachE (\<lambda>i. bindE (cwInsert env (JObj [(''_id'', jnum (int i))])) (\<lambda>_. ret ())) [0..<docCount]"

section \<open>Capped collections\<close>

text \<open>
  The modifier: the set-up replaces the collection, and the state \<open>find\<close> runs with the global assertion level lowered.  The
  level is part of the state here, since the state function changes it and puts it back.
\<close>

definition capped_setup ::
  "assert_level \<Rightarrow> shell \<Rightarrow> ('s, unit) eff \<Rightarrow> (jsval \<Rightarrow> ('s, jsval) eff) \<Rightarrow> ('s, unit) eff \<Rightarrow> ('s, unit) eff" where
  "capped_setup lvl sh dropColl createCollection superSetup =
     seqE (if compareTo OWN_COLL lvl > 0 then ret ()
           else seqE dropColl (bindE (createCollection (JObj [(''capped'', JBool True), (''size'', jnum 16384)])) (\<lambda>res. checkE (commandWorked sh res))))
     superSetup"

definition mentionsCappedPositionLost :: "exn \<Rightarrow> bool" where
  "mentionsCappedPositionLost e =
     (case fld (exn_obj e) ''message'' of JStr m \<Rightarrow> \<exists>i \<le> length m. take 18 (drop i m) = ''CappedPositionLost'' | _ \<Rightarrow> False)"

definition capped_find :: "('m assert_globals_scheme, unit) eff \<Rightarrow> ('m assert_globals_scheme, unit) eff" where
  "capped_find superFind =
     bindE (getE globalAssertLevel) (\<lambda>oldAssertLevel.
     tryFinally
       (tryCatch (seqE (modE (globalAssertLevel_update (\<lambda>_. ALWAYS))) superFind)
          (\<lambda>e. if mentionsCappedPositionLost e then ret () else raise e))
       (modE (globalAssertLevel_update (\<lambda>_. oldAssertLevel))))"

lemma capped_find_restores:
  assumes "fst (capped_find m s) \<noteq> Diverge"
  shows "globalAssertLevel (snd (capped_find m s)) = globalAssertLevel s"
  using assms
  by (auto simp: capped_find_def bindE_def seqE_def getE_def modE_def tryFinally_def tryCatch_def ret_def raise_def
      split: prod.splits outcome.splits if_splits)

section \<open>Counting is exact\<close>

text \<open>
  What a server does with an update of one field of the shared document, whoever sends it: the field goes up by one when the
  document was matched, and no other field changes.  \<open>field s k\<close> is the value of field \<open>k\<close>.
\<close>

definition incLaw :: "('s \<Rightarrow> string \<Rightarrow> int) \<Rightarrow> string \<Rightarrow> (jsval \<Rightarrow> bool) \<Rightarrow> ('s, jsval) eff \<Rightarrow> bool" where
  "incLaw field k matched m \<longleftrightarrow> (\<forall>s r t. m s = (r, t) \<longrightarrow>
     (\<forall>k'. k' \<noteq> k \<longrightarrow> field t k' = field s k') \<and>
     (\<forall>res. r = Val res \<longrightarrow> field t k = (if matched res then field s k + 1 else field s k)))"

definition matchedOne :: "jsval \<Rightarrow> bool" where
  "matchedOne res \<longleftrightarrow> \<not> num_less (to_number (fld res ''nMatched'')) (Fin 1) \<and> to_number (fld res ''nMatched'') \<noteq> NaN"

text \<open>
  What the reading operations show and change: a read that returns shows the one document there is, with the current values of the threads'
  fields; a field that has never been written may be missing.
\<close>

definition readLaw :: "('s \<Rightarrow> string \<Rightarrow> int) \<Rightarrow> nat \<Rightarrow> 's cwEnv \<Rightarrow> bool" where
  "readLaw field threadCount env \<longleftrightarrow>
     (\<forall>f. asksQuietly (\<lambda>s. field s = f) env) \<and>
     (\<forall>s r t. cwFindAll env s = (r, t) \<longrightarrow> field t = field s \<and>
        (\<forall>docs. r = Val docs \<longrightarrow> (\<exists>doc. docs = [doc] \<and> (\<forall>i < threadCount.
           if has_own doc (fieldName i) then fld doc (fieldName i) = jnum (field s (fieldName i)) else field s (fieldName i) = 0))))"

text \<open>One call of a state by one of the threads: the counts of the threads are a function.\<close>

inductive threadStep :: "(string \<Rightarrow> nat \<Rightarrow> ('s, nat) eff) \<Rightarrow> (string \<Rightarrow> nat \<Rightarrow> ('s, unit) eff) \<Rightarrow> nat \<Rightarrow>
    's \<times> (nat \<Rightarrow> nat) \<Rightarrow> 's \<times> (nat \<Rightarrow> nat) \<Rightarrow> bool" for updateState findState threadCount where
  updateStep: "tid < threadCount \<Longrightarrow> updateState (fieldName tid) (counts tid) s = (Val n, t) \<Longrightarrow>
     threadStep updateState findState threadCount (s, counts) (t, counts(tid := n))"
| findStep: "tid < threadCount \<Longrightarrow> findState (fieldName tid) (counts tid) s = (Val (), t) \<Longrightarrow>
     threadStep updateState findState threadCount (s, counts) (t, counts)"

inductive_cases threadStepE: "threadStep updateState findState threadCount (s, counts) c"

text \<open>Every thread's count is the value of its field.\<close>

definition countsExact :: "('s \<Rightarrow> string \<Rightarrow> int) \<Rightarrow> nat \<Rightarrow> 's \<times> (nat \<Rightarrow> nat) \<Rightarrow> bool" where
  "countsExact field threadCount = (\<lambda>(s, counts). \<forall>tid < threadCount. field s (fieldName tid) = int (counts tid))"

lemma fieldName_inj [simp]: "fieldName i = fieldName j \<longleftrightarrow> i = j"
  by (simp add: fieldName_def)

lemma retries_field:
  assumes "\<And>f. asksQuietly (\<lambda>s. field s = f) env" and "retriesConflicts env s = (r, t)"
  shows "field t = field s"
  using keepsD [OF retriesConflicts_keeps [OF assms(1)], of s "field s"] assms(2) by simp

lemma stWhenOwnColl_assert_Val: "stWhenOwnColl env (assertE c msg) s = (Val u, t) \<Longrightarrow> t = s"
  by (auto simp: stWhenOwnColl_def assertE_def ret_def raise_def split: if_splits)

lemma fam_update_counts:
  assumes "\<And>f. asksQuietly (\<lambda>s. field s = f) env"
    and "\<And>cmd. fld cmd ''update'' = getUpdateArgument k \<Longrightarrow> incLaw field k (\<lambda>res. fld res ''value'' \<noteq> Null) (cwRunCommand env cmd)"
    and "fam_update env getUpdateArgument k n s = (Val n', t)"
  shows "(\<forall>k'. k' \<noteq> k \<longrightarrow> field t k' = field s k') \<and> field t k - int n' = field s k - int n"
proof -
  let ?cmd = "JObj [(''findAndModify'', JStr (cwCollName env)), (''query'', JObj [(''_id'', JStr ''findAndModify_inc'')]), (''update'', getUpdateArgument k)]"
  obtain res s1 b s2 where cmd: "cwRunCommand env ?cmd s = (Val res, s1)"
    and retry: "retriesConflicts env s1 = (Val b, s2)" and t: "t = s2" and n': "n' = (if fld res ''value'' \<noteq> Null then n + 1 else n)"
    using assms(3) by (auto simp: fam_update_def bindE_Val seqE_Val checkE_Val ret_Val dest!: stWhenOwnColl_assert_Val split: if_splits)
  have "field t = field s1" using retries_field [OF assms(1) retry] t by simp
  moreover have "fld ?cmd ''update'' = getUpdateArgument k" by (simp add: fld_def)
  ultimately show ?thesis using assms(2) [of ?cmd] cmd n' unfolding incLaw_def by fastforce
qed

lemma inc_update_counts:
  assumes "\<And>f. asksQuietly (\<lambda>s. field s = f) env"
    and "\<And>q. incLaw field k matchedOne (cwUpdate env q (getUpdateArgument k))"
    and "inc_update env getUpdateArgument docId k n s = (Val n', t)"
  shows "(\<forall>k'. k' \<noteq> k \<longrightarrow> field t k' = field s k') \<and> field t k - int n' = field s k - int n"
proof -
  obtain res s1 b s2 where cmd: "cwUpdate env (JObj [(''_id'', JStr docId)]) (getUpdateArgument k) s = (Val res, s1)"
    and retry: "retriesConflicts env s1 = (Val b, s2)" and t: "t = s2" and n': "n' = (if matchedOne res then n + 1 else n)"
    using assms(3)
    by (auto simp: inc_update_def matchedOne_def bindE_Val seqE_Val assertE_Val ret_Val dest!: stWhenOwnColl_assert_Val split: if_splits)
  have "field t = field s1" using retries_field [OF assms(1) retry] t by simp
  then show ?thesis using assms(2) [of "JObj [(''_id'', JStr docId)]"] cmd n' unfolding incLaw_def by fastforce
qed

lemma map_of_fields: "i < n \<Longrightarrow> map_of (map (\<lambda>i. (fieldName i, g i)) [0..<n]) (fieldName i) = Some (g i)"
  by (induction n) (auto simp: map_add_Some_iff less_Suc_eq map_of_eq_None_iff)

lemma inc_find_passes:
  assumes "readLaw field threadCount env" and "tid < threadCount" and "field s (fieldName tid) = int n" and "cwFindAll env s = (Val docs, t)"
  shows "inc_find env (fieldName tid) n s = (Val (), t)"
proof -
  obtain doc where "docs = [doc]" "if has_own doc (fieldName tid) then fld doc (fieldName tid) = jnum (int n) else int n = 0"
    using assms unfolding readLaw_def by metis
  then show ?thesis using assms(4)
    by (cases "has_own doc (fieldName tid)") (simp_all add: inc_find_def bindE_def seqE_def stWhenOwnColl_def assertE_def ret_def)
qed

lemma inc_find_field: "readLaw field threadCount env \<Longrightarrow> inc_find env k n s = (Val (), t) \<Longrightarrow> field t = field s"
  unfolding readLaw_def
  by (auto simp: inc_find_def bindE_Val seqE_Val raise_def stWhenOwnColl_def assertE_def ret_def split: if_splits list.splits)

text \<open>The interleaving argument, for any update that counts what it does to its own field and to no other.\<close>

definition countsField :: "('s \<Rightarrow> string \<Rightarrow> int) \<Rightarrow> (string \<Rightarrow> nat \<Rightarrow> ('s, nat) eff) \<Rightarrow> bool" where
  "countsField field updateState \<longleftrightarrow> (\<forall>k n s n' t. updateState k n s = (Val n', t) \<longrightarrow>
     (\<forall>k'. k' \<noteq> k \<longrightarrow> field t k' = field s k') \<and> field t k - int n' = field s k - int n)"

lemma threadStep_exact:
  assumes "countsField field updateState" and "readLaw field threadCount env"
    and "threadStep updateState (inc_find env) threadCount c c'" and "countsExact field threadCount c"
  shows "countsExact field threadCount c'"
  using assms(3,4)
proof (cases rule: threadStep.cases)
  case (updateStep tid counts s n t)
  have "(\<forall>k'. k' \<noteq> fieldName tid \<longrightarrow> field t k' = field s k') \<and> field t (fieldName tid) - int n = field s (fieldName tid) - int (counts tid)"
    using assms(1) updateStep(4) unfolding countsField_def by blast
  then show ?thesis using assms(4) updateStep by (auto simp: countsExact_def)
next
  case (findStep tid counts s t)
  then show ?thesis using assms(4) inc_find_field [OF assms(2) findStep(4)] by (simp add: countsExact_def)
qed

lemma interleaving_exact:
  assumes "countsField field updateState" and "readLaw field threadCount env"
    and "(threadStep updateState (inc_find env) threadCount)\<^sup>*\<^sup>* c (s, counts)" and "countsExact field threadCount c"
    and "tid < threadCount" and "cwFindAll env s = (Val docs, t)"
  shows "inc_find env (fieldName tid) (counts tid) s = (Val (), t)"
proof -
  have "countsExact field threadCount (s, counts)"
    using assms(3,4) by (induction rule: rtranclp_induct) (auto intro: threadStep_exact [OF assms(1,2)])
  then show ?thesis using inc_find_passes [OF assms(2,5) _ assms(6)] assms(5) by (simp add: countsExact_def)
qed

text \<open>
  C37. No increment is lost or counted twice.  Whatever interleaving of calls of \<open>update\<close> and \<open>find\<close> the threads of \<open>update_inc.js\<close> made, from a state in
  which every thread's count is the value of its field, \<open>find\<close> does not fail for any thread whose read returns: it shows the thread's count.
  Relied on is that the server adds one to the named field of a document it reports as matched, leaves it alone if it reports none
  and never touches the other fields, that asking for the type of the server changes no field, and that a read returns exactly one document, with the current
  values of the fields (a field may be missing while its value is zero).  The threads do not disturb one another because their field names differ.
\<close>

theorem increments_counted:
  assumes "\<And>k q. incLaw field k matchedOne (cwUpdate env q (getUpdateArgument k))" and "readLaw field threadCount env"
    and "(threadStep (inc_update env getUpdateArgument docId) (inc_find env) threadCount)\<^sup>*\<^sup>* c (s, counts)" and "countsExact field threadCount c"
    and "tid < threadCount" and "cwFindAll env s = (Val docs, t)"
  shows "inc_find env (fieldName tid) (counts tid) s = (Val (), t)"
proof (rule interleaving_exact [OF _ assms(2-6)])
  have "asksQuietly (\<lambda>s. field s = f) env" for f using assms(2) by (simp add: readLaw_def)
  then show "countsField field (inc_update env getUpdateArgument docId)"
    unfolding countsField_def by (intro allI impI, rule inc_update_counts [of field env _ getUpdateArgument docId]) (auto intro: assms(1))
qed

lemma findAndModify_increments_counted:
  assumes "\<And>k cmd. fld cmd ''update'' = getUpdateArgument k \<Longrightarrow> incLaw field k (\<lambda>res. fld res ''value'' \<noteq> Null) (cwRunCommand env cmd)"
    and "readLaw field threadCount env"
    and "(threadStep (fam_update env getUpdateArgument) (inc_find env) threadCount)\<^sup>*\<^sup>* c (s, counts)" and "countsExact field threadCount c"
    and "tid < threadCount" and "cwFindAll env s = (Val docs, t)"
  shows "inc_find env (fieldName tid) (counts tid) s = (Val (), t)"
proof (rule interleaving_exact [OF _ assms(2-6)])
  have "asksQuietly (\<lambda>s. field s = f) env" for f using assms(2) by (simp add: readLaw_def)
  then show "countsField field (fam_update env getUpdateArgument)"
    unfolding countsField_def by (intro allI impI, rule fam_update_counts [of field env getUpdateArgument]) (auto intro: assms(1))
qed

section \<open>Configurations\<close>

definition incConfig :: "(string \<times> jsval) list \<Rightarrow> int \<Rightarrow> jsval" where
  "incConfig data threadCount = JObj [
     (''threadCount'', jnum threadCount), (''iterations'', jnum 20), (''data'', JObj data),
     (''states'', JObj [(''init'', JFun ''init'' 2), (''update'', JFun ''update'' 2), (''find'', JFun ''find'' 2)]),
     (''transitions'', JObj [(''init'', JObj [(''update'', jnum 1)]), (''update'', JObj [(''find'', jnum 1)]), (''find'', JObj [(''update'', jnum 1)])]),
     (''setup'', JFun ''setup'' 3)]"

definition findAndModifyIncConfig :: jsval where
  "findAndModifyIncConfig = incConfig [(''getUpdateArgument'', JFun ''getUpdateArgument'' 1)] 20"

definition updateIncConfig :: jsval where
  "updateIncConfig = incConfig [(''id'', JStr ''update_inc''), (''getUpdateArgument'', JFun ''getUpdateArgument'' 1)] 10"

definition bulkIncConfig :: jsval where
  "bulkIncConfig = incConfig [(''docCount'', jnum 15)] 10"

text \<open>The callbacks of the pipeline variants; the second writes a property \<open>update_inc\<close>.\<close>

definition extendFamPipeline :: "jsval \<Rightarrow> jsval \<Rightarrow> jsval result" where
  "extendFamPipeline config super =
     Inr (inField ''data'' (set_prop ''getUpdateArgument'' (JFun ''getUpdateArgument'' 1)) config)"

definition extendIncPipeline :: "jsval \<Rightarrow> jsval \<Rightarrow> jsval result" where
  "extendIncPipeline config super =
     Inr (inField ''data'' (\<lambda>dt. set_prop ''update_inc'' (JStr ''update_inc_pipeline'')
       (set_prop ''getUpdateArgument'' (JFun ''getUpdateArgument'' 1) dt)) config)"

definition extendCapped :: "jsval \<Rightarrow> jsval \<Rightarrow> jsval result" where
  "extendCapped config super =
    (let config = set_prop ''setup'' (JFun ''setup'' 3) config in
     Inr (if truthy (fld (fld super ''states'') ''find'')
          then inField ''states'' (set_prop ''find'' (JFun ''find'' 2)) config else config))"

lemma inc_configs_parse:
  "list_all (\<lambda>c. case rbind c parseConfig of Inl _ \<Rightarrow> False | Inr _ \<Rightarrow> True)
     [Inr findAndModifyIncConfig, Inr updateIncConfig, Inr bulkIncConfig,
      extendWorkload [findAndModifyIncConfig, JFun ''callback'' 2] (JFun ''callback'' 2) extendFamPipeline,
      extendWorkload [updateIncConfig, JFun ''callback'' 2] (JFun ''callback'' 2) extendIncPipeline,
      extendWorkload [updateIncConfig, JFun ''makeCapped'' 2] (JFun ''makeCapped'' 2) extendCapped]"
  by code_simp

text \<open>
  The pipeline variant was meant to have a document of its own; the property it writes is not the one the workload reads, and it shares the
  document of \<open>update_inc.js\<close>.
\<close>

lemma pipeline_shares_document:
  "case extendWorkload [updateIncConfig, JFun ''callback'' 2] (JFun ''callback'' 2) extendIncPipeline of
     Inl _ \<Rightarrow> False | Inr c \<Rightarrow> fld (fld c ''data'') ''id'' = JStr ''update_inc''"
  by code_simp

section \<open>A concrete run\<close>

text \<open>A server with one document, its fields as a function; an increment always matches.\<close>

definition oneDocEnv :: "nat \<Rightarrow> (string \<Rightarrow> int) cwEnv" where
  "oneDocEnv threadCount = stEnv.extend (mongodEnv ''wiredTiger'') \<lparr>
     cwRunCommand = (\<lambda>_. ret (JObj [(''ok'', jnum 1), (''value'', Null)])),
     cwUpdate = (\<lambda>_ u s. (Val (JObj [(''nUpserted'', jnum 0), (''nMatched'', jnum 1), (''nModified'', jnum 1)]),
        case fld u ''$inc'' of JObj [(k, _)] \<Rightarrow> s(k := s k + 1) | _ \<Rightarrow> s)),
     cwBulkUpdate = (\<lambda>_. ret 0),
     cwFindAll = (\<lambda>s. (Val [JObj ((''_id'', JStr ''update_inc'') # map (\<lambda>i. (fieldName i, jnum (s (fieldName i)))) [0..<threadCount])], s)),
     cwInsert = (\<lambda>_. ret (JObj [])), cwCollName = ''coll''\<rparr>"

lemma oneDoc_inc: "incLaw (\<lambda>s. s) k matchedOne (cwUpdate (oneDocEnv n) q (incArgument k))"
  by (auto simp: incLaw_def oneDocEnv_def stEnv.defs incArgument_def fld_def matchedOne_def)

lemma oneDoc_read: "readLaw (\<lambda>s. s) n (oneDocEnv n)"
proof -
  let ?doc = "\<lambda>s. JObj ((''_id'', JStr ''update_inc'') # map (\<lambda>i. (fieldName i, jnum (s (fieldName i)))) [0..<n])"
  have "map_of (props (?doc s)) (fieldName i) = Some (jnum (s (fieldName i)))" if "i < n" for s i
    using map_of_fields [OF that, of "\<lambda>i. jnum (s (fieldName i))"] by (simp add: fieldName_def)
  then have "fld (?doc s) (fieldName i) = jnum (s (fieldName i))" "has_own (?doc s) (fieldName i)" if "i < n" for s i
    using that by (simp_all add: has_own_map_of fld_def)
  then show ?thesis by (auto simp: readLaw_def asksQuietly_def oneDocEnv_def mongodEnv_def stEnv.defs keeps_def ret_def)
qed

theorem increments_counted_witness:
  "inc_find (oneDocEnv 2) (fieldName 1) 1 ((\<lambda>_. 0)(fieldName 1 := 1)) = (Val (), (\<lambda>_. 0)(fieldName 1 := 1))"
proof -
  let ?u = "inc_update (oneDocEnv 2) incArgument ''update_inc''" and ?s = "(\<lambda>_. 0)(fieldName 1 := (1 :: int))"
  have "?u (fieldName 1) 0 (\<lambda>_. 0) = (Val 1, ?s)"
    by (simp add: inc_update_def oneDocEnv_def mongodEnv_def stEnv.defs incArgument_def retriesConflicts_def isMongod_def isMongos_def
        supportsDocumentLevelConcurrency_def getStorageEngineName_def storageEngine_def stWhenOwnColl_def level_defs js_simps fld_def
        exampleShell_def response_failed_def has_own_def obj_keys_def get_prop_def liftE_def ret_def bindE_def seqE_def checkE_def assertE_def)
  then have "threadStep ?u (inc_find (oneDocEnv 2)) 2 (\<lambda>_. 0, \<lambda>_. 0) (?s, (\<lambda>_. 0)(1 := 1))"
    using updateStep [of 1 2 ?u "\<lambda>_. 0" "\<lambda>_. 0" 1 ?s] by simp
  then have run: "(threadStep ?u (inc_find (oneDocEnv 2)) 2)\<^sup>*\<^sup>* (\<lambda>_. 0, \<lambda>_. 0) (?s, (\<lambda>_. 0)(1 := 1))" by simp
  have "countsExact (\<lambda>s. s) 2 (\<lambda>_. 0, \<lambda>_. 0)" by (simp add: countsExact_def)
  from increments_counted [OF oneDoc_inc oneDoc_read run this, of 1] show ?thesis by (simp add: oneDocEnv_def stEnv.defs)
qed

end
