(* ===== verification/Queue_Workloads.thy ===== *)
theory Queue_Workloads
  imports Server_Types Parse_Config "HOL-Library.List_Lexorder" "HOL-Library.Char_ord"
begin

text \<open>
  The workloads in which threads take documents off a shared queue with \<open>findAndModify\<close>: \<open>findAndModify_remove_queue.js\<close>,
  \<open>findAndModify_update_queue.js\<close>, \<open>findAndModify_mixed_queue_unindexed.js\<close> and the two variants without an index.  Every thread
  writes down what it took; the tear-down merges what the threads wrote down and looks for a document that two of them took.
  The ids are the natural numbers the set-up inserts.
\<close>

section \<open>The search for duplicates\<close>

text \<open>The smallest of the values at the threads' positions, with the threads that are at it.\<close>

definition smallerOf :: "'a::linorder list list \<Rightarrow> nat list \<Rightarrow> ('a \<times> nat list) option \<Rightarrow> nat \<Rightarrow> ('a \<times> nat list) option" where
  "smallerOf arrays indices acc i =
     (if indices ! i \<ge> length (arrays ! i) then acc
      else let val = arrays ! i ! (indices ! i) in
        case acc of
          None \<Rightarrow> Some (val, [i])
        | Some (smallestValue, smallestIndices) \<Rightarrow>
            if val < smallestValue then Some (val, [i])
            else if val = smallestValue then Some (smallestValue, smallestIndices @ [i])
            else acc)"

definition findSmallest :: "'a::linorder list list \<Rightarrow> nat list \<Rightarrow> ('a \<times> nat list) option" where
  "findSmallest arrays indices = foldl (smallerOf arrays indices) None [0..<length indices]"

text \<open>The threads with a value left, and the threads at a given value.\<close>

definition liveAt :: "'a list list \<Rightarrow> nat list \<Rightarrow> nat \<Rightarrow> bool" where
  "liveAt arrays indices i \<longleftrightarrow> indices ! i < length (arrays ! i)"

abbreviation headAt :: "'a list list \<Rightarrow> nat list \<Rightarrow> nat \<Rightarrow> 'a" where
  "headAt arrays indices i \<equiv> arrays ! i ! (indices ! i)"

lemma smallerOf_cases:
  "\<not> liveAt arrays indices i \<Longrightarrow> smallerOf arrays indices acc i = acc"
  "liveAt arrays indices i \<Longrightarrow> smallerOf arrays indices None i = Some (headAt arrays indices i, [i])"
  "liveAt arrays indices i \<Longrightarrow> headAt arrays indices i < v \<Longrightarrow> smallerOf arrays indices (Some (v, ixs)) i = Some (headAt arrays indices i, [i])"
  "liveAt arrays indices i \<Longrightarrow> headAt arrays indices i = v \<Longrightarrow> smallerOf arrays indices (Some (v, ixs)) i = Some (v, ixs @ [i])"
  "liveAt arrays indices i \<Longrightarrow> v < headAt arrays indices i \<Longrightarrow> smallerOf arrays indices (Some (v, ixs)) i = Some (v, ixs)"
  by (auto simp: smallerOf_def liveAt_def Let_def)

definition smallestUpto :: "'a::linorder list list \<Rightarrow> nat list \<Rightarrow> nat \<Rightarrow> ('a \<times> nat list) option \<Rightarrow> bool" where
  "smallestUpto arrays indices n r \<longleftrightarrow>
     (case r of
        None \<Rightarrow> \<forall>i < n. \<not> liveAt arrays indices i
      | Some (v, ixs) \<Rightarrow> ixs = filter (\<lambda>i. liveAt arrays indices i \<and> headAt arrays indices i = v) [0..<n] \<and> ixs \<noteq> [] \<and>
          (\<forall>i < n. liveAt arrays indices i \<longrightarrow> v \<le> headAt arrays indices i))"

lemma smallestUpto_step:
  assumes "smallestUpto arrays indices n r"
  shows "smallestUpto arrays indices (Suc n) (smallerOf arrays indices r n)"
proof (cases "liveAt arrays indices n")
  case False
  then show ?thesis using assms by (auto simp: smallestUpto_def smallerOf_cases less_Suc_eq split: option.splits)
next
  case live: True
  show ?thesis
  proof (cases r)
    case None
    then have "filter (\<lambda>i. liveAt arrays indices i \<and> P i) [0..<n] = []" for P using assms by (auto simp: smallestUpto_def filter_empty_conv)
    then show ?thesis using assms live None by (auto simp: smallestUpto_def smallerOf_cases less_Suc_eq)
  next
    case (Some vi)
    obtain v ixs where vi: "vi = (v, ixs)" by (cases vi)
    have smaller: "filter (\<lambda>i. liveAt arrays indices i \<and> headAt arrays indices i = w) [0..<n] = []" if "w < v" for w
      using assms Some vi that by (auto simp: smallestUpto_def filter_empty_conv)
    consider "headAt arrays indices n < v" | "headAt arrays indices n = v" | "v < headAt arrays indices n" by (rule linorder_cases)
    then show ?thesis
      by cases (use assms live Some vi smaller in \<open>auto simp: smallestUpto_def smallerOf_cases less_Suc_eq\<close>)
  qed
qed

lemma findSmallest_smallest: "smallestUpto arrays indices (length indices) (findSmallest arrays indices)"
proof -
  have "smallestUpto arrays indices n (foldl (smallerOf arrays indices) None [0..<n])" for n
  proof (induction n)
    case 0
    then show ?case by (simp add: smallestUpto_def)
  next
    case (Suc n)
    then show ?case using smallestUpto_step by simp
  qed
  then show ?thesis by (simp add: findSmallest_def)
qed

lemma findSmallest_None: "findSmallest arrays indices = None \<longleftrightarrow> (\<forall>i < length indices. \<not> liveAt arrays indices i)"
  using findSmallest_smallest [of arrays indices]
  by (fastforce simp: smallestUpto_def filter_empty_conv split: option.splits)

lemma findSmallest_Some:
  assumes "findSmallest arrays indices = Some (v, ixs)"
  shows "ixs = filter (\<lambda>i. liveAt arrays indices i \<and> headAt arrays indices i = v) [0..<length indices]" and "ixs \<noteq> []"
    and "i < length indices \<Longrightarrow> liveAt arrays indices i \<Longrightarrow> v \<le> headAt arrays indices i"
proof -
  have "ixs = filter (\<lambda>i. liveAt arrays indices i \<and> headAt arrays indices i = v) [0..<length indices] \<and> ixs \<noteq> [] \<and>
      (\<forall>i < length indices. liveAt arrays indices i \<longrightarrow> v \<le> headAt arrays indices i)"
    using findSmallest_smallest [of arrays indices] unfolding smallestUpto_def assms option.case prod.case .
  then show "ixs = filter (\<lambda>i. liveAt arrays indices i \<and> headAt arrays indices i = v) [0..<length indices]" and "ixs \<noteq> []"
    and "i < length indices \<Longrightarrow> liveAt arrays indices i \<Longrightarrow> v \<le> headAt arrays indices i" by blast+
qed

text \<open>The loop ends since each turn moves one thread's position on.\<close>

definition leftOver :: "'a list list \<Rightarrow> nat list \<Rightarrow> nat" where
  "leftOver arrays indices = (\<Sum>i < length indices. length (arrays ! i) - indices ! i)"

lemma leftOver_less:
  assumes "i < length indices" and "liveAt arrays indices i"
  shows "leftOver arrays (indices[i := Suc (indices ! i)]) < leftOver arrays indices"
  unfolding leftOver_def
proof (simp only: length_list_update, rule sum_strict_mono_ex1)
  show "\<exists>j \<in> {..<length indices}. length (arrays ! j) - indices[i := Suc (indices ! i)] ! j < length (arrays ! j) - indices ! j"
    using assms by (intro bexI [of _ i]) (simp_all add: liveAt_def)
qed (use assms in \<open>auto simp: nth_list_update diff_le_mono2\<close>)

function checkForDuplicateIds :: "bool \<Rightarrow> 'a::linorder list list \<Rightarrow> nat list \<Rightarrow> unit result" where
  "checkForDuplicateIds asserting ids indices =
     (case findSmallest ids indices of
        None \<Rightarrow> Inr ()
      | Some (val, smallestIndices) \<Rightarrow>
          if asserting \<and> length smallestIndices \<noteq> 1 then Inl (AssertFail ''threads claim the same document'')
          else let i = hd smallestIndices in checkForDuplicateIds asserting ids (indices[i := Suc (indices ! i)]))"
  by pat_completeness auto

termination
proof (relation "measure (\<lambda>(_, ids, indices). leftOver ids indices)")
  fix asserting :: bool and ids :: "'a list list" and indices r val smallestIndices i
  assume "findSmallest ids indices = Some r" "(val, smallestIndices) = r" "i = hd smallestIndices"
  then have some: "findSmallest ids indices = Some (val, smallestIndices)" and i: "i = hd smallestIndices" by auto
  have "i \<in> set smallestIndices" using findSmallest_Some(2) [OF some] i by simp
  then have "i < length indices \<and> liveAt ids indices i" using findSmallest_Some(1) [OF some] by auto
  then show "((asserting, ids, indices[i := Suc (indices ! i)]), asserting, ids, indices) \<in> measure (\<lambda>(_, ids, indices). leftOver ids indices)"
    using leftOver_less by auto
qed simp

declare checkForDuplicateIds.simps [simp del]

section \<open>What the search finds\<close>

text \<open>What thread \<open>i\<close> has left.\<close>

definition rest :: "'a list list \<Rightarrow> nat list \<Rightarrow> nat \<Rightarrow> 'a list" where
  "rest ids indices i = drop (indices ! i) (ids ! i)"

lemma live_rest: "liveAt ids indices i \<Longrightarrow> rest ids indices i = headAt ids indices i # drop (Suc (indices ! i)) (ids ! i)"
  by (simp add: rest_def liveAt_def Cons_nth_drop_Suc)

lemma not_live_rest: "\<not> liveAt ids indices i \<Longrightarrow> rest ids indices i = []"
  by (simp add: rest_def liveAt_def)

lemma rest_step:
  "i < length indices \<Longrightarrow> liveAt ids indices i \<Longrightarrow> j < length indices \<Longrightarrow>
   rest ids (indices[i := Suc (indices ! i)]) j = (if j = i then tl (rest ids indices i) else rest ids indices j)"
  by (auto simp: rest_def nth_list_update drop_Suc tl_drop)

definition disjointRests :: "'a list list \<Rightarrow> nat list \<Rightarrow> bool" where
  "disjointRests ids indices \<longleftrightarrow>
     (\<forall>i j. i < length indices \<longrightarrow> j < length indices \<longrightarrow> i \<noteq> j \<longrightarrow> set (rest ids indices i) \<inter> set (rest ids indices j) = {})"

text \<open>Over arrays in ascending order the smallest value is at the head of every array it occurs in.\<close>

lemma sorted_holder_is_head:
  assumes "findSmallest ids indices = Some (v, ixs)" and "\<forall>i < length indices. sorted (rest ids indices i)"
    and "j < length indices" and "v \<in> set (rest ids indices j)"
  shows "j \<in> set ixs"
proof -
  have live: "liveAt ids indices j" using assms(4) not_live_rest by fastforce
  have "headAt ids indices j \<le> v"
    using assms(2-4) live_rest [OF live] by (metis order_refl set_ConsD sorted_simps(2))
  then have "headAt ids indices j = v" using findSmallest_Some(3) [OF assms(1,3) live] by simp
  then show ?thesis using findSmallest_Some(1) [OF assms(1)] live assms(3) by simp
qed

lemma duplicates_step:
  assumes "findSmallest ids indices = Some (v, [i])" and "\<forall>i < length indices. sorted (rest ids indices i)"
  shows "disjointRests ids (indices[i := Suc (indices ! i)]) \<longleftrightarrow> disjointRests ids indices"
    and "\<forall>j < length indices. sorted (rest ids (indices[i := Suc (indices ! i)]) j)"
proof -
  have i: "i < length indices" "liveAt ids indices i" "headAt ids indices i = v"
    using arg_cong [OF findSmallest_Some(1) [OF assms(1)], of set] by auto
  have others: "v \<notin> set (rest ids indices j)" if "j < length indices" "j \<noteq> i" for j
    using sorted_holder_is_head [OF assms that(1)] that(2) by auto
  have ri: "rest ids indices i = v # tl (rest ids indices i)" using live_rest [OF i(2)] i(3) by simp
  show "\<forall>j < length indices. sorted (rest ids (indices[i := Suc (indices ! i)]) j)"
    using assms(2) i by (simp add: rest_step) (metis ri sorted_simps(2))
  have "set (rest ids indices i) \<inter> set (rest ids indices j) = set (tl (rest ids indices i)) \<inter> set (rest ids indices j)"
    if "j < length indices" "j \<noteq> i" for j
    using others [OF that] ri by (metis Int_insert_left list.simps(15))
  then show "disjointRests ids (indices[i := Suc (indices ! i)]) \<longleftrightarrow> disjointRests ids indices"
    using i unfolding disjointRests_def length_list_update by (smt (verit) Int_commute rest_step)
qed

lemma check_decides:
  "length ids = length indices \<Longrightarrow> \<forall>i < length indices. sorted (rest ids indices i) \<Longrightarrow>
   checkForDuplicateIds True ids indices = Inr () \<longleftrightarrow> disjointRests ids indices"
proof (induction "True" ids indices rule: checkForDuplicateIds.induct)
  case (1 ids indices)
  show ?case
  proof (cases "findSmallest ids indices")
    case None
    then have "rest ids indices i = []" if "i < length indices" for i using that not_live_rest by (auto simp: findSmallest_None)
    then show ?thesis using None by (simp add: checkForDuplicateIds.simps [of True ids] disjointRests_def)
  next
    case (Some r)
    obtain v ixs where r: "r = (v, ixs)" by (cases r)
    note some = Some [unfolded r]
    show ?thesis
    proof (cases "length ixs = 1")
      case True
      then obtain i where ixs: "ixs = [i]" by (auto simp: length_Suc_conv)
      have "checkForDuplicateIds True ids indices = checkForDuplicateIds True ids (indices[i := Suc (indices ! i)])"
        using some ixs by (simp add: checkForDuplicateIds.simps [of True ids indices])
      then show ?thesis
        using 1(1) [OF some refl _ refl] duplicates_step [OF some [unfolded ixs] 1(3)] 1(2) True ixs by simp
    next
      case False
      have dist: "distinct ixs" and mem: "\<And>i. i \<in> set ixs \<Longrightarrow> i < length indices \<and> liveAt ids indices i \<and> headAt ids indices i = v"
        using findSmallest_Some(1) [OF some] by auto
      obtain i j js where "ixs = i # j # js"
        using False findSmallest_Some(2) [OF some] by (cases ixs; cases "tl ixs") auto
      with dist have ij: "i \<in> set ixs" "j \<in> set ixs" "i \<noteq> j" by auto
      then have "v \<in> set (rest ids indices i) \<inter> set (rest ids indices j)" using mem live_rest by fastforce
      then have "\<not> disjointRests ids indices" using ij mem unfolding disjointRests_def by blast
      then show ?thesis using some False by (simp add: checkForDuplicateIds.simps [of True ids indices])
    qed
  qed
qed

text \<open>
  C38. Over arrays in ascending order the search of the tear-down is exact: it ends, and it passes if and only if no id occurs in the arrays of two
  threads.
\<close>

theorem duplicate_search_exact:
  assumes "\<forall>xs \<in> set ids. sorted xs"
  shows "checkForDuplicateIds True ids (replicate (length ids) 0) = Inr () \<longleftrightarrow>
    (\<forall>i j. i < length ids \<longrightarrow> j < length ids \<longrightarrow> i \<noteq> j \<longrightarrow> set (ids ! i) \<inter> set (ids ! j) = {})"
  using check_decides [of ids "replicate (length ids) 0"] assms by (simp add: rest_def disjointRests_def)

theorem duplicate_search_exact_witness:
  "checkForDuplicateIds True [[1 :: nat, 4], [2, 3], [5]] (replicate 3 0) = Inr () \<and>
   checkForDuplicateIds True [[1 :: nat, 4], [2, 4]] (replicate 2 0) \<noteq> Inr ()"
  using duplicate_search_exact [of "[[1 :: nat, 4], [2, 3], [5]]"] duplicate_search_exact [of "[[1 :: nat, 4], [2, 4]]"]
  by (auto simp: less_Suc_eq numeral_2_eq_2 numeral_3_eq_3)

text \<open>\<open>Array.prototype.sort()\<close> without a comparator orders numbers by their decimal numerals.\<close>

definition defaultSort :: "nat list \<Rightarrow> nat list" where
  "defaultSort ids = sort_key show_nat ids"

text \<open>
  The search of the tear-down misses duplicates, because the arrays it merges are not in ascending order: they are sorted as strings and compared as
  numbers.  Two threads that both claim to have taken document 9 pass the check when one of them has taken document 10 as well; the workload has
  a thousand documents.
\<close>

theorem duplicate_missed:
  "checkForDuplicateIds True (map defaultSort [[9, 10], [9]]) (replicate 2 0) = Inr () \<and> (9 :: nat) \<in> set [9, 10] \<inter> set [9]"
proof -
  have "defaultSort [9, 10] = [10, 9]" "defaultSort [9] = [9]" by code_simp+
  moreover have "checkForDuplicateIds True [[10 :: nat, 9], [9]] [0, 0] = Inr ()"
    by (simp add: checkForDuplicateIds.simps findSmallest_def smallerOf_def upt_rec)
  ultimately show ?thesis by (simp add: numeral_2_eq_2)
qed

section \<open>The workloads\<close>

record 's qwEnv = "'s stEnv" +
  qwRunCommand :: "jsval \<Rightarrow> ('s, jsval) eff"
  qwOwnedUpdate :: "jsval \<Rightarrow> jsval \<Rightarrow> jsval \<Rightarrow> ('s, jsval) eff"     \<comment> \<open>\<open>ownedDB[collName].update(query, update, options)\<close>\<close>
  qwOwnedDocs :: "('s, jsval list) eff"                               \<comment> \<open>\<open>ownedDB[collName].find().toArray()\<close>\<close>
  qwDropOwned :: "('s, jsval) eff"                                    \<comment> \<open>\<open>ownedDB.dropDatabase()\<close>\<close>
  qwRandom :: "('s, rat) eff"
  qwBulkInsert :: "jsval list \<Rightarrow> ('s, jsval) eff"
  qwEnsureIndex :: "jsval \<Rightarrow> ('s, jsval) eff"
  qwItcount :: "('s, nat) eff"                                        \<comment> \<open>\<open>db[collName].find().itcount()\<close>\<close>
  qwDbName :: string
  qwCollName :: string

text \<open>What the extensions replace in the data of the base workload.\<close>

record queue_kind =
  queueDBName :: string
  opName :: string
  withCounter :: bool                  \<comment> \<open>\<open>newDocForInsert\<close> adds a counter\<close>
  indexSpecs :: "jsval list"

definition removeQueue :: queue_kind where
  "removeQueue = \<lparr>queueDBName = ''findAndModify_remove_queue'', opName = ''removed'', withCounter = False, indexSpecs = [JObj [(''rand'', jnum 1)]]\<rparr>"

definition removeQueueUnindexed :: queue_kind where
  "removeQueueUnindexed = removeQueue\<lparr>queueDBName := ''findAndModify_remove_queue_unindexed'', indexSpecs := []\<rparr>"

definition updateQueue :: queue_kind where
  "updateQueue = \<lparr>queueDBName = ''findAndModify_update_queue'', opName = ''updated'', withCounter = True,
     indexSpecs = [JObj [(''counter'', jnum 1), (''rand'', jnum (- 1))]]\<rparr>"

definition updateQueueUnindexed :: queue_kind where
  "updateQueueUnindexed = updateQueue\<lparr>queueDBName := ''findAndModify_update_queue_unindexed'', indexSpecs := []\<rparr>"

definition mixedQueueUnindexed :: queue_kind where
  "mixedQueueUnindexed = \<lparr>queueDBName = ''findAndModify_mixed_queue_unindexed'', opName = ''modified'', withCounter = True, indexSpecs = []\<rparr>"

definition newDocForInsert :: "queue_kind \<Rightarrow> nat \<Rightarrow> rat \<Rightarrow> jsval" where
  "newDocForInsert kind i r =
     JObj ([(''_id'', jnum (int i)), (''rand'', JNum (Fin r))] @ (if withCounter kind then [(''counter'', jnum 0)] else []))"

definition saveDocId :: "'s qwEnv \<Rightarrow> queue_kind \<Rightarrow> nat \<Rightarrow> jsval \<Rightarrow> ('s, unit) eff" where
  "saveDocId env kind tid docId =
     bindE (qwOwnedUpdate env (JObj [(''_id'', jnum (int tid))]) (JObj [(''$push'', JObj [(opName kind, docId)])]) (JObj [(''upsert'', JBool True)])) (\<lambda>res.
     seqE (checkE (commandWorked (stShell env) res))
    (seqE (assertE (fld res ''nMatched'' \<in> {jnum 0, jnum 1}) ''does not contain'')
     (if fld res ''nMatched'' = jnum 0
      then seqE (if stWriteMode env = ''commands'' then assertE (fld res ''nModified'' = jnum 0) ''are not equal'' else ret ())
                (assertE (fld res ''nUpserted'' = jnum 1) ''are not equal'')
      else seqE (if stWriteMode env = ''commands'' then assertE (fld res ''nModified'' = jnum 1) ''are not equal'' else ret ())
                (assertE (fld res ''nUpserted'' = jnum 0) ''are not equal''))))"

text \<open>What every state does with the response: the base and update workloads inline, the mixed one as \<open>validateResult\<close>.\<close>

definition validateResult :: "'s qwEnv \<Rightarrow> queue_kind \<Rightarrow> nat \<Rightarrow> jsval \<Rightarrow> ('s, unit) eff" where
  "validateResult env kind tid res =
     seqE (checkE (commandWorked (stShell env) res))
    (let doc = fld res ''value'' in
     bindE (retriesConflicts env) (\<lambda>retries.
     seqE (if retries then stWhenOwnColl env (assertE (doc \<noteq> Null) ''findAndModify should have found a matching document'') else ret ())
     (if doc \<noteq> Null then bindE (liftE (get_prop doc ''_id'')) (saveDocId env kind tid) else ret ())))"

definition removeCommand :: "'s qwEnv \<Rightarrow> jsval \<Rightarrow> jsval" where
  "removeCommand env query =
     JObj [(''findAndModify'', JStr (qwCollName env)), (''query'', query), (''sort'', JObj [(''rand'', jnum (- 1))]), (''remove'', JBool True)]"

definition queue_remove :: "'s qwEnv \<Rightarrow> queue_kind \<Rightarrow> nat \<Rightarrow> ('s, unit) eff" where
  "queue_remove env kind tid = bindE (qwRunCommand env (removeCommand env (JObj []))) (validateResult env kind tid)"

definition queue_update :: "'s qwEnv \<Rightarrow> queue_kind \<Rightarrow> nat \<Rightarrow> ('s, unit) eff" where
  "queue_update env kind tid =
     bindE (qwRunCommand env (JObj [(''findAndModify'', JStr (qwCollName env)), (''query'', JObj [(''counter'', jnum 0)]),
        (''sort'', JObj [(''rand'', jnum (- 1))]), (''update'', JObj [(''$inc'', JObj [(''counter'', jnum 1)])]), (''new'', JBool False)]))
     (validateResult env kind tid)"

definition mixed_remove :: "'s qwEnv \<Rightarrow> queue_kind \<Rightarrow> nat \<Rightarrow> ('s, unit) eff" where
  "mixed_remove env kind tid = bindE (qwRunCommand env (removeCommand env (JObj [(''counter'', jnum 0)]))) (validateResult env kind tid)"

definition queue_setup :: "'s qwEnv \<Rightarrow> queue_kind \<Rightarrow> nat \<Rightarrow> nat \<Rightarrow> ('s, nat) eff" where
  "queue_setup env kind iterations threadCount =
    (let numDocs = iterations * threadCount in
     bindE (mapE (\<lambda>i. bindE (qwRandom env) (\<lambda>r.
        let doc = newDocForInsert kind i r in
        seqE (assertE (typeof (fld doc ''_id'') \<noteq> ''object'') ''default comparator is not well-ordered for JS objects'') (ret doc))) [0..<numDocs]) (\<lambda>docs.
     bindE (qwBulkInsert env docs) (\<lambda>res.
     seqE (checkE (commandWorked (stShell env) res))
    (seqE (assertE (jnum (int numDocs) = fld res ''nInserted'') ''are not equal'')
    (seqE (forEachE (\<lambda>spec. bindE (qwEnsureIndex env spec) (\<lambda>res. checkE (commandWorked (stShell env) res))) (indexSpecs kind))
     (ret numDocs))))))"

text \<open>The ids a thread's record holds, sorted by the default comparator.\<close>

definition idsOf :: "queue_kind \<Rightarrow> jsval \<Rightarrow> nat list result" where
  "idsOf kind doc =
     (case fld doc (opName kind) of
        JArr xs \<Rightarrow> Inr (defaultSort (map (\<lambda>x. case x of JNum (Fin q) \<Rightarrow> nat \<lfloor>q\<rfloor> | _ \<Rightarrow> 0) xs))
      | _ \<Rightarrow> Inl (TypeErr ''sort is not a function''))"

definition queue_teardown :: "'s qwEnv \<Rightarrow> queue_kind \<Rightarrow> ('s, unit) eff" where
  "queue_teardown env kind =
     seqE (if opName kind = ''removed''
           then bindE (retriesConflicts env) (\<lambda>retries.
                if retries
                then bindE (qwItcount env) (\<lambda>n. stWhenOwnColl env (assertE (n = 0) ''Expected all documents to have been removed''))
                else ret ())
           else ret ())
    (seqE (stWhenOwnColl env
            (bindE (qwOwnedDocs env) (\<lambda>docs.
             bindE (mapE (\<lambda>doc. liftE (idsOf kind doc)) docs) (\<lambda>ids.
             liftE (checkForDuplicateIds (\<not> compareTo OWN_COLL (stLevel env) > 0) ids (replicate (length ids) 0))))))
    (bindE (qwDropOwned env) (\<lambda>res.
     seqE (checkE (commandWorked (stShell env) res))
     (assertE (JStr (qwDbName env @ queueDBName kind) = fld res ''dropped'') ''are not equal''))))"

section \<open>Configurations\<close>

definition removeQueueConfig :: jsval where
  "removeQueueConfig = JObj [
     (''threadCount'', jnum 10), (''iterations'', jnum 100),
     (''data'', JObj [(''uniqueDBName'', JStr ''findAndModify_remove_queue''), (''newDocForInsert'', JFun ''newDocForInsert'' 1),
        (''getIndexSpecs'', JFun ''getIndexSpecs'' 0), (''opName'', JStr ''removed''), (''saveDocId'', JFun ''saveDocId'' 3)]),
     (''startState'', JStr ''remove''), (''states'', JObj [(''remove'', JFun ''remove'' 2)]),
     (''transitions'', JObj [(''remove'', JObj [(''remove'', jnum 1)])]), (''setup'', JFun ''setup'' 3), (''teardown'', JFun ''teardown'' 3)]"

definition withData :: "(string \<times> jsval) list \<Rightarrow> jsval \<Rightarrow> jsval" where
  "withData kvs config = inField ''data'' (fold (\<lambda>(k, v). set_prop k v) kvs) config"

definition extendUnindexed :: "string \<Rightarrow> jsval \<Rightarrow> jsval \<Rightarrow> jsval result" where
  "extendUnindexed name config super =
     Inr (withData [(''uniqueDBName'', JStr name), (''getIndexSpecs'', JFun ''getIndexSpecs'' 0)] config)"

definition extendUpdateQueue :: "jsval \<Rightarrow> jsval \<Rightarrow> jsval result" where
  "extendUpdateQueue config super = Inr (
     set_prop ''transitions'' (JObj [(''update'', JObj [(''update'', jnum 1)])])
    (set_prop ''states'' (JObj [(''update'', JFun ''update'' 2)])
    (set_prop ''startState'' (JStr ''update'')
    (withData [(''uniqueDBName'', JStr ''findAndModify_update_queue''), (''newDocForInsert'', JFun ''newDocForInsert'' 1),
       (''getIndexSpecs'', JFun ''getIndexSpecs'' 0), (''opName'', JStr ''updated'')] config))))"

definition extendMixedQueue :: "jsval \<Rightarrow> jsval \<Rightarrow> jsval result" where
  "extendMixedQueue config super =
    (let both = JObj [(''remove'', JNum (Fin (1 / 2))), (''update'', JNum (Fin (1 / 2)))] in Inr (
     set_prop ''transitions'' (JObj [(''remove'', both), (''update'', both)])
    (set_prop ''states'' (JObj [(''remove'', JFun ''remove'' 2), (''update'', JFun ''update'' 2)])
    (withData [(''uniqueDBName'', JStr ''findAndModify_mixed_queue_unindexed''), (''newDocForInsert'', JFun ''newDocForInsert'' 1),
       (''getIndexSpecs'', JFun ''getIndexSpecs'' 0), (''opName'', JStr ''modified''), (''validateResult'', JFun ''validateResult'' 3)] config))))"

definition extendQueue :: "jsval result \<Rightarrow> (jsval \<Rightarrow> jsval \<Rightarrow> jsval result) \<Rightarrow> jsval result" where
  "extendQueue base callback = rbind base (\<lambda>c. extendWorkload [c, JFun ''callback'' 2] (JFun ''callback'' 2) callback)"

text \<open>The runner accepts the five workloads; the unindexed update queue extends an extension.\<close>

lemma queue_configs_parse:
  "list_all (\<lambda>c. case rbind c parseConfig of Inl _ \<Rightarrow> False | Inr _ \<Rightarrow> True)
     [Inr removeQueueConfig, extendQueue (Inr removeQueueConfig) extendUpdateQueue, extendQueue (Inr removeQueueConfig) extendMixedQueue,
      extendQueue (Inr removeQueueConfig) (extendUnindexed ''findAndModify_remove_queue_unindexed''),
      extendQueue (extendQueue (Inr removeQueueConfig) extendUpdateQueue) (extendUnindexed ''findAndModify_update_queue_unindexed'')]"
  by code_simp

end
