(* ===== verification/Parallel_Tester.thy ===== *)
theory Parallel_Tester
  imports Override_Helpers "HOL-Library.Multiset"
begin

text \<open>
  The parallel tester of \<open>jstests/libs/parallelTester.js\<close>: the arguments a thread is started with, the events of an
  \<open>EventGenerator\<close>, the lists of test files that run side by side, and \<open>assert.parallelTests\<close>, which runs one function in each
  thread and counts the failures.  Directory trees, shuffles and threads are arguments.
\<close>

section \<open>Starting a thread\<close>

text \<open>
  Functions arrive in a thread as \<open>Code\<close> objects, which \<open>evalCodeArgs\<close> evaluates wherever they occur.  It copies every other object
  by its own properties, of which the shell's number and date objects have none.
\<close>

fun evalCodeArgs :: "(string \<Rightarrow> jsval result) \<Rightarrow> jsval \<Rightarrow> jsval result"
  and evalCodeList :: "(string \<Rightarrow> jsval result) \<Rightarrow> jsval list \<Rightarrow> jsval list result"
  and evalCodeProps :: "(string \<Rightarrow> jsval result) \<Rightarrow> (string \<times> jsval) list \<Rightarrow> (string \<times> jsval) list result" where
  "evalCodeArgs eval (JExt c s) = (if c = ''Code'' then eval s else Inr (JObj []))"
| "evalCodeArgs eval (JLong i) = Inr (JObj [])"
| "evalCodeArgs eval (JInt i) = Inr (JObj [])"
| "evalCodeArgs eval (JArr xs) = rbind (evalCodeList eval xs) (\<lambda>ys. Inr (JArr ys))"
| "evalCodeArgs eval (JObj kvs) = rbind (evalCodeProps eval kvs) (\<lambda>ps. Inr (JObj ps))"
| "evalCodeArgs eval v = Inr v"
| "evalCodeList eval [] = Inr []"
| "evalCodeList eval (x # xs) = rbind (evalCodeArgs eval x) (\<lambda>y. rbind (evalCodeList eval xs) (\<lambda>ys. Inr (y # ys)))"
| "evalCodeProps eval [] = Inr []"
| "evalCodeProps eval ((k, x) # kvs) = rbind (evalCodeArgs eval x) (\<lambda>y. rbind (evalCodeProps eval kvs) (\<lambda>ps. Inr ((k, y) # ps)))"

text \<open>The test data, the function and the arguments a thread goes on with.\<close>

definition threadStartWrapper :: "(string \<Rightarrow> jsval result) \<Rightarrow> jsval \<Rightarrow> jsval list \<Rightarrow> (jsval \<times> jsval \<times> jsval list) result" where
  "threadStartWrapper eval testData args =
     rbind (evalCodeArgs eval testData) (\<lambda>td.
     rbind (evalCodeList eval args) (\<lambda>newArgs.
     case newArgs of [] \<Rightarrow> Inl (TypeErr ''realStartFn is undefined'') | realStartFn # rest \<Rightarrow> Inr (td, realStartFn, rest)))"

definition threadArgs :: "jsval \<Rightarrow> jsval list \<Rightarrow> jsval list" where
  "threadArgs testData args = JFun ''_threadStartWrapper'' 1 # testData # args"

section \<open>Events\<close>

record eventGen =
  egMe :: jsval
  egCollection :: string
  egHost :: string
  egEvents :: "(rat \<times> string) list"

definition EventGenerator :: "string \<Rightarrow> jsval \<Rightarrow> string \<Rightarrow> string option \<Rightarrow> eventGen" where
  "EventGenerator dbHost me collectionName host =
     \<lparr>egMe = me, egCollection = collectionName, egHost = (case host of None \<Rightarrow> dbHost | Some h \<Rightarrow> h), egEvents = []\<rparr>"

text \<open>The pause before an event is drawn by \<open>Random.genExp\<close>, whose value is an argument.\<close>

definition eg_add :: "rat \<Rightarrow> string \<Rightarrow> eventGen \<Rightarrow> eventGen" where
  "eg_add pause action g = g\<lparr>egEvents := egEvents g @ [(pause, action)]\<rparr>"

definition addInsert :: "(jsval \<Rightarrow> string) \<Rightarrow> rat \<Rightarrow> jsval \<Rightarrow> eventGen \<Rightarrow> eventGen" where
  "addInsert tojson pause obj = eg_add pause (''t.insert( '' @ tojson obj @ '' )'')"

definition addRemove :: "(jsval \<Rightarrow> string) \<Rightarrow> rat \<Rightarrow> jsval \<Rightarrow> eventGen \<Rightarrow> eventGen" where
  "addRemove tojson pause obj = eg_add pause (''t.remove( '' @ tojson obj @ '' )'')"

definition addCurrentOp :: "rat \<Rightarrow> eventGen \<Rightarrow> eventGen" where
  "addCurrentOp pause = eg_add pause ''db.currentOp()''"

definition addUpdate :: "(jsval \<Rightarrow> string) \<Rightarrow> rat \<Rightarrow> jsval \<Rightarrow> jsval \<Rightarrow> eventGen \<Rightarrow> eventGen" where
  "addUpdate tojson pause objOld objNew = eg_add pause (''t.update( '' @ tojson objOld @ '', '' @ tojson objNew @ '' )'')"

definition addCheckCount :: "(jsval \<Rightarrow> string) \<Rightarrow> rat \<Rightarrow> nat \<Rightarrow> jsval \<Rightarrow> jsval \<Rightarrow> jsval \<Rightarrow> eventGen \<Rightarrow> eventGen" where
  "addCheckCount tojson pause n query shouldPrint checkQuery =
     (let q = tojson (js_or query (JObj [])) in
      eg_add pause (''assert.eq( '' @ show_nat n @ '', t.count( '' @ q @ '' ) );'' @
        (if truthy checkQuery then '' assert.eq( '' @ show_nat n @ '', t.find( '' @ q @ '' ).toArray().length );'' else []) @
        (if truthy shouldPrint then '' print( me + ' ' + '' @ show_nat n @ '' );'' else [])))"

text \<open>Running the events: each waits for its pause and is evaluated, with the connection and the collection as its variables.\<close>

record 's egEnv =
  egConnect :: "string \<Rightarrow> ('s, unit) eff"
  egSleep :: "rat \<Rightarrow> ('s, unit) eff"
  egEval :: "string \<Rightarrow> ('s, unit) eff"

definition eg_dispatch :: "'s egEnv \<Rightarrow> eventGen \<Rightarrow> ('s, unit) eff" where
  "eg_dispatch env g =
     seqE (egConnect env (egHost g))
     (forEachE (\<lambda>(pause, action). seqE (egSleep env pause) (egEval env action)) (egEvents g))"

section \<open>The lists of tests\<close>

record testFile =
  tfName :: string
  tfBase :: string

datatype fileTree = File testFile | Dir "fileTree list"

fun getFilesRecursive :: "fileTree list \<Rightarrow> testFile list" where
  "getFilesRecursive [] = []"
| "getFilesRecursive (File f # ts) = f # getFilesRecursive ts"
| "getFilesRecursive (Dir sub # ts) = getFilesRecursive sub @ getFilesRecursive ts"

definition parallelFilesDir :: string where "parallelFilesDir = ''jstests/core''"

definition skippedTests :: "string list" where
  "skippedTests = [''indexb.js'', ''index_bigkeys_nofail.js'', ''index_bigkeys_validation.js'', ''mr3.js'', ''evald.js'', ''run_program1.js'',
     ''notablescan.js'', ''bench_test1.js'', ''dropdb_race.js'', ''bulk_legacy_enforce_gle.js'', ''comment_field.js'', ''getlog2.js'',
     ''logprocessdetails.js'', ''queryoptimizera.js'', ''connections_opened.js'', ''opcounters_write_cmd.js'', ''set_param1.js'',
     ''geo_update_btree2.js'', ''update_setOnInsert.js'', ''max_time_ms.js'', ''autocomplete.js'', ''type6.js'', ''kill_cursors.js'',
     ''background_validation.js'', ''views/invalid_system_views.js'', ''views/views_all_commands.js'', ''views/view_with_invalid_dbname.js'',
     ''restart_catalog.js'', ''long_collection_names.js'', ''crud_ops_do_not_throw_locktimeout.js'']"

definition requires_find_command :: "string list" where
  "requires_find_command = [''update_pipeline_shell_helpers.js'', ''update_with_pipeline.js'', ''views/views_aggregation.js'',
     ''views/views_change.js'', ''views/views_drop.js'', ''views/views_find.js'', ''wildcard_index_collation.js'']"

definition serialTestsArr :: "string list" where
  "serialTestsArr = map (\<lambda>t. parallelFilesDir @ ''/'' @ t)
     [''fsync.js'', ''currentop.js'', ''killop_drop_collection.js'', ''apitest_db_profile_level.js'', ''geo_s2cursorlimitskip.js'',
      ''profile1.js'', ''profile2.js'', ''profile3.js'', ''profile_agg.js'', ''profile_count.js'', ''profile_delete.js'', ''profile_distinct.js'',
      ''profile_find.js'', ''profile_findandmodify.js'', ''profile_getmore.js'', ''profile_insert.js'', ''profile_list_collections.js'',
      ''profile_list_indexes.js'', ''profile_mapreduce.js'', ''profile_no_such_db.js'', ''profile_query_hash.js'', ''profile_sampling.js'',
      ''profile_update.js'', ''compact_keeps_indexes.js'', ''awaitdata_getmore_cmd.js'', ''list_all_local_sessions.js'', ''list_all_sessions.js'',
      ''list_local_sessions.js'', ''list_sessions.js'']"

text \<open>The keys of \<open>skipTests\<close>; the files of the transaction tests are named by their base names.\<close>

definition skipTests :: "string \<Rightarrow> fileTree list \<Rightarrow> string list" where
  "skipTests readMode txns = skippedTests @ (if readMode = ''legacy'' then requires_find_command else []) @
     map (\<lambda>f. ''txns/'' @ tfBase f) (getFilesRecursive txns)"

text \<open>
  The tests of a file name: \<open>/[\/\\]_/\<close> and \<open>/\.js$/\<close>, and the first group of \<open>jstests/core/(.*.js)\<close>.  The backslash of the last
  pattern is lost in the string literal, so any character may stand before \<open>js\<close>.
\<close>

fun hiddenName :: "string \<Rightarrow> bool" where
  "hiddenName (a # b # s) \<longleftrightarrow> (a = CHR ''/'' \<or> a = CHR 0x5C) \<and> b = CHR ''_'' \<or> hiddenName (b # s)"
| "hiddenName _ \<longleftrightarrow> False"

definition endsWith :: "string \<Rightarrow> string \<Rightarrow> bool" where
  "endsWith suff s \<longleftrightarrow> starts_with (rev suff) (rev s)"

definition coreName :: "string \<Rightarrow> string option" where
  "coreName name =
     (case index_of (parallelFilesDir @ ''/'') name of
        None \<Rightarrow> None
      | Some i \<Rightarrow> let s = List.drop (i + length (parallelFilesDir @ ''/'')) name in
          map_option (\<lambda>k. take k s) (find (\<lambda>k. k \<ge> 3 \<and> endsWith ''js'' (take k s)) (rev [0..<Suc (length s)])))"

definition skipsFile :: "string list \<Rightarrow> string \<Rightarrow> bool result" where
  "skipsFile skip name =
     (if hiddenName name \<or> \<not> endsWith ''.js'' name then Inr True
      else case coreName name of
        None \<Rightarrow> Inl (TypeErr ''null has no properties'')
      | Some core \<Rightarrow> Inr (core \<in> set skip \<or> name \<in> set serialTestsArr))"

text \<open>Dealing the files to the lists in turn: the \<open>i\<close>-th file that is not skipped goes to the list \<open>i % n\<close>.\<close>

fun deal :: "string list \<Rightarrow> nat \<Rightarrow> nat \<Rightarrow> string list \<Rightarrow> string list list \<Rightarrow> string list list result" where
  "deal skip n i [] params = Inr params"
| "deal skip n i (x # xs) params =
     rbind (skipsFile skip x) (\<lambda>skipped.
     if skipped then deal skip n i xs params
     else if n = 0 then Inl (TypeErr ''params[i % n] is undefined'')
     else deal skip n (i + 1) xs (params[i mod n := params ! (i mod n) @ [x]]))"

definition createJstestsLists ::
  "(testFile list \<Rightarrow> testFile list) \<Rightarrow> (string list \<Rightarrow> string list) \<Rightarrow> string \<Rightarrow> fileTree list \<Rightarrow> fileTree list \<Rightarrow> nat \<Rightarrow> string list list result" where
  "createJstestsLists shuffle shuffleFirst readMode txns core n =
     (let params = (case replicate n [] of [] \<Rightarrow> [serialTestsArr] | _ # rest \<Rightarrow> serialTestsArr # rest) in
      rbind (deal (skipTests readMode txns) n 0 (map tfName (shuffle (getFilesRecursive core))) params) (\<lambda>params.
      Inr (map (\<lambda>(i, xs). show_nat i # xs) (enumerate 0 (params[0 := shuffleFirst (params ! 0)])))))"

section \<open>Running tests in parallel\<close>

text \<open>\<open>ParallelTester\<close> keeps one array for each test: the function and its arguments.\<close>

definition pt_add :: "jsval \<Rightarrow> jsval list \<Rightarrow> jsval list list \<Rightarrow> jsval list list" where
  "pt_add f args params = params @ [f # args]"

text \<open>A list of test files, each loaded on a connection of its own; the first argument names the list.\<close>

record 's ftEnv =
  ftConnect :: "('s, unit) eff"
  ftLoad :: "jsval \<Rightarrow> ('s, unit) eff"

definition fileTester :: "'s ftEnv \<Rightarrow> jsval list \<Rightarrow> ('s, unit) eff" where
  "fileTester env args = forEachE (\<lambda>x. seqE (ftConnect env) (ftLoad env x)) (tl args)"

text \<open>
  The name of a failed test is taken from the text of its error.  The pattern matches at its leftmost occurrence that a name on the same line follows, and takes the longest such
  name.\<close>

definition longestJs :: "string \<Rightarrow> string option" where
  "longestJs err =
     (let s = takeWhile (\<lambda>c. c \<noteq> CHR ''\<newline>'' \<and> c \<noteq> CHR 0x0D) err in
      map_option (\<lambda>k. take k s) (find (\<lambda>k. endsWith ''.js'' (take k s)) (rev [0..<Suc (length s)])))"

fun loadedFile :: "string \<Rightarrow> string option" where
  "loadedFile [] = None"
| "loadedFile (c # cs) =
     (if starts_with ''Error: error loading js file: '' (c # cs)
      then (case longestJs (List.drop (length ''Error: error loading js file: '') (c # cs)) of Some f \<Rightarrow> Some f | None \<Rightarrow> loadedFile cs)
      else loadedFile cs)"

text \<open>
  What a thread returns for a function that ends or throws; an error without a name makes the handler throw.  The function runs with
  the test data the thread was given, if any.\<close>

definition pt_wrapper :: "(exn \<Rightarrow> string) \<Rightarrow> (jsval \<Rightarrow> jsval list \<Rightarrow> unit result) \<Rightarrow> jsval \<Rightarrow> jsval list \<Rightarrow> jsval \<Rightarrow> jsval result" where
  "pt_wrapper tojson f testData argv globals =
     (case f (if has_own globals ''TestData'' then fld globals ''TestData'' else testData) argv of
        Inr _ \<Rightarrow> Inr (JObj [(''passed'', JBool True)])
      | Inl e \<Rightarrow> (case loadedFile (tojson e) of
          None \<Rightarrow> Inl (TypeErr ''null has no properties'')
        | Some name \<Rightarrow> Inr (JObj [(''passed'', JBool False), (''testName'', JStr name)])))"

record ('s, 't) ptEnv =
  thNew :: "jsval list \<Rightarrow> ('s, 't) eff"
  thStart :: "'t \<Rightarrow> ('s, unit) eff"
  thReturn :: "'t \<Rightarrow> ('s, jsval) eff"

text \<open>The threads, each with a copy of the test data under a name of its own.\<close>

fun makeRunners :: "('s, 't) ptEnv \<Rightarrow> jsval \<Rightarrow> nat \<Rightarrow> jsval list list \<Rightarrow> ('s, 't list) eff" where
  "makeRunners env testData i [] = ret []"
| "makeRunners env testData i (param # params) =
     (let test = (case param of [] \<Rightarrow> Undef | t # _ \<Rightarrow> t);
          clonedTestData = set_prop ''testName'' (JStr (''ParallelTesterThread'' @ show_nat i)) (obj_assign (JObj []) testData) in
      bindE (thNew env [JFun ''wrapper'' 3, test, JArr (tl param), JObj [(''TestData'', clonedTestData)]]) (\<lambda>t.
      bindE (makeRunners env testData (i + 1) params) (\<lambda>ts. ret (t # ts))))"

fun joinRunners :: "('s, 't) ptEnv \<Rightarrow> nat \<Rightarrow> jsval list \<Rightarrow> 't list \<Rightarrow> ('s, nat \<times> jsval list) eff" where
  "joinRunners env nFailed failedTests [] = ret (nFailed, failedTests)"
| "joinRunners env nFailed failedTests (x # xs) =
     bindE (thReturn env x) (\<lambda>d.
     bindE (liftE (get_prop d ''passed'')) (\<lambda>passed.
     if truthy passed then joinRunners env nFailed failedTests xs
     else bindE (thReturn env x) (\<lambda>d. bindE (liftE (get_prop d ''testName'')) (\<lambda>name. joinRunners env (nFailed + 1) (failedTests @ [name]) xs))))"

definition parallelTests :: "('s, 't) ptEnv \<Rightarrow> (jsval list \<Rightarrow> string) \<Rightarrow> jsval \<Rightarrow> jsval list list \<Rightarrow> string \<Rightarrow> ('s, unit) eff" where
  "parallelTests env tojsononeline testData params msg =
     bindE (makeRunners env testData 0 params) (\<lambda>runners.
     seqE (forEachE (thStart env) runners)
    (bindE (joinRunners env 0 [] runners) (\<lambda>(nFailed, failedTests).
     assertE (nFailed = 0) (msg @ '': '' @ tojsononeline failedTests))))"

section \<open>Properties of the lists\<close>

definition runsInParallel :: "string list \<Rightarrow> string \<Rightarrow> bool" where
  "runsInParallel skip x \<longleftrightarrow> skipsFile skip x = Inr False"

lemma deal_cons:
  "deal skip n i (x # xs) params = Inr out \<longleftrightarrow>
     (if runsInParallel skip x then n \<noteq> 0 \<and> deal skip n (i + 1) xs (params[i mod n := params ! (i mod n) @ [x]]) = Inr out
      else skipsFile skip x = Inr True \<and> deal skip n i xs params = Inr out)"
  by (cases "skipsFile skip x") (auto simp: runsInParallel_def)

lemma mset_concat_update: "j < length ps \<Longrightarrow> mset (concat (ps[j := ps ! j @ [x]])) = add_mset x (mset (concat ps))"
  by (induction ps arbitrary: j) (auto split: nat.split)

lemma deal_mset:
  assumes "deal skip n i xs params = Inr out" and "length params = n"
  shows "length out = n \<and> mset (concat out) = mset (concat params) + mset (filter (runsInParallel skip) xs)"
  using assms
proof (induction xs arbitrary: i params)
  case (Cons x xs)
  show ?case
  proof (cases "runsInParallel skip x")
    case True
    with Cons.prems have "n \<noteq> 0" "deal skip n (i + 1) xs (params[i mod n := params ! (i mod n) @ [x]]) = Inr out" by (auto simp only: deal_cons if_True)
    with Cons.IH [OF this(2)] Cons.prems(2) True show ?thesis by (simp add: mset_concat_update)
  next
    case False
    with Cons.prems have "deal skip n i xs params = Inr out" by (auto simp only: deal_cons if_False)
    with Cons.IH [OF this Cons.prems(2)] False show ?thesis by simp
  qed
qed simp

text \<open>How many of the first \<open>m\<close> turns go to a list.\<close>

lemma turn_of:
  assumes "j < (n :: nat)"
  shows "(m + (n - j)) mod n = 0 \<longleftrightarrow> m mod n = j"
proof -
  define r where "r = m mod n"
  have r: "r < n" using assms by (simp add: r_def)
  have "(m + (n - j)) mod n = (r + (n - j)) mod n" by (simp add: r_def mod_add_left_eq)
  moreover have "(r + (n - j)) mod n = 0 \<longleftrightarrow> r = j"
  proof (cases r j rule: linorder_cases)
    case less
    then have "r + (n - j) < n" "r + (n - j) \<noteq> 0" using assms by auto
    with less show ?thesis by simp
  next
    case greater
    then have eq: "r + (n - j) = (r - j) + n" using assms by simp
    have "(r + (n - j)) mod n = r - j" unfolding eq using r by simp
    with greater show ?thesis by simp
  qed (use assms in simp)
  ultimately show ?thesis by (simp add: r_def)
qed

lemma turns_count:
  assumes "j < n"
  shows "length (filter (\<lambda>k. k mod n = j) [0..<m]) = (m + n - 1 - j) div n"
proof (induction m)
  case 0
  show ?case using assms by simp
next
  case (Suc m)
  have "Suc (m + n - 1 - j) = m + (n - j)" using assms by simp
  then have "Suc (m + n - 1 - j) mod n = 0 \<longleftrightarrow> m mod n = j" using turn_of [OF assms] by simp
  moreover have "Suc m + n - 1 - j = Suc (m + n - 1 - j)" using assms by simp
  ultimately show ?case using Suc by (simp add: div_Suc)
qed

lemma deal_length:
  assumes "deal skip n i xs params = Inr out" and "length params = n" and "j < n"
  shows "\<exists>ys. out ! j = params ! j @ ys \<and> length ys = length (filter (\<lambda>k. k mod n = j) [i..<i + length (filter (runsInParallel skip) xs)])"
  using assms(1,2)
proof (induction xs arbitrary: i params)
  case (Cons x xs)
  show ?case
  proof (cases "runsInParallel skip x")
    case True
    let ?params = "params[i mod n := params ! (i mod n) @ [x]]"
    from True Cons.prems have "deal skip n (i + 1) xs ?params = Inr out" by (auto simp only: deal_cons if_True)
    from Cons.IH [OF this] Cons.prems(2) obtain ys where ys: "out ! j = ?params ! j @ ys"
      "length ys = length (filter (\<lambda>k. k mod n = j) [i + 1..<i + 1 + length (filter (runsInParallel skip) xs)])" by auto
    have "?params ! j = params ! j @ (if i mod n = j then [x] else [])" using Cons.prems(2) assms(3) by simp
    moreover have "[i..<i + Suc k] = i # [i + 1..<i + 1 + k]" for k by (simp add: upt_conv_Cons)
    ultimately show ?thesis using ys True by (intro exI [of _ "(if i mod n = j then [x] else []) @ ys"]) simp
  next
    case False
    with Cons.prems have "deal skip n i xs params = Inr out" by (auto simp only: deal_cons if_False)
    with Cons.IH [OF this Cons.prems(2)] False show ?thesis by simp
  qed
qed simp

lemma concat_tl_numbered: "concat (map tl (map (\<lambda>(i, xs). show_nat i # xs) (enumerate k ps))) = concat ps"
  by (induction ps arbitrary: k) auto

lemma hd_tl_numbered:
  "j < length ps \<Longrightarrow> map (\<lambda>(i, xs). show_nat i # xs) (enumerate 0 ps) ! j = show_nat j # ps ! j"
  by (simp add: nth_enumerate_eq)

definition coreTests :: "string \<Rightarrow> fileTree list \<Rightarrow> fileTree list \<Rightarrow> string list" where
  "coreTests readMode txns core = filter (runsInParallel (skipTests readMode txns)) (map tfName (getFilesRecursive core))"

text \<open>
  C25. The lists of the parallel tester are exact.  For \<open>n\<close> lists and shuffles that permute, each list starts with its number; together
  they hold every serial test once and every other test file of the directory that is not skipped as often as the directory holds it,
  the serial tests are all in the first list, and the remaining tests are dealt evenly.\<close>

theorem lists_exact:
  assumes "createJstestsLists shuffle shuffleFirst readMode txns core n = Inr params" and "0 < n"
    and "\<And>fs. mset (shuffle fs) = mset fs" and "\<And>xs. mset (shuffleFirst xs) = mset xs"
  shows "length params = n \<and> mset (concat (map tl params)) = mset serialTestsArr + mset (coreTests readMode txns core) \<and>
    set serialTestsArr \<subseteq> set (tl (params ! 0)) \<and>
    (\<forall>j < n. hd (params ! j) = show_nat j \<and>
       length (tl (params ! j)) = (length (coreTests readMode txns core) + n - 1 - j) div n + (if j = 0 then length serialTestsArr else 0))"
proof -
  let ?skip = "skipTests readMode txns" and ?names = "map tfName (shuffle (getFilesRecursive core))"
  let ?start = "serialTestsArr # replicate (n - 1) []"
  obtain out where out: "deal ?skip n 0 ?names ?start = Inr out"
    and params: "params = map (\<lambda>(i, xs). show_nat i # xs) (enumerate 0 (out[0 := shuffleFirst (out ! 0)]))"
    using assms(1,2) by (cases n) (auto simp: createJstestsLists_def rbind_Inr)
  have "mset ?names = mset (map tfName (getFilesRecursive core))" by (simp add: assms(3))
  then have kept: "mset (filter (runsInParallel ?skip) ?names) = mset (coreTests readMode txns core)"
    unfolding coreTests_def by (metis mset_filter)
  note dealt = deal_mset [OF out]
  have len: "length out = n" using dealt assms(2) by simp
  have first: "mset (shuffleFirst (out ! 0)) = mset (out ! 0)" by (rule assms(4))
  have "mset (concat (out[0 := shuffleFirst (out ! 0)])) = mset (concat out)" using len assms(2) first by (cases out) auto
  then have all: "mset (concat (map tl params)) = mset serialTestsArr + mset (coreTests readMode txns core)"
    using dealt assms(2) kept unfolding params concat_tl_numbered by simp
  have count: "length (filter (runsInParallel ?skip) ?names) = length (coreTests readMode txns core)" using kept by (metis size_mset)
  have lists: "\<exists>ys. out ! j = ?start ! j @ ys \<and> length ys = (length (coreTests readMode txns core) + n - 1 - j) div n" if "j < n" for j
    using deal_length [OF out _ that, unfolded count add_0 turns_count [OF that]] assms(2) by simp
  have nth: "params ! j = show_nat j # (if j = 0 then shuffleFirst (out ! 0) else out ! j)" if "j < n" for j
    using that len by (simp add: params nth_enumerate_eq nth_list_update)
  have same: "set (shuffleFirst (out ! 0)) = set (out ! 0)" "length (shuffleFirst (out ! 0)) = length (out ! 0)"
    using first by (metis mset_eq_setD, metis size_mset)
  have "length (tl (params ! j)) = (length (coreTests readMode txns core) + n - 1 - j) div n + (if j = 0 then length serialTestsArr else 0)"
    if j: "j < n" for j
  proof -
    have "tl (params ! j) = (if j = 0 then shuffleFirst (out ! 0) else out ! j)" using nth [OF j] by simp
    with lists [OF j] j same(2) show ?thesis by (cases j) auto
  qed
  moreover have "set serialTestsArr \<subseteq> set (tl (params ! 0))" using lists [OF assms(2)] by (auto simp: nth [OF assms(2)] same(1))
  moreover have "length params = n" using len by (simp add: params)
  ultimately show ?thesis using all nth by simp
qed

theorem lists_exact_witness:
  "\<exists>params. createJstestsLists rev rev ''commands'' []
       [File \<lparr>tfName = ''jstests/core/a.js'', tfBase = ''a.js''\<rparr>,
        Dir [File \<lparr>tfName = ''jstests/core/d/b.js'', tfBase = ''b.js''\<rparr>, File \<lparr>tfName = ''jstests/core/mr3.js'', tfBase = ''mr3.js''\<rparr>],
        File \<lparr>tfName = ''jstests/core/profile1.js'', tfBase = ''profile1.js''\<rparr>, File \<lparr>tfName = ''jstests/core/c.txt'', tfBase = ''c.txt''\<rparr>] 2 = Inr params \<and>
     length params = 2 \<and> params ! 1 = [''1'', ''jstests/core/a.js''] \<and> hd (params ! 1) = show_nat 1"
proof -
  let ?core = "[File \<lparr>tfName = ''jstests/core/a.js'', tfBase = ''a.js''\<rparr>,
        Dir [File \<lparr>tfName = ''jstests/core/d/b.js'', tfBase = ''b.js''\<rparr>, File \<lparr>tfName = ''jstests/core/mr3.js'', tfBase = ''mr3.js''\<rparr>],
        File \<lparr>tfName = ''jstests/core/profile1.js'', tfBase = ''profile1.js''\<rparr>, File \<lparr>tfName = ''jstests/core/c.txt'', tfBase = ''c.txt''\<rparr>]"
  have "case createJstestsLists rev rev ''commands'' [] ?core 2 of Inl _ \<Rightarrow> False | Inr params \<Rightarrow> params ! 1 = [''1'', ''jstests/core/a.js'']"
    by code_simp
  then obtain params where run: "createJstestsLists rev rev ''commands'' [] ?core 2 = Inr params" and "params ! 1 = [''1'', ''jstests/core/a.js'']"
    by (auto split: sum.splits)
  moreover have "length params = 2" "hd (params ! 1) = show_nat 1"
    using lists_exact [OF run zero_less_numeral mset_rev mset_rev] by (blast, simp)
  ultimately show ?thesis by blast
qed

text \<open>
  The base name of a file in a directory below the transaction tests is not its name below \<open>jstests/core\<close>: the helper libraries of
  these tests are not skipped.\<close>

theorem txn_libraries_run:
  "skipsFile (skipTests ''commands'' [Dir [File \<lparr>tfName = ''jstests/core/txns/libs/prepare_helpers.js'', tfBase = ''prepare_helpers.js''\<rparr>]])
     ''jstests/core/txns/libs/prepare_helpers.js'' = Inr False"
  by code_simp

text \<open>
  The verdict of the tester: if every thread returns its data, the threads are counted exactly, so the assertion holds if and only
  if all passed.\<close>

lemma joinRunners_exact:
  assumes "\<And>t w. t \<in> set ts \<Longrightarrow> thReturn env t w = (Val (d t), w)" and "\<And>t. t \<in> set ts \<Longrightarrow> d t \<noteq> Undef \<and> d t \<noteq> Null"
  shows "joinRunners env k names ts w =
    (let failed = filter (\<lambda>t. \<not> truthy (fld (d t) ''passed'')) ts in
     (Val (k + length failed, names @ map (\<lambda>t. fld (d t) ''testName'') failed), w))"
  using assms
proof (induction ts arbitrary: k names)
  case (Cons t ts)
  have get: "get_prop (d t) x = Inr (fld (d t) x)" for x using Cons.prems(2) [of t] by simp
  have rest: "joinRunners env k names ts w = (let failed = filter (\<lambda>t. \<not> truthy (fld (d t) ''passed'')) ts in
     (Val (k + length failed, names @ map (\<lambda>t. fld (d t) ''testName'') failed), w))" for k names
    using Cons.prems by (intro Cons.IH) auto
  show ?case using Cons.prems(1) [of t] by (simp add: js_simps Let_def get rest)
qed (simp add: js_simps)

theorem parallel_verdict:
  assumes "makeRunners env testData 0 params w = (Val ts, w1)" and "forEachE (thStart env) ts w1 = (Val (), w2)"
    and "\<And>t w. t \<in> set ts \<Longrightarrow> thReturn env t w = (Val (d t), w)" and "\<And>t. t \<in> set ts \<Longrightarrow> d t \<noteq> Undef \<and> d t \<noteq> Null"
  shows "parallelTests env tojson testData params msg w =
    (if \<forall>t \<in> set ts. truthy (fld (d t) ''passed'') then (Val (), w2)
     else (Throw (AssertFail (msg @ '': '' @ tojson (map (\<lambda>t. fld (d t) ''testName'') (filter (\<lambda>t. \<not> truthy (fld (d t) ''passed'')) ts)))), w2))"
proof -
  have "parallelTests env tojson testData params msg w =
      assertE (length (filter (\<lambda>t. \<not> truthy (fld (d t) ''passed'')) ts) = 0)
        (msg @ '': '' @ tojson (map (\<lambda>t. fld (d t) ''testName'') (filter (\<lambda>t. \<not> truthy (fld (d t) ''passed'')) ts))) w2"
    using assms(1,2) joinRunners_exact [where k = 0 and names = "[]" and w = w2, OF assms(3,4)] by (simp add: parallelTests_def js_simps Let_def)
  then show ?thesis by (simp add: assertE_def ret_def raise_def filter_empty_conv)
qed

text \<open>Values without objects of the shell reach a thread as they are.\<close>

fun plainArg :: "jsval \<Rightarrow> bool" where
  "plainArg (JExt _ _) = False"
| "plainArg (JLong _) = False"
| "plainArg (JInt _) = False"
| "plainArg (JArr xs) = (\<forall>x \<in> set xs. plainArg x)"
| "plainArg (JObj kvs) = (\<forall>kv \<in> set kvs. plainArg (snd kv))"
| "plainArg _ = True"

lemma evalCodeArgs_plain:
  "plainArg v \<Longrightarrow> evalCodeArgs eval v = Inr v"
  "\<forall>x \<in> set xs. plainArg x \<Longrightarrow> evalCodeList eval xs = Inr xs"
  "\<forall>kv \<in> set kvs. plainArg (snd kv) \<Longrightarrow> evalCodeProps eval kvs = Inr kvs"
  by (induction eval v and eval xs and eval kvs rule: evalCodeArgs_evalCodeList_evalCodeProps.induct) auto

end
