(* ===== verification/Parsed_Options.thy ===== *)
theory Parsed_Options
  imports Shell
begin

text \<open>
  The comparison of parsed command line options of \<open>jstests/libs/command_line/test_parsed_options.js\<close>: the merge of two options
  objects, and the tests that start a server with options and compare what it reports with what the framework's own options and the
  expected ones give.  The options of a server started without any are kept in a global variable and changed in place.  Servers are an
  environment.
\<close>

section \<open>Merging options\<close>

fun foldR :: "('a \<Rightarrow> 'b \<Rightarrow> 'b result) \<Rightarrow> 'a list \<Rightarrow> 'b \<Rightarrow> 'b result" where
  "foldR f [] y = Inr y"
| "foldR f (x # xs) y = rbind (f x y) (foldR f xs)"

lemma foldR_cong [fundef_cong]: "xs = ys \<Longrightarrow> b = c \<Longrightarrow> (\<And>x z. x \<in> set ys \<Longrightarrow> f x z = g x z) \<Longrightarrow> foldR f xs b = foldR g ys c"
proof (induction xs arbitrary: ys b c)
  case (Cons x xs)
  from Cons.prems Cons.IH [of xs _ _] have "foldR f xs = foldR g xs" by (intro ext) auto
  with Cons.prems show ?case by auto
qed simp

abbreviation structureError :: exn where
  "structureError \<equiv> Err ''Objects being merged must have the same structure''"

text \<open>The second loop: an object on both sides was merged by the first.\<close>

definition mergeSecond :: "jsval \<Rightarrow> string \<times> jsval \<Rightarrow> jsval \<Rightarrow> jsval result" where
  "mergeSecond obj1 kv obj3 = (case kv of (attrname, v2) \<Rightarrow>
     if typeof v2 = ''object''
     then rbind (get_prop obj1 attrname) (\<lambda>v1.
          if typeof v1 \<noteq> ''undefined'' then (if typeof v1 \<noteq> ''object'' then Inl structureError else Inr obj3)
          else Inr (set_prop attrname v2 obj3))
     else Inr (set_prop attrname v2 obj3))"

lemma object_prop_smaller: "(k, v) \<in> set (props a) \<Longrightarrow> typeof v = ''object'' \<Longrightarrow> size v < size a"
  by (cases a) (auto dest!: set_zip_rightD dest: size_elem size_prop_value)

function mergeOptions :: "jsval \<Rightarrow> jsval \<Rightarrow> jsval result" where
  "mergeOptions obj1 obj2 =
     rbind (foldR (\<lambda>(attrname, v1) obj3.
       rbind (if typeof v1 = ''object''
              then rbind (get_prop obj2 attrname) (\<lambda>v2.
                   if typeof v2 \<noteq> ''undefined'' then (if typeof v2 \<noteq> ''object'' then Inl structureError else mergeOptions v1 v2)
                   else Inr v1)
              else Inr v1) (\<lambda>m. Inr (set_prop attrname m obj3))) (props obj1) (JObj []))
     (foldR (mergeSecond obj1) (props obj2))"
  by pat_completeness auto
termination by (relation "measure (\<lambda>(a, _). size a)") (auto dest: object_prop_smaller)

declare mergeOptions.simps [simp del]

section \<open>What a merge is\<close>

text \<open>Trees of options: objects with distinct keys whose leaves are defined values that are not objects.\<close>

fun optTree :: "jsval \<Rightarrow> bool" where
  "optTree (JObj kvs) \<longleftrightarrow> distinct (map fst kvs) \<and> (\<forall>kv \<in> set kvs. optTree (snd kv))"
| "optTree v \<longleftrightarrow> typeof v \<noteq> ''object'' \<and> v \<noteq> Undef"

fun optAt :: "jsval \<Rightarrow> string list \<Rightarrow> jsval" where
  "optAt v [] = v"
| "optAt (JObj kvs) (k # ks) = optAt (fld (JObj kvs) k) ks"
| "optAt v (k # ks) = Undef"

definition leafAt :: "jsval \<Rightarrow> string list \<Rightarrow> jsval" where
  "leafAt v ks = (if typeof (optAt v ks) = ''object'' then Undef else optAt v ks)"

text \<open>Two trees have the same structure if no leaf of one is at the place of an object of the other.\<close>

function sameStructure :: "jsval \<Rightarrow> jsval \<Rightarrow> bool" where
  "sameStructure a b \<longleftrightarrow> (\<forall>(k, v) \<in> set (props a). has_own b k \<longrightarrow>
     (if typeof v = ''object'' then typeof (fld b k) = ''object'' \<and> sameStructure v (fld b k) else typeof (fld b k) \<noteq> ''object''))"
  by pat_completeness auto
termination by (relation "measure (\<lambda>(a, _). size a)") (auto dest: object_prop_smaller)

declare sameStructure.simps [simp del]

lemma optTree_object: "optTree v \<Longrightarrow> typeof v = ''object'' \<longleftrightarrow> (\<exists>kvs. v = JObj kvs)"
  by (cases v) auto

lemma object_defined: "typeof v = ''object'' \<Longrightarrow> v \<noteq> Undef"
  by auto

lemma optTree_fld: "optTree (JObj kvs) \<Longrightarrow> has_own (JObj kvs) k \<Longrightarrow> optTree (fld (JObj kvs) k)"
  by (force dest: has_own_props)

lemma optTree_own: "optTree (JObj kvs) \<Longrightarrow> has_own (JObj kvs) k \<longleftrightarrow> fld (JObj kvs) k \<noteq> Undef"
  using optTree_fld [of kvs k] fld_not_own [of "JObj kvs" k] by (cases "has_own (JObj kvs) k") auto

lemma leafAt_Cons: "leafAt (JObj kvs) (k # ks) = leafAt (fld (JObj kvs) k) ks"
  by (simp add: leafAt_def)

lemma leafAt_Undef [simp]: "leafAt Undef ks = Undef"
  by (cases ks) (simp_all add: leafAt_def)

lemma leafAt_leaf: "typeof v \<noteq> ''object'' \<Longrightarrow> leafAt v ks = (if ks = [] then v else Undef)"
  by (cases v; cases ks) (simp_all add: leafAt_def)

text \<open>A loop that writes one value for each property.\<close>

abbreviation writeLoop :: "(string \<Rightarrow> jsval \<Rightarrow> jsval result) \<Rightarrow> (string \<times> jsval) list \<Rightarrow> jsval \<Rightarrow> jsval result" where
  "writeLoop f \<equiv> foldR (\<lambda>(k, v) y. rbind (f k v) (\<lambda>m. Inr (set_prop k m y)))"

lemma writeLoop_defined: "(\<exists>z. writeLoop f kvs y = Inr z) \<longleftrightarrow> (\<forall>(k, v) \<in> set kvs. \<exists>m. f k v = Inr m)"
proof (induction kvs arbitrary: y)
  case (Cons kv kvs)
  obtain k v where kv: "kv = (k, v)" by (cases kv)
  show ?case by (cases "f k v") (simp_all add: kv Cons.IH)
qed simp

lemma writeLoop_fld:
  "writeLoop f kvs y = Inr z \<Longrightarrow> distinct (map fst kvs) \<Longrightarrow>
   fld z k = (case map_of kvs k of None \<Rightarrow> fld y k | Some v \<Rightarrow> projr (f k v))"
proof (induction kvs arbitrary: y)
  case (Cons kv kvs)
  obtain k' v where kv: "kv = (k', v)" by (cases kv)
  from Cons.prems obtain m where m: "f k' v = Inr m" and rest: "writeLoop f kvs (set_prop k' m y) = Inr z"
    by (cases "f k' v") (auto simp: kv)
  have "map_of kvs k' = None" using Cons.prems(2) by (simp add: kv map_of_eq_None_iff)
  with Cons.IH [OF rest] Cons.prems(2) m show ?case by (auto simp: kv split: option.split)
qed simp

lemma writeLoop_object:
  "writeLoop f kvs (JObj ps) = Inr z \<Longrightarrow> distinct (map fst ps) \<Longrightarrow>
   \<exists>qs. z = JObj qs \<and> distinct (map fst qs) \<and> fst ` set qs = fst ` set ps \<union> fst ` set kvs"
proof (induction kvs arbitrary: ps)
  case (Cons kv kvs)
  obtain k v where kv: "kv = (k, v)" by (cases kv)
  from Cons.prems obtain m where rest: "writeLoop f kvs (JObj (AList.update k m ps)) = Inr z"
    by (cases "f k v") (auto simp: kv set_prop_def)
  have "distinct (map fst (AList.update k m ps))" by (rule distinct_update [OF Cons.prems(2)])
  from Cons.IH [OF rest this] show ?case by (auto simp: kv dom_update)
qed auto

text \<open>A loop that writes the properties for which a test says so.\<close>

abbreviation writeSome :: "(string \<Rightarrow> jsval \<Rightarrow> bool result) \<Rightarrow> (string \<times> jsval) list \<Rightarrow> jsval \<Rightarrow> jsval result" where
  "writeSome f \<equiv> foldR (\<lambda>(k, v) y. rbind (f k v) (\<lambda>b. Inr (if b then set_prop k v y else y)))"

lemma writeSome_defined: "(\<exists>z. writeSome f kvs y = Inr z) \<longleftrightarrow> (\<forall>(k, v) \<in> set kvs. \<exists>b. f k v = Inr b)"
proof (induction kvs arbitrary: y)
  case (Cons kv kvs)
  obtain k v where kv: "kv = (k, v)" by (cases kv)
  show ?case by (cases "f k v") (simp_all add: kv Cons.IH)
qed simp

lemma writeSome_fld:
  "writeSome f kvs y = Inr z \<Longrightarrow> distinct (map fst kvs) \<Longrightarrow>
   fld z k = (case map_of kvs k of None \<Rightarrow> fld y k | Some v \<Rightarrow> if f k v = Inr True then v else fld y k)"
proof (induction kvs arbitrary: y)
  case (Cons kv kvs)
  obtain k' v where kv: "kv = (k', v)" by (cases kv)
  from Cons.prems obtain b where b: "f k' v = Inr b" and rest: "writeSome f kvs (if b then set_prop k' v y else y) = Inr z"
    by (cases "f k' v") (auto simp: kv)
  have "map_of kvs k' = None" using Cons.prems(2) by (simp add: kv map_of_eq_None_iff)
  with Cons.IH [OF rest] Cons.prems(2) b show ?case by (auto simp: kv split: option.split)
qed simp

lemma writeSome_object:
  "writeSome f kvs (JObj ps) = Inr z \<Longrightarrow> distinct (map fst ps) \<Longrightarrow>
   \<exists>qs. z = JObj qs \<and> distinct (map fst qs) \<and> fst ` set qs \<subseteq> fst ` set ps \<union> fst ` set kvs"
proof (induction kvs arbitrary: ps)
  case (Cons kv kvs)
  obtain k v where kv: "kv = (k, v)" by (cases kv)
  from Cons.prems obtain qs where rest: "writeSome f kvs (JObj qs) = Inr z" and qs: "qs = ps \<or> qs = AList.update k v ps"
    by (cases "f k v") (auto simp: kv set_prop_def split: if_splits)
  have d: "distinct (map fst qs)" using qs distinct_update [OF Cons.prems(2)] Cons.prems(2) by auto
  have "fst ` set qs \<subseteq> insert k (fst ` set ps)" using qs by (elim disjE) (simp_all add: dom_update subset_insertI)
  moreover obtain rs where rs: "z = JObj rs" "distinct (map fst rs)" "fst ` set rs \<subseteq> fst ` set qs \<union> fst ` set kvs"
    using Cons.IH [OF rest d] by blast
  ultimately have "fst ` set rs \<subseteq> fst ` set ps \<union> fst ` set (kv # kvs)" unfolding kv list.set image_insert fst_conv by blast
  with rs(1,2) show ?case by blast
qed auto

text \<open>What the two loops do for a key.\<close>

definition firstValue :: "jsval \<Rightarrow> string \<Rightarrow> jsval \<Rightarrow> jsval result" where
  "firstValue b k v =
     (if typeof v = ''object'' \<and> fld b k \<noteq> Undef then (if typeof (fld b k) \<noteq> ''object'' then Inl structureError else mergeOptions v (fld b k))
      else Inr v)"

definition secondWrites :: "jsval \<Rightarrow> string \<Rightarrow> jsval \<Rightarrow> bool result" where
  "secondWrites a k v =
     (if typeof v = ''object'' \<and> fld a k \<noteq> Undef then (if typeof (fld a k) \<noteq> ''object'' then Inl structureError else Inr False) else Inr True)"

lemma mergeOptions_loops:
  "mergeOptions (JObj as) (JObj bs) =
     rbind (writeLoop (firstValue (JObj bs)) as (JObj [])) (writeSome (secondWrites (JObj as)) bs)"
proof -
  have get: "get_prop (JObj kvs) k = Inr (fld (JObj kvs) k)" for kvs k by simp
  have "mergeSecond (JObj as) = (\<lambda>(k, v) y. rbind (secondWrites (JObj as) k v) (\<lambda>b. Inr (if b then set_prop k v y else y)))"
    by (intro ext) (auto simp: mergeSecond_def secondWrites_def get typeof_cases split: prod.split)
  moreover have "(if typeof v = ''object'' then rbind (get_prop (JObj bs) k) (\<lambda>v2. if typeof v2 \<noteq> ''undefined''
      then if typeof v2 \<noteq> ''object'' then Inl structureError else mergeOptions v v2 else Inr v) else Inr v) = firstValue (JObj bs) k v" for k v
    by (simp add: firstValue_def get typeof_cases)
  ultimately show ?thesis by (simp add: mergeOptions.simps [of "JObj as"])
qed

lemma merge_fields:
  assumes "optTree (JObj as)" and "optTree (JObj bs)" and "mergeOptions (JObj as) (JObj bs) = Inr c"
  shows "\<exists>cs. c = JObj cs \<and> distinct (map fst cs) \<and> fst ` set cs \<subseteq> fst ` set as \<union> fst ` set bs"
    and "typeof (fld (JObj as) k) = ''object'' \<Longrightarrow> fld (JObj bs) k \<noteq> Undef \<Longrightarrow>
      typeof (fld (JObj bs) k) = ''object'' \<and> mergeOptions (fld (JObj as) k) (fld (JObj bs) k) = Inr (fld c k)"
    and "typeof (fld (JObj as) k) \<noteq> ''object'' \<Longrightarrow> fld (JObj bs) k \<noteq> Undef \<Longrightarrow>
      (fld (JObj as) k = Undef \<or> typeof (fld (JObj bs) k) \<noteq> ''object'') \<and> fld c k = fld (JObj bs) k"
    and "fld (JObj bs) k = Undef \<Longrightarrow> fld c k = fld (JObj as) k"
proof -
  obtain z where z: "writeLoop (firstValue (JObj bs)) as (JObj []) = Inr z" and c: "writeSome (secondWrites (JObj as)) bs z = Inr c"
    using assms(3) by (auto simp: mergeOptions_loops rbind_Inr)
  obtain zs where zs: "z = JObj zs" "distinct (map fst zs)" "fst ` set zs = fst ` set as" using writeLoop_object [OF z] by auto
  show "\<exists>cs. c = JObj cs \<and> distinct (map fst cs) \<and> fst ` set cs \<subseteq> fst ` set as \<union> fst ` set bs"
    using writeSome_object [OF c [unfolded zs(1)] zs(2)] zs(3) by simp
  have da: "distinct (map fst as)" and db: "distinct (map fst bs)" using assms(1,2) by simp_all
  note fz = writeLoop_fld [OF z da, of k] and fc = writeSome_fld [OF c db, of k]
  have first: "\<exists>m. firstValue (JObj bs) k v = Inr m" if "map_of as k = Some v" for v
    using writeLoop_defined [of "firstValue (JObj bs)" as "JObj []"] z map_of_SomeD [OF that] by auto
  have second: "\<exists>b. secondWrites (JObj as) k v = Inr b" if "map_of bs k = Some v" for v
    using writeSome_defined [of "secondWrites (JObj as)" bs z] c map_of_SomeD [OF that] by auto
  have a: "fld (JObj as) k = (case map_of as k of None \<Rightarrow> Undef | Some v \<Rightarrow> v)"
    and b: "fld (JObj bs) k = (case map_of bs k of None \<Rightarrow> Undef | Some v \<Rightarrow> v)" by (simp_all add: fld_def)
  have undef: "fld (JObj []) k = Undef" by (simp add: fld_def)
  show "typeof (fld (JObj bs) k) = ''object'' \<and> mergeOptions (fld (JObj as) k) (fld (JObj bs) k) = Inr (fld c k)"
    if obj: "typeof (fld (JObj as) k) = ''object''" and own: "fld (JObj bs) k \<noteq> Undef"
  proof -
    obtain va vb where ab: "map_of as k = Some va" "map_of bs k = Some vb" using obj own a b by (auto split: option.splits)
    obtain m where "firstValue (JObj bs) k va = Inr m" using first [OF ab(1)] by blast
    then show ?thesis using obj own fz fc ab a b by (auto simp: firstValue_def secondWrites_def typeof_cases(5) [symmetric] split: if_splits)
  qed
  show "(fld (JObj as) k = Undef \<or> typeof (fld (JObj bs) k) \<noteq> ''object'') \<and> fld c k = fld (JObj bs) k"
    if leaf: "typeof (fld (JObj as) k) \<noteq> ''object''" and own: "fld (JObj bs) k \<noteq> Undef"
  proof -
    obtain vb where vb: "map_of bs k = Some vb" using own b by (auto split: option.splits)
    obtain w where "secondWrites (JObj as) k vb = Inr w" using second [OF vb] by blast
    then show ?thesis using leaf own fc vb b by (auto simp: secondWrites_def split: if_splits)
  qed
  show "fld c k = fld (JObj as) k" if none: "fld (JObj bs) k = Undef"
  proof (cases "map_of bs k")
    case None
    then show ?thesis using fz fc a none undef by (auto simp: firstValue_def split: option.splits)
  next
    case (Some v)
    then have "optTree Undef" using none b optTree_fld [OF assms(2), of k] by (simp add: has_own_map_of)
    then show ?thesis by simp
  qed
qed

lemma own_object: "has_own (JObj kvs) k \<longleftrightarrow> k \<in> fst ` set kvs"
  by (simp add: has_own_def obj_keys_def)

lemma merge_tree: "optTree a \<Longrightarrow> optTree b \<Longrightarrow> typeof a = ''object'' \<Longrightarrow> typeof b = ''object'' \<Longrightarrow> mergeOptions a b = Inr c \<Longrightarrow> optTree c"
proof (induction "size a" arbitrary: a b c rule: less_induct)
  case less
  then obtain as bs where ab: "a = JObj as" "b = JObj bs" by (auto simp: optTree_object)
  note fields = merge_fields [OF less.prems(1,2) [unfolded ab] less.prems(5) [unfolded ab]]
  obtain cs where c: "c = JObj cs" "distinct (map fst cs)" "fst ` set cs \<subseteq> fst ` set as \<union> fst ` set bs" using fields(1) by blast
  note own = optTree_own [OF less.prems(1) [unfolded ab]] optTree_own [OF less.prems(2) [unfolded ab]]
  note tree = optTree_fld [OF less.prems(1) [unfolded ab]] optTree_fld [OF less.prems(2) [unfolded ab]]
  have "optTree (fld c k)" if k: "k \<in> fst ` set cs" for k
  proof (cases "fld b k = Undef")
    case True
    then have "has_own a k" using k c(3) own(2) by (auto simp: ab own_object)
    then show ?thesis using tree(1) fields(4) True by (simp add: ab)
  next
    case False
    then have b: "optTree (fld b k)" using tree(2) own(2) by (simp add: ab)
    show ?thesis
    proof (cases "typeof (fld a k) = ''object''")
      case True
      have own_a: "has_own a k" using own(1) [of k] object_defined [OF True] by (simp add: ab)
      have smaller: "size (fld a k) < size a" by (rule object_prop_smaller [OF has_own_props [OF own_a] True])
      have "optTree (fld a k)" using tree(1) own_a by (simp add: ab)
      moreover have "typeof (fld b k) = ''object''" "mergeOptions (fld a k) (fld b k) = Inr (fld c k)"
        using fields(2) True False by (simp_all add: ab)
      ultimately show ?thesis by (rule less.hyps [OF smaller _ b True])
    qed (use b fields(3) False in \<open>simp add: ab\<close>)
  qed
  moreover have "snd kv = fld c (fst kv)" if "kv \<in> set cs" for kv
  proof -
    have "map_of cs (fst kv) = Some (snd kv)" using that c(2) by simp
    then show ?thesis by (simp add: c(1) fld_def)
  qed
  ultimately show ?case using c(1,2) by auto
qed

lemma merge_leaf:
  "optTree a \<Longrightarrow> optTree b \<Longrightarrow> typeof a = ''object'' \<Longrightarrow> typeof b = ''object'' \<Longrightarrow> mergeOptions a b = Inr c \<Longrightarrow>
   leafAt c ks = (if leafAt b ks \<noteq> Undef then leafAt b ks else leafAt a ks)"
proof (induction ks arbitrary: a b c)
  case Nil
  then obtain as bs where ab: "a = JObj as" "b = JObj bs" by (auto simp: optTree_object)
  from merge_fields(1) [OF Nil(1,2,5) [unfolded ab]] show ?case by (auto simp: leafAt_def ab)
next
  case (Cons k ks)
  then obtain as bs where ab: "a = JObj as" "b = JObj bs" by (auto simp: optTree_object)
  note fields = merge_fields [OF Cons.prems(1,2,5) [unfolded ab]]
  obtain cs where c: "c = JObj cs" using fields(1) by blast
  note own = optTree_own [OF Cons.prems(1) [unfolded ab]] optTree_own [OF Cons.prems(2) [unfolded ab]]
  note tree = optTree_fld [OF Cons.prems(1) [unfolded ab]] optTree_fld [OF Cons.prems(2) [unfolded ab]]
  have steps: "leafAt c (k # ks) = leafAt (fld c k) ks" "leafAt a (k # ks) = leafAt (fld a k) ks" "leafAt b (k # ks) = leafAt (fld b k) ks"
    by (simp_all add: c ab leafAt_Cons)
  consider "fld b k = Undef" | "fld b k \<noteq> Undef" "typeof (fld a k) \<noteq> ''object''" | "fld b k \<noteq> Undef" "typeof (fld a k) = ''object''" by blast
  then have "leafAt (fld c k) ks = (if leafAt (fld b k) ks \<noteq> Undef then leafAt (fld b k) ks else leafAt (fld a k) ks)"
  proof cases
    case 1
    then show ?thesis using fields(4) [of k] by (simp add: ab)
  next
    case 2
    then have c: "fld a k = Undef \<or> typeof (fld b k) \<noteq> ''object''" "fld c k = fld b k" using fields(3) [of k] by (simp_all add: ab)
    show ?thesis unfolding c(2) using c(1) 2 by (elim disjE) (simp_all add: leafAt_leaf)
  next
    case 3
    then have "optTree (fld a k)" "optTree (fld b k)" using tree own object_defined [OF 3(2)] by (simp_all add: ab)
    then show ?thesis using 3 fields(2) [of k] by (intro Cons.IH) (auto simp: ab)
  qed
  then show ?case unfolding steps .
qed

lemma tree_all:
  assumes "optTree (JObj as)"
  shows "(\<forall>(k, v) \<in> set as. P k v) \<longleftrightarrow> (\<forall>k. fld (JObj as) k \<noteq> Undef \<longrightarrow> P k (fld (JObj as) k))"
proof -
  have "v \<noteq> Undef" "v = fld (JObj as) k" if "(k, v) \<in> set as" for k v
  proof -
    have "map_of as k = Some v" using that assms by simp
    then show "v = fld (JObj as) k" by (simp add: fld_def)
    show "v \<noteq> Undef" using assms that by force
  qed
  moreover have "(k, fld (JObj as) k) \<in> set as" if "fld (JObj as) k \<noteq> Undef" for k
    using that by (auto simp: fld_def split: option.splits dest: map_of_SomeD)
  ultimately show ?thesis by blast
qed

lemma merge_defined:
  "optTree a \<Longrightarrow> optTree b \<Longrightarrow> typeof a = ''object'' \<Longrightarrow> typeof b = ''object'' \<Longrightarrow> (\<exists>c. mergeOptions a b = Inr c) \<longleftrightarrow> sameStructure a b"
proof (induction "size a" arbitrary: a b rule: less_induct)
  case less
  then obtain as bs where ab: "a = JObj as" "b = JObj bs" by (auto simp: optTree_object)
  note trees = less.prems(1,2) [unfolded ab]
  note own = optTree_own [OF trees(1)] optTree_own [OF trees(2)]
  have merged: "(\<exists>c. mergeOptions (fld a k) (fld b k) = Inr c) \<longleftrightarrow> sameStructure (fld a k) (fld b k)"
    if obj: "typeof (fld a k) = ''object''" "typeof (fld b k) = ''object''" for k
  proof -
    have have_own: "has_own a k" "has_own b k" using own object_defined [OF obj(1)] object_defined [OF obj(2)] by (simp_all add: ab)
    have "size (fld a k) < size a" by (rule object_prop_smaller [OF has_own_props [OF have_own(1)] obj(1)])
    moreover have "optTree (fld a k)" "optTree (fld b k)" using have_own optTree_fld trees by (simp_all add: ab)
    ultimately show ?thesis using obj by (rule less.hyps)
  qed
  have "(\<exists>c. mergeOptions a b = Inr c) \<longleftrightarrow>
      (\<exists>z. writeLoop (firstValue b) as (JObj []) = Inr z \<and> (\<exists>c. writeSome (secondWrites a) bs z = Inr c))"
    by (auto simp: ab mergeOptions_loops rbind_Inr)
  also have "\<dots> \<longleftrightarrow>
      (\<exists>z. writeLoop (firstValue b) as (JObj []) = Inr z) \<and> (\<forall>(k, v) \<in> set bs. \<exists>w. secondWrites a k v = Inr w)"
    unfolding writeSome_defined by blast
  also have "\<dots> \<longleftrightarrow> (\<forall>k. fld a k \<noteq> Undef \<longrightarrow> (\<exists>m. firstValue b k (fld a k) = Inr m)) \<and>
      (\<forall>k. fld b k \<noteq> Undef \<longrightarrow> (\<exists>w. secondWrites a k (fld b k) = Inr w))"
    unfolding writeLoop_defined tree_all [OF trees(1)] tree_all [OF trees(2)] by (simp add: ab)
  also have "\<dots> \<longleftrightarrow> (\<forall>k. fld a k \<noteq> Undef \<longrightarrow> fld b k \<noteq> Undef \<longrightarrow> (if typeof (fld a k) = ''object''
      then typeof (fld b k) = ''object'' \<and> sameStructure (fld a k) (fld b k) else typeof (fld b k) \<noteq> ''object''))"
    using merged by (auto simp: firstValue_def secondWrites_def split: if_splits)
  also have "\<dots> \<longleftrightarrow> sameStructure a b"
    unfolding sameStructure.simps [of a b] unfolding ab props.simps tree_all [OF trees(1)] own ..
  finally show ?case .
qed

text \<open>
  C39. The merge of two trees of options (objects nested in objects, with strings, numbers and booleans as leaves; neither arrays nor
  \<open>null\<close>, which \<open>typeof\<close> does not tell from objects) is exact: it succeeds if and only if the two have the same structure, and the result is a tree
  of options again that has at every path the leaf of the second tree if there is one and otherwise that of the first.\<close>

theorem merge_exact:
  assumes "optTree (JObj as)" and "optTree (JObj bs)"
  shows "if sameStructure (JObj as) (JObj bs)
    then \<exists>c. mergeOptions (JObj as) (JObj bs) = Inr c \<and> optTree c \<and>
      (\<forall>ks. leafAt c ks = (if leafAt (JObj bs) ks \<noteq> Undef then leafAt (JObj bs) ks else leafAt (JObj as) ks))
    else \<exists>e. mergeOptions (JObj as) (JObj bs) = Inl e"
proof (cases "mergeOptions (JObj as) (JObj bs)")
  case (Inl e)
  then show ?thesis using merge_defined [OF assms] by auto
next
  case (Inr c)
  then have "sameStructure (JObj as) (JObj bs)" using merge_defined [OF assms] by auto
  with Inr merge_tree [OF assms _ _ Inr] merge_leaf [OF assms _ _ Inr] show ?thesis by simp
qed

theorem merge_exact_witness:
  "mergeOptions (JObj [(''net'', JObj [(''port'', jnum 1)]), (''v'', JBool True)]) (JObj [(''net'', JObj [(''ipv6'', JBool True)]), (''v'', JBool False)]) =
     Inr (JObj [(''net'', JObj [(''port'', jnum 1), (''ipv6'', JBool True)]), (''v'', JBool False)]) \<and>
   (\<exists>c. mergeOptions (JObj [(''net'', JObj [(''port'', jnum 1)]), (''v'', JBool True)]) (JObj [(''net'', JObj [(''ipv6'', JBool True)]), (''v'', JBool False)]) = Inr c \<and> optTree c)"
proof -
  let ?a = "[(''net'', JObj [(''port'', jnum 1)]), (''v'', JBool True)]" and ?b = "[(''net'', JObj [(''ipv6'', JBool True)]), (''v'', JBool False)]"
  have run: "mergeOptions (JObj ?a) (JObj ?b) = Inr (JObj [(''net'', JObj [(''port'', jnum 1), (''ipv6'', JBool True)]), (''v'', JBool False)])"
    by code_simp
  have "optTree (JObj ?a)" "optTree (JObj ?b)" by simp_all
  from merge_exact [OF this] run show ?thesis by (auto split: if_splits)
qed

section \<open>The options of a server\<close>

text \<open>\<open>typeof v.k1.k2 === "undefined"\<close>, tested step by step, and \<open>delete v.k1.k2\<close>.\<close>

fun missingAt :: "string list \<Rightarrow> jsval \<Rightarrow> bool result" where
  "missingAt [] v = Inr False"
| "missingAt (k # ks) v = rbind (get_prop v k) (\<lambda>x. if x = Undef then Inr True else missingAt ks x)"

fun deleteAt :: "string list \<Rightarrow> jsval \<Rightarrow> jsval result" where
  "deleteAt [] v = Inr v"
| "deleteAt [k] v = rbind (get_prop v k) (\<lambda>_. Inr (case v of JObj _ \<Rightarrow> del_prop k v | _ \<Rightarrow> v))"
| "deleteAt (k # ks) v = rbind (get_prop v k) (\<lambda>x. rbind (deleteAt ks x) (\<lambda>y. Inr (case v of JObj _ \<Rightarrow> set_prop k y v | _ \<Rightarrow> v)))"

definition portPath :: "string list" where "portPath = [''parsed'', ''net'', ''port'']"
definition dbPathPath :: "string list" where "dbPathPath = [''parsed'', ''storage'', ''dbPath'']"

text \<open>An option the test does not set is left out of the comparison.\<close>

definition dropUnset :: "jsval \<Rightarrow> string list \<Rightarrow> jsval \<Rightarrow> jsval result" where
  "dropUnset expected path v = rbind (missingAt path expected) (\<lambda>missing. if missing then deleteAt path v else Inr v)"

definition dropBoth :: "jsval \<Rightarrow> jsval \<Rightarrow> jsval result" where
  "dropBoth expected v = rbind (dropUnset expected portPath v) (dropUnset expected dbPathPath)"

record 's poEnv =
  poRunMongod :: "jsval \<Rightarrow> ('s, nat) eff"
  poRunMongos :: "jsval \<Rightarrow> ('s, nat) eff"
  poStop :: "nat \<Rightarrow> ('s, unit) eff"
  poCmdLineOpts :: "nat \<Rightarrow> ('s, jsval) eff"
  poInitiate :: "nat \<Rightarrow> ('s, string) eff"           \<comment> \<open>initiates the config server and waits for it to be primary; gives its host\<close>
  poLogin :: "nat \<Rightarrow> ('s, unit) eff"
  poLogout :: "nat \<Rightarrow> ('s, unit) eff"
  poDocEq :: "jsval \<Rightarrow> jsval \<Rightarrow> bool"

text \<open>The two global variables that keep the options of servers started without any.\<close>

record 's poState =
  baseMongod :: "jsval option"
  baseMongos :: "jsval option"
  poWorld :: 's

definition onServers :: "('s, 'a) eff \<Rightarrow> ('s poState, 'a) eff" where
  "onServers m = (\<lambda>s. case m (poWorld s) of (r, w) \<Rightarrow> (r, s\<lparr>poWorld := w\<rparr>))"

definition getBaseOptsObject :: "'s poEnv \<Rightarrow> ('s, jsval) eff" where
  "getBaseOptsObject env =
     bindE (poRunMongod env Undef) (\<lambda>mongod.
     bindE (poCmdLineOpts env mongod) (\<lambda>opts.
     seqE (poStop env mongod) (ret opts)))"

definition testGetCmdLineOptsMongod :: "'s poEnv \<Rightarrow> jsval \<Rightarrow> jsval \<Rightarrow> ('s poState, unit) eff" where
  "testGetCmdLineOptsMongod env mongoRunnerConfig expectedResult =
     bindE (getE baseMongod) (\<lambda>cached.
     seqE (case cached of
         Some _ \<Rightarrow> ret ()
       | None \<Rightarrow> bindE (onServers (getBaseOptsObject env)) (\<lambda>opts. modE (baseMongod_update (\<lambda>_. Some opts))))
    (bindE (getE (\<lambda>s. the (baseMongod s))) (\<lambda>base0.
     bindE (liftE (dropUnset expectedResult portPath base0)) (\<lambda>base1.
     seqE (modE (baseMongod_update (\<lambda>_. Some base1)))
    (bindE (liftE (dropUnset expectedResult dbPathPath base1)) (\<lambda>base2.
     seqE (modE (baseMongod_update (\<lambda>_. Some base2)))
    (bindE (liftE (mergeOptions base2 expectedResult)) (\<lambda>expected.
     bindE (onServers (poRunMongod env mongoRunnerConfig)) (\<lambda>mongod.
     seqE (tryCatch (onServers (poLogin env mongod)) (\<lambda>_. ret ()))
    (bindE (onServers (poCmdLineOpts env mongod)) (\<lambda>result0.
     bindE (liftE (dropUnset expected portPath result0)) (\<lambda>result1.
     bindE (liftE (dropUnset expected dbPathPath result1)) (\<lambda>result.
     bindE (liftE (get_prop result ''parsed'')) (\<lambda>parsed.
     bindE (liftE (get_prop expected ''parsed'')) (\<lambda>wanted.
     seqE (assertE (poDocEq env parsed wanted) ''documents are not equal'')
    (seqE (onServers (poLogout env mongod)) (onServers (poStop env mongod))))))))))))))))))"

definition getCmdLineOptsFromMongos :: "'s poEnv \<Rightarrow> jsval \<Rightarrow> ('s, jsval) eff" where
  "getCmdLineOptsFromMongos env mongosOptions =
     bindE (poRunMongod env (JObj [(''configsvr'', JStr ''''), (''journal'', JStr ''''), (''replSet'', JStr ''csrs''), (''storageEngine'', JStr ''wiredTiger'')])) (\<lambda>mongod.
     bindE (poInitiate env mongod) (\<lambda>host.
     bindE (poRunMongos env (obj_assign (obj_assign (JObj []) mongosOptions) (JObj [(''configdb'', JStr (''csrs/'' @ host))]))) (\<lambda>mongos.
     bindE (poCmdLineOpts env mongos) (\<lambda>opts.
     bindE (liftE (deleteAt [''parsed'', ''sharding'', ''configDB''] opts)) (\<lambda>result.
     seqE (poStop env mongos) (seqE (poStop env mongod) (ret result)))))))"

definition testGetCmdLineOptsMongos :: "'s poEnv \<Rightarrow> jsval \<Rightarrow> jsval \<Rightarrow> ('s poState, unit) eff" where
  "testGetCmdLineOptsMongos env mongoRunnerConfig expectedResult =
     bindE (getE baseMongos) (\<lambda>cached.
     seqE (case cached of
         Some _ \<Rightarrow> ret ()
       | None \<Rightarrow> bindE (onServers (getCmdLineOptsFromMongos env (JObj []))) (\<lambda>opts. modE (baseMongos_update (\<lambda>_. Some opts))))
    (bindE (getE (\<lambda>s. the (baseMongos s))) (\<lambda>base0.
     bindE (liftE (dropUnset expectedResult portPath base0)) (\<lambda>base1.
     seqE (modE (baseMongos_update (\<lambda>_. Some base1)))
    (bindE (liftE (mergeOptions base1 expectedResult)) (\<lambda>expected.
     bindE (onServers (getCmdLineOptsFromMongos env mongoRunnerConfig)) (\<lambda>result0.
     bindE (liftE (dropUnset expected portPath result0)) (\<lambda>result.
     bindE (liftE (get_prop result ''parsed'')) (\<lambda>parsed.
     bindE (liftE (get_prop expected ''parsed'')) (\<lambda>wanted.
     assertE (poDocEq env parsed wanted) ''documents are not equal''))))))))))"

section \<open>The options that are kept\<close>

abbreviation below :: "string list \<Rightarrow> string list \<Rightarrow> bool" where
  "below path ks \<equiv> take (length path) ks = path"

lemma optAt_leaf: "typeof v \<noteq> ''object'' \<Longrightarrow> ks \<noteq> [] \<Longrightarrow> optAt v ks = Undef"
  by (cases v; cases ks) simp_all

lemma optAt_append: "optAt v (p @ q) = optAt (optAt v p) q"
proof (induction p arbitrary: v)
  case (Cons k p)
  have "optAt Undef q = Undef" by (cases q) simp_all
  then show ?case using Cons.IH by (cases v) simp_all
qed simp

text \<open>Nothing is below a leaf.\<close>

lemma leaf_end:
  assumes "leafAt v p \<noteq> Undef" and "below p ks" and "ks \<noteq> p"
  shows "leafAt v ks = Undef"
proof -
  obtain q where ks: "ks = p @ q" using assms(2) by (metis append_take_drop_id)
  have "typeof (optAt v p) \<noteq> ''object''" using assms(1) by (auto simp: leafAt_def split: if_splits)
  moreover have "q \<noteq> []" using assms(3) ks by simp
  ultimately show ?thesis by (simp add: leafAt_def ks optAt_append optAt_leaf)
qed

lemma set_update_subset: "set (AList.update k x kvs) \<subseteq> insert (k, x) (set kvs)"
  by (induction kvs) auto

lemma optTree_set_prop: "optTree (JObj kvs) \<Longrightarrow> optTree x \<Longrightarrow> optTree (set_prop k x (JObj kvs))"
  using set_update_subset [of k x kvs] by (fastforce simp: set_prop_def intro: distinct_update)

lemma set_delete_subset: "set (AList.delete k kvs) \<subseteq> set kvs"
  by (induction kvs) auto

lemma optTree_del_prop: "optTree (JObj kvs) \<Longrightarrow> optTree (del_prop k (JObj kvs))"
  using distinct_delete [of kvs k] by (auto simp: del_prop_def dest: set_delete_subset [THEN subsetD])

lemma leafAt_object [simp]: "typeof v = ''object'' \<Longrightarrow> leafAt v [] = Undef"
  by (simp add: leafAt_def)

lemma typeof_del_prop: "typeof (del_prop k v) = ''object''"
  by (simp add: del_prop_def)

lemma leafAt_set_prop: "leafAt (set_prop k x v) (k' # ks) = (if k' = k then leafAt x ks else leafAt (JObj (props v)) (k' # ks))"
  by (simp add: set_prop_def leafAt_Cons fld_def update_conv)

lemma leafAt_del_prop: "leafAt (del_prop k v) (k' # ks) = (if k' = k then Undef else leafAt (JObj (props v)) (k' # ks))"
  by (simp add: del_prop_def leafAt_Cons fld_def delete_conv)

lemma deleteAt_leaf:
  "optTree v \<Longrightarrow> path \<noteq> [] \<Longrightarrow> deleteAt path v = Inr v' \<Longrightarrow>
   optTree v' \<and> typeof v' = typeof v \<and> leafAt v' ks = (if below path ks then Undef else leafAt v ks)"
proof (induction path v arbitrary: v' ks rule: deleteAt.induct)
  case (2 k v)
  show ?case
  proof (cases "typeof v = ''object''")
    case True
    then obtain kvs where v: "v = JObj kvs" using 2 by (auto simp: optTree_object)
    have v': "v' = del_prop k (JObj kvs)" using 2(3) by (simp add: v rbind_Inr)
    show ?thesis
      using optTree_del_prop [of kvs k] 2(1) by (cases ks) (simp_all add: v v' leafAt_del_prop typeof_del_prop)
  next
    case False
    then have "v' = v" using 2(3) by (auto simp: rbind_Inr split: jsval.splits)
    then show ?thesis using False 2(1) by (auto simp: leafAt_leaf)
  qed
next
  case (3 k k' ks' v)
  show ?case
  proof (cases "typeof v = ''object''")
    case True
    then obtain kvs where v: "v = JObj kvs" using 3 by (auto simp: optTree_object)
    obtain y where y: "deleteAt (k' # ks') (fld v k) = Inr y" and v': "v' = set_prop k y v" using 3(4) by (auto simp: v rbind_Inr)
    have "fld v k \<noteq> Undef" using y by (cases ks') (auto simp: rbind_Inr)
    then have "optTree (fld v k)" using 3(2) optTree_own [of kvs k] optTree_fld [of kvs k] by (simp add: v)
    from 3(1) [OF _ this _ y] have y': "optTree y" "leafAt y ks = (if below (k' # ks') ks then Undef else leafAt (fld v k) ks)" for ks
      by (simp_all add: v)
    show ?thesis
    proof (cases ks)
      case Nil
      then show ?thesis using optTree_set_prop [OF 3(2) [unfolded v] y'(1)] by (simp add: v v' leafAt_def)
    next
      case (Cons l ls)
      then show ?thesis using optTree_set_prop [OF 3(2) [unfolded v] y'(1)] y'(2) [of ls] by (auto simp: v v' leafAt_set_prop leafAt_Cons)
    qed
  next
    case False
    then have "v' = v" using 3(4) by (cases v) (auto simp: rbind_Inr)
    then show ?thesis using False 3(2) by (auto simp: leafAt_leaf)
  qed
qed simp

text \<open>An expectation that says at a path either nothing or a value that is no object.\<close>

definition plainAt :: "string list \<Rightarrow> jsval \<Rightarrow> bool" where
  "plainAt path e \<longleftrightarrow> missingAt path e = Inr (leafAt e path = Undef)"

definition plain :: "jsval \<Rightarrow> bool" where
  "plain e \<longleftrightarrow> plainAt portPath e \<and> plainAt dbPathPath e"

abbreviation dropped :: "jsval \<Rightarrow> string list \<Rightarrow> bool" where
  "dropped e ks \<equiv> leafAt e portPath = Undef \<and> below portPath ks \<or> leafAt e dbPathPath = Undef \<and> below dbPathPath ks"

lemma dropUnset_leaf:
  assumes "optTree v" and "plainAt path e" and "path \<noteq> []" and "dropUnset e path v = Inr v'"
  shows "optTree v'" and "typeof v' = typeof v" and "leafAt v' ks = (if leafAt e path = Undef \<and> below path ks then Undef else leafAt v ks)"
  using assms deleteAt_leaf [OF assms(1,3), of v' ks] by (auto simp: dropUnset_def plainAt_def split: if_splits)

lemma dropBoth_leaf:
  assumes "optTree v" and "plain e" and "dropBoth e v = Inr v'"
  shows "optTree v'" and "typeof v' = typeof v" and "leafAt v' ks = (if dropped e ks then Undef else leafAt v ks)"
proof -
  obtain w where w: "dropUnset e portPath v = Inr w" and v': "dropUnset e dbPathPath w = Inr v'"
    using assms(3) by (auto simp: dropBoth_def rbind_Inr)
  have paths: "portPath \<noteq> []" "dbPathPath \<noteq> []" by (simp_all add: portPath_def dbPathPath_def)
  note first = dropUnset_leaf [OF assms(1) _ paths(1) w] and second = dropUnset_leaf [OF _ _ paths(2) v']
  show "optTree v'" "typeof v' = typeof v" "leafAt v' ks = (if dropped e ks then Undef else leafAt v ks)"
    using assms(2) first second by (simp_all add: plain_def)
qed

lemma dropMany_leaf:
  "optTree v \<Longrightarrow> \<forall>e \<in> set es. plain e \<Longrightarrow> foldR dropBoth es v = Inr v' \<Longrightarrow>
   optTree v' \<and> typeof v' = typeof v \<and> leafAt v' ks = (if \<exists>e \<in> set es. dropped e ks then Undef else leafAt v ks)"
proof (induction es arbitrary: v)
  case (Cons e es)
  obtain w where w: "dropBoth e v = Inr w" and rest: "foldR dropBoth es w = Inr v'" using Cons.prems(3) by (auto simp: rbind_Inr)
  have e: "plain e" using Cons.prems by simp
  note d = dropBoth_leaf [OF Cons.prems(1) e w]
  have es: "\<forall>e \<in> set es. plain e" using Cons.prems by simp
  from Cons.IH [OF d(1) es rest] d(2,3) show ?case by auto
qed simp

text \<open>
  What a test of options is compared with does not depend on the tests before it, although each of them deletes from the kept options
  in place: it is the same, leaf by leaf, as with freshly read options.\<close>

theorem kept_options_history:
  assumes base: "optTree T" "typeof T = ''object''" "leafAt T portPath \<noteq> Undef" "leafAt T dbPathPath \<noteq> Undef"
    and before: "\<forall>e \<in> set es. plain e" "foldR dropBoth es T = Inr T'"
    and e: "optTree e" "typeof e = ''object''" "plain e"
    and fresh: "dropBoth e T = Inr B" "mergeOptions B e = Inr X"
    and kept: "dropBoth e T' = Inr B'" "mergeOptions B' e = Inr X'"
  shows "leafAt X' ks = leafAt X ks"
proof -
  note T' = dropMany_leaf [OF base(1) before]
  note B = dropBoth_leaf [OF base(1) e(3) fresh(1)] and B' = dropBoth_leaf [OF _ e(3) kept(1)]
  have X: "leafAt X ks = (if leafAt e ks \<noteq> Undef then leafAt e ks else if dropped e ks then Undef else leafAt T ks)"
    using merge_leaf [OF B(1) e(1) _ e(2) fresh(2)] B base(2) by simp
  have X': "leafAt X' ks = (if leafAt e ks \<noteq> Undef then leafAt e ks else if dropped e ks then Undef else leafAt T' ks)"
    using merge_leaf [OF B'(1) e(1) _ e(2) kept(2)] B' T' base(2) by simp
  have "leafAt T ks = Undef" if "leafAt e ks = Undef" "\<not> dropped e ks" "below p ks" "p \<in> {portPath, dbPathPath}" for p
    using that leaf_end [OF _ that(3)] base(3,4) by (cases "ks = p") auto
  then have "leafAt T' ks = leafAt T ks" if "leafAt e ks = Undef" "\<not> dropped e ks" using that T' by auto
  then show ?thesis unfolding X X' by simp
qed

end
