(* ===== verification/Spec2Isabelle.thy ===== *)
theory Spec2Isabelle
  imports Assert_Level Resmoke Cycle_Detection Agg_Utils Analyze_Plan Read_Preference Retrying_Overrides Rollback_Test Txn_Override_Ops
    Stepdown Change_Stream_Test Sharded_Partitions Chunk_Workload_Thms Initial_Sync Rollback_Deluxe Command_Sequence Manual_Intervention
    Implicit_Sharding Session_Override Bank_Workload Txn_Status Counter_Workloads Queue_Workloads Parallel_Tester Parsed_Options
begin

text \<open>
  \<^bold>\<open>The test infrastructure of the MongoDB JavaScript suites.\<close>  The repository holds several thousand test
  scripts for the mongo shell.  Most of them only send commands to a server and assert on the replies; the logic
  of the program itself is in the libraries the scripts load, and those libraries are what this
  development models: the finite state machine (FSM) library of the concurrency suites under
  \<open>jstests/concurrency/fsm_libs\<close>, the override of \<open>Mongo.runCommand\<close> that turns tests into
  transactions and retries them, under \<open>jstests/libs/override_methods\<close>, and helper libraries with algorithms of
  their own.

  \<^bold>\<open>How the parts work together.\<close>  \<open>resmoke_runner.js\<close> (theory Resmoke) or \<open>runner.js\<close> (Runner,
  Runner_Options, Schedule) takes a list of workloads, validates the options, starts a \<open>Cluster\<close> (Cluster,
  Cluster_Options, Topology), loads each workload's configuration (Parse_Config) and hands the group to the
  \<open>ThreadManager\<close> (Thread_Mgr).  The manager scales the thread counts, spawns the threads, and watches a
  count-down latch until enough of them are ready.  Each thread (Worker) connects, prepares its sessions, and runs
  either one machine (Fsm) or a mixture of all of them (Composer); inside transactions a state is retried by
  \<open>withTxnAndAutoRetry\<close> (Txn_Retry).  How strong the assertions of a workload are depends on
  what it shares (Assert_Level).  A test that is run under the network-error and transaction override sends
  its commands through \<open>runCommandOverride\<close> (Txn_Override, with Override_Helpers), which groups them into
  transactions, records them, and replays them when a transaction fails.

  \<^bold>\<open>Modelling.\<close>  Js_Prelude has the values of the shell (\<open>jsval\<close>; a number is an exact rational, \<open>NaN\<close> or an
  infinity), its exceptions, pure results (\<open>result\<close>) and stateful computations that return, throw or run
  out of fuel (\<open>eff\<close>), and three notions of invariant for them (\<open>keeps\<close>, \<open>safe\<close>, \<open>hoare\<close>).  Shell has what the sources call of
  the shell and what is not in the repository: error codes, command assertions, comparison of BSON values.  Servers,
  sessions, fixtures, clocks and random numbers are arguments, fields of an environment record
  passed to the definitions that use them; what a theorem needs of them is one of its hypotheses.  Each
  script's own variables are a record, each of its functions a definition of the same name, and every
  assertion, exception and early return of the source is a branch.  Text that is only printed is not represented.

  \<^item> Assert_Level (\<open>assert.js\<close>): levels and the wrapped assertions; an assertion above the global level does
    nothing, and \<open>doassert\<close> is restored after each.
  \<^item> Parse_Config (\<open>parse_config.js\<close>, \<open>extend_workload.js\<close>): every accepted configuration is normalised, and
    normalisation is idempotent.  The locale \<open>validator\<close> is the contract the option checks of Runner_Options meet too.
  \<^item> Fsm (\<open>fsm.js\<close>): the machine walks its transition graph, the weighted choice is exact, and what an aborted transaction wrote into
    the object and array literals of its data never becomes visible.  Objects of other types are references into a store, which the copy
    of the data shares, and a change inside one of them survives an aborted attempt.
  \<^item> Txn_Retry (\<open>auto_retry_transaction.js\<close>, \<open>prepare_helpers.js\<close>): a function that returns has committed, it is not run again after
    a commit whose outcome is unknown, and the retries end if the transient errors do.
  \<^item> Composer (\<open>composer.js\<close>) and Schedule (\<open>scheduleWorkloads\<close> of \<open>runner.js\<close>): the mixed walk, and the coverage and
    shape of the schedule.
  \<^item> Topology (\<open>discover_topology.js\<close>, \<open>shard_fixture.js\<close>), Cluster_Options and Cluster (\<open>cluster.js\<close>): discovery finds
    every data node, options are typed after validation, connections are complete and used in turn.
  \<^item> Thread_Mgr (\<open>thread_mgr.js\<close>): thread counts, the threads spawned, and the start-up protocol of the parent and
    the workers as an inductive step relation with its invariant and progress.
  \<^item> Worker (\<open>worker_thread.js\<close>): a thread counts the latch down exactly once, on every path.
  \<^item> Runner_Options, Runner (\<open>runner.js\<close>, \<open>name_utils.js\<close>) and Resmoke (\<open>resmoke_runner.js\<close>): options, namespaces, and the
    tear-down of exactly the workloads that were set up, whatever fails.
  \<^item> Override_Helpers (\<open>override_helpers.js\<close>, \<open>read_and_write_concern_helpers.js\<close>, \<open>retryable_writes_util.js\<close>,
    \<open>error_code_utils.js\<close>, \<open>transactions_util.js\<close>): classification of commands and responses.
  \<^item> Txn_Override (\<open>network_error_and_txn_override.js\<close>): the override.  Txn_Override_Thms proves, in the locales
    \<open>override_invariant\<close>, \<open>nested_invariant\<close> and \<open>free_invariant\<close>, what each of its functions keeps for any way
    of running a nested command, closes the recursion by induction on the fuel, and shows that the bookkeeping is
    restored, that statements of a transaction are not sent again, that network errors are retried three times, and that a
    failed command ends the transaction; Txn_Override_Ops shows the invariant of the recorded operations.
  \<^item> Cycle_Detection (\<open>cycle_detection.js\<close>): \<open>findCycle\<close> decides acyclicity of the edge relation.
  \<^item> Agg_Utils (\<open>aggregation/extras/utils.js\<close>): two sets of results compare equal if and only if one can be rearranged to match the
    other element by element; the greedy matching of the comparison is the locale \<open>keyed_equality\<close>.
  \<^item> Analyze_Plan (\<open>analyze_plan.js\<close>): the search of explain output returns exactly the nodes of the plan with a stage,
    an inductive relation; the tests for covered queries, rejected plans and counts agree with it.
  \<^item> Rewriting_Overrides (\<open>set_read_and_write_concerns.js\<close>, \<open>txn_passthrough_cmd_massage.js\<close>,
    \<open>implicitly_wrap_pipelines_in_facets.js\<close>, \<open>fail_unclean_shutdown_incompatible_commands.js\<close>): overrides that send a rewritten
    command or throw.  What they share is the locale \<open>rewriting_override\<close>: one send at most, and the same result
    however often an idempotent rewriting is installed; it is interpreted on each of the four.
  \<^item> Read_Preference (\<open>set_read_preference_secondary.js\<close>): the tracker of cursors; a cursor's commands go to the connection that
    opened it.
  \<^item> Retrying_Overrides (the overrides that retry on background operations and pending drops,
    \<open>retry_writes_at_least_once.js\<close>, \<open>causally_consistent_index_builds.js\<close>,
    \<open>check_for_operation_not_supported_in_transaction.js\<close>): what is retried; an unordered insert retried
    over pending drops stores and reports each document once, an ordered one loses documents.
  \<^item> Change_Stream_Overrides (\<open>implicit_whole_db_changestreams.js\<close>, \<open>implicit_whole_cluster_changestreams.js\<close>): which change
    streams are widened and into what, and that a cursor of a widened stream is read where it was opened.
  \<^item> Change_Stream_Test (\<open>change_stream_util.js\<close>, \<open>namespace_utils.js\<close>): the changes the fixture returns are the next ones of the
    stream, in order, each as expected.
  \<^item> Stepdown (\<open>continuous_stepdown.js\<close>): the thread that steps down primaries, with its turns interleaved with the test by an
    inductive step relation; stopping it is prompt and final, for one set and for a sharded cluster.
  \<^item> Sharded_Partitions (\<open>chunks.js\<close>, \<open>sharded_base_partitioned.js\<close>, the set-up of \<open>sharded_mergeChunks_partitioned.js\<close>): the
    partitions of the threads tile the keys, and the set-up leaves one chunk for each.  Chunk_Workloads and Chunk_Workload_Thms
    (\<open>sharded_splitChunk_partitioned.js\<close>, \<open>sharded_mergeChunks_partitioned.js\<close>, \<open>sharded_moveChunk_partitioned.js\<close>): the states
    that change a chunk, the laws of a cluster over the thread's view of its partition, and that the states accept every cluster that
    keeps them: the primaries do not change while a state runs, and the answers of secondaries are not relied on.
  \<^item> Staged_Fixture: the locale \<open>staged_fixture\<close> of the fixtures with stages; the stages they go through are a path of their table.
    It is interpreted by Rollback_Test (\<open>replsets/libs/rollback_test.js\<close>), which refines an abstract machine of stages, roles and cut
    links and of the restarts that may change them, by Rollback_Deluxe (\<open>replsets/libs/rollback_test_deluxe.js\<close>), its sibling with five nodes and rotating roles, and by
    Initial_Sync (\<open>replsets/libs/initial_sync_test.js\<close>), where one of two fail points holds the sync at every moment.
  \<^item> Implicit_Sharding (\<open>implicitly_shard_accessed_collections.js\<close>): a collection that is handed out is sharded or in use.
    Session_Override (\<open>enable_sessions.js\<close>): one session for each connection, and one more instance of \<open>rewriting_override\<close>.
  \<^item> Manual_Intervention (\<open>mongos_manual_intervention_actions.js\<close>) and Command_Sequence (\<open>command_sequence_with_retries.js\<close>): what is
    cleaned up and sent again, how often at most, and when a sequence of steps succeeds.
  \<^item> Txn_Store: the atomicity of a session's transactions as hypotheses, and what \<open>withTxnAndAutoRetry\<close> then guarantees: a function
    that returns has taken effect exactly once.  On it rest two families of workloads.  Bank_Workload
    (\<open>multi_statement_transaction_simple.js\<close>, its extensions, \<open>kill_session.js\<close>): money is moved exactly once and none is lost.
    Atomicity_Workload (\<open>multi_statement_transaction_atomicity_isolation.js\<close>, its extensions): the anomaly checks accept every serial
    history and what they accept is consistent, but the check of a thread's writes compares numbers only.  Txn_Status
    (\<open>check_transaction_server_status_invariants.js\<close>): what the check of the transaction counters tolerates.
  \<^item> Server_Types (\<open>server_types.js\<close>) serves the workloads on single documents.  Counter_Workloads (\<open>findAndModify_inc.js\<close>, \<open>update_inc.js\<close>,
    \<open>update_ordered_bulk_inc.js\<close>, \<open>make_capped.js\<close>): the threads as an inductive step relation, in every interleaving of which each thread's
    count is the value of its field.  Queue_Workloads (\<open>findAndModify_remove_queue.js\<close> and its four extensions): the search for documents
    taken twice ends and is exact over ascending arrays, and misses duplicates over the arrays it is given.
  \<^item> Parallel_Tester (\<open>parallelTester.js\<close>): the lists of test files that run side by side hold every test they should, once, and the
    verdict over the threads is exact.  Parsed_Options (\<open>test_parsed_options.js\<close>): the merge of two trees of options has the leaves of
    the second over those of the first, and the options kept between tests do not influence them.

  \<^bold>\<open>Fuel.\<close>  Recursion is structural or has a termination proof wherever the source bounds it.  Fuel is used where it does
  not: the retry loops of Txn_Retry and Txn_Override, which go on while the server keeps answering with retryable errors,
  and the re-entrant calls of the override.  The theorems on them hold for every amount of fuel that ends the run, and
  where the source bounds the number of retries the theorem shows that a fixed amount is enough.  The depth-first
  search takes the number of nodes as fuel, which is shown to suffice.  The attempts of \<open>assert.soon\<close> are bounded by a clock: how
  many there are is an argument, over which the theorems quantify.  The turns a step-down thread takes while the test waits for it
  are an argument too, and four are shown to be enough.  The removal of left-over chunks takes fuel; more than there are chunks
  suffices.

  \<^bold>\<open>Not modelled.\<close>  The tests themselves and the other FSM workloads (scripts of server commands: what they check is the server,
  which is not here), the tables of privileges under \<open>jstests/auth/lib\<close>, fixtures that only start processes, the
  Python build scripts, and the hooks that compare what the servers report, such as the check of collection identifiers.
\<close>

end
